(* ===== verification/Prelude.thy ===== *)
theory Prelude
  imports Main "HOL-Library.Word" "HOL-Library.Monad_Syntax"
begin

unbundle bit_operations_syntax

text \<open>
  Vocabulary shared by every component of the model.
  \<^item> The machine integers of the C++ code are words of their own width, so that addition
    and subtraction wrap exactly where the code's unsigned arithmetic wraps.
    \<open>size_t\<close> values that only count bytes held in memory are \<open>nat\<close>.
  \<^item> A byte span, a \<open>std::vector<uint8_t>\<close> and a \<open>std::string\<close> are all a list of bytes.
  \<^item> A read through a raw pointer or through \<open>operator[]\<close> is \<^emph>\<open>checked\<close>: it gives \<open>None\<close>
    where the C++ read would leave the buffer (undefined behaviour). A function whose result has
    the type \<open>'a checked\<close> is free of such reads exactly when it is never \<open>None\<close>.
    \<open>std::optional\<close> results are a second, inner, \<open>option\<close>.
\<close>

type_synonym u8 = "8 word"
type_synonym u16 = "16 word"
type_synonym u32 = "32 word"
type_synonym u64 = "64 word"
text \<open>A signed 32-bit integer is kept as its two's complement bit pattern.\<close>
type_synonym i32 = "32 word"
type_synonym bytes = "u8 list"
type_synonym 'a checked = "'a option"

abbreviation nullopt :: "'a option checked" where
  "nullopt \<equiv> Some None"

abbreviation some_opt :: "'a \<Rightarrow> 'a option checked" where
  "some_opt x \<equiv> Some (Some x)"

text \<open>The bytes of a string literal.\<close>

definition bytes_of :: "string \<Rightarrow> bytes" where
  "bytes_of s = map of_char s"

named_theorems checked_simps \<open>how a checked read meets the bytes a writer put down\<close>
named_theorems in_range \<open>a checked read inside its buffer succeeds\<close>
named_theorems kconsts \<open>the numeric constants of the code\<close>

section \<open>Checked reads\<close>

definition rd8 :: "bytes \<Rightarrow> nat \<Rightarrow> u8 checked" where
  "rd8 p i = (if i < length p then Some (p ! i) else None)"

text \<open>A copy of \<open>n\<close> bytes from offset \<open>off\<close> (\<open>assign(p + off, p + off + n)\<close>).\<close>

definition rdn :: "bytes \<Rightarrow> nat \<Rightarrow> nat \<Rightarrow> bytes checked" where
  "rdn p off n = (if off + n \<le> length p then Some (take n (drop off p)) else None)"

text \<open>\<open>span::subspan(off)\<close>, undefined past the end.\<close>

definition subspan :: "bytes \<Rightarrow> nat \<Rightarrow> bytes checked" where
  "subspan p off = (if off \<le> length p then Some (drop off p) else None)"

lemma rd8_in [in_range]: "i < length p \<Longrightarrow> rd8 p i = Some (p ! i)"
  by (simp add: rd8_def)

lemma rdn_in [in_range]: "off + n \<le> length p \<Longrightarrow> rdn p off n = Some (take n (drop off p))"
  by (simp add: rdn_def)

lemma subspan_in [in_range]: "off \<le> length p \<Longrightarrow> subspan p off = Some (drop off p)"
  by (simp add: subspan_def)

lemma rd8_Cons_0 [checked_simps]: "rd8 (x # xs) 0 = Some x"
  by (simp add: rd8_def)

lemma rd8_Cons [checked_simps]: "0 < i \<Longrightarrow> rd8 (x # xs) i = rd8 xs (i - 1)"
  by (auto simp: rd8_def nth_Cons')

lemma rd8_skip [checked_simps]: "length xs \<le> i \<Longrightarrow> rd8 (xs @ ys) i = rd8 ys (i - length xs)"
  by (auto simp: rd8_def nth_append)

lemma rdn_Cons [checked_simps]: "0 < i \<Longrightarrow> rdn (x # xs) i n = rdn xs (i - 1) n"
  by (cases i) (auto simp: rdn_def)

lemma rdn_skip [checked_simps]: "length xs \<le> i \<Longrightarrow> rdn (xs @ ys) i n = rdn ys (i - length xs) n"
  by (auto simp: rdn_def)

lemma rdn_here [checked_simps]: "length xs = n \<Longrightarrow> rdn (xs @ ys) 0 n = Some xs"
  by (auto simp: rdn_def)

lemma rdn_all [checked_simps]: "length xs = n \<Longrightarrow> rdn xs 0 n = Some xs"
  by (auto simp: rdn_def)

lemma rdn_none [checked_simps]: "rdn xs 0 0 = Some []"
  by (auto simp: rdn_def)

lemma subspan_Cons [checked_simps]: "0 < i \<Longrightarrow> subspan (x # xs) i = subspan xs (i - 1)"
  by (cases i) (auto simp: subspan_def)

lemma subspan_skip [checked_simps]:
  "length xs \<le> i \<Longrightarrow> subspan (xs @ ys) i = subspan ys (i - length xs)"
  by (auto simp: subspan_def)

lemma subspan_0 [checked_simps]: "subspan xs 0 = Some xs"
  by (auto simp: subspan_def)

text \<open>\<open>std::vector::operator[]\<close>, undefined past the end.\<close>

definition vec_at :: "'a list \<Rightarrow> nat \<Rightarrow> 'a checked" where
  "vec_at xs i = (if i < length xs then Some (xs ! i) else None)"

lemma vec_at_in [in_range]: "i < length xs \<Longrightarrow> vec_at xs i = Some (xs ! i)"
  by (simp add: vec_at_def)

section \<open>Printable bytes\<close>

text \<open>The control characters every receiver removes from a name: \<open>c < 0x20\<close> and \<open>0x7F\<close>.\<close>

definition printable :: "u8 \<Rightarrow> bool" where
  "printable c \<longleftrightarrow> 0x20 \<le> c \<and> c \<noteq> 0x7F"

end
