(* ===== verification/ByteOrder.thy ===== *)
theory ByteOrder
  imports Prelude
begin

text \<open>
  Big-endian integers in byte buffers (\<open>core/include/deskhub/protocol/ByteOrder.h\<close>). The
  writers give the bytes they store at \<open>p\<close>, in order; the readers take the buffer and the
  offset the C++ pointer stands at, and are checked.
\<close>

definition PutU16 :: "u16 \<Rightarrow> bytes" where
  "PutU16 v = [ucast (drop_bit 8 v), ucast v]"

definition PutU32 :: "u32 \<Rightarrow> bytes" where
  "PutU32 v = [ucast (drop_bit 24 v), ucast (drop_bit 16 v), ucast (drop_bit 8 v), ucast v]"

definition PutU64 :: "u64 \<Rightarrow> bytes" where
  "PutU64 v = PutU32 (ucast (drop_bit 32 v)) @ PutU32 (ucast v)"

definition GetU16 :: "bytes \<Rightarrow> nat \<Rightarrow> u16 checked" where
  "GetU16 p i = do {
     a \<leftarrow> rd8 p i;
     b \<leftarrow> rd8 p (i + 1);
     Some (push_bit 8 (ucast a) OR ucast b)
   }"

definition GetU32 :: "bytes \<Rightarrow> nat \<Rightarrow> u32 checked" where
  "GetU32 p i = do {
     a \<leftarrow> rd8 p i;
     b \<leftarrow> rd8 p (i + 1);
     c \<leftarrow> rd8 p (i + 2);
     d \<leftarrow> rd8 p (i + 3);
     Some (push_bit 24 (ucast a) OR push_bit 16 (ucast b) OR push_bit 8 (ucast c) OR ucast d)
   }"

definition GetU64 :: "bytes \<Rightarrow> nat \<Rightarrow> u64 checked" where
  "GetU64 p i = do {
     h \<leftarrow> GetU32 p i;
     l \<leftarrow> GetU32 p (i + 4);
     Some (push_bit 32 (ucast h) OR ucast l)
   }"

section \<open>Sizes\<close>

lemma length_PutU16 [simp]: "length (PutU16 v) = 2"
  by (simp add: PutU16_def)

lemma length_PutU32 [simp]: "length (PutU32 v) = 4"
  by (simp add: PutU32_def)

lemma length_PutU64 [simp]: "length (PutU64 v) = 8"
  by (simp add: PutU64_def)

section \<open>A writer followed by its reader\<close>

lemma split_u16: "push_bit 8 (ucast (ucast (drop_bit 8 v) :: u8)) OR ucast (ucast v :: u8) = (v :: u16)"
  by (rule bit_word_eqI)
    (auto simp: bit_or_iff bit_push_bit_iff bit_ucast_iff bit_drop_bit_eq not_less
      dest: bit_imp_le_length)

lemma split_u32:
  "push_bit 24 (ucast (ucast (drop_bit 24 v) :: u8)) OR push_bit 16 (ucast (ucast (drop_bit 16 v) :: u8))
     OR push_bit 8 (ucast (ucast (drop_bit 8 v) :: u8)) OR ucast (ucast v :: u8) = (v :: u32)"
  (is "?w = v")
proof (rule bit_word_eqI)
  fix n
  assume "n < LENGTH(32)"
  moreover have "n < 8 \<or> (8 \<le> n \<and> n < 16) \<or> (16 \<le> n \<and> n < 24) \<or> 24 \<le> n"
    by linarith
  ultimately show "bit ?w n = bit v n"
    by (elim disjE) (auto simp: bit_or_iff bit_push_bit_iff bit_ucast_iff bit_drop_bit_eq)
qed

lemma split_u64:
  "push_bit 32 (ucast (ucast (drop_bit 32 v) :: u32)) OR ucast (ucast v :: u32) = (v :: u64)"
  by (rule bit_word_eqI)
    (auto simp: bit_or_iff bit_push_bit_iff bit_ucast_iff bit_drop_bit_eq not_less
      dest: bit_imp_le_length)

lemma GetU16_here [checked_simps]: "GetU16 (PutU16 v @ ys) 0 = Some v"
  by (simp add: GetU16_def PutU16_def checked_simps split_u16)

lemma GetU32_here [checked_simps]: "GetU32 (PutU32 v @ ys) 0 = Some v"
  by (simp add: GetU32_def PutU32_def checked_simps split_u32)

lemma GetU32_Cons [checked_simps]: "0 < i \<Longrightarrow> GetU32 (x # xs) i = GetU32 xs (i - 1)"
  by (simp add: GetU32_def checked_simps)

lemma GetU32_skip [checked_simps]:
  "length xs \<le> i \<Longrightarrow> GetU32 (xs @ ys) i = GetU32 ys (i - length xs)"
  by (simp add: GetU32_def checked_simps Suc_diff_le)

lemma GetU16_Cons [checked_simps]: "0 < i \<Longrightarrow> GetU16 (x # xs) i = GetU16 xs (i - 1)"
  by (simp add: GetU16_def checked_simps)

lemma GetU16_skip [checked_simps]:
  "length xs \<le> i \<Longrightarrow> GetU16 (xs @ ys) i = GetU16 ys (i - length xs)"
  by (simp add: GetU16_def checked_simps Suc_diff_le)

lemma GetU64_here [checked_simps]: "GetU64 (PutU64 v @ ys) 0 = Some v"
  by (simp add: GetU64_def PutU64_def checked_simps split_u64)

lemma GetU64_Cons [checked_simps]: "0 < i \<Longrightarrow> GetU64 (x # xs) i = GetU64 xs (i - 1)"
  by (simp add: GetU64_def checked_simps)

lemma GetU64_skip [checked_simps]:
  "length xs \<le> i \<Longrightarrow> GetU64 (xs @ ys) i = GetU64 ys (i - length xs)"
  by (simp add: GetU64_def checked_simps)

lemma GetU16_last [checked_simps]: "GetU16 (PutU16 v) 0 = Some v"
  using GetU16_here [of v "[]"] by simp

lemma GetU32_last [checked_simps]: "GetU32 (PutU32 v) 0 = Some v"
  using GetU32_here [of v "[]"] by simp

lemma GetU64_last [checked_simps]: "GetU64 (PutU64 v) 0 = Some v"
  using GetU64_here [of v "[]"] by simp

section \<open>Reads inside the buffer\<close>

text \<open>The pure value a read inside the buffer gives, for bounds proofs that do not need it.\<close>

lemma GetU16_in_ex: "i + 2 \<le> length p \<Longrightarrow> \<exists>v. GetU16 p i = Some v"
  by (simp add: GetU16_def in_range)

lemma GetU32_in_ex: "i + 4 \<le> length p \<Longrightarrow> \<exists>v. GetU32 p i = Some v"
  by (simp add: GetU32_def in_range)

lemma GetU64_in_ex: "i + 8 \<le> length p \<Longrightarrow> \<exists>v. GetU64 p i = Some v"
  by (simp add: GetU64_def GetU32_def in_range)

definition u16_at :: "bytes \<Rightarrow> nat \<Rightarrow> u16" where
  "u16_at p i = (case GetU16 p i of Some v \<Rightarrow> v | None \<Rightarrow> 0)"

definition u32_at :: "bytes \<Rightarrow> nat \<Rightarrow> u32" where
  "u32_at p i = (case GetU32 p i of Some v \<Rightarrow> v | None \<Rightarrow> 0)"

definition u64_at :: "bytes \<Rightarrow> nat \<Rightarrow> u64" where
  "u64_at p i = (case GetU64 p i of Some v \<Rightarrow> v | None \<Rightarrow> 0)"

lemma GetU16_in [in_range]: "i + 2 \<le> length p \<Longrightarrow> GetU16 p i = Some (u16_at p i)"
  using GetU16_in_ex [of i p] by (auto simp: u16_at_def)

lemma GetU32_in [in_range]: "i + 4 \<le> length p \<Longrightarrow> GetU32 p i = Some (u32_at p i)"
  using GetU32_in_ex [of i p] by (auto simp: u32_at_def)

lemma GetU64_in [in_range]: "i + 8 \<le> length p \<Longrightarrow> GetU64 p i = Some (u64_at p i)"
  using GetU64_in_ex [of i p] by (auto simp: u64_at_def)

end
