(* ===== verification/WireTypes.thy ===== *)
theory WireTypes
  imports ByteOrder
begin

text \<open>
  The data of the wire protocol: the constants, enumerations and message structures of
  \<open>core/include/deskhub/protocol/Wire.h\<close>.
  Every enumeration of the code is an \<open>enum class : uint8_t\<close>, which a cast can give any byte;
  its datatype has the code's enumerators and one \<open>Raw\<close> constructor for the bytes that name
  none of them. \<open>X_code\<close> is the cast to the byte, \<open>X_of\<close> the cast from it.
\<close>

section \<open>Constants\<close>

definition kProtocolVersion :: u8 where [kconsts]: "kProtocolVersion = 3"
definition kMaxDatagram :: nat where [kconsts]: "kMaxDatagram = 1200"
definition kCommonHeaderSize :: nat where [kconsts]: "kCommonHeaderSize = 8"
definition kVideoHeaderSize :: nat where [kconsts]: "kVideoHeaderSize = 16"
definition kFecHeaderSize :: nat where [kconsts]: "kFecHeaderSize = 16"
definition kFecGroupSize :: nat where [kconsts]: "kFecGroupSize = 8"
definition kMaxFecGroups :: nat where [kconsts]: "kMaxFecGroups = 256"
definition kFecLenPrefix :: nat where [kconsts]: "kFecLenPrefix = 2"

definition kMaxVideoPayload :: nat where
  "kMaxVideoPayload = kMaxDatagram - kCommonHeaderSize - kFecHeaderSize - kFecLenPrefix"

definition kAudioHeaderSize :: nat where [kconsts]: "kAudioHeaderSize = 12"

definition kMaxAudioPayload :: nat where
  "kMaxAudioPayload = kMaxDatagram - kCommonHeaderSize - kAudioHeaderSize"

definition kInputHeaderSize :: nat where [kconsts]: "kInputHeaderSize = 5"
definition kInputEventSize :: nat where [kconsts]: "kInputEventSize = 19"

definition kMaxInputEvents :: nat where
  "kMaxInputEvents = (kMaxDatagram - kCommonHeaderSize - kInputHeaderSize) div kInputEventSize"

definition kNackHeaderSize :: nat where [kconsts]: "kNackHeaderSize = 5"
definition kMaxNackIndices :: nat where [kconsts]: "kMaxNackIndices = 255"
definition kClipboardHeaderSize :: nat where [kconsts]: "kClipboardHeaderSize = 8"

definition kMaxClipboardChunkPayload :: nat where
  "kMaxClipboardChunkPayload = kMaxDatagram - kCommonHeaderSize - kClipboardHeaderSize"

definition kMaxClipboardTextBytes :: nat where [kconsts]: "kMaxClipboardTextBytes = 32768"

definition kMaxClipboardChunks :: nat where
  "kMaxClipboardChunks =
     (kMaxClipboardTextBytes + kMaxClipboardChunkPayload - 1) div kMaxClipboardChunkPayload"

definition kVideoFlagIdr :: u8 where [kconsts]: "kVideoFlagIdr = 1"
definition kVideoFlagFrameEnd :: u8 where [kconsts]: "kVideoFlagFrameEnd = 2"
definition kMaxSources :: nat where [kconsts]: "kMaxSources = 8"
definition kMaxSourceNameBytes :: nat where [kconsts]: "kMaxSourceNameBytes = 64"
definition kHostAcceptsInput :: u8 where [kconsts]: "kHostAcceptsInput = 1"
definition kHostSharesTerminal :: u8 where [kconsts]: "kHostSharesTerminal = 2"
definition kHostSharesAudio :: u8 where [kconsts]: "kHostSharesAudio = 4"
definition kHostAcceptsFiles :: u8 where [kconsts]: "kHostAcceptsFiles = 8"
definition kMaxClientNameBytes :: nat where [kconsts]: "kMaxClientNameBytes = 64"
definition kAuthSessionIdBytes :: nat where [kconsts]: "kAuthSessionIdBytes = 32"
definition kAuthVersion :: u8 where [kconsts]: "kAuthVersion = 8"
definition kMaxAuthBlobBytes :: nat where [kconsts]: "kMaxAuthBlobBytes = 256"
definition kPairingTokenBytes :: nat where [kconsts]: "kPairingTokenBytes = 32"
definition kRecordPrefixSize :: nat where [kconsts]: "kRecordPrefixSize = 2"
definition kMaxRecordSize :: nat where [kconsts]: "kMaxRecordSize = 16384"
definition kMaxTermDataBytes :: nat where [kconsts]: "kMaxTermDataBytes = 4096"
definition kMinTermCols :: u16 where [kconsts]: "kMinTermCols = 1"
definition kMinTermRows :: u16 where [kconsts]: "kMinTermRows = 1"
definition kMaxTermCols :: u16 where [kconsts]: "kMaxTermCols = 1000"
definition kMaxTermRows :: u16 where [kconsts]: "kMaxTermRows = 1000"
definition kMaxTermListEntries :: nat where [kconsts]: "kMaxTermListEntries = 16"
definition kMaxTransferFiles :: nat where [kconsts]: "kMaxTransferFiles = 32"
definition kMaxTransferNameBytes :: nat where [kconsts]: "kMaxTransferNameBytes = 255"
definition kMaxTransferFileBytes :: u64 where [kconsts]: "kMaxTransferFileBytes = 0x200000000"
definition kMaxTransferBatchBytes :: u64 where [kconsts]: "kMaxTransferBatchBytes = 0x800000000"
definition kFileOfferHeaderSize :: nat where [kconsts]: "kFileOfferHeaderSize = 5"
definition kFileOfferEntryOverhead :: nat where [kconsts]: "kFileOfferEntryOverhead = 9"
definition kFileChunkHeaderSize :: nat where [kconsts]: "kFileChunkHeaderSize = 14"

definition kMaxFileChunkBytes :: nat where
  "kMaxFileChunkBytes = kMaxRecordSize - kCommonHeaderSize - kFileChunkHeaderSize"

definition kMaxTransferReason :: u8 where [kconsts]: "kMaxTransferReason = 10"

lemma kderived [kconsts]:
  "kMaxVideoPayload = 1174" "kMaxAudioPayload = 1180" "kMaxInputEvents = 62"
  "kMaxClipboardChunkPayload = 1184" "kMaxClipboardChunks = 28" "kMaxFileChunkBytes = 16362"
  by (simp_all add: kMaxVideoPayload_def kMaxAudioPayload_def kMaxInputEvents_def
      kMaxClipboardChunkPayload_def kMaxClipboardChunks_def kMaxFileChunkBytes_def kconsts)

section \<open>Enumerations\<close>

datatype Chan = ChanControl | ChanVideo | ChanInput | ChanAudio | ChanTerminal | ChanFile
  | ChanRaw u8

fun Chan_code :: "Chan \<Rightarrow> u8" where
  "Chan_code ChanControl = 0"
| "Chan_code ChanVideo = 1"
| "Chan_code ChanInput = 2"
| "Chan_code ChanAudio = 3"
| "Chan_code ChanTerminal = 4"
| "Chan_code ChanFile = 5"
| "Chan_code (ChanRaw b) = b"

definition Chan_of :: "u8 \<Rightarrow> Chan" where
  "Chan_of b = (case map_of (map (\<lambda>c. (Chan_code c, c))
       [ChanControl, ChanVideo, ChanInput, ChanAudio, ChanTerminal, ChanFile]) b of
     Some c \<Rightarrow> c | None \<Rightarrow> ChanRaw b)"

datatype MsgType = MsgHello | MsgHelloAck | MsgStart | MsgBye | MsgListSources | MsgSourceList
  | MsgVideoPacket | MsgFecPacket | MsgAudioPacket | MsgInputEvent | MsgPing | MsgPong
  | MsgFeedback | MsgRequestKeyframe | MsgReconfig | MsgSetFocus | MsgNack | MsgInvalidateRef
  | MsgClipboard | MsgTermOpen | MsgTermOpenAck | MsgTermData | MsgTermResize | MsgTermClose
  | MsgTermExit | MsgTermList | MsgTermListAck | MsgAuthStart | MsgAuthChallenge
  | MsgAuthResponse | MsgAuthResult | MsgFileOffer | MsgFileAccept | MsgFileChunk | MsgFileDone
  | MsgFileAck | MsgFileCancel | MsgRaw u8

fun MsgType_code :: "MsgType \<Rightarrow> u8" where
  "MsgType_code MsgHello = 0x01"
| "MsgType_code MsgHelloAck = 0x02"
| "MsgType_code MsgStart = 0x03"
| "MsgType_code MsgBye = 0x04"
| "MsgType_code MsgListSources = 0x05"
| "MsgType_code MsgSourceList = 0x06"
| "MsgType_code MsgVideoPacket = 0x10"
| "MsgType_code MsgFecPacket = 0x11"
| "MsgType_code MsgAudioPacket = 0x12"
| "MsgType_code MsgInputEvent = 0x20"
| "MsgType_code MsgPing = 0x30"
| "MsgType_code MsgPong = 0x31"
| "MsgType_code MsgFeedback = 0x32"
| "MsgType_code MsgRequestKeyframe = 0x33"
| "MsgType_code MsgReconfig = 0x34"
| "MsgType_code MsgSetFocus = 0x35"
| "MsgType_code MsgNack = 0x36"
| "MsgType_code MsgInvalidateRef = 0x37"
| "MsgType_code MsgClipboard = 0x40"
| "MsgType_code MsgTermOpen = 0x50"
| "MsgType_code MsgTermOpenAck = 0x51"
| "MsgType_code MsgTermData = 0x52"
| "MsgType_code MsgTermResize = 0x53"
| "MsgType_code MsgTermClose = 0x54"
| "MsgType_code MsgTermExit = 0x55"
| "MsgType_code MsgTermList = 0x56"
| "MsgType_code MsgTermListAck = 0x57"
| "MsgType_code MsgAuthStart = 0x60"
| "MsgType_code MsgAuthChallenge = 0x61"
| "MsgType_code MsgAuthResponse = 0x62"
| "MsgType_code MsgAuthResult = 0x63"
| "MsgType_code MsgFileOffer = 0x70"
| "MsgType_code MsgFileAccept = 0x71"
| "MsgType_code MsgFileChunk = 0x72"
| "MsgType_code MsgFileDone = 0x73"
| "MsgType_code MsgFileAck = 0x74"
| "MsgType_code MsgFileCancel = 0x75"
| "MsgType_code (MsgRaw b) = b"

text \<open>The enumerators in the order of the header.\<close>

definition named_MsgTypes :: "MsgType list" where
  "named_MsgTypes =
     [MsgHello, MsgHelloAck, MsgStart, MsgBye, MsgListSources, MsgSourceList, MsgVideoPacket,
      MsgFecPacket, MsgAudioPacket, MsgInputEvent, MsgPing, MsgPong, MsgFeedback,
      MsgRequestKeyframe, MsgReconfig, MsgSetFocus, MsgNack, MsgInvalidateRef, MsgClipboard,
      MsgTermOpen, MsgTermOpenAck, MsgTermData, MsgTermResize, MsgTermClose, MsgTermExit,
      MsgTermList, MsgTermListAck, MsgAuthStart, MsgAuthChallenge, MsgAuthResponse,
      MsgAuthResult, MsgFileOffer, MsgFileAccept, MsgFileChunk, MsgFileDone, MsgFileAck,
      MsgFileCancel]"

definition MsgType_of :: "u8 \<Rightarrow> MsgType" where
  "MsgType_of b = (case map_of (map (\<lambda>t. (MsgType_code t, t)) named_MsgTypes) b of
     Some t \<Rightarrow> t | None \<Rightarrow> MsgRaw b)"

datatype RejectReason = RejectNone | RejectBusy | RejectRaw u8

fun RejectReason_code :: "RejectReason \<Rightarrow> u8" where
  "RejectReason_code RejectNone = 0"
| "RejectReason_code RejectBusy = 1"
| "RejectReason_code (RejectRaw b) = b"

definition RejectReason_of :: "u8 \<Rightarrow> RejectReason" where
  "RejectReason_of b = (if b = 0 then RejectNone else if b = 1 then RejectBusy else RejectRaw b)"

datatype AuthMode = AuthDenied | AuthSignature | AuthModeConfigError | AuthModeAwaitingApproval
  | AuthModeRaw u8

fun AuthMode_code :: "AuthMode \<Rightarrow> u8" where
  "AuthMode_code AuthDenied = 0"
| "AuthMode_code AuthSignature = 1"
| "AuthMode_code AuthModeConfigError = 2"
| "AuthMode_code AuthModeAwaitingApproval = 3"
| "AuthMode_code (AuthModeRaw b) = b"

definition AuthMode_of :: "u8 \<Rightarrow> AuthMode" where
  "AuthMode_of b =
     (if b = 0 then AuthDenied else if b = 1 then AuthSignature else if b = 2 then AuthModeConfigError
      else if b = 3 then AuthModeAwaitingApproval else AuthModeRaw b)"

datatype AuthResultCode = AuthAccepted | AuthNotPaired | AuthRefused | AuthTimedOut
  | AuthVersionMismatch | AuthBadSignature | AuthConfigError | AuthUntrustedHost
  | AuthLocalKeyUnavailable | AuthAwaitingApproval | AuthRateLimited | AuthResultRaw u8

fun AuthResultCode_code :: "AuthResultCode \<Rightarrow> u8" where
  "AuthResultCode_code AuthAccepted = 0"
| "AuthResultCode_code AuthNotPaired = 1"
| "AuthResultCode_code AuthRefused = 2"
| "AuthResultCode_code AuthTimedOut = 3"
| "AuthResultCode_code AuthVersionMismatch = 4"
| "AuthResultCode_code AuthBadSignature = 5"
| "AuthResultCode_code AuthConfigError = 6"
| "AuthResultCode_code AuthUntrustedHost = 7"
| "AuthResultCode_code AuthLocalKeyUnavailable = 8"
| "AuthResultCode_code AuthAwaitingApproval = 9"
| "AuthResultCode_code AuthRateLimited = 10"
| "AuthResultCode_code (AuthResultRaw b) = b"

definition AuthResultCode_of :: "u8 \<Rightarrow> AuthResultCode" where
  "AuthResultCode_of b = (case map_of (map (\<lambda>t. (AuthResultCode_code t, t))
       [AuthAccepted, AuthNotPaired, AuthRefused, AuthTimedOut, AuthVersionMismatch,
        AuthBadSignature, AuthConfigError, AuthUntrustedHost, AuthLocalKeyUnavailable,
        AuthAwaitingApproval, AuthRateLimited]) b of
     Some t \<Rightarrow> t | None \<Rightarrow> AuthResultRaw b)"

definition IsWireAuthResultCode :: "u8 \<Rightarrow> bool" where
  "IsWireAuthResultCode code \<longleftrightarrow>
     code \<le> AuthResultCode_code AuthConfigError \<or> code = AuthResultCode_code AuthAwaitingApproval"

datatype InputType = InputKey | InputMouseMove | InputMouseButton | InputMouseWheel | InputRaw u8

fun InputType_code :: "InputType \<Rightarrow> u8" where
  "InputType_code InputKey = 1"
| "InputType_code InputMouseMove = 2"
| "InputType_code InputMouseButton = 3"
| "InputType_code InputMouseWheel = 4"
| "InputType_code (InputRaw b) = b"

definition InputType_of :: "u8 \<Rightarrow> InputType" where
  "InputType_of b =
     (if b = 1 then InputKey else if b = 2 then InputMouseMove else if b = 3 then InputMouseButton
      else if b = 4 then InputMouseWheel else InputRaw b)"

datatype RecordStatus = RecordOk | RecordNeedMore | RecordInvalid

datatype PacketKind = PacketUnknown | PacketQuic | PacketDeskhub

datatype TerminalState = TermLive | TermDetached | TermLocal | TermStateRaw u8

fun TerminalState_code :: "TerminalState \<Rightarrow> u8" where
  "TerminalState_code TermLive = 0"
| "TerminalState_code TermDetached = 1"
| "TerminalState_code TermLocal = 2"
| "TerminalState_code (TermStateRaw b) = b"

definition TerminalState_of :: "u8 \<Rightarrow> TerminalState" where
  "TerminalState_of b =
     (if b = 0 then TermLive else if b = 1 then TermDetached else if b = 2 then TermLocal
      else TermStateRaw b)"

datatype TermReason = TermAccepted | TermTooManySessions | TermNotShared | TermNoSuchSession
  | TermReasonRaw u8

fun TermReason_code :: "TermReason \<Rightarrow> u8" where
  "TermReason_code TermAccepted = 0"
| "TermReason_code TermTooManySessions = 1"
| "TermReason_code TermNotShared = 2"
| "TermReason_code TermNoSuchSession = 3"
| "TermReason_code (TermReasonRaw b) = b"

definition TermReason_of :: "u8 \<Rightarrow> TermReason" where
  "TermReason_of b =
     (if b = 0 then TermAccepted else if b = 1 then TermTooManySessions
      else if b = 2 then TermNotShared else if b = 3 then TermNoSuchSession else TermReasonRaw b)"

datatype TransferReason = TransferAccepted | TransferNotAccepting | TransferBusy
  | TransferTooManyFiles | TransferTooLarge | TransferBadName | TransferWriteFailed
  | TransferCorrupt | TransferCancelled | TransferLinkLost | TransferReadFailed
  | TransferReasonRaw u8

fun TransferReason_code :: "TransferReason \<Rightarrow> u8" where
  "TransferReason_code TransferAccepted = 0"
| "TransferReason_code TransferNotAccepting = 1"
| "TransferReason_code TransferBusy = 2"
| "TransferReason_code TransferTooManyFiles = 3"
| "TransferReason_code TransferTooLarge = 4"
| "TransferReason_code TransferBadName = 5"
| "TransferReason_code TransferWriteFailed = 6"
| "TransferReason_code TransferCorrupt = 7"
| "TransferReason_code TransferCancelled = 8"
| "TransferReason_code TransferLinkLost = 9"
| "TransferReason_code TransferReadFailed = 10"
| "TransferReason_code (TransferReasonRaw b) = b"

definition TransferReason_of :: "u8 \<Rightarrow> TransferReason" where
  "TransferReason_of b = (case map_of (map (\<lambda>t. (TransferReason_code t, t))
       [TransferAccepted, TransferNotAccepting, TransferBusy, TransferTooManyFiles,
        TransferTooLarge, TransferBadName, TransferWriteFailed, TransferCorrupt,
        TransferCancelled, TransferLinkLost, TransferReadFailed]) b of
     Some t \<Rightarrow> t | None \<Rightarrow> TransferReasonRaw b)"

text \<open>Casting a byte to an enumeration and back loses nothing.\<close>

lemma map_of_code_inv: "map_of (map (\<lambda>t. (f t, t)) ts) b = Some t \<Longrightarrow> f t = b"
  by (induction ts) (auto split: if_splits)

lemma code_of_table:
  assumes "\<And>b. f (raw b) = b"
  shows "f (case map_of (map (\<lambda>t. (f t, t)) ts) b of Some t \<Rightarrow> t | None \<Rightarrow> raw b) = b"
  using assms by (cases "map_of (map (\<lambda>t. (f t, t)) ts) b") (auto dest: map_of_code_inv)

lemma table_of_code:
  assumes "t \<in> set ts" "distinct (map f ts)"
  shows "map_of (map (\<lambda>t. (f t, t)) ts) (f t) = Some t"
  using assms by (auto intro!: map_of_is_SomeI simp: comp_def)

lemma Chan_code_of [simp]: "Chan_code (Chan_of b) = b"
  unfolding Chan_of_def by (rule code_of_table) simp

lemma MsgType_code_of [simp]: "MsgType_code (MsgType_of b) = b"
  unfolding MsgType_of_def by (rule code_of_table) simp

lemma AuthResultCode_code_of [simp]: "AuthResultCode_code (AuthResultCode_of b) = b"
  unfolding AuthResultCode_of_def by (rule code_of_table) simp

lemma TransferReason_code_of [simp]: "TransferReason_code (TransferReason_of b) = b"
  unfolding TransferReason_of_def by (rule code_of_table) simp

lemma small_enum_code_of [simp]:
  "RejectReason_code (RejectReason_of b) = b" "AuthMode_code (AuthMode_of b) = b"
  "InputType_code (InputType_of b) = b" "TerminalState_code (TerminalState_of b) = b"
  "TermReason_code (TermReason_of b) = b"
  by (simp_all add: RejectReason_of_def AuthMode_of_def InputType_of_def TerminalState_of_def
      TermReason_of_def)

text \<open>An enumerator survives the trip through its byte.\<close>

lemma MsgType_distinct_codes: "distinct (map MsgType_code named_MsgTypes)"
  by (simp add: named_MsgTypes_def)

lemma MsgType_of_code [simp]: "t \<in> set named_MsgTypes \<Longrightarrow> MsgType_of (MsgType_code t) = t"
  unfolding MsgType_of_def by (simp only: table_of_code MsgType_distinct_codes option.case)

section \<open>Message structures\<close>

record CommonHeader =
  ch_ver :: u8
  ch_type :: MsgType
  ch_flags :: u8
  ch_chan :: Chan
  ch_sessionId :: u32

record SourceInfo =
  src_sourceId :: u8
  src_width :: u16
  src_height :: u16
  src_name :: bytes

record HostCaps =
  caps_acceptsInput :: bool
  caps_terminal :: bool
  caps_audio :: bool
  caps_files :: bool

definition HostCapFlags :: "HostCaps \<Rightarrow> u8" where
  "HostCapFlags caps =
     (if caps_acceptsInput caps then kHostAcceptsInput else 0) OR
     (if caps_terminal caps then kHostSharesTerminal else 0) OR
     (if caps_audio caps then kHostSharesAudio else 0) OR
     (if caps_files caps then kHostAcceptsFiles else 0)"

definition HostCapsOfFlags :: "u8 \<Rightarrow> HostCaps" where
  "HostCapsOfFlags flags =
     \<lparr>caps_acceptsInput = (flags AND kHostAcceptsInput \<noteq> 0),
      caps_terminal = (flags AND kHostSharesTerminal \<noteq> 0),
      caps_audio = (flags AND kHostSharesAudio \<noteq> 0),
      caps_files = (flags AND kHostAcceptsFiles \<noteq> 0)\<rparr>"

lemma HostCaps_roundtrip: "HostCapsOfFlags (HostCapFlags caps) = caps"
  by (cases caps) (auto simp: HostCapsOfFlags_def HostCapFlags_def kconsts)

record Hello =
  hello_clientId :: u32
  hello_maxWidth :: u16
  hello_maxHeight :: u16
  hello_features :: u16
  hello_sourceId :: u8
  hello_clientName :: bytes

record HelloAck =
  ack_sessionId :: u32
  ack_width :: u16
  ack_height :: u16
  ack_fps :: u8
  ack_bitrateBps :: u32
  ack_rejected :: bool
  ack_reason :: RejectReason

record AuthStart =
  as_publicKey :: bytes
  as_clientName :: bytes
  as_pairingToken :: bytes

record AuthChallenge =
  ac_mode :: AuthMode

record AuthResponse =
  ar_proof :: bytes

record AuthResult =
  ares_code :: AuthResultCode

record PingPong =
  pp_pingId :: u32
  pp_sendTimeUs :: u64

record Feedback =
  fb_lossPct :: u8
  fb_rttMs :: u16
  fb_recvBitrateKbps :: u32

record Reconfig =
  rc_width :: u16
  rc_height :: u16
  rc_bitrateBps :: u32
  rc_fps :: u8

record InputEvent =
  ev_type :: InputType
  ev_timestampUs :: u64
  ev_a :: i32
  ev_b :: i32
  ev_state :: u8
  ev_absolute :: u8

record VideoHeader =
  vh_frameId :: u32
  vh_timestampUs :: u64
  vh_pktIndex :: u16
  vh_pktCount :: u16

record VideoPacketView =
  vp_hdr :: VideoHeader
  vp_idr :: bool
  vp_frameEnd :: bool
  vp_payload :: bytes

record FecHeader =
  fh_frameId :: u32
  fh_timestampUs :: u64
  fh_pktCount :: u16
  fh_groupIndex :: u8

record FecPacketView =
  fp_hdr :: FecHeader
  fp_idr :: bool
  fp_parity :: bytes

record AudioHeader =
  ah_seq :: u32
  ah_timestampUs :: u64

record AudioPacketView =
  ap_hdr :: AudioHeader
  ap_payload :: bytes

record ClipboardChunkView =
  cb_revision :: u32
  cb_chunkIndex :: u16
  cb_chunkCount :: u16
  cb_payload :: bytes

record RecordView =
  rv_status :: RecordStatus
  rv_message :: bytes
  rv_consumed :: nat

record TermSize =
  ts_cols :: u16
  ts_rows :: u16

record TermSessionEntry =
  te_termId :: u32
  te_state :: TerminalState
  te_size :: TermSize
  te_clientName :: bytes

record TermOpen =
  to_size :: TermSize
  to_resumeId :: u32
  to_clientName :: bytes

record TermOpenAck =
  toa_termId :: u32
  toa_reason :: TermReason
  toa_resumed :: bool

record TransferFile =
  tf_size :: u64
  tf_name :: bytes

record FileOffer =
  fo_batchId :: u32
  fo_files :: "TransferFile list"

record FileAccept =
  fa_batchId :: u32
  fa_reason :: TransferReason

record FileChunkView =
  fc_batchId :: u32
  fc_fileIndex :: u16
  fc_offset :: u64
  fc_data :: bytes

record FileDone =
  fd_batchId :: u32
  fd_fileIndex :: u16
  fd_crc32 :: u32

record FileAck =
  fk_batchId :: u32
  fk_fileIndex :: u16
  fk_reason :: TransferReason

record FileCancel =
  fx_batchId :: u32
  fx_reason :: TransferReason

end
