(* ===== verification/WireBuild.thy ===== *)
theory WireBuild
  imports WireTypes
begin

text \<open>
  The message builders of \<open>core/src/protocol/Wire.cpp\<close>. Each C++ builder writes the message at
  the front of the span \<open>out\<close> and returns its size, or returns 0 and leaves \<open>out\<close> alone. The
  model takes the size \<open>cap\<close> of the span and gives the bytes written, so the C++ result is the
  length of the list, and the empty list is the result 0 (a message has at least its header).
  The stores into the payload are given in the order of their offsets, which leave no gap.
\<close>

section \<open>Headers and names\<close>

definition WriteCommon :: "nat \<Rightarrow> MsgType \<Rightarrow> u8 \<Rightarrow> Chan \<Rightarrow> u32 \<Rightarrow> nat \<Rightarrow> bytes" where
  "WriteCommon cap t flags chan sessionId payloadSize =
     (if cap < kCommonHeaderSize + payloadSize then []
      else [kProtocolVersion, MsgType_code t, flags, Chan_code chan] @ PutU32 sessionId)"

text \<open>\<open>if (!total) return 0; \<dots> return total;\<close>: the payload stores after the header.\<close>

definition finish :: "bytes \<Rightarrow> bytes \<Rightarrow> bytes" where
  "finish header payload = (if header = [] then [] else header @ payload)"

definition BuildEmpty :: "nat \<Rightarrow> MsgType \<Rightarrow> u32 \<Rightarrow> bytes" where
  "BuildEmpty cap t sessionId = WriteCommon cap t 0 ChanControl sessionId 0"

text \<open>The loop of \<open>Utf8TruncLen\<close>: step back over continuation bytes.\<close>

fun utf8_back :: "bytes \<Rightarrow> nat \<Rightarrow> nat" where
  "utf8_back s 0 = 0"
| "utf8_back s (Suc n) = (if s ! Suc n AND 0xC0 = 0x80 then utf8_back s n else Suc n)"

definition Utf8TruncLen :: "bytes \<Rightarrow> nat \<Rightarrow> nat" where
  "Utf8TruncLen s limit = (if length s \<le> limit then length s else utf8_back s limit)"

section \<open>Session messages\<close>

definition kHelloFixedBytes :: nat where [kconsts]: "kHelloFixedBytes = 12"
definition kHelloAckBytes :: nat where [kconsts]: "kHelloAckBytes = 15"
definition kReconfigBytes :: nat where [kconsts]: "kReconfigBytes = 9"
definition kFeedbackBytes :: nat where [kconsts]: "kFeedbackBytes = 7"
definition kTermListEntryFixedBytes :: nat where [kconsts]: "kTermListEntryFixedBytes = 10"

definition BuildPingPongImpl :: "nat \<Rightarrow> MsgType \<Rightarrow> u32 \<Rightarrow> PingPong \<Rightarrow> bytes" where
  "BuildPingPongImpl cap t sessionId m =
     finish (WriteCommon cap t 0 ChanControl sessionId 12)
       (PutU32 (pp_pingId m) @ PutU64 (pp_sendTimeUs m))"

definition BuildHello :: "nat \<Rightarrow> Hello \<Rightarrow> bytes" where
  "BuildHello cap m =
     (let nameLen = Utf8TruncLen (hello_clientName m) kMaxClientNameBytes
      in finish (WriteCommon cap MsgHello 0 ChanControl 0 (kHelloFixedBytes + nameLen))
           (PutU32 (hello_clientId m) @ PutU16 (hello_maxWidth m) @ PutU16 (hello_maxHeight m)
            @ PutU16 (hello_features m) @ [hello_sourceId m, of_nat nameLen]
            @ take nameLen (hello_clientName m)))"

definition BuildAuthStart :: "nat \<Rightarrow> AuthStart \<Rightarrow> bytes" where
  "BuildAuthStart cap m =
     (if as_publicKey m = [] \<or> length (as_publicKey m) > kMaxAuthBlobBytes then []
      else if as_pairingToken m \<noteq> [] \<and> length (as_pairingToken m) \<noteq> kPairingTokenBytes then []
      else
        let nameLen = Utf8TruncLen (as_clientName m) kMaxClientNameBytes;
            payload = 1 + 2 + length (as_publicKey m) + 1 + nameLen + 1
                        + length (as_pairingToken m) + 1
        in finish (WriteCommon cap MsgAuthStart 0 ChanControl 0 payload)
             ([0] @ PutU16 (of_nat (length (as_publicKey m))) @ as_publicKey m
              @ [of_nat nameLen] @ take nameLen (as_clientName m)
              @ [of_nat (length (as_pairingToken m))] @ as_pairingToken m @ [kAuthVersion]))"

definition BuildAuthChallenge :: "nat \<Rightarrow> AuthChallenge \<Rightarrow> bytes" where
  "BuildAuthChallenge cap m =
     (if AuthMode_code (ac_mode m) > AuthMode_code AuthModeAwaitingApproval then []
      else finish (WriteCommon cap MsgAuthChallenge 0 ChanControl 0 2)
             [kAuthVersion, AuthMode_code (ac_mode m)])"

definition BuildAuthResponse :: "nat \<Rightarrow> AuthResponse \<Rightarrow> bytes" where
  "BuildAuthResponse cap m =
     (if ar_proof m = [] \<or> length (ar_proof m) > kMaxAuthBlobBytes then []
      else finish (WriteCommon cap MsgAuthResponse 0 ChanControl 0 (1 + 2 + length (ar_proof m)))
             ([kAuthVersion] @ PutU16 (of_nat (length (ar_proof m))) @ ar_proof m))"

definition BuildAuthResult :: "nat \<Rightarrow> AuthResult \<Rightarrow> bytes" where
  "BuildAuthResult cap m =
     (if \<not> IsWireAuthResultCode (AuthResultCode_code (ares_code m)) then []
      else finish (WriteCommon cap MsgAuthResult 0 ChanControl 0 2)
             [kAuthVersion, AuthResultCode_code (ares_code m)])"

definition BuildListSources :: "nat \<Rightarrow> bytes" where
  "BuildListSources cap = BuildEmpty cap MsgListSources 0"

text \<open>One entry of the source list: what one round of the writing loop stores.\<close>

definition put_source :: "SourceInfo \<Rightarrow> bytes" where
  "put_source s =
     (let nameLen = Utf8TruncLen (src_name s) kMaxSourceNameBytes
      in [src_sourceId s] @ PutU16 (src_width s) @ PutU16 (src_height s) @ [of_nat nameLen]
           @ take nameLen (src_name s))"

definition BuildSourceList :: "nat \<Rightarrow> SourceInfo list \<Rightarrow> HostCaps \<Rightarrow> bytes \<Rightarrow> bytes" where
  "BuildSourceList cap sources caps hostName =
     (let n = (if length sources < kMaxSources then length sources else kMaxSources);
          hostNameLen = Utf8TruncLen hostName kMaxClientNameBytes;
          payload = 1 + 1 + hostNameLen
            + sum_list (map (\<lambda>s. 6 + Utf8TruncLen (src_name s) kMaxSourceNameBytes) (take n sources))
      in finish (WriteCommon cap MsgSourceList (HostCapFlags caps) ChanControl 0 payload)
           ([of_nat n] @ concat (map put_source (take n sources))
            @ [of_nat hostNameLen] @ take hostNameLen hostName))"

definition BuildHelloAck :: "nat \<Rightarrow> HelloAck \<Rightarrow> bytes" where
  "BuildHelloAck cap m =
     finish (WriteCommon cap MsgHelloAck 0 ChanControl 0 kHelloAckBytes)
       (PutU32 (ack_sessionId m) @ [if ack_rejected m then 1 else 0] @ PutU16 (ack_width m)
        @ PutU16 (ack_height m) @ [ack_fps m] @ PutU32 (ack_bitrateBps m)
        @ [RejectReason_code (ack_reason m)])"

definition BuildStart :: "nat \<Rightarrow> u32 \<Rightarrow> bytes" where
  "BuildStart cap sessionId = BuildEmpty cap MsgStart sessionId"

definition BuildBye :: "nat \<Rightarrow> u32 \<Rightarrow> bytes" where
  "BuildBye cap sessionId = BuildEmpty cap MsgBye sessionId"

definition BuildPing :: "nat \<Rightarrow> u32 \<Rightarrow> PingPong \<Rightarrow> bytes" where
  "BuildPing cap sessionId m = BuildPingPongImpl cap MsgPing sessionId m"

definition BuildPong :: "nat \<Rightarrow> u32 \<Rightarrow> PingPong \<Rightarrow> bytes" where
  "BuildPong cap sessionId m = BuildPingPongImpl cap MsgPong sessionId m"

definition BuildFeedback :: "nat \<Rightarrow> u32 \<Rightarrow> Feedback \<Rightarrow> bytes" where
  "BuildFeedback cap sessionId m =
     finish (WriteCommon cap MsgFeedback 0 ChanControl sessionId kFeedbackBytes)
       ([fb_lossPct m] @ PutU16 (fb_rttMs m) @ PutU32 (fb_recvBitrateKbps m))"

definition BuildRequestKeyframe :: "nat \<Rightarrow> u32 \<Rightarrow> bytes" where
  "BuildRequestKeyframe cap sessionId = BuildEmpty cap MsgRequestKeyframe sessionId"

definition BuildSetFocus :: "nat \<Rightarrow> u32 \<Rightarrow> bool \<Rightarrow> bytes" where
  "BuildSetFocus cap sessionId focused =
     finish (WriteCommon cap MsgSetFocus 0 ChanControl sessionId 1) [if focused then 1 else 0]"

definition BuildNack :: "nat \<Rightarrow> u32 \<Rightarrow> u32 \<Rightarrow> u16 list \<Rightarrow> bytes" where
  "BuildNack cap sessionId frameId indices =
     (if indices = [] \<or> length indices > kMaxNackIndices then []
      else finish (WriteCommon cap MsgNack 0 ChanControl sessionId
                     (kNackHeaderSize + length indices * 2))
             (PutU32 frameId @ [of_nat (length indices)] @ concat (map PutU16 indices)))"

definition BuildInvalidateRef :: "nat \<Rightarrow> u32 \<Rightarrow> u32 \<Rightarrow> bytes" where
  "BuildInvalidateRef cap sessionId frameId =
     finish (WriteCommon cap MsgInvalidateRef 0 ChanControl sessionId 4) (PutU32 frameId)"

definition BuildReconfig :: "nat \<Rightarrow> u32 \<Rightarrow> Reconfig \<Rightarrow> bytes" where
  "BuildReconfig cap sessionId m =
     finish (WriteCommon cap MsgReconfig 0 ChanControl sessionId kReconfigBytes)
       (PutU16 (rc_width m) @ PutU16 (rc_height m) @ PutU32 (rc_bitrateBps m) @ [rc_fps m])"

section \<open>Media, input and clipboard\<close>

definition BuildVideoPacket ::
  "nat \<Rightarrow> u32 \<Rightarrow> VideoHeader \<Rightarrow> bool \<Rightarrow> bool \<Rightarrow> bytes \<Rightarrow> bytes" where
  "BuildVideoPacket cap sessionId vh idr frameEnd payload =
     (if length payload > kMaxVideoPayload then []
      else let flags = (if idr then kVideoFlagIdr else 0) OR (if frameEnd then kVideoFlagFrameEnd else 0)
      in finish (WriteCommon cap MsgVideoPacket flags ChanVideo sessionId
                   (kVideoHeaderSize + length payload))
           (PutU32 (vh_frameId vh) @ PutU64 (vh_timestampUs vh) @ PutU16 (vh_pktIndex vh)
            @ PutU16 (vh_pktCount vh) @ payload))"

definition BuildFecPacket :: "nat \<Rightarrow> u32 \<Rightarrow> FecHeader \<Rightarrow> bool \<Rightarrow> bytes \<Rightarrow> bytes" where
  "BuildFecPacket cap sessionId fh idr parity =
     (if length parity < kFecLenPrefix \<or> length parity > kFecLenPrefix + kMaxVideoPayload then []
      else finish (WriteCommon cap MsgFecPacket (if idr then kVideoFlagIdr else 0) ChanVideo sessionId
                     (kFecHeaderSize + length parity))
             (PutU32 (fh_frameId fh) @ PutU64 (fh_timestampUs fh) @ PutU16 (fh_pktCount fh)
              @ [fh_groupIndex fh, 0] @ parity))"

definition BuildAudioPacket :: "nat \<Rightarrow> u32 \<Rightarrow> AudioHeader \<Rightarrow> bytes \<Rightarrow> bytes" where
  "BuildAudioPacket cap sessionId ah payload =
     (if payload = [] \<or> length payload > kMaxAudioPayload then []
      else finish (WriteCommon cap MsgAudioPacket 0 ChanAudio sessionId
                     (kAudioHeaderSize + length payload))
             (PutU32 (ah_seq ah) @ PutU64 (ah_timestampUs ah) @ payload))"

definition put_input_event :: "InputEvent \<Rightarrow> bytes" where
  "put_input_event ev =
     [InputType_code (ev_type ev)] @ PutU64 (ev_timestampUs ev) @ PutU32 (ev_a ev)
       @ PutU32 (ev_b ev) @ [ev_state ev, ev_absolute ev]"

definition BuildInputEvents :: "nat \<Rightarrow> u32 \<Rightarrow> u32 \<Rightarrow> InputEvent list \<Rightarrow> bytes" where
  "BuildInputEvents cap sessionId firstSeq events =
     (if events = [] \<or> length events > kMaxInputEvents then []
      else finish (WriteCommon cap MsgInputEvent 0 ChanInput sessionId
                     (kInputHeaderSize + length events * kInputEventSize))
             (PutU32 firstSeq @ [of_nat (length events)] @ concat (map put_input_event events)))"

definition BuildClipboardChunk :: "nat \<Rightarrow> u32 \<Rightarrow> ClipboardChunkView \<Rightarrow> bytes" where
  "BuildClipboardChunk cap sessionId chunk =
     (if cb_chunkCount chunk = 0 \<or> cb_chunkIndex chunk \<ge> cb_chunkCount chunk then []
      else if unat (cb_chunkCount chunk) > kMaxClipboardChunks then []
      else if length (cb_payload chunk) > kMaxClipboardChunkPayload then []
      else finish (WriteCommon cap MsgClipboard 0 ChanControl sessionId
                     (kClipboardHeaderSize + length (cb_payload chunk)))
             (PutU32 (cb_revision chunk) @ PutU16 (cb_chunkIndex chunk)
              @ PutU16 (cb_chunkCount chunk) @ cb_payload chunk))"

definition TruncateClipboardText :: "bytes \<Rightarrow> bytes" where
  "TruncateClipboardText text = take (Utf8TruncLen text kMaxClipboardTextBytes) text"

section \<open>Records\<close>

definition BuildRecord :: "nat \<Rightarrow> bytes \<Rightarrow> bytes" where
  "BuildRecord cap message =
     (if message = [] \<or> length message > kMaxRecordSize then []
      else if cap < kRecordPrefixSize + length message then []
      else PutU16 (of_nat (length message)) @ message)"

section \<open>Terminal messages\<close>

definition IsValidTermSize :: "TermSize \<Rightarrow> bool" where
  "IsValidTermSize sz \<longleftrightarrow>
     ts_cols sz \<ge> kMinTermCols \<and> ts_cols sz \<le> kMaxTermCols \<and>
     ts_rows sz \<ge> kMinTermRows \<and> ts_rows sz \<le> kMaxTermRows"

definition ClampTermSize :: "TermSize \<Rightarrow> TermSize" where
  "ClampTermSize sz =
     (let out = sz;
          out = (if ts_cols out < kMinTermCols then out\<lparr>ts_cols := kMinTermCols\<rparr> else out);
          out = (if ts_cols out > kMaxTermCols then out\<lparr>ts_cols := kMaxTermCols\<rparr> else out);
          out = (if ts_rows out < kMinTermRows then out\<lparr>ts_rows := kMinTermRows\<rparr> else out);
          out = (if ts_rows out > kMaxTermRows then out\<lparr>ts_rows := kMaxTermRows\<rparr> else out)
      in out)"

definition BuildTermOpen :: "nat \<Rightarrow> TermOpen \<Rightarrow> bytes" where
  "BuildTermOpen cap m =
     (let nameLen = Utf8TruncLen (to_clientName m) kMaxClientNameBytes;
          sz = ClampTermSize (to_size m)
      in finish (WriteCommon cap MsgTermOpen 0 ChanTerminal 0 (9 + nameLen))
           (PutU16 (ts_cols sz) @ PutU16 (ts_rows sz) @ PutU32 (to_resumeId m)
            @ [of_nat nameLen] @ take nameLen (to_clientName m)))"

definition BuildTermOpenAck :: "nat \<Rightarrow> TermOpenAck \<Rightarrow> bytes" where
  "BuildTermOpenAck cap m =
     finish (WriteCommon cap MsgTermOpenAck 0 ChanTerminal (toa_termId m) 6)
       (PutU32 (toa_termId m) @ [TermReason_code (toa_reason m), if toa_resumed m then 1 else 0])"

definition BuildTermData :: "nat \<Rightarrow> u32 \<Rightarrow> bytes \<Rightarrow> bytes" where
  "BuildTermData cap termId data =
     (if data = [] \<or> length data > kMaxTermDataBytes then []
      else finish (WriteCommon cap MsgTermData 0 ChanTerminal termId (length data)) data)"

definition BuildTermResize :: "nat \<Rightarrow> u32 \<Rightarrow> TermSize \<Rightarrow> bytes" where
  "BuildTermResize cap termId sz =
     (let clamped = ClampTermSize sz
      in finish (WriteCommon cap MsgTermResize 0 ChanTerminal termId 4)
           (PutU16 (ts_cols clamped) @ PutU16 (ts_rows clamped)))"

definition BuildTermClose :: "nat \<Rightarrow> u32 \<Rightarrow> bytes" where
  "BuildTermClose cap termId = WriteCommon cap MsgTermClose 0 ChanTerminal termId 0"

definition BuildTermExit :: "nat \<Rightarrow> u32 \<Rightarrow> i32 \<Rightarrow> bytes" where
  "BuildTermExit cap termId exitCode =
     finish (WriteCommon cap MsgTermExit 0 ChanTerminal termId 4) (PutU32 exitCode)"

definition BuildTermList :: "nat \<Rightarrow> bytes" where
  "BuildTermList cap = WriteCommon cap MsgTermList 0 ChanTerminal 0 0"

definition put_term_entry :: "TermSessionEntry \<Rightarrow> bytes" where
  "put_term_entry e =
     (let sz = ClampTermSize (te_size e);
          nameLen = Utf8TruncLen (te_clientName e) kMaxClientNameBytes;
          state = (if TerminalState_code (te_state e) > TerminalState_code TermLocal
                   then TermLive else te_state e)
      in PutU32 (te_termId e) @ [TerminalState_code state] @ PutU16 (ts_cols sz)
           @ PutU16 (ts_rows sz) @ [of_nat nameLen] @ take nameLen (te_clientName e))"

definition BuildTermListAck :: "nat \<Rightarrow> TermSessionEntry list \<Rightarrow> bytes" where
  "BuildTermListAck cap sessions =
     (let count = (if length sessions < kMaxTermListEntries then length sessions
                   else kMaxTermListEntries);
          payload = 2 + sum_list (map (\<lambda>e. kTermListEntryFixedBytes
                      + Utf8TruncLen (te_clientName e) kMaxClientNameBytes) (take count sessions))
      in finish (WriteCommon cap MsgTermListAck 0 ChanTerminal 0 payload)
           (PutU16 (of_nat count) @ concat (map put_term_entry (take count sessions))))"

section \<open>File transfer messages\<close>

definition IsWireLegalFileName :: "bytes \<Rightarrow> bool" where
  "IsWireLegalFileName name \<longleftrightarrow>
     name \<noteq> [] \<and> length name \<le> kMaxTransferNameBytes \<and>
     name \<noteq> bytes_of ''.'' \<and> name \<noteq> bytes_of ''..'' \<and>
     (\<forall>c\<in>set name. \<not> (c < 0x20 \<or> c = 0x7F) \<and> \<not> (c = 0x2F \<or> c = 0x5C))"

text \<open>
  The sizing loop of \<open>BuildFileOffer\<close>: \<open>None\<close> is its early \<open>return 0\<close>, otherwise the payload
  size it has summed.
\<close>

fun offer_payload :: "TransferFile list \<Rightarrow> nat \<Rightarrow> u64 \<Rightarrow> nat option" where
  "offer_payload [] payload totalBytes = Some payload"
| "offer_payload (f # fs) payload totalBytes =
     (if \<not> IsWireLegalFileName (tf_name f) then None
      else if tf_size f > kMaxTransferFileBytes then None
      else let totalBytes = totalBytes + tf_size f
      in if totalBytes > kMaxTransferBatchBytes then None
         else offer_payload fs
                (payload + (kFileOfferEntryOverhead
                            + Utf8TruncLen (tf_name f) kMaxTransferNameBytes)) totalBytes)"

definition put_offer_entry :: "TransferFile \<Rightarrow> bytes" where
  "put_offer_entry f =
     (let nameLen = Utf8TruncLen (tf_name f) kMaxTransferNameBytes
      in PutU64 (tf_size f) @ [of_nat nameLen] @ take nameLen (tf_name f))"

definition BuildFileOffer :: "nat \<Rightarrow> FileOffer \<Rightarrow> bytes" where
  "BuildFileOffer cap m =
     (if fo_files m = [] \<or> length (fo_files m) > kMaxTransferFiles then []
      else case offer_payload (fo_files m) kFileOfferHeaderSize 0 of
        None \<Rightarrow> []
      | Some payload \<Rightarrow>
          finish (WriteCommon cap MsgFileOffer 0 ChanFile (fo_batchId m) payload)
            (PutU32 (fo_batchId m) @ [of_nat (length (fo_files m))]
             @ concat (map put_offer_entry (fo_files m))))"

definition BuildFileAccept :: "nat \<Rightarrow> FileAccept \<Rightarrow> bytes" where
  "BuildFileAccept cap m =
     finish (WriteCommon cap MsgFileAccept 0 ChanFile (fa_batchId m) 5)
       (PutU32 (fa_batchId m) @ [TransferReason_code (fa_reason m)])"

definition BuildFileChunk :: "nat \<Rightarrow> u32 \<Rightarrow> u16 \<Rightarrow> u64 \<Rightarrow> bytes \<Rightarrow> bytes" where
  "BuildFileChunk cap batchId fileIndex offset data =
     (if data = [] \<or> length data > kMaxFileChunkBytes then []
      else if unat fileIndex \<ge> kMaxTransferFiles then []
      else finish (WriteCommon cap MsgFileChunk 0 ChanFile batchId
                     (kFileChunkHeaderSize + length data))
             (PutU32 batchId @ PutU16 fileIndex @ PutU64 offset @ data))"

definition BuildFileDone :: "nat \<Rightarrow> FileDone \<Rightarrow> bytes" where
  "BuildFileDone cap m =
     finish (WriteCommon cap MsgFileDone 0 ChanFile (fd_batchId m) 10)
       (PutU32 (fd_batchId m) @ PutU16 (fd_fileIndex m) @ PutU32 (fd_crc32 m))"

definition BuildFileAck :: "nat \<Rightarrow> FileAck \<Rightarrow> bytes" where
  "BuildFileAck cap m =
     finish (WriteCommon cap MsgFileAck 0 ChanFile (fk_batchId m) 7)
       (PutU32 (fk_batchId m) @ PutU16 (fk_fileIndex m) @ [TransferReason_code (fk_reason m)])"

definition BuildFileCancel :: "nat \<Rightarrow> FileCancel \<Rightarrow> bytes" where
  "BuildFileCancel cap m =
     finish (WriteCommon cap MsgFileCancel 0 ChanFile (fx_batchId m) 5)
       (PutU32 (fx_batchId m) @ [TransferReason_code (fx_reason m)])"

end
