(* ===== verification/WireParse.thy ===== *)
theory WireParse
  imports WireBuild
begin

text \<open>
  The message parsers of \<open>core/src/protocol/Wire.cpp\<close>. Their input is what the network
  delivered, any list of bytes. Every read is checked, so a result \<open>None\<close> would be a read past
  the payload; \<open>Some None\<close> is the code's \<open>std::nullopt\<close>. A parser that fills a caller's span
  \<open>out\<close> and returns how many elements it wrote takes the size of that span and gives the list
  of the elements written; its empty list is the C++ result 0.
\<close>

section \<open>Headers\<close>

definition ParseCommonHeader :: "bytes \<Rightarrow> CommonHeader option checked" where
  "ParseCommonHeader datagram =
     (if length datagram < kCommonHeaderSize then nullopt
      else do {
        v \<leftarrow> rd8 datagram 0;
        if v \<noteq> kProtocolVersion then nullopt
        else do {
          t \<leftarrow> rd8 datagram 1;
          f \<leftarrow> rd8 datagram 2;
          c \<leftarrow> rd8 datagram 3;
          s \<leftarrow> GetU32 datagram 4;
          some_opt \<lparr>ch_ver = v, ch_type = MsgType_of t, ch_flags = f, ch_chan = Chan_of c,
                    ch_sessionId = s\<rparr>
        }
      })"

definition PayloadOf :: "bytes \<Rightarrow> bytes checked" where
  "PayloadOf datagram =
     (if length datagram < kCommonHeaderSize then Some [] else subspan datagram kCommonHeaderSize)"

text \<open>
  The loop that copies a received name byte by byte, keeping the printable ones: \<open>n\<close> rounds from
  offset \<open>off\<close>.
\<close>

fun read_printable :: "bytes \<Rightarrow> nat \<Rightarrow> nat \<Rightarrow> bytes checked" where
  "read_printable p off 0 = Some []"
| "read_printable p off (Suc n) = do {
     c \<leftarrow> rd8 p off;
     rest \<leftarrow> read_printable p (Suc off) n;
     Some (if 0x20 \<le> c \<and> c \<noteq> 0x7F then c # rest else rest)
   }"

section \<open>Authentication\<close>

definition ParseAuthStart :: "bytes \<Rightarrow> AuthStart option checked" where
  "ParseAuthStart payload =
     (if length payload < 6 then nullopt
      else do {
        b0 \<leftarrow> rd8 payload 0;
        if b0 \<noteq> 0 then nullopt
        else do {
          kl \<leftarrow> GetU16 payload 1;
          let keyLen = unat kl;
          if keyLen = 0 \<or> keyLen > kMaxAuthBlobBytes \<or> length payload < 1 + 2 + keyLen + 1 + 1 + 1
          then nullopt
          else do {
            key \<leftarrow> rdn payload 3 keyLen;
            let nameOff = 1 + 2 + keyLen;
            nl \<leftarrow> rd8 payload nameOff;
            let nameLen = unat nl;
            if nameLen > kMaxClientNameBytes \<or> length payload < nameOff + 1 + nameLen + 1 + 1
            then nullopt
            else do {
              let tokenOff = nameOff + 1 + nameLen;
              tl \<leftarrow> rd8 payload tokenOff;
              let tokenLen = unat tl;
              if (tokenLen \<noteq> 0 \<and> tokenLen \<noteq> kPairingTokenBytes) \<or>
                 length payload \<noteq> tokenOff + 1 + tokenLen + 1
              then nullopt
              else do {
                ver \<leftarrow> rd8 payload (tokenOff + 1 + tokenLen);
                if ver \<noteq> kAuthVersion then nullopt
                else do {
                  name \<leftarrow> read_printable payload (nameOff + 1) nameLen;
                  token \<leftarrow> (if tokenLen = 0 then Some [] else rdn payload (tokenOff + 1) tokenLen);
                  some_opt \<lparr>as_publicKey = key, as_clientName = name, as_pairingToken = token\<rparr>
                }
              }
            }
          }
        }
      })"

definition ParseAuthChallenge :: "bytes \<Rightarrow> AuthChallenge option checked" where
  "ParseAuthChallenge payload =
     (if length payload \<noteq> 2 then nullopt
      else do {
        v \<leftarrow> rd8 payload 0;
        m \<leftarrow> rd8 payload 1;
        if v \<noteq> kAuthVersion \<or> m > AuthMode_code AuthModeAwaitingApproval then nullopt
        else some_opt \<lparr>ac_mode = AuthMode_of m\<rparr>
      })"

definition ParseAuthResponse :: "bytes \<Rightarrow> AuthResponse option checked" where
  "ParseAuthResponse payload =
     (if length payload < 3 then nullopt
      else do {
        v \<leftarrow> rd8 payload 0;
        if v \<noteq> kAuthVersion then nullopt
        else do {
          b \<leftarrow> GetU16 payload 1;
          let blob = unat b;
          if blob = 0 \<or> blob > kMaxAuthBlobBytes \<or> length payload \<noteq> 3 + blob then nullopt
          else do {
            proof_bytes \<leftarrow> rdn payload 3 blob;
            some_opt \<lparr>ar_proof = proof_bytes\<rparr>
          }
        }
      })"

definition ParseAuthResult :: "bytes \<Rightarrow> AuthResult option checked" where
  "ParseAuthResult payload =
     (if length payload \<noteq> 2 then nullopt
      else do {
        v \<leftarrow> rd8 payload 0;
        if v \<noteq> kAuthVersion then nullopt
        else do {
          c \<leftarrow> rd8 payload 1;
          if \<not> IsWireAuthResultCode c then nullopt
          else some_opt \<lparr>ares_code = AuthResultCode_of c\<rparr>
        }
      })"

section \<open>Session set-up\<close>

definition ParseHello :: "bytes \<Rightarrow> Hello option checked" where
  "ParseHello payload =
     (if length payload < kHelloFixedBytes then nullopt
      else do {
        cid \<leftarrow> GetU32 payload 0;
        w \<leftarrow> GetU16 payload 4;
        h \<leftarrow> GetU16 payload 6;
        feat \<leftarrow> GetU16 payload 8;
        sid \<leftarrow> rd8 payload 10;
        nl \<leftarrow> rd8 payload 11;
        let nameLen = (if unat nl > kMaxClientNameBytes then 0 else unat nl);
        name \<leftarrow> (if nameLen \<noteq> 0 \<and> length payload \<ge> kHelloFixedBytes + nameLen
                 then read_printable payload kHelloFixedBytes nameLen else Some []);
        some_opt \<lparr>hello_clientId = cid, hello_maxWidth = w, hello_maxHeight = h,
                  hello_features = feat, hello_sourceId = sid, hello_clientName = name\<rparr>
      })"

text \<open>The loop of \<open>ParseSourceList\<close>: \<open>n\<close> rounds left, reading at \<open>off\<close>.\<close>

fun read_sources :: "bytes \<Rightarrow> nat \<Rightarrow> nat \<Rightarrow> SourceInfo list checked" where
  "read_sources payload off 0 = Some []"
| "read_sources payload off (Suc n) =
     (if off + 6 > length payload then Some []
      else do {
        nl \<leftarrow> rd8 payload (off + 5);
        let nameLen = unat nl;
        if off + 6 + nameLen > length payload then Some []
        else do {
          sid \<leftarrow> rd8 payload off;
          w \<leftarrow> GetU16 payload (off + 1);
          h \<leftarrow> GetU16 payload (off + 3);
          name \<leftarrow> rdn payload (off + 6) nameLen;
          rest \<leftarrow> read_sources payload (off + (6 + nameLen)) n;
          Some (\<lparr>src_sourceId = sid, src_width = w, src_height = h, src_name = name\<rparr> # rest)
        }
      })"

definition ParseSourceList :: "bytes \<Rightarrow> nat \<Rightarrow> SourceInfo list checked" where
  "ParseSourceList payload out =
     (if payload = [] then Some []
      else do {
        c \<leftarrow> rd8 payload 0;
        let count = (if unat c > out then out else unat c);
        read_sources payload 1 count
      })"

text \<open>The skipping loop of \<open>ParseSourceListHostName\<close>: \<open>Some None\<close> is its \<open>return {}\<close>.\<close>

fun skip_sources :: "bytes \<Rightarrow> nat \<Rightarrow> nat \<Rightarrow> nat option checked" where
  "skip_sources payload off 0 = some_opt off"
| "skip_sources payload off (Suc n) =
     (if off + 6 > length payload then nullopt
      else do {
        nl \<leftarrow> rd8 payload (off + 5);
        skip_sources payload (off + (6 + unat nl)) n
      })"

definition ParseSourceListHostName :: "bytes \<Rightarrow> bytes checked" where
  "ParseSourceListHostName payload =
     (if payload = [] then Some []
      else do {
        c \<leftarrow> rd8 payload 0;
        at \<leftarrow> skip_sources payload 1 (unat c);
        case at of
          None \<Rightarrow> Some []
        | Some off \<Rightarrow>
            if off \<ge> length payload then Some []
            else do {
              nl \<leftarrow> rd8 payload off;
              let nameLen = unat nl;
              if nameLen > kMaxClientNameBytes \<or> off + 1 + nameLen > length payload then Some []
              else do {
                name \<leftarrow> rdn payload (off + 1) nameLen;
                Some (map (\<lambda>c. if c < 0x20 \<or> c = 0x7F then 0x20 else c) name)
              }
            }
      })"

definition ParseHelloAck :: "bytes \<Rightarrow> HelloAck option checked" where
  "ParseHelloAck payload =
     (if length payload < kHelloAckBytes then nullopt
      else do {
        rej \<leftarrow> rd8 payload 4;
        rsn \<leftarrow> rd8 payload 14;
        if rej > 1 \<or> rsn > RejectReason_code RejectBusy then nullopt
        else do {
          sid \<leftarrow> GetU32 payload 0;
          w \<leftarrow> GetU16 payload 5;
          h \<leftarrow> GetU16 payload 7;
          fps \<leftarrow> rd8 payload 9;
          br \<leftarrow> GetU32 payload 10;
          some_opt \<lparr>ack_sessionId = sid, ack_width = w, ack_height = h, ack_fps = fps,
                    ack_bitrateBps = br, ack_rejected = (rej \<noteq> 0), ack_reason = RejectReason_of rsn\<rparr>
        }
      })"

section \<open>Control\<close>

definition ParsePingPong :: "bytes \<Rightarrow> PingPong option checked" where
  "ParsePingPong payload =
     (if length payload < 12 then nullopt
      else do {
        i \<leftarrow> GetU32 payload 0;
        t \<leftarrow> GetU64 payload 4;
        some_opt \<lparr>pp_pingId = i, pp_sendTimeUs = t\<rparr>
      })"

definition ParseFeedback :: "bytes \<Rightarrow> Feedback option checked" where
  "ParseFeedback payload =
     (if length payload < kFeedbackBytes then nullopt
      else do {
        l \<leftarrow> rd8 payload 0;
        r \<leftarrow> GetU16 payload 1;
        b \<leftarrow> GetU32 payload 3;
        some_opt \<lparr>fb_lossPct = l, fb_rttMs = r, fb_recvBitrateKbps = b\<rparr>
      })"

definition ParseReconfig :: "bytes \<Rightarrow> Reconfig option checked" where
  "ParseReconfig payload =
     (if length payload < kReconfigBytes then nullopt
      else do {
        w \<leftarrow> GetU16 payload 0;
        h \<leftarrow> GetU16 payload 2;
        b \<leftarrow> GetU32 payload 4;
        f \<leftarrow> rd8 payload 8;
        some_opt \<lparr>rc_width = w, rc_height = h, rc_bitrateBps = b, rc_fps = f\<rparr>
      })"

definition ParseSetFocus :: "bytes \<Rightarrow> bool option checked" where
  "ParseSetFocus payload =
     (if payload = [] then nullopt
      else do { b \<leftarrow> rd8 payload 0; some_opt (b \<noteq> 0) })"

fun read_u16s :: "bytes \<Rightarrow> nat \<Rightarrow> nat \<Rightarrow> u16 list checked" where
  "read_u16s p off 0 = Some []"
| "read_u16s p off (Suc n) = do {
     v \<leftarrow> GetU16 p off;
     rest \<leftarrow> read_u16s p (off + 2) n;
     Some (v # rest)
   }"

text \<open>The frame id is written to the caller only where the parser does not give 0 early.\<close>

definition ParseNack :: "bytes \<Rightarrow> nat \<Rightarrow> (u32 \<times> u16 list) option checked" where
  "ParseNack payload out =
     (if length payload < kNackHeaderSize then nullopt
      else do {
        c \<leftarrow> rd8 payload 4;
        let count = unat c;
        if count = 0 then nullopt
        else if length payload < kNackHeaderSize + count * 2 then nullopt
        else do {
          let count = (if count > out then out else count);
          frameId \<leftarrow> GetU32 payload 0;
          indices \<leftarrow> read_u16s payload kNackHeaderSize count;
          some_opt (frameId, indices)
        }
      })"

definition ParseInvalidateRef :: "bytes \<Rightarrow> u32 option checked" where
  "ParseInvalidateRef payload =
     (if length payload < 4 then nullopt else do { v \<leftarrow> GetU32 payload 0; some_opt v })"

section \<open>Media, input and clipboard\<close>

definition ParseVideoPacket :: "CommonHeader \<Rightarrow> bytes \<Rightarrow> VideoPacketView option checked" where
  "ParseVideoPacket h payload =
     (if length payload < kVideoHeaderSize then nullopt
      else if length payload > kVideoHeaderSize + kMaxVideoPayload then nullopt
      else do {
        fid \<leftarrow> GetU32 payload 0;
        ts \<leftarrow> GetU64 payload 4;
        idx \<leftarrow> GetU16 payload 12;
        cnt \<leftarrow> GetU16 payload 14;
        rest \<leftarrow> subspan payload kVideoHeaderSize;
        if cnt = 0 \<or> idx \<ge> cnt then nullopt
        else some_opt
          \<lparr>vp_hdr = \<lparr>vh_frameId = fid, vh_timestampUs = ts, vh_pktIndex = idx, vh_pktCount = cnt\<rparr>,
           vp_idr = (ch_flags h AND kVideoFlagIdr \<noteq> 0),
           vp_frameEnd = (ch_flags h AND kVideoFlagFrameEnd \<noteq> 0),
           vp_payload = rest\<rparr>
      })"

definition ParseAudioPacket :: "bytes \<Rightarrow> AudioPacketView option checked" where
  "ParseAudioPacket payload =
     (if length payload \<le> kAudioHeaderSize then nullopt
      else if length payload > kAudioHeaderSize + kMaxAudioPayload then nullopt
      else do {
        sq \<leftarrow> GetU32 payload 0;
        ts \<leftarrow> GetU64 payload 4;
        rest \<leftarrow> subspan payload kAudioHeaderSize;
        some_opt \<lparr>ap_hdr = \<lparr>ah_seq = sq, ah_timestampUs = ts\<rparr>, ap_payload = rest\<rparr>
      })"

definition ParseFecPacket :: "CommonHeader \<Rightarrow> bytes \<Rightarrow> FecPacketView option checked" where
  "ParseFecPacket h payload =
     (if length payload < kFecHeaderSize + kFecLenPrefix then nullopt
      else if length payload > kFecHeaderSize + kFecLenPrefix + kMaxVideoPayload then nullopt
      else do {
        fid \<leftarrow> GetU32 payload 0;
        ts \<leftarrow> GetU64 payload 4;
        cnt \<leftarrow> GetU16 payload 12;
        grp \<leftarrow> rd8 payload 14;
        par \<leftarrow> subspan payload kFecHeaderSize;
        if cnt = 0 then nullopt
        else let numGroups = (unat cnt + kFecGroupSize - 1) div kFecGroupSize
        in if unat grp \<ge> numGroups then nullopt
           else some_opt
             \<lparr>fp_hdr = \<lparr>fh_frameId = fid, fh_timestampUs = ts, fh_pktCount = cnt, fh_groupIndex = grp\<rparr>,
              fp_idr = (ch_flags h AND kVideoFlagIdr \<noteq> 0), fp_parity = par\<rparr>
      })"

fun read_events :: "bytes \<Rightarrow> nat \<Rightarrow> nat \<Rightarrow> InputEvent list checked" where
  "read_events p e 0 = Some []"
| "read_events p e (Suc n) = do {
     ty \<leftarrow> rd8 p e;
     ts \<leftarrow> GetU64 p (e + 1);
     a \<leftarrow> GetU32 p (e + 9);
     b \<leftarrow> GetU32 p (e + 13);
     st \<leftarrow> rd8 p (e + 17);
     ab \<leftarrow> rd8 p (e + 18);
     rest \<leftarrow> read_events p (e + kInputEventSize) n;
     Some (\<lparr>ev_type = InputType_of ty, ev_timestampUs = ts, ev_a = a, ev_b = b, ev_state = st,
            ev_absolute = ab\<rparr> # rest)
   }"

definition ParseInputEvents :: "bytes \<Rightarrow> nat \<Rightarrow> (u32 \<times> InputEvent list) option checked" where
  "ParseInputEvents payload out =
     (if length payload < kInputHeaderSize then nullopt
      else do {
        c \<leftarrow> rd8 payload 4;
        let count = unat c;
        if count = 0 \<or> count > out then nullopt
        else if length payload < kInputHeaderSize + count * kInputEventSize then nullopt
        else do {
          firstSeq \<leftarrow> GetU32 payload 0;
          evs \<leftarrow> read_events payload kInputHeaderSize count;
          some_opt (firstSeq, evs)
        }
      })"

definition ParseClipboardChunk :: "bytes \<Rightarrow> ClipboardChunkView option checked" where
  "ParseClipboardChunk payload =
     (if length payload < kClipboardHeaderSize then nullopt
      else do {
        rev \<leftarrow> GetU32 payload 0;
        idx \<leftarrow> GetU16 payload 4;
        cnt \<leftarrow> GetU16 payload 6;
        if cnt = 0 \<or> unat cnt > kMaxClipboardChunks then nullopt
        else if idx \<ge> cnt then nullopt
        else do {
          rest \<leftarrow> subspan payload kClipboardHeaderSize;
          if length rest > kMaxClipboardChunkPayload then nullopt
          else some_opt \<lparr>cb_revision = rev, cb_chunkIndex = idx, cb_chunkCount = cnt, cb_payload = rest\<rparr>
        }
      })"

section \<open>Records and packet classification\<close>

text \<open>
  The default \<open>RecordView\<close> has the status \<open>NeedMore\<close>, an empty message and 0 bytes consumed.
\<close>

definition ReadRecord :: "bytes \<Rightarrow> RecordView checked" where
  "ReadRecord buffer =
     (let v = \<lparr>rv_status = RecordNeedMore, rv_message = [], rv_consumed = 0\<rparr>
      in if length buffer < kRecordPrefixSize then Some v
      else do {
        l \<leftarrow> GetU16 buffer 0;
        let len = unat l;
        if len = 0 \<or> len > kMaxRecordSize then Some (v\<lparr>rv_status := RecordInvalid\<rparr>)
        else if length buffer < kRecordPrefixSize + len then Some v
        else do {
          message \<leftarrow> rdn buffer kRecordPrefixSize len;
          Some \<lparr>rv_status = RecordOk, rv_message = message, rv_consumed = kRecordPrefixSize + len\<rparr>
        }
      })"

definition ClassifyPacket :: "bytes \<Rightarrow> PacketKind checked" where
  "ClassifyPacket datagram =
     (if datagram = [] then Some PacketUnknown
      else do {
        b \<leftarrow> rd8 datagram 0;
        Some (if b AND 0xC0 \<noteq> 0 then PacketQuic
              else if b \<noteq> kProtocolVersion then PacketUnknown
              else if length datagram < kCommonHeaderSize then PacketUnknown
              else PacketDeskhub)
      })"

section \<open>Terminal\<close>

definition ParseTermOpen :: "bytes \<Rightarrow> TermOpen option checked" where
  "ParseTermOpen payload =
     (if length payload < 9 then nullopt
      else do {
        c \<leftarrow> GetU16 payload 0;
        r \<leftarrow> GetU16 payload 2;
        if \<not> IsValidTermSize \<lparr>ts_cols = c, ts_rows = r\<rparr> then nullopt
        else do {
          rid \<leftarrow> GetU32 payload 4;
          nl \<leftarrow> rd8 payload 8;
          let nameLen = (if unat nl > kMaxClientNameBytes then 0 else unat nl);
          name \<leftarrow> (if nameLen \<noteq> 0 \<and> length payload \<ge> 9 + nameLen
                   then read_printable payload 9 nameLen else Some []);
          some_opt \<lparr>to_size = \<lparr>ts_cols = c, ts_rows = r\<rparr>, to_resumeId = rid, to_clientName = name\<rparr>
        }
      })"

definition ParseTermOpenAck :: "bytes \<Rightarrow> TermOpenAck option checked" where
  "ParseTermOpenAck payload =
     (if length payload < 6 then nullopt
      else do {
        r \<leftarrow> rd8 payload 4;
        if r > TermReason_code TermNoSuchSession then nullopt
        else do {
          i \<leftarrow> GetU32 payload 0;
          b \<leftarrow> rd8 payload 5;
          some_opt \<lparr>toa_termId = i, toa_reason = TermReason_of r, toa_resumed = (b \<noteq> 0)\<rparr>
        }
      })"

definition ParseTermResize :: "bytes \<Rightarrow> TermSize option checked" where
  "ParseTermResize payload =
     (if length payload < 4 then nullopt
      else do {
        c \<leftarrow> GetU16 payload 0;
        r \<leftarrow> GetU16 payload 2;
        if \<not> IsValidTermSize \<lparr>ts_cols = c, ts_rows = r\<rparr> then nullopt
        else some_opt \<lparr>ts_cols = c, ts_rows = r\<rparr>
      })"

text \<open>
  The loop of \<open>ParseTermListAck\<close>: \<open>n\<close> entries left, \<open>rest\<close> the bytes not yet read.
\<close>

fun read_term_entries :: "bytes \<Rightarrow> nat \<Rightarrow> TermSessionEntry list option checked" where
  "read_term_entries rest 0 = some_opt []"
| "read_term_entries rest (Suc n) =
     (if length rest < kTermListEntryFixedBytes then nullopt
      else do {
        st \<leftarrow> rd8 rest 4;
        if st > TerminalState_code TermLocal then nullopt
        else do {
          c \<leftarrow> GetU16 rest 5;
          r \<leftarrow> GetU16 rest 7;
          if \<not> IsValidTermSize \<lparr>ts_cols = c, ts_rows = r\<rparr> then nullopt
          else do {
            nl \<leftarrow> rd8 rest 9;
            let nameLen = unat nl;
            if nameLen > kMaxClientNameBytes \<or> nameLen > length rest - kTermListEntryFixedBytes
            then nullopt
            else do {
              i \<leftarrow> GetU32 rest 0;
              name \<leftarrow> rdn rest kTermListEntryFixedBytes nameLen;
              more \<leftarrow> subspan rest (kTermListEntryFixedBytes + nameLen);
              es \<leftarrow> read_term_entries more n;
              Some (map_option ((#) \<lparr>te_termId = i, te_state = TerminalState_of st,
                      te_size = \<lparr>ts_cols = c, ts_rows = r\<rparr>, te_clientName = name\<rparr>) es)
            }
          }
        }
      })"

definition ParseTermListAck :: "bytes \<Rightarrow> TermSessionEntry list option checked" where
  "ParseTermListAck payload =
     (if length payload < 2 then nullopt
      else do {
        c \<leftarrow> GetU16 payload 0;
        let count = unat c;
        if count > kMaxTermListEntries then nullopt
        else do {
          rest \<leftarrow> subspan payload 2;
          read_term_entries rest count
        }
      })"

definition ParseTermExit :: "bytes \<Rightarrow> i32 option checked" where
  "ParseTermExit payload =
     (if length payload < 4 then nullopt else do { v \<leftarrow> GetU32 payload 0; some_opt v })"

section \<open>File transfer\<close>

text \<open>
  The loop of \<open>ParseFileOffer\<close>: \<open>n\<close> entries left, reading at \<open>at\<close>, \<open>totalBytes\<close> summed.
\<close>

fun read_offer :: "bytes \<Rightarrow> nat \<Rightarrow> u64 \<Rightarrow> nat \<Rightarrow> TransferFile list option checked" where
  "read_offer payload at totalBytes 0 = some_opt []"
| "read_offer payload at totalBytes (Suc n) =
     (if length payload < at + kFileOfferEntryOverhead then nullopt
      else do {
        sz \<leftarrow> GetU64 payload at;
        if sz > kMaxTransferFileBytes then nullopt
        else let totalBytes = totalBytes + sz
        in if totalBytes > kMaxTransferBatchBytes then nullopt
        else do {
          nl \<leftarrow> rd8 payload (at + 8);
          let nameLen = unat nl;
          let at = at + kFileOfferEntryOverhead;
          if length payload < at + nameLen then nullopt
          else do {
            name \<leftarrow> rdn payload at nameLen;
            if \<not> IsWireLegalFileName name then nullopt
            else do {
              fs \<leftarrow> read_offer payload (at + nameLen) totalBytes n;
              Some (map_option ((#) \<lparr>tf_size = sz, tf_name = name\<rparr>) fs)
            }
          }
        }
      })"

definition ParseFileOffer :: "bytes \<Rightarrow> FileOffer option checked" where
  "ParseFileOffer payload =
     (if length payload < kFileOfferHeaderSize then nullopt
      else do {
        i \<leftarrow> GetU32 payload 0;
        c \<leftarrow> rd8 payload 4;
        let count = unat c;
        if count = 0 \<or> count > kMaxTransferFiles then nullopt
        else do {
          fs \<leftarrow> read_offer payload kFileOfferHeaderSize 0 count;
          Some (map_option (\<lambda>fs. \<lparr>fo_batchId = i, fo_files = fs\<rparr>) fs)
        }
      })"

definition ParseFileAccept :: "bytes \<Rightarrow> FileAccept option checked" where
  "ParseFileAccept payload =
     (if length payload < 5 then nullopt
      else do {
        r \<leftarrow> rd8 payload 4;
        if r > kMaxTransferReason then nullopt
        else do {
          i \<leftarrow> GetU32 payload 0;
          some_opt \<lparr>fa_batchId = i, fa_reason = TransferReason_of r\<rparr>
        }
      })"

definition ParseFileChunk :: "bytes \<Rightarrow> FileChunkView option checked" where
  "ParseFileChunk payload =
     (if length payload \<le> kFileChunkHeaderSize then nullopt
      else do {
        i \<leftarrow> GetU32 payload 0;
        idx \<leftarrow> GetU16 payload 4;
        if unat idx \<ge> kMaxTransferFiles then nullopt
        else do {
          off \<leftarrow> GetU64 payload 6;
          data \<leftarrow> subspan payload kFileChunkHeaderSize;
          if length data > kMaxFileChunkBytes then nullopt
          else if off > kMaxTransferFileBytes - of_nat (length data) then nullopt
          else some_opt \<lparr>fc_batchId = i, fc_fileIndex = idx, fc_offset = off, fc_data = data\<rparr>
        }
      })"

definition ParseFileDone :: "bytes \<Rightarrow> FileDone option checked" where
  "ParseFileDone payload =
     (if length payload < 10 then nullopt
      else do {
        i \<leftarrow> GetU32 payload 0;
        idx \<leftarrow> GetU16 payload 4;
        if unat idx \<ge> kMaxTransferFiles then nullopt
        else do {
          crc \<leftarrow> GetU32 payload 6;
          some_opt \<lparr>fd_batchId = i, fd_fileIndex = idx, fd_crc32 = crc\<rparr>
        }
      })"

definition ParseFileAck :: "bytes \<Rightarrow> FileAck option checked" where
  "ParseFileAck payload =
     (if length payload < 7 then nullopt
      else do {
        r \<leftarrow> rd8 payload 6;
        if r > kMaxTransferReason then nullopt
        else do {
          i \<leftarrow> GetU32 payload 0;
          idx \<leftarrow> GetU16 payload 4;
          if unat idx \<ge> kMaxTransferFiles then nullopt
          else some_opt \<lparr>fk_batchId = i, fk_fileIndex = idx, fk_reason = TransferReason_of r\<rparr>
        }
      })"

definition ParseFileCancel :: "bytes \<Rightarrow> FileCancel option checked" where
  "ParseFileCancel payload =
     (if length payload < 5 then nullopt
      else do {
        r \<leftarrow> rd8 payload 4;
        if r > kMaxTransferReason then nullopt
        else do {
          i \<leftarrow> GetU32 payload 0;
          some_opt \<lparr>fx_batchId = i, fx_reason = TransferReason_of r\<rparr>
        }
      })"

end
