(* ===== verification/WireSafety.thy ===== *)
theory WireSafety
  imports WireParse
begin

text \<open>
  Memory safety of the wire code: on every input the parsers read only inside the payload they
  were given (no checked read is \<open>None\<close>), and every builder stores exactly the bytes it has
  reserved, inside the span it was given.
\<close>

section \<open>The parsers stay inside the payload\<close>

text \<open>A sequence of reads fails exactly where one of them does.\<close>

lemma read_None:
  "rd8 p i = None \<longleftrightarrow> length p \<le> i"
  "rdn p i n = None \<longleftrightarrow> length p < i + n"
  "subspan p i = None \<longleftrightarrow> length p < i"
  by (auto simp: rd8_def rdn_def subspan_def)

lemma GetU_None:
  "GetU16 p i = None \<longleftrightarrow> length p < i + 2"
  "GetU32 p i = None \<longleftrightarrow> length p < i + 4"
  "GetU64 p i = None \<longleftrightarrow> length p < i + 8"
  by (auto simp: GetU16_def GetU32_def GetU64_def Option.bind_eq_None_conv read_None)

lemmas seq_safe = Option.bind_eq_None_conv read_None GetU_None kconsts Let_def

lemma read_printable_in:
  "off + n \<le> length p \<Longrightarrow> read_printable p off n = Some (filter printable (take n (drop off p)))"
proof (induction n arbitrary: off)
  case (Suc n)
  then have "drop off p = p ! off # drop (Suc off) p"
    by (simp add: Cons_nth_drop_Suc)
  with Suc show ?case by (simp add: in_range printable_def)
qed simp

lemma read_sources_safe: "read_sources p off n \<noteq> None"
  by (induction n arbitrary: off) (auto simp: seq_safe simp del: not_None_eq)

lemma skip_sources_safe: "skip_sources p off n \<noteq> None"
  by (induction n arbitrary: off) (auto simp: seq_safe simp del: not_None_eq)

lemma read_u16s_safe: "off + 2 * n \<le> length p \<Longrightarrow> read_u16s p off n \<noteq> None"
  by (induction n arbitrary: off) (auto simp: seq_safe simp del: not_None_eq)

lemma read_events_safe: "off + n * kInputEventSize \<le> length p \<Longrightarrow> read_events p off n \<noteq> None"
  by (induction n arbitrary: off) (auto simp: seq_safe simp del: not_None_eq)

lemma read_term_entries_safe: "read_term_entries p n \<noteq> None"
  by (induction n arbitrary: p) (auto simp: seq_safe simp del: not_None_eq)

lemma read_offer_safe: "read_offer p at t n \<noteq> None"
  by (induction n arbitrary: at t) (auto simp: seq_safe simp del: not_None_eq)

lemmas loops_safe = read_sources_safe skip_sources_safe read_u16s_safe read_events_safe
  read_term_entries_safe read_offer_safe

lemma ParseCommonHeader_safe: "ParseCommonHeader p \<noteq> None"
  by (auto simp: ParseCommonHeader_def seq_safe simp del: not_None_eq)

lemma PayloadOf_safe: "PayloadOf p \<noteq> None"
  by (auto simp: PayloadOf_def seq_safe simp del: not_None_eq)

lemma ParseAuthStart_safe: "ParseAuthStart p \<noteq> None"
  by (auto simp: ParseAuthStart_def seq_safe read_printable_in simp del: not_None_eq)

lemma ParseAuth_safe:
  "ParseAuthChallenge p \<noteq> None" "ParseAuthResponse p \<noteq> None" "ParseAuthResult p \<noteq> None"
  by (auto simp: ParseAuthChallenge_def ParseAuthResponse_def ParseAuthResult_def seq_safe simp del: not_None_eq)

lemma ParseHello_safe: "ParseHello p \<noteq> None" "ParseHelloAck p \<noteq> None"
  by (auto simp: ParseHello_def ParseHelloAck_def seq_safe read_printable_in simp del: not_None_eq)

lemma ParseSourceList_safe: "ParseSourceList p n \<noteq> None"
  by (auto simp: loops_safe ParseSourceList_def seq_safe simp del: not_None_eq)

lemma ParseSourceListHostName_safe: "ParseSourceListHostName p \<noteq> None"
  by (auto simp: loops_safe ParseSourceListHostName_def seq_safe simp del: not_None_eq
      split: option.split)

lemma ParseControl_safe:
  "ParsePingPong p \<noteq> None" "ParseFeedback p \<noteq> None" "ParseReconfig p \<noteq> None"
  "ParseSetFocus p \<noteq> None" "ParseInvalidateRef p \<noteq> None"
  by (auto simp: ParsePingPong_def ParseFeedback_def ParseReconfig_def ParseSetFocus_def
      ParseInvalidateRef_def seq_safe simp del: not_None_eq)

lemma ParseNack_safe: "ParseNack p n \<noteq> None"
  by (auto simp: loops_safe ParseNack_def seq_safe simp del: not_None_eq)

lemma ParseMedia_safe:
  "ParseVideoPacket h p \<noteq> None" "ParseAudioPacket p \<noteq> None" "ParseFecPacket h p \<noteq> None"
  by (auto simp: ParseVideoPacket_def ParseAudioPacket_def ParseFecPacket_def seq_safe simp del: not_None_eq)

lemma ParseInputEvents_safe: "ParseInputEvents p n \<noteq> None"
  by (auto simp: loops_safe ParseInputEvents_def seq_safe simp del: not_None_eq)

lemma ParseClipboardChunk_safe: "ParseClipboardChunk p \<noteq> None"
  by (auto simp: ParseClipboardChunk_def seq_safe simp del: not_None_eq)

lemma ReadRecord_safe: "ReadRecord p \<noteq> None"
  by (auto simp: ReadRecord_def seq_safe simp del: not_None_eq)

lemma ClassifyPacket_safe: "ClassifyPacket p \<noteq> None"
  by (auto simp: ClassifyPacket_def seq_safe simp del: not_None_eq)

lemma ParseTerm_safe:
  "ParseTermOpen p \<noteq> None" "ParseTermOpenAck p \<noteq> None" "ParseTermResize p \<noteq> None"
  "ParseTermExit p \<noteq> None"
  by (auto simp: ParseTermOpen_def ParseTermOpenAck_def ParseTermResize_def ParseTermExit_def
      seq_safe read_printable_in simp del: not_None_eq)

lemma ParseTermListAck_safe: "ParseTermListAck p \<noteq> None"
  by (auto simp: loops_safe ParseTermListAck_def seq_safe simp del: not_None_eq)

lemma ParseFileOffer_safe: "ParseFileOffer p \<noteq> None"
  by (auto simp: loops_safe ParseFileOffer_def seq_safe simp del: not_None_eq)

lemma ParseFile_safe:
  "ParseFileAccept p \<noteq> None" "ParseFileChunk p \<noteq> None" "ParseFileDone p \<noteq> None"
  "ParseFileAck p \<noteq> None" "ParseFileCancel p \<noteq> None"
  by (auto simp: ParseFileAccept_def ParseFileChunk_def ParseFileDone_def ParseFileAck_def
      ParseFileCancel_def seq_safe simp del: not_None_eq)

lemmas parsers_safe = ParseCommonHeader_safe PayloadOf_safe ParseAuthStart_safe ParseAuth_safe
  ParseHello_safe ParseSourceList_safe ParseSourceListHostName_safe ParseControl_safe
  ParseNack_safe ParseMedia_safe ParseInputEvents_safe ParseClipboardChunk_safe ReadRecord_safe
  ClassifyPacket_safe ParseTerm_safe ParseTermListAck_safe ParseFileOffer_safe ParseFile_safe

section \<open>The builders stay inside the span\<close>

lemma utf8_back_le: "utf8_back s n \<le> n"
  by (induction s n rule: utf8_back.induct) auto

lemma Utf8TruncLen_le: "Utf8TruncLen s n \<le> n" "Utf8TruncLen s n \<le> length s"
  using utf8_back_le [of s n] by (auto simp: Utf8TruncLen_def)

lemma min_Utf8TruncLen [simp]: "min (length s) (Utf8TruncLen s n) = Utf8TruncLen s n"
  by (simp add: Utf8TruncLen_le(2) min_absorb2)

lemma length_WriteCommon:
  "length (WriteCommon cap t f c s n) = (if cap < 8 + n then 0 else 8)"
  by (simp add: WriteCommon_def kconsts)

lemma WriteCommon_Nil [simp]: "WriteCommon cap t f c s n = [] \<longleftrightarrow> cap < 8 + n"
  by (simp add: WriteCommon_def kconsts)

text \<open>A builder whose payload has the size it reserved writes inside the span.\<close>

lemma finish_fits:
  "length body = n \<Longrightarrow> length (finish (WriteCommon cap t f c s n) body) \<le> cap"
  by (simp add: finish_def length_WriteCommon)

lemma length_put_source:
  "length (put_source x) = 6 + Utf8TruncLen (src_name x) kMaxSourceNameBytes"
  by (simp add: put_source_def Let_def)

lemma length_put_input_event: "length (put_input_event e) = kInputEventSize"
  by (simp add: put_input_event_def kconsts)

lemma length_put_term_entry:
  "length (put_term_entry e)
     = kTermListEntryFixedBytes + Utf8TruncLen (te_clientName e) kMaxClientNameBytes"
  by (simp add: put_term_entry_def Let_def kTermListEntryFixedBytes_def)

lemma length_put_offer_entry:
  "length (put_offer_entry f)
     = kFileOfferEntryOverhead + Utf8TruncLen (tf_name f) kMaxTransferNameBytes"
  by (simp add: put_offer_entry_def Let_def kFileOfferEntryOverhead_def)

lemma length_concat_const: "(\<And>x. length (f x) = k) \<Longrightarrow> length (concat (map f xs)) = length xs * k"
  by (induction xs) auto

lemma length_concat_sum: "(\<And>x. length (f x) = g x) \<Longrightarrow> length (concat (map f xs)) = sum_list (map g xs)"
  by (induction xs) auto

lemma offer_payload_size:
  "offer_payload fs p t = Some n \<Longrightarrow> n = p + length (concat (map put_offer_entry fs))"
  by (induction fs p t rule: offer_payload.induct)
    (auto simp: Let_def length_put_offer_entry split: if_splits)

lemma BuildEmpty_fits: "length (BuildEmpty cap t s) \<le> cap"
  by (simp add: BuildEmpty_def length_WriteCommon)

lemma session_builders_fit:
  "length (BuildHello cap m1) \<le> cap" "length (BuildHelloAck cap m2) \<le> cap"
  "length (BuildAuthStart cap m3) \<le> cap" "length (BuildAuthChallenge cap m4) \<le> cap"
  "length (BuildAuthResponse cap m5) \<le> cap" "length (BuildAuthResult cap m6) \<le> cap"
  by (auto simp: BuildHello_def BuildHelloAck_def BuildAuthStart_def BuildAuthChallenge_def
      BuildAuthResponse_def BuildAuthResult_def Let_def kconsts intro!: finish_fits)

lemma BuildSourceList_fits: "length (BuildSourceList cap xs caps h) \<le> cap"
  unfolding BuildSourceList_def Let_def
  by (rule finish_fits) (simp add: length_concat_sum [OF length_put_source])

lemma control_builders_fit:
  "length (BuildPing cap s m1) \<le> cap" "length (BuildPong cap s m1) \<le> cap"
  "length (BuildFeedback cap s m2) \<le> cap" "length (BuildSetFocus cap s b) \<le> cap"
  "length (BuildInvalidateRef cap s i) \<le> cap" "length (BuildReconfig cap s m3) \<le> cap"
  by (auto simp: BuildPing_def BuildPong_def BuildPingPongImpl_def BuildFeedback_def
      BuildSetFocus_def BuildInvalidateRef_def BuildReconfig_def kconsts intro!: finish_fits)

lemma media_builders_fit:
  "length (BuildNack cap s i is) \<le> cap" "length (BuildVideoPacket cap s vh a b p) \<le> cap"
  "length (BuildFecPacket cap s fh a p) \<le> cap" "length (BuildAudioPacket cap s ah p) \<le> cap"
  "length (BuildInputEvents cap s q evs) \<le> cap" "length (BuildClipboardChunk cap s ck) \<le> cap"
  by (auto simp: BuildNack_def BuildVideoPacket_def BuildFecPacket_def BuildAudioPacket_def
      BuildInputEvents_def BuildClipboardChunk_def Let_def kconsts
      length_concat_const [OF length_PutU16] length_concat_const [OF length_put_input_event]
      intro!: finish_fits)

lemma BuildRecord_fits: "length (BuildRecord cap m) \<le> cap"
  by (simp add: BuildRecord_def kconsts)

lemma BuildTermListAck_fits: "length (BuildTermListAck cap xs) \<le> cap"
  unfolding BuildTermListAck_def Let_def
  by (rule finish_fits) (simp add: length_concat_sum [OF length_put_term_entry])

lemma terminal_builders_fit:
  "length (BuildTermOpen cap m1) \<le> cap" "length (BuildTermOpenAck cap m2) \<le> cap"
  "length (BuildTermData cap i d) \<le> cap" "length (BuildTermResize cap i z) \<le> cap"
  "length (BuildTermClose cap i) \<le> cap" "length (BuildTermExit cap i e) \<le> cap"
  "length (BuildTermList cap) \<le> cap"
  by (auto simp: BuildTermOpen_def BuildTermOpenAck_def BuildTermData_def BuildTermResize_def
      BuildTermClose_def BuildTermExit_def BuildTermList_def Let_def kconsts length_WriteCommon
      intro!: finish_fits)

lemma BuildFileOffer_fits: "length (BuildFileOffer cap m) \<le> cap"
  by (auto simp: BuildFileOffer_def kconsts split: option.splits
      dest!: offer_payload_size intro!: finish_fits)

lemma file_builders_fit:
  "length (BuildFileAccept cap m1) \<le> cap" "length (BuildFileChunk cap i x off d) \<le> cap"
  "length (BuildFileDone cap m2) \<le> cap" "length (BuildFileAck cap m3) \<le> cap"
  "length (BuildFileCancel cap m4) \<le> cap"
  by (auto simp: BuildFileAccept_def BuildFileChunk_def BuildFileDone_def BuildFileAck_def
      BuildFileCancel_def kconsts intro!: finish_fits)

lemmas builders_fit = session_builders_fit BuildSourceList_fits control_builders_fit
  media_builders_fit BuildRecord_fits BuildTermListAck_fits terminal_builders_fit
  BuildFileOffer_fits file_builders_fit BuildEmpty_fits

end
