(* ===== verification/WireRoundtrip.thy ===== *)
theory WireRoundtrip
  imports WireSafety
begin

text \<open>
  What a receiver reads from a built message: every message a builder accepts comes back through
  the common header and its parser, up to the stated normalisation (a name is cut at a UTF-8
  boundary and loses its control characters, a terminal size is clamped).
\<close>

section \<open>The common header\<close>

lemma finish_cases:
  "finish (WriteCommon cap t f c s n) body
     = (if cap < 8 + n then [] else WriteCommon cap t f c s n @ body)"
  by (simp add: finish_def)

lemma ParseCommonHeader_WriteCommon:
  assumes "WriteCommon cap t f c s n \<noteq> []"
  shows "ParseCommonHeader (WriteCommon cap t f c s n @ body)
      = some_opt \<lparr>ch_ver = kProtocolVersion, ch_type = MsgType_of (MsgType_code t), ch_flags = f,
          ch_chan = Chan_of (Chan_code c), ch_sessionId = s\<rparr>"
  using assms by (simp add: ParseCommonHeader_def WriteCommon_def checked_simps kconsts split: if_splits)

lemma PayloadOf_WriteCommon:
  assumes "WriteCommon cap t f c s n \<noteq> []"
  shows "PayloadOf (WriteCommon cap t f c s n @ body) = Some body"
proof -
  have "length (WriteCommon cap t f c s n) = 8"
    using assms by (simp add: length_WriteCommon)
  then show ?thesis by (simp add: PayloadOf_def subspan_def kconsts)
qed

lemma header_of_finish:
  "finish (WriteCommon cap t f c s n) body \<noteq> [] \<Longrightarrow>
   ParseCommonHeader (finish (WriteCommon cap t f c s n) body)
      = some_opt \<lparr>ch_ver = kProtocolVersion, ch_type = MsgType_of (MsgType_code t), ch_flags = f,
          ch_chan = Chan_of (Chan_code c), ch_sessionId = s\<rparr>"
  by (simp add: finish_def ParseCommonHeader_WriteCommon split: if_splits)

lemma payload_of_finish:
  "finish (WriteCommon cap t f c s n) body \<noteq> [] \<Longrightarrow>
   PayloadOf (finish (WriteCommon cap t f c s n) body) = Some body"
  by (simp add: finish_def PayloadOf_WriteCommon split: if_splits)

text \<open>What the parser of a message sees of a datagram: the header read, then the payload parsed.\<close>

definition parse_with :: "(CommonHeader \<Rightarrow> bytes \<Rightarrow> 'a option checked) \<Rightarrow> bytes \<Rightarrow> (CommonHeader \<times> 'a) option checked" where
  "parse_with parse datagram = do {
     h \<leftarrow> ParseCommonHeader datagram;
     case h of
       None \<Rightarrow> nullopt
     | Some h \<Rightarrow> do {
         p \<leftarrow> PayloadOf datagram;
         m \<leftarrow> parse h p;
         Some (map_option (Pair h) m)
       }
   }"

abbreviation hdr :: "MsgType \<Rightarrow> u8 \<Rightarrow> Chan \<Rightarrow> u32 \<Rightarrow> CommonHeader" where
  "hdr t f c s \<equiv> \<lparr>ch_ver = kProtocolVersion, ch_type = t, ch_flags = f, ch_chan = c, ch_sessionId = s\<rparr>"

lemma parse_with_finish:
  assumes "finish (WriteCommon cap t f c s n) body \<noteq> []"
    and "MsgType_of (MsgType_code t) = t" "Chan_of (Chan_code c) = c"
    and "parse (hdr t f c s) body = some_opt m"
  shows "parse_with parse (finish (WriteCommon cap t f c s n) body) = some_opt (hdr t f c s, m)"
  using assms by (simp add: parse_with_def header_of_finish payload_of_finish)

lemma Chan_of_code [simp]:
  "Chan_of 0 = ChanControl" "Chan_of 1 = ChanVideo" "Chan_of 2 = ChanInput"
  "Chan_of 3 = ChanAudio" "Chan_of 4 = ChanTerminal" "Chan_of 5 = ChanFile"
  by (simp_all add: Chan_of_def)

lemma named [simp]:
  "MsgHello \<in> set named_MsgTypes" "MsgHelloAck \<in> set named_MsgTypes"
  "MsgStart \<in> set named_MsgTypes" "MsgBye \<in> set named_MsgTypes"
  "MsgListSources \<in> set named_MsgTypes" "MsgSourceList \<in> set named_MsgTypes"
  "MsgVideoPacket \<in> set named_MsgTypes" "MsgFecPacket \<in> set named_MsgTypes"
  "MsgAudioPacket \<in> set named_MsgTypes" "MsgInputEvent \<in> set named_MsgTypes"
  "MsgPing \<in> set named_MsgTypes" "MsgPong \<in> set named_MsgTypes"
  "MsgFeedback \<in> set named_MsgTypes" "MsgRequestKeyframe \<in> set named_MsgTypes"
  "MsgReconfig \<in> set named_MsgTypes" "MsgSetFocus \<in> set named_MsgTypes"
  "MsgNack \<in> set named_MsgTypes" "MsgInvalidateRef \<in> set named_MsgTypes"
  "MsgClipboard \<in> set named_MsgTypes" "MsgTermOpen \<in> set named_MsgTypes"
  "MsgTermOpenAck \<in> set named_MsgTypes" "MsgTermData \<in> set named_MsgTypes"
  "MsgTermResize \<in> set named_MsgTypes" "MsgTermClose \<in> set named_MsgTypes"
  "MsgTermExit \<in> set named_MsgTypes" "MsgTermList \<in> set named_MsgTypes"
  "MsgTermListAck \<in> set named_MsgTypes" "MsgAuthStart \<in> set named_MsgTypes"
  "MsgAuthChallenge \<in> set named_MsgTypes" "MsgAuthResponse \<in> set named_MsgTypes"
  "MsgAuthResult \<in> set named_MsgTypes" "MsgFileOffer \<in> set named_MsgTypes"
  "MsgFileAccept \<in> set named_MsgTypes" "MsgFileChunk \<in> set named_MsgTypes"
  "MsgFileDone \<in> set named_MsgTypes" "MsgFileAck \<in> set named_MsgTypes"
  "MsgFileCancel \<in> set named_MsgTypes"
  by (simp_all add: named_MsgTypes_def)

section \<open>Names\<close>

text \<open>A received name: cut where the sender cut it, and without its control characters.\<close>

definition sent_name :: "nat \<Rightarrow> bytes \<Rightarrow> bytes" where
  "sent_name limit s = take (Utf8TruncLen s limit) s"

definition shown_name :: "nat \<Rightarrow> bytes \<Rightarrow> bytes" where
  "shown_name limit s = filter printable (sent_name limit s)"

lemma length_sent_name: "length (sent_name limit s) = Utf8TruncLen s limit"
  by (simp add: sent_name_def)

lemma sent_name_le: "length (sent_name limit s) \<le> limit"
  by (simp add: length_sent_name Utf8TruncLen_le)

lemma unat_of_nat_u8: "n < 256 \<Longrightarrow> unat (of_nat n :: u8) = n"
  by (simp add: unat_of_nat)

lemma unat_of_nat_u16: "n < 65536 \<Longrightarrow> unat (of_nat n :: u16) = n"
  by (simp add: unat_of_nat)

lemma unat_name_len [simp]: "limit \<le> 255 \<Longrightarrow> unat (of_nat (Utf8TruncLen s limit) :: u8) = Utf8TruncLen s limit"
  using Utf8TruncLen_le(1) [of s limit] by (intro unat_of_nat_u8) linarith

lemma read_printable_Cons [checked_simps]: "0 < off \<Longrightarrow> read_printable (x # xs) off n = read_printable xs (off - 1) n"
  by (induction n arbitrary: off) (simp_all add: checked_simps)

lemma read_printable_skip [checked_simps]:
  "length xs \<le> off \<Longrightarrow> read_printable (xs @ ys) off n = read_printable ys (off - length xs) n"
  by (induction n arbitrary: off) (simp_all add: checked_simps Suc_diff_le)

lemma read_printable_here [checked_simps]:
  "length xs = n \<Longrightarrow> read_printable (xs @ ys) 0 n = Some (filter printable xs)"
  by (simp add: read_printable_in)

lemma read_printable_all [checked_simps]:
  "length xs = n \<Longrightarrow> read_printable xs 0 n = Some (filter printable xs)"
  by (simp add: read_printable_in)

text \<open>
  UTF-8 text, as far as cutting it needs: a character is a byte that is no continuation byte,
  followed by continuation bytes.
\<close>

definition continuation :: "u8 \<Rightarrow> bool" where
  "continuation b \<longleftrightarrow> b AND 0xC0 = 0x80"

definition utf8_char :: "bytes \<Rightarrow> bool" where
  "utf8_char c \<longleftrightarrow> c \<noteq> [] \<and> \<not> continuation (hd c) \<and> (\<forall>b\<in>set (tl c). continuation b)"

lemma utf8_back_unique:
  assumes "b \<le> n" "b = 0 \<or> \<not> continuation (s ! b)" "\<And>j. b < j \<Longrightarrow> j \<le> n \<Longrightarrow> continuation (s ! j)"
  shows "utf8_back s n = b"
  using assms by (induction n) (auto simp: continuation_def le_Suc_eq)

lemma cut_exists:
  "n < length (concat cs) \<Longrightarrow>
   \<exists>k<length cs. length (concat (take k cs)) \<le> n \<and> n < length (concat (take (Suc k) cs))"
proof (induction cs arbitrary: n)
  case (Cons c cs)
  show ?case
  proof (cases "n < length c")
    case False
    then have "n - length c < length (concat cs)" using Cons.prems by simp
    then obtain k where k: "k < length cs" "length (concat (take k cs)) \<le> n - length c"
      "n - length c < length (concat (take (Suc k) cs))"
      using Cons.IH by blast
    with False have "length (concat (take (Suc k) (c # cs))) \<le> n"
      "n < length (concat (take (Suc (Suc k)) (c # cs)))" by simp_all
    with k(1) show ?thesis by (intro exI [of _ "Suc k"]) simp
  qed auto
qed simp

lemma nth_in_char:
  assumes "k < length cs" "j < length (cs ! k)"
  shows "concat cs ! (length (concat (take k cs)) + j) = cs ! k ! j"
proof -
  have "concat cs = concat (take k cs) @ cs ! k @ concat (drop (Suc k) cs)"
    using assms(1) by (metis concat.simps(2) concat_append id_take_nth_drop)
  then have "concat cs ! (length (concat (take k cs)) + j)
      = (cs ! k @ concat (drop (Suc k) cs)) ! j"
    by (simp only: nth_append_length_plus)
  then show ?thesis using assms(2) by (simp add: nth_append)
qed

text \<open>Cutting UTF-8 text keeps the longest run of whole characters that fits.\<close>

lemma sent_name_whole_chars:
  assumes "\<forall>c\<in>set cs. utf8_char c"
  shows "\<exists>k\<le>length cs. sent_name n (concat cs) = concat (take k cs)
           \<and> length (concat (take k cs)) \<le> n
           \<and> (k < length cs \<longrightarrow> n < length (concat (take (Suc k) cs)))"
proof (cases "length (concat cs) \<le> n")
  case True
  then have "sent_name n (concat cs) = concat (take (length cs) cs)"
    by (simp add: sent_name_def Utf8TruncLen_def)
  with True show ?thesis by (intro exI [of _ "length cs"]) simp
next
  case False
  then obtain k where k: "k < length cs" "length (concat (take k cs)) \<le> n"
    "n < length (concat (take (Suc k) cs))"
    using cut_exists [of n cs] by auto
  let ?b = "length (concat (take k cs))"
  have c: "utf8_char (cs ! k)" using assms k(1) by simp
  have end_k: "n < ?b + length (cs ! k)"
    using k by (simp add: take_Suc_conv_app_nth)
  have "utf8_back (concat cs) n = ?b"
  proof (rule utf8_back_unique)
    show "?b \<le> n" by (rule k(2))
    show "?b = 0 \<or> \<not> continuation (concat cs ! ?b)"
      using nth_in_char [of k cs 0] c k(1) by (auto simp: utf8_char_def hd_conv_nth)
  next
    fix j assume j: "?b < j" "j \<le> n"
    then have "concat cs ! j = cs ! k ! (j - ?b)"
      using nth_in_char [of k cs "j - ?b"] k(1) end_k by simp
    moreover have "cs ! k ! (j - ?b) \<in> set (tl (cs ! k))"
      using j end_k by (cases "cs ! k") (auto simp: nth_Cons' intro!: nth_mem)
    ultimately show "continuation (concat cs ! j)"
      using c by (auto simp: utf8_char_def)
  qed
  then have "sent_name n (concat cs) = concat (take k cs)"
    using False k(1) by (simp add: sent_name_def Utf8TruncLen_def)
      (metis append_eq_conv_conj append_take_drop_id concat_append)
  with k show ?thesis by (intro exI [of _ k]) simp
qed

section \<open>Messages with a payload of a fixed layout\<close>

lemma parse_with_finishI:
  assumes "b = finish (WriteCommon cap t f c s n) body"
    and "b \<noteq> []"
    and "t \<in> set named_MsgTypes" "Chan_of (Chan_code c) = c"
    and "parse (hdr t f c s) body = some_opt m"
  shows "parse_with parse b = some_opt (hdr t f c s, m)"
  using parse_with_finish [of cap t f c s n body parse m] assms by simp

lemma Hello_roundtrip:
  assumes "BuildHello cap m \<noteq> []"
  shows "parse_with (\<lambda>_. ParseHello) (BuildHello cap m)
           = some_opt (hdr MsgHello 0 ChanControl 0,
               m\<lparr>hello_clientName := shown_name kMaxClientNameBytes (hello_clientName m)\<rparr>)"
  using Utf8TruncLen_le(1) [of "hello_clientName m" 64]
  by (intro parse_with_finishI [OF BuildHello_def [unfolded Let_def] assms])
    (auto simp: ParseHello_def kconsts checked_simps Let_def shown_name_def sent_name_def)

lemma AuthStart_roundtrip:
  assumes "BuildAuthStart cap m \<noteq> []"
  shows "parse_with (\<lambda>_. ParseAuthStart) (BuildAuthStart cap m)
           = some_opt (hdr MsgAuthStart 0 ChanControl 0,
               m\<lparr>as_clientName := shown_name kMaxClientNameBytes (as_clientName m)\<rparr>)"
proof -
  have key: "as_publicKey m \<noteq> []" "length (as_publicKey m) \<le> kMaxAuthBlobBytes"
    and tok: "as_pairingToken m = [] \<or> length (as_pairingToken m) = kPairingTokenBytes"
    and eq: "BuildAuthStart cap m = finish (WriteCommon cap MsgAuthStart 0 ChanControl 0 
     (1 + 2 + length (as_publicKey m) + 1 + Utf8TruncLen (as_clientName m) kMaxClientNameBytes + 1
                        + length (as_pairingToken m) + 1))
             ([0] @ PutU16 (of_nat (length (as_publicKey m))) @ as_publicKey m
              @ [of_nat (Utf8TruncLen (as_clientName m) kMaxClientNameBytes)] @ sent_name kMaxClientNameBytes (as_clientName m)
              @ [of_nat (length (as_pairingToken m))] @ as_pairingToken m @ [kAuthVersion])"
    using assms by (auto simp: BuildAuthStart_def Let_def sent_name_def split: if_splits)
  show ?thesis
   using key tok Utf8TruncLen_le(1) [of "as_clientName m" 64]
  by (intro parse_with_finishI [OF eq assms])
    (auto simp: ParseAuthStart_def kconsts checked_simps Let_def shown_name_def length_sent_name unat_of_nat_u16 unat_of_nat_u8)
qed


lemma AuthChallenge_roundtrip:
  assumes "BuildAuthChallenge cap m \<noteq> []"
  shows "parse_with (\<lambda>_. ParseAuthChallenge) (BuildAuthChallenge cap m)
           = some_opt (hdr MsgAuthChallenge 0 ChanControl 0,
               \<lparr>ac_mode = AuthMode_of (AuthMode_code (ac_mode m))\<rparr>)"
proof -
  have eq: "BuildAuthChallenge cap m = finish (WriteCommon cap MsgAuthChallenge 0 ChanControl 0 2)
             [kAuthVersion, AuthMode_code (ac_mode m)]"
    and ok: "AuthMode_code (ac_mode m) \<le> 3"
    using assms by (auto simp: BuildAuthChallenge_def split: if_splits)
  show ?thesis
    using ok by (intro parse_with_finishI [OF eq assms])
      (auto simp: ParseAuthChallenge_def kconsts checked_simps)
qed

lemma AuthResponse_roundtrip:
  assumes "BuildAuthResponse cap m \<noteq> []"
  shows "parse_with (\<lambda>_. ParseAuthResponse) (BuildAuthResponse cap m)
           = some_opt (hdr MsgAuthResponse 0 ChanControl 0, m)"
proof -
  have eq: "BuildAuthResponse cap m =
      finish (WriteCommon cap MsgAuthResponse 0 ChanControl 0 (1 + 2 + length (ar_proof m)))
             ([kAuthVersion] @ PutU16 (of_nat (length (ar_proof m))) @ ar_proof m)"
    and ok: "ar_proof m \<noteq> []" "length (ar_proof m) \<le> 256"
    using assms by (auto simp: BuildAuthResponse_def kconsts split: if_splits)
  show ?thesis
    using ok by (intro parse_with_finishI [OF eq assms])
      (auto simp: ParseAuthResponse_def kconsts checked_simps unat_of_nat_u16)
qed

lemma AuthResult_roundtrip:
  assumes "BuildAuthResult cap m \<noteq> []"
  shows "parse_with (\<lambda>_. ParseAuthResult) (BuildAuthResult cap m)
           = some_opt (hdr MsgAuthResult 0 ChanControl 0,
               \<lparr>ares_code = AuthResultCode_of (AuthResultCode_code (ares_code m))\<rparr>)"
proof -
  have eq: "BuildAuthResult cap m = finish (WriteCommon cap MsgAuthResult 0 ChanControl 0 2)
             [kAuthVersion, AuthResultCode_code (ares_code m)]"
    and ok: "IsWireAuthResultCode (AuthResultCode_code (ares_code m))"
    using assms by (auto simp: BuildAuthResult_def split: if_splits)
  show ?thesis
    using ok by (intro parse_with_finishI [OF eq assms])
      (auto simp: ParseAuthResult_def kconsts checked_simps)
qed

lemma HelloAck_roundtrip:
  assumes "BuildHelloAck cap m \<noteq> []" "RejectReason_code (ack_reason m) \<le> 1"
  shows "parse_with (\<lambda>_. ParseHelloAck) (BuildHelloAck cap m)
           = some_opt (hdr MsgHelloAck 0 ChanControl 0,
               m\<lparr>ack_reason := RejectReason_of (RejectReason_code (ack_reason m))\<rparr>)"
  using assms(2)
  by (intro parse_with_finishI [OF BuildHelloAck_def assms(1)])
    (auto simp: ParseHelloAck_def kconsts checked_simps)

lemma PingPong_roundtrip:
  assumes "BuildPingPongImpl cap t s m \<noteq> []" "t \<in> set named_MsgTypes"
  shows "parse_with (\<lambda>_. ParsePingPong) (BuildPingPongImpl cap t s m)
           = some_opt (hdr t 0 ChanControl s, m)"
  using assms(2)
  by (intro parse_with_finishI [OF BuildPingPongImpl_def assms(1)])
    (auto simp: ParsePingPong_def kconsts checked_simps)

lemma Ping_roundtrip:
  "BuildPing cap s m \<noteq> [] \<Longrightarrow> parse_with (\<lambda>_. ParsePingPong) (BuildPing cap s m) = some_opt (hdr MsgPing 0 ChanControl s, m)"
  and Pong_roundtrip:
  "BuildPong cap s m \<noteq> [] \<Longrightarrow> parse_with (\<lambda>_. ParsePingPong) (BuildPong cap s m) = some_opt (hdr MsgPong 0 ChanControl s, m)"
  using PingPong_roundtrip [of cap MsgPing s m] PingPong_roundtrip [of cap MsgPong s m]
  by (simp_all add: BuildPing_def BuildPong_def)

lemma Feedback_roundtrip:
  assumes "BuildFeedback cap s m \<noteq> []"
  shows "parse_with (\<lambda>_. ParseFeedback) (BuildFeedback cap s m)
           = some_opt (hdr MsgFeedback 0 ChanControl s, m)"
  by (intro parse_with_finishI [OF BuildFeedback_def assms])
    (auto simp: ParseFeedback_def kconsts checked_simps)

lemma Reconfig_roundtrip:
  assumes "BuildReconfig cap s m \<noteq> []"
  shows "parse_with (\<lambda>_. ParseReconfig) (BuildReconfig cap s m)
           = some_opt (hdr MsgReconfig 0 ChanControl s, m)"
  by (intro parse_with_finishI [OF BuildReconfig_def assms])
    (auto simp: ParseReconfig_def kconsts checked_simps)

lemma SetFocus_roundtrip:
  assumes "BuildSetFocus cap s b \<noteq> []"
  shows "parse_with (\<lambda>_. ParseSetFocus) (BuildSetFocus cap s b)
           = some_opt (hdr MsgSetFocus 0 ChanControl s, b)"
  by (intro parse_with_finishI [OF BuildSetFocus_def assms])
    (auto simp: ParseSetFocus_def kconsts checked_simps)

lemma InvalidateRef_roundtrip:
  assumes "BuildInvalidateRef cap s i \<noteq> []"
  shows "parse_with (\<lambda>_. ParseInvalidateRef) (BuildInvalidateRef cap s i)
           = some_opt (hdr MsgInvalidateRef 0 ChanControl s, i)"
  by (intro parse_with_finishI [OF BuildInvalidateRef_def assms])
    (auto simp: ParseInvalidateRef_def kconsts checked_simps)

section \<open>Media\<close>

definition video_flags :: "bool \<Rightarrow> bool \<Rightarrow> u8" where
  "video_flags idr frameEnd = (if idr then kVideoFlagIdr else 0) OR (if frameEnd then kVideoFlagFrameEnd else 0)"

lemma VideoPacket_roundtrip:
  assumes "BuildVideoPacket cap s vh idr fe pl \<noteq> []" "vh_pktIndex vh < vh_pktCount vh"
  shows "parse_with ParseVideoPacket (BuildVideoPacket cap s vh idr fe pl)
           = some_opt (hdr MsgVideoPacket (video_flags idr fe) ChanVideo s,
               \<lparr>vp_hdr = vh, vp_idr = idr, vp_frameEnd = fe, vp_payload = pl\<rparr>)"
proof -
  have eq: "BuildVideoPacket cap s vh idr fe pl =
      finish (WriteCommon cap MsgVideoPacket (video_flags idr fe) ChanVideo s
                   (kVideoHeaderSize + length pl))
           (PutU32 (vh_frameId vh) @ PutU64 (vh_timestampUs vh) @ PutU16 (vh_pktIndex vh)
            @ PutU16 (vh_pktCount vh) @ pl)"
    and ok: "length pl \<le> 1174"
    using assms by (auto simp: BuildVideoPacket_def video_flags_def Let_def kconsts split: if_splits)
  show ?thesis
    using ok assms(2) by (intro parse_with_finishI [OF eq assms(1)])
      (auto simp: ParseVideoPacket_def video_flags_def kconsts checked_simps)
qed

lemma FecPacket_roundtrip:
  assumes "BuildFecPacket cap s fh idr par \<noteq> []"
    and "unat (fh_groupIndex fh) < (unat (fh_pktCount fh) + kFecGroupSize - 1) div kFecGroupSize"
  shows "parse_with ParseFecPacket (BuildFecPacket cap s fh idr par)
           = some_opt (hdr MsgFecPacket (video_flags idr False) ChanVideo s,
               \<lparr>fp_hdr = fh, fp_idr = idr, fp_parity = par\<rparr>)"
proof -
  have eq: "BuildFecPacket cap s fh idr par =
      finish (WriteCommon cap MsgFecPacket (video_flags idr False) ChanVideo s
                     (kFecHeaderSize + length par))
             (PutU32 (fh_frameId fh) @ PutU64 (fh_timestampUs fh) @ PutU16 (fh_pktCount fh)
              @ [fh_groupIndex fh, 0] @ par)"
    and ok: "2 \<le> length par" "length par \<le> 1176"
    using assms(1) by (auto simp: BuildFecPacket_def video_flags_def Let_def kconsts split: if_splits)
  show ?thesis
    using ok assms(2) by (intro parse_with_finishI [OF eq assms(1)])
      (auto simp: ParseFecPacket_def video_flags_def kconsts checked_simps)
qed

lemma AudioPacket_roundtrip:
  assumes "BuildAudioPacket cap s ah pl \<noteq> []"
  shows "parse_with (\<lambda>_. ParseAudioPacket) (BuildAudioPacket cap s ah pl)
           = some_opt (hdr MsgAudioPacket 0 ChanAudio s, \<lparr>ap_hdr = ah, ap_payload = pl\<rparr>)"
proof -
  have eq: "BuildAudioPacket cap s ah pl =
      finish (WriteCommon cap MsgAudioPacket 0 ChanAudio s (kAudioHeaderSize + length pl))
             (PutU32 (ah_seq ah) @ PutU64 (ah_timestampUs ah) @ pl)"
    and ok: "pl \<noteq> []" "length pl \<le> 1180"
    using assms by (auto simp: BuildAudioPacket_def kconsts split: if_splits)
  show ?thesis
    using ok by (intro parse_with_finishI [OF eq assms(1)])
      (auto simp: ParseAudioPacket_def kconsts checked_simps)
qed

lemma ClipboardChunk_roundtrip:
  assumes "BuildClipboardChunk cap s ck \<noteq> []"
  shows "parse_with (\<lambda>_. ParseClipboardChunk) (BuildClipboardChunk cap s ck)
           = some_opt (hdr MsgClipboard 0 ChanControl s, ck)"
proof -
  have eq: "BuildClipboardChunk cap s ck =
      finish (WriteCommon cap MsgClipboard 0 ChanControl s
                     (kClipboardHeaderSize + length (cb_payload ck)))
             (PutU32 (cb_revision ck) @ PutU16 (cb_chunkIndex ck)
              @ PutU16 (cb_chunkCount ck) @ cb_payload ck)"
    and ok: "cb_chunkIndex ck < cb_chunkCount ck" "unat (cb_chunkCount ck) \<le> 28"
      "cb_chunkCount ck \<noteq> 0" "length (cb_payload ck) \<le> 1184"
    using assms by (auto simp: BuildClipboardChunk_def kconsts split: if_splits)
  show ?thesis
    using ok by (intro parse_with_finishI [OF eq assms(1)])
      (auto simp: ParseClipboardChunk_def kconsts checked_simps)
qed

end
