(* ===== verification/WireEntries.thy ===== *)
theory WireEntries
  imports WireRoundtrip
begin

text \<open>
  Round trips of the messages that hold a list of entries: source lists, NACK indices and input
  events. The reading loops of the parsers are followed over the entries the writing loops of
  the builders put down.
\<close>

section \<open>Source lists\<close>

definition seen_source :: "SourceInfo \<Rightarrow> SourceInfo" where
  "seen_source x = x\<lparr>src_name := sent_name kMaxSourceNameBytes (src_name x)\<rparr>"

lemma read_sources_skip:
  "read_sources (xs @ ys) (length xs + k) n = read_sources ys k n"
proof (induction n arbitrary: k)
  case (Suc n)
  have IH: "read_sources (xs @ ys) (length xs + k + (6 + m)) n = read_sources ys (k + (6 + m)) n" for m
    using Suc [of "k + (6 + m)"] by (simp only: add.assoc)
  show ?case
    unfolding read_sources.simps by (simp only: IH) (simp add: checked_simps add.assoc Let_def cong: if_cong)
qed simp

lemma read_sources_put:
  "read_sources (concat (map put_source xs) @ rest) 0 (length xs) = Some (map seen_source xs)"
proof (induction xs)
  case (Cons x xs)
  have le: "Utf8TruncLen (src_name x) 64 \<le> 64" by (rule Utf8TruncLen_le)
  have "read_sources (put_source x @ (concat (map put_source xs) @ rest)) 0 (Suc (length xs))
      = Some (seen_source x # map seen_source xs)"
    using le Cons read_sources_skip [of "put_source x" "concat (map put_source xs) @ rest" 0 "length xs"]
    by (simp add: length_put_source kconsts)
      (simp add: put_source_def kconsts Let_def checked_simps length_sent_name seen_source_def sent_name_def)
  then show ?case by simp
qed simp


lemma skip_sources_skip:
  "skip_sources (xs @ ys) (length xs + k) n = map_option (map_option ((+) (length xs))) (skip_sources ys k n)"
proof (induction n arbitrary: k)
  case (Suc n)
  have IH: "skip_sources (xs @ ys) (length xs + k + (6 + m)) n
      = map_option (map_option ((+) (length xs))) (skip_sources ys (k + (6 + m)) n)" for m
    using Suc [of "k + (6 + m)"] by (simp only: add.assoc)
  show ?case
    unfolding skip_sources.simps by (simp only: IH)
      (simp add: checked_simps add.assoc map_option_bind comp_def cong: if_cong)
qed simp

lemma skip_sources_put:
  "skip_sources (concat (map put_source xs) @ rest) 0 (length xs)
     = some_opt (length (concat (map put_source xs)))"
proof (induction xs)
  case (Cons x xs)
  have le: "Utf8TruncLen (src_name x) 64 \<le> 64" by (rule Utf8TruncLen_le)
  have "skip_sources (put_source x @ (concat (map put_source xs) @ rest)) 0 (Suc (length xs))
      = some_opt (length (put_source x) + length (concat (map put_source xs)))"
    using le Cons skip_sources_skip [of "put_source x" "concat (map put_source xs) @ rest" 0 "length xs"]
    by (simp add: length_put_source kconsts)
      (simp add: put_source_def kconsts Let_def checked_simps)
  then show ?case by simp
qed simp

definition offered_sources :: "SourceInfo list \<Rightarrow> SourceInfo list" where
  "offered_sources xs = take kMaxSources xs"

lemma SourceList_payload:
  assumes "BuildSourceList cap xs caps h \<noteq> []"
  shows "ParseCommonHeader (BuildSourceList cap xs caps h)
      = some_opt (hdr MsgSourceList (HostCapFlags caps) ChanControl 0)"
    and "PayloadOf (BuildSourceList cap xs caps h)
      = Some (of_nat (length (offered_sources xs)) # concat (map put_source (offered_sources xs))
          @ of_nat (length (sent_name kMaxClientNameBytes h)) # sent_name kMaxClientNameBytes h)"
proof -
  have n: "(if length xs < kMaxSources then length xs else kMaxSources) = length (offered_sources xs)"
    "take (length (offered_sources xs)) xs = offered_sources xs"
    by (simp_all add: offered_sources_def min_def)
  note eq = BuildSourceList_def [of cap xs caps h, unfolded Let_def n]
  show "ParseCommonHeader (BuildSourceList cap xs caps h)
      = some_opt (hdr MsgSourceList (HostCapFlags caps) ChanControl 0)"
    using assms unfolding eq by (subst header_of_finish) (assumption, simp only: MsgType_of_code named Chan_code.simps Chan_of_code)
  show "PayloadOf (BuildSourceList cap xs caps h)
      = Some (of_nat (length (offered_sources xs)) # concat (map put_source (offered_sources xs))
          @ of_nat (length (sent_name kMaxClientNameBytes h)) # sent_name kMaxClientNameBytes h)"
    using assms unfolding eq
    by (subst payload_of_finish) (assumption, simp add: sent_name_def)
qed

lemma SourceList_roundtrip:
  assumes "BuildSourceList cap xs caps h \<noteq> []" "kMaxSources \<le> out"
  shows "Option.bind (PayloadOf (BuildSourceList cap xs caps h)) (\<lambda>p. ParseSourceList p out)
      = Some (map seen_source (offered_sources xs))"
proof -
  have len: "length (offered_sources xs) \<le> 8" by (simp add: offered_sources_def kconsts)
  then have "\<not> out < length (offered_sources xs)"
    using assms(2) by (simp add: kconsts)
  moreover have "read_sources (b # concat (map put_source (offered_sources xs)) @ r) 1
      (length (offered_sources xs)) = Some (map seen_source (offered_sources xs))" for b r
    using read_sources_skip [of "[b]" "concat (map put_source (offered_sources xs)) @ r" 0]
    by (simp add: read_sources_put)
  ultimately show ?thesis
    using len by (simp add: SourceList_payload [OF assms(1)] ParseSourceList_def checked_simps
        unat_of_nat_u8 Let_def)
qed

lemma SourceListHostName_roundtrip:
  assumes "BuildSourceList cap xs caps h \<noteq> []"
  shows "Option.bind (PayloadOf (BuildSourceList cap xs caps h)) ParseSourceListHostName
      = Some (map (\<lambda>c. if c < 0x20 \<or> c = 0x7F then 0x20 else c) (sent_name kMaxClientNameBytes h))"
proof -
  let ?xs = "offered_sources xs" and ?n = "sent_name kMaxClientNameBytes h"
  have len: "length ?xs \<le> 8" by (simp add: offered_sources_def kconsts)
  have name: "length ?n \<le> 64"
    using sent_name_le [of kMaxClientNameBytes h] by (simp add: kconsts)
  have "skip_sources (b # concat (map put_source ?xs) @ r) 1 (length ?xs)
      = some_opt (1 + length (concat (map put_source ?xs)))" for b r
    using skip_sources_skip [of "[b]" "concat (map put_source ?xs) @ r" 0]
    by (simp add: skip_sources_put)
  then show ?thesis
    using len name
    by (simp add: SourceList_payload [OF assms(1)] ParseSourceListHostName_def checked_simps
        unat_of_nat_u8 Let_def kconsts)
qed

section \<open>NACK indices and input events\<close>

lemma read_u16s_skip:
  "read_u16s (xs @ ys) (length xs + k) n = read_u16s ys k n"
proof (induction n arbitrary: k)
  case (Suc n)
  then show ?case using Suc [of "k + 2"] by (simp add: checked_simps add.assoc)
qed simp

lemma read_u16s_put: "n = length xs \<Longrightarrow> read_u16s (concat (map PutU16 xs) @ rest) 0 n = Some xs"
proof (induction xs arbitrary: n)
  case (Cons x xs)
  then show ?case
    using read_u16s_skip [of "PutU16 x" "concat (map PutU16 xs) @ rest" 0 "length xs"]
    by (simp add: checked_simps numeral_2_eq_2)
qed simp

lemma Nack_roundtrip:
  assumes "BuildNack cap s i is \<noteq> []" "length is \<le> out"
  shows "parse_with (\<lambda>_ p. ParseNack p out) (BuildNack cap s i is)
           = some_opt (hdr MsgNack 0 ChanControl s, (i, is))"
proof -
  have eq: "BuildNack cap s i is = finish (WriteCommon cap MsgNack 0 ChanControl s
                     (kNackHeaderSize + length is * 2))
             (PutU32 i @ [of_nat (length is)] @ concat (map PutU16 is))"
    and ok: "is \<noteq> []" "length is \<le> 255"
    using assms(1) by (auto simp: BuildNack_def kconsts split: if_splits)
  have rd: "read_u16s (PutU32 i @ b # concat (map PutU16 is)) 5 (length is) = Some is" for b
    using read_u16s_skip [of "PutU32 i @ [b]" "concat (map PutU16 is)" 0]
      read_u16s_put [of "length is" "is" "[]"] by simp
  show ?thesis
    using ok assms(2) rd by (intro parse_with_finishI [OF eq assms(1)])
      (auto simp: ParseNack_def kconsts checked_simps unat_of_nat_u8 Let_def
        length_concat_const [OF length_PutU16])
qed

lemma read_events_skip:
  "read_events (xs @ ys) (length xs + k) n = read_events ys k n"
proof (induction n arbitrary: k)
  case (Suc n)
  then show ?case using Suc [of "k + 19"] by (simp add: checked_simps add.assoc kconsts)
qed simp

definition seen_event :: "InputEvent \<Rightarrow> InputEvent" where
  "seen_event e = e\<lparr>ev_type := InputType_of (InputType_code (ev_type e))\<rparr>"

lemma read_events_put:
  "n = length evs \<Longrightarrow> read_events (concat (map put_input_event evs) @ rest) 0 n = Some (map seen_event evs)"
proof (induction evs arbitrary: n)
  case (Cons e evs)
  have "read_events (put_input_event e @ concat (map put_input_event evs) @ rest) 19 (length evs)
      = Some (map seen_event evs)"
    using read_events_skip [of "put_input_event e" "concat (map put_input_event evs) @ rest" 0 "length evs"] Cons
    by (simp add: length_put_input_event kconsts)
  then show ?case
    using Cons.prems by (simp add: kconsts)
      (simp add: put_input_event_def checked_simps seen_event_def)
qed simp

lemma InputEvents_roundtrip:
  assumes "BuildInputEvents cap s q evs \<noteq> []" "length evs \<le> out"
  shows "parse_with (\<lambda>_ p. ParseInputEvents p out) (BuildInputEvents cap s q evs)
           = some_opt (hdr MsgInputEvent 0 ChanInput s, (q, map seen_event evs))"
proof -
  have eq: "BuildInputEvents cap s q evs = finish (WriteCommon cap MsgInputEvent 0 ChanInput s
                     (kInputHeaderSize + length evs * kInputEventSize))
             (PutU32 q @ [of_nat (length evs)] @ concat (map put_input_event evs))"
    and ok: "evs \<noteq> []" "length evs \<le> 62"
    using assms(1) by (auto simp: BuildInputEvents_def kconsts split: if_splits)
  have rd: "read_events (PutU32 q @ b # concat (map put_input_event evs)) 5 (length evs)
      = Some (map seen_event evs)" for b
    using read_events_skip [of "PutU32 q @ [b]" "concat (map put_input_event evs)" 0]
      read_events_put [of "length evs" evs "[]"] by simp
  show ?thesis
    using ok assms(2) rd by (intro parse_with_finishI [OF eq assms(1)])
      (auto simp: ParseInputEvents_def kconsts checked_simps unat_of_nat_u8 Let_def
        length_concat_const [OF length_put_input_event])
qed

end
