(* ===== verification/WireTermFile.thy ===== *)
theory WireTermFile
  imports WireEntries
begin

text \<open>
  Round trips of the terminal and the file-transfer messages.
\<close>

section \<open>Terminal\<close>

lemma one_le_word: "1 \<le> (x :: 'a::len word) \<longleftrightarrow> x \<noteq> 0"
  by (simp flip: not_less)

lemma ClampTermSize_valid: "IsValidTermSize (ClampTermSize sz)"
  by (auto simp: one_le_word IsValidTermSize_def ClampTermSize_def Let_def kconsts not_less)

lemma ClampTermSize_id: "IsValidTermSize sz \<Longrightarrow> ClampTermSize sz = sz"
  by (auto simp: IsValidTermSize_def ClampTermSize_def Let_def kconsts not_less)

lemma TermSize_eta [simp]:
  "\<lparr>ts_cols = ts_cols (ClampTermSize sz), ts_rows = ts_rows (ClampTermSize sz)\<rparr> = ClampTermSize sz"
  by simp

lemma TermOpen_roundtrip:
  assumes "BuildTermOpen cap m \<noteq> []"
  shows "parse_with (\<lambda>_. ParseTermOpen) (BuildTermOpen cap m)
           = some_opt (hdr MsgTermOpen 0 ChanTerminal 0,
               m\<lparr>to_size := ClampTermSize (to_size m),
                 to_clientName := shown_name kMaxClientNameBytes (to_clientName m)\<rparr>)"
  using Utf8TruncLen_le(1) [of "to_clientName m" 64] ClampTermSize_valid [of "to_size m"]
  by (intro parse_with_finishI [OF BuildTermOpen_def [unfolded Let_def] assms])
    (auto simp: ParseTermOpen_def kconsts checked_simps Let_def shown_name_def sent_name_def)

lemma TermOpenAck_roundtrip:
  assumes "BuildTermOpenAck cap m \<noteq> []" "TermReason_code (toa_reason m) \<le> 3"
  shows "parse_with (\<lambda>_. ParseTermOpenAck) (BuildTermOpenAck cap m)
           = some_opt (hdr MsgTermOpenAck 0 ChanTerminal (toa_termId m),
               m\<lparr>toa_reason := TermReason_of (TermReason_code (toa_reason m))\<rparr>)"
  using assms(2)
  by (intro parse_with_finishI [OF BuildTermOpenAck_def assms(1)])
    (auto simp: ParseTermOpenAck_def kconsts checked_simps)

lemma TermResize_roundtrip:
  assumes "BuildTermResize cap i sz \<noteq> []"
  shows "parse_with (\<lambda>_. ParseTermResize) (BuildTermResize cap i sz)
           = some_opt (hdr MsgTermResize 0 ChanTerminal i, ClampTermSize sz)"
  using ClampTermSize_valid [of sz]
  by (intro parse_with_finishI [OF BuildTermResize_def [unfolded Let_def] assms])
    (auto simp: ParseTermResize_def kconsts checked_simps)

lemma TermExit_roundtrip:
  assumes "BuildTermExit cap i e \<noteq> []"
  shows "parse_with (\<lambda>_. ParseTermExit) (BuildTermExit cap i e)
           = some_opt (hdr MsgTermExit 0 ChanTerminal i, e)"
  by (intro parse_with_finishI [OF BuildTermExit_def assms])
    (auto simp: ParseTermExit_def kconsts checked_simps)

definition seen_term_entry :: "TermSessionEntry \<Rightarrow> TermSessionEntry" where
  "seen_term_entry e =
     e\<lparr>te_state := (if TerminalState_code (te_state e) > 2 then TermLive
                    else TerminalState_of (TerminalState_code (te_state e))),
       te_size := ClampTermSize (te_size e),
       te_clientName := sent_name kMaxClientNameBytes (te_clientName e)\<rparr>"

lemma read_term_entries_put:
  "n = length es \<Longrightarrow>
   read_term_entries (concat (map put_term_entry es) @ rest) n = some_opt (map seen_term_entry es)"
proof (induction es arbitrary: n)
  case (Cons e es)
  have le: "Utf8TruncLen (te_clientName e) 64 \<le> 64" by (rule Utf8TruncLen_le)
  have "read_term_entries (put_term_entry e @ (concat (map put_term_entry es) @ rest)) (Suc (length es))
      = some_opt (seen_term_entry e # map seen_term_entry es)"
    using le Cons ClampTermSize_valid [of "te_size e"]
    by (simp add: length_put_term_entry kconsts)
      (simp add: put_term_entry_def kconsts Let_def checked_simps seen_term_entry_def sent_name_def
        TerminalState_of_def)
  then show ?case using Cons.prems by simp
qed simp

lemma TermListAck_roundtrip:
  assumes "BuildTermListAck cap es \<noteq> []"
  shows "parse_with (\<lambda>_. ParseTermListAck) (BuildTermListAck cap es)
           = some_opt (hdr MsgTermListAck 0 ChanTerminal 0, map seen_term_entry (take kMaxTermListEntries es))"
proof -
  have n: "(if length es < kMaxTermListEntries then length es else kMaxTermListEntries) = length (take kMaxTermListEntries es)"
    "take (length (take kMaxTermListEntries es)) es = take kMaxTermListEntries es"
    by (simp_all add: min_def)
  note eq = BuildTermListAck_def [of cap es, unfolded Let_def n]
  have le: "length (take kMaxTermListEntries es) \<le> 16" by (simp add: kconsts)
  show ?thesis
    using le read_term_entries_put [of _ "take kMaxTermListEntries es" "[]", OF refl]
    by (intro parse_with_finishI [OF eq assms])
      (auto simp: ParseTermListAck_def kconsts checked_simps unat_of_nat_u16 Let_def)
qed

section \<open>File transfer\<close>

lemma read_offer_skip:
  "read_offer (xs @ ys) (length xs + k) t n = read_offer ys k t n"
proof (induction n arbitrary: k t)
  case (Suc n)
  have IH: "read_offer (xs @ ys) (length xs + k + kFileOfferEntryOverhead + m) t n
      = read_offer ys (k + kFileOfferEntryOverhead + m) t n" for m t
    using Suc [of "k + kFileOfferEntryOverhead + m" t] by (simp only: add.assoc)
  show ?case
    unfolding read_offer.simps Let_def by (simp only: IH)
      (simp add: checked_simps add.assoc kconsts cong: if_cong)
qed simp

text \<open>The names of an accepted offer are whole: at most 255 bytes, so never cut.\<close>

lemma legal_name_whole: "IsWireLegalFileName s \<Longrightarrow> Utf8TruncLen s kMaxTransferNameBytes = length s"
  by (simp add: IsWireLegalFileName_def Utf8TruncLen_def)

lemma read_offer_put:
  "offer_payload fs p t \<noteq> None \<Longrightarrow> n = length fs \<Longrightarrow>
   read_offer (concat (map put_offer_entry fs) @ rest) 0 t n = some_opt fs"
proof (induction fs p t arbitrary: n rule: offer_payload.induct)
  case (2 f fs p t)
  have legal: "IsWireLegalFileName (tf_name f)" "\<not> tf_size f > kMaxTransferFileBytes"
    "\<not> t + tf_size f > kMaxTransferBatchBytes"
    and more: "offer_payload fs (p + (kFileOfferEntryOverhead + Utf8TruncLen (tf_name f) kMaxTransferNameBytes))
      (t + tf_size f) \<noteq> None"
    using "2.prems" by (auto simp: Let_def split: if_splits)
  have len: "length (tf_name f) \<le> 255"
    using legal by (simp add: IsWireLegalFileName_def kconsts)
  have IH: "read_offer (concat (map put_offer_entry fs) @ rest) 0 (t + tf_size f) (length fs) = some_opt fs"
    using "2.IH" legal more by (simp add: Let_def)
  have "read_offer (put_offer_entry f @ (concat (map put_offer_entry fs) @ rest)) 0 t (Suc (length fs))
      = some_opt (f # fs)"
    using legal len IH
      read_offer_skip [of "put_offer_entry f" "concat (map put_offer_entry fs) @ rest" 0 "t + tf_size f" "length fs"]
    by (simp add: length_put_offer_entry legal_name_whole kconsts del: not_less)
      (simp add: put_offer_entry_def legal_name_whole [unfolded kconsts] kconsts Let_def checked_simps unat_of_nat_u8)
  then show ?case using "2.prems" by simp
qed simp

lemma FileOffer_roundtrip:
  assumes "BuildFileOffer cap m \<noteq> []"
  shows "parse_with (\<lambda>_. ParseFileOffer) (BuildFileOffer cap m)
           = some_opt (hdr MsgFileOffer 0 ChanFile (fo_batchId m), m)"
proof -
  obtain n where n: "offer_payload (fo_files m) kFileOfferHeaderSize 0 = Some n"
    and ok: "fo_files m \<noteq> []" "length (fo_files m) \<le> 32"
    using assms by (auto simp: BuildFileOffer_def kconsts split: if_splits option.splits)
  have eq: "BuildFileOffer cap m =
      finish (WriteCommon cap MsgFileOffer 0 ChanFile (fo_batchId m) n)
            (PutU32 (fo_batchId m) @ [of_nat (length (fo_files m))]
             @ concat (map put_offer_entry (fo_files m)))"
    using n ok by (simp add: BuildFileOffer_def kconsts)
  have rd: "read_offer (PutU32 i @ b # concat (map put_offer_entry (fo_files m))) 5 0 (length (fo_files m))
      = some_opt (fo_files m)" for i b
    using read_offer_skip [of "PutU32 i @ [b]" "concat (map put_offer_entry (fo_files m))" 0]
      read_offer_put [of "fo_files m" kFileOfferHeaderSize 0 "length (fo_files m)" "[]"] n by simp
  show ?thesis
    using ok rd by (intro parse_with_finishI [OF eq assms])
      (auto simp: ParseFileOffer_def kconsts checked_simps unat_of_nat_u8 Let_def)
qed

lemma FileAccept_roundtrip:
  assumes "BuildFileAccept cap m \<noteq> []" "TransferReason_code (fa_reason m) \<le> 10"
  shows "parse_with (\<lambda>_. ParseFileAccept) (BuildFileAccept cap m)
           = some_opt (hdr MsgFileAccept 0 ChanFile (fa_batchId m),
               m\<lparr>fa_reason := TransferReason_of (TransferReason_code (fa_reason m))\<rparr>)"
  using assms(2)
  by (intro parse_with_finishI [OF BuildFileAccept_def assms(1)])
    (auto simp: ParseFileAccept_def kconsts checked_simps)

lemma FileDone_roundtrip:
  assumes "BuildFileDone cap m \<noteq> []" "unat (fd_fileIndex m) < kMaxTransferFiles"
  shows "parse_with (\<lambda>_. ParseFileDone) (BuildFileDone cap m)
           = some_opt (hdr MsgFileDone 0 ChanFile (fd_batchId m), m)"
  using assms(2)
  by (intro parse_with_finishI [OF BuildFileDone_def assms(1)])
    (auto simp: ParseFileDone_def kconsts checked_simps)

lemma FileAck_roundtrip:
  assumes "BuildFileAck cap m \<noteq> []" "unat (fk_fileIndex m) < kMaxTransferFiles"
    "TransferReason_code (fk_reason m) \<le> 10"
  shows "parse_with (\<lambda>_. ParseFileAck) (BuildFileAck cap m)
           = some_opt (hdr MsgFileAck 0 ChanFile (fk_batchId m),
               m\<lparr>fk_reason := TransferReason_of (TransferReason_code (fk_reason m))\<rparr>)"
  using assms(2,3)
  by (intro parse_with_finishI [OF BuildFileAck_def assms(1)])
    (auto simp: ParseFileAck_def kconsts checked_simps)

lemma FileCancel_roundtrip:
  assumes "BuildFileCancel cap m \<noteq> []" "TransferReason_code (fx_reason m) \<le> 10"
  shows "parse_with (\<lambda>_. ParseFileCancel) (BuildFileCancel cap m)
           = some_opt (hdr MsgFileCancel 0 ChanFile (fx_batchId m),
               m\<lparr>fx_reason := TransferReason_of (TransferReason_code (fx_reason m))\<rparr>)"
  using assms(2)
  by (intro parse_with_finishI [OF BuildFileCancel_def assms(1)])
    (auto simp: ParseFileCancel_def kconsts checked_simps)

lemma FileChunk_roundtrip:
  assumes "BuildFileChunk cap i x off d \<noteq> []" "unat off + length d \<le> unat kMaxTransferFileBytes"
  shows "parse_with (\<lambda>_. ParseFileChunk) (BuildFileChunk cap i x off d)
           = some_opt (hdr MsgFileChunk 0 ChanFile i,
               \<lparr>fc_batchId = i, fc_fileIndex = x, fc_offset = off, fc_data = d\<rparr>)"
proof -
  have eq: "BuildFileChunk cap i x off d =
      finish (WriteCommon cap MsgFileChunk 0 ChanFile i (kFileChunkHeaderSize + length d))
             (PutU32 i @ PutU16 x @ PutU64 off @ d)"
    and ok: "d \<noteq> []" "length d \<le> 16362" "unat x < 32"
    using assms(1) by (auto simp: BuildFileChunk_def kconsts split: if_splits)
  have len: "unat (of_nat (length d) :: u64) = length d"
    using ok(2) by (simp add: unat_of_nat)
  have le: "(of_nat (length d) :: u64) \<le> kMaxTransferFileBytes"
    using ok(2) len by (simp add: word_le_nat_alt kconsts)
  have "unat (kMaxTransferFileBytes - of_nat (length d)) = unat kMaxTransferFileBytes - length d"
    using le len by (simp add: unat_sub)
  then have "\<not> kMaxTransferFileBytes - of_nat (length d) < off"
    using assms(2) by (simp add: word_less_nat_alt)
  then show ?thesis
    using ok by (intro parse_with_finishI [OF eq assms(1)])
      (auto simp: ParseFileChunk_def kconsts checked_simps)
qed

end
