(* ===== verification/RecordStream.thy ===== *)
theory RecordStream
  imports WireTermFile
begin

text \<open>
  Reassembly of length-prefixed records from a byte stream: the class \<open>RecordStream\<close> of
  \<open>core/src/protocol/RecordStream.cpp\<close> and the receive loop over it in
  \<open>SessionTransport::OnStream\<close> (\<open>platform/src/net/SessionTransport.cpp\<close>). The abstract
  specification is \<open>frames\<close>, which reads a whole stream at once; the chunks in which the bytes
  arrive make no difference.
\<close>

section \<open>The class\<close>

definition kMaxRecordBacklog :: nat where
  "kMaxRecordBacklog = kRecordPrefixSize + kMaxRecordSize"

lemma kMaxRecordBacklog [kconsts]: "kMaxRecordBacklog = 16386"
  by (simp add: kMaxRecordBacklog_def kconsts)

record RecordStream =
  rs_buffer :: bytes
  rs_consumed :: nat
  rs_failed :: bool

definition rs_init :: RecordStream where
  "rs_init = \<lparr>rs_buffer = [], rs_consumed = 0, rs_failed = False\<rparr>"

definition rs_Compact :: "RecordStream \<Rightarrow> RecordStream" where
  "rs_Compact s =
     (if rs_consumed s = 0 then s
      else s\<lparr>rs_buffer := drop (rs_consumed s) (rs_buffer s), rs_consumed := 0\<rparr>)"

definition rs_Append :: "RecordStream \<Rightarrow> bytes \<Rightarrow> RecordStream" where
  "rs_Append s bs =
     (if rs_failed s \<or> bs = [] then s
      else let s = rs_Compact s
      in if length (rs_buffer s) > kMaxRecordBacklog
         then s\<lparr>rs_failed := True, rs_buffer := [], rs_consumed := 0\<rparr>
         else s\<lparr>rs_buffer := rs_buffer s @ bs\<rparr>)"

text \<open>The message taken from the stream (\<open>None\<close>: the call gives \<open>false\<close>), and the new state.\<close>

definition rs_Next :: "RecordStream \<Rightarrow> (bytes option \<times> RecordStream) checked" where
  "rs_Next s =
     (if rs_failed s then Some (None, s)
      else do {
        pending \<leftarrow> subspan (rs_buffer s) (rs_consumed s);
        record \<leftarrow> ReadRecord pending;
        case rv_status record of
          RecordInvalid \<Rightarrow> Some (None, s\<lparr>rs_failed := True, rs_buffer := [], rs_consumed := 0\<rparr>)
        | RecordNeedMore \<Rightarrow> Some (None, s)
        | RecordOk \<Rightarrow>
            let consumed = rs_consumed s + rv_consumed record
            in Some (Some (rv_message record),
                 if consumed = length (rs_buffer s) then s\<lparr>rs_buffer := [], rs_consumed := 0\<rparr>
                 else s\<lparr>rs_consumed := consumed\<rparr>)
      })"

definition rs_Reset :: "RecordStream \<Rightarrow> RecordStream" where
  "rs_Reset s = s\<lparr>rs_buffer := [], rs_consumed := 0, rs_failed := False\<rparr>"

section \<open>Invariant and progress\<close>

definition rs_pending :: "RecordStream \<Rightarrow> bytes" where
  "rs_pending s = drop (rs_consumed s) (rs_buffer s)"

definition rs_inv :: "RecordStream \<Rightarrow> bool" where
  "rs_inv s \<longleftrightarrow> rs_consumed s \<le> length (rs_buffer s) \<and> (rs_failed s \<longrightarrow> rs_buffer s = [])"

lemma rs_inv_init [simp]: "rs_inv rs_init"
  by (simp add: rs_inv_def rs_init_def)

lemma rs_inv_Append: "rs_inv s \<Longrightarrow> rs_inv (rs_Append s bs)"
  by (auto simp: rs_inv_def rs_Append_def rs_Compact_def Let_def)

lemma rs_inv_Reset: "rs_inv (rs_Reset s)"
  by (simp add: rs_inv_def rs_Reset_def)

text \<open>What \<open>ReadRecord\<close> gives, case by case.\<close>

lemma ReadRecord_cases:
  obtains (more) "ReadRecord b = Some \<lparr>rv_status = RecordNeedMore, rv_message = [], rv_consumed = 0\<rparr>"
      "length b < kMaxRecordBacklog"
  | (invalid) v where "ReadRecord b = Some v" "rv_status v = RecordInvalid" "2 \<le> length b"
      "unat (u16_at b 0) = 0 \<or> unat (u16_at b 0) > kMaxRecordSize"
  | (ok) n where "ReadRecord b = Some \<lparr>rv_status = RecordOk, rv_message = take n (drop 2 b), rv_consumed = 2 + n\<rparr>"
      "n = unat (u16_at b 0)" "0 < n" "n \<le> kMaxRecordSize" "2 + n \<le> length b"
proof -
  let ?n = "unat (u16_at b 0)"
  consider "length b < 2" | "2 \<le> length b" "?n = 0 \<or> ?n > 16384"
    | "2 \<le> length b" "0 < ?n" "?n \<le> 16384" "length b < 2 + ?n"
    | "2 + ?n \<le> length b" "0 < ?n" "?n \<le> 16384"
    by linarith
  then show thesis
  proof cases
    case 1
    then show thesis by (intro more) (auto simp: ReadRecord_def kconsts Let_def)
  next
    case 2
    then show thesis
      by (intro invalid [of "\<lparr>rv_status = RecordInvalid, rv_message = [], rv_consumed = 0\<rparr>"])
        (auto simp: ReadRecord_def kconsts Let_def in_range)
  next
    case 3
    then show thesis by (intro more) (auto simp: ReadRecord_def kconsts Let_def in_range)
  next
    case 4
    then show thesis by (intro ok [of ?n]) (auto simp: ReadRecord_def kconsts Let_def in_range)
  qed
qed

lemma rs_Next_safe: "rs_inv s \<Longrightarrow> rs_Next s \<noteq> None"
  using ReadRecord_safe [of "rs_pending s"]
  by (auto simp: rs_Next_def rs_inv_def subspan_def rs_pending_def Let_def split: RecordStatus.splits)

lemma rs_Next_inv: "rs_Next s = Some (r, s') \<Longrightarrow> rs_inv s \<Longrightarrow> rs_inv s'"
  by (cases "drop (rs_consumed s) (rs_buffer s)" rule: ReadRecord_cases)
    (auto simp: rs_Next_def rs_inv_def subspan_def Let_def split: if_splits)

text \<open>A message taken makes the pending bytes fewer, so the receive loop ends.\<close>

lemma rs_Next_shrinks:
  "rs_Next s = Some (Some m, s') \<Longrightarrow> length (rs_buffer s') - rs_consumed s' < length (rs_buffer s) - rs_consumed s"
  by (cases "drop (rs_consumed s) (rs_buffer s)" rule: ReadRecord_cases)
    (auto simp: rs_Next_def subspan_def Let_def split: if_splits)

section \<open>The receive loop\<close>

text \<open>\<open>while (framer.Next(message)) Deliver(\<dots>)\<close>: the messages delivered, in order.\<close>

function rs_drain :: "RecordStream \<Rightarrow> (bytes list \<times> RecordStream) checked" where
  "rs_drain s =
     (case rs_Next s of
        None \<Rightarrow> None
      | Some (None, s') \<Rightarrow> Some ([], s')
      | Some (Some m, s') \<Rightarrow> map_option (apfst ((#) m)) (rs_drain s'))"
  by pat_completeness auto
termination
  by (relation "measure (\<lambda>s. length (rs_buffer s) - rs_consumed s)") (auto dest: rs_Next_shrinks)

declare rs_drain.simps [simp del]

text \<open>
  \<open>SessionTransport::OnStream\<close> on one stream: the messages delivered and whether it then closes
  the connection for bad framing.
\<close>

definition OnStream :: "RecordStream \<Rightarrow> bytes \<Rightarrow> (bytes list \<times> RecordStream) checked" where
  "OnStream framer bs = rs_drain (rs_Append framer bs)"

fun receive_chunks :: "RecordStream \<Rightarrow> bytes list \<Rightarrow> (bytes list \<times> RecordStream) checked" where
  "receive_chunks s [] = Some ([], s)"
| "receive_chunks s (c # cs) = do {
     (ms, s) \<leftarrow> OnStream s c;
     (ms', s) \<leftarrow> receive_chunks s cs;
     Some (ms @ ms', s)
   }"

section \<open>Specification: reading the whole stream at once\<close>

text \<open>
  The messages of a byte string, and the bytes of its last, incomplete record; \<open>None\<close> where the
  string goes on with a prefix that no record has.
\<close>

function frames :: "bytes \<Rightarrow> bytes list \<times> bytes option" where
  "frames b =
     (if length b < 2 then ([], Some b)
      else let n = unat (u16_at b 0)
      in if n = 0 \<or> n > kMaxRecordSize then ([], None)
         else if length b < 2 + n then ([], Some b)
         else apfst ((#) (take n (drop 2 b))) (frames (drop (2 + n) b)))"
  by pat_completeness auto
termination
  by (relation "measure length") auto

declare frames.simps [simp del]

lemma u16_at_append: "2 \<le> length a \<Longrightarrow> u16_at (a @ b) 0 = u16_at a 0"
  by (cases a rule: list.exhaust, simp, rename_tac x xs, case_tac xs)
    (simp_all add: u16_at_def GetU16_def rd8_def)

lemma u16_at_PutU16: "u16_at (PutU16 v @ b) 0 = v"
  by (simp add: u16_at_def checked_simps)

text \<open>Reading goes on over more bytes with what the first part left.\<close>

lemma frames_append:
  "frames (a @ b) = (case snd (frames a) of
     None \<Rightarrow> frames a
   | Some r \<Rightarrow> (fst (frames a) @ fst (frames (r @ b)), snd (frames (r @ b))))"
proof (induction a rule: frames.induct)
  case (1 a)
  let ?n = "unat (u16_at a 0)"
  consider "length a < 2 \<or> (0 < ?n \<and> ?n \<le> kMaxRecordSize \<and> length a < 2 + ?n)"
    | "2 \<le> length a" "?n = 0 \<or> ?n > kMaxRecordSize"
    | "2 + ?n \<le> length a" "0 < ?n" "?n \<le> kMaxRecordSize"
    by linarith
  then show ?case
  proof cases
    case 1
    then have "frames a = ([], Some a)" by (auto simp: frames.simps [of a] Let_def)
    then show ?thesis by simp
  next
    case 2
    then show ?thesis
      using u16_at_append [of a b]
      by (auto simp: frames.simps [of a] frames.simps [of "a @ b"] Let_def)
  next
    case 3
    then have "frames (a @ b) = apfst ((#) (take ?n (drop 2 a))) (frames (drop (2 + ?n) a @ b))"
      "frames a = apfst ((#) (take ?n (drop 2 a))) (frames (drop (2 + ?n) a))"
      using u16_at_append [of a b]
      by (simp_all add: frames.simps [of a] frames.simps [of "a @ b"] Let_def)
    moreover have "frames (drop (2 + ?n) a @ b) = (case snd (frames (drop (2 + ?n) a)) of
        None \<Rightarrow> frames (drop (2 + ?n) a)
      | Some r \<Rightarrow> (fst (frames (drop (2 + ?n) a)) @ fst (frames (r @ b)), snd (frames (r @ b))))"
      using "1.IH" 3 by simp
    ultimately show ?thesis
      by (cases "frames (drop (2 + ?n) a)") (auto split: option.split)
  qed
qed

lemma frames_rest:
  "snd (frames b) = Some r \<Longrightarrow> length r < kMaxRecordBacklog \<and> frames r = ([], Some r)"
proof (induction b rule: frames.induct)
  case (1 b)
  then show ?case
    by (subst (asm) (2) frames.simps)
      (auto simp: frames.simps [of r] kconsts Let_def split: if_splits)
qed

lemma frames_record:
  assumes "BuildRecord cap m \<noteq> []"
  shows "frames (BuildRecord cap m @ b) = apfst ((#) m) (frames b)"
proof -
  have len: "m \<noteq> []" "length m \<le> 16384" and eq: "BuildRecord cap m = PutU16 (of_nat (length m)) @ m"
    using assms by (auto simp: BuildRecord_def kconsts split: if_splits)
  then show ?thesis
    by (subst frames.simps) (simp add: u16_at_PutU16 unat_of_nat_u16 Let_def kconsts)
qed

lemma frames_records:
  "(\<forall>m\<in>set ms. BuildRecord cap m \<noteq> []) \<Longrightarrow>
   frames (concat (map (BuildRecord cap) ms) @ b) = apfst ((@) ms) (frames b)"
  by (induction ms) (auto simp: frames_record apfst_def map_prod_def split: prod.splits)

section \<open>The receive loop implements the specification\<close>

text \<open>The abstraction: the bytes still pending, or \<open>None\<close> once the stream has failed.\<close>

definition rs_abs :: "RecordStream \<Rightarrow> bytes option" where
  "rs_abs s = (if rs_failed s then None else Some (rs_pending s))"

lemma rs_Next_abs:
  assumes "rs_inv s" "\<not> rs_failed s"
  shows "(\<exists>s'. rs_Next s = Some (None, s') \<and> rs_inv s' \<and> fst (frames (rs_pending s)) = []
            \<and> rs_abs s' = snd (frames (rs_pending s)))
       \<or> (\<exists>m s'. rs_Next s = Some (Some m, s') \<and> rs_inv s' \<and> \<not> rs_failed s'
            \<and> frames (rs_pending s) = apfst ((#) m) (frames (rs_pending s')))"
  using assms
  by (cases "rs_pending s" rule: ReadRecord_cases)
    (auto simp: rs_Next_def rs_pending_def rs_inv_def rs_abs_def subspan_def Let_def kconsts
      frames.simps [of "drop (rs_consumed s) (rs_buffer s)"] ReadRecord_def in_range
      apfst_def map_prod_def add.commute split: if_splits)

lemma rs_drain_abs:
  assumes "rs_inv s" "\<not> rs_failed s"
  shows "\<exists>s'. rs_drain s = Some (fst (frames (rs_pending s)), s') \<and> rs_inv s'
           \<and> rs_abs s' = snd (frames (rs_pending s))"
  using assms
proof (induction s rule: rs_drain.induct)
  case (1 s)
  from rs_Next_abs [OF "1.prems"] show ?case
  proof (elim disjE exE conjE)
    fix s'
    assume "rs_Next s = Some (None, s')" "rs_inv s'" "fst (frames (rs_pending s)) = []"
      "rs_abs s' = snd (frames (rs_pending s))"
    then show ?thesis by (subst rs_drain.simps) simp
  next
    fix m s'
    assume step: "rs_Next s = Some (Some m, s')" and s': "rs_inv s'" "\<not> rs_failed s'"
      and eq: "frames (rs_pending s) = apfst ((#) m) (frames (rs_pending s'))"
    obtain s'' where "rs_drain s' = Some (fst (frames (rs_pending s')), s'')" "rs_inv s''"
      "rs_abs s'' = snd (frames (rs_pending s'))"
      using "1.IH" [OF step refl refl s'] by blast
    then show ?thesis by (subst rs_drain.simps) (simp add: step eq)
  qed
qed

lemma rs_drain_failed: "rs_failed s \<Longrightarrow> rs_drain s = Some ([], s)"
  by (subst rs_drain.simps) (simp add: rs_Next_def)

lemma rs_Append_pending:
  assumes "rs_inv s" "\<not> rs_failed s" "length (rs_pending s) \<le> kMaxRecordBacklog"
  shows "\<not> rs_failed (rs_Append s bs)" "rs_pending (rs_Append s bs) = rs_pending s @ bs"
  using assms by (auto simp: rs_Append_def rs_Compact_def rs_pending_def rs_inv_def Let_def)

lemma OnStream_abs:
  assumes "rs_inv s" "rs_abs s = Some r" "length r < kMaxRecordBacklog"
  shows "\<exists>s'. OnStream s c = Some (fst (frames (r @ c)), s') \<and> rs_inv s' \<and> rs_abs s' = snd (frames (r @ c))"
proof -
  have r: "\<not> rs_failed s" "rs_pending s = r"
    using assms(2) by (auto simp: rs_abs_def split: if_splits)
  with assms have "\<not> rs_failed (rs_Append s c)" "rs_pending (rs_Append s c) = r @ c"
    by (simp_all add: rs_Append_pending)
  then show ?thesis
    using rs_drain_abs [OF rs_inv_Append [OF assms(1), of c]] by (simp add: OnStream_def)
qed

lemma OnStream_failed: "rs_failed s \<Longrightarrow> OnStream s c = Some ([], s)"
  by (simp add: OnStream_def rs_Append_def rs_drain_failed)

lemma receive_chunks_failed: "rs_failed s \<Longrightarrow> receive_chunks s cs = Some ([], s)"
  by (induction cs) (auto simp: OnStream_failed)

lemma receive_chunks_abs:
  assumes "rs_inv s" "rs_abs s = Some r" "length r < kMaxRecordBacklog" "frames r = ([], Some r)"
  shows "\<exists>s'. receive_chunks s cs = Some (fst (frames (r @ concat cs)), s')
           \<and> rs_abs s' = snd (frames (r @ concat cs))"
  using assms
proof (induction cs arbitrary: s r)
  case (Cons c cs)
  obtain s1 where s1: "OnStream s c = Some (fst (frames (r @ c)), s1)" "rs_inv s1"
    "rs_abs s1 = snd (frames (r @ c))"
    using OnStream_abs [OF Cons.prems(1-3)] by blast
  show ?case
  proof (cases "snd (frames (r @ c))")
    case None
    with s1 have failed: "rs_failed s1" by (auto simp: rs_abs_def split: if_splits)
    have "frames (r @ concat (c # cs)) = frames (r @ c)"
      using frames_append [of "r @ c" "concat cs"] None by simp
    then show ?thesis
      using s1 receive_chunks_failed [OF failed] by simp
  next
    case (Some r1)
    then obtain s2 where "receive_chunks s1 cs = Some (fst (frames (r1 @ concat cs)), s2)"
      "rs_abs s2 = snd (frames (r1 @ concat cs))"
      using Cons.IH [of s1 r1] s1 frames_rest [of "r @ c"] by auto
    then show ?thesis
      using s1 frames_append [of "r @ c" "concat cs"] Some by simp
  qed
qed simp

section \<open>Interface: a kind of message carried by the stream\<close>

text \<open>
  What a session relies on when it sends messages of one kind over a record stream: its builder
  and its parser agree on the messages it calls valid, and one message fits a record.
\<close>

locale stream_message =
  fixes build :: "'m \<Rightarrow> bytes"
    and parse :: "CommonHeader \<Rightarrow> bytes \<Rightarrow> 'm option checked"
    and valid :: "'m \<Rightarrow> bool"
    and seen :: "'m \<Rightarrow> 'm"
  assumes built: "valid m \<Longrightarrow> build m \<noteq> []"
    and fits: "length (build m) \<le> kMaxRecordSize"
    and agrees: "valid m \<Longrightarrow> \<exists>h. parse_with parse (build m) = some_opt (h, seen m)"
begin

lemma record_of: "valid m \<Longrightarrow> kMaxRecordBacklog \<le> cap \<Longrightarrow> BuildRecord cap (build m) \<noteq> []"
  using built [of m] fits [of m] by (auto simp: BuildRecord_def kconsts PutU16_def)

lemma parsed: "valid m \<Longrightarrow> map_option (map_option snd) (parse_with parse (build m)) = some_opt (seen m)"
  using agrees [of m] by auto

lemma delivered:
  assumes "\<forall>m\<in>set ms. valid m"
    and "concat cs = concat (map (\<lambda>m. BuildRecord kMaxRecordBacklog (build m)) ms)"
  shows "\<exists>s'. receive_chunks rs_init cs = Some (map build ms, s') \<and> \<not> rs_failed s'
      \<and> map (\<lambda>b. map_option (map_option snd) (parse_with parse b)) (map build ms) = map (\<lambda>m. some_opt (seen m)) ms"
proof -
  have "\<forall>b\<in>set (map build ms). BuildRecord kMaxRecordBacklog b \<noteq> []"
    using assms(1) record_of by auto
  then have "frames (concat (map (BuildRecord kMaxRecordBacklog) (map build ms)) @ []) = apfst ((@) (map build ms)) (frames [])"
    by (rule frames_records)
  moreover have "frames [] = ([], Some [])" by (simp add: frames.simps)
  ultimately have fr: "frames (concat cs) = (map build ms, Some [])"
    using assms(2) by (simp add: comp_def)
  have "rs_abs rs_init = Some []" by (simp add: rs_abs_def rs_init_def rs_pending_def)
  then obtain s' where "receive_chunks rs_init cs = Some (map build ms, s')" "rs_abs s' = Some []"
    using receive_chunks_abs [of rs_init "[]" cs] fr by (auto simp: kconsts frames.simps)
  then show ?thesis
    using assms(1) parsed by (auto simp: rs_abs_def split: if_splits)
qed

end

section \<open>The messages of the code\<close>

interpretation hello_stream: stream_message "BuildHello kMaxRecordSize" "\<lambda>_. ParseHello" "\<lambda>_. True"
  "\<lambda>m. m\<lparr>hello_clientName := shown_name kMaxClientNameBytes (hello_clientName m)\<rparr>"
proof unfold_locales
  fix m :: Hello
  have "Utf8TruncLen (hello_clientName m) 64 \<le> 64" by (rule Utf8TruncLen_le)
  then show built: "BuildHello kMaxRecordSize m \<noteq> []"
    by (simp add: BuildHello_def finish_def Let_def kconsts)
  show "\<exists>h. parse_with (\<lambda>_. ParseHello) (BuildHello kMaxRecordSize m) = some_opt (h,
      m\<lparr>hello_clientName := shown_name kMaxClientNameBytes (hello_clientName m)\<rparr>)"
    using Hello_roundtrip [OF built] by blast
qed (rule builders_fit)

interpretation offer_stream: stream_message "BuildFileOffer kMaxRecordSize" "\<lambda>_. ParseFileOffer"
  "\<lambda>m. BuildFileOffer kMaxRecordSize m \<noteq> []" "\<lambda>m. m"
  by unfold_locales (auto intro: builders_fit FileOffer_roundtrip)

interpretation auth_stream: stream_message "BuildAuthStart kMaxRecordSize" "\<lambda>_. ParseAuthStart"
  "\<lambda>m. BuildAuthStart kMaxRecordSize m \<noteq> []"
  "\<lambda>m. m\<lparr>as_clientName := shown_name kMaxClientNameBytes (as_clientName m)\<rparr>"
  by unfold_locales (auto intro: builders_fit AuthStart_roundtrip)

end
