(* ===== verification/Packetizer.thy ===== *)
theory Packetizer
  imports WireRoundtrip
begin

text \<open>
  \<open>core/src/transport/Packetizer.cpp\<close>: one encoded frame becomes numbered video packets and,
  with forward error correction on, one parity packet per group. The parity buffer, a flat array
  of \<open>numGroups * kParityStride\<close> bytes in the code, is the list of its rows; \<open>send\<close> is the
  list of datagrams handed to it, in order. The member buffers carry nothing from one frame to the
  next (each is overwritten before it is read), so the state is the session id and the switch.
\<close>

record Packetizer =
  pz_sessionId :: u32
  pz_fec :: bool

definition kParityStride :: nat where [kconsts]: "kParityStride = kFecLenPrefix + kMaxVideoPayload"

definition pz_init :: Packetizer where
  "pz_init = \<lparr>pz_sessionId = 0, pz_fec = False\<rparr>"

definition pz_SetSessionId :: "Packetizer \<Rightarrow> u32 \<Rightarrow> Packetizer" where
  "pz_SetSessionId pz i = pz\<lparr>pz_sessionId := i\<rparr>"

definition pz_SetFecEnabled :: "Packetizer \<Rightarrow> bool \<Rightarrow> Packetizer" where
  "pz_SetFecEnabled pz on = pz\<lparr>pz_fec := on\<rparr>"

text \<open>\<open>for (b = 0; b < len; ++b) row[b] ^= data[b]\<close>, in place.\<close>

fun mix_bytes :: "bytes \<Rightarrow> bytes \<Rightarrow> bytes" where
  "mix_bytes (r # rs) (d # ds) = (r XOR d) # mix_bytes rs ds"
| "mix_bytes rs [] = rs"
| "mix_bytes [] ds = []"

text \<open>One payload mixed into a parity row: its length into the prefix, its bytes behind it.\<close>

fun mix_row :: "bytes \<Rightarrow> bytes \<Rightarrow> bytes" where
  "mix_row (a # b # row) c =
     (a XOR of_nat (length c div 256)) # (b XOR of_nat (length c mod 256)) # mix_bytes row c"
| "mix_row row c = row"

definition fec_groups :: "nat \<Rightarrow> nat" where
  "fec_groups count = (count + kFecGroupSize - 1) div kFecGroupSize"

definition piece_count :: "bytes \<Rightarrow> nat" where
  "piece_count nal = (length nal + kMaxVideoPayload - 1) div kMaxVideoPayload"

definition piece_at :: "bytes \<Rightarrow> nat \<Rightarrow> bytes" where
  "piece_at nal i =
     (let off = i * kMaxVideoPayload;
          len = (if length nal - off < kMaxVideoPayload then length nal - off else kMaxVideoPayload)
      in take len (drop off nal))"

text \<open>
  The first loop of \<open>SendFrame\<close> over the packet indices: the datagrams sent, and the parity
  rows when it ran to its end (\<open>None\<close> when a packet could not be built).
\<close>

fun send_video :: "Packetizer \<Rightarrow> bytes \<Rightarrow> VideoHeader \<Rightarrow> bool \<Rightarrow> nat \<Rightarrow> bool \<Rightarrow> nat list \<Rightarrow> bytes list
    \<Rightarrow> bytes list \<times> bytes list option" where
  "send_video pz nal vh idr count fec [] rows = ([], Some rows)"
| "send_video pz nal vh idr count fec (i # is) rows =
     (let c = piece_at nal i;
          d = BuildVideoPacket kMaxDatagram (pz_sessionId pz) (vh\<lparr>vh_pktIndex := of_nat i\<rparr>) idr
                (i + 1 = count) c
      in if d = [] then ([], None)
         else let g = i mod fec_groups count;
                  rows' = (if fec then rows[g := mix_row (rows ! g) c] else rows);
                  (ds, r) = send_video pz nal vh idr count fec is rows'
              in (d # ds, r))"

text \<open>The second loop: one parity packet per group.\<close>

fun send_parity :: "Packetizer \<Rightarrow> FecHeader \<Rightarrow> bool \<Rightarrow> nat list \<Rightarrow> bytes list \<Rightarrow> bytes list \<times> bool" where
  "send_parity pz fh idr [] rows = ([], True)"
| "send_parity pz fh idr (g # gs) rows =
     (let d = BuildFecPacket kMaxDatagram (pz_sessionId pz) (fh\<lparr>fh_groupIndex := of_nat g\<rparr>) idr (rows ! g)
      in if d = [] then ([], False)
         else let (ds, r) = send_parity pz fh idr gs rows in (d # ds, r))"

text \<open>\<open>SendFrame\<close>: the value it returns and the datagrams it sent.\<close>

definition SendFrame :: "Packetizer \<Rightarrow> bytes \<Rightarrow> u32 \<Rightarrow> u64 \<Rightarrow> bool \<Rightarrow> nat \<times> bytes list" where
  "SendFrame pz nal frameId timestampUs idr =
     (if nal = [] then (0, [])
      else let count = piece_count nal in
      if count > 0xFFFF then (0, [])
      else let numGroups = fec_groups count;
               fec = (pz_fec pz \<and> numGroups \<le> kMaxFecGroups);
               vh = \<lparr>vh_frameId = frameId, vh_timestampUs = timestampUs, vh_pktIndex = 0,
                     vh_pktCount = of_nat count\<rparr>;
               rows = (if fec then replicate numGroups (replicate kParityStride 0) else [])
      in case send_video pz nal vh idr count fec [0..<count] rows of
           (ds, None) \<Rightarrow> (0, ds)
         | (ds, Some rows) \<Rightarrow>
             if \<not> fec then (count, ds)
             else case send_parity pz \<lparr>fh_frameId = frameId, fh_timestampUs = timestampUs,
                                       fh_pktCount = of_nat count, fh_groupIndex = 0\<rparr>
                         idr [0..<numGroups] rows of
                    (ps, ok) \<Rightarrow> (if ok then count else 0, ds @ ps))"

section \<open>Cutting a frame into pieces\<close>

lemma piece_at_eq: "piece_at nal i = take kMaxVideoPayload (drop (i * kMaxVideoPayload) nal)"
  by (simp add: piece_at_def Let_def)

lemma length_piece_at: "length (piece_at nal i) \<le> kMaxVideoPayload"
  by (simp add: piece_at_eq)

lemma piece_at_nonempty: "i < piece_count nal \<Longrightarrow> piece_at nal i \<noteq> []"
  by (auto simp: piece_at_eq piece_count_def kconsts)

lemma concat_pieces_upto:
  "concat (map (piece_at nal) [0..<n]) = take (n * kMaxVideoPayload) nal"
proof (induction n)
  case (Suc n)
  then show ?case
    by (simp add: piece_at_eq add.commute [of kMaxVideoPayload] take_add)
qed simp

text \<open>The pieces, in index order, are the frame.\<close>

lemma concat_pieces: "concat (map (piece_at nal) [0..<piece_count nal]) = nal"
  by (simp only: concat_pieces_upto, rule take_all) (simp add: piece_count_def kconsts)

lemma piece_count_pos: "nal \<noteq> [] \<Longrightarrow> 0 < piece_count nal"
  by (cases nal) (auto simp: piece_count_def kconsts)

lemma fec_groups_pos: "0 < count \<Longrightarrow> 0 < fec_groups count"
  by (auto simp: fec_groups_def kconsts)

lemma fec_groups_le: "fec_groups count \<le> count"
  by (auto simp: fec_groups_def kconsts)

section \<open>The algebra of parity rows\<close>

text \<open>
  What \<open>mix_row\<close> mixes in, as a row of its own: the length prefix, the payload, and zeroes up to
  the row's length. Rows of one length under \<open>xor_rows\<close> form a commutative group in which every
  row is its own inverse.
\<close>

definition framed :: "nat \<Rightarrow> bytes \<Rightarrow> bytes" where
  "framed n c = of_nat (length c div 256) # of_nat (length c mod 256) # c @ replicate (n - 2 - length c) 0"

definition xor_rows :: "bytes \<Rightarrow> bytes \<Rightarrow> bytes" where
  "xor_rows = map2 (XOR)"

lemma length_xor_rows [simp]: "length (xor_rows a b) = min (length a) (length b)"
  by (simp add: xor_rows_def)

lemma length_mix_bytes [simp]: "length (mix_bytes r d) = length r"
  by (induction r d rule: mix_bytes.induct) auto

lemma length_mix_row [simp]: "length (mix_row r c) = length r"
  by (induction r c rule: mix_row.induct) auto

lemma length_framed [simp]: "2 + length c \<le> n \<Longrightarrow> length (framed n c) = n"
  by (simp add: framed_def)

lemma xor_rows_commute: "xor_rows a b = xor_rows b a"
  by (auto simp: xor_rows_def list_eq_iff_nth_eq xor.commute)

lemma xor_rows_assoc: "xor_rows (xor_rows a b) c = xor_rows a (xor_rows b c)"
  by (auto simp: xor_rows_def list_eq_iff_nth_eq xor.assoc)

lemma xor_rows_left_commute: "xor_rows a (xor_rows b c) = xor_rows b (xor_rows a c)"
  by (metis xor_rows_assoc xor_rows_commute)

lemma xor_rows_0: "length a = n \<Longrightarrow> xor_rows a (replicate n 0) = a"
  by (auto simp: xor_rows_def list_eq_iff_nth_eq)

lemma xor_rows_self: "length a = length b \<Longrightarrow> xor_rows (xor_rows a b) b = a"
  by (auto simp: xor_rows_def list_eq_iff_nth_eq xor.assoc)

lemma mix_bytes_pad:
  "length d \<le> length r \<Longrightarrow> mix_bytes r d = map2 (XOR) r (d @ replicate (length r - length d) 0)"
  by (induction r d rule: mix_bytes.induct) (auto simp: xor_rows_0 [unfolded xor_rows_def])

lemma mix_row_framed:
  assumes "2 + length c \<le> length row"
  shows "mix_row row c = xor_rows row (framed (length row) c)"
proof -
  obtain a b r where row: "row = a # b # r"
    using assms by (cases row; cases "tl row") auto
  then show ?thesis
    using assms by (simp add: xor_rows_def framed_def mix_bytes_pad)
qed

text \<open>The parity row of a list of payloads.\<close>

definition parity_row :: "nat \<Rightarrow> bytes list \<Rightarrow> bytes" where
  "parity_row n cs = foldr (\<lambda>c r. xor_rows (framed n c) r) cs (replicate n 0)"

lemma length_parity_row: "\<forall>c\<in>set cs. 2 + length c \<le> n \<Longrightarrow> length (parity_row n cs) = n"
  by (induction cs) (auto simp: parity_row_def)

lemma parity_row_simps [simp]:
  "parity_row n [] = replicate n 0"
  "parity_row n (c # cs) = xor_rows (framed n c) (parity_row n cs)"
  by (simp_all add: parity_row_def)

lemma parity_row_insert:
  "parity_row n (xs @ c # ys) = xor_rows (framed n c) (parity_row n (xs @ ys))"
  by (induction xs) (auto simp: xor_rows_left_commute)

lemma foldl_mix_row:
  assumes "\<forall>c\<in>set cs. 2 + length c \<le> length row"
  shows "foldl mix_row row cs = xor_rows row (parity_row (length row) cs)"
  using assms
proof (induction cs arbitrary: row)
  case (Cons c cs)
  then have len: "length (mix_row row c) = length row" by simp
  have "foldl mix_row (mix_row row c) cs = xor_rows (mix_row row c) (parity_row (length row) cs)"
    using Cons.IH [of "mix_row row c"] Cons.prems len by auto
  with Cons.prems show ?case by (simp add: mix_row_framed xor_rows_assoc)
qed (simp add: xor_rows_0)

lemma foldl_mix_row_0:
  assumes "\<forall>c\<in>set cs. 2 + length c \<le> n"
  shows "foldl mix_row (replicate n 0) cs = parity_row n cs"
  using assms by (subst foldl_mix_row)
    (auto simp: xor_rows_commute [of "replicate n 0"] length_parity_row xor_rows_0)

text \<open>
  Mixing every payload but one into the parity row leaves the one that is missing.
\<close>

lemma parity_recovers:
  assumes "\<forall>d\<in>set (xs @ c # ys). 2 + length d \<le> n"
  shows "foldl mix_row (parity_row n (xs @ c # ys)) (xs @ ys) = framed n c"
proof -
  have len: "length (parity_row n (xs @ c # ys)) = n" "length (parity_row n (xs @ ys)) = n"
    "length (framed n c) = n"
    using assms by (auto intro!: length_parity_row simp: framed_def)
  then have "foldl mix_row (parity_row n (xs @ c # ys)) (xs @ ys)
      = xor_rows (parity_row n (xs @ c # ys)) (parity_row n (xs @ ys))"
    using assms by (subst foldl_mix_row) auto
  also have "\<dots> = framed n c"
    using len by (simp add: parity_row_insert xor_rows_self)
  finally show ?thesis .
qed

section \<open>What a frame is sent as\<close>

definition video_header :: "bytes \<Rightarrow> u32 \<Rightarrow> u64 \<Rightarrow> nat \<Rightarrow> VideoHeader" where
  "video_header nal fid ts i =
     \<lparr>vh_frameId = fid, vh_timestampUs = ts, vh_pktIndex = of_nat i, vh_pktCount = of_nat (piece_count nal)\<rparr>"

definition fec_header :: "bytes \<Rightarrow> u32 \<Rightarrow> u64 \<Rightarrow> nat \<Rightarrow> FecHeader" where
  "fec_header nal fid ts g =
     \<lparr>fh_frameId = fid, fh_timestampUs = ts, fh_pktCount = of_nat (piece_count nal), fh_groupIndex = of_nat g\<rparr>"

text \<open>The indices of one group, and the parity row the group's payloads have.\<close>

definition group_members :: "nat \<Rightarrow> nat \<Rightarrow> nat list" where
  "group_members count g = filter (\<lambda>i. i mod fec_groups count = g) [0..<count]"

definition parity_of :: "bytes \<Rightarrow> nat \<Rightarrow> bytes" where
  "parity_of nal g =
     parity_row kParityStride (map (piece_at nal) (group_members (piece_count nal) g))"

definition video_datagram :: "u32 \<Rightarrow> bytes \<Rightarrow> u32 \<Rightarrow> u64 \<Rightarrow> bool \<Rightarrow> nat \<Rightarrow> bytes" where
  "video_datagram sid nal fid ts idr i =
     BuildVideoPacket kMaxDatagram sid (video_header nal fid ts i) idr (i + 1 = piece_count nal)
       (piece_at nal i)"

definition fec_datagram :: "u32 \<Rightarrow> bytes \<Rightarrow> u32 \<Rightarrow> u64 \<Rightarrow> bool \<Rightarrow> nat \<Rightarrow> bytes" where
  "fec_datagram sid nal fid ts idr g =
     BuildFecPacket kMaxDatagram sid (fec_header nal fid ts g) idr (parity_of nal g)"

lemma piece_stride: "2 + length (piece_at nal i) \<le> kParityStride"
  using length_piece_at [of nal i] by (simp add: kconsts)

lemmas piece_stride_Suc = piece_stride [simplified]

lemma length_parity_of [simp]: "length (parity_of nal g) = kParityStride"
  by (auto simp: parity_of_def piece_stride_Suc intro!: length_parity_row)

lemma video_datagram_built: "video_datagram sid nal fid ts idr i \<noteq> []"
  using length_piece_at [of nal i]
  by (simp add: video_datagram_def BuildVideoPacket_def finish_def WriteCommon_def Let_def kconsts)

lemma fec_datagram_built: "fec_datagram sid nal fid ts idr g \<noteq> []"
  by (simp add: fec_datagram_def BuildFecPacket_def finish_def WriteCommon_def Let_def kconsts)

lemma send_video_rows:
  assumes "fec \<longrightarrow> length rows = fec_groups (piece_count nal)"
    and "vh\<lparr>vh_pktIndex := 0\<rparr> = video_header nal fid ts 0"
  shows "\<exists>rows'. send_video pz nal vh idr (piece_count nal) fec is rows =
       (map (video_datagram (pz_sessionId pz) nal fid ts idr) is, Some rows')
     \<and> (fec \<longrightarrow> length rows' = length rows \<and> (\<forall>g < length rows. rows' ! g =
          foldl mix_row (rows ! g)
            (map (piece_at nal) (filter (\<lambda>i. i mod fec_groups (piece_count nal) = g) is))))"
  using assms(1)
proof (induction "is" arbitrary: rows)
  case (Cons i "is")
  let ?G = "fec_groups (piece_count nal)"
  define rows1 where "rows1 = (if fec then rows[i mod ?G := mix_row (rows ! (i mod ?G)) (piece_at nal i)] else rows)"
  have vh: "vh\<lparr>vh_pktIndex := of_nat i\<rparr> = video_header nal fid ts i"
    using assms(2) by (cases vh) (simp add: video_header_def)
  have "fec \<longrightarrow> length rows1 = ?G" using Cons.prems by (simp add: rows1_def)
  from Cons.IH [OF this] obtain rows' where IH:
    "send_video pz nal vh idr (piece_count nal) fec is rows1 =
       (map (video_datagram (pz_sessionId pz) nal fid ts idr) is, Some rows')"
    "fec \<longrightarrow> length rows' = length rows1 \<and> (\<forall>g < length rows1. rows' ! g =
          foldl mix_row (rows1 ! g) (map (piece_at nal) (filter (\<lambda>i. i mod ?G = g) is)))"
    by blast
  have "send_video pz nal vh idr (piece_count nal) fec (i # is) rows =
      (map (video_datagram (pz_sessionId pz) nal fid ts idr) (i # is), Some rows')"
    using IH(1) video_datagram_built [of "pz_sessionId pz" nal fid ts idr i]
    by (simp add: vh Let_def rows1_def video_datagram_def)
  moreover have "fec \<longrightarrow> length rows' = length rows \<and> (\<forall>g < length rows. rows' ! g =
          foldl mix_row (rows ! g) (map (piece_at nal) (filter (\<lambda>i. i mod ?G = g) (i # is))))"
    using IH(2) by (auto simp: rows1_def nth_list_update)
  ultimately show ?case by blast
qed simp

lemma send_parity_all:
  assumes "\<forall>g\<in>set gs. rows ! g = parity_of nal g" "fh\<lparr>fh_groupIndex := 0\<rparr> = fec_header nal fid ts 0"
  shows "send_parity pz fh idr gs rows = (map (fec_datagram (pz_sessionId pz) nal fid ts idr) gs, True)"
  using assms(1)
proof (induction gs)
  case (Cons g gs)
  have "fh\<lparr>fh_groupIndex := of_nat g\<rparr> = fec_header nal fid ts g"
    using assms(2) by (cases fh) (simp add: fec_header_def)
  then show ?case
    using Cons fec_datagram_built [of "pz_sessionId pz" nal fid ts idr g]
    by (simp add: Let_def fec_datagram_def)
qed simp

text \<open>
  The whole of \<open>SendFrame\<close>: every packet of the frame in index order, then, with error correction
  on, the parity of every group. The frames it refuses are the empty one and those of more than
  65535 pieces.
\<close>

lemma SendFrame_eq:
  assumes "nal \<noteq> []" "piece_count nal \<le> 0xFFFF"
  shows "SendFrame pz nal fid ts idr =
     (piece_count nal,
      map (video_datagram (pz_sessionId pz) nal fid ts idr) [0..<piece_count nal]
      @ (if pz_fec pz \<and> fec_groups (piece_count nal) \<le> kMaxFecGroups
         then map (fec_datagram (pz_sessionId pz) nal fid ts idr) [0..<fec_groups (piece_count nal)] else []))"
proof -
  let ?n = "piece_count nal" and ?G = "fec_groups (piece_count nal)"
  let ?fec = "pz_fec pz \<and> ?G \<le> kMaxFecGroups"
  let ?rows = "if ?fec then replicate ?G (replicate kParityStride (0::u8)) else []"
  let ?vh = "\<lparr>vh_frameId = fid, vh_timestampUs = ts, vh_pktIndex = 0, vh_pktCount = of_nat ?n\<rparr>"
  obtain rows' where sent: "send_video pz nal ?vh idr ?n ?fec [0..<?n] ?rows =
       (map (video_datagram (pz_sessionId pz) nal fid ts idr) [0..<?n], Some rows')"
    and rows': "?fec \<longrightarrow> length rows' = length ?rows \<and> (\<forall>g < length ?rows. rows' ! g =
          foldl mix_row (?rows ! g) (map (piece_at nal) (filter (\<lambda>i. i mod ?G = g) [0..<?n])))"
    using send_video_rows [of ?fec ?rows nal ?vh fid ts pz idr "[0..<?n]"]
    by (auto simp: video_header_def)
  have "rows' ! g = parity_of nal g" if "?fec" "g < ?G" for g
    using rows' that by (simp add: parity_of_def group_members_def foldl_mix_row_0 piece_stride_Suc)
  then have "send_parity pz \<lparr>fh_frameId = fid, fh_timestampUs = ts, fh_pktCount = of_nat ?n, fh_groupIndex = 0\<rparr>
      idr [0..<?G] rows' = (map (fec_datagram (pz_sessionId pz) nal fid ts idr) [0..<?G], True)" if "?fec"
    using that by (intro send_parity_all) (auto simp: fec_header_def)
  then show ?thesis
    using assms sent by (cases ?fec) (auto simp: SendFrame_def Let_def)
qed

lemma SendFrame_refused: "nal = [] \<or> piece_count nal > 0xFFFF \<Longrightarrow> SendFrame pz nal fid ts idr = (0, [])"
  by (auto simp: SendFrame_def Let_def)

section \<open>What the receiver reads back\<close>

definition video_view :: "bytes \<Rightarrow> u32 \<Rightarrow> u64 \<Rightarrow> bool \<Rightarrow> nat \<Rightarrow> VideoPacketView" where
  "video_view nal fid ts idr i =
     \<lparr>vp_hdr = video_header nal fid ts i, vp_idr = idr, vp_frameEnd = (i + 1 = piece_count nal),
      vp_payload = piece_at nal i\<rparr>"

definition fec_view :: "bytes \<Rightarrow> u32 \<Rightarrow> u64 \<Rightarrow> bool \<Rightarrow> nat \<Rightarrow> FecPacketView" where
  "fec_view nal fid ts idr g = \<lparr>fp_hdr = fec_header nal fid ts g, fp_idr = idr, fp_parity = parity_of nal g\<rparr>"

lemma parsed_video_datagram:
  assumes "i < piece_count nal" "piece_count nal \<le> 0xFFFF"
  shows "parse_with ParseVideoPacket (video_datagram sid nal fid ts idr i)
      = some_opt (hdr MsgVideoPacket (video_flags idr (i + 1 = piece_count nal)) ChanVideo sid,
                  video_view nal fid ts idr i)"
proof -
  have "vh_pktIndex (video_header nal fid ts i) < vh_pktCount (video_header nal fid ts i)"
    using assms by (simp add: video_header_def word_less_nat_alt unat_of_nat_u16)
  from VideoPacket_roundtrip [OF video_datagram_built [unfolded video_datagram_def] this]
  show ?thesis by (simp add: video_datagram_def video_view_def)
qed

lemma parsed_fec_datagram:
  assumes "g < fec_groups (piece_count nal)" "fec_groups (piece_count nal) \<le> kMaxFecGroups"
    and "piece_count nal \<le> 0xFFFF"
  shows "parse_with ParseFecPacket (fec_datagram sid nal fid ts idr g)
      = some_opt (hdr MsgFecPacket (video_flags idr False) ChanVideo sid, fec_view nal fid ts idr g)"
proof -
  have "unat (fh_groupIndex (fec_header nal fid ts g))
      < (unat (fh_pktCount (fec_header nal fid ts g)) + kFecGroupSize - 1) div kFecGroupSize"
    using assms by (simp add: fec_header_def unat_of_nat_u16 unat_of_nat_u8 kconsts fec_groups_def)
  from FecPacket_roundtrip [OF fec_datagram_built [unfolded fec_datagram_def] this]
  show ?thesis by (simp add: fec_datagram_def fec_view_def)
qed

end
