(* ===== verification/OrdMap.thy ===== *)
theory OrdMap
  imports Main
begin

text \<open>
  \<open>std::map\<close> as the association list an iteration over it visits: strictly ascending keys.
  \<open>map_of\<close> is \<open>find\<close>, \<open>om_put\<close> is \<open>operator[]\<close> with an assignment (and
  \<open>emplace\<close> of an absent key), \<open>om_erase\<close> is \<open>erase\<close>, the head of the list is
  \<open>begin()\<close>. The locale names the laws a client relies on.
\<close>

type_synonym ('k, 'v) omap = "('k \<times> 'v) list"

definition om_wf :: "('k::linorder, 'v) omap \<Rightarrow> bool" where
  "om_wf m \<longleftrightarrow> sorted_wrt (<) (map fst m)"

fun om_put :: "'k::linorder \<Rightarrow> 'v \<Rightarrow> ('k, 'v) omap \<Rightarrow> ('k, 'v) omap" where
  "om_put k v [] = [(k, v)]"
| "om_put k v ((k', v') # m) =
    (if k < k' then (k, v) # (k', v') # m
     else if k = k' then (k, v) # m
     else (k', v') # om_put k v m)"

definition om_erase :: "'k \<Rightarrow> ('k, 'v) omap \<Rightarrow> ('k, 'v) omap" where
  "om_erase k m = filter (\<lambda>e. fst e \<noteq> k) m"

lemma om_wf_Nil [simp]: "om_wf []"
  by (simp add: om_wf_def)

lemma om_wf_Cons [simp]: "om_wf (e # m) \<longleftrightarrow> (\<forall>k\<in>fst ` set m. fst e < k) \<and> om_wf m"
  by (auto simp: om_wf_def)

lemma om_find_put [simp]: "map_of (om_put k v m) = (map_of m)(k \<mapsto> v)"
  by (induction k v m rule: om_put.induct) auto

lemma om_keys_put [simp]: "fst ` set (om_put k v m) = insert k (fst ` set m)"
  by (induction k v m rule: om_put.induct) auto

lemma om_wf_put [simp]: "om_wf m \<Longrightarrow> om_wf (om_put k v m)"
  by (induction k v m rule: om_put.induct) auto

lemma om_set_put:
  "om_wf m \<Longrightarrow> set (om_put k v m) = insert (k, v) {e \<in> set m. fst e \<noteq> k}"
  by (induction k v m rule: om_put.induct) (auto dest: order.strict_trans split: if_splits)

lemma om_length_put:
  "om_wf m \<Longrightarrow> length (om_put k v m) = (if k \<in> fst ` set m then length m else Suc (length m))"
  by (induction k v m rule: om_put.induct) force+

lemma om_find_erase [simp]: "map_of (om_erase k m) = (map_of m)(k := None)"
  by (induction m) (auto simp: om_erase_def)

lemma om_set_erase [simp]: "set (om_erase k m) = {e \<in> set m. fst e \<noteq> k}"
  by (auto simp: om_erase_def)

lemma om_wf_erase [simp]: "om_wf m \<Longrightarrow> om_wf (om_erase k m)"
  by (induction m) (auto simp: om_erase_def)

lemma om_length_erase: "length (om_erase k m) \<le> length m"
  by (simp add: om_erase_def)

lemma om_wf_distinct: "om_wf m \<Longrightarrow> distinct (map fst m)"
  by (induction m) auto

lemma om_find_set: "om_wf m \<Longrightarrow> map_of m k = Some v \<longleftrightarrow> (k, v) \<in> set m"
  by (simp add: om_wf_distinct)

lemma om_length_erase_found: "om_wf m \<Longrightarrow> k \<in> fst ` set m \<Longrightarrow> Suc (length (om_erase k m)) = length m"
proof (induction m)
  case (Cons e m)
  have keep: "om_erase (fst e) m = m"
    using Cons.prems(1) by (auto simp: om_erase_def intro!: filter_True)
  show ?case
  proof (cases "fst e = k")
    case True
    with keep show ?thesis by (simp add: om_erase_def)
  next
    case False
    then have "Suc (length (om_erase k m)) = length m" using Cons by auto
    then show ?thesis using False by (simp add: om_erase_def)
  qed
qed simp

lemma om_length_erase_absent: "k \<notin> fst ` set m \<Longrightarrow> om_erase k m = m"
  by (auto simp: om_erase_def intro!: filter_True)

lemma om_erase_begin [simp]: "om_wf (e # m) \<Longrightarrow> om_erase (fst e) (e # m) = m"
  by (auto simp: om_erase_def intro!: filter_True)

text \<open>Two ordered maps with the same lookups are the same list.\<close>

lemma om_ext:
  assumes "om_wf m" "om_wf m'" "map_of m = map_of m'"
  shows "m = m'"
proof -
  have sets: "set m = set m'"
    using assms by (auto simp: om_find_set [symmetric])
  have "sorted (map fst m)" "sorted (map fst m')" "distinct (map fst m)" "distinct (map fst m')"
    using assms by (auto simp: om_wf_def strict_sorted_iff om_wf_distinct)
  moreover have "inj_on fst (set m \<union> set m')"
    using om_wf_distinct [OF assms(2)] by (simp add: sets distinct_map)
  ultimately show ?thesis
    using sets sorted_distinct_set_unique [of "map fst m" "map fst m'"] by (auto dest: map_inj_on)
qed

section \<open>The interface\<close>

text \<open>
  The contract of an ordered map, as far as the components use it: what a lookup returns after a
  store and after an erase, that the ordering invariant is kept, and that the first entry of an
  iteration holds the least key.
\<close>

locale ordered_map =
  fixes wf :: "'m \<Rightarrow> bool"
    and find :: "'m \<Rightarrow> 'k::linorder \<Rightarrow> 'v option"
    and put :: "'k \<Rightarrow> 'v \<Rightarrow> 'm \<Rightarrow> 'm"
    and erase :: "'k \<Rightarrow> 'm \<Rightarrow> 'm"
    and entries :: "'m \<Rightarrow> ('k \<times> 'v) list"
  assumes find_put: "wf m \<Longrightarrow> find (put k v m) = (find m)(k \<mapsto> v)"
    and find_erase: "wf m \<Longrightarrow> find (erase k m) = (find m)(k := None)"
    and wf_put: "wf m \<Longrightarrow> wf (put k v m)"
    and wf_erase: "wf m \<Longrightarrow> wf (erase k m)"
    and ascending: "wf m \<Longrightarrow> sorted_wrt (<) (map fst (entries m))"
    and iterated: "wf m \<Longrightarrow> (k, v) \<in> set (entries m) \<longleftrightarrow> find m k = Some v"
begin

lemma least_first:
  assumes "wf m" "entries m = (k, v) # rest"
  shows "find m k = Some v" "find m k' \<noteq> None \<Longrightarrow> k \<le> k'"
  using assms ascending [of m] iterated [of m] by (force dest: order.strict_implies_order)+

lemma put_erase: "wf m \<Longrightarrow> find m k = None \<Longrightarrow> find (erase k (put k v m)) = find m"
  by (auto simp: find_erase find_put wf_put)

lemma put_other: "wf m \<Longrightarrow> k \<noteq> k' \<Longrightarrow> find (put k v m) k' = find m k'"
  by (simp add: find_put)

lemma entries_put:
  "wf m \<Longrightarrow> set (entries (put k v m)) = insert (k, v) {e \<in> set (entries m). fst e \<noteq> k}"
  using iterated [of m] iterated [of "put k v m"] by (fastforce simp: wf_put find_put split: if_splits)

lemma entries_erase: "wf m \<Longrightarrow> set (entries (erase k m)) = {e \<in> set (entries m). fst e \<noteq> k}"
  using iterated [of m] iterated [of "erase k m"] by (fastforce simp: wf_erase find_erase split: if_splits)

end

interpretation om: ordered_map om_wf map_of om_put om_erase "\<lambda>m. m"
  by unfold_locales (simp_all add: om_find_set, simp add: om_wf_def)

end
