(* ===== verification/Reassembler.thy ===== *)
theory Reassembler
  imports Packetizer OrdMap
begin

text \<open>
  \<open>core/src/transport/Reassembler.cpp\<close>: the receiver's buffer of incomplete frames. The fields
  of the class are the fields of a record; \<open>std::map\<close> is \<open>omap\<close>; a function that the
  code hands a reference to an entry of \<open>pending_\<close> takes the entry and returns it, and its
  caller stores it back. The two callbacks are a log of what was called, in order. Every
  \<open>operator[]\<close> on a vector is a checked read.
\<close>

record ReassemblerFrame =
  fr_frameId :: u32
  fr_timestampUs :: u64
  fr_idr :: bool
  fr_firstSeenUs :: u64
  fr_nal :: bytes

datatype DropReason = DropTimeout | DropOvertaken | DropEvicted | DropPreIdr

record FrameDropInfo =
  fdi_frameId :: u32
  fdi_reason :: DropReason
  fdi_missing :: u16
  fdi_total :: u16
  fdi_firstMissing :: u16
  fdi_lastMissing :: u16
  fdi_idr :: bool
  fdi_waitedMs :: u32
  fdi_bytesGot :: u32

datatype ReassemblerEvent = FrameDropped FrameDropInfo | ReferenceLost u32

record ReassemblerStats =
  st_packetsReceived :: u64
  st_fecReceived :: u64
  st_framesCompleted :: u64
  st_framesDropped :: u64
  st_framesSkipped :: u64
  st_packetsLost :: u64
  st_lossEvents :: u64
  st_packetsRecovered :: u64
  st_lossRuns :: "u64 list"
  st_lossRunMax :: u64
  st_latePackets :: u64
  st_lateMsSum :: u64
  st_lateMsMax :: u64

record Pending =
  pe_pieces :: "bytes list"
  pe_parity :: "u8 \<rightharpoonup> bytes"
  pe_pktCount :: u16
  pe_received :: u16
  pe_maxIndexSeen :: u16
  pe_timestampUs :: u64
  pe_idr :: bool
  pe_firstSeenUs :: u64
  pe_lastPushUs :: u64
  pe_lastNackUs :: u64
  pe_bytes :: nat

record Grave =
  gr_frameId :: u32
  gr_dropUs :: u64

record Reassembler =
  ra_pending :: "(u32, Pending) omap"
  ra_frameIntervalUs :: u64
  ra_rttUs :: u64
  ra_waitingForIdr :: bool
  ra_lossEvent :: bool
  ra_haveBarrier :: bool
  ra_barrierId :: u32
  ra_stats :: ReassemblerStats
  ra_graveyard :: "Grave list"
  ra_graveNext :: nat
  ra_lastPushUs :: u64
  ra_maxGapMs :: u32
  ra_events :: "ReassemblerEvent list"

definition kMaxPendingFrames :: nat where [kconsts]: "kMaxPendingFrames = 8"
definition kStallTimeoutMultiple :: u64 where [kconsts]: "kStallTimeoutMultiple = 2"
definition kHardTimeoutMultiple :: u64 where [kconsts]: "kHardTimeoutMultiple = 30"
definition kRetransmitRttMultiple :: u64 where [kconsts]: "kRetransmitRttMultiple = 3"
definition kRetransmitRttDivisor :: u64 where [kconsts]: "kRetransmitRttDivisor = 2"
definition kNackHoldUs :: u64 where [kconsts]: "kNackHoldUs = 2000"
definition kNackMinIntervalUs :: u64 where [kconsts]: "kNackMinIntervalUs = 10000"
definition kGraveyardSize :: nat where [kconsts]: "kGraveyardSize = 16"

definition stats_zero :: ReassemblerStats where
  "stats_zero =
     \<lparr>st_packetsReceived = 0, st_fecReceived = 0, st_framesCompleted = 0, st_framesDropped = 0,
      st_framesSkipped = 0, st_packetsLost = 0, st_lossEvents = 0, st_packetsRecovered = 0,
      st_lossRuns = replicate 7 0, st_lossRunMax = 0, st_latePackets = 0, st_lateMsSum = 0,
      st_lateMsMax = 0\<rparr>"

text \<open>The constructor; \<open>0\<close> asks for the default interval.\<close>

definition ra_init :: "u64 \<Rightarrow> Reassembler" where
  "ra_init frameIntervalUs =
     \<lparr>ra_pending = [], ra_frameIntervalUs = (if frameIntervalUs \<noteq> 0 then frameIntervalUs else 16667),
      ra_rttUs = 0, ra_waitingForIdr = True, ra_lossEvent = False, ra_haveBarrier = False,
      ra_barrierId = 0, ra_stats = stats_zero,
      ra_graveyard = replicate kGraveyardSize \<lparr>gr_frameId = 0, gr_dropUs = 0\<rparr>, ra_graveNext = 0,
      ra_lastPushUs = 0, ra_maxGapMs = 0, ra_events = []\<rparr>"

definition ra_SetFps :: "Reassembler \<Rightarrow> u32 \<Rightarrow> Reassembler" where
  "ra_SetFps s fps = (if fps \<noteq> 0 then s\<lparr>ra_frameIntervalUs := 1000000 div ucast fps\<rparr> else s)"

definition ra_SetRttUs :: "Reassembler \<Rightarrow> u64 \<Rightarrow> Reassembler" where
  "ra_SetRttUs s rttUs = s\<lparr>ra_rttUs := rttUs\<rparr>"

definition ra_TakeMaxGapMs :: "Reassembler \<Rightarrow> Reassembler \<times> u32" where
  "ra_TakeMaxGapMs s = (s\<lparr>ra_maxGapMs := 0\<rparr>, ra_maxGapMs s)"

definition ra_TakeLossEvent :: "Reassembler \<Rightarrow> Reassembler \<times> bool" where
  "ra_TakeLossEvent s = (s\<lparr>ra_lossEvent := False\<rparr>, ra_lossEvent s)"

definition HardTimeoutUs :: "Reassembler \<Rightarrow> u64" where
  "HardTimeoutUs s = kHardTimeoutMultiple * ra_frameIntervalUs s"

definition StallTimeoutUs :: "Reassembler \<Rightarrow> u64" where
  "StallTimeoutUs s =
     (let paced = kStallTimeoutMultiple * ra_frameIntervalUs s;
          retransmit = kNackHoldUs + ra_rttUs s * kRetransmitRttMultiple div kRetransmitRttDivisor;
          wait = (if paced > retransmit then paced else retransmit);
          hard = HardTimeoutUs s
      in if wait < hard then wait else hard)"

definition Complete :: "Pending \<Rightarrow> bool" where
  "Complete f \<longleftrightarrow> pe_pktCount f \<noteq> 0 \<and> pe_received f = pe_pktCount f"

section \<open>Dropping a frame\<close>

definition loss_bucket :: "nat \<Rightarrow> nat" where
  "loss_bucket run =
     (if run \<le> 3 then run - 1 else if run < 8 then 3 else if run < 16 then 4
      else if run < 32 then 5 else 6)"

text \<open>
  The scan for runs of missing pieces, one index a step, over the local variables of the loop:
  the drop record, the current run, \<open>anyMissing\<close> and the statistics.
\<close>

fun loss_scan :: "Pending \<Rightarrow> nat list \<Rightarrow> FrameDropInfo \<Rightarrow> nat \<Rightarrow> bool \<Rightarrow> ReassemblerStats
    \<Rightarrow> (FrameDropInfo \<times> ReassemblerStats) checked" where
  "loss_scan f [] info run anyMissing st = Some (info, st)"
| "loss_scan f (i # is) info run anyMissing st = do {
     gone \<leftarrow> (if i < unat (pe_pktCount f) then do { p \<leftarrow> vec_at (pe_pieces f) i; Some (p = []) }
             else Some False);
     if gone then
       loss_scan f is
         (info\<lparr>fdi_missing := fdi_missing info + 1,
               fdi_firstMissing := (if anyMissing then fdi_firstMissing info else of_nat i),
               fdi_lastMissing := of_nat i\<rparr>)
         (run + 1) True st
     else if run \<noteq> 0 then do {
       n \<leftarrow> vec_at (st_lossRuns st) (loss_bucket run);
       loss_scan f is info 0 anyMissing
         (st\<lparr>st_lossRuns := (st_lossRuns st)[loss_bucket run := n + 1],
             st_lossRunMax := (if of_nat run > st_lossRunMax st then of_nat run else st_lossRunMax st)\<rparr>)
     }
     else loss_scan f is info run anyMissing st
   }"

definition ra_Drop :: "Reassembler \<Rightarrow> u32 \<Rightarrow> Pending \<Rightarrow> DropReason \<Rightarrow> u64 \<Rightarrow> Reassembler checked" where
  "ra_Drop s fid f reason nowUs =
     (let loss = (reason \<noteq> DropPreIdr);
          info = \<lparr>fdi_frameId = fid, fdi_reason = reason, fdi_missing = 0, fdi_total = pe_pktCount f,
                  fdi_firstMissing = 0, fdi_lastMissing = 0, fdi_idr = pe_idr f,
                  fdi_waitedMs = ucast ((nowUs - pe_firstSeenUs f) div 1000),
                  fdi_bytesGot = of_nat (pe_bytes f)\<rparr>
      in do {
        (info, s) \<leftarrow>
          (if loss then
             let st = ra_stats s;
                 st = st\<lparr>st_framesDropped := st_framesDropped st + 1,
                         st_packetsLost := st_packetsLost st + (ucast (pe_pktCount f) - ucast (pe_received f))\<rparr>
             in do {
               (info, st) \<leftarrow> loss_scan f [0..<unat (pe_pktCount f) + 1] info 0 False st;
               _ \<leftarrow> vec_at (ra_graveyard s) (ra_graveNext s);
               Some (info,
                 s\<lparr>ra_graveyard := (ra_graveyard s)[ra_graveNext s := \<lparr>gr_frameId = fid, gr_dropUs = nowUs\<rparr>],
                   ra_graveNext := (ra_graveNext s + 1) mod kGraveyardSize,
                   ra_lossEvent := True,
                   ra_stats := st\<lparr>st_lossEvents := st_lossEvents st + 1\<rparr>\<rparr>)
             }
           else Some (info, s\<lparr>ra_stats := (ra_stats s)\<lparr>st_framesSkipped := st_framesSkipped (ra_stats s) + 1\<rparr>\<rparr>));
        let s = (if \<not> ra_haveBarrier s \<or> fid > ra_barrierId s
                 then s\<lparr>ra_haveBarrier := True, ra_barrierId := fid\<rparr> else s);
            s = s\<lparr>ra_pending := om_erase fid (ra_pending s)\<rparr>
        in Some (s\<lparr>ra_events := ra_events s @ [FrameDropped info] @ (if loss then [ReferenceLost fid] else [])\<rparr>)
      })"

fun late_scan :: "Grave list \<Rightarrow> u32 \<Rightarrow> u64 \<Rightarrow> ReassemblerStats \<Rightarrow> ReassemblerStats" where
  "late_scan [] fid nowUs st = st"
| "late_scan (g # gs) fid nowUs st =
     (if gr_dropUs g = 0 \<or> gr_frameId g \<noteq> fid then late_scan gs fid nowUs st
      else let lateMs = (nowUs - gr_dropUs g) div 1000
      in st\<lparr>st_latePackets := st_latePackets st + 1, st_lateMsSum := st_lateMsSum st + lateMs,
            st_lateMsMax := (if lateMs > st_lateMsMax st then lateMs else st_lateMsMax st)\<rparr>)"

definition NoteLatePacket :: "Reassembler \<Rightarrow> u32 \<Rightarrow> u64 \<Rightarrow> Reassembler" where
  "NoteLatePacket s fid nowUs = s\<lparr>ra_stats := late_scan (ra_graveyard s) fid nowUs (ra_stats s)\<rparr>"

section \<open>Finding a frame's slot\<close>

text \<open>What \<open>ra_Drop\<close> does to the fields the other operations look at.\<close>

lemma ra_Drop_fields:
  assumes "ra_Drop s fid f reason nowUs = Some s'"
  shows "ra_pending s' = om_erase fid (ra_pending s)"
    and "ra_haveBarrier s'"
    and "ra_barrierId s' = (if ra_haveBarrier s then max (ra_barrierId s) fid else fid)"
    and "ra_waitingForIdr s' = ra_waitingForIdr s"
    and "ra_frameIntervalUs s' = ra_frameIntervalUs s"
    and "ra_rttUs s' = ra_rttUs s"
    and "length (ra_graveyard s') = length (ra_graveyard s)"
    and "ra_graveNext s < kGraveyardSize \<Longrightarrow> ra_graveNext s' < kGraveyardSize"
  using assms
  by (auto simp: ra_Drop_def Let_def max_def kconsts split: if_splits Option.bind_splits)

function evict :: "Reassembler \<Rightarrow> u64 \<Rightarrow> Reassembler checked" where
  "evict s nowUs =
     (if length (ra_pending s) \<ge> kMaxPendingFrames then
        case ra_pending s of
          [] \<Rightarrow> None
        | (fid, f) # _ \<Rightarrow>
            (case ra_Drop s fid f DropEvicted nowUs of
               None \<Rightarrow> None
             | Some s' \<Rightarrow> evict s' nowUs)
      else Some s)"
  by pat_completeness auto

lemma om_erase_begin_shorter: "length (om_erase fid ((fid, f) # rest)) < Suc (length rest)"
  by (simp add: om_erase_def le_imp_less_Suc)

termination evict
  by (relation "measure (\<lambda>(s, _). length (ra_pending s))")
    (auto simp: ra_Drop_fields(1) om_erase_begin_shorter)

declare evict.simps [simp del]

definition pending_new :: "u16 \<Rightarrow> u64 \<Rightarrow> u64 \<Rightarrow> Pending" where
  "pending_new pktCount timestampUs nowUs =
     \<lparr>pe_pieces = replicate (unat pktCount) [], pe_parity = Map.empty, pe_pktCount = pktCount,
      pe_received = 0, pe_maxIndexSeen = 0, pe_timestampUs = timestampUs, pe_idr = False,
      pe_firstSeenUs = nowUs, pe_lastPushUs = 0, pe_lastNackUs = 0, pe_bytes = 0\<rparr>"

text \<open>\<open>Slot\<close>: the state and the entry it points to (\<open>nullptr\<close> is the inner \<open>None\<close>).\<close>

definition ra_Slot :: "Reassembler \<Rightarrow> u32 \<Rightarrow> u16 \<Rightarrow> u64 \<Rightarrow> u64 \<Rightarrow> (Reassembler \<times> Pending option) checked" where
  "ra_Slot s fid pktCount timestampUs nowUs =
     (if ra_haveBarrier s \<and> fid \<le> ra_barrierId s then Some (s, None)
      else do {
        (s, f) \<leftarrow> (case map_of (ra_pending s) fid of
                   Some f \<Rightarrow> Some (s, f)
                 | None \<Rightarrow> do {
                     s \<leftarrow> evict s nowUs;
                     let f = pending_new pktCount timestampUs nowUs;
                     Some (s\<lparr>ra_pending := om_put fid f (ra_pending s)\<rparr>, f)
                   });
        if pe_pktCount f \<noteq> pktCount then Some (s, None)
        else let f = f\<lparr>pe_lastPushUs := nowUs\<rparr>
             in Some (s\<lparr>ra_pending := om_put fid f (ra_pending s)\<rparr>, Some f)
      })"

section \<open>Recovering a lost packet\<close>

text \<open>The indices \<open>for (i = group; i < n; i += numGroups)\<close> visits.\<close>

function stride_indices :: "nat \<Rightarrow> nat \<Rightarrow> nat \<Rightarrow> nat list" where
  "stride_indices i numGroups n =
     (if i < n \<and> 0 < numGroups then i # stride_indices (i + numGroups) numGroups n else [])"
  by pat_completeness auto
termination stride_indices
  by (relation "measure (\<lambda>(i, _, n). n - i)") auto

declare stride_indices.simps [simp del]

text \<open>The first loop counts the missing pieces and keeps the last missing index.\<close>

fun count_missing :: "bytes list \<Rightarrow> nat list \<Rightarrow> nat \<Rightarrow> nat \<Rightarrow> (nat \<times> nat) checked" where
  "count_missing pieces [] missing missingIdx = Some (missing, missingIdx)"
| "count_missing pieces (i # is) missing missingIdx = do {
     p \<leftarrow> vec_at pieces i;
     if p = [] then count_missing pieces is (missing + 1) i
     else count_missing pieces is missing missingIdx
   }"

text \<open>The second loop; the inner \<open>None\<close> is \<open>return false\<close>.\<close>

fun mix_present :: "bytes list \<Rightarrow> nat list \<Rightarrow> nat \<Rightarrow> bytes \<Rightarrow> bytes option checked" where
  "mix_present pieces [] missingIdx r = some_opt r"
| "mix_present pieces (i # is) missingIdx r =
     (if i = missingIdx then mix_present pieces is missingIdx r
      else do {
        p \<leftarrow> vec_at pieces i;
        if kFecLenPrefix + length p > length r then nullopt
        else mix_present pieces is missingIdx (mix_row r p)
      })"

definition TryRecover :: "ReassemblerStats \<Rightarrow> Pending \<Rightarrow> u8 \<Rightarrow> (ReassemblerStats \<times> Pending \<times> bool) checked" where
  "TryRecover st f grp =
     (case pe_parity f grp of
        None \<Rightarrow> Some (st, f, False)
      | Some par \<Rightarrow>
          let n = unat (pe_pktCount f);
              numGroups = (n + kFecGroupSize - 1) div kFecGroupSize
          in if numGroups = 0 \<or> unat grp \<ge> numGroups then Some (st, f, False)
          else do {
            let is = stride_indices (unat grp) numGroups n;
            (missing, missingIdx) \<leftarrow> count_missing (pe_pieces f) is 0 0;
            if missing \<noteq> 1 then Some (st, f, False)
            else do {
              mixed \<leftarrow> mix_present (pe_pieces f) is missingIdx par;
              case mixed of
                None \<Rightarrow> Some (st, f, False)
              | Some r \<Rightarrow> do {
                  a \<leftarrow> rd8 r 0;
                  b \<leftarrow> rd8 r 1;
                  let len = unat (push_bit 8 (ucast a :: u64) OR ucast b);
                  if len = 0 \<or> len > kMaxVideoPayload \<or> kFecLenPrefix + len > length r
                  then Some (st, f, False)
                  else do {
                    piece \<leftarrow> rdn r kFecLenPrefix len;
                    _ \<leftarrow> vec_at (pe_pieces f) missingIdx;
                    Some (st\<lparr>st_packetsRecovered := st_packetsRecovered st + 1\<rparr>,
                          f\<lparr>pe_pieces := (pe_pieces f)[missingIdx := piece],
                            pe_bytes := pe_bytes f + len,
                            pe_received := pe_received f + 1\<rparr>,
                          True)
                  }
                }
            }
          })"

section \<open>Receiving packets\<close>

text \<open>The entry \<open>f\<close> and the statistics written back after \<open>TryRecover\<close>.\<close>

definition recover_and_store :: "Reassembler \<Rightarrow> u32 \<Rightarrow> Pending \<Rightarrow> u8 \<Rightarrow> Reassembler checked" where
  "recover_and_store s fid f grp = do {
     (st, f, _) \<leftarrow> TryRecover (ra_stats s) f grp;
     Some (s\<lparr>ra_stats := st, ra_pending := om_put fid f (ra_pending s)\<rparr>)
   }"

text \<open>The packet counted, and the gap since the one before.\<close>

definition ra_arrival :: "Reassembler \<Rightarrow> u64 \<Rightarrow> Reassembler" where
  "ra_arrival s nowUs =
     (let s = s\<lparr>ra_stats := (ra_stats s)\<lparr>st_packetsReceived := st_packetsReceived (ra_stats s) + 1\<rparr>\<rparr>;
          gapMs = (ucast ((nowUs - ra_lastPushUs s) div 1000) :: u32);
          s = (if ra_lastPushUs s \<noteq> 0 \<and> gapMs > ra_maxGapMs s then s\<lparr>ra_maxGapMs := gapMs\<rparr> else s)
      in s\<lparr>ra_lastPushUs := nowUs\<rparr>)"

text \<open>A packet and the entry \<open>Slot\<close> found for it.\<close>

definition ra_accept :: "Reassembler \<Rightarrow> u32 \<Rightarrow> Pending \<Rightarrow> VideoPacketView \<Rightarrow> Reassembler checked" where
  "ra_accept s fid f pkt =
     (if vh_pktIndex (vp_hdr pkt) \<ge> pe_pktCount f then Some s
      else let f = (if vh_pktIndex (vp_hdr pkt) > pe_maxIndexSeen f
                    then f\<lparr>pe_maxIndexSeen := vh_pktIndex (vp_hdr pkt)\<rparr> else f);
               i = unat (vh_pktIndex (vp_hdr pkt))
      in do {
        slot \<leftarrow> vec_at (pe_pieces f) i;
        if slot \<noteq> [] then Some (s\<lparr>ra_pending := om_put fid f (ra_pending s)\<rparr>)
        else let f = f\<lparr>pe_pieces := (pe_pieces f)[i := vp_payload pkt],
                       pe_bytes := pe_bytes f + length (vp_payload pkt),
                       pe_idr := (pe_idr f \<or> vp_idr pkt),
                       pe_received := pe_received f + 1\<rparr>;
                 numGroups = (unat (pe_pktCount f) + kFecGroupSize - 1) div kFecGroupSize
        in if numGroups \<noteq> 0 then recover_and_store s fid f (of_nat (i mod numGroups))
           else Some (s\<lparr>ra_pending := om_put fid f (ra_pending s)\<rparr>)
      })"

definition ra_Push :: "Reassembler \<Rightarrow> VideoPacketView \<Rightarrow> u64 \<Rightarrow> Reassembler checked" where
  "ra_Push s pkt nowUs =
     (let h = vp_hdr pkt;
          s = ra_arrival s nowUs
      in if vp_payload pkt = [] then Some s
      else let s = (if ra_haveBarrier s \<and> vh_frameId h \<le> ra_barrierId s
                    then NoteLatePacket s (vh_frameId h) nowUs else s)
      in do {
        (s, fp) \<leftarrow> ra_Slot s (vh_frameId h) (vh_pktCount h) (vh_timestampUs h) nowUs;
        case fp of
          None \<Rightarrow> Some s
        | Some f \<Rightarrow> ra_accept s (vh_frameId h) f pkt
      })"

definition ra_accept_fec :: "Reassembler \<Rightarrow> u32 \<Rightarrow> Pending \<Rightarrow> FecPacketView \<Rightarrow> Reassembler checked" where
  "ra_accept_fec s fid f pkt =
     (let f = f\<lparr>pe_idr := (pe_idr f \<or> fp_idr pkt)\<rparr>;
          slot = (case pe_parity f (fh_groupIndex (fp_hdr pkt)) of None \<Rightarrow> [] | Some p \<Rightarrow> p)
      in if slot \<noteq> [] then Some (s\<lparr>ra_pending := om_put fid f (ra_pending s)\<rparr>)
         else let f = f\<lparr>pe_parity := (pe_parity f)(fh_groupIndex (fp_hdr pkt) \<mapsto> fp_parity pkt)\<rparr>
         in recover_and_store s fid f (fh_groupIndex (fp_hdr pkt)))"

definition ra_PushFec :: "Reassembler \<Rightarrow> FecPacketView \<Rightarrow> u64 \<Rightarrow> Reassembler checked" where
  "ra_PushFec s pkt nowUs =
     (let h = fp_hdr pkt;
          s = s\<lparr>ra_stats := (ra_stats s)\<lparr>st_fecReceived := st_fecReceived (ra_stats s) + 1\<rparr>\<rparr>
      in if length (fp_parity pkt) < kFecLenPrefix then Some s
      else do {
        (s, fp) \<leftarrow> ra_Slot s (fh_frameId h) (fh_pktCount h) (fh_timestampUs h) nowUs;
        case fp of
          None \<Rightarrow> Some s
        | Some f \<Rightarrow> ra_accept_fec s (fh_frameId h) f pkt
      })"

section \<open>Handing frames out\<close>

text \<open>The head frame, complete and wanted, leaves the buffer.\<close>

definition pop_head :: "Reassembler \<Rightarrow> u32 \<Rightarrow> Pending \<Rightarrow> Reassembler \<times> ReassemblerFrame" where
  "pop_head s fid f =
     (s\<lparr>ra_haveBarrier := True, ra_barrierId := fid, ra_waitingForIdr := False,
        ra_stats := (ra_stats s)\<lparr>st_framesCompleted := st_framesCompleted (ra_stats s) + 1\<rparr>,
        ra_pending := om_erase fid (ra_pending s)\<rparr>,
      \<lparr>fr_frameId = fid, fr_timestampUs = pe_timestampUs f, fr_idr = pe_idr f,
       fr_firstSeenUs = pe_firstSeenUs f, fr_nal = concat (pe_pieces f)\<rparr>)"

text \<open>What the loop of \<open>PopReady\<close> does with the head frame.\<close>

datatype HeadFate = Deliver | DropHead DropReason | Wait

definition newer_complete :: "(u32 \<times> Pending) list \<Rightarrow> nat" where
  "newer_complete rest = length (filter (\<lambda>e. Complete (snd e)) rest)"

definition head_fate :: "Reassembler \<Rightarrow> Pending \<Rightarrow> (u32 \<times> Pending) list \<Rightarrow> u64 \<Rightarrow> HeadFate" where
  "head_fate s f rest nowUs =
     (if Complete f then if ra_waitingForIdr s \<and> \<not> pe_idr f then DropHead DropPreIdr else Deliver
      else let activityUs = (if pe_lastNackUs f > pe_lastPushUs f then pe_lastNackUs f else pe_lastPushUs f)
      in if nowUs - pe_firstSeenUs f > HardTimeoutUs s \<or> nowUs - activityUs > StallTimeoutUs s
         then DropHead DropTimeout
      else if \<not> pe_idr f \<and> newer_complete rest \<ge> 2 then DropHead DropOvertaken
      else Wait)"

function ra_PopReady :: "Reassembler \<Rightarrow> u64 \<Rightarrow> (Reassembler \<times> ReassemblerFrame option) checked" where
  "ra_PopReady s nowUs =
     (case ra_pending s of
        [] \<Rightarrow> Some (s, None)
      | (fid, f) # rest \<Rightarrow>
          (case head_fate s f rest nowUs of
             Deliver \<Rightarrow> (let (s', out) = pop_head s fid f in Some (s', Some out))
           | DropHead reason \<Rightarrow>
               (case ra_Drop s fid f reason nowUs of
                  None \<Rightarrow> None
                | Some s' \<Rightarrow> ra_PopReady s' nowUs)
           | Wait \<Rightarrow> Some (s, None)))"
  by pat_completeness auto
termination ra_PopReady
  by (relation "measure (\<lambda>(s, _). length (ra_pending s))")
    (auto simp: ra_Drop_fields(1) om_erase_begin_shorter)

declare ra_PopReady.simps [simp del]

section \<open>Asking for retransmission\<close>

text \<open>The scan for missing indices, at most \<open>cap\<close> of them (\<open>out.size()\<close>).\<close>

fun nack_scan :: "bytes list \<Rightarrow> nat list \<Rightarrow> nat \<Rightarrow> u16 list checked" where
  "nack_scan pieces [] cap = Some []"
| "nack_scan pieces (i # is) 0 = Some []"
| "nack_scan pieces (i # is) (Suc cap) = do {
     p \<leftarrow> vec_at pieces i;
     if p = [] then do { rest \<leftarrow> nack_scan pieces is cap; Some (of_nat i # rest) }
     else nack_scan pieces is (Suc cap)
   }"

text \<open>The loop over the pending frames: the frame chosen and its missing indices, if any.\<close>

fun plan_nack :: "Reassembler \<Rightarrow> u64 \<Rightarrow> u64 \<Rightarrow> nat \<Rightarrow> (u32 \<times> Pending) list
    \<Rightarrow> (u32 \<times> Pending \<times> u16 list) option checked" where
  "plan_nack s nowUs rttUs cap [] = nullopt"
| "plan_nack s nowUs rttUs cap ((fid, f) # rest) =
     (if Complete f then plan_nack s nowUs rttUs cap rest
      else if nowUs - pe_firstSeenUs f \<ge> HardTimeoutUs s then plan_nack s nowUs rttUs cap rest
      else if nowUs - pe_firstSeenUs f < kNackHoldUs then nullopt
      else let interval = (if rttUs > kNackMinIntervalUs then rttUs else kNackMinIntervalUs)
      in if pe_lastNackUs f \<noteq> 0 \<and> nowUs - pe_lastNackUs f < interval then nullopt
      else let tailStalled = (nowUs - pe_lastPushUs f \<ge> ra_frameIntervalUs s);
               scanLimit = (if tailStalled then pe_pktCount f else pe_maxIndexSeen f)
      in do {
        out \<leftarrow> nack_scan (pe_pieces f) [0..<unat scanLimit] cap;
        if out = [] then nullopt
        else some_opt (fid, f\<lparr>pe_lastNackUs := nowUs\<rparr>, out)
      })"

text \<open>\<open>PlanNack\<close>: \<open>frameId\<close> is an in-out argument, the indices are what is written to \<open>out\<close>.\<close>

definition ra_PlanNack :: "Reassembler \<Rightarrow> u64 \<Rightarrow> u64 \<Rightarrow> u32 \<Rightarrow> nat \<Rightarrow> (Reassembler \<times> u32 \<times> u16 list) checked" where
  "ra_PlanNack s nowUs rttUs frameId cap =
     (if cap = 0 then Some (s, frameId, [])
      else do {
        found \<leftarrow> plan_nack s nowUs rttUs cap (ra_pending s);
        case found of
          None \<Rightarrow> Some (s, frameId, [])
        | Some (fid, f, out) \<Rightarrow> Some (s\<lparr>ra_pending := om_put fid f (ra_pending s)\<rparr>, fid, out)
      })"

end
