(* ===== verification/Component.thy ===== *)
theory Component
  imports Prelude
begin

text \<open>
  The interface all stateful components share: an operation takes a state to a result and a next
  state, or to \<open>None\<close> where the code would leave a buffer. A component keeps its invariant
  and never gets stuck on the operations its caller may issue; what holds of every single step
  then holds along every run, which is what the properties of the components state.
\<close>

fun run_ops :: "('s \<Rightarrow> 'op \<Rightarrow> ('s \<times> 'out) checked) \<Rightarrow> 's \<Rightarrow> 'op list \<Rightarrow> ('s \<times> 'out list) checked" where
  "run_ops step s [] = Some (s, [])"
| "run_ops step s (x # xs) = do {
     (s1, r) \<leftarrow> step s x;
     (s2, rs) \<leftarrow> run_ops step s1 xs;
     Some (s2, r # rs)
   }"

lemma run_ops_append:
  "run_ops step s (xs @ ys) = do {
     (s1, rs) \<leftarrow> run_ops step s xs;
     (s2, qs) \<leftarrow> run_ops step s1 ys;
     Some (s2, rs @ qs)
   }"
  by (induction xs arbitrary: s) (auto split: Option.bind_split)

locale component =
  fixes step :: "'s \<Rightarrow> 'op \<Rightarrow> ('s \<times> 'out) checked"
    and inv :: "'s \<Rightarrow> bool"
    and legal :: "'op \<Rightarrow> bool"
    and output_ok :: "'op \<Rightarrow> 'out \<Rightarrow> bool"
  assumes keeps: "inv s \<Longrightarrow> legal x \<Longrightarrow> \<exists>s' r. step s x = Some (s', r) \<and> inv s' \<and> output_ok x r"
begin

lemma run_safe:
  assumes "inv s" "\<forall>x\<in>set xs. legal x"
  shows "\<exists>s' rs. run_ops step s xs = Some (s', rs) \<and> inv s' \<and> list_all2 output_ok xs rs"
  using assms
proof (induction xs arbitrary: s)
  case (Cons x xs)
  obtain s1 r where s1: "step s x = Some (s1, r)" "inv s1" "output_ok x r"
    using keeps Cons.prems by (metis list.set_intros(1))
  obtain s2 rs where "run_ops step s1 xs = Some (s2, rs)" "inv s2" "list_all2 output_ok xs rs"
    using Cons.IH [of s1] s1 Cons.prems by auto
  with s1 show ?case by auto
qed simp

lemma run_inv:
  assumes "inv s" "\<forall>x\<in>set xs. legal x" "run_ops step s xs = Some (s', rs)"
  shows "inv s'" "list_all2 output_ok xs rs"
  using run_safe [OF assms(1,2)] assms(3) by auto

end

end
