(* ===== verification/ReassemblerInv.thy ===== *)
theory ReassemblerInv
  imports Reassembler Component
begin

text \<open>
  The invariant of the reassembler and its preservation by every operation, parameterised over
  what is known of one pending frame: the locale \<open>entry_law\<close> collects what a predicate on
  entries has to survive, and everything about the buffer as a whole is proved once inside it.
\<close>

section \<open>The invariant\<close>

definition pending_ok :: "Pending \<Rightarrow> bool" where
  "pending_ok f \<longleftrightarrow>
     length (pe_pieces f) = unat (pe_pktCount f)
   \<and> pe_maxIndexSeen f \<le> pe_pktCount f
   \<and> unat (pe_received f) = length (filter (\<lambda>p. p \<noteq> []) (pe_pieces f))
   \<and> (\<forall>g p. pe_parity f g = Some p \<longrightarrow> kFecLenPrefix \<le> length p)"

definition ra_inv :: "(u32 \<Rightarrow> Pending \<Rightarrow> bool) \<Rightarrow> Reassembler \<Rightarrow> bool" where
  "ra_inv Q s \<longleftrightarrow>
     om_wf (ra_pending s) \<and> length (ra_pending s) \<le> kMaxPendingFrames
   \<and> (\<forall>(fid, f)\<in>set (ra_pending s). pending_ok f \<and> Q fid f)
   \<and> length (ra_graveyard s) = kGraveyardSize \<and> ra_graveNext s < kGraveyardSize
   \<and> length (st_lossRuns (ra_stats s)) = 7"

lemma ra_inv_init: "ra_inv Q (ra_init us)"
  by (simp add: ra_inv_def ra_init_def stats_zero_def kconsts)

lemma ra_inv_found: "ra_inv Q s \<Longrightarrow> map_of (ra_pending s) fid = Some f \<Longrightarrow> pending_ok f \<and> Q fid f"
  by (auto simp: ra_inv_def om_find_set)

lemma pending_ok_new: "pending_ok (pending_new n ts now)"
  by (simp add: pending_ok_def pending_new_def)

lemma pending_ok_times [simp]:
  "pending_ok (f\<lparr>pe_lastPushUs := t\<rparr>) = pending_ok f"
  "pending_ok (f\<lparr>pe_lastNackUs := t\<rparr>) = pending_ok f"
  "pending_ok (f\<lparr>pe_idr := b\<rparr>) = pending_ok f"
  by (simp_all add: pending_ok_def)

lemma pending_ok_index: "pending_ok f \<Longrightarrow> i < pe_pktCount f \<Longrightarrow> pending_ok (f\<lparr>pe_maxIndexSeen := i\<rparr>)"
  by (simp add: pending_ok_def)

lemma pending_ok_parity:
  "pending_ok f \<Longrightarrow> kFecLenPrefix \<le> length p \<Longrightarrow> pending_ok (f\<lparr>pe_parity := (pe_parity f)(g \<mapsto> p)\<rparr>)"
  by (simp add: pending_ok_def)

lemma filter_fill:
  assumes "i < length xs" "\<not> P (xs ! i)" "P y"
  shows "length (filter P (xs[i := y])) = Suc (length (filter P xs))"
  using assms by (subst (2) id_take_nth_drop [of i xs]) (auto simp: upd_conv_take_nth_drop)

text \<open>Filling an empty slot: the packet count stays below its width.\<close>

lemma pending_ok_fill:
  assumes "pending_ok f" "i < unat (pe_pktCount f)" "pe_pieces f ! i = []" "p \<noteq> []"
  shows "pending_ok (f\<lparr>pe_pieces := (pe_pieces f)[i := p], pe_received := pe_received f + 1\<rparr>)"
proof -
  have len: "length (pe_pieces f) = unat (pe_pktCount f)"
    and rec: "unat (pe_received f) = length (filter (\<lambda>p. p \<noteq> []) (pe_pieces f))"
    using assms(1) by (simp_all add: pending_ok_def)
  have "pe_pieces f ! i \<in> set (pe_pieces f)" using assms(2) len by simp
  then have "unat (pe_received f) < unat (pe_pktCount f)"
    using rec len assms(3) length_filter_less [of "pe_pieces f ! i" "pe_pieces f" "\<lambda>p. p \<noteq> []"] by simp
  then have "unat (pe_received f + 1) = Suc (unat (pe_received f))"
    using unsigned_less [of "pe_pktCount f", where 'a = nat] by (simp add: unat_word_ariths)
  then show ?thesis
    using assms len rec by (simp add: pending_ok_def filter_fill)
qed

section \<open>Drop, evict and Slot\<close>

lemma loss_bucket_le: "loss_bucket run \<le> 6"
  by (auto simp: loss_bucket_def)

lemma loss_scan_total:
  assumes "length (pe_pieces f) = unat (pe_pktCount f)" "length (st_lossRuns st) = 7"
  shows "\<exists>info' st'. loss_scan f is info run any st = Some (info', st') \<and> length (st_lossRuns st') = 7"
  using assms
proof (induction f "is" info run any st rule: loss_scan.induct)
  case (2 f i "is" info run anyMissing st)
  have b: "vec_at (st_lossRuns st) (loss_bucket run) = Some (st_lossRuns st ! loss_bucket run)"
    using loss_bucket_le [of run] 2(5) by (simp add: in_range)
  have gone: "(if i < unat (pe_pktCount f) then do { p \<leftarrow> vec_at (pe_pieces f) i; Some (p = []) }
       else Some False) = Some (i < unat (pe_pktCount f) \<and> pe_pieces f ! i = [])"
    using 2(4) by (simp add: in_range)
  show ?case
    unfolding loss_scan.simps gone Option.bind.simps
    using 2(1) [OF gone] 2(2) [OF gone _ _ b] 2(3) [OF gone] 2(4,5)
    by (simp add: b)
qed simp

lemma ra_Drop_inv:
  assumes inv: "ra_inv Q s" and f: "(fid, f) \<in> set (ra_pending s)"
  shows "\<exists>s'. ra_Drop s fid f reason nowUs = Some s' \<and> ra_inv Q s'"
proof -
  have len: "length (pe_pieces f) = unat (pe_pktCount f)"
    using inv f by (auto simp: ra_inv_def pending_ok_def)
  have tot: "\<exists>info' st'. loss_scan f is info run any st = Some (info', st') \<and> length (st_lossRuns st') = 7"
    if "length (st_lossRuns st) = 7" for "is" info run any st
    using loss_scan_total [OF len that] .
  obtain s' where s': "ra_Drop s fid f reason nowUs = Some s'"
    and runs: "length (st_lossRuns (ra_stats s')) = 7"
  proof (cases "reason = DropPreIdr")
    case True
    then show ?thesis using that inv by (simp add: ra_Drop_def Let_def ra_inv_def)
  next
    case False
    obtain info' st' where "loss_scan f [0..<unat (pe_pktCount f) + 1]
        \<lparr>fdi_frameId = fid, fdi_reason = reason, fdi_missing = 0, fdi_total = pe_pktCount f,
           fdi_firstMissing = 0, fdi_lastMissing = 0, fdi_idr = pe_idr f,
           fdi_waitedMs = ucast ((nowUs - pe_firstSeenUs f) div 1000), fdi_bytesGot = of_nat (pe_bytes f)\<rparr>
        0 False ((ra_stats s)\<lparr>st_framesDropped := st_framesDropped (ra_stats s) + 1,
           st_packetsLost := st_packetsLost (ra_stats s) + (ucast (pe_pktCount f) - ucast (pe_received f))\<rparr>)
        = Some (info', st')" "length (st_lossRuns st') = 7"
      using tot [of "(ra_stats s)\<lparr>st_framesDropped := st_framesDropped (ra_stats s) + 1,
           st_packetsLost := st_packetsLost (ra_stats s) + (ucast (pe_pktCount f) - ucast (pe_received f))\<rparr>"] inv
      by (fastforce simp: ra_inv_def)
    then show ?thesis
      using that inv False by (simp add: ra_Drop_def Let_def ra_inv_def in_range)
  qed
  moreover have "ra_inv Q s'"
    using inv runs ra_Drop_fields [OF s'] om_length_erase [of fid "ra_pending s"]
    by (auto simp: ra_inv_def)
  ultimately show ?thesis by blast
qed

lemma evict_inv:
  assumes "ra_inv Q s"
  shows "\<exists>s'. evict s nowUs = Some s' \<and> ra_inv Q s' \<and> length (ra_pending s') < kMaxPendingFrames
           \<and> set (ra_pending s') \<subseteq> set (ra_pending s)
           \<and> (ra_haveBarrier s \<longrightarrow> ra_haveBarrier s' \<and> ra_barrierId s \<le> ra_barrierId s')"
  using assms
proof (induction s nowUs rule: evict.induct)
  case (1 s nowUs)
  show ?case
  proof (cases "kMaxPendingFrames \<le> length (ra_pending s)")
    case True
    then obtain fid f rest where p: "ra_pending s = (fid, f) # rest"
      by (cases "ra_pending s") (auto simp: kconsts)
    obtain s1 where s1: "ra_Drop s fid f DropEvicted nowUs = Some s1" "ra_inv Q s1"
      using ra_Drop_inv [OF 1(2), of fid f DropEvicted nowUs] p by auto
    obtain s' where "evict s1 nowUs = Some s'" "ra_inv Q s'" "length (ra_pending s') < kMaxPendingFrames"
      "set (ra_pending s') \<subseteq> set (ra_pending s1)"
      "ra_haveBarrier s1 \<longrightarrow> ra_haveBarrier s' \<and> ra_barrierId s1 \<le> ra_barrierId s'"
      using 1(1) [OF True p refl s1] by blast
    then show ?thesis
      using True p s1 ra_Drop_fields(1,2,3) [OF s1(1)]
      by (subst evict.simps) (auto split: if_splits)
  next
    case False
    then show ?thesis using 1 by (subst evict.simps) auto
  qed
qed

text \<open>What \<open>Slot\<close> gives: no entry, or the frame's entry (old or new) with its push time set.\<close>

lemma ra_Slot_inv:
  assumes inv: "ra_inv Q s"
    and new: "Q fid (pending_new n ts nowUs)"
    and time: "\<And>f. Q fid f \<Longrightarrow> Q fid (f\<lparr>pe_lastPushUs := nowUs\<rparr>)"
  shows "\<exists>s' r. ra_Slot s fid n ts nowUs = Some (s', r) \<and> ra_inv Q s'
     \<and> (\<forall>f. r = Some f \<longrightarrow> map_of (ra_pending s') fid = Some f \<and> pe_pktCount f = n)"
proof (cases "ra_haveBarrier s \<and> fid \<le> ra_barrierId s")
  case False
  have store: "ra_inv Q (s1\<lparr>ra_pending := om_put fid (f\<lparr>pe_lastPushUs := nowUs\<rparr>) (ra_pending s1)\<rparr>)"
    if "ra_inv Q s1" "map_of (ra_pending s1) fid = Some f" for s1 f
    using that time
    by (auto simp: ra_inv_def om_set_put om_length_put om_find_set image_iff)
  show ?thesis
  proof (cases "map_of (ra_pending s) fid")
    case None
    obtain s1 where s1: "evict s nowUs = Some s1" "ra_inv Q s1" "length (ra_pending s1) < kMaxPendingFrames"
      using evict_inv [OF inv] by blast
    let ?s2 = "s1\<lparr>ra_pending := om_put fid (pending_new n ts nowUs) (ra_pending s1)\<rparr>"
    have s2: "ra_inv Q ?s2" "map_of (ra_pending ?s2) fid = Some (pending_new n ts nowUs)"
      using s1 new pending_ok_new by (auto simp: ra_inv_def om_set_put om_length_put)
    from store [OF s2] show ?thesis
      unfolding ra_Slot_def if_not_P [OF False]
      using None s1 by (simp add: pending_new_def Let_def)
  next
    case (Some f)
    from store [OF inv Some] show ?thesis
      unfolding ra_Slot_def if_not_P [OF False]
      using Some inv by (simp add: Let_def)
  qed
qed (use inv in \<open>simp add: ra_Slot_def\<close>)

section \<open>Recovery keeps an entry well formed\<close>

lemma set_stride_indices: "set (stride_indices i G n) \<subseteq> {i..<n}"
  by (induction i G n rule: stride_indices.induct)
    (subst stride_indices.simps, force)

lemma count_missing_total:
  assumes "\<forall>i\<in>set is. i < length pieces" "m \<noteq> 0 \<Longrightarrow> pieces ! idx = [] \<and> idx < length pieces"
  shows "\<exists>m' idx'. count_missing pieces is m idx = Some (m', idx')
     \<and> (m' \<noteq> 0 \<longrightarrow> pieces ! idx' = [] \<and> idx' < length pieces)"
  using assms
  by (induction pieces "is" m idx rule: count_missing.induct) (auto simp: in_range)

lemma mix_present_total:
  assumes "\<forall>i\<in>set is. i < length pieces"
  shows "\<exists>x. mix_present pieces is j r = Some x \<and> (\<forall>r'. x = Some r' \<longrightarrow> length r' = length r)"
  using assms
  by (induction pieces "is" j r rule: mix_present.induct) (auto simp: in_range)

lemma TryRecover_inv:
  assumes ok: "pending_ok f" and runs: "length (st_lossRuns st) = 7"
  shows "\<exists>st' f' b. TryRecover st f g = Some (st', f', b) \<and> pending_ok f' \<and> length (st_lossRuns st') = 7
           \<and> pe_pktCount f' = pe_pktCount f"
proof -
  let ?n = "unat (pe_pktCount f)"
  let ?G = "(?n + kFecGroupSize - 1) div kFecGroupSize"
  let ?is = "stride_indices (unat g) ?G ?n"
  have len: "length (pe_pieces f) = ?n" using ok by (simp add: pending_ok_def)
  have idx: "\<forall>i\<in>set ?is. i < length (pe_pieces f)"
    using set_stride_indices [of "unat g" ?G ?n] len by auto
  show ?thesis
  proof (cases "pe_parity f g")
    case (Some par)
    then have par: "2 \<le> length par" using ok by (auto simp: pending_ok_def kconsts)
    obtain m j where cm: "count_missing (pe_pieces f) ?is 0 0 = Some (m, j)"
      and j: "m \<noteq> 0 \<longrightarrow> pe_pieces f ! j = [] \<and> j < length (pe_pieces f)"
      using count_missing_total [OF idx, of 0 0] by auto
    obtain x where mix: "mix_present (pe_pieces f) ?is j par = Some x"
      and x: "\<forall>r'. x = Some r' \<longrightarrow> length r' = length par"
      using mix_present_total [OF idx] by blast
    note fill = pending_ok_fill [OF ok, of j]
    have fill': "pending_ok (f\<lparr>pe_pieces := (pe_pieces f)[j := take l (drop 2 r)], pe_bytes := b, pe_received := pe_received f + 1\<rparr>)"
      if "m \<noteq> 0" "l \<noteq> 0" "2 + l \<le> length r" for l r b
      using fill [of "take l (drop 2 r)"] j that len by (auto simp: pending_ok_def)
    have rd: "rd8 r 0 = Some (r ! 0)" "rd8 r 1 = Some (r ! 1)" if "x = Some r" for r
      using x par that by (auto intro!: rd8_in)
    show ?thesis
    proof (cases "?G = 0 \<or> ?G \<le> unat g \<or> m \<noteq> 1 \<or> x = None")
      case True
      then show ?thesis using Some cm mix runs ok by (auto simp: TryRecover_def Let_def)
    next
      case False
      then obtain r where r: "x = Some r" by auto
      show ?thesis
        using False Some cm mix runs ok j len r rd [OF r] fill' [of _ r]
        by (simp add: TryRecover_def Let_def rdn_in vec_at_in kFecLenPrefix_def ex_bool_eq del: One_nat_def)
    qed
  qed (use assms in \<open>simp add: TryRecover_def ex_bool_eq\<close>)
qed

section \<open>The operations as one interface\<close>

datatype ReassemblerOp =
  RPush VideoPacketView u64
| RPushFec FecPacketView u64
| RPopReady u64
| RPlanNack u64 u64 u32 nat
| RTakeLossEvent
| RTakeMaxGapMs
| RSetFps u32
| RSetRttUs u64

datatype ReassemblerOut =
  RNothing
| RFrame "ReassemblerFrame option"
| RNack u32 "u16 list"
| RLoss bool
| RGap u32

fun ra_step :: "Reassembler \<Rightarrow> ReassemblerOp \<Rightarrow> (Reassembler \<times> ReassemblerOut) checked" where
  "ra_step s (RPush v now) = do { s' \<leftarrow> ra_Push s v now; Some (s', RNothing) }"
| "ra_step s (RPushFec v now) = do { s' \<leftarrow> ra_PushFec s v now; Some (s', RNothing) }"
| "ra_step s (RPopReady now) = do { (s', out) \<leftarrow> ra_PopReady s now; Some (s', RFrame out) }"
| "ra_step s (RPlanNack now rtt fid cap) =
     do { (s', fid', out) \<leftarrow> ra_PlanNack s now rtt fid cap; Some (s', RNack fid' out) }"
| "ra_step s RTakeLossEvent = (let (s', e) = ra_TakeLossEvent s in Some (s', RLoss e))"
| "ra_step s RTakeMaxGapMs = (let (s', g) = ra_TakeMaxGapMs s in Some (s', RGap g))"
| "ra_step s (RSetFps fps) = Some (ra_SetFps s fps, RNothing)"
| "ra_step s (RSetRttUs rtt) = Some (ra_SetRttUs s rtt, RNothing)"

text \<open>The frame \<open>pop_head\<close> makes of a complete entry.\<close>

definition frame_of :: "u32 \<Rightarrow> Pending \<Rightarrow> ReassemblerFrame" where
  "frame_of fid f =
     \<lparr>fr_frameId = fid, fr_timestampUs = pe_timestampUs f, fr_idr = pe_idr f,
      fr_firstSeenUs = pe_firstSeenUs f, fr_nal = concat (pe_pieces f)\<rparr>"

fun ra_legal :: "(VideoPacketView \<Rightarrow> bool) \<Rightarrow> (FecPacketView \<Rightarrow> bool) \<Rightarrow> ReassemblerOp \<Rightarrow> bool" where
  "ra_legal okv okf (RPush v now) = okv v"
| "ra_legal okv okf (RPushFec w now) = okf w"
| "ra_legal okv okf _ = True"

fun ra_out_ok :: "(u32 \<Rightarrow> Pending \<Rightarrow> bool) \<Rightarrow> ReassemblerOp \<Rightarrow> ReassemblerOut \<Rightarrow> bool" where
  "ra_out_ok Q x (RFrame (Some fr)) \<longleftrightarrow> (\<exists>fid f. fr = frame_of fid f \<and> Complete f \<and> pending_ok f \<and> Q fid f)"
| "ra_out_ok Q x _ \<longleftrightarrow> True"

lemma ra_inv_fields [simp]:
  "ra_inv Q (s\<lparr>ra_lastPushUs := t\<rparr>) = ra_inv Q s"
  "ra_inv Q (s\<lparr>ra_maxGapMs := g\<rparr>) = ra_inv Q s"
  "ra_inv Q (s\<lparr>ra_rttUs := t\<rparr>) = ra_inv Q s"
  "ra_inv Q (s\<lparr>ra_frameIntervalUs := t\<rparr>) = ra_inv Q s"
  "ra_inv Q (s\<lparr>ra_lossEvent := e\<rparr>) = ra_inv Q s"
  "ra_inv Q (s\<lparr>ra_waitingForIdr := e\<rparr>) = ra_inv Q s"
  "ra_inv Q (s\<lparr>ra_haveBarrier := e\<rparr>) = ra_inv Q s"
  "ra_inv Q (s\<lparr>ra_barrierId := i\<rparr>) = ra_inv Q s"
  "st_lossRuns st = st_lossRuns (ra_stats s) \<Longrightarrow> ra_inv Q (s\<lparr>ra_stats := st\<rparr>) = ra_inv Q s"
  by (simp_all add: ra_inv_def)

lemma late_scan_runs [simp]: "st_lossRuns (late_scan gs fid now st) = st_lossRuns st"
  by (induction gs fid now st rule: late_scan.induct) (auto simp: Let_def)

lemma ra_arrival_inv [simp]: "ra_inv Q (ra_arrival s now) = ra_inv Q s"
  by (simp add: ra_arrival_def Let_def)

lemma NoteLatePacket_inv [simp]: "ra_inv Q (NoteLatePacket s fid now) = ra_inv Q s"
  by (simp add: NoteLatePacket_def)

text \<open>
  A predicate on entries that survives all the code does to one entry, for the packets the
  caller may push.
\<close>

locale entry_law =
  fixes Q :: "u32 \<Rightarrow> Pending \<Rightarrow> bool"
    and ok_video :: "VideoPacketView \<Rightarrow> bool"
    and ok_fec :: "FecPacketView \<Rightarrow> bool"
  assumes pushed: "Q fid f \<Longrightarrow> Q fid (f\<lparr>pe_lastPushUs := t\<rparr>)"
    and nacked: "Q fid f \<Longrightarrow> Q fid (f\<lparr>pe_lastNackUs := t\<rparr>)"
    and indexed: "Q fid f \<Longrightarrow> Q fid (f\<lparr>pe_maxIndexSeen := i\<rparr>)"
    and fresh_video: "ok_video v \<Longrightarrow>
      Q (vh_frameId (vp_hdr v)) (pending_new (vh_pktCount (vp_hdr v)) (vh_timestampUs (vp_hdr v)) now)"
    and fresh_fec: "ok_fec w \<Longrightarrow>
      Q (fh_frameId (fp_hdr w)) (pending_new (fh_pktCount (fp_hdr w)) (fh_timestampUs (fp_hdr w)) now)"
    and stored: "ok_video v \<Longrightarrow> pending_ok f \<Longrightarrow> Q (vh_frameId (vp_hdr v)) f \<Longrightarrow>
      pe_pktCount f = vh_pktCount (vp_hdr v) \<Longrightarrow> vh_pktIndex (vp_hdr v) < pe_pktCount f \<Longrightarrow>
      pe_pieces f ! unat (vh_pktIndex (vp_hdr v)) = [] \<Longrightarrow>
      Q (vh_frameId (vp_hdr v))
        (f\<lparr>pe_pieces := (pe_pieces f)[unat (vh_pktIndex (vp_hdr v)) := vp_payload v],
           pe_bytes := pe_bytes f + length (vp_payload v),
           pe_idr := (pe_idr f \<or> vp_idr v),
           pe_received := pe_received f + 1\<rparr>)"
    and flagged: "ok_fec w \<Longrightarrow> Q (fh_frameId (fp_hdr w)) f \<Longrightarrow> pe_pktCount f = fh_pktCount (fp_hdr w) \<Longrightarrow>
      Q (fh_frameId (fp_hdr w)) (f\<lparr>pe_idr := (pe_idr f \<or> fp_idr w)\<rparr>)"
    and protected: "ok_fec w \<Longrightarrow> Q (fh_frameId (fp_hdr w)) f \<Longrightarrow> pe_pktCount f = fh_pktCount (fp_hdr w) \<Longrightarrow>
      (fp_idr w \<longrightarrow> pe_idr f) \<Longrightarrow>
      Q (fh_frameId (fp_hdr w))
        (f\<lparr>pe_parity := (pe_parity f)(fh_groupIndex (fp_hdr w) \<mapsto> fp_parity w)\<rparr>)"
    and recovered: "pending_ok f \<Longrightarrow> Q fid f \<Longrightarrow> TryRecover st f g = Some (st', f', b) \<Longrightarrow> Q fid f'"
begin

lemma store:
  assumes "ra_inv Q s" "map_of (ra_pending s) fid \<noteq> None" "pending_ok f" "Q fid f"
  shows "ra_inv Q (s\<lparr>ra_pending := om_put fid f (ra_pending s)\<rparr>)"
  using assms by (auto simp: ra_inv_def om_set_put om_length_put om_find_set image_iff)

lemma recover_kept:
  assumes "ra_inv Q s" "map_of (ra_pending s) fid \<noteq> None" "pending_ok f" "Q fid f"
  shows "\<exists>s'. recover_and_store s fid f g = Some s' \<and> ra_inv Q s'"
proof -
  obtain st' f' b where r: "TryRecover (ra_stats s) f g = Some (st', f', b)" "pending_ok f'"
    "length (st_lossRuns st') = 7"
    using TryRecover_inv [OF assms(3), of "ra_stats s" g] assms(1) by (auto simp: ra_inv_def)
  have "ra_inv Q (s\<lparr>ra_pending := om_put fid f' (ra_pending s)\<rparr>)"
    using store [OF assms(1,2) r(2)] recovered [OF assms(3,4) r(1)] by blast
  then show ?thesis using r by (simp add: recover_and_store_def ra_inv_def)
qed

lemma accept_kept:
  assumes inv: "ra_inv Q s" and v: "ok_video v" "vp_payload v \<noteq> []"
    and f: "map_of (ra_pending s) (vh_frameId (vp_hdr v)) = Some f" "pe_pktCount f = vh_pktCount (vp_hdr v)"
  shows "\<exists>s'. ra_accept s (vh_frameId (vp_hdr v)) f v = Some s' \<and> ra_inv Q s'"
proof (cases "vh_pktIndex (vp_hdr v) < pe_pktCount f")
  case True
  let ?i = "unat (vh_pktIndex (vp_hdr v))"
  let ?fid = "vh_frameId (vp_hdr v)"
  define f1 where "f1 = (if vh_pktIndex (vp_hdr v) > pe_maxIndexSeen f
                         then f\<lparr>pe_maxIndexSeen := vh_pktIndex (vp_hdr v)\<rparr> else f)"
  have found: "map_of (ra_pending s) ?fid \<noteq> None" using f by simp
  have f1: "pending_ok f1" "Q ?fid f1" "pe_pktCount f1 = vh_pktCount (vp_hdr v)" "vh_pktIndex (vp_hdr v) < pe_pktCount f1"
    using ra_inv_found [OF inv f(1)] f True indexed by (auto simp: f1_def intro: pending_ok_index)
  have i: "?i < length (pe_pieces f1)" and i': "?i < unat (pe_pktCount f1)"
    using f1 by (auto simp: pending_ok_def word_less_nat_alt)
  note kept = store [OF inv found f1(1,2)]
  define f2 where "f2 = f1\<lparr>pe_pieces := (pe_pieces f1)[?i := vp_payload v],
                           pe_bytes := pe_bytes f1 + length (vp_payload v),
                           pe_idr := (pe_idr f1 \<or> vp_idr v),
                           pe_received := pe_received f1 + 1\<rparr>"
  have acc: "ra_accept s ?fid f v = (if pe_pieces f1 ! ?i \<noteq> [] then Some (s\<lparr>ra_pending := om_put ?fid f1 (ra_pending s)\<rparr>)
        else if (unat (pe_pktCount f2) + kFecGroupSize - 1) div kFecGroupSize \<noteq> 0
        then recover_and_store s ?fid f2 (of_nat (?i mod ((unat (pe_pktCount f2) + kFecGroupSize - 1) div kFecGroupSize)))
        else Some (s\<lparr>ra_pending := om_put ?fid f2 (ra_pending s)\<rparr>))"
    using True vec_at_in [OF i] unfolding ra_accept_def f2_def f1_def [symmetric] Let_def by simp
  show ?thesis
  proof (cases "pe_pieces f1 ! ?i = []")
    case True
    have "pending_ok f2" "Q ?fid f2"
      using pending_ok_fill [OF f1(1) i' True v(2)] stored [OF v(1) f1 True]
      by (auto simp: f2_def pending_ok_def)
    then show ?thesis
      unfolding acc using True recover_kept [OF inv found] store [OF inv found] by auto
  qed (simp add: acc kept)
qed (use inv in \<open>simp add: ra_accept_def not_less\<close>)

lemma Push_kept:
  assumes inv: "ra_inv Q s" and v: "ok_video v"
  shows "\<exists>s'. ra_Push s v now = Some s' \<and> ra_inv Q s'"
proof (cases "vp_payload v = []")
  case False
  let ?h = "vp_hdr v"
  let ?s1 = "ra_arrival s now"
  define s2 where "s2 = (if ra_haveBarrier ?s1 \<and> vh_frameId ?h \<le> ra_barrierId ?s1 then NoteLatePacket ?s1 (vh_frameId ?h) now else ?s1)"
  have "ra_inv Q s2" using inv by (simp add: s2_def)
  then obtain s3 r where s3: "ra_Slot s2 (vh_frameId ?h) (vh_pktCount ?h) (vh_timestampUs ?h) now = Some (s3, r)" "ra_inv Q s3"
    and r: "\<forall>f. r = Some f \<longrightarrow> map_of (ra_pending s3) (vh_frameId ?h) = Some f \<and> pe_pktCount f = vh_pktCount ?h"
    using ra_Slot_inv [of Q s2 "vh_frameId ?h"] fresh_video [OF v] pushed by blast
  then show ?thesis
    using accept_kept [OF s3(2) v False] False
    unfolding ra_Push_def s2_def [symmetric] Let_def by (cases r) auto
qed (use inv in \<open>simp add: ra_Push_def\<close>)

lemma accept_fec_kept:
  assumes inv: "ra_inv Q s" and w: "ok_fec w" "kFecLenPrefix \<le> length (fp_parity w)"
    and f: "map_of (ra_pending s) (fh_frameId (fp_hdr w)) = Some f" "pe_pktCount f = fh_pktCount (fp_hdr w)"
  shows "\<exists>s'. ra_accept_fec s (fh_frameId (fp_hdr w)) f w = Some s' \<and> ra_inv Q s'"
proof -
  let ?fid = "fh_frameId (fp_hdr w)"
  let ?f1 = "f\<lparr>pe_idr := (pe_idr f \<or> fp_idr w)\<rparr>"
  let ?f2 = "?f1\<lparr>pe_parity := (pe_parity ?f1)(fh_groupIndex (fp_hdr w) \<mapsto> fp_parity w)\<rparr>"
  have found: "map_of (ra_pending s) ?fid \<noteq> None" using f by simp
  have f1: "pending_ok ?f1" "Q ?fid ?f1" "pe_pktCount ?f1 = fh_pktCount (fp_hdr w)"
    using ra_inv_found [OF inv f(1)] f flagged [OF w(1)] by auto
  have "pending_ok ?f2" "Q ?fid ?f2"
    using pending_ok_parity [OF f1(1) w(2)] protected [OF w(1) f1(2,3)] by auto
  from recover_kept [OF inv found this] store [OF inv found f1(1,2)]
  show ?thesis by (simp add: ra_accept_fec_def Let_def del: fun_upd_apply)
qed

lemma PushFec_kept:
  assumes inv: "ra_inv Q s" and w: "ok_fec w"
  shows "\<exists>s'. ra_PushFec s w now = Some s' \<and> ra_inv Q s'"
proof (cases "length (fp_parity w) < kFecLenPrefix")
  case False
  let ?h = "fp_hdr w"
  let ?s1 = "s\<lparr>ra_stats := (ra_stats s)\<lparr>st_fecReceived := st_fecReceived (ra_stats s) + 1\<rparr>\<rparr>"
  have "ra_inv Q ?s1" using inv by simp
  then obtain s3 r where s3: "ra_Slot ?s1 (fh_frameId ?h) (fh_pktCount ?h) (fh_timestampUs ?h) now = Some (s3, r)" "ra_inv Q s3"
    and r: "\<forall>f. r = Some f \<longrightarrow> map_of (ra_pending s3) (fh_frameId ?h) = Some f \<and> pe_pktCount f = fh_pktCount ?h"
    using ra_Slot_inv [of Q ?s1 "fh_frameId ?h"] fresh_fec [OF w] pushed by blast
  then show ?thesis
    using accept_fec_kept [OF s3(2) w] False unfolding ra_PushFec_def Let_def by (cases r) auto
qed (use inv in \<open>simp add: ra_PushFec_def\<close>)

lemma PopReady_kept:
  assumes "ra_inv Q s"
  shows "\<exists>s' out. ra_PopReady s now = Some (s', out) \<and> ra_inv Q s' \<and> ra_out_ok Q x (RFrame out)"
  using assms
proof (induction s now rule: ra_PopReady.induct)
  case (1 s now)
  show ?case
  proof (cases "ra_pending s")
    case Nil
    then show ?thesis using 1 by (subst ra_PopReady.simps) simp
  next
    case (Cons e rest)
    obtain fid f where e: "e = (fid, f)" by (cases e)
    have f: "pending_ok f" "Q fid f" "(fid, f) \<in> set (ra_pending s)"
      using 1(2) Cons e by (auto simp: ra_inv_def)
    show ?thesis
    proof (cases "head_fate s f rest now")
      case Deliver
      then have "Complete f" by (auto simp: head_fate_def Let_def split: if_splits)
      moreover have "ra_inv Q (fst (pop_head s fid f))"
        using 1(2) om_length_erase [of fid "ra_pending s"] by (auto simp: ra_inv_def pop_head_def)
      ultimately show ?thesis
        using Cons e Deliver f by (subst ra_PopReady.simps) (auto simp: pop_head_def frame_of_def)
    next
      case (DropHead reason)
      obtain s1 where s1: "ra_Drop s fid f reason now = Some s1" "ra_inv Q s1"
        using ra_Drop_inv [OF 1(2) f(3)] by blast
      then show ?thesis
        using 1(1) [OF Cons e [symmetric] DropHead s1] Cons e DropHead by (subst ra_PopReady.simps) simp
    next
      case Wait
      then show ?thesis using 1(2) Cons e by (subst ra_PopReady.simps) simp
    qed
  qed
qed

lemma nack_scan_total:
  "\<forall>i\<in>set is. i < length pieces \<Longrightarrow> \<exists>out. nack_scan pieces is cap = Some out"
  by (induction pieces "is" cap rule: nack_scan.induct) (auto simp: in_range)

lemma plan_nack_total:
  assumes "\<forall>(fid, f)\<in>set es. pending_ok f \<and> Q fid f"
  shows "\<exists>r. plan_nack s now rtt cap es = Some r
    \<and> (\<forall>fid f out. r = Some (fid, f, out) \<longrightarrow> fid \<in> fst ` set es \<and> pending_ok f \<and> Q fid f)"
  using assms
proof (induction s now rtt cap es rule: plan_nack.induct)
  case (2 s now rtt cap fid f rest)
  let ?lim = "if ra_frameIntervalUs s \<le> now - pe_lastPushUs f then pe_pktCount f else pe_maxIndexSeen f"
  have ok: "pending_ok f" "Q fid f" using 2 by auto
  then have "\<forall>i\<in>set [0..<unat ?lim]. i < length (pe_pieces f)"
    by (auto simp: pending_ok_def word_le_nat_alt)
  then obtain out where scan: "nack_scan (pe_pieces f) [0..<unat ?lim] cap = Some out"
    using nack_scan_total by blast
  show ?case
  proof (cases "Complete f \<or> now - pe_firstSeenUs f \<ge> HardTimeoutUs s")
    case True
    then have "plan_nack s now rtt cap ((fid, f) # rest) = plan_nack s now rtt cap rest" by auto
    moreover obtain r where "plan_nack s now rtt cap rest = Some r"
      "\<forall>fid f out. r = Some (fid, f, out) \<longrightarrow> fid \<in> fst ` set rest \<and> pending_ok f \<and> Q fid f"
      using True 2 by (cases "Complete f") auto
    ultimately show ?thesis by (auto simp del: plan_nack.simps)
  next
    case False
    then have "plan_nack s now rtt cap ((fid, f) # rest) \<in>
        {nullopt, some_opt (fid, f\<lparr>pe_lastNackUs := now\<rparr>, out)}"
      using scan by (simp add: Let_def split del: if_split) (simp split: if_split)
    then show ?thesis using ok nacked by (auto simp del: plan_nack.simps)
  qed
qed simp

lemma PlanNack_kept:
  assumes inv: "ra_inv Q s"
  shows "\<exists>s' r. ra_PlanNack s now rtt fid cap = Some (s', r) \<and> ra_inv Q s'"
proof -
  obtain r where r: "plan_nack s now rtt cap (ra_pending s) = Some r"
    and ok: "\<forall>fid f out. r = Some (fid, f, out) \<longrightarrow> fid \<in> fst ` set (ra_pending s) \<and> pending_ok f \<and> Q fid f"
    using plan_nack_total [of "ra_pending s" s now rtt cap] inv by (auto simp: ra_inv_def)
  show ?thesis
  proof (cases r)
    case (Some e)
    obtain fid' f out where e: "e = (fid', f, out)" by (cases e)
    have "map_of (ra_pending s) fid' \<noteq> None" using ok Some e by (auto simp: map_of_eq_None_iff)
    then show ?thesis
      using store [OF inv, of fid' f] r ok Some e by (simp add: ra_PlanNack_def inv)
  qed (use r inv in \<open>simp add: ra_PlanNack_def\<close>)
qed

lemma step_kept:
  assumes "ra_inv Q s" "ra_legal ok_video ok_fec x"
  shows "\<exists>s' r. ra_step s x = Some (s', r) \<and> ra_inv Q s' \<and> ra_out_ok Q x r"
proof (cases x)
  case (RPush v now)
  then show ?thesis using assms Push_kept [of s v now] by auto
next
  case (RPushFec w now)
  then show ?thesis using assms PushFec_kept [of s w now] by auto
next
  case (RPopReady now)
  then show ?thesis using PopReady_kept [OF assms(1), of now x] by auto
next
  case (RPlanNack now rtt fid cap)
  then show ?thesis using PlanNack_kept [OF assms(1), of now rtt fid cap] by auto
qed (use assms in \<open>auto simp: ra_TakeLossEvent_def ra_TakeMaxGapMs_def ra_SetFps_def ra_SetRttUs_def\<close>)

end

sublocale entry_law \<subseteq> ra: component ra_step "ra_inv Q" "ra_legal ok_video ok_fec" "ra_out_ok Q"
  by unfold_locales (rule step_kept)

section \<open>Any packets at all\<close>

text \<open>Nothing is assumed of the packets pushed: the buffer's own invariant is kept.\<close>

lemma ra_legal_any: "ra_legal (\<lambda>_. True) (\<lambda>_. True) x"
  by (cases x) simp_all

interpretation any_packet: entry_law "\<lambda>_ _. True" "\<lambda>_. True" "\<lambda>_. True"
  by unfold_locales simp_all

end
