(* ===== verification/VideoTransport.thy ===== *)
theory VideoTransport
  imports ReassemblerInv
begin

text \<open>
  Packetizer and reassembler together: whatever subset of the packets of the sent frames arrives,
  in whatever order and however often, what the reassembler hands out is what was sent. The core
  is that \<open>TryRecover\<close> restores exactly the one missing payload of a group.
\<close>

record SentFrame =
  sf_nal :: bytes
  sf_timestampUs :: u64
  sf_idr :: bool

text \<open>A packet of one of the frames sent (\<open>sent\<close> maps a frame id to its frame).\<close>

definition genuine_video :: "(u32 \<rightharpoonup> SentFrame) \<Rightarrow> VideoPacketView \<Rightarrow> bool" where
  "genuine_video sent v \<longleftrightarrow>
     (\<exists>fid fr i. sent fid = Some fr \<and> i < piece_count (sf_nal fr) \<and> piece_count (sf_nal fr) \<le> 0xFFFF
        \<and> v = video_view (sf_nal fr) fid (sf_timestampUs fr) (sf_idr fr) i)"

definition genuine_fec :: "(u32 \<rightharpoonup> SentFrame) \<Rightarrow> FecPacketView \<Rightarrow> bool" where
  "genuine_fec sent w \<longleftrightarrow>
     (\<exists>fid fr g. sent fid = Some fr \<and> g < fec_groups (piece_count (sf_nal fr))
        \<and> fec_groups (piece_count (sf_nal fr)) \<le> kMaxFecGroups \<and> piece_count (sf_nal fr) \<le> 0xFFFF
        \<and> w = fec_view (sf_nal fr) fid (sf_timestampUs fr) (sf_idr fr) g)"

text \<open>An entry holds nothing but pieces and parity of the frame sent under its id.\<close>

definition holds_part_of :: "SentFrame \<Rightarrow> Pending \<Rightarrow> bool" where
  "holds_part_of fr f \<longleftrightarrow>
     piece_count (sf_nal fr) \<le> 0xFFFF
   \<and> pe_pktCount f = of_nat (piece_count (sf_nal fr))
   \<and> pe_timestampUs f = sf_timestampUs fr
   \<and> (\<forall>i < piece_count (sf_nal fr). pe_pieces f ! i = [] \<or> pe_pieces f ! i = piece_at (sf_nal fr) i)
   \<and> (\<forall>g p. pe_parity f g = Some p \<longrightarrow>
        unat g < fec_groups (piece_count (sf_nal fr)) \<and> p = parity_of (sf_nal fr) (unat g))
   \<and> (pe_idr f \<longrightarrow> sf_idr fr)
   \<and> ((\<exists>i < piece_count (sf_nal fr). pe_pieces f ! i \<noteq> []) \<or> (\<exists>g. pe_parity f g \<noteq> None)
        \<longrightarrow> pe_idr f = sf_idr fr)"

definition entry_genuine :: "(u32 \<rightharpoonup> SentFrame) \<Rightarrow> u32 \<Rightarrow> Pending \<Rightarrow> bool" where
  "entry_genuine sent fid f \<longleftrightarrow> (\<exists>fr. sent fid = Some fr \<and> holds_part_of fr f)"

section \<open>The indices of a group\<close>

lemma stride_indices_filter:
  assumes "0 < G"
  shows "stride_indices i G n = filter (\<lambda>j. j mod G = i mod G) [i..<n]"
  using assms
proof (induction i G n rule: stride_indices.induct)
  case (1 i G n)
  have none: "filter (\<lambda>j. j mod G = i mod G) [Suc i..<m] = []" if "m \<le> i + G" for m
  proof (rule filter_False, clarsimp)
    fix j
    assume j: "Suc i \<le> j" "j < m" "j mod G = i mod G"
    then have "G dvd j - i" by (metis mod_eq_dvd_iff_nat Suc_leD)
    with j that 1(2) show False by (auto dest: dvd_imp_le)
  qed
  show ?case
  proof (cases "i < n")
    case True
    have "filter (\<lambda>j. j mod G = i mod G) [Suc i..<n] = stride_indices (i + G) G n"
    proof (cases "i + G \<le> n")
      case le: True
      have "[Suc i..<n] = [Suc i..<i + G] @ [i + G..<n]"
        using le 1(2) by (metis Suc_leI add_Suc_right le_add_diff_inverse less_add_same_cancel1 upt_add_eq_append)
      then show ?thesis using none [of "i + G"] 1 True by simp
    next
      case False
      then show ?thesis using none [of n] by (subst stride_indices.simps) simp
    qed
    then show ?thesis using True 1(2) by (subst stride_indices.simps) (simp add: upt_conv_Cons)
  next
    case False
    then show ?thesis by (subst stride_indices.simps) simp
  qed
qed

lemma stride_indices_group:
  assumes "g < fec_groups n"
  shows "stride_indices g (fec_groups n) n = group_members n g"
proof (cases "g \<le> n")
  case True
  have "filter (\<lambda>j. j mod fec_groups n = g) [0..<g] = []"
    using assms by (intro filter_False) auto
  then show ?thesis
    using assms True upt_add_eq_append [of 0 g "n - g"]
    by (simp add: stride_indices_filter group_members_def)
next
  case False
  then show ?thesis using assms fec_groups_le [of n] by simp
qed

lemma group_members_mem: "i \<in> set (group_members n g) \<longleftrightarrow> i < n \<and> i mod fec_groups n = g"
  by (auto simp: group_members_def)

lemma distinct_group_members: "distinct (group_members n g)"
  by (simp add: group_members_def)

section \<open>Recovery is exact\<close>

lemma count_missing_filter:
  assumes "\<forall>i\<in>set is. i < length pieces"
  shows "count_missing pieces is m idx =
    (let ms = filter (\<lambda>i. pieces ! i = []) is in Some (m + length ms, if ms = [] then idx else last ms))"
  using assms
  by (induction pieces "is" m idx rule: count_missing.induct) (auto simp: in_range Let_def)

lemma mix_present_fold:
  assumes "\<forall>i\<in>set is. i < length pieces" "\<forall>i\<in>set is. i \<noteq> j \<longrightarrow> kFecLenPrefix + length (pieces ! i) \<le> length r"
  shows "mix_present pieces is j r = some_opt (foldl mix_row r (map ((!) pieces) (filter (\<lambda>i. i \<noteq> j) is)))"
  using assms
  by (induction pieces "is" j r rule: mix_present.induct) (auto simp: in_range)

lemma two_bytes: "unat (push_bit 8 (ucast (a :: u8) :: u64) OR ucast (b :: u8)) = 256 * unat a + unat b"
proof -
  have a: "unat (ucast a :: u64) = unat a" and b: "unat (ucast b :: u64) = unat b"
    by (simp_all add: unsigned_ucast_eq take_bit_nat_eq_self unsigned_less [of a, where 'a = nat, simplified]
      unsigned_less [of b, where 'a = nat, simplified] less_trans [OF unsigned_less])
  have lt: "unat a < 256" "unat b < 256"
    using unsigned_less [of a, where 'a = nat] unsigned_less [of b, where 'a = nat] by simp_all
  have "push_bit 8 (ucast a :: u64) OR ucast b = push_bit 8 (ucast a) + ucast b"
    by (rule disjunctive_add [symmetric]) (auto simp: bit_push_bit_iff bit_ucast_iff dest: bit_imp_le_length)
  also have "unat \<dots> = 256 * unat a + unat b"
    using lt a b by (simp add: push_bit_eq_mult unat_word_ariths)
  finally show ?thesis .
qed

lemma framed_reads:
  assumes "length c \<le> kMaxVideoPayload"
  shows "rd8 (framed kParityStride c) 0 = Some (of_nat (length c div 256))"
    and "rd8 (framed kParityStride c) 1 = Some (of_nat (length c mod 256))"
    and "rdn (framed kParityStride c) 2 (length c) = Some c"
    and "length (framed kParityStride c) = kParityStride"
  using assms by (auto simp: framed_def rd8_def rdn_def kconsts)

lemma framed_len:
  assumes "length c \<le> kMaxVideoPayload"
  shows "unat (push_bit 8 (ucast (of_nat (length c div 256) :: u8) :: u64) OR ucast (of_nat (length c mod 256) :: u8)) = length c"
  using assms by (simp add: two_bytes unat_of_nat_u8 kconsts)

text \<open>The missing indices of a group.\<close>

definition missing_of :: "Pending \<Rightarrow> nat \<Rightarrow> nat list" where
  "missing_of f g = filter (\<lambda>i. pe_pieces f ! i = []) (group_members (unat (pe_pktCount f)) g)"

definition restore_piece :: "Pending \<Rightarrow> nat \<Rightarrow> bytes \<Rightarrow> Pending" where
  "restore_piece f j c =
     f\<lparr>pe_pieces := (pe_pieces f)[j := c], pe_bytes := pe_bytes f + length c, pe_received := pe_received f + 1\<rparr>"

lemma TryRecover_exact:
  assumes ok: "pending_ok f" and part: "holds_part_of fr f" and par: "pe_parity f g = Some p"
  shows "TryRecover st f g =
    (if length (missing_of f (unat g)) = 1
     then let j = hd (missing_of f (unat g)) in
       Some (st\<lparr>st_packetsRecovered := st_packetsRecovered st + 1\<rparr>,
             restore_piece f j (piece_at (sf_nal fr) j), True)
     else Some (st, f, False))"
proof -
  let ?nal = "sf_nal fr" and ?n = "piece_count (sf_nal fr)"
  let ?G = "fec_groups ?n" and ?is = "group_members ?n (unat g)"
  have n: "unat (pe_pktCount f) = ?n" and len: "length (pe_pieces f) = ?n"
    using ok part by (auto simp: pending_ok_def holds_part_of_def unat_of_nat_u16)
  have g: "unat g < ?G" and p: "p = parity_of ?nal (unat g)"
    using part par by (auto simp: holds_part_of_def)
  have groups: "(?n + kFecGroupSize - 1) div kFecGroupSize = ?G" by (simp add: fec_groups_def)
  have in_r: "\<forall>i\<in>set ?is. i < length (pe_pieces f)" by (simp add: len group_members_mem)
  let ?ms = "filter (\<lambda>i. pe_pieces f ! i = []) ?is"
  have ms: "missing_of f (unat g) = ?ms" by (simp add: missing_of_def n)
  have scan: "count_missing (pe_pieces f) ?is 0 0 = Some (length ?ms, if ?ms = [] then 0 else last ?ms)"
    by (simp add: count_missing_filter [OF in_r] Let_def)
  show ?thesis
  proof (cases "length ?ms = 1")
    case False
    then show ?thesis using g scan
      unfolding TryRecover_def par n option.case Let_def groups stride_indices_group [OF g] ms
      by simp
  next
    case True
    then obtain j where j: "?ms = [j]" by (auto simp: length_Suc_conv)
    have jm: "j \<in> set ?is" "pe_pieces f ! j = []"
      using arg_cong [OF j, of set] by auto
    obtain xs ys where split: "?is = xs @ j # ys" using jm(1) by (meson split_list)
    have jn: "j \<notin> set xs" "j \<notin> set ys"
      using distinct_group_members [of ?n "unat g"] unfolding split by auto
    have others: "pe_pieces f ! i = piece_at ?nal i" if "i \<in> set xs \<union> set ys" for i
    proof -
      have "i \<in> set ?is" "i \<noteq> j" using that jn split by auto
      moreover then have "pe_pieces f ! i \<noteq> []" using arg_cong [OF j, of set] by auto
      ultimately show ?thesis using part by (auto simp: holds_part_of_def group_members_mem)
    qed
    have keep: "filter (\<lambda>i. i \<noteq> j) ?is = xs @ ys"
    proof -
      have "filter (\<lambda>i. i \<noteq> j) xs = xs" "filter (\<lambda>i. i \<noteq> j) ys = ys"
        using jn by (auto simp: filter_id_conv)
      then show ?thesis by (simp add: split)
    qed
    have fits: "\<forall>i\<in>set ?is. i \<noteq> j \<longrightarrow> kFecLenPrefix + length (pe_pieces f ! i) \<le> length p"
    proof (intro ballI impI)
      fix i
      assume "i \<in> set ?is" "i \<noteq> j"
      then have "i \<in> set xs \<union> set ys" by (simp add: split)
      from others [OF this] piece_stride [of ?nal i]
      show "kFecLenPrefix + length (pe_pieces f ! i) \<le> length p" by (simp add: p kFecLenPrefix_def)
    qed
    have mapped: "map ((!) (pe_pieces f)) (xs @ ys) = map (piece_at ?nal) xs @ map (piece_at ?nal) ys"
      using others by simp
    have "foldl mix_row p (map ((!) (pe_pieces f)) (filter (\<lambda>i. i \<noteq> j) ?is)) = framed kParityStride (piece_at ?nal j)"
      unfolding keep mapped unfolding p parity_of_def split
      using parity_recovers [of "map (piece_at ?nal) xs" "piece_at ?nal j" "map (piece_at ?nal) ys" kParityStride]
        piece_stride_Suc by auto
    then have mix: "mix_present (pe_pieces f) ?is j p = some_opt (framed kParityStride (piece_at ?nal j))"
      using mix_present_fold [OF in_r fits] by simp
    have pos: "piece_at ?nal j \<noteq> []" "j < ?n"
      using jm(1) piece_at_nonempty by (auto simp: group_members_mem)
    have lp: "length (piece_at ?nal j) \<le> kMaxVideoPayload" by (rule length_piece_at)
    note rds = framed_reads [OF lp]
    have room: "kFecLenPrefix + length (piece_at ?nal j) \<le> kParityStride"
      using piece_stride [of ?nal j] by (simp add: kFecLenPrefix_def)
    show ?thesis
      using g scan j mix rds pos lp room len
      unfolding TryRecover_def par n option.case Let_def groups stride_indices_group [OF g] ms
      by (simp add: framed_len [OF lp] restore_piece_def vec_at_in kFecLenPrefix_def del: One_nat_def)
  qed
qed

section \<open>What is handed out is what was sent\<close>

lemma restore_keeps:
  assumes "pending_ok f" "holds_part_of fr f" "j < piece_count (sf_nal fr)" "pe_parity f g \<noteq> None"
  shows "holds_part_of fr (restore_piece f j (piece_at (sf_nal fr) j))"
  using assms by (auto simp: holds_part_of_def restore_piece_def pending_ok_def nth_list_update unat_of_nat_u16)

lemma TryRecover_keeps:
  assumes "pending_ok f" "holds_part_of fr f" "TryRecover st f g = Some (st', f', b)"
  shows "holds_part_of fr f'"
proof (cases "pe_parity f g")
  case None
  then show ?thesis using assms by (simp add: TryRecover_def)
next
  case (Some p)
  have n: "unat (pe_pktCount f) = piece_count (sf_nal fr)"
    using assms(2) by (simp add: holds_part_of_def unat_of_nat_u16)
  have "missing_of f (unat g) = [] \<or> hd (missing_of f (unat g)) < piece_count (sf_nal fr)"
    using hd_in_set [of "missing_of f (unat g)"] by (auto simp: missing_of_def group_members_mem n)
  then show ?thesis
    using assms(3) TryRecover_exact [OF assms(1,2) Some, of st] restore_keeps [OF assms(1,2), of _ g] Some assms(2)
    by (auto simp: Let_def split: if_splits)
qed

lemma holds_part_of_fields [simp]:
  "holds_part_of fr (f\<lparr>pe_lastPushUs := t\<rparr>) = holds_part_of fr f"
  "holds_part_of fr (f\<lparr>pe_lastNackUs := t\<rparr>) = holds_part_of fr f"
  "holds_part_of fr (f\<lparr>pe_maxIndexSeen := i\<rparr>) = holds_part_of fr f"
  by (simp_all add: holds_part_of_def)

lemma video_view_fields [simp]:
  "vh_frameId (vp_hdr (video_view nal fid ts idr i)) = fid"
  "vh_pktCount (vp_hdr (video_view nal fid ts idr i)) = of_nat (piece_count nal)"
  "vh_timestampUs (vp_hdr (video_view nal fid ts idr i)) = ts"
  "vh_pktIndex (vp_hdr (video_view nal fid ts idr i)) = of_nat i"
  "vp_idr (video_view nal fid ts idr i) = idr"
  "vp_payload (video_view nal fid ts idr i) = piece_at nal i"
  by (simp_all add: video_view_def video_header_def)

lemma fec_view_fields [simp]:
  "fh_frameId (fp_hdr (fec_view nal fid ts idr g)) = fid"
  "fh_pktCount (fp_hdr (fec_view nal fid ts idr g)) = of_nat (piece_count nal)"
  "fh_timestampUs (fp_hdr (fec_view nal fid ts idr g)) = ts"
  "fh_groupIndex (fp_hdr (fec_view nal fid ts idr g)) = of_nat g"
  "fp_idr (fec_view nal fid ts idr g) = idr"
  "fp_parity (fec_view nal fid ts idr g) = parity_of nal g"
  by (simp_all add: fec_view_def fec_header_def)

lemma holds_part_of_new:
  "piece_count (sf_nal fr) \<le> 0xFFFF \<Longrightarrow>
   holds_part_of fr (pending_new (of_nat (piece_count (sf_nal fr))) (sf_timestampUs fr) now)"
  by (auto simp: holds_part_of_def pending_new_def unat_of_nat_u16)

lemma holds_part_of_store:
  assumes "pending_ok f" "holds_part_of fr f" "i < piece_count (sf_nal fr)"
  shows "holds_part_of fr
        (f\<lparr>pe_pieces := (pe_pieces f)[i := piece_at (sf_nal fr) i], pe_bytes := b,
           pe_idr := (pe_idr f \<or> sf_idr fr), pe_received := r\<rparr>)"
  using assms by (auto simp: holds_part_of_def pending_ok_def nth_list_update unat_of_nat_u16)

lemma holds_part_of_flag:
  "holds_part_of fr f \<Longrightarrow> holds_part_of fr (f\<lparr>pe_idr := (pe_idr f \<or> sf_idr fr)\<rparr>)"
  by (auto simp: holds_part_of_def)

lemma holds_part_of_parity:
  assumes "holds_part_of fr f" "g < fec_groups (piece_count (sf_nal fr))"
    "fec_groups (piece_count (sf_nal fr)) \<le> kMaxFecGroups" "sf_idr fr \<longrightarrow> pe_idr f"
  shows "holds_part_of fr (f\<lparr>pe_parity := (pe_parity f)(of_nat g \<mapsto> parity_of (sf_nal fr) g)\<rparr>)"
proof -
  have "unat (of_nat g :: u8) = g" using assms by (simp add: unat_of_nat_u8 kconsts)
  then show ?thesis using assms by (auto simp: holds_part_of_def)
qed

lemma genuine_entry_law: "entry_law (entry_genuine sent) (genuine_video sent) (genuine_fec sent)"
proof
  show "entry_genuine sent fid (f\<lparr>pe_lastPushUs := t\<rparr>)" if "entry_genuine sent fid f" for fid f t
    using that by (simp add: entry_genuine_def)
  show "entry_genuine sent fid (f\<lparr>pe_lastNackUs := t\<rparr>)" if "entry_genuine sent fid f" for fid f t
    using that by (simp add: entry_genuine_def)
  show "entry_genuine sent fid (f\<lparr>pe_maxIndexSeen := i\<rparr>)" if "entry_genuine sent fid f" for fid f i
    using that by (simp add: entry_genuine_def)
  show "entry_genuine sent (vh_frameId (vp_hdr v)) (pending_new (vh_pktCount (vp_hdr v)) (vh_timestampUs (vp_hdr v)) now)"
    if "genuine_video sent v" for v now
    using that holds_part_of_new unfolding genuine_video_def entry_genuine_def by fastforce
  show "entry_genuine sent (fh_frameId (fp_hdr w)) (pending_new (fh_pktCount (fp_hdr w)) (fh_timestampUs (fp_hdr w)) now)"
    if "genuine_fec sent w" for w now
    using that holds_part_of_new unfolding genuine_fec_def entry_genuine_def by fastforce
  show "entry_genuine sent (vh_frameId (vp_hdr v))
        (f\<lparr>pe_pieces := (pe_pieces f)[unat (vh_pktIndex (vp_hdr v)) := vp_payload v],
           pe_bytes := pe_bytes f + length (vp_payload v),
           pe_idr := (pe_idr f \<or> vp_idr v),
           pe_received := pe_received f + 1\<rparr>)"
    if v: "genuine_video sent v" and f: "pending_ok f" "entry_genuine sent (vh_frameId (vp_hdr v)) f" for v f
  proof -
    obtain fid fr i where "sent fid = Some fr" "i < piece_count (sf_nal fr)" "piece_count (sf_nal fr) \<le> 0xFFFF"
      "v = video_view (sf_nal fr) fid (sf_timestampUs fr) (sf_idr fr) i"
      using v by (auto simp: genuine_video_def)
    then show ?thesis
      using f holds_part_of_store [OF f(1)] by (simp add: entry_genuine_def unat_of_nat_u16)
  qed
  fix w f
  assume w: "genuine_fec sent w" and f: "entry_genuine sent (fh_frameId (fp_hdr w)) f"
  obtain fid fr g where fr: "sent fid = Some fr" "g < fec_groups (piece_count (sf_nal fr))"
    "fec_groups (piece_count (sf_nal fr)) \<le> kMaxFecGroups"
    "w = fec_view (sf_nal fr) fid (sf_timestampUs fr) (sf_idr fr) g"
    using w by (auto simp: genuine_fec_def)
  show "entry_genuine sent (fh_frameId (fp_hdr w)) (f\<lparr>pe_idr := (pe_idr f \<or> fp_idr w)\<rparr>)"
    using fr f holds_part_of_flag [of fr f] by (simp add: entry_genuine_def)
  show "entry_genuine sent (fh_frameId (fp_hdr w))
      (f\<lparr>pe_parity := (pe_parity f)(fh_groupIndex (fp_hdr w) \<mapsto> fp_parity w)\<rparr>)" if "fp_idr w \<longrightarrow> pe_idr f"
    using fr f that holds_part_of_parity [of fr f g] by (simp add: entry_genuine_def del: fun_upd_apply)
next
  show "entry_genuine sent fid f'"
    if "pending_ok f" "entry_genuine sent fid f" "TryRecover st f g = Some (st', f', b)" for fid f st g st' f' b
    using that TryRecover_keeps unfolding entry_genuine_def by blast
qed

text \<open>A complete genuine entry is the frame.\<close>

lemma complete_genuine:
  assumes "pending_ok f" "holds_part_of fr f" "Complete f"
  shows "concat (pe_pieces f) = sf_nal fr" "pe_idr f = sf_idr fr"
proof -
  let ?n = "piece_count (sf_nal fr)"
  have n: "unat (pe_pktCount f) = ?n" and len: "length (pe_pieces f) = ?n"
    using assms by (auto simp: pending_ok_def holds_part_of_def unat_of_nat_u16)
  have "length (filter (\<lambda>p. p \<noteq> []) (pe_pieces f)) = length (pe_pieces f)"
    using assms(1,3) by (simp add: pending_ok_def Complete_def)
  then have full: "pe_pieces f ! i \<noteq> []" if "i < ?n" for i
    using that len length_filter_less [of "pe_pieces f ! i" "pe_pieces f" "\<lambda>p. p \<noteq> []"] by auto
  then have "pe_pieces f = map (piece_at (sf_nal fr)) [0..<?n]"
    using assms(2) len by (intro nth_equalityI) (auto simp: holds_part_of_def)
  then show "concat (pe_pieces f) = sf_nal fr" by (simp add: concat_pieces)
  have "0 < ?n" using assms(3) by (simp add: Complete_def flip: n unat_gt_0)
  then show "pe_idr f = sf_idr fr" using full assms(2) by (auto simp: holds_part_of_def)
qed

interpretation genuine: entry_law "entry_genuine sent" "genuine_video sent" "genuine_fec sent" for sent
  by (rule genuine_entry_law)

lemma genuine_out:
  assumes "ra_out_ok (entry_genuine sent) x (RFrame (Some fr))"
  shows "\<exists>sf. sent (fr_frameId fr) = Some sf \<and> fr_nal fr = sf_nal sf
           \<and> fr_timestampUs fr = sf_timestampUs sf \<and> fr_idr fr = sf_idr sf"
proof -
  obtain fid f sf where fr: "fr = frame_of fid f" and f: "Complete f" "pending_ok f" "holds_part_of sf f"
    and sf: "sent fid = Some sf"
    using assms by (auto simp: entry_genuine_def)
  have "pe_timestampUs f = sf_timestampUs sf" using f(3) by (simp add: holds_part_of_def)
  then show ?thesis
    using complete_genuine [OF f(2,3,1)] sf by (simp add: fr frame_of_def)
qed

end
