(* ===== verification/VideoOrder.thy ===== *)
theory VideoOrder
  imports VideoTransport
begin

text \<open>
  The order of delivery. \<open>above k s\<close> says that frame \<open>k\<close> is behind the reassembler: nothing
  pending and nothing it will still accept has an id up to \<open>k\<close>. Every operation keeps it, and
  popping a frame establishes it for that frame, so frames leave in strictly ascending id order.
\<close>

definition above :: "u32 \<Rightarrow> Reassembler \<Rightarrow> bool" where
  "above k s \<longleftrightarrow> ra_haveBarrier s \<and> k \<le> ra_barrierId s \<and> (\<forall>fid\<in>fst ` set (ra_pending s). k < fid)"

lemma above_fields [simp]:
  "above k (s\<lparr>ra_stats := x1\<rparr>) = above k s"
  "above k (s\<lparr>ra_lastPushUs := x2\<rparr>) = above k s"
  "above k (s\<lparr>ra_maxGapMs := x3\<rparr>) = above k s"
  "above k (s\<lparr>ra_rttUs := x2\<rparr>) = above k s"
  "above k (s\<lparr>ra_frameIntervalUs := x2\<rparr>) = above k s"
  "above k (s\<lparr>ra_lossEvent := e\<rparr>) = above k s"
  by (simp_all add: above_def)

lemma above_arrival [simp]:
  "above k (ra_arrival s now) = above k s"
  "above k (NoteLatePacket s fid now) = above k s"
  by (simp_all add: ra_arrival_def NoteLatePacket_def Let_def)

lemma above_put [simp]:
  "above k (s\<lparr>ra_pending := om_put fid f m\<rparr>) \<longleftrightarrow> k < fid \<and> above k (s\<lparr>ra_pending := m\<rparr>)"
  "above k (s\<lparr>ra_pending := ra_pending s\<rparr>) = above k s"
  "above k (s\<lparr>ra_stats := st, ra_pending := ra_pending s\<rparr>) = above k s"
  by (auto simp add: above_def)

lemma above_Drop:
  assumes "ra_Drop s fid f reason now = Some s'" "above k s"
  shows "above k s'"
  using assms(2) by (auto simp: above_def ra_Drop_fields [OF assms(1)] le_max_iff_disj)

lemma above_evict: "evict s now = Some s' \<Longrightarrow> above k s \<Longrightarrow> above k s'"
proof (induction s now rule: evict.induct)
  case (1 s now)
  show ?case
  proof (cases "kMaxPendingFrames \<le> length (ra_pending s)")
    case True
    then obtain fid f rest where p: "ra_pending s = (fid, f) # rest"
      using 1(2) by (subst (asm) evict.simps) (auto split: list.splits)
    obtain s1 where s1: "ra_Drop s fid f DropEvicted now = Some s1"
      using 1(2) True p by (subst (asm) evict.simps) (auto split: option.splits)
    then have "evict s1 now = Some s'"
      using 1(2) True p by (subst (asm) evict.simps) simp
    then show ?thesis using 1(1) [OF True p refl s1] above_Drop [OF s1 1(3)] by blast
  next
    case False
    then show ?thesis using 1(2,3) by (subst (asm) evict.simps) simp
  qed
qed

lemma above_Slot:
  assumes slot: "ra_Slot s fid n ts now = Some (s', r)" and k: "above k s"
  shows "above k s' \<and> (r \<noteq> None \<longrightarrow> k < fid)"
proof (cases "ra_haveBarrier s \<and> fid \<le> ra_barrierId s")
  case True
  then show ?thesis using assms by (simp add: ra_Slot_def)
next
  case False
  then have fid: "k < fid" using k by (auto simp: above_def)
  show ?thesis
  proof (cases "map_of (ra_pending s) fid")
    case None
    then obtain s1 where "evict s now = Some s1"
      using slot unfolding ra_Slot_def if_not_P [OF False] by (auto split: Option.bind_splits)
    moreover then have "above k s1" using above_evict k by blast
    ultimately show ?thesis
      using slot None fid unfolding ra_Slot_def if_not_P [OF False]
      by (auto simp: Let_def split: if_splits)
  next
    case (Some f)
    then show ?thesis
      using slot k fid unfolding ra_Slot_def if_not_P [OF False]
      by (auto simp: Let_def split: if_splits)
  qed
qed

lemma above_recover_and_store:
  "recover_and_store s fid f g = Some s' \<Longrightarrow> above k s \<Longrightarrow> k < fid \<Longrightarrow> above k s'"
  by (auto simp: recover_and_store_def split: Option.bind_splits)

lemma above_accept:
  assumes "ra_accept s fid f v = Some s'" "above k s" "k < fid"
  shows "above k s'"
  using assms by (auto simp: ra_accept_def Let_def
      split: if_splits Option.bind_splits intro: above_recover_and_store)

lemma above_accept_fec:
  assumes "ra_accept_fec s fid f v = Some s'" "above k s" "k < fid"
  shows "above k s'"
  using assms by (auto simp: ra_accept_fec_def Let_def
      split: if_splits intro: above_recover_and_store)

lemma above_Push:
  assumes "ra_Push s v now = Some s'" "above k s"
  shows "above k s'"
  using assms unfolding ra_Push_def Let_def
  by (auto split: if_splits Option.bind_splits option.splits dest!: above_Slot [where k = k] intro: above_accept)

lemma above_PushFec:
  assumes "ra_PushFec s v now = Some s'" "above k s"
  shows "above k s'"
  using assms unfolding ra_PushFec_def Let_def
  by (auto split: if_splits Option.bind_splits option.splits dest!: above_Slot [where k = k] intro: above_accept_fec)

lemma PopReady_order:
  assumes "ra_inv Q s" "ra_PopReady s now = Some (s', out)"
  shows "(above k s \<longrightarrow> (case out of None \<Rightarrow> above k s' | Some fr \<Rightarrow> k < fr_frameId fr))
       \<and> (\<forall>fr. out = Some fr \<longrightarrow> above (fr_frameId fr) s')"
  using assms
proof (induction s now rule: ra_PopReady.induct)
  case (1 s now)
  show ?case
  proof (cases "ra_pending s")
    case Nil
    then show ?thesis using 1(3) by (subst (asm) ra_PopReady.simps) auto
  next
    case (Cons e rest)
    obtain fid f where e: "e = (fid, f)" by (cases e)
    have wf: "om_wf ((fid, f) # rest)" and f: "(fid, f) \<in> set (ra_pending s)"
      using 1(2) Cons e by (auto simp: ra_inv_def)
    show ?thesis
    proof (cases "head_fate s f rest now")
      case Deliver
      have "om_erase fid ((fid, f) # rest) = rest" using om_erase_begin [OF wf] by simp
      then have "out = Some (snd (pop_head s fid f)) \<and> s' = fst (pop_head s fid f)" "ra_pending s' = rest"
        using 1(3) Cons e Deliver by (subst (asm) ra_PopReady.simps; auto simp: pop_head_def)+
      then show ?thesis
        using Cons e wf by (auto simp: pop_head_def above_def)
    next
      case (DropHead reason)
      obtain s1 where s1: "ra_Drop s fid f reason now = Some s1" "ra_inv Q s1"
        using ra_Drop_inv [OF 1(2) f] by blast
      then have "ra_PopReady s1 now = Some (s', out)"
        using 1(3) Cons e DropHead by (subst (asm) ra_PopReady.simps) simp
      then show ?thesis
        using 1(1) [OF Cons e [symmetric] DropHead s1] above_Drop [OF s1(1), of k] by blast
    next
      case Wait
      then show ?thesis using 1(3) Cons e by (subst (asm) ra_PopReady.simps) auto
    qed
  qed
qed

lemma plan_nack_found:
  "plan_nack s now rtt cap es = Some (Some (fid, f, out)) \<Longrightarrow> fid \<in> fst ` set es"
  by (induction s now rtt cap es rule: plan_nack.induct)
    (auto simp: Let_def split: if_splits Option.bind_splits)

lemma above_PlanNack:
  assumes "ra_PlanNack s now rtt fid cap = Some (s', r)" "above k s"
  shows "above k s'"
proof (cases "cap = 0")
  case False
  then obtain found where found: "plan_nack s now rtt cap (ra_pending s) = Some found"
    using assms by (auto simp: ra_PlanNack_def split: Option.bind_splits)
  show ?thesis
  proof (cases found)
    case (Some e)
    obtain fid' f out where e: "e = (fid', f, out)" by (cases e)
    have "k < fid'" using plan_nack_found [of s now rtt cap "ra_pending s" fid' f out] found Some e assms(2)
      by (auto simp: above_def)
    then show ?thesis using assms found Some e False by (auto simp: ra_PlanNack_def)
  qed (use assms found False in \<open>simp add: ra_PlanNack_def\<close>)
qed (use assms in \<open>simp add: ra_PlanNack_def\<close>)

section \<open>Runs that emit ascending keys\<close>

text \<open>
  A component whose outputs may carry a key: once key \<open>k\<close> is out, the state is beyond \<open>k\<close>,
  and from a state beyond \<open>k\<close> only larger keys come out.
\<close>

locale ascending_source = component +
  fixes key :: "'c \<Rightarrow> 'k::linorder option"
    and beyond :: "'k \<Rightarrow> 'a \<Rightarrow> bool"
  assumes keeps_beyond: "inv s \<Longrightarrow> legal x \<Longrightarrow> step s x = Some (s', r) \<Longrightarrow> key r = None \<Longrightarrow>
      beyond k s \<Longrightarrow> beyond k s'"
    and moves_beyond: "inv s \<Longrightarrow> legal x \<Longrightarrow> step s x = Some (s', r) \<Longrightarrow> key r = Some k \<Longrightarrow> beyond k s'"
    and larger: "inv s \<Longrightarrow> legal x \<Longrightarrow> step s x = Some (s', r) \<Longrightarrow> key r = Some k' \<Longrightarrow>
      beyond k s \<Longrightarrow> k < k'"
begin

lemma run_ascending:
  assumes "inv s" "\<forall>x\<in>set xs. legal x" "run_ops step s xs = Some (s', rs)"
  shows "sorted_wrt (<) (List.map_filter key rs) \<and> (\<forall>k. beyond k s \<longrightarrow> (\<forall>k'\<in>set (List.map_filter key rs). k < k'))"
  using assms
proof (induction xs arbitrary: s rs)
  case (Cons x xs)
  then obtain s1 r rs1 where s1: "step s x = Some (s1, r)" and rs: "run_ops step s1 xs = Some (s', rs1)" "rs = r # rs1"
    by (auto split: Option.bind_splits)
  have x: "legal x" and inv1: "inv s1"
    using keeps [OF Cons.prems(1), of x] s1 Cons.prems(2) by auto
  have IH: "sorted_wrt (<) (List.map_filter key rs1)"
    "\<And>k k'. beyond k s1 \<Longrightarrow> k' \<in> set (List.map_filter key rs1) \<Longrightarrow> k < k'"
    using Cons.IH [OF inv1 _ rs(1)] Cons.prems(2) by auto
  show ?case
  proof (cases "key r")
    case None
    then show ?thesis
      using IH keeps_beyond [OF Cons.prems(1) x s1] rs(2) by (auto simp: map_filter_simps)
  next
    case (Some k)
    have "k < k'" if "k' \<in> set (List.map_filter key rs1)" for k'
      using IH(2) moves_beyond [OF Cons.prems(1) x s1 Some] that by blast
    moreover have "j < k" if "beyond j s" for j
      using larger [OF Cons.prems(1) x s1 Some that] .
    ultimately show ?thesis
      using IH(1) rs(2) Some by (auto simp: map_filter_simps dest: less_trans)
  qed
qed (simp add: map_filter_simps)

end

fun delivered_id :: "ReassemblerOut \<Rightarrow> u32 option" where
  "delivered_id (RFrame (Some fr)) = Some (fr_frameId fr)"
| "delivered_id _ = None"

lemma step_order:
  assumes "ra_inv Q s" "ra_step s x = Some (s', r)"
  shows "above k s \<longrightarrow> (case delivered_id r of None \<Rightarrow> above k s' | Some i \<Rightarrow> k < i)"
    and "delivered_id r = Some i \<longrightarrow> above i s'"
proof -
  have "(above k s \<longrightarrow> (case delivered_id r of None \<Rightarrow> above k s' | Some i \<Rightarrow> k < i))
    \<and> (delivered_id r = Some i \<longrightarrow> above i s')"
  proof (cases x)
    case (RPopReady now)
    then obtain out where "ra_PopReady s now = Some (s', out)" "r = RFrame out"
      using assms(2) by (auto split: Option.bind_splits)
    with PopReady_order [OF assms(1) this(1), of k] show ?thesis by (cases out) auto
  qed (use assms(2) in \<open>auto simp: ra_TakeLossEvent_def ra_TakeMaxGapMs_def ra_SetFps_def ra_SetRttUs_def
      split: Option.bind_splits if_splits dest: above_Push above_PushFec above_PlanNack\<close>)
  then show "above k s \<longrightarrow> (case delivered_id r of None \<Rightarrow> above k s' | Some i \<Rightarrow> k < i)"
    "delivered_id r = Some i \<longrightarrow> above i s'" by blast+
qed

interpretation frame_order: ascending_source ra_step "ra_inv (\<lambda>_ _. True)" "ra_legal (\<lambda>_. True) (\<lambda>_. True)"
  "ra_out_ok (\<lambda>_ _. True)" delivered_id above
proof unfold_locales
  fix s x s' r k
  assume a: "ra_inv (\<lambda>_ _. True) s" "ra_step s x = Some (s', r)"
  show "delivered_id r = None \<Longrightarrow> above k s \<Longrightarrow> above k s'"
    using step_order(1) [OF a, of k] by simp
  show "delivered_id r = Some k \<Longrightarrow> above k s'"
    using step_order(2) [OF a, of k] by simp
  fix k'
  show "delivered_id r = Some k' \<Longrightarrow> above k s \<Longrightarrow> k < k'"
    using step_order(1) [OF a, of k] by simp
qed

end
