(* ===== verification/VideoRecovery.thy ===== *)
theory VideoRecovery
  imports VideoTransport
begin

text \<open>
  Recovery in full: an idle reassembler that receives packets of one frame, in any order and with
  repetitions, hands the frame out as soon as every group misses at most one packet and has its
  parity packet when it misses one.
\<close>

datatype Arrival = ArrivedVideo nat u64 | ArrivedParity nat u64

fun arrival_op :: "SentFrame \<Rightarrow> u32 \<Rightarrow> Arrival \<Rightarrow> ReassemblerOp" where
  "arrival_op fr fid (ArrivedVideo i now) =
     RPush (video_view (sf_nal fr) fid (sf_timestampUs fr) (sf_idr fr) i) now"
| "arrival_op fr fid (ArrivedParity g now) =
     RPushFec (fec_view (sf_nal fr) fid (sf_timestampUs fr) (sf_idr fr) g) now"

fun arrival_ok :: "SentFrame \<Rightarrow> Arrival \<Rightarrow> bool" where
  "arrival_ok fr (ArrivedVideo i now) \<longleftrightarrow> i < piece_count (sf_nal fr)"
| "arrival_ok fr (ArrivedParity g now) \<longleftrightarrow>
     g < fec_groups (piece_count (sf_nal fr)) \<and> fec_groups (piece_count (sf_nal fr)) \<le> kMaxFecGroups"

fun arrived_pieces :: "Arrival list \<Rightarrow> nat list" where
  "arrived_pieces [] = []"
| "arrived_pieces (ArrivedVideo i now # as) = i # arrived_pieces as"
| "arrived_pieces (ArrivedParity g now # as) = arrived_pieces as"

fun arrived_parity :: "Arrival list \<Rightarrow> nat list" where
  "arrived_parity [] = []"
| "arrived_parity (ArrivedVideo i now # as) = arrived_parity as"
| "arrived_parity (ArrivedParity g now # as) = g # arrived_parity as"

text \<open>The packets of group \<open>g\<close> that never arrived.\<close>

definition lost_in :: "SentFrame \<Rightarrow> Arrival list \<Rightarrow> nat \<Rightarrow> nat list" where
  "lost_in fr as g = filter (\<lambda>i. i \<notin> set (arrived_pieces as)) (group_members (piece_count (sf_nal fr)) g)"

definition recoverable :: "SentFrame \<Rightarrow> Arrival list \<Rightarrow> bool" where
  "recoverable fr as \<longleftrightarrow>
     (\<forall>g < fec_groups (piece_count (sf_nal fr)).
        length (lost_in fr as g) \<le> 1 \<and> (lost_in fr as g \<noteq> [] \<longrightarrow> g \<in> set (arrived_parity as)))"

section \<open>Groups that are settled\<close>

text \<open>
  After each packet no group is left that could be recovered and has not been: none with its
  parity present misses exactly one packet. \<open>settled_but G f\<close> allows the groups of \<open>G\<close>.
\<close>

definition settled_but :: "nat set \<Rightarrow> SentFrame \<Rightarrow> Pending \<Rightarrow> bool" where
  "settled_but X fr f \<longleftrightarrow>
     ((\<exists>g. pe_parity f g \<noteq> None) \<longrightarrow> fec_groups (piece_count (sf_nal fr)) \<le> kMaxFecGroups)
   \<and> (\<forall>g < fec_groups (piece_count (sf_nal fr)). g \<notin> X \<longrightarrow> pe_parity f (of_nat g) \<noteq> None \<longrightarrow>
        length (missing_of f g) \<noteq> 1)"

definition progress :: "SentFrame \<Rightarrow> nat set \<Rightarrow> nat set \<Rightarrow> nat set \<Rightarrow> Pending \<Rightarrow> bool" where
  "progress fr X P R f \<longleftrightarrow>
     pending_ok f \<and> holds_part_of fr f \<and> settled_but X fr f
   \<and> (\<forall>i\<in>P. i < piece_count (sf_nal fr) \<and> pe_pieces f ! i \<noteq> [])
   \<and> (\<forall>g\<in>R. pe_parity f (of_nat g) \<noteq> None)"

lemma missing_of_fill_other:
  assumes "i mod fec_groups (unat (pe_pktCount f)) \<noteq> g"
  shows "filter (\<lambda>k. (pe_pieces f)[i := p] ! k = []) (group_members (unat (pe_pktCount f)) g) = missing_of f g"
  unfolding missing_of_def using assms
  by (intro filter_cong refl, subst nth_list_update_neq) (auto simp: group_members_mem)

lemma missing_of_fields [simp]:
  "missing_of (f\<lparr>pe_idr := b\<rparr>) g = missing_of f g"
  "missing_of (f\<lparr>pe_parity := m\<rparr>) g = missing_of f g"
  "missing_of (f\<lparr>pe_maxIndexSeen := k\<rparr>) g = missing_of f g"
  "missing_of (f\<lparr>pe_lastPushUs := t\<rparr>) g = missing_of f g"
  by (simp_all add: missing_of_def)

text \<open>\<open>TryRecover\<close> settles the group it is called for.\<close>

lemma recover_settles:
  assumes f: "progress fr {g} P R f" and g: "g < fec_groups (piece_count (sf_nal fr))"
  shows "\<exists>st' f' b. TryRecover st f (of_nat g) = Some (st', f', b) \<and> progress fr {} P R f'"
proof (cases "pe_parity f (of_nat g)")
  case None
  then have "progress fr {} P R f" using f by (auto simp: progress_def settled_but_def)
  then show ?thesis using None by (simp add: TryRecover_def ex_bool_eq)
next
  case (Some p)
  have ok: "pending_ok f" "holds_part_of fr f" using f by (simp_all add: progress_def)
  have n: "unat (pe_pktCount f) = piece_count (sf_nal fr)" and len: "length (pe_pieces f) = piece_count (sf_nal fr)"
    using ok by (auto simp: pending_ok_def holds_part_of_def unat_of_nat_u16)
  have "fec_groups (piece_count (sf_nal fr)) \<le> 256"
    using f Some by (auto simp: progress_def settled_but_def kMaxFecGroups_def)
  then have ug: "unat (of_nat g :: u8) = g" using g by (simp add: unat_of_nat_u8)
  note exact = TryRecover_exact [OF ok Some, of st, unfolded ug]
  show ?thesis
  proof (cases "length (missing_of f g) = 1")
    case False
    then have "progress fr {} P R f" using f by (auto simp: progress_def settled_but_def)
    then show ?thesis using exact False by (simp add: ex_bool_eq)
  next
    case True
    then obtain j where j: "missing_of f g = [j]" by (auto simp: length_Suc_conv)
    then have "j \<in> set (missing_of f g)" by simp
    then have jm: "j < piece_count (sf_nal fr)" "j mod fec_groups (piece_count (sf_nal fr)) = g" "pe_pieces f ! j = []"
      by (auto simp: missing_of_def group_members_mem n)
    let ?c = "piece_at (sf_nal fr) j"
    let ?f = "restore_piece f j ?c"
    have c: "?c \<noteq> []" using piece_at_nonempty jm(1) by blast
    have pok: "pending_ok ?f"
      using pending_ok_fill [OF ok(1) _ jm(3) c] jm(1) n by (simp add: restore_piece_def pending_ok_def)
    have hold: "holds_part_of fr ?f"
      using restore_keeps [OF ok jm(1), of "of_nat g"] Some by simp
    have other: "missing_of ?f g' = missing_of f g'" if "g' \<noteq> g" for g'
      using missing_of_fill_other [of j f g' ?c] that jm(2) n
      by (simp add: missing_of_def restore_piece_def)
    have "missing_of ?f g = filter (\<lambda>k. k \<noteq> j) (missing_of f g)"
      unfolding missing_of_def using jm(1) len c
      by (auto simp: restore_piece_def nth_list_update intro!: filter_cong)
    then have "missing_of ?f g = []" by (simp add: j)
    then have "length (missing_of ?f g') \<noteq> 1" if "g' = g \<or> length (missing_of f g') \<noteq> 1" for g'
      using that other [of g'] by (cases "g' = g") auto
    then have "settled_but {} fr ?f"
      using f by (auto simp: settled_but_def progress_def restore_piece_def)
    then have "progress fr {} P R ?f"
      using f pok hold c len jm(1) by (auto simp: progress_def restore_piece_def nth_list_update)
    then show ?thesis using exact j by (simp add: Let_def ex_bool_eq)
  qed
qed

text \<open>Storing a packet or a parity row leaves at most its own group unsettled.\<close>

lemma store_progress:
  assumes f: "progress fr {} P R f" and i: "i < piece_count (sf_nal fr)" and e: "pe_pieces f ! i = []"
  shows "progress fr {i mod fec_groups (piece_count (sf_nal fr))} (insert i P) R
    (f\<lparr>pe_pieces := (pe_pieces f)[i := piece_at (sf_nal fr) i], pe_bytes := b,
       pe_idr := (pe_idr f \<or> sf_idr fr), pe_received := pe_received f + 1\<rparr>)"
proof -
  let ?f = "f\<lparr>pe_pieces := (pe_pieces f)[i := piece_at (sf_nal fr) i], pe_bytes := b,
       pe_idr := (pe_idr f \<or> sf_idr fr), pe_received := pe_received f + 1\<rparr>"
  have ok: "pending_ok f" "holds_part_of fr f" using f by (simp_all add: progress_def)
  have n: "unat (pe_pktCount f) = piece_count (sf_nal fr)" and len: "length (pe_pieces f) = piece_count (sf_nal fr)"
    using ok by (auto simp: pending_ok_def holds_part_of_def unat_of_nat_u16)
  have c: "piece_at (sf_nal fr) i \<noteq> []" using piece_at_nonempty i by blast
  have "pending_ok ?f"
    using pending_ok_fill [OF ok(1) _ e c] i n by (simp add: pending_ok_def)
  moreover have "holds_part_of fr ?f" using holds_part_of_store [OF ok i] .
  moreover have "missing_of ?f g = missing_of f g" if "g \<noteq> i mod fec_groups (piece_count (sf_nal fr))" for g
    using missing_of_fill_other [of i f g] that n by (simp add: missing_of_def)
  then have "settled_but {i mod fec_groups (piece_count (sf_nal fr))} fr ?f"
    using f by (auto simp: settled_but_def progress_def)
  ultimately show ?thesis
    using f i c len by (auto simp: progress_def nth_list_update)
qed

lemma parity_progress:
  assumes f: "progress fr {} P R f" and g: "g < fec_groups (piece_count (sf_nal fr))"
    "fec_groups (piece_count (sf_nal fr)) \<le> kMaxFecGroups" and idr: "sf_idr fr \<longrightarrow> pe_idr f"
  shows "progress fr {g} P (insert g R)
    (f\<lparr>pe_parity := (pe_parity f)(of_nat g \<mapsto> parity_of (sf_nal fr) g)\<rparr>)"
proof -
  have "of_nat g' \<noteq> (of_nat g :: u8)" if "g' \<noteq> g" "g' < fec_groups (piece_count (sf_nal fr))" for g'
  proof -
    have "unat (of_nat g' :: u8) = g'" "unat (of_nat g :: u8) = g"
      using that g by (simp_all add: unat_of_nat_u8 kconsts)
    then show ?thesis using that(1) by metis
  qed
  then show ?thesis
    using f g holds_part_of_parity [of fr f g] idr pending_ok_parity [of f "parity_of (sf_nal fr) g" "of_nat g"]
    by (auto simp: progress_def settled_but_def kconsts)
qed

lemma flag_progress: "progress fr X P R f \<Longrightarrow> progress fr X P R (f\<lparr>pe_idr := (pe_idr f \<or> sf_idr fr)\<rparr>)"
  by (auto simp: progress_def settled_but_def holds_part_of_flag)

section \<open>One frame in an idle reassembler\<close>

definition idle :: "SentFrame \<Rightarrow> u32 \<Rightarrow> Reassembler \<Rightarrow> bool" where
  "idle fr fid s \<longleftrightarrow> ra_pending s = [] \<and> \<not> (ra_haveBarrier s \<and> fid \<le> ra_barrierId s)
     \<and> (ra_waitingForIdr s \<longrightarrow> sf_idr fr)"

text \<open>The reassembler holds the frame's entry, in progress, and nothing else.\<close>

definition tracks :: "SentFrame \<Rightarrow> u32 \<Rightarrow> nat set \<Rightarrow> nat set \<Rightarrow> Reassembler \<Rightarrow> bool" where
  "tracks fr fid P R s \<longleftrightarrow>
     \<not> (ra_haveBarrier s \<and> fid \<le> ra_barrierId s) \<and> (ra_waitingForIdr s \<longrightarrow> sf_idr fr)
   \<and> (ra_pending s = [] \<and> P = {} \<and> R = {} \<or> (\<exists>f. ra_pending s = [(fid, f)] \<and> progress fr {} P R f))"

lemma idle_tracks: "idle fr fid s \<Longrightarrow> tracks fr fid {} {} s"
  by (simp add: idle_def tracks_def)

lemma tracks_fields [simp]:
  "tracks fr fid P R (s\<lparr>ra_stats := st\<rparr>) = tracks fr fid P R s"
  "tracks fr fid P R (s\<lparr>ra_lastPushUs := t\<rparr>) = tracks fr fid P R s"
  "tracks fr fid P R (s\<lparr>ra_maxGapMs := g\<rparr>) = tracks fr fid P R s"
  "tracks fr fid P R (ra_arrival s t) = tracks fr fid P R s"
  by (simp_all add: tracks_def ra_arrival_def Let_def)

lemma progress_new:
  "piece_count (sf_nal fr) \<le> 0xFFFF \<Longrightarrow>
   progress fr {} {} {} (pending_new (of_nat (piece_count (sf_nal fr))) (sf_timestampUs fr) now)"
  by (simp add: progress_def pending_ok_new holds_part_of_new settled_but_def) (simp add: pending_new_def)

lemma progress_push: "progress fr X P R f \<Longrightarrow> progress fr X P R (f\<lparr>pe_lastPushUs := t\<rparr>)"
  by (simp add: progress_def settled_but_def)

lemma Slot_tracks:
  assumes s: "tracks fr fid P R s" and n: "piece_count (sf_nal fr) \<le> 0xFFFF"
  shows "\<exists>s' f. ra_Slot s fid (of_nat (piece_count (sf_nal fr))) (sf_timestampUs fr) now = Some (s', Some f)
     \<and> tracks fr fid P R s' \<and> ra_pending s' = [(fid, f)] \<and> progress fr {} P R f"
proof -
  have b: "\<not> (ra_haveBarrier s \<and> fid \<le> ra_barrierId s)" using s by (simp add: tracks_def)
  show ?thesis
  proof (cases "ra_pending s = []")
    case True
    then have "P = {}" "R = {}" using s by (auto simp: tracks_def)
    moreover have "evict s now = Some s" using True by (subst evict.simps) (simp add: kMaxPendingFrames_def)
    moreover note progress_push [OF progress_new [OF n, of now], of now]
    ultimately show ?thesis
      using True s unfolding ra_Slot_def if_not_P [OF b]
      by (simp add: Let_def tracks_def pending_new_def)
  next
    case False
    then obtain f where f: "ra_pending s = [(fid, f)]" "progress fr {} P R f"
      using s by (auto simp: tracks_def)
    then have "pe_pktCount f = of_nat (piece_count (sf_nal fr))"
      by (simp add: progress_def holds_part_of_def)
    then show ?thesis
      using s f progress_push [OF f(2), of now] unfolding ra_Slot_def if_not_P [OF b]
      by (simp add: Let_def tracks_def)
  qed
qed

lemma store_tracks:
  "tracks fr fid P' R' s \<Longrightarrow> ra_pending s = [(fid, f0)] \<Longrightarrow> progress fr {} P R f \<Longrightarrow>
   tracks fr fid P R (s\<lparr>ra_pending := om_put fid f (ra_pending s)\<rparr>)"
  by (simp add: tracks_def)

lemma recover_tracks:
  assumes "tracks fr fid P' R' s" "ra_pending s = [(fid, f0)]"
    "progress fr {g} P R f" "g < fec_groups (piece_count (sf_nal fr))"
  shows "\<exists>s'. recover_and_store s fid f (of_nat g) = Some s' \<and> tracks fr fid P R s'"
proof -
  obtain st' f' b where "TryRecover (ra_stats s) f (of_nat g) = Some (st', f', b)" "progress fr {} P R f'"
    using recover_settles [OF assms(3,4), of "ra_stats s"] by blast
  then show ?thesis
    using assms(1,2) by (auto simp: recover_and_store_def tracks_def)
qed

lemma accept_tracks:
  assumes s: "tracks fr fid P R s" "ra_pending s = [(fid, f)]" "progress fr {} P R f"
    and i: "i < piece_count (sf_nal fr)" and n: "piece_count (sf_nal fr) \<le> 0xFFFF"
  shows "\<exists>s'. ra_accept s fid f (video_view (sf_nal fr) fid (sf_timestampUs fr) (sf_idr fr) i) = Some s'
     \<and> tracks fr fid (insert i P) R s'"
proof -
  let ?v = "video_view (sf_nal fr) fid (sf_timestampUs fr) (sf_idr fr) i"
  have ok: "pending_ok f" "holds_part_of fr f" using s(3) by (simp_all add: progress_def)
  have cnt: "unat (pe_pktCount f) = piece_count (sf_nal fr)" and len: "length (pe_pieces f) = piece_count (sf_nal fr)"
    using ok by (auto simp: pending_ok_def holds_part_of_def unat_of_nat_u16)
  have ui: "unat (of_nat i :: u16) = i" using i n by (simp add: unat_of_nat_u16)
  have lt: "\<not> pe_pktCount f \<le> of_nat i" using i cnt ui by (simp add: word_le_nat_alt)
  define f1 where "f1 = (if of_nat i > pe_maxIndexSeen f then f\<lparr>pe_maxIndexSeen := of_nat i\<rparr> else f)"
  have f1: "progress fr {} P R f1"
    using s(3) pending_ok_index [OF ok(1), of "of_nat i"] lt
    by (auto simp: f1_def progress_def settled_but_def)
  have pe: "pe_pieces f1 = pe_pieces f" "pe_pktCount f1 = pe_pktCount f" by (simp_all add: f1_def)
  let ?G = "fec_groups (piece_count (sf_nal fr))"
  have G: "0 < ?G" using fec_groups_pos i by simp
  show ?thesis
  proof (cases "pe_pieces f ! i = []")
    case True
    have acc: "ra_accept s fid f ?v = recover_and_store s fid
        (f1\<lparr>pe_pieces := (pe_pieces f1)[i := piece_at (sf_nal fr) i],
           pe_bytes := pe_bytes f1 + length (piece_at (sf_nal fr) i),
           pe_idr := (pe_idr f1 \<or> sf_idr fr), pe_received := pe_received f1 + 1\<rparr>) (of_nat (i mod ?G))"
      using True lt G i len unfolding ra_accept_def video_view_fields ui f1_def [symmetric]
      by (simp add: Let_def pe cnt vec_at_in ui f1_def [symmetric] del: One_nat_def flip: fec_groups_def)
    show ?thesis
      unfolding acc using store_progress [OF f1 i] True pe G
      by (intro recover_tracks [OF s(1,2)]) auto
  next
    case False
    then have "progress fr {} (insert i P) R f1" using f1 i pe by (simp add: progress_def)
    moreover have "ra_accept s fid f ?v = Some (s\<lparr>ra_pending := om_put fid f1 (ra_pending s)\<rparr>)"
      using False lt i len unfolding ra_accept_def video_view_fields ui f1_def [symmetric]
      by (simp add: Let_def pe vec_at_in ui f1_def [symmetric])
    ultimately show ?thesis using store_tracks [OF s(1,2)] by blast
  qed
qed

lemma accept_fec_tracks:
  assumes s: "tracks fr fid P R s" "ra_pending s = [(fid, f)]" "progress fr {} P R f"
    and g: "g < fec_groups (piece_count (sf_nal fr))" "fec_groups (piece_count (sf_nal fr)) \<le> kMaxFecGroups"
  shows "\<exists>s'. ra_accept_fec s fid f (fec_view (sf_nal fr) fid (sf_timestampUs fr) (sf_idr fr) g) = Some s'
     \<and> tracks fr fid P (insert g R) s'"
proof -
  let ?w = "fec_view (sf_nal fr) fid (sf_timestampUs fr) (sf_idr fr) g"
  let ?f1 = "f\<lparr>pe_idr := (pe_idr f \<or> sf_idr fr)\<rparr>"
  have f1: "progress fr {} P R ?f1" using flag_progress [OF s(3)] .
  show ?thesis
  proof (cases "pe_parity f (of_nat g)")
    case None
    have acc: "ra_accept_fec s fid f ?w = recover_and_store s fid
        (?f1\<lparr>pe_parity := (pe_parity ?f1)(of_nat g \<mapsto> parity_of (sf_nal fr) g)\<rparr>) (of_nat g)"
      using None by (simp add: ra_accept_fec_def Let_def)
    show ?thesis
      unfolding acc by (rule recover_tracks [OF s(1,2) parity_progress [OF f1 g] g(1)]) simp
  next
    case (Some p)
    then have "kFecLenPrefix \<le> length p" using s(3) by (auto simp: progress_def pending_ok_def)
    then have "p \<noteq> []" by (auto simp: kFecLenPrefix_def)
    then have acc: "ra_accept_fec s fid f ?w = Some (s\<lparr>ra_pending := om_put fid ?f1 (ra_pending s)\<rparr>)"
      using Some by (simp add: ra_accept_fec_def)
    have "progress fr {} P (insert g R) ?f1" using f1 Some by (simp add: progress_def)
    then show ?thesis unfolding acc using store_tracks [OF s(1,2)] by blast
  qed
qed

lemma arrival_tracks:
  assumes s: "tracks fr fid P R s" and a: "arrival_ok fr a" and n: "piece_count (sf_nal fr) \<le> 0xFFFF"
  shows "\<exists>s' r. ra_step s (arrival_op fr fid a) = Some (s', r)
     \<and> tracks fr fid (P \<union> set (arrived_pieces [a])) (R \<union> set (arrived_parity [a])) s'"
proof (cases a)
  case (ArrivedVideo i now)
  then have i: "i < piece_count (sf_nal fr)" and c: "piece_at (sf_nal fr) i \<noteq> []"
    using a piece_at_nonempty by auto
  let ?s = "ra_arrival s now"
  have t: "tracks fr fid P R ?s" using s by simp
  then have "\<not> (ra_haveBarrier ?s \<and> fid \<le> ra_barrierId ?s)" by (simp add: tracks_def)
  moreover from Slot_tracks [OF t n, of now] obtain s1 f where
    "ra_Slot ?s fid (of_nat (piece_count (sf_nal fr))) (sf_timestampUs fr) now = Some (s1, Some f)"
    "tracks fr fid P R s1" "ra_pending s1 = [(fid, f)]" "progress fr {} P R f" by blast
  moreover from accept_tracks [OF this(2-4) i n] obtain s2 where
    "ra_accept s1 fid f (video_view (sf_nal fr) fid (sf_timestampUs fr) (sf_idr fr) i) = Some s2"
    "tracks fr fid (insert i P) R s2" by blast
  ultimately show ?thesis
    using c unfolding ArrivedVideo arrival_op.simps ra_step.simps ra_Push_def Let_def video_view_fields
    by (simp add: if_not_P)
next
  case (ArrivedParity g now)
  then have g: "g < fec_groups (piece_count (sf_nal fr))" "fec_groups (piece_count (sf_nal fr)) \<le> kMaxFecGroups"
    using a by auto
  let ?s = "s\<lparr>ra_stats := (ra_stats s)\<lparr>st_fecReceived := st_fecReceived (ra_stats s) + 1\<rparr>\<rparr>"
  have "tracks fr fid P R ?s" using s by simp
  from Slot_tracks [OF this n, of now] obtain s1 f where
    slot: "ra_Slot ?s fid (of_nat (piece_count (sf_nal fr))) (sf_timestampUs fr) now = Some (s1, Some f)"
    "tracks fr fid P R s1" "ra_pending s1 = [(fid, f)]" "progress fr {} P R f" by blast
  from accept_fec_tracks [OF this(2-4) g] obtain s2 where
    "ra_accept_fec s1 fid f (fec_view (sf_nal fr) fid (sf_timestampUs fr) (sf_idr fr) g) = Some s2"
    "tracks fr fid P (insert g R) s2" by blast
  then show ?thesis
    using slot(1) unfolding ArrivedParity arrival_op.simps ra_step.simps ra_PushFec_def Let_def fec_view_fields
    by (simp add: kParityStride_def)
qed

lemma arrivals_track:
  assumes "tracks fr fid P R s" "\<forall>a\<in>set as. arrival_ok fr a" "piece_count (sf_nal fr) \<le> 0xFFFF"
  shows "\<exists>s' rs. run_ops ra_step s (map (arrival_op fr fid) as) = Some (s', rs)
     \<and> tracks fr fid (P \<union> set (arrived_pieces as)) (R \<union> set (arrived_parity as)) s'"
  using assms(1,2)
proof (induction "as" arbitrary: P R s)
  case (Cons a "as")
  obtain s1 r where s1: "ra_step s (arrival_op fr fid a) = Some (s1, r)"
    "tracks fr fid (P \<union> set (arrived_pieces [a])) (R \<union> set (arrived_parity [a])) s1"
    using arrival_tracks [OF Cons.prems(1) _ assms(3)] Cons.prems(2) by (meson list.set_intros(1))
  moreover have "set (arrived_pieces (a # as)) = set (arrived_pieces [a]) \<union> set (arrived_pieces as)"
    "set (arrived_parity (a # as)) = set (arrived_parity [a]) \<union> set (arrived_parity as)"
    by (cases a; simp)+
  ultimately show ?case
    using Cons.IH [OF s1(2)] Cons.prems(2) by (auto simp: Un_assoc)
qed simp

text \<open>An entry in progress that misses nothing unrecoverable is complete.\<close>

lemma progress_complete:
  assumes f: "progress fr {} (set (arrived_pieces as)) (set (arrived_parity as)) f"
    and r: "recoverable fr as" and ne: "sf_nal fr \<noteq> []"
  shows "Complete f"
proof -
  let ?n = "piece_count (sf_nal fr)"
  have ok: "pending_ok f" "holds_part_of fr f" using f by (simp_all add: progress_def)
  have n: "unat (pe_pktCount f) = ?n" and len: "length (pe_pieces f) = ?n"
    using ok by (auto simp: pending_ok_def holds_part_of_def unat_of_nat_u16)
  have "missing_of f g = []" if g: "g < fec_groups ?n" for g
  proof -
    have sub: "missing_of f g = filter (\<lambda>i. pe_pieces f ! i = []) (lost_in fr as g)"
      using f n by (auto simp: missing_of_def lost_in_def progress_def intro!: filter_cong)
    then have le: "length (missing_of f g) \<le> length (lost_in fr as g)"
      by (simp add: length_filter_le)
    show ?thesis
    proof (cases "lost_in fr as g = []")
      case False
      then have "pe_parity f (of_nat g) \<noteq> None" using r g f by (auto simp: recoverable_def progress_def)
      then have "length (missing_of f g) \<noteq> 1" using f g by (auto simp: progress_def settled_but_def)
      moreover have "length (missing_of f g) \<le> 1" using le r g by (auto simp: recoverable_def dest: order_trans)
      ultimately show ?thesis by (cases "missing_of f g") auto
    qed (simp add: sub)
  qed
  then have "pe_pieces f ! i \<noteq> []" if "i < ?n" for i
  proof -
    have "i mod fec_groups ?n < fec_groups ?n" using that fec_groups_pos [of ?n] by simp
    from \<open>\<And>g. g < fec_groups ?n \<Longrightarrow> missing_of f g = []\<close> [OF this] that
    show ?thesis by (auto simp: missing_of_def n filter_empty_conv group_members_mem)
  qed
  then have "filter (\<lambda>p. p \<noteq> []) (pe_pieces f) = pe_pieces f"
    using len by (auto simp: filter_id_conv in_set_conv_nth)
  then have "unat (pe_received f) = unat (pe_pktCount f)"
    using ok(1) len n by (simp add: pending_ok_def)
  then show ?thesis
    using n piece_count_pos [OF ne] by (auto simp: Complete_def word_unat_eq_iff)
qed

lemma frame_recovered_from:
  assumes s: "idle fr fid s" and ne: "sf_nal fr \<noteq> []" and n: "piece_count (sf_nal fr) \<le> 0xFFFF"
    and a: "\<forall>a\<in>set as. arrival_ok fr a" and r: "recoverable fr as"
  shows "\<exists>s1 rs s2 out. run_ops ra_step s (map (arrival_op fr fid) as) = Some (s1, rs)
     \<and> ra_PopReady s1 now = Some (s2, Some out) \<and> ra_pending s2 = []
     \<and> fr_frameId out = fid \<and> fr_nal out = sf_nal fr
     \<and> fr_timestampUs out = sf_timestampUs fr \<and> fr_idr out = sf_idr fr"
proof -
  obtain s1 rs where run: "run_ops ra_step s (map (arrival_op fr fid) as) = Some (s1, rs)"
    and t: "tracks fr fid (set (arrived_pieces as)) (set (arrived_parity as)) s1"
    using arrivals_track [OF idle_tracks [OF s] a n] by auto
  have "0 \<in> set (group_members (piece_count (sf_nal fr)) 0)"
    using piece_count_pos [OF ne] by (simp add: group_members_mem)
  moreover have "lost_in fr as 0 \<noteq> [] \<longrightarrow> 0 \<in> set (arrived_parity as)"
    using r fec_groups_pos [OF piece_count_pos [OF ne]] by (simp add: recoverable_def)
  ultimately have "lost_in fr as 0 \<noteq> group_members (piece_count (sf_nal fr)) 0 \<or> 0 \<in> set (arrived_parity as)"
    by auto
  then have "set (arrived_pieces as) \<noteq> {} \<or> set (arrived_parity as) \<noteq> {}"
    by (auto simp: lost_in_def)
  then obtain f where f: "ra_pending s1 = [(fid, f)]"
    "progress fr {} (set (arrived_pieces as)) (set (arrived_parity as)) f"
    using t by (auto simp: tracks_def)
  have ok: "pending_ok f" "holds_part_of fr f" using f by (simp_all add: progress_def)
  have c: "Complete f" using progress_complete [OF f(2) r ne] .
  note whole = complete_genuine [OF ok c]
  have "head_fate s1 f [] now = Deliver"
    using c t whole by (auto simp: head_fate_def tracks_def)
  then have "ra_PopReady s1 now = Some (fst (pop_head s1 fid f), Some (snd (pop_head s1 fid f)))"
    using f(1) by (subst ra_PopReady.simps) (simp add: case_prod_beta)
  then show ?thesis
    using run f(1) whole ok(2) by (simp add: pop_head_def om_erase_def holds_part_of_def)
qed

end
