(* ===== verification/StdVector.thy ===== *)
theory StdVector
  imports Prelude
begin

text \<open>
  The idioms by which the stores of the core library use a \<open>std::vector\<close> of records:
  \<open>erase(min_element(\<dots>))\<close> to make room, \<open>erase(remove_if(\<dots>))\<close> to drop the records with a key,
  a loop that updates the first match and returns. The locale \<open>roster\<close> is what a store with keys
  and a limited capacity promises its users: it may forget, but it never makes anything up.
\<close>

section \<open>Erasing and updating\<close>

definition erase_at :: "nat \<Rightarrow> 'a list \<Rightarrow> 'a list" where
  "erase_at i xs = take i xs @ drop (Suc i) xs"

text \<open>\<open>std::vector::resize(n, v)\<close>.\<close>

definition resize :: "'a list \<Rightarrow> nat \<Rightarrow> 'a \<Rightarrow> 'a list" where
  "resize xs n v = take n xs @ replicate (n - length xs) v"

text \<open>\<open>std::min_element\<close>: the first of the least elements.\<close>

fun min_at :: "('a \<Rightarrow> 'b::linorder) \<Rightarrow> 'a list \<Rightarrow> nat" where
  "min_at f [] = 0"
| "min_at f [x] = 0"
| "min_at f (x # y # ys) = (let i = min_at f (y # ys) in if f ((y # ys) ! i) < f x then Suc i else 0)"

definition make_room :: "nat \<Rightarrow> ('a \<Rightarrow> 'b::linorder) \<Rightarrow> 'a list \<Rightarrow> 'a list" where
  "make_room cap age xs = (if cap \<le> length xs then erase_at (min_at age xs) xs else xs)"

text \<open>\<open>for (T& x : xs) if (p(x)) { x = f(x); return true; } return false;\<close>\<close>

fun update_first :: "('a \<Rightarrow> bool) \<Rightarrow> ('a \<Rightarrow> 'a) \<Rightarrow> 'a list \<Rightarrow> 'a list option" where
  "update_first p f [] = None"
| "update_first p f (x # xs) =
     (if p x then Some (f x # xs) else map_option ((#) x) (update_first p f xs))"

lemma length_resize [simp]: "length (resize xs n v) = n"
  by (auto simp: resize_def)

lemma nth_resize: "i < n \<Longrightarrow> resize xs n v ! i = (if i < length xs then xs ! i else v)"
  by (auto simp: resize_def nth_append)

lemma set_erase_at: "set (erase_at i xs) \<subseteq> set xs"
  unfolding erase_at_def by (auto dest: in_set_takeD in_set_dropD)

lemma length_erase_at: "i < length xs \<Longrightarrow> length (erase_at i xs) = length xs - 1"
  by (simp add: erase_at_def)

lemma erase_at_split: "i < length xs \<Longrightarrow> xs = take i xs @ xs ! i # drop (Suc i) xs"
  by (rule id_take_nth_drop)

lemma distinct_erase_at: "distinct (map f xs) \<Longrightarrow> distinct (map f (erase_at i xs))"
proof (cases "i < length xs")
  case True
  assume "distinct (map f xs)"
  then have "distinct (map f (take i xs @ xs ! i # drop (Suc i) xs))" using erase_at_split [OF True] by metis
  then show ?thesis by (simp add: erase_at_def)
qed (simp add: erase_at_def)

lemma min_at_less: "xs \<noteq> [] \<Longrightarrow> min_at f xs < length xs"
  by (induction f xs rule: min_at.induct) (auto simp: Let_def)

lemma min_at_least: "y \<in> set xs \<Longrightarrow> f (xs ! min_at f xs) \<le> f y"
proof (induction f xs rule: min_at.induct)
  case (3 f x z zs)
  then show ?case by (cases "y = x") (auto simp: Let_def not_less intro: order.trans)
qed auto

lemma set_make_room: "set (make_room cap age xs) \<subseteq> set xs"
  by (simp add: make_room_def set_erase_at)

lemma length_make_room: "0 < cap \<Longrightarrow> length xs \<le> cap \<Longrightarrow> length (make_room cap age xs) < cap"
  using min_at_less [of xs age] by (auto simp: make_room_def length_erase_at)

lemma distinct_make_room: "distinct (map f xs) \<Longrightarrow> distinct (map f (make_room cap age xs))"
  by (simp add: make_room_def distinct_erase_at)

lemma make_room_id: "length xs < cap \<Longrightarrow> make_room cap age xs = xs"
  by (simp add: make_room_def)

text \<open>What is erased to make room is no younger than anything that stays.\<close>

lemma make_room_oldest:
  assumes "x \<in> set xs" "x \<notin> set (make_room cap age xs)" "y \<in> set (make_room cap age xs)"
  shows "age x \<le> age y"
proof -
  have full: "cap \<le> length xs" using assms by (auto simp: make_room_def split: if_splits)
  have "min_at age xs < length xs" using assms(1) by (intro min_at_less) auto
  from erase_at_split [OF this] have "set xs = insert (xs ! min_at age xs) (set (erase_at (min_at age xs) xs))"
    unfolding erase_at_def by (metis list.simps(15) set_append Un_insert_right)
  then have "x = xs ! min_at age xs" using assms full by (auto simp: make_room_def)
  moreover have "y \<in> set xs" using assms(3) set_make_room by (rule subsetD [rotated])
  ultimately show ?thesis using min_at_least [of y xs age] by simp
qed

lemma update_first_None: "update_first p f xs = None \<longleftrightarrow> (\<forall>x\<in>set xs. \<not> p x)"
  by (induction xs) auto

lemma update_first_split:
  "update_first p f xs = Some ys \<Longrightarrow> \<exists>as x bs. xs = as @ x # bs \<and> p x \<and> (\<forall>a\<in>set as. \<not> p a) \<and> ys = as @ f x # bs"
proof (induction xs arbitrary: ys)
  case (Cons z zs)
  show ?case
  proof (cases "p z")
    case True
    then show ?thesis using Cons.prems by (intro exI [of _ "[]"]) auto
  next
    case False
    then obtain ws where ws: "update_first p f zs = Some ws" "ys = z # ws" using Cons.prems by auto
    from Cons.IH [OF ws(1)] obtain as x bs where "zs = as @ x # bs" "p x" "\<forall>a\<in>set as. \<not> p a" "ws = as @ f x # bs"
      by blast
    then show ?thesis using False ws(2) by (intro exI [of _ "z # as"]) auto
  qed
qed simp

lemma update_first_key:
  "update_first p f xs = Some ys \<Longrightarrow> (\<And>x. key (f x) = key x) \<Longrightarrow> map key ys = map key xs"
  by (auto dest!: update_first_split)

lemma update_first_set:
  "update_first p f xs = Some ys \<Longrightarrow> y \<in> set ys \<Longrightarrow> y \<in> set xs \<or> (\<exists>x\<in>set xs. p x \<and> y = f x)"
  by (auto dest!: update_first_split)

section \<open>Lookup by key\<close>

definition find_key :: "('a \<Rightarrow> 'k) \<Rightarrow> 'k \<Rightarrow> 'a list \<Rightarrow> 'a option" where
  "find_key key k xs = List.find (\<lambda>x. key x = k) xs"

definition drop_key :: "('a \<Rightarrow> 'k) \<Rightarrow> 'k \<Rightarrow> 'a list \<Rightarrow> 'a list" where
  "drop_key key k xs = filter (\<lambda>x. key x \<noteq> k) xs"

lemma find_key_simps [simp]:
  "find_key key k [] = None"
  "find_key key k (x # xs) = (if key x = k then Some x else find_key key k xs)"
  by (simp_all add: find_key_def)

lemma find_key_append: "find_key key k (xs @ ys) = (case find_key key k xs of None \<Rightarrow> find_key key k ys | Some x \<Rightarrow> Some x)"
  by (induction xs) auto

lemma find_key_None: "find_key key k xs = None \<longleftrightarrow> k \<notin> key ` set xs"
  by (induction xs) auto

lemma find_key_Some: "distinct (map key xs) \<Longrightarrow> find_key key k xs = Some x \<longleftrightarrow> x \<in> set xs \<and> key x = k"
  by (induction xs) (auto simp: rev_image_eqI)

lemma find_key_in: "find_key key k xs = Some x \<Longrightarrow> x \<in> set xs \<and> key x = k"
  by (induction xs) (auto split: if_splits)

lemma find_drop_key: "find_key key k (drop_key key j xs) = (if k = j then None else find_key key k xs)"
  by (induction xs) (auto simp: drop_key_def)

lemma drop_key_props [simp]:
  "set (drop_key key k xs) = {x \<in> set xs. key x \<noteq> k}" "length (drop_key key k xs) \<le> length xs"
  "distinct (map key xs) \<Longrightarrow> distinct (map key (drop_key key k xs))"
  by (auto simp: drop_key_def distinct_map inj_on_def)

lemma drop_key_absent: "k \<notin> key ` set xs \<Longrightarrow> drop_key key k xs = xs"
  by (auto simp: drop_key_def intro!: filter_True)

lemma find_key_subset:
  "distinct (map key xs) \<Longrightarrow> distinct (map key ys) \<Longrightarrow> set ys \<subseteq> set xs \<Longrightarrow> find_key key k ys = Some x \<Longrightarrow> find_key key k xs = Some x"
  by (auto simp: find_key_Some)

section \<open>The interface of a bounded store\<close>

text \<open>
  \<open>put\<close> stores a value under its key and may forget another key to make room; \<open>drop\<close> forgets one
  key. A run of such operations is answered as a map would answer it, except that a key may be
  unknown that the map still knows.
\<close>

datatype ('k, 'v) RosterOp = Put 'k 'v | Del 'k

fun map_step :: "('k \<rightharpoonup> 'v) \<Rightarrow> ('k, 'v) RosterOp \<Rightarrow> ('k \<rightharpoonup> 'v)" where
  "map_step m (Put k v) = m(k \<mapsto> v)"
| "map_step m (Del k) = m(k := None)"

locale roster =
  fixes wf :: "'s \<Rightarrow> bool"
    and find :: "'s \<Rightarrow> 'k \<Rightarrow> 'v option"
    and put :: "'k \<Rightarrow> 'v \<Rightarrow> 's \<Rightarrow> 's"
    and drop :: "'k \<Rightarrow> 's \<Rightarrow> 's"
    and legal :: "'k \<Rightarrow> 'v \<Rightarrow> bool"
  assumes put_wf: "wf s \<Longrightarrow> legal k v \<Longrightarrow> wf (put k v s)"
    and drop_wf: "wf s \<Longrightarrow> wf (drop k s)"
    and find_put: "wf s \<Longrightarrow> legal k v \<Longrightarrow> find (put k v s) k = Some v"
    and put_keeps: "wf s \<Longrightarrow> legal k v \<Longrightarrow> k' \<noteq> k \<Longrightarrow> find (put k v s) k' = Some w \<Longrightarrow> find s k' = Some w"
    and find_drop: "wf s \<Longrightarrow> find (drop k s) = (find s)(k := None)"
begin

fun store_step :: "'s \<Rightarrow> ('k, 'v) RosterOp \<Rightarrow> 's" where
  "store_step s (Put k v) = put k v s"
| "store_step s (Del k) = drop k s"

fun op_legal :: "('k, 'v) RosterOp \<Rightarrow> bool" where
  "op_legal (Put k v) = legal k v"
| "op_legal (Del k) = True"

lemma step_below:
  assumes "wf s" "op_legal x" "find s \<subseteq>\<^sub>m m"
  shows "wf (store_step s x)" "find (store_step s x) \<subseteq>\<^sub>m map_step m x"
proof -
  show "wf (store_step s x)" using assms by (cases x) (auto intro: put_wf drop_wf)
  show "find (store_step s x) \<subseteq>\<^sub>m map_step m x"
  proof (cases x)
    case (Put k v)
    have "w = v" if "find (put k v s) k = Some w" for w
      using that find_put assms Put by auto
    then show ?thesis
      using assms Put put_keeps by (fastforce simp: map_le_def dom_def)
  next
    case (Del k)
    then show ?thesis using assms by (auto simp: map_le_def find_drop)
  qed
qed

lemma run_below:
  assumes "wf s" "\<forall>x\<in>set xs. op_legal x" "find s \<subseteq>\<^sub>m m"
  shows "wf (foldl store_step s xs) \<and> find (foldl store_step s xs) \<subseteq>\<^sub>m foldl map_step m xs"
  using assms
proof (induction xs arbitrary: s m)
  case (Cons x xs)
  then have "wf (store_step s x)" "find (store_step s x) \<subseteq>\<^sub>m map_step m x" using step_below by simp_all
  then show ?case using Cons.IH Cons.prems(2) by simp
qed simp

lemma nothing_made_up:
  assumes "wf s" "\<forall>x\<in>set xs. op_legal x" "find s k = None" "find (foldl store_step s xs) k = Some v"
  shows "Put k v \<in> set xs"
proof -
  have "foldl map_step (find s) xs k = Some v"
    using run_below [OF assms(1,2) map_le_refl] assms(4) by (auto simp: map_le_def dom_def)
  moreover have "foldl map_step m xs k = Some v \<Longrightarrow> m k \<noteq> Some v \<Longrightarrow> Put k v \<in> set xs" for m
  proof (induction xs arbitrary: m)
    case (Cons x xs)
    show ?case
    proof (cases "map_step m x k = Some v")
      case True
      then have "x = Put k v" using Cons.prems(2) by (cases x) (auto split: if_splits)
      then show ?thesis by simp
    next
      case False
      then show ?thesis using Cons.IH [of "map_step m x"] Cons.prems(1) by simp
    qed
  qed simp
  ultimately show ?thesis using assms(3) by simp
qed

end

end
