(* ===== verification/RetransmitCache.thy ===== *)
theory RetransmitCache
  imports WireRoundtrip WireSafety Component StdVector
begin

text \<open>
  \<open>core/src/transport/RetransmitCache.cpp\<close>: the last frames' datagrams, kept for NACKs in a ring
  of eight slots. A slot is a flat byte array with \<open>kMaxDatagram\<close> bytes per packet index and the
  length stored at each index. The specification is the partial map from (frame, index) to
  datagram that the cache implements.
\<close>

record FrameSlot =
  sl_frameId :: u32
  sl_used :: bool
  sl_bytes :: bytes
  sl_lengths :: "u16 list"

record RetransmitCache =
  rt_slots :: "FrameSlot list"
  rt_next :: nat

definition kCacheFrames :: nat where [kconsts]: "kCacheFrames = 8"

definition slot_empty :: FrameSlot where
  "slot_empty = \<lparr>sl_frameId = 0, sl_used = False, sl_bytes = [], sl_lengths = []\<rparr>"

definition rt_init :: RetransmitCache where
  "rt_init = \<lparr>rt_slots = replicate kCacheFrames slot_empty, rt_next = 0\<rparr>"

text \<open>\<open>FindSlot\<close>: the index of the first used slot with the id.\<close>

fun FindSlot_from :: "nat \<Rightarrow> FrameSlot list \<Rightarrow> u32 \<Rightarrow> nat option" where
  "FindSlot_from i [] fid = None"
| "FindSlot_from i (s # ss) fid =
     (if sl_used s \<and> sl_frameId s = fid then Some i else FindSlot_from (i + 1) ss fid)"

definition FindSlot :: "RetransmitCache \<Rightarrow> u32 \<Rightarrow> nat option" where
  "FindSlot c fid = FindSlot_from 0 (rt_slots c) fid"

text \<open>\<open>std::copy(d.begin(), d.end(), bs.begin() + off)\<close>, undefined past the end of \<open>bs\<close>.\<close>

definition copy_to :: "bytes \<Rightarrow> nat \<Rightarrow> bytes \<Rightarrow> bytes checked" where
  "copy_to bs off d =
     (if off + length d \<le> length bs then Some (take off bs @ d @ drop (off + length d) bs) else None)"

text \<open>The last part of \<open>Store\<close>: the datagram into its slot.\<close>

definition slot_put :: "FrameSlot \<Rightarrow> u16 \<Rightarrow> bytes \<Rightarrow> FrameSlot checked" where
  "slot_put s idx d =
     (if unat idx \<ge> length (sl_lengths s) then Some s
      else do {
        bs \<leftarrow> copy_to (sl_bytes s) (unat idx * kMaxDatagram) d;
        Some (s\<lparr>sl_bytes := bs, sl_lengths := (sl_lengths s)[unat idx := of_nat (length d)]\<rparr>)
      })"

text \<open>The slot of a frame that has none yet, and of one whose packet count has grown.\<close>

definition slot_claim :: "FrameSlot \<Rightarrow> u32 \<Rightarrow> u16 \<Rightarrow> FrameSlot" where
  "slot_claim s fid n =
     s\<lparr>sl_frameId := fid, sl_used := True, sl_lengths := replicate (unat n) 0,
       sl_bytes := resize (sl_bytes s) (unat n * kMaxDatagram) 0\<rparr>"

definition slot_grow :: "FrameSlot \<Rightarrow> u16 \<Rightarrow> FrameSlot" where
  "slot_grow s n =
     (if length (sl_lengths s) < unat n
      then s\<lparr>sl_lengths := resize (sl_lengths s) (unat n) 0,
             sl_bytes := resize (sl_bytes s) (unat n * kMaxDatagram) 0\<rparr>
      else s)"

definition store_packet :: "RetransmitCache \<Rightarrow> u32 \<Rightarrow> u16 \<Rightarrow> u16 \<Rightarrow> bytes \<Rightarrow> RetransmitCache checked" where
  "store_packet c fid idx n d = do {
     (i, s, c) \<leftarrow> (case FindSlot c fid of
        None \<Rightarrow> do {
          s \<leftarrow> vec_at (rt_slots c) (rt_next c);
          Some (rt_next c, slot_claim s fid n, c\<lparr>rt_next := (rt_next c + 1) mod kCacheFrames\<rparr>)
        }
      | Some i \<Rightarrow> do {
          s \<leftarrow> vec_at (rt_slots c) i;
          Some (i, slot_grow s n, c)
        });
     s \<leftarrow> slot_put s idx d;
     Some (c\<lparr>rt_slots := (rt_slots c)[i := s]\<rparr>)
   }"

definition rt_Store :: "RetransmitCache \<Rightarrow> bytes \<Rightarrow> RetransmitCache checked" where
  "rt_Store c datagram =
     (if length datagram > kMaxDatagram then Some c
      else do {
        h \<leftarrow> ParseCommonHeader datagram;
        case h of
          None \<Rightarrow> Some c
        | Some h \<Rightarrow>
            if ch_type h \<noteq> MsgVideoPacket then Some c
            else do {
              payload \<leftarrow> PayloadOf datagram;
              v \<leftarrow> ParseVideoPacket h payload;
              case v of
                None \<Rightarrow> Some c
              | Some v \<Rightarrow> store_packet c (vh_frameId (vp_hdr v)) (vh_pktIndex (vp_hdr v))
                            (vh_pktCount (vp_hdr v)) datagram
            }
      })"

text \<open>\<open>Find\<close>: the span returned, empty when nothing is stored.\<close>

definition slot_get :: "FrameSlot \<Rightarrow> u16 \<Rightarrow> bytes checked" where
  "slot_get s idx =
     (if unat idx \<ge> length (sl_lengths s) then Some []
      else do {
        len \<leftarrow> vec_at (sl_lengths s) (unat idx);
        if len = 0 then Some [] else rdn (sl_bytes s) (unat idx * kMaxDatagram) (unat len)
      })"

definition rt_Find :: "RetransmitCache \<Rightarrow> u32 \<Rightarrow> u16 \<Rightarrow> bytes checked" where
  "rt_Find c fid idx =
     (case FindSlot c fid of
        None \<Rightarrow> Some []
      | Some i \<Rightarrow> do { s \<leftarrow> vec_at (rt_slots c) i; slot_get s idx })"

definition rt_Reset :: "RetransmitCache \<Rightarrow> RetransmitCache" where
  "rt_Reset c = \<lparr>rt_slots = map (\<lambda>s. s\<lparr>sl_used := False, sl_frameId := 0, sl_lengths := []\<rparr>) (rt_slots c), rt_next = 0\<rparr>"

section \<open>One slot\<close>

definition slot_ok :: "FrameSlot \<Rightarrow> bool" where
  "slot_ok s \<longleftrightarrow> length (sl_lengths s) * kMaxDatagram \<le> length (sl_bytes s)
     \<and> (\<forall>l\<in>set (sl_lengths s). unat l \<le> kMaxDatagram)"

lemma set_resize: "set (resize xs n v) \<subseteq> insert v (set xs)"
  by (auto simp: resize_def dest: in_set_takeD)

lemma slot_fields [simp]:
  "sl_used (slot_claim s fid n)" "sl_frameId (slot_claim s fid n) = fid"
  "sl_used (slot_grow s n) = sl_used s" "sl_frameId (slot_grow s n) = sl_frameId s"
  by (simp_all add: slot_claim_def slot_grow_def)

lemma slot_ok_claim: "slot_ok (slot_claim s fid n)"
  by (simp add: slot_ok_def slot_claim_def)

lemma slot_ok_grow: "slot_ok s \<Longrightarrow> slot_ok (slot_grow s n)"
  using set_resize [of "sl_lengths s" "unat n" 0] by (auto simp: slot_ok_def slot_grow_def)

lemma index_room: "i < n \<Longrightarrow> m \<le> kMaxDatagram \<Longrightarrow> i * kMaxDatagram + m \<le> n * kMaxDatagram"
  by (metis Suc_leI add_le_mono1 add.commute le_trans mult_Suc mult_le_mono1 add_le_mono le_refl)

lemma window_eq:
  "off + l \<le> length xs \<Longrightarrow> off + l \<le> length ys \<Longrightarrow> \<forall>i<l. xs ! (off + i) = ys ! (off + i) \<Longrightarrow>
   take l (drop off xs) = take l (drop off ys)"
  by (auto intro!: nth_equalityI)

lemma drop_behind:
  "off + length d \<le> length xs \<Longrightarrow> off + length d \<le> k \<Longrightarrow>
   drop k (take off xs @ d @ drop (off + length d) xs) = drop k xs"
  by (simp add: min_absorb2)

lemma slot_get_eq:
  "slot_ok s \<Longrightarrow> slot_get s idx =
     Some (if unat idx < length (sl_lengths s)
           then take (unat (sl_lengths s ! unat idx)) (drop (unat idx * kMaxDatagram) (sl_bytes s)) else [])"
  using index_room [of "unat idx" "length (sl_lengths s)" "unat (sl_lengths s ! unat idx)"]
  by (auto simp: slot_get_def slot_ok_def in_range)

lemma slot_get_claim: "slot_get (slot_claim s fid n) idx = Some []"
  by (auto simp: slot_get_def slot_claim_def vec_at_def)

lemma slot_get_grow:
  assumes "slot_ok s"
  shows "slot_get (slot_grow s n) idx = slot_get s idx"
proof (cases "length (sl_lengths s) < unat n \<and> unat idx < unat n")
  case True
  show ?thesis
  proof (cases "unat idx < length (sl_lengths s)")
    case i: True
    have "unat (sl_lengths s ! unat idx) \<le> kMaxDatagram" using assms i by (simp add: slot_ok_def)
    then have a: "unat idx * kMaxDatagram + unat (sl_lengths s ! unat idx) \<le> length (sl_bytes s)"
      and b: "unat idx * kMaxDatagram + unat (sl_lengths s ! unat idx) \<le> unat n * kMaxDatagram"
      using index_room [OF i] index_room [of "unat idx" "unat n"] True assms
      by (auto simp: slot_ok_def intro: le_trans)
    have "take (unat (sl_lengths s ! unat idx)) (drop (unat idx * kMaxDatagram) (resize (sl_bytes s) (unat n * kMaxDatagram) 0))
        = take (unat (sl_lengths s ! unat idx)) (drop (unat idx * kMaxDatagram) (sl_bytes s))"
      using a b by (intro window_eq) (auto simp: nth_resize)
    then show ?thesis
      using True i slot_get_eq [OF slot_ok_grow [OF assms, of n]] slot_get_eq [OF assms]
      by (simp add: slot_grow_def nth_resize)
  next
    case False
    then show ?thesis
      using True slot_get_eq [OF slot_ok_grow [OF assms, of n]] slot_get_eq [OF assms]
      by (simp add: slot_grow_def nth_resize)
  qed
qed (use slot_get_eq [OF slot_ok_grow [OF assms, of n]] slot_get_eq [OF assms] in \<open>auto simp: slot_grow_def\<close>)

lemma slot_put_spec:
  assumes ok: "slot_ok s" and i: "unat idx < length (sl_lengths s)" and d: "length d \<le> kMaxDatagram"
  shows "\<exists>s'. slot_put s idx d = Some s' \<and> slot_ok s' \<and> sl_frameId s' = sl_frameId s \<and> sl_used s' = sl_used s
     \<and> (\<forall>j. slot_get s' j = (if j = idx then Some d else slot_get s j))"
proof -
  let ?o = "unat idx * kMaxDatagram"
  let ?bs = "take ?o (sl_bytes s) @ d @ drop (?o + length d) (sl_bytes s)"
  let ?s = "s\<lparr>sl_bytes := ?bs, sl_lengths := (sl_lengths s)[unat idx := of_nat (length d)]\<rparr>"
  have room: "?o + length d \<le> length (sl_bytes s)"
    using index_room [OF i d] ok by (auto simp: slot_ok_def intro: le_trans)
  have len: "length ?bs = length (sl_bytes s)" using room by simp
  have ud: "unat (of_nat (length d) :: u16) = length d" using d by (simp add: unat_of_nat_u16 kconsts)
  have put: "slot_put s idx d = Some ?s" using i room by (simp add: slot_put_def copy_to_def)
  have ok': "slot_ok ?s"
    using ok len d ud by (auto simp: slot_ok_def dest!: set_update_subset_insert [THEN subsetD])
  have "slot_get ?s j = (if j = idx then Some d else slot_get s j)" for j
  proof (cases "j = idx")
    case True
    then show ?thesis using i room by (simp add: slot_get_eq [OF ok'] ud)
  next
    case False
    then have ne: "unat j \<noteq> unat idx" by (metis word_unat_eq_iff)
    have "take l (drop (unat j * kMaxDatagram) ?bs) = take l (drop (unat j * kMaxDatagram) (sl_bytes s))"
      if l: "l \<le> kMaxDatagram" for l
    proof (cases "unat j < unat idx")
      case True
      have "unat j * kMaxDatagram + l \<le> ?o" using index_room [OF True l] .
      then show ?thesis using room by (intro window_eq) (auto simp: nth_append)
    next
      case False
      have "?o + length d \<le> unat j * kMaxDatagram" using index_room [of "unat idx" "unat j" "length d"] False ne d by simp
      then show ?thesis using room by (simp only: drop_behind)
    qed
    then show ?thesis
      using False ne ok by (auto simp: slot_get_eq [OF ok'] slot_get_eq [OF ok] slot_ok_def)
  qed
  then show ?thesis using put ok' by simp
qed

section \<open>The cache\<close>

definition rt_inv :: "RetransmitCache \<Rightarrow> bool" where
  "rt_inv c \<longleftrightarrow> length (rt_slots c) = kCacheFrames \<and> rt_next c < kCacheFrames
     \<and> (\<forall>s\<in>set (rt_slots c). slot_ok s)
     \<and> (\<forall>i < kCacheFrames. \<forall>j < kCacheFrames. sl_used (rt_slots c ! i) \<longrightarrow> sl_used (rt_slots c ! j) \<longrightarrow>
          sl_frameId (rt_slots c ! i) = sl_frameId (rt_slots c ! j) \<longrightarrow> i = j)"

lemma rt_inv_init: "rt_inv rt_init"
  by (simp add: rt_inv_def rt_init_def slot_empty_def slot_ok_def kCacheFrames_def)

lemma rt_inv_Reset: "rt_inv c \<Longrightarrow> rt_inv (rt_Reset c)"
  by (auto simp: rt_inv_def rt_Reset_def slot_ok_def kCacheFrames_def)

lemma FindSlot_from_Some:
  "FindSlot_from k ss fid = Some i \<Longrightarrow>
   k \<le> i \<and> i < k + length ss \<and> sl_used (ss ! (i - k)) \<and> sl_frameId (ss ! (i - k)) = fid"
  by (induction k ss fid rule: FindSlot_from.induct) (fastforce simp: nth_Cons' split: if_splits)+

lemma FindSlot_from_None:
  "FindSlot_from k ss fid = None \<longleftrightarrow> (\<forall>s\<in>set ss. \<not> (sl_used s \<and> sl_frameId s = fid))"
  by (induction k ss fid rule: FindSlot_from.induct) auto

lemma FindSlot_Some_iff:
  assumes "rt_inv c"
  shows "FindSlot c fid = Some i \<longleftrightarrow> i < kCacheFrames \<and> sl_used (rt_slots c ! i) \<and> sl_frameId (rt_slots c ! i) = fid"
proof
  assume "FindSlot c fid = Some i"
  then show "i < kCacheFrames \<and> sl_used (rt_slots c ! i) \<and> sl_frameId (rt_slots c ! i) = fid"
    using FindSlot_from_Some [of 0 "rt_slots c" fid i] assms by (simp add: FindSlot_def rt_inv_def)
next
  assume i: "i < kCacheFrames \<and> sl_used (rt_slots c ! i) \<and> sl_frameId (rt_slots c ! i) = fid"
  then have "rt_slots c ! i \<in> set (rt_slots c)" using assms by (simp add: rt_inv_def)
  then have "FindSlot c fid \<noteq> None" using i by (auto simp: FindSlot_def FindSlot_from_None)
  then obtain j where j: "FindSlot c fid = Some j" by auto
  then have "j < kCacheFrames" "sl_used (rt_slots c ! j)" "sl_frameId (rt_slots c ! j) = fid"
    using FindSlot_from_Some [of 0 "rt_slots c" fid j] assms by (simp_all add: FindSlot_def rt_inv_def)
  then show "FindSlot c fid = Some i" using i j assms unfolding rt_inv_def by blast
qed

lemma rt_Find_slot:
  assumes "rt_inv c" "i < kCacheFrames" "sl_used (rt_slots c ! i)"
  shows "rt_Find c (sl_frameId (rt_slots c ! i)) j = slot_get (rt_slots c ! i) j"
  using assms FindSlot_Some_iff [OF assms(1), of "sl_frameId (rt_slots c ! i)" i]
  by (simp add: rt_Find_def rt_inv_def vec_at_in)

lemma rt_Find_none:
  assumes "rt_inv c" "\<And>i. i < kCacheFrames \<Longrightarrow> sl_used (rt_slots c ! i) \<Longrightarrow> sl_frameId (rt_slots c ! i) \<noteq> fid"
  shows "rt_Find c fid j = Some []"
  using assms FindSlot_Some_iff [OF assms(1), of fid]
  by (cases "FindSlot c fid") (auto simp: rt_Find_def)

text \<open>Replacing one slot: the invariant, and what every lookup then gives.\<close>

lemma replace_slot:
  assumes c: "rt_inv c" and i: "i < kCacheFrames" and s: "slot_ok s" "sl_used s" "sl_frameId s = fid"
    and uniq: "\<And>k. k < kCacheFrames \<Longrightarrow> sl_used (rt_slots c ! k) \<Longrightarrow> sl_frameId (rt_slots c ! k) = fid \<Longrightarrow> k = i"
    and n: "n < kCacheFrames"
  shows "rt_inv (c\<lparr>rt_next := n, rt_slots := (rt_slots c)[i := s]\<rparr>)"
    and "rt_Find (c\<lparr>rt_next := n, rt_slots := (rt_slots c)[i := s]\<rparr>) f j =
      (if f = fid then slot_get s j
       else if sl_used (rt_slots c ! i) \<and> sl_frameId (rt_slots c ! i) = f then Some []
       else rt_Find c f j)"
proof -
  let ?c = "c\<lparr>rt_next := n, rt_slots := (rt_slots c)[i := s]\<rparr>"
  have len: "length (rt_slots c) = kCacheFrames" using c by (simp add: rt_inv_def)
  have "i1 = i2" if a: "i1 < kCacheFrames" "i2 < kCacheFrames" "sl_used (rt_slots ?c ! i1)" "sl_used (rt_slots ?c ! i2)"
    "sl_frameId (rt_slots ?c ! i1) = sl_frameId (rt_slots ?c ! i2)" for i1 i2
  proof (cases "i1 = i \<or> i2 = i")
    case True
    then show ?thesis using a s uniq [of i1] uniq [of i2] len by (auto simp: nth_list_update split: if_splits)
  next
    case False
    then show ?thesis using a c by (auto simp: rt_inv_def)
  qed
  moreover have "\<forall>s'\<in>set (rt_slots ?c). slot_ok s'"
    using c s by (auto simp: rt_inv_def dest!: set_update_subset_insert [THEN subsetD])
  ultimately show inv: "rt_inv ?c" using n len by (simp add: rt_inv_def)
  show "rt_Find ?c f j = (if f = fid then slot_get s j
       else if sl_used (rt_slots c ! i) \<and> sl_frameId (rt_slots c ! i) = f then Some [] else rt_Find c f j)"
  proof (cases "f = fid")
    case True
    then show ?thesis using rt_Find_slot [OF inv i] s i len by simp
  next
    case f: False
    show ?thesis
    proof (cases "FindSlot c f")
      case None
      then have no: "k < kCacheFrames \<Longrightarrow> sl_used (rt_slots c ! k) \<Longrightarrow> sl_frameId (rt_slots c ! k) \<noteq> f" for k
        using FindSlot_Some_iff [OF c, of f k] by auto
      then have "rt_Find ?c f j = Some []"
      proof (intro rt_Find_none [OF inv])
        fix m
        assume "m < kCacheFrames" "sl_used (rt_slots ?c ! m)"
        then show "sl_frameId (rt_slots ?c ! m) \<noteq> f"
          using s f i len no [of m] by (cases "m = i") auto
      qed
      then show ?thesis using f None no [OF i] by (simp add: rt_Find_def)
    next
      case (Some k)
      then have k: "k < kCacheFrames" "sl_used (rt_slots c ! k)" "sl_frameId (rt_slots c ! k) = f"
        using FindSlot_Some_iff [OF c] by auto
      show ?thesis
      proof (cases "k = i")
        case True
        have "rt_Find ?c f j = Some []"
        proof (rule rt_Find_none [OF inv])
          fix m
          assume m: "m < kCacheFrames" "sl_used (rt_slots ?c ! m)"
          show "sl_frameId (rt_slots ?c ! m) \<noteq> f"
            using m s f c k True len i by (auto simp: nth_list_update rt_inv_def split: if_splits)
        qed
        then show ?thesis using f k True by simp
      next
        case False
        then have "rt_slots ?c ! k = rt_slots c ! k" by simp
        then have "rt_Find ?c f j = rt_Find c f j"
          using rt_Find_slot [OF inv k(1), of j] rt_Find_slot [OF c k(1,2), of j] k by simp
        moreover have "\<not> (sl_used (rt_slots c ! i) \<and> sl_frameId (rt_slots c ! i) = f)"
          using False k i c by (auto simp: rt_inv_def)
        ultimately show ?thesis using f by auto
      qed
    qed
  qed
qed

text \<open>The frame whose slot a store takes over, if any.\<close>

definition evicted_by :: "RetransmitCache \<Rightarrow> u32 \<Rightarrow> u32 option" where
  "evicted_by c fid =
     (if FindSlot c fid = None \<and> sl_used (rt_slots c ! rt_next c)
      then Some (sl_frameId (rt_slots c ! rt_next c)) else None)"

lemma store_packet_spec:
  assumes c: "rt_inv c" and idx: "idx < n" and d: "length d \<le> kMaxDatagram"
  shows "\<exists>c'. store_packet c fid idx n d = Some c' \<and> rt_inv c'
     \<and> (\<forall>f j. rt_Find c' f j =
          (if f = fid \<and> j = idx then Some d else if evicted_by c fid = Some f then Some [] else rt_Find c f j))"
proof (cases "FindSlot c fid")
  case None
  let ?i = "rt_next c"
  have i: "?i < kCacheFrames" and len: "length (rt_slots c) = kCacheFrames" using c by (simp_all add: rt_inv_def)
  have no: "k < kCacheFrames \<Longrightarrow> sl_used (rt_slots c ! k) \<Longrightarrow> sl_frameId (rt_slots c ! k) \<noteq> fid" for k
    using FindSlot_Some_iff [OF c, of fid k] None by auto
  have room: "unat idx < length (sl_lengths (slot_claim (rt_slots c ! ?i) fid n))"
    using idx by (simp add: slot_claim_def word_less_nat_alt)
  obtain s' where s': "slot_put (slot_claim (rt_slots c ! ?i) fid n) idx d = Some s'" "slot_ok s'"
    "sl_frameId s' = fid" "sl_used s'"
    "\<And>j. slot_get s' j = (if j = idx then Some d else Some [])"
    using slot_put_spec [OF slot_ok_claim room d] by (auto simp: slot_get_claim)
  have nx: "(?i + 1) mod kCacheFrames < kCacheFrames" by (simp add: kCacheFrames_def)
  note r = replace_slot [OF c i s'(2,4,3) _ nx]
  have "store_packet c fid idx n d = Some (c\<lparr>rt_next := (?i + 1) mod kCacheFrames, rt_slots := (rt_slots c)[?i := s']\<rparr>)"
    using None s'(1) i len by (simp add: store_packet_def vec_at_in)
  moreover have "rt_Find c fid j = Some []" for j using None by (simp add: rt_Find_def)
  ultimately show ?thesis using r no i s'(5) None by (auto simp: evicted_by_def)
next
  case (Some i)
  then have i: "i < kCacheFrames" "sl_used (rt_slots c ! i)" "sl_frameId (rt_slots c ! i) = fid"
    using FindSlot_Some_iff [OF c] by auto
  have len: "length (rt_slots c) = kCacheFrames" using c by (simp add: rt_inv_def)
  have ok: "slot_ok (rt_slots c ! i)" using c i len by (simp add: rt_inv_def)
  let ?s = "slot_grow (rt_slots c ! i) n"
  have room: "unat idx < length (sl_lengths ?s)"
    using idx by (simp add: slot_grow_def word_less_nat_alt)
  obtain s' where s': "slot_put ?s idx d = Some s'" "slot_ok s'"
    "sl_frameId s' = fid" "sl_used s'"
    "\<And>j. slot_get s' j = (if j = idx then Some d else slot_get (rt_slots c ! i) j)"
    using slot_put_spec [OF slot_ok_grow [OF ok] room d] unfolding slot_get_grow [OF ok] slot_fields i(3)
    using i(2) by blast
  have uniq: "k = i" if "k < kCacheFrames" "sl_used (rt_slots c ! k)" "sl_frameId (rt_slots c ! k) = fid" for k
    using that i c by (auto simp: rt_inv_def)
  have nx: "rt_next c < kCacheFrames" using c by (simp add: rt_inv_def)
  note r = replace_slot [OF c i(1) s'(2,4,3) uniq nx]
  have "store_packet c fid idx n d = Some (c\<lparr>rt_next := rt_next c, rt_slots := (rt_slots c)[i := s']\<rparr>)"
    using Some s'(1) i len by (simp add: store_packet_def vec_at_in)
  moreover have "rt_Find (c\<lparr>rt_next := rt_next c, rt_slots := (rt_slots c)[i := s']\<rparr>) f j =
      (if f = fid \<and> j = idx then Some d else if evicted_by c fid = Some f then Some [] else rt_Find c f j)" for f j
  proof -
    have get: "slot_get (rt_slots c ! i) j = rt_Find c fid j"
      using rt_Find_slot [OF c i(1,2), of j] unfolding i(3) by (rule sym)
    have ev: "evicted_by c fid = None" using Some by (simp add: evicted_by_def)
    show ?thesis
      by (rule trans [OF r(2)], cases "f = fid"; cases "j = idx") (use i(3) s'(5) [of j] get ev in simp_all)
  qed
  ultimately show ?thesis using r(1) by blast
qed

section \<open>Datagrams\<close>

lemma ParseVideoPacket_index:
  "ParseVideoPacket h p = some_opt v \<Longrightarrow> vh_pktIndex (vp_hdr v) < vh_pktCount (vp_hdr v)"
  by (auto simp: ParseVideoPacket_def split: if_splits Option.bind_splits)

text \<open>\<open>r\<close> is a video datagram of frame \<open>fid\<close>, packet \<open>idx\<close>.\<close>

definition is_packet :: "u32 \<Rightarrow> u16 \<Rightarrow> bytes \<Rightarrow> bool" where
  "is_packet fid idx r \<longleftrightarrow> length r \<le> kMaxDatagram \<and>
     (\<exists>h v. parse_with ParseVideoPacket r = some_opt (h, v) \<and> ch_type h = MsgVideoPacket
        \<and> vh_frameId (vp_hdr v) = fid \<and> vh_pktIndex (vp_hdr v) = idx)"

lemma Store_video:
  assumes "length d \<le> kMaxDatagram" "parse_with ParseVideoPacket d = some_opt (h, v)" "ch_type h = MsgVideoPacket"
  shows "rt_Store c d = store_packet c (vh_frameId (vp_hdr v)) (vh_pktIndex (vp_hdr v)) (vh_pktCount (vp_hdr v)) d"
  using assms by (auto simp: rt_Store_def parse_with_def split: option.splits Option.bind_splits)

lemma Store_other:
  assumes "\<And>fid idx. \<not> is_packet fid idx d"
  shows "rt_Store c d = Some c"
proof (cases "length d \<le> kMaxDatagram")
  case True
  obtain h where h: "ParseCommonHeader d = Some h" using ParseCommonHeader_safe [of d] by auto
  obtain p where p: "PayloadOf d = Some p" using PayloadOf_safe [of d] by auto
  show ?thesis
  proof (cases h)
    case (Some hd)
    obtain v where v: "ParseVideoPacket hd p = Some v" using ParseMedia_safe(1) [of hd p] by auto
    have "ch_type hd = MsgVideoPacket \<Longrightarrow> v = None"
      using assms True h p v Some by (cases v) (auto simp: is_packet_def parse_with_def)
    then show ?thesis using h p v Some by (auto simp: rt_Store_def)
  qed (use h in \<open>simp add: rt_Store_def\<close>)
qed (simp add: rt_Store_def)

lemma Store_packet:
  assumes c: "rt_inv c" and d: "is_packet fid idx d"
  shows "\<exists>c'. rt_Store c d = Some c' \<and> rt_inv c'
     \<and> (\<forall>f j. rt_Find c' f j =
          (if f = fid \<and> j = idx then Some d else if evicted_by c fid = Some f then Some [] else rt_Find c f j))"
proof -
  obtain h v where v: "parse_with ParseVideoPacket d = some_opt (h, v)" "ch_type h = MsgVideoPacket"
    "vh_frameId (vp_hdr v) = fid" "vh_pktIndex (vp_hdr v) = idx" and len: "length d \<le> kMaxDatagram"
    using d by (auto simp: is_packet_def)
  have "idx < vh_pktCount (vp_hdr v)"
    using v ParseVideoPacket_index by (auto simp: parse_with_def split: option.splits Option.bind_splits)
  from store_packet_spec [OF c this len] show ?thesis
    unfolding Store_video [OF len v(1,2)] v(3,4) by blast
qed

section \<open>The cache as a component\<close>

datatype CacheOp = CacheStore bytes | CacheFind u32 u16 | CacheReset

fun cache_step :: "RetransmitCache \<Rightarrow> CacheOp \<Rightarrow> (RetransmitCache \<times> bytes) checked" where
  "cache_step c (CacheStore d) = do { c' \<leftarrow> rt_Store c d; Some (c', []) }"
| "cache_step c (CacheFind fid idx) = do { r \<leftarrow> rt_Find c fid idx; Some (c, r) }"
| "cache_step c CacheReset = Some (rt_Reset c, [])"

definition cache_inv :: "RetransmitCache \<Rightarrow> bool" where
  "cache_inv c \<longleftrightarrow> rt_inv c \<and> (\<forall>f j. \<exists>r. rt_Find c f j = Some r \<and> (r \<noteq> [] \<longrightarrow> is_packet f j r))"

fun cache_out_ok :: "CacheOp \<Rightarrow> bytes \<Rightarrow> bool" where
  "cache_out_ok (CacheFind fid idx) r \<longleftrightarrow> r = [] \<or> is_packet fid idx r"
| "cache_out_ok _ r \<longleftrightarrow> r = []"

lemma Find_Reset: "rt_inv c \<Longrightarrow> rt_Find (rt_Reset c) f j = Some []"
  by (rule rt_Find_none [OF rt_inv_Reset]) (auto simp: rt_Reset_def rt_inv_def)

lemma Find_init: "rt_Find rt_init f j = Some []"
  by (rule rt_Find_none [OF rt_inv_init]) (simp add: rt_init_def slot_empty_def)

lemma cache_inv_init: "cache_inv rt_init"
  by (simp add: cache_inv_def rt_inv_init Find_init)

lemma cache_inv_Store:
  assumes c: "cache_inv c" and d: "is_packet fid idx d"
  shows "\<exists>c'. rt_Store c d = Some c' \<and> cache_inv c'"
proof -
  obtain c' where c': "rt_Store c d = Some c'" "rt_inv c'"
    and find: "\<forall>f j. rt_Find c' f j = (if f = fid \<and> j = idx then Some d
        else if evicted_by c fid = Some f then Some [] else rt_Find c f j)"
    using Store_packet [OF _ d] c unfolding cache_inv_def by blast
  have "\<exists>r. rt_Find c' f j = Some r \<and> (r \<noteq> [] \<longrightarrow> is_packet f j r)" for f j
  proof (cases "f = fid \<and> j = idx")
    case True
    then show ?thesis using find d by auto
  next
    case False
    then have "rt_Find c' f j = Some [] \<or> rt_Find c' f j = rt_Find c f j" using find by auto
    then show ?thesis using c unfolding cache_inv_def by auto
  qed
  then show ?thesis using c' by (auto simp: cache_inv_def)
qed

interpretation cache: component cache_step cache_inv "\<lambda>_. True" cache_out_ok
proof unfold_locales
  fix c x
  assume c: "cache_inv c"
  show "\<exists>c' r. cache_step c x = Some (c', r) \<and> cache_inv c' \<and> cache_out_ok x r"
  proof (cases x)
    case (CacheStore d)
    then show ?thesis using c cache_inv_Store [OF c, of _ _ d] Store_other [of d c] by fastforce
  next
    case (CacheFind fid idx)
    obtain r where "rt_Find c fid idx = Some r" "r \<noteq> [] \<longrightarrow> is_packet fid idx r"
      using c unfolding cache_inv_def by blast
    then show ?thesis using CacheFind c by auto
  next
    case CacheReset
    then show ?thesis using c by (simp add: cache_inv_def rt_inv_Reset Find_Reset)
  qed
qed

end
