(* ===== verification/AudioJitter.thy ===== *)
theory AudioJitter
  imports WireRoundtrip OrdMap Component
begin

text \<open>
  \<open>core/src/transport/AudioJitterBuffer.cpp\<close>: audio packets held back until enough are buffered
  and then played by sequence number, with a concealed frame for each gap. \<open>held_\<close> is an ordered
  map from sequence number to frame.
\<close>

record AudioFrame =
  af_seq :: u32
  af_timestampUs :: u64
  af_concealed :: bool
  af_payload :: bytes
  af_recovery :: bytes

record AudioStats =
  au_framesReceived :: u64
  au_framesPlayed :: u64
  au_framesConcealed :: u64
  au_framesRecoverable :: u64
  au_framesLate :: u64
  au_framesDuplicate :: u64
  au_framesDropped :: u64
  au_underruns :: u64
  au_resyncs :: u64

record AudioJitterBuffer =
  jb_held :: "(u32, AudioFrame) omap"
  jb_prefill :: u32
  jb_nextSeq :: u32
  jb_playing :: bool
  jb_stats :: AudioStats

definition kAudioFrameMs :: u32 where [kconsts]: "kAudioFrameMs = 20"
definition kDefaultAudioDelayMs :: u32 where [kconsts]: "kDefaultAudioDelayMs = 60"
definition kMinPrefillFrames :: u32 where [kconsts]: "kMinPrefillFrames = 1"
definition kMaxPrefillFrames :: u32 where [kconsts]: "kMaxPrefillFrames = 25"
definition kBurstDropThreshold :: nat where [kconsts]: "kBurstDropThreshold = 3"
definition kResyncGapFrames :: int where [kconsts]: "kResyncGapFrames = 100"

definition ClampPrefill :: "u32 \<Rightarrow> u32 \<Rightarrow> u32 \<Rightarrow> u32" where
  "ClampPrefill targetDelayMs minFrames maxFrames =
     (let frames = targetDelayMs div kAudioFrameMs
      in if frames < minFrames then minFrames else if maxFrames < frames then maxFrames else frames)"

definition audio_stats_zero :: AudioStats where
  "audio_stats_zero =
     \<lparr>au_framesReceived = 0, au_framesPlayed = 0, au_framesConcealed = 0, au_framesRecoverable = 0,
      au_framesLate = 0, au_framesDuplicate = 0, au_framesDropped = 0, au_underruns = 0, au_resyncs = 0\<rparr>"

definition jb_init :: "u32 \<Rightarrow> AudioJitterBuffer" where
  "jb_init targetDelayMs =
     \<lparr>jb_held = [], jb_prefill = ClampPrefill targetDelayMs kMinPrefillFrames kMaxPrefillFrames,
      jb_nextSeq = 0, jb_playing = False, jb_stats = audio_stats_zero\<rparr>"

definition targetDelayMs :: "AudioJitterBuffer \<Rightarrow> u32" where
  "targetDelayMs b = jb_prefill b * kAudioFrameMs"

definition jb_Reset :: "AudioJitterBuffer \<Rightarrow> AudioJitterBuffer" where
  "jb_Reset b = b\<lparr>jb_held := [], jb_playing := False, jb_nextSeq := 0\<rparr>"

definition TooLate :: "AudioJitterBuffer \<Rightarrow> u32 \<Rightarrow> bool" where
  "TooLate b seq \<longleftrightarrow> jb_playing b \<and> sint (seq - jb_nextSeq b) < 0"

text \<open>
  The loop that drops the oldest frames of a burst; \<open>held_.begin()\<close> is read after the erase, so
  an empty map there is undefined.
\<close>

function drop_burst :: "AudioJitterBuffer \<Rightarrow> AudioJitterBuffer checked" where
  "drop_burst b =
     (if length (jb_held b) > unat (jb_prefill b) + kBurstDropThreshold then
        case jb_held b of
          [] \<Rightarrow> None
        | e # rest \<Rightarrow>
            let b' = b\<lparr>jb_held := rest,
                       jb_stats := (jb_stats b)\<lparr>au_framesDropped := au_framesDropped (jb_stats b) + 1\<rparr>\<rparr>
            in if jb_playing b
               then case rest of [] \<Rightarrow> None | e' # _ \<Rightarrow> drop_burst (b'\<lparr>jb_nextSeq := fst e'\<rparr>)
               else drop_burst b'
      else Some b)"
  by pat_completeness auto
termination drop_burst
  by (relation "measure (\<lambda>b. length (jb_held b))") auto

declare drop_burst.simps [simp del]

definition jb_Push :: "AudioJitterBuffer \<Rightarrow> AudioPacketView \<Rightarrow> AudioJitterBuffer checked" where
  "jb_Push b pkt =
     (if ap_payload pkt = [] then Some b
      else let seq = ah_seq (ap_hdr pkt);
               b = b\<lparr>jb_stats := (jb_stats b)\<lparr>au_framesReceived := au_framesReceived (jb_stats b) + 1\<rparr>\<rparr>;
               ahead = sint (seq - jb_nextSeq b);
               b = (if jb_playing b \<and> (ahead > kResyncGapFrames \<or> ahead < - kResyncGapFrames)
                    then jb_Reset (b\<lparr>jb_stats := (jb_stats b)\<lparr>au_resyncs := au_resyncs (jb_stats b) + 1\<rparr>\<rparr>)
                    else b)
      in if TooLate b seq
         then Some (b\<lparr>jb_stats := (jb_stats b)\<lparr>au_framesLate := au_framesLate (jb_stats b) + 1\<rparr>\<rparr>)
      else if map_of (jb_held b) seq \<noteq> None
         then Some (b\<lparr>jb_stats := (jb_stats b)\<lparr>au_framesDuplicate := au_framesDuplicate (jb_stats b) + 1\<rparr>\<rparr>)
      else let f = \<lparr>af_seq = seq, af_timestampUs = ah_timestampUs (ap_hdr pkt), af_concealed = False,
                    af_payload = ap_payload pkt, af_recovery = []\<rparr>
      in drop_burst (b\<lparr>jb_held := om_put seq f (jb_held b)\<rparr>))"

text \<open>The part of \<open>Pop\<close> behind the prefill: play, conceal or run dry.\<close>

definition jb_play :: "AudioJitterBuffer \<Rightarrow> AudioJitterBuffer \<times> AudioFrame option" where
  "jb_play b =
     (case jb_held b of
        [] \<Rightarrow> (b\<lparr>jb_stats := (jb_stats b)\<lparr>au_underruns := au_underruns (jb_stats b) + 1\<rparr>, jb_playing := False\<rparr>, None)
      | oldest # _ \<Rightarrow>
          (case map_of (jb_held b) (jb_nextSeq b) of
             None \<Rightarrow>
               let concealed = \<lparr>af_seq = jb_nextSeq b, af_timestampUs = af_timestampUs (snd oldest),
                                af_concealed = True, af_payload = [], af_recovery = []\<rparr>;
                   b = b\<lparr>jb_nextSeq := jb_nextSeq b + 1,
                         jb_stats := (jb_stats b)\<lparr>au_framesConcealed := au_framesConcealed (jb_stats b) + 1\<rparr>\<rparr>
               in (case map_of (jb_held b) (jb_nextSeq b) of
                     None \<Rightarrow> (b, Some concealed)
                   | Some following \<Rightarrow>
                       (b\<lparr>jb_stats := (jb_stats b)\<lparr>au_framesRecoverable := au_framesRecoverable (jb_stats b) + 1\<rparr>\<rparr>,
                        Some (concealed\<lparr>af_recovery := af_payload following\<rparr>)))
           | Some out \<Rightarrow>
               (b\<lparr>jb_held := om_erase (jb_nextSeq b) (jb_held b),
                  jb_nextSeq := jb_nextSeq b + 1,
                  jb_stats := (jb_stats b)\<lparr>au_framesPlayed := au_framesPlayed (jb_stats b) + 1\<rparr>\<rparr>,
                Some out)))"

definition jb_Pop :: "AudioJitterBuffer \<Rightarrow> (AudioJitterBuffer \<times> AudioFrame option) checked" where
  "jb_Pop b =
     (if \<not> jb_playing b then
        if length (jb_held b) < unat (jb_prefill b) then Some (b, None)
        else case jb_held b of
               [] \<Rightarrow> None
             | e # _ \<Rightarrow> Some (jb_play (b\<lparr>jb_playing := True, jb_nextSeq := fst e\<rparr>))
      else Some (jb_play b))"

section \<open>The invariant\<close>

text \<open>
  \<open>Q\<close> is what is known of a held frame. The buffer never holds more than its prefill and a
  burst.
\<close>

definition jb_inv :: "(AudioFrame \<Rightarrow> bool) \<Rightarrow> AudioJitterBuffer \<Rightarrow> bool" where
  "jb_inv Q b \<longleftrightarrow>
     om_wf (jb_held b) \<and> 1 \<le> unat (jb_prefill b) \<and> unat (jb_prefill b) \<le> 25
   \<and> length (jb_held b) \<le> unat (jb_prefill b) + kBurstDropThreshold
   \<and> (\<forall>(k, f)\<in>set (jb_held b). af_seq f = k \<and> af_payload f \<noteq> [] \<and> \<not> af_concealed f \<and> Q f)"

lemma jb_inv_init: "jb_inv Q (jb_init ms)"
  by (auto simp: jb_inv_def jb_init_def ClampPrefill_def Let_def kconsts word_less_nat_alt word_le_nat_alt not_less)

lemma drop_burst_inv:
  assumes "om_wf (jb_held b)" "1 \<le> unat (jb_prefill b)" "unat (jb_prefill b) \<le> 25"
    and "\<forall>(k, f)\<in>set (jb_held b). af_seq f = k \<and> af_payload f \<noteq> [] \<and> \<not> af_concealed f \<and> Q f"
  shows "\<exists>b'. drop_burst b = Some b' \<and> jb_inv Q b' \<and> jb_prefill b' = jb_prefill b
     \<and> (\<exists>n. jb_held b' = drop n (jb_held b))"
  using assms
proof (induction b rule: drop_burst.induct)
  case (1 b)
  show ?case
  proof (cases "length (jb_held b) > unat (jb_prefill b) + kBurstDropThreshold")
    case True
    then obtain e e' rest where h: "jb_held b = e # e' # rest"
      by (cases "jb_held b"; cases "tl (jb_held b)") (auto simp: kBurstDropThreshold_def)
    let ?b = "b\<lparr>jb_held := e' # rest, jb_stats := (jb_stats b)\<lparr>au_framesDropped := au_framesDropped (jb_stats b) + 1\<rparr>\<rparr>"
    have step: "drop_burst b = drop_burst (if jb_playing b then ?b\<lparr>jb_nextSeq := fst e'\<rparr> else ?b)"
      using True h by (subst drop_burst.simps) (simp add: Let_def)
    have "\<exists>b'. drop_burst (if jb_playing b then ?b\<lparr>jb_nextSeq := fst e'\<rparr> else ?b) = Some b' \<and> jb_inv Q b'
        \<and> jb_prefill b' = jb_prefill b \<and> (\<exists>n. jb_held b' = drop n (e' # rest))"
      using 1(1) [OF True h refl _ refl] 1(2) [OF True h refl] 1(3-6) h by (cases "jb_playing b") auto
    then show ?thesis unfolding step using h by (metis drop_Suc_Cons)
  next
    case False
    then have "drop_burst b = Some b" by (subst drop_burst.simps) simp
    then show ?thesis using 1 False by (auto simp: jb_inv_def intro: exI [of _ 0])
  qed
qed

lemma jb_inv_fields [simp]:
  "jb_inv Q (b\<lparr>jb_stats := st\<rparr>) = jb_inv Q b"
  "jb_inv Q (b\<lparr>jb_nextSeq := n\<rparr>) = jb_inv Q b"
  "jb_inv Q (b\<lparr>jb_playing := p\<rparr>) = jb_inv Q b"
  by (simp_all add: jb_inv_def)

lemma jb_inv_Reset: "jb_inv Q b \<Longrightarrow> jb_inv Q (jb_Reset b)"
  by (simp add: jb_inv_def jb_Reset_def)

text \<open>The frame a packet is buffered as.\<close>

definition audio_frame :: "AudioPacketView \<Rightarrow> AudioFrame" where
  "audio_frame pkt = \<lparr>af_seq = ah_seq (ap_hdr pkt), af_timestampUs = ah_timestampUs (ap_hdr pkt),
     af_concealed = False, af_payload = ap_payload pkt, af_recovery = []\<rparr>"

lemma Push_inv:
  assumes b: "jb_inv Q b" and q: "Q (audio_frame pkt)"
  shows "\<exists>b'. jb_Push b pkt = Some b' \<and> jb_inv Q b'"
proof (cases "ap_payload pkt = []")
  case False
  let ?seq = "ah_seq (ap_hdr pkt)"
  define b1 where "b1 = b\<lparr>jb_stats := (jb_stats b)\<lparr>au_framesReceived := au_framesReceived (jb_stats b) + 1\<rparr>\<rparr>"
  define b2 where "b2 = (if jb_playing b1 \<and> (sint (?seq - jb_nextSeq b1) > kResyncGapFrames \<or> sint (?seq - jb_nextSeq b1) < - kResyncGapFrames)
      then jb_Reset (b1\<lparr>jb_stats := (jb_stats b1)\<lparr>au_resyncs := au_resyncs (jb_stats b1) + 1\<rparr>\<rparr>) else b1)"
  have b2: "jb_inv Q b2" using b by (simp add: b1_def b2_def jb_inv_Reset)
  have "\<exists>b'. drop_burst (b2\<lparr>jb_held := om_put ?seq (audio_frame pkt) (jb_held b2)\<rparr>) = Some b' \<and> jb_inv Q b'"
    using drop_burst_inv [of "b2\<lparr>jb_held := om_put ?seq (audio_frame pkt) (jb_held b2)\<rparr>" Q] b2 q False
    by (auto simp: jb_inv_def om_set_put audio_frame_def)
  then show ?thesis
    using False b2 unfolding jb_Push_def Let_def b1_def [symmetric] b2_def [symmetric] audio_frame_def
    by simp
qed (use b in \<open>simp add: jb_Push_def\<close>)

text \<open>
  What \<open>Pop\<close> gives: a held frame, or a concealed one that carries at most the payload of the
  frame after it.
\<close>

definition pop_ok :: "(AudioFrame \<Rightarrow> bool) \<Rightarrow> AudioFrame option \<Rightarrow> bool" where
  "pop_ok Q out \<longleftrightarrow> (\<forall>f. out = Some f \<longrightarrow>
     (if af_concealed f
      then af_payload f = [] \<and> (af_recovery f \<noteq> [] \<longrightarrow>
             (\<exists>g. Q g \<and> af_seq g = af_seq f + 1 \<and> af_recovery f = af_payload g))
      else af_payload f \<noteq> [] \<and> Q f))"

lemma play_inv:
  assumes b: "jb_inv Q b"
  shows "jb_inv Q (fst (jb_play b)) \<and> pop_ok Q (snd (jb_play b))
     \<and> (\<forall>f. snd (jb_play b) = Some f \<longrightarrow> af_seq f = jb_nextSeq b \<and> jb_nextSeq (fst (jb_play b)) = jb_nextSeq b + 1)"
proof -
  have held: "af_seq f = k" "af_payload f \<noteq> []" "\<not> af_concealed f" "Q f" if "map_of (jb_held b) k = Some f" for k f
    using b that by (auto simp: jb_inv_def om_find_set)
  have erased: "jb_inv Q (b\<lparr>jb_held := om_erase k (jb_held b)\<rparr>)" for k
    using b om_length_erase [of k "jb_held b"] by (auto simp: jb_inv_def)
  show ?thesis
  proof (cases "jb_held b")
    case (Cons e rest)
    show ?thesis
    proof (cases "map_of (jb_held b) (jb_nextSeq b)")
      case None
      then show ?thesis
        using b Cons held by (cases "map_of (jb_held b) (jb_nextSeq b + 1)")
          (auto simp: jb_play_def pop_ok_def Let_def simp del: map_of.simps intro!: exI)
    next
      case (Some f)
      then show ?thesis
        using erased [of "jb_nextSeq b"] Cons held [OF Some]
        by (simp add: jb_play_def pop_ok_def del: map_of.simps)
    qed
  qed (use b in \<open>simp add: jb_play_def pop_ok_def\<close>)
qed

lemma Pop_inv:
  assumes b: "jb_inv Q b"
  shows "\<exists>b' out. jb_Pop b = Some (b', out) \<and> jb_inv Q b' \<and> pop_ok Q out"
proof (cases "\<not> jb_playing b \<and> length (jb_held b) < unat (jb_prefill b)")
  case True
  then show ?thesis using b by (simp add: jb_Pop_def pop_ok_def)
next
  case False
  show ?thesis
  proof (cases "jb_playing b")
    case True
    then show ?thesis using play_inv [OF b] by (cases "jb_play b") (simp add: jb_Pop_def)
  next
    case np: False
    then obtain e rest where h: "jb_held b = e # rest"
      using False b by (cases "jb_held b") (auto simp: jb_inv_def)
    have "jb_inv Q (b\<lparr>jb_playing := True, jb_nextSeq := fst e\<rparr>)" using b by simp
    from play_inv [OF this] show ?thesis
      using np False h by (cases "jb_play (b\<lparr>jb_playing := True, jb_nextSeq := fst e\<rparr>)") (simp add: jb_Pop_def)
  qed
qed

section \<open>The buffer as a component\<close>

datatype AudioOp = AudioPush AudioPacketView | AudioPop | AudioReset

fun audio_step :: "AudioJitterBuffer \<Rightarrow> AudioOp \<Rightarrow> (AudioJitterBuffer \<times> AudioFrame option) checked" where
  "audio_step b (AudioPush pkt) = do { b' \<leftarrow> jb_Push b pkt; Some (b', None) }"
| "audio_step b AudioPop = jb_Pop b"
| "audio_step b AudioReset = Some (jb_Reset b, None)"

fun audio_legal :: "(AudioFrame \<Rightarrow> bool) \<Rightarrow> AudioOp \<Rightarrow> bool" where
  "audio_legal Q (AudioPush pkt) = Q (audio_frame pkt)"
| "audio_legal Q _ = True"

interpretation audio: component audio_step "jb_inv Q" "audio_legal Q" "\<lambda>_. pop_ok Q" for Q
proof unfold_locales
  fix b x
  assume b: "jb_inv Q b" and l: "audio_legal Q x"
  show "\<exists>b' r. audio_step b x = Some (b', r) \<and> jb_inv Q b' \<and> pop_ok Q r"
  proof (cases x)
    case (AudioPush pkt)
    then show ?thesis using Push_inv [OF b, of pkt] l by (auto simp: pop_ok_def)
  next
    case AudioPop
    then show ?thesis using Pop_inv [OF b] by auto
  qed (use b in \<open>simp add: jb_inv_Reset pop_ok_def\<close>)
qed

section \<open>A burst in any order plays back in order\<close>

lemma idle_pushes:
  assumes "\<not> jb_playing b" "jb_held b = []" "\<forall>pkt\<in>set pkts. ap_payload pkt \<noteq> []"
    and "distinct (map (\<lambda>pkt. ah_seq (ap_hdr pkt)) pkts)" "length pkts \<le> unat (jb_prefill b) + kBurstDropThreshold"
  shows "\<exists>b'. run_ops audio_step b (map AudioPush pkts) = Some (b', replicate (length pkts) None)
     \<and> \<not> jb_playing b' \<and> jb_prefill b' = jb_prefill b \<and> om_wf (jb_held b') \<and> length (jb_held b') = length pkts
     \<and> map_of (jb_held b') = map_of (map (\<lambda>pkt. (ah_seq (ap_hdr pkt), audio_frame pkt)) (rev pkts))"
  using assms(3-5)
proof (induction pkts rule: rev_induct)
  case (snoc pkt pkts)
  then obtain b1 where b1: "run_ops audio_step b (map AudioPush pkts) = Some (b1, replicate (length pkts) None)"
    "\<not> jb_playing b1" "jb_prefill b1 = jb_prefill b" "om_wf (jb_held b1)" "length (jb_held b1) = length pkts"
    "map_of (jb_held b1) = map_of (map (\<lambda>pkt. (ah_seq (ap_hdr pkt), audio_frame pkt)) (rev pkts))"
    by auto
  let ?seq = "ah_seq (ap_hdr pkt)"
  have fresh: "map_of (jb_held b1) ?seq = None"
    using snoc.prems(2) by (auto simp: b1(6) map_of_eq_None_iff)
  then have new: "?seq \<notin> fst ` set (jb_held b1)" by (simp add: map_of_eq_None_iff)
  let ?b = "b1\<lparr>jb_stats := (jb_stats b1)\<lparr>au_framesReceived := au_framesReceived (jb_stats b1) + 1\<rparr>,
        jb_held := om_put ?seq (audio_frame pkt) (jb_held b1)\<rparr>"
  have "drop_burst ?b = Some ?b"
    using snoc.prems(3) b1(3,4,5) new by (subst drop_burst.simps) (simp add: om_length_put)
  then have "jb_Push b1 pkt = Some ?b"
    using snoc.prems(1) b1(2) fresh by (simp add: jb_Push_def TooLate_def Let_def audio_frame_def)
  then show ?case
    using b1 new by (auto simp: run_ops_append om_length_put replicate_append_same)
qed (use assms(1,2) in simp)

lemma play_next:
  assumes "jb_held b = (jb_nextSeq b, f) # rest" "om_wf (jb_held b)" "jb_playing b"
  shows "\<exists>b'. jb_Pop b = Some (b', Some f) \<and> jb_held b' = rest \<and> jb_playing b' \<and> jb_nextSeq b' = jb_nextSeq b + 1"
  using assms om_erase_begin [of "(jb_nextSeq b, f)" rest] by (simp add: jb_Pop_def jb_play_def)

lemma drain_in_order:
  assumes "jb_playing b" "jb_nextSeq b = a + of_nat i" "i \<le> m"
    and "om_wf (jb_held b)" "jb_held b = map (\<lambda>j. (a + of_nat j, F j)) [i..<m]"
  shows "\<exists>b'. run_ops audio_step b (replicate (m - i) AudioPop) = Some (b', map (\<lambda>j. Some (F j)) [i..<m])
     \<and> jb_held b' = []"
  using assms
proof (induction "m - i" arbitrary: i b)
  case (Suc n)
  then have i: "i < m" by simp
  then have cons: "jb_held b = (jb_nextSeq b, F i) # map (\<lambda>j. (a + of_nat j, F j)) [Suc i..<m]"
    using Suc.prems by (simp add: upt_conv_Cons)
  obtain b' where b': "jb_Pop b = Some (b', Some (F i))" "jb_held b' = map (\<lambda>j. (a + of_nat j, F j)) [Suc i..<m]"
    "jb_playing b'" "jb_nextSeq b' = jb_nextSeq b + 1"
    using play_next [OF cons Suc.prems(4,1)] by blast
  have wf: "om_wf (jb_held b')" using Suc.prems(4) unfolding cons b'(2) by simp
  have "\<exists>b''. run_ops audio_step b' (replicate (m - Suc i) AudioPop) = Some (b'', map (\<lambda>j. Some (F j)) [Suc i..<m])
      \<and> jb_held b'' = []"
    using Suc.hyps(2) Suc.prems(2) i b' wf by (intro Suc.hyps(1)) auto
  then show ?case
    using b'(1) i by (auto simp: upt_conv_Cons Suc_diff_Suc [symmetric])
qed simp

lemma burst_in_order:
  assumes idle: "\<not> jb_playing b" "jb_held b = []" "1 \<le> unat (jb_prefill b)"
    and m: "unat (jb_prefill b) \<le> m" "m \<le> unat (jb_prefill b) + kBurstDropThreshold" "unat a + m \<le> 2 ^ 32"
    and P: "\<And>i. i < m \<Longrightarrow> ah_seq (ap_hdr (P i)) = a + of_nat i \<and> ap_payload (P i) \<noteq> []"
    and pkts: "distinct pkts" "set pkts = P ` {..<m}" "length pkts = m"
  shows "\<exists>b'. run_ops audio_step b (map AudioPush pkts @ replicate m AudioPop)
     = Some (b', replicate m None @ map (\<lambda>i. Some (audio_frame (P i))) [0..<m]) \<and> jb_held b' = []"
proof -
  have ua: "unat (a + of_nat i) = unat a + i" if "i < m" for i
  proof -
    have "i < 2 ^ 32" "unat a + i < 2 ^ 32" using that m(3) by simp_all
    then show ?thesis by (simp add: unat_word_ariths unat_of_nat take_bit_nat_eq_self)
  qed
  have inj: "i = j" if "a + of_nat i = a + of_nat j" "i < m" "j < m" for i j
  proof -
    have "unat a + i = unat a + j"
      using ua [OF that(2)] ua [OF that(3)] unfolding that(1) by (rule trans [OF sym])
    then show ?thesis by simp
  qed
  have seqs: "distinct (map (\<lambda>pkt. ah_seq (ap_hdr pkt)) pkts)"
  proof (unfold distinct_map, intro conjI inj_onI)
    fix x y
    assume "x \<in> set pkts" "y \<in> set pkts" and eq: "ah_seq (ap_hdr x) = ah_seq (ap_hdr y)"
    then obtain i j where "x = P i" "i < m" "y = P j" "j < m" by (auto simp: pkts(2))
    moreover from this have "i = j" using inj [of i j] P [of i] P [of j] eq by simp
    ultimately show "x = y" by simp
  qed (rule pkts(1))
  let ?L = "map (\<lambda>j. (a + of_nat j, audio_frame (P j))) [0..<m]"
  obtain b1 where b1: "run_ops audio_step b (map AudioPush pkts) = Some (b1, replicate m None)"
    "\<not> jb_playing b1" "jb_prefill b1 = jb_prefill b" "om_wf (jb_held b1)" "length (jb_held b1) = m"
    "map_of (jb_held b1) = map_of (map (\<lambda>pkt. (ah_seq (ap_hdr pkt), audio_frame pkt)) (rev pkts))"
    using idle_pushes [OF idle(1,2) _ seqs] pkts P m by auto
  have wf: "om_wf ?L"
    using ua by (auto simp: om_wf_def sorted_wrt_iff_nth_less word_less_nat_alt)
  let ?L' = "map (\<lambda>pkt. (ah_seq (ap_hdr pkt), audio_frame pkt)) (rev pkts)"
  have "map fst ?L' = rev (map (\<lambda>pkt. ah_seq (ap_hdr pkt)) pkts)" by (simp add: comp_def rev_map)
  then have d: "distinct (map fst ?L')" using seqs by (simp only: distinct_rev)
  have "set ?L' = set ?L" using P by (auto simp: pkts(2) image_image)
  then have "map_of ?L' = map_of ?L"
    using map_of_inject_set [OF d om_wf_distinct [OF wf]] by (simp only:)
  then have "map_of (jb_held b1) = map_of ?L" using b1(6) by (simp only:)
  then have held: "jb_held b1 = ?L" by (rule om_ext [OF b1(4) wf])
  have "0 < m" using idle(3) m(1) by simp
  then have cons: "jb_held b1 = (a, audio_frame (P 0)) # map (\<lambda>j. (a + of_nat j, audio_frame (P j))) [Suc 0..<m]"
    by (simp add: held upt_conv_Cons)
  let ?b = "b1\<lparr>jb_playing := True, jb_nextSeq := a\<rparr>"
  have "jb_Pop b1 = jb_Pop ?b"
    using b1(2,3,5) m(1) cons by (simp add: jb_Pop_def)
  then have "run_ops audio_step b1 (replicate m AudioPop) = run_ops audio_step ?b (replicate m AudioPop)"
    using \<open>0 < m\<close> by (cases m) auto
  moreover obtain b2 where "run_ops audio_step ?b (replicate m AudioPop) = Some (b2, map (\<lambda>j. Some (audio_frame (P j))) [0..<m])"
    "jb_held b2 = []"
    using drain_in_order [of ?b a 0 m "\<lambda>j. audio_frame (P j)"] b1(4) held by auto
  ultimately show ?thesis using b1(1) by (simp add: run_ops_append)
qed

end
