(* ===== verification/Pacer.thy ===== *)
theory Pacer
  imports Prelude
begin

text \<open>
  \<open>core/include/deskhub/transport/Pacer.h\<close>: the sender's token clock. \<open>nextUs_\<close> is the time the
  link is free again; all arithmetic is on 64 bit and wraps.
\<close>

record Pacer =
  pc_rateBps :: u64
  pc_nextUs :: u64

definition kPacerMinSleepUs :: u64 where [kconsts]: "kPacerMinSleepUs = 500"
definition kPacerMaxBacklogUs :: u64 where [kconsts]: "kPacerMaxBacklogUs = 100000"

definition pc_init :: Pacer where
  "pc_init = \<lparr>pc_rateBps = 0, pc_nextUs = 0\<rparr>"

definition pc_SetRateBps :: "Pacer \<Rightarrow> u64 \<Rightarrow> Pacer" where
  "pc_SetRateBps p rateBps =
     (let p = p\<lparr>pc_rateBps := rateBps\<rparr> in if rateBps = 0 then p\<lparr>pc_nextUs := 0\<rparr> else p)"

definition pc_Reset :: "Pacer \<Rightarrow> Pacer" where
  "pc_Reset p = p\<lparr>pc_nextUs := 0\<rparr>"

definition pc_Gate :: "Pacer \<Rightarrow> u64 \<Rightarrow> u64 \<Rightarrow> Pacer \<times> u64" where
  "pc_Gate p n nowUs =
     (if pc_rateBps p = 0 \<or> n = 0 then (p, 0)
      else let nextUs = (if pc_nextUs p < nowUs then nowUs else pc_nextUs p);
               nextUs = (if nextUs - nowUs > kPacerMaxBacklogUs then nowUs + kPacerMaxBacklogUs else nextUs);
               waitUs = nextUs - nowUs;
               p = p\<lparr>pc_nextUs := nextUs + n * 8 * 1000000 div pc_rateBps p\<rparr>
           in (p, if waitUs \<ge> kPacerMinSleepUs then waitUs else 0))"

text \<open>A wait is never longer than the backlog bound and never shorter than the least sleep.\<close>

lemma Gate_wait_bounds:
  "snd (pc_Gate p n nowUs) = 0 \<or>
   kPacerMinSleepUs \<le> snd (pc_Gate p n nowUs) \<and> snd (pc_Gate p n nowUs) \<le> kPacerMaxBacklogUs"
  by (auto simp: pc_Gate_def Let_def)

text \<open>
  The specification, over the natural numbers: the link frees up at the later of now and its old
  time, at most the backlog bound ahead, plus the time the bytes take at the rate.
\<close>

definition gate_spec :: "nat \<Rightarrow> nat \<Rightarrow> nat \<Rightarrow> nat \<Rightarrow> nat \<times> nat" where
  "gate_spec rate free n now =
     (let start = min (max free now) (now + 100000);
          wait = start - now
      in (start + n * 8000000 div rate, if wait \<ge> 500 then wait else 0))"

lemma unat_le_64: "unat (a :: u64) < 2 ^ 64"
  using unsigned_less [of a, where 'a = nat] by simp

lemma Gate_refines:
  assumes "pc_rateBps p \<noteq> 0" "n \<noteq> 0"
    and "unat n * 8000000 < 2 ^ 63" "unat nowUs + 100000 < 2 ^ 63"
  shows "(unat (pc_nextUs (fst (pc_Gate p n nowUs))), unat (snd (pc_Gate p n nowUs)))
       = gate_spec (unat (pc_rateBps p)) (unat (pc_nextUs p)) (unat n) (unat nowUs)"
proof -
  define start where "start = (let nextUs = (if pc_nextUs p < nowUs then nowUs else pc_nextUs p)
      in if nextUs - nowUs > kPacerMaxBacklogUs then nowUs + kPacerMaxBacklogUs else nextUs)"
  have cap: "unat (nowUs + 100000) = unat nowUs + 100000"
    using assms(4) by (simp add: unat_word_ariths)
  have st: "unat start = min (max (unat (pc_nextUs p)) (unat nowUs)) (unat nowUs + 100000)"
  proof (cases "pc_nextUs p < nowUs")
    case True
    then show ?thesis by (simp add: start_def kconsts word_less_nat_alt)
  next
    case False
    then have "unat (pc_nextUs p - nowUs) = unat (pc_nextUs p) - unat nowUs"
      by (intro unat_sub) simp
    then show ?thesis using False cap by (auto simp: start_def Let_def kconsts word_less_nat_alt)
  qed
  have wait: "unat (start - nowUs) = unat start - unat nowUs"
    by (rule unat_sub) (simp add: word_le_nat_alt st)
  have cost: "unat (n * 8 * 1000000 div pc_rateBps p) = unat n * 8000000 div unat (pc_rateBps p)"
    using assms(3) by (simp add: unat_div_distrib unat_word_ariths mult.commute)
  have "unat n * 8000000 div unat (pc_rateBps p) \<le> unat n * 8000000" by simp
  then have sum: "unat (start + n * 8 * 1000000 div pc_rateBps p) = unat start + unat n * 8000000 div unat (pc_rateBps p)"
  proof -
    have "unat start < 2 ^ 63" using st assms(4) by simp
    moreover have "unat n * 8000000 div unat (pc_rateBps p) < 2 ^ 63"
      using \<open>unat n * 8000000 div unat (pc_rateBps p) \<le> unat n * 8000000\<close> assms(3) by linarith
    ultimately have "unat start + unat n * 8000000 div unat (pc_rateBps p) < 2 ^ 64" by simp
    then show ?thesis unfolding unat_word_ariths(1) cost by simp
  qed
  have gate: "pc_Gate p n nowUs = (p\<lparr>pc_nextUs := start + n * 8 * 1000000 div pc_rateBps p\<rparr>,
      if start - nowUs \<ge> kPacerMinSleepUs then start - nowUs else 0)"
    using assms(1,2) by (simp add: pc_Gate_def start_def Let_def)
  show ?thesis
    using wait sum st by (simp add: gate gate_spec_def Let_def kconsts word_le_nat_alt)
qed

end
