(* ===== verification/Text.thy ===== *)
theory Text
  imports Prelude
begin

text \<open>
  The text helpers of the core library (\<open>src/core/src/net/RecordText.h\<close>) and the loop by which
  every configuration file is cut into lines, over byte lists. \<open>int64_t\<close> times are \<open>int\<close>,
  with the code's own overflow guard written out. \<open>std::to_string\<close> is \<open>dec\<close>.

  The locales name what a text format promises: a printed value is read back, and a file of
  printed lines is read back line by line. Every persistent store interprets them.
\<close>

section \<open>Numbers in decimal\<close>

fun dec :: "nat \<Rightarrow> bytes" where
  "dec n = (if n < 10 then [] else dec (n div 10)) @ [0x30 + of_nat (n mod 10)]"

declare dec.simps [simp del]

text \<open>\<open>std::to_string\<close> of a signed value.\<close>

definition to_string :: "int \<Rightarrow> bytes" where
  "to_string v = (if v < 0 then [0x2D] else []) @ dec (nat \<bar>v\<bar>)"

definition is_digit :: "u8 \<Rightarrow> bool" where
  "is_digit c \<longleftrightarrow> 0x30 \<le> c \<and> c \<le> 0x39"

definition int64_max :: int where
  "int64_max = 0x7FFFFFFFFFFFFFFF"

fun unix_digits :: "int \<Rightarrow> bytes \<Rightarrow> int option" where
  "unix_digits v [] = Some v"
| "unix_digits v (c # cs) =
     (if \<not> is_digit c then None
      else let digit = uint c - 0x30 in
        if v > (int64_max - digit) div 10 then None
        else unix_digits (v * 10 + digit) cs)"

definition ParseUnixTime :: "bytes \<Rightarrow> int option" where
  "ParseUnixTime s = (if s = [] \<or> length s > 19 then None else unix_digits 0 s)"

lemma uint_digit: "d < 10 \<Longrightarrow> uint (0x30 + of_nat d :: u8) = 0x30 + int d"
proof -
  assume "d < 10"
  then have "d \<in> {0, 1, 2, 3, 4, 5, 6, 7, 8, 9}" by auto
  then show ?thesis by auto
qed

lemma is_digit_dec: "d < 10 \<Longrightarrow> is_digit (0x30 + of_nat d)"
  using uint_digit [of d] by (simp add: is_digit_def word_le_def)

lemma dec_digits: "c \<in> set (dec n) \<Longrightarrow> is_digit c"
proof (induction n rule: dec.induct)
  case (1 n)
  have "dec n = (if n < 10 then [] else dec (n div 10)) @ [0x30 + of_nat (n mod 10)]"
    by (rule dec.simps)
  then have "c \<in> set (if n < 10 then [] else dec (n div 10)) \<or> c = 0x30 + of_nat (n mod 10)"
    using 1(2) by (metis (no_types) UnE list.set(1,2) set_append singletonD)
  then show ?case
  proof
    assume "c \<in> set (if n < 10 then [] else dec (n div 10))"
    then show ?thesis using 1(1) by (metis empty_iff list.set(1))
  next
    assume "c = 0x30 + of_nat (n mod 10)"
    then show ?thesis using is_digit_dec [of "n mod 10"] by simp
  qed
qed

lemma dec_ne [simp]: "dec n \<noteq> []"
  by (subst dec.simps) simp

lemma dec_small: "n < 10 \<Longrightarrow> dec n = [0x30 + of_nat n]"
  by (simp add: dec.simps)

lemma length_dec: "0 < k \<Longrightarrow> n < 10 ^ k \<Longrightarrow> length (dec n) \<le> k"
proof (induction k arbitrary: n)
  case (Suc k)
  show ?case
  proof (cases "n < 10")
    case True
    then show ?thesis by (subst dec.simps) simp
  next
    case False
    then have "0 < k" using Suc.prems by (cases k) auto
    moreover have "n div 10 < 10 ^ k" using Suc.prems by (simp add: less_mult_imp_div_less mult.commute)
    ultimately have "length (dec (n div 10)) \<le> k" using Suc.IH by blast
    then show ?thesis using False by (subst dec.simps) simp
  qed
qed simp

lemma unix_digits_append:
  "unix_digits v (xs @ ys) = Option.bind (unix_digits v xs) (\<lambda>w. unix_digits w ys)"
  by (induction v xs rule: unix_digits.induct) (auto simp: Let_def)

lemma unix_digits_dec:
  assumes "int n \<le> int64_max"
  shows "unix_digits 0 (dec n) = Some (int n)"
  using assms
proof (induction n rule: dec.induct)
  case (1 n)
  have digit: "uint (0x30 + of_nat (n mod 10) :: u8) - 0x30 = int (n mod 10)"
    using uint_digit [of "n mod 10"] by simp
  have last: "unix_digits (int (n div 10)) [0x30 + of_nat (n mod 10)] = Some (int n)"
  proof -
    have split: "int (n div 10) * 10 + int (n mod 10) = int n"
      by (simp add: zdiv_int zmod_int)
    moreover from this have "int (n div 10) * 10 div 10 \<le> (int64_max - int (n mod 10)) div 10"
      using 1(2) by (intro zdiv_mono1) linarith+
    then have "int (n div 10) \<le> (int64_max - int (n mod 10)) div 10" by simp
    ultimately show ?thesis
      using is_digit_dec [of "n mod 10"] by (simp add: digit Let_def)
  qed
  show ?case
  proof (cases "n < 10")
    case True
    then show ?thesis using last by (subst dec.simps) (simp del: unix_digits.simps)
  next
    case False
    then have "unix_digits 0 (dec (n div 10)) = Some (int (n div 10))"
      using 1 by (simp add: zdiv_int)
    then show ?thesis
      using False last by (subst dec.simps) (simp add: unix_digits_append del: unix_digits.simps)
  qed
qed

lemma ParseUnixTime_to_string:
  assumes "0 \<le> v" "v \<le> int64_max"
  shows "ParseUnixTime (to_string v) = Some v"
proof -
  have "nat v < 10 ^ 19" using assms by (simp add: int64_max_def nat_less_iff)
  then have "length (dec (nat v)) \<le> 19" by (intro length_dec) simp_all
  moreover have "unix_digits 0 (dec (nat v)) = Some v"
    using unix_digits_dec [of "nat v"] assms by simp
  ultimately show ?thesis using assms by (simp add: ParseUnixTime_def to_string_def)
qed

lemma unix_digits_range: "0 \<le> v \<Longrightarrow> v \<le> int64_max \<Longrightarrow> unix_digits v s = Some w \<Longrightarrow> 0 \<le> w \<and> w \<le> int64_max"
proof (induction v s rule: unix_digits.induct)
  case (2 v c cs)
  define digit where "digit = uint c - 0x30"
  have c: "is_digit c" "\<not> v > (int64_max - digit) div 10" "unix_digits (v * 10 + digit) cs = Some w"
    using 2 by (auto simp: Let_def digit_def split: if_splits)
  have d: "0 \<le> digit" "digit \<le> 9" using c(1) by (simp_all add: is_digit_def word_le_def digit_def)
  then have "v * 10 + digit \<le> int64_max" using c(2) by linarith
  moreover have "0 \<le> v * 10 + digit" using 2 d by simp
  ultimately show ?case using "2.IH" c digit_def by blast
qed simp

lemma ParseUnixTime_range: "ParseUnixTime s = Some v \<Longrightarrow> 0 \<le> v \<and> v \<le> int64_max"
  using unix_digits_range [of 0 s v] by (simp add: ParseUnixTime_def int64_max_def split: if_splits)

section \<open>Trimming and cleaning\<close>

definition is_space :: "u8 \<Rightarrow> bool" where
  "is_space c \<longleftrightarrow> c \<in> {0x20, 0x09, 0x0D, 0x0A}"

definition Trim :: "bytes \<Rightarrow> bytes" where
  "Trim s = rev (dropWhile is_space (rev (dropWhile is_space s)))"

text \<open>The loop of \<open>SanitizeText\<close>: \<open>out\<close> is what has been kept so far.\<close>

fun sanitize_scan :: "nat \<Rightarrow> bytes \<Rightarrow> bytes \<Rightarrow> bytes" where
  "sanitize_scan maxBytes out [] = out"
| "sanitize_scan maxBytes out (c # cs) =
     (let out = (if printable c then out @ [c] else out) in
      if length out = maxBytes then out else sanitize_scan maxBytes out cs)"

definition SanitizeText :: "bytes \<Rightarrow> nat \<Rightarrow> bytes" where
  "SanitizeText text maxBytes = Trim (sanitize_scan maxBytes [] text)"

lemma dropWhile_hd: "dropWhile P xs \<noteq> [] \<Longrightarrow> \<not> P (hd (dropWhile P xs))"
  by (induction xs) auto

lemma Trim_id: "s = [] \<or> (\<not> is_space (hd s) \<and> \<not> is_space (last s)) \<Longrightarrow> Trim s = s"
proof -
  have start: "dropWhile is_space s = s" if "\<not> is_space (hd s)" "s \<noteq> []"
    using that by (cases s) auto
  have "dropWhile is_space (rev s) = rev s" if "\<not> is_space (last s)" "s \<noteq> []"
    using that by (cases s rule: rev_cases) auto
  with start show "s = [] \<or> (\<not> is_space (hd s) \<and> \<not> is_space (last s)) \<Longrightarrow> Trim s = s"
    by (cases "s = []") (simp_all add: Trim_def)
qed

lemma set_Trim: "set (Trim s) \<subseteq> set s"
  unfolding Trim_def by (metis set_dropWhileD set_rev subsetI)

lemma length_Trim: "length (Trim s) \<le> length s"
  unfolding Trim_def by (metis dual_order.trans length_dropWhile_le length_rev)

lemma Trim_edges: "Trim s = [] \<or> (\<not> is_space (hd (Trim s)) \<and> \<not> is_space (last (Trim s)))"
proof (cases "Trim s = []")
  case False
  let ?t = "dropWhile is_space s"
  let ?u = "dropWhile is_space (rev ?t)"
  have u: "?u \<noteq> []" and eq: "Trim s = rev ?u" using False unfolding Trim_def by simp_all
  have t: "?t \<noteq> []" using u by (metis dropWhile.simps(1) rev.simps(1))
  obtain p where p: "rev ?t = p @ ?u" by (metis takeWhile_dropWhile_id)
  then have "?t = rev ?u @ rev p" by (metis rev_append rev_rev_ident)
  then have "hd (Trim s) = hd ?t" using u unfolding eq by (metis hd_append2 rev_is_Nil_conv)
  moreover have "last (Trim s) = hd ?u" unfolding eq by (rule last_rev)
  ultimately show ?thesis using dropWhile_hd [OF t] dropWhile_hd [OF u] by metis
qed simp

lemma Trim_idem [simp]: "Trim (Trim s) = Trim s"
  by (rule Trim_id) (rule Trim_edges)

lemma sanitize_scan_printable:
  "\<forall>c\<in>set out. printable c \<Longrightarrow> c \<in> set (sanitize_scan maxBytes out s) \<Longrightarrow> printable c"
proof (induction s arbitrary: out)
  case (Cons b s)
  let ?out = "if printable b then out @ [b] else out"
  have ok: "\<forall>c\<in>set ?out. printable c" using Cons.prems(1) by (cases "printable b") simp_all
  have "c \<in> set ?out \<or> c \<in> set (sanitize_scan maxBytes ?out s)"
    using Cons.prems(2) by (cases "length ?out = maxBytes") (simp_all add: Let_def)
  then show ?case using ok Cons.IH [OF ok] by blast
qed simp

lemma length_sanitize_scan:
  "length out < maxBytes \<Longrightarrow> length (sanitize_scan maxBytes out s) \<le> maxBytes"
proof (induction s arbitrary: out)
  case (Cons b s)
  show ?case using Cons.IH [of "if printable b then out @ [b] else out"] Cons.prems
    by (cases "printable b") (simp_all add: Let_def)
qed simp

lemma sanitize_scan_id:
  "\<forall>c\<in>set s. printable c \<Longrightarrow> length out + length s \<le> maxBytes \<Longrightarrow> sanitize_scan maxBytes out s = out @ s"
  by (induction s arbitrary: out) (auto simp: Let_def)

lemma SanitizeText_printable: "0 < m \<Longrightarrow> c \<in> set (SanitizeText s m) \<Longrightarrow> printable c"
  using set_Trim sanitize_scan_printable [of "[]"] by (fastforce simp: SanitizeText_def)

lemma length_SanitizeText: "0 < m \<Longrightarrow> length (SanitizeText s m) \<le> m"
  using le_trans [OF length_Trim [of "sanitize_scan m [] s"]] length_sanitize_scan [of "[]" m s]
  by (simp add: SanitizeText_def)

lemma SanitizeText_idem: "0 < m \<Longrightarrow> SanitizeText (SanitizeText s m) m = SanitizeText s m"
  using length_SanitizeText [of m] SanitizeText_printable [of m]
    sanitize_scan_id [of "SanitizeText s m" "[]" m]
  by (simp add: SanitizeText_def)

section \<open>Searching\<close>

text \<open>\<open>find(c)\<close>: the first position of a byte, \<open>None\<close> for \<open>npos\<close>.\<close>

fun find_byte :: "u8 \<Rightarrow> bytes \<Rightarrow> nat option" where
  "find_byte c [] = None"
| "find_byte c (x # xs) = (if x = c then Some 0 else map_option Suc (find_byte c xs))"

text \<open>\<open>find(c, from)\<close>.\<close>

definition find_from :: "u8 \<Rightarrow> bytes \<Rightarrow> nat \<Rightarrow> nat option" where
  "find_from c s from = map_option ((+) from) (find_byte c (drop from s))"

text \<open>\<open>substr(pos, n)\<close>, for a position inside the text.\<close>

definition substr :: "bytes \<Rightarrow> nat \<Rightarrow> nat \<Rightarrow> bytes" where
  "substr s pos n = take n (drop pos s)"

definition starts_with :: "bytes \<Rightarrow> bytes \<Rightarrow> bool" where
  "starts_with s p \<longleftrightarrow> take (length p) s = p"

lemma find_byte_None: "find_byte c s = None \<longleftrightarrow> c \<notin> set s"
  by (induction s) auto

lemma find_byte_append: "c \<notin> set xs \<Longrightarrow> find_byte c (xs @ c # ys) = Some (length xs)"
  by (induction xs) auto

lemma find_byte_Some: "find_byte c s = Some i \<Longrightarrow> i < length s \<and> s ! i = c \<and> c \<notin> set (take i s)"
  by (induction s arbitrary: i) (auto split: if_splits)

lemma find_from_append:
  "c \<notin> set ys \<Longrightarrow> from = length xs \<Longrightarrow> find_from c (xs @ ys @ c # zs) from = Some (from + length ys)"
  by (simp add: find_from_def find_byte_append)

lemma starts_with_append [simp]: "starts_with (p @ s) p"
  by (simp add: starts_with_def)

section \<open>Lines\<close>

text \<open>
  The loop \<open>while (pos < text.size()) { end = text.find('\n', pos) \<dots> pos = end + 1; }\<close>:
  a final line without its newline counts, an empty rest does not.
\<close>

function text_lines :: "bytes \<Rightarrow> bytes list" where
  "text_lines s = (if s = [] then []
     else takeWhile ((\<noteq>) 0x0A) s # text_lines (drop 1 (dropWhile ((\<noteq>) 0x0A) s)))"
  by auto
termination
proof (relation "measure length", goal_cases)
  case (2 s)
  then show ?case using length_dropWhile_le [of "(\<noteq>) 0x0A" s]
    by (cases s) (simp_all add: less_Suc_eq_le)
qed simp

declare text_lines.simps [simp del]

lemma text_lines_Nil [simp]: "text_lines [] = []"
  by (subst text_lines.simps) simp

lemma text_lines_newline: "0x0A \<notin> set l \<Longrightarrow> text_lines (l @ 0x0A # s) = l # text_lines s"
  by (subst text_lines.simps) (auto simp: takeWhile_append dropWhile_append)

lemma text_lines_last: "0x0A \<notin> set l \<Longrightarrow> l \<noteq> [] \<Longrightarrow> text_lines l = [l]"
proof -
  assume l: "0x0A \<notin> set l" "l \<noteq> []"
  have "takeWhile ((\<noteq>) 0x0A) l = l" using l(1) by (auto simp: takeWhile_eq_all_conv)
  moreover have "dropWhile ((\<noteq>) 0x0A) l = []" using l(1) by auto
  ultimately show ?thesis using l(2) text_lines.simps [of l] by (simp only: drop_Nil text_lines_Nil if_False)
qed

lemma text_lines_no_newline: "l \<in> set (text_lines s) \<Longrightarrow> 0x0A \<notin> set l"
proof (induction s rule: text_lines.induct)
  case (1 s)
  then show ?case
    by (subst (asm) (2) text_lines.simps) (auto split: if_splits dest: set_takeWhileD)
qed

text \<open>A line handed to a parser that cuts one trailing carriage return.\<close>

definition strip_cr :: "bytes \<Rightarrow> bytes" where
  "strip_cr line = (if line \<noteq> [] \<and> last line = 0x0D then butlast line else line)"

lemma strip_cr_id: "0x0D \<notin> set l \<Longrightarrow> strip_cr l = l"
  unfolding strip_cr_def by (metis last_in_set)

section \<open>Text formats\<close>

text \<open>A format whose printed form is read back, for the values it can print.\<close>

locale text_format =
  fixes printed :: "'a \<Rightarrow> bytes"
    and parsed :: "bytes \<Rightarrow> 'a option"
    and valid :: "'a \<Rightarrow> bool"
  assumes parse_print: "valid x \<Longrightarrow> parsed (printed x) = Some x"
begin

lemma print_inj: "valid x \<Longrightarrow> valid y \<Longrightarrow> printed x = printed y \<Longrightarrow> x = y"
  using parse_print by (metis option.inject)

end

text \<open>A format whose values fit one line of a file.\<close>

locale line_format = text_format printed parsed valid
  for printed :: "'a \<Rightarrow> bytes" and parsed :: "bytes \<Rightarrow> 'a option" and valid :: "'a \<Rightarrow> bool" +
  assumes one_line: "valid x \<Longrightarrow> printed x \<noteq> [] \<and> 0x0A \<notin> set (printed x)"
begin

lemma file_lines:
  assumes "\<forall>x\<in>set xs. valid x"
  shows "text_lines (concat (map (\<lambda>x. printed x @ [0x0A]) xs)) = map printed xs"
  using assms by (induction xs) (simp_all add: text_lines_newline one_line)

lemma file_read_back:
  assumes "\<forall>x\<in>set xs. valid x"
  shows "map parsed (text_lines (concat (map (\<lambda>x. printed x @ [0x0A]) xs))) = map Some xs"
  using assms by (simp add: file_lines parse_print)

end

end
