(* ===== verification/Base64.thy ===== *)
theory Base64
  imports Text
begin

text \<open>
  Base64 in both alphabets, with and without padding (\<open>src/core/src/net/Base64.cpp\<close>). The bit
  accumulator is the code's 32-bit word: what has already been written out stays in its upper bits
  and is shifted out. \<open>int\<close> counters of waiting bits are \<open>nat\<close>.
\<close>

section \<open>The code\<close>

datatype Base64Alphabet = Standard | Url
datatype Base64Padding = NoPadding | Equals

definition kStandardAlphabet :: bytes where
  "kStandardAlphabet = bytes_of ''ABCDEFGHIJKLMNOPQRSTUVWXYZabcdefghijklmnopqrstuvwxyz0123456789+/''"

definition kUrlAlphabet :: bytes where
  "kUrlAlphabet = bytes_of ''ABCDEFGHIJKLMNOPQRSTUVWXYZabcdefghijklmnopqrstuvwxyz0123456789-_''"

definition kBitsPerSymbol :: nat where [kconsts]: "kBitsPerSymbol = 6"
definition kBitsPerByte :: nat where [kconsts]: "kBitsPerByte = 8"
definition kSymbolsPerGroup :: nat where [kconsts]: "kSymbolsPerGroup = 4"

definition AlphabetOf :: "Base64Alphabet \<Rightarrow> bytes" where
  "AlphabetOf alphabet = (case alphabet of Url \<Rightarrow> kUrlAlphabet | Standard \<Rightarrow> kStandardAlphabet)"

text \<open>\<open>-1\<close> for a character outside the alphabet is \<open>None\<close>.\<close>

definition SymbolValue :: "u8 \<Rightarrow> bytes \<Rightarrow> nat option" where
  "SymbolValue symbol alphabet = find_byte symbol alphabet"

definition ends_with :: "bytes \<Rightarrow> bytes \<Rightarrow> bool" where
  "ends_with s p \<longleftrightarrow> length p \<le> length s \<and> drop (length s - length p) s = p"

definition PaddingLength :: "bytes \<Rightarrow> nat" where
  "PaddingLength s = (if ends_with s [0x3D, 0x3D] then 2 else if ends_with s [0x3D] then 1 else 0)"

text \<open>The inner loop of the encoder: the symbols it writes and the bits left waiting.\<close>

fun enc_drain :: "bytes \<Rightarrow> u32 \<Rightarrow> nat \<Rightarrow> bytes \<times> nat" where
  "enc_drain symbols bits count =
     (if count < kBitsPerSymbol \<or> kBitsPerSymbol = 0 then ([], count)
      else let (out, left) = enc_drain symbols bits (count - kBitsPerSymbol) in
        (symbols ! unat (drop_bit (count - kBitsPerSymbol) bits AND 63) # out, left))"

declare enc_drain.simps [simp del]

fun enc_scan :: "bytes \<Rightarrow> u32 \<Rightarrow> nat \<Rightarrow> bytes \<Rightarrow> bytes" where
  "enc_scan symbols bits count [] =
     (if count \<noteq> 0 then [symbols ! unat (push_bit (kBitsPerSymbol - count) bits AND 63)] else [])"
| "enc_scan symbols bits count (b # bs) =
     (let bits = push_bit kBitsPerByte bits OR ucast b;
          (out, left) = enc_drain symbols bits (count + kBitsPerByte)
      in out @ enc_scan symbols bits left bs)"

function pad_equals :: "bytes \<Rightarrow> bytes" where
  "pad_equals out = (if length out mod kSymbolsPerGroup \<noteq> 0 then pad_equals (out @ [0x3D]) else out)"
  by auto
termination
  by (relation "measure (\<lambda>out. (4 - length out mod 4) mod 4)") (auto simp: kconsts mod_Suc)

declare pad_equals.simps [simp del]

definition EncodeBase64 :: "bytes \<Rightarrow> Base64Alphabet \<Rightarrow> Base64Padding \<Rightarrow> bytes" where
  "EncodeBase64 bs alphabet padding =
     (let out = enc_scan (AlphabetOf alphabet) 0 0 bs in
      if padding = Equals then pad_equals out else out)"

fun dec_scan :: "bytes \<Rightarrow> u32 \<Rightarrow> nat \<Rightarrow> bytes \<Rightarrow> bytes \<Rightarrow> (u32 \<times> nat \<times> bytes) option" where
  "dec_scan symbols bits count out [] = Some (bits, count, out)"
| "dec_scan symbols bits count out (c # cs) =
     (case SymbolValue c symbols of
        None \<Rightarrow> None
      | Some v \<Rightarrow>
          let bits = push_bit kBitsPerSymbol bits OR of_nat v;
              count = count + kBitsPerSymbol
          in if kBitsPerByte \<le> count
             then dec_scan symbols bits (count - kBitsPerByte)
                    (out @ [ucast (drop_bit (count - kBitsPerByte) bits AND 0xFF)]) cs
             else dec_scan symbols bits count out cs)"

definition DecodeBase64 :: "bytes \<Rightarrow> Base64Alphabet \<Rightarrow> bytes option" where
  "DecodeBase64 s alphabet =
     (if s = [] \<or> length s mod kSymbolsPerGroup = 1 then None
      else let padding = PaddingLength s in
        if padding \<noteq> 0 \<and> length s mod kSymbolsPerGroup \<noteq> 0 then None
        else case dec_scan (AlphabetOf alphabet) 0 0 [] (take (length s - padding) s) of
          None \<Rightarrow> None
        | Some (bits, count, out) \<Rightarrow>
            let leftoverBitsSet = (count \<noteq> 0 \<and> bits AND (push_bit count 1 - 1) \<noteq> 0);
                paddingMismatch = (padding = 1 \<and> count \<noteq> 2 \<or> padding = 2 \<and> count \<noteq> 4)
            in if leftoverBitsSet \<or> paddingMismatch then None else Some out)"

section \<open>The alphabets\<close>

lemma alphabet_length [simp]: "length (AlphabetOf a) = 64"
  by (cases a) (simp_all add: AlphabetOf_def kStandardAlphabet_def kUrlAlphabet_def bytes_of_def)

lemma alphabet_distinct: "distinct (AlphabetOf a)"
proof (cases a)
  case Standard
  moreover have "distinct kStandardAlphabet" by code_simp
  ultimately show ?thesis by (simp add: AlphabetOf_def)
next
  case Url
  moreover have "distinct kUrlAlphabet" by code_simp
  ultimately show ?thesis by (simp add: AlphabetOf_def)
qed

lemma alphabet_chars: "c \<in> set (AlphabetOf a) \<Longrightarrow> 0x20 < c \<and> c < 0x7F \<and> c \<noteq> 0x3D"
proof (cases a)
  case Standard
  moreover have "list_all (\<lambda>c. 0x20 < c \<and> c < 0x7F \<and> c \<noteq> 0x3D) kStandardAlphabet" by code_simp
  ultimately show "c \<in> set (AlphabetOf a) \<Longrightarrow> ?thesis" by (auto simp: AlphabetOf_def list_all_iff)
next
  case Url
  moreover have "list_all (\<lambda>c. 0x20 < c \<and> c < 0x7F \<and> c \<noteq> 0x3D) kUrlAlphabet" by code_simp
  ultimately show "c \<in> set (AlphabetOf a) \<Longrightarrow> ?thesis" by (auto simp: AlphabetOf_def list_all_iff)
qed

lemma find_byte_nth: "distinct xs \<Longrightarrow> i < length xs \<Longrightarrow> find_byte (xs ! i) xs = Some i"
proof (induction xs arbitrary: i)
  case (Cons x xs)
  then show ?case by (cases i) (auto dest: nth_mem)
qed simp

lemma SymbolValue_nth: "i < 64 \<Longrightarrow> SymbolValue (AlphabetOf a ! i) (AlphabetOf a) = Some i"
  by (simp add: SymbolValue_def find_byte_nth alphabet_distinct)

lemma SymbolValue_Some: "SymbolValue c (AlphabetOf a) = Some v \<longleftrightarrow> v < 64 \<and> AlphabetOf a ! v = c"
  using find_byte_Some [of c "AlphabetOf a" v] SymbolValue_nth [of v a] by (auto simp: SymbolValue_def)

lemma symbol_mask: "unat (x AND 63 :: u32) < 64"
  using word_and_le1 [of x 63] by (simp add: word_le_nat_alt)

lemma six_bits: "x AND 63 = (take_bit 6 x :: u32)"
  by (simp add: take_bit_eq_mask mask_eq_exp_minus_1)

lemma eight_bits: "x AND 0xFF = (take_bit 8 x :: u32)"
  by (simp add: take_bit_eq_mask mask_eq_exp_minus_1)

section \<open>Groups\<close>

text \<open>A group of three bytes becomes four symbols, whatever is left in the accumulator.\<close>

definition sym :: "Base64Alphabet \<Rightarrow> u32 \<Rightarrow> u8" where
  "sym a x = AlphabetOf a ! unat (take_bit 6 x)"

lemma drain_small: "count < 6 \<Longrightarrow> enc_drain (AlphabetOf a) bits count = ([], count)"
  by (subst enc_drain.simps) (simp add: kconsts)

lemma drain_big:
  "6 \<le> count \<Longrightarrow> count < 12 \<Longrightarrow> enc_drain (AlphabetOf a) bits count = ([sym a (drop_bit (count - 6) bits)], count - 6)"
  by (subst enc_drain.simps) (simp add: kconsts drain_small sym_def six_bits)

lemma drain_twice:
  "12 \<le> count \<Longrightarrow> count < 18 \<Longrightarrow>
   enc_drain (AlphabetOf a) bits count = ([sym a (drop_bit (count - 6) bits), sym a (drop_bit (count - 12) bits)], count - 12)"
  by (subst enc_drain.simps) (simp add: kconsts drain_big sym_def six_bits)

definition acc8 :: "u32 \<Rightarrow> u8 \<Rightarrow> u32" where "acc8 bits b = push_bit 8 bits OR ucast b"
definition acc6 :: "u32 \<Rightarrow> u32 \<Rightarrow> u32" where "acc6 bits v = push_bit 6 bits OR v"

lemma enc_steps:
  "enc_scan (AlphabetOf a) bits 0 (b # bs) = sym a (drop_bit 2 (acc8 bits b)) # enc_scan (AlphabetOf a) (acc8 bits b) 2 bs"
  "enc_scan (AlphabetOf a) bits 2 (b # bs) = sym a (drop_bit 4 (acc8 bits b)) # enc_scan (AlphabetOf a) (acc8 bits b) 4 bs"
  "enc_scan (AlphabetOf a) bits 4 (b # bs) =
     sym a (drop_bit 6 (acc8 bits b)) # sym a (acc8 bits b) # enc_scan (AlphabetOf a) (acc8 bits b) 0 bs"
  by (simp_all add: drain_big drain_twice kconsts acc8_def Let_def)

lemma enc_ends:
  "enc_scan (AlphabetOf a) bits 0 [] = []"
  "enc_scan (AlphabetOf a) bits 2 [] = [sym a (push_bit 4 bits)]"
  "enc_scan (AlphabetOf a) bits 4 [] = [sym a (push_bit 2 bits)]"
  by (simp_all add: kconsts sym_def six_bits)

lemma SymbolValue_sym: "SymbolValue (sym a x) (AlphabetOf a) = Some (unat (take_bit 6 x))"
  using symbol_mask [of x] by (simp add: sym_def SymbolValue_nth six_bits)

lemma dec_steps:
  assumes "SymbolValue c (AlphabetOf a) = Some v"
  shows
  "dec_scan (AlphabetOf a) bits 0 out (c # cs) = dec_scan (AlphabetOf a) (acc6 bits (of_nat v)) 6 out cs"
  "dec_scan (AlphabetOf a) bits 6 out (c # cs)
     = dec_scan (AlphabetOf a) (acc6 bits (of_nat v)) 4 (out @ [ucast (drop_bit 4 (acc6 bits (of_nat v)))]) cs"
  "dec_scan (AlphabetOf a) bits 4 out (c # cs)
     = dec_scan (AlphabetOf a) (acc6 bits (of_nat v)) 2 (out @ [ucast (drop_bit 2 (acc6 bits (of_nat v)))]) cs"
  "dec_scan (AlphabetOf a) bits 2 out (c # cs)
     = dec_scan (AlphabetOf a) (acc6 bits (of_nat v)) 0 (out @ [ucast (acc6 bits (of_nat v))]) cs"
proof -
  have cut: "ucast (x AND 0xFF :: u32) = (ucast x :: u8)" for x
    by (rule bit_word_eqI) (simp add: eight_bits bit_simps)
  show "dec_scan (AlphabetOf a) bits 0 out (c # cs) = dec_scan (AlphabetOf a) (acc6 bits (of_nat v)) 6 out cs"
  "dec_scan (AlphabetOf a) bits 6 out (c # cs)
     = dec_scan (AlphabetOf a) (acc6 bits (of_nat v)) 4 (out @ [ucast (drop_bit 4 (acc6 bits (of_nat v)))]) cs"
  "dec_scan (AlphabetOf a) bits 4 out (c # cs)
     = dec_scan (AlphabetOf a) (acc6 bits (of_nat v)) 2 (out @ [ucast (drop_bit 2 (acc6 bits (of_nat v)))]) cs"
  "dec_scan (AlphabetOf a) bits 2 out (c # cs)
     = dec_scan (AlphabetOf a) (acc6 bits (of_nat v)) 0 (out @ [ucast (acc6 bits (of_nat v))]) cs"
    by (simp_all add: assms kconsts acc6_def cut Let_def)
qed

section \<open>Reading back\<close>

lemma below_8: "n < 8 \<Longrightarrow> n = 0 \<or> n = 1 \<or> n = 2 \<or> n = 3 \<or> n = 4 \<or> n = 5 \<or> n = 6 \<or> n = (7 :: nat)"
  by linarith

lemma below_6: "n < 6 \<Longrightarrow> n = 0 \<or> n = 1 \<or> n = 2 \<or> n = 3 \<or> n = 4 \<or> n = (5 :: nat)"
  by linarith

text \<open>The four symbols of a group give its three bytes, and the other way round.\<close>

lemma byte_eqI: "(\<And>n. n < 8 \<Longrightarrow> bit x n = bit y n) \<Longrightarrow> x = (y :: u8)"
  by (rule bit_word_eqI) simp

lemma no_bit_8: "8 \<le> n \<Longrightarrow> \<not> bit (b :: u8) n"
  using bit_imp_le_length [of b n] by auto

lemma six_eqI: "(\<And>n. n < 6 \<Longrightarrow> bit x n = bit y n) \<Longrightarrow> take_bit 6 y = y \<Longrightarrow> take_bit 6 x = (y :: u32)"
  by (rule bit_eqI) (metis bit_take_bit_iff)

lemma bytes_of_symbols:
  "ucast (drop_bit 4 (acc6 (acc6 B (take_bit 6 (drop_bit 2 (acc8 Z a)))) (take_bit 6 (drop_bit 4 (acc8 (acc8 Z a) b))))) = a"
  "ucast (drop_bit 2 (acc6 (acc6 B (take_bit 6 (drop_bit 4 (acc8 Z b)))) (take_bit 6 (drop_bit 6 (acc8 (acc8 Z b) c))))) = b"
  "ucast (acc6 (acc6 B (take_bit 6 (drop_bit 6 (acc8 Z c)))) (take_bit 6 (acc8 Z c))) = c"
  "ucast (drop_bit 4 (acc6 (acc6 B (take_bit 6 (drop_bit 2 (acc8 Z a)))) (take_bit 6 (push_bit 4 (acc8 Z a))))) = a"
  "ucast (drop_bit 2 (acc6 (acc6 B (take_bit 6 (drop_bit 4 (acc8 Z b)))) (take_bit 6 (push_bit 2 (acc8 Z b))))) = b"
  by (rule byte_eqI, drule below_8, elim disjE; simp add: acc6_def acc8_def bit_simps no_bit_8)+

lemma rest_clear:
  "take_bit 4 (acc6 B (take_bit 6 (push_bit 4 Z))) = 0" "take_bit 2 (acc6 B (take_bit 6 (push_bit 2 Z))) = 0"
  by (rule bit_eqI; auto simp: acc6_def bit_simps)+

lemma symbols_of_bytes:
  assumes "take_bit 6 v = v" "take_bit 6 w = w"
  shows "take_bit 6 (drop_bit 2 (acc8 Z (ucast (drop_bit 4 (acc6 (acc6 B v) w))))) = v"
    "take_bit 6 (drop_bit 4 (acc8 (acc8 Z (ucast (drop_bit 4 (acc6 B v)))) (ucast (drop_bit 2 (acc6 (acc6 B v) w))))) = v"
    "take_bit 6 (drop_bit 6 (acc8 (acc8 Z (ucast (drop_bit 2 (acc6 B v)))) (ucast (acc6 (acc6 B v) w)))) = v"
    "take_bit 6 (acc8 Z (ucast (acc6 B v))) = v"
proof -
  have six: "bit x n \<Longrightarrow> n < 6" if "take_bit 6 x = x" for x :: u32 and n
    using that by (metis bit_take_bit_iff)
  show "take_bit 6 (drop_bit 2 (acc8 Z (ucast (drop_bit 4 (acc6 (acc6 B v) w))))) = v"
    "take_bit 6 (drop_bit 4 (acc8 (acc8 Z (ucast (drop_bit 4 (acc6 B v)))) (ucast (drop_bit 2 (acc6 (acc6 B v) w))))) = v"
    "take_bit 6 (drop_bit 6 (acc8 (acc8 Z (ucast (drop_bit 2 (acc6 B v)))) (ucast (acc6 (acc6 B v) w)))) = v"
    "take_bit 6 (acc8 Z (ucast (acc6 B v))) = v"
    by (rule six_eqI [OF _ assms(1)], drule below_6, elim disjE;
        simp add: acc6_def acc8_def bit_simps no_bit_8; use six [OF assms(2)] in fastforce)+
qed

lemma last_symbols:
  assumes "take_bit 6 v = v"
  shows "take_bit 4 v = 0 \<Longrightarrow> take_bit 6 (push_bit 4 (acc8 Z (ucast (drop_bit 4 (acc6 B v))))) = v"
    "take_bit 2 v = 0 \<Longrightarrow> take_bit 6 (push_bit 2 (acc8 Z (ucast (drop_bit 2 (acc6 B v))))) = v"
proof -
  have low: "\<not> bit v n" if "take_bit k v = 0" "n < k" for k n
    using that by (metis bit_0_eq bit_take_bit_iff bot_apply bot_bool_def)
  show "take_bit 4 v = 0 \<Longrightarrow> take_bit 6 (push_bit 4 (acc8 Z (ucast (drop_bit 4 (acc6 B v))))) = v"
    by (rule six_eqI [OF _ assms], drule below_6, elim disjE; simp add: low acc6_def acc8_def bit_simps no_bit_8)
  show "take_bit 2 v = 0 \<Longrightarrow> take_bit 6 (push_bit 2 (acc8 Z (ucast (drop_bit 2 (acc6 B v))))) = v"
    by (rule six_eqI [OF _ assms], drule below_6, elim disjE; simp add: low acc6_def acc8_def bit_simps no_bit_8)
qed

lemma triple_induct [case_names Nil One Two Group]:
  assumes "P []" "\<And>a. P [a]" "\<And>a b. P [a, b]" "\<And>a b c xs. P xs \<Longrightarrow> P (a # b # c # xs)"
  shows "P xs"
proof (induction xs rule: length_induct)
  case (1 xs)
  then show ?case using assms
    by (cases xs; cases "tl xs"; cases "tl (tl xs)") (auto simp: neq_Nil_conv)
qed

lemma of_nat_unat_six: "of_nat (unat (take_bit 6 x :: u32)) = (take_bit 6 x :: u32)"
  by simp

lemma dec_enc:
  "\<exists>B' C. dec_scan (AlphabetOf al) B 0 out (enc_scan (AlphabetOf al) Z 0 bs) = Some (B', C, out @ bs)
     \<and> take_bit C B' = 0 \<and> C = (if length bs mod 3 = 0 then 0 else if length bs mod 3 = 1 then 4 else 2)"
proof (induction bs arbitrary: B Z out rule: triple_induct)
  case Nil
  then show ?case by (simp add: enc_ends)
next
  case (One a)
  then show ?case
    by (simp only: enc_steps enc_ends dec_steps [OF SymbolValue_sym] of_nat_unat_six bytes_of_symbols dec_scan.simps(1) append_assoc append_Cons append_Nil)
       (simp add: rest_clear)
next
  case (Two a b)
  then show ?case
    by (simp only: enc_steps enc_ends dec_steps [OF SymbolValue_sym] of_nat_unat_six bytes_of_symbols dec_scan.simps(1) append_assoc append_Cons append_Nil)
       (simp add: rest_clear)
next
  case (Group a b c xs)
  have "length (a # b # c # xs) = length xs + 3" by simp
  then have len: "length (a # b # c # xs) mod 3 = length xs mod 3" by (simp only: mod_add_self2)
  show ?case
    unfolding len
    by (simp only: enc_steps dec_steps [OF SymbolValue_sym] of_nat_unat_six bytes_of_symbols append_assoc append_Cons append_Nil)
       (rule Group [of _ "out @ [a, b, c]", simplified append_assoc append_Cons append_Nil])
qed

lemma length_enc:
  "length (enc_scan (AlphabetOf al) Z 0 bs) mod 4 = (if length bs mod 3 = 0 then 0 else if length bs mod 3 = 1 then 2 else 3)"
proof (induction bs arbitrary: Z rule: triple_induct)
  case (Group a b c xs)
  have "length (enc_scan (AlphabetOf al) Z 0 (a # b # c # xs))
      = length (enc_scan (AlphabetOf al) (acc8 (acc8 (acc8 Z a) b) c) 0 xs) + 4" by (simp only: enc_steps) simp
  moreover have "length (a # b # c # xs) = length xs + 3" by simp
  ultimately show ?case using Group by (simp only: mod_add_self2)
qed (simp_all only: enc_steps enc_ends, simp_all)

lemma length_enc_exact: "length (enc_scan (AlphabetOf al) Z 0 bs) = (length bs * 4 + 2) div 3"
  by (induction bs arbitrary: Z rule: triple_induct) (simp_all only: enc_steps enc_ends, simp_all)

lemma sym_in: "sym al x \<in> set (AlphabetOf al)"
  using symbol_mask [of x] by (simp add: sym_def six_bits)

lemma set_enc: "set (enc_scan (AlphabetOf al) Z 0 bs) \<subseteq> set (AlphabetOf al)"
  by (induction bs arbitrary: Z rule: triple_induct) (simp_all only: enc_steps enc_ends, simp_all add: sym_in)

lemma enc_ne: "bs \<noteq> [] \<Longrightarrow> enc_scan (AlphabetOf al) Z 0 bs \<noteq> []"
  by (cases bs) (simp_all only: enc_steps, simp_all)

lemma pad_more: "length out mod 4 = 3 \<Longrightarrow> pad_equals out = out @ [0x3D]"
  "length out mod 4 = 2 \<Longrightarrow> pad_equals out = out @ [0x3D, 0x3D]" "length out mod 4 = 0 \<Longrightarrow> pad_equals out = out"
proof -
  have full: "length out mod 4 = 0 \<Longrightarrow> pad_equals out = out" for out
    by (subst pad_equals.simps) (simp add: kconsts)
  then have one: "length out mod 4 = 3 \<Longrightarrow> pad_equals out = out @ [0x3D]" for out
    by (subst pad_equals.simps) (simp add: kconsts mod_Suc)
  then show "length out mod 4 = 2 \<Longrightarrow> pad_equals out = out @ [0x3D, 0x3D]"
    by (subst pad_equals.simps) (simp add: kconsts mod_Suc)
  show "length out mod 4 = 3 \<Longrightarrow> pad_equals out = out @ [0x3D]" "length out mod 4 = 0 \<Longrightarrow> pad_equals out = out"
    by (fact one, fact full)
qed

lemma PaddingLength_body:
  assumes "t = [] \<or> last t \<noteq> 0x3D"
  shows "PaddingLength t = 0" "t \<noteq> [] \<Longrightarrow> PaddingLength (t @ [0x3D]) = 1" "PaddingLength (t @ [0x3D, 0x3D]) = 2"
  using assms by (cases t rule: rev_cases; auto simp: PaddingLength_def ends_with_def Suc_diff_le)+

section \<open>Only what an encoder writes is accepted\<close>

lemma quad_induct [case_names Nil One Two Three Group]:
  assumes "P []" "\<And>a. P [a]" "\<And>a b. P [a, b]" "\<And>a b c. P [a, b, c]"
    "\<And>a b c d xs. P xs \<Longrightarrow> P (a # b # c # d # xs)"
  shows "P xs"
proof (induction xs rule: length_induct)
  case (1 xs)
  then show ?case using assms
    by (cases xs; cases "tl xs"; cases "tl (tl xs)"; cases "tl (tl (tl xs))") (auto simp: neq_Nil_conv)
qed

lemma of_nat_six: "v < 64 \<Longrightarrow> take_bit 6 (of_nat v :: u32) = of_nat v \<and> unat (of_nat v :: u32) = v"
proof -
  assume "v < 64"
  then have "unat (of_nat v :: u32) = v" by (simp add: unat_of_nat)
  moreover from this have "unat (take_bit 6 (of_nat v :: u32)) = v" using \<open>v < 64\<close>
    by (simp add: unsigned_take_bit_eq take_bit_nat_eq_self)
  ultimately show ?thesis by (simp add: word_unat_eq_iff)
qed

lemma symbol_decoded:
  assumes "SymbolValue c (AlphabetOf al) = Some v"
  shows "take_bit 6 (of_nat v :: u32) = of_nat v" "take_bit 6 x = of_nat v \<Longrightarrow> sym al x = c"
  using assms of_nat_six [of v] by (auto simp: SymbolValue_Some sym_def)

lemma dec_none: "SymbolValue c (AlphabetOf al) = None \<Longrightarrow> dec_scan (AlphabetOf al) B k out (c # cs) = None"
  by simp

lemma low_acc6: "take_bit 6 v = v \<Longrightarrow> k \<le> 6 \<Longrightarrow> take_bit k (acc6 B v) = take_bit k v"
  by (rule bit_eqI) (auto simp: acc6_def bit_simps)

lemma dec_canonical:
  assumes "dec_scan (AlphabetOf al) B 0 out t = Some (B', C, out')" "length t mod 4 \<noteq> 1" "take_bit C B' = 0"
  shows "\<exists>bs. out' = out @ bs \<and> t = enc_scan (AlphabetOf al) Z 0 bs
     \<and> C = (if length t mod 4 = 0 then 0 else if length t mod 4 = 2 then 4 else 2)"
  using assms
proof (induction t arbitrary: B Z out rule: quad_induct)
  case Nil
  then show ?case by (intro exI [of _ "[]"]) (simp add: enc_ends)
next
  case (One c1)
  then show ?case by simp
next
  case (Two c1 c2)
  obtain v1 where v1: "SymbolValue c1 (AlphabetOf al) = Some v1" using Two dec_none by (metis not_Some_eq)
  obtain v2 where v2: "SymbolValue c2 (AlphabetOf al) = Some v2"
    using Two(1) dec_none by (metis not_Some_eq dec_steps(1) [OF v1])
  note v = v1 v2
  have res: "B' = acc6 (acc6 B (of_nat v1)) (of_nat v2)" "C = 4"
    "out' = out @ [ucast (drop_bit 4 (acc6 (acc6 B (of_nat v1)) (of_nat v2)))]"
    using Two(1) by (simp_all only: dec_steps(1) [OF v(1)] dec_steps(2) [OF v(2)]) auto
  have "take_bit 4 (of_nat v2 :: u32) = 0"
    using Two(3) low_acc6 [OF symbol_decoded(1) [OF v(2)]] by (simp add: res)
  then show ?case
    by (intro exI [of _ "[ucast (drop_bit 4 (acc6 (acc6 B (of_nat v1)) (of_nat v2)))]"])
       (simp add: res enc_steps enc_ends symbol_decoded [OF v(1)] symbol_decoded [OF v(2)]
          symbols_of_bytes last_symbols del: enc_scan.simps)
next
  case (Three c1 c2 c3)
  obtain v1 where v1: "SymbolValue c1 (AlphabetOf al) = Some v1" using Three dec_none by (metis not_Some_eq)
  obtain v2 where v2: "SymbolValue c2 (AlphabetOf al) = Some v2"
    using Three(1) dec_none by (metis not_Some_eq dec_steps(1) [OF v1])
  obtain v3 where v3: "SymbolValue c3 (AlphabetOf al) = Some v3"
    using Three(1) dec_none by (metis not_Some_eq dec_steps(1) [OF v1] dec_steps(2) [OF v2])
  let ?B2 = "acc6 (acc6 B (of_nat v1)) (of_nat v2)"
  have res: "B' = acc6 ?B2 (of_nat v3)" "C = 2"
    "out' = out @ [ucast (drop_bit 4 ?B2), ucast (drop_bit 2 (acc6 ?B2 (of_nat v3)))]"
    using Three(1) by (simp_all only: dec_steps(1) [OF v1] dec_steps(2) [OF v2] dec_steps(3) [OF v3]) auto
  have "take_bit 2 (of_nat v3 :: u32) = 0"
    using Three(3) low_acc6 [OF symbol_decoded(1) [OF v3]] by (simp add: res)
  then show ?case
    by (intro exI [of _ "[ucast (drop_bit 4 ?B2), ucast (drop_bit 2 (acc6 ?B2 (of_nat v3)))]"])
       (simp add: res enc_steps enc_ends symbol_decoded [OF v1] symbol_decoded [OF v2] symbol_decoded [OF v3]
          symbols_of_bytes last_symbols del: enc_scan.simps)
next
  case (Group c1 c2 c3 c4 cs)
  obtain v1 where v1: "SymbolValue c1 (AlphabetOf al) = Some v1" using Group(2) dec_none by (metis not_Some_eq)
  obtain v2 where v2: "SymbolValue c2 (AlphabetOf al) = Some v2"
    using Group(2) dec_none by (metis not_Some_eq dec_steps(1) [OF v1])
  obtain v3 where v3: "SymbolValue c3 (AlphabetOf al) = Some v3"
    using Group(2) dec_none by (metis not_Some_eq dec_steps(1) [OF v1] dec_steps(2) [OF v2])
  obtain v4 where v4: "SymbolValue c4 (AlphabetOf al) = Some v4"
    using Group(2) dec_none by (metis not_Some_eq dec_steps(1) [OF v1] dec_steps(2) [OF v2] dec_steps(3) [OF v3])
  let ?B2 = "acc6 (acc6 B (of_nat v1)) (of_nat v2)"
  let ?B3 = "acc6 ?B2 (of_nat v3)"
  let ?B4 = "acc6 ?B3 (of_nat v4)"
  let ?b1 = "ucast (drop_bit 4 ?B2) :: u8" and ?b2 = "ucast (drop_bit 2 ?B3) :: u8" and ?b3 = "ucast ?B4 :: u8"
  have "length (c1 # c2 # c3 # c4 # cs) = length cs + 4" by simp
  then have len: "length (c1 # c2 # c3 # c4 # cs) mod 4 = length cs mod 4" by (simp only: mod_add_self2)
  have rest: "dec_scan (AlphabetOf al) ?B4 0 (out @ [?b1, ?b2, ?b3]) cs = Some (B', C, out')"
    using Group(2) by (simp only: dec_steps(1) [OF v1] dec_steps(2) [OF v2] dec_steps(3) [OF v3] dec_steps(4) [OF v4]
      append_assoc append_Cons append_Nil)
  have "length cs mod 4 \<noteq> 1" using Group(3) unfolding len .
  from Group(1) [OF rest this Group(4), of "acc8 (acc8 (acc8 Z ?b1) ?b2) ?b3"]
  obtain bs where bs: "out' = (out @ [?b1, ?b2, ?b3]) @ bs"
    "cs = enc_scan (AlphabetOf al) (acc8 (acc8 (acc8 Z ?b1) ?b2) ?b3) 0 bs"
    "C = (if length cs mod 4 = 0 then 0 else if length cs mod 4 = 2 then 4 else 2)"
    by (elim exE conjE) (rule that)
  have "enc_scan (AlphabetOf al) Z 0 (?b1 # ?b2 # ?b3 # bs) = c1 # c2 # c3 # c4 # cs"
    by (simp only: enc_steps bs(2) [symmetric]
        symbol_decoded(2) [OF v1 symbols_of_bytes(1) [OF symbol_decoded(1) [OF v1] symbol_decoded(1) [OF v2]]]
        symbol_decoded(2) [OF v2 symbols_of_bytes(2) [OF symbol_decoded(1) [OF v2] symbol_decoded(1) [OF v3]]]
        symbol_decoded(2) [OF v3 symbols_of_bytes(3) [OF symbol_decoded(1) [OF v3] symbol_decoded(1) [OF v4]]]
        symbol_decoded(2) [OF v4 symbols_of_bytes(4) [OF symbol_decoded(1) [OF v4] symbol_decoded(1) [OF v4]]])
  then show ?case
    unfolding len using bs(1,3) by (intro exI [of _ "?b1 # ?b2 # ?b3 # bs"]) simp
qed

section \<open>The two directions\<close>

lemma enc_last: "bs = [] \<or> last (enc_scan (AlphabetOf al) Z 0 bs) \<noteq> 0x3D"
  using set_enc [of al Z bs] enc_ne [of bs al Z] alphabet_chars [of "last (enc_scan (AlphabetOf al) Z 0 bs)" al]
  by (metis last_in_set subsetD)

lemma low_bits: "C \<noteq> 0 \<and> B AND (push_bit C 1 - 1) \<noteq> (0 :: u32) \<longleftrightarrow> take_bit C B \<noteq> 0"
  by (cases "C = 0") (simp_all add: take_bit_eq_mask mask_eq_exp_minus_1 push_bit_eq_mult)

lemma DecodeBase64_body:
  assumes "bs \<noteq> []" and t_def: "t = enc_scan (AlphabetOf al) 0 0 bs"
  shows "DecodeBase64 t al = Some bs" "DecodeBase64 (pad_equals t) al = Some bs"
proof -
  have t: "t \<noteq> []" "last t \<noteq> 0x3D" using enc_ne [OF assms(1), of al 0] enc_last [of bs al 0] assms(1) by (auto simp: t_def)
  obtain B C where dec: "dec_scan (AlphabetOf al) 0 0 [] t = Some (B, C, bs)" "take_bit C B = 0"
    and C: "C = (if length bs mod 3 = 0 then 0 else if length bs mod 3 = 1 then 4 else 2)"
    using dec_enc [of al 0 "[]" 0 bs] by (auto simp: t_def)
  have len: "length t mod 4 = (if length bs mod 3 = 0 then 0 else if length bs mod 3 = 1 then 2 else 3)"
    unfolding t_def by (rule length_enc)
  have pad: "PaddingLength t = 0" "PaddingLength (t @ [0x3D]) = 1" "PaddingLength (t @ [0x3D, 0x3D]) = 2"
    using PaddingLength_body [of t] t by simp_all
  have plain: "\<not> (C \<noteq> 0 \<and> B AND (push_bit C 1 - 1) \<noteq> 0)" using dec(2) by (simp only: low_bits not_not)
  show "DecodeBase64 t al = Some bs"
    using t len plain by (simp add: DecodeBase64_def kconsts pad dec(1))
  consider "length t mod 4 = 0" | "length t mod 4 = 2" | "length t mod 4 = 3" using len by presburger
  then show "DecodeBase64 (pad_equals t) al = Some bs"
  proof cases
    case 1
    then show ?thesis using \<open>DecodeBase64 t al = Some bs\<close> by (simp add: pad_more)
  next
    case 2
    moreover have "C = 4" using 2 len C by (auto split: if_splits)
    ultimately show ?thesis using plain by (simp add: pad_more DecodeBase64_def kconsts pad dec(1) mod_Suc)
  next
    case 3
    moreover have "C = 2" using 3 len C by (auto split: if_splits)
    ultimately show ?thesis using plain by (simp add: pad_more DecodeBase64_def kconsts pad dec(1) mod_Suc)
  qed
qed

lemma Base64_roundtrip: "bs \<noteq> [] \<Longrightarrow> DecodeBase64 (EncodeBase64 bs al p) al = Some bs"
  by (cases p) (simp_all add: EncodeBase64_def DecodeBase64_body [OF _ refl])

lemma ends_with_split: "ends_with s p \<Longrightarrow> s = take (length s - length p) s @ p"
  by (metis append_take_drop_id ends_with_def)

lemma Base64_canonical:
  assumes "DecodeBase64 s al = Some bs"
  shows "s = EncodeBase64 bs al NoPadding \<or> s = EncodeBase64 bs al Equals"
proof -
  define p where "p = PaddingLength s"
  define t where "t = take (length s - p) s"
  obtain B C where dec: "dec_scan (AlphabetOf al) 0 0 [] t = Some (B, C, bs)"
    and clear: "\<not> (C \<noteq> 0 \<and> B AND (push_bit C 1 - 1) \<noteq> 0)"
    and pads: "\<not> (p = 1 \<and> C \<noteq> 2 \<or> p = 2 \<and> C \<noteq> 4)"
    and len: "s \<noteq> []" "length s mod 4 \<noteq> 1" "p = 0 \<or> length s mod 4 = 0"
    using assms by (auto simp: DecodeBase64_def Let_def t_def p_def kconsts split: if_splits option.splits)
  have s: "s = t @ replicate p 0x3D" and p: "p \<le> 2" "p \<le> length s"
    using ends_with_split [of s "[0x3D, 0x3D]"] ends_with_split [of s "[0x3D]"]
    by (auto simp: t_def p_def PaddingLength_def ends_with_def numeral_2_eq_2)
  have t: "length t mod 4 \<noteq> 1"
  proof
    assume "length t mod 4 = 1"
    moreover have "length s = length t + p" by (subst s) simp
    ultimately show False using len p(1) by presburger
  qed
  have "take_bit C B = 0" using clear by (simp only: low_bits) simp
  from dec_canonical [OF dec t this, of 0]
  have e: "t = enc_scan (AlphabetOf al) 0 0 bs" "C = (if length t mod 4 = 0 then 0 else if length t mod 4 = 2 then 4 else 2)"
    by auto
  show ?thesis
  proof (cases "p = 0")
    case True
    then show ?thesis using s e(1) by (simp add: EncodeBase64_def)
  next
    case False
    then consider "p = 1" "length t mod 4 = 3" | "p = 2" "length t mod 4 = 2"
      using p(1) pads e(2) t by (cases "p = 1") (auto split: if_splits)
    then have "pad_equals t = s"
      by cases (subst s, simp add: pad_more numeral_2_eq_2)+
    then show ?thesis using e(1) by (simp add: EncodeBase64_def)
  qed
qed

lemma EncodeBase64_chars:
  "c \<in> set (EncodeBase64 bs al NoPadding) \<Longrightarrow> 0x20 < c \<and> c < 0x7F \<and> c \<noteq> 0x3D"
  using set_enc [of al 0 bs] alphabet_chars by (auto simp: EncodeBase64_def)

interpretation base64: text_format "\<lambda>bs. EncodeBase64 bs al p" "\<lambda>s. DecodeBase64 s al" "\<lambda>bs. bs \<noteq> []" for al p
  by unfold_locales (rule Base64_roundtrip)

end
