(* ===== verification/PublicKeys.thy ===== *)
theory PublicKeys
  imports Base64 StdVector Component
begin

text \<open>
  OpenSSH public keys in text form (\<open>src/core/src/net/PublicKeyText.cpp\<close>) and the list of keys a
  host authorizes (\<open>src/core/src/net/AuthorizedKeys.cpp\<close>) with its file format.
\<close>

section \<open>Keys as text\<close>

datatype PublicKeyAlgorithm = Ed25519 | EcdsaP256

record PublicKeyText =
  pk_algorithm :: PublicKeyAlgorithm
  pk_blob :: bytes
  pk_label :: bytes

definition kEd25519 :: bytes where "kEd25519 = bytes_of ''ssh-ed25519''"
definition kEcdsaP256 :: bytes where "kEcdsaP256 = bytes_of ''ecdsa-sha2-nistp256''"
definition kCurve :: bytes where "kCurve = bytes_of ''nistp256''"
definition kMaxTextBytes :: nat where [kconsts]: "kMaxTextBytes = 2048"
definition kMaxLabelBytes :: nat where [kconsts]: "kMaxLabelBytes = 64"

text \<open>
  A length-prefixed string of the key blob, and the input it leaves behind: the length is consumed
  even when the string is cut short.
\<close>

definition ReadString :: "bytes \<Rightarrow> bytes option \<times> bytes" where
  "ReadString input =
     (if length input < 4 then (None, input)
      else let n = unat (push_bit 24 (ucast (input ! 0)) OR push_bit 16 (ucast (input ! 1))
                 OR push_bit 8 (ucast (input ! 2)) OR ucast (input ! 3) :: u32);
               input = drop 4 input
        in if n > length input then (None, input) else (Some (take n input), drop n input))"

definition ValidBlob :: "PublicKeyText \<Rightarrow> bool" where
  "ValidBlob key =
     (case ReadString (pk_blob key) of
        (None, _) \<Rightarrow> False
      | (Some algorithm, input) \<Rightarrow>
          if pk_algorithm key = Ed25519
          then (case ReadString input of
             (Some bs, rest) \<Rightarrow> algorithm = kEd25519 \<and> length bs = 32 \<and> rest = []
           | (None, _) \<Rightarrow> False)
          else (case ReadString input of
             (curve, input2) \<Rightarrow> case ReadString input2 of
               (point, rest) \<Rightarrow> algorithm = kEcdsaP256 \<and> curve = Some kCurve
                 \<and> (case point of None \<Rightarrow> False | Some p \<Rightarrow> length p = 65 \<and> p ! 0 = 4) \<and> rest = []))"

definition is_blank :: "u8 \<Rightarrow> bool" where
  "is_blank c \<longleftrightarrow> c = 0x20 \<or> c = 0x09"

text \<open>\<open>find_first_of(" \t")\<close>, \<open>None\<close> for \<open>npos\<close>.\<close>

fun find_blank :: "bytes \<Rightarrow> nat option" where
  "find_blank [] = None"
| "find_blank (c # cs) = (if is_blank c then Some 0 else map_option Suc (find_blank cs))"

definition type_name :: "PublicKeyAlgorithm \<Rightarrow> bytes" where
  "type_name a = (case a of Ed25519 \<Rightarrow> kEd25519 | EcdsaP256 \<Rightarrow> kEcdsaP256)"

definition ParsePublicKeyText :: "bytes \<Rightarrow> PublicKeyText option" where
  "ParsePublicKeyText s =
     (if s = [] \<or> length s > kMaxTextBytes then None
      else let s = Trim s in do {
        typeEnd \<leftarrow> find_blank s;
        let type = take typeEnd s in
        if type \<noteq> kEd25519 \<and> type \<noteq> kEcdsaP256 then None
        else let s = Trim (drop typeEnd s);
                 bodyEnd = find_blank s;
                 body = (case bodyEnd of None \<Rightarrow> s | Some e \<Rightarrow> take e s);
                 s = Trim (case bodyEnd of None \<Rightarrow> [] | Some e \<Rightarrow> drop e s)
          in if length s > kMaxLabelBytes \<or> (\<exists>c\<in>set s. \<not> printable c) then None
             else do {
               blob \<leftarrow> DecodeBase64 body Standard;
               let key = \<lparr>pk_algorithm = (if type = kEd25519 then Ed25519 else EcdsaP256), pk_blob = blob, pk_label = s\<rparr>
               in if ValidBlob key then Some key else None
             }
      })"

definition FormatPublicKeyText :: "PublicKeyText \<Rightarrow> bytes" where
  "FormatPublicKeyText key =
     (if \<not> ValidBlob key \<or> length (pk_label key) > kMaxLabelBytes \<or> (\<exists>c\<in>set (pk_label key). \<not> printable c) then []
      else type_name (pk_algorithm key) @ [0x20] @ EncodeBase64 (pk_blob key) Standard Equals
           @ (if pk_label key \<noteq> [] then [0x20] @ pk_label key else []))"

section \<open>The authorized keys\<close>

type_synonym AuthorizedKeys = "PublicKeyText list"

definition kMaxAuthorizedKeys :: nat where [kconsts]: "kMaxAuthorizedKeys = 128"
definition kMaxAuthorizedKeysFileBytes :: nat where [kconsts]: "kMaxAuthorizedKeysFileBytes = 262144"

definition SameKey :: "PublicKeyText \<Rightarrow> PublicKeyText \<Rightarrow> bool" where
  "SameKey a b \<longleftrightarrow> pk_algorithm a = pk_algorithm b \<and> pk_blob a = pk_blob b"

definition ak_Contains :: "AuthorizedKeys \<Rightarrow> PublicKeyText \<Rightarrow> bool" where
  "ak_Contains keys key \<longleftrightarrow> (\<exists>stored\<in>set keys. SameKey stored key)"

definition ak_Add :: "AuthorizedKeys \<Rightarrow> PublicKeyText \<Rightarrow> bool \<times> AuthorizedKeys" where
  "ak_Add keys key =
     (if FormatPublicKeyText key = [] \<or> ak_Contains keys key \<or> length keys \<ge> kMaxAuthorizedKeys
      then (False, keys) else (True, keys @ [key]))"

definition ak_Remove :: "AuthorizedKeys \<Rightarrow> PublicKeyText \<Rightarrow> bool \<times> AuthorizedKeys" where
  "ak_Remove keys key =
     (if \<not> ak_Contains keys key then (False, keys) else (True, filter (\<lambda>stored. \<not> SameKey stored key) keys))"

fun authorized_lines :: "AuthorizedKeys \<Rightarrow> bytes list \<Rightarrow> AuthorizedKeys option" where
  "authorized_lines keys [] = Some keys"
| "authorized_lines keys (raw # rest) =
     (let line = strip_cr raw in
      if line = [] \<or> hd line = 0x23 then authorized_lines keys rest
      else do {
        key \<leftarrow> ParsePublicKeyText line;
        let (added, keys) = ak_Add keys key in if added then authorized_lines keys rest else None
      })"

definition ParseAuthorizedKeys :: "bytes \<Rightarrow> AuthorizedKeys option" where
  "ParseAuthorizedKeys s = (if length s > kMaxAuthorizedKeysFileBytes then None else authorized_lines [] (text_lines s))"

fun serialize_keys :: "PublicKeyText list \<Rightarrow> bytes option" where
  "serialize_keys [] = Some []"
| "serialize_keys (key # keys) =
     (if FormatPublicKeyText key = [] then None
      else map_option (\<lambda>out. FormatPublicKeyText key @ [0x0A] @ out) (serialize_keys keys))"

text \<open>\<open>return {}\<close> as soon as one key cannot be printed.\<close>

definition SerializeAuthorizedKeys :: "AuthorizedKeys \<Rightarrow> bytes" where
  "SerializeAuthorizedKeys keys = (case serialize_keys keys of None \<Rightarrow> [] | Some out \<Rightarrow> out)"

section \<open>Reading a key back\<close>

lemma find_blank_None: "find_blank s = None \<longleftrightarrow> (\<forall>c\<in>set s. \<not> is_blank c)"
  by (induction s) auto

lemma find_blank_append: "(\<And>c. c \<in> set xs \<Longrightarrow> \<not> is_blank c) \<Longrightarrow> is_blank b \<Longrightarrow> find_blank (xs @ b # ys) = Some (length xs)"
  by (induction xs) auto

text \<open>Trimming text that starts with no space only shortens it at its end.\<close>

definition rtrim :: "bytes \<Rightarrow> bytes" where
  "rtrim s = rev (dropWhile is_space (rev s))"

lemma Trim_start: "s = [] \<or> \<not> is_space (hd s) \<Longrightarrow> Trim s = rtrim s"
  by (cases s) (auto simp: Trim_def rtrim_def)

lemma rtrim_append: "rtrim (xs @ ys) = (if \<forall>c\<in>set ys. is_space c then rtrim xs else xs @ rtrim ys)"
  by (auto simp: rtrim_def dropWhile_append)

lemma rtrim_id: "s = [] \<or> \<not> is_space (last s) \<Longrightarrow> rtrim s = s"
  by (cases s rule: rev_cases) (auto simp: rtrim_def)

lemma Trim_spaces: "Trim s = [] \<longleftrightarrow> (\<forall>c\<in>set s. is_space c)"
proof
  assume "Trim s = []"
  then have "\<forall>c\<in>set (dropWhile is_space s). is_space c" by (simp add: Trim_def)
  then have "dropWhile is_space s = []" using dropWhile_hd [of is_space s] by (metis hd_in_set)
  then show "\<forall>c\<in>set s. is_space c" by simp
next
  assume "\<forall>c\<in>set s. is_space c"
  then have "dropWhile is_space s = []" by simp
  then show "Trim s = []" by (simp only: Trim_def rev.simps dropWhile.simps)
qed

lemma Trim_rtrim: "Trim (rtrim s) = Trim s"
proof (induction s)
  case (Cons c s)
  show ?case
  proof (cases "\<forall>b\<in>set (c # s). is_space b")
    case True
    then have "rtrim (c # s) = []" by (auto simp: rtrim_def)
    then show ?thesis using True by (simp add: Trim_spaces [of "c # s", THEN iffD2]) (simp add: Trim_def)
  next
    case False
    show ?thesis
    proof (cases "is_space c")
      case True
      then have "\<not> (\<forall>b\<in>set s. is_space b)" using False by simp
      then have "rtrim (c # s) = c # rtrim s" using rtrim_append [of "[c]" s] by (simp only: if_False append_Cons append_Nil)
      then show ?thesis using Cons True by (simp add: Trim_def)
    next
      case nospace: False
      then have eq: "Trim (c # s) = rtrim (c # s)" by (intro Trim_start) simp
      show ?thesis unfolding eq [symmetric] by (rule Trim_idem)
    qed
  qed
qed (simp add: rtrim_def)

lemma Trim_Cons_space: "is_space c \<Longrightarrow> Trim (c # s) = Trim s"
  by (simp add: Trim_def)

lemma type_name_chars: "c \<in> set (type_name a) \<Longrightarrow> 0x20 < c" "type_name a \<noteq> []"
  by (cases a; auto simp: type_name_def kEd25519_def kEcdsaP256_def bytes_of_def)+

lemma Encode_Equals_chars: "c \<in> set (EncodeBase64 bs al Equals) \<Longrightarrow> 0x20 < c \<and> c < 0x7F"
proof -
  have pad: "set (pad_equals out) \<subseteq> set out \<union> {0x3D}" for out
    by (induction out rule: pad_equals.induct) (subst pad_equals.simps, auto)
  have "c \<in> set (enc_scan (AlphabetOf al) 0 0 bs) \<Longrightarrow> 0x20 < c \<and> c < 0x7F"
    using set_enc [of al 0 bs] alphabet_chars by blast
  then show "c \<in> set (EncodeBase64 bs al Equals) \<Longrightarrow> 0x20 < c \<and> c < 0x7F"
    using pad [of "enc_scan (AlphabetOf al) 0 0 bs"] by (auto simp: EncodeBase64_def)
qed

lemma blank_space: "is_blank c \<Longrightarrow> is_space c" "0x20 < c \<Longrightarrow> \<not> is_space c" "0x20 < c \<Longrightarrow> \<not> is_blank c"
  by (auto simp: is_blank_def is_space_def)

text \<open>A key that can be printed is read back, its label trimmed.\<close>

lemma ReadString_length: "ReadString s = (r, rest) \<Longrightarrow> length rest \<le> length s"
  by (auto simp: ReadString_def Let_def split: if_splits)

lemma ReadString_Some: "ReadString s = (Some b, rest) \<Longrightarrow> length s = 4 + length b + length rest"
  by (auto simp: ReadString_def Let_def split: if_splits)

lemma ValidBlob_length: "ValidBlob key \<Longrightarrow> pk_blob key \<noteq> [] \<and> length (pk_blob key) \<le> 104"
proof -
  assume v: "ValidBlob key"
  then obtain a rest where a: "ReadString (pk_blob key) = (Some a, rest)"
    by (auto simp: ValidBlob_def split: prod.splits option.splits)
  have la: "length (pk_blob key) = 4 + length a + length rest" by (rule ReadString_Some [OF a])
  show ?thesis
  proof (cases "pk_algorithm key")
    case Ed25519
    obtain b r where "ReadString rest = (b, r)" by (cases "ReadString rest")
    with v a Ed25519 obtain b where "ReadString rest = (Some b, [])" "a = kEd25519" "length b = 32"
      by (auto simp: ValidBlob_def split: option.splits)
    with ReadString_Some [of rest b "[]"] la show ?thesis by (auto simp: kEd25519_def bytes_of_def)
  next
    case EcdsaP256
    obtain c r where c: "ReadString rest = (c, r)" by (cases "ReadString rest")
    obtain q r2 where q: "ReadString r = (q, r2)" by (cases "ReadString r")
    from v a c q EcdsaP256 obtain p where p: "c = Some kCurve" "q = Some p" "length p = 65" "r2 = []" "a = kEcdsaP256"
      by (auto simp: ValidBlob_def split: option.splits)
    with ReadString_Some [of rest kCurve r] ReadString_Some [of r p "[]"] la c q
    show ?thesis by (auto simp: kEcdsaP256_def kCurve_def bytes_of_def)
  qed
qed

lemma length_pad: "length (pad_equals out) \<le> length out + 3"
proof -
  consider "length out mod 4 = 0" | "length out mod 4 = 1" | "length out mod 4 = 2" | "length out mod 4 = 3" by linarith
  then show ?thesis
  proof cases
    case 2
    have "pad_equals out = pad_equals (out @ [0x3D])"
      using 2 pad_equals.simps [of out] by (simp add: kconsts)
    also have "\<dots> = (out @ [0x3D]) @ [0x3D, 0x3D]" using 2 by (intro pad_more(2)) (simp add: mod_Suc)
    finally show ?thesis by simp
  qed (simp_all add: pad_more)
qed

lemma FormatPublicKeyText_read:
  assumes "FormatPublicKeyText key \<noteq> []"
  shows "ParsePublicKeyText (FormatPublicKeyText key) = Some (key\<lparr>pk_label := Trim (pk_label key)\<rparr>)"
    "length (FormatPublicKeyText key) \<le> 255"
proof -
  let ?t = "type_name (pk_algorithm key)" and ?b = "EncodeBase64 (pk_blob key) Standard Equals" and ?l = "pk_label key"
  have valid: "ValidBlob key" and short: "length ?l \<le> 64" and plain: "\<forall>c\<in>set ?l. printable c"
    and shape: "FormatPublicKeyText key = ?t @ [0x20] @ ?b @ (if ?l \<noteq> [] then [0x20] @ ?l else [])"
    using assms by (auto simp: FormatPublicKeyText_def kconsts split: if_splits)
  have blob: "pk_blob key \<noteq> []" "length (pk_blob key) \<le> 104" using ValidBlob_length [OF valid] by auto
  have "length ?b \<le> length (enc_scan (AlphabetOf Standard) 0 0 (pk_blob key)) + 3"
    by (simp add: EncodeBase64_def length_pad)
  also have "\<dots> \<le> 145" using blob(2) by (simp add: length_enc_exact)
  finally have b: "length ?b \<le> 145" .
  have t: "length ?t \<le> 19" by (cases "pk_algorithm key") (simp_all add: type_name_def kEd25519_def kEcdsaP256_def bytes_of_def)
  show len: "length (FormatPublicKeyText key) \<le> 255" using short b t unfolding shape by simp
  have t_hd: "\<not> is_space (hd ?t)" "?t \<noteq> []" and b_ok: "?b \<noteq> []" "\<not> is_space (last ?b)" "\<not> is_space (hd ?b)"
  proof -
    show "?t \<noteq> []" by (rule type_name_chars)
    then show "\<not> is_space (hd ?t)" using type_name_chars(1) blank_space(2) hd_in_set by blast
    show ne: "?b \<noteq> []"
      using Base64_roundtrip [OF blob(1), of Standard Equals] by (auto simp: DecodeBase64_def)
    show "\<not> is_space (last ?b)" "\<not> is_space (hd ?b)"
      using ne Encode_Equals_chars blank_space(2) hd_in_set last_in_set by blast+
  qed
  let ?tail = "if ?l \<noteq> [] then [0x20] @ ?l else []"
  let ?kept = "if Trim ?l = [] then [] else 0x20 # rtrim ?l"
  have kept: "rtrim (?b @ ?tail) = ?b @ ?kept"
    using Trim_spaces [of ?l] b_ok(1,2)
    by (auto simp: rtrim_append rtrim_id is_space_def rtrim_append [of "[0x20]" ?l, simplified])
  have not_all: "\<not> (\<forall>c\<in>set ([0x20] @ ?b @ ?tail). is_space c)"
    using b_ok(1,2) by auto
  have trimmed: "Trim (FormatPublicKeyText key) = ?t @ 0x20 # ?b @ ?kept"
  proof -
    have "Trim (FormatPublicKeyText key) = rtrim (?t @ [0x20] @ ?b @ ?tail)"
      unfolding shape using t_hd by (intro Trim_start) simp
    also have "\<dots> = ?t @ [0x20] @ rtrim (?b @ ?tail)"
      using not_all b_ok(1,2) rtrim_append [of ?t "[0x20] @ ?b @ ?tail"] rtrim_append [of "[0x20]" "?b @ ?tail"]
      by auto
    finally show ?thesis by (simp add: kept)
  qed
  have f1: "find_blank (?t @ 0x20 # ?b @ ?kept) = Some (length ?t)"
    using type_name_chars(1) blank_space(3) by (intro find_blank_append) (auto simp: is_blank_def)
  have body_trim: "Trim (0x20 # ?b @ ?kept) = ?b @ ?kept"
  proof -
    have "Trim (0x20 # ?b @ ?kept) = Trim (?b @ ?kept)" by (rule Trim_Cons_space) (simp add: is_space_def)
    also have "\<dots> = rtrim (?b @ ?kept)" using b_ok by (intro Trim_start) simp
    also have "\<dots> = ?b @ ?kept" unfolding kept [symmetric] by (simp add: rtrim_def)
    finally show ?thesis .
  qed
  have f2: "find_blank (?b @ ?kept) = (if Trim ?l = [] then None else Some (length ?b))"
    using find_blank_append [of ?b "0x20" "rtrim ?l"] Encode_Equals_chars blank_space(3)
    by (auto simp: find_blank_None is_blank_def)
  have rest: "Trim (case find_blank (?b @ ?kept) of None \<Rightarrow> [] | Some e \<Rightarrow> drop e (?b @ ?kept)) = Trim ?l"
    by (simp add: f2 Trim_Cons_space is_space_def Trim_rtrim) (simp add: Trim_def)
  have body: "(case find_blank (?b @ ?kept) of None \<Rightarrow> ?b @ ?kept | Some e \<Rightarrow> take e (?b @ ?kept)) = ?b"
    by (simp add: f2)
  have label: "length (Trim ?l) \<le> 64" "\<forall>c\<in>set (Trim ?l). printable c"
    using length_Trim [of ?l] set_Trim [of ?l] short plain by auto
  have dec: "DecodeBase64 ?b Standard = Some (pk_blob key)" by (rule Base64_roundtrip [OF blob(1)])
  have alg: "(if ?t = kEd25519 then Ed25519 else EcdsaP256) = pk_algorithm key" "?t = kEd25519 \<or> ?t = kEcdsaP256"
    by (cases "pk_algorithm key"; simp add: type_name_def kEd25519_def kEcdsaP256_def bytes_of_def)+
  have same: "ValidBlob (key\<lparr>pk_label := Trim ?l\<rparr>)" using valid by (cases key) (simp only: ValidBlob_def PublicKeyText.simps)
  have cut: "take (length ?t) (?t @ 0x20 # ?b @ ?kept) = ?t" "drop (length ?t) (?t @ 0x20 # ?b @ ?kept) = 0x20 # ?b @ ?kept"
    by simp_all
  have small: "(FormatPublicKeyText key = [] \<or> length (FormatPublicKeyText key) > kMaxTextBytes) = False"
    using assms len by (simp add: kconsts)
  have checks: "(?t \<noteq> kEd25519 \<and> ?t \<noteq> kEcdsaP256) = False"
    "(length (Trim ?l) > kMaxLabelBytes \<or> (\<exists>c\<in>set (Trim ?l). \<not> printable c)) = False"
    using alg(2) label by (auto simp: kconsts)
  have key: "\<lparr>pk_algorithm = pk_algorithm key, pk_blob = pk_blob key, pk_label = Trim ?l\<rparr> = key\<lparr>pk_label := Trim ?l\<rparr>"
    by simp
  show "ParsePublicKeyText (FormatPublicKeyText key) = Some (key\<lparr>pk_label := Trim ?l\<rparr>)"
    unfolding ParsePublicKeyText_def small if_False Let_def trimmed f1 bind.bind_lunit cut checks body_trim rest body dec alg(1) key
    by (simp add: same)
qed

section \<open>The list of authorized keys\<close>

definition key_id :: "PublicKeyText \<Rightarrow> PublicKeyAlgorithm \<times> bytes" where
  "key_id k = (pk_algorithm k, pk_blob k)"

lemma SameKey_id: "SameKey a b \<longleftrightarrow> key_id a = key_id b"
  by (auto simp: SameKey_def key_id_def)

definition ak_inv :: "AuthorizedKeys \<Rightarrow> bool" where
  "ak_inv keys \<longleftrightarrow> distinct (map key_id keys) \<and> length keys \<le> kMaxAuthorizedKeys
     \<and> (\<forall>k\<in>set keys. FormatPublicKeyText k \<noteq> [])"

lemma ak_inv_Nil [simp]: "ak_inv []"
  by (simp add: ak_inv_def)

lemma Contains_id: "ak_Contains keys k \<longleftrightarrow> key_id k \<in> key_id ` set keys"
  by (auto simp: ak_Contains_def SameKey_id image_iff eq_commute)

lemma Add_keeps: "ak_inv keys \<Longrightarrow> ak_Add keys k = (r, keys') \<Longrightarrow>
    ak_inv keys' \<and> (ak_Contains keys' j \<longleftrightarrow> ak_Contains keys j \<or> r \<and> SameKey k j)"
  by (auto simp: ak_Add_def ak_inv_def Contains_id SameKey_id split: if_splits)

lemma Remove_keeps: "ak_inv keys \<Longrightarrow> ak_Remove keys k = (r, keys') \<Longrightarrow>
    ak_inv keys' \<and> (r \<longleftrightarrow> ak_Contains keys k) \<and> (ak_Contains keys' j \<longleftrightarrow> ak_Contains keys j \<and> \<not> SameKey j k)"
proof -
  assume inv: "ak_inv keys" and rem: "ak_Remove keys k = (r, keys')"
  have eq: "keys' = drop_key key_id (key_id k) keys"
    using rem drop_key_absent [of "key_id k" key_id keys]
    by (auto simp: ak_Remove_def Contains_id drop_key_def SameKey_id split: if_splits)
  have "ak_inv keys'" using inv le_trans [OF drop_key_props(2)] by (auto simp: ak_inv_def eq)
  moreover have "r \<longleftrightarrow> ak_Contains keys k" using rem by (auto simp: ak_Remove_def split: if_splits)
  moreover have "ak_Contains keys' j \<longleftrightarrow> ak_Contains keys j \<and> \<not> SameKey j k"
    by (auto simp: Contains_id SameKey_id eq)
  ultimately show ?thesis by blast
qed

lemma authorized_lines_keep: "ak_inv keys \<Longrightarrow> authorized_lines keys ls = Some keys' \<Longrightarrow> ak_inv keys'"
proof (induction keys ls rule: authorized_lines.induct)
  case (2 keys raw rest)
  show ?case
  proof (cases "strip_cr raw = [] \<or> hd (strip_cr raw) = 0x23")
    case True
    then show ?thesis using 2 by (simp add: Let_def)
  next
    case False
    then obtain key where key: "ParsePublicKeyText (strip_cr raw) = Some key"
      using 2(4) by (auto simp: Let_def bind_eq_Some_conv)
    obtain added keys1 where add: "ak_Add keys key = (added, keys1)" by (cases "ak_Add keys key")
    then have "authorized_lines keys1 rest = Some keys'" "added" using 2(4) False key by (auto simp: Let_def split: if_splits)
    moreover have "ak_inv keys1" using Add_keeps [OF 2(3) add] by blast
    ultimately show ?thesis using 2(2) False key add by simp
  qed
qed simp

text \<open>Every key that reaches a list through a parser has its label trimmed.\<close>

definition trimmed_key :: "PublicKeyText \<Rightarrow> bool" where
  "trimmed_key k \<longleftrightarrow> FormatPublicKeyText k \<noteq> [] \<and> Trim (pk_label k) = pk_label k"

lemma Format_start: "FormatPublicKeyText k \<noteq> [] \<Longrightarrow> hd (FormatPublicKeyText k) \<noteq> 0x23"
  by (cases "pk_algorithm k")
     (auto simp: FormatPublicKeyText_def type_name_def kEd25519_def kEcdsaP256_def bytes_of_def split: if_splits)

lemma Format_chars: "c \<in> set (FormatPublicKeyText k) \<Longrightarrow> printable c"
proof -
  have t: "printable c" if "c \<in> set (type_name (pk_algorithm k))"
    using that by (cases "pk_algorithm k") (auto simp: printable_def type_name_def kEd25519_def kEcdsaP256_def bytes_of_def)
  have b: "printable c" if "c \<in> set (EncodeBase64 (pk_blob k) Standard Equals)"
    using Encode_Equals_chars [OF that] by (auto simp: printable_def)
  have sp: "printable 0x20" by (simp add: printable_def)
  show "c \<in> set (FormatPublicKeyText k) \<Longrightarrow> printable c"
    unfolding FormatPublicKeyText_def using t b sp by (auto split: if_split_asm)
qed

interpretation key_text: line_format FormatPublicKeyText ParsePublicKeyText trimmed_key
proof
  fix k assume k: "trimmed_key k"
  then show "ParsePublicKeyText (FormatPublicKeyText k) = Some k"
    using FormatPublicKeyText_read(1) [of k] by (simp add: trimmed_key_def)
  show "FormatPublicKeyText k \<noteq> [] \<and> 0x0A \<notin> set (FormatPublicKeyText k)"
    using k Format_chars [of "0x0A" k] by (auto simp: trimmed_key_def printable_def)
qed

lemma serialize_lines:
  "\<forall>k\<in>set keys. trimmed_key k \<Longrightarrow> serialize_keys keys = Some (concat (map (\<lambda>k. FormatPublicKeyText k @ [0x0A]) keys))"
  by (induction keys) (auto simp: trimmed_key_def)

lemma strip_Format: "strip_cr (FormatPublicKeyText k) = FormatPublicKeyText k"
  using Format_chars [of "0x0D" k] by (intro strip_cr_id) (auto simp: printable_def)

lemma authorized_read:
  assumes "\<forall>k\<in>set ks. trimmed_key k" "ak_inv (keys @ ks)"
  shows "authorized_lines keys (map FormatPublicKeyText ks) = Some (keys @ ks)"
  using assms
proof (induction ks arbitrary: keys)
  case (Cons k ks)
  have k: "FormatPublicKeyText k \<noteq> []" "hd (FormatPublicKeyText k) \<noteq> 0x23"
    using Cons.prems(1) Format_start by (auto simp: trimmed_key_def)
  have "ak_Add keys k = (True, keys @ [k])"
    using Cons.prems by (auto simp: ak_Add_def ak_inv_def Contains_id trimmed_key_def)
  then show ?case
    using Cons.IH [of "keys @ [k]"] Cons.prems k by (simp add: strip_Format Let_def key_text.parse_print)
qed simp

lemma AuthorizedKeys_roundtrip:
  assumes "ak_inv keys" "\<forall>k\<in>set keys. trimmed_key k"
  shows "ParseAuthorizedKeys (SerializeAuthorizedKeys keys) = Some keys"
proof -
  have "length (concat (map (\<lambda>k. FormatPublicKeyText k @ [0x0A]) keys)) \<le> length keys * 256"
    using assms(2) FormatPublicKeyText_read(2) by (induction keys) (fastforce simp: trimmed_key_def)+
  then have "length (concat (map (\<lambda>k. FormatPublicKeyText k @ [0x0A]) keys)) \<le> 262144"
    using assms(1) by (simp add: ak_inv_def kconsts)
  then show ?thesis
    using authorized_read [of keys "[]"] assms
    by (simp add: ParseAuthorizedKeys_def SerializeAuthorizedKeys_def serialize_lines key_text.file_lines kMaxAuthorizedKeysFileBytes_def)
qed

text \<open>What a parser accepts is such a key.\<close>

lemma ParsePublicKeyText_printable:
  assumes "ParsePublicKeyText s = Some k"
  shows "trimmed_key k"
proof -
  have "ValidBlob k \<and> length (pk_label k) \<le> kMaxLabelBytes \<and> (\<forall>c\<in>set (pk_label k). printable c)
      \<and> Trim (pk_label k) = pk_label k"
    using assms by (auto simp: ParsePublicKeyText_def Let_def bind_eq_Some_conv split: if_splits)
  then show ?thesis by (auto simp: trimmed_key_def FormatPublicKeyText_def)
qed

section \<open>Operations as one component\<close>

datatype KeyListOp = KeyAdd PublicKeyText | KeyRemove PublicKeyText | KeyContains PublicKeyText

fun key_list_step :: "AuthorizedKeys \<Rightarrow> KeyListOp \<Rightarrow> (AuthorizedKeys \<times> bool) checked" where
  "key_list_step keys (KeyAdd k) = (let (r, keys) = ak_Add keys k in Some (keys, r))"
| "key_list_step keys (KeyRemove k) = (let (r, keys) = ak_Remove keys k in Some (keys, r))"
| "key_list_step keys (KeyContains k) = Some (keys, ak_Contains keys k)"

interpretation key_list: component key_list_step ak_inv "\<lambda>_. True" "\<lambda>_ _. True"
proof
  fix keys x assume "ak_inv keys"
  then show "\<exists>keys' r. key_list_step keys x = Some (keys', r) \<and> ak_inv keys' \<and> True"
    by (cases x) (auto split: prod.splits dest: Add_keeps Remove_keeps)
qed

lemma key_step_trimmed:
  assumes "key_list_step keys x = Some (keys', r)" "\<forall>k\<in>set keys. trimmed_key k" "\<forall>k. x = KeyAdd k \<longrightarrow> trimmed_key k"
  shows "\<forall>k\<in>set keys'. trimmed_key k"
  using assms by (cases x) (auto simp: ak_Add_def ak_Remove_def Let_def split: if_splits prod.splits)

text \<open>Keys that were read from public key lines are kept with a trimmed label.\<close>

lemma key_run_trimmed:
  assumes "\<forall>k\<in>set keys. trimmed_key k" "\<forall>x\<in>set xs. \<forall>k. x = KeyAdd k \<longrightarrow> (\<exists>s. ParsePublicKeyText s = Some k)"
    "run_ops key_list_step keys xs = Some (keys', rs)"
  shows "\<forall>k\<in>set keys'. trimmed_key k"
  using assms
proof (induction xs arbitrary: keys rs)
  case (Cons x xs)
  then obtain keys1 r rs' where "key_list_step keys x = Some (keys1, r)" "run_ops key_list_step keys1 xs = Some (keys', rs')"
    by (auto simp: bind_eq_Some_conv split: prod.splits)
  note step = this
  have "\<forall>k. x = KeyAdd k \<longrightarrow> trimmed_key k" using Cons.prems(2) ParsePublicKeyText_printable by auto
  then have "\<forall>k\<in>set keys1. trimmed_key k" by (rule key_step_trimmed [OF step(1) Cons.prems(1)])
  then show ?case by (rule Cons.IH [OF _ _ step(2)]) (use Cons.prems(2) in auto)
qed simp

end
