(* ===== verification/AccessRequests.thy ===== *)
theory AccessRequests
  imports PublicKeys
begin

text \<open>
  The requests of unknown clients waiting for an answer, and their file
  (\<open>src/core/src/net/AccessRequests.cpp\<close>). Times are \<open>int\<close>; every sum and difference the code
  forms is of times the parsers accept, so no overflow is left out.
\<close>

section \<open>The code\<close>

record AccessRequest =
  ar_key :: PublicKeyText
  ar_address :: bytes
  ar_requestedUnix :: int
  ar_denied :: bool

type_synonym AccessRequests = "AccessRequest list"

definition kMaxAccessRequests :: nat where [kconsts]: "kMaxAccessRequests = 16"
definition kAccessRequestTtlSeconds :: int where [kconsts]: "kAccessRequestTtlSeconds = 600"
definition kMaxAccessRequestsFileBytes :: nat where [kconsts]: "kMaxAccessRequestsFileBytes = 65536"
definition kMaxAccessRequestAddressBytes :: nat where [kconsts]: "kMaxAccessRequestAddressBytes = 64"
definition kMaxAccessRequestLineBytes :: nat where [kconsts]: "kMaxAccessRequestLineBytes = 2048"
definition kDeniedPrefix :: bytes where "kDeniedPrefix = bytes_of ''denied ''"

definition CleanAddress :: "bytes \<Rightarrow> bytes" where
  "CleanAddress address =
     (let trimmed = Trim address in
      if trimmed = [] \<or> length trimmed > kMaxAccessRequestAddressBytes then []
      else if \<exists>c\<in>set trimmed. c \<le> 0x20 \<or> c = 0x7F then [] else trimmed)"

definition OutlivedItsTtl :: "int \<Rightarrow> int \<Rightarrow> bool" where
  "OutlivedItsTtl requestedUnix nowUnix \<longleftrightarrow>
     requestedUnix \<le> nowUnix \<and> nowUnix - requestedUnix \<ge> kAccessRequestTtlSeconds"

definition ValidKey :: "PublicKeyText \<Rightarrow> bool" where
  "ValidKey key \<longleftrightarrow> FormatPublicKeyText key \<noteq> []"

text \<open>The host part: a bracketed IPv6 address, or what stands before the only colon.\<close>

definition HostOf :: "bytes \<Rightarrow> bytes" where
  "HostOf address =
     (if starts_with address [0x5B]
      then case find_byte 0x5D address of None \<Rightarrow> address | Some close \<Rightarrow> substr address 0 (close + 1)
      else case find_byte 0x3A address of
        None \<Rightarrow> address
      | Some colon \<Rightarrow> if find_from 0x3A address (colon + 1) \<noteq> None then address else substr address 0 colon)"

definition Replaces :: "AccessRequest \<Rightarrow> AccessRequest \<Rightarrow> bool" where
  "Replaces incoming existing =
     (if SameKey (ar_key existing) (ar_key incoming) then True
      else if ar_denied existing \<or> ar_denied incoming then False
      else HostOf (ar_address existing) = HostOf (ar_address incoming))"

definition HoldsNewerFromSameSource :: "AccessRequests \<Rightarrow> AccessRequest \<Rightarrow> bool" where
  "HoldsNewerFromSameSource requests request \<longleftrightarrow>
     (\<exists>existing\<in>set requests. Replaces request existing \<and> ar_requestedUnix existing > ar_requestedUnix request)"

definition rq_Find :: "AccessRequests \<Rightarrow> PublicKeyText \<Rightarrow> AccessRequest option" where
  "rq_Find requests key = List.find (\<lambda>r. SameKey (ar_key r) key) requests"

definition rq_IsDenied :: "AccessRequests \<Rightarrow> PublicKeyText \<Rightarrow> bool" where
  "rq_IsDenied requests key = (case rq_Find requests key of None \<Rightarrow> False | Some r \<Rightarrow> ar_denied r)"

definition rq_Add :: "AccessRequests \<Rightarrow> AccessRequest \<Rightarrow> int \<Rightarrow> bool \<times> AccessRequests" where
  "rq_Add requests request nowUnix =
     (let request = request\<lparr>ar_address := CleanAddress (ar_address request)\<rparr> in
      if ar_address request = [] \<or> \<not> ValidKey (ar_key request) then (False, requests)
      else if \<not> ar_denied request \<and> rq_IsDenied requests (ar_key request) then (False, requests)
      else let request = request\<lparr>ar_requestedUnix := nowUnix\<rparr>;
               requests = filter (\<lambda>existing. \<not> Replaces request existing) requests;
               requests = make_room kMaxAccessRequests ar_requestedUnix requests
        in (True, requests @ [request]))"

definition rq_Remove :: "AccessRequests \<Rightarrow> PublicKeyText \<Rightarrow> bool \<times> AccessRequests" where
  "rq_Remove requests key =
     (if \<not> (\<exists>r\<in>set requests. SameKey (ar_key r) key) then (False, requests)
      else (True, filter (\<lambda>r. \<not> SameKey (ar_key r) key) requests))"

definition rq_Deny :: "AccessRequests \<Rightarrow> PublicKeyText \<Rightarrow> int \<Rightarrow> bool \<times> AccessRequests" where
  "rq_Deny requests key nowUnix =
     (case update_first (\<lambda>r. SameKey (ar_key r) key) (\<lambda>r. r\<lparr>ar_denied := True, ar_requestedUnix := nowUnix\<rparr>) requests of
        None \<Rightarrow> (False, requests) | Some requests \<Rightarrow> (True, requests))"

definition rq_Expire :: "AccessRequests \<Rightarrow> int \<Rightarrow> nat \<times> AccessRequests" where
  "rq_Expire requests nowUnix =
     (let kept = filter (\<lambda>r. \<not> (OutlivedItsTtl (ar_requestedUnix r) nowUnix \<or> ar_requestedUnix r > nowUnix)) requests
      in (length requests - length kept, kept))"

text \<open>One line that is not empty: the request it holds, or the failure of the whole file.\<close>

definition parse_request :: "bytes \<Rightarrow> AccessRequest option" where
  "parse_request line =
     (let denied = starts_with line kDeniedPrefix;
          line = (if denied then drop (length kDeniedPrefix) line else line)
      in if length line > kMaxAccessRequestLineBytes then None else do {
        s1 \<leftarrow> find_byte 0x20 line;
        s2 \<leftarrow> find_from 0x20 line (s1 + 1);
        requestedUnix \<leftarrow> ParseUnixTime (substr line 0 s1);
        let address = CleanAddress (substr line (s1 + 1) (s2 - s1 - 1)) in
        case ParsePublicKeyText (drop (s2 + 1) line) of
          None \<Rightarrow> None
        | Some key \<Rightarrow> if address = [] then None
            else Some \<lparr>ar_key = key, ar_address = address, ar_requestedUnix = requestedUnix, ar_denied = denied\<rparr>
      })"

fun request_lines :: "AccessRequests \<Rightarrow> int \<Rightarrow> bytes list \<Rightarrow> AccessRequests option" where
  "request_lines requests nowUnix [] = Some requests"
| "request_lines requests nowUnix (raw # rest) =
     (let line = Trim raw in
      if line = [] then request_lines requests nowUnix rest
      else case parse_request line of
        None \<Rightarrow> None
      | Some request \<Rightarrow>
          if rq_Find requests (ar_key request) \<noteq> None then None
          else if OutlivedItsTtl (ar_requestedUnix request) nowUnix \<or> HoldsNewerFromSameSource requests request
          then request_lines requests nowUnix rest
          else let (added, requests) = rq_Add requests request (ar_requestedUnix request) in
            if added then request_lines requests nowUnix rest else None)"

definition ParseAccessRequests :: "bytes \<Rightarrow> int \<Rightarrow> AccessRequests option" where
  "ParseAccessRequests s nowUnix =
     (if length s > kMaxAccessRequestsFileBytes then None
      else map_option (\<lambda>requests. snd (rq_Expire requests nowUnix)) (request_lines [] nowUnix (text_lines s)))"

definition request_line :: "AccessRequest \<Rightarrow> bytes" where
  "request_line r = (if ar_denied r then kDeniedPrefix else []) @ to_string (ar_requestedUnix r) @ [0x20]
     @ ar_address r @ [0x20] @ FormatPublicKeyText (ar_key r)"

fun SerializeAccessRequests :: "AccessRequests \<Rightarrow> bytes" where
  "SerializeAccessRequests [] = []"
| "SerializeAccessRequests (r # rs) =
     (if FormatPublicKeyText (ar_key r) = [] \<or> ar_address r = [] then [] else request_line r @ [0x0A])
     @ SerializeAccessRequests rs"

section \<open>The invariant\<close>

text \<open>No request replaces another: one request per key, and one open request per source host.\<close>

definition rq_ok :: "AccessRequest \<Rightarrow> bool" where
  "rq_ok r \<longleftrightarrow> ValidKey (ar_key r) \<and> ar_address r \<noteq> [] \<and> CleanAddress (ar_address r) = ar_address r"

definition rq_inv :: "AccessRequests \<Rightarrow> bool" where
  "rq_inv requests \<longleftrightarrow> sorted_wrt (\<lambda>a b. \<not> Replaces a b) requests \<and> length requests \<le> kMaxAccessRequests
     \<and> (\<forall>r\<in>set requests. rq_ok r)"

lemma Replaces_sym: "Replaces a b \<longleftrightarrow> Replaces b a"
  by (auto simp: Replaces_def SameKey_def)

lemma rq_inv_Nil [simp]: "rq_inv []"
  by (simp add: rq_inv_def)

lemma CleanAddress_idem [simp]: "CleanAddress (CleanAddress a) = CleanAddress a"
proof -
  have "Trim ([] :: bytes) = []" by (simp add: Trim_def)
  then show ?thesis by (auto simp: CleanAddress_def Let_def)
qed

lemma sorted_wrt_filter: "sorted_wrt P xs \<Longrightarrow> sorted_wrt P (filter q xs)"
  by (induction xs) auto

lemma sorted_wrt_erase: "sorted_wrt P xs \<Longrightarrow> sorted_wrt P (erase_at i xs)"
proof (cases "i < length xs")
  case True
  assume "sorted_wrt P xs"
  then have "sorted_wrt P (take i xs @ xs ! i # drop (Suc i) xs)" using erase_at_split [OF True] by metis
  then show ?thesis by (simp add: erase_at_def sorted_wrt_append)
qed (simp add: erase_at_def)

lemma sorted_wrt_room: "sorted_wrt P xs \<Longrightarrow> sorted_wrt P (make_room cap age xs)"
  by (simp add: make_room_def sorted_wrt_erase)

lemma Expire_inv: "rq_inv requests \<Longrightarrow> rq_inv (snd (rq_Expire requests now))"
  by (auto simp: rq_Expire_def rq_inv_def Let_def sorted_wrt_filter intro: le_trans [OF length_filter_le])

lemma Remove_inv: "rq_inv requests \<Longrightarrow> rq_inv (snd (rq_Remove requests key))"
  by (auto simp: rq_Remove_def rq_inv_def sorted_wrt_filter intro: le_trans [OF length_filter_le])

lemma Add_inv:
  assumes "rq_inv requests" "rq_Add requests r now = (ok, requests')"
  shows "rq_inv requests' \<and> (ok \<longrightarrow> (\<exists>r'\<in>set requests'. SameKey (ar_key r') (ar_key r) \<and> ar_requestedUnix r' = now \<and> ar_denied r' = ar_denied r))"
proof -
  let ?r = "r\<lparr>ar_address := CleanAddress (ar_address r), ar_requestedUnix := now\<rparr>"
  let ?kept = "make_room kMaxAccessRequests ar_requestedUnix (filter (\<lambda>e. \<not> Replaces ?r e) requests)"
  have kept: "set ?kept \<subseteq> {e \<in> set requests. \<not> Replaces ?r e}"
    using set_make_room [of kMaxAccessRequests ar_requestedUnix "filter (\<lambda>e. \<not> Replaces ?r e) requests"] by auto
  have "sorted_wrt (\<lambda>a b. \<not> Replaces a b) ?kept" "length ?kept < kMaxAccessRequests"
    using assms(1) length_make_room [of kMaxAccessRequests "filter (\<lambda>e. \<not> Replaces ?r e) requests" ar_requestedUnix]
      length_filter_le [of "\<lambda>e. \<not> Replaces ?r e" requests]
    by (auto simp: rq_inv_def sorted_wrt_room sorted_wrt_filter kMaxAccessRequests_def)
  moreover have "\<forall>e\<in>set ?kept. \<not> Replaces e ?r" "\<forall>e\<in>set ?kept. rq_ok e"
    using kept Replaces_sym [of ?r] assms(1) by (auto simp: rq_inv_def)
  ultimately have kept_ok: "rq_ok ?r \<Longrightarrow> rq_inv (?kept @ [?r])"
    by (simp add: rq_inv_def sorted_wrt_append)
  have "(if ok then requests' = ?kept @ [?r] \<and> rq_ok ?r else requests' = requests)"
    using assms(2) by (auto simp: rq_Add_def Let_def rq_ok_def split: if_splits)
  with kept_ok assms(1) show ?thesis by (cases ok) (simp_all add: SameKey_def)
qed

lemma Deny_inv:
  assumes "rq_inv requests"
  shows "rq_inv (snd (rq_Deny requests key now))"
proof (cases "update_first (\<lambda>r. SameKey (ar_key r) key) (\<lambda>r. r\<lparr>ar_denied := True, ar_requestedUnix := now\<rparr>) requests")
  case (Some rs)
  from update_first_split [OF Some] obtain as x bs
    where "requests = as @ x # bs" "rs = as @ x\<lparr>ar_denied := True, ar_requestedUnix := now\<rparr> # bs" by blast
  then show ?thesis
    using assms Some by (auto simp: rq_Deny_def rq_inv_def sorted_wrt_append Replaces_def rq_ok_def)
qed (simp add: rq_Deny_def assms)

section \<open>Answers\<close>

lemma Find_Some: "rq_Find requests key = Some r \<Longrightarrow> r \<in> set requests \<and> SameKey (ar_key r) key"
  unfolding rq_Find_def by (auto simp: find_Some_iff in_set_conv_nth)

lemma Find_None: "rq_Find requests key = None \<longleftrightarrow> (\<forall>r\<in>set requests. \<not> SameKey (ar_key r) key)"
  unfolding rq_Find_def by (auto simp: find_None_iff)

lemma SameKey_refl [simp]: "SameKey k k"
  by (simp add: SameKey_def)

lemma Find_unique:
  assumes "rq_inv requests" "r \<in> set requests"
  shows "rq_Find requests (ar_key r) = Some r"
proof -
  obtain q where q: "rq_Find requests (ar_key r) = Some q" using assms(2) Find_None [of requests "ar_key r"] by fastforce
  have "q = r"
  proof (rule ccontr)
    assume "q \<noteq> r"
    have same: "q \<in> set requests" "SameKey (ar_key q) (ar_key r)" using Find_Some [OF q] by auto
    obtain i where i: "i < length requests" "requests ! i = q" using same(1) by (auto simp: in_set_conv_nth)
    obtain j where j: "j < length requests" "requests ! j = r" using assms(2) by (auto simp: in_set_conv_nth)
    have "i \<noteq> j" using \<open>q \<noteq> r\<close> i j by auto
    then have "\<not> Replaces q r \<or> \<not> Replaces r q"
      using assms(1) i j unfolding rq_inv_def sorted_wrt_iff_nth_less by (metis nat_neq_iff)
    then show False using same(2) by (auto simp: Replaces_def SameKey_def)
  qed
  then show ?thesis using q by simp
qed

text \<open>A denied key stays denied whatever it asks again, until its entry expires or makes room.\<close>

lemma denied_is_refused:
  "rq_IsDenied requests (ar_key r) \<Longrightarrow> \<not> ar_denied r \<Longrightarrow> rq_Add requests r now = (False, requests)"
  by (auto simp: rq_Add_def Let_def)

lemma Deny_denies:
  assumes "rq_inv requests" "rq_Deny requests key now = (True, requests')"
  shows "rq_IsDenied requests' key"
proof -
  let ?f = "\<lambda>r. r\<lparr>ar_denied := True, ar_requestedUnix := now\<rparr>"
  have up: "update_first (\<lambda>r. SameKey (ar_key r) key) ?f requests = Some requests'"
    using assms(2) by (auto simp: rq_Deny_def split: option.splits)
  from update_first_split [OF up] obtain as x bs
    where x: "SameKey (ar_key x) key" "requests' = as @ ?f x # bs" by blast
  have inv: "rq_inv requests'" using Deny_inv [OF assms(1), of key now] assms(2) by simp
  have "rq_Find requests' (ar_key (?f x)) = Some (?f x)" by (rule Find_unique [OF inv]) (simp add: x(2))
  moreover have "rq_Find requests' key = rq_Find requests' (ar_key (?f x))"
    using x(1) by (simp add: rq_Find_def SameKey_def)
  ultimately show ?thesis by (simp add: rq_IsDenied_def)
qed

section \<open>Reading the file back\<close>

definition request_persistent :: "int \<Rightarrow> AccessRequest \<Rightarrow> bool" where
  "request_persistent now r \<longleftrightarrow> rq_ok r \<and> trimmed_key (ar_key r)
     \<and> 0 \<le> ar_requestedUnix r \<and> ar_requestedUnix r \<le> now \<and> now \<le> int64_max
     \<and> now - ar_requestedUnix r < kAccessRequestTtlSeconds"

lemma CleanAddress_chars: "CleanAddress a = a \<Longrightarrow> c \<in> set a \<Longrightarrow> 0x20 < c \<and> c \<noteq> 0x7F"
  by (fastforce simp: CleanAddress_def Let_def not_le split: if_split_asm)

lemma length_CleanAddress: "length (CleanAddress a) \<le> 64"
  by (simp add: CleanAddress_def kconsts Let_def)

lemma Format_last:
  assumes "trimmed_key k"
  shows "\<not> is_space (last (FormatPublicKeyText k))"
proof -
  let ?b = "EncodeBase64 (pk_blob k) Standard Equals"
  have v: "ValidBlob k" and shape: "FormatPublicKeyText k = type_name (pk_algorithm k) @ [0x20] @ ?b
      @ (if pk_label k \<noteq> [] then [0x20] @ pk_label k else [])"
    using assms by (auto simp: trimmed_key_def FormatPublicKeyText_def split: if_splits)
  have "?b \<noteq> []"
    using Base64_roundtrip [of "pk_blob k" Standard Equals] ValidBlob_length [OF v] by (auto simp: DecodeBase64_def)
  then have "\<not> is_space (last ?b)" using Encode_Equals_chars blank_space(2) last_in_set by blast
  moreover have "pk_label k \<noteq> [] \<Longrightarrow> \<not> is_space (last (pk_label k))"
    using Trim_edges [of "pk_label k"] assms by (simp add: trimmed_key_def)
  ultimately show ?thesis using \<open>?b \<noteq> []\<close> by (simp add: shape)
qed

lemma digits_first:
  assumes "0 \<le> v"
  shows "to_string v \<noteq> []" "is_digit (hd (to_string v))"
    "c \<in> set (to_string v) \<Longrightarrow> 0x20 < c"
proof -
  have eq: "to_string v = dec (nat v)" using assms by (simp add: to_string_def)
  show "to_string v \<noteq> []" by (simp add: eq)
  show "is_digit (hd (to_string v))" unfolding eq by (rule dec_digits [of _ "nat v"]) simp
  show "c \<in> set (to_string v) \<Longrightarrow> 0x20 < c"
    using dec_digits [of c "nat v"] by (auto simp: eq is_digit_def word_le_nat_alt word_less_nat_alt)
qed

lemma request_line_read:
  assumes "request_persistent now r"
  shows "parse_request (request_line r) = Some r" "Trim (request_line r) = request_line r"
    "request_line r \<noteq> []" "0x0A \<notin> set (request_line r)" "length (request_line r) \<le> 347"
proof -
  let ?t = "to_string (ar_requestedUnix r)" and ?a = "ar_address r" and ?k = "FormatPublicKeyText (ar_key r)"
  let ?pre = "if ar_denied r then kDeniedPrefix else []"
  let ?body = "?t @ 0x20 # ?a @ 0x20 # ?k"
  have line: "request_line r = ?pre @ ?body" by (simp add: request_line_def)
  have r: "0 \<le> ar_requestedUnix r" "ar_requestedUnix r \<le> int64_max" "?a \<noteq> []" "CleanAddress ?a = ?a"
    "trimmed_key (ar_key r)" "?k \<noteq> []"
    using assms by (auto simp: request_persistent_def rq_ok_def trimmed_key_def)
  have t: "?t \<noteq> []" "is_digit (hd ?t)" "c \<in> set ?t \<Longrightarrow> 0x20 < c" for c using digits_first [OF r(1)] by auto
  have a: "c \<in> set ?a \<Longrightarrow> 0x20 < c" for c using CleanAddress_chars [OF r(4)] by blast
  have len_t: "length ?t \<le> 19"
  proof -
    have "nat (ar_requestedUnix r) < 10 ^ 19" using r(1,2) by (simp add: int64_max_def nat_less_iff)
    then show ?thesis using r(1) length_dec [of 19 "nat (ar_requestedUnix r)"] by (simp add: to_string_def)
  qed
  have len_a: "length ?a \<le> 64" using length_CleanAddress [of ?a] r(4) by simp
  have len_k: "length ?k \<le> 255" by (rule FormatPublicKeyText_read(2) [OF r(6)])
  have len_p: "length kDeniedPrefix = 7" by (simp add: kDeniedPrefix_def bytes_of_def)
  show "length (request_line r) \<le> 347" using len_t len_a len_k len_p by (simp add: line)
  show "request_line r \<noteq> []" using t(1) by (simp add: line)
  have no_nl: "0x0A \<notin> set ?t" "0x0A \<notin> set ?a" "0x0A \<notin> set ?k" "0x0A \<notin> set kDeniedPrefix"
    using t(3) [of "0x0A"] a [of "0x0A"] key_text.one_line [OF r(5)]
    by (auto simp: kDeniedPrefix_def bytes_of_def)
  then show "0x0A \<notin> set (request_line r)" by (simp add: line)
  have first: "\<not> is_space (hd (request_line r))"
    using t(1,2) by (auto simp: line is_space_def is_digit_def kDeniedPrefix_def bytes_of_def hd_append)
  have "last (request_line r) = last ?k" using r(6) by (simp add: line)
  then show "Trim (request_line r) = request_line r"
    using first Format_last [OF r(5)] by (intro Trim_id) simp
  have "hd ?body \<noteq> 0x64" using t(1,2) by (auto simp: is_digit_def hd_append)
  then have "take 7 ?body \<noteq> kDeniedPrefix"
    using t(1) by (cases ?body) (auto simp: kDeniedPrefix_def bytes_of_def)
  then have den: "starts_with (request_line r) kDeniedPrefix = ar_denied r"
    by (simp add: line starts_with_def len_p)
  have rest: "(if ar_denied r then drop (length kDeniedPrefix) (request_line r) else request_line r) = ?body"
    by (simp add: line)
  have f1: "find_byte 0x20 ?body = Some (length ?t)"
    using t(3) by (intro find_byte_append) blast
  have "find_byte 0x20 (?a @ 0x20 # ?k) = Some (length ?a)" using a by (intro find_byte_append) blast
  then have f2: "find_from 0x20 ?body (length ?t + 1) = Some (length ?t + 1 + length ?a)"
    by (simp add: find_from_def)
  have subs: "substr ?body 0 (length ?t) = ?t"
    "substr ?body (length ?t + 1) (length ?t + 1 + length ?a - length ?t - 1) = ?a"
    "drop (length ?t + 1 + length ?a + 1) ?body = ?k"
    by (simp_all add: substr_def)
  have parts: "ParseUnixTime ?t = Some (ar_requestedUnix r)" "ParsePublicKeyText ?k = Some (ar_key r)"
    using r ParseUnixTime_to_string key_text.parse_print by auto
  have short: "(length ?body > kMaxAccessRequestLineBytes) = False"
    using len_t len_a len_k by (simp add: kconsts)
  have same: "\<lparr>ar_key = ar_key r, ar_address = ar_address r, ar_requestedUnix = ar_requestedUnix r, ar_denied = ar_denied r\<rparr> = r"
    by simp
  show "parse_request (request_line r) = Some r"
    unfolding parse_request_def Let_def den rest short if_False f1 bind.bind_lunit f2 subs parts option.case r(4) same
    using r(3) by simp
qed

lemma request_file:
  assumes "request_persistent now r"
  shows "request_line r \<noteq> [] \<and> 0x0A \<notin> set (request_line r)"
  using request_line_read [OF assms] by blast

interpretation request_text: line_format request_line "\<lambda>s. parse_request (Trim s)" "request_persistent now" for now
  by unfold_locales (simp_all add: request_line_read request_file)

lemma Serialize_request_lines:
  "\<forall>r\<in>set rs. request_persistent now r \<Longrightarrow> SerializeAccessRequests rs = concat (map (\<lambda>r. request_line r @ [0x0A]) rs)"
  by (induction rs) (auto simp: request_persistent_def trimmed_key_def rq_ok_def)

lemma requests_read:
  assumes "\<forall>r\<in>set rs. request_persistent now r" "rq_inv (store @ rs)"
  shows "request_lines store now (map request_line rs) = Some (store @ rs)"
  using assms
proof (induction rs arbitrary: store)
  case (Cons r rs)
  have r: "request_persistent now r" using Cons.prems by simp
  have apart: "\<not> Replaces e r" "\<not> Replaces r e" if "e \<in> set store" for e
    using Cons.prems(2) that Replaces_sym by (auto simp: rq_inv_def sorted_wrt_append)
  have "Replaces r e" if "SameKey (ar_key e) (ar_key r)" for e using that by (simp add: Replaces_def)
  with apart have new: "rq_Find store (ar_key r) = None" "\<not> HoldsNewerFromSameSource store r"
    by (auto simp: Find_None HoldsNewerFromSameSource_def)
  have fresh: "\<not> OutlivedItsTtl (ar_requestedUnix r) now" "CleanAddress (ar_address r) = ar_address r"
    "ar_address r \<noteq> []" "ValidKey (ar_key r)"
    using r by (auto simp: request_persistent_def OutlivedItsTtl_def rq_ok_def)
  have "filter (\<lambda>e. \<not> Replaces r e) store = store" using apart by (intro filter_True) auto
  moreover have "length store < kMaxAccessRequests" using Cons.prems(2) by (simp add: rq_inv_def)
  moreover have "\<not> rq_IsDenied store (ar_key r)" by (simp add: rq_IsDenied_def new(1))
  ultimately have "rq_Add store r (ar_requestedUnix r) = (True, store @ [r])"
    using fresh by (simp add: rq_Add_def make_room_id Let_def)
  then show ?case
    using Cons.IH [of "store @ [r]"] Cons.prems new fresh(1) request_line_read(1,2,3) [OF r]
    by (simp add: Let_def)
qed simp

lemma AccessRequests_roundtrip:
  assumes "rq_inv rs" "\<forall>r\<in>set rs. request_persistent now r"
  shows "ParseAccessRequests (SerializeAccessRequests rs) now = Some rs"
proof -
  have "length (concat (map (\<lambda>r. request_line r @ [0x0A]) rs)) \<le> length rs * 348"
    using assms(2) request_line_read(5) by (induction rs) fastforce+
  then have "length (concat (map (\<lambda>r. request_line r @ [0x0A]) rs)) \<le> 65536"
    using assms(1) by (simp add: rq_inv_def kconsts)
  moreover have "snd (rq_Expire rs now) = rs"
    using assms(2) by (auto simp: rq_Expire_def Let_def request_persistent_def OutlivedItsTtl_def intro!: filter_True)
  ultimately show ?thesis
    using requests_read [of rs now "[]"] assms
    by (simp add: ParseAccessRequests_def Serialize_request_lines [OF assms(2)] request_text.file_lines [OF assms(2)]
        kMaxAccessRequestsFileBytes_def)
qed

lemma request_lines_inv: "rq_inv store \<Longrightarrow> request_lines store now ls = Some rs \<Longrightarrow> rq_inv rs"
proof (induction store now ls rule: request_lines.induct)
  case (2 store now raw rest)
  show ?case
  proof (cases "Trim raw = []")
    case True
    then show ?thesis using 2 by (simp add: Let_def)
  next
    case False
    then obtain r where r: "parse_request (Trim raw) = Some r" "rq_Find store (ar_key r) = None"
      using 2(5) by (auto simp: Let_def split: option.splits if_splits)
    show ?thesis
    proof (cases "OutlivedItsTtl (ar_requestedUnix r) now \<or> HoldsNewerFromSameSource store r")
      case True
      then show ?thesis using 2(2,4,5) False r by (simp add: Let_def)
    next
      case keep: False
      obtain added store1 where add: "rq_Add store r (ar_requestedUnix r) = (added, store1)"
        by (cases "rq_Add store r (ar_requestedUnix r)")
      then have "added" "request_lines store1 now rest = Some rs"
        using 2(5) False r keep by (auto simp: Let_def split: if_splits)
      moreover have "rq_inv store1" using Add_inv [OF 2(4) add] by blast
      ultimately show ?thesis using 2(3) False r keep add by simp
    qed
  qed
qed simp

section \<open>Operations as one component\<close>

datatype RequestOp = RequestAdd AccessRequest int | RequestRemove PublicKeyText | RequestDeny PublicKeyText int
  | RequestExpire int | RequestLoad bytes int

fun request_step :: "AccessRequests \<Rightarrow> RequestOp \<Rightarrow> (AccessRequests \<times> bool) checked" where
  "request_step rs (RequestAdd r now) = (let (ok, rs) = rq_Add rs r now in Some (rs, ok))"
| "request_step rs (RequestRemove k) = (let (ok, rs) = rq_Remove rs k in Some (rs, ok))"
| "request_step rs (RequestDeny k now) = (let (ok, rs) = rq_Deny rs k now in Some (rs, ok))"
| "request_step rs (RequestExpire now) = (let (n, rs) = rq_Expire rs now in Some (rs, n \<noteq> 0))"
| "request_step rs (RequestLoad s now) = (case ParseAccessRequests s now of None \<Rightarrow> Some (rs, False) | Some rs \<Rightarrow> Some (rs, True))"

interpretation requests: component request_step rq_inv "\<lambda>_. True" "\<lambda>_ _. True"
proof
  fix rs x assume inv: "rq_inv rs"
  show "\<exists>rs' r. request_step rs x = Some (rs', r) \<and> rq_inv rs' \<and> True"
  proof (cases x)
    case (RequestAdd r now)
    then show ?thesis using Add_inv [OF inv, of r now] by (auto split: prod.splits)
  next
    case (RequestRemove k)
    then show ?thesis using Remove_inv [OF inv, of k] by (auto split: prod.splits)
  next
    case (RequestDeny k now)
    then show ?thesis using Deny_inv [OF inv, of k now] by (auto split: prod.splits)
  next
    case (RequestExpire now)
    then show ?thesis using Expire_inv [OF inv, of now] by (auto split: prod.splits)
  next
    case (RequestLoad s now)
    have "rq_inv rs'" if "ParseAccessRequests s now = Some rs'" for rs'
      using that request_lines_inv [OF rq_inv_Nil] Expire_inv by (auto simp: ParseAccessRequests_def split: if_splits)
    then show ?thesis using RequestLoad inv by (auto split: option.splits)
  qed
qed

section \<open>A denied key stays denied\<close>

text \<open>
  The operations that leave the entry of a key in the list: no removal of the key itself, no expiry
  that has come for it, no other list loaded, and no new key while the list is full, which would
  evict the oldest entry.
\<close>

fun spares_entry :: "AccessRequests \<Rightarrow> PublicKeyText \<Rightarrow> RequestOp \<Rightarrow> bool" where
  "spares_entry rs key (RequestAdd r now) \<longleftrightarrow> SameKey (ar_key r) key \<or> length rs < kMaxAccessRequests"
| "spares_entry rs key (RequestRemove k) \<longleftrightarrow> \<not> SameKey k key"
| "spares_entry rs key (RequestDeny k now) \<longleftrightarrow> True"
| "spares_entry rs key (RequestExpire now) \<longleftrightarrow>
     list_all (\<lambda>r. SameKey (ar_key r) key \<longrightarrow> ar_requestedUnix r \<le> now \<and> now - ar_requestedUnix r < kAccessRequestTtlSeconds) rs"
| "spares_entry rs key (RequestLoad s now) \<longleftrightarrow> False"

fun spares :: "AccessRequests \<Rightarrow> PublicKeyText \<Rightarrow> RequestOp list \<Rightarrow> bool" where
  "spares rs key [] \<longleftrightarrow> True"
| "spares rs key (x # xs) \<longleftrightarrow> spares_entry rs key x \<and> spares (fst (the (request_step rs x))) key xs"

lemma IsDenied_iff: "rq_inv rs \<Longrightarrow> rq_IsDenied rs key \<longleftrightarrow> (\<exists>e\<in>set rs. SameKey (ar_key e) key \<and> ar_denied e)"
proof
  assume "rq_IsDenied rs key"
  then obtain e where "rq_Find rs key = Some e" "ar_denied e" by (auto simp: rq_IsDenied_def split: option.splits)
  then show "\<exists>e\<in>set rs. SameKey (ar_key e) key \<and> ar_denied e" using Find_Some by blast
next
  assume inv: "rq_inv rs" and "\<exists>e\<in>set rs. SameKey (ar_key e) key \<and> ar_denied e"
  then obtain e where e: "e \<in> set rs" "SameKey (ar_key e) key" "ar_denied e" by blast
  have "rq_Find rs key = rq_Find rs (ar_key e)" using e(2) by (simp add: rq_Find_def SameKey_def)
  then show "rq_IsDenied rs key" using Find_unique [OF inv e(1)] e(3) by (simp add: rq_IsDenied_def)
qed

lemma Add_keeps_denied:
  assumes inv: "rq_inv rs" and den: "rq_IsDenied rs key" and room: "SameKey (ar_key r) key \<or> length rs < kMaxAccessRequests"
  shows "rq_IsDenied (snd (rq_Add rs r now)) key"
proof -
  obtain ok rs' where add: "rq_Add rs r now = (ok, rs')" by (cases "rq_Add rs r now")
  have inv': "rq_inv rs'" using Add_inv [OF inv add] by blast
  have "\<exists>e\<in>set rs'. SameKey (ar_key e) key \<and> ar_denied e"
  proof (cases ok)
    case False
    then have "rs' = rs" using add by (auto simp: rq_Add_def Let_def split: if_splits)
    then show ?thesis using den IsDenied_iff [OF inv] by simp
  next
    case ok: True
    show ?thesis
    proof (cases "SameKey (ar_key r) key")
      case True
      then have "rq_IsDenied rs (ar_key r)" using den by (simp add: rq_IsDenied_def rq_Find_def SameKey_def)
      then have "ar_denied r" using add ok by (auto simp: rq_Add_def Let_def split: if_splits)
      moreover obtain e where "e \<in> set rs'" "SameKey (ar_key e) (ar_key r)" "ar_denied e = ar_denied r" using Add_inv [OF inv add] ok by blast
      ultimately show ?thesis using True by (auto simp: SameKey_def)
    next
      case False
      let ?r = "r\<lparr>ar_address := CleanAddress (ar_address r), ar_requestedUnix := now\<rparr>"
      obtain e where e: "e \<in> set rs" "SameKey (ar_key e) key" "ar_denied e" using den IsDenied_iff [OF inv] by blast
      have "\<not> Replaces ?r e" using e False by (auto simp: Replaces_def SameKey_def)
      moreover have "length (filter (\<lambda>e. \<not> Replaces ?r e) rs) < kMaxAccessRequests"
        using room False length_filter_le [of "\<lambda>e. \<not> Replaces ?r e" rs] by linarith
      moreover have "rs' = make_room kMaxAccessRequests ar_requestedUnix (filter (\<lambda>e. \<not> Replaces ?r e) rs) @ [?r]"
        using add ok by (auto simp: rq_Add_def Let_def split: if_splits)
      ultimately have "e \<in> set rs'" using e(1) by (simp add: make_room_id)
      then show ?thesis using e by blast
    qed
  qed
  then show ?thesis using IsDenied_iff [OF inv'] add by simp
qed

lemma Deny_keeps_denied:
  assumes inv: "rq_inv rs" and den: "rq_IsDenied rs key"
  shows "rq_IsDenied (snd (rq_Deny rs k now)) key"
proof -
  let ?f = "\<lambda>r. r\<lparr>ar_denied := True, ar_requestedUnix := now\<rparr>"
  obtain e where e: "e \<in> set rs" "SameKey (ar_key e) key" "ar_denied e" using den IsDenied_iff [OF inv] by blast
  have "\<exists>e\<in>set (snd (rq_Deny rs k now)). SameKey (ar_key e) key \<and> ar_denied e"
  proof (cases "update_first (\<lambda>r. SameKey (ar_key r) k) ?f rs")
    case (Some rs')
    from update_first_split [OF Some] obtain as x bs where "rs = as @ x # bs" "rs' = as @ ?f x # bs" by blast
    then show ?thesis using e Some by (cases "e = x") (auto simp: rq_Deny_def)
  qed (use e in \<open>auto simp: rq_Deny_def\<close>)
  then show ?thesis using IsDenied_iff [OF Deny_inv [OF inv]] by blast
qed

lemma step_keeps_denied:
  assumes inv: "rq_inv rs" and den: "rq_IsDenied rs key" and sp: "spares_entry rs key x"
  shows "\<exists>rs' b. request_step rs x = Some (rs', b) \<and> rq_inv rs' \<and> rq_IsDenied rs' key"
proof -
  obtain rs' b where step: "request_step rs x = Some (rs', b)" "rq_inv rs'" using requests.keeps [OF inv, of x] by blast
  obtain e where e: "e \<in> set rs" "SameKey (ar_key e) key" "ar_denied e" using den IsDenied_iff [OF inv] by blast
  have "rq_IsDenied rs' key"
  proof (cases x)
    case (RequestAdd r now)
    then show ?thesis using Add_keeps_denied [OF inv den, of r now] sp step(1) by (auto split: prod.splits)
  next
    case (RequestDeny k now)
    then show ?thesis using Deny_keeps_denied [OF inv den, of k now] step(1) by (auto split: prod.splits)
  next
    case (RequestRemove k)
    then have "e \<in> set rs'" using e sp step(1) by (auto simp: rq_Remove_def SameKey_def split: if_splits)
    then show ?thesis using IsDenied_iff [OF step(2)] e by blast
  next
    case (RequestExpire now)
    then have "e \<in> set rs'" using e sp step(1) by (auto simp: rq_Expire_def Let_def list_all_iff OutlivedItsTtl_def split: prod.splits)
    then show ?thesis using IsDenied_iff [OF step(2)] e by blast
  qed (use sp in simp)
  then show ?thesis using step by blast
qed

lemma run_keeps_denied:
  "rq_inv rs \<Longrightarrow> rq_IsDenied rs key \<Longrightarrow> spares rs key xs \<Longrightarrow>
   \<exists>rs' out. run_ops request_step rs xs = Some (rs', out) \<and> rq_inv rs' \<and> rq_IsDenied rs' key"
proof (induction xs arbitrary: rs)
  case (Cons x xs)
  obtain rs1 b where s: "request_step rs x = Some (rs1, b)" "rq_inv rs1" "rq_IsDenied rs1 key"
    using step_keeps_denied [OF Cons.prems(1,2), of x] Cons.prems(3) by auto
  obtain rs2 out where "run_ops request_step rs1 xs = Some (rs2, out)" "rq_inv rs2" "rq_IsDenied rs2 key"
    using Cons.IH [OF s(2,3)] Cons.prems(3) s(1) by auto
  then show ?case using s(1) by simp
qed simp

end
