(* ===== verification/TrustStore.thy ===== *)
theory TrustStore
  imports Base64 StdVector
begin

text \<open>
  Host fingerprints, the store of trusted hosts and its file format
  (\<open>src/core/src/net/TrustStore.cpp\<close>). A fingerprint is its 32 bytes, a host record has the
  code's fields, the store is the vector of its hosts.
\<close>

section \<open>Fingerprints\<close>

definition kFingerprintBytes :: nat where [kconsts]: "kFingerprintBytes = 32"
definition kFingerprintTextBytes :: nat where [kconsts]: "kFingerprintTextBytes = 43"
definition kFingerprintPrefix :: bytes where "kFingerprintPrefix = bytes_of ''SHA256:''"
definition kShortFingerprintChars :: nat where [kconsts]: "kShortFingerprintChars = 12"

type_synonym Fingerprint = bytes

definition IsZero :: "bytes \<Rightarrow> bool" where
  "IsZero fp \<longleftrightarrow> list_all (\<lambda>b. b = 0) fp"

definition FormatFingerprint :: "Fingerprint \<Rightarrow> bytes" where
  "FormatFingerprint fp = kFingerprintPrefix @ EncodeBase64 fp Standard NoPadding"

definition ShortFingerprint :: "Fingerprint \<Rightarrow> bytes" where
  "ShortFingerprint fp =
     (if IsZero fp then []
      else let full = FormatFingerprint fp; start = length kFingerprintPrefix in
        if length full \<le> start then full else substr full start kShortFingerprintChars)"

definition ParseFingerprint :: "bytes \<Rightarrow> Fingerprint option" where
  "ParseFingerprint s =
     (let body = Trim s in
      if length body < length kFingerprintPrefix then None
      else if substr body 0 (length kFingerprintPrefix) \<noteq> kFingerprintPrefix then None
      else let body = drop (length kFingerprintPrefix) body in
        if length body \<noteq> kFingerprintTextBytes then None
        else case DecodeBase64 body Standard of
          None \<Rightarrow> None
        | Some bs \<Rightarrow> if length bs \<noteq> kFingerprintBytes then None else Some bs)"

section \<open>The store\<close>

datatype TrustVerdict = Unknown | Trusted

record TrustedHost =
  th_fingerprint :: Fingerprint
  th_label :: bytes
  th_endpoint :: bytes
  th_firstSeenUnix :: int
  th_lastSeenUnix :: int

type_synonym TrustStore = "TrustedHost list"

definition kMaxTrustedHosts :: nat where [kconsts]: "kMaxTrustedHosts = 256"
definition kMaxTrustLabelBytes :: nat where [kconsts]: "kMaxTrustLabelBytes = 64"
definition kMaxTrustEndpointBytes :: nat where [kconsts]: "kMaxTrustEndpointBytes = 64"
definition kMaxTrustStoreFileBytes :: nat where [kconsts]: "kMaxTrustStoreFileBytes = 131072"
definition kMaxTrustLineBytes :: nat where [kconsts]: "kMaxTrustLineBytes = 512"

definition SanitizeLabel :: "bytes \<Rightarrow> bytes" where
  "SanitizeLabel label = SanitizeText label kMaxTrustLabelBytes"

definition SanitizeEndpoint :: "bytes \<Rightarrow> bytes" where
  "SanitizeEndpoint endpoint =
     (let trimmed = Trim endpoint in
      if length trimmed > kMaxTrustEndpointBytes then []
      else if \<exists>c\<in>set trimmed. c \<le> 0x20 \<or> c = 0x7F then [] else trimmed)"

definition ts_Find :: "TrustStore \<Rightarrow> Fingerprint \<Rightarrow> TrustedHost option" where
  "ts_Find hosts fp = (if IsZero fp then None else find_key th_fingerprint fp hosts)"

definition ts_Check :: "TrustStore \<Rightarrow> Fingerprint \<Rightarrow> TrustVerdict" where
  "ts_Check hosts fp =
     (if IsZero fp then Unknown else case ts_Find hosts fp of Some _ \<Rightarrow> Trusted | None \<Rightarrow> Unknown)"

text \<open>\<open>Forget\<close> says whether it removed anything.\<close>

definition ts_Forget :: "TrustStore \<Rightarrow> Fingerprint \<Rightarrow> bool \<times> TrustStore" where
  "ts_Forget hosts fp =
     (if \<exists>h\<in>set hosts. th_fingerprint h = fp then (True, drop_key th_fingerprint fp hosts) else (False, hosts))"

definition ts_Insert :: "TrustStore \<Rightarrow> TrustedHost \<Rightarrow> TrustStore" where
  "ts_Insert hosts host =
     (if IsZero (th_fingerprint host) then hosts
      else let hosts = snd (ts_Forget hosts (th_fingerprint host));
               hosts = make_room kMaxTrustedHosts th_lastSeenUnix hosts
      in hosts @ [host\<lparr>th_label := SanitizeLabel (th_label host), th_endpoint := SanitizeEndpoint (th_endpoint host)\<rparr>])"

text \<open>The endpoint a later sighting leaves behind, and the refreshed record.\<close>

definition seen_again :: "bytes \<Rightarrow> int \<Rightarrow> TrustedHost \<Rightarrow> TrustedHost" where
  "seen_again endpoint nowUnix h =
     (let clean = SanitizeEndpoint endpoint;
          h = (if clean \<noteq> [] then h\<lparr>th_endpoint := clean\<rparr> else h)
      in h\<lparr>th_lastSeenUnix := nowUnix\<rparr>)"

definition ts_Remember :: "TrustStore \<Rightarrow> Fingerprint \<Rightarrow> bytes \<Rightarrow> bytes \<Rightarrow> int \<Rightarrow> TrustStore" where
  "ts_Remember hosts fp label endpoint nowUnix =
     (if IsZero fp then hosts
      else case update_first (\<lambda>h. th_fingerprint h = fp)
             (\<lambda>h. let clean = SanitizeLabel label;
                      h = (if clean \<noteq> [] then h\<lparr>th_label := clean\<rparr> else h)
                  in seen_again endpoint nowUnix h) hosts of
        Some hosts \<Rightarrow> hosts
      | None \<Rightarrow> ts_Insert hosts
          \<lparr>th_fingerprint = fp, th_label = SanitizeLabel label, th_endpoint = SanitizeEndpoint endpoint,
           th_firstSeenUnix = nowUnix, th_lastSeenUnix = nowUnix\<rparr>)"

definition ts_Touch :: "TrustStore \<Rightarrow> Fingerprint \<Rightarrow> bytes \<Rightarrow> int \<Rightarrow> bool \<times> TrustStore" where
  "ts_Touch hosts fp endpoint nowUnix =
     (case update_first (\<lambda>h. th_fingerprint h = fp) (seen_again endpoint nowUnix) hosts of
        Some hosts \<Rightarrow> (True, hosts) | None \<Rightarrow> (False, hosts))"

definition ts_SetLabel :: "TrustStore \<Rightarrow> Fingerprint \<Rightarrow> bytes \<Rightarrow> bool \<times> TrustStore" where
  "ts_SetLabel hosts fp label =
     (if label \<noteq> SanitizeLabel label then (False, hosts)
      else case update_first (\<lambda>h. th_fingerprint h = fp) (\<lambda>h. h\<lparr>th_label := label\<rparr>) hosts of
        Some hosts \<Rightarrow> (True, hosts) | None \<Rightarrow> (False, hosts))"

definition ts_Clear :: "TrustStore \<Rightarrow> TrustStore" where
  "ts_Clear hosts = []"

fun latest_at :: "bytes \<Rightarrow> TrustedHost option \<Rightarrow> TrustedHost list \<Rightarrow> TrustedHost option" where
  "latest_at key latest [] = latest"
| "latest_at key latest (h # hs) =
     (if th_endpoint h \<noteq> key then latest_at key latest hs
      else case latest of
        None \<Rightarrow> latest_at key (Some h) hs
      | Some l \<Rightarrow> latest_at key (if th_lastSeenUnix h > th_lastSeenUnix l then Some h else Some l) hs)"

definition ts_FindByEndpoint :: "TrustStore \<Rightarrow> bytes \<Rightarrow> TrustedHost option" where
  "ts_FindByEndpoint hosts endpoint =
     (let key = SanitizeEndpoint endpoint in if key = [] then None else latest_at key None hosts)"

section \<open>The file\<close>

text \<open>One trimmed line; \<open>None\<close> where the loop goes on to the next line.\<close>

definition parse_trust_line :: "bytes \<Rightarrow> TrustedHost option" where
  "parse_trust_line line =
     (if line = [] \<or> hd line = 0x23 then None
      else let base = (case find_byte 0x09 line of None \<Rightarrow> line | Some tab \<Rightarrow> substr line 0 tab) in do {
        s1 \<leftarrow> find_byte 0x20 base;
        s2 \<leftarrow> find_from 0x20 base (s1 + 1);
        s3 \<leftarrow> find_from 0x20 base (s2 + 1);
        fp \<leftarrow> ParseFingerprint (substr base 0 s1);
        firstSeen \<leftarrow> ParseUnixTime (substr base (s1 + 1) (s2 - s1 - 1));
        lastSeen \<leftarrow> ParseUnixTime (substr base (s2 + 1) (s3 - s2 - 1));
        let s4 = find_from 0x20 base (s3 + 1);
            endpointEnd = (case s4 of None \<Rightarrow> length base | Some e \<Rightarrow> e);
            endpoint = SanitizeEndpoint (substr base (s3 + 1) (endpointEnd - s3 - 1));
            label = (case s4 of None \<Rightarrow> [] | Some e \<Rightarrow> SanitizeLabel (drop (e + 1) base))
        in if endpoint = [] then None
           else Some \<lparr>th_fingerprint = fp, th_label = label, th_endpoint = endpoint,
                      th_firstSeenUnix = firstSeen, th_lastSeenUnix = lastSeen\<rparr>
      })"

definition ParseTrustStore :: "bytes \<Rightarrow> TrustStore" where
  "ParseTrustStore s =
     foldl (\<lambda>store line. case parse_trust_line (Trim line) of None \<Rightarrow> store | Some h \<Rightarrow> ts_Insert store h) [] (text_lines s)"

fun strict_lines :: "TrustStore \<Rightarrow> bytes list \<Rightarrow> TrustStore option" where
  "strict_lines store [] = Some store"
| "strict_lines store (raw # rest) =
     (let line = Trim raw in
      if line = [] \<or> hd line = 0x23 then strict_lines store rest
      else if length line > kMaxTrustLineBytes \<or> length store \<ge> kMaxTrustedHosts then None
      else if \<exists>c\<in>set line. c < 32 \<and> c \<noteq> 0x09 then None
      else let parsed = ParseTrustStore line in
        if length parsed \<noteq> 1 then None
        else let host = hd parsed in
          if ts_Find store (th_fingerprint host) \<noteq> None then None
          else strict_lines (ts_Insert store host) rest)"

definition ParseTrustStoreStrict :: "bytes \<Rightarrow> TrustStore option" where
  "ParseTrustStoreStrict s = (if length s > kMaxTrustStoreFileBytes then None else strict_lines [] (text_lines s))"

definition trust_line :: "TrustedHost \<Rightarrow> bytes" where
  "trust_line h = FormatFingerprint (th_fingerprint h) @ [0x20] @ to_string (th_firstSeenUnix h) @ [0x20]
     @ to_string (th_lastSeenUnix h) @ [0x20] @ th_endpoint h
     @ (if th_label h \<noteq> [] then [0x20] @ th_label h else [])"

fun SerializeTrustStore :: "TrustStore \<Rightarrow> bytes" where
  "SerializeTrustStore [] = []"
| "SerializeTrustStore (h # hs) =
     (if th_endpoint h = [] \<or> IsZero (th_fingerprint h) then [] else trust_line h @ [0x0A]) @ SerializeTrustStore hs"

section \<open>Cleaned texts\<close>

lemma SanitizeLabel_idem [simp]: "SanitizeLabel (SanitizeLabel l) = SanitizeLabel l"
  by (simp add: SanitizeLabel_def SanitizeText_idem kconsts)

lemma SanitizeLabel_Nil [simp]: "SanitizeLabel [] = []"
  by (simp add: SanitizeLabel_def SanitizeText_def Trim_def)

lemma SanitizeEndpoint_idem [simp]: "SanitizeEndpoint (SanitizeEndpoint e) = SanitizeEndpoint e"
proof -
  have "Trim ([] :: bytes) = []" by (simp add: Trim_def)
  then show ?thesis by (auto simp: SanitizeEndpoint_def Let_def)
qed

lemma SanitizeEndpoint_Nil [simp]: "SanitizeEndpoint [] = []"
  by (simp add: SanitizeEndpoint_def Trim_def)

definition clean_label :: "bytes \<Rightarrow> bool" where "clean_label l \<longleftrightarrow> SanitizeLabel l = l"
definition clean_endpoint :: "bytes \<Rightarrow> bool" where "clean_endpoint e \<longleftrightarrow> SanitizeEndpoint e = e"

lemma clean_labelD:
  assumes "clean_label l"
  shows "length l \<le> 64" "c \<in> set l \<Longrightarrow> printable c" "Trim l = l"
proof -
  have eq: "SanitizeText l 64 = l" using assms by (simp add: clean_label_def SanitizeLabel_def kconsts)
  show "length l \<le> 64" using length_SanitizeText [of 64 l] by (simp add: eq)
  show "c \<in> set l \<Longrightarrow> printable c" using SanitizeText_printable [of 64 c l] by (simp add: eq)
  have "Trim (SanitizeText l 64) = SanitizeText l 64" by (simp only: SanitizeText_def Trim_idem)
  then show "Trim l = l" by (simp only: eq)
qed

lemma clean_endpointD:
  assumes "clean_endpoint e"
  shows "length e \<le> 64" "c \<in> set e \<Longrightarrow> 0x20 < c \<and> c \<noteq> 0x7F" "Trim e = e"
proof -
  have "e = Trim e \<and> length (Trim e) \<le> 64 \<and> (\<forall>c\<in>set (Trim e). 0x20 < c \<and> c \<noteq> 0x7F)"
    if "e \<noteq> []" using assms that
    by (simp add: clean_endpoint_def SanitizeEndpoint_def kconsts Let_def not_le not_less split: if_split_asm)
  then show "length e \<le> 64" "c \<in> set e \<Longrightarrow> 0x20 < c \<and> c \<noteq> 0x7F" "Trim e = e"
    by (cases "e = []"; simp add: Trim_def)+
qed

section \<open>The invariant\<close>

definition host_ok :: "TrustedHost \<Rightarrow> bool" where
  "host_ok h \<longleftrightarrow> \<not> IsZero (th_fingerprint h) \<and> clean_label (th_label h) \<and> clean_endpoint (th_endpoint h)"

definition trust_ok :: "TrustStore \<Rightarrow> bool" where
  "trust_ok hosts \<longleftrightarrow> distinct (map th_fingerprint hosts) \<and> length hosts \<le> kMaxTrustedHosts \<and> (\<forall>h\<in>set hosts. host_ok h)"

lemma trust_ok_Nil [simp]: "trust_ok []"
  by (simp add: trust_ok_def)

lemma Forget_drop: "snd (ts_Forget hosts fp) = drop_key th_fingerprint fp hosts"
proof (cases "\<exists>h\<in>set hosts. th_fingerprint h = fp")
  case False
  then have "drop_key th_fingerprint fp hosts = hosts" by (intro drop_key_absent) auto
  with False show ?thesis by (auto simp: ts_Forget_def)
qed (simp add: ts_Forget_def)

lemma Forget_ok: "trust_ok hosts \<Longrightarrow> trust_ok (snd (ts_Forget hosts fp))"
  using le_trans [OF drop_key_props(2)] by (auto simp: Forget_drop trust_ok_def)

lemma Insert_ok:
  assumes "trust_ok hosts"
  shows "trust_ok (ts_Insert hosts h)"
proof (cases "IsZero (th_fingerprint h)")
  case False
  let ?rest = "make_room kMaxTrustedHosts th_lastSeenUnix (drop_key th_fingerprint (th_fingerprint h) hosts)"
  have "length ?rest < kMaxTrustedHosts"
    using assms le_trans [OF drop_key_props(2)]
    by (intro length_make_room) (auto simp: trust_ok_def kMaxTrustedHosts_def)
  moreover have "distinct (map th_fingerprint ?rest)"
    using assms by (simp add: trust_ok_def distinct_make_room)
  moreover have "set ?rest \<subseteq> {x \<in> set hosts. th_fingerprint x \<noteq> th_fingerprint h}"
    using set_make_room [of kMaxTrustedHosts th_lastSeenUnix "drop_key th_fingerprint (th_fingerprint h) hosts"] by simp
  ultimately show ?thesis
    using assms False
    by (auto simp: ts_Insert_def Forget_drop trust_ok_def host_ok_def clean_label_def clean_endpoint_def Let_def)
qed (simp add: assms ts_Insert_def)

lemma seen_again_simps [simp]:
  "th_fingerprint (seen_again e t h) = th_fingerprint h" "th_label (seen_again e t h) = th_label h"
  "host_ok h \<Longrightarrow> host_ok (seen_again e t h)"
  by (auto simp: seen_again_def host_ok_def clean_endpoint_def Let_def)

lemma update_ok:
  assumes "trust_ok hosts" "update_first p f hosts = Some hosts'"
    and "\<And>x. th_fingerprint (f x) = th_fingerprint x" "\<And>x. host_ok x \<Longrightarrow> host_ok (f x)"
  shows "trust_ok hosts'"
proof -
  have keys: "map th_fingerprint hosts' = map th_fingerprint hosts" using update_first_key [OF assms(2), of th_fingerprint] assms(3) by blast
  then have "length hosts' = length hosts" by (rule map_eq_imp_length_eq)
  then show ?thesis
    using assms(1,4) keys update_first_set [OF assms(2)] by (fastforce simp: trust_ok_def)
qed

lemma Remember_ok: "trust_ok hosts \<Longrightarrow> trust_ok (ts_Remember hosts fp l e t)"
proof -
  have label: "host_ok h \<Longrightarrow> host_ok (h\<lparr>th_label := SanitizeLabel l\<rparr>)" for h
    by (simp add: host_ok_def clean_label_def)
  let ?f = "\<lambda>h. seen_again e t (if SanitizeLabel l \<noteq> [] then h\<lparr>th_label := SanitizeLabel l\<rparr> else h)"
  assume ok: "trust_ok hosts"
  show "trust_ok (ts_Remember hosts fp l e t)"
  proof (cases "update_first (\<lambda>h. th_fingerprint h = fp) ?f hosts")
    case None
    then show ?thesis using ok by (simp add: ts_Remember_def Let_def Insert_ok)
  next
    case (Some hosts')
    have "trust_ok hosts'" by (rule update_ok [OF ok Some]) (simp_all add: label)
    then show ?thesis using ok Some by (simp add: ts_Remember_def Let_def)
  qed
qed

lemma Touch_ok: "trust_ok hosts \<Longrightarrow> trust_ok (snd (ts_Touch hosts fp e t))"
  unfolding ts_Touch_def by (auto split: option.splits elim!: update_ok)

lemma SetLabel_ok: "trust_ok hosts \<Longrightarrow> trust_ok (snd (ts_SetLabel hosts fp l))"
  unfolding ts_SetLabel_def
  by (auto split: option.splits elim!: update_ok simp: host_ok_def clean_label_def)

lemma ParseTrustStore_ok: "trust_ok (ParseTrustStore s)"
proof -
  have "trust_ok store \<Longrightarrow> trust_ok (foldl (\<lambda>store line. case parse_trust_line (Trim line) of None \<Rightarrow> store
      | Some h \<Rightarrow> ts_Insert store h) store ls)" for store ls
    by (induction ls arbitrary: store) (auto intro: Insert_ok split: option.splits)
  then show ?thesis by (simp add: ParseTrustStore_def)
qed

lemma strict_ok: "trust_ok store \<Longrightarrow> strict_lines store ls = Some store' \<Longrightarrow> trust_ok store'"
  by (induction store ls rule: strict_lines.induct) (auto intro: Insert_ok simp: Let_def split: if_splits)

section \<open>Lookups\<close>

lemma Insert_find:
  assumes "trust_ok hosts" "host_ok h"
  shows "ts_Find (ts_Insert hosts h) (th_fingerprint h) = Some h"
    "fp \<noteq> th_fingerprint h \<Longrightarrow> ts_Find (ts_Insert hosts h) fp = Some g \<Longrightarrow> ts_Find hosts fp = Some g"
proof -
  let ?k = "th_fingerprint h"
  let ?rest = "make_room kMaxTrustedHosts th_lastSeenUnix (drop_key th_fingerprint ?k hosts)"
  have rest: "set ?rest \<subseteq> {x \<in> set hosts. th_fingerprint x \<noteq> ?k}"
    using set_make_room [of kMaxTrustedHosts th_lastSeenUnix "drop_key th_fingerprint ?k hosts"] by simp
  have eq: "ts_Insert hosts h = ?rest @ [h]"
    using assms(2) by (simp add: ts_Insert_def Forget_drop host_ok_def clean_label_def clean_endpoint_def Let_def)
  have "find_key th_fingerprint ?k ?rest = None" using rest by (auto simp: find_key_None)
  then show "ts_Find (ts_Insert hosts h) ?k = Some h"
    using assms(2) by (simp add: ts_Find_def eq find_key_append host_ok_def)
  assume "fp \<noteq> ?k" "ts_Find (ts_Insert hosts h) fp = Some g"
  then have g: "find_key th_fingerprint fp ?rest = Some g" "\<not> IsZero fp"
    by (auto simp: ts_Find_def eq find_key_append split: if_splits option.splits)
  then have "g \<in> set hosts" "th_fingerprint g = fp" using find_key_in [OF g(1)] rest by auto
  then show "ts_Find hosts fp = Some g"
    using assms(1) g(2) by (simp add: ts_Find_def find_key_Some trust_ok_def)
qed

lemma Forget_find: "trust_ok hosts \<Longrightarrow> ts_Find (snd (ts_Forget hosts k)) = (ts_Find hosts)(k := None)"
  by (auto simp: Forget_drop ts_Find_def find_drop_key fun_eq_iff)

interpretation trusted: roster trust_ok ts_Find "\<lambda>_ h hosts. ts_Insert hosts h" "\<lambda>k hosts. snd (ts_Forget hosts k)"
  "\<lambda>k h. th_fingerprint h = k \<and> host_ok h"
  by unfold_locales (auto intro: Insert_ok Forget_ok Insert_find simp: Forget_find)

text \<open>Only a host that was put in can be trusted.\<close>

lemma Check_Trusted: "ts_Check hosts fp = Trusted \<longleftrightarrow> (\<exists>h. ts_Find hosts fp = Some h)"
  by (auto simp: ts_Check_def ts_Find_def split: option.splits)

lemma latest_at_props:
  "latest_at key best hs = Some r \<Longrightarrow>
   (best = Some r \<or> r \<in> set hs \<and> th_endpoint r = key)
   \<and> (\<forall>b. best = Some b \<longrightarrow> th_lastSeenUnix b \<le> th_lastSeenUnix r)
   \<and> (\<forall>h\<in>set hs. th_endpoint h = key \<longrightarrow> th_lastSeenUnix h \<le> th_lastSeenUnix r)"
proof (induction hs arbitrary: best)
  case (Cons h hs)
  show ?case
  proof (cases "th_endpoint h = key")
    case True
    let ?best = "case best of None \<Rightarrow> Some h | Some l \<Rightarrow> if th_lastSeenUnix h > th_lastSeenUnix l then Some h else Some l"
    have "latest_at key ?best hs = Some r" using Cons.prems True by (cases best) simp_all
    from Cons.IH [OF this] True show ?thesis by (auto split: option.splits if_splits)
  next
    case False
    then show ?thesis using Cons by fastforce
  qed
qed simp

lemma FindByEndpoint_latest:
  assumes "ts_FindByEndpoint hosts e = Some r"
  shows "r \<in> set hosts \<and> th_endpoint r = SanitizeEndpoint e
     \<and> (\<forall>h\<in>set hosts. th_endpoint h = SanitizeEndpoint e \<longrightarrow> th_lastSeenUnix h \<le> th_lastSeenUnix r)"
  using assms latest_at_props [of "SanitizeEndpoint e" None hosts r]
  by (auto simp: ts_FindByEndpoint_def Let_def split: if_splits)

section \<open>Reading the file back\<close>

lemma Trim_no_space: "(\<And>c. c \<in> set s \<Longrightarrow> 0x20 < c) \<Longrightarrow> Trim s = s"
proof -
  assume s: "\<And>c. c \<in> set s \<Longrightarrow> 0x20 < c"
  have "\<not> is_space c" if "c \<in> set s" for c
    using s [OF that] by (auto simp: is_space_def)
  then show "Trim s = s" by (intro Trim_id) (metis hd_in_set last_in_set)
qed

lemma prefix_chars: "c \<in> set kFingerprintPrefix \<Longrightarrow> 0x20 < c \<and> c < 0x7F"
  by (auto simp: kFingerprintPrefix_def bytes_of_def)

lemma FormatFingerprint_chars: "c \<in> set (FormatFingerprint fp) \<Longrightarrow> 0x20 < c \<and> c < 0x7F"
  using prefix_chars EncodeBase64_chars by (auto simp: FormatFingerprint_def)

lemma length_prefix [simp]: "length kFingerprintPrefix = 7"
  by (simp add: kFingerprintPrefix_def bytes_of_def)

lemma ParseFingerprint_Format:
  assumes "length fp = 32"
  shows "ParseFingerprint (FormatFingerprint fp) = Some fp"
proof -
  have "Trim (FormatFingerprint fp) = FormatFingerprint fp"
    using FormatFingerprint_chars by (intro Trim_no_space) blast
  moreover have "length (EncodeBase64 fp Standard NoPadding) = 43"
    using assms by (simp add: EncodeBase64_def length_enc_exact)
  moreover have "DecodeBase64 (EncodeBase64 fp Standard NoPadding) Standard = Some fp"
    using assms by (intro Base64_roundtrip) auto
  ultimately show ?thesis
    using assms by (simp add: ParseFingerprint_def FormatFingerprint_def substr_def kconsts)
qed

interpretation fingerprint: line_format FormatFingerprint ParseFingerprint "\<lambda>fp. length fp = 32"
  using FormatFingerprint_chars
  by unfold_locales (auto simp: ParseFingerprint_Format, simp add: FormatFingerprint_def kFingerprintPrefix_def bytes_of_def, fastforce)

definition persistent :: "TrustedHost \<Rightarrow> bool" where
  "persistent h \<longleftrightarrow> host_ok h \<and> length (th_fingerprint h) = 32 \<and> th_endpoint h \<noteq> []
     \<and> 0 \<le> th_firstSeenUnix h \<and> th_firstSeenUnix h \<le> int64_max
     \<and> 0 \<le> th_lastSeenUnix h \<and> th_lastSeenUnix h \<le> int64_max"

lemma to_string_chars: "0 \<le> v \<Longrightarrow> c \<in> set (to_string v) \<Longrightarrow> 0x20 < c \<and> c < 0x7F"
  using dec_digits [of c "nat v"] by (auto simp: to_string_def is_digit_def word_le_nat_alt word_less_nat_alt)

lemma find_space: "(\<And>c. c \<in> set xs \<Longrightarrow> 0x20 < c) \<Longrightarrow> find_byte 0x20 (xs @ 0x20 # ys) = Some (length xs)"
  by (rule find_byte_append) blast

lemma trust_line_read:
  assumes "persistent h"
  shows "parse_trust_line (trust_line h) = Some h" "Trim (trust_line h) = trust_line h"
    "\<forall>c\<in>set (trust_line h). 0x20 \<le> c \<and> c \<noteq> 0x7F"
proof -
  let ?f = "FormatFingerprint (th_fingerprint h)" and ?a = "to_string (th_firstSeenUnix h)"
    and ?b = "to_string (th_lastSeenUnix h)" and ?e = "th_endpoint h" and ?l = "th_label h"
  let ?rest = "if ?l \<noteq> [] then 0x20 # ?l else []"
  have line: "trust_line h = ?f @ 0x20 # ?a @ 0x20 # ?b @ 0x20 # ?e @ ?rest"
    by (simp add: trust_line_def)
  have lab: "clean_label ?l" and ep: "clean_endpoint ?e" "?e \<noteq> []"
    using assms by (auto simp: persistent_def host_ok_def)
  have a: "c \<in> set ?a \<Longrightarrow> 0x20 < c \<and> c < 0x7F" and b: "c \<in> set ?b \<Longrightarrow> 0x20 < c \<and> c < 0x7F" for c
    using assms to_string_chars by (auto simp: persistent_def)
  have hi: "0x20 \<le> c \<and> c \<noteq> 0x7F" if "c \<in> set (trust_line h)" for c
    using that FormatFingerprint_chars [of c "th_fingerprint h"] a [of c] b [of c]
      clean_endpointD(2) [OF ep(1), of c] clean_labelD(2) [OF lab, of c]
    by (auto simp: line printable_def split: if_splits)
  then show "\<forall>c\<in>set (trust_line h). 0x20 \<le> c \<and> c \<noteq> 0x7F" by blast
  have no_tab: "find_byte 0x09 (trust_line h) = None" using hi [of "0x09"] by (auto simp: find_byte_None)
  have start: "hd (trust_line h) = 0x53" "trust_line h \<noteq> []"
    by (simp_all add: line FormatFingerprint_def kFingerprintPrefix_def bytes_of_def)
  have "\<not> is_space (last ?e)" "?l \<noteq> [] \<Longrightarrow> \<not> is_space (last ?l)"
    using Trim_edges [of ?e] Trim_edges [of ?l] clean_endpointD(3) [OF ep(1)] clean_labelD(3) [OF lab] ep(2) by auto
  then show "Trim (trust_line h) = trust_line h"
    using start ep(2) by (intro Trim_id) (auto simp: line is_space_def)
  have f1: "find_byte 0x20 (trust_line h) = Some (length ?f)"
    unfolding line using FormatFingerprint_chars by (intro find_space) blast
  have f2: "find_from 0x20 (trust_line h) (length ?f + 1) = Some (length ?f + 1 + length ?a)"
    using find_space [of ?a "?b @ 0x20 # ?e @ ?rest"] a by (simp add: line find_from_def)
  have f3: "find_from 0x20 (trust_line h) (length ?f + 1 + length ?a + 1) = Some (length ?f + 1 + length ?a + 1 + length ?b)"
    using find_space [of ?b "?e @ ?rest"] b by (simp add: line find_from_def)
  have f4: "find_from 0x20 (trust_line h) (length ?f + 1 + length ?a + 1 + length ?b + 1)
      = (if ?l \<noteq> [] then Some (length ?f + 1 + length ?a + 1 + length ?b + 1 + length ?e) else None)"
  proof -
    let ?p = "?f @ 0x20 # ?a @ 0x20 # ?b @ [0x20]"
    have p: "length ?f + 1 + length ?a + 1 + length ?b + 1 = length ?p" "trust_line h = ?p @ ?e @ ?rest"
      by (simp_all add: line)
    have none: "find_byte 0x20 ?e = None" using clean_endpointD(2) [OF ep(1), of "0x20"] by (auto simp: find_byte_None)
    have after: "find_from 0x20 (xs @ ys) (length xs) = map_option ((+) (length xs)) (find_byte 0x20 ys)" for xs ys
      by (simp add: find_from_def)
    show ?thesis
      unfolding p after using find_space [of ?e ?l] clean_endpointD(2) [OF ep(1)] none by simp
  qed
  have parts: "ParseFingerprint ?f = Some (th_fingerprint h)" "ParseUnixTime ?a = Some (th_firstSeenUnix h)"
    "ParseUnixTime ?b = Some (th_lastSeenUnix h)" "SanitizeEndpoint ?e = ?e" "SanitizeLabel ?l = ?l"
    using assms lab ep by (auto simp: persistent_def ParseFingerprint_Format ParseUnixTime_to_string clean_label_def clean_endpoint_def)
  let ?s3 = "length ?f + 1 + length ?a + 1 + length ?b"
  have subs: "substr (trust_line h) 0 (length ?f) = ?f"
    "substr (trust_line h) (length ?f + 1) (length ?f + 1 + length ?a - length ?f - 1) = ?a"
    "substr (trust_line h) (length ?f + 1 + length ?a + 1) (?s3 - (length ?f + 1 + length ?a) - 1) = ?b"
    by (simp_all add: line substr_def)
  have ends: "?l \<noteq> [] \<Longrightarrow> substr (trust_line h) (?s3 + 1) (?s3 + 1 + length ?e - ?s3 - 1) = ?e"
    "?l = [] \<Longrightarrow> substr (trust_line h) (?s3 + 1) (length (trust_line h) - ?s3 - 1) = ?e"
    "?l \<noteq> [] \<Longrightarrow> drop (?s3 + 1 + length ?e + 1) (trust_line h) = ?l"
  proof -
    let ?p = "?f @ 0x20 # ?a @ 0x20 # ?b @ [0x20]"
    have p: "?s3 + 1 = length ?p" "trust_line h = ?p @ ?e @ ?rest" by (simp_all add: line)
    have cut: "substr (xs @ ys @ zs) (length xs) (length ys) = ys" for xs ys zs by (simp add: substr_def)
    have "?s3 + 1 + length ?e - ?s3 - 1 = length ?e" by simp
    then show "?l \<noteq> [] \<Longrightarrow> substr (trust_line h) (?s3 + 1) (?s3 + 1 + length ?e - ?s3 - 1) = ?e"
      by (simp only: p cut)
    have "?l = [] \<Longrightarrow> length (trust_line h) - ?s3 - 1 = length ?e" by (simp add: line)
    then show "?l = [] \<Longrightarrow> substr (trust_line h) (?s3 + 1) (length (trust_line h) - ?s3 - 1) = ?e"
      by (simp only: p(1)) (simp only: p(2) cut)
    assume "?l \<noteq> []"
    then have "trust_line h = (?p @ ?e @ [0x20]) @ ?l" by (simp add: line)
    moreover have "?s3 + 1 + length ?e + 1 = length (?p @ ?e @ [0x20])" by simp
    ultimately show "drop (?s3 + 1 + length ?e + 1) (trust_line h) = ?l"
      by (metis append_eq_conv_conj)
  qed
  have h: "\<lparr>th_fingerprint = th_fingerprint h, th_label = ?l, th_endpoint = ?e,
      th_firstSeenUnix = th_firstSeenUnix h, th_lastSeenUnix = th_lastSeenUnix h\<rparr> = h" by simp
  have ne: "(trust_line h = [] \<or> hd (trust_line h) = 0x23) = False" using start by simp
  show "parse_trust_line (trust_line h) = Some h"
    unfolding parse_trust_line_def ne Let_def no_tab option.case f1 bind.bind_lunit f2 f3 f4 subs parts if_False
    using ends ep(2) h parts(4,5) by (cases "?l = []") simp_all
qed

interpretation trust_file: line_format trust_line "\<lambda>s. parse_trust_line (Trim s)" persistent
proof
  fix h assume h: "persistent h"
  show "parse_trust_line (Trim (trust_line h)) = Some h" using trust_line_read [OF h] by simp
  have "0x0A \<notin> set (trust_line h)" using trust_line_read(3) [OF h] by fastforce
  then show "trust_line h \<noteq> [] \<and> 0x0A \<notin> set (trust_line h)"
    by (simp add: trust_line_def FormatFingerprint_def kFingerprintPrefix_def bytes_of_def)
qed

lemma Serialize_lines:
  "\<forall>h\<in>set hosts. persistent h \<Longrightarrow> SerializeTrustStore hosts = concat (map (\<lambda>h. trust_line h @ [0x0A]) hosts)"
  by (induction hosts) (auto simp: persistent_def host_ok_def)

lemma Insert_new:
  assumes "persistent h" "length hosts < kMaxTrustedHosts" "th_fingerprint h \<notin> th_fingerprint ` set hosts"
  shows "ts_Insert hosts h = hosts @ [h]"
proof -
  have "host_ok h" using assms(1) by (simp add: persistent_def)
  then show ?thesis
    using assms(2,3)
    by (simp add: ts_Insert_def Forget_drop drop_key_absent make_room_id host_ok_def clean_label_def clean_endpoint_def Let_def)
qed

lemma Insert_all:
  assumes "\<forall>h\<in>set hs. persistent h" "length store + length hs \<le> kMaxTrustedHosts"
    and "distinct (map th_fingerprint (store @ hs))"
  shows "foldl ts_Insert store hs = store @ hs"
  using assms
proof (induction hs arbitrary: store)
  case (Cons h hs)
  have "ts_Insert store h = store @ [h]" using Cons.prems by (intro Insert_new) auto
  then show ?case using Cons.IH [of "store @ [h]"] Cons.prems by simp
qed simp

lemma ParseTrustStore_lines:
  assumes "\<forall>h\<in>set hs. persistent h"
  shows "ParseTrustStore (concat (map (\<lambda>h. trust_line h @ [0x0A]) hs)) = foldl ts_Insert [] hs"
proof -
  have "foldl (\<lambda>store line. case parse_trust_line (Trim line) of None \<Rightarrow> store | Some h \<Rightarrow> ts_Insert store h) store (map trust_line hs)
      = foldl ts_Insert store hs" for store
    using assms by (induction hs arbitrary: store) (simp_all add: trust_file.parse_print)
  then show ?thesis by (simp add: ParseTrustStore_def trust_file.file_lines [OF assms])
qed

lemma TrustStore_roundtrip:
  assumes "trust_ok hosts" "\<forall>h\<in>set hosts. persistent h"
  shows "ParseTrustStore (SerializeTrustStore hosts) = hosts"
  using Insert_all [of hosts "[]"] assms
  by (simp add: Serialize_lines ParseTrustStore_lines trust_ok_def)

lemma ParseTrustStore_line: "persistent h \<Longrightarrow> ParseTrustStore (trust_line h) = [h]"
  using trust_file.one_line [of h] Insert_new [of h "[]"]
  by (simp add: ParseTrustStore_def text_lines_last trust_file.parse_print kconsts)

lemma length_trust_line: "persistent h \<Longrightarrow> length (trust_line h) \<le> 220"
proof -
  assume h: "persistent h"
  have digits: "length (to_string v) \<le> 19" if "0 \<le> v" "v \<le> int64_max" for v
  proof -
    have "nat v < 10 ^ 19" using that by (simp add: int64_max_def nat_less_iff)
    then show ?thesis using that length_dec [of 19 "nat v"] by (simp add: to_string_def)
  qed
  have "length (FormatFingerprint (th_fingerprint h)) = 50"
    using h by (simp add: FormatFingerprint_def EncodeBase64_def length_enc_exact persistent_def)
  moreover have "length (th_endpoint h) \<le> 64" "length (th_label h) \<le> 64"
    using h clean_endpointD(1) clean_labelD(1) by (auto simp: persistent_def host_ok_def)
  moreover have "length (to_string (th_firstSeenUnix h)) \<le> 19" "length (to_string (th_lastSeenUnix h)) \<le> 19"
    using h digits by (auto simp: persistent_def)
  ultimately show ?thesis by (simp add: trust_line_def)
qed

lemma strict_read:
  assumes "\<forall>h\<in>set hs. persistent h" "length store + length hs \<le> kMaxTrustedHosts"
    and "distinct (map th_fingerprint (store @ hs))"
  shows "strict_lines store (map trust_line hs) = Some (store @ hs)"
  using assms
proof (induction hs arbitrary: store)
  case (Cons h hs)
  have h: "persistent h" using Cons.prems by simp
  have start: "trust_line h \<noteq> []" "hd (trust_line h) \<noteq> 0x23"
    by (simp_all add: trust_line_def FormatFingerprint_def kFingerprintPrefix_def bytes_of_def)
  have low: "\<not> (\<exists>c\<in>set (trust_line h). c < 32 \<and> c \<noteq> 0x09)"
    using trust_line_read(3) [OF h] by (auto simp: not_less)
  have new: "ts_Find store (th_fingerprint h) = None" "ts_Insert store h = store @ [h]"
    using Cons.prems Insert_new [OF h, of store] by (auto simp: ts_Find_def find_key_None)
  have "strict_lines store (map trust_line (h # hs)) = strict_lines (store @ [h]) (map trust_line hs)"
    using start new Cons.prems(2) length_trust_line [OF h] trust_line_read(2) [OF h]
    by (simp add: low ParseTrustStore_line [OF h] kMaxTrustLineBytes_def Let_def)
  then show ?case using Cons.IH [of "store @ [h]"] Cons.prems by simp
qed simp

text \<open>A full store of 256 hosts fits the size limit of the file.\<close>

lemma length_Serialize:
  assumes "trust_ok hosts" "\<forall>h\<in>set hosts. persistent h"
  shows "length (SerializeTrustStore hosts) \<le> kMaxTrustStoreFileBytes"
proof -
  have "length (concat (map (\<lambda>h. trust_line h @ [0x0A]) hosts)) \<le> length hosts * 221"
    using assms(2) by (induction hosts) (auto dest!: length_trust_line)
  then show ?thesis using assms by (simp add: Serialize_lines trust_ok_def kconsts)
qed

lemma TrustStore_strict_roundtrip:
  assumes "trust_ok hosts" "\<forall>h\<in>set hosts. persistent h"
  shows "ParseTrustStoreStrict (SerializeTrustStore hosts) = Some hosts"
  using strict_read [of hosts "[]"] length_Serialize [OF assms] assms
  by (simp add: ParseTrustStoreStrict_def Serialize_lines trust_file.file_lines [OF assms(2)] trust_ok_def)

end
