(* ===== verification/Ipv4.thy ===== *)
theory Ipv4
  imports Text
begin

text \<open>
  Dotted IPv4 addresses (\<open>src/core/src/net/Ipv4.cpp\<close>) and the choice of the address to bind to
  (\<open>src/core/src/net/BindAddress.cpp\<close>). The position in the text is the rest still to be read.
\<close>

section \<open>The code\<close>

text \<open>The digit loop: value and digit count so far, and the rest.\<close>

fun ip_digits :: "u32 \<Rightarrow> nat \<Rightarrow> bytes \<Rightarrow> (u32 \<times> nat \<times> bytes) option" where
  "ip_digits v digits [] = Some (v, digits, [])"
| "ip_digits v digits (c # cs) =
     (if is_digit c
      then let v = v * 10 + ucast (c - 0x30); digits = digits + 1 in
        if digits > 3 \<or> v > 255 then None else ip_digits v digits cs
      else Some (v, digits, c # cs))"

fun ip_octets :: "nat list \<Rightarrow> u32 \<Rightarrow> bytes \<Rightarrow> (u32 \<times> bytes) option" where
  "ip_octets [] ip s = Some (ip, s)"
| "ip_octets (octet # os) ip s = do {
     s \<leftarrow> (if octet > 0
          then case s of [] \<Rightarrow> None | c # cs \<Rightarrow> if c = 0x2E then Some cs else None
          else Some s);
     (v, digits, s) \<leftarrow> ip_digits 0 0 s;
     if digits = 0 then None else ip_octets os (push_bit 8 ip OR v) s
   }"

definition ParseIPv4 :: "bytes \<Rightarrow> u32 option" where
  "ParseIPv4 s = (case ip_octets [0..<4] 0 s of None \<Rightarrow> None
     | Some (ip, rest) \<Rightarrow> if rest = [] then Some ip else None)"

definition FormatIPv4 :: "u32 \<Rightarrow> bytes" where
  "FormatIPv4 ip = dec (unat (drop_bit 24 ip AND 0xFF)) @ [0x2E] @ dec (unat (drop_bit 16 ip AND 0xFF)) @ [0x2E]
     @ dec (unat (drop_bit 8 ip AND 0xFF)) @ [0x2E] @ dec (unat (ip AND 0xFF))"

record BindChoice =
  bc_ip :: bytes
  bc_fellBack :: bool

definition SelectBindAddress :: "bytes \<Rightarrow> bytes list \<Rightarrow> BindChoice" where
  "SelectBindAddress requested available =
     (if requested = [] then \<lparr>bc_ip = [], bc_fellBack = False\<rparr>
      else case ParseIPv4 requested of
        None \<Rightarrow> \<lparr>bc_ip = [], bc_fellBack = True\<rparr>
      | Some _ \<Rightarrow>
          if requested \<notin> set available then \<lparr>bc_ip = [], bc_fellBack = True\<rparr>
          else \<lparr>bc_ip = requested, bc_fellBack = False\<rparr>)"

section \<open>Reading back what was written\<close>

lemma digit_value: "d < 10 \<Longrightarrow> ucast (of_nat d :: u8) = (of_nat d :: u32)"
proof -
  assume "d < 10"
  then have "d \<in> {0, 1, 2, 3, 4, 5, 6, 7, 8, 9}" by auto
  then show ?thesis by auto
qed

lemma ip_digits_step:
  assumes "d < 10" "k < 3" "n * 10 + d \<le> 255"
  shows "ip_digits (of_nat n) k ((0x30 + of_nat d) # cs) = ip_digits (of_nat (n * 10 + d)) (Suc k) cs"
proof -
  have "\<not> (255 :: u32) < of_nat (n * 10 + d)"
    using assms(3) by (simp only: word_less_nat_alt unat_of_nat) simp
  moreover have "of_nat n * 10 + ucast (0x30 + of_nat d - 0x30 :: u8) = (of_nat (n * 10 + d) :: u32)"
    using assms(1) by (simp add: digit_value)
  ultimately show ?thesis
    using assms(1,2) is_digit_dec [OF assms(1)] by (simp only: ip_digits.simps Let_def if_True) simp
qed

lemma ip_digits_dec:
  assumes "n \<le> 255" "rest = [] \<or> \<not> is_digit (hd rest)"
  shows "ip_digits 0 0 (dec n @ rest) = Some (of_nat n, length (dec n), rest)"
proof -
  have stop: "ip_digits v k rest = Some (v, k, rest)" for v k
    using assms(2) by (cases rest) auto
  have one: "ip_digits 0 0 ((0x30 + of_nat d) # cs) = ip_digits (of_nat d) 1 cs" if "d < 10" for d cs
    using ip_digits_step [of d 0 0 cs] that by simp
  consider "n < 10" | "10 \<le> n" "n < 100" | "100 \<le> n" by linarith
  then show ?thesis
  proof cases
    case 1
    then show ?thesis by (simp only: dec_small append_Cons append_Nil one stop) simp
  next
    case 2
    then have "dec n = [0x30 + of_nat (n div 10), 0x30 + of_nat (n mod 10)]"
      by (subst dec.simps) (simp add: dec_small)
    moreover have "n div 10 < 10" "n mod 10 < 10" "n div 10 * 10 + n mod 10 = n" using 2 by simp_all
    ultimately show ?thesis
      using ip_digits_step [of "n mod 10" 1 "n div 10" rest] assms(1) by (simp only: one stop append_Cons append_Nil) simp
  next
    case 3
    have small: "n div 10 div 10 < 10" "n div 10 mod 10 < 10" "n mod 10 < 10" using assms(1) by linarith+
    have "dec (n div 10) = [0x30 + of_nat (n div 10 div 10), 0x30 + of_nat (n div 10 mod 10)]"
      using 3 dec.simps [of "n div 10"] by (simp only: dec_small [OF small(1)]) simp
    then have eq: "dec n = [0x30 + of_nat (n div 10 div 10), 0x30 + of_nat (n div 10 mod 10), 0x30 + of_nat (n mod 10)]"
      using 3 dec.simps [of n] by simp
    have parts: "n div 10 div 10 * 10 + n div 10 mod 10 = n div 10" "n div 10 * 10 + n mod 10 = n"
      by (rule div_mult_mod_eq)+
    have "ip_digits 0 0 (dec n @ rest)
        = ip_digits (of_nat (n div 10 div 10 * 10 + n div 10 mod 10)) 2 ((0x30 + of_nat (n mod 10)) # rest)"
      using ip_digits_step [OF small(2), of 1 "n div 10 div 10" "(0x30 + of_nat (n mod 10)) # rest"] assms(1)
      by (simp only: eq append_Cons append_Nil one [OF small(1)] parts(1)) (simp del: ip_digits.simps add: numeral_2_eq_2)
    also have "\<dots> = ip_digits (of_nat (n div 10 * 10 + n mod 10)) 3 rest"
      using ip_digits_step [OF small(3), of 2 "n div 10" rest] assms(1) by (simp only: parts) (simp del: ip_digits.simps add: numeral_3_eq_3 numeral_2_eq_2)
    finally show ?thesis by (simp only: parts(2) stop eq) simp
  qed
qed

lemma octets_join:
  "push_bit 8 (push_bit 8 (push_bit 8 (push_bit 8 0 OR drop_bit 24 ip AND 0xFF) OR drop_bit 16 ip AND 0xFF)
     OR drop_bit 8 ip AND 0xFF) OR ip AND 0xFF = (ip :: u32)"
proof (rule bit_word_eqI)
  fix n assume "n < LENGTH(32)"
  moreover have mask: "0xFF = (mask 8 :: u32)" by (simp add: mask_eq_exp_minus_1)
  moreover have "n < 8 \<or> (8 \<le> n \<and> n < 16) \<or> (16 \<le> n \<and> n < 24) \<or> 24 \<le> n" by linarith
  ultimately show "bit (push_bit 8 (push_bit 8 (push_bit 8 (push_bit 8 0 OR drop_bit 24 ip AND 0xFF) OR drop_bit 16 ip AND 0xFF)
     OR drop_bit 8 ip AND 0xFF) OR ip AND 0xFF) n = bit ip n"
    unfolding mask by (elim disjE conjE; simp add: bit_simps; arith?)
qed

lemma octet_le: "unat (x AND 0xFF :: u32) \<le> 255"
  using word_and_le1 [of x "0xFF"] by (simp add: word_le_nat_alt)

lemma ParseIPv4_FormatIPv4: "ParseIPv4 (FormatIPv4 ip) = Some ip"
proof -
  have dot: "rest = [] \<or> \<not> is_digit (hd rest)" if "rest = 0x2E # r" for rest r
    using that by (simp add: is_digit_def)
  have last: "ip_digits 0 0 (dec n) = Some (of_nat n, length (dec n), [])" if "n \<le> 255" for n
    using ip_digits_dec [OF that, of "[]"] by simp
  have four: "[0..<4] = [0 :: nat, 1, 2, 3]" by (simp add: upt_rec)
  show ?thesis
    unfolding ParseIPv4_def FormatIPv4_def four
    by (simp add: ip_digits_dec [OF octet_le dot [OF refl]] last [OF octet_le] octets_join [simplified])
qed

lemma FormatIPv4_inj: "FormatIPv4 a = FormatIPv4 b \<Longrightarrow> a = b"
  using ParseIPv4_FormatIPv4 by (metis option.inject)

lemma FormatIPv4_chars: "c \<in> set (FormatIPv4 ip) \<Longrightarrow> is_digit c \<or> c = 0x2E"
  by (auto simp: FormatIPv4_def dest: dec_digits)

text \<open>What is accepted is at most fifteen characters long.\<close>

lemma ip_digits_bound:
  "ip_digits v k s = Some (w, d, rest) \<Longrightarrow> k \<le> 3 \<Longrightarrow> k \<le> d \<and> d \<le> 3 \<and> length s = length rest + (d - k)"
  by (induction v k s rule: ip_digits.induct) (fastforce simp: Let_def split: if_splits)+

lemma ParseIPv4_length: "ParseIPv4 s = Some ip \<Longrightarrow> length s \<le> 15"
proof -
  have four: "[0..<4] = [0 :: nat, 1, 2, 3]" by (simp add: upt_rec)
  have octets: "ip_octets os a s = Some (ip, r) \<Longrightarrow> length s \<le> length r + 4 * length os" for os a s ip r
  proof (induction os a s rule: ip_octets.induct)
    case (2 octet os a s)
    then show ?case
      by (fastforce dest!: ip_digits_bound simp: bind_eq_Some_conv split: if_splits list.splits)
  qed simp
  have first: "length s \<le> length r + 3 + 4 * length os" if "ip_octets (0 # os) a s = Some (ip, r)" for os a s ip r
  proof -
    from that obtain v d t where "ip_digits 0 0 s = Some (v, d, t)" "ip_octets os (push_bit 8 a OR v) t = Some (ip, r)"
      by (auto simp: bind_eq_Some_conv split: if_splits)
    then show ?thesis using ip_digits_bound octets by fastforce
  qed
  show "ParseIPv4 s = Some ip \<Longrightarrow> length s \<le> 15"
    unfolding ParseIPv4_def four by (auto dest!: first split: option.splits if_splits simp del: ip_octets.simps)
qed

interpretation ipv4: text_format FormatIPv4 ParseIPv4 "\<lambda>_. True"
  by unfold_locales (rule ParseIPv4_FormatIPv4)

text \<open>A bind choice is an address of this machine, or none; and it falls back only when it must.\<close>

lemma SelectBindAddress_ok:
  "bc_ip (SelectBindAddress r av) = [] \<or> bc_ip (SelectBindAddress r av) = r \<and> r \<in> set av \<and> ParseIPv4 r \<noteq> None"
  "bc_fellBack (SelectBindAddress r av) \<longleftrightarrow> r \<noteq> [] \<and> (ParseIPv4 r = None \<or> r \<notin> set av)"
  by (auto simp: SelectBindAddress_def split: option.splits)

end
