(* ===== verification/Pairing.thy ===== *)
theory Pairing
  imports TrustStore Ipv4 WireTypes Component
begin

text \<open>
  Pairing invites (\<open>src/core/src/net/PairingInvite.cpp\<close>) and the one-time tokens a host has issued
  (\<open>src/core/src/auth/PairingTokens.cpp\<close>). The record inside an invite is read through a pointer:
  those reads are checked, and \<open>None\<close> would be a read outside the record.
\<close>

section \<open>Invites\<close>

definition kPairingInvitePrefix :: bytes where "kPairingInvitePrefix = bytes_of ''deskhub://pair/''"
definition kPairingInviteVersion :: u8 where [kconsts]: "kPairingInviteVersion = 1"
definition kMaxPairingEndpoints :: nat where [kconsts]: "kMaxPairingEndpoints = 4"
definition kMaxPairingHostNameBytes :: nat where [kconsts]: "kMaxPairingHostNameBytes = 32"
definition kMaxPairingInviteChars :: nat where [kconsts]: "kMaxPairingInviteChars = 180"
definition kEndpointBytes :: nat where [kconsts]: "kEndpointBytes = 6"

definition kMaxRecordBytes :: nat where
  "kMaxRecordBytes = 1 + 1 + kMaxPairingEndpoints * kEndpointBytes + kFingerprintBytes + kPairingTokenBytes + 1
     + kMaxPairingHostNameBytes"

record PairingEndpoint =
  pe_ip :: u32
  pe_port :: u16

record PairingInvite =
  pi_endpoints :: "PairingEndpoint list"
  pi_hostKey :: Fingerprint
  pi_token :: bytes
  pi_hostName :: bytes

definition IsContinuationByte :: "u8 \<Rightarrow> bool" where
  "IsContinuationByte b \<longleftrightarrow> b AND 0xC0 = 0x80"

fun pop_continuation :: "bytes \<Rightarrow> bytes" where
  "pop_continuation [] = []"
| "pop_continuation (b # bs) = (if IsContinuationByte b then pop_continuation bs else b # bs)"

text \<open>The loop that cuts a long name, over the reversed text (\<open>back()\<close> first).\<close>

function cut_name :: "bytes \<Rightarrow> bytes" where
  "cut_name out = (if length out > kMaxPairingHostNameBytes then cut_name (pop_continuation (tl out)) else out)"
  by auto
termination
proof (relation "measure length", goal_cases)
  case (2 out)
  have "length (pop_continuation xs) \<le> length xs" for xs by (induction xs) auto
  from this [of "tl out"] show ?case using 2 by (cases out) auto
qed simp

declare cut_name.simps [simp del]

definition CleanHostName :: "bytes \<Rightarrow> bytes" where
  "CleanHostName name = Trim (rev (cut_name (rev (filter printable name))))"

definition ValidHostName :: "bytes \<Rightarrow> bool" where
  "ValidHostName name \<longleftrightarrow> length name \<le> kMaxPairingHostNameBytes \<and> (\<forall>c\<in>set name. printable c)
     \<and> length (Trim name) = length name"

definition ValidEndpoints :: "PairingEndpoint list \<Rightarrow> bool" where
  "ValidEndpoints endpoints \<longleftrightarrow> endpoints \<noteq> [] \<and> length endpoints \<le> kMaxPairingEndpoints
     \<and> (\<forall>e\<in>set endpoints. pe_ip e \<noteq> 0 \<and> pe_port e \<noteq> 0)"

definition IsPairingInvite :: "bytes \<Rightarrow> bool" where
  "IsPairingInvite s = starts_with (Trim s) kPairingInvitePrefix"

definition MakePairingEndpoint :: "bytes \<Rightarrow> u16 \<Rightarrow> PairingEndpoint option" where
  "MakePairingEndpoint ip port =
     (case ParseIPv4 (Trim ip) of
        None \<Rightarrow> None
      | Some parsed \<Rightarrow> if parsed = 0 \<or> port = 0 then None else Some \<lparr>pe_ip = parsed, pe_port = port\<rparr>)"

definition FormatPairingEndpoint :: "PairingEndpoint \<Rightarrow> bytes" where
  "FormatPairingEndpoint e = FormatIPv4 (pe_ip e) @ [0x3A] @ dec (unat (pe_port e))"

definition put_endpoint :: "PairingEndpoint \<Rightarrow> bytes" where
  "put_endpoint e = PutU32 (pe_ip e) @ PutU16 (pe_port e)"

definition FormatPairingInvite :: "PairingInvite \<Rightarrow> bytes" where
  "FormatPairingInvite invite =
     (if \<not> ValidEndpoints (pi_endpoints invite) \<or> IsZero (pi_hostKey invite) \<or> IsZero (pi_token invite)
         \<or> \<not> ValidHostName (pi_hostName invite)
      then []
      else let rec = [kPairingInviteVersion, of_nat (length (pi_endpoints invite))]
                  @ concat (map put_endpoint (pi_endpoints invite)) @ pi_hostKey invite @ pi_token invite
                  @ [of_nat (length (pi_hostName invite))] @ pi_hostName invite
        in kPairingInvitePrefix @ EncodeBase64 rec Url NoPadding)"

fun read_endpoints :: "bytes \<Rightarrow> nat \<Rightarrow> nat \<Rightarrow> PairingEndpoint list checked" where
  "read_endpoints rec at 0 = Some []"
| "read_endpoints rec at (Suc n) = do {
     ip \<leftarrow> GetU32 rec at;
     port \<leftarrow> GetU16 rec (at + 4);
     rest \<leftarrow> read_endpoints rec (at + kEndpointBytes) n;
     Some (\<lparr>pe_ip = ip, pe_port = port\<rparr> # rest)
   }"

text \<open>The decoded record: every read from \<open>at\<close> on is checked.\<close>

definition read_invite :: "bytes \<Rightarrow> PairingInvite option checked" where
  "read_invite rec =
     (if length rec < 2 \<or> length rec > kMaxRecordBytes then nullopt
      else do {
        version \<leftarrow> rd8 rec 0;
        n \<leftarrow> rd8 rec 1;
        let count = unat n; fixedBytes = count * kEndpointBytes + kFingerprintBytes + kPairingTokenBytes + 1 in
        if version \<noteq> kPairingInviteVersion \<or> count = 0 \<or> count > kMaxPairingEndpoints
           \<or> length rec - 2 < fixedBytes
        then nullopt
        else let at = 2 + count * kEndpointBytes in do {
          endpoints \<leftarrow> read_endpoints rec 2 count;
          hostKey \<leftarrow> rdn rec at kFingerprintBytes;
          token \<leftarrow> rdn rec (at + kFingerprintBytes) kPairingTokenBytes;
          nameLen \<leftarrow> rd8 rec (at + kFingerprintBytes + kPairingTokenBytes);
          if length rec - (at + kFingerprintBytes + kPairingTokenBytes + 1) \<noteq> unat nameLen then nullopt
          else do {
            hostName \<leftarrow> rdn rec (at + kFingerprintBytes + kPairingTokenBytes + 1) (unat nameLen);
            if \<not> ValidEndpoints endpoints \<or> IsZero hostKey \<or> IsZero token
               \<or> \<not> ValidHostName hostName \<or> CleanHostName hostName \<noteq> hostName
            then nullopt
            else some_opt \<lparr>pi_endpoints = endpoints, pi_hostKey = hostKey, pi_token = token, pi_hostName = hostName\<rparr>
          }
        }
      })"

definition ParsePairingInvite :: "bytes \<Rightarrow> PairingInvite option checked" where
  "ParsePairingInvite s =
     (let body = Trim s in
      if \<not> starts_with body kPairingInvitePrefix \<or> length body > kMaxPairingInviteChars then nullopt
      else case DecodeBase64 (drop (length kPairingInvitePrefix) body) Url of
        None \<Rightarrow> nullopt
      | Some rec \<Rightarrow> read_invite rec)"

section \<open>Invites are read back\<close>

lemma cut_name_short: "length s \<le> 32 \<Longrightarrow> cut_name s = s"
  by (subst cut_name.simps) (simp add: kconsts)

lemma ValidHostName_clean: "ValidHostName name \<Longrightarrow> CleanHostName name = name"
proof -
  assume v: "ValidHostName name"
  then have "filter printable name = name" "length name \<le> 32" by (auto simp: ValidHostName_def kconsts intro: filter_True)
  moreover have "Trim name = name"
  proof -
    obtain p q where s: "name = p @ Trim name @ q"
    proof -
      obtain p where p: "name = p @ dropWhile is_space name" by (metis takeWhile_dropWhile_id)
      let ?d = "dropWhile is_space name"
      have "rev ?d = takeWhile is_space (rev ?d) @ dropWhile is_space (rev ?d)" by simp
      then have "?d = rev (dropWhile is_space (rev ?d)) @ rev (takeWhile is_space (rev ?d))"
        by (metis rev_append rev_rev_ident)
      then show ?thesis using p that unfolding Trim_def by metis
    qed
    then have "length name = length p + length (Trim name) + length q" by (metis length_append add.assoc)
    then have "p = []" "q = []" using v by (auto simp: ValidHostName_def)
    then show ?thesis using s by simp
  qed
  ultimately show ?thesis by (simp add: CleanHostName_def cut_name_short)
qed

lemma read_endpoints_in:
  "at + n * 6 \<le> length rec \<Longrightarrow> \<exists>es. read_endpoints rec at n = Some es"
proof (induction n arbitrary: at)
  case (Suc n)
  then obtain es where "read_endpoints rec (at + 6) n = Some es" by fastforce
  then show ?case using Suc.prems by (simp add: in_range kconsts)
qed simp

text \<open>Whatever the text is, nothing is read outside the decoded record.\<close>

lemma read_invite_safe: "read_invite rec \<noteq> None"
proof (cases "length rec < 2")
  case False
  let ?n = "unat (rec ! 1)"
  have reads: "rd8 rec 0 = Some (rec ! 0)" "rd8 rec 1 = Some (rec ! 1)" using False by (auto simp: rd8_def)
  show ?thesis
  proof (cases "length rec - 2 < ?n * 6 + 32 + 32 + 1")
    case True
    then show ?thesis unfolding read_invite_def reads bind.bind_lunit Let_def kconsts by simp
  next
    case inside: False
    then have "2 + ?n * 6 \<le> length rec" by linarith
    then obtain es where es: "read_endpoints rec 2 ?n = Some es" using read_endpoints_in by blast
    have "rdn rec (2 + ?n * 6) 32 \<noteq> None" "rdn rec (2 + ?n * 6 + 32) 32 \<noteq> None"
      "rd8 rec (2 + ?n * 6 + 32 + 32) \<noteq> None" using inside by (simp_all add: in_range)
    moreover have "rdn rec (2 + ?n * 6 + 32 + 32 + 1) m \<noteq> None" if "length rec - (2 + ?n * 6 + 32 + 32 + 1) = m" for m
      using inside that by (simp add: in_range)
    ultimately show ?thesis
      unfolding read_invite_def reads bind.bind_lunit Let_def es kconsts
      by (auto simp: Option.bind_eq_None_conv es kconsts)
  qed
qed (simp add: read_invite_def)

lemma ParsePairingInvite_safe: "ParsePairingInvite s \<noteq> None"
  by (simp add: ParsePairingInvite_def Let_def read_invite_safe [simplified] split: option.split)

lemma read_endpoints_put:
  "read_endpoints (xs @ concat (map put_endpoint es) @ ys) (length xs) (length es) = Some es"
proof (induction es arbitrary: xs)
  case (Cons e es)
  let ?all = "xs @ concat (map put_endpoint (e # es)) @ ys"
  have split: "?all = (xs @ put_endpoint e) @ concat (map put_endpoint es) @ ys" by simp
  moreover have "length (xs @ put_endpoint e) = length xs + 6" by (simp add: put_endpoint_def)
  ultimately have rest: "read_endpoints ?all (length xs + 6) (length es) = Some es"
    using Cons.IH [of "xs @ put_endpoint e"] by simp
  have "GetU32 ?all (length xs) = Some (pe_ip e)" "GetU16 ?all (length xs + 4) = Some (pe_port e)"
    by (simp_all add: put_endpoint_def checked_simps)
  with rest show ?case by (simp only: read_endpoints.simps list.size add_Suc_right kEndpointBytes_def) simp
qed simp

lemma length_endpoints: "length (concat (map put_endpoint es)) = 6 * length es"
  by (induction es) (simp_all add: put_endpoint_def)

lemma FormatPairingInvite_read:
  assumes "FormatPairingInvite v \<noteq> []" "length (pi_hostKey v) = 32" "length (pi_token v) = 32"
  shows "ParsePairingInvite (FormatPairingInvite v) = some_opt v"
proof -
  let ?es = "pi_endpoints v" and ?n = "pi_hostName v"
  let ?rec = "[kPairingInviteVersion, of_nat (length ?es)] @ concat (map put_endpoint ?es) @ pi_hostKey v @ pi_token v
                  @ [of_nat (length ?n)] @ ?n"
  have ok: "ValidEndpoints ?es" "\<not> IsZero (pi_hostKey v)" "\<not> IsZero (pi_token v)" "ValidHostName ?n"
    and shape: "FormatPairingInvite v = kPairingInvitePrefix @ EncodeBase64 ?rec Url NoPadding"
    using assms(1) by (auto simp: FormatPairingInvite_def Let_def split: if_splits)
  have es: "?es \<noteq> []" "length ?es \<le> 4" and n: "length ?n \<le> 32"
    using ok by (auto simp: ValidEndpoints_def ValidHostName_def kconsts)
  have len: "length ?rec = 67 + 6 * length ?es + length ?n" using assms(2,3) by (simp add: length_endpoints)
  have b64: "length (EncodeBase64 ?rec Url NoPadding) \<le> 164"
    using es(2) n len by (simp add: EncodeBase64_def length_enc_exact del: enc_scan.simps)
  have p: "length kPairingInvitePrefix = 15" "\<forall>c\<in>set kPairingInvitePrefix. 0x20 < c"
    by (simp_all add: kPairingInvitePrefix_def bytes_of_def)
  have trim: "Trim (FormatPairingInvite v) = FormatPairingInvite v"
    unfolding shape using p(2) EncodeBase64_chars [of _ ?rec Url] by (intro Trim_no_space) auto
  have dec: "DecodeBase64 (EncodeBase64 ?rec Url NoPadding) Url = Some ?rec" by (rule Base64_roundtrip) simp
  have small: "unat (of_nat (length ?es) :: u8) = length ?es" "unat (of_nat (length ?n) :: u8) = length ?n"
    using es(2) n by (simp_all add: unat_of_nat)
  have endpoints: "read_endpoints ?rec 2 (length ?es) = Some ?es"
    using read_endpoints_put [of "[kPairingInviteVersion, of_nat (length ?es)]" ?es] by (simp add: numeral_2_eq_2)
  have "rdn ?rec (2 + length ?es * 6) 32 = Some (pi_hostKey v)"
    "rdn ?rec (2 + length ?es * 6 + 32) 32 = Some (pi_token v)"
    "rd8 ?rec (2 + length ?es * 6 + 32 + 32) = Some (of_nat (length ?n))"
    "rdn ?rec (2 + length ?es * 6 + 32 + 32 + 1) (length ?n) = Some ?n"
    "rd8 ?rec 0 = Some kPairingInviteVersion" "rd8 ?rec 1 = Some (of_nat (length ?es))"
    using assms(2,3) by (simp_all add: checked_simps length_endpoints)
  then have "read_invite ?rec = some_opt v"
    using es n len ok ValidHostName_clean [OF ok(4)] endpoints small
    unfolding read_invite_def Let_def kMaxRecordBytes_def kconsts by simp
  then show ?thesis
    unfolding ParsePairingInvite_def Let_def trim unfolding shape using b64 p(1) dec by (simp add: kMaxPairingInviteChars_def)
qed

section \<open>Issued tokens\<close>

definition kMaxPairingTokens :: nat where [kconsts]: "kMaxPairingTokens = 4"
definition kMaxPairingTokensFileBytes :: nat where [kconsts]: "kMaxPairingTokensFileBytes = 4096"
definition kMaxPairingTokenLineBytes :: nat where [kconsts]: "kMaxPairingTokenLineBytes = 96"

record IssuedPairingToken =
  it_token :: bytes
  it_expiresUnix :: int

type_synonym PairingTokens = "IssuedPairingToken list"

definition pt_Expire :: "PairingTokens \<Rightarrow> int \<Rightarrow> nat \<times> PairingTokens" where
  "pt_Expire tokens nowUnix =
     (let kept = filter (\<lambda>t. \<not> it_expiresUnix t \<le> nowUnix) tokens in (length tokens - length kept, kept))"

definition pt_Issue :: "PairingTokens \<Rightarrow> bytes \<Rightarrow> int \<Rightarrow> int \<Rightarrow> bool \<times> PairingTokens" where
  "pt_Issue tokens token expiresUnix nowUnix =
     (let tokens = snd (pt_Expire tokens nowUnix) in
      if IsZero token \<or> expiresUnix \<le> nowUnix then (False, tokens)
      else if \<exists>t\<in>set tokens. it_token t = token then (False, tokens)
      else (True, make_room kMaxPairingTokens it_expiresUnix tokens
                  @ [\<lparr>it_token = token, it_expiresUnix = expiresUnix\<rparr>]))"

fun ConstantTimeDifference :: "bytes \<Rightarrow> bytes \<Rightarrow> u8 \<Rightarrow> u8" where
  "ConstantTimeDifference (a # as) (b # bs) d = ConstantTimeDifference as bs (d OR (a XOR b))"
| "ConstantTimeDifference _ _ d = d"

text \<open>The branch-free search: the last position whose token is the same, or \<open>matched\<close>.\<close>

fun match_scan :: "bytes \<Rightarrow> nat \<Rightarrow> nat \<Rightarrow> PairingTokens \<Rightarrow> nat" where
  "match_scan presented i matched [] = matched"
| "match_scan presented i matched (t # ts) =
     (let same = (if ConstantTimeDifference presented (it_token t) 0 = 0 then 1 else 0)
      in match_scan presented (Suc i) (same * i + (1 - same) * matched) ts)"

definition pt_Consume :: "PairingTokens \<Rightarrow> bytes \<Rightarrow> int \<Rightarrow> bool \<times> PairingTokens" where
  "pt_Consume tokens presented nowUnix =
     (let tokens = snd (pt_Expire tokens nowUnix) in
      if length presented \<noteq> kPairingTokenBytes then (False, tokens)
      else let matched = match_scan presented 0 (length tokens) tokens in
        if matched = length tokens then (False, tokens) else (True, erase_at matched tokens))"

definition pt_Clear :: "PairingTokens \<Rightarrow> PairingTokens" where
  "pt_Clear tokens = []"

fun token_lines :: "PairingTokens \<Rightarrow> int \<Rightarrow> bytes list \<Rightarrow> PairingTokens option" where
  "token_lines tokens nowUnix [] = Some tokens"
| "token_lines tokens nowUnix (raw # rest) =
     (let line = strip_cr raw in
      if line = [] then token_lines tokens nowUnix rest
      else if length line > kMaxPairingTokenLineBytes then None
      else do {
        space \<leftarrow> find_byte 0x20 line;
        token \<leftarrow> DecodeBase64 (substr line 0 space) Url;
        expiresUnix \<leftarrow> (if length token \<noteq> kPairingTokenBytes then None else ParseUnixTime (drop (space + 1) line));
        if expiresUnix \<le> nowUnix then token_lines tokens nowUnix rest
        else let (issued, tokens) = pt_Issue tokens token expiresUnix nowUnix in
          if issued then token_lines tokens nowUnix rest else None
      })"

definition ParsePairingTokens :: "bytes \<Rightarrow> int \<Rightarrow> PairingTokens option" where
  "ParsePairingTokens s nowUnix =
     (if length s > kMaxPairingTokensFileBytes then None else token_lines [] nowUnix (text_lines s))"

definition token_line :: "IssuedPairingToken \<Rightarrow> bytes" where
  "token_line t = EncodeBase64 (it_token t) Url NoPadding @ [0x20] @ to_string (it_expiresUnix t)"

definition SerializePairingTokens :: "PairingTokens \<Rightarrow> bytes" where
  "SerializePairingTokens tokens = concat (map (\<lambda>t. token_line t @ [0x0A]) tokens)"

section \<open>Every token opens the door once\<close>

definition pt_inv :: "PairingTokens \<Rightarrow> bool" where
  "pt_inv tokens \<longleftrightarrow> distinct (map it_token tokens) \<and> length tokens \<le> kMaxPairingTokens
     \<and> (\<forall>t\<in>set tokens. length (it_token t) = kPairingTokenBytes \<and> \<not> IsZero (it_token t))"

definition live_tokens :: "PairingTokens \<Rightarrow> int \<Rightarrow> bytes set" where
  "live_tokens tokens nowUnix = {it_token t | t. t \<in> set tokens \<and> nowUnix < it_expiresUnix t}"

lemma difference_zero:
  "length a = length b \<Longrightarrow> ConstantTimeDifference a b d = 0 \<longleftrightarrow> d = 0 \<and> a = b"
proof (induction a b d rule: ConstantTimeDifference.induct)
  case (1 a as b bs d)
  have "d OR (a XOR b) = 0 \<longleftrightarrow> d = 0 \<and> a = b"
    by (metis or.right_neutral or_eq_0_iff xor_self_eq xor.right_neutral xor.assoc xor.left_neutral)
  then show ?case using 1 by auto
qed auto

lemma match_scan_absent:
  "length p = kPairingTokenBytes \<Longrightarrow> \<forall>t\<in>set ts. length (it_token t) = kPairingTokenBytes \<Longrightarrow> p \<notin> it_token ` set ts
   \<Longrightarrow> match_scan p i m ts = m"
  by (induction ts arbitrary: i m) (auto simp: difference_zero Let_def)

lemma match_scan_present:
  assumes "length p = kPairingTokenBytes" "\<forall>t\<in>set (as @ t # bs). length (it_token t) = kPairingTokenBytes"
    and "it_token t = p" "p \<notin> it_token ` set bs"
  shows "match_scan p i m (as @ t # bs) = i + length as"
  using assms
proof (induction as arbitrary: i m)
  case Nil
  then show ?case using match_scan_absent [of p bs "Suc i" i] by (simp add: difference_zero)
next
  case (Cons a as)
  then show ?case by (simp add: difference_zero Let_def)
qed

lemma Expire_keeps: "pt_inv tokens \<Longrightarrow> pt_inv (snd (pt_Expire tokens now))"
  by (auto simp: pt_Expire_def pt_inv_def Let_def distinct_map inj_on_def intro: le_trans [OF length_filter_le])

lemma Expire_live: "it_token ` set (snd (pt_Expire tokens now)) = live_tokens tokens now"
  by (auto simp: pt_Expire_def live_tokens_def Let_def image_iff)

lemma Consume_keeps:
  assumes "pt_inv tokens" "length p = kPairingTokenBytes" "pt_Consume tokens p now = (ok, tokens')"
  shows "ok \<longleftrightarrow> p \<in> live_tokens tokens now" "pt_inv tokens'" "it_token ` set tokens' = live_tokens tokens now - {p}"
proof -
  let ?ts = "snd (pt_Expire tokens now)"
  have inv: "pt_inv ?ts" by (rule Expire_keeps [OF assms(1)])
  then have len: "\<forall>t\<in>set ?ts. length (it_token t) = kPairingTokenBytes" by (simp add: pt_inv_def)
  have "(ok \<longleftrightarrow> p \<in> it_token ` set ?ts) \<and> pt_inv tokens' \<and> it_token ` set tokens' = it_token ` set ?ts - {p}"
  proof (cases "p \<in> it_token ` set ?ts")
    case False
    then have "match_scan p 0 (length ?ts) ?ts = length ?ts" using match_scan_absent [OF assms(2) len] by simp
    then show ?thesis using assms(2,3) inv False by (auto simp: pt_Consume_def Let_def)
  next
    case True
    then obtain as t bs where split: "?ts = as @ t # bs" "it_token t = p" by (auto simp: in_set_conv_decomp)
    then have dist: "p \<notin> it_token ` set as" "p \<notin> it_token ` set bs" "pt_inv (as @ bs)"
      using inv by (auto simp: pt_inv_def)
    have "match_scan p 0 (length ?ts) ?ts = length as"
      using match_scan_present [OF assms(2) _ split(2) dist(2)] len unfolding split(1) by simp
    then have "ok" "tokens' = as @ bs"
      using assms(2,3) by (auto simp: pt_Consume_def Let_def split erase_at_def)
    moreover have "\<forall>x\<in>set (as @ bs). it_token x \<noteq> p" using dist(1,2) by (auto simp: image_iff)
    ultimately show ?thesis using True dist(3) split by auto
  qed
  then show "ok \<longleftrightarrow> p \<in> live_tokens tokens now" "pt_inv tokens'" "it_token ` set tokens' = live_tokens tokens now - {p}"
    by (simp_all add: Expire_live)
qed

lemma Consume_wrong_size:
  "length p \<noteq> kPairingTokenBytes \<Longrightarrow> pt_Consume tokens p now = (False, snd (pt_Expire tokens now))"
  by (simp add: pt_Consume_def Let_def)

lemma Issue_keeps:
  assumes "pt_inv tokens" "length p = kPairingTokenBytes" "pt_Issue tokens p exp now = (ok, tokens')"
  shows "pt_inv tokens'" "it_token ` set tokens' \<subseteq> (if ok then insert p (live_tokens tokens now) else live_tokens tokens now)"
    "ok \<Longrightarrow> p \<in> it_token ` set tokens'"
    "ok \<longleftrightarrow> \<not> IsZero p \<and> now < exp \<and> p \<notin> live_tokens tokens now"
proof -
  let ?ts = "snd (pt_Expire tokens now)"
  let ?room = "make_room kMaxPairingTokens it_expiresUnix ?ts"
  have inv: "pt_inv ?ts" by (rule Expire_keeps [OF assms(1)])
  have sub: "set ?room \<subseteq> set ?ts" by (rule set_make_room)
  have "length ?room < kMaxPairingTokens" "distinct (map it_token ?room)"
    using inv by (auto simp: pt_inv_def kMaxPairingTokens_def intro!: length_make_room distinct_make_room)
  then have new: "pt_inv (?room @ [\<lparr>it_token = p, it_expiresUnix = exp\<rparr>])" if "p \<notin> it_token ` set ?ts" "\<not> IsZero p"
    using inv sub that assms(2) by (auto simp: pt_inv_def)
  have res: "(ok \<and> \<not> IsZero p \<and> now < exp \<and> p \<notin> it_token ` set ?ts \<and> tokens' = ?room @ [\<lparr>it_token = p, it_expiresUnix = exp\<rparr>])
      \<or> (\<not> ok \<and> (IsZero p \<or> exp \<le> now \<or> p \<in> it_token ` set ?ts) \<and> tokens' = ?ts)"
    using assms(3) by (auto simp: pt_Issue_def Let_def split: if_splits)
  show "pt_inv tokens'" using res new inv by auto
  show "it_token ` set tokens' \<subseteq> (if ok then insert p (live_tokens tokens now) else live_tokens tokens now)"
    using res by (auto simp: Expire_live [symmetric] dest!: subsetD [OF sub])
  show "ok \<Longrightarrow> p \<in> it_token ` set tokens'" using res by auto
  show "ok \<longleftrightarrow> \<not> IsZero p \<and> now < exp \<and> p \<notin> live_tokens tokens now"
    using res by (auto simp: Expire_live)
qed

section \<open>The token file\<close>

definition token_persistent :: "int \<Rightarrow> IssuedPairingToken \<Rightarrow> bool" where
  "token_persistent now t \<longleftrightarrow> length (it_token t) = kPairingTokenBytes \<and> \<not> IsZero (it_token t)
     \<and> now < it_expiresUnix t \<and> 0 \<le> it_expiresUnix t \<and> it_expiresUnix t \<le> int64_max"

definition parse_token_line :: "bytes \<Rightarrow> IssuedPairingToken option" where
  "parse_token_line line = do {
     space \<leftarrow> find_byte 0x20 line;
     token \<leftarrow> DecodeBase64 (substr line 0 space) Url;
     expiresUnix \<leftarrow> (if length token \<noteq> kPairingTokenBytes then None else ParseUnixTime (drop (space + 1) line));
     Some \<lparr>it_token = token, it_expiresUnix = expiresUnix\<rparr>
   }"

lemma token_line_shape:
  assumes "token_persistent now t"
  shows "length (token_line t) \<le> 63" "c \<in> set (token_line t) \<Longrightarrow> 0x20 \<le> c" "token_line t \<noteq> []"
    "parse_token_line (token_line t) = Some t"
proof -
  let ?b = "EncodeBase64 (it_token t) Url NoPadding" and ?e = "to_string (it_expiresUnix t)"
  have t: "length (it_token t) = 32" "0 \<le> it_expiresUnix t" "it_expiresUnix t \<le> int64_max"
    using assms by (auto simp: token_persistent_def kconsts)
  have "nat (it_expiresUnix t) < 10 ^ 19" using t by (simp add: int64_max_def nat_less_iff)
  then have "length ?e \<le> 19" using t(2) length_dec [of 19 "nat (it_expiresUnix t)"] by (simp add: to_string_def)
  moreover have "length ?b = 43" using t(1) by (simp add: EncodeBase64_def length_enc_exact)
  ultimately show "length (token_line t) \<le> 63" by (simp add: token_line_def)
  show "c \<in> set (token_line t) \<Longrightarrow> 0x20 \<le> c"
    using EncodeBase64_chars [of c "it_token t" Url] to_string_chars [OF t(2), of c] by (auto simp: token_line_def)
  show "token_line t \<noteq> []" by (simp add: token_line_def)
  have "find_byte 0x20 (?b @ 0x20 # ?e) = Some (length ?b)" using EncodeBase64_chars by (intro find_space) blast
  moreover have "DecodeBase64 ?b Url = Some (it_token t)" using t(1) by (intro Base64_roundtrip) auto
  ultimately show "parse_token_line (token_line t) = Some t"
    using t(1) ParseUnixTime_to_string [OF t(2,3)] by (simp add: parse_token_line_def token_line_def substr_def kconsts)
qed

interpretation token_text: line_format token_line parse_token_line "token_persistent now" for now
  using token_line_shape by unfold_locales (blast, fastforce)

lemma tokens_read:
  assumes "\<forall>t\<in>set ts. token_persistent now t" "pt_inv (store @ ts)" "\<forall>t\<in>set store. now < it_expiresUnix t"
  shows "token_lines store now (map token_line ts) = Some (store @ ts)"
  using assms
proof (induction ts arbitrary: store)
  case (Cons t ts)
  have t: "token_persistent now t" using Cons.prems by simp
  have ne: "token_line t \<noteq> []" "\<not> length (token_line t) > 96" "0x0D \<notin> set (token_line t)"
    using token_line_shape(1,3) [OF t] token_line_shape(2) [OF t, of "0x0D"] by auto
  have p: "parse_token_line (token_line t) = Some t" by (rule token_line_shape(4) [OF t])
  then obtain sp tok e where parts: "find_byte 0x20 (token_line t) = Some sp"
    "DecodeBase64 (substr (token_line t) 0 sp) Url = Some tok" "length tok = kPairingTokenBytes"
    "ParseUnixTime (drop (sp + 1) (token_line t)) = Some e" "t = \<lparr>it_token = tok, it_expiresUnix = e\<rparr>"
    by (auto simp: parse_token_line_def bind_eq_Some_conv split: if_splits)
  have "snd (pt_Expire store now) = store"
    using Cons.prems(3) by (auto simp: pt_Expire_def Let_def intro!: filter_True)
  then have "pt_Issue store tok e now = (True, store @ [t])"
    using Cons.prems(2) t parts(5)
    by (auto simp: pt_Issue_def Let_def token_persistent_def pt_inv_def make_room_id)
  moreover have "\<not> e \<le> now" using t parts(5) by (simp add: token_persistent_def)
  ultimately show ?case
    using Cons.IH [of "store @ [t]"] Cons.prems ne parts(1-4) t
    by (simp add: strip_cr_id Let_def kMaxPairingTokenLineBytes_def token_persistent_def)
qed simp

lemma PairingTokens_roundtrip:
  assumes "pt_inv ts" "\<forall>t\<in>set ts. token_persistent now t"
  shows "ParsePairingTokens (SerializePairingTokens ts) now = Some ts"
proof -
  have "length (SerializePairingTokens ts) \<le> length ts * 64"
    using assms(2) token_line_shape(1) unfolding SerializePairingTokens_def by (induction ts) fastforce+
  then have "length (SerializePairingTokens ts) \<le> 4096" using assms(1) by (simp add: pt_inv_def kconsts)
  then show ?thesis
    using tokens_read [of ts now "[]"] assms token_text.file_lines [OF assms(2)]
    by (simp add: ParsePairingTokens_def SerializePairingTokens_def kMaxPairingTokensFileBytes_def)
qed

section \<open>Operations as one component\<close>

datatype TokenOp = TokenIssue bytes int int | TokenConsume bytes int | TokenExpire int | TokenClear

fun token_step :: "PairingTokens \<Rightarrow> TokenOp \<Rightarrow> (PairingTokens \<times> bool) checked" where
  "token_step ts (TokenIssue p e now) = (let (ok, ts) = pt_Issue ts p e now in Some (ts, ok))"
| "token_step ts (TokenConsume p now) = (let (ok, ts) = pt_Consume ts p now in Some (ts, ok))"
| "token_step ts (TokenExpire now) = (let (n, ts) = pt_Expire ts now in Some (ts, n \<noteq> 0))"
| "token_step ts TokenClear = Some (pt_Clear ts, True)"

fun token_legal :: "TokenOp \<Rightarrow> bool" where
  "token_legal (TokenIssue p e now) = (length p = kPairingTokenBytes)"
| "token_legal _ = True"

lemma Consume_inv: "pt_inv ts \<Longrightarrow> pt_inv (snd (pt_Consume ts p now))"
  using Consume_keeps(2) [of ts p now] Expire_keeps [of ts now] Consume_wrong_size [of p ts now]
  by (cases "length p = kPairingTokenBytes"; cases "pt_Consume ts p now") auto

interpretation tokens: component token_step pt_inv token_legal "\<lambda>_ _. True"
proof
  fix ts x assume ts: "pt_inv ts" "token_legal x"
  then show "\<exists>ts' r. token_step ts x = Some (ts', r) \<and> pt_inv ts' \<and> True"
  proof (cases x)
    case (TokenIssue p e now)
    then show ?thesis using ts Issue_keeps(1) [of ts p e now] by (auto split: prod.splits)
  next
    case (TokenConsume p now)
    then show ?thesis using Consume_inv [OF ts(1), of p now] by (auto split: prod.splits)
  next
    case (TokenExpire now)
    then show ?thesis using Expire_keeps [OF ts(1), of now] by (auto split: prod.splits)
  qed (auto simp: pt_Clear_def pt_inv_def)
qed

text \<open>Along any run, a token is accepted at most once for every time it was issued.\<close>

fun issues_of :: "bytes \<Rightarrow> TokenOp \<Rightarrow> nat" where
  "issues_of p (TokenIssue q e now) = (if q = p then 1 else 0)"
| "issues_of p _ = 0"

fun consumes_of :: "bytes \<Rightarrow> TokenOp \<Rightarrow> bool \<Rightarrow> nat" where
  "consumes_of p (TokenConsume q now) ok = (if q = p \<and> ok then 1 else 0)"
| "consumes_of p _ _ = 0"

lemma step_uses:
  assumes "pt_inv ts" "token_legal x" "token_step ts x = Some (ts', r)" "length p = kPairingTokenBytes"
  shows "consumes_of p x r + (if p \<in> it_token ` set ts' then 1 else 0)
     \<le> issues_of p x + (if p \<in> it_token ` set ts then 1 else (0 :: nat))"
proof -
  have live: "live_tokens ts now \<subseteq> it_token ` set ts" for now by (auto simp: live_tokens_def)
  show ?thesis
  proof (cases x)
    case (TokenIssue q e now)
    then have "pt_Issue ts q e now = (r, ts')" using assms(3) by (auto split: prod.splits)
    from Issue_keeps(2) [OF assms(1) _ this] assms(2) live [of now] TokenIssue show ?thesis
      by (auto split: if_splits)
  next
    case (TokenConsume q now)
    then have c: "pt_Consume ts q now = (r, ts')" using assms(3) by (auto split: prod.splits)
    show ?thesis
    proof (cases "length q = kPairingTokenBytes")
      case True
      from Consume_keeps [OF assms(1) True c] live [of now] TokenConsume show ?thesis by auto
    next
      case False
      then have "q \<noteq> p" "ts' = snd (pt_Expire ts now)" using assms(4) c Consume_wrong_size [OF False, of ts now] by auto
      then show ?thesis using TokenConsume by (auto simp: pt_Expire_def Let_def)
    qed
  next
    case (TokenExpire now)
    then have "ts' = snd (pt_Expire ts now)" using assms(3) by (auto split: prod.splits)
    then show ?thesis using TokenExpire live [of now] by (auto simp: Expire_live)
  qed (use assms(3) in \<open>auto simp: pt_Clear_def\<close>)
qed

lemma run_uses:
  assumes "pt_inv ts" "\<forall>x\<in>set xs. token_legal x" "run_ops token_step ts xs = Some (ts', rs)" "length p = kPairingTokenBytes"
  shows "sum_list (map2 (consumes_of p) xs rs) \<le> sum_list (map (issues_of p) xs) + (if p \<in> it_token ` set ts then 1 else 0)"
  using assms
proof (induction xs arbitrary: ts rs)
  case (Cons x xs)
  then obtain ts1 r rs1 where s: "token_step ts x = Some (ts1, r)" "run_ops token_step ts1 xs = Some (ts', rs1)" "rs = r # rs1"
    by (auto simp: bind_eq_Some_conv)
  have "pt_inv ts1" using tokens.keeps [OF Cons.prems(1), of x] s(1) Cons.prems(2) by auto
  then have "sum_list (map2 (consumes_of p) xs rs1) \<le> sum_list (map (issues_of p) xs) + (if p \<in> it_token ` set ts1 then 1 else 0)"
    using Cons.IH [OF _ _ s(2) assms(4)] Cons.prems(2) by simp
  moreover have "consumes_of p x r + (if p \<in> it_token ` set ts1 then 1 else 0)
     \<le> issues_of p x + (if p \<in> it_token ` set ts then 1 else (0 :: nat))"
    using step_uses [OF Cons.prems(1) _ s(1) assms(4)] Cons.prems(2) by simp
  ultimately show ?case by (simp add: s(3))
qed simp

end
