(* ===== verification/AuthState.thy ===== *)
theory AuthState
  imports TrustStore OrdMap Component WireTypes
begin

text \<open>
  The state a host keeps while clients authenticate: the deadlines of open handshakes
  (\<open>src/core/src/auth/AuthDeadlines.cpp\<close>), the limiter of failed attempts
  (\<open>src/core/src/auth/FailureLimiter.cpp\<close>), and the transcript both sides sign
  (\<open>src/core/src/auth/Transcript.cpp\<close>).
\<close>

section \<open>Deadlines\<close>

record AuthDeadlines =
  ad_capacity :: nat
  ad_deadlines :: "(u64, u64) omap"

definition ad_init :: "nat \<Rightarrow> AuthDeadlines" where
  "ad_init capacity = \<lparr>ad_capacity = capacity, ad_deadlines = []\<rparr>"

definition ad_Admit :: "AuthDeadlines \<Rightarrow> u64 \<Rightarrow> u64 \<Rightarrow> bool \<times> AuthDeadlines" where
  "ad_Admit d key deadlineUs =
     (if map_of (ad_deadlines d) key \<noteq> None then (True, d)
      else if length (ad_deadlines d) \<ge> ad_capacity d then (False, d)
      else (True, d\<lparr>ad_deadlines := om_put key deadlineUs (ad_deadlines d)\<rparr>))"

definition ad_Hasten :: "AuthDeadlines \<Rightarrow> u64 \<Rightarrow> u64 \<Rightarrow> AuthDeadlines" where
  "ad_Hasten d key deadlineUs =
     (case map_of (ad_deadlines d) key of
        None \<Rightarrow> d\<lparr>ad_deadlines := om_put key deadlineUs (ad_deadlines d)\<rparr>
      | Some at \<Rightarrow> d\<lparr>ad_deadlines := om_put key (min at deadlineUs) (ad_deadlines d)\<rparr>)"

definition ad_Forget :: "AuthDeadlines \<Rightarrow> u64 \<Rightarrow> AuthDeadlines" where
  "ad_Forget d key = d\<lparr>ad_deadlines := om_erase key (ad_deadlines d)\<rparr>"

definition ad_Due :: "AuthDeadlines \<Rightarrow> u64 \<Rightarrow> u64 \<Rightarrow> bool" where
  "ad_Due d key nowUs = (case map_of (ad_deadlines d) key of None \<Rightarrow> False | Some at \<Rightarrow> nowUs \<ge> at)"

text \<open>The iteration of \<open>TakeDue\<close>: the due keys in order, and the entries that stay.\<close>

fun take_due :: "u64 \<Rightarrow> (u64, u64) omap \<Rightarrow> u64 list \<times> (u64, u64) omap" where
  "take_due nowUs [] = ([], [])"
| "take_due nowUs ((key, at) # m) =
     (let (due, rest) = take_due nowUs m in
      if nowUs < at then (due, (key, at) # rest) else (key # due, rest))"

definition ad_TakeDue :: "AuthDeadlines \<Rightarrow> u64 \<Rightarrow> u64 list \<times> AuthDeadlines" where
  "ad_TakeDue d nowUs = (let (due, rest) = take_due nowUs (ad_deadlines d) in (due, d\<lparr>ad_deadlines := rest\<rparr>))"

definition ad_Clear :: "AuthDeadlines \<Rightarrow> AuthDeadlines" where
  "ad_Clear d = d\<lparr>ad_deadlines := []\<rparr>"

lemma take_due_filter:
  "take_due now m = (map fst (filter (\<lambda>e. \<not> now < snd e) m), filter (\<lambda>e. now < snd e) m)"
  by (induction now m rule: take_due.induct) auto

lemma filter_wf: "om_wf m \<Longrightarrow> om_wf (filter p m)"
  by (induction m) auto

lemma map_of_filter: "om_wf m \<Longrightarrow> map_of (filter p m) k = (case map_of m k of None \<Rightarrow> None | Some v \<Rightarrow> if p (k, v) then Some v else None)"
proof (induction m)
  case (Cons e m)
  have "map_of m (fst e) = None" using Cons.prems by (auto simp: map_of_eq_None_iff)
  then show ?case using Cons by (cases e) (auto split: option.splits)
qed simp

text \<open>
  \<open>TakeDue\<close> hands out exactly the keys that are due, in ascending order, and forgets exactly those.
\<close>

lemma TakeDue_spec:
  assumes "om_wf (ad_deadlines d)" "ad_TakeDue d now = (due, d')"
  shows "set due = {k. ad_Due d k now}" "sorted_wrt (<) due" "om_wf (ad_deadlines d')"
    "map_of (ad_deadlines d') k = (if ad_Due d k now then None else map_of (ad_deadlines d) k)"
proof -
  let ?m = "ad_deadlines d"
  have eq: "due = map fst (filter (\<lambda>e. \<not> now < snd e) ?m)" "ad_deadlines d' = filter (\<lambda>e. now < snd e) ?m"
    using assms(2) by (auto simp: ad_TakeDue_def take_due_filter)
  have "k \<in> set due \<longleftrightarrow> (\<exists>t. (k, t) \<in> set ?m \<and> t \<le> now)" for k
    by (force simp: eq not_less)
  moreover have "ad_Due d k now \<longleftrightarrow> (\<exists>t. (k, t) \<in> set ?m \<and> t \<le> now)" for k
    by (auto simp: ad_Due_def om_find_set [OF assms(1), symmetric] split: option.splits)
  ultimately show "set due = {k. ad_Due d k now}" by auto
  show "sorted_wrt (<) due" using filter_wf [OF assms(1)] unfolding eq(1) om_wf_def .
  show "om_wf (ad_deadlines d')" using filter_wf [OF assms(1)] by (simp add: eq)
  show "map_of (ad_deadlines d') k = (if ad_Due d k now then None else map_of (ad_deadlines d) k)"
    by (auto simp: eq map_of_filter [OF assms(1)] ad_Due_def split: option.splits)
qed

datatype DeadlineOp = DeadlineAdmit u64 u64 | DeadlineHasten u64 u64 | DeadlineForget u64 | DeadlineTakeDue u64 | DeadlineClear

fun deadline_step :: "AuthDeadlines \<Rightarrow> DeadlineOp \<Rightarrow> (AuthDeadlines \<times> u64 list) checked" where
  "deadline_step d (DeadlineAdmit k t) = Some (snd (ad_Admit d k t), [])"
| "deadline_step d (DeadlineHasten k t) = Some (ad_Hasten d k t, [])"
| "deadline_step d (DeadlineForget k) = Some (ad_Forget d k, [])"
| "deadline_step d (DeadlineTakeDue now) = (let (due, d) = ad_TakeDue d now in Some (d, due))"
| "deadline_step d DeadlineClear = Some (ad_Clear d, [])"

interpretation deadlines: component deadline_step "\<lambda>d. om_wf (ad_deadlines d)" "\<lambda>_. True" "\<lambda>_ due. sorted_wrt (<) due"
proof
  fix d :: AuthDeadlines and x assume wf: "om_wf (ad_deadlines d)"
  then show "\<exists>d' r. deadline_step d x = Some (d', r) \<and> om_wf (ad_deadlines d') \<and> sorted_wrt (<) r"
  proof (cases x)
    case (DeadlineTakeDue now)
    then show ?thesis using TakeDue_spec(2,3) [OF wf] by (auto split: prod.splits)
  qed (auto simp: ad_Admit_def ad_Hasten_def ad_Forget_def ad_Clear_def split: option.splits)
qed

text \<open>No deadline is ever put off: it only moves earlier, until the key is forgotten or taken.\<close>

lemma deadline_never_later:
  assumes wf: "om_wf (ad_deadlines d)" and step: "deadline_step d x = Some (d', r)"
    and before: "map_of (ad_deadlines d) k = Some t" and after: "map_of (ad_deadlines d') k = Some t'"
  shows "t' \<le> t"
proof (cases x)
  case (DeadlineTakeDue now)
  then have "ad_TakeDue d now = (r, d')" using step by (auto split: prod.splits)
  from TakeDue_spec(4) [OF wf this, of k] show ?thesis using before after by (auto split: if_splits)
qed (use assms in \<open>auto simp: ad_Admit_def ad_Hasten_def ad_Forget_def ad_Clear_def
       split: option.splits if_splits\<close>)

section \<open>Failed attempts\<close>

record LimiterEntry =
  fl_key :: Fingerprint
  fl_ip :: u32
  fl_failures :: nat
  fl_lastFailureUs :: u64
  fl_blockedUntilUs :: u64
  fl_occupied :: bool

type_synonym AuthFailureLimiter = "LimiterEntry list"

definition kAuthFailureLimit :: nat where [kconsts]: "kAuthFailureLimit = 3"
definition kAuthFailureWindowUs :: u64 where [kconsts]: "kAuthFailureWindowUs = 60000000"
definition kAuthFailureCooldownUs :: u64 where [kconsts]: "kAuthFailureCooldownUs = 10000000"
definition kAuthFailureSlots :: nat where [kconsts]: "kAuthFailureSlots = 64"

definition entry_empty :: LimiterEntry where
  "entry_empty = \<lparr>fl_key = replicate 32 0, fl_ip = 0, fl_failures = 0, fl_lastFailureUs = 0,
     fl_blockedUntilUs = 0, fl_occupied = False\<rparr>"

definition fl_init :: AuthFailureLimiter where
  "fl_init = replicate kAuthFailureSlots entry_empty"

definition is_for :: "Fingerprint \<Rightarrow> u32 \<Rightarrow> LimiterEntry \<Rightarrow> bool" where
  "is_for key ip e \<longleftrightarrow> fl_occupied e \<and> fl_ip e = ip \<and> fl_key e = key"

definition fl_Allow :: "AuthFailureLimiter \<Rightarrow> Fingerprint \<Rightarrow> u32 \<Rightarrow> u64 \<Rightarrow> bool" where
  "fl_Allow entries key ip nowUs =
     (case List.find (is_for key ip) entries of None \<Rightarrow> True | Some e \<Rightarrow> nowUs \<ge> fl_blockedUntilUs e)"

text \<open>The loop that picks the entry to use: the one of this peer, else the first free one, else the oldest.\<close>

fun select_entry :: "AuthFailureLimiter \<Rightarrow> Fingerprint \<Rightarrow> u32 \<Rightarrow> nat list \<Rightarrow> nat option \<Rightarrow> nat option" where
  "select_entry entries key ip [] selected = selected"
| "select_entry entries key ip (i # is) selected =
     (let e = entries ! i in
      if is_for key ip e then Some i
      else if \<not> fl_occupied e then
        select_entry entries key ip is
          (case selected of None \<Rightarrow> Some i | Some j \<Rightarrow> if fl_occupied (entries ! j) then Some i else Some j)
      else select_entry entries key ip is
          (case selected of None \<Rightarrow> Some i
           | Some j \<Rightarrow> if fl_occupied (entries ! j) \<and> fl_lastFailureUs e < fl_lastFailureUs (entries ! j) then Some i else Some j))"

definition note_failure :: "Fingerprint \<Rightarrow> u32 \<Rightarrow> u64 \<Rightarrow> LimiterEntry \<Rightarrow> LimiterEntry" where
  "note_failure key ip nowUs e =
     (let e = (if \<not> fl_occupied e \<or> fl_ip e \<noteq> ip \<or> fl_key e \<noteq> key \<or> nowUs < fl_lastFailureUs e
                  \<or> nowUs - fl_lastFailureUs e > kAuthFailureWindowUs
               then entry_empty\<lparr>fl_key := key, fl_ip := ip, fl_occupied := True\<rparr> else e);
          e = e\<lparr>fl_lastFailureUs := nowUs, fl_failures := fl_failures e + 1\<rparr>
      in if fl_failures e \<ge> kAuthFailureLimit
         then e\<lparr>fl_failures := 0, fl_blockedUntilUs := nowUs + kAuthFailureCooldownUs\<rparr> else e)"

definition fl_RecordFailure :: "AuthFailureLimiter \<Rightarrow> Fingerprint \<Rightarrow> u32 \<Rightarrow> u64 \<Rightarrow> AuthFailureLimiter" where
  "fl_RecordFailure entries key ip nowUs =
     (case select_entry entries key ip [0..<length entries] None of
        None \<Rightarrow> entries
      | Some i \<Rightarrow> entries[i := note_failure key ip nowUs (entries ! i)])"

definition fl_RecordSuccess :: "AuthFailureLimiter \<Rightarrow> Fingerprint \<Rightarrow> u32 \<Rightarrow> AuthFailureLimiter" where
  "fl_RecordSuccess entries key ip =
     (case update_first (is_for key ip) (\<lambda>_. entry_empty) entries of None \<Rightarrow> entries | Some entries \<Rightarrow> entries)"

definition fl_Clear :: "AuthFailureLimiter \<Rightarrow> AuthFailureLimiter" where
  "fl_Clear entries = fl_init"

definition fl_peer :: "AuthFailureLimiter \<Rightarrow> Fingerprint \<Rightarrow> u32 \<Rightarrow> LimiterEntry option" where
  "fl_peer entries key ip = List.find (is_for key ip) entries"

definition fl_wf :: "AuthFailureLimiter \<Rightarrow> bool" where
  "fl_wf es \<longleftrightarrow> length es = kAuthFailureSlots
     \<and> (\<forall>i<length es. \<forall>j<length es. fl_occupied (es ! i) \<longrightarrow> is_for (fl_key (es ! i)) (fl_ip (es ! i)) (es ! j) \<longrightarrow> i = j)
     \<and> (\<forall>e\<in>set es. fl_failures e < kAuthFailureLimit)"

lemma is_forD: "is_for key ip e \<Longrightarrow> is_for key' ip' e \<longleftrightarrow> key' = key \<and> ip' = ip"
  by (auto simp: is_for_def)

lemma wf_unique: "fl_wf es \<Longrightarrow> i < length es \<Longrightarrow> j < length es \<Longrightarrow> is_for key ip (es ! i) \<Longrightarrow> is_for key ip (es ! j) \<Longrightarrow> i = j"
  by (auto simp: fl_wf_def is_for_def)

lemma fl_peer_at: "fl_wf es \<Longrightarrow> i < length es \<Longrightarrow> is_for key ip (es ! i) \<Longrightarrow> fl_peer es key ip = Some (es ! i)"
  unfolding fl_peer_def by (subst find_Some_iff) (metis wf_unique order_less_trans order_less_irrefl)

lemma fl_peer_None: "fl_peer es key ip = None \<longleftrightarrow> (\<forall>i<length es. \<not> is_for key ip (es ! i))"
  by (auto simp: fl_peer_def find_None_iff in_set_conv_nth)

lemma fl_peer_Some: "fl_peer es key ip = Some e \<Longrightarrow> \<exists>i<length es. es ! i = e \<and> is_for key ip e"
  by (auto simp: fl_peer_def find_Some_iff)

lemma select_in: "select_entry es key ip is sel = Some i \<Longrightarrow> i \<in> set is \<or> sel = Some i"
  by (induction es key ip "is" sel rule: select_entry.induct) (fastforce simp: Let_def split: if_splits option.splits)+

lemma select_some: "is \<noteq> [] \<or> sel \<noteq> None \<Longrightarrow> select_entry es key ip is sel \<noteq> None"
  by (induction es key ip "is" sel rule: select_entry.induct) (auto simp: Let_def split: option.splits)

lemma select_found:
  "\<exists>i\<in>set is. is_for key ip (es ! i) \<Longrightarrow> \<exists>i. select_entry es key ip is sel = Some i \<and> i \<in> set is \<and> is_for key ip (es ! i)"
  by (induction es key ip "is" sel rule: select_entry.induct) (auto simp: Let_def)

text \<open>A free entry is taken before an occupied one is evicted.\<close>

lemma select_free:
  assumes "\<forall>i\<in>set is. \<not> is_for key ip (es ! i)" "\<exists>i\<in>set is \<union> set_option sel. \<not> fl_occupied (es ! i)"
  shows "\<exists>i. select_entry es key ip is sel = Some i \<and> \<not> fl_occupied (es ! i)"
  using assms
proof (induction "is" arbitrary: sel)
  case (Cons i rest)
  define sel' where "sel' = (if \<not> fl_occupied (es ! i)
     then (case sel of None \<Rightarrow> Some i | Some j \<Rightarrow> if fl_occupied (es ! j) then Some i else Some j)
     else (case sel of None \<Rightarrow> Some i
           | Some j \<Rightarrow> if fl_occupied (es ! j) \<and> fl_lastFailureUs (es ! i) < fl_lastFailureUs (es ! j) then Some i else Some j))"
  have "select_entry es key ip (i # rest) sel = select_entry es key ip rest sel'"
    using Cons.prems(1) by (simp add: sel'_def Let_def)
  moreover have "\<exists>i\<in>set rest \<union> set_option sel'. \<not> fl_occupied (es ! i)"
    using Cons.prems(2) by (auto simp: sel'_def split: option.splits)
  ultimately show ?case using Cons.IH [of sel'] Cons.prems(1) by simp
next
  case Nil
  then show ?case by (cases sel) auto
qed

lemma note_failure_for: "is_for key ip (note_failure key ip now e)"
  by (auto simp: note_failure_def is_for_def Let_def)

lemma note_failure_other: "\<not> is_for key ip e \<Longrightarrow> note_failure key ip now e = note_failure key ip now entry_empty"
  by (auto simp: note_failure_def is_for_def Let_def entry_empty_def)

lemma note_failure_bound: "fl_failures e < kAuthFailureLimit \<Longrightarrow> fl_failures (note_failure key ip now e) < kAuthFailureLimit"
  by (auto simp: note_failure_def Let_def entry_empty_def kAuthFailureLimit_def)

definition known_as :: "AuthFailureLimiter \<Rightarrow> Fingerprint \<Rightarrow> u32 \<Rightarrow> LimiterEntry" where
  "known_as es key ip = (case fl_peer es key ip of None \<Rightarrow> entry_empty | Some e \<Rightarrow> e)"

lemma RecordFailure_slot:
  assumes wf: "fl_wf es"
  obtains i where "i < length es" "fl_RecordFailure es key ip now = es[i := note_failure key ip now (known_as es key ip)]"
    "\<forall>j<length es. is_for key ip (es ! j) \<longrightarrow> j = i"
    "fl_peer es key ip = None \<longrightarrow> (\<exists>j<length es. \<not> fl_occupied (es ! j)) \<longrightarrow> \<not> fl_occupied (es ! i)"
proof -
  have "[0..<length es] \<noteq> []" using wf by (simp add: fl_wf_def kAuthFailureSlots_def)
  then obtain i where sel: "select_entry es key ip [0..<length es] None = Some i"
    using select_some by blast
  then have i: "i < length es" using select_in by fastforce
  show thesis
  proof (cases "fl_peer es key ip")
    case None
    then have none: "\<forall>j<length es. \<not> is_for key ip (es ! j)" by (simp add: fl_peer_None)
    show ?thesis
    proof (rule that [OF i])
      show "fl_RecordFailure es key ip now = es[i := note_failure key ip now (known_as es key ip)]"
        using none i note_failure_other [of key ip "es ! i" now] by (simp add: fl_RecordFailure_def sel known_as_def None)
      show "\<forall>j<length es. is_for key ip (es ! j) \<longrightarrow> j = i" using none by simp
      show "fl_peer es key ip = None \<longrightarrow> (\<exists>j<length es. \<not> fl_occupied (es ! j)) \<longrightarrow> \<not> fl_occupied (es ! i)"
        using select_free [of "[0..<length es]" key ip es None] none sel by fastforce
    qed
  next
    case (Some e)
    then obtain j where j: "j < length es" "es ! j = e" "is_for key ip e" using fl_peer_Some by blast
    then have "is_for key ip (es ! i)" using select_found [of "[0..<length es]" key ip es None] sel by fastforce
    then have ij: "i = j" using wf_unique [OF wf i j(1)] j by simp
    show ?thesis
    proof (rule that [OF i])
      show "fl_RecordFailure es key ip now = es[i := note_failure key ip now (known_as es key ip)]"
        using j ij by (simp add: fl_RecordFailure_def sel known_as_def Some)
      show "\<forall>k<length es. is_for key ip (es ! k) \<longrightarrow> k = i" using wf_unique [OF wf] j ij by blast
    qed (simp add: Some)
  qed
qed

lemma known_bound: "fl_wf es \<Longrightarrow> fl_failures (known_as es key ip) < kAuthFailureLimit"
  by (auto simp: known_as_def fl_wf_def entry_empty_def kAuthFailureLimit_def dest!: fl_peer_Some split: option.splits)

lemma RecordFailure_wf:
  assumes wf: "fl_wf es" shows "fl_wf (fl_RecordFailure es key ip now)"
proof -
  let ?e = "note_failure key ip now (known_as es key ip)"
  obtain i where i: "i < length es" and put: "fl_RecordFailure es key ip now = es[i := ?e]"
    and only: "\<forall>j<length es. is_for key ip (es ! j) \<longrightarrow> j = i"
    by (rule RecordFailure_slot [OF wf, where key = key and ip = ip and now = now])
  have e: "is_for key ip ?e" by (rule note_failure_for)
  have "a = b" if "a < length es" "b < length es" "is_for k p (es[i := ?e] ! a)" "is_for k p (es[i := ?e] ! b)" for a b k p
  proof (cases "k = key \<and> p = ip")
    case True
    then show ?thesis using that only by (metis nth_list_update_neq)
  next
    case False
    then have "a \<noteq> i" "b \<noteq> i" using that i is_forD [OF e] by auto
    then show ?thesis using that wf_unique [OF wf] by simp
  qed
  then have "\<forall>a<length es. \<forall>b<length es. fl_occupied (es[i := ?e] ! a)
      \<longrightarrow> is_for (fl_key (es[i := ?e] ! a)) (fl_ip (es[i := ?e] ! a)) (es[i := ?e] ! b) \<longrightarrow> a = b"
    by (simp add: is_for_def)
  moreover have "fl_failures x < kAuthFailureLimit" if "x \<in> set (es[i := ?e])" for x
    using that set_update_subset_insert [of es i ?e] note_failure_bound [OF known_bound [OF wf]] wf
    by (auto simp: fl_wf_def)
  moreover have "length es = kAuthFailureSlots" using wf by (simp add: fl_wf_def)
  ultimately show ?thesis unfolding put fl_wf_def by simp
qed

lemma RecordFailure_peer:
  assumes wf: "fl_wf es"
  shows "fl_peer (fl_RecordFailure es key ip now) key ip = Some (note_failure key ip now (known_as es key ip))"
proof -
  let ?e = "note_failure key ip now (known_as es key ip)"
  obtain i where "i < length es" "fl_RecordFailure es key ip now = es[i := ?e]" by (rule RecordFailure_slot [OF wf, where key = key and ip = ip and now = now])
  then show ?thesis using fl_peer_at [OF RecordFailure_wf [OF wf], of i key ip now key ip] note_failure_for by simp
qed

text \<open>A failure of one peer leaves every other peer's record alone while the table has a free entry.\<close>

lemma RecordFailure_others:
  assumes wf: "fl_wf es" and other: "(key', ip') \<noteq> (key, ip)"
    and room: "fl_peer es key ip \<noteq> None \<or> (\<exists>e\<in>set es. \<not> fl_occupied e)"
  shows "fl_peer (fl_RecordFailure es key ip now) key' ip' = fl_peer es key' ip'"
proof -
  let ?e = "note_failure key ip now (known_as es key ip)"
  obtain i where i: "i < length es" "fl_RecordFailure es key ip now = es[i := ?e]"
    "\<forall>j<length es. is_for key ip (es ! j) \<longrightarrow> j = i"
    "fl_peer es key ip = None \<longrightarrow> (\<exists>j<length es. \<not> fl_occupied (es ! j)) \<longrightarrow> \<not> fl_occupied (es ! i)"
    by (rule RecordFailure_slot [OF wf, where key = key and ip = ip and now = now])
  have new: "\<not> is_for key' ip' ?e" using other is_forD [OF note_failure_for] by blast
  have old: "\<not> is_for key' ip' (es ! i)"
  proof (cases "fl_peer es key ip")
    case None
    then show ?thesis using room i(4) by (auto simp: is_for_def in_set_conv_nth)
  next
    case (Some e)
    then have "is_for key ip (es ! i)" using fl_peer_Some i(3) by fastforce
    then show ?thesis using other is_forD by blast
  qed
  show ?thesis
  proof (cases "fl_peer es key' ip'")
    case None
    then have "\<forall>j<length (es[i := ?e]). \<not> is_for key' ip' (es[i := ?e] ! j)"
      using new i(1) by (auto simp: fl_peer_None nth_list_update)
    then show ?thesis unfolding i(2) None fl_peer_None .
  next
    case (Some x)
    then obtain j where j: "j < length es" "es ! j = x" "is_for key' ip' x" using fl_peer_Some by blast
    then have "j \<noteq> i" using old by auto
    then show ?thesis using fl_peer_at [OF RecordFailure_wf [OF wf], of j key ip now key' ip'] j Some unfolding i(2) by simp
  qed
qed

datatype LimiterOp = LimiterFail Fingerprint u32 u64 | LimiterSucceed Fingerprint u32 | LimiterClear

fun limiter_step :: "AuthFailureLimiter \<Rightarrow> LimiterOp \<Rightarrow> (AuthFailureLimiter \<times> unit) checked" where
  "limiter_step es (LimiterFail key ip now) = Some (fl_RecordFailure es key ip now, ())"
| "limiter_step es (LimiterSucceed key ip) = Some (fl_RecordSuccess es key ip, ())"
| "limiter_step es LimiterClear = Some (fl_Clear es, ())"

lemma init_wf: "fl_wf fl_init"
  by (auto simp: fl_wf_def fl_init_def entry_empty_def kAuthFailureLimit_def)

lemma update_first_nth:
  "update_first p f xs = Some ys \<Longrightarrow> \<exists>i<length xs. ys = xs[i := f (xs ! i)] \<and> p (xs ! i)"
proof (induction xs arbitrary: ys)
  case (Cons x xs)
  show ?case
  proof (cases "p x")
    case True
    then show ?thesis using Cons.prems by (intro exI [of _ 0]) auto
  next
    case False
    then obtain zs where zs: "update_first p f xs = Some zs" "ys = x # zs" using Cons.prems by (auto split: option.splits)
    from Cons.IH [OF zs(1)] obtain i where "i < length xs" "zs = xs[i := f (xs ! i)]" "p (xs ! i)" by blast
    then show ?thesis using zs(2) by (intro exI [of _ "Suc i"]) auto
  qed
qed simp

lemma RecordSuccess_wf:
  assumes wf: "fl_wf es" shows "fl_wf (fl_RecordSuccess es key ip)"
proof (cases "update_first (is_for key ip) (\<lambda>_. entry_empty) es")
  case (Some ys)
  then obtain i where i: "i < length es" "ys = es[i := entry_empty]" using update_first_nth [OF Some] by auto
  have e: "\<not> is_for k p entry_empty" for k p by (simp add: is_for_def entry_empty_def)
  have "a = b" if "a < length es" "b < length es" "is_for k p (ys ! a)" "is_for k p (ys ! b)" for a b k p
  proof -
    have "a \<noteq> i" "b \<noteq> i" using that e i by auto
    then show ?thesis using that wf_unique [OF wf] i by simp
  qed
  moreover have "fl_failures x < kAuthFailureLimit" if "x \<in> set ys" for x
    using that wf set_update_subset_insert [of es i entry_empty] i(2)
    by (auto simp: fl_wf_def entry_empty_def kAuthFailureLimit_def)
  ultimately show ?thesis using wf i by (simp add: fl_RecordSuccess_def Some fl_wf_def is_for_def)
qed (use wf in \<open>simp add: fl_RecordSuccess_def\<close>)

interpretation limiter: component limiter_step fl_wf "\<lambda>_. True" "\<lambda>_ _. True"
proof
  fix es x assume "fl_wf es"
  then show "\<exists>es' r. limiter_step es x = Some (es', r) \<and> fl_wf es' \<and> True"
    by (cases x) (simp_all add: RecordFailure_wf RecordSuccess_wf fl_Clear_def init_wf)
qed

lemma Allow_peer: "fl_Allow es key ip now \<longleftrightarrow> fl_blockedUntilUs (known_as es key ip) \<le> now"
  by (auto simp: fl_Allow_def known_as_def fl_peer_def entry_empty_def split: option.splits)

lemma known_RecordFailure: "fl_wf es \<Longrightarrow> known_as (fl_RecordFailure es key ip now) key ip = note_failure key ip now (known_as es key ip)"
  by (simp add: known_as_def RecordFailure_peer)

text \<open>Three failures, none more than the window after the one before, block the peer for the cooldown and no longer.\<close>

lemma three_failures_block:
  assumes wf: "fl_wf es" and fresh: "fl_peer es key ip = None"
    and order: "t1 \<le> t2" "t2 \<le> t3" "t2 - t1 \<le> kAuthFailureWindowUs" "t3 - t2 \<le> kAuthFailureWindowUs"
  shows "fl_Allow (fl_RecordFailure (fl_RecordFailure (fl_RecordFailure es key ip t1) key ip t2) key ip t3) key ip now
    \<longleftrightarrow> t3 + kAuthFailureCooldownUs \<le> now"
proof -
  have e: "known_as es key ip = entry_empty" using fresh by (simp add: known_as_def)
  have 1: "note_failure key ip t1 entry_empty = entry_empty\<lparr>fl_key := key, fl_ip := ip, fl_occupied := True, fl_lastFailureUs := t1, fl_failures := 1\<rparr>"
    by (simp add: note_failure_def Let_def entry_empty_def kAuthFailureLimit_def)
  have 2: "note_failure key ip t2 (note_failure key ip t1 entry_empty)
     = entry_empty\<lparr>fl_key := key, fl_ip := ip, fl_occupied := True, fl_lastFailureUs := t2, fl_failures := 2\<rparr>"
    unfolding 1 using order by (simp add: note_failure_def Let_def entry_empty_def kAuthFailureLimit_def not_less)
  have "\<not> t3 < t2" "\<not> kAuthFailureWindowUs < t3 - t2" using order by auto
  then have 3: "fl_blockedUntilUs (note_failure key ip t3 (note_failure key ip t2 (note_failure key ip t1 entry_empty)))
     = t3 + kAuthFailureCooldownUs"
    unfolding 2 by (simp add: note_failure_def Let_def entry_empty_def kAuthFailureLimit_def)
  show ?thesis by (simp add: Allow_peer known_RecordFailure RecordFailure_wf wf e 3)
qed

lemma two_failures_allow:
  assumes "fl_wf es" "fl_peer es key ip = None"
  shows "fl_Allow (fl_RecordFailure (fl_RecordFailure es key ip t1) key ip t2) key ip now"
  using assms known_as_def [of es key ip]
  by (simp add: Allow_peer known_RecordFailure RecordFailure_wf)
    (simp add: note_failure_def Let_def entry_empty_def kAuthFailureLimit_def)

section \<open>The transcript\<close>

datatype AuthRole = RoleClient | RoleHost | RoleRaw u8

fun AuthRole_code :: "AuthRole \<Rightarrow> u8" where
  "AuthRole_code RoleClient = 1"
| "AuthRole_code RoleHost = 2"
| "AuthRole_code (RoleRaw b) = b"

definition kDomain :: bytes where "kDomain = bytes_of ''Deskhub/auth/signature''"

definition AppendField :: "bytes \<Rightarrow> bytes \<Rightarrow> bytes" where
  "AppendField out field =
     (let n = of_nat (length field) :: u32 in
      out @ [ucast (drop_bit 24 n), ucast (drop_bit 16 n), ucast (drop_bit 8 n), ucast n] @ field)"

definition AuthTranscript :: "AuthRole \<Rightarrow> bytes \<Rightarrow> bytes \<Rightarrow> Fingerprint \<Rightarrow> bytes" where
  "AuthTranscript role sessionId clientPublicKey hostFingerprint =
     (if (role \<noteq> RoleClient \<and> role \<noteq> RoleHost) \<or> list_all (\<lambda>b. b = 0) sessionId \<or> clientPublicKey = []
         \<or> length clientPublicKey > kMaxAuthBlobBytes \<or> IsZero hostFingerprint
      then []
      else AppendField (AppendField (AppendField (AppendField (AppendField []
             kDomain) [kAuthVersion, AuthRole_code role]) sessionId) clientPublicKey) hostFingerprint)"

text \<open>Two transcripts are the same only if both sides meant the same: nothing can be shifted between fields.\<close>

lemma field_cancel:
  assumes "AppendField xs a = AppendField ys b" "length xs = length ys" "length a < 2 ^ 32" "length b < 2 ^ 32"
  shows "xs = ys \<and> a = b"
  using assms by (auto simp: AppendField_def Let_def)

lemma length_AppendField: "length (AppendField xs a) = length xs + 4 + length a"
  by (simp add: AppendField_def Let_def)

lemma octet_bits:
  "ucast (drop_bit k m) = (ucast (drop_bit k n) :: u8) \<Longrightarrow> j < 8 \<Longrightarrow> bit (m :: u32) (k + j) = bit n (k + j)"
  by (drule arg_cong [where f = "\<lambda>w. bit w j"]) (simp add: bit_simps)

lemma u32_bytes_inj:
  assumes "ucast (drop_bit 24 m) = (ucast (drop_bit 24 n) :: u8)" "ucast (drop_bit 16 m) = (ucast (drop_bit 16 n) :: u8)"
    "ucast (drop_bit 8 m) = (ucast (drop_bit 8 n) :: u8)" "ucast m = (ucast n :: u8)"
  shows "m = (n :: u32)"
proof (rule bit_word_eqI)
  fix i assume "i < LENGTH(32)"
  then have "i < 8 \<or> (8 \<le> i \<and> i < 16) \<or> (16 \<le> i \<and> i < 24) \<or> (24 \<le> i \<and> i < 32)" by auto
  then show "bit m i = bit n i"
    using octet_bits [of 0 m n i] octet_bits [OF assms(3), of "i - 8"] octet_bits [OF assms(2), of "i - 16"]
      octet_bits [OF assms(1), of "i - 24"] assms(4)
    by (elim disjE conjE) simp_all
qed

lemma field_split:
  assumes "AppendField xs a @ as = AppendField xs b @ bs" "length a < 2 ^ 32" "length b < 2 ^ 32"
  shows "a = b \<and> as = bs"
proof -
  have "(of_nat (length a) :: u32) = of_nat (length b)"
    using assms(1) by (intro u32_bytes_inj) (simp_all add: AppendField_def Let_def)
  from arg_cong [OF this, where f = unat] have "length a = length b"
    using assms(2,3) by (simp add: unat_of_nat)
  then show ?thesis using assms(1) by (simp add: AppendField_def Let_def)
qed

text \<open>
  The signed bytes name one role, one session, one client key and one host: two transcripts that are
  equal and not empty were made from the same four values.
\<close>

lemma AuthTranscript_inj:
  assumes eq: "AuthTranscript r s k h = AuthTranscript r' s' k' h'" and some: "AuthTranscript r s k h \<noteq> []"
    and sizes: "length s = kAuthSessionIdBytes" "length s' = kAuthSessionIdBytes"
      "length h = kFingerprintBytes" "length h' = kFingerprintBytes"
  shows "r = r' \<and> s = s' \<and> k = k' \<and> h = h'"
proof -
  have some': "AuthTranscript r' s' k' h' \<noteq> []" using eq some by simp
  note roles = some some'
  let ?F = "\<lambda>r s k h. AppendField (AppendField (AppendField (AppendField (AppendField []
     kDomain) [kAuthVersion, AuthRole_code r]) s) k) h"
  have F: "?F r s k h = ?F r' s' k' h'"
    using eq some some' by (simp add: AuthTranscript_def split: if_splits)
  have k: "length k < 2 ^ 32" "length k' < 2 ^ 32" using some some' by (auto simp: AuthTranscript_def kMaxAuthBlobBytes_def split: if_splits)
  have "AppendField xs a = xs @ AppendField [] a" for xs a by (simp add: AppendField_def Let_def)
  note flat = this
  let ?L = "\<lambda>r s k h. AppendField [] kDomain @ AppendField [] [kAuthVersion, AuthRole_code r]
     @ AppendField [] s @ AppendField [] k @ AppendField [] h @ []"
  have "?F r s k h = ?L r s k h" for r s k h
    by (subst flat, subst (2) flat, subst (3) flat, subst (4) flat, simp)
  with F have L: "?L r s k h = ?L r' s' k' h'" by simp
  have lens: "length s < 2 ^ 32" "length s' < 2 ^ 32" "length h < 2 ^ 32" "length h' < 2 ^ 32"
    using sizes by (simp_all add: kAuthSessionIdBytes_def kFingerprintBytes_def)
  have 1: "AppendField [] [kAuthVersion, AuthRole_code r] @ AppendField [] s @ AppendField [] k @ AppendField [] h @ []
    = AppendField [] [kAuthVersion, AuthRole_code r'] @ AppendField [] s' @ AppendField [] k' @ AppendField [] h' @ []"
    using L by simp
  have 2: "AuthRole_code r = AuthRole_code r'"
    and 3: "AppendField [] s @ AppendField [] k @ AppendField [] h @ [] = AppendField [] s' @ AppendField [] k' @ AppendField [] h' @ []"
    using field_split [OF 1] by auto
  have 4: "s = s'" and 5: "AppendField [] k @ AppendField [] h @ [] = AppendField [] k' @ AppendField [] h' @ []"
    using field_split [OF 3 lens(1,2)] by auto
  have 6: "k = k'" and 7: "AppendField [] h @ [] = AppendField [] h' @ []" using field_split [OF 5 k] by auto
  have "h = h'" using field_split [OF 7 lens(3,4)] by auto
  moreover have "r = r'" using 2 roles by (auto simp: AuthTranscript_def split: if_splits)
  ultimately show ?thesis using 4 6 by simp
qed

end
