(* ===== verification/Checksum.thy ===== *)
theory Checksum
  imports Prelude
begin

text \<open>
  The checksum of transferred files (\<open>src/core/src/transfer/Crc32.cpp\<close>): the table, the update loop
  over it, and the bit-serial division it stands for. The lemmas show that the two agree, that data
  may be fed in pieces, and that no corruption confined to four consecutive bytes goes unnoticed.
\<close>

definition kCrc32Poly :: u32 where [kconsts]: "kCrc32Poly = 0xEDB88320"

text \<open>One turn of the inner loop of \<open>MakeTable\<close>.\<close>

definition crc_bit :: "u32 \<Rightarrow> u32" where
  "crc_bit c = (if c AND 1 \<noteq> 0 then kCrc32Poly XOR drop_bit 1 c else drop_bit 1 c)"

definition MakeTable :: "u32 list" where
  "MakeTable = map (\<lambda>i. (crc_bit ^^ 8) (of_nat i)) [0..<256]"

definition kCrc32Table :: "u32 list" where
  "kCrc32Table = MakeTable"

definition crc_Reset :: u32 where
  "crc_Reset = 0xFFFFFFFF"

definition crc_byte :: "u32 \<Rightarrow> u8 \<Rightarrow> u32" where
  "crc_byte c b = kCrc32Table ! unat ((c XOR ucast b) AND 0xFF) XOR drop_bit 8 c"

definition crc_Update :: "u32 \<Rightarrow> bytes \<Rightarrow> u32" where
  "crc_Update state bs = foldl crc_byte state bs"

definition crc_Value :: "u32 \<Rightarrow> u32" where
  "crc_Value state = NOT state"

text \<open>The reference: divide bit by bit, without a table.\<close>

definition crc_serial :: "u32 \<Rightarrow> bytes \<Rightarrow> u32" where
  "crc_serial c bs = foldl (\<lambda>c b. (crc_bit ^^ 8) (c XOR ucast b)) c bs"

section \<open>The bit step is linear and loses nothing\<close>

lemma xor_zero: "(a :: u32) XOR b = 0 \<longleftrightarrow> a = b"
  by (auto simp: bit_eq_iff bit_xor_iff)

lemma xor_cancel: "(a :: u32) XOR b = a XOR c \<longleftrightarrow> b = c" "(b :: u32) XOR a = c XOR a \<longleftrightarrow> b = c"
  by (auto simp: bit_eq_iff bit_xor_iff)

lemma bit_u8: "bit (b :: u8) n \<Longrightarrow> n < 8"
  using bit_imp_le_length [of b n] by simp

lemma bit_u32: "bit (c :: u32) n \<Longrightarrow> n < 32"
  using bit_imp_le_length [of c n] by simp

lemma byte_mask: "(0xFF :: u32) = mask 8"
  by (simp add: mask_eq_exp_minus_1)

lemma and_one_bit: "(c :: u32) AND 1 \<noteq> 0 \<longleftrightarrow> bit c 0"
  by (simp add: and_one_eq bit_0 odd_iff_mod_2_eq_one even_iff_mod_2_eq_zero)

lemma crc_bit_alt: "crc_bit c = (if bit c 0 then kCrc32Poly else 0) XOR drop_bit 1 c"
  by (simp add: crc_bit_def and_one_bit)

lemma crc_bit_xor: "crc_bit (a XOR b) = crc_bit a XOR crc_bit b"
  by (rule bit_eqI) (auto simp: crc_bit_alt bit_simps)

lemma crc_bits_xor: "(crc_bit ^^ n) (a XOR b) = (crc_bit ^^ n) a XOR (crc_bit ^^ n) b"
  by (induction n arbitrary: a b) (simp_all add: crc_bit_xor funpow_swap1)

lemma crc_bit_0: "crc_bit c = 0 \<Longrightarrow> c = 0"
proof (cases "bit c 0")
  case True
  assume "crc_bit c = 0"
  then have "kCrc32Poly = drop_bit 1 c" using True by (simp add: crc_bit_alt xor_zero)
  then have "bit kCrc32Poly 31 = bit (drop_bit 1 c) 31" by simp
  moreover have "bit kCrc32Poly 31" by (simp add: kCrc32Poly_def)
  ultimately show ?thesis using bit_u32 [of c 32] by (auto simp: bit_simps)
next
  case False
  assume "crc_bit c = 0"
  then have "drop_bit 1 c = 0" using False by (simp add: crc_bit_alt)
  show ?thesis
  proof (rule bit_eqI)
    fix n
    have "bit (drop_bit 1 c) (n - 1) = False" using \<open>drop_bit 1 c = 0\<close> by simp
    then show "bit c n = bit (0 :: u32) n" using False by (cases n) (simp_all add: bit_simps)
  qed
qed

lemma crc_bit_inj: "crc_bit a = crc_bit b \<Longrightarrow> a = b"
  using crc_bit_0 [of "a XOR b"] by (simp add: crc_bit_xor xor_zero)

lemma crc_bits_inj: "(crc_bit ^^ n) a = (crc_bit ^^ n) b \<Longrightarrow> a = b"
  by (induction n) (auto dest: crc_bit_inj)

lemma crc_bits_shift: "(\<forall>i<n. \<not> bit c i) \<Longrightarrow> (crc_bit ^^ n) c = drop_bit n c"
proof (induction n)
  case (Suc n)
  then have IH: "(crc_bit ^^ n) c = drop_bit n c" by simp
  have "\<not> bit (drop_bit n c) 0" using Suc.prems by (simp add: bit_simps)
  then have "crc_bit (drop_bit n c) = drop_bit (Suc n) c" by (simp add: crc_bit_alt)
  then show ?case by (simp add: IH)
qed simp

section \<open>The table is the division\<close>

lemma low_byte: "(x AND 0xFF :: u32) = of_nat (unat (x AND 0xFF)) \<and> unat (x AND 0xFF) < 256"
proof -
  have "x AND 0xFF \<le> 0xFF" by (rule word_and_le1)
  then have "unat (x AND 0xFF) < 256" by (simp add: word_le_nat_alt)
  then show ?thesis by simp
qed

lemma crc_byte_serial: "crc_byte c b = (crc_bit ^^ 8) (c XOR ucast b)"
proof -
  let ?x = "c XOR ucast b" and ?low = "(c XOR ucast b) AND 0xFF"
  have split: "?x = ?low XOR (push_bit 8 (drop_bit 8 c))"
    unfolding byte_mask by (rule bit_eqI) (auto simp: bit_simps dest: bit_u8)
  have "(crc_bit ^^ 8) (push_bit 8 (drop_bit 8 c)) = drop_bit 8 (push_bit 8 (drop_bit 8 c))"
    by (rule crc_bits_shift) (simp add: bit_simps)
  also have "\<dots> = drop_bit 8 c" by (rule bit_eqI) (auto simp: bit_simps dest: bit_u32)
  finally have high: "(crc_bit ^^ 8) (push_bit 8 (drop_bit 8 c)) = drop_bit 8 c" .
  have "kCrc32Table ! unat ?low = (crc_bit ^^ 8) ?low"
    using low_byte [of ?x] by (simp add: kCrc32Table_def MakeTable_def)
  then show ?thesis
    unfolding crc_byte_def by (subst (2) split) (simp add: crc_bits_xor high)
qed

lemma crc_Update_serial: "crc_Update c bs = crc_serial c bs"
  by (induction bs arbitrary: c) (simp_all add: crc_Update_def crc_serial_def crc_byte_serial)

lemma crc_Update_append: "crc_Update c (xs @ ys) = crc_Update (crc_Update c xs) ys"
  by (simp add: crc_Update_def)

lemma crc_Update_inj: "crc_Update c bs = crc_Update d bs \<Longrightarrow> c = d"
proof (induction bs arbitrary: c d)
  case (Cons b bs)
  then have "crc_byte c b = crc_byte d b" using Cons.IH by (simp add: crc_Update_def)
  then have "c XOR ucast b = d XOR ucast b" unfolding crc_byte_serial by (rule crc_bits_inj)
  then show ?case by (simp add: xor_cancel)
qed (simp add: crc_Update_def)

section \<open>What it detects\<close>

text \<open>Up to four bytes as one word, least significant first.\<close>

fun le_word :: "bytes \<Rightarrow> u32" where
  "le_word [] = 0"
| "le_word (b # bs) = ucast b XOR push_bit 8 (le_word bs)"

lemma le_word_high: "8 * length bs \<le> i \<Longrightarrow> \<not> bit (le_word bs) i"
  by (induction bs arbitrary: i) (auto simp: bit_simps dest: bit_u8)

lemma crc_serial_word:
  "length bs \<le> 4 \<Longrightarrow> crc_serial c bs = (crc_bit ^^ (8 * length bs)) (c XOR le_word bs)"
proof (induction bs arbitrary: c)
  case (Cons b bs)
  have "(crc_bit ^^ 8) (push_bit 8 (le_word bs)) = drop_bit 8 (push_bit 8 (le_word bs))"
    by (rule crc_bits_shift) (simp add: bit_simps)
  also have "\<dots> = le_word bs"
  proof (rule bit_eqI)
    fix i
    show "bit (drop_bit 8 (push_bit 8 (le_word bs))) i = bit (le_word bs) i"
      using le_word_high [of bs i] Cons.prems by (cases "i < 24") (auto simp: bit_simps)
  qed
  finally have undo: "(crc_bit ^^ 8) (push_bit 8 (le_word bs)) = le_word bs" .
  have "crc_serial c (b # bs) = crc_serial ((crc_bit ^^ 8) (c XOR ucast b)) bs" by (simp add: crc_serial_def)
  also have "\<dots> = (crc_bit ^^ (8 * length bs)) ((crc_bit ^^ 8) (c XOR ucast b) XOR le_word bs)"
    using Cons by simp
  also have "\<dots> = (crc_bit ^^ (8 * length bs)) ((crc_bit ^^ 8) (c XOR ucast b XOR push_bit 8 (le_word bs)))"
    by (simp only: crc_bits_xor undo xor.assoc)
  also have "\<dots> = (crc_bit ^^ (8 * length (b # bs))) (c XOR le_word (b # bs))"
    by (simp add: xor.assoc add.commute [of 8] funpow_add)
  finally show ?case .
qed (simp add: crc_serial_def)

lemma le_word_inj: "length bs \<le> 4 \<Longrightarrow> length cs = length bs \<Longrightarrow> le_word bs = le_word cs \<Longrightarrow> bs = cs"
proof (induction bs arbitrary: cs)
  case (Cons b bs)
  then obtain c ds where cs: "cs = c # ds" by (cases cs) auto
  have eq: "bit (ucast b XOR push_bit 8 (le_word bs)) i = bit (ucast c XOR push_bit 8 (le_word ds)) i" for i
    using Cons.prems(3) cs by simp
  have "b = c"
  proof (rule bit_word_eqI)
    fix i assume "i < LENGTH(8)"
    then show "bit b i = bit c i" using eq [of i] by (simp add: bit_simps)
  qed
  moreover have "le_word bs = le_word ds"
  proof (rule bit_eqI)
    fix i
    show "bit (le_word bs) i = bit (le_word ds) i"
      using eq [of "i + 8"] le_word_high [of bs i] le_word_high [of ds i] Cons.prems cs
      by (cases "i < 24") (auto simp: bit_simps dest: bit_u8)
  qed
  ultimately show ?case using Cons cs by simp
qed simp

text \<open>Damage within four consecutive bytes always changes the checksum.\<close>

lemma crc_detects_burst:
  assumes "length w \<le> 4" "length w' = length w" "w \<noteq> w'"
  shows "crc_Value (crc_Update c (xs @ w @ ys)) \<noteq> crc_Value (crc_Update c (xs @ w' @ ys))"
proof
  assume "crc_Value (crc_Update c (xs @ w @ ys)) = crc_Value (crc_Update c (xs @ w' @ ys))"
  then have "crc_Update (crc_Update c (xs @ w)) ys = crc_Update (crc_Update c (xs @ w')) ys"
    by (simp add: crc_Value_def crc_Update_append [symmetric])
  then have "crc_Update (crc_Update c xs) w = crc_Update (crc_Update c xs) w'"
    using crc_Update_inj by (simp add: crc_Update_append)
  then have "crc_Update c xs XOR le_word w = crc_Update c xs XOR le_word w'"
    using assms crc_bits_inj [of "8 * length w" "crc_Update c xs XOR le_word w" "crc_Update c xs XOR le_word w'"]
    by (simp add: crc_Update_serial [of _ w] crc_Update_serial [of _ w'] crc_serial_word)
  then have "le_word w = le_word w'" by (simp add: xor_cancel)
  then show False using le_word_inj [of w w'] assms by simp
qed

end
