(* ===== verification/SafeName.thy ===== *)
theory SafeName
  imports Text WireSafety
begin

text \<open>
  The names under which received files are stored (\<open>src/core/src/transfer/SafeName.cpp\<close>).
  The predicate that asks whether a name exists is a parameter; \<open>None\<close> is an empty
  \<open>std::function\<close>. The file's own copy of \<open>Utf8TruncLen\<close> is the one of the wire protocol.
\<close>

definition kMaxSafeNameBytes :: nat where [kconsts]: "kMaxSafeNameBytes = 255"
definition kMaxSafeNameAttempts :: nat where [kconsts]: "kMaxSafeNameAttempts = 1000"
definition kIllegalOnWindows :: bytes where "kIllegalOnWindows = bytes_of ''<>:'' @ [0x22] @ bytes_of ''|?*''"
definition kMaxPreservedExtension :: nat where [kconsts]: "kMaxPreservedExtension = 32"

definition kReservedStems :: "bytes list" where
  "kReservedStems = map bytes_of [''con'', ''prn'', ''aux'', ''nul'', ''conin$'', ''conout$'']"

definition kReservedPrefixes :: "bytes list" where
  "kReservedPrefixes = map bytes_of [''com'', ''lpt'']"

definition kReservedPrefixLength :: nat where [kconsts]: "kReservedPrefixLength = 3"

definition kSuperscriptDigits :: "bytes list" where
  "kSuperscriptDigits = [[0xC2, 0xB9], [0xC2, 0xB2], [0xC2, 0xB3]]"

text \<open>The index of the last occurrence (\<open>find_last_of\<close>).\<close>

definition find_last :: "('a \<Rightarrow> bool) \<Rightarrow> 'a list \<Rightarrow> nat option" where
  "find_last p s = (if list_ex p s then Some (length s - 1 - length (takeWhile (\<lambda>c. \<not> p c) (rev s))) else None)"

definition is_separator :: "u8 \<Rightarrow> bool" where
  "is_separator c \<longleftrightarrow> c = 0x2F \<or> c = 0x5C"

definition BaseName :: "bytes \<Rightarrow> bytes" where
  "BaseName name = (case find_last is_separator name of None \<Rightarrow> name | Some at \<Rightarrow> drop (at + 1) name)"

fun ScrubBytes :: "bytes \<Rightarrow> bytes" where
  "ScrubBytes [] = []"
| "ScrubBytes (c # cs) =
     (if c < 0x20 \<or> c = 0x7F then ScrubBytes cs
      else (if c \<notin> set kIllegalOnWindows then c else 0x5F) # ScrubBytes cs)"

definition is_dot_or_space :: "u8 \<Rightarrow> bool" where
  "is_dot_or_space c \<longleftrightarrow> c = 0x2E \<or> c = 0x20"

definition StripTrailingDotsAndSpaces :: "bytes \<Rightarrow> bytes" where
  "StripTrailingDotsAndSpaces name = rev (dropWhile is_dot_or_space (rev name))"

definition LowerAscii :: "bytes \<Rightarrow> bytes" where
  "LowerAscii text = map (\<lambda>c. if 0x41 \<le> c \<and> c \<le> 0x5A then c + 0x20 else c) text"

definition StemLength :: "bytes \<Rightarrow> nat" where
  "StemLength name = length (takeWhile (\<lambda>c. c \<noteq> 0x2E) name)"

definition IsPortNumber :: "bytes \<Rightarrow> bool" where
  "IsPortNumber s = (if length s = 1 then is_digit (hd s) else s \<in> set kSuperscriptDigits)"

definition IsReservedDeviceName :: "bytes \<Rightarrow> bool" where
  "IsReservedDeviceName name =
     (let stem = rev (dropWhile (\<lambda>c. c = 0x20) (rev (LowerAscii (take (StemLength name) name)))) in
      if stem \<in> set kReservedStems then True
      else if length stem \<le> kReservedPrefixLength then False
      else if take kReservedPrefixLength stem \<notin> set kReservedPrefixes then False
      else IsPortNumber (drop kReservedPrefixLength stem))"

definition ExtensionOf :: "bytes \<Rightarrow> bytes" where
  "ExtensionOf name =
     (case find_last (\<lambda>c. c = 0x2E) name of
        None \<Rightarrow> []
      | Some dot \<Rightarrow> if dot = 0 then []
          else let ext = drop dot name in if length ext \<le> kMaxPreservedExtension then ext else [])"

definition Shorten :: "bytes \<Rightarrow> bytes" where
  "Shorten name =
     (if length name \<le> kMaxSafeNameBytes then name
      else let ext = ExtensionOf name;
               stem = take (length name - length ext) name;
               room = kMaxSafeNameBytes - length ext;
               keep = Utf8TruncLen stem room
           in if keep = 0 then take (Utf8TruncLen name kMaxSafeNameBytes) name
              else take keep stem @ ext)"

definition dot_name :: "bytes \<Rightarrow> bool" where
  "dot_name s \<longleftrightarrow> s = [] \<or> s = [0x2E] \<or> s = [0x2E, 0x2E]"

definition SafeFileName :: "bytes \<Rightarrow> bytes" where
  "SafeFileName name =
     (let out = StripTrailingDotsAndSpaces (ScrubBytes (BaseName name)) in
      if dot_name out then []
      else let out = (if IsReservedDeviceName out then 0x5F # out else out);
               out = StripTrailingDotsAndSpaces (Shorten out)
           in if dot_name out then [] else out)"

definition numbered :: "bytes \<Rightarrow> bytes \<Rightarrow> nat \<Rightarrow> bytes" where
  "numbered stem ext n =
     (let suffix = [0x20, 0x28] @ to_string (int n) @ [0x29];
          room = kMaxSafeNameBytes - length ext - length suffix
      in take (Utf8TruncLen stem room) stem @ suffix @ ext)"

function unique_from :: "(bytes \<Rightarrow> bool) \<Rightarrow> bytes \<Rightarrow> bytes \<Rightarrow> nat \<Rightarrow> bytes" where
  "unique_from taken stem ext n =
     (if n \<le> kMaxSafeNameAttempts
      then (if \<not> taken (numbered stem ext n) then numbered stem ext n else unique_from taken stem ext (n + 1))
      else [])"
  by auto
termination
  by (relation "measure (\<lambda>(_, _, _, n). Suc kMaxSafeNameAttempts - n)") auto

declare unique_from.simps [simp del]

definition UniqueFileName :: "bytes \<Rightarrow> (bytes \<Rightarrow> bool) option \<Rightarrow> bytes" where
  "UniqueFileName safeName taken =
     (case taken of
        None \<Rightarrow> safeName
      | Some taken \<Rightarrow>
          if safeName = [] \<or> \<not> taken safeName then safeName
          else let ext = ExtensionOf safeName;
                   stem = take (length safeName - length ext) safeName
               in unique_from taken stem ext 2)"

section \<open>What a safe name is\<close>

definition name_byte :: "u8 \<Rightarrow> bool" where
  "name_byte c \<longleftrightarrow> printable c \<and> \<not> is_separator c \<and> c \<notin> set kIllegalOnWindows"

definition safe_name :: "bytes \<Rightarrow> bool" where
  "safe_name s \<longleftrightarrow> s \<noteq> [] \<and> length s \<le> kMaxSafeNameBytes \<and> (\<forall>c\<in>set s. name_byte c) \<and> \<not> is_dot_or_space (last s)"

lemma takeWhile_rev_set: "x \<in> set (drop (length s - length (takeWhile p (rev s))) s) \<Longrightarrow> p x"
proof -
  have "drop (length s - length (takeWhile p (rev s))) s = rev (takeWhile p (rev s))"
    by (metis rev_rev_ident rev_take takeWhile_eq_take length_rev)
  then show "x \<in> set (drop (length s - length (takeWhile p (rev s))) s) \<Longrightarrow> p x"
    by (auto dest: set_takeWhileD)
qed

lemma BaseName_separators: "c \<in> set (BaseName s) \<Longrightarrow> \<not> is_separator c"
proof (cases "list_ex is_separator s")
  case True
  let ?t = "takeWhile (\<lambda>c. \<not> is_separator c) (rev s)"
  have "length ?t < length s"
  proof (rule ccontr)
    assume "\<not> length ?t < length s"
    then have "?t = rev s" using length_takeWhile_le [of _ "rev s"] by (metis length_rev not_less take_all takeWhile_eq_take)
    then have "\<forall>c\<in>set (rev s). \<not> is_separator c" by (metis set_takeWhileD)
    then show False using True by (simp add: list_ex_iff)
  qed
  then have "length s - 1 - length ?t + 1 = length s - length ?t" by simp
  moreover assume "c \<in> set (BaseName s)"
  ultimately show ?thesis using True takeWhile_rev_set [of c s] by (simp add: BaseName_def find_last_def)
qed (simp add: BaseName_def find_last_def list_ex_iff)

lemma length_BaseName: "length (BaseName s) \<le> length s"
  by (simp add: BaseName_def split: option.splits)

lemma Scrub_bytes: "c \<in> set (ScrubBytes s) \<Longrightarrow> printable c \<and> c \<notin> set kIllegalOnWindows \<and> (c \<in> set s \<or> c = 0x5F)"
  by (induction s rule: ScrubBytes.induct) (auto simp: printable_def kIllegalOnWindows_def bytes_of_def split: if_splits)

lemma length_Scrub: "length (ScrubBytes s) \<le> length s"
  by (induction s rule: ScrubBytes.induct) auto

lemma Scrub_id: "\<forall>c\<in>set s. name_byte c \<Longrightarrow> ScrubBytes s = s"
  by (induction s) (auto simp: name_byte_def printable_def)

lemma set_Strip: "set (StripTrailingDotsAndSpaces s) \<subseteq> set s"
  by (auto simp: StripTrailingDotsAndSpaces_def dest: set_dropWhileD)

lemma length_Strip: "length (StripTrailingDotsAndSpaces s) \<le> length s"
  unfolding StripTrailingDotsAndSpaces_def using length_dropWhile_le [of is_dot_or_space "rev s"] by simp

lemma Strip_last: "StripTrailingDotsAndSpaces s \<noteq> [] \<Longrightarrow> \<not> is_dot_or_space (last (StripTrailingDotsAndSpaces s))"
  unfolding StripTrailingDotsAndSpaces_def by (simp add: last_rev hd_dropWhile)

lemma Strip_id: "\<not> is_dot_or_space (last s) \<Longrightarrow> StripTrailingDotsAndSpaces s = s"
  by (cases s rule: rev_cases) (simp_all add: StripTrailingDotsAndSpaces_def)

lemma Strip_prefix: "\<exists>t. s = StripTrailingDotsAndSpaces s @ t"
  by (metis StripTrailingDotsAndSpaces_def rev_append rev_rev_ident takeWhile_dropWhile_id)

lemma ExtensionOf_suffix: "\<exists>t. s = t @ ExtensionOf s \<and> length (ExtensionOf s) \<le> 32"
  by (auto simp: ExtensionOf_def Let_def kMaxPreservedExtension_def split: option.splits)
    (metis append_take_drop_id)+

lemma set_Shorten: "set (Shorten s) \<subseteq> set s"
  using ExtensionOf_suffix [of s]
  by (auto simp: Shorten_def Let_def split: if_splits dest!: in_set_takeD) (metis UnI2 set_append)

lemma length_Shorten: "length (Shorten s) \<le> kMaxSafeNameBytes"
proof -
  obtain t where t: "s = t @ ExtensionOf s" and short: "length (ExtensionOf s) \<le> 32" using ExtensionOf_suffix by blast
  let ?stem = "take (length s - length (ExtensionOf s)) s"
  have "Utf8TruncLen ?stem (kMaxSafeNameBytes - length (ExtensionOf s)) \<le> kMaxSafeNameBytes - length (ExtensionOf s)"
    "Utf8TruncLen s kMaxSafeNameBytes \<le> kMaxSafeNameBytes" by (rule Utf8TruncLen_le)+
  then show ?thesis using short by (auto simp: Shorten_def Let_def kMaxSafeNameBytes_def simp del: take_take)
qed

lemma SafeFileName_safe: "SafeFileName s \<noteq> [] \<Longrightarrow> safe_name (SafeFileName s)"
proof -
  assume ne: "SafeFileName s \<noteq> []"
  let ?b = "StripTrailingDotsAndSpaces (ScrubBytes (BaseName s))"
  let ?c = "if IsReservedDeviceName ?b then 0x5F # ?b else ?b"
  have out: "SafeFileName s = StripTrailingDotsAndSpaces (Shorten ?c)"
    using ne by (auto simp: SafeFileName_def Let_def split: if_splits)
  have under: "name_byte 0x5F" by (simp add: name_byte_def printable_def is_separator_def kIllegalOnWindows_def bytes_of_def)
  have "name_byte c" if "c \<in> set ?b" for c
    using that set_Strip [of "ScrubBytes (BaseName s)"] Scrub_bytes [of c "BaseName s"] BaseName_separators [of c s] under
    by (auto simp: name_byte_def)
  then have "\<forall>c\<in>set ?c. name_byte c" using under by auto
  then have "\<forall>c\<in>set (SafeFileName s). name_byte c"
    unfolding out using set_Strip [of "Shorten ?c"] set_Shorten [of ?c] by blast
  moreover have "length (SafeFileName s) \<le> kMaxSafeNameBytes"
    unfolding out using length_Strip [of "Shorten ?c"] length_Shorten [of ?c] by linarith
  ultimately show ?thesis using ne Strip_last [of "Shorten ?c"] by (simp add: safe_name_def out)
qed

lemma safe_name_legal: "safe_name s \<Longrightarrow> IsWireLegalFileName s"
proof -
  assume s: "safe_name s"
  have dots: "bytes_of ''.'' = [0x2E]" "bytes_of ''..'' = [0x2E, 0x2E]" by (simp_all add: bytes_of_def)
  have "s \<noteq> [0x2E]" "s \<noteq> [0x2E, 0x2E]" using s by (auto simp: safe_name_def is_dot_or_space_def)
  moreover have "\<not> (c < 0x20 \<or> c = 0x7F) \<and> \<not> (c = 0x2F \<or> c = 0x5C)" if "c \<in> set s" for c
  proof -
    have "name_byte c" using s that by (simp add: safe_name_def)
    then show ?thesis using leD unfolding name_byte_def printable_def is_separator_def by blast
  qed
  ultimately show ?thesis using s
    unfolding IsWireLegalFileName_def dots safe_name_def kMaxSafeNameBytes_def kMaxTransferNameBytes_def by blast
qed

text \<open>A name that starts with an underscore is no device.\<close>

lemma under_not_reserved: "\<not> IsReservedDeviceName (0x5F # s)"
proof -
  let ?stem = "rev (dropWhile (\<lambda>c. c = 0x20) (rev (LowerAscii (take (StemLength (0x5F # s)) (0x5F # s)))))"
  have "LowerAscii (take (StemLength (0x5F # s)) (0x5F # s)) = 0x5F # LowerAscii (take (StemLength s) s)"
    by (simp add: LowerAscii_def StemLength_def)
  then have "?stem = rev (dropWhile (\<lambda>c. c = 0x20) (rev (LowerAscii (take (StemLength s) s)) @ [0x5F]))" by simp
  also have "\<dots> \<noteq> [] \<and> hd \<dots> = 0x5F" by (auto simp: dropWhile_append hd_rev)
  finally obtain r where r: "?stem = 0x5F # r" by (cases ?stem) auto
  show ?thesis unfolding IsReservedDeviceName_def Let_def r
    by (simp add: kReservedStems_def kReservedPrefixes_def kReservedPrefixLength_def bytes_of_def)
qed

lemma hd_Shorten: "Shorten (x # s) \<noteq> [] \<Longrightarrow> hd (Shorten (x # s)) = x"
proof -
  assume ne: "Shorten (x # s) \<noteq> []"
  let ?ext = "ExtensionOf (x # s)"
  let ?stem = "take (length (x # s) - length ?ext) (x # s)"
  let ?keep = "Utf8TruncLen ?stem (kMaxSafeNameBytes - length ?ext)"
  have stem: "hd (take k (take m (x # s)) @ e) = x" if "0 < k" "k \<le> length (take m (x # s))" for k m e
    using that by (cases k; cases m) auto
  have cut: "take n (x # s) \<noteq> [] \<Longrightarrow> hd (take n (x # s)) = x" for n by (cases n) auto
  show ?thesis
  proof (cases "length (x # s) \<le> kMaxSafeNameBytes \<or> ?keep = 0")
    case True
    then show ?thesis using ne cut by (auto simp: Shorten_def Let_def)
  next
    case False
    then have "Shorten (x # s) = take ?keep ?stem @ ?ext" by (simp add: Shorten_def Let_def)
    also have "hd \<dots> = x" using False by (intro stem Utf8TruncLen_le(2)) simp
    finally show ?thesis .
  qed
qed

lemma hd_Strip: "StripTrailingDotsAndSpaces s \<noteq> [] \<Longrightarrow> hd (StripTrailingDotsAndSpaces s) = hd s"
  using Strip_prefix [of s] by (metis hd_append2)

text \<open>What stays within the limit cannot turn into a device name when it is shortened: it is not shortened.\<close>

lemma SafeFileName_not_reserved:
  assumes "length s \<le> kMaxSafeNameBytes" "SafeFileName s \<noteq> []"
  shows "\<not> IsReservedDeviceName (SafeFileName s)"
proof -
  let ?b = "StripTrailingDotsAndSpaces (ScrubBytes (BaseName s))"
  have short: "length ?b \<le> kMaxSafeNameBytes"
    using length_Strip [of "ScrubBytes (BaseName s)"] length_Scrub [of "BaseName s"] length_BaseName [of s] assms(1) by linarith
  have ne: "?b \<noteq> []" using assms(2) by (auto simp: SafeFileName_def dot_name_def)
  show ?thesis
  proof (cases "IsReservedDeviceName ?b")
    case True
    then have out: "SafeFileName s = StripTrailingDotsAndSpaces (Shorten (0x5F # ?b))"
      using assms(2) by (auto simp: SafeFileName_def Let_def split: if_splits)
    then have "Shorten (0x5F # ?b) \<noteq> []" using assms(2) by (auto simp: StripTrailingDotsAndSpaces_def)
    then have "hd (SafeFileName s) = 0x5F" using hd_Strip [of "Shorten (0x5F # ?b)"] hd_Shorten assms(2) unfolding out by metis
    then obtain t where "SafeFileName s = 0x5F # t" using assms(2) by (cases "SafeFileName s") auto
    then show ?thesis using under_not_reserved by simp
  next
    case False
    have "SafeFileName s = StripTrailingDotsAndSpaces ?b"
      using assms(2) False short by (auto simp: SafeFileName_def Let_def Shorten_def split: if_splits)
    also have "\<dots> = ?b" by (rule Strip_id) (rule Strip_last [OF ne])
    finally show ?thesis using False by simp
  qed
qed

text \<open>
  A longer name can: \<open>Shorten\<close> cuts it back to the device name it began with, after the only check.
\<close>

lemma SafeFileName_cut_to_device:
  "SafeFileName (bytes_of ''con'' @ replicate 253 0x20 @ bytes_of ''a'') = bytes_of ''con'' \<and> IsReservedDeviceName (bytes_of ''con'')"
  by (intro conjI; code_simp)

text \<open>A safe name that is no device is left alone.\<close>

lemma SafeFileName_id:
  assumes "safe_name s" "\<not> IsReservedDeviceName s"
  shows "SafeFileName s = s"
proof -
  have "BaseName s = s" using assms(1) by (auto simp: BaseName_def find_last_def safe_name_def name_byte_def list_ex_iff)
  moreover have "ScrubBytes s = s" using assms(1) by (intro Scrub_id) (simp add: safe_name_def)
  moreover have "StripTrailingDotsAndSpaces s = s" using assms(1) by (intro Strip_id) (simp add: safe_name_def)
  moreover have "\<not> dot_name s" using assms(1) by (auto simp: dot_name_def safe_name_def is_dot_or_space_def)
  ultimately show ?thesis using assms by (simp add: SafeFileName_def Shorten_def Let_def safe_name_def)
qed

section \<open>Names that are free\<close>

lemma unique_from_unfold:
  "unique_from taken stem ext n = (if n \<le> kMaxSafeNameAttempts
     then (if \<not> taken (numbered stem ext n) then numbered stem ext n else unique_from taken stem ext (n + 1)) else [])"
  by (rule unique_from.simps)

lemma unique_from_free: "unique_from taken stem ext n \<noteq> [] \<Longrightarrow> \<not> taken (unique_from taken stem ext n)"
proof (induction taken stem ext n rule: unique_from.induct)
  case (1 taken stem ext n)
  then show ?case using unique_from_unfold [of taken stem ext n] by (auto split: if_splits)
qed

lemma unique_from_numbered:
  "unique_from taken stem ext n \<noteq> [] \<Longrightarrow> \<exists>k. n \<le> k \<and> k \<le> kMaxSafeNameAttempts \<and> unique_from taken stem ext n = numbered stem ext k"
proof (induction taken stem ext n rule: unique_from.induct)
  case (1 taken stem ext n)
  show ?case
  proof (cases "n \<le> kMaxSafeNameAttempts \<and> taken (numbered stem ext n)")
    case True
    then have "unique_from taken stem ext n = unique_from taken stem ext (n + 1)" by (subst unique_from.simps) simp
    then show ?thesis using 1 True by (metis Suc_eq_plus1 Suc_leD)
  next
    case False
    then have "unique_from taken stem ext n = (if n \<le> kMaxSafeNameAttempts then numbered stem ext n else [])"
      by (subst unique_from.simps) simp
    then show ?thesis using "1.prems" by (auto split: if_splits)
  qed
qed

lemma numbered_ne: "numbered stem ext n \<noteq> []"
  by (simp add: numbered_def Let_def)

lemma unique_from_none: "unique_from taken stem ext n = [] \<Longrightarrow> n \<le> k \<Longrightarrow> k \<le> kMaxSafeNameAttempts \<Longrightarrow> taken (numbered stem ext k)"
proof (induction taken stem ext n rule: unique_from.induct)
  case (1 taken stem ext n)
  have u: "unique_from taken stem ext n = (if n \<le> kMaxSafeNameAttempts
      then (if \<not> taken (numbered stem ext n) then numbered stem ext n else unique_from taken stem ext (n + 1)) else [])"
    by (rule unique_from.simps)
  have n: "n \<le> kMaxSafeNameAttempts" using "1.prems" by simp
  then have t: "taken (numbered stem ext n)" "unique_from taken stem ext (n + 1) = []"
    using "1.prems"(1) u numbered_ne [of stem ext n] by (auto split: if_splits)
  show ?case
  proof (cases "k = n")
    case False
    then show ?thesis using "1.IH" [OF n _ t(2)] t(1) "1.prems" by simp
  qed (simp add: t)
qed

lemma length_suffix: "n \<le> kMaxSafeNameAttempts \<Longrightarrow> length ([0x20, 0x28] @ to_string (int n) @ [0x29 :: u8]) \<le> 7"
  using length_dec [of 4 n] by (simp add: to_string_def kMaxSafeNameAttempts_def)

lemma name_byte_digit: "is_digit c \<Longrightarrow> name_byte c"
  by (auto simp: is_digit_def name_byte_def printable_def is_separator_def kIllegalOnWindows_def bytes_of_def word_le_nat_alt)

lemma numbered_safe:
  assumes "safe_name s" "n \<le> kMaxSafeNameAttempts"
  shows "length (numbered (take (length s - length (ExtensionOf s)) s) (ExtensionOf s) n) \<le> kMaxSafeNameBytes
    \<and> (\<forall>c\<in>set (numbered (take (length s - length (ExtensionOf s)) s) (ExtensionOf s) n). name_byte c)"
proof -
  obtain t where t: "s = t @ ExtensionOf s" and short: "length (ExtensionOf s) \<le> 32" using ExtensionOf_suffix by blast
  let ?stem = "take (length s - length (ExtensionOf s)) s"
  let ?suffix = "[0x20, 0x28] @ to_string (int n) @ [0x29 :: u8]"
  let ?room = "kMaxSafeNameBytes - length (ExtensionOf s) - length ?suffix"
  have suffix: "length ?suffix \<le> 7" using assms(2) by (rule length_suffix)
  have "length (take (Utf8TruncLen ?stem ?room) ?stem) \<le> ?room" using Utf8TruncLen_le(1) [of ?stem ?room] by simp
  then have len: "length (numbered ?stem (ExtensionOf s) n) \<le> kMaxSafeNameBytes"
    using suffix short unfolding numbered_def Let_def length_append kMaxSafeNameBytes_def by linarith
  have "name_byte 0x20" "name_byte 0x28" "name_byte 0x29"
    by (simp_all add: name_byte_def printable_def is_separator_def kIllegalOnWindows_def bytes_of_def)
  moreover have "name_byte c" if "c \<in> set (to_string (int n))" for c
    using that dec_digits [of c n] name_byte_digit by (simp add: to_string_def)
  moreover have "name_byte c" if "c \<in> set s" for c using that assms(1) by (simp add: safe_name_def)
  moreover have "set (ExtensionOf s) \<subseteq> set s" by (metis t set_append sup_ge2)
  ultimately show ?thesis using len
    by (auto simp: numbered_def Let_def dest!: in_set_takeD)
qed

end
