(* ===== verification/Clipboard.thy ===== *)
theory Clipboard
  imports WireRoundtrip Component
begin

text \<open>
  \<open>core/src/session/ClipboardSync.cpp\<close>: the text of one clipboard offered to the other side in
  numbered chunks, sent several times because datagrams may be lost, and put together again there.
  The send callback is the list of datagrams; \<open>canSend\<close> tells whether it was set at all.
\<close>

definition kClipboardResendCount :: u32 where [kconsts]: "kClipboardResendCount = 2"
definition kClipboardResendIntervalUs :: u64 where [kconsts]: "kClipboardResendIntervalUs = 60000"

record ClipboardSync =
  cs_outgoing :: bytes
  cs_revision :: u32
  cs_sendsLeft :: u32
  cs_lastSendUs :: u64
  cs_lastSentHash :: u64
  cs_lastAppliedHash :: u64
  cs_haveSentHash :: bool
  cs_haveAppliedHash :: bool
  cs_inRevision :: u32
  cs_lastTakenRevision :: u32
  cs_haveTakenRevision :: bool
  cs_inChunks :: "bytes list"
  cs_inReceived :: nat
  cs_completed :: "bytes option"
  cs_sessionId :: u32

definition cs_init :: ClipboardSync where
  "cs_init = \<lparr>cs_outgoing = [], cs_revision = 0, cs_sendsLeft = 0, cs_lastSendUs = 0, cs_lastSentHash = 0,
     cs_lastAppliedHash = 0, cs_haveSentHash = False, cs_haveAppliedHash = False, cs_inRevision = 0,
     cs_lastTakenRevision = 0, cs_haveTakenRevision = False, cs_inChunks = [], cs_inReceived = 0,
     cs_completed = None, cs_sessionId = 0\<rparr>"

definition cs_SetSessionId :: "ClipboardSync \<Rightarrow> u32 \<Rightarrow> ClipboardSync" where
  "cs_SetSessionId s sid = s\<lparr>cs_sessionId := sid\<rparr>"

definition HashText :: "bytes \<Rightarrow> u64" where
  "HashText text = foldl (\<lambda>h c. (h XOR ucast c) * 1099511628211) 14695981039346656037 text"

definition cs_OfferLocal :: "ClipboardSync \<Rightarrow> bytes \<Rightarrow> bool \<times> ClipboardSync" where
  "cs_OfferLocal s text =
     (let bounded = TruncateClipboardText text; hash = HashText bounded in
      if bounded = [] then (False, s)
      else if cs_haveSentHash s \<and> hash = cs_lastSentHash s then (False, s)
      else if cs_haveAppliedHash s \<and> hash = cs_lastAppliedHash s then (False, s)
      else (True, s\<lparr>cs_outgoing := bounded, cs_revision := cs_revision s + 1,
                    cs_sendsLeft := 1 + kClipboardResendCount, cs_lastSentHash := hash, cs_haveSentHash := True\<rparr>))"

definition chunk_count :: "bytes \<Rightarrow> nat" where
  "chunk_count text = (length text + kMaxClipboardChunkPayload - 1) div kMaxClipboardChunkPayload"

definition chunk_at :: "ClipboardSync \<Rightarrow> nat \<Rightarrow> ClipboardChunkView" where
  "chunk_at s i =
     (let offset = i * kMaxClipboardChunkPayload;
          len = min kMaxClipboardChunkPayload (length (cs_outgoing s) - offset)
      in \<lparr>cb_revision = cs_revision s, cb_chunkIndex = of_nat i,
          cb_chunkCount = of_nat (chunk_count (cs_outgoing s)),
          cb_payload = take len (drop offset (cs_outgoing s))\<rparr>)"

fun send_chunks :: "ClipboardSync \<Rightarrow> nat list \<Rightarrow> bytes list" where
  "send_chunks s [] = []"
| "send_chunks s (i # is) =
     (let d = BuildClipboardChunk kMaxDatagram (cs_sessionId s) (chunk_at s i)
      in if d = [] then [] else d # send_chunks s is)"

definition cs_SendAllChunks :: "ClipboardSync \<Rightarrow> bytes list" where
  "cs_SendAllChunks s = send_chunks s [0..<chunk_count (cs_outgoing s)]"

definition cs_Flush :: "ClipboardSync \<Rightarrow> u64 \<Rightarrow> bool \<Rightarrow> ClipboardSync \<times> bytes list" where
  "cs_Flush s nowUs canSend =
     (if cs_sendsLeft s = 0 \<or> cs_outgoing s = [] \<or> \<not> canSend then (s, [])
      else if cs_sendsLeft s \<le> kClipboardResendCount \<and> nowUs - cs_lastSendUs s < kClipboardResendIntervalUs
      then (s, [])
      else let s = s\<lparr>cs_sendsLeft := cs_sendsLeft s - 1, cs_lastSendUs := nowUs\<rparr> in (s, cs_SendAllChunks s))"

text \<open>A chunk of another text starts the reception afresh.\<close>

definition accept_reset :: "ClipboardSync \<Rightarrow> ClipboardChunkView \<Rightarrow> ClipboardSync" where
  "accept_reset s chunk =
     (if cb_revision chunk \<noteq> cs_inRevision s \<or> unat (cb_chunkCount chunk) \<noteq> length (cs_inChunks s)
      then s\<lparr>cs_inRevision := cb_revision chunk,
             cs_inChunks := replicate (unat (cb_chunkCount chunk)) [], cs_inReceived := 0\<rparr>
      else s)"

definition accept_complete :: "ClipboardSync \<Rightarrow> bool \<times> ClipboardSync" where
  "accept_complete s =
     (if cs_inReceived s < length (cs_inChunks s) then (False, s)
      else let bounded = TruncateClipboardText (concat (cs_inChunks s)) in
        if bounded = [] then (False, s)
        else (True, s\<lparr>cs_lastTakenRevision := cs_inRevision s, cs_haveTakenRevision := True,
                      cs_lastAppliedHash := HashText bounded, cs_haveAppliedHash := True,
                      cs_completed := Some bounded, cs_inChunks := [], cs_inReceived := 0\<rparr>))"

definition accept_store :: "ClipboardSync \<Rightarrow> ClipboardChunkView \<Rightarrow> (bool \<times> ClipboardSync) checked" where
  "accept_store s chunk = do {
     slot \<leftarrow> vec_at (cs_inChunks s) (unat (cb_chunkIndex chunk));
     if slot \<noteq> [] then Some (False, s)
     else if cb_payload chunk = [] then Some (False, s)
     else Some (accept_complete
       (s\<lparr>cs_inChunks := (cs_inChunks s)[unat (cb_chunkIndex chunk) := cb_payload chunk],
          cs_inReceived := cs_inReceived s + 1\<rparr>))
   }"

definition cs_Accept :: "ClipboardSync \<Rightarrow> ClipboardChunkView \<Rightarrow> (bool \<times> ClipboardSync) checked" where
  "cs_Accept s chunk =
     (if cs_haveTakenRevision s \<and> cb_revision chunk \<le> cs_lastTakenRevision s then Some (False, s)
      else accept_store (accept_reset s chunk) chunk)"

definition cs_TakeCompleted :: "ClipboardSync \<Rightarrow> bytes option \<times> ClipboardSync" where
  "cs_TakeCompleted s = (cs_completed s, s\<lparr>cs_completed := None\<rparr>)"

definition cs_ForgetReceived :: "ClipboardSync \<Rightarrow> ClipboardSync" where
  "cs_ForgetReceived s =
     s\<lparr>cs_inRevision := 0, cs_haveTakenRevision := False, cs_inChunks := [], cs_inReceived := 0, cs_completed := None\<rparr>"

definition cs_Reset :: "ClipboardSync \<Rightarrow> ClipboardSync" where
  "cs_Reset s =
     cs_ForgetReceived (s\<lparr>cs_outgoing := [], cs_revision := 0, cs_sendsLeft := 0, cs_lastSendUs := 0,
                          cs_haveSentHash := False, cs_haveAppliedHash := False\<rparr>)"

section \<open>Chunks of a text\<close>

abbreviation (input) chunk_bytes :: "bytes \<Rightarrow> nat \<Rightarrow> bytes" where
  "chunk_bytes text i \<equiv> take 1184 (drop (i * 1184) text)"

lemma clip_pieces: "concat (map (\<lambda>i. take P (drop (i * P) t)) [0..<n]) = take (n * P) t"
proof (induction n)
  case (Suc n)
  have "take (Suc n * P) t = take (n * P) t @ take P (drop (n * P) t)"
    by (simp add: take_add [symmetric] add.commute)
  then show ?case using Suc by simp
qed simp

lemma chunk_count_bounds:
  assumes "text \<noteq> []" "length text \<le> kMaxClipboardTextBytes"
  shows "0 < chunk_count text" "chunk_count text \<le> kMaxClipboardChunks"
    "length text \<le> chunk_count text * 1184" "(chunk_count text - 1) * 1184 < length text"
proof -
  have "0 < length text" "length text \<le> 32768" using assms by (simp_all add: kMaxClipboardTextBytes_def)
  moreover have "chunk_count text * 1184 + (length text + 1183) mod 1184 = length text + 1183"
    using div_mult_mod_eq [of "length text + 1183" 1184] by (simp add: chunk_count_def kconsts add.commute)
  moreover have "(length text + 1183) mod 1184 < 1184" by simp
  ultimately show "0 < chunk_count text" "chunk_count text \<le> kMaxClipboardChunks"
    "length text \<le> chunk_count text * 1184" "(chunk_count text - 1) * 1184 < length text"
    unfolding kconsts by linarith+
qed

lemma chunk_bytes_ne:
  assumes "text \<noteq> []" "length text \<le> kMaxClipboardTextBytes" "i < chunk_count text"
  shows "chunk_bytes text i \<noteq> []"
proof -
  have "i * 1184 \<le> (chunk_count text - 1) * 1184" using assms(3) by simp
  then have "i * 1184 < length text" using chunk_count_bounds(4) [OF assms(1,2)] by linarith
  then show ?thesis by simp
qed

lemma concat_chunks: "text \<noteq> [] \<Longrightarrow> length text \<le> kMaxClipboardTextBytes \<Longrightarrow>
    concat (map (chunk_bytes text) [0..<chunk_count text]) = text"
  using chunk_count_bounds(3) [of "text"] by (simp add: clip_pieces)

lemma Truncate_short: "length text \<le> kMaxClipboardTextBytes \<Longrightarrow> TruncateClipboardText text = text"
  by (simp add: TruncateClipboardText_def Utf8TruncLen_def)

lemma length_Truncate: "length (TruncateClipboardText text) \<le> kMaxClipboardTextBytes"
  using Utf8TruncLen_le(1) [of "text" kMaxClipboardTextBytes] by (simp add: TruncateClipboardText_def)

text \<open>A clipboard that has offered a text is ready to send all of it.\<close>

definition cs_inv :: "ClipboardSync \<Rightarrow> bool" where
  "cs_inv s \<longleftrightarrow> length (cs_outgoing s) \<le> kMaxClipboardTextBytes \<and> length (cs_inChunks s) \<le> kMaxClipboardChunks
     \<and> (\<forall>t. cs_completed s = Some t \<longrightarrow> t \<noteq> [] \<and> length t \<le> kMaxClipboardTextBytes)
     \<and> cs_sendsLeft s \<le> 1 + kClipboardResendCount"

lemma SendAllChunks_parsed:
  assumes "cs_inv s" "cs_outgoing s \<noteq> []"
  shows "map (parse_with (\<lambda>_. ParseClipboardChunk)) (cs_SendAllChunks s)
    = map (\<lambda>i. some_opt (hdr MsgClipboard 0 ChanControl (cs_sessionId s), chunk_at s i)) [0..<chunk_count (cs_outgoing s)]"
proof -
  let ?n = "chunk_count (cs_outgoing s)"
  have n: "?n \<le> 28" using chunk_count_bounds(2) [OF assms(2)] assms(1) by (simp add: cs_inv_def kconsts)
  have built: "BuildClipboardChunk kMaxDatagram (cs_sessionId s) (chunk_at s i) \<noteq> []" if "i < ?n" for i
  proof -
    have "unat (of_nat i :: u16) = i" "unat (of_nat ?n :: u16) = ?n" using that n by (simp_all add: unat_of_nat)
    then show ?thesis using that n
      by (auto simp: BuildClipboardChunk_def chunk_at_def Let_def WriteCommon_def finish_def kconsts word_le_nat_alt
          unat_eq_0 [symmetric] split: if_splits)
  qed
  have "\<forall>i\<in>set is. i < ?n \<Longrightarrow> map (parse_with (\<lambda>_. ParseClipboardChunk)) (send_chunks s is)
      = map (\<lambda>i. some_opt (hdr MsgClipboard 0 ChanControl (cs_sessionId s), chunk_at s i)) is" for "is"
    by (induction "is") (auto simp: built ClipboardChunk_roundtrip [OF built] Let_def)
  then show ?thesis by (simp add: cs_SendAllChunks_def)
qed

section \<open>Reception\<close>

text \<open>The chunk \<open>i\<close> of a text under a revision, as the receiver sees it.\<close>

definition text_chunk :: "bytes \<Rightarrow> u32 \<Rightarrow> nat \<Rightarrow> ClipboardChunkView" where
  "text_chunk tx rvn i = \<lparr>cb_revision = rvn, cb_chunkIndex = of_nat i,
     cb_chunkCount = of_nat (chunk_count tx), cb_payload = chunk_bytes tx i\<rparr>"

lemma chunk_at_text: "chunk_at s i = text_chunk (cs_outgoing s) (cs_revision s) i"
  by (simp add: chunk_at_def text_chunk_def Let_def kconsts min_def)

text \<open>The receiver has the chunks with an index in \<open>S\<close>, and not all.\<close>

definition not_taken :: "ClipboardSync \<Rightarrow> u32 \<Rightarrow> bool" where
  "not_taken r rvn \<longleftrightarrow> \<not> (cs_haveTakenRevision r \<and> rvn \<le> cs_lastTakenRevision r)"

definition holds_chunks :: "bytes \<Rightarrow> u32 \<Rightarrow> nat set \<Rightarrow> ClipboardSync \<Rightarrow> bool" where
  "holds_chunks tx rvn S r \<longleftrightarrow> cs_inRevision r = rvn \<and> S \<subset> {..<chunk_count tx}
     \<and> cs_inChunks r = map (\<lambda>i. if i \<in> S then chunk_bytes tx i else []) [0..<chunk_count tx]
     \<and> cs_inReceived r = card S \<and> not_taken r rvn"

definition has_taken :: "bytes \<Rightarrow> u32 \<Rightarrow> ClipboardSync \<Rightarrow> bool" where
  "has_taken tx rvn r \<longleftrightarrow> cs_completed r = Some tx \<and> cs_haveTakenRevision r \<and> cs_lastTakenRevision r = rvn
     \<and> cs_haveAppliedHash r \<and> cs_lastAppliedHash r = HashText tx"

text \<open>Nothing of this revision has been received: the next chunk starts afresh.\<close>

definition awaits :: "u32 \<Rightarrow> ClipboardSync \<Rightarrow> bool" where
  "awaits rvn r \<longleftrightarrow> cs_inRevision r \<noteq> rvn \<and> not_taken r rvn"

text \<open>The chunks in any order, with repetitions: exactly one of them completes the text.\<close>

fun accept_all :: "ClipboardSync \<Rightarrow> ClipboardChunkView list \<Rightarrow> (nat \<times> ClipboardSync) checked" where
  "accept_all r [] = Some (0, r)"
| "accept_all r (c # cs) = do {
     (ok, r) \<leftarrow> cs_Accept r c;
     (n, r) \<leftarrow> accept_all r cs;
     Some ((if ok then 1 else 0) + n, r)
   }"

lemma index_u16:
  assumes tx: "tx \<noteq> []" "length tx \<le> kMaxClipboardTextBytes"
  shows "i < chunk_count tx \<Longrightarrow> unat (of_nat i :: u16) = i" "unat (of_nat (chunk_count tx) :: u16) = chunk_count tx"
  using chunk_count_bounds(2) [OF tx] by (simp_all add: unat_of_nat kconsts)

lemma Accept_more:
  assumes tx: "tx \<noteq> []" "length tx \<le> kMaxClipboardTextBytes"
    and r: "holds_chunks tx rvn S r" and i: "i < chunk_count tx"
  shows "\<exists>r'. cs_Accept r (text_chunk tx rvn i) = Some (insert i S = {..<chunk_count tx}, r')
    \<and> (if insert i S = {..<chunk_count tx} then has_taken tx rvn r' else holds_chunks tx rvn (insert i S) r' \<and> cs_completed r' = cs_completed r)"
proof -
  let ?n = "chunk_count tx"
  have len: "length (cs_inChunks r) = ?n" and chunks: "cs_inChunks r = map (\<lambda>i. if i \<in> S then chunk_bytes tx i else []) [0..<?n]"
    and S: "S \<subset> {..<?n}" and rcv: "cs_inReceived r = card S" and fresh: "not_taken r rvn" and rv: "cs_inRevision r = rvn"
    using r by (auto simp: holds_chunks_def)
  have finite: "finite S" using S finite_subset by auto
  note ne = chunk_bytes_ne [OF tx]
  have "accept_reset r (text_chunk tx rvn i) = r"
    using rv len by (simp add: accept_reset_def text_chunk_def index_u16 [OF tx])
  moreover have "cs_inChunks r ! i = (if i \<in> S then chunk_bytes tx i else [])" using i by (simp add: chunks)
  ultimately have start: "cs_Accept r (text_chunk tx rvn i) =
    (if i \<in> S then Some (False, r)
     else Some (accept_complete (r\<lparr>cs_inChunks := (cs_inChunks r)[i := chunk_bytes tx i], cs_inReceived := cs_inReceived r + 1\<rparr>)))"
    using fresh len i ne [OF i] index_u16 [OF tx] unfolding not_taken_def cs_Accept_def accept_store_def
    by (auto simp add: text_chunk_def vec_at_in simp del: take_eq_Nil)
  show ?thesis
  proof (cases "i \<in> S")
    case True
    then have "insert i S = S" by auto
    then show ?thesis using S r start True by (auto simp: psubset_eq)
  next
    case False
    have upd: "(cs_inChunks r)[i := chunk_bytes tx i] = map (\<lambda>j. if j \<in> insert i S then chunk_bytes tx j else []) [0..<?n]"
      using i by (intro nth_equalityI) (auto simp: chunks nth_list_update)
    have card: "card (insert i S) = card S + 1" using False finite by simp
    have sub: "insert i S \<subseteq> {..<?n}" using S i by auto
    show ?thesis
    proof (cases "insert i S = {..<?n}")
      case True
      then have "cs_inReceived r + 1 = ?n" using card rcv by simp
      moreover have "map (\<lambda>j. if j \<in> insert i S then chunk_bytes tx j else []) [0..<?n] = map (chunk_bytes tx) [0..<?n]"
        unfolding True by (rule map_cong) auto
      then have "concat ((cs_inChunks r)[i := chunk_bytes tx i]) = tx" by (simp only: upd concat_chunks [OF tx])
      ultimately show ?thesis
        using start False True Truncate_short [OF tx(2)] tx(1) rv len
        by (simp add: accept_complete_def Let_def has_taken_def)
    next
      case part: False
      then have "card (insert i S) < ?n" using sub psubset_card_mono [of "{..<?n}" "insert i S"] by auto
      then show ?thesis using start False upd part card rcv sub rv fresh
        by (auto simp: accept_complete_def holds_chunks_def not_taken_def)
    qed
  qed
qed

lemma Accept_first:
  assumes tx: "tx \<noteq> []" "length tx \<le> kMaxClipboardTextBytes"
    and "awaits rvn r" "i < chunk_count tx"
  shows "\<exists>r'. cs_Accept r (text_chunk tx rvn i) = cs_Accept r' (text_chunk tx rvn i) \<and> holds_chunks tx rvn {} r' \<and> cs_completed r' = cs_completed r"
proof -
  let ?r = "r\<lparr>cs_inRevision := rvn, cs_inChunks := replicate (chunk_count tx) [], cs_inReceived := 0\<rparr>"
  have new: "accept_reset r (text_chunk tx rvn i) = ?r" and same: "accept_reset ?r (text_chunk tx rvn i) = ?r"
    using assms(3) by (auto simp: accept_reset_def text_chunk_def awaits_def index_u16 [OF tx])
  have "cs_Accept r (text_chunk tx rvn i) = cs_Accept ?r (text_chunk tx rvn i)"
    unfolding cs_Accept_def new same using assms(3) by (auto simp: awaits_def not_taken_def text_chunk_def)
  moreover have "holds_chunks tx rvn {} ?r"
    using assms chunk_count_bounds(1) [OF tx] by (auto simp: holds_chunks_def awaits_def not_taken_def map_replicate_const)
  ultimately show ?thesis by (intro exI [of _ ?r]) simp
qed

lemma Accept_again: "has_taken tx rvn r \<Longrightarrow> cs_Accept r (text_chunk tx rvn i) = Some (False, r)"
  by (simp add: cs_Accept_def has_taken_def text_chunk_def)

lemma accept_taken: "has_taken tx rvn r \<Longrightarrow> accept_all r (map (text_chunk tx rvn) is) = Some (0, r)"
  by (induction "is") (simp_all add: Accept_again)

lemma accept_rest:
  fixes r :: ClipboardSync
  assumes tx: "tx \<noteq> []" "length tx \<le> kMaxClipboardTextBytes"
    and "holds_chunks tx rvn S r" "set is \<subseteq> {..<chunk_count tx}" "S \<union> set is = {..<chunk_count tx}"
  shows "\<exists>r'. accept_all r (map (text_chunk tx rvn) is) = Some (1, r') \<and> has_taken tx rvn r'"
  using assms(3-)
proof (induction "is" arbitrary: S r)
  case Nil
  then show ?case by (auto simp: holds_chunks_def)
next
  case (Cons i "is")
  then obtain r' where step: "cs_Accept r (text_chunk tx rvn i) = Some (insert i S = {..<chunk_count tx}, r')"
    "if insert i S = {..<chunk_count tx} then has_taken tx rvn r' else holds_chunks tx rvn (insert i S) r' \<and> cs_completed r' = cs_completed r"
    using Accept_more [OF tx, of rvn S r i] by auto
  show ?case
  proof (cases "insert i S = {..<chunk_count tx}")
    case True
    then show ?thesis using step by (simp add: accept_taken)
  next
    case False
    then have "holds_chunks tx rvn (insert i S) r'" using step(2) by simp
    from Cons.IH [OF this] Cons.prems obtain r2
      where "accept_all r' (map (text_chunk tx rvn) is) = Some (1, r2)" "has_taken tx rvn r2" by auto
    then show ?thesis using step(1) False by simp
  qed
qed

lemma accept_whole:
  assumes tx: "tx \<noteq> []" "length tx \<le> kMaxClipboardTextBytes"
    and "awaits rvn r" "set is = {..<chunk_count tx}"
  shows "\<exists>r'. accept_all r (map (text_chunk tx rvn) is) = Some (1, r') \<and> has_taken tx rvn r'"
proof -
  obtain i js where "is": "is = i # js" using assms(4) chunk_count_bounds(1) [OF tx] by (cases "is") auto
  then have "i < chunk_count tx" using assms(4) by auto
  then obtain r' where r': "cs_Accept r (text_chunk tx rvn i) = cs_Accept r' (text_chunk tx rvn i)" "holds_chunks tx rvn {} r'"
    using Accept_first [OF tx assms(3)] by blast
  have "\<exists>r2. accept_all r' (map (text_chunk tx rvn) is) = Some (1, r2) \<and> has_taken tx rvn r2"
    by (rule accept_rest [OF tx r'(2)]) (simp_all add: assms(4))
  then show ?thesis using r'(1) "is" by simp
qed

text \<open>What was just received is not offered back.\<close>

lemma OfferLocal_echo:
  "has_taken tx rvn r \<Longrightarrow> length tx \<le> kMaxClipboardTextBytes \<Longrightarrow> cs_OfferLocal r tx = (False, r)"
  by (simp add: cs_OfferLocal_def has_taken_def Truncate_short Let_def)

text \<open>
  Datagrams on their way into a clipboard, as the session that owns it passes them on: what does not
  parse is dropped.
\<close>

fun receive_clipboard :: "ClipboardSync \<Rightarrow> bytes list \<Rightarrow> (nat \<times> ClipboardSync) checked" where
  "receive_clipboard r [] = Some (0, r)"
| "receive_clipboard r (d # ds) = do {
     m \<leftarrow> parse_with (\<lambda>_. ParseClipboardChunk) d;
     case m of
       None \<Rightarrow> receive_clipboard r ds
     | Some (_, chunk) \<Rightarrow> do {
         (ok, r) \<leftarrow> cs_Accept r chunk;
         (n, r) \<leftarrow> receive_clipboard r ds;
         Some ((if ok then 1 else 0) + n, r)
       }
   }"

lemma receive_accept:
  "map (parse_with (\<lambda>_. ParseClipboardChunk)) ds = map (\<lambda>c. some_opt (h, c)) cs
    \<Longrightarrow> receive_clipboard r ds = accept_all r cs"
proof (induction ds arbitrary: cs r)
  case (Cons d ds)
  then obtain c cs' where "cs = c # cs'" by (cases cs) auto
  then show ?case using Cons by (auto split: prod.splits intro!: Option.bind_cong)
qed simp

text \<open>One sending of an offered text, in any order and with any repetition, provided nothing is lost.\<close>

lemma offered_arrives:
  assumes inv: "cs_inv s" and offer: "cs_OfferLocal s tx = (True, s1)" and "awaits (cs_revision s1) r"
    and "set is = {..<length (cs_SendAllChunks s1)}"
  shows "\<exists>r'. receive_clipboard r (map ((!) (cs_SendAllChunks s1)) is) = Some (1, r')
    \<and> has_taken (TruncateClipboardText tx) (cs_revision s1) r'"
proof -
  let ?t = "TruncateClipboardText tx"
  have s1: "cs_outgoing s1 = ?t" "?t \<noteq> []" "cs_inv s1"
    using offer inv length_Truncate [of tx]
    by (auto simp: cs_OfferLocal_def Let_def cs_inv_def kconsts split: if_splits)
  note short = length_Truncate [of tx]
  have parsed: "map (parse_with (\<lambda>_. ParseClipboardChunk)) (cs_SendAllChunks s1)
    = map (\<lambda>i. some_opt (hdr MsgClipboard 0 ChanControl (cs_sessionId s1), text_chunk ?t (cs_revision s1) i)) [0..<chunk_count ?t]"
    using SendAllChunks_parsed [OF s1(3)] s1(1,2) by (simp add: chunk_at_text)
  from arg_cong [OF this, of length] have len: "length (cs_SendAllChunks s1) = chunk_count ?t" by simp
  have each: "parse_with (\<lambda>_. ParseClipboardChunk) (cs_SendAllChunks s1 ! i)
    = some_opt (hdr MsgClipboard 0 ChanControl (cs_sessionId s1), text_chunk ?t (cs_revision s1) i)" if "i < chunk_count ?t" for i
    using arg_cong [OF parsed, of "\<lambda>xs. xs ! i"] that len by simp
  have "receive_clipboard r (map ((!) (cs_SendAllChunks s1)) is)
    = accept_all r (map (text_chunk ?t (cs_revision s1)) is)"
    by (rule receive_accept [where h = "hdr MsgClipboard 0 ChanControl (cs_sessionId s1)"])
      (use assms(4) len each in \<open>auto simp: o_def\<close>)
  then show ?thesis using accept_whole [OF s1(2) short assms(3)] assms(4) len by auto
qed

lemma SendAllChunks_cong:
  "cs_SendAllChunks (s\<lparr>cs_sendsLeft := n, cs_lastSendUs := t\<rparr>) = cs_SendAllChunks s"
proof -
  have "send_chunks (s\<lparr>cs_sendsLeft := n, cs_lastSendUs := t\<rparr>) is = send_chunks s is" for "is"
    by (induction "is") (simp_all add: chunk_at_def Let_def)
  then show ?thesis by (simp add: cs_SendAllChunks_def)
qed

lemma Flush_offered:
  assumes "cs_OfferLocal s tx = (True, s1)"
  shows "snd (cs_Flush s1 now True) = cs_SendAllChunks s1"
proof -
  have "cs_sendsLeft s1 = 1 + kClipboardResendCount" "cs_outgoing s1 \<noteq> []"
    using assms by (auto simp: cs_OfferLocal_def Let_def split: if_splits)
  then have "cs_Flush s1 now True = (s1\<lparr>cs_sendsLeft := kClipboardResendCount, cs_lastSendUs := now\<rparr>,
      cs_SendAllChunks (s1\<lparr>cs_sendsLeft := kClipboardResendCount, cs_lastSendUs := now\<rparr>))"
    by (simp add: cs_Flush_def Let_def kconsts)
  then show ?thesis by (simp add: SendAllChunks_cong)
qed

text \<open>Any chunk the parser hands over is accepted without leaving the buffers.\<close>

definition chunk_ok :: "ClipboardChunkView \<Rightarrow> bool" where
  "chunk_ok c \<longleftrightarrow> cb_chunkIndex c < cb_chunkCount c \<and> unat (cb_chunkCount c) \<le> kMaxClipboardChunks"

lemma ParseClipboardChunk_ok: "ParseClipboardChunk p = some_opt c \<Longrightarrow> chunk_ok c"
  by (auto simp: ParseClipboardChunk_def chunk_ok_def bind_eq_Some_conv split: if_splits)

lemma accept_complete_inv: "cs_inv s \<Longrightarrow> cs_inv (snd (accept_complete s))"
  using length_Truncate by (auto simp: accept_complete_def cs_inv_def Let_def)

lemma Accept_inv:
  assumes inv: "cs_inv s" and ok: "chunk_ok c"
  shows "\<exists>ok s'. cs_Accept s c = Some (ok, s') \<and> cs_inv s'"
proof (cases "cs_haveTakenRevision s \<and> cb_revision c \<le> cs_lastTakenRevision s")
  case True
  then show ?thesis using inv by (auto simp: cs_Accept_def)
next
  case False
  let ?s = "accept_reset s c"
  have idx: "unat (cb_chunkIndex c) < length (cs_inChunks ?s)"
    using ok by (auto simp: chunk_ok_def accept_reset_def word_less_nat_alt)
  have inv': "cs_inv ?s" using inv ok by (auto simp: cs_inv_def chunk_ok_def accept_reset_def)
  let ?t = "?s\<lparr>cs_inChunks := (cs_inChunks ?s)[unat (cb_chunkIndex c) := cb_payload c], cs_inReceived := cs_inReceived ?s + 1\<rparr>"
  have "cs_inv ?t" using inv' by (simp add: cs_inv_def)
  from accept_complete_inv [OF this] show ?thesis
    using False inv' idx by (cases "accept_complete ?t") (auto simp add: cs_Accept_def accept_store_def vec_at_in)
qed

datatype ClipboardOp =
  ClipOffer bytes | ClipFlush u64 bool | ClipAccept ClipboardChunkView | ClipTake | ClipReset | ClipForget | ClipSession u32

fun clipboard_step :: "ClipboardSync \<Rightarrow> ClipboardOp \<Rightarrow> (ClipboardSync \<times> bytes option) checked" where
  "clipboard_step s (ClipOffer t) = Some (snd (cs_OfferLocal s t), None)"
| "clipboard_step s (ClipFlush now can) = Some (fst (cs_Flush s now can), None)"
| "clipboard_step s (ClipAccept c) = (case cs_Accept s c of None \<Rightarrow> None | Some (ok, s) \<Rightarrow> Some (s, None))"
| "clipboard_step s ClipTake = (let (t, s) = cs_TakeCompleted s in Some (s, t))"
| "clipboard_step s ClipReset = Some (cs_Reset s, None)"
| "clipboard_step s ClipForget = Some (cs_ForgetReceived s, None)"
| "clipboard_step s (ClipSession i) = Some (cs_SetSessionId s i, None)"

fun clipboard_legal :: "ClipboardOp \<Rightarrow> bool" where
  "clipboard_legal (ClipAccept c) = chunk_ok c"
| "clipboard_legal _ = True"

lemma cs_init_inv: "cs_inv cs_init"
  by (simp add: cs_inv_def cs_init_def)

interpretation clipboard: component clipboard_step cs_inv clipboard_legal
  "\<lambda>_ t. \<forall>s. t = Some s \<longrightarrow> s \<noteq> [] \<and> length s \<le> kMaxClipboardTextBytes"
proof
  fix s x assume inv: "cs_inv s" and legal: "clipboard_legal x"
  show "\<exists>s' r. clipboard_step s x = Some (s', r) \<and> cs_inv s' \<and> (\<forall>t. r = Some t \<longrightarrow> t \<noteq> [] \<and> length t \<le> kMaxClipboardTextBytes)"
  proof (cases x)
    case (ClipAccept c)
    then show ?thesis using Accept_inv [OF inv] legal by fastforce
  next
    case (ClipFlush now can)
    have "cs_sendsLeft s - 1 \<le> 1 + kClipboardResendCount" if "cs_sendsLeft s \<noteq> 0"
      using inv that by (auto simp: cs_inv_def kconsts word_le_nat_alt unat_minus_one)
    then show ?thesis using inv ClipFlush by (auto simp: cs_Flush_def cs_inv_def Let_def)
  qed (use inv length_Truncate in \<open>auto simp: cs_OfferLocal_def cs_inv_def cs_TakeCompleted_def cs_Reset_def
         cs_ForgetReceived_def cs_SetSessionId_def Let_def\<close>)
qed

end
