(* ===== verification/LinkState.thy ===== *)
theory LinkState
  imports WireTypes Component
begin

text \<open>
  What a client knows of its link: \<open>core/src/session/LinkPulse.cpp\<close>, which tells a stalled link
  from a machine that was asleep, and \<open>core/src/session/LinkRecovery.cpp\<close>, which spaces
  keep-alives and reconnection attempts.
\<close>

section \<open>The pulse\<close>

definition kLinkPingIntervalUs :: u64 where [kconsts]: "kLinkPingIntervalUs = 1000000"
definition kLinkStallAfterUs :: u64 where [kconsts]: "kLinkStallAfterUs = 5000000"
definition kLinkWatchStepUs :: u64 where [kconsts]: "kLinkWatchStepUs = 250000"
definition kLinkPingWindow :: nat where [kconsts]: "kLinkPingWindow = 10"

record SentPing =
  sp_pingId :: u32
  sp_sentUs :: u64
  sp_answered :: bool

record LinkPulse =
  lp_sent :: "SentPing list"
  lp_nextPingId :: u32
  lp_lastTickUs :: u64
  lp_lastPingUs :: u64
  lp_lastPongUs :: u64
  lp_answeredOnce :: bool

definition lp_init :: LinkPulse where
  "lp_init = \<lparr>lp_sent = replicate kLinkPingWindow \<lparr>sp_pingId = 0, sp_sentUs = 0, sp_answered = False\<rparr>,
     lp_nextPingId = 1, lp_lastTickUs = 0, lp_lastPingUs = 0, lp_lastPongUs = 0, lp_answeredOnce = False\<rparr>"

definition lp_Reset :: "LinkPulse \<Rightarrow> LinkPulse" where
  "lp_Reset s = lp_init"

definition lp_Tick :: "LinkPulse \<Rightarrow> u64 \<Rightarrow> LinkPulse" where
  "lp_Tick s nowUs =
     (let lastUs = lp_lastTickUs s; s = s\<lparr>lp_lastTickUs := nowUs\<rparr> in
      if lastUs = 0 \<or> nowUs \<le> lastUs then s
      else if lp_lastPongUs s = 0 \<or> lp_lastPongUs s \<ge> nowUs then s
      else let sinceUs = nowUs - lastUs in
        if sinceUs \<le> kLinkWatchStepUs then s
        else let unwatchedUs = sinceUs - kLinkWatchStepUs;
                 silentUs = nowUs - lp_lastPongUs s
             in s\<lparr>lp_lastPongUs := (if unwatchedUs \<ge> silentUs then nowUs else lp_lastPongUs s + unwatchedUs)\<rparr>)"

definition lp_PingDue :: "LinkPulse \<Rightarrow> u64 \<Rightarrow> bool" where
  "lp_PingDue s nowUs \<longleftrightarrow> lp_lastPingUs s = 0 \<or> nowUs - lp_lastPingUs s \<ge> kLinkPingIntervalUs"

definition lp_MakePing :: "LinkPulse \<Rightarrow> u64 \<Rightarrow> (PingPong \<times> LinkPulse) checked" where
  "lp_MakePing s nowUs =
     (let ping = \<lparr>pp_pingId = lp_nextPingId s, pp_sendTimeUs = nowUs\<rparr>;
          at = unat (pp_pingId ping) mod kLinkPingWindow
      in do {
        _ \<leftarrow> vec_at (lp_sent s) at;
        Some (ping, s\<lparr>lp_nextPingId := lp_nextPingId s + 1,
                      lp_sent := (lp_sent s)[at := \<lparr>sp_pingId = pp_pingId ping, sp_sentUs = nowUs, sp_answered = False\<rparr>],
                      lp_lastPingUs := nowUs\<rparr>)
      })"

definition lp_OnPong :: "LinkPulse \<Rightarrow> PingPong \<Rightarrow> u64 \<Rightarrow> LinkPulse checked" where
  "lp_OnPong s pong nowUs =
     (let at = unat (pp_pingId pong) mod kLinkPingWindow in do {
        slot \<leftarrow> vec_at (lp_sent s) at;
        if sp_pingId slot \<noteq> pp_pingId pong \<or> sp_answered slot then Some s
        else if sp_sentUs slot \<noteq> pp_sendTimeUs pong \<or> nowUs < sp_sentUs slot then Some s
        else Some (s\<lparr>lp_sent := (lp_sent s)[at := slot\<lparr>sp_answered := True\<rparr>],
                     lp_lastPongUs := nowUs, lp_answeredOnce := True\<rparr>)
      })"

definition lp_Stalled :: "LinkPulse \<Rightarrow> u64 \<Rightarrow> bool" where
  "lp_Stalled s nowUs \<longleftrightarrow> lp_answeredOnce s \<and> nowUs - lp_lastPongUs s > kLinkStallAfterUs"

definition lp_inv :: "LinkPulse \<Rightarrow> bool" where
  "lp_inv s \<longleftrightarrow> length (lp_sent s) = kLinkPingWindow"

lemma lp_init_inv: "lp_inv lp_init"
  by (simp add: lp_inv_def lp_init_def)

lemma ping_slot: "lp_inv s \<Longrightarrow> unat (i :: u32) mod kLinkPingWindow < length (lp_sent s)"
  by (simp add: lp_inv_def kLinkPingWindow_def)

datatype PulseOp = PulseTick u64 | PulsePing u64 | PulsePong PingPong u64 | PulseReset

fun pulse_step :: "LinkPulse \<Rightarrow> PulseOp \<Rightarrow> (LinkPulse \<times> PingPong option) checked" where
  "pulse_step s (PulseTick now) = Some (lp_Tick s now, None)"
| "pulse_step s (PulsePing now) = map_option (\<lambda>(p, s). (s, Some p)) (lp_MakePing s now)"
| "pulse_step s (PulsePong p now) = map_option (\<lambda>s. (s, None)) (lp_OnPong s p now)"
| "pulse_step s PulseReset = Some (lp_Reset s, None)"

interpretation pulse: component pulse_step lp_inv "\<lambda>_. True" "\<lambda>_ _. True"
proof
  fix s :: LinkPulse and x assume "lp_inv s"
  note slot = ping_slot [OF this]
  with \<open>lp_inv s\<close> show "\<exists>s' r. pulse_step s x = Some (s', r) \<and> lp_inv s' \<and> True"
    by (cases x) (auto simp: lp_Tick_def lp_MakePing_def lp_OnPong_def lp_Reset_def lp_init_inv Let_def vec_at_in,
        simp_all add: lp_inv_def)
qed

text \<open>Only the answer to a ping that was sent, and only its first copy, counts as a sign of life.\<close>

lemma OnPong_replay:
  assumes "lp_inv s" "lp_OnPong s pong t = Some s'" "s' \<noteq> s"
  shows "lp_OnPong s' pong t' = Some s'"
  using assms ping_slot [OF assms(1), of "pp_pingId pong"]
  by (auto simp: lp_OnPong_def Let_def vec_at_in split: if_splits)

lemma OnPong_forged:
  assumes "lp_inv s" "\<forall>q\<in>set (lp_sent s). sp_pingId q \<noteq> pp_pingId pong \<or> sp_sentUs q \<noteq> pp_sendTimeUs pong"
  shows "lp_OnPong s pong t = Some s"
  using assms(2) nth_mem [OF ping_slot [OF assms(1), of "pp_pingId pong"]] ping_slot [OF assms(1), of "pp_pingId pong"]
  by (auto simp: lp_OnPong_def Let_def vec_at_in)

text \<open>Along a run the slots hold pings that were made, or are as they were at the start.\<close>

definition made :: "PingPong option list \<Rightarrow> LinkPulse \<Rightarrow> bool" where
  "made outs s \<longleftrightarrow> lp_inv s \<and> (\<forall>q\<in>set (lp_sent s). sp_pingId q = 0 \<and> sp_sentUs q = 0
     \<or> Some \<lparr>pp_pingId = sp_pingId q, pp_sendTimeUs = sp_sentUs q\<rparr> \<in> set outs)"

lemma made_init: "made outs lp_init"
  by (simp add: made_def lp_init_inv) (simp add: lp_init_def)

lemma made_upd:
  assumes "made outs s" "sp_pingId q = 0 \<and> sp_sentUs q = 0 \<or> Some \<lparr>pp_pingId = sp_pingId q, pp_sendTimeUs = sp_sentUs q\<rparr> \<in> set outs \<union> set later"
    "lp_sent s' = (lp_sent s)[i := q]"
  shows "made (outs @ later) s'"
proof -
  have "set (lp_sent s') \<subseteq> insert q (set (lp_sent s))" unfolding assms(3) by (rule set_update_subset_insert)
  moreover have "length (lp_sent s') = length (lp_sent s)" by (simp add: assms(3))
  ultimately show ?thesis using assms(1,2) by (auto simp: made_def lp_inv_def)
qed

lemma made_step:
  assumes m: "made outs s" and step: "pulse_step s x = Some (s', r)"
  shows "made (outs @ [r]) s'"
proof (cases x)
  case (PulseTick now)
  have "lp_sent (lp_Tick s now) = lp_sent s" by (simp add: lp_Tick_def Let_def)
  then show ?thesis using PulseTick m step by (auto simp: made_def lp_inv_def)
next
  case (PulsePing now)
  then show ?thesis using step by (auto simp: lp_MakePing_def Let_def split: bind_splits intro!: made_upd [OF m])
next
  case (PulsePong pong now)
  let ?at = "unat (pp_pingId pong) mod kLinkPingWindow"
  have at: "?at < length (lp_sent s)" using m ping_slot by (simp add: made_def)
  show ?thesis
  proof (cases "s' = s")
    case True
    then show ?thesis using m by (auto simp: made_def)
  next
    case False
    then have "lp_sent s' = (lp_sent s)[?at := (lp_sent s ! ?at)\<lparr>sp_answered := True\<rparr>]"
      using step PulsePong at by (auto simp: lp_OnPong_def Let_def vec_at_in split: if_splits)
    moreover have "lp_sent s ! ?at \<in> set (lp_sent s)" using at by simp
    ultimately show ?thesis using m by (intro made_upd [OF m]) (auto simp: made_def)
  qed
qed (use step in \<open>simp add: lp_Reset_def made_init\<close>)

lemma made_run: "made outs s \<Longrightarrow> run_ops pulse_step s xs = Some (s', rs) \<Longrightarrow> made (outs @ rs) s'"
proof (induction xs arbitrary: outs s rs)
  case (Cons x xs)
  obtain s1 r rs1 where s: "pulse_step s x = Some (s1, r)" "run_ops pulse_step s1 xs = Some (s', rs1)" "rs = r # rs1"
    using Cons.prems(2) by (auto split: bind_splits)
  from Cons.IH [OF made_step [OF Cons.prems(1) s(1)] s(2)] show ?case by (simp add: s(3))
qed simp

lemma OnPong_not_asked:
  assumes "run_ops pulse_step lp_init xs = Some (s, outs)" "Some pong \<notin> set outs" "pong \<noteq> \<lparr>pp_pingId = 0, pp_sendTimeUs = 0\<rparr>"
  shows "lp_OnPong s pong t = Some s"
proof -
  have m: "made outs s" using made_run [OF made_init [of "[]"] assms(1)] by simp
  show ?thesis
  proof (rule OnPong_forged)
    show "lp_inv s" using m by (simp add: made_def)
    show "\<forall>q\<in>set (lp_sent s). sp_pingId q \<noteq> pp_pingId pong \<or> sp_sentUs q \<noteq> pp_sendTimeUs pong"
    proof (intro ballI disjCI notI)
      fix q assume q: "q \<in> set (lp_sent s)" "sp_pingId q = pp_pingId pong" and t: "\<not> sp_sentUs q \<noteq> pp_sendTimeUs pong"
      then have "pong = \<lparr>pp_pingId = sp_pingId q, pp_sendTimeUs = sp_sentUs q\<rparr>" by (cases pong) simp
      then show False using m q(1) assms(2,3) by (auto simp: made_def)
    qed
  qed
qed

lemma OnPong_answers:
  assumes "lp_inv s" "lp_MakePing s t = Some (ping, s')" "t \<le> t'"
  shows "\<exists>s''. lp_OnPong s' ping t' = Some s'' \<and> lp_lastPongUs s'' = t' \<and> lp_answeredOnce s''"
  using assms ping_slot [OF assms(1), of "lp_nextPingId s"]
  by (auto simp: lp_MakePing_def lp_OnPong_def Let_def vec_at_in not_less)

section \<open>Silence is counted only while it is watched\<close>

definition silence :: "LinkPulse \<Rightarrow> nat" where
  "silence s = unat (lp_lastTickUs s) - unat (lp_lastPongUs s)"

definition watching :: "LinkPulse \<Rightarrow> bool" where
  "watching s \<longleftrightarrow> 0 < lp_lastPongUs s \<and> lp_lastPongUs s \<le> lp_lastTickUs s"

lemma unat_minus: "(b :: u64) \<le> a \<Longrightarrow> unat (a - b) = unat a - unat b"
  by (rule unat_sub)

lemma Tick_silence:
  assumes w: "watching s" and later: "lp_lastTickUs s < now"
  shows "watching (lp_Tick s now)" "lp_lastTickUs (lp_Tick s now) = now"
    "silence (lp_Tick s now) = silence s + min (unat now - unat (lp_lastTickUs s)) (unat kLinkWatchStepUs)"
proof -
  let ?p = "lp_lastPongUs s" and ?l = "lp_lastTickUs s"
  have order: "0 < unat ?p" "unat ?p \<le> unat ?l" "unat ?l < unat now"
    using w later by (auto simp: watching_def word_less_nat_alt word_le_nat_alt)
  have big: "unat now < 2 ^ 64" using unsigned_less [of now] by simp
  have since: "unat (now - ?l) = unat now - unat ?l" using later by (intro unat_minus) simp
  have pong: "\<not> (?p = 0 \<or> ?p \<ge> now)" "\<not> (?l = 0 \<or> now \<le> ?l)"
    using order by (auto simp: word_le_nat_alt)
  have silent: "unat (now - ?p) = unat now - unat ?p" using order by (intro unat_minus) (simp add: word_le_nat_alt)
  show "lp_lastTickUs (lp_Tick s now) = now" by (simp add: lp_Tick_def Let_def)
  have "watching (lp_Tick s now)
    \<and> silence (lp_Tick s now) = silence s + min (unat now - unat (lp_lastTickUs s)) (unat kLinkWatchStepUs)"
  proof (cases "now - ?l \<le> kLinkWatchStepUs")
    case True
    then have "lp_Tick s now = s\<lparr>lp_lastTickUs := now\<rparr>" using pong by (simp add: lp_Tick_def Let_def)
    moreover have "unat now - unat ?l \<le> unat kLinkWatchStepUs" using True since by (simp add: word_le_nat_alt)
    ultimately show ?thesis using order by (simp add: watching_def silence_def word_le_nat_alt word_less_nat_alt)
  next
    case False
    then have gap: "unat kLinkWatchStepUs < unat now - unat ?l" using since by (simp add: word_le_nat_alt)
    have un: "unat (now - ?l - kLinkWatchStepUs) = unat now - unat ?l - unat kLinkWatchStepUs"
      using False since by (subst unat_minus) auto
    have less: "\<not> now - ?l - kLinkWatchStepUs \<ge> now - ?p"
      using un silent order gap by (simp add: word_le_nat_alt kLinkWatchStepUs_def)
    have sum: "unat (?p + (now - ?l - kLinkWatchStepUs)) = unat ?p + (unat now - unat ?l - unat kLinkWatchStepUs)"
      using un order big by (subst unat_add_lem [THEN iffD1]) simp_all
    have "lp_Tick s now = s\<lparr>lp_lastTickUs := now, lp_lastPongUs := ?p + (now - ?l - kLinkWatchStepUs)\<rparr>"
      using pong False less by (simp add: lp_Tick_def Let_def)
    moreover have "unat (?p + (now - ?l - kLinkWatchStepUs)) \<le> unat now" "0 < unat (?p + (now - ?l - kLinkWatchStepUs))"
      using sum order gap by linarith+
    ultimately show ?thesis using sum order gap
      by (simp add: watching_def silence_def word_le_nat_alt word_less_nat_alt min_def)
  qed
  then show "watching (lp_Tick s now)"
    "silence (lp_Tick s now) = silence s + min (unat now - unat (lp_lastTickUs s)) (unat kLinkWatchStepUs)" by simp_all
qed

text \<open>The time a run of ticks has watched: each gap counts for no more than one watch step.\<close>

fun watched :: "u64 \<Rightarrow> u64 list \<Rightarrow> nat" where
  "watched t [] = 0"
| "watched t (u # us) = min (unat u - unat t) (unat kLinkWatchStepUs) + watched u us"

lemma ticks_silence:
  assumes "watching s" "sorted_wrt (<) (lp_lastTickUs s # ts)"
  shows "watching (foldl lp_Tick s ts) \<and> silence (foldl lp_Tick s ts) = silence s + watched (lp_lastTickUs s) ts
    \<and> lp_lastTickUs (foldl lp_Tick s ts) = last (lp_lastTickUs s # ts)
    \<and> lp_answeredOnce (foldl lp_Tick s ts) = lp_answeredOnce s"
  using assms
proof (induction ts arbitrary: s)
  case (Cons t ts)
  have later: "lp_lastTickUs s < t" using Cons.prems(2) by simp
  note tick = Tick_silence [OF Cons.prems(1) later]
  have "lp_answeredOnce (lp_Tick s t) = lp_answeredOnce s" by (simp add: lp_Tick_def Let_def)
  moreover have "sorted_wrt (<) (lp_lastTickUs (lp_Tick s t) # ts)" using Cons.prems(2) tick(2) by simp
  ultimately show ?case using Cons.IH [OF tick(1)] tick by simp
qed simp

lemma ticks_stalled:
  assumes "watching s" "lp_answeredOnce s" "sorted_wrt (<) (lp_lastTickUs s # ts)"
  shows "lp_Stalled (foldl lp_Tick s ts) (last (lp_lastTickUs s # ts))
    \<longleftrightarrow> unat kLinkStallAfterUs < silence s + watched (lp_lastTickUs s) ts"
proof -
  let ?s = "foldl lp_Tick s ts"
  note t = ticks_silence [OF assms(1,3)]
  have "watching ?s" by (rule conjunct1 [OF t])
  then have "lp_lastPongUs ?s \<le> lp_lastTickUs ?s" unfolding watching_def by (rule conjunct2)
  from unat_minus [OF this] have "unat (lp_lastTickUs ?s - lp_lastPongUs ?s) = silence ?s" by (simp only: silence_def)
  then have "lp_Stalled ?s (lp_lastTickUs ?s) \<longleftrightarrow> unat kLinkStallAfterUs < silence ?s"
    using conjunct2 [OF conjunct2 [OF conjunct2 [OF t]]] assms(2) by (simp only: lp_Stalled_def word_less_nat_alt simp_thms)
  then show ?thesis using t by metis
qed

section \<open>Keep-alives and reconnection\<close>

definition kKeepalivesPerIdleTimeout :: u64 where [kconsts]: "kKeepalivesPerIdleTimeout = 3"
definition kMinKeepaliveIntervalUs :: u64 where [kconsts]: "kMinKeepaliveIntervalUs = 1000000"
definition kReconnectFirstDelayUs :: u64 where [kconsts]: "kReconnectFirstDelayUs = 500000"
definition kReconnectMaxDelayUs :: u64 where [kconsts]: "kReconnectMaxDelayUs = 5000000"

definition KeepaliveIntervalUs :: "u64 \<Rightarrow> u64" where
  "KeepaliveIntervalUs idleTimeoutMs =
     (let idleUs = idleTimeoutMs * 1000 in
      if idleUs = 0 then kMinKeepaliveIntervalUs
      else let interval = idleUs div kKeepalivesPerIdleTimeout;
               interval = (if interval < kMinKeepaliveIntervalUs then kMinKeepaliveIntervalUs else interval);
               half = idleUs div 2;
               interval = (if half \<noteq> 0 \<and> interval > half then half else interval)
           in if interval = 0 then 1 else interval)"

definition KeepaliveDue :: "u64 \<Rightarrow> u64 \<Rightarrow> u64 \<Rightarrow> bool" where
  "KeepaliveDue nowUs lastSentUs intervalUs \<longleftrightarrow> \<not> nowUs \<le> lastSentUs \<and> nowUs - lastSentUs \<ge> intervalUs"

text \<open>The loop of \<open>ReconnectDelayUs\<close>, by the number of doublings still allowed.\<close>

fun double_delay :: "nat \<Rightarrow> u64 \<Rightarrow> u64" where
  "double_delay 0 delay = delay"
| "double_delay (Suc n) delay = (if delay < kReconnectMaxDelayUs then double_delay n (delay * 2) else delay)"

definition ReconnectDelayUs :: "u32 \<Rightarrow> u64" where
  "ReconnectDelayUs attempt =
     (let delay = double_delay (unat attempt) kReconnectFirstDelayUs in
      if delay > kReconnectMaxDelayUs then kReconnectMaxDelayUs else delay)"

definition ReconnectStillWorthTrying :: "u64 \<Rightarrow> u64 \<Rightarrow> bool" where
  "ReconnectStillWorthTrying sinceLossUs graceUs \<longleftrightarrow> sinceLossUs < graceUs"

text \<open>Two keep-alives fit into any idle timeout the peer may have set.\<close>

lemma Keepalive_twice:
  assumes "0 < idle" "unat idle * 1000 < 2 ^ 64"
  shows "0 < unat (KeepaliveIntervalUs idle) \<and> 2 * unat (KeepaliveIntervalUs idle) \<le> unat idle * 1000"
proof -
  let ?u = "idle * 1000"
  have u: "unat ?u = unat idle * 1000" using assms(2) by (subst unat_mult_lem [THEN iffD1]) simp_all
  have pos: "0 < unat idle" using assms(1) by (simp add: word_less_nat_alt)
  have half: "unat (?u div 2) = unat idle * 500" "unat (?u div kKeepalivesPerIdleTimeout) = unat idle * 1000 div 3"
    by (simp_all add: unat_div u kKeepalivesPerIdleTimeout_def)
  have ne: "?u \<noteq> 0" "?u div 2 \<noteq> 0" using u half pos by (auto simp: unat_eq_0 [symmetric])
  define i where "i = (if ?u div kKeepalivesPerIdleTimeout < kMinKeepaliveIntervalUs then kMinKeepaliveIntervalUs else ?u div kKeepalivesPerIdleTimeout)"
  define j where "j = (if i > ?u div 2 then ?u div 2 else i)"
  have i: "0 < unat i" using u half by (auto simp: i_def kMinKeepaliveIntervalUs_def word_less_nat_alt)
  have j: "0 < unat j" "unat j \<le> unat idle * 500"
    using i half(1) pos by (auto simp: j_def not_less word_le_nat_alt)
  then have "j \<noteq> 0" by auto
  then have "KeepaliveIntervalUs idle = j" using ne by (simp only: KeepaliveIntervalUs_def i_def [symmetric] j_def [symmetric] Let_def if_False simp_thms)
  then show ?thesis using j by simp
qed

lemma double_delay_spec:
  "0 < unat d \<Longrightarrow> min (unat (double_delay n d)) (unat kReconnectMaxDelayUs) = min (unat d * 2 ^ n) (unat kReconnectMaxDelayUs)"
proof (induction n arbitrary: d)
  case (Suc n)
  show ?case
  proof (cases "d < kReconnectMaxDelayUs")
    case True
    then have "unat d < 5000000" by (simp add: word_less_nat_alt kReconnectMaxDelayUs_def)
    then have dbl: "unat (d * 2) = unat d * 2" by (subst unat_mult_lem [THEN iffD1]) simp_all
    then show ?thesis using True Suc.IH [of "d * 2"] Suc.prems by (simp add: mult.assoc)
  next
    case False
    then have "unat kReconnectMaxDelayUs \<le> unat d" by (simp add: word_le_nat_alt not_less)
    moreover have "unat d * 1 \<le> unat d * 2 ^ Suc n" by (intro mult_le_mono2) simp
    ultimately have "unat kReconnectMaxDelayUs \<le> unat d * 2 ^ Suc n" by linarith
    then show ?thesis using False \<open>unat kReconnectMaxDelayUs \<le> unat d\<close> by (simp add: min_absorb2 del: power_Suc)
  qed
qed simp

lemma ReconnectDelay_spec: "unat (ReconnectDelayUs a) = min (500000 * 2 ^ unat a) 5000000"
proof -
  have "min (unat (double_delay (unat a) kReconnectFirstDelayUs)) (unat kReconnectMaxDelayUs)
    = min (unat kReconnectFirstDelayUs * 2 ^ unat a) (unat kReconnectMaxDelayUs)"
    by (rule double_delay_spec) (simp add: kconsts)
  then show ?thesis by (auto simp: ReconnectDelayUs_def Let_def word_less_nat_alt kconsts min_def split: if_splits)
qed

end
