(* ===== verification/Terminals.thy ===== *)
theory Terminals
  imports WireTermFile TrustStore Component
begin

text \<open>
  The terminals a host shares (\<open>core/src/session/TerminalSession.cpp\<close>): sessions that are live,
  wait for their client to come back, or were taken over at the host. A \<open>TermSessionList\<close> is the
  list of its entries.
\<close>

definition kMaxTerminalSessions :: nat where [kconsts]: "kMaxTerminalSessions = 8"

record TerminalRecord =
  tr_termId :: u32
  tr_state :: TerminalState
  tr_size :: TermSize
  tr_clientName :: bytes
  tr_clientEndpoint :: bytes
  tr_clientFingerprint :: Fingerprint
  tr_detachedUs :: u64

record TerminalOpenRequest =
  req_message :: TermOpen
  req_endpoint :: bytes
  req_fingerprint :: Fingerprint

record TerminalSessions =
  tm_sharing :: bool
  tm_nextId :: u32
  tm_records :: "TerminalRecord list"

definition tm_init :: TerminalSessions where
  "tm_init = \<lparr>tm_sharing = False, tm_nextId = 1, tm_records = []\<rparr>"

definition tm_CloseAll :: "TerminalSessions \<Rightarrow> TerminalSessions" where
  "tm_CloseAll s = s\<lparr>tm_records := []\<rparr>"

definition tm_SetSharing :: "TerminalSessions \<Rightarrow> bool \<Rightarrow> TerminalSessions" where
  "tm_SetSharing s on = (let s = s\<lparr>tm_sharing := on\<rparr> in if \<not> on then tm_CloseAll s else s)"

definition Refuse :: "TermReason \<Rightarrow> TermOpenAck" where
  "Refuse reason = \<lparr>toa_termId = 0, toa_reason = reason, toa_resumed = False\<rparr>"

definition tm_Find :: "TerminalSessions \<Rightarrow> u32 \<Rightarrow> TerminalRecord option" where
  "tm_Find s termId = List.find (\<lambda>r. tr_termId r = termId) (tm_records s)"

text \<open>A change of the record that \<open>Mutable\<close> points to.\<close>

definition tm_Mutate :: "TerminalSessions \<Rightarrow> u32 \<Rightarrow> (TerminalRecord \<Rightarrow> TerminalRecord) \<Rightarrow> TerminalSessions" where
  "tm_Mutate s termId f =
     (case update_first (\<lambda>r. tr_termId r = termId) f (tm_records s) of
        None \<Rightarrow> s | Some rs \<Rightarrow> s\<lparr>tm_records := rs\<rparr>)"

definition tm_Open :: "TerminalSessions \<Rightarrow> TerminalOpenRequest \<Rightarrow> TermOpenAck \<times> TerminalSessions" where
  "tm_Open s request =
     (if \<not> tm_sharing s then (Refuse TermNotShared, s)
      else
        let sz = ClampTermSize (to_size (req_message request));
            resumeId = to_resumeId (req_message request)
        in if resumeId \<noteq> 0 then
             (case tm_Find s resumeId of
                None \<Rightarrow> (Refuse TermNoSuchSession, s)
              | Some found \<Rightarrow>
                  if tr_state found \<noteq> TermDetached then (Refuse TermNoSuchSession, s)
                  else (\<lparr>toa_termId = tr_termId found, toa_reason = TermAccepted, toa_resumed = True\<rparr>,
                        tm_Mutate s resumeId (\<lambda>r. r\<lparr>tr_state := TermLive, tr_size := sz, tr_detachedUs := 0,
                          tr_clientName := to_clientName (req_message request),
                          tr_clientEndpoint := req_endpoint request,
                          tr_clientFingerprint := req_fingerprint request\<rparr>)))
           else if length (tm_records s) \<ge> kMaxTerminalSessions then (Refuse TermTooManySessions, s)
           else let record = \<lparr>tr_termId = tm_nextId s, tr_state = TermLive, tr_size = sz,
                              tr_clientName = to_clientName (req_message request),
                              tr_clientEndpoint = req_endpoint request,
                              tr_clientFingerprint = req_fingerprint request, tr_detachedUs = 0\<rparr>;
                    nextId = tm_nextId s + 1
                in (\<lparr>toa_termId = tr_termId record, toa_reason = TermAccepted, toa_resumed = False\<rparr>,
                    s\<lparr>tm_nextId := (if nextId = 0 then 1 else nextId), tm_records := tm_records s @ [record]\<rparr>))"

definition tm_Resize :: "TerminalSessions \<Rightarrow> u32 \<Rightarrow> TermSize \<Rightarrow> bool \<times> TerminalSessions" where
  "tm_Resize s termId sz =
     (case tm_Find s termId of None \<Rightarrow> (False, s)
      | Some _ \<Rightarrow> (True, tm_Mutate s termId (\<lambda>r. r\<lparr>tr_size := ClampTermSize sz\<rparr>)))"

definition tm_Detach :: "TerminalSessions \<Rightarrow> u32 \<Rightarrow> u64 \<Rightarrow> bool \<times> TerminalSessions" where
  "tm_Detach s termId nowUs =
     (case tm_Find s termId of None \<Rightarrow> (False, s)
      | Some found \<Rightarrow>
          if tr_state found \<noteq> TermLive then (False, s)
          else (True, tm_Mutate s termId (\<lambda>r. r\<lparr>tr_state := TermDetached, tr_detachedUs := nowUs\<rparr>)))"

definition tm_AttachLocal :: "TerminalSessions \<Rightarrow> u32 \<Rightarrow> bool \<times> TerminalSessions" where
  "tm_AttachLocal s termId =
     (case tm_Find s termId of None \<Rightarrow> (False, s)
      | Some _ \<Rightarrow> (True, tm_Mutate s termId (\<lambda>r. r\<lparr>tr_state := TermLocal, tr_detachedUs := 0\<rparr>)))"

definition tm_Close :: "TerminalSessions \<Rightarrow> u32 \<Rightarrow> bool \<times> TerminalSessions" where
  "tm_Close s termId =
     (let kept = filter (\<lambda>r. tr_termId r \<noteq> termId) (tm_records s) in
      if length kept = length (tm_records s) then (False, s) else (True, s\<lparr>tm_records := kept\<rparr>))"

definition tm_List :: "TerminalSessions \<Rightarrow> TermSessionEntry list" where
  "tm_List s = map (\<lambda>r. \<lparr>te_termId = tr_termId r, te_state = tr_state r, te_size = tr_size r,
                          te_clientName = tr_clientName r\<rparr>) (tm_records s)"

definition TerminalAuditLine :: "TerminalRecord \<Rightarrow> bytes \<Rightarrow> bytes" where
  "TerminalAuditLine record what =
     bytes_of ''terminal '' @ what @ bytes_of '' id='' @ to_string (uint (tr_termId record))
     @ bytes_of '' from='' @ (if tr_clientEndpoint record = [] then bytes_of ''?'' else tr_clientEndpoint record)
     @ bytes_of '' name='' @ (if tr_clientName record = [] then bytes_of ''?'' else tr_clientName record)
     @ bytes_of '' key='' @ (if IsZero (tr_clientFingerprint record) then bytes_of ''none''
                              else FormatFingerprint (tr_clientFingerprint record))"

section \<open>The invariant\<close>

definition named_state :: "TerminalState \<Rightarrow> bool" where
  "named_state st \<longleftrightarrow> st \<in> {TermLive, TermDetached, TermLocal}"

definition record_ok :: "TerminalRecord \<Rightarrow> bool" where
  "record_ok r \<longleftrightarrow> IsValidTermSize (tr_size r) \<and> named_state (tr_state r)
     \<and> (tr_state r \<noteq> TermDetached \<longrightarrow> tr_detachedUs r = 0)"

definition tm_inv :: "TerminalSessions \<Rightarrow> bool" where
  "tm_inv s \<longleftrightarrow> length (tm_records s) \<le> kMaxTerminalSessions \<and> tm_nextId s \<noteq> 0
     \<and> (\<not> tm_sharing s \<longrightarrow> tm_records s = []) \<and> (\<forall>r\<in>set (tm_records s). record_ok r)"

datatype TerminalOp =
  TerminalShare bool | TerminalOpen TerminalOpenRequest | TerminalResize u32 TermSize | TerminalDetach u32 u64
  | TerminalAttachLocal u32 | TerminalClose u32 | TerminalCloseAll

fun terminal_step :: "TerminalSessions \<Rightarrow> TerminalOp \<Rightarrow> (TerminalSessions \<times> TermOpenAck option) checked" where
  "terminal_step s (TerminalShare on) = Some (tm_SetSharing s on, None)"
| "terminal_step s (TerminalOpen r) = (let (ack, s) = tm_Open s r in Some (s, Some ack))"
| "terminal_step s (TerminalResize i sz) = Some (snd (tm_Resize s i sz), None)"
| "terminal_step s (TerminalDetach i now) = Some (snd (tm_Detach s i now), None)"
| "terminal_step s (TerminalAttachLocal i) = Some (snd (tm_AttachLocal s i), None)"
| "terminal_step s (TerminalClose i) = Some (snd (tm_Close s i), None)"
| "terminal_step s TerminalCloseAll = Some (tm_CloseAll s, None)"

lemma tm_init_inv: "tm_inv tm_init"
  by (simp add: tm_inv_def tm_init_def)

lemma update_first_length: "update_first p f xs = Some ys \<Longrightarrow> length ys = length xs"
  by (auto dest!: update_first_split)

lemma Mutate_inv:
  assumes "tm_inv s" "\<And>r. record_ok r \<Longrightarrow> record_ok (f r)"
  shows "tm_inv (tm_Mutate s i f)"
  using assms unfolding tm_Mutate_def tm_inv_def
  by (auto split: option.splits dest: update_first_set update_first_length)

lemma Open_inv: "tm_inv s \<Longrightarrow> tm_inv (snd (tm_Open s r))"
  by (auto simp: tm_Open_def Let_def split: option.splits intro!: Mutate_inv)
    (auto simp: tm_inv_def record_ok_def named_state_def ClampTermSize_valid)

lemma Close_inv: "tm_inv s \<Longrightarrow> tm_inv (snd (tm_Close s i))"
  using order_trans [OF length_filter_le, of "tm_records s" kMaxTerminalSessions "\<lambda>r. tr_termId r \<noteq> i"]
  by (auto simp: tm_Close_def tm_inv_def Let_def)

interpretation terminals: component terminal_step tm_inv "\<lambda>_. True"
  "\<lambda>_ out. \<forall>ack. out = Some ack \<longrightarrow> toa_reason ack \<noteq> TermAccepted \<longrightarrow> toa_termId ack = 0"
proof
  fix s :: TerminalSessions and x assume inv: "tm_inv s"
  have refuse: "toa_reason ack \<noteq> TermAccepted \<longrightarrow> toa_termId ack = 0" if "tm_Open s r = (ack, s')" for r ack s'
    using that by (auto simp: tm_Open_def Refuse_def Let_def split: if_splits option.splits)
  show "\<exists>s' out. terminal_step s x = Some (s', out) \<and> tm_inv s'
     \<and> (\<forall>ack. out = Some ack \<longrightarrow> toa_reason ack \<noteq> TermAccepted \<longrightarrow> toa_termId ack = 0)"
  proof (cases x)
    case (TerminalOpen r)
    then show ?thesis using Open_inv [OF inv, of r] refuse by (cases "tm_Open s r") auto
  next
    case (TerminalClose i)
    then show ?thesis using Close_inv [OF inv, of i] by simp
  next
    case (TerminalResize i sz)
    then show ?thesis using inv by (auto simp: tm_Resize_def record_ok_def ClampTermSize_valid split: option.splits intro!: Mutate_inv)
  next
    case (TerminalDetach i now)
    then show ?thesis using inv by (auto simp: tm_Detach_def record_ok_def named_state_def split: option.splits intro!: Mutate_inv)
  next
    case (TerminalAttachLocal i)
    then show ?thesis using inv by (auto simp: tm_AttachLocal_def record_ok_def named_state_def split: option.splits intro!: Mutate_inv)
  qed (use inv in \<open>auto simp: tm_SetSharing_def tm_CloseAll_def tm_inv_def Let_def\<close>)
qed

section \<open>Identifiers\<close>

text \<open>Identifiers are given out once, until the 32-bit counter wraps.\<close>

definition ids_below :: "TerminalSessions \<Rightarrow> bool" where
  "ids_below s \<longleftrightarrow> distinct (map tr_termId (tm_records s)) \<and> (\<forall>r\<in>set (tm_records s). 0 < tr_termId r \<and> tr_termId r < tm_nextId s)"

lemma Mutate_ids:
  assumes "\<And>r. tr_termId (f r) = tr_termId r"
  shows "map tr_termId (tm_records (tm_Mutate s i f)) = map tr_termId (tm_records s)" "tm_nextId (tm_Mutate s i f) = tm_nextId s"
  using update_first_key [of "\<lambda>r. tr_termId r = i" f "tm_records s" _ tr_termId] assms
  by (auto simp: tm_Mutate_def split: option.splits)

lemma ids_below_map:
  "ids_below s \<longleftrightarrow> distinct (map tr_termId (tm_records s)) \<and> (\<forall>i\<in>set (map tr_termId (tm_records s)). 0 < i \<and> i < tm_nextId s)"
  by (simp add: ids_below_def)

lemma step_ids:
  assumes "ids_below s" "terminal_step s x = Some (s', out)" "unat (tm_nextId s) + 1 < 2 ^ 32" "0 < tm_nextId s"
  shows "ids_below s' \<and> tm_nextId s \<le> tm_nextId s' \<and> unat (tm_nextId s') \<le> unat (tm_nextId s) + 1
    \<and> (\<forall>ack. out = Some ack \<longrightarrow> toa_reason ack = TermAccepted \<longrightarrow> \<not> toa_resumed ack \<longrightarrow>
         toa_termId ack = tm_nextId s \<and> tm_nextId s' = tm_nextId s + 1)"
proof -
  have up: "unat (tm_nextId s + 1) = unat (tm_nextId s) + 1"
    using assms(3) by (subst unat_add_lem [THEN iffD1]) simp_all
  then have ne: "tm_nextId s + 1 \<noteq> 0" by (metis add_is_0 unat_0 zero_neq_one)
  have less: "tm_nextId s < tm_nextId s + 1" using up by (simp add: word_less_nat_alt)
  have mut: "ids_below (tm_Mutate s i f)" if "\<And>r. tr_termId (f r) = tr_termId r" for i f
    using assms(1) Mutate_ids [of f s i] that by (simp add: ids_below_map)
  have nxt: "tm_nextId (tm_Mutate s i f) = tm_nextId s" for i f by (simp add: tm_Mutate_def split: option.splits)
  have open_new: "ids_below (s\<lparr>tm_nextId := tm_nextId s + 1, tm_records := tm_records s @ [r]\<rparr>)" if "tr_termId r = tm_nextId s" for r
    using assms(1,4) that less by (force simp: ids_below_def)
  show ?thesis
  proof (cases x)
    case (TerminalOpen r)
    then show ?thesis using assms up ne less mut nxt open_new
      by (auto simp: tm_Open_def Refuse_def Let_def word_le_nat_alt split: if_splits option.splits)
  next
    case (TerminalClose i)
    then show ?thesis using assms by (auto simp: tm_Close_def Let_def ids_below_def distinct_map_filter split: if_splits)
  next
    case (TerminalShare on)
    then show ?thesis using assms by (auto simp: tm_SetSharing_def tm_CloseAll_def ids_below_def Let_def split: if_splits)
  next
    case TerminalCloseAll
    then show ?thesis using assms by (auto simp: tm_CloseAll_def ids_below_def)
  qed (use assms mut nxt in \<open>auto simp: tm_Resize_def tm_Detach_def tm_AttachLocal_def split: if_splits option.splits\<close>)
qed

lemma run_ids:
  assumes "ids_below s" "0 < tm_nextId s" "unat (tm_nextId s) + length xs < 2 ^ 32" "run_ops terminal_step s xs = Some (s', outs)"
  shows "ids_below s' \<and> 0 < tm_nextId s' \<and> unat (tm_nextId s') \<le> unat (tm_nextId s) + length xs"
  using assms
proof (induction xs arbitrary: s outs)
  case (Cons x xs)
  then obtain s1 out outs1 where step: "terminal_step s x = Some (s1, out)" and rest: "run_ops terminal_step s1 xs = Some (s', outs1)"
    by (auto simp: bind_eq_Some_conv split: prod.splits)
  have 1: "ids_below s1" "tm_nextId s \<le> tm_nextId s1" "unat (tm_nextId s1) \<le> unat (tm_nextId s) + 1"
    using step_ids [OF Cons.prems(1) step] Cons.prems by auto
  have "ids_below s' \<and> 0 < tm_nextId s' \<and> unat (tm_nextId s') \<le> unat (tm_nextId s1) + length xs"
    using 1 Cons.prems by (intro Cons.IH [OF _ _ _ rest]) auto
  then show ?case using 1 by auto
qed simp

section \<open>Who may take a terminal over\<close>

text \<open>Only a terminal whose client is gone can be resumed; a live one is not taken from its client.\<close>

lemma Open_resume:
  assumes "tm_Open s request = (ack, s')" "toa_resumed ack"
  shows "\<exists>r. tm_Find s (toa_termId ack) = Some r \<and> tr_state r = TermDetached \<and> toa_termId ack = to_resumeId (req_message request)
    \<and> tm_sharing s"
proof -
  have found: "tm_Find s i = Some r \<Longrightarrow> tr_termId r = i" for i r by (auto simp: tm_Find_def find_Some_iff)
  show ?thesis using assms by (auto simp: tm_Open_def Refuse_def Let_def found split: if_splits option.splits)
qed

lemma Open_live_untouched:
  assumes "tm_Open s request = (ack, s')" "r \<in> set (tm_records s)" "tr_state r \<noteq> TermDetached"
    and "distinct (map tr_termId (tm_records s))"
  shows "r \<in> set (tm_records s')"
proof (cases "to_resumeId (req_message request) \<noteq> 0 \<and> tm_sharing s")
  case True
  let ?i = "to_resumeId (req_message request)"
  show ?thesis
  proof (cases "\<exists>f. tm_Find s ?i = Some f \<and> tr_state f = TermDetached")
    case False
    then show ?thesis using True assms by (auto simp: tm_Open_def Let_def split: option.splits if_splits)
  next
    case found: True
    then obtain f where f: "tm_Find s ?i = Some f" "tr_state f = TermDetached" by blast
    then obtain upd where s': "s' = tm_Mutate s ?i upd" using True assms(1) by (auto simp: tm_Open_def Let_def)
    show ?thesis
    proof (cases "update_first (\<lambda>r. tr_termId r = ?i) upd (tm_records s)")
      case None
      then show ?thesis using s' assms(2) by (simp add: tm_Mutate_def)
    next
      case (Some rs)
      from update_first_split [OF Some] obtain as x bs where split: "tm_records s = as @ x # bs" "tr_termId x = ?i"
        "\<forall>a\<in>set as. tr_termId a \<noteq> ?i" "rs = as @ upd x # bs" by blast
      have "tm_Find s ?i = Some x" unfolding tm_Find_def split(1) find_Some_iff
        using split(2,3) by (intro exI [of _ "length as"]) (auto simp: nth_append)
      then have "x = f" using f(1) by simp
      then show ?thesis using s' Some split assms(2,3) f(2) by (auto simp: tm_Mutate_def)
    qed
  qed
next
  case False
  then show ?thesis using assms by (auto simp: tm_Open_def Let_def split: if_splits)
qed

end
