(* ===== verification/TerminalClient.thy ===== *)
theory TerminalClient
  imports Terminals RecordStream
begin

text \<open>
  The client of a shared terminal (\<open>core/src/session/client/TerminalClient.cpp\<close>). Its callbacks
  become the list of effects of an operation, in the order of the calls; all callbacks are set.
  The lemmas at the end join it with the host's \<open>Terminals\<close>: a terminal opens on both sides under
  the same number, what is typed arrives, and a message for another terminal has no effect.
\<close>

datatype TerminalClientState = TcIdle | TcOpening | TcOpen | TcReattaching | TcRefused | TcClosed

datatype TerminalEffect =
  TeSend bytes | TeOutput bytes | TeOpened TermOpenAck | TeRefused TermReason
  | TeSessions "TermSessionEntry list" | TeExit i32

record TerminalClient =
  tc_state :: TerminalClientState
  tc_termId :: u32
  tc_size :: TermSize
  tc_sentSize :: TermSize
  tc_clientName :: bytes
  tc_sessions :: "TermSessionEntry list"

definition tc_Emit :: "bytes \<Rightarrow> TerminalEffect list" where
  "tc_Emit written = (if written = [] then [] else [TeSend written])"

definition tc_SendOpen :: "TerminalClient \<Rightarrow> TerminalClient \<times> TerminalEffect list" where
  "tc_SendOpen s =
     (s\<lparr>tc_sentSize := tc_size s\<rparr>,
      tc_Emit (BuildTermOpen kMaxRecordSize
        \<lparr>to_size = tc_size s, to_resumeId = tc_termId s, to_clientName = tc_clientName s\<rparr>))"

definition tc_Open :: "TerminalClient \<Rightarrow> TermSize \<Rightarrow> bytes \<Rightarrow> TerminalClient \<times> TerminalEffect list" where
  "tc_Open s sz clientName =
     tc_SendOpen (s\<lparr>tc_clientName := clientName, tc_size := ClampTermSize sz, tc_termId := 0, tc_state := TcOpening\<rparr>)"

definition tc_Resume :: "TerminalClient \<Rightarrow> u32 \<Rightarrow> TermSize \<Rightarrow> TerminalClient \<times> TerminalEffect list" where
  "tc_Resume s termId sz =
     (if termId = 0 \<or> tc_state s = TcClosed then (s, [])
      else if tc_state s = TcOpen then (s, [])
      else tc_SendOpen (s\<lparr>tc_size := ClampTermSize sz, tc_termId := termId, tc_state := TcReattaching\<rparr>))"

definition tc_Reattach :: "TerminalClient \<Rightarrow> TerminalClient \<times> TerminalEffect list" where
  "tc_Reattach s = tc_Resume s (tc_termId s) (tc_size s)"

definition tc_RequestList :: "TerminalClient \<Rightarrow> TerminalClient \<times> TerminalEffect list" where
  "tc_RequestList s = (if tc_state s = TcClosed then (s, []) else (s, tc_Emit (BuildTermList kMaxRecordSize)))"

text \<open>The loop of \<open>SendInput\<close>.\<close>

function send_input :: "u32 \<Rightarrow> bytes \<Rightarrow> TerminalEffect list" where
  "send_input termId bs =
     (if bs = [] then []
      else let chunk = (if length bs < kMaxTermDataBytes then length bs else kMaxTermDataBytes)
           in tc_Emit (BuildTermData kMaxRecordSize termId (take chunk bs)) @ send_input termId (drop chunk bs))"
  by auto
termination
  by (relation "measure (\<lambda>(_, bs). length bs)") (auto simp: kconsts)

declare send_input.simps [simp del]

definition tc_SendInput :: "TerminalClient \<Rightarrow> bytes \<Rightarrow> TerminalClient \<times> TerminalEffect list" where
  "tc_SendInput s bs = (if tc_state s \<noteq> TcOpen then (s, []) else (s, send_input (tc_termId s) bs))"

definition tc_Resize :: "TerminalClient \<Rightarrow> TermSize \<Rightarrow> TerminalClient \<times> TerminalEffect list" where
  "tc_Resize s sz =
     (let clamped = ClampTermSize sz in
      if clamped = tc_size s then (s, [])
      else let s = s\<lparr>tc_size := clamped\<rparr> in
        if tc_state s \<noteq> TcOpen then (s, [])
        else (s, tc_Emit (BuildTermResize kMaxRecordSize (tc_termId s) (tc_size s))))"

definition tc_CloseSession :: "TerminalClient \<Rightarrow> u32 \<Rightarrow> TerminalClient \<times> TerminalEffect list" where
  "tc_CloseSession s termId =
     (if termId = 0 \<or> tc_state s = TcClosed then (s, [])
      else let out = tc_Emit (BuildTermClose kMaxRecordSize termId) in
        if termId \<noteq> tc_termId s then (s, out)
        else (s\<lparr>tc_termId := 0, tc_state := TcClosed\<rparr>, out))"

definition tc_Close :: "TerminalClient \<Rightarrow> TerminalClient \<times> TerminalEffect list" where
  "tc_Close s =
     (let out = (if tc_state s = TcOpen then tc_Emit (BuildTermClose kMaxRecordSize (tc_termId s)) else [])
      in (s\<lparr>tc_termId := 0, tc_state := TcClosed\<rparr>, out))"

definition tc_LinkLost :: "TerminalClient \<Rightarrow> TerminalClient" where
  "tc_LinkLost s = (if tc_state s = TcClosed then s else s\<lparr>tc_state := TcIdle\<rparr>)"

definition tc_CanReattach :: "TerminalClient \<Rightarrow> bool" where
  "tc_CanReattach s \<longleftrightarrow> tc_termId s \<noteq> 0 \<and> tc_state s = TcIdle"

definition on_open_ack :: "TerminalClient \<Rightarrow> TermOpenAck \<Rightarrow> TerminalClient \<times> TerminalEffect list" where
  "on_open_ack s ack =
     (let hostSharesNoTerminal = (toa_reason ack = TermNotShared \<and> tc_state s = TcIdle) in
      if tc_state s \<noteq> TcOpening \<and> tc_state s \<noteq> TcReattaching \<and> \<not> hostSharesNoTerminal then (s, [])
      else if toa_reason ack \<noteq> TermAccepted \<or> toa_termId ack = 0 then
        let hostMayNotHaveNoticedTheDropYet = (tc_state s = TcReattaching \<and> toa_reason ack = TermNoSuchSession);
            s = (if hostMayNotHaveNoticedTheDropYet then s\<lparr>tc_state := TcIdle\<rparr>
                 else s\<lparr>tc_termId := 0, tc_state := TcRefused\<rparr>)
        in (s, [TeRefused (toa_reason ack)])
      else
        let s = s\<lparr>tc_termId := toa_termId ack, tc_state := TcOpen\<rparr> in
        (s, (if tc_size s \<noteq> tc_sentSize s
             then tc_Emit (BuildTermResize kMaxRecordSize (tc_termId s) (tc_size s)) else []) @ [TeOpened ack]))"

text \<open>The \<open>switch\<close> of \<open>HandleMessage\<close>.\<close>

definition tc_dispatch :: "TerminalClient \<Rightarrow> CommonHeader \<Rightarrow> bytes \<Rightarrow> (TerminalClient \<times> TerminalEffect list) checked" where
  "tc_dispatch s header payload =
     (case ch_type header of
        MsgTermOpenAck \<Rightarrow> do {
          ack \<leftarrow> ParseTermOpenAck payload;
          case ack of None \<Rightarrow> Some (s, []) | Some ack \<Rightarrow> Some (on_open_ack s ack)
        }
      | MsgTermListAck \<Rightarrow>
          if tc_state s = TcClosed then Some (s, [])
          else do {
            list \<leftarrow> ParseTermListAck payload;
            case list of None \<Rightarrow> Some (s, [])
            | Some list \<Rightarrow> Some (s\<lparr>tc_sessions := list\<rparr>, [TeSessions list])
          }
      | MsgTermData \<Rightarrow>
          if tc_state s \<noteq> TcOpen then Some (s, [])
          else if ch_sessionId header \<noteq> tc_termId s then Some (s, [])
          else if payload = [] \<or> length payload > kMaxTermDataBytes then Some (s, [])
          else Some (s, [TeOutput payload])
      | MsgTermExit \<Rightarrow>
          if ch_sessionId header \<noteq> tc_termId s then Some (s, [])
          else do {
            code \<leftarrow> ParseTermExit payload;
            case code of None \<Rightarrow> Some (s, [])
            | Some code \<Rightarrow> Some (s\<lparr>tc_termId := 0, tc_state := TcClosed\<rparr>, [TeExit code])
          }
      | MsgTermClose \<Rightarrow>
          if ch_sessionId header \<noteq> tc_termId s then Some (s, [])
          else Some (s\<lparr>tc_termId := 0, tc_state := TcClosed\<rparr>, [TeExit 0])
      | _ \<Rightarrow> Some (s, []))"

definition tc_HandleMessage :: "TerminalClient \<Rightarrow> bytes \<Rightarrow> (TerminalClient \<times> TerminalEffect list) checked" where
  "tc_HandleMessage s message = do {
     header \<leftarrow> ParseCommonHeader message;
     case header of
       None \<Rightarrow> Some (s, [])
     | Some header \<Rightarrow>
         if ch_chan header \<noteq> ChanTerminal then Some (s, [])
         else do {
           payload \<leftarrow> PayloadOf message;
           tc_dispatch s header payload
         }
   }"

section \<open>The client's invariant\<close>

definition tc_inv :: "TerminalClient \<Rightarrow> bool" where
  "tc_inv s \<longleftrightarrow> (tc_state s = TcOpen \<longrightarrow> tc_termId s \<noteq> 0)
     \<and> (tc_state s \<in> {TcOpening, TcClosed, TcRefused} \<longrightarrow> tc_termId s = 0)
     \<and> (tc_state s = TcReattaching \<longrightarrow> tc_termId s \<noteq> 0)"

definition tc_init :: "TermSize \<Rightarrow> TerminalClient" where
  "tc_init sz = \<lparr>tc_state = TcIdle, tc_termId = 0, tc_size = sz, tc_sentSize = sz, tc_clientName = [], tc_sessions = []\<rparr>"

datatype ClientTerminalOp =
  CtOpen TermSize bytes | CtReattach | CtResume u32 TermSize | CtList | CtInput bytes | CtResize TermSize
  | CtCloseSession u32 | CtClose | CtLinkLost | CtMessage bytes

fun client_terminal_step :: "TerminalClient \<Rightarrow> ClientTerminalOp \<Rightarrow> (TerminalClient \<times> TerminalEffect list) checked" where
  "client_terminal_step s (CtOpen sz n) = Some (tc_Open s sz n)"
| "client_terminal_step s CtReattach = Some (tc_Reattach s)"
| "client_terminal_step s (CtResume i sz) = Some (tc_Resume s i sz)"
| "client_terminal_step s CtList = Some (tc_RequestList s)"
| "client_terminal_step s (CtInput bs) = Some (tc_SendInput s bs)"
| "client_terminal_step s (CtResize sz) = Some (tc_Resize s sz)"
| "client_terminal_step s (CtCloseSession i) = Some (tc_CloseSession s i)"
| "client_terminal_step s CtClose = Some (tc_Close s)"
| "client_terminal_step s CtLinkLost = Some (tc_LinkLost s, [])"
| "client_terminal_step s (CtMessage m) = tc_HandleMessage s m"

lemma on_open_ack_inv: "tc_inv s \<Longrightarrow> tc_inv (fst (on_open_ack s ack))"
  by (auto simp: on_open_ack_def tc_inv_def Let_def)

lemma dispatch_inv:
  assumes inv: "tc_inv s"
  shows "\<exists>s' out. tc_dispatch s h p = Some (s', out) \<and> tc_inv s'"
proof -
  obtain a where a: "ParseTermOpenAck p = Some a" using ParseTerm_safe by blast
  obtain l where l: "ParseTermListAck p = Some l" using ParseTermListAck_safe by blast
  obtain e where e: "ParseTermExit p = Some e" using ParseTerm_safe by blast
  have ack: "\<exists>s' out. on_open_ack s x = (s', out) \<and> tc_inv s'" for x
    using on_open_ack_inv [OF inv] by (metis prod.collapse)
  have closed: "tc_inv (s\<lparr>tc_termId := 0, tc_state := TcClosed\<rparr>)" by (simp add: tc_inv_def)
  have lists: "tc_inv (s\<lparr>tc_sessions := x\<rparr>)" for x using inv by (simp add: tc_inv_def)
  show ?thesis
  proof (cases "ch_type h")
    case MsgTermOpenAck
    then show ?thesis using inv ack by (cases a) (simp_all add: tc_dispatch_def a)
  next
    case MsgTermListAck
    then show ?thesis using inv lists by (cases l) (simp_all add: tc_dispatch_def l)
  next
    case MsgTermExit
    then show ?thesis using inv closed by (cases e) (simp_all add: tc_dispatch_def e)
  qed (simp_all add: tc_dispatch_def inv closed)
qed

lemma HandleMessage_inv:
  assumes "tc_inv s"
  shows "\<exists>s' out. tc_HandleMessage s m = Some (s', out) \<and> tc_inv s'"
proof -
  obtain h where h: "ParseCommonHeader m = Some h" using ParseCommonHeader_safe [of m] by blast
  obtain p where p: "PayloadOf m = Some p" using PayloadOf_safe [of m] by blast
  show ?thesis
    using assms dispatch_inv [OF assms, of _ p] by (cases h) (simp_all add: tc_HandleMessage_def h p)
qed

interpretation terminal_client: component client_terminal_step tc_inv "\<lambda>_. True" "\<lambda>_ _. True"
proof
  fix s x assume inv: "tc_inv s"
  show "\<exists>s' r. client_terminal_step s x = Some (s', r) \<and> tc_inv s' \<and> True"
  proof (cases x)
    case (CtMessage m)
    then show ?thesis using HandleMessage_inv [OF inv] by simp
  qed (use inv in \<open>auto simp: tc_Open_def tc_SendOpen_def tc_Reattach_def tc_Resume_def tc_RequestList_def tc_SendInput_def
         tc_Resize_def tc_CloseSession_def tc_Close_def tc_LinkLost_def tc_inv_def Let_def\<close>)
qed

section \<open>Both sides together\<close>

lemma HandleMessage_parsed:
  assumes "parse_with f m = some_opt (h, x)" "ch_chan h = ChanTerminal"
  shows "\<exists>p. PayloadOf m = Some p \<and> f h p = some_opt x \<and> tc_HandleMessage s m = tc_dispatch s h p"
  using assms by (auto simp: parse_with_def tc_HandleMessage_def bind_eq_Some_conv split: option.splits)

lemma BuildTermOpen_ne: "BuildTermOpen kMaxRecordSize m \<noteq> []"
  using Utf8TruncLen_le(1) [of "to_clientName m" 64]
  by (auto simp: BuildTermOpen_def WriteCommon_def finish_def Let_def kconsts)

lemma BuildTermOpenAck_ne: "BuildTermOpenAck kMaxRecordSize m \<noteq> []"
  by (auto simp: BuildTermOpenAck_def WriteCommon_def finish_def Let_def kconsts)

lemma host_ack_named:
  assumes "tm_Open host req = (ack, host')"
  shows "TermReason_code (toa_reason ack) \<le> 3" "TermReason_of (TermReason_code (toa_reason ack)) = toa_reason ack"
  using assms by (auto simp: tm_Open_def Refuse_def TermReason_of_def Let_def split: if_splits option.splits)

lemma Mutate_found:
  assumes "tm_Find s i = Some r"
  shows "g r \<in> set (tm_records (tm_Mutate s i g)) \<and> tr_termId r = i"
proof (cases "update_first (\<lambda>r. tr_termId r = i) g (tm_records s)")
  case None
  then show ?thesis using assms by (auto simp: update_first_None tm_Find_def find_Some_iff)
next
  case (Some rs)
  from update_first_split [OF Some] obtain as x bs where split: "tm_records s = as @ x # bs" "tr_termId x = i"
    "\<forall>a\<in>set as. tr_termId a \<noteq> i" "rs = as @ g x # bs" by blast
  have "tm_Find s i = Some x" unfolding tm_Find_def split(1) find_Some_iff
    using split(2,3) by (intro exI [of _ "length as"]) (auto simp: nth_append)
  then show ?thesis using assms split Some by (simp add: tm_Mutate_def)
qed

lemma Open_accepted:
  assumes "tm_Open host req = (ack, host')" "toa_reason ack = TermAccepted" "tm_inv host"
  shows "toa_termId ack \<noteq> 0 \<and> (\<exists>r\<in>set (tm_records host'). tr_termId r = toa_termId ack \<and> tr_state r = TermLive
     \<and> tr_size r = ClampTermSize (to_size (req_message req)) \<and> tr_clientFingerprint r = req_fingerprint req)"
proof (cases "to_resumeId (req_message req) = 0")
  case True
  then show ?thesis using assms by (auto simp: tm_Open_def Refuse_def Let_def tm_inv_def split: if_splits)
next
  case False
  let ?i = "to_resumeId (req_message req)"
  let ?g = "\<lambda>r. r\<lparr>tr_state := TermLive, tr_size := ClampTermSize (to_size (req_message req)), tr_detachedUs := 0,
     tr_clientName := to_clientName (req_message req), tr_clientEndpoint := req_endpoint req,
     tr_clientFingerprint := req_fingerprint req\<rparr>"
  have sharing: "tm_sharing host" using assms(1,2) by (cases "tm_sharing host") (auto simp: tm_Open_def Refuse_def)
  have "tm_Find host ?i \<noteq> None"
    using assms(1,2) False sharing by (intro notI) (auto simp: tm_Open_def Refuse_def Let_def)
  then obtain f where find: "tm_Find host ?i = Some f" by blast
  have "tr_state f = TermDetached"
    using assms(1,2) False sharing find by (cases "tr_state f = TermDetached") (auto simp: tm_Open_def Refuse_def Let_def)
  then have "tm_Open host req = (\<lparr>toa_termId = tr_termId f, toa_reason = TermAccepted, toa_resumed = True\<rparr>, tm_Mutate host ?i ?g)"
    unfolding tm_Open_def Let_def using False sharing find by simp
  then have f: "tm_Find host ?i = Some f" "host' = tm_Mutate host ?i ?g" "toa_termId ack = tr_termId f"
    using assms(1) find by auto
  define r where "r = ?g f"
  have "r \<in> set (tm_records host')" "tr_termId f = ?i" using Mutate_found [OF f(1), of ?g] unfolding f(2) r_def by blast+
  moreover have "tr_state r = TermLive" "tr_size r = ClampTermSize (to_size (req_message req))"
    "tr_clientFingerprint r = req_fingerprint req" "tr_termId r = tr_termId f" by (simp_all add: r_def)
  ultimately show ?thesis using False f(3) by auto
qed

text \<open>
  The host's answer as the client reads it: the client ends open under the host's number for the
  terminal, or refused, exactly as the host decided.
\<close>

lemma open_reaches_client:
  assumes c: "tc_state c = TcOpening \<or> tc_state c = TcReattaching"
    and "open": "tm_Open host req = (ack, host')" and inv: "tm_inv host"
  shows "tc_HandleMessage c (BuildTermOpenAck kMaxRecordSize ack) = Some (on_open_ack c ack)
    \<and> (if toa_reason ack = TermAccepted
        then tc_state (fst (on_open_ack c ack)) = TcOpen \<and> tc_termId (fst (on_open_ack c ack)) = toa_termId ack
          \<and> (\<exists>r\<in>set (tm_records host'). tr_termId r = toa_termId ack \<and> tr_state r = TermLive)
        else tc_state (fst (on_open_ack c ack)) \<in> {TcIdle, TcRefused}
          \<and> snd (on_open_ack c ack) = [TeRefused (toa_reason ack)])"
proof -
  have eta: "ack\<lparr>toa_reason := TermReason_of (TermReason_code (toa_reason ack))\<rparr> = ack"
    by (simp add: host_ack_named(2) [OF "open"])
  have "parse_with (\<lambda>_. ParseTermOpenAck) (BuildTermOpenAck kMaxRecordSize ack)
      = some_opt (hdr MsgTermOpenAck 0 ChanTerminal (toa_termId ack), ack)"
    using TermOpenAck_roundtrip [OF BuildTermOpenAck_ne host_ack_named(1) [OF "open"]] unfolding eta .
  from HandleMessage_parsed [OF this, of c]
  have msg: "tc_HandleMessage c (BuildTermOpenAck kMaxRecordSize ack) = Some (on_open_ack c ack)"
    by (auto simp: tc_dispatch_def)
  show ?thesis
  proof (cases "toa_reason ack = TermAccepted")
    case True
    note acc = Open_accepted [OF "open" True inv]
    have "tc_state (fst (on_open_ack c ack)) = TcOpen \<and> tc_termId (fst (on_open_ack c ack)) = toa_termId ack"
      using c True acc by (auto simp: on_open_ack_def Let_def)
    then show ?thesis using msg True acc by auto
  next
    case False
    then show ?thesis using c msg by (auto simp: on_open_ack_def Let_def)
  qed
qed

section \<open>Input and output\<close>

text \<open>The data message a terminal side reads: the terminal's number and the bytes.\<close>

definition read_term_data :: "bytes \<Rightarrow> (u32 \<times> bytes) option checked" where
  "read_term_data m = map_option (map_option (\<lambda>(h, p). (ch_sessionId h, p)))
     (parse_with (\<lambda>h p. if ch_type h = MsgTermData \<and> ch_chan h = ChanTerminal \<and> p \<noteq> [] \<and> length p \<le> kMaxTermDataBytes
                        then some_opt p else nullopt) m)"

lemma BuildTermData_read:
  assumes "d \<noteq> []" "length d \<le> kMaxTermDataBytes"
  shows "BuildTermData kMaxRecordSize i d \<noteq> []" "read_term_data (BuildTermData kMaxRecordSize i d) = some_opt (i, d)"
proof -
  have eq: "BuildTermData kMaxRecordSize i d = finish (WriteCommon kMaxRecordSize MsgTermData 0 ChanTerminal i (length d)) d"
    using assms by (simp add: BuildTermData_def)
  show ne: "BuildTermData kMaxRecordSize i d \<noteq> []"
    using assms unfolding eq by (auto simp: WriteCommon_def finish_def kconsts)
  show "read_term_data (BuildTermData kMaxRecordSize i d) = some_opt (i, d)"
    unfolding read_term_data_def
    by (subst parse_with_finishI [OF eq ne, where m = d]) (use assms in simp_all)
qed

text \<open>What the effects of a client carry to the host's terminal \<open>i\<close>.\<close>

fun delivered :: "u32 \<Rightarrow> TerminalEffect list \<Rightarrow> bytes" where
  "delivered i [] = []"
| "delivered i (TeSend m # es) =
     (case read_term_data m of Some (Some (j, d)) \<Rightarrow> if j = i then d else [] | _ \<Rightarrow> []) @ delivered i es"
| "delivered i (_ # es) = delivered i es"

lemma send_input_delivered:
  "delivered i (send_input i bs) = bs \<and> (\<forall>e\<in>set (send_input i bs). \<exists>m d. e = TeSend m \<and> read_term_data m = some_opt (i, d))"
proof (induction i bs rule: send_input.induct)
  case (1 i bs)
  show ?case
  proof (cases "bs = []")
    case True
    then show ?thesis by (simp add: send_input.simps)
  next
    case False
    let ?n = "if length bs < kMaxTermDataBytes then length bs else kMaxTermDataBytes"
    let ?d = "take ?n bs"
    have d: "?d \<noteq> []" "length ?d \<le> kMaxTermDataBytes" using False by (auto simp: kMaxTermDataBytes_def)
    have "send_input i bs = TeSend (BuildTermData kMaxRecordSize i ?d) # send_input i (drop ?n bs)"
      using False BuildTermData_read(1) [OF d, of i] by (subst send_input.simps) (simp add: tc_Emit_def Let_def)
    moreover have "delivered i (send_input i (drop ?n bs)) = drop ?n bs
        \<and> (\<forall>e\<in>set (send_input i (drop ?n bs)). \<exists>m d. e = TeSend m \<and> read_term_data m = some_opt (i, d))"
      by (rule "1.IH" [OF False refl])
    ultimately show ?thesis using BuildTermData_read(2) [OF d, of i] by simp
  qed
qed

text \<open>Output reaches the terminal it was sent to, and no other.\<close>

lemma output_reaches_terminal:
  assumes "d \<noteq> []" "length d \<le> kMaxTermDataBytes" "tc_state c = TcOpen"
  shows "tc_HandleMessage c (BuildTermData kMaxRecordSize i d) = Some (c, if i = tc_termId c then [TeOutput d] else [])"
proof -
  have eq: "BuildTermData kMaxRecordSize i d = finish (WriteCommon kMaxRecordSize MsgTermData 0 ChanTerminal i (length d)) d"
    using assms by (simp add: BuildTermData_def)
  have "parse_with (\<lambda>h p. some_opt p) (BuildTermData kMaxRecordSize i d) = some_opt (hdr MsgTermData 0 ChanTerminal i, d)"
    by (rule parse_with_finishI [OF eq BuildTermData_read(1) [OF assms(1,2)]]) simp_all
  from HandleMessage_parsed [OF this, of c] show ?thesis using assms by (auto simp: tc_dispatch_def)
qed

end
