(* ===== verification/InputChannel.thy ===== *)
theory InputChannel
  imports WireEntries Component
begin

text \<open>
  Input events on their way from the viewer to the host (\<open>core/src/input/InputSender.cpp\<close> and
  \<open>InputReceiver.cpp\<close>). Each datagram repeats the last events before its own, and the last datagram
  is sent again, so that an event survives the loss of single datagrams; the receiver applies an
  event when it is newer than all it has applied. The callback \<open>send\<close> is the list of datagrams,
  \<open>apply\<close> the list of events it was called with.
\<close>

definition kInputRepeatIntervalUs :: u64 where [kconsts]: "kInputRepeatIntervalUs = 25000"
definition kInputRepeatCount :: u32 where [kconsts]: "kInputRepeatCount = 2"
definition kInputRedundancy :: nat where [kconsts]: "kInputRedundancy = 8"
definition kInputBatchMax :: nat where [kconsts]: "kInputBatchMax = 24"
definition kHistoryMax :: nat where [kconsts]: "kHistoryMax = kInputRedundancy + kInputBatchMax * 2"

section \<open>The sender\<close>

record InputSender =
  sn_history :: "InputEvent list"
  sn_nextSeq :: u32
  sn_firstSeq :: u32
  sn_unsent :: nat
  sn_repeatsLeft :: u32
  sn_lastSendUs :: u64
  sn_sessionId :: u32

definition sn_init :: InputSender where
  "sn_init = \<lparr>sn_history = [], sn_nextSeq = 0, sn_firstSeq = 0, sn_unsent = 0, sn_repeatsLeft = 0,
     sn_lastSendUs = 0, sn_sessionId = 0\<rparr>"

definition sn_SetSessionId :: "InputSender \<Rightarrow> u32 \<Rightarrow> InputSender" where
  "sn_SetSessionId s i = s\<lparr>sn_sessionId := i\<rparr>"

text \<open>The loop of \<open>Queue\<close>.\<close>

function trim_history :: "InputSender \<Rightarrow> InputSender" where
  "trim_history s =
     (if length (sn_history s) > kHistoryMax \<and> length (sn_history s) - sn_unsent s > kInputRedundancy
      then trim_history (s\<lparr>sn_history := tl (sn_history s), sn_firstSeq := sn_firstSeq s + 1\<rparr>) else s)"
  by auto
termination
  by (relation "measure (\<lambda>s. length (sn_history s))") auto

declare trim_history.simps [simp del]

definition sn_Queue :: "InputSender \<Rightarrow> InputEvent \<Rightarrow> InputSender" where
  "sn_Queue s e =
     (let s = (if sn_history s = [] then s\<lparr>sn_firstSeq := sn_nextSeq s\<rparr> else s)
      in trim_history (s\<lparr>sn_history := sn_history s @ [e], sn_nextSeq := sn_nextSeq s + 1, sn_unsent := sn_unsent s + 1\<rparr>))"

definition SendRange :: "InputSender \<Rightarrow> nat \<Rightarrow> nat \<Rightarrow> bytes list checked" where
  "SendRange s start stop =
     (if start \<ge> stop then Some []
      else let n = min (stop - start) kMaxInputEvents in do {
        tmp \<leftarrow> (if start + n \<le> length (sn_history s) then Some (take n (drop start (sn_history s))) else None);
        let d = BuildInputEvents kMaxDatagram (sn_sessionId s) (sn_firstSeq s + of_nat start) tmp in
        Some (if d = [] then [] else [d])
      })"

text \<open>The loop of \<open>Flush\<close>.\<close>

function send_unsent :: "InputSender \<Rightarrow> (InputSender \<times> bytes list) checked" where
  "send_unsent s =
     (if sn_unsent s = 0 then Some (s, [])
      else let total = length (sn_history s);
               newFrom = total - sn_unsent s;
               batch = min (sn_unsent s) kInputBatchMax;
               start = newFrom - min newFrom kInputRedundancy
           in do {
             ds \<leftarrow> SendRange s start (newFrom + batch);
             (s, rest) \<leftarrow> send_unsent (s\<lparr>sn_unsent := sn_unsent s - batch\<rparr>);
             Some (s, ds @ rest)
           })"
  by auto
termination
  by (relation "measure sn_unsent") (auto simp: kconsts)

declare send_unsent.simps [simp del]

definition sn_Flush :: "InputSender \<Rightarrow> u64 \<Rightarrow> bool \<Rightarrow> (InputSender \<times> bytes list) checked" where
  "sn_Flush s nowUs canSend =
     (if sn_history s = [] \<or> \<not> canSend then Some (s, [])
      else if sn_unsent s = 0 then
        if sn_repeatsLeft s = 0 \<or> nowUs - sn_lastSendUs s < kInputRepeatIntervalUs then Some (s, [])
        else let s = s\<lparr>sn_repeatsLeft := sn_repeatsLeft s - 1, sn_lastSendUs := nowUs\<rparr>;
                 stop = length (sn_history s)
             in do {
               ds \<leftarrow> SendRange s (stop - min stop kInputRedundancy) stop;
               Some (s, ds)
             }
      else do {
        (s, ds) \<leftarrow> send_unsent s;
        Some (s\<lparr>sn_repeatsLeft := kInputRepeatCount, sn_lastSendUs := nowUs\<rparr>, ds)
      })"

definition sn_Reset :: "InputSender \<Rightarrow> InputSender" where
  "sn_Reset s = s\<lparr>sn_history := [], sn_nextSeq := 0, sn_firstSeq := 0, sn_unsent := 0, sn_repeatsLeft := 0, sn_lastSendUs := 0\<rparr>"

definition sn_pending :: "InputSender \<Rightarrow> bool" where
  "sn_pending s \<longleftrightarrow> sn_unsent s > 0"

section \<open>The receiver\<close>

record InputStats =
  in_packets :: u64
  in_applied :: u64
  in_duplicates :: u64
  in_lost :: u64

definition in_stats_zero :: InputStats where
  "in_stats_zero = \<lparr>in_packets = 0, in_applied = 0, in_duplicates = 0, in_lost = 0\<rparr>"

record InputReceiver =
  rc_lastAppliedSeq :: int
  rc_stats :: InputStats

definition rc_init :: InputReceiver where
  "rc_init = \<lparr>rc_lastAppliedSeq = -1, rc_stats = in_stats_zero\<rparr>"

text \<open>The loop of \<open>HandlePacket\<close>, from the event numbered \<open>seq\<close>.\<close>

fun apply_events :: "InputReceiver \<Rightarrow> int \<Rightarrow> InputEvent list \<Rightarrow> InputReceiver \<times> InputEvent list" where
  "apply_events r seq [] = (r, [])"
| "apply_events r seq (e # es) =
     (if seq \<le> rc_lastAppliedSeq r
      then apply_events (r\<lparr>rc_stats := (rc_stats r)\<lparr>in_duplicates := in_duplicates (rc_stats r) + 1\<rparr>\<rparr>) (seq + 1) es
      else let lost = (if rc_lastAppliedSeq r \<ge> 0 \<and> seq > rc_lastAppliedSeq r + 1
                       then of_int (seq - rc_lastAppliedSeq r - 1) else 0);
               r = r\<lparr>rc_lastAppliedSeq := seq,
                     rc_stats := (rc_stats r)\<lparr>in_lost := in_lost (rc_stats r) + lost, in_applied := in_applied (rc_stats r) + 1\<rparr>\<rparr>;
               (r, out) = apply_events r (seq + 1) es
           in (r, e # out))"

definition rc_HandlePacket :: "InputReceiver \<Rightarrow> bytes \<Rightarrow> (bool \<times> InputReceiver \<times> InputEvent list) checked" where
  "rc_HandlePacket r payload = do {
     parsed \<leftarrow> ParseInputEvents payload kMaxInputEvents;
     case parsed of
       None \<Rightarrow> Some (False, r, [])
     | Some (firstSeq, events) \<Rightarrow>
         let (r, out) = apply_events (r\<lparr>rc_stats := (rc_stats r)\<lparr>in_packets := in_packets (rc_stats r) + 1\<rparr>\<rparr>)
                          (uint firstSeq) events
         in Some (True, r, out)
   }"

definition rc_Reset :: "InputReceiver \<Rightarrow> InputReceiver" where
  "rc_Reset r = rc_init"

section \<open>What a run of the sender sends\<close>

datatype SenderOp = SenderQueue InputEvent | SenderFlush u64 bool | SenderSession u32

fun sender_step :: "InputSender \<Rightarrow> SenderOp \<Rightarrow> (InputSender \<times> bytes list) checked" where
  "sender_step s (SenderQueue e) = Some (sn_Queue s e, [])"
| "sender_step s (SenderFlush now can) = sn_Flush s now can"
| "sender_step s (SenderSession i) = Some (sn_SetSessionId s i, [])"

fun queued :: "SenderOp list \<Rightarrow> InputEvent list" where
  "queued [] = []"
| "queued (SenderQueue e # xs) = e # queued xs"
| "queued (_ # xs) = queued xs"

text \<open>The sender after the events \<open>evs\<close> have been queued.\<close>

definition sn_base :: "InputEvent list \<Rightarrow> InputSender \<Rightarrow> nat" where
  "sn_base evs s = length evs - length (sn_history s)"

definition sn_inv :: "InputEvent list \<Rightarrow> InputSender \<Rightarrow> bool" where
  "sn_inv evs s \<longleftrightarrow> length (sn_history s) \<le> length evs \<and> sn_history s = drop (sn_base evs s) evs
     \<and> sn_nextSeq s = of_nat (length evs) \<and> (sn_history s \<noteq> [] \<longrightarrow> sn_firstSeq s = of_nat (sn_base evs s))
     \<and> sn_unsent s \<le> length (sn_history s) \<and> (length evs \<noteq> 0 \<longrightarrow> sn_history s \<noteq> [])"

definition sn_sent :: "InputEvent list \<Rightarrow> InputSender \<Rightarrow> nat" where
  "sn_sent evs s = length evs - sn_unsent s"

text \<open>A datagram carries the events from one position up to another.\<close>

definition carries :: "InputEvent list \<Rightarrow> bytes \<Rightarrow> nat \<times> nat \<Rightarrow> bool" where
  "carries evs d iv \<longleftrightarrow> (case iv of (lo, hi) \<Rightarrow> lo < hi \<and> hi \<le> length evs \<and> hi \<le> lo + kMaxInputEvents \<and>
     d \<noteq> [] \<and> (\<exists>sid. d = BuildInputEvents kMaxDatagram sid (of_nat lo) (take (hi - lo) (drop lo evs))))"

lemma sn_init_inv: "sn_inv [] sn_init"
  by (simp add: sn_inv_def sn_init_def sn_base_def)

lemma trim_inv:
  "sn_inv evs s \<Longrightarrow> sn_inv evs (trim_history s) \<and> sn_unsent (trim_history s) = sn_unsent s
     \<and> sn_base evs s \<le> sn_base evs (trim_history s)"
proof (induction s rule: trim_history.induct)
  case (1 s)
  show ?case
  proof (cases "length (sn_history s) > kHistoryMax \<and> length (sn_history s) - sn_unsent s > kInputRedundancy")
    case True
    let ?t = "s\<lparr>sn_history := tl (sn_history s), sn_firstSeq := sn_firstSeq s + 1\<rparr>"
    have base: "sn_base evs ?t = Suc (sn_base evs s)"
      using True 1(2) by (auto simp: sn_base_def sn_inv_def)
    have hist: "sn_history s = drop (sn_base evs s) evs" and len: "length (sn_history s) \<le> length evs"
      and first: "sn_firstSeq s = of_nat (sn_base evs s)" and rest: "sn_nextSeq s = of_nat (length evs)"
      using True 1(2) by (auto simp: sn_inv_def)
    have "tl (sn_history s) = drop (Suc (sn_base evs s)) evs" by (simp add: hist drop_Suc tl_drop)
    moreover have "sn_unsent s \<le> length (tl (sn_history s))" "tl (sn_history s) \<noteq> []" "length (tl (sn_history s)) \<le> length evs"
      using True len by (auto simp: kconsts simp flip: length_0_conv)
    ultimately have "sn_inv evs ?t" unfolding sn_inv_def base by (simp add: first rest)
    then show ?thesis using 1(1) [OF True] True base by (simp add: trim_history.simps [of s])
  next
    case False
    have "trim_history s = s" by (subst trim_history.simps) (simp only: False if_False)
    then show ?thesis using 1(2) by simp
  qed
qed

lemma Queue_inv:
  assumes "sn_inv evs s"
  shows "sn_inv (evs @ [e]) (sn_Queue s e)" "sn_sent (evs @ [e]) (sn_Queue s e) = sn_sent evs s"
    "sn_base evs s \<le> sn_base (evs @ [e]) (sn_Queue s e)"
proof -
  let ?s = "if sn_history s = [] then s\<lparr>sn_firstSeq := sn_nextSeq s\<rparr> else s"
  let ?t = "?s\<lparr>sn_history := sn_history ?s @ [e], sn_nextSeq := sn_nextSeq ?s + 1, sn_unsent := sn_unsent ?s + 1\<rparr>"
  have base: "sn_base (evs @ [e]) ?t = sn_base evs s" by (simp add: sn_base_def)
  have "sn_inv (evs @ [e]) ?t"
    using assms unfolding sn_inv_def base by (auto simp: sn_base_def)
  from trim_inv [OF this] show "sn_inv (evs @ [e]) (sn_Queue s e)" "sn_sent (evs @ [e]) (sn_Queue s e) = sn_sent evs s"
    "sn_base evs s \<le> sn_base (evs @ [e]) (sn_Queue s e)"
    using base by (auto simp: sn_Queue_def Let_def sn_sent_def split: if_splits)
qed

lemma BuildInputEvents_ne: "evs \<noteq> [] \<Longrightarrow> length evs \<le> kMaxInputEvents \<Longrightarrow> BuildInputEvents kMaxDatagram i q evs \<noteq> []"
  by (auto simp: BuildInputEvents_def WriteCommon_def finish_def kconsts)

lemma SendRange_carries:
  assumes inv: "sn_inv evs s" and range: "start < stop" "stop \<le> length (sn_history s)" "stop - start \<le> kMaxInputEvents"
  shows "\<exists>d. SendRange s start stop = Some [d] \<and> carries evs d (sn_base evs s + start, sn_base evs s + stop)"
proof -
  let ?b = "sn_base evs s"
  have hist: "sn_history s = drop ?b evs" "?b + length (sn_history s) = length evs" "sn_firstSeq s = of_nat ?b"
    using inv range by (auto simp: sn_inv_def sn_base_def)
  define part where "part = take (stop - start) (drop (?b + start) evs)"
  have part: "take (stop - start) (drop start (sn_history s)) = part"
    unfolding part_def hist(1) by (simp add: add.commute)
  have "length part = stop - start" using hist(2) range by (simp add: part_def)
  then have ne: "part \<noteq> []" "length part \<le> kMaxInputEvents" using range by auto
  have seq: "sn_firstSeq s + of_nat start = of_nat (?b + start)" using hist(3) by simp
  let ?d = "BuildInputEvents kMaxDatagram (sn_sessionId s) (of_nat (?b + start)) part"
  have "SendRange s start stop = Some [?d]"
    unfolding SendRange_def seq using range part BuildInputEvents_ne [OF ne] by (simp add: Let_def)
  moreover have "carries evs ?d (?b + start, ?b + stop)"
    using range hist(2) BuildInputEvents_ne [OF ne, of "sn_sessionId s" "of_nat (?b + start)"]
    unfolding carries_def part_def by (auto simp del: of_nat_add)
  ultimately show ?thesis by blast
qed

lemma carries_append: "carries evs d iv \<Longrightarrow> carries (evs @ later) d iv"
  by (auto simp: carries_def split: prod.splits)

lemma carries_all_append: "list_all2 (carries evs) ds ivs \<Longrightarrow> list_all2 (carries (evs @ later)) ds ivs"
  by (erule list_all2_mono) (rule carries_append)

text \<open>
  The ranges advance: each starts no earlier than the one before and no later than its end, so that
  together they leave no gap. A position is the start of the last range and its end.
\<close>

fun advances :: "nat \<times> nat \<Rightarrow> (nat \<times> nat) list \<Rightarrow> nat \<times> nat \<Rightarrow> bool" where
  "advances p [] q \<longleftrightarrow> p = q"
| "advances p (iv # ivs) q \<longleftrightarrow> fst p \<le> fst iv \<and> fst iv \<le> snd p \<and> snd p \<le> snd iv \<and> advances iv ivs q"

lemma advances_append: "advances p (xs @ ys) q \<longleftrightarrow> (\<exists>m. advances p xs m \<and> advances m ys q)"
  by (induction xs arbitrary: p) auto

definition covered :: "(nat \<times> nat) list \<Rightarrow> nat set" where
  "covered ivs = (\<Union>iv\<in>set ivs. {fst iv..<snd iv})"

lemma covered_Cons: "covered (iv # ivs) = {fst iv..<snd iv} \<union> covered ivs"
  by (simp add: covered_def)

lemma advances_spec:
  "advances p ivs q \<Longrightarrow> sorted_wrt (\<lambda>a b. fst a \<le> fst b) ivs \<and> (\<forall>iv\<in>set ivs. fst p \<le> fst iv)
     \<and> {snd p..<snd q} \<subseteq> covered ivs"
proof (induction ivs arbitrary: p)
  case (Cons iv ivs)
  then have iv: "fst p \<le> fst iv" "fst iv \<le> snd p" "snd p \<le> snd iv" and rest: "advances iv ivs q" by auto
  have "{snd p..<snd q} \<subseteq> {fst iv..<snd iv} \<union> {snd iv..<snd q}" using iv by auto
  then show ?case using iv Cons.IH [OF rest] by (force simp: covered_def)
qed (auto simp: covered_def)

definition sn_mark :: "InputEvent list \<Rightarrow> InputSender \<Rightarrow> nat" where
  "sn_mark evs s = max (sn_base evs s) (sn_sent evs s - kInputRedundancy)"

lemma back_start: "(b :: nat) + (n - min n r) = max b (b + n - r)"
  by linarith

lemma send_unsent_carries:
  assumes "sn_inv evs s" "L \<le> sn_mark evs s"
  shows "\<exists>ds ivs L'. send_unsent s = Some (s\<lparr>sn_unsent := 0\<rparr>, ds) \<and> list_all2 (carries evs) ds ivs
    \<and> advances (L, sn_sent evs s) ivs (L', length evs) \<and> L' \<le> sn_mark evs (s\<lparr>sn_unsent := 0\<rparr>)"
  using assms
proof (induction s arbitrary: L rule: send_unsent.induct)
  case (1 s)
  show ?case
  proof (cases "sn_unsent s = 0")
    case True
    then have "send_unsent s = Some (s\<lparr>sn_unsent := 0\<rparr>, [])" by (simp add: send_unsent.simps)
    then show ?thesis using True "1.prems" by (intro exI [of _ "[]"] exI [of _ L]) (auto simp: sn_sent_def sn_mark_def sn_base_def)
  next
    case False
    let ?total = "length (sn_history s)" and ?b = "sn_base evs s" and ?S = "sn_sent evs s"
    let ?new = "?total - sn_unsent s" and ?batch = "min (sn_unsent s) kInputBatchMax"
    let ?start = "?new - min ?new kInputRedundancy" and ?t = "s\<lparr>sn_unsent := sn_unsent s - ?batch\<rparr>"
    have un: "sn_unsent s \<le> ?total" "?b + ?total = length evs"
      using "1.prems"(1) by (auto simp: sn_inv_def sn_base_def)
    have S: "?b + ?new = ?S" and S': "sn_sent evs ?t = ?S + ?batch" "?b + (?new + ?batch) = ?S + ?batch"
      using un by (auto simp: sn_sent_def)
    have mark: "?b + ?start = sn_mark evs s" using S by (simp only: sn_mark_def back_start)
    have "?start < ?new + ?batch" "?new + ?batch \<le> ?total" "?new + ?batch - ?start \<le> kMaxInputEvents"
      using False un by (auto simp: kconsts min_def)
    from SendRange_carries [OF "1.prems"(1) this] obtain d where
      d: "SendRange s ?start (?new + ?batch) = Some [d]" "carries evs d (sn_mark evs s, ?S + ?batch)"
      unfolding mark S' by blast
    have "sn_unsent s - ?batch \<le> ?total" using un by linarith
    then have inv: "sn_inv evs ?t" using "1.prems"(1) by (simp add: sn_inv_def sn_base_def)
    have same: "sn_base evs ?t = sn_base evs s" by (simp add: sn_base_def)
    have "sn_mark evs s \<le> sn_mark evs ?t" unfolding sn_mark_def S'(1) same by linarith
    from "1.IH" [OF False refl refl refl refl d(1) inv this] obtain ds ivs L' where
      rest: "send_unsent ?t = Some (s\<lparr>sn_unsent := 0\<rparr>, ds)" "list_all2 (carries evs) ds ivs"
        "advances (sn_mark evs s, ?S + ?batch) ivs (L', length evs)" "L' \<le> sn_mark evs (s\<lparr>sn_unsent := 0\<rparr>)"
      unfolding S' by auto
    have "send_unsent s = Some (s\<lparr>sn_unsent := 0\<rparr>, d # ds)"
      using False d(1) rest(1) by (subst send_unsent.simps) (simp add: Let_def)
    moreover have "advances (L, ?S) ((sn_mark evs s, ?S + ?batch) # ivs) (L', length evs)"
      using rest(3) "1.prems"(2) un S by (auto simp: sn_mark_def)
    ultimately show ?thesis using rest(2,4) d(2) by blast
  qed
qed

lemma sender_step_carries:
  assumes inv: "sn_inv evs s" and mark: "L \<le> sn_mark evs s"
  shows "\<exists>s' ds ivs L'. sender_step s x = Some (s', ds) \<and> sn_inv (evs @ queued [x]) s'
    \<and> list_all2 (carries (evs @ queued [x])) ds ivs
    \<and> advances (L, sn_sent evs s) ivs (L', sn_sent (evs @ queued [x]) s') \<and> L' \<le> sn_mark (evs @ queued [x]) s'
    \<and> (\<forall>now. x = SenderFlush now True \<longrightarrow> sn_unsent s' = 0)"
proof (cases x)
  case (SenderQueue e)
  have "L \<le> sn_mark (evs @ [e]) (sn_Queue s e)"
    using mark Queue_inv(2,3) [OF inv, of e] by (auto simp: sn_mark_def)
  then show ?thesis using SenderQueue Queue_inv(1,2) [OF inv, of e] by force
next
  case (SenderSession i)
  then show ?thesis using inv mark
    by (intro exI [of _ "sn_SetSessionId s i"] exI [of _ "[]"] exI [of _ L])
      (auto simp: sn_SetSessionId_def sn_inv_def sn_base_def sn_sent_def sn_mark_def)
next
  case (SenderFlush now can)
  have fields: "sn_inv evs (t\<lparr>sn_repeatsLeft := a, sn_lastSendUs := b\<rparr>) = sn_inv evs t"
    "sn_sent evs (t\<lparr>sn_repeatsLeft := a, sn_lastSendUs := b\<rparr>) = sn_sent evs t"
    "sn_mark evs (t\<lparr>sn_repeatsLeft := a, sn_lastSendUs := b\<rparr>) = sn_mark evs t" for t a b
    by (auto simp: sn_inv_def sn_base_def sn_sent_def sn_mark_def)
  consider (idle) "sn_Flush s now can = Some (s, [])" "can \<longrightarrow> sn_unsent s = 0"
    | (again) "sn_unsent s = 0" "sn_history s \<noteq> []" "can" "sn_Flush s now can = (let t = s\<lparr>sn_repeatsLeft := sn_repeatsLeft s - 1, sn_lastSendUs := now\<rparr>;
          stop = length (sn_history s) in do { ds \<leftarrow> SendRange t (stop - min stop kInputRedundancy) stop; Some (t, ds) })"
    | (fresh) "sn_unsent s \<noteq> 0" "sn_history s \<noteq> []" "can" "sn_Flush s now can = do { (s, ds) \<leftarrow> send_unsent s; Some (s\<lparr>sn_repeatsLeft := kInputRepeatCount, sn_lastSendUs := now\<rparr>, ds) }"
  proof -
    have empty: "sn_unsent s = 0" if "sn_history s = []" using that inv by (simp add: sn_inv_def)
    show ?thesis
    proof (cases "sn_history s = [] \<or> \<not> can")
      case True
      then have "sn_Flush s now can = Some (s, [])" by (simp only: sn_Flush_def if_True)
      then show ?thesis using idle True empty by blast
    next
      case ready: False
      show ?thesis
      proof (cases "sn_unsent s = 0")
        case True
        then show ?thesis using ready idle again
          by (cases "sn_repeatsLeft s = 0 \<or> now - sn_lastSendUs s < kInputRepeatIntervalUs") (auto simp: sn_Flush_def)
      next
        case False
        then show ?thesis using ready fresh by (auto simp: sn_Flush_def)
      qed
    qed
  qed
  then show ?thesis
  proof cases
    case idle
    then show ?thesis using SenderFlush inv mark by force
  next
    case again
    let ?t = "s\<lparr>sn_repeatsLeft := sn_repeatsLeft s - 1, sn_lastSendUs := now\<rparr>" and ?n = "length (sn_history s)"
    have inv': "sn_inv evs ?t" using inv fields by simp
    have ends: "sn_sent evs s = length evs" "sn_base evs s + ?n = length evs" "sn_base evs ?t = sn_base evs s"
      using again(1) inv by (auto simp: sn_sent_def sn_base_def sn_inv_def)
    have mk: "sn_base evs s + (?n - min ?n kInputRedundancy) = sn_mark evs s"
      using ends by (simp only: sn_mark_def back_start)
    have "?n - min ?n kInputRedundancy < ?n" "?n \<le> length (sn_history ?t)" "?n - (?n - min ?n kInputRedundancy) \<le> kMaxInputEvents"
      using again(2) by (auto simp: kconsts min_def)
    from SendRange_carries [OF inv' this] obtain d where
      "SendRange ?t (?n - min ?n kInputRedundancy) ?n = Some [d]" "carries evs d (sn_mark evs s, length evs)"
      unfolding ends mk by blast
    moreover have "advances (L, sn_sent evs s) [(sn_mark evs s, length evs)] (sn_mark evs s, sn_sent evs s)"
      using mark ends by (auto simp: sn_mark_def)
    ultimately show ?thesis using SenderFlush again inv' fields
      by (intro exI [of _ ?t] exI [of _ "[d]"] exI [of _ "[(sn_mark evs s, length evs)]"] exI [of _ "sn_mark evs s"])
        (auto simp: Let_def)
  next
    case fresh
    let ?t = "s\<lparr>sn_unsent := 0\<rparr>"
    have "sn_inv evs ?t" "sn_sent evs ?t = length evs" using inv by (auto simp: sn_inv_def sn_base_def sn_sent_def)
    moreover obtain ds ivs L' where "send_unsent s = Some (?t, ds)" "list_all2 (carries evs) ds ivs"
      "advances (L, sn_sent evs s) ivs (L', length evs)" "L' \<le> sn_mark evs ?t"
      using send_unsent_carries [OF inv mark] by blast
    ultimately show ?thesis using SenderFlush fresh fields
      by (intro exI [of _ "?t\<lparr>sn_repeatsLeft := kInputRepeatCount, sn_lastSendUs := now\<rparr>"] exI [of _ ds] exI [of _ ivs] exI [of _ L'])
        auto
  qed
qed


lemma queued_append: "queued (xs @ ys) = queued xs @ queued ys"
  by (induction xs rule: queued.induct) simp_all

lemma sender_run_carries:
  assumes "sn_inv evs s" "L \<le> sn_mark evs s"
  shows "\<exists>s' outs ivs L'. run_ops sender_step s xs = Some (s', outs) \<and> sn_inv (evs @ queued xs) s'
    \<and> list_all2 (carries (evs @ queued xs)) (concat outs) ivs
    \<and> advances (L, sn_sent evs s) ivs (L', sn_sent (evs @ queued xs) s') \<and> L' \<le> sn_mark (evs @ queued xs) s'
    \<and> (\<forall>now. xs \<noteq> [] \<longrightarrow> last xs = SenderFlush now True \<longrightarrow> sn_unsent s' = 0)"
  using assms
proof (induction xs arbitrary: evs s L)
  case Nil
  then show ?case by (intro exI [of _ s] exI [of _ "[]"] exI [of _ L]) simp
next
  case (Cons x xs)
  let ?e1 = "evs @ queued [x]" and ?e2 = "evs @ queued (x # xs)"
  have e2: "?e1 @ queued xs = ?e2" using queued_append [of "[x]" xs] by simp
  obtain s1 ds ivs1 L1 where one: "sender_step s x = Some (s1, ds)" "sn_inv ?e1 s1" "list_all2 (carries ?e1) ds ivs1"
    "advances (L, sn_sent evs s) ivs1 (L1, sn_sent ?e1 s1)" "L1 \<le> sn_mark ?e1 s1"
    "\<forall>now. x = SenderFlush now True \<longrightarrow> sn_unsent s1 = 0"
    using sender_step_carries [OF Cons.prems, of x] by (elim exE conjE) (rule that)
  obtain s2 outs ivs2 L2 where two: "run_ops sender_step s1 xs = Some (s2, outs)" "sn_inv ?e2 s2"
    "list_all2 (carries ?e2) (concat outs) ivs2" "advances (L1, sn_sent ?e1 s1) ivs2 (L2, sn_sent ?e2 s2)" "L2 \<le> sn_mark ?e2 s2"
    "\<forall>now. xs \<noteq> [] \<longrightarrow> last xs = SenderFlush now True \<longrightarrow> sn_unsent s2 = 0"
    using Cons.IH [OF one(2,5)] unfolding e2 by blast
  have "list_all2 (carries ?e2) ds ivs1" using carries_all_append [OF one(3), of "queued xs"] unfolding e2 .
  with two(3) have all: "list_all2 (carries ?e2) (concat (ds # outs)) (ivs1 @ ivs2)" by (simp add: list_all2_appendI)
  have "advances (L, sn_sent evs s) (ivs1 @ ivs2) (L2, sn_sent ?e2 s2)" using one(4) two(4) advances_append by blast
  moreover have "run_ops sender_step s (x # xs) = Some (s2, ds # outs)" using one(1) two(1) by simp
  moreover have "last (x # xs) = SenderFlush now True \<longrightarrow> sn_unsent s2 = 0" for now
    using one(6) two(1,6) by (cases "xs = []") auto
  ultimately show ?case using two(2,5) all
    by (intro exI [of _ s2] exI [of _ "ds # outs"] exI [of _ "ivs1 @ ivs2"] exI [of _ L2]) blast
qed

section \<open>What the receiver applies\<close>

text \<open>Datagrams as their host hands them on: the payload, and nothing when there is none.\<close>

fun receive_input :: "InputReceiver \<Rightarrow> bytes list \<Rightarrow> (InputReceiver \<times> InputEvent list) checked" where
  "receive_input r [] = Some (r, [])"
| "receive_input r (d # ds) = do {
     payload \<leftarrow> PayloadOf d;
     (_, r, out) \<leftarrow> rc_HandlePacket r payload;
     (r, rest) \<leftarrow> receive_input r ds;
     Some (r, out @ rest)
   }"

text \<open>The positions applied when the next one to apply is \<open>n\<close>.\<close>

fun applied_from :: "nat \<Rightarrow> (nat \<times> nat) list \<Rightarrow> nat list" where
  "applied_from n [] = []"
| "applied_from n ((lo, hi) # ivs) = [max n lo..<hi] @ applied_from (max n hi) ivs"

lemma apply_events_spec:
  "rc_lastAppliedSeq r = int n - 1 \<Longrightarrow> snd (apply_events r (int a) es) = drop (n - a) es
     \<and> rc_lastAppliedSeq (fst (apply_events r (int a) es)) = (if es \<noteq> [] \<and> n < a + length es then int (a + length es) - 1 else int n - 1)"
proof (induction es arbitrary: r n a)
  case (Cons e es)
  have next_seq: "int a + 1 = int (Suc a)" by simp
  show ?case
  proof (cases "a < n")
    case True
    then have "n - a = Suc (n - Suc a)" by simp
    then show ?thesis using True Cons.prems
        Cons.IH [of "r\<lparr>rc_stats := (rc_stats r)\<lparr>in_duplicates := in_duplicates (rc_stats r) + 1\<rparr>\<rparr>" n "Suc a"]
      by (simp only: apply_events.simps next_seq) simp
  next
    case False
    define r1 where "r1 = r\<lparr>rc_lastAppliedSeq := int a, rc_stats := (rc_stats r)\<lparr>in_lost := in_lost (rc_stats r)
      + (if rc_lastAppliedSeq r \<ge> 0 \<and> int a > rc_lastAppliedSeq r + 1 then of_int (int a - rc_lastAppliedSeq r - 1) else 0),
      in_applied := in_applied (rc_stats r) + 1\<rparr>\<rparr>"
    have "rc_lastAppliedSeq r1 = int (Suc a) - 1" by (simp add: r1_def)
    note IH = Cons.IH [OF this, of "Suc a"]
    have "\<not> int a \<le> rc_lastAppliedSeq r" using False Cons.prems by simp
    then have "apply_events r (int a) (e # es)
        = (fst (apply_events r1 (int (Suc a)) es), e # snd (apply_events r1 (int (Suc a)) es))"
      by (simp only: apply_events.simps next_seq Let_def if_False r1_def case_prod_unfold)
    then show ?thesis using False IH by simp
  qed
qed simp

lemma HandlePacket_carried:
  assumes "carries evs d (lo, hi)" "length evs < 2 ^ 32" "rc_lastAppliedSeq r = int n - 1"
  shows "\<exists>p r'. PayloadOf d = Some p \<and> rc_HandlePacket r p
      = Some (True, r', map (\<lambda>i. seen_event (evs ! i)) [max n lo..<hi])
    \<and> rc_lastAppliedSeq r' = int (max n hi) - 1"
proof -
  obtain sid where iv: "lo < hi" "hi \<le> length evs" "hi \<le> lo + kMaxInputEvents" "d \<noteq> []"
    and d: "d = BuildInputEvents kMaxDatagram sid (of_nat lo) (take (hi - lo) (drop lo evs))"
    using assms(1) by (auto simp: carries_def)
  let ?es = "map seen_event (take (hi - lo) (drop lo evs))"
  have "length (take (hi - lo) (drop lo evs)) \<le> kMaxInputEvents" using iv by simp
  from InputEvents_roundtrip [OF _ this, of kMaxDatagram sid "of_nat lo"]
  have "parse_with (\<lambda>_ p. ParseInputEvents p kMaxInputEvents) d = some_opt (hdr MsgInputEvent 0 ChanInput sid, (of_nat lo, ?es))"
    using iv(4) unfolding d by blast
  then obtain p where p: "PayloadOf d = Some p" "ParseInputEvents p kMaxInputEvents = some_opt (of_nat lo, ?es)"
    by (auto simp: parse_with_def bind_eq_Some_conv split: option.splits)
  have lo: "uint (of_nat lo :: u32) = int lo" using iv assms(2) by (simp add: uint_nat unat_of_nat)
  let ?r = "r\<lparr>rc_stats := (rc_stats r)\<lparr>in_packets := in_packets (rc_stats r) + 1\<rparr>\<rparr>"
  have len: "length ?es = hi - lo" using iv by simp
  have "drop (n - lo) ?es = map (\<lambda>i. seen_event (evs ! i)) [max n lo..<hi]"
    using iv by (intro nth_equalityI) (auto simp: max_def)
  moreover define x where "x = apply_events ?r (int lo) ?es"
  moreover have "rc_HandlePacket r p = Some (True, fst x, snd x)"
    by (simp add: rc_HandlePacket_def p(2) lo x_def case_prod_unfold)
  ultimately show ?thesis
    using apply_events_spec [of ?r n lo ?es] assms(3) p(1) iv unfolding len
    by (intro exI [of _ p] exI [of _ "fst x"]) (auto simp: max_def)
qed

lemma receive_carried:
  assumes "list_all2 (carries evs) ds ivs" "length evs < 2 ^ 32" "rc_lastAppliedSeq r = int n - 1"
  shows "\<exists>r'. receive_input r ds = Some (r', map (\<lambda>i. seen_event (evs ! i)) (applied_from n ivs))"
  using assms(1,3)
proof (induction arbitrary: r n rule: list_all2_induct)
  case (Cons d ds iv ivs)
  obtain lo hi where iv: "iv = (lo, hi)" by (cases iv)
  obtain p r1 where one: "PayloadOf d = Some p"
    "rc_HandlePacket r p = Some (True, r1, map (\<lambda>i. seen_event (evs ! i)) [max n lo..<hi])"
    "rc_lastAppliedSeq r1 = int (max n hi) - 1"
    using HandlePacket_carried [OF Cons.hyps(1) [unfolded iv] assms(2) Cons.prems] by blast
  from Cons.IH [OF one(3)] one(1,2) show ?case by (auto simp: iv)
qed simp

lemma applied_from_sorted: "sorted_wrt (<) (applied_from n ivs) \<and> (\<forall>i\<in>set (applied_from n ivs). n \<le> i)
    \<and> set (applied_from n ivs) \<subseteq> covered ivs"
proof (induction n ivs rule: applied_from.induct)
  case (2 n lo hi ivs)
  note rest = conjunct1 [OF 2] bspec [OF conjunct1 [OF conjunct2 [OF 2]]] conjunct2 [OF conjunct2 [OF 2]]
  have "i < j" if "i \<in> set [max n lo..<hi]" "j \<in> set (applied_from (max n hi) ivs)" for i j
    using that(1) rest(2) [OF that(2)] by simp
  then have "sorted_wrt (<) (applied_from n ((lo, hi) # ivs))" using rest(1) by (simp add: sorted_wrt_append)
  moreover have "n \<le> i" if "i \<in> set (applied_from n ((lo, hi) # ivs))" for i
    using that rest(2) [of i] by (cases "i \<in> set (applied_from (max n hi) ivs)") simp_all
  moreover have "set (applied_from n ((lo, hi) # ivs)) \<subseteq> covered ((lo, hi) # ivs)"
    unfolding applied_from.simps set_append covered_Cons using rest(3) by (intro Un_mono) auto
  ultimately show ?case by blast
qed simp

lemma applied_from_covers:
  "sorted_wrt (\<lambda>a b. fst a \<le> fst b) ivs \<Longrightarrow> set (applied_from n ivs) = {i \<in> covered ivs. n \<le> i}"
proof (induction n ivs rule: applied_from.induct)
  case (2 n lo hi ivs)
  then have rest: "set (applied_from (max n hi) ivs) = {i \<in> covered ivs. max n hi \<le> i}"
    and lows: "\<forall>iv\<in>set ivs. lo \<le> fst iv" by auto
  have "covered ivs \<subseteq> {lo..}" using lows by (force simp: covered_def)
  then show ?case unfolding applied_from.simps set_append rest covered_Cons by auto
qed (simp add: covered_def)

text \<open>
  The receiver compares positions without regard to the wrap of the sender's 32-bit counter: after
  the event numbered \<open>2^32 - 1\<close> it takes every later one for a repetition.
\<close>

lemma wrapped_input_is_dropped:
  assumes "2 ^ 32 - 1 \<le> rc_lastAppliedSeq r" "uint q + int (length es) \<le> 2 ^ 32" "d \<noteq> []"
    and d: "d = BuildInputEvents kMaxDatagram sid (q :: u32) es" and "PayloadOf d = Some p"
  shows "\<exists>r'. rc_HandlePacket r p = Some (True, r', []) \<and> rc_lastAppliedSeq r' = rc_lastAppliedSeq r"
proof -
  have len: "length es \<le> kMaxInputEvents" using assms(3) unfolding d by (auto simp: BuildInputEvents_def split: if_splits)
  have "parse_with (\<lambda>_ p. ParseInputEvents p kMaxInputEvents) d = some_opt (hdr MsgInputEvent 0 ChanInput sid, (q, map seen_event es))"
    using InputEvents_roundtrip [OF _ len] assms(3) unfolding d by blast
  then have p: "ParseInputEvents p kMaxInputEvents = some_opt (q, map seen_event es)"
    using assms(5) by (auto simp: parse_with_def bind_eq_Some_conv split: option.splits)
  define n where "n = nat (rc_lastAppliedSeq r + 1)"
  have n: "rc_lastAppliedSeq r = int n - 1" using assms(1) by (simp add: n_def)
  then have "unat q + length es \<le> n" using assms(1,2) uint_nat [of q] by linarith
  define x where "x = apply_events (r\<lparr>rc_stats := (rc_stats r)\<lparr>in_packets := in_packets (rc_stats r) + 1\<rparr>\<rparr>) (uint q) (map seen_event es)"
  have "rc_HandlePacket r p = Some (True, fst x, snd x)"
    by (simp add: rc_HandlePacket_def p x_def case_prod_unfold)
  moreover have "snd x = drop (n - unat q) (map seen_event es)" "rc_lastAppliedSeq (fst x) = rc_lastAppliedSeq r"
    using apply_events_spec [of "r\<lparr>rc_stats := (rc_stats r)\<lparr>in_packets := in_packets (rc_stats r) + 1\<rparr>\<rparr>" n "unat q" "map seen_event es"]
      n \<open>unat q + length es \<le> n\<close> unfolding uint_nat [symmetric] x_def [symmetric] by simp_all
  ultimately show ?thesis using \<open>unat q + length es \<le> n\<close> by simp
qed


lemma list_all2_select:
  "list_all2 P xs ys \<Longrightarrow> set is \<subseteq> {..<length xs} \<Longrightarrow> list_all2 P (map ((!) xs) is) (map ((!) ys) is)"
  by (auto simp: list_all2_conv_all_nth subset_iff)

lemma sorted_select:
  assumes "sorted_wrt (\<lambda>a b. f a \<le> (f b :: nat)) xs" "sorted is" "set is \<subseteq> {..<length xs}"
  shows "sorted_wrt (\<lambda>a b. f a \<le> f b) (map ((!) xs) is)"
proof -
  have "f (xs ! i) \<le> f (xs ! j)" if "i \<le> j" "j < length xs" for i j
    using that assms(1) by (cases "i = j") (auto simp: sorted_wrt_iff_nth_less)
  then show ?thesis using assms(2,3) by (induction "is") auto
qed

text \<open>
  Any arrival of sent datagrams applies genuine events, each at most once and in order; when none
  overtakes another, exactly those that some datagram brought.
\<close>

lemma input_arrival:
  assumes sent: "list_all2 (carries evs) ds ivs" and adv: "advances (0, 0) ivs q" and few: "length evs < 2 ^ 32"
    and "is": "set is \<subseteq> {..<length ds}"
  shows "\<exists>r' idxs. receive_input rc_init (map ((!) ds) is) = Some (r', map (\<lambda>i. seen_event (evs ! i)) idxs)
    \<and> sorted_wrt (<) idxs \<and> set idxs \<subseteq> covered (map ((!) ivs) is)
    \<and> (sorted is \<longrightarrow> set idxs = covered (map ((!) ivs) is))"
proof -
  let ?ivs = "map ((!) ivs) is"
  have "rc_lastAppliedSeq rc_init = int 0 - 1" by (simp add: rc_init_def)
  from receive_carried [OF list_all2_select [OF sent "is"] few this] obtain r' where
    "receive_input rc_init (map ((!) ds) is) = Some (r', map (\<lambda>i. seen_event (evs ! i)) (applied_from 0 ?ivs))" by blast
  moreover have "set (applied_from 0 ?ivs) = covered ?ivs" if "sorted is"
    using applied_from_covers [of ?ivs 0] sorted_select [OF _ that] advances_spec [OF adv] "is" list_all2_lengthD [OF sent] by auto
  ultimately show ?thesis using applied_from_sorted [of 0 ?ivs] by blast
qed

lemma covered_all:
  assumes "advances (0, 0) ivs (L, n)" "list_all2 (carries evs) ds ivs" "n = length evs"
  shows "covered ivs = {..<length evs}"
proof
  show "covered ivs \<subseteq> {..<length evs}"
    using assms(2) by (fastforce simp: covered_def carries_def in_set_conv_nth list_all2_conv_all_nth)
  show "{..<length evs} \<subseteq> covered ivs" using advances_spec [OF assms(1)] assms(3) by (auto simp: lessThan_atLeast0)
qed

end
