(* ===== verification/KeyCodes.thy ===== *)
theory KeyCodes
  imports Prelude "HOL-Library.Signed_Division"
begin

text \<open>
  Key and pointer codes (\<open>core/include/deskhub/input\<close>: \<open>VirtualKeys.h\<close>, \<open>Set1Scancodes.h\<close>,
  \<open>KeyMap.h\<close>, \<open>ScancodeTable.h\<close>, the integer part of \<open>PointerMap.h\<close>). The code's
  \<open>int32_t\<close> and \<open>int64_t\<close> are \<open>int\<close> here: the tables do no arithmetic that could leave them, and the
  theorems on coordinates and wheel steps state the ranges they need.
\<close>

section \<open>Virtual keys\<close>

definition kVkBack :: int where [kconsts]: "kVkBack = 0x08"
definition kVkTab :: int where [kconsts]: "kVkTab = 0x09"
definition kVkReturn :: int where [kconsts]: "kVkReturn = 0x0D"
definition kVkShift :: int where [kconsts]: "kVkShift = 0x10"
definition kVkControl :: int where [kconsts]: "kVkControl = 0x11"
definition kVkMenu :: int where [kconsts]: "kVkMenu = 0x12"
definition kVkPause :: int where [kconsts]: "kVkPause = 0x13"
definition kVkCapital :: int where [kconsts]: "kVkCapital = 0x14"
definition kVkEscape :: int where [kconsts]: "kVkEscape = 0x1B"
definition kVkSpace :: int where [kconsts]: "kVkSpace = 0x20"
definition kVkPrior :: int where [kconsts]: "kVkPrior = 0x21"
definition kVkNext :: int where [kconsts]: "kVkNext = 0x22"
definition kVkEnd :: int where [kconsts]: "kVkEnd = 0x23"
definition kVkHome :: int where [kconsts]: "kVkHome = 0x24"
definition kVkLeft :: int where [kconsts]: "kVkLeft = 0x25"
definition kVkUp :: int where [kconsts]: "kVkUp = 0x26"
definition kVkRight :: int where [kconsts]: "kVkRight = 0x27"
definition kVkDown :: int where [kconsts]: "kVkDown = 0x28"
definition kVkSnapshot :: int where [kconsts]: "kVkSnapshot = 0x2C"
definition kVkInsert :: int where [kconsts]: "kVkInsert = 0x2D"
definition kVkDelete :: int where [kconsts]: "kVkDelete = 0x2E"
definition kVkLWin :: int where [kconsts]: "kVkLWin = 0x5B"
definition kVkRWin :: int where [kconsts]: "kVkRWin = 0x5C"
definition kVkApps :: int where [kconsts]: "kVkApps = 0x5D"
definition kVkNumpad0 :: int where [kconsts]: "kVkNumpad0 = 0x60"
definition kVkMultiply :: int where [kconsts]: "kVkMultiply = 0x6A"
definition kVkAdd :: int where [kconsts]: "kVkAdd = 0x6B"
definition kVkSubtract :: int where [kconsts]: "kVkSubtract = 0x6D"
definition kVkDecimal :: int where [kconsts]: "kVkDecimal = 0x6E"
definition kVkDivide :: int where [kconsts]: "kVkDivide = 0x6F"
definition kVkF1 :: int where [kconsts]: "kVkF1 = 0x70"
definition kVkNumLock :: int where [kconsts]: "kVkNumLock = 0x90"
definition kVkScroll :: int where [kconsts]: "kVkScroll = 0x91"
definition kVkLShift :: int where [kconsts]: "kVkLShift = 0xA0"
definition kVkRShift :: int where [kconsts]: "kVkRShift = 0xA1"
definition kVkLControl :: int where [kconsts]: "kVkLControl = 0xA2"
definition kVkRControl :: int where [kconsts]: "kVkRControl = 0xA3"
definition kVkLMenu :: int where [kconsts]: "kVkLMenu = 0xA4"
definition kVkRMenu :: int where [kconsts]: "kVkRMenu = 0xA5"
definition kVkOem1 :: int where [kconsts]: "kVkOem1 = 0xBA"
definition kVkOemPlus :: int where [kconsts]: "kVkOemPlus = 0xBB"
definition kVkOemComma :: int where [kconsts]: "kVkOemComma = 0xBC"
definition kVkOemMinus :: int where [kconsts]: "kVkOemMinus = 0xBD"
definition kVkOemPeriod :: int where [kconsts]: "kVkOemPeriod = 0xBE"
definition kVkOem2 :: int where [kconsts]: "kVkOem2 = 0xBF"
definition kVkOem3 :: int where [kconsts]: "kVkOem3 = 0xC0"
definition kVkOem4 :: int where [kconsts]: "kVkOem4 = 0xDB"
definition kVkOem5 :: int where [kconsts]: "kVkOem5 = 0xDC"
definition kVkOem6 :: int where [kconsts]: "kVkOem6 = 0xDD"
definition kVkOem7 :: int where [kconsts]: "kVkOem7 = 0xDE"

definition kScanExtended :: int where [kconsts]: "kScanExtended = 0x100"

datatype ModifierKey = ModifierNone | ModifierShift | ModifierControl | ModifierMenu | ModifierWin | ModifierCapsLock

definition ModifierKeyOf :: "int \<Rightarrow> ModifierKey" where
  "ModifierKeyOf vk =
     (if vk \<in> {kVkShift, kVkLShift, kVkRShift} then ModifierShift
      else if vk \<in> {kVkControl, kVkLControl, kVkRControl} then ModifierControl
      else if vk \<in> {kVkMenu, kVkLMenu, kVkRMenu} then ModifierMenu
      else if vk \<in> {kVkLWin, kVkRWin} then ModifierWin
      else if vk = kVkCapital then ModifierCapsLock
      else ModifierNone)"

section \<open>Scan codes\<close>

abbreviation key_char :: "char \<Rightarrow> int" where
  "key_char c \<equiv> of_char c"

text \<open>The \<open>switch\<close> of \<open>VkToSet1Scancode\<close>, a row for each \<open>case\<close>.\<close>

definition set1_table :: "(int \<times> int) list" where
  "set1_table = [
    (key_char CHR ''A'', 0x1E), (key_char CHR ''B'', 0x30), (key_char CHR ''C'', 0x2E),
    (key_char CHR ''D'', 0x20), (key_char CHR ''E'', 0x12), (key_char CHR ''F'', 0x21),
    (key_char CHR ''G'', 0x22), (key_char CHR ''H'', 0x23), (key_char CHR ''I'', 0x17),
    (key_char CHR ''J'', 0x24), (key_char CHR ''K'', 0x25), (key_char CHR ''L'', 0x26),
    (key_char CHR ''M'', 0x32), (key_char CHR ''N'', 0x31), (key_char CHR ''O'', 0x18),
    (key_char CHR ''P'', 0x19), (key_char CHR ''Q'', 0x10), (key_char CHR ''R'', 0x13),
    (key_char CHR ''S'', 0x1F), (key_char CHR ''T'', 0x14), (key_char CHR ''U'', 0x16),
    (key_char CHR ''V'', 0x2F), (key_char CHR ''W'', 0x11), (key_char CHR ''X'', 0x2D),
    (key_char CHR ''Y'', 0x15), (key_char CHR ''Z'', 0x2C), (kVkEscape, 0x01), (kVkOemMinus, 0x0C),
    (kVkOemPlus, 0x0D), (kVkBack, 0x0E), (kVkTab, 0x0F), (kVkOem4, 0x1A), (kVkOem6, 0x1B),
    (kVkReturn, 0x1C), (kVkControl, 0x1D), (kVkLControl, 0x1D),
    (kVkRControl, 0x1D OR kScanExtended), (kVkOem1, 0x27), (kVkOem7, 0x28), (kVkOem3, 0x29),
    (kVkShift, 0x2A), (kVkLShift, 0x2A), (kVkOem5, 0x2B), (kVkOemComma, 0x33),
    (kVkOemPeriod, 0x34), (kVkOem2, 0x35), (kVkRShift, 0x36), (kVkMultiply, 0x37),
    (kVkSnapshot, 0x37 OR kScanExtended), (kVkMenu, 0x38), (kVkLMenu, 0x38),
    (kVkRMenu, 0x38 OR kScanExtended), (kVkSpace, 0x39), (kVkCapital, 0x3A), (kVkNumLock, 0x45),
    (kVkScroll, 0x46), (kVkNumpad0 + 0, 0x52), (kVkNumpad0 + 1, 0x4F), (kVkNumpad0 + 2, 0x50),
    (kVkNumpad0 + 3, 0x51), (kVkNumpad0 + 4, 0x4B), (kVkNumpad0 + 5, 0x4C), (kVkNumpad0 + 6, 0x4D),
    (kVkNumpad0 + 7, 0x47), (kVkNumpad0 + 8, 0x48), (kVkNumpad0 + 9, 0x49), (kVkSubtract, 0x4A),
    (kVkAdd, 0x4E), (kVkDecimal, 0x53), (kVkDivide, 0x35 OR kScanExtended),
    (kVkHome, 0x47 OR kScanExtended), (kVkUp, 0x48 OR kScanExtended),
    (kVkPrior, 0x49 OR kScanExtended), (kVkLeft, 0x4B OR kScanExtended),
    (kVkRight, 0x4D OR kScanExtended), (kVkEnd, 0x4F OR kScanExtended),
    (kVkDown, 0x50 OR kScanExtended), (kVkNext, 0x51 OR kScanExtended),
    (kVkInsert, 0x52 OR kScanExtended), (kVkDelete, 0x53 OR kScanExtended),
    (kVkLWin, 0x5B OR kScanExtended), (kVkRWin, 0x5C OR kScanExtended),
    (kVkApps, 0x5D OR kScanExtended)]"

definition VkToSet1Scancode :: "int \<Rightarrow> int" where
  "VkToSet1Scancode vk =
     (if key_char CHR ''1'' \<le> vk \<and> vk \<le> key_char CHR ''9'' then 0x02 + (vk - key_char CHR ''1'')
      else if vk = key_char CHR ''0'' then 0x0B
      else if kVkF1 \<le> vk \<and> vk \<le> kVkF1 + 9 then 0x3B + (vk - kVkF1)
      else if vk = kVkF1 + 10 then 0x57
      else if vk = kVkF1 + 11 then 0x58
      else if kVkF1 + 12 \<le> vk \<and> vk \<le> kVkF1 + 19 then 0x64 + (vk - kVkF1 - 12)
      else (case map_of set1_table vk of Some scan \<Rightarrow> scan | None \<Rightarrow> 0))"

definition SidedModifier :: "int \<Rightarrow> int \<Rightarrow> int" where
  "SidedModifier vk scan =
     (if vk = kVkShift then
        if scan = VkToSet1Scancode kVkRShift then kVkRShift
        else if scan = VkToSet1Scancode kVkLShift then kVkLShift else vk
      else if vk = kVkControl then
        if scan = VkToSet1Scancode kVkRControl then kVkRControl
        else if scan = VkToSet1Scancode kVkLControl then kVkLControl else vk
      else if vk = kVkMenu then
        if scan = VkToSet1Scancode kVkRMenu then kVkRMenu
        else if scan = VkToSet1Scancode kVkLMenu then kVkLMenu else vk
      else vk)"

definition NeedsVirtualKeyInjection :: "int \<Rightarrow> bool" where
  "NeedsVirtualKeyInjection vk \<longleftrightarrow> vk = kVkPause"

definition PreferLeftModifier :: "int \<Rightarrow> int" where
  "PreferLeftModifier vk =
     (if vk = kVkShift then kVkLShift else if vk = kVkControl then kVkLControl
      else if vk = kVkMenu then kVkLMenu else vk)"

record 'native ScancodeEntry =
  se_native :: 'native
  se_vk :: int
  se_scan :: int

definition ToWindows :: "'native ScancodeEntry list \<Rightarrow> 'native \<Rightarrow> (int \<times> int) option" where
  "ToWindows entries native =
     map_option (\<lambda>e. (se_vk e, if se_scan e \<noteq> 0 then se_scan e else VkToSet1Scancode (se_vk e)))
       (List.find (\<lambda>e. se_native e = native) entries)"

definition FromWindows :: "'native ScancodeEntry list \<Rightarrow> int \<Rightarrow> 'native option" where
  "FromWindows entries vk =
     map_option se_native (List.find (\<lambda>e. se_vk e = PreferLeftModifier vk) entries)"

section \<open>Typed characters\<close>

record KeyChord =
  kc_vk :: int
  kc_shift :: bool

text \<open>The \<open>switch\<close> of \<open>CharToKeyChord\<close>.\<close>

definition chord_table :: "(int \<times> KeyChord) list" where
  "chord_table = map (\<lambda>(c, vk, shift). (c, \<lparr>kc_vk = vk, kc_shift = shift\<rparr>)) [
    (0x08, kVkBack, False), (0x09, kVkTab, False), (0x0A, kVkReturn, False),
    (0x0D, kVkReturn, False), (key_char CHR '' '', kVkSpace, False),
    (key_char CHR ''!'', key_char CHR ''1'', True), (key_char CHR ''@'', key_char CHR ''2'', True),
    (key_char CHR ''#'', key_char CHR ''3'', True), (key_char CHR ''$'', key_char CHR ''4'', True),
    (key_char CHR ''%'', key_char CHR ''5'', True), (key_char CHR ''^'', key_char CHR ''6'', True),
    (key_char CHR ''&'', key_char CHR ''7'', True), (key_char CHR ''*'', key_char CHR ''8'', True),
    (key_char CHR ''('', key_char CHR ''9'', True), (key_char CHR '')'', key_char CHR ''0'', True),
    (key_char CHR '';'', kVkOem1, False), (key_char CHR '':'', kVkOem1, True),
    (key_char CHR ''='', kVkOemPlus, False), (key_char CHR ''+'', kVkOemPlus, True),
    (key_char CHR '','', kVkOemComma, False), (key_char CHR ''<'', kVkOemComma, True),
    (key_char CHR ''-'', kVkOemMinus, False), (key_char CHR ''_'', kVkOemMinus, True),
    (key_char CHR ''.'', kVkOemPeriod, False), (key_char CHR ''>'', kVkOemPeriod, True),
    (key_char CHR ''/'', kVkOem2, False), (key_char CHR ''?'', kVkOem2, True),
    (0x60, kVkOem3, False), (key_char CHR ''~'', kVkOem3, True),
    (key_char CHR ''['', kVkOem4, False), (key_char CHR ''{'', kVkOem4, True),
    (0x5C, kVkOem5, False), (key_char CHR ''|'', kVkOem5, True),
    (key_char CHR '']'', kVkOem6, False), (key_char CHR ''}'', kVkOem6, True),
    (0x27, kVkOem7, False), (0x22, kVkOem7, True)]"

definition CharToKeyChord :: "u32 \<Rightarrow> KeyChord option" where
  "CharToKeyChord codepoint =
     (let cp = uint codepoint in
      if key_char CHR ''a'' \<le> cp \<and> cp \<le> key_char CHR ''z''
      then Some \<lparr>kc_vk = cp - key_char CHR ''a'' + key_char CHR ''A'', kc_shift = False\<rparr>
      else if key_char CHR ''A'' \<le> cp \<and> cp \<le> key_char CHR ''Z'' then Some \<lparr>kc_vk = cp, kc_shift = True\<rparr>
      else if key_char CHR ''0'' \<le> cp \<and> cp \<le> key_char CHR ''9'' then Some \<lparr>kc_vk = cp, kc_shift = False\<rparr>
      else map_of chord_table cp)"

section \<open>Pointer\<close>

datatype MouseButton = MouseLeft | MouseRight | MouseMiddle | MouseX1 | MouseX2 | MouseRaw u8

fun MouseButton_code :: "MouseButton \<Rightarrow> u8" where
  "MouseButton_code MouseLeft = 1"
| "MouseButton_code MouseRight = 2"
| "MouseButton_code MouseMiddle = 3"
| "MouseButton_code MouseX1 = 4"
| "MouseButton_code MouseX2 = 5"
| "MouseButton_code (MouseRaw b) = b"

definition MouseButton_of :: "u8 \<Rightarrow> MouseButton" where
  "MouseButton_of b =
     (if b = 1 then MouseLeft else if b = 2 then MouseRight else if b = 3 then MouseMiddle
      else if b = 4 then MouseX1 else if b = 5 then MouseX2 else MouseRaw b)"

definition kX11ButtonLeft :: u32 where [kconsts]: "kX11ButtonLeft = 1"
definition kX11ButtonMiddle :: u32 where [kconsts]: "kX11ButtonMiddle = 2"
definition kX11ButtonRight :: u32 where [kconsts]: "kX11ButtonRight = 3"
definition kX11ButtonBack :: u32 where [kconsts]: "kX11ButtonBack = 8"
definition kX11ButtonForward :: u32 where [kconsts]: "kX11ButtonForward = 9"

definition X11ButtonToMouseButton :: "u32 \<Rightarrow> MouseButton option" where
  "X11ButtonToMouseButton x11Button =
     (if x11Button = kX11ButtonLeft then Some MouseLeft
      else if x11Button = kX11ButtonMiddle then Some MouseMiddle
      else if x11Button = kX11ButtonRight then Some MouseRight
      else if x11Button = kX11ButtonBack then Some MouseX1
      else if x11Button = kX11ButtonForward then Some MouseX2
      else None)"

definition kAbsCoordMax :: int where [kconsts]: "kAbsCoordMax = 65535"
definition kWheelDeltaPerNotch :: int where [kconsts]: "kWheelDeltaPerNotch = 120"

definition ClampAbsCoord :: "int \<Rightarrow> int" where
  "ClampAbsCoord normalized =
     (if normalized < 0 then 0 else if normalized > kAbsCoordMax then kAbsCoordMax else normalized)"

definition AbsCoordToPixel :: "int \<Rightarrow> int \<Rightarrow> int \<Rightarrow> int" where
  "AbsCoordToPixel normalized origin pixels =
     (if pixels \<le> 1 then origin
      else let scaled = ClampAbsCoord normalized * (pixels - 1) + kAbsCoordMax sdiv 2
           in origin + scaled sdiv kAbsCoordMax)"

definition AxisToAbsCoord :: "int \<Rightarrow> int \<Rightarrow> int \<Rightarrow> int" where
  "AxisToAbsCoord pixel origin pixels =
     (if pixels \<le> 1 then 0
      else let offset = pixel - origin in
        if offset \<le> 0 then 0
        else let scaled = (offset * kAbsCoordMax) sdiv (pixels - 1)
             in if scaled \<ge> kAbsCoordMax then kAbsCoordMax else scaled)"

text \<open>The notches of a wheel movement and the new carry.\<close>

definition TakeWheelNotches :: "int \<Rightarrow> int \<Rightarrow> int \<times> int" where
  "TakeWheelNotches delta carry =
     (let carry = (if delta > 0 \<and> carry < 0 \<or> delta < 0 \<and> carry > 0 then 0 else carry);
          carry = carry + delta;
          whole = carry sdiv kWheelDeltaPerNotch
      in (whole, carry - whole * kWheelDeltaPerNotch))"

section \<open>Scan codes tell keys apart\<close>

text \<open>The keys a keyboard can send by their own code: all but the three that leave the side open.\<close>

definition known_keys :: "int list" where
  "known_keys = [key_char CHR ''0'', key_char CHR ''1'', key_char CHR ''2'', key_char CHR ''3'', key_char CHR ''4'',
     key_char CHR ''5'', key_char CHR ''6'', key_char CHR ''7'', key_char CHR ''8'', key_char CHR ''9'']
     @ map (\<lambda>i. kVkF1 + int i) [0..<20] @ map fst set1_table"

definition sided_key :: "int \<Rightarrow> bool" where
  "sided_key vk \<longleftrightarrow> vk \<noteq> kVkShift \<and> vk \<noteq> kVkControl \<and> vk \<noteq> kVkMenu"

lemma scancode_known: "VkToSet1Scancode vk \<noteq> 0 \<Longrightarrow> vk \<in> set known_keys"
proof (cases "key_char CHR ''0'' \<le> vk \<and> vk \<le> key_char CHR ''9'' \<or> kVkF1 \<le> vk \<and> vk \<le> kVkF1 + 19")
  case True
  then have "vk \<in> {48, 49, 50, 51, 52, 53, 54, 55, 56, 57, 112, 113, 114, 115, 116, 117, 118, 119, 120, 121, 122, 123, 124,
      125, 126, 127, 128, 129, 130, 131}" by (simp add: kVkF1_def) presburger
  then show ?thesis by (auto simp: known_keys_def kVkF1_def upt_rec_numeral)
next
  case False
  moreover assume "VkToSet1Scancode vk \<noteq> 0"
  ultimately have "map_of set1_table vk \<noteq> None"
    by (auto simp: VkToSet1Scancode_def kVkF1_def split: option.splits if_splits)
  then have "vk \<in> fst ` set set1_table" by (simp add: map_of_eq_None_iff)
  then show ?thesis by (simp add: known_keys_def)
qed

lemma known_keys_distinct: "distinct (map VkToSet1Scancode (filter sided_key known_keys)) \<and> distinct known_keys"
  by code_simp

lemma scancode_inj:
  assumes "VkToSet1Scancode vk = VkToSet1Scancode vk'" "VkToSet1Scancode vk \<noteq> 0" "sided_key vk" "sided_key vk'"
  shows "vk = vk'"
proof -
  have "vk \<in> set (filter sided_key known_keys)" "vk' \<in> set (filter sided_key known_keys)"
    using assms scancode_known by auto
  then show ?thesis using known_keys_distinct assms(1) by (auto simp: distinct_map inj_on_def)
qed

text \<open>A modifier sent with the generic code is recognised by its scan code.\<close>

lemma SidedModifier_sides:
  "SidedModifier kVkShift (VkToSet1Scancode kVkLShift) = kVkLShift" "SidedModifier kVkShift (VkToSet1Scancode kVkRShift) = kVkRShift"
  "SidedModifier kVkControl (VkToSet1Scancode kVkLControl) = kVkLControl" "SidedModifier kVkControl (VkToSet1Scancode kVkRControl) = kVkRControl"
  "SidedModifier kVkMenu (VkToSet1Scancode kVkLMenu) = kVkLMenu" "SidedModifier kVkMenu (VkToSet1Scancode kVkRMenu) = kVkRMenu"
  by code_simp+

lemma SidedModifier_sided: "sided_key vk \<Longrightarrow> SidedModifier vk scan = vk"
  by (simp add: SidedModifier_def sided_key_def)

section \<open>Typed characters are told apart\<close>

text \<open>The characters a chord exists for; a line feed is typed as the return key.\<close>

definition typed :: "int \<Rightarrow> bool" where
  "typed c \<longleftrightarrow> c \<in> {8, 9, 13} \<or> 32 \<le> c \<and> c \<le> 126"

lemma chords_checked:
  "list_all (\<lambda>c. case CharToKeyChord (of_nat c) of Some k \<Rightarrow> VkToSet1Scancode (kc_vk k) \<noteq> 0 | None \<Rightarrow> \<not> typed (int c)) [0..<128]"
  "distinct (map (\<lambda>c. CharToKeyChord (of_nat c)) (filter (\<lambda>c. typed (int c)) [0..<128]))"
  by code_simp+

section \<open>Pointer positions\<close>

lemma ClampAbsCoord_range: "0 \<le> ClampAbsCoord n \<and> ClampAbsCoord n \<le> kAbsCoordMax"
  by (simp add: ClampAbsCoord_def kAbsCoordMax_def)

lemma AbsCoordToPixel_range:
  assumes "0 < pixels"
  shows "origin \<le> AbsCoordToPixel n origin pixels \<and> AbsCoordToPixel n origin pixels < origin + pixels"
proof (cases "pixels = 1")
  case False
  let ?s = "ClampAbsCoord n * (pixels - 1)"
  have "0 \<le> ?s" "?s \<le> 65535 * (pixels - 1)"
    using ClampAbsCoord_range [of n] assms mult_right_mono [of "ClampAbsCoord n" 65535 "pixels - 1"] by (simp_all add: kAbsCoordMax_def)
  then have "0 \<le> (?s + 32767) div 65535" "(?s + 32767) div 65535 \<le> pixels - 1" by simp_all
  then show ?thesis using False assms \<open>0 \<le> ?s\<close>
    by (simp add: AbsCoordToPixel_def Let_def kAbsCoordMax_def signed_divide_int_def sgn_if)
qed (simp add: AbsCoordToPixel_def)

text \<open>A position on a screen of at most 32,769 pixels survives the way over the wire.\<close>

lemma pixel_roundtrip:
  assumes "origin \<le> p" "p < origin + pixels" "pixels \<le> 32769"
  shows "AbsCoordToPixel (AxisToAbsCoord p origin pixels) origin pixels = p"
proof (cases "p = origin")
  case True
  then show ?thesis by (simp add: AxisToAbsCoord_def AbsCoordToPixel_def ClampAbsCoord_def Let_def kAbsCoordMax_def signed_divide_int_def sgn_if)
next
  case False
  define d where "d = pixels - 1"
  define k where "k = p - origin"
  have k: "0 < k" "k \<le> d" "d \<le> 32768" using assms False by (simp_all add: d_def k_def)
  define q where "q = k * 65535 div d"
  have q: "0 \<le> q" "q \<le> 65535" "q * d \<le> k * 65535" "k * 65535 - d < q * d"
  proof -
    have "q * d + k * 65535 mod d = k * 65535" unfolding q_def by simp
    moreover have "0 \<le> k * 65535 mod d" "k * 65535 mod d < d" using k by simp_all
    ultimately show "q * d \<le> k * 65535" "k * 65535 - d < q * d" by linarith+
    show "0 \<le> q" using k by (simp add: q_def pos_imp_zdiv_nonneg_iff)
    have "q \<le> d * 65535 div d" unfolding q_def using k by (intro zdiv_mono1) auto
    then show "q \<le> 65535" using k by simp
  qed
  have scaled: "(k * kAbsCoordMax) sdiv d = q" using k by (simp add: signed_divide_int_def sgn_if q_def kAbsCoordMax_def)
  have "AxisToAbsCoord p origin pixels = q"
    using k q scaled by (simp add: AxisToAbsCoord_def Let_def d_def [symmetric] k_def [symmetric] kAbsCoordMax_def) (auto simp: d_def)
  moreover have "0 \<le> q * d + 32767" using q(1) k by simp
  then have "AbsCoordToPixel q origin pixels = origin + (q * d + 32767) div 65535"
    using k q by (auto simp: AbsCoordToPixel_def ClampAbsCoord_def Let_def kAbsCoordMax_def signed_divide_int_def sgn_if d_def)
  moreover have "(q * d + 32767) div 65535 = k"
    using q k by (intro int_div_pos_eq [where r = "q * d + 32767 - k * 65535"]) linarith+
  ultimately show ?thesis by (simp add: k_def)
qed

text \<open>No part of a wheel movement in one direction is lost, and less than a notch stays behind.\<close>

lemma wheel_conserved:
  assumes "TakeWheelNotches delta carry = (n, carry')"
  shows "n * 120 + carry' = delta + (if delta > 0 \<and> carry < 0 \<or> delta < 0 \<and> carry > 0 then 0 else carry)"
    "\<bar>carry'\<bar> < 120"
proof -
  let ?c = "(if delta > 0 \<and> carry < 0 \<or> delta < 0 \<and> carry > 0 then 0 else carry) + delta"
  have r: "n = ?c sdiv 120" "carry' = ?c - ?c sdiv 120 * 120"
    using assms by (simp_all add: TakeWheelNotches_def Let_def kWheelDeltaPerNotch_def)
  then show "n * 120 + carry' = delta + (if delta > 0 \<and> carry < 0 \<or> delta < 0 \<and> carry > 0 then 0 else carry)" by simp
  have "\<bar>c - c sdiv 120 * 120\<bar> < 120" for c :: int
  proof (cases "0 \<le> c")
    case True
    then have "c sdiv 120 = c div 120" by (simp add: signed_divide_int_def sgn_if)
    then have "c - c sdiv 120 * 120 = c mod 120" by (simp add: minus_div_mult_eq_mod)
    then show ?thesis by simp
  next
    case False
    then have "c sdiv 120 = - (- c div 120)" by (simp add: signed_divide_int_def sgn_if)
    then have "c - c sdiv 120 * 120 = - (- c mod 120)" using minus_div_mult_eq_mod [of "- c" 120] by simp
    then show ?thesis by simp
  qed
  then show "\<bar>carry'\<bar> < 120" using r(2) by simp
qed

end
