(* ===== verification/InputQueue.thy ===== *)
theory InputQueue
  imports KeyCodes WireTypes OrdMap
begin

text \<open>
  The two ends of remote input: the viewer's queue of events (\<open>core/src/input/ClientInputQueue.cpp\<close>)
  and the host's record of what it holds pressed, with the code that applies an event
  (\<open>core/include/deskhub/input/PressedInputTracker.h\<close>, \<open>InputApplier.h\<close>, on the back end of
  \<open>client/windows/cpp/input/InputInjector.cpp\<close>). Locks are not modelled: every operation of the queue
  takes its lock for its whole duration. The scan code the system knows for a virtual key
  (\<open>MapVirtualKeyW\<close>) is a parameter.
\<close>

section \<open>The viewer's queue\<close>

definition kTapHoldUs :: u64 where [kconsts]: "kTapHoldUs = 50000"

record ClientInputQueue =
  iq_ready :: "InputEvent list"
  iq_delayed :: "(u64 \<times> InputEvent) list"
  iq_keysDown :: "(int, int) omap"
  iq_buttonsDown :: "(int, unit) omap"
  iq_wantFocus :: bool

definition iq_init :: ClientInputQueue where
  "iq_init = \<lparr>iq_ready = [], iq_delayed = [], iq_keysDown = [], iq_buttonsDown = [], iq_wantFocus = False\<rparr>"

definition KeyEvent :: "int \<Rightarrow> int \<Rightarrow> bool \<Rightarrow> u64 \<Rightarrow> InputEvent" where
  "KeyEvent vk scan down nowUs =
     \<lparr>ev_type = InputKey, ev_timestampUs = nowUs, ev_a = of_int vk,
      ev_b = (if NeedsVirtualKeyInjection vk then 0 else of_int scan), ev_state = (if down then 1 else 0), ev_absolute = 0\<rparr>"

definition ButtonEvent :: "int \<Rightarrow> bool \<Rightarrow> u64 \<Rightarrow> InputEvent" where
  "ButtonEvent button down nowUs =
     \<lparr>ev_type = InputMouseButton, ev_timestampUs = nowUs, ev_a = of_int button, ev_b = 0,
      ev_state = (if down then 1 else 0), ev_absolute = 0\<rparr>"

definition PushLocked :: "ClientInputQueue \<Rightarrow> InputEvent \<Rightarrow> ClientInputQueue" where
  "PushLocked q e = q\<lparr>iq_ready := iq_ready q @ [e], iq_wantFocus := True\<rparr>"

definition push_delayed :: "ClientInputQueue \<Rightarrow> u64 \<Rightarrow> InputEvent \<Rightarrow> ClientInputQueue" where
  "push_delayed q at e = q\<lparr>iq_delayed := iq_delayed q @ [(at, e)]\<rparr>"

definition iq_Key :: "ClientInputQueue \<Rightarrow> int \<Rightarrow> int \<Rightarrow> bool \<Rightarrow> u64 \<Rightarrow> ClientInputQueue" where
  "iq_Key q vk scan down nowUs =
     (let e = KeyEvent vk scan down nowUs;
          q = q\<lparr>iq_keysDown := (if down then om_put vk scan (iq_keysDown q) else om_erase vk (iq_keysDown q))\<rparr>
      in PushLocked q e)"

definition iq_KeyTap :: "ClientInputQueue \<Rightarrow> int \<Rightarrow> int \<Rightarrow> u64 \<Rightarrow> ClientInputQueue" where
  "iq_KeyTap q vk scan nowUs =
     (let q = PushLocked q (KeyEvent vk scan True nowUs)
      in push_delayed q (nowUs + kTapHoldUs) (KeyEvent vk scan False nowUs))"

definition iq_KeyChord :: "ClientInputQueue \<Rightarrow> int \<Rightarrow> int \<Rightarrow> int \<Rightarrow> int \<Rightarrow> u64 \<Rightarrow> ClientInputQueue" where
  "iq_KeyChord q modVk modScan vk scan nowUs =
     (let q = PushLocked q (KeyEvent modVk modScan True nowUs);
          q = PushLocked q (KeyEvent vk scan True nowUs);
          q = push_delayed q (nowUs + kTapHoldUs) (KeyEvent vk scan False nowUs)
      in push_delayed q (nowUs + kTapHoldUs) (KeyEvent modVk modScan False nowUs))"

definition iq_CharTap :: "ClientInputQueue \<Rightarrow> u32 \<Rightarrow> u64 \<Rightarrow> bool \<times> ClientInputQueue" where
  "iq_CharTap q codepoint nowUs =
     (case CharToKeyChord codepoint of
        None \<Rightarrow> (False, q)
      | Some chord \<Rightarrow>
          let q = (if kc_shift chord then PushLocked q (KeyEvent kVkShift 0 True nowUs) else q);
              q = PushLocked q (KeyEvent (kc_vk chord) 0 True nowUs);
              q = (if kc_shift chord then PushLocked q (KeyEvent kVkShift 0 False nowUs) else q)
          in (True, push_delayed q (nowUs + kTapHoldUs) (KeyEvent (kc_vk chord) 0 False nowUs)))"

definition iq_MouseMoveAbsolute :: "ClientInputQueue \<Rightarrow> int \<Rightarrow> int \<Rightarrow> u64 \<Rightarrow> ClientInputQueue" where
  "iq_MouseMoveAbsolute q nx ny nowUs =
     PushLocked q \<lparr>ev_type = InputMouseMove, ev_timestampUs = nowUs, ev_a = of_int (ClampAbsCoord nx),
       ev_b = of_int (ClampAbsCoord ny), ev_state = 0, ev_absolute = 1\<rparr>"

definition iq_MouseButtonEvent :: "ClientInputQueue \<Rightarrow> int \<Rightarrow> bool \<Rightarrow> u64 \<Rightarrow> ClientInputQueue" where
  "iq_MouseButtonEvent q button down nowUs =
     (let q = q\<lparr>iq_buttonsDown := (if down then om_put button () (iq_buttonsDown q) else om_erase button (iq_buttonsDown q))\<rparr>
      in PushLocked q (ButtonEvent button down nowUs))"

definition iq_MouseWheel :: "ClientInputQueue \<Rightarrow> int \<Rightarrow> u64 \<Rightarrow> ClientInputQueue" where
  "iq_MouseWheel q delta nowUs =
     (if delta = 0 then q
      else PushLocked q \<lparr>ev_type = InputMouseWheel, ev_timestampUs = nowUs, ev_a = 0, ev_b = of_int delta,
             ev_state = 0, ev_absolute = 0\<rparr>)"

definition iq_ReleaseAll :: "ClientInputQueue \<Rightarrow> u64 \<Rightarrow> ClientInputQueue" where
  "iq_ReleaseAll q nowUs =
     (let q = foldl (\<lambda>q (vk, scan). PushLocked q (KeyEvent vk scan False nowUs)) q (iq_keysDown q);
          q = q\<lparr>iq_keysDown := []\<rparr>;
          q = foldl (\<lambda>q (button, _). PushLocked q (ButtonEvent button False nowUs)) q (iq_buttonsDown q)
      in q\<lparr>iq_buttonsDown := []\<rparr>)"

definition iq_Drain :: "ClientInputQueue \<Rightarrow> u64 \<Rightarrow> InputEvent list \<times> ClientInputQueue" where
  "iq_Drain q nowUs =
     (let expired = filter (\<lambda>d. fst d \<le> nowUs) (iq_delayed q)
      in (iq_ready q @ map snd expired,
          q\<lparr>iq_ready := [], iq_delayed := filter (\<lambda>d. \<not> fst d \<le> nowUs) (iq_delayed q)\<rparr>))"

section \<open>What the host holds pressed\<close>

record InputGate =
  ig_allow :: bool
  ig_justSuppressed :: bool
  ig_justResumed :: bool

text \<open>Buttons are kept by their number, the order in which \<open>std::set\<close> visits them.\<close>

record 'native PressedInputTracker =
  pt_keys :: "(int, 'native) omap"
  pt_buttons :: "(u8, unit) omap"
  pt_suppressed :: bool
  pt_applied :: u64
  pt_skipped :: u64

definition pt_init :: "'native PressedInputTracker" where
  "pt_init = \<lparr>pt_keys = [], pt_buttons = [], pt_suppressed = False, pt_applied = 0, pt_skipped = 0\<rparr>"

definition pt_Gate :: "'native PressedInputTracker \<Rightarrow> bool \<Rightarrow> InputGate \<times> 'native PressedInputTracker" where
  "pt_Gate t localActive =
     (if localActive
      then (\<lparr>ig_allow = False, ig_justSuppressed = \<not> pt_suppressed t, ig_justResumed = False\<rparr>,
            t\<lparr>pt_suppressed := True, pt_skipped := pt_skipped t + 1\<rparr>)
      else (\<lparr>ig_allow = True, ig_justSuppressed = False, ig_justResumed = pt_suppressed t\<rparr>,
            t\<lparr>pt_suppressed := False\<rparr>))"

definition pt_CountApplied :: "'native PressedInputTracker \<Rightarrow> 'native PressedInputTracker" where
  "pt_CountApplied t = t\<lparr>pt_applied := pt_applied t + 1\<rparr>"

definition pt_SetKey :: "'native PressedInputTracker \<Rightarrow> int \<Rightarrow> 'native \<Rightarrow> bool \<Rightarrow> 'native PressedInputTracker" where
  "pt_SetKey t i native down = t\<lparr>pt_keys := (if down then om_put i native (pt_keys t) else om_erase i (pt_keys t))\<rparr>"

definition pt_FindKey :: "'native PressedInputTracker \<Rightarrow> int \<Rightarrow> 'native option" where
  "pt_FindKey t i = map_of (pt_keys t) i"

definition pt_SetButton :: "'native PressedInputTracker \<Rightarrow> MouseButton \<Rightarrow> bool \<Rightarrow> 'native PressedInputTracker" where
  "pt_SetButton t button down =
     t\<lparr>pt_buttons := (if down then om_put (MouseButton_code button) () (pt_buttons t)
                     else om_erase (MouseButton_code button) (pt_buttons t))\<rparr>"

definition pt_ButtonIsDown :: "'native PressedInputTracker \<Rightarrow> MouseButton \<Rightarrow> bool" where
  "pt_ButtonIsDown t button \<longleftrightarrow> map_of (pt_buttons t) (MouseButton_code button) \<noteq> None"

definition pt_TakeHeldKeys :: "'native PressedInputTracker \<Rightarrow> (int \<times> 'native) list \<times> 'native PressedInputTracker" where
  "pt_TakeHeldKeys t = (pt_keys t, t\<lparr>pt_keys := []\<rparr>)"

definition pt_TakeHeldButtons :: "'native PressedInputTracker \<Rightarrow> MouseButton list \<times> 'native PressedInputTracker" where
  "pt_TakeHeldButtons t = (map (\<lambda>(b, _). MouseButton_of b) (pt_buttons t), t\<lparr>pt_buttons := []\<rparr>)"

definition pt_nothingHeld :: "'native PressedInputTracker \<Rightarrow> bool" where
  "pt_nothingHeld t \<longleftrightarrow> pt_keys t = [] \<and> pt_buttons t = []"

section \<open>Applying an event\<close>

text \<open>What the system is asked to do.\<close>

datatype Injected =
  InjectScan int bool bool | InjectVk int bool | InjectButton MouseButton bool | InjectMoveAbsolute int int
  | InjectMoveRelative int int | InjectWheel int

type_synonym injector = "int PressedInputTracker \<times> Injected list"

definition in_SendKey :: "(int \<Rightarrow> int) \<Rightarrow> injector \<Rightarrow> int \<Rightarrow> int \<Rightarrow> bool \<Rightarrow> injector" where
  "in_SendKey mapvk st vk scan down =
     (let t = pt_SetKey (fst st) vk scan down;
          scan = (if NeedsVirtualKeyInjection vk then 0 else if scan AND 0xFF = 0 then mapvk vk else scan)
      in (t, snd st @ [if scan AND 0xFF \<noteq> 0 then InjectScan (scan AND 0xFF) (scan AND kScanExtended \<noteq> 0) down
                       else InjectVk vk down]))"

fun ButtonFlag :: "MouseButton \<Rightarrow> bool" where
  "ButtonFlag (MouseRaw b) = False"
| "ButtonFlag _ = True"

definition in_SendButton :: "injector \<Rightarrow> MouseButton \<Rightarrow> bool \<Rightarrow> injector" where
  "in_SendButton st btn down =
     (pt_SetButton (fst st) btn down, snd st @ (if ButtonFlag btn then [InjectButton btn down] else []))"

definition in_ReleaseKey :: "(int \<Rightarrow> int) \<Rightarrow> injector \<Rightarrow> int \<Rightarrow> int \<Rightarrow> injector" where
  "in_ReleaseKey mapvk st vk native = in_SendKey mapvk st vk native False"

definition ReleaseAllHeld :: "(int \<Rightarrow> int) \<Rightarrow> injector \<Rightarrow> injector" where
  "ReleaseAllHeld mapvk st =
     (let (keys, t) = pt_TakeHeldKeys (fst st);
          st = foldl (\<lambda>st (i, native). in_ReleaseKey mapvk st i native) (t, snd st) keys;
          (buttons, t) = pt_TakeHeldButtons (fst st)
      in foldl (\<lambda>st button. in_SendButton st button False) (t, snd st) buttons)"

definition in_ReleaseAll :: "(int \<Rightarrow> int) \<Rightarrow> injector \<Rightarrow> injector" where
  "in_ReleaseAll mapvk st = (if pt_nothingHeld (fst st) then st else ReleaseAllHeld mapvk st)"

text \<open>The parameters of an event as the code's \<open>int32_t\<close>.\<close>

abbreviation ev_ia :: "InputEvent \<Rightarrow> int" where "ev_ia e \<equiv> sint (ev_a e)"
abbreviation ev_ib :: "InputEvent \<Rightarrow> int" where "ev_ib e \<equiv> sint (ev_b e)"

definition ReleaseEvenWhileSuppressed :: "(int \<Rightarrow> int) \<Rightarrow> injector \<Rightarrow> InputEvent \<Rightarrow> bool \<times> injector" where
  "ReleaseEvenWhileSuppressed mapvk st e =
     (if ev_state e \<noteq> 0 then (False, st)
      else if ev_type e = InputKey then
        let vk = SidedModifier (ev_ia e) (ev_ib e) in
        if pt_FindKey (fst st) vk = None then (False, st) else (True, in_SendKey mapvk st vk (ev_ib e) False)
      else if ev_type e = InputMouseButton then
        let button = MouseButton_of (ucast (ev_a e)) in
        if \<not> pt_ButtonIsDown (fst st) button then (False, st) else (True, in_SendButton st button False)
      else (False, st))"

definition DispatchInput :: "(int \<Rightarrow> int) \<Rightarrow> injector \<Rightarrow> InputEvent \<Rightarrow> bool \<Rightarrow> bool \<times> injector" where
  "DispatchInput mapvk st e localActive =
     (let (gate, t) = pt_Gate (fst st) localActive; st = (t, snd st) in
      if \<not> ig_allow gate then
        ReleaseEvenWhileSuppressed mapvk (if ig_justSuppressed gate then in_ReleaseAll mapvk st else st) e
      else let counted = (\<lambda>st. (True, (pt_CountApplied (fst st), snd st))) in
        case ev_type e of
          InputKey \<Rightarrow> counted (in_SendKey mapvk st (SidedModifier (ev_ia e) (ev_ib e)) (ev_ib e) (ev_state e \<noteq> 0))
        | InputMouseMove \<Rightarrow>
            if ev_absolute e \<noteq> 0 then counted (fst st, snd st @ [InjectMoveAbsolute (ev_ia e) (ev_ib e)])
            else counted (fst st, snd st @ [InjectMoveRelative (ev_ia e) (ev_ib e)])
        | InputMouseButton \<Rightarrow> counted (in_SendButton st (MouseButton_of (ucast (ev_a e))) (ev_state e \<noteq> 0))
        | InputMouseWheel \<Rightarrow> counted (fst st, snd st @ [InjectWheel (ev_ib e)])
        | InputRaw _ \<Rightarrow> (False, st))"


section \<open>Releasing everything that is held\<close>

abbreviation held_keys :: "'native PressedInputTracker \<Rightarrow> int set" where
  "held_keys t \<equiv> fst ` set (pt_keys t)"

abbreviation held_buttons :: "'native PressedInputTracker \<Rightarrow> u8 set" where
  "held_buttons t \<equiv> fst ` set (pt_buttons t)"

lemma om_erase_keys: "fst ` set (om_erase k m) = fst ` set m - {k}"
  by (auto simp: om_erase_def)

lemma MouseButton_code_of [simp]: "MouseButton_code (MouseButton_of b) = b"
  by (simp add: MouseButton_of_def)

lemma SendKey_tracker: "fst (in_SendKey mapvk st vk scan down) = pt_SetKey (fst st) vk scan down"
  by (simp add: in_SendKey_def Let_def)

lemma SendButton_tracker: "fst (in_SendButton st b down) = pt_SetButton (fst st) b down"
  by (simp add: in_SendButton_def)

lemma release_keys:
  "held_keys (fst (foldl (\<lambda>st (i, native). in_ReleaseKey mapvk st i native) st ks)) = held_keys (fst st) - fst ` set ks
    \<and> held_buttons (fst (foldl (\<lambda>st (i, native). in_ReleaseKey mapvk st i native) st ks)) = held_buttons (fst st)"
  by (induction ks arbitrary: st)
    (auto simp: in_ReleaseKey_def SendKey_tracker pt_SetKey_def om_erase_keys split: prod.splits)

lemma release_buttons:
  "held_buttons (fst (foldl (\<lambda>st b. in_SendButton st b False) st bs)) = held_buttons (fst st) - MouseButton_code ` set bs
    \<and> held_keys (fst (foldl (\<lambda>st b. in_SendButton st b False) st bs)) = held_keys (fst st)"
  by (induction bs arbitrary: st) (auto simp: SendButton_tracker pt_SetButton_def om_erase_keys)

lemma ReleaseAll_nothing: "pt_nothingHeld (fst (in_ReleaseAll mapvk st))"
proof (cases "pt_nothingHeld (fst st)")
  case False
  let ?st = "foldl (\<lambda>st (i, native). in_ReleaseKey mapvk st i native) ((fst st)\<lparr>pt_keys := []\<rparr>, snd st) (pt_keys (fst st))"
  let ?r = "ReleaseAllHeld mapvk st"
  have "held_keys (fst ?st) = {}" using release_keys [of mapvk "((fst st)\<lparr>pt_keys := []\<rparr>, snd st)"] by simp
  then have "held_keys (fst ?r) = {}" "held_buttons (fst ?r) = {}"
    using release_buttons [of "((fst ?st)\<lparr>pt_buttons := []\<rparr>, snd ?st)"]
    by (simp_all add: ReleaseAllHeld_def pt_TakeHeldKeys_def pt_TakeHeldButtons_def Let_def)
  then show ?thesis using False by (simp add: in_ReleaseAll_def pt_nothingHeld_def)
qed (simp add: in_ReleaseAll_def)

text \<open>When the local user takes over, everything is let go, and until they rest nothing is pressed.\<close>

lemma local_user_wins:
  assumes "DispatchInput mapvk st e True = (ok, st')"
  shows "(\<not> pt_suppressed (fst st) \<longrightarrow> pt_nothingHeld (fst st'))
    \<and> held_keys (fst st') \<subseteq> held_keys (fst st) \<and> held_buttons (fst st') \<subseteq> held_buttons (fst st)"
proof -
  let ?t = "(fst st)\<lparr>pt_suppressed := True, pt_skipped := pt_skipped (fst st) + 1\<rparr>"
  let ?s = "if \<not> pt_suppressed (fst st) then in_ReleaseAll mapvk (?t, snd st) else (?t, snd st)"
  define s where "s = ?s"
  have st': "st' = snd (ReleaseEvenWhileSuppressed mapvk s e)"
    using assms by (simp add: DispatchInput_def pt_Gate_def Let_def s_def split: if_splits)
  have less: "held_keys (fst st') \<subseteq> held_keys (fst s)" "held_buttons (fst st') \<subseteq> held_buttons (fst s)"
    unfolding st'
    by (auto simp: ReleaseEvenWhileSuppressed_def Let_def SendKey_tracker SendButton_tracker pt_SetKey_def pt_SetButton_def om_erase_keys)
  have "held_keys (fst s) = {}" "held_buttons (fst s) = {}" if "\<not> pt_suppressed (fst st)"
    using that ReleaseAll_nothing [of mapvk "(?t, snd st)"] by (simp_all add: pt_nothingHeld_def s_def)
  moreover have "held_keys (fst s) = held_keys (fst st)" "held_buttons (fst s) = held_buttons (fst st)" if "pt_suppressed (fst st)"
    using that by (simp_all add: s_def)
  ultimately show ?thesis using less unfolding pt_nothingHeld_def by (cases "pt_suppressed (fst st)") auto
qed

section \<open>No key stays pressed\<close>

text \<open>The key and the button an event is about, as the host tells them apart.\<close>

definition event_key :: "InputEvent \<Rightarrow> int" where
  "event_key e = SidedModifier (ev_ia e) (ev_ib e)"

definition keys_after :: "int set \<Rightarrow> InputEvent \<Rightarrow> int set" where
  "keys_after K e = (if ev_type e = InputKey then if ev_state e \<noteq> 0 then insert (event_key e) K else K - {event_key e} else K)"

definition buttons_after :: "u8 set \<Rightarrow> InputEvent \<Rightarrow> u8 set" where
  "buttons_after B e = (if ev_type e = InputMouseButton
     then if ev_state e \<noteq> 0 then insert (ucast (ev_a e)) B else B - {ucast (ev_a e)} else B)"

definition host_applies :: "(int \<Rightarrow> int) \<Rightarrow> injector \<Rightarrow> InputEvent list \<Rightarrow> injector" where
  "host_applies mapvk = foldl (\<lambda>st e. snd (DispatchInput mapvk st e False))"

lemma Dispatch_held:
  "held_keys (fst (snd (DispatchInput mapvk st e False))) = keys_after (held_keys (fst st)) e"
  "held_buttons (fst (snd (DispatchInput mapvk st e False))) = buttons_after (held_buttons (fst st)) e"
  by (auto simp: DispatchInput_def pt_Gate_def Let_def keys_after_def buttons_after_def event_key_def SendKey_tracker
      SendButton_tracker pt_SetKey_def pt_SetButton_def pt_CountApplied_def om_erase_keys split: InputType.splits)

lemma host_held:
  "held_keys (fst (host_applies mapvk st es)) = foldl keys_after (held_keys (fst st)) es"
  "held_buttons (fst (host_applies mapvk st es)) = foldl buttons_after (held_buttons (fst st)) es"
  by (induction es arbitrary: st) (simp_all add: host_applies_def Dispatch_held)

datatype QueueOp =
  QueueKey int int bool u64 | QueueKeyTap int int u64 | QueueKeyChord int int int int u64 | QueueCharTap u32 u64
  | QueueMouseMove int int u64 | QueueMouseButton int bool u64 | QueueMouseWheel int u64 | QueueReleaseAll u64 | QueueDrain u64

fun queue_step :: "ClientInputQueue \<Rightarrow> QueueOp \<Rightarrow> InputEvent list \<times> ClientInputQueue" where
  "queue_step q (QueueKey vk scan down now) = ([], iq_Key q vk scan down now)"
| "queue_step q (QueueKeyTap vk scan now) = ([], iq_KeyTap q vk scan now)"
| "queue_step q (QueueKeyChord mvk mscan vk scan now) = ([], iq_KeyChord q mvk mscan vk scan now)"
| "queue_step q (QueueCharTap c now) = ([], snd (iq_CharTap q c now))"
| "queue_step q (QueueMouseMove x y now) = ([], iq_MouseMoveAbsolute q x y now)"
| "queue_step q (QueueMouseButton b down now) = ([], iq_MouseButtonEvent q b down now)"
| "queue_step q (QueueMouseWheel d now) = ([], iq_MouseWheel q d now)"
| "queue_step q (QueueReleaseAll now) = ([], iq_ReleaseAll q now)"
| "queue_step q (QueueDrain now) = iq_Drain q now"

fun queue_run :: "ClientInputQueue \<Rightarrow> QueueOp list \<Rightarrow> InputEvent list \<times> ClientInputQueue" where
  "queue_run q [] = ([], q)"
| "queue_run q (x # xs) = (let (out, q) = queue_step q x; (rest, q) = queue_run q xs in (out @ rest, q))"

text \<open>
  The host tells a generic modifier by its scan code. The queue remembers a key by its virtual key
  alone, so that what it remembers is enough only when a virtual key always stands for the same side.
\<close>

definition key_side :: "int \<Rightarrow> int \<Rightarrow> int" where
  "key_side vk scan = event_key (KeyEvent vk scan True 0)"

fun one_side :: "(int \<Rightarrow> int) \<Rightarrow> QueueOp \<Rightarrow> bool" where
  "one_side side (QueueKey vk scan down now) \<longleftrightarrow> key_side vk scan = side vk"
| "one_side side _ \<longleftrightarrow> True"

lemma KeyEvent_fields:
  "event_key (KeyEvent vk scan down now) = key_side vk scan" "ev_type (KeyEvent vk scan down now) = InputKey"
  "ev_state (KeyEvent vk scan down now) = (if down then 1 else 0)"
  by (simp_all add: KeyEvent_def event_key_def key_side_def)

lemma ButtonEvent_fields:
  "ev_a (ButtonEvent b down now) = of_int b" "ev_type (ButtonEvent b down now) = InputMouseButton"
  "ev_state (ButtonEvent b down now) = (if down then 1 else 0)"
  by (simp_all add: ButtonEvent_def)

lemmas event_fields = KeyEvent_fields ButtonEvent_fields

lemma set_om_put: "set (om_put k v m) \<subseteq> insert (k, v) (set m)"
  by (induction k v m rule: om_put.induct) auto

text \<open>The host holds no more than what the queue will still let go of.\<close>

definition queue_ok :: "(int \<Rightarrow> int) \<Rightarrow> int set \<Rightarrow> u8 set \<Rightarrow> ClientInputQueue \<Rightarrow> bool" where
  "queue_ok side K B q \<longleftrightarrow>
     foldl keys_after K (iq_ready q) \<subseteq> side ` fst ` set (iq_keysDown q) \<union> (event_key \<circ> snd) ` set (iq_delayed q)
     \<and> foldl buttons_after B (iq_ready q) \<subseteq> (\<lambda>b. of_int (fst b)) ` set (iq_buttonsDown q)
     \<and> (\<forall>(vk, scan)\<in>set (iq_keysDown q). key_side vk scan = side vk)
     \<and> (\<forall>(t, e)\<in>set (iq_delayed q). ev_type e = InputKey \<and> ev_state e = 0)"

lemma iq_init_ok: "queue_ok side {} {} iq_init"
  by (simp add: queue_ok_def iq_init_def)

lemma ucast_of_int: "ucast (of_int b :: i32) = (of_int b :: u8)"
  by (rule bit_word_eqI) (simp add: bit_simps)


lemma ok_push:
  assumes "queue_ok side K B q"
  shows "ev_type e = InputKey \<Longrightarrow> ev_state e = 0 \<Longrightarrow> queue_ok side K B (PushLocked q e)"
    "ev_type e \<noteq> InputKey \<Longrightarrow> ev_type e \<noteq> InputMouseButton \<Longrightarrow> queue_ok side K B (PushLocked q e)"
  using assms by (auto simp: queue_ok_def PushLocked_def keys_after_def buttons_after_def)

lemma ok_tap:
  assumes "queue_ok side K B q"
  shows "queue_ok side K B (push_delayed (PushLocked q (KeyEvent vk scan True now)) t (KeyEvent vk scan False now'))"
  using assms by (auto simp: queue_ok_def PushLocked_def push_delayed_def keys_after_def buttons_after_def event_fields)

lemma ok_chord:
  assumes "queue_ok side K B q"
  shows "queue_ok side K B (iq_KeyChord q mvk mscan vk scan now)"
  using assms
  by (auto simp: iq_KeyChord_def Let_def queue_ok_def PushLocked_def push_delayed_def keys_after_def buttons_after_def event_fields)

lemma ok_char:
  assumes "queue_ok side K B q"
  shows "queue_ok side K B (snd (iq_CharTap q c now))"
  using assms
  by (auto simp: iq_CharTap_def Let_def queue_ok_def PushLocked_def push_delayed_def keys_after_def buttons_after_def event_fields
      split: option.splits)

lemma ok_key:
  assumes "queue_ok side K B q" "key_side vk scan = side vk"
  shows "queue_ok side K B (iq_Key q vk scan down now)"
proof (cases down)
  case True
  let ?m = "om_put vk scan (iq_keysDown q)"
  have "\<forall>(v, s)\<in>set ?m. key_side v s = side v" using set_om_put [of vk scan "iq_keysDown q"] assms by (auto simp: queue_ok_def)
  moreover have "side ` fst ` set ?m = insert (side vk) (side ` fst ` set (iq_keysDown q))" by (simp add: om_keys_put)
  ultimately show ?thesis using True assms
    by (auto simp: queue_ok_def iq_Key_def PushLocked_def keys_after_def buttons_after_def event_fields)
next
  case False
  have "side ` fst ` set (om_erase vk (iq_keysDown q)) \<supseteq> side ` fst ` set (iq_keysDown q) - {side vk}"
    by (auto simp: om_erase_keys)
  then show ?thesis using False assms
    by (auto simp: queue_ok_def iq_Key_def PushLocked_def keys_after_def buttons_after_def event_fields om_erase_keys)
qed

lemma ok_button:
  assumes "queue_ok side K B q"
  shows "queue_ok side K B (iq_MouseButtonEvent q b down now)"
proof -
  have image: "(\<lambda>b. of_int (fst b)) ` set m = of_int ` fst ` set m" for m :: "(int, unit) omap" by (simp add: image_image)
  let ?m = "iq_buttonsDown q" and ?B = "foldl buttons_after B (iq_ready q)"
  have B: "?B \<subseteq> of_int ` fst ` set ?m" using assms unfolding queue_ok_def image by blast
  have "?B - {of_int b} \<subseteq> (of_int :: int \<Rightarrow> u8) ` fst ` set (om_erase b ?m)"
  proof
    fix x assume "x \<in> ?B - {of_int b}"
    then obtain k where k: "k \<in> fst ` set ?m" "x = of_int k" using B by blast
    then have "k \<noteq> b" using \<open>x \<in> ?B - {of_int b}\<close> by blast
    then show "x \<in> of_int ` fst ` set (om_erase b ?m)" unfolding om_erase_keys using k by blast
  qed
  moreover have "insert (of_int b) ?B \<subseteq> (of_int :: int \<Rightarrow> u8) ` fst ` set (om_put b () ?m)"
    unfolding om_keys_put using B by auto
  ultimately show ?thesis using assms unfolding queue_ok_def image
    by (cases down)
      (simp_all add: iq_MouseButtonEvent_def PushLocked_def keys_after_def buttons_after_def event_fields ucast_of_int Let_def
        del: om_set_erase om_keys_put)
qed

lemma ReleaseAll_ready:
  "iq_ReleaseAll q now = q\<lparr>iq_ready := iq_ready q @ map (\<lambda>(vk, scan). KeyEvent vk scan False now) (iq_keysDown q)
       @ map (\<lambda>(b, _). ButtonEvent b False now) (iq_buttonsDown q),
     iq_wantFocus := iq_wantFocus q \<or> iq_keysDown q \<noteq> [] \<or> iq_buttonsDown q \<noteq> [],
     iq_keysDown := [], iq_buttonsDown := []\<rparr>"
proof -
  have push: "foldl (\<lambda>q x. PushLocked q (f x)) q xs = q\<lparr>iq_ready := iq_ready q @ map f xs, iq_wantFocus := iq_wantFocus q \<or> xs \<noteq> []\<rparr>"
    for f :: "'a \<Rightarrow> InputEvent" and xs and q :: ClientInputQueue
    by (induction xs arbitrary: q) (simp_all add: PushLocked_def)
  show ?thesis
    using push [of "\<lambda>(vk, scan). KeyEvent vk scan False now"] push [of "\<lambda>(b, _ :: unit). ButtonEvent b False now"]
    by (simp add: iq_ReleaseAll_def Let_def case_prod_unfold)
qed


lemma released_keys:
  "foldl keys_after K (map (\<lambda>(vk, scan). KeyEvent vk scan False now) ks) = K - (\<lambda>(vk, scan). key_side vk scan) ` set ks"
  "foldl buttons_after B (map (\<lambda>(vk, scan). KeyEvent vk scan False now) ks) = B"
  by (induction ks arbitrary: K B) (auto simp: keys_after_def buttons_after_def event_fields)

lemma released_buttons:
  "foldl keys_after K (map (\<lambda>(b, _). ButtonEvent b False now) bs) = K"
  "foldl buttons_after B (map (\<lambda>(b, _). ButtonEvent b False now) bs) = B - (\<lambda>b. of_int (fst b)) ` set bs"
  by (induction bs arbitrary: K B) (auto simp: keys_after_def buttons_after_def event_fields ucast_of_int)

lemmas released = released_keys released_buttons

lemma expired_released:
  assumes "\<forall>e\<in>set es. ev_type e = InputKey \<and> ev_state e = 0"
  shows "foldl keys_after K es = K - event_key ` set es" "foldl buttons_after B es = B"
  using assms by (induction es arbitrary: K) (auto simp: keys_after_def buttons_after_def)

lemma ok_release:
  assumes "queue_ok side K B q"
  shows "queue_ok side K B (iq_ReleaseAll q now)"
    "foldl keys_after K (iq_ready (iq_ReleaseAll q now)) \<subseteq> (event_key \<circ> snd) ` set (iq_delayed q)"
    "foldl buttons_after B (iq_ready (iq_ReleaseAll q now)) = {}"
proof -
  have "(\<lambda>(vk, scan). key_side vk scan) ` set (iq_keysDown q) = side ` fst ` set (iq_keysDown q)"
    using assms unfolding queue_ok_def by (force simp: image_image intro!: image_cong)
  then show "foldl keys_after K (iq_ready (iq_ReleaseAll q now)) \<subseteq> (event_key \<circ> snd) ` set (iq_delayed q)"
    "foldl buttons_after B (iq_ready (iq_ReleaseAll q now)) = {}"
    using assms by (auto simp: ReleaseAll_ready released queue_ok_def)
  then show "queue_ok side K B (iq_ReleaseAll q now)"
    using assms by (simp add: queue_ok_def ReleaseAll_ready)
qed

lemma diff_cover: "X \<subseteq> S \<union> D \<Longrightarrow> D \<subseteq> E \<union> D' \<Longrightarrow> X - E \<subseteq> S \<union> D'"
  by blast

lemma ok_drain:
  assumes "queue_ok side K B q" "iq_Drain q now = (out, q')"
  shows "queue_ok side (foldl keys_after K out) (foldl buttons_after B out) q'"
proof -
  let ?expired = "map snd (filter (\<lambda>d. fst d \<le> now) (iq_delayed q))"
  have out: "out = iq_ready q @ ?expired" and q': "q' = q\<lparr>iq_ready := [], iq_delayed := filter (\<lambda>d. \<not> fst d \<le> now) (iq_delayed q)\<rparr>"
    using assms(2) by (auto simp: iq_Drain_def Let_def)
  have "\<forall>e\<in>set ?expired. ev_type e = InputKey \<and> ev_state e = 0" using assms(1) by (auto simp: queue_ok_def)
  note e = expired_released [OF this]
  have split: "(event_key \<circ> snd) ` set (iq_delayed q) \<subseteq> event_key ` set ?expired \<union> (event_key \<circ> snd) ` set (iq_delayed q')"
    unfolding q' by (force simp: image_iff)
  have "foldl keys_after K (iq_ready q) \<subseteq> side ` fst ` set (iq_keysDown q) \<union> (event_key \<circ> snd) ` set (iq_delayed q)"
    using assms(1) by (simp add: queue_ok_def)
  from diff_cover [OF this split] have "foldl keys_after K out \<subseteq> side ` fst ` set (iq_keysDown q) \<union> (event_key \<circ> snd) ` set (iq_delayed q')"
    unfolding out foldl_append e .
  moreover have "foldl buttons_after B out = foldl buttons_after B (iq_ready q)" unfolding out foldl_append e ..
  moreover have "\<forall>(t, e)\<in>set (iq_delayed q'). ev_type e = InputKey \<and> ev_state e = 0"
    using assms(1) by (auto simp: queue_ok_def q')
  moreover have "foldl buttons_after B (iq_ready q) \<subseteq> (\<lambda>b. of_int (fst b)) ` set (iq_buttonsDown q)"
    "\<forall>(vk, scan)\<in>set (iq_keysDown q). key_side vk scan = side vk" using assms(1) by (simp_all add: queue_ok_def)
  moreover have "iq_ready q' = []" "iq_keysDown q' = iq_keysDown q" "iq_buttonsDown q' = iq_buttonsDown q" by (simp_all add: q')
  ultimately show ?thesis unfolding queue_ok_def by (simp only: foldl_Nil simp_thms)
qed

lemma step_ok:
  assumes "queue_ok side K B q" "one_side side x" "queue_step q x = (out, q')"
  shows "queue_ok side (foldl keys_after K out) (foldl buttons_after B out) q'"
proof (cases x)
  case (QueueDrain now)
  then show ?thesis using ok_drain [OF assms(1)] assms(3) by simp
next
  case (QueueKeyTap vk scan now)
  then show ?thesis using ok_tap [OF assms(1)] assms(3) by (auto simp: iq_KeyTap_def Let_def)
next
  case (QueueMouseMove x y now)
  then show ?thesis using ok_push(2) [OF assms(1)] assms(3) by (auto simp: iq_MouseMoveAbsolute_def)
next
  case (QueueMouseWheel d now)
  then show ?thesis using ok_push(2) [OF assms(1)] assms by (auto simp: iq_MouseWheel_def)
qed (use assms ok_key ok_button ok_chord ok_char ok_release(1) in auto)

lemma run_ok:
  assumes "queue_ok side K B q" "\<forall>x\<in>set xs. one_side side x" "queue_run q xs = (out, q')"
  shows "queue_ok side (foldl keys_after K out) (foldl buttons_after B out) q'"
  using assms
proof (induction xs arbitrary: q K B out)
  case (Cons x xs)
  obtain o1 q1 where 1: "queue_step q x = (o1, q1)" by (cases "queue_step q x")
  obtain o2 where 2: "queue_run q1 xs = (o2, q')" "out = o1 @ o2" using Cons.prems(3) 1 by (auto simp: Let_def split: prod.splits)
  have "queue_ok side (foldl keys_after K o1) (foldl buttons_after B o1) q1"
    by (rule step_ok [OF Cons.prems(1) _ 1]) (use Cons.prems(2) in simp)
  from Cons.IH [OF this _ 2(1)] show ?case using Cons.prems(2) 2(2) by simp
qed simp

text \<open>Letting go of everything leaves nothing pressed at the host once the taps have ended.\<close>

lemma everything_released:
  assumes "\<forall>x\<in>set xs. one_side side x" "queue_run iq_init xs = (out, q)" "\<forall>d\<in>set (iq_delayed q). fst d \<le> late"
    and "iq_Drain (iq_ReleaseAll q now) late = (rest, q')"
  shows "pt_nothingHeld (fst (host_applies mapvk (pt_init, []) (out @ rest))) \<and> iq_ready q' = [] \<and> iq_delayed q' = []"
proof -
  let ?K = "foldl keys_after {} out" and ?B = "foldl buttons_after {} out" and ?r = "iq_ReleaseAll q now"
  have ok: "queue_ok side ?K ?B q" by (rule run_ok [OF iq_init_ok assms(1,2)])
  note r = ok_release [OF ok, of now]
  have delayed: "iq_delayed ?r = iq_delayed q" by (simp add: ReleaseAll_ready)
  have all: "filter (\<lambda>d. fst d \<le> late) (iq_delayed q) = iq_delayed q" "filter (\<lambda>d. \<not> fst d \<le> late) (iq_delayed q) = []"
    using assms(3) by (auto simp: filter_empty_conv)
  then have rest: "rest = iq_ready ?r @ map snd (iq_delayed q)" "iq_ready q' = []" "iq_delayed q' = []"
    using assms(4) by (auto simp: iq_Drain_def Let_def delayed)
  have "\<forall>e\<in>set (map snd (iq_delayed q)). ev_type e = InputKey \<and> ev_state e = 0" using ok by (auto simp: queue_ok_def)
  note e = expired_released [OF this]
  have "foldl keys_after ?K rest = {}" "foldl buttons_after ?B rest = {}"
    using r(2,3) unfolding rest(1) foldl_append e by (auto simp: image_image)
  then show ?thesis using rest(2,3) host_held [of mapvk "(pt_init, [])" "out @ rest"] by (simp add: pt_nothingHeld_def pt_init_def)
qed

text \<open>
  Without that condition it is not so: a keyboard that reports both Shift keys as \<open>kVkShift\<close> with
  their own scan codes leaves the first one pressed at the host.
\<close>

lemma both_shifts_leave_one_pressed:
  "let (out, q) = queue_run iq_init [QueueKey kVkShift (VkToSet1Scancode kVkLShift) True 0,
         QueueKey kVkShift (VkToSet1Scancode kVkRShift) True 0];
       (rest, _) = iq_Drain (iq_ReleaseAll q 0) 0
   in map fst (pt_keys (fst (host_applies (\<lambda>_. 0) (pt_init, []) (out @ rest)))) = [kVkLShift]"
  by code_simp

end
