(* ===== verification/FileSend.thy ===== *)
theory FileSend
  imports WireTermFile TrustStore Checksum SafeName Component
begin

text \<open>
  The sending side of a file transfer (\<open>core/src/session/client/FileSender.cpp\<close>), with what both sides
  share (\<open>core/src/session/FileTransfer.cpp\<close>). The callbacks that answer (\<open>send\<close>, \<open>read\<close>) are an
  argument of every operation, so that they may answer differently each time; what the operation
  sends and reports is a list of effects. A \<open>read\<close> that gives no byte is the empty list.
\<close>

section \<open>Progress and audit\<close>

record TransferProgress =
  tp_batchId :: u32
  tp_fileIndex :: u16
  tp_fileCount :: u16
  tp_fileBytes :: u64
  tp_fileSize :: u64
  tp_batchBytes :: u64
  tp_batchSize :: u64
  tp_name :: bytes

record TransferPeer =
  xp_endpoint :: bytes
  xp_name :: bytes
  xp_fingerprint :: Fingerprint

definition TransferAuditLine :: "TransferPeer \<Rightarrow> u32 \<Rightarrow> bytes \<Rightarrow> bytes \<Rightarrow> bytes" where
  "TransferAuditLine peer batchId what detail =
     bytes_of ''transfer '' @ what @ bytes_of '' batch='' @ to_string (uint batchId)
     @ bytes_of '' from='' @ (if xp_endpoint peer = [] then bytes_of ''?'' else xp_endpoint peer)
     @ bytes_of '' name='' @ (if xp_name peer = [] then bytes_of ''?'' else xp_name peer)
     @ bytes_of '' key='' @ (if IsZero (xp_fingerprint peer) then bytes_of ''none''
                              else FormatFingerprint (xp_fingerprint peer))
     @ (if detail = [] then [] else bytes_of '' '' @ detail)"

fun TransferReasonName :: "TransferReason \<Rightarrow> bytes" where
  "TransferReasonName TransferAccepted = bytes_of ''accepted''"
| "TransferReasonName TransferNotAccepting = bytes_of ''not-accepting''"
| "TransferReasonName TransferBusy = bytes_of ''busy''"
| "TransferReasonName TransferTooManyFiles = bytes_of ''too-many-files''"
| "TransferReasonName TransferTooLarge = bytes_of ''too-large''"
| "TransferReasonName TransferBadName = bytes_of ''bad-name''"
| "TransferReasonName TransferWriteFailed = bytes_of ''write-failed''"
| "TransferReasonName TransferCorrupt = bytes_of ''corrupt''"
| "TransferReasonName TransferCancelled = bytes_of ''cancelled''"
| "TransferReasonName TransferLinkLost = bytes_of ''link-lost''"
| "TransferReasonName TransferReadFailed = bytes_of ''read-failed''"
| "TransferReasonName (TransferReasonRaw b) = bytes_of ''unknown''"

section \<open>The sender\<close>

datatype FileSenderState = FsIdle | FsOffering | FsSending | FsDone | FsRefused | FsFailed

record FileSenderCallbacks =
  fs_send :: "bytes \<Rightarrow> bool"
  fs_read :: "u16 \<Rightarrow> u64 \<Rightarrow> nat \<Rightarrow> bytes"

text \<open>A message appears among the effects when the callback took it.\<close>

datatype FileSenderEffect =
  FsSent bytes | FsProgress TransferProgress | FsFinished FileSenderState TransferReason

record FileSender =
  fs_state :: FileSenderState
  fs_reason :: TransferReason
  fs_batchId :: u32
  fs_files :: "TransferFile list"
  fs_index :: u16
  fs_acked :: nat
  fs_sent :: u64
  fs_batchSent :: u64
  fs_batchSize :: u64
  fs_crc :: u32

definition fs_init :: FileSender where
  "fs_init = \<lparr>fs_state = FsIdle, fs_reason = TransferAccepted, fs_batchId = 0, fs_files = [], fs_index = 0,
     fs_acked = 0, fs_sent = 0, fs_batchSent = 0, fs_batchSize = 0, fs_crc = crc_Reset\<rparr>"

definition fs_Busy :: "FileSender \<Rightarrow> bool" where
  "fs_Busy s \<longleftrightarrow> fs_state s = FsOffering \<or> fs_state s = FsSending"

definition fs_Progress :: "FileSender \<Rightarrow> TransferProgress" where
  "fs_Progress s =
     (let inside = unat (fs_index s) < length (fs_files s); file = fs_files s ! unat (fs_index s)
      in \<lparr>tp_batchId = fs_batchId s, tp_fileIndex = fs_index s, tp_fileCount = of_nat (length (fs_files s)),
          tp_fileBytes = fs_sent s, tp_fileSize = (if inside then tf_size file else 0),
          tp_batchBytes = fs_batchSent s, tp_batchSize = fs_batchSize s,
          tp_name = (if inside then tf_name file else [])\<rparr>)"

definition fs_Report :: "FileSender \<Rightarrow> FileSenderEffect list" where
  "fs_Report s = [FsProgress (fs_Progress s)]"

definition fs_Emit :: "FileSenderCallbacks \<Rightarrow> bytes \<Rightarrow> bool \<times> FileSenderEffect list" where
  "fs_Emit cb m = (if fs_send cb m then (True, [FsSent m]) else (False, []))"

definition fs_Finish :: "FileSender \<Rightarrow> FileSenderState \<Rightarrow> TransferReason \<Rightarrow> FileSender \<times> FileSenderEffect list" where
  "fs_Finish s st reason = (s\<lparr>fs_state := st, fs_reason := reason\<rparr>, [FsFinished st reason])"

definition fs_Abort :: "FileSenderCallbacks \<Rightarrow> FileSender \<Rightarrow> TransferReason \<Rightarrow> FileSender \<times> FileSenderEffect list" where
  "fs_Abort cb s reason =
     (let m = BuildFileCancel kMaxRecordSize \<lparr>fx_batchId = fs_batchId s, fx_reason = reason\<rparr>;
          out = (if m = [] then [] else snd (fs_Emit cb m));
          (s, fin) = fs_Finish s FsFailed reason
      in (s, out @ fin))"

text \<open>The loop of \<open>Offer\<close>: the names made safe, and the size of the batch.\<close>

fun safe_files :: "TransferFile list \<Rightarrow> u64 \<Rightarrow> (TransferFile list \<times> u64) option" where
  "safe_files [] batch = Some ([], batch)"
| "safe_files (f # fs) batch =
     (let f = f\<lparr>tf_name := SafeFileName (tf_name f)\<rparr> in
      if tf_name f = [] \<or> tf_size f > kMaxTransferFileBytes then None
      else let batch = batch + tf_size f in
        if batch > kMaxTransferBatchBytes then None
        else map_option (\<lambda>(fs, batch). (f # fs, batch)) (safe_files fs batch))"

definition fs_Offer :: "FileSenderCallbacks \<Rightarrow> FileSender \<Rightarrow> u32 \<Rightarrow> TransferFile list \<Rightarrow> bool \<times> FileSender \<times> FileSenderEffect list" where
  "fs_Offer cb s batchId files =
     (if fs_Busy s then (False, s, [])
      else if files = [] \<or> length files > kMaxTransferFiles then (False, s, [])
      else case safe_files files 0 of
        None \<Rightarrow> (False, s, [])
      | Some (files, batch) \<Rightarrow>
          let s = s\<lparr>fs_batchId := batchId, fs_files := files, fs_batchSize := batch, fs_batchSent := 0, fs_index := 0,
                    fs_sent := 0, fs_crc := crc_Reset, fs_acked := 0, fs_reason := TransferAccepted\<rparr>;
              m = BuildFileOffer kMaxRecordSize \<lparr>fo_batchId = batchId, fo_files = files\<rparr>
          in if m = [] then (False, s\<lparr>fs_state := FsIdle\<rparr>, [])
             else let (ok, out) = fs_Emit cb m in
               if \<not> ok then (False, s\<lparr>fs_state := FsIdle\<rparr>, out)
               else (True, s\<lparr>fs_state := FsOffering\<rparr>, out))"

definition FinishFile :: "FileSenderCallbacks \<Rightarrow> FileSender \<Rightarrow> bool \<times> FileSender \<times> FileSenderEffect list" where
  "FinishFile cb s =
     (let m = BuildFileDone kMaxRecordSize
            \<lparr>fd_batchId = fs_batchId s, fd_fileIndex = fs_index s, fd_crc32 = crc_Value (fs_crc s)\<rparr>
      in if m = [] then (False, fs_Abort cb s TransferReadFailed)
         else let (ok, out) = fs_Emit cb m in
           if \<not> ok then (False, s, out)
           else (True, s\<lparr>fs_crc := crc_Reset, fs_sent := 0, fs_index := fs_index s + 1\<rparr>, out))"

definition SendOneChunk :: "FileSenderCallbacks \<Rightarrow> FileSender \<Rightarrow> bool \<times> FileSender \<times> FileSenderEffect list" where
  "SendOneChunk cb s =
     (if unat (fs_index s) \<ge> length (fs_files s) then (False, s, [])
      else let fsize = tf_size (fs_files s ! unat (fs_index s)) in
        if fs_sent s \<ge> fsize then FinishFile cb s
        else
          let left = fsize - fs_sent s;
              want = (if left < of_nat kMaxFileChunkBytes then unat left else kMaxFileChunkBytes);
              chunk = fs_read cb (fs_index s) (fs_sent s) want
          in if chunk = [] \<or> length chunk > want then (False, fs_Abort cb s TransferReadFailed)
             else let m = BuildFileChunk kMaxRecordSize (fs_batchId s) (fs_index s) (fs_sent s) chunk in
               if m = [] then (False, fs_Abort cb s TransferReadFailed)
               else let (ok, out) = fs_Emit cb m in
                 if \<not> ok then (False, s, out)
                 else let s = s\<lparr>fs_crc := crc_Update (fs_crc s) chunk, fs_sent := fs_sent s + of_nat (length chunk),
                                fs_batchSent := fs_batchSent s + of_nat (length chunk)\<rparr>;
                          out = out @ fs_Report s
                      in if fs_sent s \<ge> fsize
                         then let (ok, s, fin) = FinishFile cb s in (ok, s, out @ fin)
                         else (True, s, out))"

text \<open>The loop of \<open>Pump\<close>, by the number of chunks still allowed.\<close>

fun fs_Pump :: "FileSenderCallbacks \<Rightarrow> FileSender \<Rightarrow> nat \<Rightarrow> nat \<times> FileSender \<times> FileSenderEffect list" where
  "fs_Pump cb s 0 = (0, s, [])"
| "fs_Pump cb s (Suc n) =
     (if fs_state s \<noteq> FsSending then (0, s, [])
      else let (ok, s, out) = SendOneChunk cb s in
        if \<not> ok then (0, s, out)
        else let (k, s, rest) = fs_Pump cb s n in (Suc k, s, out @ rest))"

definition on_file_ack :: "FileSenderCallbacks \<Rightarrow> FileSender \<Rightarrow> FileAck \<Rightarrow> FileSender \<times> FileSenderEffect list" where
  "on_file_ack cb s ack =
     (if fk_batchId ack \<noteq> fs_batchId s then (s, [])
      else if fk_reason ack \<noteq> TransferAccepted then fs_Finish s FsFailed (fk_reason ack)
      else if unat (fk_fileIndex ack) \<noteq> fs_acked s then fs_Abort cb s TransferCorrupt
      else let s = s\<lparr>fs_acked := fs_acked s + 1\<rparr> in
        if fs_acked s \<ge> length (fs_files s) then fs_Finish s FsDone TransferAccepted else (s, []))"

text \<open>The \<open>switch\<close> of \<open>HandleMessage\<close>.\<close>

definition fs_dispatch :: "FileSenderCallbacks \<Rightarrow> FileSender \<Rightarrow> CommonHeader \<Rightarrow> bytes \<Rightarrow> (FileSender \<times> FileSenderEffect list) checked" where
  "fs_dispatch cb s header payload =
     (case ch_type header of
        MsgFileAccept \<Rightarrow>
          if fs_state s \<noteq> FsOffering then Some (s, [])
          else do {
            accept \<leftarrow> ParseFileAccept payload;
            case accept of None \<Rightarrow> Some (s, [])
            | Some accept \<Rightarrow>
                if fa_batchId accept \<noteq> fs_batchId s then Some (s, [])
                else if fa_reason accept \<noteq> TransferAccepted then Some (fs_Finish s FsRefused (fa_reason accept))
                else let s = s\<lparr>fs_state := FsSending\<rparr> in Some (s, fs_Report s)
          }
      | MsgFileAck \<Rightarrow>
          if fs_state s \<noteq> FsSending then Some (s, [])
          else do {
            ack \<leftarrow> ParseFileAck payload;
            case ack of None \<Rightarrow> Some (s, []) | Some ack \<Rightarrow> Some (on_file_ack cb s ack)
          }
      | MsgFileCancel \<Rightarrow> do {
            cancel \<leftarrow> ParseFileCancel payload;
            case cancel of None \<Rightarrow> Some (s, [])
            | Some cancel \<Rightarrow>
                if fx_batchId cancel \<noteq> fs_batchId s then Some (s, [])
                else if \<not> fs_Busy s then Some (s, [])
                else Some (fs_Finish s (if fs_state s = FsOffering then FsRefused else FsFailed) (fx_reason cancel))
          }
      | _ \<Rightarrow> Some (s, []))"

definition fs_HandleMessage :: "FileSenderCallbacks \<Rightarrow> FileSender \<Rightarrow> bytes \<Rightarrow> (FileSender \<times> FileSenderEffect list) checked" where
  "fs_HandleMessage cb s message = do {
     header \<leftarrow> ParseCommonHeader message;
     case header of
       None \<Rightarrow> Some (s, [])
     | Some header \<Rightarrow>
         if ch_chan header \<noteq> ChanFile then Some (s, [])
         else do {
           payload \<leftarrow> PayloadOf message;
           fs_dispatch cb s header payload
         }
   }"

definition fs_Cancel :: "FileSenderCallbacks \<Rightarrow> FileSender \<Rightarrow> FileSender \<times> FileSenderEffect list" where
  "fs_Cancel cb s = (if \<not> fs_Busy s then (s, []) else fs_Abort cb s TransferCancelled)"

definition fs_LinkLost :: "FileSender \<Rightarrow> FileSender \<times> FileSenderEffect list" where
  "fs_LinkLost s = (if \<not> fs_Busy s then (s, []) else fs_Finish s FsFailed TransferLinkLost)"

end
