(* ===== verification/FileReceive.thy ===== *)
theory FileReceive
  imports FileSend
begin

text \<open>
  The receiving side of a file transfer (\<open>core/src/session/host/FileReceiver.cpp\<close>). The callbacks that
  answer (\<open>open\<close>, \<open>write\<close>, \<open>close\<close>) are an argument of every operation; every call of a callback is an
  effect, with the answer it gave. The section on the folder reads from these effects what has been
  stored, and shows that nothing a peer sends can store a file other than as it was offered.
\<close>

datatype FileReceiverState = FrIdle | FrReceiving | FrDone | FrFailed

record FileReceiverLimits =
  li_maxFiles :: nat
  li_maxFileBytes :: u64
  li_maxBatchBytes :: u64

definition default_limits :: FileReceiverLimits where
  "default_limits = \<lparr>li_maxFiles = kMaxTransferFiles, li_maxFileBytes = kMaxTransferFileBytes,
     li_maxBatchBytes = kMaxTransferBatchBytes\<rparr>"

record FileReceiverCallbacks =
  fr_open :: "u16 \<Rightarrow> bytes \<Rightarrow> u64 \<Rightarrow> bytes"
  fr_write :: "u16 \<Rightarrow> bytes \<Rightarrow> bool"
  fr_close :: "u16 \<Rightarrow> bool \<Rightarrow> bool"

datatype FileReceiverEffect =
  FrSent bytes | FrOpened u16 bytes u64 bytes | FrWritten u16 bytes bool | FrClosed u16 bool bool
  | FrProgress TransferProgress | FrAudited bytes

record FileReceiver =
  fr_limits :: FileReceiverLimits
  fr_peer :: TransferPeer
  fr_accepting :: bool
  fr_state :: FileReceiverState
  fr_reason :: TransferReason
  fr_batchId :: u32
  fr_files :: "TransferFile list"
  fr_names :: "bytes list"
  fr_stored :: "bytes list"
  fr_index :: u16
  fr_received :: u64
  fr_batchReceived :: u64
  fr_batchSize :: u64
  fr_fileOpen :: bool
  fr_crc :: u32

definition fr_init :: FileReceiver where
  "fr_init = \<lparr>fr_limits = default_limits, fr_peer = \<lparr>xp_endpoint = [], xp_name = [], xp_fingerprint = replicate 32 0\<rparr>,
     fr_accepting = False, fr_state = FrIdle, fr_reason = TransferAccepted, fr_batchId = 0, fr_files = [], fr_names = [],
     fr_stored = [], fr_index = 0, fr_received = 0, fr_batchReceived = 0, fr_batchSize = 0, fr_fileOpen = False,
     fr_crc = crc_Reset\<rparr>"

definition fr_Busy :: "FileReceiver \<Rightarrow> bool" where
  "fr_Busy r \<longleftrightarrow> fr_state r = FrReceiving"

definition fr_SetLimits :: "FileReceiver \<Rightarrow> FileReceiverLimits \<Rightarrow> FileReceiver" where
  "fr_SetLimits r limits = r\<lparr>fr_limits := limits\<rparr>"

definition fr_SetPeer :: "FileReceiver \<Rightarrow> TransferPeer \<Rightarrow> FileReceiver" where
  "fr_SetPeer r peer = r\<lparr>fr_peer := peer\<rparr>"

definition fr_Progress :: "FileReceiver \<Rightarrow> TransferProgress checked" where
  "fr_Progress r =
     (let p = \<lparr>tp_batchId = fr_batchId r, tp_fileIndex = fr_index r, tp_fileCount = of_nat (length (fr_files r)),
               tp_fileBytes = fr_received r, tp_fileSize = 0, tp_batchBytes = fr_batchReceived r,
               tp_batchSize = fr_batchSize r, tp_name = []\<rparr>
      in if unat (fr_index r) < length (fr_files r) then do {
           stored \<leftarrow> vec_at (fr_stored r) (unat (fr_index r));
           name \<leftarrow> vec_at (fr_names r) (unat (fr_index r));
           Some (p\<lparr>tp_fileSize := tf_size (fr_files r ! unat (fr_index r)), tp_name := (if stored = [] then name else stored)\<rparr>)
         } else Some p)"

definition fr_Report :: "FileReceiver \<Rightarrow> FileReceiverEffect list checked" where
  "fr_Report r = map_option (\<lambda>p. [FrProgress p]) (fr_Progress r)"

definition fr_Audit :: "FileReceiver \<Rightarrow> bytes \<Rightarrow> bytes \<Rightarrow> FileReceiverEffect list" where
  "fr_Audit r what detail = [FrAudited (TransferAuditLine (fr_peer r) (fr_batchId r) what detail)]"

definition fr_Emit :: "bytes \<Rightarrow> FileReceiverEffect list" where
  "fr_Emit m = (if m = [] then [] else [FrSent m])"

definition fr_Refuse :: "FileReceiver \<Rightarrow> u32 \<Rightarrow> TransferReason \<Rightarrow> FileReceiverEffect list" where
  "fr_Refuse r batchId reason =
     fr_Emit (BuildFileAccept kMaxRecordSize \<lparr>fa_batchId = batchId, fa_reason = reason\<rparr>)
     @ [FrAudited (TransferAuditLine (fr_peer r) batchId (bytes_of ''refused'') (TransferReasonName reason))]"

definition fr_Ack :: "FileReceiver \<Rightarrow> TransferReason \<Rightarrow> FileReceiverEffect list" where
  "fr_Ack r reason =
     fr_Emit (BuildFileAck kMaxRecordSize \<lparr>fk_batchId = fr_batchId r, fk_fileIndex = fr_index r, fk_reason = reason\<rparr>)"

definition CloseCurrent :: "FileReceiverCallbacks \<Rightarrow> FileReceiver \<Rightarrow> bool \<Rightarrow> bool \<times> FileReceiver \<times> FileReceiverEffect list" where
  "CloseCurrent cb r keep =
     (if \<not> fr_fileOpen r then (True, r, [])
      else let ok = fr_close cb (fr_index r) keep
           in (ok, r\<lparr>fr_fileOpen := False\<rparr>, [FrClosed (fr_index r) keep ok]))"

definition fr_Abort :: "FileReceiverCallbacks \<Rightarrow> FileReceiver \<Rightarrow> TransferReason \<Rightarrow> bool \<Rightarrow> (FileReceiver \<times> FileReceiverEffect list) checked" where
  "fr_Abort cb r reason tellPeer =
     (let (_, r, closed) = CloseCurrent cb r False;
          told = (if tellPeer then fr_Emit (BuildFileCancel kMaxRecordSize \<lparr>fx_batchId = fr_batchId r, fx_reason = reason\<rparr>) else []);
          r = r\<lparr>fr_state := FrFailed, fr_reason := reason\<rparr>
      in do {
        report \<leftarrow> fr_Report r;
        Some (r, closed @ told @ fr_Audit r (bytes_of ''aborted'') (TransferReasonName reason) @ report)
      })"

definition fr_SetAccepting :: "FileReceiverCallbacks \<Rightarrow> FileReceiver \<Rightarrow> bool \<Rightarrow> (FileReceiver \<times> FileReceiverEffect list) checked" where
  "fr_SetAccepting cb r on =
     (let r = r\<lparr>fr_accepting := on\<rparr> in
      if \<not> on \<and> fr_Busy r then fr_Abort cb r TransferNotAccepting True else Some (r, []))"

text \<open>The loop of \<open>Admit\<close>: the verdict, and the safe names when it is a good one.\<close>

fun admit_files :: "FileReceiverLimits \<Rightarrow> TransferFile list \<Rightarrow> u64 \<Rightarrow> TransferReason + bytes list" where
  "admit_files limits [] batch = Inr []"
| "admit_files limits (f # fs) batch =
     (if tf_size f > li_maxFileBytes limits then Inl TransferTooLarge
      else let batch = batch + tf_size f in
        if batch > li_maxBatchBytes limits then Inl TransferTooLarge
        else let safe = SafeFileName (tf_name f) in
          if safe = [] then Inl TransferBadName
          else case admit_files limits fs batch of Inl e \<Rightarrow> Inl e | Inr names \<Rightarrow> Inr (safe # names))"

definition Admit :: "FileReceiver \<Rightarrow> FileOffer \<Rightarrow> TransferReason + bytes list" where
  "Admit r offer =
     (if \<not> fr_accepting r then Inl TransferNotAccepting
      else if fr_state r = FrReceiving then Inl TransferBusy
      else if fo_files offer = [] then Inl TransferCorrupt
      else if length (fo_files offer) > li_maxFiles (fr_limits r) then Inl TransferTooManyFiles
      else admit_files (fr_limits r) (fo_files offer) 0)"

definition accept_offer :: "FileReceiver \<Rightarrow> FileOffer \<Rightarrow> bytes list \<Rightarrow> (FileReceiver \<times> FileReceiverEffect list) checked" where
  "accept_offer r offer safeNames =
     (let r = r\<lparr>fr_batchId := fo_batchId offer, fr_files := fo_files offer, fr_names := safeNames,
                fr_stored := replicate (length (fo_files offer)) [], fr_index := 0, fr_received := 0, fr_batchReceived := 0,
                fr_batchSize := sum_list (map tf_size (fo_files offer)), fr_fileOpen := False, fr_crc := crc_Reset,
                fr_state := FrReceiving, fr_reason := TransferAccepted\<rparr>
      in do {
        report \<leftarrow> fr_Report r;
        Some (r, fr_Emit (BuildFileAccept kMaxRecordSize \<lparr>fa_batchId = fr_batchId r, fa_reason = TransferAccepted\<rparr>)
          @ fr_Audit r (bytes_of ''offered'')
              (to_string (int (length (fr_files r))) @ bytes_of '' files, '' @ to_string (uint (fr_batchSize r)) @ bytes_of '' bytes'')
          @ report)
      })"

definition OnOffer :: "FileReceiver \<Rightarrow> bytes \<Rightarrow> (FileReceiver \<times> FileReceiverEffect list) checked" where
  "OnOffer r payload = do {
     offer \<leftarrow> ParseFileOffer payload;
     case offer of
       None \<Rightarrow> Some (r, [])
     | Some offer \<Rightarrow>
         case Admit r offer of
           Inl verdict \<Rightarrow> Some (r, fr_Refuse r (fo_batchId offer) verdict)
         | Inr safeNames \<Rightarrow> accept_offer r offer safeNames
   }"

text \<open>\<open>OpenCurrent\<close>: whether the file is open now.\<close>

definition OpenCurrent :: "FileReceiverCallbacks \<Rightarrow> FileReceiver \<Rightarrow> (bool \<times> FileReceiver \<times> FileReceiverEffect list) checked" where
  "OpenCurrent cb r = do {
     name \<leftarrow> vec_at (fr_names r) (unat (fr_index r));
     file \<leftarrow> vec_at (fr_files r) (unat (fr_index r));
     let stored = fr_open cb (fr_index r) name (tf_size file);
         opened = [FrOpened (fr_index r) name (tf_size file) stored] in
     if stored = [] then do {
       (r, out) \<leftarrow> fr_Abort cb r TransferWriteFailed True;
       Some (False, r, opened @ out)
     }
     else do {
       _ \<leftarrow> vec_at (fr_stored r) (unat (fr_index r));
       Some (True, r\<lparr>fr_stored := (fr_stored r)[unat (fr_index r) := stored], fr_fileOpen := True\<rparr>, opened)
     }
   }"

definition ensure_open :: "FileReceiverCallbacks \<Rightarrow> FileReceiver \<Rightarrow> (bool \<times> FileReceiver \<times> FileReceiverEffect list) checked" where
  "ensure_open cb r = (if fr_fileOpen r then Some (True, r, []) else OpenCurrent cb r)"

definition take_chunk :: "FileReceiverCallbacks \<Rightarrow> FileReceiver \<Rightarrow> bytes \<Rightarrow> (FileReceiver \<times> FileReceiverEffect list) checked" where
  "take_chunk cb r d =
     (let ok = fr_write cb (fr_index r) d; written = FrWritten (fr_index r) d ok in
      if \<not> ok then do {
        (r, out) \<leftarrow> fr_Abort cb r TransferWriteFailed True;
        Some (r, written # out)
      }
      else let r = r\<lparr>fr_crc := crc_Update (fr_crc r) d, fr_received := fr_received r + of_nat (length d),
                     fr_batchReceived := fr_batchReceived r + of_nat (length d)\<rparr>
           in do {
             report \<leftarrow> fr_Report r;
             Some (r, written # report)
           })"

definition OnChunk :: "FileReceiverCallbacks \<Rightarrow> FileReceiver \<Rightarrow> bytes \<Rightarrow> (FileReceiver \<times> FileReceiverEffect list) checked" where
  "OnChunk cb r payload = do {
     chunk \<leftarrow> ParseFileChunk payload;
     case chunk of
       None \<Rightarrow> Some (r, [])
     | Some chunk \<Rightarrow>
         if fc_batchId chunk \<noteq> fr_batchId r then Some (r, [])
         else if fr_state r \<noteq> FrReceiving then Some (r, [])
         else if fc_fileIndex chunk \<noteq> fr_index r \<or> fc_offset chunk \<noteq> fr_received r then fr_Abort cb r TransferCorrupt True
         else do {
           file \<leftarrow> vec_at (fr_files r) (unat (fr_index r));
           if of_nat (length (fc_data chunk)) > tf_size file - fr_received r then fr_Abort cb r TransferCorrupt True
           else do {
             (ok, r, opened) \<leftarrow> ensure_open cb r;
             if \<not> ok then Some (r, opened)
             else do {
               (r, out) \<leftarrow> take_chunk cb r (fc_data chunk);
               Some (r, opened @ out)
             }
           }
         }
   }"

text \<open>The end of \<open>OnDone\<close>, once the file has been closed and kept.\<close>

definition next_file :: "FileReceiver \<Rightarrow> (FileReceiver \<times> FileReceiverEffect list) checked" where
  "next_file r = do {
     stored \<leftarrow> vec_at (fr_stored r) (unat (fr_index r));
     let acked = fr_Audit r (bytes_of ''stored'') stored @ fr_Ack r TransferAccepted;
         r = r\<lparr>fr_index := fr_index r + 1, fr_received := 0, fr_crc := crc_Reset\<rparr>;
         complete = unat (fr_index r) \<ge> length (fr_files r);
         r = (if complete then r\<lparr>fr_state := FrDone, fr_reason := TransferAccepted\<rparr> else r) in do {
       report \<leftarrow> fr_Report r;
       Some (r, acked @ (if complete then fr_Audit r (bytes_of ''complete'') [] else []) @ report)
     }
   }"

definition finish_file :: "FileReceiverCallbacks \<Rightarrow> FileReceiver \<Rightarrow> u32 \<Rightarrow> (FileReceiver \<times> FileReceiverEffect list) checked" where
  "finish_file cb r crc =
     (if crc \<noteq> crc_Value (fr_crc r) then do {
        name \<leftarrow> vec_at (fr_names r) (unat (fr_index r));
        let (_, r, closed) = CloseCurrent cb r False;
            acked = fr_Audit r (bytes_of ''corrupt'') name @ fr_Ack r TransferCorrupt in do {
          (r, out) \<leftarrow> fr_Abort cb r TransferCorrupt False;
          Some (r, closed @ acked @ out)
        }
      }
      else let (ok, r, closed) = CloseCurrent cb r True in
        if \<not> ok then do {
          stored \<leftarrow> vec_at (fr_stored r) (unat (fr_index r));
          let acked = fr_Audit r (bytes_of ''write_failed'') stored @ fr_Ack r TransferWriteFailed;
          (r, out) \<leftarrow> fr_Abort cb r TransferWriteFailed False;
          Some (r, closed @ acked @ out)
        }
        else do {
          (r, out) \<leftarrow> next_file r;
          Some (r, closed @ out)
        })"

definition OnDone :: "FileReceiverCallbacks \<Rightarrow> FileReceiver \<Rightarrow> bytes \<Rightarrow> (FileReceiver \<times> FileReceiverEffect list) checked" where
  "OnDone cb r payload = do {
     parsed \<leftarrow> ParseFileDone payload;
     case parsed of
       None \<Rightarrow> Some (r, [])
     | Some d \<Rightarrow>
         if fd_batchId d \<noteq> fr_batchId r then Some (r, [])
         else if fr_state r \<noteq> FrReceiving then Some (r, [])
         else do {
           file \<leftarrow> vec_at (fr_files r) (unat (fr_index r));
           if fd_fileIndex d \<noteq> fr_index r \<or> fr_received r \<noteq> tf_size file then fr_Abort cb r TransferCorrupt True
           else do {
             (ok, r, opened) \<leftarrow> ensure_open cb r;
             if \<not> ok then Some (r, opened)
             else do {
               (r, out) \<leftarrow> finish_file cb r (fd_crc32 d);
               Some (r, opened @ out)
             }
           }
         }
   }"

definition OnCancel :: "FileReceiverCallbacks \<Rightarrow> FileReceiver \<Rightarrow> bytes \<Rightarrow> (FileReceiver \<times> FileReceiverEffect list) checked" where
  "OnCancel cb r payload = do {
     cancel \<leftarrow> ParseFileCancel payload;
     case cancel of
       None \<Rightarrow> Some (r, [])
     | Some cancel \<Rightarrow>
         if fx_batchId cancel \<noteq> fr_batchId r then Some (r, [])
         else if \<not> fr_Busy r then Some (r, [])
         else fr_Abort cb r (fx_reason cancel) False
   }"

definition fr_HandleMessage :: "FileReceiverCallbacks \<Rightarrow> FileReceiver \<Rightarrow> bytes \<Rightarrow> (FileReceiver \<times> FileReceiverEffect list) checked" where
  "fr_HandleMessage cb r message = do {
     header \<leftarrow> ParseCommonHeader message;
     case header of
       None \<Rightarrow> Some (r, [])
     | Some header \<Rightarrow>
         if ch_chan header \<noteq> ChanFile then Some (r, [])
         else do {
           payload \<leftarrow> PayloadOf message;
           case ch_type header of
             MsgFileOffer \<Rightarrow> OnOffer r payload
           | MsgFileChunk \<Rightarrow> OnChunk cb r payload
           | MsgFileDone \<Rightarrow> OnDone cb r payload
           | MsgFileCancel \<Rightarrow> OnCancel cb r payload
           | _ \<Rightarrow> Some (r, [])
         }
   }"

definition fr_LinkLost :: "FileReceiverCallbacks \<Rightarrow> FileReceiver \<Rightarrow> (FileReceiver \<times> FileReceiverEffect list) checked" where
  "fr_LinkLost cb r = (if \<not> fr_Busy r then Some (r, []) else fr_Abort cb r TransferLinkLost False)"


section \<open>The folder\<close>

text \<open>
  What the effects leave in the folder: the file being written, if any, and the files that were
  kept, each with the name it was to be stored under, the size it was offered with and its bytes.
\<close>

type_synonym folder = "(bytes \<times> u64 \<times> bytes) option \<times> (bytes \<times> u64 \<times> bytes) list"

fun folder_step :: "folder \<Rightarrow> FileReceiverEffect \<Rightarrow> folder" where
  "folder_step (cur, kept) (FrOpened i name sz stored) = (if stored = [] then (cur, kept) else (Some (name, sz, []), kept))"
| "folder_step (cur, kept) (FrWritten i d ok) =
     ((if ok then map_option (\<lambda>(name, sz, old). (name, sz, old @ d)) cur else cur), kept)"
| "folder_step (cur, kept) (FrClosed i keep ok) =
     (None, if keep \<and> ok then kept @ (case cur of None \<Rightarrow> [] | Some file \<Rightarrow> [file]) else kept)"
| "folder_step f (FrSent m) = f"
| "folder_step f (FrProgress p) = f"
| "folder_step f (FrAudited l) = f"

abbreviation folder_run :: "folder \<Rightarrow> FileReceiverEffect list \<Rightarrow> folder" where
  "folder_run \<equiv> foldl folder_step"

definition kept_whole :: "folder \<Rightarrow> bool" where
  "kept_whole f \<longleftrightarrow> (\<forall>(name, sz, d)\<in>set (snd f). safe_name name \<and> length d = unat sz \<and> sz \<le> kMaxTransferFileBytes)"

definition fr_shape :: "FileReceiver \<Rightarrow> bool" where
  "fr_shape r \<longleftrightarrow> length (fr_names r) = length (fr_files r) \<and> length (fr_stored r) = length (fr_files r)
     \<and> length (fr_files r) \<le> kMaxTransferFiles \<and> (\<forall>n\<in>set (fr_names r). safe_name n)
     \<and> (\<forall>x\<in>set (fr_files r). tf_size x \<le> kMaxTransferFileBytes)"

abbreviation cur_file :: "FileReceiver \<Rightarrow> TransferFile" where
  "cur_file r \<equiv> fr_files r ! unat (fr_index r)"

definition receiving :: "FileReceiver \<Rightarrow> folder \<Rightarrow> bool" where
  "receiving r f \<longleftrightarrow> unat (fr_index r) < length (fr_files r) \<and> fr_received r \<le> tf_size (cur_file r)
     \<and> (if fr_fileOpen r
        then \<exists>d. fst f = Some (fr_names r ! unat (fr_index r), tf_size (cur_file r), d)
          \<and> length d = unat (fr_received r) \<and> fr_crc r = crc_Update crc_Reset d
        else fst f = None \<and> fr_received r = 0 \<and> fr_crc r = crc_Reset)"

definition fr_inv :: "FileReceiver \<Rightarrow> folder \<Rightarrow> bool" where
  "fr_inv r f \<longleftrightarrow> fr_shape r \<and> kept_whole f
     \<and> (if fr_state r = FrReceiving then receiving r f else \<not> fr_fileOpen r \<and> fst f = None)"

lemma fr_init_inv: "fr_inv fr_init (None, [])"
  by (simp add: fr_inv_def fr_init_def fr_shape_def kept_whole_def)

lemma folder_quiet [simp]:
  "folder_run f (fr_Emit m) = f" "folder_run f (fr_Audit r what detail) = f"
  "folder_run f (fr_Refuse r i reason) = f" "folder_run f (fr_Ack r reason) = f"
  by (auto simp: fr_Emit_def fr_Audit_def fr_Refuse_def fr_Ack_def)

lemma Report_some:
  assumes "fr_shape r"
  shows "\<exists>p. fr_Report r = Some [FrProgress p]"
  using assms by (auto simp: fr_Report_def fr_Progress_def fr_shape_def Let_def vec_at_in)

lemma Abort_inv:
  assumes "fr_shape r" "kept_whole f" "fr_fileOpen r \<or> fst f = None"
  shows "\<exists>r' out. fr_Abort cb r reason tell = Some (r', out) \<and> fr_inv r' (folder_run f out)
    \<and> snd (folder_run f out) = snd f"
proof -
  obtain ok r1 closed where close: "CloseCurrent cb r False = (ok, r1, closed)" by (cases "CloseCurrent cb r False") auto
  have r1: "r1 = r\<lparr>fr_fileOpen := False\<rparr>" and f: "folder_run f closed = (None, snd f)"
    using close assms(3) by (cases f; auto simp: CloseCurrent_def Let_def split: if_splits)+
  let ?r = "r1\<lparr>fr_state := FrFailed, fr_reason := reason\<rparr>"
  have shape: "fr_shape ?r" using assms(1) by (simp add: fr_shape_def r1)
  obtain p where "fr_Report ?r = Some [FrProgress p]" using Report_some [OF shape] by blast
  then have "fr_Abort cb r reason tell = Some (?r, closed
      @ (if tell then fr_Emit (BuildFileCancel kMaxRecordSize \<lparr>fx_batchId = fr_batchId r1, fx_reason = reason\<rparr>) else [])
      @ fr_Audit ?r (bytes_of ''aborted'') (TransferReasonName reason) @ [FrProgress p])"
    using close by (simp add: fr_Abort_def Let_def)
  moreover have "fr_inv ?r (None, snd f)" using shape assms(2) by (simp add: fr_inv_def kept_whole_def r1)
  ultimately show ?thesis using f by (cases tell) simp_all
qed

lemma receiving_cases:
  assumes "fr_inv r f" "fr_state r = FrReceiving"
  shows "receiving r f" "fr_shape r" "kept_whole f" "fr_fileOpen r \<or> fst f = None"
    "vec_at (fr_files r) (unat (fr_index r)) = Some (cur_file r)"
    "vec_at (fr_names r) (unat (fr_index r)) = Some (fr_names r ! unat (fr_index r))"
    "vec_at (fr_stored r) (unat (fr_index r)) = Some (fr_stored r ! unat (fr_index r))"
proof -
  show "receiving r f" and shape: "fr_shape r" and "kept_whole f" using assms by (simp_all add: fr_inv_def)
  then have "unat (fr_index r) < length (fr_files r)" and "fr_fileOpen r \<or> fst f = None"
    by (auto simp: receiving_def split: if_splits)
  then show "fr_fileOpen r \<or> fst f = None" "vec_at (fr_files r) (unat (fr_index r)) = Some (cur_file r)"
    "vec_at (fr_names r) (unat (fr_index r)) = Some (fr_names r ! unat (fr_index r))"
    "vec_at (fr_stored r) (unat (fr_index r)) = Some (fr_stored r ! unat (fr_index r))"
    using shape by (simp_all add: fr_shape_def vec_at_in)
qed

lemma ensure_open_inv:
  assumes inv: "fr_inv r f" and st: "fr_state r = FrReceiving"
  shows "\<exists>ok r' out. ensure_open cb r = Some (ok, r', out) \<and> fr_inv r' (folder_run f out)
    \<and> (ok \<longrightarrow> fr_state r' = FrReceiving \<and> fr_fileOpen r' \<and> fr_received r' = fr_received r \<and> fr_index r' = fr_index r \<and> fr_files r' = fr_files r)"
proof (cases "fr_fileOpen r")
  case True
  then show ?thesis using inv st by (auto simp: ensure_open_def)
next
  case False
  note cur = receiving_cases [OF inv st]
  let ?i = "unat (fr_index r)"
  let ?stored = "fr_open cb (fr_index r) (fr_names r ! ?i) (tf_size (cur_file r))"
  let ?opened = "FrOpened (fr_index r) (fr_names r ! ?i) (tf_size (cur_file r)) ?stored"
  show ?thesis
  proof (cases "?stored = []")
    case True
    have quiet: "folder_step f ?opened = f" using True by (cases f) simp
    obtain r' out where "fr_Abort cb r TransferWriteFailed True = Some (r', out)" "fr_inv r' (folder_run f out)"
      using Abort_inv [OF cur(2,3,4)] by blast
    then show ?thesis using False True cur quiet by (auto simp: ensure_open_def OpenCurrent_def)
  next
    case stored: False
    let ?r = "r\<lparr>fr_stored := (fr_stored r)[?i := ?stored], fr_fileOpen := True\<rparr>"
    have start: "fr_received r = 0" "fr_crc r = crc_Reset" using cur(1) False by (auto simp: receiving_def)
    have step: "folder_step f ?opened = (Some (fr_names r ! ?i, tf_size (cur_file r), []), snd f)"
      using stored by (cases f) simp
    have "fr_inv ?r (folder_step f ?opened)"
      unfolding step using inv st cur start by (auto simp: fr_inv_def receiving_def fr_shape_def kept_whole_def crc_Update_def)
    then show ?thesis using False stored cur st by (auto simp: ensure_open_def OpenCurrent_def Let_def)
  qed
qed

lemma take_chunk_inv:
  assumes inv: "fr_inv r f" and st: "fr_state r = FrReceiving" "fr_fileOpen r"
    and fits: "\<not> of_nat (length d) > tf_size (cur_file r) - fr_received r" "length d \<le> kMaxFileChunkBytes"
  shows "\<exists>r' out. take_chunk cb r d = Some (r', out) \<and> fr_inv r' (folder_run f out)"
proof -
  note cur = receiving_cases [OF inv st(1)]
  obtain data where data: "fst f = Some (fr_names r ! unat (fr_index r), tf_size (cur_file r), data)"
    "length data = unat (fr_received r)" "fr_crc r = crc_Update crc_Reset data"
    using cur(1) st(2) by (auto simp: receiving_def)
  show ?thesis
  proof (cases "fr_write cb (fr_index r) d")
    case False
    have quiet: "folder_step f (FrWritten (fr_index r) d False) = f" by (cases f) simp
    obtain r' out where "fr_Abort cb r TransferWriteFailed True = Some (r', out)" "fr_inv r' (folder_run f out)"
      using Abort_inv [OF cur(2,3,4)] by blast
    then show ?thesis using False quiet by (simp add: take_chunk_def)
  next
    case True
    let ?r = "r\<lparr>fr_crc := crc_Update (fr_crc r) d, fr_received := fr_received r + of_nat (length d),
                fr_batchReceived := fr_batchReceived r + of_nat (length d)\<rparr>"
    have le: "fr_received r \<le> tf_size (cur_file r)" using cur(1) by (simp add: receiving_def)
    have small: "unat (of_nat (length d) :: u64) = length d" using fits(2) by (simp add: unat_of_nat kconsts)
    have sum_le: "unat (fr_received r) + length d \<le> unat (tf_size (cur_file r))"
      using fits(1) le small by (simp add: not_less word_le_nat_alt unat_sub)
    moreover have "unat (tf_size (cur_file r)) < 2 ^ 64" using unsigned_less [of "tf_size (cur_file r)"] by simp
    ultimately have sum: "unat (fr_received r + of_nat (length d)) = unat (fr_received r) + length d"
      using small by (subst unat_add_lem [THEN iffD1]) simp_all
    have step: "folder_step f (FrWritten (fr_index r) d True)
        = (Some (fr_names r ! unat (fr_index r), tf_size (cur_file r), data @ d), snd f)"
      using data(1) by (cases f) simp
    have shape: "fr_shape ?r" using cur(2) by (simp add: fr_shape_def)
    have "receiving ?r (folder_step f (FrWritten (fr_index r) d True))"
      unfolding step using cur(1) st(2) data(2,3) sum sum_le
      by (simp add: receiving_def word_le_nat_alt crc_Update_def)
    then have "fr_inv ?r (folder_step f (FrWritten (fr_index r) d True))"
      unfolding step using shape st(1) cur(3) by (simp add: fr_inv_def kept_whole_def)
    moreover obtain p where "fr_Report ?r = Some [FrProgress p]" using Report_some [OF shape] by blast
    ultimately show ?thesis using True by (simp add: take_chunk_def Let_def)
  qed
qed


lemma next_file_inv:
  assumes shape: "fr_shape r" and kept: "kept_whole f" "fst f = None" and st: "fr_state r = FrReceiving" "\<not> fr_fileOpen r"
    and index: "unat (fr_index r) < length (fr_files r)"
  shows "\<exists>r' out. next_file r = Some (r', out) \<and> fr_inv r' (folder_run f out)"
proof -
  let ?r = "r\<lparr>fr_index := fr_index r + 1, fr_received := 0, fr_crc := crc_Reset\<rparr>"
  let ?done = "unat (fr_index ?r) \<ge> length (fr_files r)"
  let ?r2 = "if ?done then ?r\<lparr>fr_state := FrDone, fr_reason := TransferAccepted\<rparr> else ?r"
  have shape2: "fr_shape ?r2" using shape by (simp add: fr_shape_def)
  then obtain p where p: "fr_Report ?r2 = Some [FrProgress p]" using Report_some by blast
  have "fr_inv ?r2 f" using shape2 kept st by (auto simp: fr_inv_def receiving_def not_le)
  moreover have "vec_at (fr_stored r) (unat (fr_index r)) = Some (fr_stored r ! unat (fr_index r))"
    using shape index by (simp add: fr_shape_def vec_at_in)
  ultimately show ?thesis using p by (auto simp: next_file_def Let_def)
qed

lemma finish_file_inv:
  assumes inv: "fr_inv r f" and st: "fr_state r = FrReceiving" "fr_fileOpen r" and whole: "fr_received r = tf_size (cur_file r)"
  shows "\<exists>r' out. finish_file cb r crc = Some (r', out) \<and> fr_inv r' (folder_run f out)"
proof -
  note cur = receiving_cases [OF inv st(1)]
  obtain data where data: "fst f = Some (fr_names r ! unat (fr_index r), tf_size (cur_file r), data)"
    "length data = unat (tf_size (cur_file r))"
    using cur(1) st(2) whole by (auto simp: receiving_def)
  have index: "unat (fr_index r) < length (fr_files r)" using cur(1) by (simp add: receiving_def)
  let ?r = "r\<lparr>fr_fileOpen := False\<rparr>" and ?keep = "crc = crc_Value (fr_crc r)"
  let ?ok = "fr_close cb (fr_index r) ?keep"
  let ?f = "folder_step f (FrClosed (fr_index r) ?keep ?ok)"
  have close: "CloseCurrent cb r ?keep = (?ok, ?r, [FrClosed (fr_index r) ?keep ?ok])"
    using st(2) by (simp add: CloseCurrent_def Let_def)
  have shape: "fr_shape ?r" using cur(2) by (simp add: fr_shape_def)
  have none: "fst ?f = None" and snd: "snd ?f = (if ?keep \<and> ?ok then snd f @ [(fr_names r ! unat (fr_index r), tf_size (cur_file r), data)] else snd f)"
    using data(1) by (cases f; cases ?keep; cases ?ok; simp)+
  have "safe_name (fr_names r ! unat (fr_index r))" "tf_size (cur_file r) \<le> kMaxTransferFileBytes"
    using cur(2) index by (auto simp: fr_shape_def)
  then have kept: "kept_whole ?f" using cur(3) data(2) unfolding kept_whole_def snd by auto
  have aborted: "\<exists>r' out. fr_Abort cb ?r reason False = Some (r', out) \<and> fr_inv r' (folder_run ?f out)" for reason
    using Abort_inv [OF shape kept] none by blast
  show ?thesis
  proof (cases ?keep)
    case False
    then have "finish_file cb r crc = do { (r', out) \<leftarrow> fr_Abort cb ?r TransferCorrupt False;
        Some (r', [FrClosed (fr_index r) ?keep ?ok] @ (fr_Audit ?r (bytes_of ''corrupt'') (fr_names r ! unat (fr_index r))
          @ fr_Ack ?r TransferCorrupt) @ out) }"
      using close cur(6) by (simp add: finish_file_def)
    then show ?thesis using aborted [of TransferCorrupt] by auto
  next
    case True
    then have close': "CloseCurrent cb r True = (?ok, ?r, [FrClosed (fr_index r) ?keep ?ok])" using close by simp
    show ?thesis
    proof (cases ?ok)
      case False
      then have "finish_file cb r crc = do { (r', out) \<leftarrow> fr_Abort cb ?r TransferWriteFailed False;
          Some (r', [FrClosed (fr_index r) ?keep ?ok] @ (fr_Audit ?r (bytes_of ''write_failed'') (fr_stored r ! unat (fr_index r))
            @ fr_Ack ?r TransferWriteFailed) @ out) }"
        using True close' cur(7) by (simp add: finish_file_def)
      then show ?thesis using aborted [of TransferWriteFailed] by auto
    next
      case ok: True
      obtain r' out where "next_file ?r = Some (r', out)" "fr_inv r' (folder_run ?f out)"
        using next_file_inv [OF shape kept none] st(1) index by auto
      then show ?thesis using True ok close' by (simp add: finish_file_def)
    qed
  qed
qed

lemma read_offer_ok:
  "read_offer p at batch n = some_opt fs \<Longrightarrow> length fs = n \<and> (\<forall>f\<in>set fs. tf_size f \<le> kMaxTransferFileBytes)"
proof (induction p at batch n arbitrary: fs rule: read_offer.induct)
  case (2 p at batch n)
  then show ?case by (fastforce simp: Let_def bind_eq_Some_conv map_option_case split: if_splits option.splits)
qed simp

lemma ParseFileOffer_ok:
  assumes "ParseFileOffer p = some_opt offer"
  shows "length (fo_files offer) \<le> kMaxTransferFiles" "\<forall>f\<in>set (fo_files offer). tf_size f \<le> kMaxTransferFileBytes"
proof -
  obtain c fs where "read_offer p kFileOfferHeaderSize 0 (unat (c :: u8)) = some_opt fs" "\<not> unat c > kMaxTransferFiles" "fo_files offer = fs"
    using assms by (auto simp: ParseFileOffer_def Let_def bind_eq_Some_conv map_option_case split: if_splits option.splits)
  then show "length (fo_files offer) \<le> kMaxTransferFiles" "\<forall>f\<in>set (fo_files offer). tf_size f \<le> kMaxTransferFileBytes"
    using read_offer_ok by (auto simp: not_less)
qed

lemma admit_names: "admit_files limits fs batch = Inr names \<Longrightarrow> length names = length fs \<and> (\<forall>n\<in>set names. safe_name n)"
  by (induction limits fs batch arbitrary: names rule: admit_files.induct)
    (auto simp: Let_def SafeFileName_safe split: if_splits sum.splits)

lemma OnOffer_inv:
  assumes inv: "fr_inv r f"
  shows "\<exists>r' out. OnOffer r p = Some (r', out) \<and> fr_inv r' (folder_run f out)"
proof -
  obtain parsed where parsed: "ParseFileOffer p = Some parsed" using ParseFileOffer_safe by blast
  show ?thesis
  proof (cases parsed)
    case None
    then show ?thesis using parsed inv by (simp add: OnOffer_def)
  next
    case (Some offer)
    show ?thesis
    proof (cases "Admit r offer")
      case (Inl verdict)
      then show ?thesis using parsed Some inv by (simp add: OnOffer_def)
    next
      case (Inr names)
      then have idle: "fr_state r \<noteq> FrReceiving" and ne: "fo_files offer \<noteq> []"
        and names: "length names = length (fo_files offer)" "\<forall>n\<in>set names. safe_name n"
        using admit_names by (auto simp: Admit_def split: if_splits)
      let ?r = "r\<lparr>fr_batchId := fo_batchId offer, fr_files := fo_files offer, fr_names := names,
          fr_stored := replicate (length (fo_files offer)) [], fr_index := 0, fr_received := 0, fr_batchReceived := 0,
          fr_batchSize := sum_list (map tf_size (fo_files offer)), fr_fileOpen := False, fr_crc := crc_Reset,
          fr_state := FrReceiving, fr_reason := TransferAccepted\<rparr>"
      have shape: "fr_shape ?r" using names ParseFileOffer_ok [of p offer] parsed Some by (simp add: fr_shape_def)
      obtain q where "fr_Report ?r = Some [FrProgress q]" using Report_some [OF shape] by blast
      moreover have "fr_inv ?r f" using inv idle ne shape by (auto simp: fr_inv_def receiving_def)
      ultimately show ?thesis using parsed Some Inr by (simp add: OnOffer_def accept_offer_def Let_def)
    qed
  qed
qed

lemma ParseFileChunk_ok: "ParseFileChunk p = some_opt c \<Longrightarrow> length (fc_data c) \<le> kMaxFileChunkBytes"
  by (auto simp: ParseFileChunk_def Let_def bind_eq_Some_conv split: if_splits)

lemma OnChunk_inv:
  assumes inv: "fr_inv r f"
  shows "\<exists>r' out. OnChunk cb r p = Some (r', out) \<and> fr_inv r' (folder_run f out)"
proof -
  obtain parsed where parsed: "ParseFileChunk p = Some parsed" using ParseFile_safe by blast
  show ?thesis
  proof (cases "\<exists>c. parsed = Some c \<and> fc_batchId c = fr_batchId r \<and> fr_state r = FrReceiving")
    case False
    then show ?thesis using parsed inv by (cases parsed) (auto simp: OnChunk_def)
  next
    case True
    then obtain c where c: "parsed = Some c" "fc_batchId c = fr_batchId r" and st: "fr_state r = FrReceiving" by blast
    note cur = receiving_cases [OF inv st]
    let ?bad = "fc_fileIndex c \<noteq> fr_index r \<or> fc_offset c \<noteq> fr_received r
      \<or> of_nat (length (fc_data c)) > tf_size (cur_file r) - fr_received r"
    show ?thesis
    proof (cases ?bad)
      case True
      then have "OnChunk cb r p = fr_Abort cb r TransferCorrupt True" using parsed c st cur(5) by (auto simp: OnChunk_def)
      then show ?thesis using Abort_inv [OF cur(2,3,4), of cb TransferCorrupt True] by auto
    next
      case False
      obtain ok r1 opened where one: "ensure_open cb r = Some (ok, r1, opened)" "fr_inv r1 (folder_run f opened)"
        "ok \<longrightarrow> fr_state r1 = FrReceiving \<and> fr_fileOpen r1 \<and> fr_received r1 = fr_received r \<and> fr_index r1 = fr_index r \<and> fr_files r1 = fr_files r"
        using ensure_open_inv [OF inv st] by blast
      have eq: "OnChunk cb r p = do { (ok, r, opened) \<leftarrow> ensure_open cb r;
          if \<not> ok then Some (r, opened) else do { (r, out) \<leftarrow> take_chunk cb r (fc_data c); Some (r, opened @ out) } }"
        using False parsed c st cur(5) by (simp add: OnChunk_def)
      show ?thesis
      proof (cases ok)
        case ok: True
        then obtain r2 out where "take_chunk cb r1 (fc_data c) = Some (r2, out)" "fr_inv r2 (folder_run (folder_run f opened) out)"
          using take_chunk_inv [OF one(2), of "fc_data c" cb] one(3) False ParseFileChunk_ok [of p c] parsed c by auto
        then show ?thesis using eq one(1) ok by simp
      qed (use eq one in simp)
    qed
  qed
qed

lemma OnDone_inv:
  assumes inv: "fr_inv r f"
  shows "\<exists>r' out. OnDone cb r p = Some (r', out) \<and> fr_inv r' (folder_run f out)"
proof -
  obtain parsed where parsed: "ParseFileDone p = Some parsed" using ParseFile_safe by blast
  show ?thesis
  proof (cases "\<exists>d. parsed = Some d \<and> fd_batchId d = fr_batchId r \<and> fr_state r = FrReceiving")
    case False
    then show ?thesis using parsed inv by (cases parsed) (auto simp: OnDone_def)
  next
    case True
    then obtain d where d: "parsed = Some d" "fd_batchId d = fr_batchId r" and st: "fr_state r = FrReceiving" by blast
    note cur = receiving_cases [OF inv st]
    show ?thesis
    proof (cases "fd_fileIndex d \<noteq> fr_index r \<or> fr_received r \<noteq> tf_size (cur_file r)")
      case True
      then have "OnDone cb r p = fr_Abort cb r TransferCorrupt True" using parsed d st cur(5) by (simp add: OnDone_def)
      then show ?thesis using Abort_inv [OF cur(2,3,4), of cb TransferCorrupt True] by auto
    next
      case False
      obtain ok r1 opened where one: "ensure_open cb r = Some (ok, r1, opened)" "fr_inv r1 (folder_run f opened)"
        "ok \<longrightarrow> fr_state r1 = FrReceiving \<and> fr_fileOpen r1 \<and> fr_received r1 = fr_received r \<and> fr_index r1 = fr_index r \<and> fr_files r1 = fr_files r"
        using ensure_open_inv [OF inv st] by blast
      have eq: "OnDone cb r p = do { (ok, r, opened) \<leftarrow> ensure_open cb r;
          if \<not> ok then Some (r, opened) else do { (r, out) \<leftarrow> finish_file cb r (fd_crc32 d); Some (r, opened @ out) } }"
        using False parsed d st cur(5) by (simp add: OnDone_def)
      show ?thesis
      proof (cases ok)
        case ok: True
        then obtain r2 out where "finish_file cb r1 (fd_crc32 d) = Some (r2, out)" "fr_inv r2 (folder_run (folder_run f opened) out)"
          using finish_file_inv [OF one(2), of cb "fd_crc32 d"] one(3) False by auto
        then show ?thesis using eq one(1) ok by simp
      qed (use eq one in simp)
    qed
  qed
qed

lemma busy_abort_inv:
  assumes "fr_inv r f" "fr_Busy r"
  shows "\<exists>r' out. fr_Abort cb r reason tell = Some (r', out) \<and> fr_inv r' (folder_run f out)"
  using Abort_inv receiving_cases(2,3,4) [of r f] assms unfolding fr_Busy_def by blast

lemma HandleMessage_receiver_inv:
  assumes inv: "fr_inv r f"
  shows "\<exists>r' out. fr_HandleMessage cb r m = Some (r', out) \<and> fr_inv r' (folder_run f out)"
proof -
  obtain h where h: "ParseCommonHeader m = Some h" using ParseCommonHeader_safe [of m] by blast
  obtain p where p: "PayloadOf m = Some p" using PayloadOf_safe [of m] by blast
  obtain c where c: "ParseFileCancel p = Some c" using ParseFile_safe by blast
  have cancel: "\<exists>r' out. OnCancel cb r p = Some (r', out) \<and> fr_inv r' (folder_run f out)"
    using inv busy_abort_inv [OF inv] by (cases c) (auto simp: OnCancel_def c)
  show ?thesis
  proof (cases "\<exists>h'. h = Some h' \<and> ch_chan h' = ChanFile")
    case True
    then show ?thesis using h p inv OnOffer_inv [OF inv, of p] OnChunk_inv [OF inv, of cb p] OnDone_inv [OF inv, of cb p] cancel
      by (auto simp: fr_HandleMessage_def split: MsgType.splits)
  qed (use h inv in \<open>cases h, auto simp: fr_HandleMessage_def\<close>)
qed

datatype FileReceiverOp =
  ReceiverAccepting FileReceiverCallbacks bool | ReceiverLimits FileReceiverLimits | ReceiverPeer TransferPeer
  | ReceiverMessage FileReceiverCallbacks bytes | ReceiverLinkLost FileReceiverCallbacks

fun receiver_step :: "FileReceiver \<Rightarrow> FileReceiverOp \<Rightarrow> (FileReceiver \<times> FileReceiverEffect list) checked" where
  "receiver_step r (ReceiverAccepting cb on) = fr_SetAccepting cb r on"
| "receiver_step r (ReceiverLimits limits) = Some (fr_SetLimits r limits, [])"
| "receiver_step r (ReceiverPeer peer) = Some (fr_SetPeer r peer, [])"
| "receiver_step r (ReceiverMessage cb m) = fr_HandleMessage cb r m"
| "receiver_step r (ReceiverLinkLost cb) = fr_LinkLost cb r"

text \<open>The receiver together with its folder.\<close>

definition folder_receiver :: "FileReceiver \<times> folder \<Rightarrow> FileReceiverOp \<Rightarrow> ((FileReceiver \<times> folder) \<times> FileReceiverEffect list) checked" where
  "folder_receiver s x = map_option (\<lambda>(r, out). ((r, folder_run (snd s) out), out)) (receiver_step (fst s) x)"

interpretation file_receiver: component folder_receiver "\<lambda>s. fr_inv (fst s) (snd s)" "\<lambda>_. True" "\<lambda>_ _. True"
proof
  fix s :: "FileReceiver \<times> folder" and x
  assume "fr_inv (fst s) (snd s)"
  then obtain r f where s: "s = (r, f)" and inv: "fr_inv r f" by (cases s) auto
  have same: "fr_inv (r\<lparr>fr_accepting := on\<rparr>) f" "fr_inv (r\<lparr>fr_limits := l\<rparr>) f" "fr_inv (r\<lparr>fr_peer := p\<rparr>) f" for on l p
  proof -
    have "receiving (r\<lparr>fr_accepting := on\<rparr>) f = receiving r f" "receiving (r\<lparr>fr_limits := l\<rparr>) f = receiving r f"
      "receiving (r\<lparr>fr_peer := p\<rparr>) f = receiving r f" by (simp_all add: receiving_def)
    then show "fr_inv (r\<lparr>fr_accepting := on\<rparr>) f" "fr_inv (r\<lparr>fr_limits := l\<rparr>) f" "fr_inv (r\<lparr>fr_peer := p\<rparr>) f"
      using inv by (simp_all add: fr_inv_def fr_shape_def)
  qed
  have "\<exists>r' out. receiver_step r x = Some (r', out) \<and> fr_inv r' (folder_run f out)"
  proof (cases x)
    case (ReceiverAccepting cb on)
    then show ?thesis using same(1) busy_abort_inv [OF same(1)] by (auto simp: fr_SetAccepting_def Let_def)
  next
    case (ReceiverLinkLost cb)
    then show ?thesis using inv busy_abort_inv [OF inv] by (auto simp: fr_LinkLost_def)
  qed (use same HandleMessage_receiver_inv [OF inv] in \<open>auto simp: fr_SetLimits_def fr_SetPeer_def\<close>)
  then obtain r' out where "receiver_step r x = Some (r', out)" "fr_inv r' (folder_run f out)" by blast
  then show "\<exists>s' out. folder_receiver s x = Some (s', out) \<and> fr_inv (fst s') (snd s') \<and> True"
    by (intro exI [of _ "(r', folder_run f out)"] exI [of _ out]) (simp add: folder_receiver_def s)
qed

end
