(* ===== verification/FileExchange.thy ===== *)
theory FileExchange
  imports FileReceive
begin

text \<open>
  Both sides of a file transfer together: a batch that is offered and admitted arrives whole, however
  the reads cut it into chunks, when no callback fails and nothing is lost (the messages travel on a
  reliable stream).
\<close>

fun receive_all :: "FileReceiverCallbacks \<Rightarrow> FileReceiver \<Rightarrow> bytes list \<Rightarrow> (FileReceiver \<times> FileReceiverEffect list) checked" where
  "receive_all cb r [] = Some (r, [])"
| "receive_all cb r (m # ms) = do {
     (r, out) \<leftarrow> fr_HandleMessage cb r m;
     (r, rest) \<leftarrow> receive_all cb r ms;
     Some (r, out @ rest)
   }"

fun answer_all :: "FileSenderCallbacks \<Rightarrow> FileSender \<Rightarrow> bytes list \<Rightarrow> (FileSender \<times> FileSenderEffect list) checked" where
  "answer_all cb s [] = Some (s, [])"
| "answer_all cb s (m # ms) = do {
     (s, out) \<leftarrow> fs_HandleMessage cb s m;
     (s, rest) \<leftarrow> answer_all cb s ms;
     Some (s, out @ rest)
   }"

text \<open>The messages among the effects.\<close>

fun sent_of :: "FileSenderEffect list \<Rightarrow> bytes list" where
  "sent_of [] = []"
| "sent_of (FsSent m # es) = m # sent_of es"
| "sent_of (_ # es) = sent_of es"

fun replies_of :: "FileReceiverEffect list \<Rightarrow> bytes list" where
  "replies_of [] = []"
| "replies_of (FrSent m # es) = m # replies_of es"
| "replies_of (_ # es) = replies_of es"

lemma sent_of_append [simp]: "sent_of (a @ b) = sent_of a @ sent_of b"
  by (induction a rule: sent_of.induct) simp_all

lemma replies_of_append [simp]: "replies_of (a @ b) = replies_of a @ replies_of b"
  by (induction a rule: replies_of.induct) simp_all

lemma receive_all_append:
  "receive_all cb r (xs @ ys) = do { (r, out) \<leftarrow> receive_all cb r xs; (r, rest) \<leftarrow> receive_all cb r ys; Some (r, out @ rest) }"
  by (induction xs arbitrary: r) (auto split: Option.bind_split)

text \<open>Callbacks that do what they are asked.\<close>

definition willing :: "FileReceiverCallbacks \<Rightarrow> bool" where
  "willing cb \<longleftrightarrow> (\<forall>i n z. fr_open cb i n z \<noteq> []) \<and> (\<forall>i d. fr_write cb i d) \<and> (\<forall>i k. fr_close cb i k)"

text \<open>Each read gives some of the bytes asked for, at least one; the link takes every message.\<close>

definition reads :: "FileSenderCallbacks \<Rightarrow> bytes list \<Rightarrow> bool" where
  "reads cb contents \<longleftrightarrow> (\<forall>m. fs_send cb m) \<and> (\<forall>i off want. i < length contents \<longrightarrow> off < length (contents ! i) \<longrightarrow> 0 < want \<longrightarrow>
     want \<le> length (contents ! i) - off \<longrightarrow>
     (\<exists>n. 0 < n \<and> n \<le> want \<and> fs_read cb (of_nat i) (of_nat off) want = take n (drop off (contents ! i))))"

section \<open>The receiver, message by message\<close>

definition ack_message :: "u32 \<Rightarrow> nat \<Rightarrow> bytes" where
  "ack_message b k = BuildFileAck kMaxRecordSize \<lparr>fk_batchId = b, fk_fileIndex = of_nat k, fk_reason = TransferAccepted\<rparr>"

definition done_message :: "u32 \<Rightarrow> nat \<Rightarrow> bytes \<Rightarrow> bytes" where
  "done_message b k d = BuildFileDone kMaxRecordSize
     \<lparr>fd_batchId = b, fd_fileIndex = of_nat k, fd_crc32 = crc_Value (crc_Update crc_Reset d)\<rparr>"

lemma unat_u64: "unat (x :: u64) < 18446744073709551616"
proof -
  have "unat x < 2 ^ LENGTH(64)" by (rule unsigned_less)
  then show ?thesis by simp
qed

lemma unat_index: "k < 32 \<Longrightarrow> unat (of_nat k :: u16) = k" "k < 32 \<Longrightarrow> unat (of_nat k + 1 :: u16) = Suc k"
proof -
  assume k: "k < 32"
  then show "unat (of_nat k :: u16) = k" by (simp add: unat_of_nat)
  have "(of_nat k + 1 :: u16) = of_nat (Suc k)" by simp
  moreover have "unat (of_nat (Suc k) :: u16) = Suc k" using k unfolding unat_of_nat by simp
  ultimately show "unat (of_nat k + 1 :: u16) = Suc k" by metis
qed

text \<open>File \<open>k\<close> of the batch is being received, and the bytes \<open>d\<close> of it have arrived.\<close>

definition rcv_at :: "u32 \<Rightarrow> TransferFile list \<Rightarrow> bytes list \<Rightarrow> nat \<Rightarrow> bytes \<Rightarrow> (bytes \<times> u64 \<times> bytes) list \<Rightarrow> FileReceiver \<Rightarrow> folder \<Rightarrow> bool" where
  "rcv_at b files names k d kept r f \<longleftrightarrow> fr_state r = FrReceiving \<and> fr_batchId r = b \<and> fr_files r = files \<and> fr_names r = names
     \<and> fr_index r = of_nat k \<and> k < length files \<and> fr_received r = of_nat (length d) \<and> length d \<le> unat (tf_size (files ! k))
     \<and> fr_crc r = crc_Update crc_Reset d \<and> snd f = kept \<and> fr_shape r
     \<and> (if fr_fileOpen r then fst f = Some (names ! k, tf_size (files ! k), d) else d = [] \<and> fst f = None)"

lemma rcv_at_index:
  assumes "rcv_at b files names k d kept r f"
  shows "unat (fr_index r) = k" "unat (fr_received r) = length d" "cur_file r = files ! k" "k < 32"
    "vec_at (fr_files r) (unat (fr_index r)) = Some (files ! k)" "vec_at (fr_names r) (unat (fr_index r)) = Some (names ! k)"
    "k < length (fr_stored r)" "tf_size (files ! k) \<le> kMaxTransferFileBytes"
proof -
  have k: "k < length files" "length files \<le> 32" "fr_files r = files" "fr_index r = of_nat k" and size: "length d \<le> unat (tf_size (files ! k))"
    and shape: "fr_shape r" using assms by (auto simp: rcv_at_def fr_shape_def kconsts)
  then show idx: "unat (fr_index r) = k" by (simp add: unat_of_nat)
  then show "cur_file r = files ! k" "k < 32" "vec_at (fr_files r) (unat (fr_index r)) = Some (files ! k)" "k < length (fr_stored r)"
    "vec_at (fr_names r) (unat (fr_index r)) = Some (names ! k)" "tf_size (files ! k) \<le> kMaxTransferFileBytes"
    using k shape assms by (auto simp: fr_shape_def vec_at_in rcv_at_def)
  have "length d < 2 ^ 64" using size unat_u64 [of "tf_size (files ! k)"] by simp
  then show "unat (fr_received r) = length d" using assms by (simp add: rcv_at_def unat_of_nat)
qed

lemma file_message:
  assumes "parse_with (\<lambda>_. parse) m = some_opt (hdr t 0 ChanFile i, x)"
  shows "\<exists>p. PayloadOf m = Some p \<and> parse p = some_opt x \<and> ParseCommonHeader m = some_opt (hdr t 0 ChanFile i)"
  using assms by (auto simp: parse_with_def bind_eq_Some_conv split: option.splits)

lemma ensure_open_at:
  assumes at: "rcv_at b files names k d kept r f" and cb: "willing cb"
  shows "\<exists>r' out. ensure_open cb r = Some (True, r', out) \<and> replies_of out = [] \<and> fr_fileOpen r'
    \<and> rcv_at b files names k d kept r' (folder_run f out)"
proof (cases "fr_fileOpen r")
  case True
  then show ?thesis using at by (simp add: ensure_open_def)
next
  case False
  note i = rcv_at_index [OF at]
  let ?stored = "fr_open cb (fr_index r) (names ! k) (tf_size (files ! k))"
  let ?r = "r\<lparr>fr_stored := (fr_stored r)[k := ?stored], fr_fileOpen := True\<rparr>"
  have ne: "?stored \<noteq> []" using cb by (simp add: willing_def)
  have step: "folder_step f (FrOpened (fr_index r) (names ! k) (tf_size (files ! k)) ?stored) = (Some (names ! k, tf_size (files ! k), []), snd f)"
    using ne by (cases f) simp
  have "ensure_open cb r = Some (True, ?r, [FrOpened (fr_index r) (names ! k) (tf_size (files ! k)) ?stored])"
    using False i ne by (simp add: ensure_open_def OpenCurrent_def Let_def vec_at_in)
  moreover have "rcv_at b files names k d kept ?r (Some (names ! k, tf_size (files ! k), []), snd f)"
    using at False by (auto simp: rcv_at_def fr_shape_def)
  ultimately show ?thesis using step by simp
qed

lemma receive_chunk:
  assumes at: "rcv_at b files names k d kept r f" and cb: "willing cb"
    and d2: "d2 \<noteq> []" "length d2 \<le> kMaxFileChunkBytes" "length d + length d2 \<le> unat (tf_size (files ! k))"
  shows "\<exists>r' out. fr_HandleMessage cb r (BuildFileChunk kMaxRecordSize b (of_nat k) (of_nat (length d)) d2) = Some (r', out)
    \<and> replies_of out = [] \<and> rcv_at b files names k (d @ d2) kept r' (folder_run f out)"
proof -
  note i = rcv_at_index [OF at]
  let ?m = "BuildFileChunk kMaxRecordSize b (of_nat k) (of_nat (length d)) d2"
  have big: "length d + length d2 < 2 ^ 64" using d2(3) unat_u64 [of "tf_size (files ! k)"] by simp
  have off: "unat (of_nat (length d) :: u64) = length d" "unat (of_nat (length d2) :: u64) = length d2"
    using big by (simp_all add: unat_of_nat)
  have ne: "?m \<noteq> []" using d2 i(4) by (auto simp: BuildFileChunk_def WriteCommon_def finish_def kconsts unat_of_nat)
  have "unat (of_nat (length d) :: u64) + length d2 \<le> unat kMaxTransferFileBytes"
    using d2(3) i(8) off by (simp add: word_le_nat_alt)
  from file_message [OF FileChunk_roundtrip [OF ne this]] obtain p where p: "PayloadOf ?m = Some p"
    "ParseFileChunk p = some_opt \<lparr>fc_batchId = b, fc_fileIndex = of_nat k, fc_offset = of_nat (length d), fc_data = d2\<rparr>"
    "ParseCommonHeader ?m = some_opt (hdr MsgFileChunk 0 ChanFile b)" by blast
  have fits: "\<not> of_nat (length d2) > tf_size (files ! k) - fr_received r"
    using d2(3) off i(2) by (simp add: not_less word_le_nat_alt unat_sub)
  have state: "fr_state r = FrReceiving" "fr_batchId r = b" "fr_index r = of_nat k" "fr_received r = of_nat (length d)"
    using at by (auto simp: rcv_at_def)
  obtain r1 out1 where one: "ensure_open cb r = Some (True, r1, out1)" "replies_of out1 = []" "fr_fileOpen r1"
    "rcv_at b files names k d kept r1 (folder_run f out1)"
    using ensure_open_at [OF at cb] by blast
  let ?r = "r1\<lparr>fr_crc := crc_Update (fr_crc r1) d2, fr_received := fr_received r1 + of_nat (length d2),
              fr_batchReceived := fr_batchReceived r1 + of_nat (length d2)\<rparr>"
  let ?f = "folder_run f out1"
  have step: "folder_step ?f (FrWritten (fr_index r1) d2 True) = (Some (names ! k, tf_size (files ! k), d @ d2), snd ?f)"
    using one(3,4) by (cases ?f) (simp add: rcv_at_def)
  have shape: "fr_shape ?r" using one(4) by (auto simp: rcv_at_def fr_shape_def)
  then obtain q where q: "fr_Report ?r = Some [FrProgress q]" using Report_some by blast
  have "take_chunk cb r1 d2 = Some (?r, [FrWritten (fr_index r1) d2 True, FrProgress q])"
    using cb q by (simp add: take_chunk_def willing_def Let_def)
  moreover have "rcv_at b files names k (d @ d2) kept ?r (Some (names ! k, tf_size (files ! k), d @ d2), snd ?f)"
    using one(3,4) shape d2(3) by (simp add: rcv_at_def crc_Update_def)
  ultimately show ?thesis
    using one(1,2) p fits state i step by (simp add: fr_HandleMessage_def OnChunk_def)
qed

lemma receive_done:
  assumes at: "rcv_at b files names k d kept r f" and cb: "willing cb" and whole: "length d = unat (tf_size (files ! k))"
  defines "kept' \<equiv> kept @ [(names ! k, tf_size (files ! k), d)]"
  shows "\<exists>r' out. fr_HandleMessage cb r (done_message b k d) = Some (r', out) \<and> replies_of out = [ack_message b k]
    \<and> (if Suc k < length files then rcv_at b files names (Suc k) [] kept' r' (folder_run f out)
       else fr_state r' = FrDone \<and> snd (folder_run f out) = kept')"
proof -
  note i = rcv_at_index [OF at]
  let ?done = "\<lparr>fd_batchId = b, fd_fileIndex = of_nat k, fd_crc32 = crc_Value (crc_Update crc_Reset d)\<rparr>"
  have ne: "done_message b k d \<noteq> []" by (auto simp: done_message_def BuildFileDone_def WriteCommon_def finish_def kconsts)
  have "unat (fd_fileIndex ?done) < kMaxTransferFiles" using i(4) by (simp add: unat_of_nat kconsts)
  from file_message [OF FileDone_roundtrip [OF _ this, of kMaxRecordSize]] ne obtain p where p: "PayloadOf (done_message b k d) = Some p"
    "ParseFileDone p = some_opt ?done" "ParseCommonHeader (done_message b k d) = some_opt (hdr MsgFileDone 0 ChanFile b)"
    unfolding done_message_def by auto
  have state: "fr_state r = FrReceiving" "fr_batchId r = b" "fr_index r = of_nat k" "fr_received r = tf_size (files ! k)"
    using at whole i(2) by (auto simp: rcv_at_def)
  obtain r1 out1 where one: "ensure_open cb r = Some (True, r1, out1)" "replies_of out1 = []" "fr_fileOpen r1"
    "rcv_at b files names k d kept r1 (folder_run f out1)"
    using ensure_open_at [OF at cb] by blast
  note i1 = rcv_at_index [OF one(4)]
  let ?f = "folder_run f out1" and ?r1 = "r1\<lparr>fr_fileOpen := False\<rparr>"
  let ?r2 = "?r1\<lparr>fr_index := fr_index r1 + 1, fr_received := 0, fr_crc := crc_Reset\<rparr>"
  let ?fin_batch = "unat (fr_index ?r2) \<ge> length files"
  let ?r3 = "if ?fin_batch then ?r2\<lparr>fr_state := FrDone, fr_reason := TransferAccepted\<rparr> else ?r2"
  have fields: "fr_files r1 = files" "fr_crc r1 = crc_Update crc_Reset d" "fr_batchId r1 = b" "fr_index r1 = of_nat k" "fr_shape r1" "k < length files"
    "fr_state r1 = FrReceiving" "fr_names r1 = names"
    using one(4) by (auto simp: rcv_at_def)
  have step: "folder_step ?f (FrClosed (fr_index r1) True True) = (None, kept')"
    using one(3,4) by (cases ?f) (simp add: rcv_at_def kept'_def)
  have close: "CloseCurrent cb r1 True = (True, ?r1, [FrClosed (fr_index r1) True True])"
    using one(3) cb by (simp add: CloseCurrent_def willing_def Let_def)
  have shape: "fr_shape ?r3" using fields(5) by (simp add: fr_shape_def)
  then obtain q where q: "fr_Report ?r3 = Some [FrProgress q]" using Report_some by blast
  have next_idx: "unat (fr_index ?r2) = Suc k" using unat_index(2) [OF i(4)] by (simp add: fields)
  let ?tail = "fr_Audit ?r1 (bytes_of ''stored'') (fr_stored r1 ! k) @ fr_Ack ?r1 TransferAccepted
      @ (if ?fin_batch then fr_Audit ?r3 (bytes_of ''complete'') [] else []) @ [FrProgress q]"
  have "next_file ?r1 = Some (?r3, ?tail)"
    using q i1(1,7) fields(1) by (simp add: next_file_def Let_def vec_at_in)
  then have fin: "finish_file cb r1 (crc_Value (crc_Update crc_Reset d)) = Some (?r3, [FrClosed (fr_index r1) True True] @ ?tail)"
    using close fields(2) by (simp add: finish_file_def)
  have ack: "fr_Ack ?r1 TransferAccepted = [FrSent (ack_message b k)]"
    by (auto simp: fr_Ack_def fr_Emit_def ack_message_def fields BuildFileAck_def WriteCommon_def finish_def kconsts)
  have quiet: "replies_of (fr_Audit x w y) = []" for x w y by (simp add: fr_Audit_def)
  have msg: "fr_HandleMessage cb r (done_message b k d) = Some (?r3, out1 @ [FrClosed (fr_index r1) True True] @ ?tail)"
    using p state i one(1) fin by (simp add: fr_HandleMessage_def OnDone_def)
  have folder: "folder_run f (out1 @ [FrClosed (fr_index r1) True True] @ ?tail) = (None, kept')"
    using step by simp
  have "if Suc k < length files then rcv_at b files names (Suc k) [] kept' ?r3 (None, kept') else fr_state ?r3 = FrDone"
    using fields shape next_idx by (auto simp: rcv_at_def crc_Update_def not_le)
  note last = this
  define r3 where "r3 = ?r3"
  define out where "out = out1 @ [FrClosed (fr_index r1) True True] @ ?tail"
  have "fr_HandleMessage cb r (done_message b k d) = Some (r3, out)" unfolding r3_def out_def by (rule msg)
  moreover have "folder_run f out = (None, kept')" unfolding out_def by (rule folder)
  moreover have "if Suc k < length files then rcv_at b files names (Suc k) [] kept' r3 (None, kept') else fr_state r3 = FrDone"
    unfolding r3_def by (rule last)
  moreover have "replies_of out = [ack_message b k]" using one(2) ack quiet by (simp add: out_def)
  ultimately show ?thesis by (intro exI [of _ r3] exI [of _ out]) simp
qed


section \<open>The sender, chunk by chunk\<close>

text \<open>File \<open>k\<close> of the batch is being sent, and the bytes \<open>d\<close> of it have been.\<close>

definition snd_at :: "u32 \<Rightarrow> TransferFile list \<Rightarrow> nat \<Rightarrow> bytes \<Rightarrow> FileSender \<Rightarrow> bool" where
  "snd_at b files k d s \<longleftrightarrow> fs_state s = FsSending \<and> fs_batchId s = b \<and> fs_files s = files \<and> fs_index s = of_nat k
     \<and> fs_sent s = of_nat (length d) \<and> fs_crc s = crc_Update crc_Reset d \<and> fs_acked s = 0"

definition chunk_message :: "u32 \<Rightarrow> nat \<Rightarrow> nat \<Rightarrow> bytes \<Rightarrow> bytes" where
  "chunk_message b k off d = BuildFileChunk kMaxRecordSize b (of_nat k) (of_nat off) d"

lemma FinishFile_at:
  assumes at: "snd_at b files k d s" and send: "\<forall>m. fs_send cb m"
  shows "\<exists>s'. FinishFile cb s = (True, s', [FsSent (done_message b k d)]) \<and> snd_at b files (Suc k) [] s'"
proof -
  have "done_message b k d \<noteq> []" by (auto simp: done_message_def BuildFileDone_def WriteCommon_def finish_def kconsts)
  then have "FinishFile cb s = (True, s\<lparr>fs_crc := crc_Reset, fs_sent := 0, fs_index := fs_index s + 1\<rparr>, [FsSent (done_message b k d)])"
    using at send by (simp add: FinishFile_def Let_def fs_Emit_def snd_at_def done_message_def)
  moreover have "snd_at b files (Suc k) [] (s\<lparr>fs_crc := crc_Reset, fs_sent := 0, fs_index := fs_index s + 1\<rparr>)"
    using at by (simp add: snd_at_def crc_Update_def add.commute)
  ultimately show ?thesis by blast
qed

lemma prefix_whole: "d = take (length d) c \<Longrightarrow> length c \<le> length d \<longleftrightarrow> d = c"
  by (metis order_refl take_all)

lemma SendOneChunk_at:
  assumes at: "snd_at b files k d s" and k: "k < length files" "k < 32" and cb: "reads cb contents" "k < length contents"
    and content: "d = take (length d) (contents ! k)" "length (contents ! k) = unat (tf_size (files ! k))"
  shows "\<exists>s' out d2. SendOneChunk cb s = (True, s', out)
    \<and> (if d = contents ! k then sent_of out = [done_message b k d] \<and> snd_at b files (Suc k) [] s'
       else d2 \<noteq> [] \<and> length d2 \<le> kMaxFileChunkBytes \<and> d @ d2 = take (length (d @ d2)) (contents ! k)
         \<and> length (d @ d2) \<le> length (contents ! k)
         \<and> (if d @ d2 = contents ! k
            then sent_of out = [chunk_message b k (length d) d2, done_message b k (d @ d2)] \<and> snd_at b files (Suc k) [] s'
            else sent_of out = [chunk_message b k (length d) d2] \<and> snd_at b files k (d @ d2) s'))"
proof -
  let ?c = "contents ! k" and ?sz = "tf_size (files ! k)"
  have send: "\<forall>m. fs_send cb m" using cb(1) by (simp add: reads_def)
  have len: "length d \<le> length ?c" using arg_cong [OF content(1), of length] by simp
  have off: "unat (of_nat (length d) :: u64) = length d"
    using len content(2) unat_u64 [of ?sz] by (simp add: unat_of_nat)
  have state: "fs_index s = of_nat k" "unat (fs_index s) = k" "fs_files s = files" "fs_sent s = of_nat (length d)" "fs_batchId s = b"
    using at unat_index(1) [OF k(2)] by (auto simp: snd_at_def)
  have whole: "fs_sent s \<ge> ?sz \<longleftrightarrow> d = ?c"
    using prefix_whole [OF content(1)] off content(2) unfolding state(4) word_le_nat_alt by simp
  show ?thesis
  proof (cases "d = ?c")
    case True
    then obtain s' where "FinishFile cb s = (True, s', [FsSent (done_message b k d)])" "snd_at b files (Suc k) [] s'"
      using FinishFile_at [OF at send] by blast
    then show ?thesis using True whole state k(1) by (simp add: SendOneChunk_def)
  next
    case False
    then have short: "length d < length ?c" using prefix_whole [OF content(1)] by simp
    let ?left = "?sz - fs_sent s"
    have left: "unat ?left = length ?c - length d"
      using short off state(4) content(2) by (subst unat_sub) (simp_all add: word_le_nat_alt)
    define want where "want = (if ?left < of_nat kMaxFileChunkBytes then unat ?left else kMaxFileChunkBytes)"
    have "unat (of_nat kMaxFileChunkBytes :: u64) = kMaxFileChunkBytes" by (simp add: kconsts unat_of_nat)
    then have want: "0 < want" "want \<le> length ?c - length d" "want \<le> kMaxFileChunkBytes"
      using left short by (auto simp: want_def word_less_nat_alt kconsts)
    obtain n where n: "0 < n" "n \<le> want" "fs_read cb (of_nat k) (of_nat (length d)) want = take n (drop (length d) ?c)"
      using cb short want unfolding reads_def by blast
    define d2 where "d2 = take n (drop (length d) ?c)"
    have d2: "length d2 = n" "d2 \<noteq> []" "length d2 \<le> kMaxFileChunkBytes" using n want short by (auto simp: d2_def)
    have "d @ d2 = take (length d + n) ?c" unfolding d2_def take_add using content(1) by simp
    then have dd: "d @ d2 = take (length (d @ d2)) ?c" "length (d @ d2) \<le> length ?c" using d2(1) n want by simp_all
    have left_eq: "tf_size (fs_files s ! unat (fs_index s)) - fs_sent s = ?left" using state by simp
    have read: "fs_read cb (fs_index s) (fs_sent s) want = d2" using n(3) state d2_def by simp
    let ?s = "s\<lparr>fs_crc := crc_Update (fs_crc s) d2, fs_sent := fs_sent s + of_nat (length d2),
                fs_batchSent := fs_batchSent s + of_nat (length d2)\<rparr>"
    have at': "snd_at b files k (d @ d2) ?s" using at by (simp add: snd_at_def crc_Update_def)
    have "chunk_message b k (length d) d2 \<noteq> []"
      using d2 k(2) by (auto simp: chunk_message_def BuildFileChunk_def WriteCommon_def finish_def kconsts unat_of_nat)
    then have eq: "SendOneChunk cb s = (if fs_sent ?s \<ge> ?sz
        then let (ok, s', fin) = FinishFile cb ?s in (ok, s', ([FsSent (chunk_message b k (length d) d2)] @ fs_Report ?s) @ fin)
        else (True, ?s, [FsSent (chunk_message b k (length d) d2)] @ fs_Report ?s))"
      using state k(1) whole False read d2(2) n(2) d2(1) send
      unfolding SendOneChunk_def Let_def left_eq want_def [symmetric] chunk_message_def by (simp add: fs_Emit_def)
    have "unat (of_nat (length (d @ d2)) :: u64) = length (d @ d2)"
      using dd(2) content(2) unat_u64 [of ?sz] unfolding unat_of_nat by simp
    then have whole': "fs_sent ?s \<ge> ?sz \<longleftrightarrow> d @ d2 = ?c"
      using prefix_whole [OF dd(1)] at' content(2) unfolding snd_at_def word_le_nat_alt by simp
    obtain s' where fin: "FinishFile cb ?s = (True, s', [FsSent (done_message b k (d @ d2))])" "snd_at b files (Suc k) [] s'"
      using FinishFile_at [OF at' send] by blast
    have quiet: "sent_of (fs_Report x) = []" for x by (simp add: fs_Report_def)
    show ?thesis
    proof (cases "d @ d2 = ?c")
      case True
      then show ?thesis using eq whole' fin quiet False d2 dd 
        by (intro exI [of _ s'] exI [of _ "[FsSent (chunk_message b k (length d) d2)] @ fs_Report ?s @ [FsSent (done_message b k (d @ d2))]"]
            exI [of _ d2]) simp
    next
      case part: False
      then show ?thesis using eq whole' quiet False d2 dd at' 
        by (intro exI [of _ ?s] exI [of _ "[FsSent (chunk_message b k (length d) d2)] @ fs_Report ?s"] exI [of _ d2]) simp
    qed
  qed
qed


section \<open>A whole batch\<close>

text \<open>One step of the sender, and what the receiver makes of it; the measure of what is left falls.\<close>

definition left_to_send :: "bytes list \<Rightarrow> nat \<Rightarrow> bytes \<Rightarrow> nat" where
  "left_to_send contents k d = sum_list (map (\<lambda>c. length c + 1) (drop k contents)) - length d"

definition batch_ok :: "TransferFile list \<Rightarrow> bytes list \<Rightarrow> bool" where
  "batch_ok files contents \<longleftrightarrow> length files \<le> 32 \<and> length contents = length files
     \<and> (\<forall>k<length files. length (contents ! k) = unat (tf_size (files ! k)))"

abbreviation stored_file :: "TransferFile list \<Rightarrow> bytes list \<Rightarrow> bytes list \<Rightarrow> nat \<Rightarrow> bytes \<times> u64 \<times> bytes" where
  "stored_file files names contents k \<equiv> (names ! k, tf_size (files ! k), contents ! k)"

lemma left_next: "k < length contents \<Longrightarrow> left_to_send contents k d = (length (contents ! k) + 1 + left_to_send contents (Suc k) []) - length d"
  by (simp add: left_to_send_def flip: Cons_nth_drop_Suc)

lemma both_step:
  assumes at: "snd_at b files k d s" "rcv_at b files names k d kept r f"
    and cb: "reads scb contents" "willing rcb" and ok: "batch_ok files contents" and d: "d = take (length d) (contents ! k)"
  shows "\<exists>s' out r' rout k' d' kept'. SendOneChunk scb s = (True, s', out) \<and> receive_all rcb r (sent_of out) = Some (r', rout)
    \<and> snd_at b files k' d' s' \<and> left_to_send contents k' d' < left_to_send contents k d \<and> k \<le> k'
    \<and> kept' = kept @ map (stored_file files names contents) [k..<k'] \<and> replies_of rout = map (ack_message b) [k..<k']
    \<and> (if k' < length files then rcv_at b files names k' d' kept' r' (folder_run f rout) \<and> d' = take (length d') (contents ! k')
       else k' = length files \<and> fr_state r' = FrDone \<and> snd (folder_run f rout) = kept')"
proof -
  have k: "k < length files" "k < 32" using at(2) ok by (auto simp: rcv_at_def batch_ok_def)
  have content: "length (contents ! k) = unat (tf_size (files ! k))" "k < length contents" using ok k by (auto simp: batch_ok_def)
  have dlen: "length d \<le> length (contents ! k)" using arg_cong [OF d, of length] by simp
  note left = left_next [OF content(2)]
  have upto: "[k..<Suc k] = [k]" by simp
  let ?kept' = "kept @ map (stored_file files names contents) [k..<Suc k]"
  obtain s' out d2 where one: "SendOneChunk scb s = (True, s', out)"
    "if d = contents ! k then sent_of out = [done_message b k d] \<and> snd_at b files (Suc k) [] s'
     else d2 \<noteq> [] \<and> length d2 \<le> kMaxFileChunkBytes \<and> d @ d2 = take (length (d @ d2)) (contents ! k)
       \<and> length (d @ d2) \<le> length (contents ! k)
       \<and> (if d @ d2 = contents ! k
          then sent_of out = [chunk_message b k (length d) d2, done_message b k (d @ d2)] \<and> snd_at b files (Suc k) [] s'
          else sent_of out = [chunk_message b k (length d) d2] \<and> snd_at b files k (d @ d2) s')"
    using SendOneChunk_at [OF at(1) k cb(1) content(2) d content(1)] by blast
  have kept_eq: "kept @ [(names ! k, tf_size (files ! k), x)] = ?kept'" if "x = contents ! k" for x using that by simp
  have less: "left_to_send contents (Suc k) [] < left_to_send contents k d" using left [of d] dlen by simp
  have last: "k' = Suc k \<Longrightarrow> \<not> k' < length files \<Longrightarrow> k' = length files" for k' using k(1) by simp
  show ?thesis
  proof (cases "d = contents ! k")
    case True
    obtain r' rout where two: "fr_HandleMessage rcb r (done_message b k d) = Some (r', rout)" "replies_of rout = [ack_message b k]"
      "if Suc k < length files then rcv_at b files names (Suc k) [] (kept @ [(names ! k, tf_size (files ! k), d)]) r' (folder_run f rout)
       else fr_state r' = FrDone \<and> snd (folder_run f rout) = kept @ [(names ! k, tf_size (files ! k), d)]"
      using receive_done [OF at(2) cb(2)] True content(1) by blast
    have sent: "sent_of out = [done_message b k d]" "snd_at b files (Suc k) [] s'" using one(2) True by auto
    have "receive_all rcb r (sent_of out) = Some (r', rout)" using sent(1) two(1) by simp
    then show ?thesis using one(1) sent(2) two(2) less last [OF refl] two(3) unfolding kept_eq [OF True]
      by (intro exI [of _ s'] exI [of _ out] exI [of _ r'] exI [of _ rout] exI [of _ "Suc k"] exI [of _ "[]"] exI [of _ ?kept'] conjI) (auto split: if_splits)
  next
    case False
    then have d2: "d2 \<noteq> []" "length d2 \<le> kMaxFileChunkBytes" "d @ d2 = take (length (d @ d2)) (contents ! k)"
      "length d + length d2 \<le> unat (tf_size (files ! k))" using one(2) content(1) by auto
    obtain r1 out1 where two: "fr_HandleMessage rcb r (chunk_message b k (length d) d2) = Some (r1, out1)" "replies_of out1 = []"
      "rcv_at b files names k (d @ d2) kept r1 (folder_run f out1)"
      using receive_chunk [OF at(2) cb(2) d2(1,2,4)] unfolding chunk_message_def by blast
    show ?thesis
    proof (cases "d @ d2 = contents ! k")
      case True
      obtain r' out2 where three: "fr_HandleMessage rcb r1 (done_message b k (d @ d2)) = Some (r', out2)" "replies_of out2 = [ack_message b k]"
        "if Suc k < length files then rcv_at b files names (Suc k) [] (kept @ [(names ! k, tf_size (files ! k), d @ d2)]) r' (folder_run (folder_run f out1) out2)
         else fr_state r' = FrDone \<and> snd (folder_run (folder_run f out1) out2) = kept @ [(names ! k, tf_size (files ! k), d @ d2)]"
        using receive_done [OF two(3) cb(2)] True content(1) by (metis (no_types, lifting))
      have sent: "sent_of out = [chunk_message b k (length d) d2, done_message b k (d @ d2)]" "snd_at b files (Suc k) [] s'"
        using one(2) False True by auto
      have "receive_all rcb r (sent_of out) = Some (r', out1 @ out2)" using sent(1) two(1) three(1) by simp
      then show ?thesis using one(1) sent(2) two(2) three(2) less last [OF refl] three(3) unfolding kept_eq [OF True]
        by (intro exI [of _ s'] exI [of _ out] exI [of _ r'] exI [of _ "out1 @ out2"] exI [of _ "Suc k"] exI [of _ "[]"] exI [of _ ?kept'] conjI)
          (auto split: if_splits)
    next
      case part: False
      have sent: "sent_of out = [chunk_message b k (length d) d2]" "snd_at b files k (d @ d2) s'" using one(2) False part by auto
      have "receive_all rcb r (sent_of out) = Some (r1, out1)" using sent(1) two(1) by simp
      moreover have d2_some: "0 < length d2" using d2(1) by simp
      moreover have "left_to_send contents k (d @ d2) < left_to_send contents k d"
        using left [of d] left [of "d @ d2"] d2(4) content(1) d2_some unfolding length_append by linarith
      ultimately show ?thesis using one(1) sent(2) two(2,3) d2(3) k(1)
        by (intro exI [of _ s'] exI [of _ out] exI [of _ r1] exI [of _ out1] exI [of _ k] exI [of _ "d @ d2"] exI [of _ kept]) (simp add: min_def)
    qed
  qed
qed

lemma SendOneChunk_end: "snd_at b files k d s \<Longrightarrow> k = length files \<Longrightarrow> k \<le> 32 \<Longrightarrow> SendOneChunk scb s = (False, s, [])"
proof -
  assume "snd_at b files k d s" "k = length files" "k \<le> 32"
  moreover then have "unat (fs_index s) = k" by (simp add: snd_at_def unat_of_nat)
  ultimately show ?thesis by (simp add: SendOneChunk_def snd_at_def)
qed

lemma Pump_end: "snd_at b files k d s \<Longrightarrow> k = length files \<Longrightarrow> k \<le> 32 \<Longrightarrow> fs_Pump scb s n = (0, s, [])"
  using SendOneChunk_end [of b files k d s scb] by (cases n) (simp_all add: snd_at_def)

lemma pump_all:
  assumes "snd_at b files k d s" "rcv_at b files names k d kept r f" "d = take (length d) (contents ! k)"
    and cb: "reads scb contents" "willing rcb" and ok: "batch_ok files contents" and "left_to_send contents k d \<le> n"
  shows "\<exists>c s' out r' rout d'. fs_Pump scb s n = (c, s', out) \<and> receive_all rcb r (sent_of out) = Some (r', rout)
    \<and> snd_at b files (length files) d' s' \<and> fr_state r' = FrDone
    \<and> snd (folder_run f rout) = kept @ map (stored_file files names contents) [k..<length files]
    \<and> replies_of rout = map (ack_message b) [k..<length files]"
  using assms(1-3,7)
proof (induction n arbitrary: k d s kept r f)
  case 0
  then have "k < length contents" using ok by (auto simp: rcv_at_def batch_ok_def)
  moreover have "length d \<le> length (contents ! k)" using arg_cong [OF "0.prems"(3), of length] by simp
  ultimately show ?case using "0.prems"(4) left_next [of k contents d] by simp
next
  case (Suc n)
  obtain s1 out1 r1 rout1 k1 d1 kept1 where one: "SendOneChunk scb s = (True, s1, out1)" "receive_all rcb r (sent_of out1) = Some (r1, rout1)"
    "snd_at b files k1 d1 s1" "left_to_send contents k1 d1 < left_to_send contents k d" "k \<le> k1"
    "kept1 = kept @ map (stored_file files names contents) [k..<k1]" "replies_of rout1 = map (ack_message b) [k..<k1]"
    "if k1 < length files then rcv_at b files names k1 d1 kept1 r1 (folder_run f rout1) \<and> d1 = take (length d1) (contents ! k1)
     else k1 = length files \<and> fr_state r1 = FrDone \<and> snd (folder_run f rout1) = kept1"
    using both_step [OF Suc.prems(1,2) cb ok Suc.prems(3)] by blast
  have sending: "fs_state s = FsSending" using Suc.prems(1) by (simp add: snd_at_def)
  show ?case
  proof (cases "k1 < length files")
    case True
    then have at: "rcv_at b files names k1 d1 kept1 r1 (folder_run f rout1)" "d1 = take (length d1) (contents ! k1)" using one(8) by auto
    have "left_to_send contents k1 d1 \<le> n" using one(4) Suc.prems(4) by linarith
    from Suc.IH [OF one(3) at this] obtain c s2 out2 r2 rout2 d2 where two: "fs_Pump scb s1 n = (c, s2, out2)"
      "receive_all rcb r1 (sent_of out2) = Some (r2, rout2)" "snd_at b files (length files) d2 s2" "fr_state r2 = FrDone"
      "snd (folder_run (folder_run f rout1) rout2) = kept1 @ map (stored_file files names contents) [k1..<length files]"
      "replies_of rout2 = map (ack_message b) [k1..<length files]" by blast
    have upto: "[k..<length files] = [k..<k1] @ [k1..<length files]" using True one(5) by (metis le_add_diff_inverse less_imp_le upt_add_eq_append)
    have "fs_Pump scb s (Suc n) = (Suc c, s2, out1 @ out2)" using sending one(1) two(1) by simp
    moreover have "receive_all rcb r (sent_of (out1 @ out2)) = Some (r2, rout1 @ rout2)" using one(2) two(2) by (simp add: receive_all_append)
    ultimately show ?thesis using two(3-6) one(6,7) upto
      by (intro exI [of _ "Suc c"] exI [of _ s2] exI [of _ "out1 @ out2"] exI [of _ r2] exI [of _ "rout1 @ rout2"] exI [of _ d2]) simp
  next
    case False
    then have last: "k1 = length files" "fr_state r1 = FrDone" "snd (folder_run f rout1) = kept1" using one(8) by auto
    have "fs_Pump scb s1 n = (0, s1, [])" by (rule Pump_end [OF one(3) last(1)]) (use ok last(1) in \<open>simp add: batch_ok_def\<close>)
    then have "fs_Pump scb s (Suc n) = (Suc 0, s1, out1)" using sending one(1) by simp
    then show ?thesis using one(2,3,6,7) last
      by (intro exI [of _ "Suc 0"] exI [of _ s1] exI [of _ out1] exI [of _ r1] exI [of _ rout1] exI [of _ d1]) simp
  qed
qed


section \<open>From the offer to the last acknowledgement\<close>

lemma safe_files_admitted:
  assumes "safe_files files batch = Some (fs, bsize)" "\<forall>f\<in>set files. length (tf_name f) \<le> kMaxSafeNameBytes"
  shows "fs = map (\<lambda>f. f\<lparr>tf_name := SafeFileName (tf_name f)\<rparr>) files
    \<and> admit_files default_limits fs batch = Inr (map (\<lambda>f. SafeFileName (tf_name f)) files)
    \<and> (\<forall>f\<in>set fs. tf_size f \<le> kMaxTransferFileBytes)"
  using assms
proof (induction files batch arbitrary: fs bsize rule: safe_files.induct)
  case (2 f files batch)
  let ?n = "SafeFileName (tf_name f)"
  obtain fs' where ok: "?n \<noteq> []" "tf_size f \<le> kMaxTransferFileBytes" "batch + tf_size f \<le> kMaxTransferBatchBytes"
    "safe_files files (batch + tf_size f) = Some (fs', bsize)" "fs = f\<lparr>tf_name := ?n\<rparr> # fs'"
    using "2.prems"(1) by (auto simp: Let_def not_less split: if_splits)
  have "SafeFileName ?n = ?n"
    using SafeFileName_id SafeFileName_safe SafeFileName_not_reserved ok(1) "2.prems"(2) by simp
  moreover note limits = default_limits_def [THEN arg_cong, of li_maxFileBytes] default_limits_def [THEN arg_cong, of li_maxBatchBytes]
  moreover have "fs' = map (\<lambda>f. f\<lparr>tf_name := SafeFileName (tf_name f)\<rparr>) files
    \<and> admit_files default_limits fs' (batch + tf_size f) = Inr (map (\<lambda>f. SafeFileName (tf_name f)) files)
    \<and> (\<forall>f\<in>set fs'. tf_size f \<le> kMaxTransferFileBytes)"
    by (rule "2.IH" [of "f\<lparr>tf_name := ?n\<rparr>" _ _ bsize]) (use ok "2.prems"(2) in auto)
  ultimately show ?case using ok by (auto simp: Let_def not_less)
qed simp

lemma fs_Offer_fields:
  assumes "fs_Offer cb s b files = (True, s', out)"
  shows "\<exists>fs bsize m. safe_files files 0 = Some (fs, bsize) \<and> out = [FsSent m] \<and> m = BuildFileOffer kMaxRecordSize \<lparr>fo_batchId = b, fo_files = fs\<rparr>
    \<and> m \<noteq> [] \<and> files \<noteq> [] \<and> length files \<le> kMaxTransferFiles \<and> fs_state s' = FsOffering \<and> fs_batchId s' = b \<and> fs_files s' = fs
    \<and> fs_index s' = 0 \<and> fs_sent s' = 0 \<and> fs_crc s' = crc_Reset \<and> fs_acked s' = 0"
  using assms by (auto simp: fs_Offer_def fs_Emit_def Let_def split: if_splits option.splits)

lemma OnOffer_admits:
  assumes r: "fr_accepting r" "fr_state r \<noteq> FrReceiving" "fr_limits r = default_limits" and f: "fst f = None"
    and m: "m = BuildFileOffer kMaxRecordSize \<lparr>fo_batchId = b, fo_files = fs\<rparr>" "m \<noteq> []"
    and fs: "fs \<noteq> []" "length fs \<le> kMaxTransferFiles" "admit_files default_limits fs 0 = Inr names" "\<forall>x\<in>set fs. tf_size x \<le> kMaxTransferFileBytes"
  shows "\<exists>r' out. fr_HandleMessage cb r m = Some (r', out)
    \<and> replies_of out = [BuildFileAccept kMaxRecordSize \<lparr>fa_batchId = b, fa_reason = TransferAccepted\<rparr>]
    \<and> rcv_at b fs names 0 [] (snd f) r' (folder_run f out)"
proof -
  let ?offer = "\<lparr>fo_batchId = b, fo_files = fs\<rparr>"
  obtain p where p: "PayloadOf m = Some p" "ParseFileOffer p = some_opt ?offer" "ParseCommonHeader m = some_opt (hdr MsgFileOffer 0 ChanFile b)"
    using file_message [OF FileOffer_roundtrip [of kMaxRecordSize ?offer]] m by auto
  let ?r = "r\<lparr>fr_batchId := b, fr_files := fs, fr_names := names, fr_stored := replicate (length fs) [], fr_index := 0, fr_received := 0,
      fr_batchReceived := 0, fr_batchSize := sum_list (map tf_size fs), fr_fileOpen := False, fr_crc := crc_Reset,
      fr_state := FrReceiving, fr_reason := TransferAccepted\<rparr>"
  have names: "length names = length fs" "\<forall>n\<in>set names. safe_name n" using admit_names [OF fs(3)] by simp_all
  have shape: "fr_shape ?r" using names fs(2,4) by (simp add: fr_shape_def)
  then obtain q where q: "fr_Report ?r = Some [FrProgress q]" using Report_some by blast
  have admit: "Admit r ?offer = Inr names" using r fs by (auto simp: Admit_def default_limits_def)
  have emit: "fr_Emit (BuildFileAccept kMaxRecordSize \<lparr>fa_batchId = b, fa_reason = TransferAccepted\<rparr>)
      = [FrSent (BuildFileAccept kMaxRecordSize \<lparr>fa_batchId = b, fa_reason = TransferAccepted\<rparr>)]"
    by (auto simp: fr_Emit_def BuildFileAccept_def WriteCommon_def finish_def kconsts)
  have quiet: "replies_of (fr_Audit x w y) = []" for x w y by (simp add: fr_Audit_def)
  have "rcv_at b fs names 0 [] (snd f) ?r f" using shape f fs(1) by (simp add: rcv_at_def crc_Update_def)
  then show ?thesis
    using p admit q emit quiet by (simp add: fr_HandleMessage_def OnOffer_def accept_offer_def Let_def)
qed

lemma accepted_code: "TransferReason_of 0 = TransferAccepted"
  by (simp add: TransferReason_of_def)

lemma accept_starts:
  assumes s: "fs_state s = FsOffering" "fs_batchId s = b"
  shows "\<exists>out. fs_HandleMessage cb s (BuildFileAccept kMaxRecordSize \<lparr>fa_batchId = b, fa_reason = TransferAccepted\<rparr>)
    = Some (s\<lparr>fs_state := FsSending\<rparr>, out)"
proof -
  let ?m = "\<lparr>fa_batchId = b, fa_reason = TransferAccepted\<rparr>"
  have ne: "BuildFileAccept kMaxRecordSize ?m \<noteq> []" by (auto simp: BuildFileAccept_def WriteCommon_def finish_def kconsts)
  obtain p where "PayloadOf (BuildFileAccept kMaxRecordSize ?m) = Some p" "ParseFileAccept p = some_opt ?m"
    "ParseCommonHeader (BuildFileAccept kMaxRecordSize ?m) = some_opt (hdr MsgFileAccept 0 ChanFile b)"
    using file_message [OF FileAccept_roundtrip [OF ne]] by (auto simp: accepted_code)
  then show ?thesis using s by (simp add: fs_HandleMessage_def fs_dispatch_def Let_def)
qed

lemma acks_finish:
  assumes "fs_state s = FsSending" "fs_batchId s = b" "length (fs_files s) = n" "n \<le> 32" "fs_acked s = k" "k < n"
  shows "\<exists>s'. answer_all cb s (map (ack_message b) [k..<n]) = Some (s', [FsFinished FsDone TransferAccepted]) \<and> fs_state s' = FsDone"
  using assms
proof (induction "n - k" arbitrary: s k)
  case (Suc x)
  let ?ack = "\<lparr>fk_batchId = b, fk_fileIndex = of_nat k, fk_reason = TransferAccepted\<rparr>"
  have k: "k < 32" using Suc.prems by simp
  have ne: "BuildFileAck kMaxRecordSize ?ack \<noteq> []" by (auto simp: BuildFileAck_def WriteCommon_def finish_def kconsts)
  have "unat (fk_fileIndex ?ack) < kMaxTransferFiles" using unat_index(1) [OF k] k by (simp add: kconsts)
  then obtain p where "PayloadOf (ack_message b k) = Some p" "ParseFileAck p = some_opt ?ack"
    "ParseCommonHeader (ack_message b k) = some_opt (hdr MsgFileAck 0 ChanFile b)"
    using file_message [OF FileAck_roundtrip [OF ne]] unfolding ack_message_def by (auto simp: accepted_code)
  then have eq: "fs_HandleMessage cb s (ack_message b k) = Some (on_file_ack cb s ?ack)"
    using Suc.prems(1) by (simp add: fs_HandleMessage_def fs_dispatch_def)
  let ?s = "s\<lparr>fs_acked := Suc k\<rparr>"
  have upto: "[k..<n] = k # [Suc k..<n]" using Suc.prems(6) by (rule upt_conv_Cons)
  show ?case
  proof (cases "Suc k < n")
    case True
    then have "on_file_ack cb s ?ack = (?s, [])" using Suc.prems unat_index(1) [OF k] by (simp add: on_file_ack_def Let_def)
    moreover have "\<exists>s'. answer_all cb ?s (map (ack_message b) [Suc k..<n]) = Some (s', [FsFinished FsDone TransferAccepted]) \<and> fs_state s' = FsDone"
      by (rule Suc.hyps(1)) (use Suc.prems Suc.hyps(2) True in simp_all)
    ultimately show ?thesis using eq by (auto simp: upto)
  next
    case False
    then have "on_file_ack cb s ?ack = (?s\<lparr>fs_state := FsDone, fs_reason := TransferAccepted\<rparr>, [FsFinished FsDone TransferAccepted])"
      using Suc.prems unat_index(1) [OF k] by (simp add: on_file_ack_def fs_Finish_def Let_def)
    then show ?thesis using eq False Suc.prems(6) by (simp add: upto)
  qed
qed simp

text \<open>The whole conversation: offer, answer, at most \<open>n\<close> chunks, acknowledgements.\<close>

definition exchange :: "FileSenderCallbacks \<Rightarrow> FileReceiverCallbacks \<Rightarrow> FileSender \<Rightarrow> FileReceiver \<Rightarrow> u32 \<Rightarrow> TransferFile list \<Rightarrow> nat
    \<Rightarrow> (FileSender \<times> FileReceiver \<times> FileReceiverEffect list) checked" where
  "exchange scb rcb s r batchId files n =
     (let (_, s, offer) = fs_Offer scb s batchId files in do {
        (r, out) \<leftarrow> receive_all rcb r (sent_of offer);
        (s, _) \<leftarrow> answer_all scb s (replies_of out);
        let (_, s, chunks) = fs_Pump scb s n in do {
          (r, rest) \<leftarrow> receive_all rcb r (sent_of chunks);
          (s, _) \<leftarrow> answer_all scb s (replies_of rest);
          Some (s, r, out @ rest)
        }
      })"

lemma exchange_complete:
  assumes offer: "fst (fs_Offer scb s b files)" and r: "fr_inv r f" "fr_accepting r" "fr_state r \<noteq> FrReceiving" "fr_limits r = default_limits"
    and cb: "reads scb contents" "willing rcb" and names: "\<forall>x\<in>set files. length (tf_name x) \<le> kMaxSafeNameBytes"
    and sizes: "map length contents = map (\<lambda>x. unat (tf_size x)) files" and n: "sum_list (map (\<lambda>c. length c + 1) contents) \<le> n"
  shows "\<exists>s' r' out. exchange scb rcb s r b files n = Some (s', r', out) \<and> fs_state s' = FsDone \<and> fr_state r' = FrDone
    \<and> snd (folder_run f out) = snd f @ map2 (\<lambda>x c. (SafeFileName (tf_name x), tf_size x, c)) files contents"
proof -
  obtain s1 out1 where one: "fs_Offer scb s b files = (True, s1, out1)" using offer by (cases "fs_Offer scb s b files") auto
  obtain fs bsize m where o: "safe_files files 0 = Some (fs, bsize)" "out1 = [FsSent m]"
    "m = BuildFileOffer kMaxRecordSize \<lparr>fo_batchId = b, fo_files = fs\<rparr>" "m \<noteq> []" "files \<noteq> []" "length files \<le> kMaxTransferFiles"
    and s1: "fs_state s1 = FsOffering" "fs_batchId s1 = b" "fs_files s1 = fs" "fs_index s1 = 0" "fs_sent s1 = 0" "fs_crc s1 = crc_Reset" "fs_acked s1 = 0"
    using fs_Offer_fields [OF one] by blast
  let ?names = "map (\<lambda>f. SafeFileName (tf_name f)) files"
  have fs: "fs = map (\<lambda>f. f\<lparr>tf_name := SafeFileName (tf_name f)\<rparr>) files" "admit_files default_limits fs 0 = Inr ?names"
    "\<forall>f\<in>set fs. tf_size f \<le> kMaxTransferFileBytes"
    using safe_files_admitted [OF o(1) names] by auto
  have len: "length fs = length files" "fs \<noteq> []" "length files \<le> 32" using fs(1) o(5,6) by (simp_all add: kconsts)
  have idle: "fst f = None" using r(1,3) by (simp add: fr_inv_def)
  obtain r1 out2 where two: "fr_HandleMessage rcb r m = Some (r1, out2)"
    "replies_of out2 = [BuildFileAccept kMaxRecordSize \<lparr>fa_batchId = b, fa_reason = TransferAccepted\<rparr>]"
    "rcv_at b fs ?names 0 [] (snd f) r1 (folder_run f out2)"
    using OnOffer_admits [where cb = rcb, OF r(2,3,4) idle o(3,4) len(2) _ fs(2,3)] len(1) o(6) by fastforce
  obtain out3 where three: "fs_HandleMessage scb s1 (BuildFileAccept kMaxRecordSize \<lparr>fa_batchId = b, fa_reason = TransferAccepted\<rparr>)
    = Some (s1\<lparr>fs_state := FsSending\<rparr>, out3)" using accept_starts [OF s1(1,2)] by blast
  have at: "snd_at b fs 0 [] (s1\<lparr>fs_state := FsSending\<rparr>)" using s1 by (simp add: snd_at_def crc_Update_def)
  have lens: "length contents = length files" using arg_cong [OF sizes, of length] by simp
  have size: "length (contents ! k) = unat (tf_size (files ! k))" if "k < length files" for k
    using arg_cong [OF sizes, of "\<lambda>x. x ! k"] that lens by simp
  have ok: "batch_ok fs contents" using len lens size by (simp add: batch_ok_def fs(1))
  have "left_to_send contents 0 [] \<le> n" using n by (simp add: left_to_send_def)
  from pump_all [OF at two(3) _ cb ok this] obtain c s2 out4 r2 out5 d' where four: "fs_Pump scb (s1\<lparr>fs_state := FsSending\<rparr>) n = (c, s2, out4)"
    "receive_all rcb r1 (sent_of out4) = Some (r2, out5)" "snd_at b fs (length fs) d' s2" "fr_state r2 = FrDone"
    "snd (folder_run (folder_run f out2) out5) = snd f @ map (stored_file fs ?names contents) [0..<length fs]"
    "replies_of out5 = map (ack_message b) [0..<length fs]"
    by auto
  obtain s3 where five: "answer_all scb s2 (map (ack_message b) [0..<length fs]) = Some (s3, [FsFinished FsDone TransferAccepted])" "fs_state s3 = FsDone"
    using acks_finish [of s2 b "length fs" 0 scb] four(3) len(1,3) o(5) unfolding snd_at_def by fastforce
  have "map (stored_file fs ?names contents) [0..<length fs] = map2 (\<lambda>x c. (SafeFileName (tf_name x), tf_size x, c)) files contents"
    by (rule nth_equalityI) (simp_all add: fs(1) lens)
  moreover have "exchange scb rcb s r b files n = Some (s3, r2, out2 @ out5)"
    using one o(2) two(1,2) three four(1,2,6) five(1) by (simp add: exchange_def)
  ultimately show ?thesis using five(2) four(4,5) by simp
qed

end
