(* ===== verification/ViewerTable.thy ===== *)
theory ViewerTable
  imports InputChannel Clipboard
begin

text \<open>
  The viewers of one shared screen (\<open>core/include/deskhub/session/host/ViewerTable.h\<close>,
  \<open>core/src/session/host/ViewerTable.cpp\<close>): five slots, what is published of them to other threads,
  and the budget that all screens of a host share.

  A pointer to a slot is its index. \<open>vt_budget\<close> is the value behind \<open>budget_\<close>, \<open>None\<close> when the
  pointer is null.
\<close>

definition kMaxViewersPerHost :: nat where [kconsts]: "kMaxViewersPerHost = 5"
definition kMaxViewersPerSource :: nat where [kconsts]: "kMaxViewersPerSource = kMaxViewersPerHost"
definition kInputControlHoldUs :: u64 where [kconsts]: "kInputControlHoldUs = 1000000"

text \<open>\<open>ViewerBudget\<close>: the count that was taken, and whether one more could be.\<close>

definition TryTake :: "u64 \<Rightarrow> bool \<times> u64" where
  "TryTake taken = (if taken < of_nat kMaxViewersPerHost then (True, taken + 1) else (False, taken))"

definition Give :: "u64 \<Rightarrow> nat \<Rightarrow> u64" where
  "Give taken count = (if count \<noteq> 0 then taken - of_nat count else taken)"

record ViewerSlot =
  vs_active :: bool
  vs_started :: bool
  vs_wantsAudio :: bool
  vs_haveFeedback :: bool
  vs_clientId :: u32
  vs_addrPacked :: u64
  vs_joinOrder :: u64
  vs_lastRecvUs :: u64
  vs_lastInputUs :: u64
  vs_name :: bytes
  vs_feedback :: Feedback
  vs_input :: InputReceiver
  vs_clip :: ClipboardSync

definition feedback_zero :: Feedback where
  "feedback_zero = \<lparr>fb_lossPct = 0, fb_rttMs = 0, fb_recvBitrateKbps = 0\<rparr>"

definition vs_init :: ViewerSlot where
  "vs_init = \<lparr>vs_active = False, vs_started = False, vs_wantsAudio = False, vs_haveFeedback = False, vs_clientId = 0,
     vs_addrPacked = 0, vs_joinOrder = 0, vs_lastRecvUs = 0, vs_lastInputUs = 0, vs_name = [], vs_feedback = feedback_zero,
     vs_input = rc_init, vs_clip = cs_init\<rparr>"

record ViewerInfo =
  vi_addrPacked :: u64
  vi_name :: bytes

record ViewerTable =
  vt_slots :: "ViewerSlot list"
  vt_published :: "u64 list"
  vt_publishedAudio :: "u64 list"
  vt_publishedInfos :: "ViewerInfo list"
  vt_publishedCount :: nat
  vt_budget :: "u64 option"
  vt_count :: nat
  vt_nextJoinOrder :: u64

definition vt_init :: ViewerTable where
  "vt_init = \<lparr>vt_slots = replicate kMaxViewersPerSource vs_init, vt_published = replicate kMaxViewersPerSource 0,
     vt_publishedAudio = replicate kMaxViewersPerSource 0,
     vt_publishedInfos = replicate kMaxViewersPerSource \<lparr>vi_addrPacked = 0, vi_name = []\<rparr>,
     vt_publishedCount = 0, vt_budget = None, vt_count = 0, vt_nextJoinOrder = 1\<rparr>"

definition IsDriving :: "ViewerSlot \<Rightarrow> u64 \<Rightarrow> bool" where
  "IsDriving slot nowUs \<longleftrightarrow> vs_active slot \<and> vs_lastInputUs slot \<noteq> 0 \<and> nowUs - vs_lastInputUs slot \<le> kInputControlHoldUs"

definition vt_SetHostBudget :: "ViewerTable \<Rightarrow> u64 option \<Rightarrow> ViewerTable" where
  "vt_SetHostBudget t budget = t\<lparr>vt_budget := budget\<rparr>"

text \<open>The first slot with a property, as the loops over the slots find it.\<close>

definition first_slot :: "(ViewerSlot \<Rightarrow> bool) \<Rightarrow> ViewerTable \<Rightarrow> nat option" where
  "first_slot p t = List.find (\<lambda>i. p (vt_slots t ! i)) [0..<length (vt_slots t)]"

abbreviation upd_slot :: "ViewerTable \<Rightarrow> nat \<Rightarrow> ViewerSlot \<Rightarrow> ViewerTable" where
  "upd_slot t i s \<equiv> t\<lparr>vt_slots := (vt_slots t)[i := s]\<rparr>"

definition vt_Find :: "ViewerTable \<Rightarrow> u64 \<Rightarrow> nat option" where
  "vt_Find t addrPacked =
     (if addrPacked = 0 then None else first_slot (\<lambda>s. vs_active s \<and> vs_addrPacked s = addrPacked) t)"

definition vt_FindByClient :: "ViewerTable \<Rightarrow> u32 \<Rightarrow> nat option" where
  "vt_FindByClient t clientId = first_slot (\<lambda>s. vs_active s \<and> vs_clientId s = clientId) t"

text \<open>\<open>Publish\<close>: the active slots in order, and zeros after them.\<close>

definition vt_Publish :: "ViewerTable \<Rightarrow> ViewerTable" where
  "vt_Publish t =
     (let act = filter vs_active (vt_slots t); n = length act; rest = kMaxViewersPerSource - n
      in t\<lparr>vt_published := map vs_addrPacked act @ replicate rest 0,
           vt_publishedAudio := map (\<lambda>s. if vs_wantsAudio s then vs_addrPacked s else 0) act @ replicate rest 0,
           vt_publishedInfos := map (\<lambda>s. \<lparr>vi_addrPacked = vs_addrPacked s, vi_name = vs_name s\<rparr>) act
             @ replicate rest \<lparr>vi_addrPacked = 0, vi_name = []\<rparr>,
           vt_publishedCount := n\<rparr>)"

text \<open>\<open>Admit\<close>: the slot taken, if any.\<close>

definition vt_Admit :: "ViewerTable \<Rightarrow> u32 \<Rightarrow> u64 \<Rightarrow> u64 \<Rightarrow> bytes \<Rightarrow> nat option \<times> ViewerTable" where
  "vt_Admit t clientId addrPacked nowUs name =
     (if addrPacked = 0 then (None, t)
      else case first_slot (\<lambda>s. \<not> vs_active s) t of
        None \<Rightarrow> (None, t)
      | Some i \<Rightarrow>
          let (ok, budget) = (case vt_budget t of None \<Rightarrow> (True, None)
                | Some taken \<Rightarrow> let (ok, taken) = TryTake taken in (ok, Some taken))
          in if \<not> ok then (None, t\<lparr>vt_budget := budget\<rparr>)
             else (Some i, vt_Publish (upd_slot t i (vs_init\<lparr>vs_active := True, vs_clientId := clientId, vs_addrPacked := addrPacked,
                      vs_joinOrder := vt_nextJoinOrder t, vs_lastRecvUs := nowUs, vs_name := name\<rparr>)
                    \<lparr>vt_budget := budget, vt_nextJoinOrder := vt_nextJoinOrder t + 1, vt_count := vt_count t + 1\<rparr>)))"

definition vt_Rebind :: "ViewerTable \<Rightarrow> nat \<Rightarrow> u64 \<Rightarrow> ViewerTable" where
  "vt_Rebind t i addrPacked =
     (let s = vt_slots t ! i in
      if \<not> vs_active s \<or> addrPacked = 0 \<or> vs_addrPacked s = addrPacked then t
      else vt_Publish (upd_slot t i (s\<lparr>vs_addrPacked := addrPacked\<rparr>)))"

definition vt_SetName :: "ViewerTable \<Rightarrow> nat \<Rightarrow> bytes \<Rightarrow> ViewerTable" where
  "vt_SetName t i name =
     (let s = vt_slots t ! i in
      if \<not> vs_active s \<or> vs_name s = name then t else vt_Publish (upd_slot t i (s\<lparr>vs_name := name\<rparr>)))"

definition vt_SetWantsAudio :: "ViewerTable \<Rightarrow> nat \<Rightarrow> bool \<Rightarrow> ViewerTable" where
  "vt_SetWantsAudio t i on =
     (let s = vt_slots t ! i in
      if \<not> vs_active s \<or> vs_wantsAudio s = on then t else vt_Publish (upd_slot t i (s\<lparr>vs_wantsAudio := on\<rparr>)))"

definition vt_Drop :: "ViewerTable \<Rightarrow> nat \<Rightarrow> ViewerTable" where
  "vt_Drop t i =
     (if \<not> vs_active (vt_slots t ! i) then t
      else vt_Publish (upd_slot t i vs_init
             \<lparr>vt_count := vt_count t - 1, vt_budget := map_option (\<lambda>taken. Give taken 1) (vt_budget t)\<rparr>))"

definition vt_Clear :: "ViewerTable \<Rightarrow> ViewerTable" where
  "vt_Clear t =
     vt_Publish (t\<lparr>vt_slots := map (\<lambda>_. vs_init) (vt_slots t),
       vt_budget := map_option (\<lambda>taken. Give taken (vt_count t)) (vt_budget t), vt_count := 0\<rparr>)"

text \<open>The destructor: what the budget is afterwards.\<close>

definition vt_destroy :: "ViewerTable \<Rightarrow> u64 option" where
  "vt_destroy t = map_option (\<lambda>taken. Give taken (vt_count t)) (vt_budget t)"

definition HigherPriorityIsDriving :: "ViewerTable \<Rightarrow> nat \<Rightarrow> u64 \<Rightarrow> bool" where
  "HigherPriorityIsDriving t i nowUs \<longleftrightarrow>
     list_ex (\<lambda>j. \<not> (j = i \<or> vs_joinOrder (vt_slots t ! j) \<ge> vs_joinOrder (vt_slots t ! i)) \<and> IsDriving (vt_slots t ! j) nowUs)
       [0..<length (vt_slots t)]"

definition vt_empty :: "ViewerTable \<Rightarrow> bool" where
  "vt_empty t \<longleftrightarrow> vt_count t = 0"

definition vt_anyStarted :: "ViewerTable \<Rightarrow> bool" where
  "vt_anyStarted t \<longleftrightarrow> list_ex (\<lambda>s. vs_active s \<and> vs_started s) (vt_slots t)"

text \<open>The snapshots other threads take, into a span of the given length.\<close>

definition SnapshotAddrs :: "ViewerTable \<Rightarrow> nat \<Rightarrow> u64 list" where
  "SnapshotAddrs t out = take out (filter (\<lambda>a. a \<noteq> 0) (vt_published t))"

definition SnapshotAudioAddrs :: "ViewerTable \<Rightarrow> nat \<Rightarrow> u64 list" where
  "SnapshotAudioAddrs t out = take out (filter (\<lambda>a. a \<noteq> 0) (vt_publishedAudio t))"

definition SnapshotInfos :: "ViewerTable \<Rightarrow> nat \<Rightarrow> ViewerInfo list" where
  "SnapshotInfos t out = take out (filter (\<lambda>v. vi_addrPacked v \<noteq> 0) (vt_publishedInfos t))"

definition vt_inputStats :: "ViewerTable \<Rightarrow> InputStats" where
  "vt_inputStats t = foldl (\<lambda>sum one. \<lparr>in_packets = in_packets sum + in_packets one, in_applied = in_applied sum + in_applied one,
       in_duplicates = in_duplicates sum + in_duplicates one, in_lost = in_lost sum + in_lost one\<rparr>) in_stats_zero
     (map (\<lambda>s. rc_stats (vs_input s)) (filter vs_active (vt_slots t)))"

definition worse_feedback :: "Feedback \<Rightarrow> Feedback \<Rightarrow> Feedback" where
  "worse_feedback worst f =
     worst\<lparr>fb_lossPct := (if fb_lossPct f > fb_lossPct worst then fb_lossPct f else fb_lossPct worst),
           fb_rttMs := (if fb_rttMs f > fb_rttMs worst then fb_rttMs f else fb_rttMs worst),
           fb_recvBitrateKbps := (if fb_recvBitrateKbps f < fb_recvBitrateKbps worst then fb_recvBitrateKbps f
             else fb_recvBitrateKbps worst)\<rparr>"

definition WorstCaseFeedback :: "ViewerSlot list \<Rightarrow> Feedback" where
  "WorstCaseFeedback slots =
     (case map vs_feedback (filter (\<lambda>s. vs_active s \<and> vs_haveFeedback s) slots) of
        [] \<Rightarrow> feedback_zero
      | f # fs \<Rightarrow> foldl worse_feedback f fs)"


section \<open>What holds of the table\<close>

definition active_slots :: "ViewerTable \<Rightarrow> nat set" where
  "active_slots t = {i. i < length (vt_slots t) \<and> vs_active (vt_slots t ! i)}"

definition slot_ok :: "ViewerSlot \<Rightarrow> bool" where
  "slot_ok s \<longleftrightarrow> (if vs_active s then vs_addrPacked s \<noteq> 0 \<and> cs_inv (vs_clip s) else s = vs_init)"

definition slots_ok :: "ViewerTable \<Rightarrow> bool" where
  "slots_ok t \<longleftrightarrow> length (vt_slots t) = kMaxViewersPerSource \<and> vt_count t = card (active_slots t)
     \<and> (\<forall>s\<in>set (vt_slots t). slot_ok s)"

definition slots_apart :: "ViewerTable \<Rightarrow> bool" where
  "slots_apart t \<longleftrightarrow> (\<forall>i\<in>active_slots t. \<forall>j\<in>active_slots t. i \<noteq> j \<longrightarrow>
     vs_addrPacked (vt_slots t ! i) \<noteq> vs_addrPacked (vt_slots t ! j) \<and> vs_clientId (vt_slots t ! i) \<noteq> vs_clientId (vt_slots t ! j))"

text \<open>What is published is what the slots hold.\<close>

definition vt_inv :: "ViewerTable \<Rightarrow> bool" where
  "vt_inv t \<longleftrightarrow> slots_ok t \<and> slots_apart t \<and> vt_Publish t = t"

text \<open>What a table has taken from the budget beyond its own viewers does not change.\<close>

definition vt_others :: "ViewerTable \<Rightarrow> u64 option" where
  "vt_others t = map_option (\<lambda>taken. taken - of_nat (vt_count t)) (vt_budget t)"

lemma vs_init_fields [simp]:
  "\<not> vs_active vs_init" "vs_lastInputUs vs_init = 0" "vs_clip vs_init = cs_init" "\<not> vs_started vs_init" "vs_input vs_init = rc_init"
  by (simp_all add: vs_init_def)

lemma vt_Publish_fields [simp]:
  "vt_slots (vt_Publish t) = vt_slots t" "vt_budget (vt_Publish t) = vt_budget t" "vt_count (vt_Publish t) = vt_count t"
  "vt_nextJoinOrder (vt_Publish t) = vt_nextJoinOrder t"
  by (simp_all add: vt_Publish_def Let_def)

lemma vt_Publish_again [simp]: "vt_Publish (vt_Publish t) = vt_Publish t"
  by (simp add: vt_Publish_def Let_def)

lemma slots_same [simp]:
  "active_slots (vt_Publish t) = active_slots t" "slots_ok (vt_Publish t) = slots_ok t" "slots_apart (vt_Publish t) = slots_apart t"
  by (simp_all add: active_slots_def slots_ok_def slots_apart_def)

lemma finite_active [simp]: "finite (active_slots t)"
  by (simp add: active_slots_def)

lemma vt_init_inv: "vt_inv (vt_SetHostBudget vt_init b)"
proof -
  have "active_slots (vt_SetHostBudget vt_init b) = {}" by (auto simp: active_slots_def vt_SetHostBudget_def vt_init_def)
  then show ?thesis
    by (simp add: vt_inv_def slots_ok_def slot_ok_def slots_apart_def vt_Publish_def vt_SetHostBudget_def vt_init_def kconsts Let_def)
qed

lemma find_upto: "List.find p [0..<n] = Some i \<longleftrightarrow> i < n \<and> p i \<and> (\<forall>j<i. \<not> p j)"
  by (auto simp: find_Some_iff)

lemma first_slot_Some: "first_slot p t = Some i \<Longrightarrow> i < length (vt_slots t) \<and> p (vt_slots t ! i)"
  by (simp add: first_slot_def find_upto)

lemma first_slot_None: "first_slot p t = None \<longleftrightarrow> (\<forall>i<length (vt_slots t). \<not> p (vt_slots t ! i))"
  by (auto simp: first_slot_def find_None_iff)

lemma Find_viewer_Some:
  "vt_Find t a = Some i \<Longrightarrow> i \<in> active_slots t \<and> vs_addrPacked (vt_slots t ! i) = a \<and> a \<noteq> 0"
  by (auto simp: vt_Find_def active_slots_def dest: first_slot_Some split: if_splits)

lemma FindByClient_Some: "vt_FindByClient t c = Some i \<Longrightarrow> i \<in> active_slots t \<and> vs_clientId (vt_slots t ! i) = c"
  by (auto simp: vt_FindByClient_def active_slots_def dest: first_slot_Some)

lemma Find_viewer_None: "vt_Find t a = None \<Longrightarrow> a \<noteq> 0 \<Longrightarrow> i \<in> active_slots t \<Longrightarrow> vs_addrPacked (vt_slots t ! i) \<noteq> a"
  by (auto simp: vt_Find_def first_slot_None active_slots_def)

lemma FindByClient_None: "vt_FindByClient t c = None \<Longrightarrow> i \<in> active_slots t \<Longrightarrow> vs_clientId (vt_slots t ! i) \<noteq> c"
  by (auto simp: vt_FindByClient_def first_slot_None active_slots_def)

lemma active_lt: "i \<in> active_slots t \<Longrightarrow> i < length (vt_slots t)"
  by (simp add: active_slots_def)

text \<open>Changing a slot.\<close>

lemma active_upd: "i < length (vt_slots t) \<Longrightarrow> active_slots (upd_slot t i s) = (if vs_active s then insert i (active_slots t) else active_slots t - {i})"
  by (auto simp: active_slots_def nth_list_update split: if_splits)

lemma slots_ok_upd:
  assumes "slots_ok t" "i \<in> active_slots t" "vs_active s" "vs_addrPacked s \<noteq> 0" "cs_inv (vs_clip s)"
  shows "slots_ok (upd_slot t i s)"
proof -
  have "active_slots (upd_slot t i s) = active_slots t"
    using assms(2,3) active_upd [OF active_lt [OF assms(2)], of s] by (simp add: insert_absorb)
  moreover have "\<forall>x\<in>set ((vt_slots t)[i := s]). slot_ok x"
    using assms set_update_subset_insert [of "vt_slots t" i s] by (auto simp: slots_ok_def slot_ok_def)
  ultimately show ?thesis using assms(1) by (simp add: slots_ok_def)
qed

lemma active_fields:
  "slots_ok t \<Longrightarrow> i \<in> active_slots t \<Longrightarrow> vs_active (vt_slots t ! i) \<and> vs_addrPacked (vt_slots t ! i) \<noteq> 0
    \<and> cs_inv (vs_clip (vt_slots t ! i)) \<and> i < length (vt_slots t)"
  by (auto simp: active_slots_def slots_ok_def slot_ok_def dest!: nth_mem bspec)

lemma map_filter_upd:
  "i < length xs \<Longrightarrow> P y = P (xs ! i) \<Longrightarrow> (P y \<Longrightarrow> f y = f (xs ! i)) \<Longrightarrow> map f (filter P (xs[i := y])) = map f (filter P xs)"
  by (induction xs arbitrary: i) (auto simp: nth_Cons split: nat.splits)

lemma Publish_upd:
  assumes "i < length (vt_slots t)" "vs_active s = vs_active (vt_slots t ! i)" "vs_addrPacked s = vs_addrPacked (vt_slots t ! i)"
    "vs_wantsAudio s = vs_wantsAudio (vt_slots t ! i)" "vs_name s = vs_name (vt_slots t ! i)"
  shows "vt_Publish (upd_slot t i s) = upd_slot (vt_Publish t) i s"
proof -
  note m = map_filter_upd [OF assms(1), of vs_active s, OF assms(2)]
  have "length (filter vs_active ((vt_slots t)[i := s])) = length (filter vs_active (vt_slots t))"
    using arg_cong [OF m [of "\<lambda>_. ()"], of length] by simp
  then show ?thesis
    using m [of vs_addrPacked] m [of "\<lambda>s. if vs_wantsAudio s then vs_addrPacked s else 0"]
      m [of "\<lambda>s. \<lparr>vi_addrPacked = vs_addrPacked s, vi_name = vs_name s\<rparr>"] assms
    by (simp add: vt_Publish_def Let_def)
qed

lemma upd_quiet:
  assumes inv: "vt_inv t" and i: "i \<in> active_slots t" and clip: "cs_inv (vs_clip s)"
    and same: "vs_active s" "vs_addrPacked s = vs_addrPacked (vt_slots t ! i)" "vs_wantsAudio s = vs_wantsAudio (vt_slots t ! i)"
      "vs_name s = vs_name (vt_slots t ! i)" "vs_clientId s = vs_clientId (vt_slots t ! i)"
  shows "vt_inv (upd_slot t i s)" "active_slots (upd_slot t i s) = active_slots t"
proof -
  have slot: "vs_active (vt_slots t ! i)" "vs_addrPacked (vt_slots t ! i) \<noteq> 0" "i < length (vt_slots t)"
    using active_fields [OF _ i] inv by (auto simp: vt_inv_def)
  show act: "active_slots (upd_slot t i s) = active_slots t"
    using i same(1) active_upd [OF slot(3), of s] by (simp add: insert_absorb)
  have "slots_apart (upd_slot t i s)"
    using inv i same(2,5) slot(3) unfolding slots_apart_def act vt_inv_def by (auto simp: nth_list_update)
  moreover have "slots_ok (upd_slot t i s)" using inv slot(2) by (intro slots_ok_upd [OF _ i same(1) _ clip]) (simp_all add: vt_inv_def same(2))
  moreover have "vt_Publish (upd_slot t i s) = upd_slot t i s"
    using Publish_upd [OF slot(3), of s] same slot(1) inv by (simp add: vt_inv_def)
  ultimately show "vt_inv (upd_slot t i s)" by (simp add: vt_inv_def)
qed

lemma upd_shown:
  assumes inv: "vt_inv t" and i: "i \<in> active_slots t"
    and same: "vs_active s" "vs_addrPacked s = vs_addrPacked (vt_slots t ! i)" "vs_clientId s = vs_clientId (vt_slots t ! i)"
      "vs_clip s = vs_clip (vt_slots t ! i)"
  shows "vt_inv (vt_Publish (upd_slot t i s))" "active_slots (vt_Publish (upd_slot t i s)) = active_slots t"
proof -
  have slot: "vs_active (vt_slots t ! i)" "vs_addrPacked (vt_slots t ! i) \<noteq> 0" "cs_inv (vs_clip (vt_slots t ! i))" "i < length (vt_slots t)"
    using active_fields [OF _ i] inv by (auto simp: vt_inv_def)
  have act: "active_slots (upd_slot t i s) = active_slots t"
    using i same(1) active_upd [OF slot(4), of s] by (simp add: insert_absorb)
  then show "active_slots (vt_Publish (upd_slot t i s)) = active_slots t" by simp
  have "slots_apart (upd_slot t i s)"
    using inv i same(2,3) slot(4) unfolding slots_apart_def act vt_inv_def by (auto simp: nth_list_update)
  moreover have "slots_ok (upd_slot t i s)"
    using inv slot(2,3) same(2,4) by (intro slots_ok_upd [OF _ i same(1)]) (simp_all add: vt_inv_def)
  ultimately show "vt_inv (vt_Publish (upd_slot t i s))" by (simp add: vt_inv_def)
qed


text \<open>
  The table before and after an operation: the rest of the budget is untouched, and where viewers
  were added it is not exceeded.
\<close>

definition budget_step :: "ViewerTable \<Rightarrow> ViewerTable \<Rightarrow> bool" where
  "budget_step t t' \<longleftrightarrow> vt_others t' = vt_others t
     \<and> (vt_count t' \<le> vt_count t \<or> (\<forall>b. vt_budget t' = Some b \<longrightarrow> b \<le> of_nat kMaxViewersPerHost))"

lemma budget_refl: "vt_budget t' = vt_budget t \<Longrightarrow> vt_count t' = vt_count t \<Longrightarrow> budget_step t t'"
  by (simp add: budget_step_def vt_others_def)

lemma budget_trans: "budget_step t t1 \<Longrightarrow> vt_count t1 \<le> vt_count t \<Longrightarrow> budget_step t1 t2 \<Longrightarrow> budget_step t t2"
  by (auto simp: budget_step_def)

lemma budget_same: "budget_step t t1 \<Longrightarrow> vt_budget t2 = vt_budget t1 \<Longrightarrow> vt_count t2 = vt_count t1 \<Longrightarrow> budget_step t t2"
  by (simp add: budget_step_def vt_others_def)

lemma Rebind_fields [simp]: "vt_budget (vt_Rebind t i a) = vt_budget t" "vt_count (vt_Rebind t i a) = vt_count t"
  "vt_budget (vt_SetName t i n) = vt_budget t" "vt_count (vt_SetName t i n) = vt_count t"
  "vt_budget (vt_SetWantsAudio t i on) = vt_budget t" "vt_count (vt_SetWantsAudio t i on) = vt_count t"
  by (simp_all add: vt_Rebind_def vt_SetName_def vt_SetWantsAudio_def Let_def)

lemma count_active: "vt_inv t \<Longrightarrow> vt_count t = card (active_slots t)" "vt_inv t \<Longrightarrow> length (vt_slots t) = kMaxViewersPerSource"
  by (simp_all add: vt_inv_def slots_ok_def)

lemma count_bound: "vt_inv t \<Longrightarrow> vt_count t \<le> kMaxViewersPerSource"
proof -
  assume inv: "vt_inv t"
  have "active_slots t \<subseteq> {..<length (vt_slots t)}" by (auto simp: active_slots_def)
  then have "card (active_slots t) \<le> length (vt_slots t)" using card_mono [of "{..<length (vt_slots t)}"] by simp
  then show ?thesis using count_active [OF inv] by simp
qed

lemma SetName_inv:
  assumes "vt_inv t" "i \<in> active_slots t"
  shows "vt_inv (vt_SetName t i n)" "active_slots (vt_SetName t i n) = active_slots t"
    "vt_slots (vt_SetName t i n) = (vt_slots t)[i := (vt_slots t ! i)\<lparr>vs_name := n\<rparr>]"
proof -
  have act: "vs_active (vt_slots t ! i)" using assms by (simp add: active_slots_def)
  show "vt_inv (vt_SetName t i n)" "active_slots (vt_SetName t i n) = active_slots t"
    using upd_shown [OF assms, of "(vt_slots t ! i)\<lparr>vs_name := n\<rparr>"] act assms by (auto simp: vt_SetName_def Let_def)
  show "vt_slots (vt_SetName t i n) = (vt_slots t)[i := (vt_slots t ! i)\<lparr>vs_name := n\<rparr>]"
    using act by (cases "vs_name (vt_slots t ! i) = n") (auto simp: vt_SetName_def Let_def)
qed

lemma slot_audio_id: "vs_wantsAudio s = on \<Longrightarrow> s\<lparr>vs_wantsAudio := on\<rparr> = s"
  by (cases s) simp

lemma SetWantsAudio_inv:
  assumes "vt_inv t" "i \<in> active_slots t"
  shows "vt_inv (vt_SetWantsAudio t i on)" "active_slots (vt_SetWantsAudio t i on) = active_slots t"
    "vt_slots (vt_SetWantsAudio t i on) = (vt_slots t)[i := (vt_slots t ! i)\<lparr>vs_wantsAudio := on\<rparr>]"
proof -
  have act: "vs_active (vt_slots t ! i)" using assms by (simp add: active_slots_def)
  show "vt_inv (vt_SetWantsAudio t i on)" "active_slots (vt_SetWantsAudio t i on) = active_slots t"
    using upd_shown [OF assms, of "(vt_slots t ! i)\<lparr>vs_wantsAudio := on\<rparr>"] act assms by (auto simp: vt_SetWantsAudio_def Let_def)
  show "vt_slots (vt_SetWantsAudio t i on) = (vt_slots t)[i := (vt_slots t ! i)\<lparr>vs_wantsAudio := on\<rparr>]"
    using act list_update_same_conv [OF active_lt [OF assms(2)], of "vt_slots t ! i"]
    by (cases "vs_wantsAudio (vt_slots t ! i) = on") (auto simp: vt_SetWantsAudio_def Let_def slot_audio_id)
qed

lemma Rebind_inv:
  assumes inv: "vt_inv t" and i: "i \<in> active_slots t" and a: "a \<noteq> 0" "\<forall>j\<in>active_slots t - {i}. vs_addrPacked (vt_slots t ! j) \<noteq> a"
  shows "vt_inv (vt_Rebind t i a)" "active_slots (vt_Rebind t i a) = active_slots t"
    "vt_slots (vt_Rebind t i a) = (vt_slots t)[i := (vt_slots t ! i)\<lparr>vs_addrPacked := a\<rparr>]"
proof -
  let ?s = "(vt_slots t ! i)\<lparr>vs_addrPacked := a\<rparr>"
  have ok: "slots_ok t" "slots_apart t" using inv by (simp_all add: vt_inv_def)
  note act = active_fields [OF ok(1) i]
  have same: "active_slots (upd_slot t i ?s) = active_slots t"
    using i act active_upd [of i t ?s] by (simp add: insert_absorb)
  have "slots_apart (upd_slot t i ?s)"
    using ok(2) i a(2) act unfolding slots_apart_def same by (auto simp: nth_list_update)
  moreover have "slots_ok (upd_slot t i ?s)" using act a(1) by (intro slots_ok_upd [OF ok(1) i]) simp_all
  ultimately have "vt_inv (vt_Publish (upd_slot t i ?s))" by (simp add: vt_inv_def)
  then show "vt_inv (vt_Rebind t i a)" using inv by (simp add: vt_Rebind_def Let_def)
  show "active_slots (vt_Rebind t i a) = active_slots t" using same by (simp add: vt_Rebind_def Let_def)
  show "vt_slots (vt_Rebind t i a) = (vt_slots t)[i := ?s]"
    using act a(1) by (cases "vs_addrPacked (vt_slots t ! i) = a") (auto simp: vt_Rebind_def Let_def)
qed

lemma Drop_inv:
  assumes inv: "vt_inv t" and i: "i \<in> active_slots t"
  shows "vt_inv (vt_Drop t i)" "active_slots (vt_Drop t i) = active_slots t - {i}" "budget_step t (vt_Drop t i)"
    "vt_count (vt_Drop t i) = vt_count t - 1" "0 < vt_count t" "vt_slots (vt_Drop t i) = (vt_slots t)[i := vs_init]"
proof -
  let ?t = "upd_slot t i vs_init\<lparr>vt_count := vt_count t - 1, vt_budget := map_option (\<lambda>taken. Give taken 1) (vt_budget t)\<rparr>"
  have ok: "slots_ok t" "slots_apart t" using inv by (simp_all add: vt_inv_def)
  note act = active_fields [OF ok(1) i]
  have drop: "vt_Drop t i = vt_Publish ?t" using act by (simp add: vt_Drop_def)
  have "active_slots ?t = active_slots (upd_slot t i vs_init)" by (simp add: active_slots_def)
  then have same: "active_slots ?t = active_slots t - {i}" using act active_upd [of i t vs_init] by simp
  then show "active_slots (vt_Drop t i) = active_slots t - {i}" by (simp add: drop)
  show pos: "0 < vt_count t" using count_active(1) [OF inv] i by (auto simp: card_gt_0_iff)
  have count: "vt_count t - 1 = card (active_slots t - {i})" using count_active(1) [OF inv] i by simp
  have "\<forall>s\<in>set ((vt_slots t)[i := vs_init]). slot_ok s"
    using ok(1) set_update_subset_insert [of "vt_slots t" i vs_init] by (auto simp: slots_ok_def slot_ok_def)
  then have "slots_ok ?t" using ok(1) count same by (simp add: slots_ok_def)
  moreover have "slots_apart ?t" using ok(2) unfolding slots_apart_def same by (auto simp: nth_list_update)
  ultimately show "vt_inv (vt_Drop t i)" by (simp add: vt_inv_def drop)
  show "vt_count (vt_Drop t i) = vt_count t - 1" "vt_slots (vt_Drop t i) = (vt_slots t)[i := vs_init]" by (simp_all add: drop)
  have "Give taken 1 - of_nat (vt_count t - 1) = taken - of_nat (vt_count t)" for taken
    using pos by (cases "vt_count t") (simp_all add: Give_def)
  then have "vt_others ?t = vt_others t" by (cases "vt_budget t") (simp_all add: vt_others_def)
  then show "budget_step t (vt_Drop t i)" by (simp add: budget_step_def drop vt_others_def)
qed

lemma Clear_inv:
  assumes inv: "vt_inv t"
  shows "vt_inv (vt_Clear t)" "active_slots (vt_Clear t) = {}" "budget_step t (vt_Clear t)" "vt_count (vt_Clear t) = 0"
    "vt_slots (vt_Clear t) = replicate kMaxViewersPerSource vs_init"
proof -
  let ?t = "t\<lparr>vt_slots := map (\<lambda>_. vs_init) (vt_slots t), vt_budget := map_option (\<lambda>taken. Give taken (vt_count t)) (vt_budget t), vt_count := 0\<rparr>"
  have clear: "vt_Clear t = vt_Publish ?t" by (simp add: vt_Clear_def)
  have empty: "active_slots ?t = {}" by (auto simp: active_slots_def)
  then show "active_slots (vt_Clear t) = {}" by (simp add: clear)
  have "slots_ok ?t" using inv empty by (auto simp: slots_ok_def slot_ok_def vt_inv_def)
  moreover have "slots_apart ?t" by (simp add: slots_apart_def empty)
  ultimately show "vt_inv (vt_Clear t)" by (simp add: vt_inv_def clear)
  show "vt_count (vt_Clear t) = 0" "vt_slots (vt_Clear t) = replicate kMaxViewersPerSource vs_init"
    using count_active(2) [OF inv] by (simp_all add: clear map_replicate_const)
  have "vt_others ?t = vt_others t" by (cases "vt_budget t") (simp_all add: vt_others_def Give_def)
  then show "budget_step t (vt_Clear t)" by (simp add: budget_step_def clear vt_others_def)
qed

definition admitted :: "ViewerTable \<Rightarrow> u32 \<Rightarrow> u64 \<Rightarrow> u64 \<Rightarrow> bytes \<Rightarrow> ViewerSlot" where
  "admitted t clientId addrPacked nowUs name =
     vs_init\<lparr>vs_active := True, vs_clientId := clientId, vs_addrPacked := addrPacked, vs_joinOrder := vt_nextJoinOrder t,
       vs_lastRecvUs := nowUs, vs_name := name\<rparr>"

lemma Admit_inv:
  assumes inv: "vt_inv t" and new: "\<forall>i\<in>active_slots t. vs_addrPacked (vt_slots t ! i) \<noteq> a \<and> vs_clientId (vt_slots t ! i) \<noteq> c"
    and a: "a \<noteq> 0" and admit: "vt_Admit t c a now n = (r, t')"
  shows "vt_inv t' \<and> budget_step t t' \<and> (case r of None \<Rightarrow> t' = t
    | Some i \<Rightarrow> i \<notin> active_slots t \<and> i < length (vt_slots t) \<and> active_slots t' = insert i (active_slots t)
        \<and> vt_slots t' = (vt_slots t)[i := admitted t c a now n] \<and> vt_count t' = Suc (vt_count t))"
proof (cases r)
  case None
  then have "t' = t"
    using admit a by (auto simp: vt_Admit_def TryTake_def Let_def split: option.splits if_splits)
  then show ?thesis using None inv budget_refl by simp
next
  case (Some i)
  let ?s = "admitted t c a now n"
  obtain budget where i: "first_slot (\<lambda>s. \<not> vs_active s) t = Some i"
    and t': "t' = vt_Publish (upd_slot t i ?s\<lparr>vt_budget := budget, vt_nextJoinOrder := vt_nextJoinOrder t + 1, vt_count := vt_count t + 1\<rparr>)"
    and budget: "(vt_budget t = None \<and> budget = None) \<or> (\<exists>b. vt_budget t = Some b \<and> b < of_nat kMaxViewersPerHost \<and> budget = Some (b + 1))"
    using admit a Some by (auto simp: vt_Admit_def TryTake_def Let_def admitted_def split: option.splits if_splits)
  let ?t = "upd_slot t i ?s\<lparr>vt_budget := budget, vt_nextJoinOrder := vt_nextJoinOrder t + 1, vt_count := vt_count t + 1\<rparr>"
  have free: "i < length (vt_slots t)" "i \<notin> active_slots t" using first_slot_Some [OF i] by (auto simp: active_slots_def)
  have s: "vs_active ?s" "vs_addrPacked ?s = a" "vs_clientId ?s = c" "vs_clip ?s = cs_init" by (simp_all add: admitted_def)
  have "active_slots ?t = active_slots (upd_slot t i ?s)" by (simp add: active_slots_def)
  then have act: "active_slots ?t = insert i (active_slots t)" using active_upd [OF free(1), of ?s] s(1) by simp
  have ok: "slots_ok t" "slots_apart t" using inv by (simp_all add: vt_inv_def)
  have "\<forall>x\<in>set ((vt_slots t)[i := ?s]). slot_ok x"
    using ok(1) s a cs_init_inv set_update_subset_insert [of "vt_slots t" i ?s] by (auto simp: slots_ok_def slot_ok_def)
  then have "slots_ok ?t" using ok(1) act free(2) by (simp add: slots_ok_def)
  moreover have "slots_apart ?t"
    using ok(2) new s free unfolding slots_apart_def act by (auto simp: nth_list_update)
  ultimately have "vt_inv t'" by (simp add: vt_inv_def t')
  moreover have "budget_step t t'"
  proof -
    have "b + 1 \<le> (5 :: u64)" if "b < 5" for b
      using that by (metis inc_le)
    then show ?thesis using budget by (auto simp: budget_step_def vt_others_def t' kconsts)
  qed
  ultimately show ?thesis using Some free act by (simp add: t')
qed

end
