(* ===== verification/HostSession.thy ===== *)
theory HostSession
  imports ViewerTable
begin

text \<open>
  The host's side of a shared screen (\<open>core/include/deskhub/session/host/ScreenHostSession.h\<close>,
  \<open>core/src/session/host/ScreenHostSession.cpp\<close>): viewers greet, start, drive and leave.

  The callbacks, all set, are the list of effects of an operation. \<open>randomBytes\<close> is an argument of the
  operations that draw a session id: the four bytes, or \<open>None\<close> when it fails.
\<close>

definition kClientWantsAudio :: u16 where [kconsts]: "kClientWantsAudio = 1"
definition kSessionTimeoutUs :: u64 where [kconsts]: "kSessionTimeoutUs = 5000000"
definition kFeedbackDecisionSpacingUs :: u64 where [kconsts]: "kFeedbackDecisionSpacingUs = 1000000"

record StreamParams =
  sp_width :: u16
  sp_height :: u16
  sp_fps :: u8
  sp_bitrateBps :: u32

datatype HostEffect =
  HsSend bytes | HsSendTo u64 bytes | HsHello Hello | HsStart | HsKeyframeRequest
  | HsViewerJoin u64 nat bytes | HsViewerLeave u64 nat | HsControllerChange u64 | HsDisconnect
  | HsFeedback Feedback | HsInput InputEvent | HsFocus bool | HsNack u32 "u16 list" | HsInvalidateRef u32
  | HsClipboardText bytes

datatype HostState = HostIdle | HostReady | HostStreaming

record ScreenHostSession =
  hs_offer :: StreamParams
  hs_viewers :: ViewerTable
  hs_state :: HostState
  hs_sessionId :: u32
  hs_inputDenied :: u64
  hs_controllingAddr :: u64
  hs_clipboardEnabled :: bool
  hs_feedbackPending :: bool
  hs_feedbackReported :: bool
  hs_lastFeedbackReportUs :: u64

type_synonym host_result = "ScreenHostSession \<times> HostEffect list"
type_synonym random_bytes = "(u8 \<times> u8 \<times> u8 \<times> u8) option"

definition hs_init :: "StreamParams \<Rightarrow> u64 option \<Rightarrow> ScreenHostSession" where
  "hs_init offer hostBudget =
     \<lparr>hs_offer = offer, hs_viewers = vt_SetHostBudget vt_init hostBudget, hs_state = HostIdle, hs_sessionId = 0,
      hs_inputDenied = 0, hs_controllingAddr = 0, hs_clipboardEnabled = False, hs_feedbackPending = False,
      hs_feedbackReported = False, hs_lastFeedbackReportUs = 0\<rparr>"

definition hs_SetOffer :: "ScreenHostSession \<Rightarrow> StreamParams \<Rightarrow> ScreenHostSession" where
  "hs_SetOffer s p = s\<lparr>hs_offer := p\<rparr>"

definition hs_SetClipboardEnabled :: "ScreenHostSession \<Rightarrow> bool \<Rightarrow> ScreenHostSession" where
  "hs_SetClipboardEnabled s on = s\<lparr>hs_clipboardEnabled := on\<rparr>"

definition InSession :: "ScreenHostSession \<Rightarrow> u32 \<Rightarrow> bool" where
  "InSession s sid \<longleftrightarrow> hs_sessionId s \<noteq> 0 \<and> sid = hs_sessionId s"

abbreviation hs_slot :: "ScreenHostSession \<Rightarrow> nat \<Rightarrow> ViewerSlot" where
  "hs_slot s i \<equiv> vt_slots (hs_viewers s) ! i"

definition set_slot :: "ScreenHostSession \<Rightarrow> nat \<Rightarrow> ViewerSlot \<Rightarrow> ScreenHostSession" where
  "set_slot s i v = s\<lparr>hs_viewers := upd_slot (hs_viewers s) i v\<rparr>"

definition hs_Send :: "bytes \<Rightarrow> HostEffect list" where
  "hs_Send m = (if m = [] then [] else [HsSend m])"

definition HandOverControl :: "ScreenHostSession \<Rightarrow> u64 \<Rightarrow> host_result" where
  "HandOverControl s addrPacked =
     (if hs_controllingAddr s = addrPacked then (s, [])
      else (s\<lparr>hs_controllingAddr := addrPacked\<rparr>, [HsControllerChange addrPacked]))"

definition hs_Disconnect :: "ScreenHostSession \<Rightarrow> host_result" where
  "hs_Disconnect s =
     (let s = s\<lparr>hs_state := HostIdle, hs_sessionId := 0, hs_viewers := vt_Clear (hs_viewers s),
                hs_feedbackPending := False, hs_feedbackReported := False\<rparr>;
          (s, out) = HandOverControl s 0
      in (s, out @ [HsDisconnect]))"

definition RefreshState :: "ScreenHostSession \<Rightarrow> ScreenHostSession" where
  "RefreshState s = s\<lparr>hs_state := (if vt_anyStarted (hs_viewers s) then HostStreaming else HostReady)\<rparr>"

definition DropViewer :: "ScreenHostSession \<Rightarrow> nat \<Rightarrow> host_result" where
  "DropViewer s i =
     (let addr = vs_addrPacked (hs_slot s i);
          s = s\<lparr>hs_viewers := vt_Drop (hs_viewers s) i\<rparr>;
          left = [HsViewerLeave addr (vt_publishedCount (hs_viewers s))]
      in if vt_empty (hs_viewers s) then let (s, out) = hs_Disconnect s in (s, left @ out)
         else let s = RefreshState s in
           if hs_controllingAddr s = addr then let (s, out) = HandOverControl s 0 in (s, left @ out)
           else (s, left))"

definition SendHelloAck :: "ScreenHostSession \<Rightarrow> HostEffect list" where
  "SendHelloAck s = hs_Send (BuildHelloAck kMaxDatagram
     \<lparr>ack_sessionId = hs_sessionId s, ack_width = sp_width (hs_offer s), ack_height = sp_height (hs_offer s),
      ack_fps = sp_fps (hs_offer s), ack_bitrateBps = sp_bitrateBps (hs_offer s), ack_rejected = False,
      ack_reason = RejectNone\<rparr>)"

definition SendReject :: "RejectReason \<Rightarrow> HostEffect list" where
  "SendReject reason = hs_Send (BuildHelloAck kMaxDatagram
     \<lparr>ack_sessionId = 0, ack_width = 0, ack_height = 0, ack_fps = 0, ack_bitrateBps = 0, ack_rejected = True,
      ack_reason = reason\<rparr>)"

definition BeginSession :: "random_bytes \<Rightarrow> ScreenHostSession \<Rightarrow> bool \<times> host_result" where
  "BeginSession random s =
     (let sid = (case random of None \<Rightarrow> 0
            | Some (b0, b1, b2, b3) \<Rightarrow>
                (push_bit 24 (ucast b0) OR push_bit 16 (ucast b1) OR push_bit 8 (ucast b2) OR ucast b3 :: u32))
      in if sid = 0 then (False, s\<lparr>hs_state := HostIdle\<rparr>, SendReject RejectNone)
         else (True, s\<lparr>hs_sessionId := sid\<rparr>, []))"

definition wants_audio :: "Hello \<Rightarrow> bool" where
  "wants_audio m \<longleftrightarrow> hello_features m AND kClientWantsAudio \<noteq> 0"

text \<open>The two ends of \<open>HandleHello\<close>: a viewer that is known, and one that is new.\<close>

definition greet_known :: "ScreenHostSession \<Rightarrow> nat \<Rightarrow> Hello \<Rightarrow> u64 \<Rightarrow> u64 \<Rightarrow> host_result" where
  "greet_known s i m nowUs fromPacked =
     (let t = vt_SetWantsAudio (vt_SetName (vt_Rebind (hs_viewers s) i fromPacked) i (hello_clientName m)) i (wants_audio m);
          s = set_slot (s\<lparr>hs_viewers := t\<rparr>) i ((vt_slots t ! i)\<lparr>vs_lastRecvUs := nowUs\<rparr>)
      in (s, SendHelloAck s))"

definition greet_new :: "random_bytes \<Rightarrow> ScreenHostSession \<Rightarrow> Hello \<Rightarrow> u64 \<Rightarrow> u64 \<Rightarrow> bool \<times> host_result" where
  "greet_new random s m nowUs fromPacked =
     (let firstViewer = vt_empty (hs_viewers s);
          (ok, s, begun) = (if firstViewer then BeginSession random s else (True, s, []))
      in if \<not> ok then (False, s, begun)
         else case vt_Admit (hs_viewers s) (hello_clientId m) fromPacked nowUs (hello_clientName m) of
             (None, t) \<Rightarrow> (False, s\<lparr>hs_viewers := t\<rparr>, begun @ SendReject RejectBusy)
           | (Some i, t) \<Rightarrow>
               let s = RefreshState (s\<lparr>hs_viewers := vt_SetWantsAudio t i (wants_audio m)\<rparr>)
               in (True, s, begun @ (if firstViewer then [HsHello m] else [])
                   @ [HsViewerJoin fromPacked (vt_publishedCount (hs_viewers s)) (hello_clientName m)] @ SendHelloAck s))"

definition HandleHello :: "random_bytes \<Rightarrow> ScreenHostSession \<Rightarrow> bytes \<Rightarrow> u64 \<Rightarrow> u64 \<Rightarrow> (bool \<times> host_result) checked" where
  "HandleHello random s payload nowUs fromPacked = do {
     m \<leftarrow> ParseHello payload;
     case m of None \<Rightarrow> Some (False, s, [])
     | Some m \<Rightarrow>
         if fromPacked = 0 then Some (False, s, [])
         else
           let known = vt_Find (hs_viewers s) fromPacked;
               (known, s, dropped) = (case known of None \<Rightarrow> (None, s, [])
                 | Some i \<Rightarrow> if vs_clientId (hs_slot s i) \<noteq> hello_clientId m
                     then let (s, out) = DropViewer s i in (None, s, out) else (Some i, s, []));
               known = (case known of None \<Rightarrow> vt_FindByClient (hs_viewers s) (hello_clientId m) | Some i \<Rightarrow> Some i)
           in case known of
                Some i \<Rightarrow> let (s, out) = greet_known s i m nowUs fromPacked in Some (True, s, dropped @ out)
              | None \<Rightarrow> let (ok, s, out) = greet_new random s m nowUs fromPacked in Some (ok, s, dropped @ out)
   }"

definition ReportFeedbackIfDue :: "ScreenHostSession \<Rightarrow> u64 \<Rightarrow> host_result" where
  "ReportFeedbackIfDue s nowUs =
     (if \<not> hs_feedbackPending s then (s, [])
      else if hs_feedbackReported s \<and> nowUs - hs_lastFeedbackReportUs s < kFeedbackDecisionSpacingUs then (s, [])
      else (s\<lparr>hs_feedbackPending := False, hs_feedbackReported := True, hs_lastFeedbackReportUs := nowUs\<rparr>,
            [HsFeedback (WorstCaseFeedback (vt_slots (hs_viewers s)))]))"

definition ApplyInput :: "ScreenHostSession \<Rightarrow> nat \<Rightarrow> bytes \<Rightarrow> u64 \<Rightarrow> host_result checked" where
  "ApplyInput s i payload nowUs =
     (if HigherPriorityIsDriving (hs_viewers s) i nowUs then do {
        (_, r, _) \<leftarrow> rc_HandlePacket (vs_input (hs_slot s i)) payload;
        Some (set_slot (s\<lparr>hs_inputDenied := hs_inputDenied s + 1\<rparr>) i ((hs_slot s i)\<lparr>vs_input := r\<rparr>), [])
      }
      else
        let s = set_slot s i ((hs_slot s i)\<lparr>vs_lastInputUs := nowUs\<rparr>);
            (s, handed) = HandOverControl s (vs_addrPacked (hs_slot s i)) in do {
          (_, r, events) \<leftarrow> rc_HandlePacket (vs_input (hs_slot s i)) payload;
          Some (set_slot s i ((hs_slot s i)\<lparr>vs_input := r\<rparr>), handed @ map HsInput events)
        })"

definition on_start :: "ScreenHostSession \<Rightarrow> nat \<Rightarrow> bool \<times> host_result" where
  "on_start s i =
     (if vs_started (hs_slot s i) then (True, s, [])
      else let streaming = hs_state s = HostStreaming;
               s = set_slot s i ((hs_slot s i)\<lparr>vs_started := True\<rparr>)
           in if \<not> streaming then (True, s\<lparr>hs_state := HostStreaming\<rparr>, [HsStart]) else (True, s, [HsKeyframeRequest]))"

definition on_focus :: "ScreenHostSession \<Rightarrow> nat \<Rightarrow> bool \<Rightarrow> bool \<times> host_result" where
  "on_focus s i focused =
     (if hs_controllingAddr s \<noteq> 0 \<and> hs_controllingAddr s \<noteq> vs_addrPacked (hs_slot s i) then (True, s, [])
      else let (s, out) = (if \<not> focused then HandOverControl (set_slot s i ((hs_slot s i)\<lparr>vs_lastInputUs := 0\<rparr>)) 0
                           else (s, []))
           in (True, s, out @ [HsFocus focused]))"

definition on_clipboard :: "ScreenHostSession \<Rightarrow> nat \<Rightarrow> ClipboardChunkView \<Rightarrow> (bool \<times> host_result) checked" where
  "on_clipboard s i chunk = do {
     (complete, clip) \<leftarrow> cs_Accept (vs_clip (hs_slot s i)) chunk;
     let (tx, clip) = (if complete then cs_TakeCompleted clip else (None, clip))
     in Some (True, set_slot s i ((hs_slot s i)\<lparr>vs_clip := clip\<rparr>), case tx of None \<Rightarrow> [] | Some t \<Rightarrow> [HsClipboardText t])
   }"

definition HandleFromViewer :: "ScreenHostSession \<Rightarrow> CommonHeader \<Rightarrow> bytes \<Rightarrow> nat \<Rightarrow> u64 \<Rightarrow> (bool \<times> host_result) checked" where
  "HandleFromViewer s header payload i nowUs =
     (let streaming = hs_state s = HostStreaming in
      case ch_type header of
        MsgStart \<Rightarrow> Some (on_start s i)
      | MsgPing \<Rightarrow> do {
          m \<leftarrow> ParsePingPong payload;
          case m of None \<Rightarrow> Some (False, s, [])
          | Some m \<Rightarrow> Some (True, s, hs_Send (BuildPong kMaxDatagram (hs_sessionId s) m))
        }
      | MsgRequestKeyframe \<Rightarrow> if \<not> streaming then Some (False, s, []) else Some (True, s, [HsKeyframeRequest])
      | MsgInputEvent \<Rightarrow>
          if \<not> streaming then Some (False, s, [])
          else do { (s, out) \<leftarrow> ApplyInput s i payload nowUs; Some (True, s, out) }
      | MsgSetFocus \<Rightarrow>
          if \<not> streaming then Some (False, s, [])
          else do {
            focused \<leftarrow> ParseSetFocus payload;
            case focused of None \<Rightarrow> Some (False, s, []) | Some focused \<Rightarrow> Some (on_focus s i focused)
          }
      | MsgFeedback \<Rightarrow> do {
          m \<leftarrow> ParseFeedback payload;
          case m of None \<Rightarrow> Some (False, s, [])
          | Some m \<Rightarrow>
              let s = set_slot s i ((hs_slot s i)\<lparr>vs_feedback := m, vs_haveFeedback := True\<rparr>) \<lparr>hs_feedbackPending := True\<rparr>;
                  (s, out) = ReportFeedbackIfDue s nowUs
              in Some (True, s, out)
        }
      | MsgNack \<Rightarrow>
          if \<not> streaming then Some (False, s, [])
          else do {
            m \<leftarrow> ParseNack payload kMaxNackIndices;
            Some (True, s, case m of None \<Rightarrow> [] | Some (frameId, indices) \<Rightarrow> [HsNack frameId indices])
          }
      | MsgInvalidateRef \<Rightarrow>
          if \<not> streaming then Some (False, s, [])
          else do {
            fid \<leftarrow> ParseInvalidateRef payload;
            Some (True, s, case fid of None \<Rightarrow> [] | Some fid \<Rightarrow> [HsInvalidateRef fid])
          }
      | MsgClipboard \<Rightarrow>
          if \<not> streaming \<or> \<not> hs_clipboardEnabled s then Some (False, s, [])
          else do {
            chunk \<leftarrow> ParseClipboardChunk payload;
            case chunk of None \<Rightarrow> Some (False, s, []) | Some chunk \<Rightarrow> on_clipboard s i chunk
          }
      | _ \<Rightarrow> Some (False, s, []))"

definition hs_HandlePacket :: "random_bytes \<Rightarrow> ScreenHostSession \<Rightarrow> bytes \<Rightarrow> u64 \<Rightarrow> u64 \<Rightarrow> (bool \<times> host_result) checked" where
  "hs_HandlePacket random s pkt nowUs fromPacked = do {
     h \<leftarrow> ParseCommonHeader pkt;
     case h of None \<Rightarrow> Some (False, s, [])
     | Some h \<Rightarrow> do {
         payload \<leftarrow> PayloadOf pkt;
         if ch_type h = MsgHello then HandleHello random s payload nowUs fromPacked
         else if \<not> InSession s (ch_sessionId h) then Some (False, s, [])
         else case vt_Find (hs_viewers s) fromPacked of
             None \<Rightarrow> Some (False, s, [])
           | Some i \<Rightarrow>
               let s = set_slot s i ((hs_slot s i)\<lparr>vs_lastRecvUs := nowUs\<rparr>) in
               if ch_type h = MsgBye then let (s, out) = DropViewer s i in Some (False, s, out)
               else HandleFromViewer s h payload i nowUs
       }
   }"

text \<open>The loop of \<open>Tick\<close> over the slots.\<close>

fun drop_silent :: "u64 \<Rightarrow> nat list \<Rightarrow> ScreenHostSession \<Rightarrow> host_result" where
  "drop_silent nowUs [] s = (s, [])"
| "drop_silent nowUs (i # is) s =
     (if \<not> vs_active (hs_slot s i) then drop_silent nowUs is s
      else if nowUs - vs_lastRecvUs (hs_slot s i) > kSessionTimeoutUs
      then let (s, out) = DropViewer s i; (s, rest) = drop_silent nowUs is s in (s, out @ rest)
      else drop_silent nowUs is s)"

definition hs_Tick :: "ScreenHostSession \<Rightarrow> u64 \<Rightarrow> host_result" where
  "hs_Tick s nowUs =
     (if hs_state s = HostIdle then (s, [])
      else let (s, out) = drop_silent nowUs [0..<length (vt_slots (hs_viewers s))] s;
               (s, report) = ReportFeedbackIfDue s nowUs
           in (s, out @ report))"

definition KickViewer :: "ScreenHostSession \<Rightarrow> u64 \<Rightarrow> bool \<times> host_result" where
  "KickViewer s addrPacked =
     (case vt_Find (hs_viewers s) addrPacked of
        None \<Rightarrow> (False, s, [])
      | Some i \<Rightarrow>
          if \<not> vs_active (hs_slot s i) then (False, s, [])
          else let m = BuildBye kMaxDatagram (hs_sessionId s);
                   told = (if m = [] then [] else [HsSendTo addrPacked m]);
                   (s, out) = DropViewer s i
               in (True, s, told @ out))"

end
