(* ===== verification/HostSafety.thy ===== *)
theory HostSafety
  imports HostSession WireSafety
begin

text \<open>
  What every operation of a host's screen session keeps: the table of viewers is well formed, its
  published view is current, the state is the one its viewers call for, and the budget shared with
  other sessions is accounted for.
\<close>

definition hs_inv :: "ScreenHostSession \<Rightarrow> bool" where
  "hs_inv s \<longleftrightarrow> vt_inv (hs_viewers s)
     \<and> (if vt_count (hs_viewers s) = 0 then hs_state s = HostIdle
        else hs_sessionId s \<noteq> 0 \<and> hs_state s = (if vt_anyStarted (hs_viewers s) then HostStreaming else HostReady))"

definition hs_keeps :: "ScreenHostSession \<Rightarrow> ScreenHostSession \<Rightarrow> bool" where
  "hs_keeps s s' \<longleftrightarrow> hs_inv s' \<and> budget_step (hs_viewers s) (hs_viewers s')"

lemma hs_init_inv: "hs_inv (hs_init offer b)"
proof -
  have "vt_count (vt_SetHostBudget vt_init b) = 0" by (simp add: vt_SetHostBudget_def vt_init_def)
  then show ?thesis using vt_init_inv by (simp add: hs_inv_def hs_init_def)
qed

lemma anyStarted_iff: "vt_anyStarted t \<longleftrightarrow> (\<exists>i\<in>active_slots t. vs_started (vt_slots t ! i))"
  by (auto simp: vt_anyStarted_def list_ex_length active_slots_def)

lemma anyStarted_upd:
  assumes "i \<in> active_slots t" "vs_active v" "vs_started v = vs_started (vt_slots t ! i)"
  shows "vt_anyStarted (upd_slot t i v) = vt_anyStarted t"
proof -
  have i: "i < length (vt_slots t)" "insert i (active_slots t) = active_slots t" using assms(1) by (auto simp: active_lt)
  then have "active_slots (upd_slot t i v) = active_slots t" using active_upd [OF i(1), of v] assms(2) by simp
  then show ?thesis using assms(3) i(1) by (auto simp: anyStarted_iff nth_list_update)
qed

lemma active_count: "vt_inv t \<Longrightarrow> i \<in> active_slots t \<Longrightarrow> 0 < vt_count t"
  using Drop_inv(5) by blast

lemma HandOver_keeps: "HandOverControl s a = (s', out) \<Longrightarrow> hs_viewers s' = hs_viewers s \<and> hs_state s' = hs_state s \<and> hs_sessionId s' = hs_sessionId s"
  by (auto simp: HandOverControl_def split: if_splits)

lemma hs_inv_cong:
  "hs_viewers s' = hs_viewers s \<Longrightarrow> hs_state s' = hs_state s \<Longrightarrow> hs_sessionId s' = hs_sessionId s \<Longrightarrow> hs_inv s' = hs_inv s"
  by (simp add: hs_inv_def)

lemma Disconnect_keeps:
  assumes "vt_inv (hs_viewers s)" "hs_Disconnect s = (s', out)"
  shows "hs_keeps s s' \<and> vt_count (hs_viewers s') = 0"
proof -
  let ?s = "s\<lparr>hs_state := HostIdle, hs_sessionId := 0, hs_viewers := vt_Clear (hs_viewers s), hs_feedbackPending := False, hs_feedbackReported := False\<rparr>"
  obtain s1 out1 where hand: "HandOverControl ?s 0 = (s1, out1)" by (cases "HandOverControl ?s 0")
  then have "s' = s1" using assms(2) by (simp add: hs_Disconnect_def Let_def)
  then show ?thesis using HandOver_keeps [OF hand] Clear_inv [OF assms(1)] by (simp add: hs_keeps_def hs_inv_def)
qed

lemma DropViewer_keeps:
  assumes inv: "vt_inv (hs_viewers s)" "hs_sessionId s \<noteq> 0" and i: "i \<in> active_slots (hs_viewers s)" and drop: "DropViewer s i = (s', out)"
  shows "hs_keeps s s' \<and> vt_count (hs_viewers s') \<le> vt_count (hs_viewers s)
    \<and> (\<forall>j. j \<in> active_slots (hs_viewers s') \<longrightarrow> j \<in> active_slots (hs_viewers s) - {i} \<and> hs_slot s' j = hs_slot s j)"
proof -
  let ?s = "s\<lparr>hs_viewers := vt_Drop (hs_viewers s) i\<rparr>"
  note d = Drop_inv [OF inv(1) i]
  show ?thesis
  proof (cases "vt_empty (hs_viewers ?s)")
    case True
    then obtain out1 where one: "hs_Disconnect ?s = (s', out1)"
      using drop by (auto simp: DropViewer_def Let_def split: prod.splits)
    have k: "hs_keeps ?s s'" "vt_count (hs_viewers s') = 0" using Disconnect_keeps [OF _ one] d(1) by simp_all
    have "active_slots (hs_viewers s') = {}" using k count_active(1) [of "hs_viewers s'"] by (simp add: hs_keeps_def hs_inv_def)
    then show ?thesis using k d(3,4) budget_trans [OF d(3)] by (simp add: hs_keeps_def)
  next
    case False
    let ?r = "RefreshState ?s"
    obtain out1 where "s' = ?r \<or> HandOverControl ?r 0 = (s', out1)"
      using drop False by (auto simp: DropViewer_def Let_def split: prod.splits if_splits)
    then have same: "hs_viewers s' = hs_viewers ?s" "hs_state s' = hs_state ?r" "hs_sessionId s' = hs_sessionId s"
      using HandOver_keeps [of ?r 0 s' out1] by (auto simp: RefreshState_def)
    have "vt_count (hs_viewers s') \<noteq> 0" using False by (simp add: same vt_empty_def)
    then have "hs_inv s'" using d(1) inv(2) by (simp add: hs_inv_def same RefreshState_def)
    moreover have "hs_slot s' j = hs_slot s j" if "j \<in> active_slots (hs_viewers s) - {i}" for j
      using that by (simp add: same d(6))
    ultimately show ?thesis using d(2,3,4) by (simp add: hs_keeps_def same)
  qed
qed

lemma inv_session: "hs_inv s \<Longrightarrow> i \<in> active_slots (hs_viewers s) \<Longrightarrow> vt_inv (hs_viewers s) \<and> hs_sessionId s \<noteq> 0"
  using active_count [of "hs_viewers s" i] by (auto simp: hs_inv_def)

text \<open>A change of a slot that nobody outside sees.\<close>

lemma set_slot_inv:
  assumes inv: "hs_inv s" and i: "i \<in> active_slots (hs_viewers s)" and clip: "cs_inv (vs_clip v)"
    and same: "vs_active v" "vs_addrPacked v = vs_addrPacked (hs_slot s i)" "vs_wantsAudio v = vs_wantsAudio (hs_slot s i)"
      "vs_name v = vs_name (hs_slot s i)" "vs_clientId v = vs_clientId (hs_slot s i)" "vs_started v = vs_started (hs_slot s i)"
  shows "hs_inv (set_slot s i v)" "active_slots (hs_viewers (set_slot s i v)) = active_slots (hs_viewers s)"
    "hs_slot (set_slot s i v) i = v" "budget_step (hs_viewers s) (hs_viewers (set_slot s i v))"
proof -
  have t: "vt_inv (hs_viewers s)" using inv by (simp add: hs_inv_def)
  note q = upd_quiet [OF t i clip same(1-5)]
  show "active_slots (hs_viewers (set_slot s i v)) = active_slots (hs_viewers s)" "hs_slot (set_slot s i v) i = v"
    using q(2) active_lt [OF i] by (simp_all add: set_slot_def)
  show "hs_inv (set_slot s i v)" using inv q(1) anyStarted_upd [OF i same(1,6)] by (simp add: hs_inv_def set_slot_def)
  show "budget_step (hs_viewers s) (hs_viewers (set_slot s i v))" by (rule budget_refl) (simp_all add: set_slot_def)
qed

lemma viewer_fields: "hs_inv s \<Longrightarrow> i \<in> active_slots (hs_viewers s) \<Longrightarrow> vs_active (hs_slot s i) \<and> vs_addrPacked (hs_slot s i) \<noteq> 0 \<and> cs_inv (vs_clip (hs_slot s i))"
  using active_fields [of "hs_viewers s" i] by (simp add: hs_inv_def vt_inv_def)

lemma Report_keeps: "hs_inv s \<Longrightarrow> ReportFeedbackIfDue s now = (s', out) \<Longrightarrow> hs_inv s' \<and> hs_viewers s' = hs_viewers s"
  by (auto simp: ReportFeedbackIfDue_def hs_inv_def split: if_splits)


section \<open>Greeting\<close>

lemma greet_known_keeps:
  assumes inv: "hs_inv s" and i: "i \<in> active_slots (hs_viewers s)"
    and a: "a \<noteq> 0" "\<forall>j\<in>active_slots (hs_viewers s) - {i}. vs_addrPacked (hs_slot s j) \<noteq> a"
    and greet: "greet_known s i m now a = (s', out)"
  shows "hs_keeps s s' \<and> vt_count (hs_viewers s') = vt_count (hs_viewers s)"
proof -
  define t1 where "t1 = vt_Rebind (hs_viewers s) i a"
  define t2 where "t2 = vt_SetName t1 i (hello_clientName m)"
  define t3 where "t3 = vt_SetWantsAudio t2 i (wants_audio m)"
  have t: "vt_inv (hs_viewers s)" using inv by (simp add: hs_inv_def)
  note one = Rebind_inv [OF t i a, folded t1_def]
  have i1: "i \<in> active_slots t1" using one(2) i by simp
  note two = SetName_inv [OF one(1) i1, of "hello_clientName m", folded t2_def]
  have i2: "i \<in> active_slots t2" using two(2) i1 by simp
  note three = SetWantsAudio_inv [OF two(1) i2, of "wants_audio m", folded t3_def]
  have act: "active_slots t3 = active_slots (hs_viewers s)" using one(2) two(2) three(2) by simp
  have len: "i < length (vt_slots (hs_viewers s))" using i by (rule active_lt)
  have started: "vs_started (vt_slots t3 ! j) = vs_started (vt_slots (hs_viewers s) ! j)" for j
    using len one(3) two(3) three(3) by (cases "j = i") (simp_all add: nth_list_update)
  have same: "vt_count t3 = vt_count (hs_viewers s)" "vt_budget t3 = vt_budget (hs_viewers s)" by (simp_all add: t3_def t2_def t1_def)
  have inv3: "hs_inv (s\<lparr>hs_viewers := t3\<rparr>)" using inv three(1) same(1) act started by (simp add: hs_inv_def anyStarted_iff)
  let ?v = "(vt_slots t3 ! i)\<lparr>vs_lastRecvUs := now\<rparr>"
  have s': "s' = set_slot (s\<lparr>hs_viewers := t3\<rparr>) i ?v"
    using greet by (simp add: greet_known_def Let_def t3_def t2_def t1_def)
  have i3: "i \<in> active_slots (hs_viewers (s\<lparr>hs_viewers := t3\<rparr>))" using act i by simp
  note f = viewer_fields [OF inv3 i3]
  have "hs_inv s'" unfolding s' by (rule set_slot_inv(1) [OF inv3 i3]) (use f in simp_all)
  moreover have "budget_step (hs_viewers s) (hs_viewers s')" unfolding s' by (rule budget_refl) (simp_all add: set_slot_def same)
  ultimately show ?thesis by (simp add: hs_keeps_def s' set_slot_def same)
qed

lemma BeginSession_cases:
  assumes "BeginSession random s = (ok, s1, begun)"
  shows "hs_viewers s1 = hs_viewers s" "ok \<Longrightarrow> hs_sessionId s1 \<noteq> 0 \<and> begun = [] \<and> hs_state s1 = hs_state s"
    "\<not> ok \<Longrightarrow> hs_state s1 = HostIdle"
  using assms by (auto simp: BeginSession_def Let_def split: if_splits)

lemma greet_new_keeps:
  assumes inv: "hs_inv s" and a: "a \<noteq> 0"
    and new: "\<forall>i\<in>active_slots (hs_viewers s). vs_addrPacked (hs_slot s i) \<noteq> a \<and> vs_clientId (hs_slot s i) \<noteq> hello_clientId m"
    and greet: "greet_new random s m now a = (ok, s', out)"
  shows "hs_keeps s s'"
proof -
  obtain ok1 s1 begun where begin': "(if vt_empty (hs_viewers s) then BeginSession random s else (True, s, [])) = (ok1, s1, begun)"
    by (cases "if vt_empty (hs_viewers s) then BeginSession random s else (True, s, [])") auto
  have s1: "hs_viewers s1 = hs_viewers s \<and> (ok1 \<longrightarrow> hs_sessionId s1 \<noteq> 0) \<and> hs_inv s1"
  proof (cases "vt_empty (hs_viewers s)")
    case True
    then have "BeginSession random s = (ok1, s1, begun)" using begin' by simp
    from BeginSession_cases [OF this] show ?thesis using True inv by (cases ok1) (auto simp: hs_inv_def vt_empty_def)
  next
    case False
    then show ?thesis using begin' inv by (auto simp: hs_inv_def vt_empty_def split: if_splits)
  qed
  have t: "vt_inv (hs_viewers s)" using inv by (simp add: hs_inv_def)
  obtain r t' where admit: "vt_Admit (hs_viewers s1) (hello_clientId m) a now (hello_clientName m) = (r, t')"
    by (cases "vt_Admit (hs_viewers s1) (hello_clientId m) a now (hello_clientName m)")
  note ad = Admit_inv [OF t new a admit [unfolded conjunct1 [OF s1]]]
  show ?thesis
  proof (cases ok1)
    case False
    then have "s' = s1" using greet begin' by (simp add: greet_new_def Let_def)
    then show ?thesis using s1 budget_refl by (simp add: hs_keeps_def)
  next
    case True
    show ?thesis
    proof (cases r)
      case None
      then have "s' = s1\<lparr>hs_viewers := t'\<rparr>" "t' = hs_viewers s" using greet begin' admit True ad by (simp_all add: greet_new_def Let_def)
      then show ?thesis using s1 inv budget_refl by (simp add: hs_keeps_def hs_inv_def)
    next
      case (Some i)
      let ?t = "vt_SetWantsAudio t' i (wants_audio m)"
      have s': "s' = RefreshState (s1\<lparr>hs_viewers := ?t\<rparr>)" using greet begin' admit True Some by (simp add: greet_new_def Let_def)
      have i: "i \<in> active_slots t'" "vt_inv t'" "budget_step (hs_viewers s) t'" "vt_count t' = Suc (vt_count (hs_viewers s))"
        using ad Some by simp_all
      note au = SetWantsAudio_inv [OF i(2,1), of "wants_audio m"]
      have "hs_inv s'" using au(1) s1 True i(4) by (simp add: hs_inv_def s' RefreshState_def)
      then show ?thesis using budget_same [OF i(3)] by (simp add: hs_keeps_def s' RefreshState_def)
    qed
  qed
qed

lemma HandleHello_keeps:
  assumes inv: "hs_inv s"
  shows "\<exists>ok s' out. HandleHello random s payload now a = Some (ok, s', out) \<and> hs_keeps s s'"
proof -
  have stay: "hs_keeps s s" using inv budget_refl by (simp add: hs_keeps_def)
  obtain parsed where parsed: "ParseHello payload = Some parsed" using ParseHello_safe by blast
  show ?thesis
  proof (cases "parsed = None \<or> a = 0")
    case True
    then show ?thesis using parsed stay by (auto simp: HandleHello_def split: option.splits)
  next
    case False
    then obtain m where m: "parsed = Some m" and a: "a \<noteq> 0" by auto
    define fnd where "fnd = (case vt_Find (hs_viewers s) a of None \<Rightarrow> (None, s, [])
        | Some i \<Rightarrow> if vs_clientId (hs_slot s i) \<noteq> hello_clientId m
            then let (s, out) = DropViewer s i in (None, s, out) else (Some i, s, []))"
    obtain k s1 dropped where fnd': "fnd = (k, s1, dropped)" by (cases fnd)
    have t: "vt_inv (hs_viewers s)" using inv by (simp add: hs_inv_def)
    have one: "hs_keeps s s1 \<and> vt_count (hs_viewers s1) \<le> vt_count (hs_viewers s)
      \<and> (case k of Some i \<Rightarrow> i \<in> active_slots (hs_viewers s1) \<and> (\<forall>j\<in>active_slots (hs_viewers s1) - {i}. vs_addrPacked (hs_slot s1 j) \<noteq> a)
         | None \<Rightarrow> (\<forall>j\<in>active_slots (hs_viewers s1). vs_addrPacked (hs_slot s1 j) \<noteq> a))"
    proof (cases "vt_Find (hs_viewers s) a")
      case None
      then show ?thesis using fnd' stay Find_viewer_None [OF None a] by (simp add: fnd_def)
    next
      case (Some i)
      note i = Find_viewer_Some [OF Some]
      have others: "vs_addrPacked (hs_slot s j) \<noteq> a" if "j \<in> active_slots (hs_viewers s) - {i}" for j
        using t i that unfolding vt_inv_def slots_apart_def by auto
      show ?thesis
      proof (cases "vs_clientId (hs_slot s i) = hello_clientId m")
        case True
        then have "k = Some i" "s1 = s" using Some fnd' by (simp_all add: fnd_def)
        then show ?thesis using stay i others by simp
      next
        case diff: False
        then obtain out where drop: "DropViewer s i = (s1, out)" and "k = None"
          using Some fnd' by (auto simp: fnd_def split: prod.splits)
        have sid: "hs_sessionId s \<noteq> 0" using inv_session [OF inv] i by blast
        then show ?thesis using DropViewer_keeps [OF t sid _ drop] i others \<open>k = None\<close> by auto
      qed
    qed
    have inv1: "hs_inv s1" using one by (simp add: hs_keeps_def)
    have join: "hs_keeps s1 s2 \<Longrightarrow> hs_keeps s s2" for s2 using one budget_trans unfolding hs_keeps_def by blast
    define k2 where "k2 = (case k of None \<Rightarrow> vt_FindByClient (hs_viewers s1) (hello_clientId m) | Some i \<Rightarrow> Some i)"
    have eq: "HandleHello random s payload now a = (case k2 of
        Some i \<Rightarrow> let (s, out) = greet_known s1 i m now a in Some (True, s, dropped @ out)
      | None \<Rightarrow> let (ok, s, out) = greet_new random s1 m now a in Some (ok, s, dropped @ out))"
      using parsed m a fnd' by (simp add: HandleHello_def fnd_def k2_def Let_def cong: option.case_cong)
    show ?thesis
    proof (cases k2)
      case None
      then have none: "k = None" "vt_FindByClient (hs_viewers s1) (hello_clientId m) = None" by (auto simp: k2_def split: option.splits)
      obtain ok s2 out where g: "greet_new random s1 m now a = (ok, s2, out)" by (cases "greet_new random s1 m now a") auto
      have "hs_keeps s1 s2" by (rule greet_new_keeps [OF inv1 a _ g]) (use one none FindByClient_None [OF none(2)] in auto)
      then show ?thesis using eq None g join by simp
    next
      case (Some i)
      obtain s2 out where g: "greet_known s1 i m now a = (s2, out)" by (cases "greet_known s1 i m now a")
      have "i \<in> active_slots (hs_viewers s1) \<and> (\<forall>j\<in>active_slots (hs_viewers s1) - {i}. vs_addrPacked (hs_slot s1 j) \<noteq> a)"
        using Some one FindByClient_Some [of "hs_viewers s1" "hello_clientId m" i] by (auto simp: k2_def split: option.splits)
      then have "hs_keeps s s2" using greet_known_keeps [OF inv1 _ a _ g] join by blast
      then show ?thesis using eq Some g by auto
    qed
  qed
qed


section \<open>Serving a viewer\<close>

lemma keepsI: "hs_inv s' \<Longrightarrow> vt_budget (hs_viewers s') = vt_budget (hs_viewers s) \<Longrightarrow> vt_count (hs_viewers s') = vt_count (hs_viewers s)
    \<Longrightarrow> hs_keeps s s'"
  using budget_refl by (simp add: hs_keeps_def)

lemma set_slot_viewers [simp]: "vt_budget (hs_viewers (set_slot s i v)) = vt_budget (hs_viewers s)"
  "vt_count (hs_viewers (set_slot s i v)) = vt_count (hs_viewers s)" "length (vt_slots (hs_viewers (set_slot s i v))) = length (vt_slots (hs_viewers s))"
  by (simp_all add: set_slot_def)

lemma rc_HandlePacket_safe: "\<exists>ok r' es. rc_HandlePacket r p = Some (ok, r', es)"
proof -
  obtain parsed where "ParseInputEvents p kMaxInputEvents = Some parsed" using ParseInputEvents_safe by blast
  then show ?thesis by (auto simp: rc_HandlePacket_def split: option.splits prod.splits)
qed

lemma on_start_keeps:
  assumes inv: "hs_inv s" and i: "i \<in> active_slots (hs_viewers s)"
  shows "hs_keeps s (fst (snd (on_start s i)))"
proof (cases "vs_started (hs_slot s i)")
  case True
  then show ?thesis using inv by (simp add: on_start_def keepsI)
next
  case False
  let ?v = "(hs_slot s i)\<lparr>vs_started := True\<rparr>"
  let ?s = "set_slot s i ?v"
  have t: "vt_inv (hs_viewers s)" using inv by (simp add: hs_inv_def)
  note f = viewer_fields [OF inv i]
  have q: "vt_inv (hs_viewers ?s)" "active_slots (hs_viewers ?s) = active_slots (hs_viewers s)"
    using upd_quiet [OF t i, of ?v] f by (simp_all add: set_slot_def)
  have "vs_started (hs_slot ?s i)" using active_lt [OF i] by (simp add: set_slot_def)
  then have "vt_anyStarted (hs_viewers ?s)" using q(2) i by (auto simp: anyStarted_iff)
  moreover have "0 < vt_count (hs_viewers s)" "hs_sessionId s \<noteq> 0" using active_count [OF t i] inv by (auto simp: hs_inv_def)
  moreover have "fst (snd (on_start s i)) = ?s\<lparr>hs_state := HostStreaming\<rparr>"
    using False by (cases "hs_state s = HostStreaming") (simp_all add: on_start_def Let_def set_slot_def)
  moreover have "hs_sessionId ?s = hs_sessionId s" by (simp add: set_slot_def)
  ultimately show ?thesis using q(1) by (intro keepsI) (simp_all add: hs_inv_def)
qed

text \<open>Who drives: the slot, once the input of its viewer was let through.\<close>

lemma ApplyInput_keeps:
  assumes inv: "hs_inv s" and i: "i \<in> active_slots (hs_viewers s)"
  shows "\<exists>s' out. ApplyInput s i p now = Some (s', out) \<and> hs_keeps s s'"
proof -
  note f = viewer_fields [OF inv i]
  show ?thesis
  proof (cases "HigherPriorityIsDriving (hs_viewers s) i now")
    case True
    obtain ok r es where rc: "rc_HandlePacket (vs_input (hs_slot s i)) p = Some (ok, r, es)" using rc_HandlePacket_safe by blast
    let ?v = "(hs_slot s i)\<lparr>vs_input := r\<rparr>" and ?s = "s\<lparr>hs_inputDenied := hs_inputDenied s + 1\<rparr>"
    have "hs_inv ?s" using inv by (simp add: hs_inv_def)
    then have "hs_inv (set_slot ?s i ?v)" using i f by (intro set_slot_inv(1)) simp_all
    then show ?thesis using True rc by (auto simp: ApplyInput_def intro!: keepsI)
  next
    case False
    let ?s = "set_slot s i ((hs_slot s i)\<lparr>vs_lastInputUs := now\<rparr>)"
    have one: "hs_inv ?s" "active_slots (hs_viewers ?s) = active_slots (hs_viewers s)"
      using set_slot_inv [OF inv i, of "(hs_slot s i)\<lparr>vs_lastInputUs := now\<rparr>"] f by simp_all
    obtain s1 handed where hand: "HandOverControl ?s (vs_addrPacked (hs_slot ?s i)) = (s1, handed)"
      by (cases "HandOverControl ?s (vs_addrPacked (hs_slot ?s i))")
    note h = HandOver_keeps [OF hand]
    have inv1: "hs_inv s1" and i1: "i \<in> active_slots (hs_viewers s1)" using one i h by (simp_all add: hs_inv_def)
    obtain ok r es where rc: "rc_HandlePacket (vs_input (hs_slot s1 i)) p = Some (ok, r, es)" using rc_HandlePacket_safe by blast
    have "hs_inv (set_slot s1 i ((hs_slot s1 i)\<lparr>vs_input := r\<rparr>))"
      using set_slot_inv(1) [OF inv1 i1] viewer_fields [OF inv1 i1] by simp
    then show ?thesis using False rc hand h by (auto simp: ApplyInput_def Let_def intro!: keepsI)
  qed
qed

lemma on_focus_keeps:
  assumes inv: "hs_inv s" and i: "i \<in> active_slots (hs_viewers s)"
  shows "hs_keeps s (fst (snd (on_focus s i on)))"
proof -
  note f = viewer_fields [OF inv i]
  let ?s = "set_slot s i ((hs_slot s i)\<lparr>vs_lastInputUs := 0\<rparr>)"
  have one: "hs_inv ?s" using set_slot_inv(1) [OF inv i, of "(hs_slot s i)\<lparr>vs_lastInputUs := 0\<rparr>"] f by simp
  obtain s1 out where hand: "HandOverControl ?s 0 = (s1, out)" by (cases "HandOverControl ?s 0")
  note h = HandOver_keeps [OF hand]
  have "hs_inv s1" using one h by (simp add: hs_inv_def)
  then have "hs_keeps s s1" using h by (intro keepsI) simp_all
  moreover have "hs_keeps s s" using inv by (simp add: keepsI)
  ultimately show ?thesis using hand by (simp add: on_focus_def Let_def)
qed

lemma on_clipboard_keeps:
  assumes inv: "hs_inv s" and i: "i \<in> active_slots (hs_viewers s)" and c: "chunk_ok c"
  shows "\<exists>ok s' out. on_clipboard s i c = Some (ok, s', out) \<and> hs_keeps s s'"
proof -
  note f = viewer_fields [OF inv i]
  obtain complete clip where acc: "cs_Accept (vs_clip (hs_slot s i)) c = Some (complete, clip)" "cs_inv clip"
    using Accept_inv [OF _ c] f by blast
  let ?clip = "if complete then snd (cs_TakeCompleted clip) else clip"
  have "cs_inv ?clip" using acc(2) by (simp add: cs_inv_def cs_TakeCompleted_def)
  then have "hs_inv (set_slot s i ((hs_slot s i)\<lparr>vs_clip := ?clip\<rparr>))"
    using set_slot_inv(1) [OF inv i, of "(hs_slot s i)\<lparr>vs_clip := ?clip\<rparr>"] f by simp
  then have "hs_keeps s (set_slot s i ((hs_slot s i)\<lparr>vs_clip := ?clip\<rparr>))" by (intro keepsI) simp_all
  then show ?thesis using acc(1) by (auto simp: on_clipboard_def Let_def cs_TakeCompleted_def)
qed


lemma HandleFromViewer_keeps:
  assumes inv: "hs_inv s" and i: "i \<in> active_slots (hs_viewers s)"
  shows "\<exists>ok s' out. HandleFromViewer s h p i now = Some (ok, s', out) \<and> hs_keeps s s'"
proof -
  have stay: "hs_keeps s s" using inv by (simp add: keepsI)
  note f = viewer_fields [OF inv i]
  have feedback: "\<exists>s' out. ReportFeedbackIfDue (set_slot s i ((hs_slot s i)\<lparr>vs_feedback := m, vs_haveFeedback := True\<rparr>) \<lparr>hs_feedbackPending := True\<rparr>) now
      = (s', out) \<and> hs_keeps s s'" for m
  proof -
    let ?s = "set_slot s i ((hs_slot s i)\<lparr>vs_feedback := m, vs_haveFeedback := True\<rparr>) \<lparr>hs_feedbackPending := True\<rparr>"
    have "hs_inv (set_slot s i ((hs_slot s i)\<lparr>vs_feedback := m, vs_haveFeedback := True\<rparr>))"
      using set_slot_inv(1) [OF inv i, of "(hs_slot s i)\<lparr>vs_feedback := m, vs_haveFeedback := True\<rparr>"] f by simp
    then have "hs_inv ?s" by (simp add: hs_inv_def)
    moreover obtain s1 out1 where one: "ReportFeedbackIfDue ?s now = (s1, out1)" by (cases "ReportFeedbackIfDue ?s now")
    ultimately have r: "hs_inv s1" "hs_viewers s1 = hs_viewers ?s" using Report_keeps by blast+
    have "hs_keeps s s1" by (rule keepsI [OF r(1)]) (simp_all add: r(2))
    then show ?thesis by (simp add: one)
  qed
  show ?thesis
  proof (cases "ch_type h")
    case MsgStart
    then show ?thesis using on_start_keeps [OF inv i] by (cases "on_start s i") (simp add: HandleFromViewer_def)
  next
    case MsgPing
    obtain m where "ParsePingPong p = Some m" using ParseControl_safe by blast
    then show ?thesis using MsgPing stay by (auto simp: HandleFromViewer_def split: option.splits)
  next
    case MsgInputEvent
    obtain s1 out1 where "ApplyInput s i p now = Some (s1, out1)" "hs_keeps s s1" using ApplyInput_keeps [OF inv i] by blast
    then show ?thesis using MsgInputEvent stay by (auto simp: HandleFromViewer_def)
  next
    case MsgSetFocus
    obtain m where "ParseSetFocus p = Some m" using ParseControl_safe by blast
    moreover have "\<exists>ok s' out. on_focus s i on = (ok, s', out) \<and> hs_keeps s s'" for on
      using on_focus_keeps [OF inv i, of on] by (cases "on_focus s i on") auto
    ultimately show ?thesis using MsgSetFocus stay by (cases m) (auto simp: HandleFromViewer_def)
  next
    case MsgFeedback
    obtain m where m: "ParseFeedback p = Some m" using ParseControl_safe by blast
    show ?thesis
    proof (cases m)
      case None
      then show ?thesis using MsgFeedback stay m by (auto simp: HandleFromViewer_def)
    next
      case (Some x)
      obtain s1 out1 where "ReportFeedbackIfDue (set_slot s i ((hs_slot s i)\<lparr>vs_feedback := x, vs_haveFeedback := True\<rparr>)
        \<lparr>hs_feedbackPending := True\<rparr>) now = (s1, out1)" and keep: "hs_keeps s s1"
        using feedback [of x] by (elim exE conjE)
      then have "HandleFromViewer s h p i now = Some (True, s1, out1)" using MsgFeedback m Some by (simp add: HandleFromViewer_def)
      then show ?thesis using keep by blast
    qed
  next
    case MsgNack
    obtain m where "ParseNack p kMaxNackIndices = Some m" using ParseNack_safe by blast
    then show ?thesis using MsgNack stay by (auto simp: HandleFromViewer_def)
  next
    case MsgInvalidateRef
    obtain m where "ParseInvalidateRef p = Some m" using ParseControl_safe by blast
    then show ?thesis using MsgInvalidateRef stay by (auto simp: HandleFromViewer_def)
  next
    case MsgClipboard
    obtain m where m: "ParseClipboardChunk p = Some m" using ParseClipboardChunk_safe by blast
    show ?thesis
    proof (cases m)
      case None
      then show ?thesis using MsgClipboard stay m by (auto simp: HandleFromViewer_def)
    next
      case (Some c)
      have "chunk_ok c" using m Some ParseClipboardChunk_ok by blast
      then obtain ok s1 out1 where "on_clipboard s i c = Some (ok, s1, out1)" "hs_keeps s s1" using on_clipboard_keeps [OF inv i] by blast
      then show ?thesis using MsgClipboard stay m Some by (auto simp: HandleFromViewer_def)
    qed
  qed (use stay in \<open>auto simp: HandleFromViewer_def\<close>)
qed

lemma keeps_trans: "hs_keeps s s1 \<Longrightarrow> vt_count (hs_viewers s1) \<le> vt_count (hs_viewers s) \<Longrightarrow> hs_keeps s1 s2 \<Longrightarrow> hs_keeps s s2"
  unfolding hs_keeps_def using budget_trans by blast

lemma HandlePacket_host_keeps:
  assumes inv: "hs_inv s"
  shows "\<exists>ok s' out. hs_HandlePacket random s pkt now a = Some (ok, s', out) \<and> hs_keeps s s'"
proof -
  have stay: "hs_keeps s s" using inv by (simp add: keepsI)
  obtain parsed where h: "ParseCommonHeader pkt = Some parsed" using ParseCommonHeader_safe by blast
  obtain p where p: "PayloadOf pkt = Some p" using PayloadOf_safe by blast
  show ?thesis
  proof (cases parsed)
    case None
    then show ?thesis using h stay by (auto simp: hs_HandlePacket_def)
  next
    case (Some hd)
    show ?thesis
    proof (cases "ch_type hd = MsgHello")
      case True
      then show ?thesis using h p Some HandleHello_keeps [OF inv] by (simp add: hs_HandlePacket_def)
    next
      case other: False
      show ?thesis
      proof (cases "InSession s (ch_sessionId hd) \<and> vt_Find (hs_viewers s) a \<noteq> None")
        case False
        then show ?thesis using h p Some other stay by (auto simp: hs_HandlePacket_def)
      next
        case True
        then obtain i where i: "vt_Find (hs_viewers s) a = Some i" by blast
        have act: "i \<in> active_slots (hs_viewers s)" using Find_viewer_Some [OF i] by blast
        let ?s = "set_slot s i ((hs_slot s i)\<lparr>vs_lastRecvUs := now\<rparr>)"
        have one: "hs_inv ?s" "active_slots (hs_viewers ?s) = active_slots (hs_viewers s)"
          using set_slot_inv [OF inv act, of "(hs_slot s i)\<lparr>vs_lastRecvUs := now\<rparr>"] viewer_fields [OF inv act] by simp_all
        have keep: "hs_keeps s ?s" using one by (intro keepsI) simp_all
        have act1: "i \<in> active_slots (hs_viewers ?s)" using one act by simp
        show ?thesis
        proof (cases "ch_type hd = MsgBye")
          case True
          obtain s2 out where drop: "DropViewer ?s i = (s2, out)" by (cases "DropViewer ?s i")
          have "hs_keeps ?s s2" using DropViewer_keeps [OF _ _ act1 drop] inv_session [OF one(1) act1] by blast
          then have "hs_keeps s s2" using keeps_trans [OF keep] by simp
          then show ?thesis using h p Some other \<open>InSession s (ch_sessionId hd) \<and> _\<close> i True drop by (auto simp: hs_HandlePacket_def Let_def)
        next
          case False
          obtain ok s2 out where two: "HandleFromViewer ?s hd p i now = Some (ok, s2, out)" "hs_keeps ?s s2"
            using HandleFromViewer_keeps [OF one(1) act1] by blast
          then have "hs_keeps s s2" using keeps_trans [OF keep] by simp
          then show ?thesis using h p Some other \<open>InSession s (ch_sessionId hd) \<and> _\<close> i False two(1) by (simp add: hs_HandlePacket_def Let_def)
        qed
      qed
    qed
  qed
qed

lemma drop_silent_keeps:
  assumes "hs_inv s" "set is \<subseteq> {..<length (vt_slots (hs_viewers s))}"
  shows "hs_keeps s (fst (drop_silent now is s)) \<and> vt_count (hs_viewers (fst (drop_silent now is s))) \<le> vt_count (hs_viewers s)"
  using assms
proof (induction "is" arbitrary: s)
  case Nil
  then show ?case by (simp add: keepsI)
next
  case (Cons i "is")
  show ?case
  proof (cases "vs_active (hs_slot s i) \<and> now - vs_lastRecvUs (hs_slot s i) > kSessionTimeoutUs")
    case True
    obtain s1 out1 where drop: "DropViewer s i = (s1, out1)" by (cases "DropViewer s i")
    have i: "i \<in> active_slots (hs_viewers s)" using True Cons.prems(2) by (simp add: active_slots_def)
    note k = DropViewer_keeps [OF conjunct1 [OF inv_session [OF Cons.prems(1) i]] conjunct2 [OF inv_session [OF Cons.prems(1) i]] i drop]
    have len: "length (vt_slots (hs_viewers s1)) = length (vt_slots (hs_viewers s))"
      using k Cons.prems(1) count_active(2) by (simp add: hs_keeps_def hs_inv_def)
    have "hs_inv s1" using k by (simp add: hs_keeps_def)
    note rest = Cons.IH [OF this]
    have "fst (drop_silent now (i # is) s) = fst (drop_silent now is s1)" using True drop by (simp add: case_prod_unfold Let_def)
    then show ?thesis using k rest len Cons.prems(2) keeps_trans [of s s1] by (auto intro: le_trans)
  next
    case False
    then have "drop_silent now (i # is) s = drop_silent now is s" by auto
    then show ?thesis using Cons by simp
  qed
qed

lemma Tick_keeps:
  assumes "hs_inv s" "hs_Tick s now = (s', out)"
  shows "hs_keeps s s'"
proof (cases "hs_state s = HostIdle")
  case True
  then show ?thesis using assms by (simp add: hs_Tick_def keepsI)
next
  case False
  obtain s1 out1 where one: "drop_silent now [0..<length (vt_slots (hs_viewers s))] s = (s1, out1)" by (cases "drop_silent now [0..<length (vt_slots (hs_viewers s))] s")
  have "set [0..<length (vt_slots (hs_viewers s))] \<subseteq> {..<length (vt_slots (hs_viewers s))}" by auto
  then have k: "hs_keeps s s1" "vt_count (hs_viewers s1) \<le> vt_count (hs_viewers s)"
    using drop_silent_keeps [OF assms(1), of "[0..<length (vt_slots (hs_viewers s))]" now] one by simp_all
  obtain out2 where two: "ReportFeedbackIfDue s1 now = (s', out2)" using assms(2) False one by (auto simp: hs_Tick_def split: prod.splits)
  then have "hs_inv s'" "hs_viewers s' = hs_viewers s1" using Report_keeps [OF _ two] k(1) by (simp_all add: hs_keeps_def)
  then show ?thesis using k by (simp add: hs_keeps_def)
qed

lemma Kick_keeps:
  assumes inv: "hs_inv s" and kick: "KickViewer s a = (ok, s', out)"
  shows "hs_keeps s s'"
proof (cases "vt_Find (hs_viewers s) a")
  case None
  then show ?thesis using assms by (simp add: KickViewer_def keepsI)
next
  case (Some i)
  have i: "i \<in> active_slots (hs_viewers s)" using Find_viewer_Some [OF Some] by blast
  obtain s1 out1 where drop: "DropViewer s i = (s1, out1)" by (cases "DropViewer s i")
  then have "s' = s1" using kick Some i by (simp add: KickViewer_def active_slots_def Let_def)
  then show ?thesis using DropViewer_keeps [OF _ _ i drop] inv_session [OF inv i] by blast
qed


section \<open>A host with several sources\<close>

text \<open>
  Every source of a host has a session of its own, and all take their viewers from one budget:
  a step runs one session on the budget as it stands.
\<close>

datatype HostOp =
  HostPacket random_bytes bytes u64 u64 | HostTick u64 | HostKick u64 | HostOffer StreamParams | HostClipboard bool

fun session_step :: "ScreenHostSession \<Rightarrow> HostOp \<Rightarrow> host_result checked" where
  "session_step s (HostPacket random pkt now a) = map_option snd (hs_HandlePacket random s pkt now a)"
| "session_step s (HostTick now) = Some (hs_Tick s now)"
| "session_step s (HostKick a) = Some (snd (KickViewer s a))"
| "session_step s (HostOffer p) = Some (hs_SetOffer s p, [])"
| "session_step s (HostClipboard on) = Some (hs_SetClipboardEnabled s on, [])"

definition on_budget :: "u64 \<Rightarrow> ScreenHostSession \<Rightarrow> ScreenHostSession" where
  "on_budget b s = s\<lparr>hs_viewers := (hs_viewers s)\<lparr>vt_budget := Some b\<rparr>\<rparr>"

type_synonym screen_host = "u64 \<times> ScreenHostSession list"

fun screen_host_step :: "screen_host \<Rightarrow> nat \<times> HostOp \<Rightarrow> (screen_host \<times> HostEffect list) checked" where
  "screen_host_step (b, ss) (k, x) =
     (if k < length ss then do {
        (s, out) \<leftarrow> session_step (on_budget b (ss ! k)) x;
        Some ((case vt_budget (hs_viewers s) of None \<Rightarrow> b | Some b \<Rightarrow> b, ss[k := s]), out)
      }
      else Some ((b, ss), []))"

definition viewers_of :: "ScreenHostSession list \<Rightarrow> nat" where
  "viewers_of ss = sum_list (map (\<lambda>s. vt_count (hs_viewers s)) ss)"

definition screen_host_inv :: "screen_host \<Rightarrow> bool" where
  "screen_host_inv h \<longleftrightarrow> (\<forall>s\<in>set (snd h). hs_inv s) \<and> viewers_of (snd h) \<le> kMaxViewersPerHost \<and> fst h = of_nat (viewers_of (snd h))"

lemma session_keeps:
  assumes inv: "hs_inv s"
  shows "\<exists>s' out. session_step s x = Some (s', out) \<and> hs_keeps s s'"
proof (cases x)
  case (HostPacket random pkt now a)
  then show ?thesis using HandlePacket_host_keeps [OF inv, of random pkt now a] by auto
next
  case (HostTick now)
  then show ?thesis using Tick_keeps [OF inv, of now] by (cases "hs_Tick s now") auto
next
  case (HostKick a)
  then show ?thesis using Kick_keeps [OF inv, of a] by (cases "KickViewer s a") auto
next
  case (HostOffer p)
  have "hs_inv (hs_SetOffer s p)" using inv by (simp add: hs_inv_def hs_SetOffer_def)
  then show ?thesis using HostOffer by (auto simp: hs_SetOffer_def intro!: keepsI)
next
  case (HostClipboard on)
  have "hs_inv (hs_SetClipboardEnabled s on)" using inv by (simp add: hs_inv_def hs_SetClipboardEnabled_def)
  then show ?thesis using HostClipboard by (auto simp: hs_SetClipboardEnabled_def intro!: keepsI)
qed

lemma on_budget_inv: "hs_inv s \<Longrightarrow> hs_inv (on_budget b s)"
proof -
  assume inv: "hs_inv s"
  let ?t = "(hs_viewers s)\<lparr>vt_budget := Some b\<rparr>"
  have "active_slots ?t = active_slots (hs_viewers s)" by (simp add: active_slots_def)
  moreover have "vt_Publish ?t = (vt_Publish (hs_viewers s))\<lparr>vt_budget := Some b\<rparr>" by (simp add: vt_Publish_def Let_def)
  ultimately show ?thesis using inv
    by (simp add: hs_inv_def on_budget_def vt_inv_def slots_ok_def slots_apart_def vt_anyStarted_def)
qed

lemma viewers_upd: "k < length ss \<Longrightarrow> viewers_of (ss[k := s]) + vt_count (hs_viewers (ss ! k)) = viewers_of ss + vt_count (hs_viewers s)"
  by (induction ss arbitrary: k) (auto simp: viewers_of_def nth_Cons split: nat.splits)

interpretation screen_host: component screen_host_step screen_host_inv "\<lambda>_. True" "\<lambda>_ _. True"
proof
  fix h :: screen_host and x :: "nat \<times> HostOp"
  assume inv: "screen_host_inv h"
  obtain b ss k op where h: "h = (b, ss)" and x: "x = (k, op)" by (cases h; cases x)
  show "\<exists>h' out. screen_host_step h x = Some (h', out) \<and> screen_host_inv h' \<and> True"
  proof (cases "k < length ss")
    case False
    then show ?thesis using inv h x by simp
  next
    case True
    let ?s = "on_budget b (ss ! k)"
    have all: "\<forall>s\<in>set ss. hs_inv s" and few: "viewers_of ss \<le> 5" and b: "b = of_nat (viewers_of ss)"
      using inv h by (simp_all add: screen_host_inv_def kconsts)
    have s0: "vt_count (hs_viewers ?s) = vt_count (hs_viewers (ss ! k))" "vt_budget (hs_viewers ?s) = Some b" by (simp_all add: on_budget_def)
    have "hs_inv ?s" using all True on_budget_inv by simp
    then obtain s out where one: "session_step ?s op = Some (s, out)" and keep: "hs_keeps ?s s" using session_keeps by blast
    let ?n = "vt_count (hs_viewers (ss ! k))" and ?n' = "vt_count (hs_viewers s)"
    have step: "budget_step (hs_viewers ?s) (hs_viewers s)" "hs_inv s" using keep by (simp_all add: hs_keeps_def)
    then obtain b' where b': "vt_budget (hs_viewers s) = Some b'" "b' - of_nat ?n' = b - of_nat ?n"
      using s0 by (auto simp: budget_step_def vt_others_def)
    have sum: "viewers_of (ss[k := s]) + ?n = viewers_of ss + ?n'" by (rule viewers_upd [OF True])
    have "of_nat (viewers_of (ss[k := s])) + of_nat ?n = (of_nat (viewers_of ss) + of_nat ?n' :: u64)"
      using sum by (metis of_nat_add)
    moreover have "b' + of_nat ?n = of_nat (viewers_of ss) + of_nat ?n'" using b'(2) b by (simp add: algebra_simps)
    ultimately have eq: "b' = of_nat (viewers_of (ss[k := s]))" by (metis add_right_cancel)
    have "?n' \<le> 5" using count_bound [of "hs_viewers s"] step(2) by (simp add: hs_inv_def kconsts)
    then have small: "viewers_of (ss[k := s]) < 2 ^ 64" using sum few by simp
    have "viewers_of (ss[k := s]) \<le> 5"
    proof (cases "?n' \<le> ?n")
      case True
      then show ?thesis using sum few by simp
    next
      case False
      then have "b' \<le> 5" using step(1) s0 b'(1) by (simp add: budget_step_def kconsts)
      then have "unat b' \<le> 5" by (simp add: word_le_nat_alt)
      then show ?thesis using eq small by (simp add: unat_of_nat)
    qed
    moreover have "\<forall>s\<in>set (ss[k := s]). hs_inv s" using all step(2) set_update_subset_insert [of ss k s] by auto
    ultimately show ?thesis using True one b'(1) eq h x by (simp add: screen_host_inv_def kconsts)
  qed
qed

end
