(* ===== verification/ClientSession.thy ===== *)
theory ClientSession
  imports HostSession
begin

text \<open>
  The client's side of a shared screen (\<open>core/include/deskhub/session/client/ScreenClientSession.h\<close>,
  \<open>core/src/session/client/ScreenClientSession.cpp\<close>): it greets until it is answered, starts until
  pictures come, and then sends input, clipboard, focus and pings until the host is lost.

  The callbacks, all set, are the list of effects of an operation.
\<close>

definition kHelloRetryUs :: u64 where [kconsts]: "kHelloRetryUs = 500000"
definition kHelloGiveUpUs :: u64 where [kconsts]: "kHelloGiveUpUs = 10000000"
definition kPingIntervalUs :: u64 where [kconsts]: "kPingIntervalUs = 1000000"
definition kKeyframeRetryUs :: u64 where [kconsts]: "kKeyframeRetryUs = 250000"
definition kFocusRetryUs :: u64 where [kconsts]: "kFocusRetryUs = 50000"
definition kFocusRepeats :: nat where [kconsts]: "kFocusRepeats = 3"

record NegotiatedParams =
  np_width :: u16
  np_height :: u16
  np_fps :: u8
  np_bitrateBps :: u32

datatype ScreenSessionEnd = EndHostBye | EndTimeout | EndRejected | EndConnectTimeout

datatype ClientEffect =
  ClSend bytes | ClReady NegotiatedParams | ClReconfig NegotiatedParams | ClRtt u32
  | ClDisconnect bytes ScreenSessionEnd | ClClipboardText bytes

datatype ClientState = ClientIdle | ClientHello | ClientStarting | ClientStreaming | ClientDead

record ScreenClientSession =
  cl_input :: InputSender
  cl_clip :: ClipboardSync
  cl_state :: ClientState
  cl_sessionId :: u32
  cl_hello :: Hello
  cl_params :: NegotiatedParams
  cl_startedUs :: u64
  cl_lastSentUs :: u64
  cl_lastRecvUs :: u64
  cl_lastPingUs :: u64
  cl_lastKeyframeReqUs :: u64
  cl_lastFocusUs :: u64
  cl_focusRepeatsLeft :: nat
  cl_focusWanted :: bool
  cl_focusSent :: bool
  cl_nextPingId :: u32
  cl_lastRttUs :: u32
  cl_keyframeWanted :: bool

type_synonym client_result = "ScreenClientSession \<times> ClientEffect list"

definition cl_init :: ScreenClientSession where
  "cl_init = \<lparr>cl_input = sn_init, cl_clip = cs_init, cl_state = ClientIdle, cl_sessionId = 0,
     cl_hello = \<lparr>hello_clientId = 0, hello_maxWidth = 0, hello_maxHeight = 0, hello_features = 0, hello_sourceId = 0, hello_clientName = []\<rparr>,
     cl_params = \<lparr>np_width = 0, np_height = 0, np_fps = 60, np_bitrateBps = 0\<rparr>, cl_startedUs = 0, cl_lastSentUs = 0,
     cl_lastRecvUs = 0, cl_lastPingUs = 0, cl_lastKeyframeReqUs = 0, cl_lastFocusUs = 0, cl_focusRepeatsLeft = 0,
     cl_focusWanted = False, cl_focusSent = False, cl_nextPingId = 1, cl_lastRttUs = 0, cl_keyframeWanted = False\<rparr>"

definition cl_Send :: "bytes \<Rightarrow> ClientEffect list" where
  "cl_Send m = (if m = [] then [] else [ClSend m])"

definition SendHello :: "ScreenClientSession \<Rightarrow> ClientEffect list" where
  "SendHello s = cl_Send (BuildHello kMaxDatagram (cl_hello s))"

definition SendStart :: "ScreenClientSession \<Rightarrow> ClientEffect list" where
  "SendStart s = cl_Send (BuildStart kMaxDatagram (cl_sessionId s))"

definition cl_Die :: "ScreenClientSession \<Rightarrow> bytes \<Rightarrow> ScreenSessionEnd \<Rightarrow> client_result" where
  "cl_Die s reason cause = (s\<lparr>cl_state := ClientDead\<rparr>, [ClDisconnect reason cause])"

definition cl_Start :: "ScreenClientSession \<Rightarrow> Hello \<Rightarrow> u64 \<Rightarrow> client_result" where
  "cl_Start s hello nowUs =
     (let s = s\<lparr>cl_hello := hello, cl_state := ClientHello, cl_startedUs := nowUs, cl_lastRecvUs := nowUs, cl_lastSentUs := nowUs\<rparr>
      in (s, SendHello s))"

text \<open>The cases of \<open>HandlePacket\<close>.\<close>

definition on_hello_ack :: "ScreenClientSession \<Rightarrow> HelloAck \<Rightarrow> u64 \<Rightarrow> bool \<times> client_result" where
  "on_hello_ack s m nowUs =
     (if cl_state s \<noteq> ClientHello then (True, s, [])
      else if ack_rejected m
      then (False, cl_Die s (if ack_reason m = RejectBusy then bytes_of ''the host already has as many viewers as it can take''
                             else bytes_of ''host rejected'') EndRejected)
      else let s = s\<lparr>cl_sessionId := ack_sessionId m, cl_clip := cs_ForgetReceived (cl_clip s),
                     cl_params := \<lparr>np_width = ack_width m, np_height = ack_height m, np_fps = ack_fps m, np_bitrateBps = ack_bitrateBps m\<rparr>,
                     cl_state := ClientStarting, cl_lastRecvUs := nowUs, cl_lastSentUs := nowUs\<rparr>
           in (True, s, ClReady (cl_params s) # SendStart s))"

definition on_pong :: "ScreenClientSession \<Rightarrow> PingPong \<Rightarrow> u64 \<Rightarrow> bool \<times> client_result" where
  "on_pong s m nowUs =
     (let rtt = ucast (nowUs - pp_sendTimeUs m); s = s\<lparr>cl_lastRecvUs := nowUs, cl_lastRttUs := rtt\<rparr> in (True, s, [ClRtt rtt]))"

definition on_reconfig :: "ScreenClientSession \<Rightarrow> Reconfig \<Rightarrow> u64 \<Rightarrow> bool \<times> client_result" where
  "on_reconfig s m nowUs =
     (let before = cl_params s;
          p = (if rc_fps m \<noteq> 0 then before\<lparr>np_fps := rc_fps m\<rparr> else before);
          p = (if rc_width m \<noteq> 0 \<and> rc_height m \<noteq> 0 then p\<lparr>np_width := rc_width m, np_height := rc_height m\<rparr> else p);
          p = (if rc_bitrateBps m \<noteq> 0 then p\<lparr>np_bitrateBps := rc_bitrateBps m\<rparr> else p);
          s = s\<lparr>cl_lastRecvUs := nowUs, cl_params := p\<rparr>
      in if p = before then (True, s, []) else (True, s, [ClReconfig p]))"

definition on_host_clipboard :: "ScreenClientSession \<Rightarrow> ClipboardChunkView \<Rightarrow> u64 \<Rightarrow> (bool \<times> client_result) checked" where
  "on_host_clipboard s chunk nowUs = do {
     (complete, clip) \<leftarrow> cs_Accept (cl_clip s) chunk;
     let (tx, clip) = (if complete then cs_TakeCompleted clip else (None, clip))
     in Some (True, s\<lparr>cl_lastRecvUs := nowUs, cl_clip := clip\<rparr>, case tx of None \<Rightarrow> [] | Some t \<Rightarrow> [ClClipboardText t])
   }"

definition cl_HandlePacket :: "ScreenClientSession \<Rightarrow> bytes \<Rightarrow> u64 \<Rightarrow> (bool \<times> client_result) checked" where
  "cl_HandlePacket s pkt nowUs = do {
     h \<leftarrow> ParseCommonHeader pkt;
     case h of None \<Rightarrow> Some (False, s, [])
     | Some h \<Rightarrow> do {
         payload \<leftarrow> PayloadOf pkt;
         let ours = (ch_sessionId h = cl_sessionId s \<and> cl_sessionId s \<noteq> 0);
             running = (cl_state s = ClientStarting \<or> cl_state s = ClientStreaming) in
         case ch_type h of
           MsgHelloAck \<Rightarrow> do {
             m \<leftarrow> ParseHelloAck payload;
             case m of None \<Rightarrow> Some (False, s, []) | Some m \<Rightarrow> Some (on_hello_ack s m nowUs)
           }
         | MsgPong \<Rightarrow>
             if cl_state s = ClientIdle \<or> cl_state s = ClientDead then Some (False, s, [])
             else if ch_sessionId h \<noteq> cl_sessionId s then Some (False, s, [])
             else do {
               m \<leftarrow> ParsePingPong payload;
               case m of None \<Rightarrow> Some (False, s, []) | Some m \<Rightarrow> Some (on_pong s m nowUs)
             }
         | MsgReconfig \<Rightarrow>
             if \<not> ours \<or> \<not> running then Some (False, s, [])
             else do {
               m \<leftarrow> ParseReconfig payload;
               case m of None \<Rightarrow> Some (False, s, []) | Some m \<Rightarrow> Some (on_reconfig s m nowUs)
             }
         | MsgBye \<Rightarrow>
             if \<not> ours then Some (False, s, [])
             else Some (False, cl_Die s (bytes_of ''host ended the session (BYE)'') EndHostBye)
         | MsgClipboard \<Rightarrow>
             if \<not> ours \<or> \<not> running then Some (False, s, [])
             else do {
               chunk \<leftarrow> ParseClipboardChunk payload;
               case chunk of None \<Rightarrow> Some (False, s, []) | Some chunk \<Rightarrow> on_host_clipboard s chunk nowUs
             }
         | _ \<Rightarrow> Some (False, s, [])
       }
   }"

definition NotifyVideoPacket :: "ScreenClientSession \<Rightarrow> u64 \<Rightarrow> ScreenClientSession" where
  "NotifyVideoPacket s nowUs =
     (let s = (if cl_state s = ClientStarting then s\<lparr>cl_state := ClientStreaming\<rparr> else s)
      in if cl_state s = ClientStreaming then s\<lparr>cl_lastRecvUs := nowUs\<rparr> else s)"

definition cl_QueueInput :: "ScreenClientSession \<Rightarrow> InputEvent \<Rightarrow> ScreenClientSession" where
  "cl_QueueInput s e =
     (if cl_state s \<noteq> ClientStreaming then s
      else s\<lparr>cl_input := sn_Queue (sn_SetSessionId (cl_input s) (cl_sessionId s)) e\<rparr>)"

definition cl_QueueClipboard :: "ScreenClientSession \<Rightarrow> bytes \<Rightarrow> ScreenClientSession" where
  "cl_QueueClipboard s tx =
     (if cl_state s \<noteq> ClientStreaming then s
      else s\<lparr>cl_clip := snd (cs_OfferLocal (cs_SetSessionId (cl_clip s) (cl_sessionId s)) tx)\<rparr>)"

definition SetFocused :: "ScreenClientSession \<Rightarrow> bool \<Rightarrow> ScreenClientSession" where
  "SetFocused s on =
     (if cl_focusWanted s = on \<and> cl_focusSent s = on then s
      else s\<lparr>cl_focusWanted := on, cl_focusRepeatsLeft := kFocusRepeats, cl_lastFocusUs := 0\<rparr>)"

definition cl_RequestKeyframe :: "ScreenClientSession \<Rightarrow> ScreenClientSession" where
  "cl_RequestKeyframe s = s\<lparr>cl_keyframeWanted := True\<rparr>"

definition CancelKeyframeRequest :: "ScreenClientSession \<Rightarrow> ScreenClientSession" where
  "CancelKeyframeRequest s = s\<lparr>cl_keyframeWanted := False\<rparr>"

text \<open>What \<open>Tick\<close> does once the host is known to be there: ping, focus, input and clipboard, keyframe.\<close>

definition tick_ping :: "ScreenClientSession \<Rightarrow> u64 \<Rightarrow> client_result" where
  "tick_ping s nowUs =
     (if nowUs - cl_lastPingUs s \<ge> kPingIntervalUs
      then (s\<lparr>cl_lastPingUs := nowUs, cl_nextPingId := cl_nextPingId s + 1\<rparr>,
            cl_Send (BuildPing kMaxDatagram (cl_sessionId s) \<lparr>pp_pingId = cl_nextPingId s, pp_sendTimeUs = nowUs\<rparr>))
      else (s, []))"

definition tick_focus :: "ScreenClientSession \<Rightarrow> u64 \<Rightarrow> client_result" where
  "tick_focus s nowUs =
     (if cl_state s = ClientStreaming \<and> cl_focusRepeatsLeft s > 0 \<and> nowUs - cl_lastFocusUs s \<ge> kFocusRetryUs
      then (s\<lparr>cl_lastFocusUs := nowUs, cl_focusRepeatsLeft := cl_focusRepeatsLeft s - 1, cl_focusSent := cl_focusWanted s\<rparr>,
            cl_Send (BuildSetFocus kMaxDatagram (cl_sessionId s) (cl_focusWanted s)))
      else (s, []))"

definition tick_flush :: "ScreenClientSession \<Rightarrow> u64 \<Rightarrow> client_result checked" where
  "tick_flush s nowUs =
     (if cl_state s = ClientStreaming then do {
        (input, ds) \<leftarrow> sn_Flush (cl_input s) nowUs True;
        let (clip, cs) = cs_Flush (cl_clip s) nowUs True
        in Some (s\<lparr>cl_input := input, cl_clip := clip\<rparr>, map ClSend ds @ map ClSend cs)
      }
      else Some (s, []))"

definition tick_keyframe :: "ScreenClientSession \<Rightarrow> u64 \<Rightarrow> client_result" where
  "tick_keyframe s nowUs =
     (if cl_keyframeWanted s \<and> cl_state s = ClientStreaming \<and> nowUs - cl_lastKeyframeReqUs s \<ge> kKeyframeRetryUs
      then (s\<lparr>cl_lastKeyframeReqUs := nowUs\<rparr>, cl_Send (BuildRequestKeyframe kMaxDatagram (cl_sessionId s)))
      else (s, []))"

definition tick_running :: "ScreenClientSession \<Rightarrow> u64 \<Rightarrow> client_result checked" where
  "tick_running s nowUs =
     (if nowUs - cl_lastRecvUs s > kSessionTimeoutUs
      then Some (cl_Die s (bytes_of ''lost contact with host (timeout)'') EndTimeout)
      else
        let (s, pings) = tick_ping s nowUs; (s, focus) = tick_focus s nowUs in do {
          (s, flushed) \<leftarrow> tick_flush s nowUs;
          let (s, keyframe) = tick_keyframe s nowUs in Some (s, pings @ focus @ flushed @ keyframe)
        })"

definition cl_Tick :: "ScreenClientSession \<Rightarrow> u64 \<Rightarrow> client_result checked" where
  "cl_Tick s nowUs =
     (case cl_state s of
        ClientIdle \<Rightarrow> Some (s, [])
      | ClientDead \<Rightarrow> Some (s, [])
      | ClientHello \<Rightarrow>
          if nowUs - cl_startedUs s > kHelloGiveUpUs
          then Some (cl_Die s (bytes_of ''could not connect (timed out)'') EndConnectTimeout)
          else if nowUs - cl_lastSentUs s \<ge> kHelloRetryUs
          then let s = s\<lparr>cl_lastSentUs := nowUs\<rparr> in Some (s, SendHello s)
          else Some (s, [])
      | ClientStarting \<Rightarrow>
          let (s, again) = (if nowUs - cl_lastSentUs s \<ge> kHelloRetryUs
                then let s = s\<lparr>cl_lastSentUs := nowUs\<rparr> in (s, SendStart s) else (s, [])) in do {
            (s, out) \<leftarrow> tick_running s nowUs;
            Some (s, again @ out)
          }
      | ClientStreaming \<Rightarrow> tick_running s nowUs)"

definition SendFeedback :: "ScreenClientSession \<Rightarrow> Feedback \<Rightarrow> ClientEffect list" where
  "SendFeedback s fb = (if cl_state s \<noteq> ClientStreaming then [] else cl_Send (BuildFeedback kMaxDatagram (cl_sessionId s) fb))"

definition SendNack :: "ScreenClientSession \<Rightarrow> u32 \<Rightarrow> u16 list \<Rightarrow> ClientEffect list" where
  "SendNack s frameId indices =
     (if cl_state s \<noteq> ClientStreaming \<or> indices = [] then []
      else cl_Send (BuildNack kMaxDatagram (cl_sessionId s) frameId indices))"

definition SendInvalidateRef :: "ScreenClientSession \<Rightarrow> u32 \<Rightarrow> ClientEffect list" where
  "SendInvalidateRef s frameId =
     (if cl_state s \<noteq> ClientStreaming then [] else cl_Send (BuildInvalidateRef kMaxDatagram (cl_sessionId s) frameId))"

definition SendBye :: "ScreenClientSession \<Rightarrow> client_result" where
  "SendBye s =
     (s\<lparr>cl_state := ClientDead\<rparr>,
      if cl_state s = ClientStarting \<or> cl_state s = ClientStreaming then cl_Send (BuildBye kMaxDatagram (cl_sessionId s)) else [])"

end
