(* ===== verification/ScreenLink.thy ===== *)
theory ScreenLink
  imports HostSafety ClientSession
begin

text \<open>
  Both sides of a shared screen together: how a viewer is connected or refused, who may drive, and
  who is dropped for silence.
\<close>

section \<open>The messages as they arrive\<close>

lemma message_read:
  assumes "parse_with (\<lambda>_. parse) m = some_opt (hdr t 0 c i, x)"
  shows "\<exists>p. PayloadOf m = Some p \<and> parse p = some_opt x \<and> ParseCommonHeader m = some_opt (hdr t 0 c i)"
  using assms by (auto simp: parse_with_def bind_eq_Some_conv split: option.splits)

lemma empty_read:
  assumes "t \<in> set named_MsgTypes"
  shows "\<exists>p. PayloadOf (BuildEmpty kMaxDatagram t i) = Some p \<and> ParseCommonHeader (BuildEmpty kMaxDatagram t i) = some_opt (hdr t 0 ChanControl i)"
    "BuildEmpty kMaxDatagram t i \<noteq> []"
proof -
  have eq: "BuildEmpty kMaxDatagram t i = finish (WriteCommon kMaxDatagram t 0 ChanControl i 0) []"
    by (auto simp: BuildEmpty_def finish_def)
  show ne: "BuildEmpty kMaxDatagram t i \<noteq> []" by (simp add: BuildEmpty_def WriteCommon_def kconsts)
  then have "finish (WriteCommon kMaxDatagram t 0 ChanControl i 0) [] \<noteq> []" using eq by simp
  then show "\<exists>p. PayloadOf (BuildEmpty kMaxDatagram t i) = Some p \<and> ParseCommonHeader (BuildEmpty kMaxDatagram t i) = some_opt (hdr t 0 ChanControl i)"
    unfolding eq using payload_of_finish header_of_finish assms by auto
qed

abbreviation hello_shown :: "Hello \<Rightarrow> Hello" where
  "hello_shown m \<equiv> m\<lparr>hello_clientName := shown_name kMaxClientNameBytes (hello_clientName m)\<rparr>"

lemma BuildHello_sent: "BuildHello kMaxDatagram m \<noteq> []"
proof -
  have "Utf8TruncLen (hello_clientName m) kMaxClientNameBytes \<le> kMaxClientNameBytes" by (rule Utf8TruncLen_le)
  then show ?thesis by (auto simp: BuildHello_def Let_def WriteCommon_def finish_def kconsts)
qed

lemma hello_read:
  "\<exists>p. PayloadOf (BuildHello kMaxDatagram m) = Some p \<and> ParseHello p = some_opt (hello_shown m)
    \<and> ParseCommonHeader (BuildHello kMaxDatagram m) = some_opt (hdr MsgHello 0 ChanControl 0)"
  using message_read [OF Hello_roundtrip [OF BuildHello_sent]] by simp

lemma ack_read:
  assumes "ack_reason m = RejectNone \<or> ack_reason m = RejectBusy"
  shows "\<exists>p. PayloadOf (BuildHelloAck kMaxDatagram m) = Some p \<and> ParseHelloAck p = some_opt m
    \<and> ParseCommonHeader (BuildHelloAck kMaxDatagram m) = some_opt (hdr MsgHelloAck 0 ChanControl 0)"
    "BuildHelloAck kMaxDatagram m \<noteq> []"
proof -
  show ne: "BuildHelloAck kMaxDatagram m \<noteq> []" by (auto simp: BuildHelloAck_def WriteCommon_def finish_def kconsts)
  have "RejectReason_code (ack_reason m) \<le> 1" "RejectReason_of (RejectReason_code (ack_reason m)) = ack_reason m"
    using assms by (auto simp: RejectReason_of_def)
  then show "\<exists>p. PayloadOf (BuildHelloAck kMaxDatagram m) = Some p \<and> ParseHelloAck p = some_opt m
    \<and> ParseCommonHeader (BuildHelloAck kMaxDatagram m) = some_opt (hdr MsgHelloAck 0 ChanControl 0)"
    using message_read [OF HelloAck_roundtrip [OF ne]] by simp
qed

section \<open>Admission\<close>

text \<open>There is room for one more viewer.\<close>

definition has_room :: "ViewerTable \<Rightarrow> bool" where
  "has_room t \<longleftrightarrow> vt_count t < kMaxViewersPerSource \<and> (\<forall>b. vt_budget t = Some b \<longrightarrow> b < of_nat kMaxViewersPerHost)"

lemma Admit_room:
  assumes inv: "vt_inv t" and a: "a \<noteq> 0"
  shows "(\<exists>i. fst (vt_Admit t c a now n) = Some i) \<longleftrightarrow> has_room t"
proof -
  have "first_slot (\<lambda>s. \<not> vs_active s) t = None \<longleftrightarrow> \<not> vt_count t < kMaxViewersPerSource"
  proof -
    have sub: "active_slots t \<subseteq> {..<length (vt_slots t)}" by (auto simp: active_slots_def)
    have "first_slot (\<lambda>s. \<not> vs_active s) t = None \<longleftrightarrow> active_slots t = {..<length (vt_slots t)}"
      unfolding first_slot_None by (auto simp: active_slots_def)
    also have "\<dots> \<longleftrightarrow> \<not> vt_count t < kMaxViewersPerSource"
    proof
      assume "active_slots t = {..<length (vt_slots t)}"
      then have "card (active_slots t) = length (vt_slots t)" by (metis card_lessThan)
      then show "\<not> vt_count t < kMaxViewersPerSource" using count_active [OF inv] by simp
    next
      assume "\<not> vt_count t < kMaxViewersPerSource"
      then have "card {..<length (vt_slots t)} \<le> card (active_slots t)" using count_active [OF inv] by simp
      then show "active_slots t = {..<length (vt_slots t)}" by (intro card_seteq [OF _ sub]) simp_all
    qed
    finally show ?thesis .
  qed
  then show ?thesis using a by (cases "first_slot (\<lambda>s. \<not> vs_active s) t")
    (auto simp: vt_Admit_def has_room_def TryTake_def Let_def split: option.splits)
qed

definition offered :: "ScreenHostSession \<Rightarrow> NegotiatedParams" where
  "offered s = \<lparr>np_width = sp_width (hs_offer s), np_height = sp_height (hs_offer s), np_fps = sp_fps (hs_offer s), np_bitrateBps = sp_bitrateBps (hs_offer s)\<rparr>"

abbreviation greeting :: "ScreenHostSession \<Rightarrow> bytes" where
  "greeting s \<equiv> BuildHelloAck kMaxDatagram
     \<lparr>ack_sessionId = hs_sessionId s, ack_width = sp_width (hs_offer s), ack_height = sp_height (hs_offer s),
      ack_fps = sp_fps (hs_offer s), ack_bitrateBps = sp_bitrateBps (hs_offer s), ack_rejected = False, ack_reason = RejectNone\<rparr>"

lemma SendHelloAck_eq: "SendHelloAck s = [HsSend (greeting s)]"
  using ack_read(2) by (simp add: SendHelloAck_def hs_Send_def)

text \<open>A new viewer: the greeting's effect on a session that has room, and on one that has not.\<close>

lemma new_viewer:
  assumes inv: "hs_inv s" and a: "a \<noteq> 0" "vt_Find (hs_viewers s) a = None" "vt_FindByClient (hs_viewers s) (hello_clientId m) = None"
    and room: "has_room (hs_viewers s)" and id: "vt_count (hs_viewers s) = 0 \<longrightarrow> fst (BeginSession random s)"
  shows "\<exists>s1 out i. hs_HandlePacket random s (BuildHello kMaxDatagram m) now a = Some (True, s1, out @ [HsSend (greeting s1)])
    \<and> hs_inv s1 \<and> hs_sessionId s1 \<noteq> 0 \<and> hs_offer s1 = hs_offer s \<and> i \<in> active_slots (hs_viewers s1)
    \<and> vt_count (hs_viewers s1) = Suc (vt_count (hs_viewers s))
    \<and> vs_addrPacked (hs_slot s1 i) = a \<and> vs_clientId (hs_slot s1 i) = hello_clientId m \<and> \<not> vs_started (hs_slot s1 i)
    \<and> vs_name (hs_slot s1 i) = hello_clientName (hello_shown m) \<and> vs_lastRecvUs (hs_slot s1 i) = now"
proof -
  let ?m = "hello_shown m"
  obtain p where p: "PayloadOf (BuildHello kMaxDatagram m) = Some p" "ParseHello p = some_opt ?m"
    "ParseCommonHeader (BuildHello kMaxDatagram m) = some_opt (hdr MsgHello 0 ChanControl 0)" using hello_read by blast
  obtain ok s0 begun where begin': "(if vt_empty (hs_viewers s) then BeginSession random s else (True, s, [])) = (ok, s0, begun)"
    by (cases "if vt_empty (hs_viewers s) then BeginSession random s else (True, s, [])") auto
  have s0: "ok" "hs_viewers s0 = hs_viewers s" "hs_sessionId s0 \<noteq> 0" "hs_offer s0 = hs_offer s"
  proof -
    have "ok \<and> hs_viewers s0 = hs_viewers s \<and> hs_sessionId s0 \<noteq> 0 \<and> hs_offer s0 = hs_offer s"
    proof (cases "vt_empty (hs_viewers s)")
      case True
      then have b: "BeginSession random s = (ok, s0, begun)" using begin' by simp
      moreover from this have ok using id True by (simp add: vt_empty_def)
      moreover have "hs_offer s0 = hs_offer s" using b by (auto simp: BeginSession_def Let_def split: if_splits)
      ultimately show ?thesis using BeginSession_cases [OF b] by simp
    next
      case False
      then show ?thesis using begin' inv by (auto simp: hs_inv_def vt_empty_def)
    qed
    then show "ok" "hs_viewers s0 = hs_viewers s" "hs_sessionId s0 \<noteq> 0" "hs_offer s0 = hs_offer s" by simp_all
  qed
  have t: "vt_inv (hs_viewers s)" using inv by (simp add: hs_inv_def)
  obtain r t' where admit: "vt_Admit (hs_viewers s0) (hello_clientId ?m) a now (hello_clientName ?m) = (r, t')" by fastforce
  then obtain i where r: "r = Some i" using Admit_room [OF t a(1), of "hello_clientId ?m" now "hello_clientName ?m"] room s0(2) by auto
  have new: "\<forall>i\<in>active_slots (hs_viewers s). vs_addrPacked (hs_slot s i) \<noteq> a \<and> vs_clientId (hs_slot s i) \<noteq> hello_clientId ?m"
    using Find_viewer_None [OF a(2,1)] FindByClient_None [OF a(3)] by simp
  note ad = Admit_inv [OF t new a(1) admit [unfolded s0(2)]]
  let ?t = "vt_SetWantsAudio t' i (wants_audio ?m)"
  let ?s = "RefreshState (s0\<lparr>hs_viewers := ?t\<rparr>)"
  have i: "i \<in> active_slots t'" "vt_inv t'" "vt_count t' = Suc (vt_count (hs_viewers s))" "vt_slots t' ! i = admitted (hs_viewers s) (hello_clientId ?m) a now (hello_clientName ?m)"
    using ad r by simp_all
  note au = SetWantsAudio_inv [OF i(2,1), of "wants_audio ?m"]
  have fields: "hs_sessionId ?s = hs_sessionId s0" "hs_offer ?s = hs_offer s" "hs_viewers ?s = ?t" by (simp_all add: RefreshState_def s0)
  obtain out where g: "greet_new random s ?m now a = (True, ?s, out @ [HsSend (greeting ?s)])"
    using begin' admit s0(1) r by (simp add: greet_new_def Let_def SendHelloAck_eq)
  have "hs_keeps s ?s" by (rule greet_new_keeps [OF inv a(1) new g])
  moreover have "hs_HandlePacket random s (BuildHello kMaxDatagram m) now a = Some (True, ?s, out @ [HsSend (greeting ?s)])"
    using p a g by (simp add: hs_HandlePacket_def HandleHello_def)
  moreover have "vs_addrPacked (hs_slot ?s i) = a \<and> vs_clientId (hs_slot ?s i) = hello_clientId m \<and> \<not> vs_started (hs_slot ?s i)
    \<and> vs_name (hs_slot ?s i) = hello_clientName ?m \<and> vs_lastRecvUs (hs_slot ?s i) = now"
    using active_lt [OF i(1)] by (simp add: fields au(3) i(4) admitted_def)
  ultimately show ?thesis using fields s0(3) i(1,3) au(2) by (intro exI [of _ ?s] exI [of _ out] exI [of _ i]) (simp add: hs_keeps_def)
qed

lemma known_viewer:
  assumes inv: "hs_inv s" and i: "i \<in> active_slots (hs_viewers s)" "vs_addrPacked (hs_slot s i) = a" "vs_clientId (hs_slot s i) = hello_clientId m"
  shows "\<exists>s1. hs_HandlePacket random s (BuildHello kMaxDatagram m) now a = Some (True, s1, [HsSend (greeting s)])
    \<and> vt_count (hs_viewers s1) = vt_count (hs_viewers s) \<and> hs_inv s1"
proof -
  obtain p where p: "PayloadOf (BuildHello kMaxDatagram m) = Some p" "ParseHello p = some_opt (hello_shown m)"
    "ParseCommonHeader (BuildHello kMaxDatagram m) = some_opt (hdr MsgHello 0 ChanControl 0)" using hello_read by blast
  have a: "a \<noteq> 0" using viewer_fields [OF inv i(1)] i(2) by simp
  have apart: "j = i" if "j \<in> active_slots (hs_viewers s)" "vs_addrPacked (hs_slot s j) = a" for j
    using inv i that unfolding hs_inv_def vt_inv_def slots_apart_def by metis
  have find: "vt_Find (hs_viewers s) a = Some i"
  proof (cases "vt_Find (hs_viewers s) a")
    case None
    then show ?thesis using Find_viewer_None [OF None a i(1)] i(2) by simp
  next
    case (Some j)
    then show ?thesis using Find_viewer_Some [OF Some] apart by simp
  qed
  obtain s1 out where g: "greet_known s i (hello_shown m) now a = (s1, out)" by (cases "greet_known s i (hello_shown m) now a")
  have "hs_keeps s s1 \<and> vt_count (hs_viewers s1) = vt_count (hs_viewers s)"
    by (rule greet_known_keeps [OF inv i(1) a _ g]) (use apart in auto)
  moreover have "out = [HsSend (greeting s)]"
    using g by (auto simp: greet_known_def Let_def SendHelloAck_eq set_slot_def)
  ultimately show ?thesis using p a find i(3) g by (simp add: hs_HandlePacket_def HandleHello_def hs_keeps_def)
qed


lemma full_host:
  assumes inv: "hs_inv s" and a: "a \<noteq> 0" "vt_Find (hs_viewers s) a = None" "vt_FindByClient (hs_viewers s) (hello_clientId m) = None"
    and room: "\<not> has_room (hs_viewers s)" and id: "vt_count (hs_viewers s) = 0 \<longrightarrow> fst (BeginSession random s)"
  shows "\<exists>s1. hs_HandlePacket random s (BuildHello kMaxDatagram m) now a = Some (False, s1, SendReject RejectBusy)
    \<and> hs_viewers s1 = hs_viewers s \<and> hs_state s1 = hs_state s"
proof -
  let ?m = "hello_shown m"
  obtain p where p: "PayloadOf (BuildHello kMaxDatagram m) = Some p" "ParseHello p = some_opt ?m"
    "ParseCommonHeader (BuildHello kMaxDatagram m) = some_opt (hdr MsgHello 0 ChanControl 0)" using hello_read by blast
  obtain ok s0 begun where begin': "(if vt_empty (hs_viewers s) then BeginSession random s else (True, s, [])) = (ok, s0, begun)"
    by (cases "if vt_empty (hs_viewers s) then BeginSession random s else (True, s, [])") auto
  have s0: "ok \<and> hs_viewers s0 = hs_viewers s \<and> hs_state s0 = hs_state s \<and> begun = []"
  proof (cases "vt_empty (hs_viewers s)")
    case True
    then have b: "BeginSession random s = (ok, s0, begun)" using begin' by simp
    moreover from this have ok using id True by (simp add: vt_empty_def)
    ultimately show ?thesis using BeginSession_cases [OF b] by simp
  next
    case False
    then show ?thesis using begin' by auto
  qed
  have t: "vt_inv (hs_viewers s)" using inv by (simp add: hs_inv_def)
  obtain r t' where admit: "vt_Admit (hs_viewers s0) (hello_clientId ?m) a now (hello_clientName ?m) = (r, t')" by fastforce
  then have r: "r = None"
    using Admit_room [OF t a(1), of "hello_clientId ?m" now "hello_clientName ?m"] room s0 by (cases r) auto
  have new: "\<forall>i\<in>active_slots (hs_viewers s). vs_addrPacked (hs_slot s i) \<noteq> a \<and> vs_clientId (hs_slot s i) \<noteq> hello_clientId ?m"
    using Find_viewer_None [OF a(2,1)] FindByClient_None [OF a(3)] by simp
  have "t' = hs_viewers s" using Admit_inv [OF t new a(1)] admit s0 r by fastforce
  then have "greet_new random s ?m now a = (False, s0\<lparr>hs_viewers := hs_viewers s\<rparr>, SendReject RejectBusy)"
    using begin' admit s0 r by (simp add: greet_new_def Let_def)
  then show ?thesis using p a s0 by (intro exI [of _ "s0\<lparr>hs_viewers := hs_viewers s\<rparr>"]) (simp add: hs_HandlePacket_def HandleHello_def)
qed

section \<open>The client's answer\<close>

lemma client_accepts:
  assumes c: "cl_state c = ClientHello" and m: "\<not> ack_rejected m" "ack_reason m = RejectNone"
  shows "\<exists>c1. cl_HandlePacket c (BuildHelloAck kMaxDatagram m) now = Some (True, c1,
      [ClReady \<lparr>np_width = ack_width m, np_height = ack_height m, np_fps = ack_fps m, np_bitrateBps = ack_bitrateBps m\<rparr>,
       ClSend (BuildStart kMaxDatagram (ack_sessionId m))])
    \<and> cl_state c1 = ClientStarting \<and> cl_sessionId c1 = ack_sessionId m"
proof -
  obtain p where "PayloadOf (BuildHelloAck kMaxDatagram m) = Some p" "ParseHelloAck p = some_opt m"
    "ParseCommonHeader (BuildHelloAck kMaxDatagram m) = some_opt (hdr MsgHelloAck 0 ChanControl 0)" using ack_read(1) m(2) by blast
  then show ?thesis using c m empty_read(2) [of MsgStart]
    by (simp add: cl_HandlePacket_def on_hello_ack_def SendStart_def cl_Send_def BuildStart_def Let_def)
qed

lemma client_refused:
  assumes c: "cl_state c = ClientHello"
  shows "\<exists>msg c1. SendReject RejectBusy = [HsSend msg] \<and> cl_HandlePacket c msg now
    = Some (False, c1, [ClDisconnect (bytes_of ''the host already has as many viewers as it can take'') EndRejected]) \<and> cl_state c1 = ClientDead"
proof -
  let ?m = "\<lparr>ack_sessionId = 0, ack_width = 0, ack_height = 0, ack_fps = 0, ack_bitrateBps = 0, ack_rejected = True, ack_reason = RejectBusy\<rparr>"
  obtain p where "PayloadOf (BuildHelloAck kMaxDatagram ?m) = Some p" "ParseHelloAck p = some_opt ?m"
    "ParseCommonHeader (BuildHelloAck kMaxDatagram ?m) = some_opt (hdr MsgHelloAck 0 ChanControl 0)" using ack_read(1) [of ?m] by auto
  then show ?thesis using c ack_read(2) [of ?m]
    by (simp add: cl_HandlePacket_def on_hello_ack_def cl_Die_def SendReject_def hs_Send_def Let_def)
qed

lemma start_streams:
  assumes inv: "hs_inv s" and i: "i \<in> active_slots (hs_viewers s)" "\<not> vs_started (hs_slot s i)" "vs_addrPacked (hs_slot s i) = a"
  shows "\<exists>s1. hs_HandlePacket random s (BuildStart kMaxDatagram (hs_sessionId s)) now a
      = Some (True, s1, [if hs_state s = HostStreaming then HsKeyframeRequest else HsStart])
    \<and> hs_state s1 = HostStreaming \<and> vs_started (hs_slot s1 i) \<and> hs_sessionId s1 = hs_sessionId s
    \<and> vt_published (hs_viewers s1) = vt_published (hs_viewers s) \<and> vt_count (hs_viewers s1) = vt_count (hs_viewers s)"
proof -
  obtain p where p: "PayloadOf (BuildStart kMaxDatagram (hs_sessionId s)) = Some p"
    "ParseCommonHeader (BuildStart kMaxDatagram (hs_sessionId s)) = some_opt (hdr MsgStart 0 ChanControl (hs_sessionId s))"
    using empty_read(1) [of MsgStart] by (auto simp: BuildStart_def)
  have sid: "InSession s (hs_sessionId s)" using inv_session [OF inv i(1)] by (simp add: InSession_def)
  have find: "vt_Find (hs_viewers s) a = Some i"
  proof (cases "vt_Find (hs_viewers s) a")
    case None
    then show ?thesis using Find_viewer_None [OF None _ i(1)] i(3) viewer_fields [OF inv i(1)] by simp
  next
    case (Some j)
    then show ?thesis using Find_viewer_Some [OF Some] inv i unfolding hs_inv_def vt_inv_def slots_apart_def by metis
  qed
  have len: "i < length (vt_slots (hs_viewers s))" using i(1) by (rule active_lt)
  let ?s = "set_slot s i ((hs_slot s i)\<lparr>vs_lastRecvUs := now\<rparr>)"
  let ?s1 = "(set_slot ?s i ((hs_slot ?s i)\<lparr>vs_started := True\<rparr>))\<lparr>hs_state := HostStreaming\<rparr>"
  have "on_start ?s i = (True, ?s1, [if hs_state s = HostStreaming then HsKeyframeRequest else HsStart])"
    using i(2) len by (simp add: on_start_def set_slot_def Let_def)
  then have "hs_HandlePacket random s (BuildStart kMaxDatagram (hs_sessionId s)) now a
      = Some (True, ?s1, [if hs_state s = HostStreaming then HsKeyframeRequest else HsStart])"
    using p sid find by (simp add: hs_HandlePacket_def HandleFromViewer_def)
  then show ?thesis using len by (intro exI [of _ ?s1]) (simp add: set_slot_def)
qed

section \<open>Silence\<close>

lemma Drop_exact:
  assumes inv: "hs_inv s" and i: "i \<in> active_slots (hs_viewers s)" and drop: "DropViewer s i = (s', out)"
  shows "hs_inv s' \<and> active_slots (hs_viewers s') = active_slots (hs_viewers s) - {i}
    \<and> (\<forall>j\<in>active_slots (hs_viewers s'). hs_slot s' j = hs_slot s j)"
proof -
  have t: "vt_inv (hs_viewers s)" "hs_sessionId s \<noteq> 0" using inv_session [OF inv i] by simp_all
  note k = DropViewer_keeps [OF t i drop]
  note d = Drop_inv [OF t(1) i]
  have "active_slots (hs_viewers s') = active_slots (hs_viewers s) - {i}"
  proof (cases "vt_empty (vt_Drop (hs_viewers s) i)")
    case True
    then have "card (active_slots (vt_Drop (hs_viewers s) i)) = 0" using count_active(1) [OF d(1)] by (simp add: vt_empty_def)
    then have "active_slots (hs_viewers s) - {i} = {}" using d(2) by simp
    then show ?thesis using k by auto
  next
    case False
    then have "hs_viewers s' = vt_Drop (hs_viewers s) i"
      using drop by (auto simp: DropViewer_def HandOverControl_def RefreshState_def Let_def split: if_splits prod.splits)
    then show ?thesis using d(2) by simp
  qed
  then show ?thesis using k by (auto simp: hs_keeps_def)
qed

definition silent :: "u64 \<Rightarrow> ViewerSlot \<Rightarrow> bool" where
  "silent now v \<longleftrightarrow> now - vs_lastRecvUs v > kSessionTimeoutUs"

lemma drop_silent_exact:
  assumes "hs_inv s" "distinct is" "set is \<subseteq> {..<length (vt_slots (hs_viewers s))}"
  shows "hs_inv (fst (drop_silent now is s))
    \<and> active_slots (hs_viewers (fst (drop_silent now is s))) = active_slots (hs_viewers s) - {i \<in> set is. silent now (hs_slot s i)}
    \<and> (\<forall>j\<in>active_slots (hs_viewers (fst (drop_silent now is s))). hs_slot (fst (drop_silent now is s)) j = hs_slot s j)"
  using assms
proof (induction "is" arbitrary: s)
  case (Cons i "is")
  show ?case
  proof (cases "vs_active (hs_slot s i) \<and> silent now (hs_slot s i)")
    case True
    obtain s1 out1 where drop: "DropViewer s i = (s1, out1)" by (cases "DropViewer s i")
    have i: "i \<in> active_slots (hs_viewers s)" using True Cons.prems(3) by (simp add: active_slots_def)
    note k = Drop_exact [OF Cons.prems(1) i drop]
    have len: "length (vt_slots (hs_viewers s1)) = length (vt_slots (hs_viewers s))"
      using k Cons.prems(1) count_active(2) by (simp add: hs_inv_def)
    have eq: "fst (drop_silent now (i # is) s) = fst (drop_silent now is s1)"
      using True drop by (simp add: silent_def case_prod_unfold Let_def)
    have IH: "hs_inv (fst (drop_silent now is s1))
      \<and> active_slots (hs_viewers (fst (drop_silent now is s1))) = active_slots (hs_viewers s1) - {j \<in> set is. silent now (hs_slot s1 j)}
      \<and> (\<forall>j\<in>active_slots (hs_viewers (fst (drop_silent now is s1))). hs_slot (fst (drop_silent now is s1)) j = hs_slot s1 j)"
      by (rule Cons.IH) (use k Cons.prems len in auto)
    have "active_slots (hs_viewers s1) - {j \<in> set is. silent now (hs_slot s1 j)}
        = active_slots (hs_viewers s) - {j \<in> set (i # is). silent now (hs_slot s j)}"
    proof (rule set_eqI)
      fix x
      show "x \<in> active_slots (hs_viewers s1) - {j \<in> set is. silent now (hs_slot s1 j)}
        \<longleftrightarrow> x \<in> active_slots (hs_viewers s) - {j \<in> set (i # is). silent now (hs_slot s j)}"
        using k True by (cases "x = i") auto
    qed
    then show ?thesis using IH k unfolding eq by auto
  next
    case False
    then have eq: "drop_silent now (i # is) s = drop_silent now is s" by (auto simp: silent_def)
    have "active_slots (hs_viewers s) - {j \<in> set is. silent now (hs_slot s j)}
        = active_slots (hs_viewers s) - {j \<in> set (i # is). silent now (hs_slot s j)}"
      using False by (auto simp: active_slots_def)
    then show ?thesis using Cons unfolding eq by auto
  qed
qed simp

lemma Tick_exact:
  assumes inv: "hs_inv s" and tick: "hs_Tick s now = (s', out)"
  shows "active_slots (hs_viewers s') = {i \<in> active_slots (hs_viewers s). \<not> silent now (hs_slot s i)}
    \<and> (\<forall>j\<in>active_slots (hs_viewers s'). hs_slot s' j = hs_slot s j)"
proof (cases "hs_state s = HostIdle")
  case True
  then have "vt_count (hs_viewers s) = 0" using inv by (auto simp: hs_inv_def split: if_splits)
  then have "active_slots (hs_viewers s) = {}" using inv count_active(1) by (simp add: hs_inv_def)
  then show ?thesis using tick True by (simp add: hs_Tick_def)
next
  case False
  let ?is = "[0..<length (vt_slots (hs_viewers s))]"
  obtain s1 out1 where one: "drop_silent now ?is s = (s1, out1)" by (cases "drop_silent now ?is s")
  have sub: "set ?is \<subseteq> {..<length (vt_slots (hs_viewers s))}" by auto
  have d: "hs_inv s1" "active_slots (hs_viewers s1) = active_slots (hs_viewers s) - {i \<in> set ?is. silent now (hs_slot s i)}"
    "\<forall>j\<in>active_slots (hs_viewers s1). hs_slot s1 j = hs_slot s j"
    using drop_silent_exact [OF inv distinct_upt sub, of now] unfolding one fst_conv by blast+
  obtain out2 where two: "ReportFeedbackIfDue s1 now = (s', out2)" using tick False one by (auto simp: hs_Tick_def split: prod.splits)
  have same: "hs_viewers s' = hs_viewers s1" using Report_keeps [OF d(1) two] by simp
  have "active_slots (hs_viewers s) \<subseteq> set ?is" by (auto simp: active_slots_def)
  then have "active_slots (hs_viewers s) - {i \<in> set ?is. silent now (hs_slot s i)} = {i \<in> active_slots (hs_viewers s). \<not> silent now (hs_slot s i)}"
    by blast
  then show ?thesis unfolding same using d(2,3) by simp
qed

section \<open>Who drives\<close>

lemma HandleHello_effects:
  assumes "HandleHello random s p now a = Some (ok, s', out)"
  shows "\<exists>dropped rest. out = dropped @ rest \<and> (dropped = [] \<or> (\<exists>i. dropped = snd (DropViewer s i)))
    \<and> (rest = [] \<or> (\<exists>s1 i m. rest = snd (greet_known s1 i m now a)) \<or> (\<exists>s1 m. rest = snd (snd (greet_new random s1 m now a))))"
proof -
  obtain parsed where parsed: "ParseHello p = Some parsed" using ParseHello_safe by blast
  show ?thesis
  proof (cases "parsed = None \<or> a = 0")
    case True
    then have "out = []" using assms parsed by (auto simp: HandleHello_def split: option.splits)
    then show ?thesis by simp
  next
    case False
    then obtain m where m: "parsed = Some m" and a: "a \<noteq> 0" by auto
    define fnd where "fnd = (case vt_Find (hs_viewers s) a of None \<Rightarrow> (None, s, [])
        | Some i \<Rightarrow> if vs_clientId (hs_slot s i) \<noteq> hello_clientId m
            then let (s, out) = DropViewer s i in (None, s, out) else (Some i, s, []))"
    obtain k s1 dropped where fnd': "fnd = (k, s1, dropped)" by (cases fnd)
    have dropped: "dropped = [] \<or> (\<exists>i. dropped = snd (DropViewer s i))"
    proof (cases "vt_Find (hs_viewers s) a")
      case None
      then show ?thesis using fnd' by (simp add: fnd_def)
    next
      case (Some i)
      obtain s2 out2 where "DropViewer s i = (s2, out2)" by (cases "DropViewer s i")
      moreover from this have "out2 = snd (DropViewer s i)" by simp
      ultimately have "dropped = [] \<or> dropped = snd (DropViewer s i)"
        using Some fnd' by (cases "vs_clientId (hs_slot s i) = hello_clientId m") (auto simp: fnd_def)
      then show ?thesis by blast
    qed
    define k2 where "k2 = (case k of None \<Rightarrow> vt_FindByClient (hs_viewers s1) (hello_clientId m) | Some i \<Rightarrow> Some i)"
    have eq: "HandleHello random s p now a = (case k2 of
        Some i \<Rightarrow> let (s, out) = greet_known s1 i m now a in Some (True, s, dropped @ out)
      | None \<Rightarrow> let (ok, s, out) = greet_new random s1 m now a in Some (ok, s, dropped @ out))"
      using parsed m a fnd' by (simp add: HandleHello_def fnd_def k2_def Let_def cong: option.case_cong)
    show ?thesis
    proof (cases k2)
      case None
      obtain ok2 s2 out2 where new: "greet_new random s1 m now a = (ok2, s2, out2)" by (cases "greet_new random s1 m now a")
      then have "out = dropped @ snd (snd (greet_new random s1 m now a))" using eq assms None by simp
      then show ?thesis using dropped by blast
    next
      case (Some i)
      obtain s2 out2 where known: "greet_known s1 i m now a = (s2, out2)" by (cases "greet_known s1 i m now a")
      then have "out = dropped @ snd (greet_known s1 i m now a)" using eq assms Some by simp
      then show ?thesis using dropped by blast
    qed
  qed
qed

text \<open>
  Input reaches the screen only from a viewer of the session, and only when no viewer who joined
  before has driven within the last second.
\<close>

lemma input_is_arbitrated:
  assumes run: "hs_HandlePacket random s pkt now a = Some (ok, s', out)" and ev: "HsInput e \<in> set out"
  shows "\<exists>i\<in>active_slots (hs_viewers s). vs_addrPacked (hs_slot s i) = a \<and> hs_state s = HostStreaming \<and> hs_controllingAddr s' = a
    \<and> (\<forall>j\<in>active_slots (hs_viewers s). j \<noteq> i \<longrightarrow> vs_joinOrder (hs_slot s j) < vs_joinOrder (hs_slot s i) \<longrightarrow> \<not> IsDriving (hs_slot s j) now)"
proof -
  have quiet: "HsInput e \<notin> set (hs_Send m)" "HsInput e \<notin> set (SendReject r)" "HsInput e \<notin> set (SendHelloAck x)" for m r x
    by (simp_all add: hs_Send_def SendReject_def SendHelloAck_def)
  have hand: "HsInput e \<notin> set (snd (HandOverControl x b))" for x b by (simp add: HandOverControl_def)
  have drop: "HsInput e \<notin> set (snd (DropViewer x i))" for x i
    using hand by (auto simp: DropViewer_def hs_Disconnect_def Let_def case_prod_unfold)
  have known: "HsInput e \<notin> set (snd (greet_known x i m now a))" for x i m using quiet by (simp add: greet_known_def Let_def)
  have new: "HsInput e \<notin> set (snd (snd (greet_new random x m now a)))" for x m
    using quiet by (auto simp: greet_new_def BeginSession_def Let_def split: if_splits option.splits prod.splits)
  have hello: "HandleHello random s p now a = Some (ok, s', out) \<Longrightarrow> False" for p
    using ev drop known new by (auto dest!: HandleHello_effects)
  have report: "HsInput e \<notin> set (snd (ReportFeedbackIfDue x now))" for x by (simp add: ReportFeedbackIfDue_def)
  obtain ph p where parse: "ParseCommonHeader pkt = Some ph" "PayloadOf pkt = Some p"
    using ParseCommonHeader_safe PayloadOf_safe by blast
  obtain h where h: "ph = Some h" using run ev parse by (cases ph) (simp_all add: hs_HandlePacket_def)
  have type: "ch_type h \<noteq> MsgHello" using run parse h hello by (auto simp: hs_HandlePacket_def)
  have sid: "InSession s (ch_sessionId h)" using run ev parse h type by (auto simp: hs_HandlePacket_def split: if_splits)
  obtain i where i: "vt_Find (hs_viewers s) a = Some i"
    using run ev parse h type sid by (cases "vt_Find (hs_viewers s) a") (simp_all add: hs_HandlePacket_def)
  note hp = parse h type
  let ?s = "set_slot s i ((hs_slot s i)\<lparr>vs_lastRecvUs := now\<rparr>)"
  have act: "i \<in> active_slots (hs_viewers s)" "vs_addrPacked (hs_slot s i) = a" using Find_viewer_Some [OF i] by simp_all
  obtain s2 out2 where bye: "DropViewer ?s i = (s2, out2)" by (cases "DropViewer ?s i")
  then have "HsInput e \<notin> set out2" using drop [of ?s i] by simp
  then have "ch_type h \<noteq> MsgBye" using run hp i sid ev bye by (auto simp: hs_HandlePacket_def Let_def)
  then have serve: "HandleFromViewer ?s h p i now = Some (ok, s', out)" using run hp i sid by (simp add: hs_HandlePacket_def Let_def)
  have focus: "HsInput e \<notin> set (snd (snd (on_focus x i on)))" for x on using hand by (auto simp: on_focus_def Let_def case_prod_unfold)
  have "ch_type h = MsgInputEvent"
  proof (cases "ch_type h")
    case MsgStart
    then show ?thesis using serve ev by (auto simp: HandleFromViewer_def on_start_def Let_def split: if_splits)
  next
    case MsgPing
    obtain m where m: "ParsePingPong p = Some m" using ParseControl_safe by blast
    show ?thesis using MsgPing serve ev m quiet by (cases m) (auto simp: HandleFromViewer_def)
  next
    case MsgSetFocus
    obtain m where m: "ParseSetFocus p = Some m" using ParseControl_safe by blast
    show ?thesis
    proof (cases m)
      case None
      then show ?thesis using MsgSetFocus serve ev m by (auto simp: HandleFromViewer_def split: if_splits)
    next
      case (Some on)
      have "on_focus ?s i on = (ok, s', out)" if "hs_state ?s = HostStreaming"
        using MsgSetFocus serve ev m Some that by (simp add: HandleFromViewer_def)
      then have "hs_state ?s \<noteq> HostStreaming" using focus [of ?s on] ev by fastforce
      then show ?thesis using MsgSetFocus serve ev m Some by (simp add: HandleFromViewer_def)
    qed
  next
    case MsgFeedback
    obtain m where m: "ParseFeedback p = Some m" using ParseControl_safe by blast
    show ?thesis
    proof (cases m)
      case None
      then show ?thesis using MsgFeedback serve ev m by (simp add: HandleFromViewer_def)
    next
      case (Some x)
      let ?x = "set_slot ?s i ((hs_slot ?s i)\<lparr>vs_feedback := x, vs_haveFeedback := True\<rparr>)\<lparr>hs_feedbackPending := True\<rparr>"
      obtain s3 out3 where "ReportFeedbackIfDue ?x now = (s3, out3)" by (cases "ReportFeedbackIfDue ?x now")
      then show ?thesis using MsgFeedback serve ev m Some report [of ?x] by (simp add: HandleFromViewer_def)
    qed
  next
    case MsgNack
    obtain m where m: "ParseNack p kMaxNackIndices = Some m" using ParseNack_safe by blast
    show ?thesis using MsgNack serve ev m by (cases m) (auto simp: HandleFromViewer_def split: if_splits)
  next
    case MsgInvalidateRef
    obtain m where m: "ParseInvalidateRef p = Some m" using ParseControl_safe by blast
    show ?thesis using MsgInvalidateRef serve ev m by (cases m) (auto simp: HandleFromViewer_def split: if_splits)
  next
    case MsgClipboard
    obtain m where m: "ParseClipboardChunk p = Some m" using ParseClipboardChunk_safe by blast
    have "HsInput e \<notin> set out" if "on_clipboard ?s i c = Some (ok, s', out)" for c
      using that ev by (auto simp: on_clipboard_def Let_def bind_eq_Some_conv split: if_splits option.splits prod.splits)
    then show ?thesis using MsgClipboard serve ev m by (cases m) (auto simp: HandleFromViewer_def split: if_splits)
  qed (use serve ev in \<open>auto simp: HandleFromViewer_def split: if_splits\<close>)
  then have input: "hs_state ?s = HostStreaming" "ApplyInput ?s i p now = Some (s', out)"
    using serve ev by (auto simp: HandleFromViewer_def bind_eq_Some_conv split: if_splits)
  have "hs_state s = HostStreaming" using input(1) by (simp add: set_slot_def)
  have free: "\<not> HigherPriorityIsDriving (hs_viewers ?s) i now"
    using input(2) ev by (auto simp: ApplyInput_def bind_eq_Some_conv split: if_splits)
  have len: "i < length (vt_slots (hs_viewers s))" using act(1) by (rule active_lt)
  let ?t = "set_slot ?s i ((hs_slot ?s i)\<lparr>vs_lastInputUs := now\<rparr>)"
  obtain s3 handed where taken: "HandOverControl ?t (vs_addrPacked (hs_slot ?t i)) = (s3, handed)"
    by (cases "HandOverControl ?t (vs_addrPacked (hs_slot ?t i))")
  have "vs_addrPacked (hs_slot ?t i) = a" using len act(2) by (simp add: set_slot_def)
  then have "hs_controllingAddr s3 = a" using taken by (auto simp: HandOverControl_def split: if_splits)
  moreover have "hs_controllingAddr s' = hs_controllingAddr s3"
    using input(2) free taken by (auto simp: ApplyInput_def Let_def bind_eq_Some_conv set_slot_def)
  ultimately have ctrl: "hs_controllingAddr s' = a" by simp
  have "\<not> IsDriving (hs_slot s j) now" if j: "j \<in> active_slots (hs_viewers s)" "j \<noteq> i" "vs_joinOrder (hs_slot s j) < vs_joinOrder (hs_slot s i)" for j
    using free that len by (auto simp: HigherPriorityIsDriving_def set_slot_def list_ex_iff active_slots_def)
  then show ?thesis using act ctrl \<open>hs_state s = HostStreaming\<close> by blast
qed

text \<open>A host that has no viewers yet.\<close>

lemma fresh_host:
  "vt_Find (hs_viewers (hs_init p b)) a = None" "vt_FindByClient (hs_viewers (hs_init p b)) c = None"
  "has_room (hs_viewers (hs_init p b)) \<longleftrightarrow> (\<forall>n. b = Some n \<longrightarrow> n < of_nat kMaxViewersPerHost)"
  by (simp_all add: vt_Find_def vt_FindByClient_def first_slot_None has_room_def hs_init_def vt_SetHostBudget_def vt_init_def kconsts)

text \<open>
  A viewer that was in control and greets again from another address keeps its slot, but not the
  control: no viewer of the table has the address that is remembered as the one in control.
\<close>

lemma moved_driver_is_not_recognised:
  assumes inv: "hs_inv s" and i: "i \<in> active_slots (hs_viewers s)" "hs_controllingAddr s = vs_addrPacked (hs_slot s i)"
    and new: "a \<noteq> 0" "\<forall>j\<in>active_slots (hs_viewers s). vs_addrPacked (hs_slot s j) \<noteq> a"
    and known: "greet_known s i m now a = (s', out)"
  shows "\<forall>j\<in>active_slots (hs_viewers s'). hs_controllingAddr s' \<noteq> vs_addrPacked (hs_slot s' j)"
proof -
  let ?t = "hs_viewers s"
  have t: "vt_inv ?t" using inv by (simp add: hs_inv_def)
  have new': "\<forall>j\<in>active_slots ?t - {i}. vs_addrPacked (hs_slot s j) \<noteq> a" using new(2) by blast
  note one = Rebind_inv [OF t i(1) new(1) new']
  have i1: "i \<in> active_slots (vt_Rebind ?t i a)" using one(2) i(1) by simp
  note two = SetName_inv [OF one(1) i1, of "hello_clientName m"]
  have i2: "i \<in> active_slots (vt_SetName (vt_Rebind ?t i a) i (hello_clientName m))" using two(2) i1 by simp
  note three = SetWantsAudio_inv [OF two(1) i2, of "wants_audio m"]
  have len: "i < length (vt_slots ?t)" using i(1) by (rule active_lt)
  have apart: "vs_addrPacked (hs_slot s j) \<noteq> vs_addrPacked (hs_slot s i)" if "j \<in> active_slots ?t" "j \<noteq> i" for j
    using t that i(1) unfolding vt_inv_def slots_apart_def by blast
  have s': "hs_controllingAddr s' = vs_addrPacked (hs_slot s i)" "vs_addrPacked (hs_slot s' i) = a"
    "j \<noteq> i \<Longrightarrow> hs_slot s' j = hs_slot s j" "length (vt_slots (hs_viewers s')) = length (vt_slots ?t)" for j
    using known i(2) one(3) two(3) three(3) len
    by (auto simp: greet_known_def Let_def set_slot_def split: if_splits)
  show ?thesis
  proof
    fix j assume "j \<in> active_slots (hs_viewers s')"
    then show "hs_controllingAddr s' \<noteq> vs_addrPacked (hs_slot s' j)"
      using s' apart [of j] new(2) i(1) by (cases "j = i") (auto simp: active_slots_def)
  qed
qed

section \<open>What a host shows of its viewers\<close>

lemma filter_by_index: "filter P xs = map ((!) xs) (filter (\<lambda>i. P (xs ! i)) [0..<length xs])"
proof -
  have "filter P xs = filter P (map ((!) xs) [0..<length xs])" by (simp only: map_nth)
  then show ?thesis unfolding filter_map o_def .
qed

lemma hs_inv_shown:
  assumes inv: "hs_inv s"
  shows "hs_state s = (if active_slots (hs_viewers s) = {} then HostIdle else if vt_anyStarted (hs_viewers s) then HostStreaming else HostReady)"
    and "distinct (SnapshotAddrs (hs_viewers s) kMaxViewersPerSource)"
    and "set (SnapshotAddrs (hs_viewers s) kMaxViewersPerSource) = (\<lambda>i. vs_addrPacked (hs_slot s i)) ` active_slots (hs_viewers s)"
proof -
  let ?t = "hs_viewers s"
  have t: "vt_inv ?t" using inv by (simp add: hs_inv_def)
  show "hs_state s = (if active_slots ?t = {} then HostIdle else if vt_anyStarted ?t then HostStreaming else HostReady)"
    using inv count_active(1) [OF t] finite_active [of ?t] by (auto simp: hs_inv_def)
  let ?act = "filter vs_active (vt_slots ?t)" and ?is = "filter (\<lambda>i. vs_active (vt_slots ?t ! i)) [0..<length (vt_slots ?t)]"
  have "vt_Publish ?t = ?t" using t by (simp add: vt_inv_def)
  then have "vt_published ?t = vt_published (vt_Publish ?t)" by simp
  then have pub: "vt_published ?t = map vs_addrPacked ?act @ replicate (kMaxViewersPerSource - length ?act) 0"
    by (simp add: vt_Publish_def Let_def)
  have act: "?act = map ((!) (vt_slots ?t)) ?is" by (rule filter_by_index)
  have "set ?is = active_slots ?t" by (auto simp: active_slots_def)
  have nz: "filter (\<lambda>a. a \<noteq> 0) (map vs_addrPacked ?act) = map vs_addrPacked ?act"
    using t by (auto simp: filter_id_conv vt_inv_def slots_ok_def slot_ok_def)
  have "length ?act \<le> kMaxViewersPerSource" using count_active(2) [OF t] length_filter_le [of vs_active "vt_slots ?t"] by simp
  then have eq: "SnapshotAddrs ?t kMaxViewersPerSource = map (\<lambda>i. vs_addrPacked (hs_slot s i)) ?is"
    unfolding SnapshotAddrs_def pub filter_append nz by (simp add: act o_def)
  have "inj_on (\<lambda>i. vs_addrPacked (hs_slot s i)) (active_slots ?t)"
    using t by (auto simp: inj_on_def vt_inv_def slots_apart_def)
  then show "distinct (SnapshotAddrs ?t kMaxViewersPerSource)" unfolding eq distinct_map \<open>set ?is = _\<close> by simp
  show "set (SnapshotAddrs ?t kMaxViewersPerSource) = (\<lambda>i. vs_addrPacked (hs_slot s i)) ` active_slots ?t"
    unfolding eq set_map \<open>set ?is = _\<close> by simp
qed

end
