(* ===== verification/ClientSafety.thy ===== *)
theory ClientSafety
  imports ClientSession WireSafety
begin

text \<open>
  Every operation of a client's screen session returns, whatever packet comes; and once a session
  has ended, nothing but a new start makes it send again.
\<close>

datatype ClientOp =
  ClientStart Hello u64 | ClientPacket bytes u64 | ClientVideo u64 | ClientInput InputEvent | ClientClip bytes
  | ClientFocus bool | ClientWantKeyframe bool | ClientTick u64 | ClientFeedback Feedback | ClientNack u32 "u16 list"
  | ClientInvalidateRef u32 | ClientBye

fun client_step :: "ScreenClientSession \<Rightarrow> ClientOp \<Rightarrow> client_result checked" where
  "client_step s (ClientStart m now) = Some (cl_Start s m now)"
| "client_step s (ClientPacket pkt now) = map_option snd (cl_HandlePacket s pkt now)"
| "client_step s (ClientVideo now) = Some (NotifyVideoPacket s now, [])"
| "client_step s (ClientInput e) = Some (cl_QueueInput s e, [])"
| "client_step s (ClientClip tx) = Some (cl_QueueClipboard s tx, [])"
| "client_step s (ClientFocus on) = Some (SetFocused s on, [])"
| "client_step s (ClientWantKeyframe on) = Some (if on then cl_RequestKeyframe s else CancelKeyframeRequest s, [])"
| "client_step s (ClientTick now) = cl_Tick s now"
| "client_step s (ClientFeedback fb) = Some (s, SendFeedback s fb)"
| "client_step s (ClientNack frameId indices) = Some (s, SendNack s frameId indices)"
| "client_step s (ClientInvalidateRef frameId) = Some (s, SendInvalidateRef s frameId)"
| "client_step s ClientBye = Some (SendBye s)"

definition cl_inv :: "ScreenClientSession \<Rightarrow> bool" where
  "cl_inv s \<longleftrightarrow> (\<exists>evs. sn_inv evs (cl_input s)) \<and> cs_inv (cl_clip s)"

definition gives_up :: "ScreenClientSession \<Rightarrow> u64 \<Rightarrow> bool" where
  "gives_up s now \<longleftrightarrow> (case cl_state s of
       ClientHello \<Rightarrow> now - cl_startedUs s > kHelloGiveUpUs
     | ClientStarting \<Rightarrow> now - cl_lastRecvUs s > kSessionTimeoutUs
     | ClientStreaming \<Rightarrow> now - cl_lastRecvUs s > kSessionTimeoutUs
     | _ \<Rightarrow> False)"

lemma cl_init_inv: "cl_inv cl_init"
  using sn_init_inv cs_init_inv by (auto simp: cl_inv_def cl_init_def)

lemma cl_inv_cong: "cl_input s' = cl_input s \<Longrightarrow> cl_clip s' = cl_clip s \<Longrightarrow> cl_inv s' = cl_inv s"
  by (simp add: cl_inv_def)

lemma clip_keeps:
  assumes "cs_inv c"
  shows "cs_inv (cs_ForgetReceived c)" "cs_inv (fst (cs_Flush c now can))" "cs_inv (snd (cs_OfferLocal (cs_SetSessionId c sid) tx))"
    "cs_inv (snd (cs_TakeCompleted c))"
proof -
  have sid: "cs_inv (cs_SetSessionId c sid)" using clipboard.keeps [OF assms, of "ClipSession sid"] by simp
  show "cs_inv (snd (cs_OfferLocal (cs_SetSessionId c sid) tx))" using clipboard.keeps [OF sid, of "ClipOffer tx"] by simp
  show "cs_inv (cs_ForgetReceived c)" using clipboard.keeps [OF assms, of ClipForget] by simp
  show "cs_inv (fst (cs_Flush c now can))" using clipboard.keeps [OF assms, of "ClipFlush now can"] by simp
  show "cs_inv (snd (cs_TakeCompleted c))" using clipboard.keeps [OF assms, of ClipTake] by (auto split: prod.splits)
qed

lemma Queue_keeps:
  assumes "\<exists>evs. sn_inv evs s"
  shows "\<exists>evs. sn_inv evs (sn_Queue (sn_SetSessionId s sid) e)"
proof -
  obtain evs where "sn_inv evs s" using assms by blast
  then have "sn_inv evs (sn_SetSessionId s sid)" by (simp add: sn_SetSessionId_def sn_inv_def sn_base_def)
  then show ?thesis using Queue_inv(1) by blast
qed

lemma Flush_total:
  assumes "\<exists>evs. sn_inv evs s"
  shows "\<exists>s' ds. sn_Flush s now True = Some (s', ds) \<and> (\<exists>evs. sn_inv evs s')"
proof -
  obtain evs where inv: "sn_inv evs s" using assms by blast
  from sender_step_carries [OF inv order_refl, of "SenderFlush now True"]
  obtain s' ds where s': "sender_step s (SenderFlush now True) = Some (s', ds)" "sn_inv (evs @ queued [SenderFlush now True]) s'" by blast
  then have "sn_Flush s now True = Some (s', ds)" by simp
  then show ?thesis using s'(2) by blast
qed

text \<open>A packet.\<close>

definition cl_fine :: "ScreenClientSession \<Rightarrow> client_result \<Rightarrow> bool" where
  "cl_fine s r \<longleftrightarrow> cl_inv (fst r) \<and> (cl_state s = ClientDead \<longrightarrow> cl_state (fst r) = ClientDead \<and> (\<forall>m. ClSend m \<notin> set (snd r)))"

lemma cl_fine_same: "cl_inv s \<Longrightarrow> cl_fine s (s, [])"
  by (simp add: cl_fine_def)

lemma packet_fine:
  assumes inv: "cl_inv s"
  shows "\<exists>ok r. cl_HandlePacket s pkt now = Some (ok, r) \<and> cl_fine s r"
proof -
  note same = cl_fine_same [OF inv]
  obtain ph p where parse: "ParseCommonHeader pkt = Some ph" "PayloadOf pkt = Some p"
    using ParseCommonHeader_safe PayloadOf_safe by blast
  show ?thesis
  proof (cases ph)
    case None
    then show ?thesis using parse same by (auto simp: cl_HandlePacket_def)
  next
    case (Some h)
    note hp = parse Some
    show ?thesis
    proof (cases "ch_type h")
      case MsgHelloAck
      obtain m where m: "ParseHelloAck p = Some m" using ParseHello_safe by blast
      have "\<exists>ok a b. on_hello_ack s x now = (ok, a, b) \<and> cl_fine s (a, b)" for x
        using inv clip_keeps(1) by (auto simp: on_hello_ack_def cl_fine_def cl_inv_def cl_Die_def Let_def)
      then show ?thesis using MsgHelloAck hp m same by (cases m) (auto simp: cl_HandlePacket_def)
    next
      case MsgPong
      obtain m where m: "ParsePingPong p = Some m" using ParseControl_safe by blast
      have "\<exists>ok a b. on_pong s x now = (ok, a, b) \<and> cl_fine s (a, b)" for x using inv by (auto simp: on_pong_def cl_fine_def cl_inv_def Let_def)
      then show ?thesis using MsgPong hp m same by (cases m) (auto simp: cl_HandlePacket_def)
    next
      case MsgReconfig
      obtain m where m: "ParseReconfig p = Some m" using ParseControl_safe by blast
      have "\<exists>ok a b. on_reconfig s x now = (ok, a, b) \<and> cl_fine s (a, b)" for x using inv by (auto simp: on_reconfig_def cl_fine_def cl_inv_def Let_def)
      then show ?thesis using MsgReconfig hp m same by (cases m) (auto simp: cl_HandlePacket_def)
    next
      case MsgBye
      have "\<exists>a b. cl_Die s r c = (a, b) \<and> cl_fine s (a, b)" for r c using inv by (auto simp: cl_Die_def cl_fine_def cl_inv_def)
      then show ?thesis using MsgBye hp same by (auto simp: cl_HandlePacket_def)
    next
      case MsgClipboard
      obtain m where m: "ParseClipboardChunk p = Some m" using ParseClipboardChunk_safe by blast
      have "\<exists>ok r. on_host_clipboard s c now = Some (ok, r) \<and> cl_fine s r" if mc: "m = Some c" for c
      proof -
        obtain ok clip where acc: "cs_Accept (cl_clip s) c = Some (ok, clip)" "cs_inv clip"
          using Accept_inv [of "cl_clip s" c] inv ParseClipboardChunk_ok [of p c] m unfolding mc cl_inv_def by blast
        obtain tx clip2 where tk: "(if ok then cs_TakeCompleted clip else (None, clip)) = (tx, clip2)" by (cases "if ok then cs_TakeCompleted clip else (None, clip)")
        then have "cs_inv clip2" using clip_keeps(4) [OF acc(2)] acc(2) by (cases ok) auto
        then show ?thesis using acc(1) tk inv by (auto simp: on_host_clipboard_def Let_def cl_fine_def cl_inv_def split: option.splits)
      qed
      then show ?thesis using MsgClipboard hp m same by (cases m) (auto simp: cl_HandlePacket_def)
    qed (use hp same in \<open>auto simp: cl_HandlePacket_def\<close>)
  qed
qed

text \<open>The clock.\<close>

lemma running_fine:
  assumes inv: "cl_inv s" and run: "cl_state s = ClientStarting \<or> cl_state s = ClientStreaming"
  shows "\<exists>s' out. tick_running s now = Some (s', out) \<and> cl_inv s' \<and> (cl_state s' = ClientDead \<longleftrightarrow> now - cl_lastRecvUs s > kSessionTimeoutUs)"
proof (cases "now - cl_lastRecvUs s > kSessionTimeoutUs")
  case True
  then show ?thesis using inv by (auto simp: tick_running_def cl_Die_def cl_inv_def)
next
  case False
  obtain s1 o1 where one: "tick_ping s now = (s1, o1)" by (cases "tick_ping s now")
  then have k1: "cl_inv s1" "cl_state s1 = cl_state s" using inv by (auto simp: tick_ping_def cl_inv_def split: if_splits)
  obtain s2 o2 where two: "tick_focus s1 now = (s2, o2)" by (cases "tick_focus s1 now")
  then have k2: "cl_inv s2" "cl_state s2 = cl_state s" using k1 by (auto simp: tick_focus_def cl_inv_def split: if_splits)
  obtain s3 o3 where three: "tick_flush s2 now = Some (s3, o3)" and k3: "cl_inv s3" "cl_state s3 = cl_state s"
  proof (cases "cl_state s2 = ClientStreaming")
    case True
    obtain inp ds where fl: "sn_Flush (cl_input s2) now True = Some (inp, ds)" "\<exists>evs. sn_inv evs inp"
      using Flush_total [of "cl_input s2" now] k2(1) unfolding cl_inv_def by blast
    obtain clip cs where cf: "cs_Flush (cl_clip s2) now True = (clip, cs)" by (cases "cs_Flush (cl_clip s2) now True")
    then have "cs_inv clip" using clip_keeps(2) [of "cl_clip s2" now True] k2(1) by (simp add: cl_inv_def)
    then show ?thesis using that fl cf True k2(2) by (simp add: tick_flush_def cl_inv_def)
  next
    case False
    then show ?thesis using that k2 by (simp add: tick_flush_def)
  qed
  obtain s4 o4 where four: "tick_keyframe s3 now = (s4, o4)" by (cases "tick_keyframe s3 now")
  then have k4: "cl_inv s4" "cl_state s4 = cl_state s" using k3 by (auto simp: tick_keyframe_def cl_inv_def split: if_splits)
  show ?thesis using False one two three four k4 run by (auto simp: tick_running_def Let_def)
qed

lemma cl_Tick_ends:
  assumes inv: "cl_inv s"
  shows "\<exists>s' out. cl_Tick s now = Some (s', out) \<and> cl_inv s' \<and> (cl_state s' = ClientDead \<longleftrightarrow> cl_state s = ClientDead \<or> gives_up s now)"
proof (cases "cl_state s")
  case ClientHello
  then show ?thesis using inv by (auto simp: cl_Tick_def gives_up_def cl_Die_def cl_inv_def Let_def)
next
  case ClientStarting
  obtain s1 o1 where one: "(if now - cl_lastSentUs s \<ge> kHelloRetryUs
      then let s = s\<lparr>cl_lastSentUs := now\<rparr> in (s, SendStart s) else (s, [])) = (s1, o1)" by fastforce
  then have k: "cl_inv s1" "cl_state s1 = cl_state s" "cl_lastRecvUs s1 = cl_lastRecvUs s"
    using inv by (auto simp: cl_inv_def Let_def split: if_splits)
  from running_fine [OF k(1), of now] obtain s2 o2 where "tick_running s1 now = Some (s2, o2)" "cl_inv s2"
    "cl_state s2 = ClientDead \<longleftrightarrow> now - cl_lastRecvUs s > kSessionTimeoutUs"
    using k ClientStarting by auto
  then show ?thesis using one ClientStarting by (simp add: cl_Tick_def gives_up_def)
next
  case ClientStreaming
  then show ?thesis using running_fine [OF inv, of now] by (auto simp: cl_Tick_def gives_up_def)
qed (use inv in \<open>auto simp: cl_Tick_def gives_up_def\<close>)

text \<open>Every operation: a session that has ended is silent until it is started again.\<close>

fun starts :: "ClientOp \<Rightarrow> bool" where
  "starts (ClientStart _ _) = True"
| "starts _ = False"

lemma client_step_fine:
  assumes inv: "cl_inv s"
  shows "\<exists>r. client_step s x = Some r \<and> cl_inv (fst r) \<and> (\<not> starts x \<longrightarrow> cl_fine s r)"
proof (cases x)
  case (ClientPacket pkt now)
  then show ?thesis using packet_fine [OF inv, of pkt now] by (auto simp: cl_fine_def)
next
  case (ClientTick now)
  obtain s' out where t: "cl_Tick s now = Some (s', out)" "cl_inv s'" using cl_Tick_ends [OF inv] by blast
  moreover have "cl_state s = ClientDead \<Longrightarrow> cl_Tick s now = Some (s, [])" by (simp add: cl_Tick_def)
  ultimately show ?thesis using ClientTick by (auto simp: cl_fine_def)
next
  case (ClientInput e)
  then show ?thesis using inv Queue_keeps by (auto simp: cl_fine_def cl_QueueInput_def cl_inv_def)
next
  case (ClientClip tx)
  then show ?thesis using inv clip_keeps(3) by (auto simp: cl_fine_def cl_QueueClipboard_def cl_inv_def)
qed (use inv in \<open>auto simp: cl_fine_def cl_inv_def cl_Start_def NotifyVideoPacket_def SetFocused_def cl_RequestKeyframe_def
      CancelKeyframeRequest_def SendFeedback_def SendNack_def SendInvalidateRef_def SendBye_def Let_def\<close>)

interpretation screen_client: component client_step cl_inv "\<lambda>_. True" "\<lambda>_ _. True"
proof
  show "\<exists>s' r. client_step s x = Some (s', r) \<and> cl_inv s' \<and> True" if "cl_inv s" for s x
    using client_step_fine [OF that, of x] by auto
qed

lemma dead_client_is_silent:
  assumes "cl_inv s" "cl_state s = ClientDead" "list_all (\<lambda>x. \<not> starts x) xs"
  shows "\<exists>s' outs. run_ops client_step s xs = Some (s', outs) \<and> cl_state s' = ClientDead \<and> (\<forall>m. ClSend m \<notin> set (concat outs))"
  using assms
proof (induction xs arbitrary: s)
  case (Cons x xs)
  obtain s1 out where one: "client_step s x = Some (s1, out)" and inv: "cl_inv s1" and fine: "cl_fine s (s1, out)"
    using client_step_fine [OF Cons.prems(1), of x] Cons.prems(3) by auto
  then have d: "cl_state s1 = ClientDead" "\<forall>m. ClSend m \<notin> set out" using Cons.prems(2) by (simp_all add: cl_fine_def)
  obtain s2 outs where "run_ops client_step s1 xs = Some (s2, outs)" "cl_state s2 = ClientDead" "\<forall>m. ClSend m \<notin> set (concat outs)"
    using Cons.IH [OF inv d(1)] Cons.prems(3) by auto
  then show ?case using one d(2) by auto
qed simp

text \<open>A \<open>Bye\<close> of the last session is acted on in every state.\<close>

lemma late_bye_ends_again:
  assumes "ParseCommonHeader pkt = some_opt (hdr MsgBye 0 ChanControl (cl_sessionId s))" "PayloadOf pkt = Some p" "cl_sessionId s \<noteq> 0"
  shows "cl_HandlePacket s pkt now
    = Some (False, s\<lparr>cl_state := ClientDead\<rparr>, [ClDisconnect (bytes_of ''host ended the session (BYE)'') EndHostBye])"
  using assms by (simp add: cl_HandlePacket_def cl_Die_def)

end
