(* ===== verification/VtParser.thy ===== *)
theory VtParser
  imports Text Component
begin

text \<open>
  The parser of terminal control sequences (\<open>core/include/deskhub/terminal/VtParser.h\<close>,
  \<open>core/src/terminal/VtParser.cpp\<close>): bytes in, events out. The vector of events is the list an
  operation returns. \<open>int32_t\<close> parameters are \<open>int\<close>: the code bounds them by 65535.
\<close>

definition kMaxVtParams :: nat where [kconsts]: "kMaxVtParams = 32"
definition kMaxOscBytes :: nat where [kconsts]: "kMaxOscBytes = 4096"
definition kVtParamOmitted :: int where [kconsts]: "kVtParamOmitted = -1"
definition kMaxVtParamValue :: int where [kconsts]: "kMaxVtParamValue = 65535"
definition kReplacement :: u32 where [kconsts]: "kReplacement = 0xFFFD"
definition kMaxCodepoint :: u32 where [kconsts]: "kMaxCodepoint = 0x10FFFF"
definition kEsc :: u8 where [kconsts]: "kEsc = 0x1B"
definition kBel :: u8 where [kconsts]: "kBel = 0x07"
definition kCan :: u8 where [kconsts]: "kCan = 0x18"
definition kSub :: u8 where [kconsts]: "kSub = 0x1A"
definition kDel :: u8 where [kconsts]: "kDel = 0x7F"

datatype VtAction = VtPrint | VtExecute | VtCsi | VtEsc | VtOsc

record VtEvent =
  ve_action :: VtAction
  ve_codepoint :: u32
  ve_final :: u8
  ve_prefix :: u8
  ve_intermediate :: u8
  ve_paramCount :: nat
  ve_params :: "int list"
  ve_text :: bytes

definition ve_init :: VtEvent where
  "ve_init = \<lparr>ve_action = VtPrint, ve_codepoint = 0, ve_final = 0, ve_prefix = 0, ve_intermediate = 0,
     ve_paramCount = 0, ve_params = replicate kMaxVtParams 0, ve_text = []\<rparr>"

definition ve_Param :: "VtEvent \<Rightarrow> nat \<Rightarrow> int \<Rightarrow> int" where
  "ve_Param ev index fallback =
     (if index \<ge> ve_paramCount ev then fallback
      else if ve_params ev ! index = kVtParamOmitted then fallback else ve_params ev ! index)"

datatype VtState =
  VtGround | VtEscape | VtEscapeIntermediate | VtCsiEntry | VtCsiParam | VtCsiIntermediate | VtCsiIgnore
  | VtOscString | VtStringIgnore

record VtParser =
  vp_state :: VtState
  vp_prefix :: u8
  vp_intermediate :: u8
  vp_paramCount :: nat
  vp_params :: "int list"
  vp_osc :: bytes
  vp_utf8Acc :: u32
  vp_utf8Left :: nat
  vp_utf8Min :: u32
  vp_escInString :: bool

definition vp_init :: VtParser where
  "vp_init = \<lparr>vp_state = VtGround, vp_prefix = 0, vp_intermediate = 0, vp_paramCount = 0,
     vp_params = replicate kMaxVtParams 0, vp_osc = [], vp_utf8Acc = 0, vp_utf8Left = 0, vp_utf8Min = 0,
     vp_escInString = False\<rparr>"

definition vp_Reset :: "VtParser \<Rightarrow> VtParser" where
  "vp_Reset p = p\<lparr>vp_state := VtGround, vp_prefix := 0, vp_intermediate := 0, vp_paramCount := 0,
     vp_params := replicate (length (vp_params p)) 0, vp_osc := [], vp_utf8Acc := 0, vp_utf8Left := 0,
     vp_utf8Min := 0, vp_escInString := False\<rparr>"

definition IsSurrogate :: "u32 \<Rightarrow> bool" where
  "IsSurrogate cp \<longleftrightarrow> cp \<ge> 0xD800 \<and> cp \<le> 0xDFFF"

definition IsParamByte :: "u8 \<Rightarrow> bool" where
  "IsParamByte b \<longleftrightarrow> b \<ge> 0x30 \<and> b \<le> 0x39"

definition IsSeparator :: "u8 \<Rightarrow> bool" where
  "IsSeparator b \<longleftrightarrow> b = 0x3B \<or> b = 0x3A"

definition IsPrivateMarker :: "u8 \<Rightarrow> bool" where
  "IsPrivateMarker b \<longleftrightarrow> b \<ge> 0x3C \<and> b \<le> 0x3F"

definition IsIntermediate :: "u8 \<Rightarrow> bool" where
  "IsIntermediate b \<longleftrightarrow> b \<ge> 0x20 \<and> b \<le> 0x2F"

definition IsCsiFinal :: "u8 \<Rightarrow> bool" where
  "IsCsiFinal b \<longleftrightarrow> b \<ge> 0x40 \<and> b \<le> 0x7E"

definition IsEscFinal :: "u8 \<Rightarrow> bool" where
  "IsEscFinal b \<longleftrightarrow> b \<ge> 0x30 \<and> b \<le> 0x7E"

definition EncodeUtf8 :: "u32 \<Rightarrow> bytes" where
  "EncodeUtf8 cp =
     (let cp = (if cp > kMaxCodepoint \<or> IsSurrogate cp then kReplacement else cp) in
      if cp < 0x80 then [ucast cp]
      else if cp < 0x800 then [ucast (0xC0 OR drop_bit 6 cp), ucast (0x80 OR (cp AND 0x3F))]
      else if cp < 0x10000
      then [ucast (0xE0 OR drop_bit 12 cp), ucast (0x80 OR (drop_bit 6 cp AND 0x3F)), ucast (0x80 OR (cp AND 0x3F))]
      else [ucast (0xF0 OR drop_bit 18 cp), ucast (0x80 OR (drop_bit 12 cp AND 0x3F)),
            ucast (0x80 OR (drop_bit 6 cp AND 0x3F)), ucast (0x80 OR (cp AND 0x3F))])"

definition StartSequence :: "VtParser \<Rightarrow> VtParser" where
  "StartSequence p = p\<lparr>vp_prefix := 0, vp_intermediate := 0, vp_paramCount := 0, vp_osc := [], vp_escInString := False\<rparr>"

definition PushParamDigit :: "VtParser \<Rightarrow> u8 \<Rightarrow> VtParser" where
  "PushParamDigit p byte =
     (let p = (if vp_paramCount p = 0 then p\<lparr>vp_params := (vp_params p)[0 := 0], vp_paramCount := 1\<rparr> else p);
          i = vp_paramCount p - 1;
          slot = vp_params p ! i;
          slot = (if slot = kVtParamOmitted then 0 else slot);
          slot = slot * 10 + (uint byte - 0x30);
          slot = (if slot > kMaxVtParamValue then kMaxVtParamValue else slot)
      in p\<lparr>vp_params := (vp_params p)[i := slot]\<rparr>)"

definition PushParamSeparator :: "VtParser \<Rightarrow> VtParser" where
  "PushParamSeparator p =
     (let p = (if vp_paramCount p = 0 then p\<lparr>vp_params := (vp_params p)[0 := kVtParamOmitted], vp_paramCount := 1\<rparr> else p)
      in if vp_paramCount p < kMaxVtParams
         then p\<lparr>vp_params := (vp_params p)[vp_paramCount p := kVtParamOmitted], vp_paramCount := vp_paramCount p + 1\<rparr>
         else p)"

definition EmitPrint :: "u32 \<Rightarrow> VtEvent" where
  "EmitPrint cp = ve_init\<lparr>ve_action := VtPrint, ve_codepoint := cp\<rparr>"

definition EmitExecute :: "u8 \<Rightarrow> VtEvent" where
  "EmitExecute byte = ve_init\<lparr>ve_action := VtExecute, ve_final := byte\<rparr>"

definition EmitCsi :: "VtParser \<Rightarrow> u8 \<Rightarrow> VtEvent" where
  "EmitCsi p final = ve_init\<lparr>ve_action := VtCsi, ve_final := final, ve_prefix := vp_prefix p,
     ve_intermediate := vp_intermediate p, ve_paramCount := vp_paramCount p, ve_params := vp_params p\<rparr>"

definition EmitEsc :: "VtParser \<Rightarrow> u8 \<Rightarrow> VtEvent" where
  "EmitEsc p final = ve_init\<lparr>ve_action := VtEsc, ve_final := final, ve_intermediate := vp_intermediate p\<rparr>"

text \<open>The number a command string begins with, and what follows the digits.\<close>

fun osc_command :: "int \<Rightarrow> bytes \<Rightarrow> int \<times> bytes" where
  "osc_command command [] = (command, [])"
| "osc_command command (c # cs) =
     (if c \<ge> 0x30 \<and> c \<le> 0x39
      then osc_command (let v = command * 10 + (uint c - 0x30) in if v > kMaxVtParamValue then kMaxVtParamValue else v) cs
      else (command, c # cs))"

definition EmitOsc :: "VtParser \<Rightarrow> VtParser \<times> VtEvent" where
  "EmitOsc p =
     (let (command, rest) = osc_command 0 (vp_osc p);
          first = (if length rest < length (vp_osc p) then command else kVtParamOmitted);
          rest = (case rest of c # cs \<Rightarrow> if c = 0x3B then cs else rest | [] \<Rightarrow> rest)
      in (p\<lparr>vp_osc := []\<rparr>,
          ve_init\<lparr>ve_action := VtOsc, ve_paramCount := 1, ve_params := (replicate kMaxVtParams 0)[0 := first], ve_text := rest\<rparr>))"

text \<open>The end of \<open>ConsumeGround\<close>: a byte that begins a character.\<close>

definition ground_lead :: "VtParser \<Rightarrow> u8 \<Rightarrow> VtParser \<times> VtEvent list" where
  "ground_lead p byte =
     (if byte < 0x80 then (p, [EmitPrint (ucast byte)])
      else if byte \<ge> 0xC2 \<and> byte \<le> 0xDF
      then (p\<lparr>vp_utf8Acc := ucast (byte AND 0x1F), vp_utf8Left := 1, vp_utf8Min := 0x80\<rparr>, [])
      else if byte \<ge> 0xE0 \<and> byte \<le> 0xEF
      then (p\<lparr>vp_utf8Acc := ucast (byte AND 0x0F), vp_utf8Left := 2, vp_utf8Min := 0x800\<rparr>, [])
      else if byte \<ge> 0xF0 \<and> byte \<le> 0xF4
      then (p\<lparr>vp_utf8Acc := ucast (byte AND 0x07), vp_utf8Left := 3, vp_utf8Min := 0x10000\<rparr>, [])
      else (p, [EmitPrint kReplacement]))"

text \<open>A byte that goes on with a character.\<close>

definition ground_more :: "VtParser \<Rightarrow> u8 \<Rightarrow> VtParser \<times> VtEvent list" where
  "ground_more p byte =
     (let p = p\<lparr>vp_utf8Acc := push_bit 6 (vp_utf8Acc p) OR ucast (byte AND 0x3F), vp_utf8Left := vp_utf8Left p - 1\<rparr>
      in if vp_utf8Left p = 0
         then let cp = vp_utf8Acc p; ok = cp \<ge> vp_utf8Min p \<and> cp \<le> kMaxCodepoint \<and> \<not> IsSurrogate cp
              in (p, [EmitPrint (if ok then cp else kReplacement)])
         else (p, []))"

text \<open>The cases of \<open>Consume\<close> that end there.\<close>

definition consume_escape :: "VtParser \<Rightarrow> u8 \<Rightarrow> VtParser \<times> VtEvent list" where
  "consume_escape p byte =
     (if byte = kEsc then (StartSequence p, [])
      else if byte = 0x5B then (p\<lparr>vp_state := VtCsiEntry\<rparr>, [])
      else if byte = 0x5D then (p\<lparr>vp_state := VtOscString\<rparr>, [])
      else if byte = 0x50 \<or> byte = 0x58 \<or> byte = 0x5E \<or> byte = 0x5F then (p\<lparr>vp_state := VtStringIgnore\<rparr>, [])
      else if IsIntermediate byte then (p\<lparr>vp_intermediate := byte, vp_state := VtEscapeIntermediate\<rparr>, [])
      else if IsEscFinal byte then (p\<lparr>vp_state := VtGround\<rparr>, [EmitEsc p byte])
      else if byte < 0x20 then (p, [EmitExecute byte])
      else (p, []))"

definition consume_escape_intermediate :: "VtParser \<Rightarrow> u8 \<Rightarrow> VtParser \<times> VtEvent list" where
  "consume_escape_intermediate p byte =
     (if byte = kEsc then ((StartSequence p)\<lparr>vp_state := VtEscape\<rparr>, [])
      else if IsIntermediate byte then (p\<lparr>vp_intermediate := byte\<rparr>, [])
      else if IsEscFinal byte then (p\<lparr>vp_state := VtGround\<rparr>, [EmitEsc p byte])
      else if byte < 0x20 then (p, [EmitExecute byte])
      else (p, []))"

definition consume_csi :: "VtParser \<Rightarrow> u8 \<Rightarrow> VtParser \<times> VtEvent list" where
  "consume_csi p byte =
     (if IsParamByte byte then ((PushParamDigit p byte)\<lparr>vp_state := VtCsiParam\<rparr>, [])
      else if IsSeparator byte then ((PushParamSeparator p)\<lparr>vp_state := VtCsiParam\<rparr>, [])
      else if IsPrivateMarker byte
      then (if vp_state p = VtCsiEntry then (p\<lparr>vp_prefix := byte, vp_state := VtCsiParam\<rparr>, [])
            else (p\<lparr>vp_state := VtCsiIgnore\<rparr>, []))
      else if IsIntermediate byte then (p\<lparr>vp_intermediate := byte, vp_state := VtCsiIntermediate\<rparr>, [])
      else if IsCsiFinal byte then (p\<lparr>vp_state := VtGround\<rparr>, [EmitCsi p byte])
      else if byte = kEsc then ((StartSequence p)\<lparr>vp_state := VtEscape\<rparr>, [])
      else if byte < 0x20 then (p, [EmitExecute byte])
      else (p, []))"

definition consume_csi_intermediate :: "VtParser \<Rightarrow> u8 \<Rightarrow> VtParser \<times> VtEvent list" where
  "consume_csi_intermediate p byte =
     (if IsIntermediate byte then (p\<lparr>vp_intermediate := byte\<rparr>, [])
      else if IsCsiFinal byte then (p\<lparr>vp_state := VtGround\<rparr>, [EmitCsi p byte])
      else if byte = kEsc then ((StartSequence p)\<lparr>vp_state := VtEscape\<rparr>, [])
      else if byte < 0x20 then (p, [EmitExecute byte])
      else (p\<lparr>vp_state := VtCsiIgnore\<rparr>, []))"

definition consume_csi_ignore :: "VtParser \<Rightarrow> u8 \<Rightarrow> VtParser \<times> VtEvent list" where
  "consume_csi_ignore p byte =
     (if IsCsiFinal byte then (p\<lparr>vp_state := VtGround\<rparr>, [])
      else if byte = kEsc then ((StartSequence p)\<lparr>vp_state := VtEscape\<rparr>, [])
      else if byte < 0x20 then (p, [EmitExecute byte])
      else (p, []))"

text \<open>A character in the making is given up.\<close>

definition flush_utf8 :: "VtParser \<Rightarrow> VtParser \<times> VtEvent list" where
  "flush_utf8 p = (if vp_utf8Left p > 0 then (p\<lparr>vp_utf8Left := 0\<rparr>, [EmitPrint kReplacement]) else (p, []))"

definition consume_string :: "VtParser \<Rightarrow> u8 \<Rightarrow> VtParser \<times> VtEvent list" where
  "consume_string p byte =
     (let collecting = vp_state p = VtOscString in
      if byte = kEsc then (p\<lparr>vp_escInString := True\<rparr>, [])
      else if byte = kBel
      then let (p, out) = (if collecting then let (p, e) = EmitOsc p in (p, [e]) else (p, []))
           in (p\<lparr>vp_osc := [], vp_state := VtGround\<rparr>, out)
      else if byte = kCan \<or> byte = kSub then (p\<lparr>vp_osc := [], vp_state := VtGround\<rparr>, [])
      else if collecting \<and> length (vp_osc p) < kMaxOscBytes then (p\<lparr>vp_osc := vp_osc p @ [byte]\<rparr>, [])
      else (p, []))"

function ConsumeGround :: "VtParser \<Rightarrow> u8 \<Rightarrow> VtParser \<times> VtEvent list"
  and Consume :: "VtParser \<Rightarrow> u8 \<Rightarrow> VtParser \<times> VtEvent list" where
  "ConsumeGround p byte =
     (if vp_utf8Left p > 0
      then if byte AND 0xC0 = 0x80 then ground_more p byte
           else let (p', out) = Consume (p\<lparr>vp_utf8Left := 0\<rparr>) byte in (p', EmitPrint kReplacement # out)
      else ground_lead p byte)"
| "Consume p byte =
     (case vp_state p of
        VtGround \<Rightarrow>
          if byte = kEsc then let (p, out) = flush_utf8 p in ((StartSequence p)\<lparr>vp_state := VtEscape\<rparr>, out)
          else if byte < 0x20 \<or> byte = kDel
          then let (p, out) = flush_utf8 p in (p, out @ (if byte \<noteq> kDel then [EmitExecute byte] else []))
          else ConsumeGround p byte
      | VtEscape \<Rightarrow> consume_escape p byte
      | VtEscapeIntermediate \<Rightarrow> consume_escape_intermediate p byte
      | VtCsiEntry \<Rightarrow> consume_csi p byte
      | VtCsiParam \<Rightarrow> consume_csi p byte
      | VtCsiIntermediate \<Rightarrow> consume_csi_intermediate p byte
      | VtCsiIgnore \<Rightarrow> consume_csi_ignore p byte
      | _ \<Rightarrow>
          if vp_escInString p
          then let collecting = vp_state p = VtOscString; p1 = p\<lparr>vp_escInString := False\<rparr>;
                   (p2, out) = (if collecting then let (p, e) = EmitOsc p1 in (p, [e]) else (p1, []))
               in if byte = 0x5C then (p2\<lparr>vp_state := VtGround\<rparr>, out)
                  else let (p', more) = Consume ((StartSequence (p2\<lparr>vp_osc := []\<rparr>))\<lparr>vp_state := VtEscape\<rparr>) byte
                       in (p', out @ more)
          else consume_string p byte)"
  by pat_completeness auto

text \<open>A second look at a byte is in a state that takes it at once.\<close>

termination
  by (relation "measure (\<lambda>x. case x of Inl (p, _) \<Rightarrow> (if vp_utf8Left p > 0 then 6 else 0)
        | Inr (p, _) \<Rightarrow> (if vp_utf8Left p > 0 then 6 else 0)
            + (if vp_state p = VtGround then 1 else if vp_state p = VtEscape then 0 else 4))")
    (auto simp: StartSequence_def EmitOsc_def Let_def split: if_splits prod.splits)

declare ConsumeGround.simps [simp del] Consume.simps [simp del]

fun Parse :: "VtParser \<Rightarrow> bytes \<Rightarrow> VtParser \<times> VtEvent list" where
  "Parse p [] = (p, [])"
| "Parse p (b # bs) = (let (p, out) = Consume p b; (p, more) = Parse p bs in (p, out @ more))"

section \<open>What holds of the parser\<close>

definition string_byte :: "u8 \<Rightarrow> bool" where
  "string_byte b \<longleftrightarrow> b \<noteq> kEsc \<and> b \<noteq> kBel \<and> b \<noteq> kCan \<and> b \<noteq> kSub"

definition glyph_ok :: "u32 \<Rightarrow> bool" where
  "glyph_ok cp \<longleftrightarrow> cp \<ge> 0x20 \<and> cp \<noteq> 0x7F \<and> cp \<le> kMaxCodepoint \<and> \<not> IsSurrogate cp"

definition params_ok :: "nat \<Rightarrow> int list \<Rightarrow> bool" where
  "params_ok n ps \<longleftrightarrow> length ps = kMaxVtParams \<and> n \<le> kMaxVtParams \<and> (\<forall>v\<in>set ps. kVtParamOmitted \<le> v \<and> v \<le> kMaxVtParamValue)"

definition text_ok :: "bytes \<Rightarrow> bool" where
  "text_ok t \<longleftrightarrow> length t \<le> kMaxOscBytes \<and> list_all string_byte t"

definition vp_fields :: "VtParser \<Rightarrow> bool" where
  "vp_fields p \<longleftrightarrow> params_ok (vp_paramCount p) (vp_params p) \<and> text_ok (vp_osc p)
     \<and> vp_utf8Left p \<le> 3 \<and> (vp_utf8Left p > 0 \<longrightarrow> vp_utf8Min p \<ge> 0x80)"

definition event_ok :: "VtEvent \<Rightarrow> bool" where
  "event_ok ev \<longleftrightarrow> params_ok (ve_paramCount ev) (ve_params ev) \<and> text_ok (ve_text ev)
     \<and> (ve_action ev = VtPrint \<longrightarrow> glyph_ok (ve_codepoint ev))"

abbreviation fine :: "VtParser \<times> VtEvent list \<Rightarrow> bool" where
  "fine r \<equiv> vp_fields (fst r) \<and> list_all event_ok (snd r)"

lemma vp_init_fields: "vp_fields vp_init"
  by (simp add: vp_fields_def vp_init_def params_ok_def text_ok_def kconsts)

lemma vp_Reset_fields: "vp_fields p \<Longrightarrow> vp_fields (vp_Reset p)"
  by (simp add: vp_fields_def vp_Reset_def params_ok_def text_ok_def kconsts)

lemma params_ok_init: "params_ok 0 (replicate kMaxVtParams 0)"
  by (simp add: params_ok_def kconsts)

lemma params_ok_set: "params_ok n ps \<Longrightarrow> kVtParamOmitted \<le> v \<Longrightarrow> v \<le> kMaxVtParamValue \<Longrightarrow> m \<le> kMaxVtParams \<Longrightarrow> params_ok m (ps[i := v])"
  using set_update_subset_insert [of ps i v] by (auto simp: params_ok_def)

lemma params_ok_nth: "params_ok n ps \<Longrightarrow> i < kMaxVtParams \<Longrightarrow> kVtParamOmitted \<le> ps ! i \<and> ps ! i \<le> kMaxVtParamValue"
  by (auto simp: params_ok_def)

lemma text_ok_Nil [simp]: "text_ok []"
  by (simp add: text_ok_def)

lemma Start_inv: "vp_fields p \<Longrightarrow> vp_fields ((StartSequence p)\<lparr>vp_state := st\<rparr>)" "vp_fields p \<Longrightarrow> vp_fields (StartSequence p)"
  by (auto simp: vp_fields_def StartSequence_def params_ok_def)

lemma simple_events:
  "event_ok (EmitExecute b)" "glyph_ok cp \<Longrightarrow> event_ok (EmitPrint cp)" "event_ok (EmitEsc p b)" "event_ok (EmitPrint kReplacement)"
  "vp_fields p \<Longrightarrow> event_ok (EmitCsi p b)"
  by (simp_all add: event_ok_def EmitExecute_def EmitPrint_def EmitEsc_def EmitCsi_def ve_init_def params_ok_init vp_fields_def
      glyph_ok_def IsSurrogate_def kReplacement_def kMaxCodepoint_def)

lemma param_digit: "IsParamByte b \<Longrightarrow> 0 \<le> uint b - 0x30 \<and> uint b - 0x30 \<le> 9"
  by (simp add: IsParamByte_def word_le_def)

lemma PushParamDigit_inv:
  assumes inv: "vp_fields p" and b: "IsParamByte b"
  shows "vp_fields ((PushParamDigit p b)\<lparr>vp_state := st\<rparr>)"
proof -
  define q where "q = (if vp_paramCount p = 0 then p\<lparr>vp_params := (vp_params p)[0 := 0], vp_paramCount := 1\<rparr> else p)"
  have q: "params_ok (vp_paramCount q) (vp_params q)" "vp_paramCount q \<noteq> 0"
    using inv params_ok_set [of _ "vp_params p" 0 1 0] by (auto simp: q_def vp_fields_def kconsts)
  then have c: "vp_paramCount q \<le> kMaxVtParams" by (simp add: params_ok_def)
  let ?i = "vp_paramCount q - 1"
  define slot where "slot = (if vp_params q ! ?i = kVtParamOmitted then 0 else vp_params q ! ?i) * 10 + (uint b - 0x30)"
  have "?i < kMaxVtParams" using q(2) c by simp
  then have s: "0 \<le> slot" using params_ok_nth [OF q(1)] param_digit [OF b] by (fastforce simp: slot_def kVtParamOmitted_def)
  have "params_ok (vp_paramCount q) ((vp_params q)[?i := (if slot > kMaxVtParamValue then kMaxVtParamValue else slot)])"
    using s by (intro params_ok_set [OF q(1)] c) (auto simp: kconsts)
  moreover have "PushParamDigit p b = q\<lparr>vp_params := (vp_params q)[?i := (if slot > kMaxVtParamValue then kMaxVtParamValue else slot)]\<rparr>"
    unfolding PushParamDigit_def q_def [symmetric] slot_def Let_def ..
  moreover have "vp_osc q = vp_osc p \<and> vp_utf8Left q = vp_utf8Left p \<and> vp_utf8Min q = vp_utf8Min p" by (simp add: q_def)
  ultimately show ?thesis using inv by (simp add: vp_fields_def)
qed

lemma PushParamSeparator_inv:
  assumes inv: "vp_fields p"
  shows "vp_fields ((PushParamSeparator p)\<lparr>vp_state := st\<rparr>)"
proof -
  define q where "q = (if vp_paramCount p = 0 then p\<lparr>vp_params := (vp_params p)[0 := kVtParamOmitted], vp_paramCount := 1\<rparr> else p)"
  have q: "params_ok (vp_paramCount q) (vp_params q)"
    using inv params_ok_set [of _ "vp_params p" kVtParamOmitted 1 0] by (auto simp: q_def vp_fields_def kconsts)
  have "vp_osc q = vp_osc p \<and> vp_utf8Left q = vp_utf8Left p \<and> vp_utf8Min q = vp_utf8Min p" by (simp add: q_def)
  moreover have "params_ok (Suc (vp_paramCount q)) ((vp_params q)[vp_paramCount q := kVtParamOmitted])" if "vp_paramCount q < kMaxVtParams"
    using that by (intro params_ok_set [OF q]) (auto simp: kconsts)
  ultimately show ?thesis using inv q unfolding PushParamSeparator_def q_def [symmetric] Let_def by (simp add: vp_fields_def)
qed

lemma osc_command_suffix:
  "0 \<le> command \<Longrightarrow> command \<le> kMaxVtParamValue \<Longrightarrow> \<exists>ds. cs = ds @ snd (osc_command command cs) \<and> 0 \<le> fst (osc_command command cs)
    \<and> fst (osc_command command cs) \<le> kMaxVtParamValue"
proof (induction cs arbitrary: command)
  case (Cons c cs)
  let ?v = "let v = command * 10 + (uint c - 0x30) in if v > kMaxVtParamValue then kMaxVtParamValue else v"
  show ?case
  proof (cases "c \<ge> 0x30 \<and> c \<le> 0x39")
    case True
    then have "0 \<le> ?v" "?v \<le> kMaxVtParamValue"
      using param_digit [of c] Cons.prems by (auto simp: Let_def IsParamByte_def kconsts)
    from Cons.IH [OF this] obtain ds where "cs = ds @ snd (osc_command ?v cs)" "0 \<le> fst (osc_command ?v cs)" "fst (osc_command ?v cs) \<le> kMaxVtParamValue" by blast
    then show ?thesis using True by (intro exI [of _ "c # ds"]) simp
  next
    case False
    then have "osc_command command (c # cs) = (command, c # cs)" by auto
    then show ?thesis using Cons.prems by simp
  qed
qed (simp add: kconsts)

lemma EmitOsc_ok:
  assumes inv: "vp_fields p"
  shows "vp_fields (fst (EmitOsc p))" "event_ok (snd (EmitOsc p))" "fst (EmitOsc p) = p\<lparr>vp_osc := []\<rparr>"
proof -
  obtain command rest where r: "osc_command 0 (vp_osc p) = (command, rest)" by (cases "osc_command 0 (vp_osc p)")
  have "\<exists>ds. vp_osc p = ds @ rest \<and> 0 \<le> command \<and> command \<le> kMaxVtParamValue"
    using osc_command_suffix [of 0 "vp_osc p"] r by (simp add: kMaxVtParamValue_def)
  then obtain ds where d: "vp_osc p = ds @ rest" and c: "0 \<le> command" "command \<le> kMaxVtParamValue" by blast
  then have t: "text_ok rest" using inv by (auto simp: vp_fields_def text_ok_def)
  then have "text_ok (case rest of c # cs \<Rightarrow> if c = 0x3B then cs else rest | [] \<Rightarrow> rest)" by (auto simp: text_ok_def split: list.splits)
  moreover have "params_ok 1 ((replicate kMaxVtParams 0)[0 := (if length rest < length (vp_osc p) then command else kVtParamOmitted)])"
    using c by (intro params_ok_set [OF params_ok_init]) (auto simp: kconsts)
  ultimately show "event_ok (snd (EmitOsc p))" using r by (simp add: EmitOsc_def event_ok_def ve_init_def Let_def)
  show "fst (EmitOsc p) = p\<lparr>vp_osc := []\<rparr>" using r by (simp add: EmitOsc_def Let_def)
  then show "vp_fields (fst (EmitOsc p))" using inv by (simp add: vp_fields_def)
qed

lemma unat_u8: "unat (b :: u8) < 256"
  using unsigned_less [of b, where 'a = nat] by simp

lemma unat_ucast_u8: "unat (ucast (b :: u8) :: u32) = unat b"
proof -
  have "unat b < 2 ^ 32" using unat_u8 [of b] by simp
  then show ?thesis by (simp add: unsigned_ucast_eq take_bit_nat_eq_self)
qed

lemma ground_ok:
  assumes "vp_fields p"
  shows "b \<ge> 0x20 \<Longrightarrow> b \<noteq> kDel \<Longrightarrow> fine (ground_lead p b)" "0 < vp_utf8Left p \<Longrightarrow> fine (ground_more p b)" "fine (flush_utf8 p)"
proof -
  have "glyph_ok (ucast b)" if "b \<ge> 0x20" "b \<noteq> kDel" "b < 0x80"
  proof -
    have u: "unat (ucast b :: u32) = unat b" by (rule unat_ucast_u8)
    have "unat b < 128" "32 \<le> unat b" "unat b \<noteq> 127" using that by (simp_all add: word_less_nat_alt word_le_nat_alt kDel_def word_unat_eq_iff)
    then show ?thesis using u by (simp add: glyph_ok_def IsSurrogate_def kconsts word_le_nat_alt word_unat_eq_iff)
  qed
  then show "b \<ge> 0x20 \<Longrightarrow> b \<noteq> kDel \<Longrightarrow> fine (ground_lead p b)"
    using assms simple_events by (auto simp: ground_lead_def vp_fields_def)
  show "0 < vp_utf8Left p \<Longrightarrow> fine (ground_more p b)"
  proof -
    assume l: "0 < vp_utf8Left p"
    have "glyph_ok cp" if "vp_utf8Min p \<le> cp" "cp \<le> kMaxCodepoint" "\<not> IsSurrogate cp" for cp
    proof -
      have "0x80 \<le> cp" using that(1) assms l by (auto simp: vp_fields_def)
      then show ?thesis using that by (auto simp: glyph_ok_def word_le_nat_alt)
    qed
    then show ?thesis using assms l simple_events by (auto simp: ground_more_def vp_fields_def Let_def)
  qed
  show "fine (flush_utf8 p)" using assms simple_events by (auto simp: flush_utf8_def vp_fields_def)
qed

lemma consume_parts_ok:
  assumes inv: "vp_fields p"
  shows "fine (consume_escape p b)" "fine (consume_escape_intermediate p b)" "fine (consume_csi p b)"
    "fine (consume_csi_intermediate p b)" "fine (consume_csi_ignore p b)" "fine (consume_string p b)"
proof -
  have st: "vp_fields (p\<lparr>vp_state := st\<rparr>)" "vp_fields (p\<lparr>vp_intermediate := x\<rparr>)" "vp_fields (p\<lparr>vp_intermediate := x, vp_state := st\<rparr>)"
    "vp_fields (p\<lparr>vp_prefix := x, vp_state := st\<rparr>)" "vp_fields (p\<lparr>vp_escInString := True\<rparr>)" "vp_fields (p\<lparr>vp_osc := [], vp_state := st\<rparr>)" for st x
    using inv by (simp_all add: vp_fields_def)
  note facts = inv st Start_inv [OF inv] simple_events PushParamDigit_inv [OF inv] PushParamSeparator_inv [OF inv]
  show "fine (consume_escape p b)" using facts by (simp add: consume_escape_def)
  show "fine (consume_escape_intermediate p b)" using facts by (simp add: consume_escape_intermediate_def)
  show "fine (consume_csi p b)" using facts by (simp add: consume_csi_def)
  show "fine (consume_csi_intermediate p b)" using facts by (simp add: consume_csi_intermediate_def)
  show "fine (consume_csi_ignore p b)" using facts by (simp add: consume_csi_ignore_def)
  have osc: "vp_fields (p\<lparr>vp_osc := vp_osc p @ [b]\<rparr>)" if "string_byte b" "length (vp_osc p) < kMaxOscBytes"
    using inv that by (simp add: vp_fields_def text_ok_def)
  show "fine (consume_string p b)"
    using facts osc EmitOsc_ok [OF inv] by (auto simp: consume_string_def string_byte_def Let_def case_prod_beta)
qed

lemma Consume_fine:
  "vp_fields p \<Longrightarrow> b \<ge> 0x20 \<Longrightarrow> b \<noteq> kDel \<Longrightarrow> fine (ConsumeGround p b)"
  "vp_fields p \<Longrightarrow> fine (Consume p b)"
proof (induction p b and p b rule: ConsumeGround_Consume.induct)
  case (1 p b)
  have "vp_fields (p\<lparr>vp_utf8Left := 0\<rparr>)" using "1.prems"(1) by (simp add: vp_fields_def)
  then show ?case
    using "1.IH" ground_ok [OF "1.prems"(1)] "1.prems" simple_events(4) by (auto simp: ConsumeGround.simps case_prod_beta)
next
  case (2 p b)
  note parts = consume_parts_ok [OF "2.prems"]
  obtain p1 out where fl: "flush_utf8 p = (p1, out)" by (cases "flush_utf8 p")
  then have f: "vp_fields p1" "list_all event_ok out" using ground_ok(3) [OF "2.prems"] by simp_all
  show ?case
  proof (cases "vp_state p = VtOscString \<or> vp_state p = VtStringIgnore")
    case False
    then show ?thesis using parts "2.IH"(1) "2.prems" f fl Start_inv(1) [OF f(1)] simple_events(1)
      by (cases "vp_state p"; auto simp: Consume.simps [of p b])
  next
    case True
    show ?thesis
    proof (cases "vp_escInString p")
      case False
      then show ?thesis using True parts by (auto simp: Consume.simps [of p b])
    next
      case esc: True
      let ?p1 = "p\<lparr>vp_escInString := False\<rparr>"
      have p1: "vp_fields ?p1" using "2.prems" by (simp add: vp_fields_def)
      obtain p2 out2 where em: "(if vp_state p = VtOscString then let (p, e) = EmitOsc ?p1 in (p, [e]) else (?p1, [])) = (p2, out2)" by fastforce
      then have e: "vp_fields p2" "list_all event_ok out2" using EmitOsc_ok [OF p1] p1 by (auto split: if_splits prod.splits)
      let ?q = "(StartSequence (p2\<lparr>vp_osc := []\<rparr>))\<lparr>vp_state := VtEscape\<rparr>"
      have q: "vp_fields ?q" using e(1) by (intro Start_inv) (simp add: vp_fields_def)
      have next_ok: "fine (Consume ?q b)" using consume_parts_ok(1) [OF q] by (simp add: Consume.simps)
      have "Consume p b = (if b = 0x5C then (p2\<lparr>vp_state := VtGround\<rparr>, out2) else let (p', more) = Consume ?q b in (p', out2 @ more))"
        using True esc em unfolding Consume.simps [of p b] by (auto simp: Let_def)
      then show ?thesis using e next_ok by (auto simp: vp_fields_def case_prod_beta)
    qed
  qed
qed

lemma Parse_fine: "vp_fields p \<Longrightarrow> fine (Parse p bs)"
proof (induction bs arbitrary: p)
  case (Cons b bs)
  obtain p1 out where one: "Consume p b = (p1, out)" by (cases "Consume p b")
  obtain p2 more where two: "Parse p1 bs = (p2, more)" by (cases "Parse p1 bs")
  show ?case using Consume_fine(2) [OF Cons.prems, of b] Cons.IH [of p1] one two by simp
qed simp

text \<open>Where a text is cut does not matter.\<close>

text \<open>Bytes of a character are only awaited in the ground state.\<close>

definition calm :: "VtParser \<Rightarrow> bool" where
  "calm p \<longleftrightarrow> vp_state p = VtGround \<or> vp_utf8Left p = 0"

lemma StartSequence_left [simp]: "vp_utf8Left (StartSequence p) = vp_utf8Left p"
  by (simp add: StartSequence_def)

lemma Push_left [simp]: "vp_utf8Left (PushParamDigit p b) = vp_utf8Left p" "vp_utf8Left (PushParamSeparator p) = vp_utf8Left p"
  by (simp_all add: PushParamDigit_def PushParamSeparator_def Let_def)

lemma EmitOsc_left [simp]: "vp_utf8Left (fst (EmitOsc p)) = vp_utf8Left p"
  by (simp add: EmitOsc_def Let_def case_prod_beta)

lemma parts_calm:
  assumes "vp_utf8Left p = 0"
  shows "calm (fst (consume_escape p b))" "calm (fst (consume_escape_intermediate p b))" "calm (fst (consume_csi p b))"
    "calm (fst (consume_csi_intermediate p b))" "calm (fst (consume_csi_ignore p b))" "calm (fst (consume_string p b))"
  using assms
  by (simp_all add: calm_def consume_escape_def consume_escape_intermediate_def consume_csi_def consume_csi_intermediate_def
      consume_csi_ignore_def consume_string_def Let_def case_prod_beta)

lemma ground_calm: "vp_state p = VtGround \<Longrightarrow> vp_state (fst (ground_lead p b)) = VtGround"
  "vp_state p = VtGround \<Longrightarrow> vp_state (fst (ground_more p b)) = VtGround"
  by (simp_all add: ground_lead_def ground_more_def Let_def)

lemma Consume_calm:
  "vp_state p = VtGround \<Longrightarrow> calm (fst (ConsumeGround p b))"
  "calm p \<Longrightarrow> calm (fst (Consume p b))"
proof (induction p b and p b rule: ConsumeGround_Consume.induct)
  case (1 p b)
  then show ?case using ground_calm [OF "1.prems"] by (auto simp: ConsumeGround.simps case_prod_beta calm_def)
next
  case (2 p b)
  show ?case
  proof (cases "vp_state p = VtGround")
    case True
    then show ?thesis using "2.IH"(1) by (auto simp: Consume.simps [of p b] flush_utf8_def calm_def)
  next
    case False
    then have left: "vp_utf8Left p = 0" using "2.prems" by (simp add: calm_def)
    have again: "calm (fst (Consume q b))" if "vp_state q = VtEscape" "vp_utf8Left q = 0" for q
      using parts_calm(1) [OF that(2)] that by (simp add: Consume.simps [of q b])
    show ?thesis using False left parts_calm [OF left] again
      by (cases "vp_state p") (auto simp: Consume.simps [of p b] Let_def case_prod_beta calm_def)
  qed
qed

definition vp_inv :: "VtParser \<Rightarrow> bool" where
  "vp_inv p \<longleftrightarrow> vp_fields p \<and> calm p"

lemma vp_init_inv: "vp_inv vp_init"
  using vp_init_fields by (simp add: vp_inv_def calm_def vp_init_def)

lemma vp_Reset_inv: "vp_inv p \<Longrightarrow> vp_inv (vp_Reset p)"
  using vp_Reset_fields by (simp add: vp_inv_def calm_def vp_Reset_def)

lemma Parse_inv: "vp_inv p \<Longrightarrow> vp_inv (fst (Parse p bs)) \<and> list_all event_ok (snd (Parse p bs))"
proof -
  have "calm p \<Longrightarrow> calm (fst (Parse p bs))"
    by (induction bs arbitrary: p) (auto simp: case_prod_beta Let_def Consume_calm(2))
  then show "vp_inv p \<Longrightarrow> ?thesis" using Parse_fine [of p bs] by (simp add: vp_inv_def)
qed

lemma Parse_append: "Parse p (xs @ ys) = (let (p, out) = Parse p xs; (p, more) = Parse p ys in (p, out @ more))"
  by (induction xs arbitrary: p) (simp_all add: case_prod_beta Let_def)

lemma Parse_then:
  "Parse p xs = (p1, out1) \<Longrightarrow> Parse p1 ys = (p2, out2) \<Longrightarrow> Parse p (xs @ ys) = (p2, out1 @ out2)"
  by (simp add: Parse_append)

end
