(* ===== verification/TermScreen.thy ===== *)
theory TermScreen
  imports VtParser WireBuild StdVector
begin

text \<open>
  The screen of a terminal (\<open>core/include/deskhub/terminal/Screen.h\<close>,
  \<open>core/src/terminal/Screen.cpp\<close>): a grid of cells, a cursor, and what each event of the parser does
  to them. Rows and columns are \<open>nat\<close>; where the code casts to \<open>uint16_t\<close> the model does, by \<open>c16\<close>.
  An operation is \<open>None\<close> where the code would leave the grid or a row.
\<close>

definition kDefaultScrollback :: nat where [kconsts]: "kDefaultScrollback = 2000"
definition kMaxScrollback :: nat where [kconsts]: "kMaxScrollback = 100000"
definition kTabWidth :: nat where [kconsts]: "kTabWidth = 8"
definition kMaxTitleBytes :: nat where [kconsts]: "kMaxTitleBytes = 256"
definition kMaxResponseBytes :: nat where [kconsts]: "kMaxResponseBytes = 4096"
definition kAttrBold :: u8 where [kconsts]: "kAttrBold = 1"
definition kAttrDim :: u8 where [kconsts]: "kAttrDim = 2"
definition kAttrItalic :: u8 where [kconsts]: "kAttrItalic = 4"
definition kAttrUnderline :: u8 where [kconsts]: "kAttrUnderline = 8"
definition kAttrBlink :: u8 where [kconsts]: "kAttrBlink = 16"
definition kAttrReverse :: u8 where [kconsts]: "kAttrReverse = 32"
definition kAttrHidden :: u8 where [kconsts]: "kAttrHidden = 64"
definition kAttrStrike :: u8 where [kconsts]: "kAttrStrike = 128"

datatype ColorKind = ColorDefault | ColorPalette | ColorRgb

record Color =
  co_kind :: ColorKind
  co_r :: u8
  co_g :: u8
  co_b :: u8

record Pen =
  pen_fg :: Color
  pen_bg :: Color
  pen_attrs :: u8

record Cell =
  ce_ch :: u32
  ce_pen :: Pen

record CursorState =
  cu_row :: nat
  cu_col :: nat
  cu_visible :: bool

record TerminalModes =
  mo_applicationCursor :: bool
  mo_applicationKeypad :: bool
  mo_bracketedPaste :: bool
  mo_autoWrap :: bool
  mo_insert :: bool
  mo_origin :: bool
  mo_mouseReporting :: bool
  mo_reverseVideo :: bool

type_synonym grid = "Cell list list"

record Screen =
  sc_size :: TermSize
  sc_scrollbackLimit :: nat
  sc_grid :: grid
  sc_savedGrid :: grid
  sc_scrollback :: grid
  sc_parser :: VtParser
  sc_cursor :: CursorState
  sc_savedCursor :: CursorState
  sc_pen :: Pen
  sc_savedPen :: Pen
  sc_modes :: TerminalModes
  sc_scrollTop :: nat
  sc_scrollBottom :: nat
  sc_pendingWrap :: bool
  sc_alternate :: bool
  sc_graphicsG0 :: bool
  sc_graphicsG1 :: bool
  sc_shiftedOut :: bool
  sc_savedShiftedOut :: bool
  sc_title :: bytes
  sc_response :: bytes
  sc_revision :: u64

definition color_init :: Color where
  "color_init = \<lparr>co_kind = ColorDefault, co_r = 0, co_g = 0, co_b = 0\<rparr>"

definition pen_init :: Pen where
  "pen_init = \<lparr>pen_fg = color_init, pen_bg = color_init, pen_attrs = 0\<rparr>"

definition cell_init :: Cell where
  "cell_init = \<lparr>ce_ch = 0x20, ce_pen = pen_init\<rparr>"

definition cursor_init :: CursorState where
  "cursor_init = \<lparr>cu_row = 0, cu_col = 0, cu_visible = True\<rparr>"

definition modes_init :: TerminalModes where
  "modes_init = \<lparr>mo_applicationCursor = False, mo_applicationKeypad = False, mo_bracketedPaste = False, mo_autoWrap = True,
     mo_insert = False, mo_origin = False, mo_mouseReporting = False, mo_reverseVideo = False\<rparr>"

definition PaletteColor :: "u8 \<Rightarrow> Color" where
  "PaletteColor index = \<lparr>co_kind = ColorPalette, co_r = index, co_g = 0, co_b = 0\<rparr>"

definition RgbColor :: "u8 \<Rightarrow> u8 \<Rightarrow> u8 \<Rightarrow> Color" where
  "RgbColor r g b = \<lparr>co_kind = ColorRgb, co_r = r, co_g = g, co_b = b\<rparr>"

definition Cols :: "Screen \<Rightarrow> nat" where "Cols s = unat (ts_cols (sc_size s))"
definition Rows :: "Screen \<Rightarrow> nat" where "Rows s = unat (ts_rows (sc_size s))"

text \<open>A cast to \<open>uint16_t\<close>, and \<open>std::clamp\<close>.\<close>

definition c16 :: "int \<Rightarrow> nat" where
  "c16 v = nat (v mod 65536)"

definition clamp :: "int \<Rightarrow> int \<Rightarrow> int \<Rightarrow> int" where
  "clamp v lo hi = (if v < lo then lo else if hi < v then hi else v)"

definition sc_init :: "TermSize \<Rightarrow> nat \<Rightarrow> Screen" where
  "sc_init size0 limit =
     (let size1 = ClampTermSize size0; rows = unat (ts_rows size1); cols = unat (ts_cols size1) in
      \<lparr>sc_size = size1, sc_scrollbackLimit = min limit kMaxScrollback, sc_grid = replicate rows (replicate cols cell_init),
       sc_savedGrid = [], sc_scrollback = [], sc_parser = vp_init, sc_cursor = cursor_init, sc_savedCursor = cursor_init,
       sc_pen = pen_init, sc_savedPen = pen_init, sc_modes = modes_init, sc_scrollTop = 0, sc_scrollBottom = c16 (int rows - 1),
       sc_pendingWrap = False, sc_alternate = False, sc_graphicsG0 = False, sc_graphicsG1 = False, sc_shiftedOut = False,
       sc_savedShiftedOut = False, sc_title = [], sc_response = [], sc_revision = 0\<rparr>)"

definition ClampCount :: "int \<Rightarrow> nat \<Rightarrow> nat" where
  "ClampCount v limit = (if v < 1 then 1 else if v > int limit then limit else nat v)"

text \<open>The color of a parameter list, and the parameter to go on after.\<close>

definition ExtendedColor :: "VtEvent \<Rightarrow> nat \<Rightarrow> Color \<times> nat" where
  "ExtendedColor ev i =
     (let kind = ve_Param ev (i + 1) 0 in
      if kind = 5 then (PaletteColor (of_int (clamp (ve_Param ev (i + 2) 0) 0 255)), i + 2)
      else if kind = 2
      then let first = (if ve_paramCount ev > i + 2 \<and> ve_params ev ! (i + 2) = kVtParamOmitted then i + 3 else i + 2)
           in (RgbColor (of_int (clamp (ve_Param ev first 0) 0 255)) (of_int (clamp (ve_Param ev (first + 1) 0) 0 255))
                 (of_int (clamp (ve_Param ev (first + 2) 0) 0 255)), first + 2)
      else (color_init, i + 1))"

definition DecSpecialGraphic :: "u32 \<Rightarrow> u32" where
  "DecSpecialGraphic cp =
     (if cp < 0x60 \<or> cp > 0x7E then cp
      else [0x25C6, 0x2592, 0x2409, 0x240C, 0x240D, 0x240A, 0x00B0, 0x00B1, 0x2424, 0x240B, 0x2518, 0x2510, 0x250C, 0x2514,
            0x253C, 0x23BA, 0x23BB, 0x2500, 0x23BC, 0x23BD, 0x251C, 0x2524, 0x2534, 0x252C, 0x2502, 0x2264, 0x2265, 0x03C0,
            0x2260, 0x00A3, 0x00B7] ! unat (cp - 0x60))"

section \<open>The grid\<close>

definition set_row :: "grid \<Rightarrow> nat \<Rightarrow> (Cell list \<Rightarrow> Cell list checked) \<Rightarrow> grid checked" where
  "set_row g r f = do { row \<leftarrow> vec_at g r; row \<leftarrow> f row; Some (g[r := row]) }"

text \<open>\<open>CellAt(r, c) = cell\<close>, \<open>row.insert(row.begin() + c, n, cell)\<close>, \<open>row.erase(\<dots>)\<close> of \<open>n\<close> cells.\<close>

definition put_cell :: "nat \<Rightarrow> Cell \<Rightarrow> Cell list \<Rightarrow> Cell list checked" where
  "put_cell c cell row = (if c < length row then Some (row[c := cell]) else None)"

definition row_insert :: "nat \<Rightarrow> nat \<Rightarrow> Cell \<Rightarrow> Cell list \<Rightarrow> Cell list checked" where
  "row_insert c n cell row = (if c \<le> length row then Some (take c row @ replicate n cell @ drop c row) else None)"

definition row_erase :: "nat \<Rightarrow> nat \<Rightarrow> Cell list \<Rightarrow> Cell list checked" where
  "row_erase c n row = (if c + n \<le> length row then Some (take c row @ drop (c + n) row) else None)"

fun put_cells :: "nat list \<Rightarrow> Cell \<Rightarrow> Cell list \<Rightarrow> Cell list checked" where
  "put_cells [] cell row = Some row"
| "put_cells (c # cs) cell row = do { row \<leftarrow> put_cell c cell row; put_cells cs cell row }"

fun set_rows :: "nat list \<Rightarrow> (Cell list \<Rightarrow> Cell list checked) \<Rightarrow> grid \<Rightarrow> grid checked" where
  "set_rows [] f g = Some g"
| "set_rows (r # rs) f g = do { g \<leftarrow> set_row g r f; set_rows rs f g }"

text \<open>\<open>std::rotate\<close> of a range.\<close>

definition rotate_range :: "nat \<Rightarrow> nat \<Rightarrow> nat \<Rightarrow> 'a list \<Rightarrow> 'a list checked" where
  "rotate_range first mid stop xs =
     (if first \<le> mid \<and> mid \<le> stop \<and> stop \<le> length xs
      then Some (take first xs @ take (stop - mid) (drop mid xs) @ take (mid - first) (drop first xs) @ drop stop xs) else None)"

definition on_grid :: "Screen \<Rightarrow> grid checked \<Rightarrow> Screen checked" where
  "on_grid s g = do { g \<leftarrow> g; Some (s\<lparr>sc_grid := g\<rparr>) }"

definition BlankCell :: "Screen \<Rightarrow> Cell" where
  "BlankCell s = cell_init\<lparr>ce_pen := pen_init\<lparr>pen_bg := pen_bg (sc_pen s)\<rparr>\<rparr>"

definition blank_row :: "Screen \<Rightarrow> Cell list" where
  "blank_row s = replicate (Cols s) (BlankCell s)"

section \<open>Looking at the screen\<close>

definition sc_At :: "Screen \<Rightarrow> nat \<Rightarrow> nat \<Rightarrow> Cell checked" where
  "sc_At s r c = (if r \<ge> Rows s \<or> c \<ge> Cols s then Some cell_init else do { row \<leftarrow> vec_at (sc_grid s) r; vec_at row c })"

fun trim_spaces :: "bytes \<Rightarrow> bytes" where
  "trim_spaces [] = []"
| "trim_spaces (c # cs) = (let t = trim_spaces cs in if t = [] \<and> c = 0x20 then [] else c # t)"

definition RowText :: "Screen \<Rightarrow> nat \<Rightarrow> bytes checked" where
  "RowText s r =
     (if r \<ge> Rows s then Some []
      else do { row \<leftarrow> vec_at (sc_grid s) r; Some (trim_spaces (concat (map (\<lambda>c. EncodeUtf8 (ce_ch c)) row))) })"

fun rows_text :: "Screen \<Rightarrow> nat list \<Rightarrow> bytes checked" where
  "rows_text s [] = Some []"
| "rows_text s (r # rs) = do {
     t \<leftarrow> RowText s r;
     more \<leftarrow> rows_text s rs;
     Some (t @ (if r + 1 < Rows s then [0x0A] else []) @ more)
   }"

definition sc_Text :: "Screen \<Rightarrow> bytes checked" where
  "sc_Text s = rows_text s [0..<Rows s]"

definition ScrollbackAt :: "Screen \<Rightarrow> nat \<Rightarrow> nat \<Rightarrow> Cell" where
  "ScrollbackAt s r c =
     (if r \<ge> length (sc_scrollback s) \<or> c \<ge> length (sc_scrollback s ! r) then cell_init else sc_scrollback s ! r ! c)"

definition TakeResponse :: "Screen \<Rightarrow> bytes \<times> Screen" where
  "TakeResponse s = (sc_response s, s\<lparr>sc_response := []\<rparr>)"

definition Respond :: "Screen \<Rightarrow> bytes \<Rightarrow> Screen" where
  "Respond s t = (if length (sc_response s) + length t > kMaxResponseBytes then s else s\<lparr>sc_response := sc_response s @ t\<rparr>)"

fun trim_front :: "nat \<Rightarrow> grid \<Rightarrow> Cell list \<Rightarrow> grid \<times> Cell list" where
  "trim_front limit [] recycled = ([], recycled)"
| "trim_front limit (r # rs) recycled = (if length (r # rs) > limit then trim_front limit rs r else (r # rs, recycled))"

definition PushScrollback :: "Screen \<Rightarrow> Cell list \<Rightarrow> Screen \<times> Cell list" where
  "PushScrollback s row =
     (if sc_scrollbackLimit s = 0 then (s, row)
      else let (sb, recycled) = trim_front (sc_scrollbackLimit s) (sc_scrollback s @ [row]) []
           in (s\<lparr>sc_scrollback := sb\<rparr>, recycled))"

section \<open>Moving and scrolling\<close>

abbreviation set_col :: "Screen \<Rightarrow> nat \<Rightarrow> Screen" where
  "set_col s c \<equiv> s\<lparr>sc_cursor := (sc_cursor s)\<lparr>cu_col := c\<rparr>\<rparr>"

abbreviation set_cursor_row :: "Screen \<Rightarrow> nat \<Rightarrow> Screen" where
  "set_cursor_row s r \<equiv> s\<lparr>sc_cursor := (sc_cursor s)\<lparr>cu_row := r\<rparr>\<rparr>"

abbreviation no_wrap :: "Screen \<Rightarrow> Screen" where
  "no_wrap s \<equiv> s\<lparr>sc_pendingWrap := False\<rparr>"

definition CarriageReturn :: "Screen \<Rightarrow> Screen" where
  "CarriageReturn s = no_wrap (set_col s 0)"

definition sc_Backspace :: "Screen \<Rightarrow> Screen" where
  "sc_Backspace s =
     (if sc_pendingWrap s then no_wrap s
      else if cu_col (sc_cursor s) > 0 then set_col s (cu_col (sc_cursor s) - 1) else s)"

definition tab_stop :: "Screen \<Rightarrow> Screen" where
  "tab_stop s =
     (let stop = c16 (int ((cu_col (sc_cursor s) div kTabWidth + 1) * kTabWidth))
      in set_col s (if stop \<ge> Cols s then c16 (int (Cols s) - 1) else stop))"

definition sc_Tab :: "nat \<Rightarrow> Screen \<Rightarrow> Screen" where
  "sc_Tab count s = no_wrap ((tab_stop ^^ count) s)"

definition back_tab_stop :: "Screen \<Rightarrow> Screen" where
  "back_tab_stop s =
     (if cu_col (sc_cursor s) = 0 then s
      else set_col s (c16 (int (((cu_col (sc_cursor s) - 1) div kTabWidth) * kTabWidth))))"

definition BackTab :: "nat \<Rightarrow> Screen \<Rightarrow> Screen" where
  "BackTab count s = no_wrap ((back_tab_stop ^^ count) s)"

text \<open>The rows that leave at the top of the region, one after the other.\<close>

fun leave_rows :: "nat list \<Rightarrow> Screen \<Rightarrow> Screen checked" where
  "leave_rows [] s = Some s"
| "leave_rows (i # is) s = do {
     let r = sc_scrollTop s + i;
     row \<leftarrow> vec_at (sc_grid s) r;
     let (s, row) = (if sc_scrollTop s = 0 \<and> \<not> sc_alternate s then PushScrollback s row else (s, row));
     s \<leftarrow> on_grid s (set_row (sc_grid s) r (\<lambda>_. Some (blank_row s)));
     leave_rows is s
   }"

definition region_span :: "Screen \<Rightarrow> nat" where
  "region_span s = c16 (int (sc_scrollBottom s) - int (sc_scrollTop s) + 1)"

definition ScrollUp :: "nat \<Rightarrow> Screen \<Rightarrow> Screen checked" where
  "ScrollUp count s =
     (let n = min count (region_span s) in
      if n = 0 then Some s
      else do {
        s \<leftarrow> leave_rows [0..<n] s;
        on_grid s (rotate_range (sc_scrollTop s) (sc_scrollTop s + n) (sc_scrollBottom s + 1) (sc_grid s))
      })"

definition ScrollDown :: "nat \<Rightarrow> Screen \<Rightarrow> Screen checked" where
  "ScrollDown count s =
     (let n = min count (region_span s) in
      if n = 0 then Some s
      else on_grid s (do {
        g \<leftarrow> (if n \<le> sc_scrollBottom s + 1 then rotate_range (sc_scrollTop s) (sc_scrollBottom s + 1 - n) (sc_scrollBottom s + 1) (sc_grid s)
              else None);
        set_rows (map ((+) (sc_scrollTop s)) [0..<n]) (\<lambda>_. Some (blank_row s)) g
      }))"

definition LineFeed :: "Screen \<Rightarrow> Screen checked" where
  "LineFeed s =
     (let s = no_wrap s in
      if cu_row (sc_cursor s) = sc_scrollBottom s then ScrollUp 1 s
      else Some (if cu_row (sc_cursor s) + 1 < Rows s then set_cursor_row s (cu_row (sc_cursor s) + 1) else s))"

definition ReverseIndex :: "Screen \<Rightarrow> Screen checked" where
  "ReverseIndex s =
     (let s = no_wrap s in
      if cu_row (sc_cursor s) = sc_scrollTop s then ScrollDown 1 s
      else Some (if cu_row (sc_cursor s) > 0 then set_cursor_row s (cu_row (sc_cursor s) - 1) else s))"

definition row_limits :: "Screen \<Rightarrow> int \<times> int" where
  "row_limits s = (if mo_origin (sc_modes s) then (int (sc_scrollTop s), int (sc_scrollBottom s)) else (0, int (Rows s) - 1))"

definition MoveTo :: "int \<Rightarrow> int \<Rightarrow> Screen \<Rightarrow> Screen" where
  "MoveTo row col s =
     (let (topRow, bottomRow) = row_limits s
      in no_wrap (s\<lparr>sc_cursor := (sc_cursor s)\<lparr>cu_row := c16 (clamp (topRow + row) topRow bottomRow),
           cu_col := c16 (clamp col 0 (int (Cols s) - 1))\<rparr>\<rparr>))"

definition MoveBy :: "int \<Rightarrow> int \<Rightarrow> Screen \<Rightarrow> Screen" where
  "MoveBy rows cols s =
     (let (topRow, bottomRow) = row_limits s
      in no_wrap (s\<lparr>sc_cursor := (sc_cursor s)\<lparr>cu_row := c16 (clamp (int (cu_row (sc_cursor s)) + rows) topRow bottomRow),
           cu_col := c16 (clamp (int (cu_col (sc_cursor s)) + cols) 0 (int (Cols s) - 1))\<rparr>\<rparr>))"

definition SaveCursor :: "Screen \<Rightarrow> Screen" where
  "SaveCursor s = s\<lparr>sc_savedCursor := sc_cursor s, sc_savedPen := sc_pen s, sc_savedShiftedOut := sc_shiftedOut s\<rparr>"

definition RestoreCursor :: "Screen \<Rightarrow> Screen" where
  "RestoreCursor s = no_wrap (s\<lparr>sc_cursor := (sc_cursor s)\<lparr>cu_row := min (cu_row (sc_savedCursor s)) (c16 (int (Rows s) - 1)),
       cu_col := min (cu_col (sc_savedCursor s)) (c16 (int (Cols s) - 1))\<rparr>, sc_pen := sc_savedPen s, sc_shiftedOut := sc_savedShiftedOut s\<rparr>)"

definition SetScrollRegion :: "int \<Rightarrow> int \<Rightarrow> Screen \<Rightarrow> Screen" where
  "SetScrollRegion topRow bottomRow s =
     (let topRow = (if topRow < 1 then 1 else topRow);
          bottomRow = (if bottomRow < 1 \<or> bottomRow > int (Rows s) then int (Rows s) else bottomRow);
          s = (if topRow \<ge> bottomRow then s\<lparr>sc_scrollTop := 0, sc_scrollBottom := c16 (int (Rows s) - 1)\<rparr>
               else s\<lparr>sc_scrollTop := c16 (topRow - 1), sc_scrollBottom := c16 (bottomRow - 1)\<rparr>)
      in MoveTo 0 0 s)"

section \<open>Erasing, inserting, deleting\<close>

definition EraseInDisplay :: "int \<Rightarrow> Screen \<Rightarrow> Screen checked" where
  "EraseInDisplay how s =
     (let row = cu_row (sc_cursor s); col = cu_col (sc_cursor s); blank = BlankCell s; whole = (\<lambda>_. Some (blank_row s)) in
      if how = 1
      then on_grid s (do {
        g \<leftarrow> set_rows [0..<row] whole (sc_grid s);
        set_row g row (put_cells [0..<min (col + 1) (Cols s)] blank)
      })
      else if how = 2 \<or> how = 3
      then on_grid (if how = 3 then s\<lparr>sc_scrollback := []\<rparr> else s) (set_rows [0..<Rows s] whole (sc_grid s))
      else on_grid s (do {
        g \<leftarrow> set_row (sc_grid s) row (put_cells [col..<Cols s] blank);
        set_rows [c16 (int row + 1)..<Rows s] whole g
      }))"

definition EraseInLine :: "int \<Rightarrow> Screen \<Rightarrow> Screen checked" where
  "EraseInLine how s =
     (let row = cu_row (sc_cursor s); col = cu_col (sc_cursor s); blank = BlankCell s in
      on_grid s (set_row (sc_grid s) row
        (if how = 1 then put_cells [0..<min (col + 1) (Cols s)] blank
         else if how = 2 then (\<lambda>_. Some (blank_row s))
         else put_cells [col..<Cols s] blank)))"

definition InsertLines :: "nat \<Rightarrow> Screen \<Rightarrow> Screen checked" where
  "InsertLines count s =
     (if cu_row (sc_cursor s) < sc_scrollTop s \<or> cu_row (sc_cursor s) > sc_scrollBottom s then Some s
      else do {
        s' \<leftarrow> ScrollDown count (s\<lparr>sc_scrollTop := cu_row (sc_cursor s)\<rparr>);
        Some (no_wrap (set_col (s'\<lparr>sc_scrollTop := sc_scrollTop s\<rparr>) 0))
      })"

definition DeleteLines :: "nat \<Rightarrow> Screen \<Rightarrow> Screen checked" where
  "DeleteLines count s =
     (if cu_row (sc_cursor s) < sc_scrollTop s \<or> cu_row (sc_cursor s) > sc_scrollBottom s then Some s
      else do {
        s' \<leftarrow> ScrollUp count (s\<lparr>sc_scrollTop := cu_row (sc_cursor s)\<rparr>);
        Some (no_wrap (set_col (s'\<lparr>sc_scrollTop := sc_scrollTop s\<rparr>) 0))
      })"

definition InsertChars :: "nat \<Rightarrow> Screen \<Rightarrow> Screen checked" where
  "InsertChars count s =
     (let col = cu_col (sc_cursor s); n = min count (c16 (int (Cols s) - int col)) in do {
      s \<leftarrow> on_grid s (set_row (sc_grid s) (cu_row (sc_cursor s)) (\<lambda>row. do {
        row \<leftarrow> row_insert col n (BlankCell s) row;
        Some (resize row (Cols s) cell_init)
      }));
      Some (no_wrap s)
    })"

definition DeleteChars :: "nat \<Rightarrow> Screen \<Rightarrow> Screen checked" where
  "DeleteChars count s =
     (let col = cu_col (sc_cursor s); n = min count (c16 (int (Cols s) - int col)) in do {
      s \<leftarrow> on_grid s (set_row (sc_grid s) (cu_row (sc_cursor s)) (\<lambda>row. do {
        row \<leftarrow> row_erase col n row;
        Some (resize row (Cols s) (BlankCell s))
      }));
      Some (no_wrap s)
    })"

definition EraseChars :: "nat \<Rightarrow> Screen \<Rightarrow> Screen checked" where
  "EraseChars count s =
     (let col = cu_col (sc_cursor s); stop = min (c16 (int (col + count))) (Cols s) in do {
      s \<leftarrow> on_grid s (set_row (sc_grid s) (cu_row (sc_cursor s)) (put_cells [col..<stop] (BlankCell s)));
      Some (no_wrap s)
    })"

section \<open>What an event does\<close>

definition put_glyph :: "Screen \<Rightarrow> u32 \<Rightarrow> Screen checked" where
  "put_glyph s glyph =
     on_grid s (set_row (sc_grid s) (cu_row (sc_cursor s)) (put_cell (cu_col (sc_cursor s)) \<lparr>ce_ch = glyph, ce_pen = sc_pen s\<rparr>))"

definition sc_Print :: "u32 \<Rightarrow> Screen \<Rightarrow> Screen checked" where
  "sc_Print cp s = do {
     s \<leftarrow> (if sc_pendingWrap s \<and> mo_autoWrap (sc_modes s) then LineFeed (set_col s 0) else Some s);
     let s = no_wrap s;
     let s = (if cu_col (sc_cursor s) \<ge> Cols s then set_col s (c16 (int (Cols s) - 1)) else s);
     let graphics = (if sc_shiftedOut s then sc_graphicsG1 s else sc_graphicsG0 s);
     let glyph = (if graphics then DecSpecialGraphic cp else cp);
     s \<leftarrow> (if mo_insert (sc_modes s)
           then on_grid s (set_row (sc_grid s) (cu_row (sc_cursor s)) (\<lambda>row. do {
             row \<leftarrow> row_insert (cu_col (sc_cursor s)) 1 (BlankCell s) row;
             Some (resize row (Cols s) cell_init)
           }))
           else Some s);
     s \<leftarrow> put_glyph s glyph;
     Some (if cu_col (sc_cursor s) + 1 \<ge> Cols s then s\<lparr>sc_pendingWrap := True\<rparr> else set_col s (cu_col (sc_cursor s) + 1))
   }"

definition sc_Execute :: "u8 \<Rightarrow> Screen \<Rightarrow> Screen checked" where
  "sc_Execute control s =
     (if control = 0x08 then Some (sc_Backspace s)
      else if control = 0x09 then Some (sc_Tab 1 s)
      else if control = 0x0A \<or> control = 0x0B \<or> control = 0x0C then LineFeed s
      else if control = 0x0D then Some (CarriageReturn s)
      else if control = 0x0E then Some (s\<lparr>sc_shiftedOut := True\<rparr>)
      else if control = 0x0F then Some (s\<lparr>sc_shiftedOut := False\<rparr>)
      else Some s)"

definition add_attr :: "u8 \<Rightarrow> Pen \<Rightarrow> Pen" where
  "add_attr a p = p\<lparr>pen_attrs := pen_attrs p OR a\<rparr>"

definition drop_attr :: "u8 \<Rightarrow> Pen \<Rightarrow> Pen" where
  "drop_attr a p = p\<lparr>pen_attrs := pen_attrs p AND NOT a\<rparr>"

text \<open>One round of the loop of \<open>Sgr\<close>: the pen, and the parameter the loop goes on after.\<close>

definition sgr_code :: "VtEvent \<Rightarrow> nat \<Rightarrow> Pen \<Rightarrow> Pen \<times> nat" where
  "sgr_code ev i p =
     (let code = ve_Param ev i 0 in
      if code = 0 then (pen_init, i)
      else if code = 1 then (add_attr kAttrBold p, i)
      else if code = 2 then (add_attr kAttrDim p, i)
      else if code = 3 then (add_attr kAttrItalic p, i)
      else if code = 4 then (add_attr kAttrUnderline p, i)
      else if code = 5 \<or> code = 6 then (add_attr kAttrBlink p, i)
      else if code = 7 then (add_attr kAttrReverse p, i)
      else if code = 8 then (add_attr kAttrHidden p, i)
      else if code = 9 then (add_attr kAttrStrike p, i)
      else if code = 21 \<or> code = 22 then (drop_attr (kAttrBold OR kAttrDim) p, i)
      else if code = 23 then (drop_attr kAttrItalic p, i)
      else if code = 24 then (drop_attr kAttrUnderline p, i)
      else if code = 25 then (drop_attr kAttrBlink p, i)
      else if code = 27 then (drop_attr kAttrReverse p, i)
      else if code = 28 then (drop_attr kAttrHidden p, i)
      else if code = 29 then (drop_attr kAttrStrike p, i)
      else if code = 38 then let (c, i) = ExtendedColor ev i in (p\<lparr>pen_fg := c\<rparr>, i)
      else if code = 39 then (p\<lparr>pen_fg := color_init\<rparr>, i)
      else if code = 48 then let (c, i) = ExtendedColor ev i in (p\<lparr>pen_bg := c\<rparr>, i)
      else if code = 49 then (p\<lparr>pen_bg := color_init\<rparr>, i)
      else if code \<ge> 30 \<and> code \<le> 37 then (p\<lparr>pen_fg := PaletteColor (of_int (code - 30))\<rparr>, i)
      else if code \<ge> 40 \<and> code \<le> 47 then (p\<lparr>pen_bg := PaletteColor (of_int (code - 40))\<rparr>, i)
      else if code \<ge> 90 \<and> code \<le> 97 then (p\<lparr>pen_fg := PaletteColor (of_int (code - 90 + 8))\<rparr>, i)
      else if code \<ge> 100 \<and> code \<le> 107 then (p\<lparr>pen_bg := PaletteColor (of_int (code - 100 + 8))\<rparr>, i)
      else (p, i))"

lemma sgr_code_at: "i \<le> snd (sgr_code ev i p)"
  by (simp add: sgr_code_def ExtendedColor_def Let_def case_prod_beta)

function sgr_from :: "VtEvent \<Rightarrow> nat \<Rightarrow> Pen \<Rightarrow> Pen" where
  "sgr_from ev i p =
     (if i < ve_paramCount ev then let (p, i) = sgr_code ev i p in sgr_from ev (i + 1) p else p)"
  by auto

termination
proof (relation "measure (\<lambda>(ev, i, p). ve_paramCount ev - i)")
  show "wf (measure (\<lambda>(ev, i, p). ve_paramCount ev - i))" by simp
  fix ev i p x q j
  assume "i < ve_paramCount ev" "x = sgr_code ev i p" "(q, j) = x"
  then have "i \<le> j" using sgr_code_at [of i ev p] by (metis snd_conv)
  then show "((ev, j + 1, q), (ev, i, p)) \<in> measure (\<lambda>(ev, i, p). ve_paramCount ev - i)" using \<open>i < ve_paramCount ev\<close> by simp
qed

declare sgr_from.simps [simp del]

definition Sgr :: "VtEvent \<Rightarrow> Screen \<Rightarrow> Screen" where
  "Sgr ev s = s\<lparr>sc_pen := (if ve_paramCount ev = 0 then pen_init else sgr_from ev 0 (sc_pen s))\<rparr>"

definition resize_rows :: "grid \<Rightarrow> nat \<Rightarrow> grid" where
  "resize_rows g cols = map (\<lambda>row. resize row cols cell_init) g"

definition SwitchScreen :: "bool \<Rightarrow> bool \<Rightarrow> Screen \<Rightarrow> Screen checked" where
  "SwitchScreen alternate clear s =
     (if alternate = sc_alternate s then if alternate \<and> clear then EraseInDisplay 2 s else Some s
      else let g = sc_savedGrid s;
               g = (if length g \<noteq> Rows s then replicate (Rows s) (replicate (Cols s) cell_init) else g);
               s = s\<lparr>sc_alternate := alternate, sc_savedGrid := sc_grid s, sc_grid := resize_rows g (Cols s)\<rparr>
           in if clear then EraseInDisplay 2 s else Some s)"

definition SetPrivateMode :: "int \<Rightarrow> bool \<Rightarrow> Screen \<Rightarrow> Screen checked" where
  "SetPrivateMode mode on s =
     (let m = sc_modes s in
      if mode = 1 then Some (s\<lparr>sc_modes := m\<lparr>mo_applicationCursor := on\<rparr>\<rparr>)
      else if mode = 5 then Some (s\<lparr>sc_modes := m\<lparr>mo_reverseVideo := on\<rparr>\<rparr>)
      else if mode = 6 then Some (MoveTo 0 0 (s\<lparr>sc_modes := m\<lparr>mo_origin := on\<rparr>\<rparr>))
      else if mode = 7 then Some (s\<lparr>sc_modes := m\<lparr>mo_autoWrap := on\<rparr>\<rparr>)
      else if mode = 25 then Some (s\<lparr>sc_cursor := (sc_cursor s)\<lparr>cu_visible := on\<rparr>\<rparr>)
      else if mode = 47 then SwitchScreen on False s
      else if mode = 1047
      then do { s \<leftarrow> (if \<not> on \<and> sc_alternate s then EraseInDisplay 2 s else Some s); SwitchScreen on False s }
      else if mode = 1048 then Some (if on then SaveCursor s else RestoreCursor s)
      else if mode = 1049
      then do {
        s \<leftarrow> SwitchScreen on on (if on then SaveCursor s else s);
        Some (if \<not> on then RestoreCursor s else s)
      }
      else if mode = 1000 \<or> mode = 1002 \<or> mode = 1003 \<or> mode = 1006 \<or> mode = 1015
      then Some (s\<lparr>sc_modes := m\<lparr>mo_mouseReporting := on\<rparr>\<rparr>)
      else if mode = 2004 then Some (s\<lparr>sc_modes := m\<lparr>mo_bracketedPaste := on\<rparr>\<rparr>)
      else Some s)"

definition SetAnsiMode :: "int \<Rightarrow> bool \<Rightarrow> Screen \<Rightarrow> Screen" where
  "SetAnsiMode mode on s = (if mode = 4 then s\<lparr>sc_modes := (sc_modes s)\<lparr>mo_insert := on\<rparr>\<rparr> else s)"

fun private_modes :: "VtEvent \<Rightarrow> nat list \<Rightarrow> bool \<Rightarrow> Screen \<Rightarrow> Screen checked" where
  "private_modes ev [] on s = Some s"
| "private_modes ev (i # is) on s = do { s \<leftarrow> SetPrivateMode (ve_Param ev i 0) on s; private_modes ev is on s }"

fun ansi_modes :: "VtEvent \<Rightarrow> nat list \<Rightarrow> bool \<Rightarrow> Screen \<Rightarrow> Screen" where
  "ansi_modes ev [] on s = s"
| "ansi_modes ev (i # is) on s = ansi_modes ev is on (SetAnsiMode (ve_Param ev i 0) on s)"

definition kDeviceAttributes :: bytes where
  "kDeviceAttributes = kEsc # bytes_of ''[?1;2c''"

text \<open>Where a report or a column move counts rows from.\<close>

definition origin_row :: "Screen \<Rightarrow> int" where
  "origin_row s = (if mo_origin (sc_modes s) then int (sc_scrollTop s) else 0)"

definition report :: "VtEvent \<Rightarrow> Screen \<Rightarrow> Screen" where
  "report ev s =
     (let s = (if ve_Param ev 0 0 = 5 then Respond s (kEsc # bytes_of ''[0n'') else s)
      in if ve_Param ev 0 0 = 6
         then Respond s (kEsc # 0x5B # to_string (int (cu_row (sc_cursor s)) - origin_row s + 1) @ [0x3B]
                @ to_string (int (cu_col (sc_cursor s)) + 1) @ [0x52])
         else s)"

definition sc_Csi :: "VtEvent \<Rightarrow> Screen \<Rightarrow> Screen checked" where
  "sc_Csi ev s =
     (let f = ve_final ev;
          rowCount = ClampCount (ve_Param ev 0 1) (Rows s);
          colCount = ClampCount (ve_Param ev 0 1) (Cols s) in
      if ve_prefix ev = 0x3F
      then if f = 0x68 \<or> f = 0x6C then private_modes ev [0..<ve_paramCount ev] (f = 0x68) s else Some s
      else if ve_prefix ev \<noteq> 0 \<or> ve_intermediate ev \<noteq> 0 then Some s
      else if f = 0x41 then Some (MoveBy (- int rowCount) 0 s)
      else if f = 0x42 then Some (MoveBy (int rowCount) 0 s)
      else if f = 0x43 then Some (MoveBy 0 (int colCount) s)
      else if f = 0x44 then Some (MoveBy 0 (- int colCount) s)
      else if f = 0x45 then Some (set_col (MoveBy (int rowCount) 0 s) 0)
      else if f = 0x46 then Some (set_col (MoveBy (- int rowCount) 0 s) 0)
      else if f = 0x47 \<or> f = 0x60 then Some (MoveTo (int (cu_row (sc_cursor s)) - origin_row s) (ve_Param ev 0 1 - 1) s)
      else if f = 0x48 \<or> f = 0x66 then Some (MoveTo (ve_Param ev 0 1 - 1) (ve_Param ev 1 1 - 1) s)
      else if f = 0x49 then Some (sc_Tab colCount s)
      else if f = 0x4A then EraseInDisplay (ve_Param ev 0 0) s
      else if f = 0x4B then EraseInLine (ve_Param ev 0 0) s
      else if f = 0x4C then InsertLines rowCount s
      else if f = 0x4D then DeleteLines rowCount s
      else if f = 0x50 then DeleteChars colCount s
      else if f = 0x53 then ScrollUp rowCount s
      else if f = 0x54 then ScrollDown rowCount s
      else if f = 0x58 then EraseChars colCount s
      else if f = 0x5A then Some (BackTab colCount s)
      else if f = 0x40 then InsertChars colCount s
      else if f = 0x64 then Some (MoveTo (ve_Param ev 0 1 - 1 - origin_row s) (int (cu_col (sc_cursor s))) s)
      else if f = 0x63 then Some (if ve_Param ev 0 0 = 0 then Respond s kDeviceAttributes else s)
      else if f = 0x6D then Some (Sgr ev s)
      else if f = 0x6E then Some (report ev s)
      else if f = 0x72 then Some (SetScrollRegion (ve_Param ev 0 1) (ve_Param ev 1 (int (Rows s))) s)
      else if f = 0x73 then Some (SaveCursor s)
      else if f = 0x75 then Some (RestoreCursor s)
      else if f = 0x68 \<or> f = 0x6C then Some (ansi_modes ev [0..<ve_paramCount ev] (f = 0x68) s)
      else Some s)"

definition FullReset :: "Screen \<Rightarrow> Screen" where
  "FullReset s = s\<lparr>sc_cursor := cursor_init, sc_savedCursor := cursor_init, sc_pen := pen_init, sc_savedPen := pen_init,
     sc_modes := modes_init, sc_scrollTop := 0, sc_scrollBottom := c16 (int (Rows s) - 1), sc_pendingWrap := False,
     sc_alternate := False, sc_graphicsG0 := False, sc_graphicsG1 := False, sc_shiftedOut := False,
     sc_savedShiftedOut := False, sc_title := [], sc_savedGrid := [],
     sc_grid := map (\<lambda>_. replicate (Cols s) cell_init) (sc_grid s)\<rparr>"

definition fill_E :: "Screen \<Rightarrow> Screen checked" where
  "fill_E s = on_grid s (set_rows [0..<Rows s] (put_cells [0..<Cols s] \<lparr>ce_ch = 0x45, ce_pen = sc_pen s\<rparr>) (sc_grid s))"

definition sc_Esc :: "VtEvent \<Rightarrow> Screen \<Rightarrow> Screen checked" where
  "sc_Esc ev s =
     (let f = ve_final ev in
      if ve_intermediate ev = 0x28 then Some (s\<lparr>sc_graphicsG0 := f = 0x30\<rparr>)
      else if ve_intermediate ev = 0x29 then Some (s\<lparr>sc_graphicsG1 := f = 0x30\<rparr>)
      else if ve_intermediate ev = 0x23 then if f = 0x38 then fill_E s else Some s
      else if ve_intermediate ev \<noteq> 0 then Some s
      else if f = 0x37 then Some (SaveCursor s)
      else if f = 0x38 then Some (RestoreCursor s)
      else if f = 0x3D then Some (s\<lparr>sc_modes := (sc_modes s)\<lparr>mo_applicationKeypad := True\<rparr>\<rparr>)
      else if f = 0x3E then Some (s\<lparr>sc_modes := (sc_modes s)\<lparr>mo_applicationKeypad := False\<rparr>\<rparr>)
      else if f = 0x44 then LineFeed s
      else if f = 0x45 then do { s \<leftarrow> LineFeed s; Some (set_col s 0) }
      else if f = 0x4D then ReverseIndex s
      else if f = 0x63 then Some (FullReset s)
      else Some s)"

definition sc_Osc :: "VtEvent \<Rightarrow> Screen \<Rightarrow> Screen" where
  "sc_Osc ev s =
     (let command = ve_Param ev 0 (-1) in
      if command \<noteq> 0 \<and> command \<noteq> 2 then s else s\<lparr>sc_title := take kMaxTitleBytes (ve_text ev)\<rparr>)"

definition sc_Apply :: "VtEvent \<Rightarrow> Screen \<Rightarrow> Screen checked" where
  "sc_Apply ev s =
     (case ve_action ev of
        VtPrint \<Rightarrow> sc_Print (ve_codepoint ev) s
      | VtExecute \<Rightarrow> sc_Execute (ve_final ev) s
      | VtCsi \<Rightarrow> sc_Csi ev s
      | VtEsc \<Rightarrow> sc_Esc ev s
      | VtOsc \<Rightarrow> Some (sc_Osc ev s))"

fun apply_all :: "VtEvent list \<Rightarrow> Screen \<Rightarrow> Screen checked" where
  "apply_all [] s = Some s"
| "apply_all (ev # evs) s = do { s \<leftarrow> sc_Apply ev s; apply_all evs s }"

definition sc_Write :: "bytes \<Rightarrow> Screen \<Rightarrow> Screen checked" where
  "sc_Write bs s =
     (if bs = [] then Some s
      else let (p, evs) = Parse (sc_parser s) bs in do {
        s \<leftarrow> apply_all evs (s\<lparr>sc_parser := p\<rparr>);
        Some (s\<lparr>sc_revision := sc_revision s + 1\<rparr>)
      })"

definition sc_Reset :: "Screen \<Rightarrow> Screen" where
  "sc_Reset s =
     (let s = FullReset (s\<lparr>sc_parser := vp_Reset (sc_parser s), sc_scrollback := [], sc_response := []\<rparr>)
      in s\<lparr>sc_revision := sc_revision s + 1\<rparr>)"

text \<open>The rows that go above the top when the screen gets shorter.\<close>

fun shed_rows :: "nat \<Rightarrow> Screen \<Rightarrow> Screen checked" where
  "shed_rows 0 s = Some s"
| "shed_rows (Suc n) s = (case sc_grid s of [] \<Rightarrow> None
     | row # g \<Rightarrow> shed_rows n ((fst (PushScrollback s row))\<lparr>sc_grid := g\<rparr>))"

definition clamp_cursor :: "TermSize \<Rightarrow> CursorState \<Rightarrow> CursorState" where
  "clamp_cursor sz c = c\<lparr>cu_row := min (cu_row c) (c16 (uint (ts_rows sz) - 1)), cu_col := min (cu_col c) (c16 (uint (ts_cols sz) - 1))\<rparr>"

definition sc_Resize :: "TermSize \<Rightarrow> Screen \<Rightarrow> Screen checked" where
  "sc_Resize size0 s =
     (let sz = ClampTermSize size0; rows = unat (ts_rows sz); cols = unat (ts_cols sz) in
      if sz = sc_size s then Some s
      else do {
        s \<leftarrow> (if ts_rows sz < ts_rows (sc_size s) \<and> \<not> sc_alternate s
              then let gone = min (c16 (int (Rows s) - int rows)) (cu_row (sc_cursor s)) in do {
                s \<leftarrow> shed_rows gone s;
                Some (set_cursor_row s (c16 (int (cu_row (sc_cursor s)) - int gone)))
              }
              else Some s);
        let fit = (\<lambda>g. resize_rows (resize g rows (replicate cols cell_init)) cols)
        in Some (s\<lparr>sc_grid := fit (sc_grid s), sc_savedGrid := (if sc_savedGrid s = [] then [] else fit (sc_savedGrid s)),
                   sc_size := sz, sc_scrollTop := 0, sc_scrollBottom := c16 (int rows - 1),
                   sc_cursor := clamp_cursor sz (sc_cursor s), sc_savedCursor := clamp_cursor sz (sc_savedCursor s),
                   sc_pendingWrap := False, sc_revision := sc_revision s + 1\<rparr>)
      })"

end
