(* ===== verification/Repaint.thy ===== *)
theory Repaint
  imports TermScreen
begin

text \<open>
  How the host draws a whole screen again for a viewer that lost part of the output
  (\<open>core/src/terminal/Repaint.cpp\<close>). Each \<open>Append\<dots>\<close> of the code is modelled by the bytes it appends;
  the loop over the grid carries the pen it last wrote.
\<close>

definition kShiftIn :: u8 where [kconsts]: "kShiftIn = 0x0F"
definition kShiftOut :: u8 where [kconsts]: "kShiftOut = 0x0E"

definition AppendCsi :: "bytes \<Rightarrow> bytes" where
  "AppendCsi body = kEsc # 0x5B # body"

definition AppendCup :: "nat \<Rightarrow> nat \<Rightarrow> bytes" where
  "AppendCup row col = AppendCsi (dec (row + 1) @ 0x3B # dec (col + 1) @ [0x48])"

definition AppendPrivateMode :: "nat \<Rightarrow> bool \<Rightarrow> bytes" where
  "AppendPrivateMode mode on = AppendCsi (0x3F # dec mode @ [if on then 0x68 else 0x6C])"

definition AppendAnsiMode :: "nat \<Rightarrow> bool \<Rightarrow> bytes" where
  "AppendAnsiMode mode on = AppendCsi (dec mode @ [if on then 0x68 else 0x6C])"

definition AppendSelectCharset :: "u8 \<Rightarrow> bool \<Rightarrow> bytes" where
  "AppendSelectCharset slot graphics = [kEsc, slot, if graphics then 0x30 else 0x42]"

definition AppendColor :: "Color \<Rightarrow> bool \<Rightarrow> bytes" where
  "AppendColor color foreground =
     (let basic = (if foreground then 30 else 40); bright = (if foreground then 90 else 100);
          extended = (if foreground then 38 else 48); none = (if foreground then 39 else 49) in
      case co_kind color of
        ColorDefault \<Rightarrow> 0x3B # dec none
      | ColorPalette \<Rightarrow>
          if co_r color < 8 then 0x3B # dec (basic + unat (co_r color))
          else if co_r color < 16 then 0x3B # dec (bright + unat (co_r color) - 8)
          else 0x3B # dec extended @ bytes_of '';5;'' @ dec (unat (co_r color))
      | ColorRgb \<Rightarrow> 0x3B # dec extended @ bytes_of '';2;'' @ dec (unat (co_r color)) @ 0x3B # dec (unat (co_g color))
          @ 0x3B # dec (unat (co_b color)))"

definition AppendPen :: "Pen \<Rightarrow> bytes" where
  "AppendPen pen =
     (let has = (\<lambda>a. pen_attrs pen AND a \<noteq> 0) in
      AppendCsi (bytes_of ''0''
        @ (if has kAttrBold then bytes_of '';1'' else [])
        @ (if has kAttrDim then bytes_of '';2'' else [])
        @ (if has kAttrItalic then bytes_of '';3'' else [])
        @ (if has kAttrUnderline then bytes_of '';4'' else [])
        @ (if has kAttrBlink then bytes_of '';5'' else [])
        @ (if has kAttrReverse then bytes_of '';7'' else [])
        @ (if has kAttrHidden then bytes_of '';8'' else [])
        @ (if has kAttrStrike then bytes_of '';9'' else [])
        @ AppendColor (pen_fg pen) True @ AppendColor (pen_bg pen) False @ [0x6D]))"

fun append_cells :: "Screen \<Rightarrow> nat \<Rightarrow> nat list \<Rightarrow> Pen \<Rightarrow> (bytes \<times> Pen) checked" where
  "append_cells s r [] pen = Some ([], pen)"
| "append_cells s r (c # cs) pen = do {
     cell \<leftarrow> sc_At s r c;
     let out = (if ce_pen cell = pen then [] else AppendPen (ce_pen cell));
     (more, pen) \<leftarrow> append_cells s r cs (ce_pen cell);
     Some (out @ EncodeUtf8 (if ce_ch cell < 0x20 then 0x20 else ce_ch cell) @ more, pen)
   }"

fun append_rows :: "Screen \<Rightarrow> nat list \<Rightarrow> Pen \<Rightarrow> bytes checked" where
  "append_rows s [] pen = Some []"
| "append_rows s (r # rs) pen = do {
     (out, pen) \<leftarrow> append_cells s r [0..<Cols s] pen;
     more \<leftarrow> append_rows s rs pen;
     Some (AppendCup r 0 @ out @ more)
   }"

definition AppendGrid :: "Screen \<Rightarrow> bytes checked" where
  "AppendGrid s = do { out \<leftarrow> append_rows s [0..<Rows s] pen_init; Some (AppendPen pen_init @ out) }"

definition AppendScrollRegion :: "nat \<Rightarrow> nat \<Rightarrow> nat \<Rightarrow> bytes" where
  "AppendScrollRegion topRow bottomRow rows =
     AppendCsi ((if topRow \<noteq> 0 \<or> bottomRow + 1 \<noteq> rows then dec (topRow + 1) @ 0x3B # dec (bottomRow + 1) else []) @ [0x72])"

definition render_setup :: "Screen \<Rightarrow> bytes" where
  "render_setup s = AppendPrivateMode 1049 (sc_alternate s) @ [kShiftIn] @ AppendSelectCharset 0x28 False
     @ AppendSelectCharset 0x29 False @ AppendAnsiMode 4 False @ AppendPrivateMode 6 False @ AppendPrivateMode 7 False
     @ AppendCsi [0x72] @ AppendCsi [0x48] @ AppendCsi (bytes_of ''2J'')"

definition render_state :: "Screen \<Rightarrow> bytes" where
  "render_state s =
     (let m = sc_modes s; cursor = sc_cursor s;
          cursorRow = (if mo_origin m \<and> cu_row cursor \<ge> sc_scrollTop s then c16 (int (cu_row cursor) - int (sc_scrollTop s)) else cu_row cursor) in
      AppendPen pen_init
      @ (if sc_title s \<noteq> [] then kEsc # bytes_of '']0;'' @ sc_title s @ [kBel] else [])
      @ AppendPrivateMode 5 (mo_reverseVideo m) @ AppendPrivateMode 1 (mo_applicationCursor m)
      @ AppendPrivateMode 2004 (mo_bracketedPaste m) @ AppendPrivateMode 1000 (mo_mouseReporting m)
      @ [kEsc, if mo_applicationKeypad m then 0x3D else 0x3E] @ AppendAnsiMode 4 (mo_insert m)
      @ AppendScrollRegion (sc_scrollTop s) (sc_scrollBottom s) (Rows s) @ AppendPrivateMode 6 (mo_origin m)
      @ AppendCup cursorRow (cu_col cursor)
      @ AppendPrivateMode 7 (mo_autoWrap m) @ AppendPrivateMode 25 (cu_visible cursor)
      @ (if sc_graphicsG0 s then AppendSelectCharset 0x28 True else [])
      @ (if sc_graphicsG1 s then AppendSelectCharset 0x29 True else [])
      @ (if sc_shiftedOut s then [kShiftOut] else []) @ AppendPen (sc_pen s))"

definition RenderScreen :: "Screen \<Rightarrow> bytes checked" where
  "RenderScreen s = do { grid \<leftarrow> AppendGrid s; Some (render_setup s @ grid @ render_state s) }"

end
