(* ===== verification/ScreenSafety.thy ===== *)
theory ScreenSafety
  imports TermScreen Component WireTermFile
begin

text \<open>
  Whatever bytes a program writes, the screen keeps its shape: every row has as many cells as the
  screen has columns, the cursor and the scroll region stay on the screen, the history, the title and
  the answers keep their limits, and no operation leaves the grid.
\<close>

definition color_ok :: "Color \<Rightarrow> bool" where
  "color_ok c \<longleftrightarrow> (case co_kind c of ColorDefault \<Rightarrow> c = color_init | ColorPalette \<Rightarrow> co_g c = 0 \<and> co_b c = 0 | ColorRgb \<Rightarrow> True)"

definition pen_ok :: "Pen \<Rightarrow> bool" where
  "pen_ok p \<longleftrightarrow> color_ok (pen_fg p) \<and> color_ok (pen_bg p)"

definition cell_ok :: "Cell \<Rightarrow> bool" where
  "cell_ok c \<longleftrightarrow> glyph_ok (ce_ch c) \<and> pen_ok (ce_pen c)"

definition row_ok :: "nat \<Rightarrow> Cell list \<Rightarrow> bool" where
  "row_ok cols row \<longleftrightarrow> length row = cols \<and> list_all cell_ok row"

definition grid_ok :: "nat \<Rightarrow> nat \<Rightarrow> grid \<Rightarrow> bool" where
  "grid_ok rows cols g \<longleftrightarrow> length g = rows \<and> list_all (row_ok cols) g"

definition sc_wf :: "Screen \<Rightarrow> bool" where
  "sc_wf s \<longleftrightarrow> IsValidTermSize (sc_size s) \<and> grid_ok (Rows s) (Cols s) (sc_grid s) \<and> list_all (list_all cell_ok) (sc_savedGrid s)
     \<and> cu_row (sc_cursor s) < Rows s \<and> cu_col (sc_cursor s) < Cols s
     \<and> sc_scrollTop s \<le> sc_scrollBottom s \<and> sc_scrollBottom s < Rows s
     \<and> sc_scrollbackLimit s \<le> kMaxScrollback \<and> length (sc_scrollback s) \<le> sc_scrollbackLimit s
     \<and> pen_ok (sc_pen s) \<and> pen_ok (sc_savedPen s)
     \<and> length (sc_title s) \<le> kMaxTitleBytes \<and> list_all string_byte (sc_title s)
     \<and> length (sc_response s) \<le> kMaxResponseBytes \<and> vp_inv (sc_parser s)"

definition sc_inv :: "Screen \<Rightarrow> bool" where
  "sc_inv s \<longleftrightarrow> sc_wf s \<and> (sc_scrollTop s = sc_scrollBottom s \<longrightarrow> sc_scrollTop s = 0 \<and> Rows s = 1)"

definition same_region :: "Screen \<Rightarrow> Screen \<Rightarrow> bool" where
  "same_region s s' \<longleftrightarrow> sc_scrollTop s' = sc_scrollTop s \<and> sc_scrollBottom s' = sc_scrollBottom s \<and> sc_size s' = sc_size s"

text \<open>A result that is a screen with the invariant, and not an access outside the grid.\<close>

definition lands :: "Screen checked \<Rightarrow> bool" where
  "lands r \<longleftrightarrow> (\<exists>s'. r = Some s' \<and> sc_inv s')"

lemma lands_Some [simp]: "lands (Some s) = sc_inv s"
  by (simp add: lands_def)

lemma lands_if: "(c \<Longrightarrow> lands a) \<Longrightarrow> (\<not> c \<Longrightarrow> lands b) \<Longrightarrow> lands (if c then a else b)"
  by simp

lemma lands_bind: "lands r \<Longrightarrow> (\<And>s'. sc_inv s' \<Longrightarrow> lands (f s')) \<Longrightarrow> lands (do { s \<leftarrow> r; f s })"
  by (auto simp: lands_def)

section \<open>Pens, cells and rows\<close>

lemma inits_ok [simp]: "color_ok color_init" "pen_ok pen_init" "cell_ok cell_init"
  by (simp_all add: color_ok_def color_init_def pen_ok_def pen_init_def cell_ok_def cell_init_def glyph_ok_def IsSurrogate_def kMaxCodepoint_def)

lemma colors_ok [simp]: "color_ok (PaletteColor i)" "color_ok (RgbColor r g b)"
  by (simp_all add: color_ok_def PaletteColor_def RgbColor_def)

lemma pen_attrs_ok [simp]: "pen_ok (p\<lparr>pen_attrs := a\<rparr>) = pen_ok p"
  by (simp add: pen_ok_def)

lemma BlankCell_ok: "pen_ok (sc_pen s) \<Longrightarrow> cell_ok (BlankCell s)"
  by (simp add: BlankCell_def cell_ok_def cell_init_def pen_ok_def glyph_ok_def IsSurrogate_def kMaxCodepoint_def pen_init_def)

lemma blank_row_ok: "pen_ok (sc_pen s) \<Longrightarrow> row_ok (Cols s) (blank_row s)"
  using BlankCell_ok by (simp add: blank_row_def row_ok_def list_all_length)

lemma plain_row_ok [simp]: "row_ok n (replicate n cell_init)"
  by (simp add: row_ok_def list_all_length)

lemma list_all_replicate: "P x \<Longrightarrow> list_all P (replicate n x)"
  by (simp add: list_all_length)

lemma list_all_take_drop: "list_all P xs \<Longrightarrow> list_all P (take n xs)" "list_all P xs \<Longrightarrow> list_all P (drop n xs)"
  by (auto simp: list_all_iff dest: in_set_takeD in_set_dropD)

lemma list_all_resize: "list_all P xs \<Longrightarrow> P x \<Longrightarrow> list_all P (resize xs n x)"
  by (simp add: resize_def list_all_take_drop list_all_replicate)

lemma list_all_upd: "list_all P xs \<Longrightarrow> P x \<Longrightarrow> list_all P (xs[i := x])"
  using set_update_subset_insert [of xs i x] by (auto simp: list_all_iff)

lemma resize_row_ok: "list_all cell_ok row \<Longrightarrow> row_ok n (resize row n cell_init)"
  by (simp add: row_ok_def list_all_resize)

definition row_fun_ok :: "nat \<Rightarrow> (Cell list \<Rightarrow> Cell list checked) \<Rightarrow> bool" where
  "row_fun_ok cols f \<longleftrightarrow> (\<forall>row. row_ok cols row \<longrightarrow> (\<exists>row'. f row = Some row' \<and> row_ok cols row'))"

lemma put_cell_ok: "c < cols \<Longrightarrow> cell_ok cell \<Longrightarrow> row_fun_ok cols (put_cell c cell)"
  by (auto simp: row_fun_ok_def put_cell_def row_ok_def list_all_upd)

lemma put_cells_ok: "\<forall>c\<in>set cs. c < cols \<Longrightarrow> cell_ok cell \<Longrightarrow> row_fun_ok cols (put_cells cs cell)"
proof (induction cs)
  case (Cons c cs)
  then have "row_fun_ok cols (put_cell c cell)" "row_fun_ok cols (put_cells cs cell)" using put_cell_ok by simp_all
  then show ?case by (fastforce simp: row_fun_ok_def)
qed (simp add: row_fun_ok_def)

lemma whole_row_ok: "row_ok cols row \<Longrightarrow> row_fun_ok cols (\<lambda>_. Some row)"
  by (simp add: row_fun_ok_def)

lemma insert_row_ok:
  "c \<le> cols \<Longrightarrow> cell_ok cell \<Longrightarrow> row_fun_ok cols (\<lambda>row. do { row \<leftarrow> row_insert c n cell row; Some (resize row cols cell_init) })"
  by (simp add: row_fun_ok_def row_insert_def row_ok_def list_all_resize list_all_take_drop list_all_replicate)

lemma erase_row_ok:
  "c + n \<le> cols \<Longrightarrow> cell_ok cell \<Longrightarrow> row_fun_ok cols (\<lambda>row. do { row \<leftarrow> row_erase c n row; Some (resize row cols cell) })"
  by (simp add: row_fun_ok_def row_erase_def row_ok_def list_all_resize list_all_take_drop)

lemma set_row_ok:
  assumes "grid_ok rows cols g" "r < rows" "row_fun_ok cols f"
  shows "\<exists>g'. set_row g r f = Some g' \<and> grid_ok rows cols g'"
proof -
  have "row_ok cols (g ! r)" using assms(1,2) by (simp add: grid_ok_def list_all_length)
  then obtain row' where "f (g ! r) = Some row'" "row_ok cols row'" using assms(3) by (auto simp: row_fun_ok_def)
  then show ?thesis using assms(1,2) by (simp add: set_row_def vec_at_in grid_ok_def list_all_upd)
qed

lemma set_rows_ok:
  assumes "grid_ok rows cols g" "\<forall>r\<in>set rs. r < rows" "row_fun_ok cols f"
  shows "\<exists>g'. set_rows rs f g = Some g' \<and> grid_ok rows cols g'"
  using assms
proof (induction rs arbitrary: g)
  case (Cons r rs)
  obtain g1 where "set_row g r f = Some g1" "grid_ok rows cols g1" using set_row_ok [OF Cons.prems(1) _ Cons.prems(3)] Cons.prems(2) by auto
  then show ?case using Cons.IH [of g1] Cons.prems by simp
qed simp

lemma rotate_ok:
  assumes "grid_ok rows cols g" "a \<le> b" "b \<le> c" "c \<le> rows"
  shows "\<exists>g'. rotate_range a b c g = Some g' \<and> grid_ok rows cols g'"
proof -
  let ?g = "take a g @ take (c - b) (drop b g) @ take (b - a) (drop a g) @ drop c g"
  have "length ?g = rows" using assms by (simp add: grid_ok_def)
  moreover have "list_all (row_ok cols) ?g" using assms(1) by (simp add: grid_ok_def list_all_take_drop)
  ultimately show ?thesis using assms by (simp add: rotate_range_def grid_ok_def)
qed

section \<open>Sizes\<close>

lemma size_bounds:
  assumes "IsValidTermSize (sc_size s)"
  shows "0 < Rows s" "Rows s \<le> 1000" "0 < Cols s" "Cols s \<le> 1000"
  using assms by (auto simp: IsValidTermSize_def kconsts Rows_def Cols_def word_le_nat_alt)

lemma c16_small: "0 \<le> v \<Longrightarrow> v < 65536 \<Longrightarrow> c16 v = nat v"
  by (simp add: c16_def)

lemma wf_bounds: "sc_wf s \<Longrightarrow> 0 < Rows s \<and> Rows s \<le> 1000 \<and> 0 < Cols s \<and> Cols s \<le> 1000"
  using size_bounds by (simp add: sc_wf_def)

lemma last_index: "sc_wf s \<Longrightarrow> c16 (int (Rows s) - 1) = Rows s - 1" "sc_wf s \<Longrightarrow> c16 (int (Cols s) - 1) = Cols s - 1"
  using wf_bounds [of s] by (auto simp: c16_small)

lemma region_span_eq: "sc_wf s \<Longrightarrow> region_span s = sc_scrollBottom s - sc_scrollTop s + 1"
proof -
  assume wf: "sc_wf s"
  then have "sc_scrollTop s \<le> sc_scrollBottom s" "sc_scrollBottom s < 1000" using wf_bounds [OF wf] by (auto simp: sc_wf_def)
  moreover from this have "nat (int (sc_scrollBottom s) - int (sc_scrollTop s) + 1) = sc_scrollBottom s - sc_scrollTop s + 1" by arith
  ultimately show ?thesis by (simp add: region_span_def c16_small)
qed

lemma on_grid_ok:
  assumes "sc_wf s" "g = Some g'" "grid_ok (Rows s) (Cols s) g'"
  shows "\<exists>s'. on_grid s g = Some s' \<and> sc_wf s' \<and> same_region s s' \<and> sc_cursor s' = sc_cursor s"
  using assms by (simp add: on_grid_def sc_wf_def Rows_def Cols_def same_region_def)

lemma on_row_ok:
  assumes "sc_wf s" "row_fun_ok (Cols s) f"
  shows "\<exists>s'. on_grid s (set_row (sc_grid s) (cu_row (sc_cursor s)) f) = Some s' \<and> sc_wf s' \<and> same_region s s' \<and> sc_cursor s' = sc_cursor s"
proof -
  have "grid_ok (Rows s) (Cols s) (sc_grid s)" "cu_row (sc_cursor s) < Rows s" using assms(1) by (simp_all add: sc_wf_def)
  then obtain g' where "set_row (sc_grid s) (cu_row (sc_cursor s)) f = Some g'" "grid_ok (Rows s) (Cols s) g'"
    using set_row_ok assms(2) by blast
  then show ?thesis using on_grid_ok [OF assms(1)] by blast
qed

lemma inv_region: "sc_wf s' \<Longrightarrow> same_region s s' \<Longrightarrow> sc_inv s \<Longrightarrow> sc_inv s'"
  by (simp add: sc_inv_def same_region_def Rows_def)

lemma same_region_trans: "same_region a b \<Longrightarrow> same_region b c \<Longrightarrow> same_region a c"
  by (simp add: same_region_def)

text \<open>Changes that no invariant looks at.\<close>

lemma wf_simple [simp]:
  "sc_wf (s\<lparr>sc_pendingWrap := b\<rparr>) = sc_wf s" "sc_inv (s\<lparr>sc_pendingWrap := b\<rparr>) = sc_inv s"
  "sc_wf (s\<lparr>sc_modes := m\<rparr>) = sc_wf s" "sc_inv (s\<lparr>sc_modes := m\<rparr>) = sc_inv s"
  "sc_wf (s\<lparr>sc_alternate := b\<rparr>) = sc_wf s" "sc_inv (s\<lparr>sc_alternate := b\<rparr>) = sc_inv s"
  "sc_inv (s\<lparr>sc_shiftedOut := b\<rparr>) = sc_inv s" "sc_inv (s\<lparr>sc_graphicsG0 := b\<rparr>) = sc_inv s"
  "sc_inv (s\<lparr>sc_graphicsG1 := b\<rparr>) = sc_inv s" "sc_inv (s\<lparr>sc_revision := n\<rparr>) = sc_inv s"
  "same_region s (s'\<lparr>sc_pendingWrap := b\<rparr>) = same_region s s'"
  by (simp_all add: sc_wf_def sc_inv_def Rows_def Cols_def same_region_def)

lemma cursor_ok:
  "sc_wf s \<Longrightarrow> cu_row c < Rows s \<Longrightarrow> cu_col c < Cols s \<Longrightarrow> sc_wf (s\<lparr>sc_cursor := c\<rparr>)"
  "sc_inv s \<Longrightarrow> cu_row c < Rows s \<Longrightarrow> cu_col c < Cols s \<Longrightarrow> sc_inv (s\<lparr>sc_cursor := c\<rparr>)"
  by (simp_all add: sc_wf_def sc_inv_def Rows_def Cols_def)

lemma inv_wf: "sc_inv s \<Longrightarrow> sc_wf s"
  by (simp add: sc_inv_def)

lemma set_col_ok: "sc_wf s \<Longrightarrow> c < Cols s \<Longrightarrow> sc_wf (set_col s c)" "sc_inv s \<Longrightarrow> c < Cols s \<Longrightarrow> sc_inv (set_col s c)"
  by (simp_all add: sc_wf_def sc_inv_def Rows_def Cols_def)

section \<open>Scrolling\<close>

lemma trim_front_length: "length (fst (trim_front limit q r)) \<le> limit"
  by (induction limit q r rule: trim_front.induct) auto

lemma Push_ok:
  assumes "sc_wf s"
  shows "sc_wf (fst (PushScrollback s row)) \<and> same_region s (fst (PushScrollback s row)) \<and> sc_cursor (fst (PushScrollback s row)) = sc_cursor s
    \<and> sc_grid (fst (PushScrollback s row)) = sc_grid s \<and> sc_alternate (fst (PushScrollback s row)) = sc_alternate s"
proof -
  obtain sb r where t: "trim_front (sc_scrollbackLimit s) (sc_scrollback s @ [row]) [] = (sb, r)" by fastforce
  then have "length sb \<le> sc_scrollbackLimit s" using trim_front_length [of "sc_scrollbackLimit s" "sc_scrollback s @ [row]" "[]"] by simp
  then show ?thesis using assms t by (auto simp: PushScrollback_def sc_wf_def Rows_def Cols_def same_region_def)
qed

lemma leave_rows_ok:
  assumes "sc_wf s" "\<forall>i\<in>set is. sc_scrollTop s + i < Rows s"
  shows "\<exists>s'. leave_rows is s = Some s' \<and> sc_wf s' \<and> same_region s s' \<and> sc_cursor s' = sc_cursor s"
  using assms
proof (induction "is" arbitrary: s)
  case (Cons i "is")
  let ?r = "sc_scrollTop s + i"
  have r: "?r < length (sc_grid s)" using Cons.prems by (simp add: sc_wf_def grid_ok_def)
  obtain s1 row where s1: "(if sc_scrollTop s = 0 \<and> \<not> sc_alternate s then PushScrollback s (sc_grid s ! ?r) else (s, sc_grid s ! ?r)) = (s1, row)"
    by (cases "if sc_scrollTop s = 0 \<and> \<not> sc_alternate s then PushScrollback s (sc_grid s ! ?r) else (s, sc_grid s ! ?r)")
  then have k: "sc_wf s1" "same_region s s1" "sc_cursor s1 = sc_cursor s" "sc_grid s1 = sc_grid s"
    using Push_ok [OF Cons.prems(1), of "sc_grid s ! ?r"] Cons.prems(1) by (auto simp: same_region_def split: if_splits)
  have dims: "Rows s1 = Rows s" "Cols s1 = Cols s" using k(2) by (simp_all add: same_region_def Rows_def Cols_def)
  have "grid_ok (Rows s1) (Cols s1) (sc_grid s1)" "pen_ok (sc_pen s1)" using k(1) by (simp_all add: sc_wf_def)
  moreover have "?r < Rows s1" using Cons.prems(2) dims by simp
  ultimately obtain g' where "set_row (sc_grid s1) ?r (\<lambda>_. Some (blank_row s1)) = Some g'" "grid_ok (Rows s1) (Cols s1) g'"
    using set_row_ok whole_row_ok [OF blank_row_ok] by blast
  from on_grid_ok [OF k(1) this] obtain s2 where s2: "on_grid s1 (set_row (sc_grid s1) ?r (\<lambda>_. Some (blank_row s1))) = Some s2"
    "sc_wf s2" "same_region s1 s2" "sc_cursor s2 = sc_cursor s1" by blast
  have "\<forall>i\<in>set is. sc_scrollTop s2 + i < Rows s2"
    using Cons.prems(2) k(2) s2(3) by (simp add: same_region_def Rows_def)
  from Cons.IH [OF s2(2) this] obtain s' where "leave_rows is s2 = Some s'" "sc_wf s'" "same_region s2 s'" "sc_cursor s' = sc_cursor s2" by blast
  moreover have "leave_rows (i # is) s = leave_rows is s2"
    by (simp only: leave_rows.simps Let_def vec_at_in [OF r] bind.bind_lunit s1 prod.case s2(1))
  moreover have "same_region s s2" using same_region_trans [OF k(2) s2(3)] .
  ultimately show ?case using same_region_trans [of s s2] k(3) s2(4) by auto
qed (simp add: same_region_def)

lemma ScrollUp_ok:
  assumes wf: "sc_wf s"
  shows "\<exists>s'. ScrollUp n s = Some s' \<and> sc_wf s' \<and> same_region s s' \<and> sc_cursor s' = sc_cursor s"
proof -
  define m where "m = min n (region_span s)"
  have reg: "sc_scrollTop s \<le> sc_scrollBottom s" "sc_scrollBottom s < Rows s" using wf by (simp_all add: sc_wf_def)
  then have n: "sc_scrollTop s + m \<le> sc_scrollBottom s + 1" using region_span_eq [OF wf] by (auto simp: m_def)
  then have "\<forall>i\<in>set [0..<m]. sc_scrollTop s + i < Rows s" using reg by auto
  from leave_rows_ok [OF wf this] obtain s1 where s1: "leave_rows [0..<m] s = Some s1" "sc_wf s1" "same_region s s1" "sc_cursor s1 = sc_cursor s" by blast
  have "grid_ok (Rows s1) (Cols s1) (sc_grid s1)" using s1(2) by (simp add: sc_wf_def)
  then obtain g' where "rotate_range (sc_scrollTop s1) (sc_scrollTop s1 + m) (sc_scrollBottom s1 + 1) (sc_grid s1) = Some g'" "grid_ok (Rows s1) (Cols s1) g'"
    using rotate_ok [of "Rows s1" "Cols s1" "sc_grid s1" "sc_scrollTop s1" "sc_scrollTop s1 + m" "sc_scrollBottom s1 + 1"] n reg s1(3)
    by (auto simp: same_region_def Rows_def)
  from on_grid_ok [OF s1(2) this] obtain s2 where s2: "on_grid s1 (rotate_range (sc_scrollTop s1) (sc_scrollTop s1 + m) (sc_scrollBottom s1 + 1) (sc_grid s1)) = Some s2"
    "sc_wf s2" "same_region s1 s2" "sc_cursor s2 = sc_cursor s1" by blast
  show ?thesis
  proof (cases "m = 0")
    case True
    then show ?thesis using wf unfolding ScrollUp_def Let_def m_def [symmetric] by (simp add: same_region_def)
  next
    case False
    then have "ScrollUp n s = Some s2" using s1(1) s2(1) unfolding ScrollUp_def Let_def m_def [symmetric] by (simp del: upt.simps)
    then show ?thesis using s1 s2 same_region_trans by fastforce
  qed
qed

lemma ScrollDown_ok:
  assumes wf: "sc_wf s"
  shows "\<exists>s'. ScrollDown n s = Some s' \<and> sc_wf s' \<and> same_region s s' \<and> sc_cursor s' = sc_cursor s"
proof -
  define m where "m = min n (region_span s)"
  have reg: "sc_scrollTop s \<le> sc_scrollBottom s" "sc_scrollBottom s < Rows s" and g: "grid_ok (Rows s) (Cols s) (sc_grid s)" and p: "pen_ok (sc_pen s)"
    using wf by (simp_all add: sc_wf_def)
  then have n: "sc_scrollTop s + m \<le> sc_scrollBottom s + 1" using region_span_eq [OF wf] by (auto simp: m_def)
  show ?thesis
  proof (cases "m = 0")
    case True
    then show ?thesis using wf unfolding ScrollDown_def Let_def m_def [symmetric] by (simp add: same_region_def)
  next
    case False
    obtain g1 where g1: "rotate_range (sc_scrollTop s) (sc_scrollBottom s + 1 - m) (sc_scrollBottom s + 1) (sc_grid s) = Some g1" "grid_ok (Rows s) (Cols s) g1"
      using rotate_ok [OF g, of "sc_scrollTop s" "sc_scrollBottom s + 1 - m" "sc_scrollBottom s + 1"] n reg by (auto simp: le_diff_conv2)
    have "\<forall>r\<in>set (map ((+) (sc_scrollTop s)) [0..<m]). r < Rows s" using n reg by auto
    then obtain g2 where g2: "set_rows (map ((+) (sc_scrollTop s)) [0..<m]) (\<lambda>_. Some (blank_row s)) g1 = Some g2" "grid_ok (Rows s) (Cols s) g2"
      using set_rows_ok [OF g1(2) _ whole_row_ok [OF blank_row_ok [OF p]]] by blast
    have "ScrollDown n s = on_grid s (Some g2)" using False g1(1) g2(1) n unfolding ScrollDown_def Let_def m_def [symmetric] by (simp del: upt.simps)
    then show ?thesis using on_grid_ok [OF wf refl g2(2)] by simp
  qed
qed

section \<open>Moving\<close>

lemma LineFeed_ok:
  assumes wf: "sc_wf s"
  shows "\<exists>s'. LineFeed s = Some s' \<and> sc_wf s' \<and> same_region s s' \<and> cu_col (sc_cursor s') = cu_col (sc_cursor s)"
proof (cases "cu_row (sc_cursor s) = sc_scrollBottom s")
  case True
  have "sc_wf (no_wrap s)" using wf by simp
  from ScrollUp_ok [OF this, of 1] show ?thesis using True by (auto simp: LineFeed_def same_region_def)
next
  case False
  have "sc_wf (set_cursor_row (no_wrap s) (cu_row (sc_cursor s) + 1))" if "cu_row (sc_cursor s) + 1 < Rows s"
    using wf that by (simp add: sc_wf_def Rows_def Cols_def)
  then show ?thesis using False wf by (simp add: LineFeed_def same_region_def Rows_def Let_def)
qed

lemma ReverseIndex_ok:
  assumes wf: "sc_wf s"
  shows "\<exists>s'. ReverseIndex s = Some s' \<and> sc_wf s' \<and> same_region s s'"
proof (cases "cu_row (sc_cursor s) = sc_scrollTop s")
  case True
  have "sc_wf (no_wrap s)" using wf by simp
  from ScrollDown_ok [OF this, of 1] show ?thesis using True by (auto simp: ReverseIndex_def same_region_def)
next
  case False
  have "sc_wf (set_cursor_row (no_wrap s) (cu_row (sc_cursor s) - 1))" using wf by (auto simp: sc_wf_def Rows_def Cols_def)
  then show ?thesis using False wf by (simp add: ReverseIndex_def same_region_def Let_def)
qed

lemma clamp_range: "lo \<le> hi \<Longrightarrow> lo \<le> clamp v lo hi \<and> clamp v lo hi \<le> hi"
  by (simp add: clamp_def)

lemma clamp_c16: "0 \<le> lo \<Longrightarrow> lo \<le> hi \<Longrightarrow> hi < 65536 \<Longrightarrow> int (c16 (clamp v lo hi)) = clamp v lo hi"
  using clamp_range [of lo hi v] by (simp add: c16_small)

lemma row_limits_ok:
  assumes "sc_wf s" "row_limits s = (lo, hi)"
  shows "0 \<le> lo" "lo \<le> hi" "hi < int (Rows s)"
  using assms wf_bounds [OF assms(1)] by (auto simp: row_limits_def sc_wf_def split: if_splits)

lemma placed_ok:
  assumes wf: "sc_wf s" and lim: "row_limits s = (lo, hi)"
  shows "c16 (clamp r lo hi) < Rows s" "c16 (clamp c 0 (int (Cols s) - 1)) < Cols s"
proof -
  note b = wf_bounds [OF wf] and l = row_limits_ok [OF wf lim]
  have "int (c16 (clamp r lo hi)) = clamp r lo hi" using clamp_c16 [OF l(1,2)] l(3) b by simp
  then show "c16 (clamp r lo hi) < Rows s" using clamp_range [OF l(2), of r] l(3) by linarith
  have "int (c16 (clamp c 0 (int (Cols s) - 1))) = clamp c 0 (int (Cols s) - 1)" using clamp_c16 [of 0 "int (Cols s) - 1"] b by simp
  then show "c16 (clamp c 0 (int (Cols s) - 1)) < Cols s" using clamp_range [of 0 "int (Cols s) - 1" c] b by linarith
qed

lemma Move_ok:
  assumes "sc_wf s"
  shows "sc_wf (MoveTo r c s)" "same_region s (MoveTo r c s)" "sc_wf (MoveBy r c s)" "same_region s (MoveBy r c s)"
proof -
  obtain lo hi where lim: "row_limits s = (lo, hi)" by (cases "row_limits s")
  note p = placed_ok [OF assms lim]
  show "sc_wf (MoveTo r c s)" "same_region s (MoveTo r c s)" "sc_wf (MoveBy r c s)" "same_region s (MoveBy r c s)"
    using cursor_ok(1) [OF assms] p by (simp_all add: MoveTo_def MoveBy_def lim same_region_def)
qed

lemma Move_inv: "sc_inv s \<Longrightarrow> sc_inv (MoveTo r c s)" "sc_inv s \<Longrightarrow> sc_inv (MoveBy r c s)"
  using Move_ok [of s r c] inv_wf inv_region by blast+

lemma tab_ok: "sc_inv s \<Longrightarrow> sc_inv (tab_stop s)" "sc_inv s \<Longrightarrow> sc_inv (back_tab_stop s)"
proof -
  assume inv: "sc_inv s"
  note b = wf_bounds [OF inv_wf [OF inv]] and l = last_index [OF inv_wf [OF inv]]
  have col: "cu_col (sc_cursor s) < Cols s" using inv by (simp add: sc_inv_def sc_wf_def)
  show "sc_inv (tab_stop s)" unfolding tab_stop_def Let_def using b l by (intro set_col_ok(2) [OF inv]) simp
  have "(cu_col (sc_cursor s) - 1) div kTabWidth * kTabWidth \<le> cu_col (sc_cursor s) - 1" by simp
  then have "c16 (int ((cu_col (sc_cursor s) - 1) div kTabWidth * kTabWidth)) < Cols s" if "0 < cu_col (sc_cursor s)"
    using col b that by (subst c16_small) linarith+
  then show "sc_inv (back_tab_stop s)" using inv set_col_ok(2) [OF inv] by (simp add: back_tab_stop_def)
qed

lemma tabs_ok: "sc_inv s \<Longrightarrow> sc_inv (sc_Tab n s)" "sc_inv s \<Longrightarrow> sc_inv (BackTab n s)"
proof -
  have "sc_inv s \<Longrightarrow> sc_inv ((tab_stop ^^ n) s)" by (induction n) (simp_all add: tab_ok)
  then show "sc_inv s \<Longrightarrow> sc_inv (sc_Tab n s)" by (simp add: sc_Tab_def)
  have "sc_inv s \<Longrightarrow> sc_inv ((back_tab_stop ^^ n) s)" by (induction n) (simp_all add: tab_ok)
  then show "sc_inv s \<Longrightarrow> sc_inv (BackTab n s)" by (simp add: BackTab_def)
qed

lemma small_moves_ok:
  assumes inv: "sc_inv s"
  shows "sc_inv (CarriageReturn s)" "sc_inv (sc_Backspace s)" "sc_inv (SaveCursor s)" "sc_inv (RestoreCursor s)"
proof -
  have wf: "sc_wf s" and col: "cu_col (sc_cursor s) < Cols s" using inv by (simp_all add: sc_inv_def sc_wf_def)
  note b = wf_bounds [OF wf] and l = last_index [OF wf]
  show "sc_inv (CarriageReturn s)" using set_col_ok(2) [OF inv, of 0] b by (simp add: CarriageReturn_def)
  show "sc_inv (sc_Backspace s)" using set_col_ok(2) [OF inv, of "cu_col (sc_cursor s) - 1"] inv col by (simp add: sc_Backspace_def)
  show "sc_inv (SaveCursor s)" using inv by (simp add: SaveCursor_def sc_inv_def sc_wf_def Rows_def Cols_def)
  let ?c = "(sc_cursor s)\<lparr>cu_row := min (cu_row (sc_savedCursor s)) (c16 (int (Rows s) - 1)), cu_col := min (cu_col (sc_savedCursor s)) (c16 (int (Cols s) - 1))\<rparr>"
  have "sc_inv (s\<lparr>sc_cursor := ?c\<rparr>)" using b l by (intro cursor_ok(2) [OF inv]) auto
  then show "sc_inv (RestoreCursor s)" using inv by (simp add: RestoreCursor_def sc_inv_def sc_wf_def Rows_def Cols_def)
qed

lemma SetScrollRegion_ok:
  assumes inv: "sc_inv s"
  shows "sc_inv (SetScrollRegion a b s)"
proof -
  define lo where "lo = (if a < 1 then 1 else a)"
  define hi where "hi = (if b < 1 \<or> b > int (Rows s) then int (Rows s) else b)"
  have wf: "sc_wf s" using inv by (rule inv_wf)
  note d = wf_bounds [OF wf] and l = last_index [OF wf]
  have h: "1 \<le> lo" "hi \<le> int (Rows s)" using d by (auto simp: lo_def hi_def)
  let ?s = "if lo \<ge> hi then s\<lparr>sc_scrollTop := 0, sc_scrollBottom := c16 (int (Rows s) - 1)\<rparr>
    else s\<lparr>sc_scrollTop := c16 (lo - 1), sc_scrollBottom := c16 (hi - 1)\<rparr>"
  have region: "sc_inv (s\<lparr>sc_scrollTop := x, sc_scrollBottom := y\<rparr>)" if "x \<le> y" "y < Rows s" "x = y \<longrightarrow> x = 0 \<and> Rows s = 1" for x y
    using wf that by (simp add: sc_inv_def sc_wf_def Rows_def Cols_def)
  have "sc_inv ?s"
  proof (cases "lo \<ge> hi")
    case True
    have "sc_inv (s\<lparr>sc_scrollTop := 0, sc_scrollBottom := Rows s - 1\<rparr>)" using d by (intro region) auto
    then show ?thesis using True l by simp
  next
    case False
    then have "c16 (lo - 1) = nat (lo - 1)" "c16 (hi - 1) = nat (hi - 1)" using h d by (simp_all add: c16_small)
    moreover have "sc_inv (s\<lparr>sc_scrollTop := nat (lo - 1), sc_scrollBottom := nat (hi - 1)\<rparr>)" using False h d by (intro region) auto
    ultimately show ?thesis using False by simp
  qed
  moreover have "SetScrollRegion a b s = MoveTo 0 0 ?s"
    unfolding SetScrollRegion_def lo_def [symmetric] hi_def [symmetric] Let_def ..
  ultimately show ?thesis using Move_inv(1) by simp
qed

section \<open>Erasing and inserting\<close>

lemma rows_changed:
  assumes inv: "sc_inv s" and g: "\<exists>g'. g = Some g' \<and> grid_ok (Rows s) (Cols s) g'"
  shows "\<exists>s'. on_grid s g = Some s' \<and> sc_inv s' \<and> same_region s s' \<and> sc_cursor s' = sc_cursor s"
  using on_grid_ok [OF inv_wf [OF inv]] g inv_region [OF _ _ inv] by blast

lemma row_changed:
  assumes inv: "sc_inv s" and f: "row_fun_ok (Cols s) f"
  shows "\<exists>s'. on_grid s (set_row (sc_grid s) (cu_row (sc_cursor s)) f) = Some s' \<and> sc_inv s' \<and> same_region s s' \<and> sc_cursor s' = sc_cursor s"
  using on_row_ok [OF inv_wf [OF inv] f] inv_region [OF _ _ inv] by blast

lemma inv_parts:
  assumes "sc_inv s"
  shows "grid_ok (Rows s) (Cols s) (sc_grid s)" "cu_row (sc_cursor s) < Rows s" "cu_col (sc_cursor s) < Cols s"
    "cell_ok (BlankCell s)" "row_fun_ok (Cols s) (\<lambda>_. Some (blank_row s))" "pen_ok (sc_pen s)"
  using assms BlankCell_ok [of s] whole_row_ok [OF blank_row_ok, of s] by (simp_all add: sc_inv_def sc_wf_def)

lemma EraseInDisplay_ok:
  assumes inv: "sc_inv s"
  shows "\<exists>s'. EraseInDisplay how s = Some s' \<and> sc_inv s' \<and> same_region s s' \<and> sc_cursor s' = sc_cursor s"
proof -
  note p = inv_parts [OF inv] and b = wf_bounds [OF inv_wf [OF inv]]
  let ?row = "cu_row (sc_cursor s)" and ?col = "cu_col (sc_cursor s)"
  consider (before) "how = 1" | (all) "how = 2 \<or> how = 3" | (after) "how \<noteq> 1" "how \<noteq> 2" "how \<noteq> 3" by blast
  then show ?thesis
  proof cases
    case before
    obtain g1 where g1: "set_rows [0..<?row] (\<lambda>_. Some (blank_row s)) (sc_grid s) = Some g1" "grid_ok (Rows s) (Cols s) g1"
      using set_rows_ok [OF p(1) _ p(5), of "[0..<?row]"] p(2) by auto
    have "row_fun_ok (Cols s) (put_cells [0..<min (?col + 1) (Cols s)] (BlankCell s))" by (rule put_cells_ok) (use p in auto)
    then obtain g2 where "set_row g1 ?row (put_cells [0..<min (?col + 1) (Cols s)] (BlankCell s)) = Some g2" "grid_ok (Rows s) (Cols s) g2"
      using set_row_ok [OF g1(2) p(2)] by blast
    then show ?thesis using before g1(1) rows_changed [OF inv, of "Some g2"] by (simp add: EraseInDisplay_def Let_def del: upt.simps)
  next
    case all
    let ?s = "if how = 3 then s\<lparr>sc_scrollback := []\<rparr> else s"
    have i: "sc_inv ?s" "Rows ?s = Rows s" "Cols ?s = Cols s" using inv by (simp_all add: sc_inv_def sc_wf_def Rows_def Cols_def)
    obtain g1 where g1: "set_rows [0..<Rows s] (\<lambda>_. Some (blank_row s)) (sc_grid s) = Some g1" "grid_ok (Rows s) (Cols s) g1"
      using set_rows_ok [OF p(1) _ p(5), of "[0..<Rows s]"] by auto
    have "EraseInDisplay how s = on_grid ?s (Some g1)" using all g1(1) by (auto simp: EraseInDisplay_def Let_def simp del: upt.simps)
    then show ?thesis using rows_changed [OF i(1), of "Some g1"] i g1(2) by (auto simp: same_region_def split: if_splits)
  next
    case after
    have "row_fun_ok (Cols s) (put_cells [?col..<Cols s] (BlankCell s))" by (rule put_cells_ok) (use p in auto)
    then obtain g1 where g1: "set_row (sc_grid s) ?row (put_cells [?col..<Cols s] (BlankCell s)) = Some g1" "grid_ok (Rows s) (Cols s) g1"
      using set_row_ok [OF p(1,2)] by blast
    obtain g2 where "set_rows [c16 (int ?row + 1)..<Rows s] (\<lambda>_. Some (blank_row s)) g1 = Some g2" "grid_ok (Rows s) (Cols s) g2"
      using set_rows_ok [OF g1(2) _ p(5), of "[c16 (int ?row + 1)..<Rows s]"] by auto
    then show ?thesis using after g1(1) rows_changed [OF inv, of "Some g2"] by (simp add: EraseInDisplay_def Let_def del: upt.simps)
  qed
qed

lemma EraseInLine_ok: "sc_inv s \<Longrightarrow> \<exists>s'. EraseInLine how s = Some s' \<and> sc_inv s'"
proof -
  assume inv: "sc_inv s"
  note p = inv_parts [OF inv]
  let ?f = "if how = 1 then put_cells [0..<min (cu_col (sc_cursor s) + 1) (Cols s)] (BlankCell s)
         else if how = 2 then (\<lambda>_. Some (blank_row s)) else put_cells [cu_col (sc_cursor s)..<Cols s] (BlankCell s)"
  have "row_fun_ok (Cols s) ?f" using p(4,5) by (auto intro!: put_cells_ok)
  from row_changed [OF inv this] show ?thesis unfolding EraseInLine_def Let_def by blast
qed

lemma Lines_ok:
  assumes inv: "sc_inv s"
  shows "\<exists>s'. InsertLines n s = Some s' \<and> sc_inv s'" "\<exists>s'. DeleteLines n s = Some s' \<and> sc_inv s'"
proof -
  note p = inv_parts [OF inv] and b = wf_bounds [OF inv_wf [OF inv]]
  let ?s = "s\<lparr>sc_scrollTop := cu_row (sc_cursor s)\<rparr>"
  have wf: "sc_wf ?s" if "cu_row (sc_cursor s) \<le> sc_scrollBottom s" using inv that by (simp add: sc_inv_def sc_wf_def Rows_def Cols_def)
  have done': "sc_inv (no_wrap (set_col (s'\<lparr>sc_scrollTop := sc_scrollTop s\<rparr>) 0))"
    if "sc_wf s'" "same_region ?s s'" for s'
    using that inv b by (simp add: sc_inv_def sc_wf_def Rows_def Cols_def same_region_def)
  show "\<exists>s'. InsertLines n s = Some s' \<and> sc_inv s'"
    using ScrollDown_ok [of ?s n] wf done' inv by (fastforce simp: InsertLines_def)
  show "\<exists>s'. DeleteLines n s = Some s' \<and> sc_inv s'"
    using ScrollUp_ok [of ?s n] wf done' inv by (fastforce simp: DeleteLines_def)
qed

lemma Chars_ok:
  assumes inv: "sc_inv s"
  shows "\<exists>s'. InsertChars n s = Some s' \<and> sc_inv s'" "\<exists>s'. DeleteChars n s = Some s' \<and> sc_inv s'" "\<exists>s'. EraseChars n s = Some s' \<and> sc_inv s'"
proof -
  note p = inv_parts [OF inv] and b = wf_bounds [OF inv_wf [OF inv]]
  let ?col = "cu_col (sc_cursor s)"
  have "c16 (int (Cols s) - int ?col) = Cols s - ?col" using p(3) b by (subst c16_small) auto
  then have m: "?col + min n (c16 (int (Cols s) - int ?col)) \<le> Cols s" using p(3) by simp
  have "row_fun_ok (Cols s) (\<lambda>row. do { row \<leftarrow> row_insert ?col (min n (c16 (int (Cols s) - int ?col))) (BlankCell s) row; Some (resize row (Cols s) cell_init) })"
    using p(3,4) by (intro insert_row_ok) auto
  from row_changed [OF inv this] show "\<exists>s'. InsertChars n s = Some s' \<and> sc_inv s'" by (auto simp: InsertChars_def Let_def)
  have "row_fun_ok (Cols s) (\<lambda>row. do { row \<leftarrow> row_erase ?col (min n (c16 (int (Cols s) - int ?col))) row; Some (resize row (Cols s) (BlankCell s)) })"
    using m p(4) by (intro erase_row_ok)
  from row_changed [OF inv this] show "\<exists>s'. DeleteChars n s = Some s' \<and> sc_inv s'" by (auto simp: DeleteChars_def Let_def)
  have "row_fun_ok (Cols s) (put_cells [?col..<min (c16 (int (?col + n))) (Cols s)] (BlankCell s))"
    using p(4) by (intro put_cells_ok) auto
  from row_changed [OF inv this] show "\<exists>s'. EraseChars n s = Some s' \<and> sc_inv s'" by (auto simp: EraseChars_def Let_def)
qed

section \<open>Printing\<close>

lemma graphics_glyph:
  assumes "glyph_ok cp"
  shows "glyph_ok (DecSpecialGraphic cp)"
proof (cases "cp < 0x60 \<or> cp > 0x7E")
  case False
  let ?ls = "[0x25C6, 0x2592, 0x2409, 0x240C, 0x240D, 0x240A, 0x00B0, 0x00B1, 0x2424, 0x240B, 0x2518, 0x2510, 0x250C, 0x2514,
            0x253C, 0x23BA, 0x23BB, 0x2500, 0x23BC, 0x23BD, 0x251C, 0x2524, 0x2534, 0x252C, 0x2502, 0x2264, 0x2265, 0x03C0,
            0x2260, 0x00A3, 0x00B7] :: u32 list"
  have "unat cp \<le> 0x7E" "0x60 \<le> unat cp" using False by (auto simp: word_less_nat_alt)
  then have "unat (cp - 0x60) = unat cp - 0x60" by (subst unat_sub) (simp_all add: word_le_nat_alt)
  then have "?ls ! unat (cp - 0x60) \<in> set ?ls" using \<open>unat cp \<le> 0x7E\<close> by (intro nth_mem) simp
  moreover have "list_all glyph_ok ?ls" by (simp add: glyph_ok_def IsSurrogate_def kMaxCodepoint_def)
  ultimately show ?thesis using False unfolding DecSpecialGraphic_def by (auto simp only: list_all_iff if_False)
qed (use assms in \<open>auto simp: DecSpecialGraphic_def\<close>)

lemma wrap_ok:
  assumes inv: "sc_inv s"
  shows "\<exists>s'. (if sc_pendingWrap s \<and> mo_autoWrap (sc_modes s) then LineFeed (set_col s 0) else Some s) = Some s' \<and> sc_inv s' \<and> sc_size s' = sc_size s"
proof -
  have "sc_inv (set_col s 0)" using set_col_ok(2) [OF inv, of 0] wf_bounds [OF inv_wf [OF inv]] by simp
  then obtain s' where "LineFeed (set_col s 0) = Some s'" "sc_inv s'" "same_region (set_col s 0) s'" using LineFeed_ok [OF inv_wf] inv_region by blast
  then show ?thesis using inv by (simp add: same_region_def)
qed

lemma Print_ok:
  assumes inv: "sc_inv s" and cp: "glyph_ok cp"
  shows "\<exists>s'. sc_Print cp s = Some s' \<and> sc_inv s' \<and> sc_size s' = sc_size s"
proof -
  obtain s1 where s1: "(if sc_pendingWrap s \<and> mo_autoWrap (sc_modes s) then LineFeed (set_col s 0) else Some s) = Some s1" "sc_inv s1" "sc_size s1 = sc_size s"
    using wrap_ok [OF inv] by blast
  define s2 where "s2 = no_wrap s1"
  have i2: "sc_inv s2" using s1(2) by (simp add: s2_def)
  note p = inv_parts [OF i2]
  have col: "(if cu_col (sc_cursor s2) \<ge> Cols s2 then set_col s2 (c16 (int (Cols s2) - 1)) else s2) = s2" using p(3) by simp
  define glyph where "glyph = (if if sc_shiftedOut s2 then sc_graphicsG1 s2 else sc_graphicsG0 s2 then DecSpecialGraphic cp else cp)"
  have gl: "glyph_ok glyph" using cp graphics_glyph by (simp add: glyph_def)
  have ins: "row_fun_ok (Cols s2) (\<lambda>row. do { row \<leftarrow> row_insert (cu_col (sc_cursor s2)) 1 (BlankCell s2) row; Some (resize row (Cols s2) cell_init) })"
    using p(3,4) by (intro insert_row_ok) auto
  define ins_row where "ins_row = on_grid s2 (set_row (sc_grid s2) (cu_row (sc_cursor s2)) (\<lambda>row. do {
      row \<leftarrow> row_insert (cu_col (sc_cursor s2)) 1 (BlankCell s2) row; Some (resize row (Cols s2) cell_init) }))"
  obtain s3' where "ins_row = Some s3'" "sc_inv s3'" "same_region s2 s3'" using row_changed [OF i2 ins] unfolding ins_row_def by blast
  then obtain s3 where s3: "(if mo_insert (sc_modes s2) then ins_row else Some s2) = Some s3" "sc_inv s3" "same_region s2 s3"
    using i2 by (cases "mo_insert (sc_modes s2)") (auto simp: same_region_def)
  note q = inv_parts [OF s3(2)]
  have "cell_ok \<lparr>ce_ch = glyph, ce_pen = sc_pen s3\<rparr>" using gl q(6) by (simp add: cell_ok_def)
  then have put: "row_fun_ok (Cols s3) (put_cell (cu_col (sc_cursor s3)) \<lparr>ce_ch = glyph, ce_pen = sc_pen s3\<rparr>)" using q(3) by (intro put_cell_ok)
  obtain s4 where s4: "put_glyph s3 glyph = Some s4" "sc_inv s4" "same_region s3 s4"
    using row_changed [OF s3(2) put] unfolding put_glyph_def by blast
  have "sc_inv (if cu_col (sc_cursor s4) + 1 \<ge> Cols s4 then s4\<lparr>sc_pendingWrap := True\<rparr> else set_col s4 (cu_col (sc_cursor s4) + 1))"
    using s4(2) set_col_ok(2) [OF s4(2)] by simp
  moreover have "sc_Print cp s = Some (if cu_col (sc_cursor s4) + 1 \<ge> Cols s4 then s4\<lparr>sc_pendingWrap := True\<rparr> else set_col s4 (cu_col (sc_cursor s4) + 1))"
    unfolding sc_Print_def s1(1) bind.bind_lunit Let_def s2_def [symmetric] col glyph_def [symmetric] ins_row_def [symmetric] s3(1) s4(1) ..
  moreover have "sc_size s4 = sc_size s" using s1(3) s3(3) s4(3) by (simp add: same_region_def s2_def)
  ultimately show ?thesis by simp
qed

lemma Execute_ok: "sc_inv s \<Longrightarrow> \<exists>s'. sc_Execute b s = Some s' \<and> sc_inv s'"
proof -
  assume inv: "sc_inv s"
  obtain s' where "LineFeed s = Some s'" "sc_inv s'" using LineFeed_ok [OF inv_wf [OF inv]] inv_region [OF _ _ inv] by blast
  then show ?thesis using small_moves_ok [OF inv] tabs_ok(1) [OF inv] inv by (simp add: sc_Execute_def)
qed

section \<open>Pens and modes\<close>

lemma sgr_code_ok:
  assumes "pen_ok p"
  shows "pen_ok (fst (sgr_code ev i p))"
proof -
  have attrs: "pen_ok (add_attr a p)" "pen_ok (drop_attr a p)" for a using assms by (simp_all add: add_attr_def drop_attr_def)
  have fg: "color_ok c \<Longrightarrow> pen_ok (p\<lparr>pen_fg := c\<rparr>)" and bg: "color_ok c \<Longrightarrow> pen_ok (p\<lparr>pen_bg := c\<rparr>)" for c using assms by (simp_all add: pen_ok_def)
  obtain c j where e: "ExtendedColor ev i = (c, j)" by (cases "ExtendedColor ev i")
  then have "color_ok c" by (auto simp: ExtendedColor_def Let_def split: if_splits)
  moreover have pick: "(b \<Longrightarrow> pen_ok (fst x)) \<Longrightarrow> (\<not> b \<Longrightarrow> pen_ok (fst y)) \<Longrightarrow> pen_ok (fst (if b then x else y))" for b :: bool and x y :: "Pen \<times> nat"
    by simp
  ultimately show ?thesis unfolding sgr_code_def Let_def e by (intro pick) (simp_all add: assms attrs fg bg)
qed

lemma sgr_from_ok: "pen_ok p \<Longrightarrow> pen_ok (sgr_from ev i p)"
proof (induction ev i p rule: sgr_from.induct)
  case (1 ev i p)
  obtain q j where c: "sgr_code ev i p = (q, j)" by (cases "sgr_code ev i p")
  then have "pen_ok q" using sgr_code_ok [OF "1.prems", of ev i] by simp
  then show ?case using 1 c by (subst sgr_from.simps) auto
qed

lemma pen_changed: "sc_inv s \<Longrightarrow> pen_ok p \<Longrightarrow> sc_inv (s\<lparr>sc_pen := p\<rparr>)"
  by (simp add: sc_inv_def sc_wf_def Rows_def Cols_def)

lemma Sgr_ok: "sc_inv s \<Longrightarrow> sc_inv (Sgr ev s)"
  using sgr_from_ok [OF inv_parts(6)] by (simp add: Sgr_def pen_changed)

lemma resize_rows_ok: "list_all (list_all cell_ok) g \<Longrightarrow> grid_ok (length g) cols (resize_rows g cols)"
  by (auto simp: grid_ok_def resize_rows_def list_all_iff resize_row_ok [unfolded list_all_iff])

lemma grid_cells: "grid_ok rows cols g \<Longrightarrow> list_all (list_all cell_ok) g"
  by (auto simp: grid_ok_def row_ok_def list_all_iff)

lemma SwitchScreen_ok:
  assumes inv: "sc_inv s"
  shows "\<exists>s'. SwitchScreen on clear s = Some s' \<and> sc_inv s' \<and> same_region s s' \<and> sc_cursor s' = sc_cursor s"
proof -
  define g where "g = (if length (sc_savedGrid s) \<noteq> Rows s then replicate (Rows s) (replicate (Cols s) cell_init) else sc_savedGrid s)"
  have "list_all (list_all cell_ok) g" "length g = Rows s"
    using inv by (auto simp: g_def sc_inv_def sc_wf_def list_all_replicate)
  then have "grid_ok (Rows s) (Cols s) (resize_rows g (Cols s))" using resize_rows_ok by metis
  then have sw: "sc_inv (s\<lparr>sc_alternate := on, sc_savedGrid := sc_grid s, sc_grid := resize_rows g (Cols s)\<rparr>)"
    using inv grid_cells [OF inv_parts(1) [OF inv]] by (simp add: sc_inv_def sc_wf_def Rows_def Cols_def)
  have eq: "SwitchScreen on clear s = (if on = sc_alternate s then if on \<and> clear then EraseInDisplay 2 s else Some s
      else if clear then EraseInDisplay 2 (s\<lparr>sc_alternate := on, sc_savedGrid := sc_grid s, sc_grid := resize_rows g (Cols s)\<rparr>)
      else Some (s\<lparr>sc_alternate := on, sc_savedGrid := sc_grid s, sc_grid := resize_rows g (Cols s)\<rparr>))"
    unfolding SwitchScreen_def g_def Let_def ..
  show ?thesis unfolding eq using EraseInDisplay_ok [OF inv, of 2] EraseInDisplay_ok [OF sw, of 2] inv sw
    by (auto simp: same_region_def)
qed

lemma SetPrivateMode_ok:
  assumes inv: "sc_inv s"
  shows "\<exists>s'. SetPrivateMode mode on s = Some s' \<and> sc_inv s'"
proof -
  have move: "sc_inv (MoveTo 0 0 (s\<lparr>sc_modes := m\<rparr>))" for m using inv by (intro Move_inv) simp
  have vis: "sc_inv (s\<lparr>sc_cursor := (sc_cursor s)\<lparr>cu_visible := on\<rparr>\<rparr>)" using inv_parts(2,3) [OF inv] by (intro cursor_ok(2) [OF inv]) simp_all
  have switch: "sc_inv s' \<Longrightarrow> lands (SwitchScreen on clear s')" for s' clear using SwitchScreen_ok [of s' on clear] by (auto simp: lands_def)
  have erase: "lands (EraseInDisplay 2 s)" using EraseInDisplay_ok [OF inv, of 2] by (auto simp: lands_def)
  have m1047: "lands (do { s \<leftarrow> (if \<not> on \<and> sc_alternate s then EraseInDisplay 2 s else Some s); SwitchScreen on False s })"
    using erase inv switch by (intro lands_bind) simp_all
  have m1049: "lands (do { s \<leftarrow> SwitchScreen on on (if on then SaveCursor s else s); Some (if \<not> on then RestoreCursor s else s) })"
    using switch small_moves_ok inv by (intro lands_bind) simp_all
  show ?thesis unfolding lands_def [symmetric] SetPrivateMode_def Let_def
    by (intro lands_if m1047 m1049 switch) (simp_all add: inv move vis small_moves_ok)
qed

lemma private_modes_ok: "sc_inv s \<Longrightarrow> \<exists>s'. private_modes ev is on s = Some s' \<and> sc_inv s'"
proof (induction "is" arbitrary: s)
  case (Cons i "is")
  obtain s1 where "SetPrivateMode (ve_Param ev i 0) on s = Some s1" "sc_inv s1" using SetPrivateMode_ok [OF Cons.prems] by blast
  then show ?case using Cons.IH by simp
qed simp

lemma ansi_modes_ok: "sc_inv s \<Longrightarrow> sc_inv (ansi_modes ev is on s)"
  by (induction "is" arbitrary: s) (simp_all add: SetAnsiMode_def)

section \<open>Events\<close>

lemma Respond_ok: "sc_inv s \<Longrightarrow> sc_inv (Respond s t)"
  by (simp add: Respond_def sc_inv_def sc_wf_def Rows_def Cols_def)

lemma Csi_ok:
  assumes inv: "sc_inv s"
  shows "lands (sc_Csi ev s)"
proof -
  have scroll: "lands (ScrollUp n s)" "lands (ScrollDown n s)" for n
    using ScrollUp_ok [OF inv_wf [OF inv]] ScrollDown_ok [OF inv_wf [OF inv]] inv_region [OF _ _ inv] unfolding lands_def by blast+
  have home: "sc_inv (set_col (MoveBy n 0 s) 0)" for n
  proof -
    have m: "sc_inv (MoveBy n 0 s)" by (rule Move_inv [OF inv])
    show ?thesis using set_col_ok(2) [OF m, of 0] wf_bounds [OF inv_wf [OF m]] by simp
  qed
  have rep: "sc_inv (report ev s)" using inv by (simp add: report_def Let_def Respond_ok)
  have erase: "lands (EraseInDisplay n s)" "lands (EraseInLine n s)" for n
    using EraseInDisplay_ok [OF inv] EraseInLine_ok [OF inv] by (auto simp: lands_def)
  note grid = Lines_ok [OF inv, folded lands_def] Chars_ok [OF inv, folded lands_def] private_modes_ok [OF inv, folded lands_def]
  note plain = inv Move_inv [OF inv] tabs_ok [OF inv] home rep Respond_ok [OF inv] Sgr_ok [OF inv] SetScrollRegion_ok [OF inv]
    small_moves_ok [OF inv] ansi_modes_ok [OF inv]
  show ?thesis unfolding sc_Csi_def Let_def by (intro lands_if scroll erase grid) (simp_all add: plain)
qed

lemma FullReset_inv: "sc_inv s \<Longrightarrow> sc_inv (FullReset s)"
proof -
  assume inv: "sc_inv s"
  note b = wf_bounds [OF inv_wf [OF inv]] and l = last_index [OF inv_wf [OF inv]]
  have "length (sc_grid s) = Rows s" using inv_parts(1) [OF inv] by (simp add: grid_ok_def)
  then have "grid_ok (Rows s) (Cols s) (map (\<lambda>_. replicate (Cols s) cell_init) (sc_grid s))"
    by (simp add: grid_ok_def list_all_iff)
  then show ?thesis using inv b l by (auto simp: FullReset_def sc_inv_def sc_wf_def Rows_def Cols_def cursor_init_def)
qed

lemma fill_E_ok: "sc_inv s \<Longrightarrow> lands (fill_E s)"
proof -
  assume inv: "sc_inv s"
  note p = inv_parts [OF inv]
  have "cell_ok \<lparr>ce_ch = 0x45, ce_pen = sc_pen s\<rparr>" using p(6) by (simp add: cell_ok_def glyph_ok_def IsSurrogate_def kMaxCodepoint_def)
  then have "row_fun_ok (Cols s) (put_cells [0..<Cols s] \<lparr>ce_ch = 0x45, ce_pen = sc_pen s\<rparr>)" by (intro put_cells_ok) auto
  then show ?thesis using rows_changed [OF inv] set_rows_ok [OF p(1), of "[0..<Rows s]"] unfolding fill_E_def lands_def by fastforce
qed

lemma Esc_ok:
  assumes inv: "sc_inv s"
  shows "lands (sc_Esc ev s)"
proof -
  have feed: "lands (LineFeed s)" "lands (ReverseIndex s)"
    using LineFeed_ok [OF inv_wf [OF inv]] ReverseIndex_ok [OF inv_wf [OF inv]] inv_region [OF _ _ inv] unfolding lands_def by blast+
  have "sc_inv s' \<Longrightarrow> sc_inv (set_col s' 0)" for s' using set_col_ok(2) [of s' 0] wf_bounds [OF inv_wf, of s'] by simp
  then have "lands (do { s \<leftarrow> LineFeed s; Some (set_col s 0) })" using feed(1) by (intro lands_bind) simp_all
  moreover have "sc_inv (s\<lparr>sc_graphicsG0 := g\<rparr>)" "sc_inv (s\<lparr>sc_graphicsG1 := g\<rparr>)" for g
    using inv by (simp_all add: sc_inv_def sc_wf_def Rows_def Cols_def)
  ultimately show ?thesis unfolding sc_Esc_def Let_def
    by (intro lands_if feed fill_E_ok inv) (simp_all add: inv small_moves_ok FullReset_inv)
qed

lemma Osc_ok: "sc_inv s \<Longrightarrow> text_ok (ve_text ev) \<Longrightarrow> sc_inv (sc_Osc ev s)"
  by (simp add: sc_Osc_def Let_def sc_inv_def sc_wf_def Rows_def Cols_def text_ok_def list_all_take_drop)

lemma Apply_ok: "sc_inv s \<Longrightarrow> event_ok ev \<Longrightarrow> lands (sc_Apply ev s)"
  using Print_ok [of s "ve_codepoint ev"] Execute_ok [of s "ve_final ev"] Csi_ok [of s ev] Esc_ok [of s ev] Osc_ok [of s ev]
  by (cases "ve_action ev") (auto simp: sc_Apply_def event_ok_def lands_def)

lemma apply_all_ok: "sc_inv s \<Longrightarrow> list_all event_ok evs \<Longrightarrow> lands (apply_all evs s)"
  by (induction evs arbitrary: s) (auto intro!: lands_bind Apply_ok)

lemma parser_changed: "sc_inv s \<Longrightarrow> vp_inv p \<Longrightarrow> sc_inv (s\<lparr>sc_parser := p\<rparr>)"
  by (simp add: sc_inv_def sc_wf_def Rows_def Cols_def)

lemma bookkeeping [simp]: "sc_inv (s\<lparr>sc_revision := v\<rparr>) = sc_inv s"
  by (simp add: sc_inv_def sc_wf_def Rows_def Cols_def)

lemma inv_parser: "sc_inv s \<Longrightarrow> vp_inv (sc_parser s)"
  by (simp add: sc_inv_def sc_wf_def)

lemma Write_ok: "sc_inv s \<Longrightarrow> lands (sc_Write bs s)"
proof -
  assume inv: "sc_inv s"
  obtain p evs where p: "Parse (sc_parser s) bs = (p, evs)" by (cases "Parse (sc_parser s) bs")
  have "vp_inv p" "list_all event_ok evs" using Parse_inv [OF inv_parser [OF inv], of bs] p by simp_all
  then have "lands (do { s \<leftarrow> apply_all evs (s\<lparr>sc_parser := p\<rparr>); Some (s\<lparr>sc_revision := sc_revision s + 1\<rparr>) })"
    by (intro lands_bind apply_all_ok) (simp_all add: parser_changed [OF inv])
  then show ?thesis using inv by (simp add: sc_Write_def p)
qed

section \<open>The whole screen\<close>

lemma Reset_ok: "sc_inv s \<Longrightarrow> sc_inv (sc_Reset s)"
proof -
  assume inv: "sc_inv s"
  then have "sc_inv (s\<lparr>sc_parser := vp_Reset (sc_parser s), sc_scrollback := [], sc_response := []\<rparr>)"
    using vp_Reset_inv by (simp add: sc_inv_def sc_wf_def Rows_def Cols_def)
  then show ?thesis by (simp add: sc_Reset_def Let_def FullReset_inv)
qed

lemma clamped_bounds:
  assumes "z = ClampTermSize z0"
  shows "IsValidTermSize z" "0 < unat (ts_rows z)" "unat (ts_rows z) \<le> 1000" "0 < unat (ts_cols z)" "unat (ts_cols z) \<le> 1000"
    "c16 (int (unat (ts_rows z)) - 1) = unat (ts_rows z) - 1" "c16 (int (unat (ts_cols z)) - 1) = unat (ts_cols z) - 1"
proof -
  show v: "IsValidTermSize z" unfolding assms by (rule ClampTermSize_valid)
  show b: "0 < unat (ts_rows z)" "unat (ts_rows z) \<le> 1000" "0 < unat (ts_cols z)" "unat (ts_cols z) \<le> 1000"
    using v by (auto simp: IsValidTermSize_def kconsts word_le_nat_alt)
  have "c16 (int n - 1) = n - 1" if "0 < n" "n \<le> 1000" for n using that by (subst c16_small) auto
  with b show "c16 (int (unat (ts_rows z)) - 1) = unat (ts_rows z) - 1" "c16 (int (unat (ts_cols z)) - 1) = unat (ts_cols z) - 1"
    by blast+
qed

lemma sc_init_ok: "sc_inv (sc_init z limit)"
proof -
  let ?z = "ClampTermSize z"
  note b = clamped_bounds [OF refl, of z]
  show ?thesis using b(1-5) vp_init_inv unfolding sc_init_def Let_def b(6)
    by (auto simp: sc_inv_def sc_wf_def Rows_def Cols_def grid_ok_def list_all_replicate cursor_init_def)
qed

lemma resize_grid_ok:
  assumes "list_all (list_all cell_ok) g"
  shows "grid_ok rows cols (resize_rows (resize g rows (replicate cols cell_init)) cols)"
proof -
  have "list_all (list_all cell_ok) (resize g rows (replicate cols cell_init))"
    using assms by (intro list_all_resize) (simp_all add: list_all_replicate)
  then show ?thesis using resize_rows_ok [of "resize g rows (replicate cols cell_init)"] by simp
qed

text \<open>While rows are shed the grid is shorter than the screen; the rest holds.\<close>

definition shedding :: "Screen \<Rightarrow> Screen \<Rightarrow> bool" where
  "shedding s s' \<longleftrightarrow> (\<exists>g sb. s' = s\<lparr>sc_grid := g, sc_scrollback := sb\<rparr> \<and> list_all (list_all cell_ok) g \<and> length sb \<le> sc_scrollbackLimit s)"

lemma shed_rows_ok:
  "shedding s s1 \<Longrightarrow> n \<le> length (sc_grid s1) \<Longrightarrow> \<exists>s'. shed_rows n s1 = Some s' \<and> shedding s s'"
proof (induction n arbitrary: s1)
  case (Suc n)
  obtain row g where g: "sc_grid s1 = row # g" using Suc.prems(2) by (cases "sc_grid s1") auto
  have "length (sc_scrollback (fst (PushScrollback s1 row))) \<le> sc_scrollbackLimit s"
    using Suc.prems(1) trim_front_length by (auto simp: shedding_def PushScrollback_def case_prod_beta)
  moreover obtain sb where "fst (PushScrollback s1 row) = s1\<lparr>sc_scrollback := sb\<rparr>"
    by (cases "sc_scrollbackLimit s1 = 0") (auto simp: PushScrollback_def case_prod_beta intro!: that [of "sc_scrollback s1"])
  moreover obtain g1 sb1 where "s1 = s\<lparr>sc_grid := g1, sc_scrollback := sb1\<rparr>" "list_all (list_all cell_ok) g1"
    using Suc.prems(1) by (auto simp: shedding_def)
  ultimately have "(fst (PushScrollback s1 row))\<lparr>sc_grid := g\<rparr> = s\<lparr>sc_grid := g, sc_scrollback := sb\<rparr>" "list_all (list_all cell_ok) g"
    "length sb \<le> sc_scrollbackLimit s" using g by simp_all
  then have "shedding s ((fst (PushScrollback s1 row))\<lparr>sc_grid := g\<rparr>)" unfolding shedding_def by blast
  from Suc.IH [OF this] show ?case using g Suc.prems(2) by simp
qed simp

lemma Resize_ok:
  assumes inv: "sc_inv s"
  shows "lands (sc_Resize z s)"
proof (cases "ClampTermSize z = sc_size s")
  case False
  define sz where "sz = ClampTermSize z"
  note b = clamped_bounds [OF sz_def]
  let ?rows = "unat (ts_rows sz)" and ?cols = "unat (ts_cols sz)"
  define gone where "gone = min (c16 (int (Rows s) - int ?rows)) (cu_row (sc_cursor s))"
  define fit where "fit g = resize_rows (resize g ?rows (replicate ?cols cell_init)) ?cols" for g
  define settle where "settle s1 = s1\<lparr>sc_grid := fit (sc_grid s1), sc_savedGrid := (if sc_savedGrid s1 = [] then [] else fit (sc_savedGrid s1)),
      sc_size := sz, sc_scrollTop := 0, sc_scrollBottom := c16 (int ?rows - 1), sc_cursor := clamp_cursor sz (sc_cursor s1),
      sc_savedCursor := clamp_cursor sz (sc_savedCursor s1), sc_pendingWrap := False, sc_revision := sc_revision s1 + 1\<rparr>" for s1 :: Screen
  have start: "shedding s s" using inv grid_cells [OF inv_parts(1) [OF inv]] by (simp add: shedding_def sc_inv_def sc_wf_def) (rule exI [of _ "sc_grid s"], rule exI [of _ "sc_scrollback s"], simp)
  have settled: "sc_inv (settle (s1\<lparr>sc_cursor := c\<rparr>))" if shed: "shedding s s1" for s1 c
  proof -
    obtain g sb where s1: "s1 = s\<lparr>sc_grid := g, sc_scrollback := sb\<rparr>" "list_all (list_all cell_ok) g" "length sb \<le> sc_scrollbackLimit s"
      using shed by (auto simp: shedding_def)
    have "list_all (list_all cell_ok) (if sc_savedGrid s = [] then [] else fit (sc_savedGrid s))"
      using inv grid_cells [OF resize_grid_ok, of "sc_savedGrid s" ?rows ?cols] by (simp add: fit_def sc_inv_def sc_wf_def)
    then show ?thesis using inv b(1-5) s1(3) resize_grid_ok [OF s1(2), of ?rows ?cols]
      unfolding settle_def b(6) clamp_cursor_def uint_nat b(6,7) s1(1)
      by (auto simp: sc_inv_def sc_wf_def Rows_def Cols_def fit_def)
  qed
  have "length (sc_grid s) = Rows s" using inv_parts(1) [OF inv] by (simp add: grid_ok_def)
  then have "gone \<le> length (sc_grid s)" using inv_parts(2) [OF inv] by (simp add: gone_def)
  then obtain s1 where s1: "shed_rows gone s = Some s1" "shedding s s1" using shed_rows_ok [OF start] by blast
  have eq: "sc_Resize z s = do {
      s \<leftarrow> (if ts_rows sz < ts_rows (sc_size s) \<and> \<not> sc_alternate s
          then do { s \<leftarrow> shed_rows gone s; Some (set_cursor_row s (c16 (int (cu_row (sc_cursor s)) - int gone))) } else Some s);
      Some (settle s) }"
    using False unfolding sc_Resize_def Let_def sz_def [symmetric] gone_def [symmetric] fit_def [symmetric] settle_def by simp
  show ?thesis unfolding eq using settled [OF s1(2)] settled [OF start, of "sc_cursor s"] s1(1) by simp
qed (use inv in \<open>simp add: sc_Resize_def\<close>)

section \<open>Every use of a screen\<close>

text \<open>What the host's mirror and the viewer do with a screen; the result is the answer taken, if any.\<close>

datatype ScreenOp = ScreenWrite bytes | ScreenResize TermSize | ScreenReset | ScreenTake

fun screen_step :: "Screen \<Rightarrow> ScreenOp \<Rightarrow> (Screen \<times> bytes) checked" where
  "screen_step s (ScreenWrite bs) = do { s \<leftarrow> sc_Write bs s; Some (s, []) }"
| "screen_step s (ScreenResize z) = do { s \<leftarrow> sc_Resize z s; Some (s, []) }"
| "screen_step s ScreenReset = Some (sc_Reset s, [])"
| "screen_step s ScreenTake = (let (t, s) = TakeResponse s in Some (s, t))"

lemma Take_ok: "sc_inv s \<Longrightarrow> length (fst (TakeResponse s)) \<le> kMaxResponseBytes \<and> sc_inv (snd (TakeResponse s))"
  by (simp add: TakeResponse_def sc_inv_def sc_wf_def Rows_def Cols_def)

interpretation terminal_screen: component screen_step sc_inv "\<lambda>_. True" "\<lambda>_ t. length t \<le> kMaxResponseBytes"
proof
  fix s :: Screen and x
  assume "sc_inv s"
  then show "\<exists>s' r. screen_step s x = Some (s', r) \<and> sc_inv s' \<and> length r \<le> kMaxResponseBytes"
  proof (cases x)
    case (ScreenWrite bs)
    then show ?thesis using Write_ok [of s bs] \<open>sc_inv s\<close> by (auto simp: lands_def)
  next
    case (ScreenResize z)
    then show ?thesis using Resize_ok [of s z] \<open>sc_inv s\<close> by (auto simp: lands_def)
  qed (use Reset_ok [of s] Take_ok [of s] in \<open>simp_all add: case_prod_beta\<close>)
qed

end
