(* ===== verification/VtRead.thy ===== *)
theory VtRead
  imports VtParser
begin

text \<open>
  What the parser makes of the sequences a terminal program writes: characters, control sequences
  with decimal parameters, escape sequences and titles. These are the lemmas by which the repaint
  of a screen is read back.
\<close>

definition vp_ready :: "VtParser \<Rightarrow> bool" where
  "vp_ready p \<longleftrightarrow> vp_fields p \<and> vp_state p = VtGround \<and> vp_utf8Left p = 0"

section \<open>Characters\<close>

lemma by_enumeration:
  assumes "list_all (\<lambda>n. P (of_nat n)) [a..<b]" "a \<le> unat (x :: u8)" "unat x < b"
  shows "P x"
proof -
  have "\<forall>n\<in>set [a..<b]. P (of_nat n)" using assms(1) by (simp add: list_all_iff)
  moreover have "unat x \<in> set [a..<b]" using assms(2,3) by simp
  ultimately have "P (of_nat (unat x))" by blast
  then show ?thesis by simp
qed

lemma lead2: "2 \<le> unat x \<Longrightarrow> unat x < 32 \<Longrightarrow> (0xC2 :: u8) \<le> 0xC0 OR x \<and> 0xC0 OR x \<le> 0xDF \<and> (0xC0 OR x) AND 0x1F = x"
  by (rule by_enumeration [of _ 2 32]) code_simp

lemma lead3: "unat x < 16 \<Longrightarrow> (0xE0 :: u8) \<le> 0xE0 OR x \<and> 0xE0 OR x \<le> 0xEF \<and> (0xE0 OR x) AND 0x0F = x"
  by (rule by_enumeration [of _ 0 16]) (code_simp, simp_all)

lemma lead4: "unat x < 5 \<Longrightarrow> (0xF0 :: u8) \<le> 0xF0 OR x \<and> 0xF0 OR x \<le> 0xF4 \<and> (0xF0 OR x) AND 0x07 = x"
  by (rule by_enumeration [of _ 0 5]) (code_simp, simp_all)

lemma more_byte: "unat x < 64 \<Longrightarrow> (0x80 OR x :: u8) AND 0xC0 = 0x80 \<and> (0x80 OR x) AND 0x3F = x \<and> 0x80 \<le> 0x80 OR x"
  by (rule by_enumeration [of _ 0 64]) (code_simp, simp_all)

text \<open>A byte of a character comes to the ground state.\<close>

lemma Consume_high:
  assumes "vp_state p = VtGround" "0x80 \<le> b"
  shows "Consume p b = ConsumeGround p b"
proof -
  have "b \<noteq> kEsc" "\<not> b < 0x20" "b \<noteq> kDel" using assms(2) by (auto simp: word_le_nat_alt word_less_nat_alt kconsts)
  then show ?thesis using assms(1) by (simp add: Consume.simps [of p b])
qed

definition six :: "u32 \<Rightarrow> nat \<Rightarrow> u8" where
  "six cp k = ucast (drop_bit k cp AND 0x3F)"

lemma low6: "x AND 0x3F = take_bit 6 (x :: u32)"
  by (simp add: take_bit_eq_mask mask_eq_exp_minus_1)

lemma unat_six: "unat (six cp k) < 64"
proof -
  have "six cp k = ucast (take_bit 6 (drop_bit k cp))" by (simp add: six_def low6)
  then have "unat (six cp k) = take_bit 6 (unat (drop_bit k cp))"
    by (simp add: unsigned_ucast_eq unsigned_take_bit_eq)
  then show ?thesis using take_bit_nat_less_exp [of 6 "unat (drop_bit k cp)"] by simp
qed

lemma more_step:
  assumes "vp_state p = VtGround" "0 < vp_utf8Left p"
  shows "Consume p (0x80 OR six cp k) = ground_more p (0x80 OR six cp k)"
  using assms more_byte [OF unat_six, of cp k] Consume_high [of p "0x80 OR six cp k"] by (simp add: ConsumeGround.simps)

lemma more_acc: "ucast ((0x80 OR six cp k) AND 0x3F) = (drop_bit k cp AND 0x3F :: u32)"
proof -
  have "ucast ((0x80 OR six cp k) AND 0x3F) = (ucast (six cp k) :: u32)" using more_byte [OF unat_six, of cp k] by simp
  also have "\<dots> = take_bit 6 (drop_bit k cp)" unfolding six_def low6
    by (rule bit_word_eqI) (auto simp: bit_simps)
  also have "\<dots> = drop_bit k cp AND 0x3F" by (rule low6 [symmetric])
  finally show ?thesis .
qed

lemma fits_bits: "unat cp < 2 ^ k \<Longrightarrow> take_bit k cp = cp" for cp :: u32
  by (simp add: word_unat_eq_iff unsigned_take_bit_eq take_bit_nat_eq_self)

lemma low_bit_iff: "unat cp < 2 ^ k \<Longrightarrow> bit cp n \<longleftrightarrow> n < k \<and> bit cp n" for cp :: u32
  using fits_bits [of cp k] by (metis bit_take_bit_iff)

lemma top_byte:
  fixes cp :: u32
  assumes "unat cp < 2 ^ (k + m)" "m \<le> 8"
  shows "ucast (ucast (drop_bit k cp) :: u8) = drop_bit k cp" "unat (ucast (drop_bit k cp) :: u8) = unat cp div 2 ^ k"
proof -
  have small: "unat cp div 2 ^ k < 2 ^ m" using assms(1) by (simp add: less_mult_imp_div_less power_add mult.commute)
  then have "unat cp div 2 ^ k < 2 ^ 8" using power_increasing [OF assms(2), of "2 :: nat"] by (simp add: less_le_trans)
  then have small': "unat cp div 2 ^ k < 256" by simp
  have big: "unat cp < 2 ^ 32" using unsigned_less [of cp, where 'a = nat] by simp
  have d: "unat (drop_bit k cp) = unat cp div 2 ^ k"
    by (simp only: unsigned_drop_bit_eq) (use big in \<open>simp add: drop_bit_eq_div take_bit_nat_eq_self\<close>)
  show u: "unat (ucast (drop_bit k cp) :: u8) = unat cp div 2 ^ k"
    by (simp only: unsigned_ucast_eq d) (use small' in \<open>simp add: take_bit_nat_eq_self\<close>)
  have "unat (ucast (ucast (drop_bit k cp) :: u8) :: u32) = unat cp div 2 ^ k"
    by (simp only: unat_ucast_u8 u)
  then show "ucast (ucast (drop_bit k cp) :: u8) = drop_bit k cp"
    by (simp only: word_unat_eq_iff d)
qed

text \<open>The bytes of a character, put together again.\<close>

lemma join2: "unat cp < 2 ^ 11 \<Longrightarrow> push_bit 6 (drop_bit 6 cp) OR (drop_bit 0 cp AND 0x3F) = cp" for cp :: u32
  unfolding low6 by (rule bit_word_eqI) (auto simp: bit_simps)

lemma join3: "push_bit 6 (push_bit 6 (drop_bit 12 cp) OR (drop_bit 6 cp AND 0x3F)) OR (drop_bit 0 cp AND 0x3F) = cp" for cp :: u32
  unfolding low6
proof (rule bit_word_eqI)
  fix n assume "n < LENGTH(32)"
  then show "bit (push_bit 6 (push_bit 6 (drop_bit 12 cp) OR take_bit 6 (drop_bit 6 cp)) OR take_bit 6 (drop_bit 0 cp)) n = bit cp n"
    by (cases "n < 6"; cases "n < 12") (auto simp: bit_simps)
qed

lemma join4:
  "push_bit 6 (push_bit 6 (push_bit 6 (drop_bit 18 cp) OR (drop_bit 12 cp AND 0x3F)) OR (drop_bit 6 cp AND 0x3F)) OR (drop_bit 0 cp AND 0x3F) = cp"
  for cp :: u32
  unfolding low6
proof (rule bit_word_eqI)
  fix n assume "n < LENGTH(32)"
  then show "bit (push_bit 6 (push_bit 6 (push_bit 6 (drop_bit 18 cp) OR take_bit 6 (drop_bit 12 cp)) OR take_bit 6 (drop_bit 6 cp))
      OR take_bit 6 (drop_bit 0 cp)) n = bit cp n"
    by (cases "n < 6"; cases "n < 12"; cases "n < 18") (auto simp: bit_simps)
qed

lemma EncodeUtf8_bytes:
  assumes "glyph_ok cp"
  shows "unat cp < 0x80 \<Longrightarrow> EncodeUtf8 cp = [ucast cp]"
    "0x80 \<le> unat cp \<Longrightarrow> unat cp < 0x800 \<Longrightarrow> EncodeUtf8 cp = [0xC0 OR ucast (drop_bit 6 cp), 0x80 OR six cp 0]"
    "0x800 \<le> unat cp \<Longrightarrow> unat cp < 0x10000 \<Longrightarrow> EncodeUtf8 cp = [0xE0 OR ucast (drop_bit 12 cp), 0x80 OR six cp 6, 0x80 OR six cp 0]"
    "0x10000 \<le> unat cp \<Longrightarrow> EncodeUtf8 cp = [0xF0 OR ucast (drop_bit 18 cp), 0x80 OR six cp 12, 0x80 OR six cp 6, 0x80 OR six cp 0]"
proof -
  have u: "ucast (a OR b) = (ucast a OR ucast b :: u8)" for a b :: u32 by (rule bit_word_eqI) (auto simp: bit_simps)
  have "(if cp > kMaxCodepoint \<or> IsSurrogate cp then kReplacement else cp) = cp" using assms by (auto simp: glyph_ok_def)
  note simps = EncodeUtf8_def [of cp, unfolded this Let_def] u six_def word_less_nat_alt
  show "unat cp < 0x80 \<Longrightarrow> EncodeUtf8 cp = [ucast cp]" by (simp add: simps)
  show "0x80 \<le> unat cp \<Longrightarrow> unat cp < 0x800 \<Longrightarrow> EncodeUtf8 cp = [0xC0 OR ucast (drop_bit 6 cp), 0x80 OR six cp 0]" by (simp add: simps)
  show "0x800 \<le> unat cp \<Longrightarrow> unat cp < 0x10000 \<Longrightarrow> EncodeUtf8 cp = [0xE0 OR ucast (drop_bit 12 cp), 0x80 OR six cp 6, 0x80 OR six cp 0]" by (simp add: simps)
  show "0x10000 \<le> unat cp \<Longrightarrow> EncodeUtf8 cp = [0xF0 OR ucast (drop_bit 18 cp), 0x80 OR six cp 12, 0x80 OR six cp 6, 0x80 OR six cp 0]" by (simp add: simps)
qed

text \<open>The parser after a lead byte and some of the bytes that follow.\<close>

definition in_char :: "VtParser \<Rightarrow> u32 \<Rightarrow> nat \<Rightarrow> u32 \<Rightarrow> bool" where
  "in_char p acc left low \<longleftrightarrow> vp_state p = VtGround \<and> vp_utf8Acc p = acc \<and> vp_utf8Left p = left \<and> vp_utf8Min p = low"

lemma more_read:
  assumes "in_char p acc (Suc (Suc n)) low"
  shows "\<exists>p'. Consume p (0x80 OR six cp k) = (p', []) \<and> in_char p' (push_bit 6 acc OR (drop_bit k cp AND 0x3F)) (Suc n) low"
  using assms more_step [of p cp k] more_acc [of cp k] by (simp add: in_char_def ground_more_def)

lemma last_read:
  assumes "in_char p acc 1 low" "push_bit 6 acc OR (drop_bit 0 cp AND 0x3F) = cp" "low \<le> cp" "glyph_ok cp"
  shows "\<exists>p'. Consume p (0x80 OR six cp 0) = (p', [EmitPrint cp]) \<and> vp_state p' = VtGround \<and> vp_utf8Left p' = 0"
  using assms more_step [of p cp 0] more_acc [of cp 0] by (simp add: in_char_def ground_more_def glyph_ok_def)

lemma glyph_read:
  assumes p: "vp_ready p" and cp: "glyph_ok cp"
  shows "\<exists>p'. Parse p (EncodeUtf8 cp) = (p', [EmitPrint cp]) \<and> vp_ready p'"
proof -
  have g: "vp_state p = VtGround" "vp_utf8Left p = 0" and inv: "vp_fields p" using p by (simp_all add: vp_ready_def)
  have max: "unat cp < 5 * 2 ^ 18" using cp by (simp add: glyph_ok_def kconsts word_le_nat_alt)
  have "\<exists>p'. Parse p (EncodeUtf8 cp) = (p', [EmitPrint cp]) \<and> vp_state p' = VtGround \<and> vp_utf8Left p' = 0"
  proof -
    consider (1) "unat cp < 0x80" | (2) "0x80 \<le> unat cp" "unat cp < 0x800" | (3) "0x800 \<le> unat cp" "unat cp < 0x10000" | (4) "0x10000 \<le> unat cp"
      by linarith
    then show ?thesis
    proof cases
      case 1
      let ?b = "ucast cp :: u8"
      have ub: "unat ?b = unat cp" using 1 by (simp add: unsigned_ucast_eq take_bit_nat_eq_self)
      have same: "ucast ?b = cp" by (simp only: word_unat_eq_iff unat_ucast_u8 ub)
      have "unat cp \<ge> 0x20" "unat cp \<noteq> 0x7F" using cp by (auto simp: glyph_ok_def word_le_nat_alt word_unat_eq_iff)
      then have "?b \<noteq> kEsc" "\<not> ?b < 0x20" "?b \<noteq> kDel" "?b < 0x80"
        using 1 ub by (simp_all add: kconsts word_less_nat_alt word_unat_eq_iff)
      then have "Consume p ?b = (p, [EmitPrint cp])" using g same by (simp add: Consume.simps [of p] ConsumeGround.simps ground_lead_def)
      then show ?thesis using g EncodeUtf8_bytes(1) [OF cp 1] by simp
    next
      case 2
      let ?x = "ucast (drop_bit 6 cp) :: u8"
      have x: "ucast ?x = drop_bit 6 cp" "unat ?x = unat cp div 64" using top_byte [of cp 6 5] 2(2) by simp_all
      then have b: "0xC2 \<le> 0xC0 OR ?x" "0xC0 OR ?x \<le> 0xDF" "(0xC0 OR ?x) AND 0x1F = ?x" using lead2 [of ?x] 2 by auto
      then have h: "0x80 \<le> 0xC0 OR ?x" "\<not> 0xC0 OR ?x < 0x80" by (auto simp: word_le_nat_alt word_less_nat_alt)
      obtain p1 where p1: "Consume p (0xC0 OR ?x) = (p1, [])" "in_char p1 (drop_bit 6 cp) 1 0x80"
        using g b h x(1) Consume_high [OF g(1) h(1)] by (simp add: ConsumeGround.simps ground_lead_def in_char_def)
      have "0x80 \<le> cp" using 2(1) by (simp add: word_le_nat_alt)
      from last_read [OF p1(2) _ this cp] join2 [of cp] 2(2) obtain p2 where
        "Consume p1 (0x80 OR six cp 0) = (p2, [EmitPrint cp])" "vp_state p2 = VtGround" "vp_utf8Left p2 = 0" by auto
      then show ?thesis using EncodeUtf8_bytes(2) [OF cp 2] p1(1) by simp
    next
      case 3
      let ?x = "ucast (drop_bit 12 cp) :: u8"
      have x: "ucast ?x = drop_bit 12 cp" "unat ?x = unat cp div 4096" using top_byte [of cp 12 4] 3(2) by simp_all
      then have b: "0xE0 \<le> 0xE0 OR ?x" "0xE0 OR ?x \<le> 0xEF" "(0xE0 OR ?x) AND 0x0F = ?x" using lead3 [of ?x] 3 by auto
      then have h: "0x80 \<le> 0xE0 OR ?x" "\<not> 0xE0 OR ?x < 0x80" "\<not> 0xE0 OR ?x \<le> 0xDF" by (auto simp: word_le_nat_alt word_less_nat_alt)
      obtain p1 where p1: "Consume p (0xE0 OR ?x) = (p1, [])" "in_char p1 (drop_bit 12 cp) (Suc (Suc 0)) 0x800"
        using g b h x(1) Consume_high [OF g(1) h(1)] by (simp add: ConsumeGround.simps ground_lead_def in_char_def)
      obtain p2 where p2: "Consume p1 (0x80 OR six cp 6) = (p2, [])"
        "in_char p2 (push_bit 6 (drop_bit 12 cp) OR (drop_bit 6 cp AND 0x3F)) 1 0x800" using more_read [OF p1(2)] by auto
      have "0x800 \<le> cp" using 3(1) by (simp add: word_le_nat_alt)
      from last_read [OF p2(2) join3 this cp] obtain p3 where
        "Consume p2 (0x80 OR six cp 0) = (p3, [EmitPrint cp])" "vp_state p3 = VtGround" "vp_utf8Left p3 = 0" by auto
      then show ?thesis using EncodeUtf8_bytes(3) [OF cp 3] p1(1) p2(1) by simp
    next
      case 4
      let ?x = "ucast (drop_bit 18 cp) :: u8"
      have x: "ucast ?x = drop_bit 18 cp" "unat ?x = unat cp div 262144" using top_byte [of cp 18 3] max by simp_all
      then have b: "0xF0 \<le> 0xF0 OR ?x" "0xF0 OR ?x \<le> 0xF4" "(0xF0 OR ?x) AND 0x07 = ?x" using lead4 [of ?x] max by auto
      then have h: "0x80 \<le> 0xF0 OR ?x" "\<not> 0xF0 OR ?x < 0x80" "\<not> 0xF0 OR ?x \<le> 0xDF" "\<not> 0xF0 OR ?x \<le> 0xEF" by (auto simp: word_le_nat_alt word_less_nat_alt)
      obtain p1 where p1: "Consume p (0xF0 OR ?x) = (p1, [])" "in_char p1 (drop_bit 18 cp) (Suc (Suc (Suc 0))) 0x10000"
        using g b h x(1) Consume_high [OF g(1) h(1)] by (simp add: ConsumeGround.simps ground_lead_def in_char_def numeral_3_eq_3)
      obtain p2 where p2: "Consume p1 (0x80 OR six cp 12) = (p2, [])"
        "in_char p2 (push_bit 6 (drop_bit 18 cp) OR (drop_bit 12 cp AND 0x3F)) (Suc (Suc 0)) 0x10000" using more_read [OF p1(2)] by auto
      obtain p3 where p3: "Consume p2 (0x80 OR six cp 6) = (p3, [])"
        "in_char p3 (push_bit 6 (push_bit 6 (drop_bit 18 cp) OR (drop_bit 12 cp AND 0x3F)) OR (drop_bit 6 cp AND 0x3F)) 1 0x10000"
        using more_read [OF p2(2)] by auto
      have "0x10000 \<le> cp" using 4(1) by (simp add: word_le_nat_alt)
      from last_read [OF p3(2) join4 this cp] obtain p4 where
        "Consume p3 (0x80 OR six cp 0) = (p4, [EmitPrint cp])" "vp_state p4 = VtGround" "vp_utf8Left p4 = 0" by auto
      then show ?thesis using EncodeUtf8_bytes(4) [OF cp 4] p1(1) p2(1) p3(1) by simp
    qed
  qed
  then show ?thesis using Parse_fine [OF inv, of "EncodeUtf8 cp"] by (auto simp: vp_ready_def)
qed

section \<open>Control sequences\<close>

text \<open>Decimal parameters, as \<open>std::to_string\<close> writes them, with a semicolon between two.\<close>

definition params_text :: "nat list \<Rightarrow> bytes" where
  "params_text ns = (case ns of [] \<Rightarrow> [] | n # ns \<Rightarrow> dec n @ concat (map (\<lambda>n. 0x3B # dec n) ns))"

definition csi_event :: "VtEvent \<Rightarrow> u8 \<Rightarrow> int list \<Rightarrow> u8 \<Rightarrow> bool" where
  "csi_event ev prefix vals final \<longleftrightarrow> ve_action ev = VtCsi \<and> ve_final ev = final \<and> ve_prefix ev = prefix \<and> ve_intermediate ev = 0
     \<and> ve_paramCount ev = length vals \<and> take (length vals) (ve_params ev) = vals \<and> length vals \<le> kMaxVtParams"

definition in_csi :: "VtParser \<Rightarrow> u8 \<Rightarrow> int list \<Rightarrow> bool" where
  "in_csi p prefix vals \<longleftrightarrow> vp_fields p \<and> vp_utf8Left p = 0 \<and> vp_prefix p = prefix \<and> vp_intermediate p = 0
     \<and> vp_state p \<in> {VtCsiEntry, VtCsiParam} \<and> vp_paramCount p = length vals \<and> take (length vals) (vp_params p) = vals"

lemma Consume_csi: "in_csi p prefix vals \<Longrightarrow> Consume p b = consume_csi p b"
  by (auto simp: in_csi_def Consume.simps [of p b])

lemma digit_byte:
  assumes "d < 10"
  shows "IsParamByte (0x30 + of_nat d)" "uint (0x30 + of_nat d :: u8) = 0x30 + int d"
proof -
  have "\<forall>d\<in>set [0..<10]. IsParamByte (0x30 + of_nat d) \<and> uint (0x30 + of_nat d :: u8) = 0x30 + int d"
    by (simp add: upt_rec IsParamByte_def)
  then show "IsParamByte (0x30 + of_nat d)" "uint (0x30 + of_nat d :: u8) = 0x30 + int d" using assms by auto
qed

lemma in_csi_length: "in_csi p prefix vals \<Longrightarrow> length (vp_params p) = 32 \<and> length vals \<le> 32"
  by (simp add: in_csi_def vp_fields_def params_ok_def kconsts)

lemma csi_digit:
  assumes p: "in_csi p prefix (vals @ [v])" and d: "d < 10"
  shows "\<exists>p'. Consume p (0x30 + of_nat d) = (p', [])
    \<and> in_csi p' prefix (vals @ [min 65535 ((if v = -1 then 0 else v) * 10 + int d)])"
proof -
  let ?b = "0x30 + of_nat d :: u8"
  let ?p = "(PushParamDigit p ?b)\<lparr>vp_state := VtCsiParam\<rparr>"
  note b = digit_byte [OF d]
  have len: "length vals < length (vp_params p)" using in_csi_length [OF p] by simp
  have tk: "take (Suc (length vals)) (vp_params p) = vals @ [v]" and n: "vp_paramCount p = Suc (length vals)" and inv: "vp_fields p"
    using p by (simp_all add: in_csi_def)
  have v: "vp_params p ! length vals = v" using tk len by (metis append_eq_conv_conj nth_append_length nth_take lessI take_Suc_conv_app_nth)
  have "take (length vals) (vp_params p) = vals" using tk by (metis append_eq_conv_conj length_append_singleton take_Suc_conv_app_nth len butlast_snoc)
  then have "take (Suc (length vals)) ((vp_params p)[length vals := x]) = vals @ [x]" for x
    using len by (simp add: take_Suc_conv_app_nth)
  then have "in_csi ?p prefix (vals @ [min 65535 ((if v = -1 then 0 else v) * 10 + int d)])"
    using p PushParamDigit_inv [OF inv b(1), of VtCsiParam] n v b(2)
    by (auto simp: in_csi_def PushParamDigit_def Let_def kVtParamOmitted_def kMaxVtParamValue_def min_def)
  then show ?thesis using Consume_csi [OF p, of ?b] b(1) by (simp add: consume_csi_def)
qed

lemma csi_first_digit:
  assumes p: "in_csi p prefix []" and d: "d < 10"
  shows "\<exists>p'. Consume p (0x30 + of_nat d) = (p', []) \<and> in_csi p' prefix [int d]"
proof -
  let ?b = "0x30 + of_nat d :: u8"
  let ?p = "(PushParamDigit p ?b)\<lparr>vp_state := VtCsiParam\<rparr>"
  note b = digit_byte [OF d]
  have len: "0 < length (vp_params p)" using in_csi_length [OF p] by simp
  then have "take (Suc 0) ((vp_params p)[0 := x]) = [x]" for x by (cases "vp_params p") auto
  moreover have "(vp_params p)[0 := 0] ! 0 = 0" using len by simp
  ultimately have "in_csi ?p prefix [int d]" using p PushParamDigit_inv [of p, OF _ b(1), of VtCsiParam] b(2) d
    by (auto simp: in_csi_def PushParamDigit_def Let_def kVtParamOmitted_def kMaxVtParamValue_def)
  then show ?thesis using Consume_csi [OF p, of ?b] b(1) by (simp add: consume_csi_def)
qed

lemma csi_separator:
  assumes p: "in_csi p prefix vals" and vals: "vals \<noteq> []" "length vals < 32"
  shows "\<exists>p'. Consume p 0x3B = (p', []) \<and> in_csi p' prefix (vals @ [-1])"
proof -
  let ?p = "(PushParamSeparator p)\<lparr>vp_state := VtCsiParam\<rparr>"
  have len: "length vals < length (vp_params p)" using in_csi_length [OF p] vals(2) by simp
  have "take (length vals) (vp_params p) = vals" "vp_paramCount p = length vals" "vp_fields p" using p by (simp_all add: in_csi_def)
  moreover from this have "take (Suc (length vals)) ((vp_params p)[length vals := x]) = vals @ [x]" for x
    using len by (simp add: take_Suc_conv_app_nth)
  ultimately have "in_csi ?p prefix (vals @ [-1])" using p vals PushParamSeparator_inv [of p VtCsiParam]
    by (auto simp: in_csi_def PushParamSeparator_def Let_def kconsts)
  then show ?thesis using Consume_csi [OF p, of "0x3B"] by (simp add: consume_csi_def IsParamByte_def IsSeparator_def)
qed

lemma csi_number:
  assumes first: "\<And>d. d < 10 \<Longrightarrow> \<exists>p'. Consume p (0x30 + of_nat d) = (p', []) \<and> in_csi p' prefix (vals @ [int d])"
    and n: "n \<le> 65535"
  shows "\<exists>p'. Parse p (dec n) = (p', []) \<and> in_csi p' prefix (vals @ [int n])"
  using n
proof (induction n rule: dec.induct)
  case (1 n)
  show ?case
  proof (cases "n < 10")
    case True
    then show ?thesis using first [of n] by (auto simp: dec_small)
  next
    case False
    have eq: "dec n = dec (n div 10) @ [0x30 + of_nat (n mod 10)]" using False by (simp add: dec.simps [of n])
    obtain p1 where p1: "Parse p (dec (n div 10)) = (p1, [])" "in_csi p1 prefix (vals @ [int (n div 10)])"
      using "1.IH" [OF False] "1.prems" le_trans [OF div_le_dividend] by blast
    have "min 65535 ((if int (n div 10) = -1 then 0 else int (n div 10)) * 10 + int (n mod 10)) = int n"
      using "1.prems" by (simp add: min_def) presburger
    then obtain p2 where "Consume p1 (0x30 + of_nat (n mod 10)) = (p2, [])" "in_csi p2 prefix (vals @ [int n])"
      using csi_digit [OF p1(2), of "n mod 10"] by auto
    then show ?thesis using Parse_then [OF p1(1), of "[0x30 + of_nat (n mod 10)]" p2 "[]"] by (auto simp: eq)
  qed
qed

lemma csi_next_number:
  assumes p: "in_csi p prefix vals" and vals: "vals \<noteq> []" "length vals < 32" and n: "n \<le> 65535"
  shows "\<exists>p'. Parse p (0x3B # dec n) = (p', []) \<and> in_csi p' prefix (vals @ [int n])"
proof -
  obtain p1 where p1: "Consume p 0x3B = (p1, [])" "in_csi p1 prefix (vals @ [-1])" using csi_separator [OF p vals] by blast
  have "\<exists>p'. Consume p1 (0x30 + of_nat d) = (p', []) \<and> in_csi p' prefix (vals @ [int d])" if "d < 10" for d
    using csi_digit [OF p1(2) that] that by auto
  from csi_number [OF this n] show ?thesis using p1(1) by auto
qed

lemma csi_params:
  assumes "in_csi p prefix vals" "vals \<noteq> []" "length vals + length ns \<le> 32" "\<forall>n\<in>set ns. n \<le> 65535"
  shows "\<exists>p'. Parse p (concat (map (\<lambda>n. 0x3B # dec n) ns)) = (p', []) \<and> in_csi p' prefix (vals @ map int ns)"
  using assms
proof (induction ns arbitrary: p vals)
  case (Cons n ns)
  obtain p1 where p1: "Parse p (0x3B # dec n) = (p1, [])" "in_csi p1 prefix (vals @ [int n])"
    using csi_next_number [OF Cons.prems(1,2), of n] Cons.prems(3,4) by auto
  obtain p2 where p2: "Parse p1 (concat (map (\<lambda>n. 0x3B # dec n) ns)) = (p2, [])" "in_csi p2 prefix ((vals @ [int n]) @ map int ns)"
    using Cons.IH [OF p1(2)] Cons.prems(3,4) by auto
  show ?case using Parse_then [OF p1(1) p2(1)] p2(2) by auto
qed auto

lemma params_read:
  assumes p: "in_csi p prefix []" and ns: "length ns \<le> 32" "\<forall>n\<in>set ns. n \<le> 65535"
  shows "\<exists>p'. Parse p (params_text ns) = (p', []) \<and> in_csi p' prefix (map int ns)"
proof (cases ns)
  case (Cons n ms)
  obtain p1 where p1: "Parse p (dec n) = (p1, [])" "in_csi p1 prefix [int n]"
    using csi_number [of p prefix "[]" n] csi_first_digit [OF p] ns Cons by auto
  obtain p2 where p2: "Parse p1 (concat (map (\<lambda>n. 0x3B # dec n) ms)) = (p2, [])" "in_csi p2 prefix ([int n] @ map int ms)"
    using csi_params [OF p1(2), of ms] ns Cons by auto
  show ?thesis using Parse_then [OF p1(1) p2(1)] p2(2) Cons by (simp add: params_text_def)
qed (use p in \<open>simp add: params_text_def\<close>)

lemma ready_escape:
  assumes "vp_ready p"
  shows "\<exists>p'. Consume p kEsc = (p', []) \<and> vp_state p' = VtEscape \<and> vp_fields p' \<and> vp_utf8Left p' = 0 \<and> vp_prefix p' = 0
    \<and> vp_intermediate p' = 0 \<and> vp_paramCount p' = 0 \<and> vp_osc p' = [] \<and> \<not> vp_escInString p'"
  using assms Start_inv(1) [of p VtEscape] by (simp add: vp_ready_def Consume.simps [of p] flush_utf8_def StartSequence_def)

lemma ready_csi:
  assumes "vp_ready p"
  shows "\<exists>p'. Parse p [kEsc, 0x5B] = (p', []) \<and> in_csi p' 0 []"
proof -
  obtain p1 where p1: "Consume p kEsc = (p1, [])" "vp_state p1 = VtEscape" "vp_fields p1" "vp_utf8Left p1 = 0" "vp_prefix p1 = 0"
    "vp_intermediate p1 = 0" "vp_paramCount p1 = 0" using ready_escape [OF assms] by blast
  have "Consume p1 0x5B = (p1\<lparr>vp_state := VtCsiEntry\<rparr>, [])" using p1(2) by (simp add: Consume.simps [of p1] consume_escape_def kEsc_def)
  then show ?thesis using p1 by (auto simp: in_csi_def vp_fields_def)
qed

lemma csi_end:
  assumes p: "in_csi p prefix vals" and final: "IsCsiFinal b"
  shows "\<exists>p' ev. Consume p b = (p', [ev]) \<and> csi_event ev prefix vals b \<and> vp_ready p'"
proof -
  have "\<not> IsParamByte b \<and> \<not> IsSeparator b \<and> \<not> IsPrivateMarker b \<and> \<not> IsIntermediate b"
    using final by (auto simp: IsCsiFinal_def IsParamByte_def IsSeparator_def IsPrivateMarker_def IsIntermediate_def word_le_nat_alt)
  then have "Consume p b = (p\<lparr>vp_state := VtGround\<rparr>, [EmitCsi p b])" using final Consume_csi [OF p, of b] by (simp add: consume_csi_def)
  moreover have "csi_event (EmitCsi p b) prefix vals b" using p in_csi_length [OF p]
    by (simp add: csi_event_def EmitCsi_def in_csi_def kMaxVtParams_def)
  moreover have "vp_ready (p\<lparr>vp_state := VtGround\<rparr>)" using p by (auto simp: vp_ready_def in_csi_def vp_fields_def)
  ultimately show ?thesis by blast
qed

lemma csi_read:
  assumes p: "vp_ready p" and ns: "length ns \<le> 32" "\<forall>n\<in>set ns. n \<le> 65535" and final: "IsCsiFinal b"
  shows "\<exists>p' ev. Parse p (kEsc # 0x5B # params_text ns @ [b]) = (p', [ev]) \<and> csi_event ev 0 (map int ns) b \<and> vp_ready p'"
proof -
  obtain p1 where p1: "Parse p [kEsc, 0x5B] = (p1, [])" "in_csi p1 0 []" using ready_csi [OF p] by blast
  obtain p2 where p2: "Parse p1 (params_text ns) = (p2, [])" "in_csi p2 0 (map int ns)" using params_read [OF p1(2) ns] by blast
  obtain p3 ev where p3: "Consume p2 b = (p3, [ev])" "csi_event ev 0 (map int ns) b" "vp_ready p3" using csi_end [OF p2(2) final] by blast
  have "Parse p2 [b] = (p3, [ev])" using p3(1) by simp
  from Parse_then [OF p1(1) Parse_then [OF p2(1) this]] show ?thesis using p3 by simp
qed

text \<open>A private sequence begins with a question mark.\<close>

lemma private_rest:
  assumes p: "in_csi p 0 []" "vp_state p = VtCsiEntry" and n: "n \<le> 65535" and final: "IsCsiFinal b"
  shows "\<exists>p' ev. Parse p (0x3F # dec n @ [b]) = (p', [ev]) \<and> csi_event ev 0x3F [int n] b \<and> vp_ready p'"
proof -
  let ?q = "p\<lparr>vp_prefix := 0x3F, vp_state := VtCsiParam\<rparr>"
  have "Consume p 0x3F = (?q, [])" using Consume_csi [OF p(1)] p(2)
    by (simp add: consume_csi_def IsParamByte_def IsSeparator_def IsPrivateMarker_def)
  then have mark: "Parse p [0x3F] = (?q, [])" by simp
  have q: "in_csi ?q 0x3F []" using p(1) by (auto simp: in_csi_def vp_fields_def)
  obtain p2 where p2: "Parse ?q (params_text [n]) = (p2, [])" "in_csi p2 0x3F (map int [n])" using params_read [OF q, of "[n]"] n by auto
  obtain p3 ev where p3: "Consume p2 b = (p3, [ev])" "csi_event ev 0x3F (map int [n]) b" "vp_ready p3" using csi_end [OF p2(2) final] by blast
  have "Parse p2 [b] = (p3, [ev])" using p3(1) by simp
  from Parse_then [OF mark Parse_then [OF p2(1) this]] show ?thesis using p3 by (simp add: params_text_def)
qed

lemma private_read:
  assumes p: "vp_ready p" and n: "n \<le> 65535" and final: "IsCsiFinal b"
  shows "\<exists>p' ev. Parse p (kEsc # 0x5B # 0x3F # dec n @ [b]) = (p', [ev]) \<and> csi_event ev 0x3F [int n] b \<and> vp_ready p'"
proof -
  obtain p1 where p1: "Parse p [kEsc, 0x5B] = (p1, [])" "in_csi p1 0 []" "vp_state p1 = VtCsiEntry"
  proof -
    obtain q where q: "Consume p kEsc = (q, [])" "vp_state q = VtEscape" "vp_fields q" "vp_utf8Left q = 0" "vp_prefix q = 0"
      "vp_intermediate q = 0" "vp_paramCount q = 0" using ready_escape [OF p] by blast
    have "Consume q 0x5B = (q\<lparr>vp_state := VtCsiEntry\<rparr>, [])" using q(2) by (simp add: Consume.simps [of q] consume_escape_def kEsc_def)
    then show ?thesis using q that by (auto simp: in_csi_def vp_fields_def)
  qed
  obtain p2 ev where p2: "Parse p1 (0x3F # dec n @ [b]) = (p2, [ev])" "csi_event ev 0x3F [int n] b" "vp_ready p2"
    using private_rest [OF p1(2,3) n final] by blast
  from Parse_then [OF p1(1) p2(1)] show ?thesis using p2(2,3) by simp
qed

section \<open>Escape sequences, controls and titles\<close>

lemma escape_read:
  assumes p: "vp_ready p" and b: "IsEscFinal b" "b \<noteq> 0x5B" "b \<noteq> 0x5D" "b \<notin> {0x50, 0x58, 0x5E, 0x5F}"
  shows "\<exists>p'. Parse p [kEsc, b] = (p', [ve_init\<lparr>ve_action := VtEsc, ve_final := b\<rparr>]) \<and> vp_ready p'"
proof -
  obtain q where q: "Consume p kEsc = (q, [])" "vp_state q = VtEscape" "vp_fields q" "vp_utf8Left q = 0" "vp_intermediate q = 0"
    using ready_escape [OF p] by blast
  have "b \<noteq> kEsc \<and> \<not> IsIntermediate b" using b(1) by (auto simp: IsEscFinal_def IsIntermediate_def kEsc_def word_le_nat_alt)
  then have "Consume q b = (q\<lparr>vp_state := VtGround\<rparr>, [EmitEsc q b])" using q(2) b by (simp add: Consume.simps [of q] consume_escape_def)
  then show ?thesis using q by (simp add: EmitEsc_def vp_ready_def vp_fields_def ve_init_def)
qed

lemma charset_read:
  assumes p: "vp_ready p" and i: "IsIntermediate i" and b: "IsEscFinal b"
  shows "\<exists>p'. Parse p [kEsc, i, b] = (p', [ve_init\<lparr>ve_action := VtEsc, ve_final := b, ve_intermediate := i\<rparr>]) \<and> vp_ready p'"
proof -
  obtain q where q: "Consume p kEsc = (q, [])" "vp_state q = VtEscape" "vp_fields q" "vp_utf8Left q = 0" using ready_escape [OF p] by blast
  have "i \<noteq> kEsc \<and> i \<noteq> 0x5B \<and> i \<noteq> 0x5D \<and> i \<noteq> 0x50 \<and> i \<noteq> 0x58 \<and> i \<noteq> 0x5E \<and> i \<noteq> 0x5F"
    using i by (auto simp: IsIntermediate_def kEsc_def word_le_nat_alt)
  then have "Consume q i = (q\<lparr>vp_intermediate := i, vp_state := VtEscapeIntermediate\<rparr>, [])"
    using q(2) i by (simp add: Consume.simps [of q] consume_escape_def)
  moreover have "b \<noteq> kEsc \<and> \<not> IsIntermediate b" using b by (auto simp: IsEscFinal_def IsIntermediate_def kEsc_def word_le_nat_alt)
  then have "Consume (q\<lparr>vp_intermediate := i, vp_state := VtEscapeIntermediate\<rparr>) b
    = (q\<lparr>vp_intermediate := i, vp_state := VtGround\<rparr>, [ve_init\<lparr>ve_action := VtEsc, ve_final := b, ve_intermediate := i\<rparr>])"
    using b by (simp add: Consume.simps [of "q\<lparr>vp_intermediate := i, vp_state := VtEscapeIntermediate\<rparr>"]
        consume_escape_intermediate_def EmitEsc_def ve_init_def)
  ultimately show ?thesis using q by (simp add: vp_ready_def vp_fields_def)
qed

lemma control_read:
  assumes "vp_ready p" "b < 0x20" "b \<noteq> kEsc"
  shows "Parse p [b] = (p, [EmitExecute b])"
  using assms by (auto simp: vp_ready_def Consume.simps [of p] flush_utf8_def kDel_def)

lemma string_read:
  assumes "vp_state p = VtOscString" "\<not> vp_escInString p" "length (vp_osc p) + length t \<le> kMaxOscBytes" "list_all string_byte t"
  shows "Parse p t = (p\<lparr>vp_osc := vp_osc p @ t\<rparr>, [])"
  using assms
proof (induction t arbitrary: p)
  case (Cons b t)
  have "Consume p b = (p\<lparr>vp_osc := vp_osc p @ [b]\<rparr>, [])"
    using Cons.prems by (simp add: Consume.simps [of p] consume_string_def string_byte_def)
  then show ?case using Cons.IH [of "p\<lparr>vp_osc := vp_osc p @ [b]\<rparr>"] Cons.prems by simp
qed simp

lemma title_read:
  assumes p: "vp_ready p" and t: "length t + 2 \<le> kMaxOscBytes" "list_all string_byte t"
  shows "\<exists>p' ev. Parse p (kEsc # 0x5D # 0x30 # 0x3B # t @ [kBel]) = (p', [ev]) \<and> vp_ready p'
    \<and> ve_action ev = VtOsc \<and> ve_Param ev 0 (-1) = 0 \<and> ve_text ev = t"
proof -
  obtain q where q: "Consume p kEsc = (q, [])" "vp_state q = VtEscape" "vp_fields q" "vp_utf8Left q = 0" "vp_osc q = []" "\<not> vp_escInString q"
    using ready_escape [OF p] by blast
  let ?q = "q\<lparr>vp_state := VtOscString\<rparr>" and ?t = "0x30 # 0x3B # t"
  have one: "Parse p [kEsc, 0x5D] = (?q, [])" using q(1,2) by (simp add: Consume.simps [of q] consume_escape_def kEsc_def)
  have sb: "list_all string_byte ?t" using t(2) by (simp add: string_byte_def kconsts)
  then have two: "Parse ?q ?t = (?q\<lparr>vp_osc := ?t\<rparr>, [])" using string_read [of ?q ?t] q t by simp
  have "osc_command 0 ?t = (0, 0x3B # t)" by (simp add: kMaxVtParamValue_def)
  then have em: "EmitOsc (?q\<lparr>vp_osc := ?t\<rparr>) = (?q\<lparr>vp_osc := []\<rparr>,
      ve_init\<lparr>ve_action := VtOsc, ve_paramCount := 1, ve_params := (replicate kMaxVtParams 0)[0 := 0], ve_text := t\<rparr>)"
    by (simp add: EmitOsc_def)
  then have three: "Parse (?q\<lparr>vp_osc := ?t\<rparr>) [kBel] = (?q\<lparr>vp_osc := [], vp_state := VtGround\<rparr>,
      [ve_init\<lparr>ve_action := VtOsc, ve_paramCount := 1, ve_params := (replicate kMaxVtParams 0)[0 := 0], ve_text := t\<rparr>])"
    using q(6) by (simp add: Consume.simps [of "?q\<lparr>vp_osc := ?t\<rparr>"] consume_string_def kEsc_def kBel_def)
  have "vp_ready (?q\<lparr>vp_osc := [], vp_state := VtGround\<rparr>)" using q by (simp add: vp_ready_def vp_fields_def)
  then show ?thesis using Parse_then [OF one Parse_then [OF two three]] by (simp add: ve_Param_def kconsts)
qed

end
