(* ===== verification/RepaintRead.thy ===== *)
theory RepaintRead
  imports Repaint ScreenSafety VtRead
begin

text \<open>
  A repaint is read back: whatever a viewer's screen of the same size showed, and whatever its parser
  was in the middle of, after the repaint it shows what the host's screen shows.
\<close>

section \<open>Bytes that take one screen to another\<close>

definition draws :: "bytes \<Rightarrow> Screen \<Rightarrow> Screen \<Rightarrow> bool" where
  "draws bs s s' \<longleftrightarrow> (\<forall>p. vp_ready p \<longrightarrow> (\<exists>p' evs. Parse p bs = (p', evs) \<and> vp_ready p' \<and> apply_all evs s = Some s'))"

lemma apply_append: "apply_all (xs @ ys) s = do { s \<leftarrow> apply_all xs s; apply_all ys s }"
  by (induction xs arbitrary: s) (auto split: bind_split)

lemma draws_append:
  assumes "draws a s s1" "draws b s1 s2"
  shows "draws (a @ b) s s2"
  unfolding draws_def
proof (intro allI impI)
  fix p assume "vp_ready p"
  then obtain p1 e1 where 1: "Parse p a = (p1, e1)" "vp_ready p1" "apply_all e1 s = Some s1" using assms(1) unfolding draws_def by blast
  obtain p2 e2 where 2: "Parse p1 b = (p2, e2)" "vp_ready p2" "apply_all e2 s1 = Some s2" using assms(2) 1(2) unfolding draws_def by blast
  show "\<exists>p' evs. Parse p (a @ b) = (p', evs) \<and> vp_ready p' \<and> apply_all evs s = Some s2"
    using Parse_then [OF 1(1) 2(1)] 1(3) 2(2,3) by (simp add: apply_append)
qed

lemma draws_nothing: "draws [] s s"
  by (simp add: draws_def)

lemma draws_if: "(c \<Longrightarrow> draws a s (s1 s)) \<Longrightarrow> draws (if c then a else []) s (if c then s1 s else s)"
  by (simp add: draws_nothing)

lemma draws_event:
  assumes "\<And>p. vp_ready p \<Longrightarrow> \<exists>p' ev. Parse p bs = (p', [ev]) \<and> P ev \<and> vp_ready p'" "\<And>ev. P ev \<Longrightarrow> sc_Apply ev s = Some s'"
  shows "draws bs s s'"
  unfolding draws_def using assms by fastforce

lemma csi_param:
  assumes "csi_event ev x vals f"
  shows "ve_Param ev i d = (if i < length vals \<and> vals ! i \<noteq> -1 then vals ! i else d)"
proof -
  have "ve_params ev ! i = vals ! i" if "i < length vals" using assms that by (metis csi_event_def nth_take)
  then show ?thesis using assms by (simp add: ve_Param_def csi_event_def kVtParamOmitted_def)
qed

lemma draws_csi:
  assumes "length ns \<le> 32" "\<forall>n\<in>set ns. n \<le> 65535" "IsCsiFinal f" "\<And>ev. csi_event ev 0 (map int ns) f \<Longrightarrow> sc_Csi ev s = Some s'"
  shows "draws (AppendCsi (params_text ns @ [f])) s s'"
  unfolding AppendCsi_def
proof (rule draws_event)
  fix p assume "vp_ready p"
  then show "\<exists>p' ev. Parse p (kEsc # 0x5B # params_text ns @ [f]) = (p', [ev]) \<and> csi_event ev 0 (map int ns) f \<and> vp_ready p'"
    using csi_read assms(1-3) by blast
qed (use assms(4) in \<open>simp add: sc_Apply_def csi_event_def\<close>)

lemma draws_private:
  assumes "n \<le> 65535" "SetPrivateMode (int n) on s = Some s'"
  shows "draws (AppendPrivateMode n on) s s'"
  unfolding AppendPrivateMode_def AppendCsi_def
proof (rule draws_event)
  fix p assume p: "vp_ready p"
  show "\<exists>p' ev. Parse p (kEsc # 0x5B # 0x3F # dec n @ [if on then 0x68 else 0x6C]) = (p', [ev])
      \<and> csi_event ev 0x3F [int n] (if on then 0x68 else 0x6C) \<and> vp_ready p'"
    by (rule private_read [OF p assms(1)]) (simp add: IsCsiFinal_def)
next
  fix ev assume ev: "csi_event ev 0x3F [int n] (if on then 0x68 else 0x6C)"
  then show "sc_Apply ev s = Some s'"
    using assms(2) csi_param [OF ev, of 0 0] by (auto simp: sc_Apply_def csi_event_def sc_Csi_def)
qed

lemma draws_ansi: "draws (AppendAnsiMode 4 on) s (s\<lparr>sc_modes := (sc_modes s)\<lparr>mo_insert := on\<rparr>\<rparr>)"
proof -
  have "draws (AppendCsi (params_text [4] @ [if on then 0x68 else 0x6C])) s (s\<lparr>sc_modes := (sc_modes s)\<lparr>mo_insert := on\<rparr>\<rparr>)"
  proof (rule draws_csi)
    fix ev assume ev: "csi_event ev 0 (map int [4]) (if on then 0x68 else 0x6C)"
    then show "sc_Csi ev s = Some (s\<lparr>sc_modes := (sc_modes s)\<lparr>mo_insert := on\<rparr>\<rparr>)"
      using csi_param [OF ev, of 0 0] by (cases on) (simp_all add: csi_event_def sc_Csi_def SetAnsiMode_def)
  qed (simp_all add: IsCsiFinal_def)
  then show ?thesis by (simp add: params_text_def AppendAnsiMode_def)
qed

lemma draws_cup:
  assumes "r \<le> 1000" "c \<le> 1000"
  shows "draws (AppendCup r c) s (MoveTo (int r) (int c) s)"
proof -
  have "draws (AppendCsi (params_text [r + 1, c + 1] @ [0x48])) s (MoveTo (int r) (int c) s)"
  proof (rule draws_csi)
    fix ev assume ev: "csi_event ev 0 (map int [r + 1, c + 1]) 0x48"
    then show "sc_Csi ev s = Some (MoveTo (int r) (int c) s)"
      using csi_param [OF ev, of 0 1] csi_param [OF ev, of 1 1] by (simp add: csi_event_def sc_Csi_def)
  qed (use assms in \<open>simp_all add: IsCsiFinal_def\<close>)
  then show ?thesis by (simp add: params_text_def AppendCup_def)
qed

lemma draws_home: "draws (AppendCsi [0x48]) s (MoveTo 0 0 s)"
proof -
  have "draws (AppendCsi (params_text [] @ [0x48])) s (MoveTo 0 0 s)"
  proof (rule draws_csi)
    fix ev assume ev: "csi_event ev 0 (map int []) 0x48"
    then show "sc_Csi ev s = Some (MoveTo 0 0 s)"
      using csi_param [OF ev] by (simp add: csi_event_def sc_Csi_def)
  qed (simp_all add: IsCsiFinal_def)
  then show ?thesis by (simp add: params_text_def)
qed

lemma draws_region:
  assumes "t < b \<or> t = 0 \<and> b = 0" "b < Rows s" "Rows s \<le> 1000" "t = b \<Longrightarrow> Rows s = 1"
  shows "draws (AppendScrollRegion t b (Rows s)) s (MoveTo 0 0 (s\<lparr>sc_scrollTop := t, sc_scrollBottom := b\<rparr>))"
proof (cases "t \<noteq> 0 \<or> b + 1 \<noteq> Rows s")
  case True
  have small: "t \<le> 1000" "b \<le> 1000" using assms by auto
  have "draws (AppendCsi (params_text [t + 1, b + 1] @ [0x72])) s (MoveTo 0 0 (s\<lparr>sc_scrollTop := t, sc_scrollBottom := b\<rparr>))"
  proof (rule draws_csi)
    fix ev assume ev: "csi_event ev 0 (map int [t + 1, b + 1]) 0x72"
    have lt: "t < b" using True assms by auto
    have "sc_Csi ev s = Some (SetScrollRegion (1 + int t) (1 + int b) s)"
      using ev csi_param [OF ev, of 0 1] csi_param [OF ev, of 1 "int (Rows s)"] by (simp add: csi_event_def sc_Csi_def)
    also have "SetScrollRegion (1 + int t) (1 + int b) s = MoveTo 0 0 (s\<lparr>sc_scrollTop := t, sc_scrollBottom := b\<rparr>)"
      using lt assms(2,3) by (simp add: SetScrollRegion_def c16_small)
    finally show "sc_Csi ev s = Some (MoveTo 0 0 (s\<lparr>sc_scrollTop := t, sc_scrollBottom := b\<rparr>))" .
  qed (use small in \<open>simp_all add: IsCsiFinal_def\<close>)
  then show ?thesis using True by (simp add: params_text_def AppendScrollRegion_def)
next
  case False
  have "draws (AppendCsi (params_text [] @ [0x72])) s (MoveTo 0 0 (s\<lparr>sc_scrollTop := t, sc_scrollBottom := b\<rparr>))"
  proof (rule draws_csi)
    fix ev assume ev: "csi_event ev 0 (map int []) 0x72"
    have "sc_Csi ev s = Some (SetScrollRegion 1 (int (Rows s)) s)"
      using ev csi_param [OF ev] by (simp add: csi_event_def sc_Csi_def)
    also have "SetScrollRegion 1 (int (Rows s)) s = MoveTo 0 0 (s\<lparr>sc_scrollTop := 0, sc_scrollBottom := c16 (int (Rows s) - 1)\<rparr>)"
      by (simp add: SetScrollRegion_def Let_def c16_small)
    also have "c16 (int (Rows s) - 1) = b" using False assms(2,3) by (subst c16_small) auto
    finally show "sc_Csi ev s = Some (MoveTo 0 0 (s\<lparr>sc_scrollTop := t, sc_scrollBottom := b\<rparr>))" using False by simp
  qed (simp_all add: IsCsiFinal_def)
  then show ?thesis using False by (simp add: params_text_def AppendScrollRegion_def)
qed

lemma draws_erase:
  assumes "EraseInDisplay 2 s = Some s'"
  shows "draws (AppendCsi (bytes_of ''2J'')) s s'"
proof -
  have "draws (AppendCsi (params_text [2] @ [0x4A])) s s'"
  proof (rule draws_csi)
    fix ev assume ev: "csi_event ev 0 (map int [2]) 0x4A"
    then show "sc_Csi ev s = Some s'"
      using csi_param [OF ev, of 0 0] assms by (simp add: csi_event_def sc_Csi_def)
  qed (simp_all add: IsCsiFinal_def)
  moreover have "params_text [2] @ [0x4A] = bytes_of ''2J''" by (simp add: params_text_def dec.simps bytes_of_def)
  ultimately show ?thesis by simp
qed

lemma draws_charset:
  "draws (AppendSelectCharset 0x28 g) s (s\<lparr>sc_graphicsG0 := g\<rparr>)" "draws (AppendSelectCharset 0x29 g) s (s\<lparr>sc_graphicsG1 := g\<rparr>)"
proof -
  have go: "draws [kEsc, i, b] s s'" if "IsIntermediate i" "IsEscFinal b"
    "sc_Esc (ve_init\<lparr>ve_action := VtEsc, ve_final := b, ve_intermediate := i\<rparr>) s = Some s'" for i b s'
    using charset_read [OF _ that(1,2)] that(3) unfolding draws_def by (fastforce simp: sc_Apply_def)
  show "draws (AppendSelectCharset 0x28 g) s (s\<lparr>sc_graphicsG0 := g\<rparr>)" "draws (AppendSelectCharset 0x29 g) s (s\<lparr>sc_graphicsG1 := g\<rparr>)"
    unfolding AppendSelectCharset_def by (rule go; simp add: IsIntermediate_def IsEscFinal_def sc_Esc_def ve_init_def)+
qed

lemma draws_keypad: "draws [kEsc, if on then 0x3D else 0x3E] s (s\<lparr>sc_modes := (sc_modes s)\<lparr>mo_applicationKeypad := on\<rparr>\<rparr>)"
proof -
  have go: "draws [kEsc, b] s s'" if "IsEscFinal b" "b \<noteq> 0x5B" "b \<noteq> 0x5D" "b \<notin> {0x50, 0x58, 0x5E, 0x5F}"
    "sc_Esc (ve_init\<lparr>ve_action := VtEsc, ve_final := b\<rparr>) s = Some s'" for b s'
    using escape_read [OF _ that(1-4)] that(5) unfolding draws_def by (fastforce simp: sc_Apply_def)
  show ?thesis by (rule go; simp add: IsEscFinal_def sc_Esc_def ve_init_def)
qed

lemma draws_shift: "draws [kShiftIn] s (s\<lparr>sc_shiftedOut := False\<rparr>)" "draws [kShiftOut] s (s\<lparr>sc_shiftedOut := True\<rparr>)"
  using control_read [of _ kShiftIn] control_read [of _ kShiftOut]
  by (simp_all add: draws_def kShiftIn_def kShiftOut_def kEsc_def sc_Apply_def EmitExecute_def sc_Execute_def)

lemma draws_title:
  assumes "length t \<le> kMaxTitleBytes" "list_all string_byte t"
  shows "draws (kEsc # bytes_of '']0;'' @ t @ [kBel]) s (s\<lparr>sc_title := t\<rparr>)"
proof -
  have b: "kEsc # bytes_of '']0;'' @ t @ [kBel] = kEsc # 0x5D # 0x30 # 0x3B # t @ [kBel]" by (simp add: bytes_of_def)
  have "length t + 2 \<le> kMaxOscBytes" using assms(1) by (simp add: kconsts)
  then show ?thesis unfolding b
    using title_read [OF _ _ assms(2)] assms(1) unfolding draws_def by (fastforce simp: sc_Apply_def sc_Osc_def)
qed

lemma draws_glyph:
  assumes "glyph_ok cp" "sc_Print cp s = Some s'"
  shows "draws (EncodeUtf8 cp) s s'"
  using glyph_read [OF _ assms(1)] assms(2) unfolding draws_def by (fastforce simp: sc_Apply_def EmitPrint_def)

section \<open>Pens\<close>

text \<open>\<open>ns\<close> is what is left of the parameters when the pen is \<open>q\<close>; the loop of \<open>Sgr\<close> goes from one to the next.\<close>

definition pen_step :: "nat list \<Rightarrow> Pen \<Rightarrow> nat list \<Rightarrow> Pen \<Rightarrow> bool" where
  "pen_step ns q ms q' \<longleftrightarrow> (\<forall>ev vals f i. csi_event ev 0 vals f \<and> drop i vals = map int ns
     \<longrightarrow> (\<exists>j. sgr_from ev i q = sgr_from ev j q' \<and> drop j vals = map int ms))"

lemma pen_step_refl: "pen_step ns q ns q"
  by (auto simp: pen_step_def)

lemma pen_step_trans: "pen_step a p b q \<Longrightarrow> pen_step b q c r \<Longrightarrow> pen_step a p c r"
  unfolding pen_step_def by metis

lemma drop_head: "drop i vals = x # xs \<Longrightarrow> i < length vals \<and> vals ! i = x \<and> drop (i + 1) vals = xs"
proof -
  assume d: "drop i vals = x # xs"
  then have l: "i < length vals" by (metis drop_all linorder_not_less list.distinct(1))
  then show ?thesis using d Cons_nth_drop_Suc [OF l] by simp
qed

text \<open>A code the loop takes alone.\<close>

lemma pen_step_code:
  assumes "\<And>ev i. ve_Param ev i 0 = int n \<Longrightarrow> sgr_code ev i q = (q', i)"
  shows "pen_step (n # ns) q ns q'"
  unfolding pen_step_def
proof (intro allI impI, elim conjE)
  fix ev :: VtEvent and vals f i
  assume ev: "csi_event ev 0 vals f" and d: "drop i vals = map int (n # ns)"
  have h: "i < length vals" "vals ! i = int n" "drop (i + 1) vals = map int ns" using drop_head [of i vals "int n"] d by auto
  then have "ve_Param ev i 0 = int n" "ve_paramCount ev = length vals" using csi_param [OF ev, of i 0] ev by (simp_all add: csi_event_def)
  then have "sgr_from ev i q = sgr_from ev (i + 1) q'" using assms h(1) by (subst sgr_from.simps) simp
  then show "\<exists>j. sgr_from ev i q = sgr_from ev j q' \<and> drop j vals = map int ns" using h(3) by blast
qed

lemma pen_step_attr:
  assumes "\<And>ev i. ve_Param ev i 0 = int n \<Longrightarrow> sgr_code ev i q = (add_attr a q, i)"
  shows "pen_step ((if c then [n] else []) @ ns) q ns (if c then add_attr a q else q)"
  using pen_step_code [of n q "add_attr a q" ns, OF assms] pen_step_refl by simp

definition color_codes :: "Color \<Rightarrow> bool \<Rightarrow> nat list" where
  "color_codes c fg = (case co_kind c of
      ColorDefault \<Rightarrow> [if fg then 39 else 49]
    | ColorPalette \<Rightarrow> if co_r c < 8 then [(if fg then 30 else 40) + unat (co_r c)]
        else if co_r c < 16 then [(if fg then 90 else 100) + unat (co_r c) - 8]
        else [if fg then 38 else 48, 5, unat (co_r c)]
    | ColorRgb \<Rightarrow> [if fg then 38 else 48, 2, unat (co_r c), unat (co_g c), unat (co_b c)])"

definition with_color :: "bool \<Rightarrow> Color \<Rightarrow> Pen \<Rightarrow> Pen" where
  "with_color fg c p = (if fg then p\<lparr>pen_fg := c\<rparr> else p\<lparr>pen_bg := c\<rparr>)"

lemma byte_back: "word_of_int (clamp (int (unat r)) 0 255) = (r :: u8)"
proof -
  have "clamp (int (unat r)) 0 255 = int (unat r)" using unsigned_less [of r, where 'a = int] by (simp add: clamp_def)
  then show ?thesis by simp
qed

lemma byte_given [simp]: "uint (r :: u8) \<noteq> -1"
  using uint_ge_0 [of r] by (metis neg_0_le_iff_le not_one_le_zero)

lemma sgr_extended:
  "ve_Param ev i 0 = (if fg then 38 else 48) \<Longrightarrow> sgr_code ev i q = (let (c, j) = ExtendedColor ev i in (with_color fg c q, j))"
  by (cases fg) (simp_all add: sgr_code_def with_color_def)

lemma pen_step_extended:
  assumes "\<And>ev vals f i. csi_event ev 0 vals f \<Longrightarrow> drop i vals = int (if fg then 38 else 48) # map int (ms @ ns) \<Longrightarrow> ExtendedColor ev i = (c, i + length ms)"
  shows "pen_step ((if fg then 38 else 48) # ms @ ns) q ns (with_color fg c q)"
  unfolding pen_step_def
proof (intro allI impI, elim conjE)
  fix ev :: VtEvent and vals f i
  assume ev: "csi_event ev 0 vals f" and d: "drop i vals = map int ((if fg then 38 else 48) # ms @ ns)"
  let ?n = "int (if fg then 38 else 48)"
  have h: "i < length vals" "vals ! i = ?n" "drop (i + 1) vals = map int (ms @ ns)" using drop_head [of i vals ?n] d by auto
  then have "ve_Param ev i 0 = (if fg then 38 else 48)" "ve_paramCount ev = length vals" using csi_param [OF ev, of i 0] ev by (simp_all add: csi_event_def)
  moreover have "ExtendedColor ev i = (c, i + length ms)" using assms [OF ev] d by simp
  ultimately have "sgr_from ev i q = sgr_from ev (i + length ms + 1) (with_color fg c q)" using sgr_extended [of ev i fg q] h(1) by (subst sgr_from.simps) simp
  moreover have "drop (i + length ms + 1) vals = map int ns"
    using arg_cong [OF h(3), of "drop (length ms)"] by (simp add: drop_map add.commute add.left_commute)
  ultimately show "\<exists>j. sgr_from ev i q = sgr_from ev j (with_color fg c q) \<and> drop j vals = map int ns" by blast
qed

lemma sgr_palette:
  "0 \<le> v \<Longrightarrow> v < 8 \<Longrightarrow> ve_Param ev i 0 = (if fg then 30 else 40) + v \<Longrightarrow> sgr_code ev i q = (with_color fg (PaletteColor (word_of_int v)) q, i)"
  "8 \<le> v \<Longrightarrow> v < 16 \<Longrightarrow> ve_Param ev i 0 = (if fg then 90 else 100) + v - 8 \<Longrightarrow> sgr_code ev i q = (with_color fg (PaletteColor (word_of_int v)) q, i)"
  by (simp_all add: sgr_code_def Let_def with_color_def)

lemma pen_step_color:
  assumes "color_ok c"
  shows "pen_step (color_codes c fg @ ns) q ns (with_color fg c q)"
proof (cases "co_kind c")
  case ColorDefault
  then have "c = color_init" using assms by (simp add: color_ok_def)
  then show ?thesis using ColorDefault by (cases fg) (auto simp: color_codes_def with_color_def sgr_code_def intro!: pen_step_code)
next
  case ColorPalette
  then have c: "c = PaletteColor (co_r c)" using assms by (cases c) (simp add: color_ok_def PaletteColor_def)
  have u: "unat (co_r c) < 256" by (rule unat_u8)
  have again: "word_of_int (int (unat (co_r c))) = co_r c" by simp
  consider (low) "co_r c < 8" | (mid) "\<not> co_r c < 8" "co_r c < 16" | (high) "\<not> co_r c < 8" "\<not> co_r c < 16" by blast
  then show ?thesis
  proof cases
    case low
    then have "uint (co_r c) < 8" by (simp add: word_less_def)
    then have "sgr_code ev i q = (with_color fg c q, i)" if "ve_Param ev i 0 = int ((if fg then 30 else 40) + unat (co_r c))" for ev i
      using sgr_palette(1) [of "uint (co_r c)" ev i fg q] that c by (cases fg) simp_all
    then have "pen_step (((if fg then 30 else 40) + unat (co_r c)) # ns) q ns (with_color fg c q)" by (rule pen_step_code)
    then show ?thesis using low ColorPalette by (simp add: color_codes_def)
  next
    case mid
    then have v: "8 \<le> uint (co_r c)" "uint (co_r c) < 16" by (simp_all add: word_less_def)
    have "8 \<le> unat (co_r c)" using mid(1) by (simp add: word_less_nat_alt)
    then have "sgr_code ev i q = (with_color fg c q, i)" if "ve_Param ev i 0 = int ((if fg then 90 else 100) + unat (co_r c) - 8)" for ev i
      using sgr_palette(2) [OF v, of ev i fg q] that c by (cases fg) (simp_all add: of_nat_diff)
    then have "pen_step (((if fg then 90 else 100) + unat (co_r c) - 8) # ns) q ns (with_color fg c q)" by (rule pen_step_code)
    then show ?thesis using mid ColorPalette by (simp add: color_codes_def)
  next
    case high
    have "pen_step ((if fg then 38 else 48) # [5, unat (co_r c)] @ ns) q ns (with_color fg c q)"
    proof (rule pen_step_extended)
      fix ev vals f i
      assume ev: "csi_event ev 0 vals f" and d: "drop i vals = int (if fg then 38 else 48) # map int ([5, unat (co_r c)] @ ns)"
      from d have 1: "drop (i + 1) vals = 5 # int (unat (co_r c)) # map int ns" using drop_head [OF d] by simp
      from drop_head [OF 1] have 2: "drop (i + 2) vals = int (unat (co_r c)) # map int ns" by simp
      have "ve_Param ev (i + 1) 0 = 5" "ve_Param ev (i + 2) 0 = int (unat (co_r c))"
        using csi_param [OF ev] drop_head [OF 1] drop_head [OF 2] by simp_all
      then show "ExtendedColor ev i = (c, i + length [5, unat (co_r c)])" using byte_back [of "co_r c"] c by (simp add: ExtendedColor_def)
    qed
    then show ?thesis using high ColorPalette by (simp add: color_codes_def)
  qed
next
  case ColorRgb
  then have c: "c = RgbColor (co_r c) (co_g c) (co_b c)" by (cases c) (simp add: RgbColor_def)
  let ?r = "unat (co_r c)" and ?g = "unat (co_g c)" and ?b = "unat (co_b c)"
  have "pen_step ((if fg then 38 else 48) # [2, ?r, ?g, ?b] @ ns) q ns (with_color fg c q)"
  proof (rule pen_step_extended)
    fix ev vals f i
    assume ev: "csi_event ev 0 vals f" and d: "drop i vals = int (if fg then 38 else 48) # map int ([2, ?r, ?g, ?b] @ ns)"
    from d have 1: "drop (i + 1) vals = 2 # int ?r # int ?g # int ?b # map int ns" using drop_head [OF d] by simp
    from drop_head [OF 1] have 2: "drop (i + 2) vals = int ?r # int ?g # int ?b # map int ns" by simp
    from drop_head [OF 2] have 3: "drop (i + 2 + 1) vals = int ?g # int ?b # map int ns" by simp
    from drop_head [OF 3] have 4: "drop (i + 2 + 2) vals = int ?b # map int ns" by simp
    note h = drop_head [OF 1] drop_head [OF 2] drop_head [OF 3] drop_head [OF 4]
    have p: "ve_Param ev (i + 1) 0 = 2" "ve_Param ev (i + 2) 0 = int ?r" "ve_Param ev (i + 2 + 1) 0 = int ?g" "ve_Param ev (i + 2 + 2) 0 = int ?b"
      using csi_param [OF ev] h by simp_all
    have "i + 2 < length vals" using h by simp
    then have "ve_params ev ! (i + 2) = int ?r" using ev h by (metis csi_event_def nth_take)
    then have "ve_params ev ! (i + 2) \<noteq> kVtParamOmitted" by (simp add: kVtParamOmitted_def)
    then show "ExtendedColor ev i = (c, i + length [2, ?r, ?g, ?b])"
      unfolding ExtendedColor_def Let_def p(1) using p byte_back [of "co_r c"] byte_back [of "co_g c"] byte_back [of "co_b c"] c by simp
  qed
  then show ?thesis using ColorRgb by (simp add: color_codes_def)
qed

definition attr_bits :: "(u8 \<times> nat) list" where
  "attr_bits = [(kAttrBold, 1), (kAttrDim, 2), (kAttrItalic, 3), (kAttrUnderline, 4), (kAttrBlink, 5), (kAttrReverse, 7), (kAttrHidden, 8), (kAttrStrike, 9)]"

definition attr_codes :: "u8 \<Rightarrow> nat list" where
  "attr_codes a = concat (map (\<lambda>(bit, n). if a AND bit \<noteq> 0 then [n] else []) attr_bits)"

definition with_bits :: "u8 \<Rightarrow> (u8 \<times> nat) list \<Rightarrow> Pen \<Rightarrow> Pen" where
  "with_bits a bits q = fold (\<lambda>(bit, n) q. if a AND bit \<noteq> 0 then add_attr bit q else q) bits q"

lemma pen_step_bits:
  assumes "\<forall>(bit, n)\<in>set bits. \<forall>ev i q. ve_Param ev i 0 = int n \<longrightarrow> sgr_code ev i q = (add_attr bit q, i)"
  shows "pen_step (concat (map (\<lambda>(bit, n). if a AND bit \<noteq> 0 then [n] else []) bits) @ ns) q ns (with_bits a bits q)"
  using assms
proof (induction bits arbitrary: q)
  case (Cons x bits)
  obtain bit n where x: "x = (bit, n)" by (cases x)
  let ?rest = "concat (map (\<lambda>(bit, n). if a AND bit \<noteq> 0 then [n] else []) bits) @ ns"
  let ?q = "if a AND bit \<noteq> 0 then add_attr bit q else q"
  have "pen_step ((if a AND bit \<noteq> 0 then [n] else []) @ ?rest) q ?rest ?q"
    using Cons.prems x by (intro pen_step_attr) simp
  moreover have "pen_step ?rest ?q ns (with_bits a bits ?q)" using Cons by simp
  ultimately have "pen_step ((if a AND bit \<noteq> 0 then [n] else []) @ ?rest) q ns (with_bits a bits ?q)" by (rule pen_step_trans)
  then show ?case by (simp add: x with_bits_def)
qed (simp add: with_bits_def pen_step_refl)

lemma add_bit:
  assumes "b = push_bit k 1" "k < 8"
  shows "(if a AND b \<noteq> 0 then add_attr b q else q) = q\<lparr>pen_attrs := pen_attrs q OR (a AND b)\<rparr>"
proof -
  have "a AND push_bit k 1 = (if bit a k then push_bit k 1 else 0)" by (rule bit_word_eqI) (auto simp: bit_simps)
  then show ?thesis unfolding assms(1) using assms(2) by (cases "bit a k") (auto simp: add_attr_def)
qed

lemma attrs_back: "with_bits a attr_bits pen_init = pen_init\<lparr>pen_attrs := a\<rparr>"
proof -
  have b: "kAttrBold = push_bit 0 1" "kAttrDim = push_bit 1 1" "kAttrItalic = push_bit 2 1" "kAttrUnderline = push_bit 3 1" "kAttrBlink = push_bit 4 1"
    "kAttrReverse = push_bit 5 1" "kAttrHidden = push_bit 6 1" "kAttrStrike = push_bit 7 1" by (simp_all add: kconsts)
  have "kAttrBold OR kAttrDim OR kAttrItalic OR kAttrUnderline OR kAttrBlink OR kAttrReverse OR kAttrHidden OR kAttrStrike = mask 8"
    by (simp add: kconsts mask_eq_exp_minus_1)
  then have "a AND (kAttrBold OR kAttrDim OR kAttrItalic OR kAttrUnderline OR kAttrBlink OR kAttrReverse OR kAttrHidden OR kAttrStrike) = a"
    by (intro bit_word_eqI) (simp add: bit_simps)
  then have all: "(a AND kAttrBold) OR (a AND kAttrDim) OR (a AND kAttrItalic) OR (a AND kAttrUnderline) OR (a AND kAttrBlink) OR (a AND kAttrReverse)
      OR (a AND kAttrHidden) OR (a AND kAttrStrike) = a"
    by (simp only: bit.conj_disj_distrib)
  show ?thesis unfolding with_bits_def attr_bits_def
    by (simp add: add_bit [OF b(1)] add_bit [OF b(2)] add_bit [OF b(3)] add_bit [OF b(4)] add_bit [OF b(5)] add_bit [OF b(6)] add_bit [OF b(7)]
        add_bit [OF b(8)] pen_init_def all or.assoc)
qed

definition pen_codes :: "Pen \<Rightarrow> nat list" where
  "pen_codes p = 0 # attr_codes (pen_attrs p) @ color_codes (pen_fg p) True @ color_codes (pen_bg p) False"

lemma pen_codes_read: "pen_ok p \<Longrightarrow> pen_step (pen_codes p) q [] p"
proof -
  assume ok: "pen_ok p"
  let ?fg = "color_codes (pen_fg p) True" and ?bg = "color_codes (pen_bg p) False"
  have 0: "pen_step (0 # attr_codes (pen_attrs p) @ ?fg @ ?bg) q (attr_codes (pen_attrs p) @ ?fg @ ?bg) pen_init"
    by (rule pen_step_code) (simp add: sgr_code_def)
  have 1: "pen_step (attr_codes (pen_attrs p) @ ?fg @ ?bg) pen_init (?fg @ ?bg) (pen_init\<lparr>pen_attrs := pen_attrs p\<rparr>)"
    unfolding attr_codes_def attrs_back [symmetric] by (rule pen_step_bits) (simp add: attr_bits_def sgr_code_def)
  have 2: "pen_step (?fg @ ?bg) (pen_init\<lparr>pen_attrs := pen_attrs p\<rparr>) ?bg (with_color True (pen_fg p) (pen_init\<lparr>pen_attrs := pen_attrs p\<rparr>))"
    using ok by (intro pen_step_color) (simp add: pen_ok_def)
  have 3: "pen_step (?bg @ []) (with_color True (pen_fg p) (pen_init\<lparr>pen_attrs := pen_attrs p\<rparr>)) [] p"
  proof -
    have p: "with_color False (pen_bg p) (with_color True (pen_fg p) (pen_init\<lparr>pen_attrs := pen_attrs p\<rparr>)) = p"
      by (cases p) (simp add: with_color_def pen_init_def)
    have "color_ok (pen_bg p)" using ok by (simp add: pen_ok_def)
    from pen_step_color [OF this, of False "[]" "with_color True (pen_fg p) (pen_init\<lparr>pen_attrs := pen_attrs p\<rparr>)"]
    show ?thesis unfolding p .
  qed
  show ?thesis unfolding pen_codes_def
    using pen_step_trans [OF 0 pen_step_trans [OF 1 pen_step_trans [OF 2]]] 3 by simp
qed

lemma color_codes_small: "length (color_codes c fg) \<le> 5" "\<forall>n\<in>set (color_codes c fg). n \<le> 65535"
proof -
  have "unat (co_r c) < 256" "unat (co_g c) < 256" "unat (co_b c) < 256" by (rule unat_u8)+
  then show "length (color_codes c fg) \<le> 5" "\<forall>n\<in>set (color_codes c fg). n \<le> 65535"
    by (auto simp: color_codes_def split: ColorKind.splits)
qed

lemma attr_codes_small: "length (attr_codes a) \<le> 8" "\<forall>n\<in>set (attr_codes a). n \<le> 65535"
  by (auto simp: attr_codes_def attr_bits_def)

definition more_params :: "nat list \<Rightarrow> bytes" where
  "more_params ns = concat (map (\<lambda>n. 0x3B # dec n) ns)"

lemma more_params_simps [simp]:
  "more_params [] = []" "more_params (n # ns) = 0x3B # dec n @ more_params ns" "more_params (ms @ ns) = more_params ms @ more_params ns"
  "more_params (if c then ms else ns) = (if c then more_params ms else more_params ns)"
  by (simp_all add: more_params_def)

lemma color_text: "more_params (color_codes c fg) = AppendColor c fg"
  by (cases "co_kind c"; cases fg) (simp_all add: color_codes_def AppendColor_def Let_def bytes_of_def dec.simps [of 5] dec.simps [of 2])

lemma pen_text: "AppendPen p = AppendCsi (params_text (pen_codes p) @ [0x6D])"
proof -
  have "params_text (pen_codes p) = dec 0 @ more_params (attr_codes (pen_attrs p)) @ AppendColor (pen_fg p) True @ AppendColor (pen_bg p) False"
    by (simp add: params_text_def pen_codes_def color_text flip: more_params_def)
  then show ?thesis by (simp add: AppendPen_def Let_def attr_codes_def attr_bits_def bytes_of_def dec.simps)
qed

lemma draws_pen:
  assumes "pen_ok p"
  shows "draws (AppendPen p) s (s\<lparr>sc_pen := p\<rparr>)"
  unfolding pen_text
proof (rule draws_csi)
  show "length (pen_codes p) \<le> 32"
    using color_codes_small(1) [of "pen_fg p" True] color_codes_small(1) [of "pen_bg p" False] attr_codes_small(1) [of "pen_attrs p"]
    by (simp add: pen_codes_def)
  show "\<forall>n\<in>set (pen_codes p). n \<le> 65535" using color_codes_small(2) attr_codes_small(2) by (auto simp: pen_codes_def)
  fix ev assume ev: "csi_event ev 0 (map int (pen_codes p)) 0x6D"
  obtain j where j: "sgr_from ev 0 (sc_pen s) = sgr_from ev j p" "drop j (map int (pen_codes p)) = []"
  proof -
    have "csi_event ev 0 (map int (pen_codes p)) 0x6D \<and> drop 0 (map int (pen_codes p)) = map int (pen_codes p)" using ev by simp
    then have "\<exists>j. sgr_from ev 0 (sc_pen s) = sgr_from ev j p \<and> drop j (map int (pen_codes p)) = map int []"
      using pen_codes_read [OF assms] unfolding pen_step_def by blast
    then show ?thesis using that by auto
  qed
  have "ve_paramCount ev = length (pen_codes p)" using ev by (simp add: csi_event_def)
  then have "sgr_from ev j p = p" "ve_paramCount ev \<noteq> 0" using j(2) by (simp_all add: sgr_from.simps [of ev j] pen_codes_def)
  then show "sc_Csi ev s = Some (s\<lparr>sc_pen := p\<rparr>)" using j(1) ev by (simp add: sc_Csi_def csi_event_def Sgr_def)
qed (simp add: IsCsiFinal_def)

end
