(* ===== verification/RepaintShows.thy ===== *)
theory RepaintShows
  imports RepaintRead
begin

text \<open>
  The repaint as a whole: first what brings any screen into a plain state, then the grid cell by cell,
  then the modes, the region and the cursor.
\<close>

section \<open>A plain screen\<close>

definition plain :: "Screen \<Rightarrow> bool" where
  "plain s \<longleftrightarrow> sc_inv s \<and> \<not> mo_autoWrap (sc_modes s) \<and> \<not> mo_insert (sc_modes s) \<and> \<not> mo_origin (sc_modes s)
     \<and> \<not> sc_graphicsG0 s \<and> \<not> sc_graphicsG1 s \<and> \<not> sc_shiftedOut s"

definition moved :: "Screen \<Rightarrow> nat \<Rightarrow> nat \<Rightarrow> Screen" where
  "moved s r c = no_wrap (s\<lparr>sc_cursor := (sc_cursor s)\<lparr>cu_row := r, cu_col := c\<rparr>\<rparr>)"

lemma MoveTo_moved: "\<exists>r' c'. MoveTo r c s = moved s r' c'"
  unfolding MoveTo_def moved_def by (cases "row_limits s") auto

lemma MoveTo_plain:
  assumes "sc_inv s" "\<not> mo_origin (sc_modes s)" "r < Rows s" "c < Cols s"
  shows "MoveTo (int r) (int c) s = moved s r c"
proof -
  note b = wf_bounds [OF inv_wf [OF assms(1)]]
  have "clamp (int r) 0 (int (Rows s) - 1) = int r" "clamp (int c) 0 (int (Cols s) - 1) = int c" using assms(3,4) by (simp_all add: clamp_def)
  moreover have "c16 (int r) = r" "c16 (int c) = c" using assms(3,4) b by (simp_all add: c16_small)
  ultimately show ?thesis using assms(2) by (simp add: MoveTo_def moved_def row_limits_def)
qed

lemma on_grid_only: "on_grid s g = Some s' \<Longrightarrow> \<exists>g. s' = s\<lparr>sc_grid := g\<rparr>"
  by (cases g) (auto simp: on_grid_def)

lemma Erase_only: "EraseInDisplay 2 s = Some s' \<Longrightarrow> \<exists>g. s' = s\<lparr>sc_grid := g\<rparr>"
  using on_grid_only by (auto simp: EraseInDisplay_def)

lemma Switch_only:
  assumes "SwitchScreen on clear s = Some s'"
  shows "\<exists>g saved. s' = s\<lparr>sc_alternate := on, sc_savedGrid := saved, sc_grid := g\<rparr>"
proof (cases "on = sc_alternate s")
  case True
  then have "s' = s\<lparr>sc_grid := sc_grid s\<rparr> \<or> EraseInDisplay 2 s = Some s'" using assms by (auto simp: SwitchScreen_def split: if_splits)
  then obtain g where "s' = s\<lparr>sc_grid := g\<rparr>" using Erase_only by blast
  then have "s' = s\<lparr>sc_alternate := on, sc_savedGrid := sc_savedGrid s, sc_grid := g\<rparr>" using True by simp
  then show ?thesis by blast
next
  case False
  then show ?thesis using assms Erase_only by (fastforce simp: SwitchScreen_def Let_def split: if_splits)
qed

lemma alternate_set:
  assumes "sc_inv s"
  shows "\<exists>s'. SetPrivateMode 1049 on s = Some s' \<and> sc_inv s' \<and> sc_size s' = sc_size s \<and> sc_alternate s' = on"
proof -
  have "sc_inv (if on then SaveCursor s else s)" "sc_size (if on then SaveCursor s else s) = sc_size s"
    using small_moves_ok(3) [OF assms] assms by (simp_all add: SaveCursor_def)
  then obtain s1 where s1: "SwitchScreen on on (if on then SaveCursor s else s) = Some s1" "sc_inv s1" "sc_size s1 = sc_size s"
    using SwitchScreen_ok [of "if on then SaveCursor s else s" on on] by (auto simp: same_region_def)
  then have "sc_alternate s1 = on" using Switch_only [OF s1(1)] by auto
  then show ?thesis using s1 small_moves_ok(4) [OF s1(2)] by (auto simp: SetPrivateMode_def RestoreCursor_def)
qed

text \<open>What follows the switch of the screen in \<open>render_setup\<close>.\<close>

definition after_switch :: bytes where
  "after_switch = [kShiftIn] @ AppendSelectCharset 0x28 False @ AppendSelectCharset 0x29 False @ AppendAnsiMode 4 False
     @ AppendPrivateMode 6 False @ AppendPrivateMode 7 False @ AppendCsi [0x72] @ AppendCsi [0x48] @ AppendCsi (bytes_of ''2J'')"

lemma render_setup_split: "render_setup s = AppendPrivateMode 1049 (sc_alternate s) @ after_switch"
  by (simp add: render_setup_def after_switch_def)

lemma draws_whole_region:
  assumes "sc_inv s"
  shows "draws (AppendCsi [0x72]) s (MoveTo 0 0 (s\<lparr>sc_scrollTop := 0, sc_scrollBottom := Rows s - 1\<rparr>))"
proof -
  note b = wf_bounds [OF inv_wf [OF assms]]
  have "AppendScrollRegion 0 (Rows s - 1) (Rows s) = AppendCsi [0x72]" using b by (simp add: AppendScrollRegion_def)
  then show ?thesis using draws_region [of 0 "Rows s - 1" s] b by (cases "Rows s = 1") auto
qed

lemma setup_plain:
  assumes inv: "sc_inv s"
  shows "\<exists>s'. draws after_switch s s' \<and> plain s' \<and> sc_size s' = sc_size s \<and> sc_alternate s' = sc_alternate s"
proof -
  define s1 where "s1 = s\<lparr>sc_shiftedOut := False, sc_graphicsG0 := False, sc_graphicsG1 := False, sc_modes := (sc_modes s)\<lparr>mo_insert := False\<rparr>\<rparr>"
  have s1: "draws ([kShiftIn] @ AppendSelectCharset 0x28 False @ AppendSelectCharset 0x29 False @ AppendAnsiMode 4 False) s s1"
  proof (intro draws_append)
    show "draws [kShiftIn] s (s\<lparr>sc_shiftedOut := False\<rparr>)" by (rule draws_shift)
    show "draws (AppendSelectCharset 0x28 False) (s\<lparr>sc_shiftedOut := False\<rparr>) (s\<lparr>sc_shiftedOut := False, sc_graphicsG0 := False\<rparr>)"
      using draws_charset(1) [of False "s\<lparr>sc_shiftedOut := False\<rparr>"] by simp
    show "draws (AppendSelectCharset 0x29 False) (s\<lparr>sc_shiftedOut := False, sc_graphicsG0 := False\<rparr>)
        (s\<lparr>sc_shiftedOut := False, sc_graphicsG0 := False, sc_graphicsG1 := False\<rparr>)"
      using draws_charset(2) [of False "s\<lparr>sc_shiftedOut := False, sc_graphicsG0 := False\<rparr>"] by simp
    show "draws (AppendAnsiMode 4 False) (s\<lparr>sc_shiftedOut := False, sc_graphicsG0 := False, sc_graphicsG1 := False\<rparr>) s1"
      using draws_ansi [of False "s\<lparr>sc_shiftedOut := False, sc_graphicsG0 := False, sc_graphicsG1 := False\<rparr>"] by (simp add: s1_def)
  qed
  have i1: "sc_inv s1" using inv by (simp add: s1_def)
  obtain r c where m2: "MoveTo 0 0 (s1\<lparr>sc_modes := (sc_modes s1)\<lparr>mo_origin := False\<rparr>\<rparr>) = moved (s1\<lparr>sc_modes := (sc_modes s1)\<lparr>mo_origin := False\<rparr>\<rparr>) r c"
    using MoveTo_moved by blast
  define s2 where "s2 = moved (s1\<lparr>sc_modes := (sc_modes s1)\<lparr>mo_origin := False\<rparr>\<rparr>) r c"
  have d2: "draws (AppendPrivateMode 6 False) s1 s2" by (rule draws_private) (simp_all add: SetPrivateMode_def m2 s2_def)
  have i2: "sc_inv s2" unfolding s2_def m2 [symmetric] using i1 by (intro Move_inv) simp
  define s3 where "s3 = s2\<lparr>sc_modes := (sc_modes s2)\<lparr>mo_autoWrap := False\<rparr>\<rparr>"
  have d3: "draws (AppendPrivateMode 7 False) s2 s3" by (rule draws_private) (simp_all add: SetPrivateMode_def s3_def)
  have i3: "sc_inv s3" using i2 by (simp add: s3_def)
  let ?t = "s3\<lparr>sc_scrollTop := 0, sc_scrollBottom := Rows s3 - 1\<rparr>"
  obtain r c where m4: "MoveTo 0 0 ?t = moved ?t r c" using MoveTo_moved by blast
  define s4 where "s4 = moved ?t r c"
  have d4: "draws (AppendCsi [0x72]) s3 s4" using draws_whole_region [OF i3] unfolding m4 s4_def .
  note b = wf_bounds [OF inv_wf [OF i3]]
  have "sc_inv ?t" using i3 b by (auto simp: sc_inv_def sc_wf_def Rows_def Cols_def)
  then have i4: "sc_inv s4" unfolding s4_def m4 [symmetric] by (rule Move_inv)
  obtain r c where m5: "MoveTo 0 0 s4 = moved s4 r c" using MoveTo_moved by blast
  define s5 where "s5 = moved s4 r c"
  have d5: "draws (AppendCsi [0x48]) s4 s5" using draws_home [of s4] unfolding m5 s5_def .
  have i5: "sc_inv s5" unfolding s5_def m5 [symmetric] using i4 by (rule Move_inv)
  obtain s6 where s6: "EraseInDisplay 2 s5 = Some s6" "sc_inv s6" using EraseInDisplay_ok [OF i5, of 2] by blast
  obtain g where g: "s6 = s5\<lparr>sc_grid := g\<rparr>" using Erase_only [OF s6(1)] by blast
  have "draws after_switch s s6"
    using draws_append [OF s1 draws_append [OF d2 draws_append [OF d3 draws_append [OF d4 draws_append [OF d5 draws_erase [OF s6(1)]]]]]]
    by (simp add: after_switch_def)
  moreover have "plain s6" using s6(2) by (simp add: plain_def g s5_def s4_def s3_def s2_def s1_def moved_def)
  moreover have "sc_size s6 = sc_size s \<and> sc_alternate s6 = sc_alternate s" by (simp add: g s5_def s4_def s3_def s2_def s1_def moved_def)
  ultimately show ?thesis by blast
qed

section \<open>The grid\<close>

text \<open>Printing on a plain screen puts one cell and moves on.\<close>

definition put_at :: "Screen \<Rightarrow> u32 \<Rightarrow> Screen" where
  "put_at s cp =
     (let r = cu_row (sc_cursor s); c = cu_col (sc_cursor s);
          s1 = no_wrap (s\<lparr>sc_grid := (sc_grid s)[r := (sc_grid s ! r)[c := \<lparr>ce_ch = cp, ce_pen = sc_pen s\<rparr>]]\<rparr>)
      in if c + 1 \<ge> Cols s then s1\<lparr>sc_pendingWrap := True\<rparr> else set_col s1 (c + 1))"

lemma Print_plain:
  assumes "plain s"
  shows "sc_Print cp s = Some (put_at s cp)"
proof -
  have inv: "sc_inv s" using assms by (simp add: plain_def)
  have p: "grid_ok (Rows s) (Cols s) (sc_grid s)" "cu_row (sc_cursor s) < Rows s" "cu_col (sc_cursor s) < Cols s" using inv_parts [OF inv] by simp_all
  then have len: "cu_row (sc_cursor s) < length (sc_grid s)" "length (sc_grid s ! cu_row (sc_cursor s)) = Cols s"
    by (simp_all add: grid_ok_def list_all_length row_ok_def)
  have "put_glyph (no_wrap s) cp = Some (no_wrap (s\<lparr>sc_grid := (sc_grid s)[cu_row (sc_cursor s) := (sc_grid s ! cu_row (sc_cursor s))
      [cu_col (sc_cursor s) := \<lparr>ce_ch = cp, ce_pen = sc_pen s\<rparr>]]\<rparr>))"
    using p len by (simp add: put_glyph_def on_grid_def set_row_def put_cell_def vec_at_in)
  then show ?thesis using assms p by (simp add: sc_Print_def plain_def put_at_def Let_def Cols_def)
qed

text \<open>What drawing the grid leaves alone.\<close>

definition frame :: "Screen \<Rightarrow> Screen" where
  "frame s = s\<lparr>sc_grid := [], sc_cursor := cursor_init, sc_pen := pen_init, sc_pendingWrap := False\<rparr>"

definition only_drawn :: "Screen \<Rightarrow> Screen \<Rightarrow> bool" where
  "only_drawn s s' \<longleftrightarrow> frame s' = frame s"

lemma only_drawn_refl: "only_drawn s s"
  by (simp add: only_drawn_def)

lemma only_drawn_trans: "only_drawn a b \<Longrightarrow> only_drawn b c \<Longrightarrow> only_drawn a c"
  by (simp add: only_drawn_def)

lemma only_drawn_parts:
  assumes "only_drawn s s'"
  shows "sc_size s' = sc_size s" "sc_alternate s' = sc_alternate s" "Rows s' = Rows s" "Cols s' = Cols s" "sc_modes s' = sc_modes s"
    "sc_graphicsG0 s' = sc_graphicsG0 s" "sc_graphicsG1 s' = sc_graphicsG1 s" "sc_shiftedOut s' = sc_shiftedOut s"
proof -
  show size: "sc_size s' = sc_size s" using arg_cong [OF assms [unfolded only_drawn_def], of sc_size] by (simp add: frame_def)
  then show "Rows s' = Rows s" "Cols s' = Cols s" by (simp_all add: Rows_def Cols_def)
  show "sc_alternate s' = sc_alternate s" "sc_modes s' = sc_modes s" "sc_graphicsG0 s' = sc_graphicsG0 s"
    "sc_graphicsG1 s' = sc_graphicsG1 s" "sc_shiftedOut s' = sc_shiftedOut s"
    using arg_cong [OF assms [unfolded only_drawn_def], of sc_alternate] arg_cong [OF assms [unfolded only_drawn_def], of sc_modes]
      arg_cong [OF assms [unfolded only_drawn_def], of sc_graphicsG0] arg_cong [OF assms [unfolded only_drawn_def], of sc_graphicsG1]
      arg_cong [OF assms [unfolded only_drawn_def], of sc_shiftedOut]
    by (simp_all add: frame_def)
qed

lemma drawn_plain: "plain s \<Longrightarrow> only_drawn s s' \<Longrightarrow> sc_inv s' \<Longrightarrow> plain s'"
  using only_drawn_parts [of s s'] by (simp add: plain_def)

lemma drawn_moved: "only_drawn s (moved s r c)"
  by (simp add: only_drawn_def frame_def moved_def)

lemma drawn_pen: "only_drawn s (s\<lparr>sc_pen := p\<rparr>)"
  by (simp add: only_drawn_def frame_def)

lemma drawn_put: "only_drawn s (put_at s cp)"
  by (simp add: only_drawn_def frame_def put_at_def Let_def)

lemma put_at_inv: "plain s \<Longrightarrow> glyph_ok cp \<Longrightarrow> plain (put_at s cp)"
proof -
  assume p: "plain s" and cp: "glyph_ok cp"
  have "sc_inv s" using p by (simp add: plain_def)
  from Print_ok [OF this cp] have "sc_inv (put_at s cp)" using Print_plain [OF p, of cp] by simp
  then show ?thesis using drawn_plain [OF p drawn_put] by blast
qed

text \<open>The cells of one row, from a column on; \<open>left\<close> is how many are left.\<close>

lemma list_update_next: "c < length ys \<Longrightarrow> length xs = length ys \<Longrightarrow> (take c xs @ drop c ys) = (take (c + 1) (xs[c := ys ! c]) @ drop (c + 1) ys)"
  by (simp add: take_Suc_conv_app_nth Cons_nth_drop_Suc)

lemma cells_drawn:
  assumes src: "sc_inv src" and r: "r < Rows src"
  shows "left = Cols src - c \<Longrightarrow> c \<le> Cols src \<Longrightarrow> plain s \<Longrightarrow> sc_size s = sc_size src \<Longrightarrow> cu_row (sc_cursor s) = r
    \<Longrightarrow> (c < Cols src \<longrightarrow> cu_col (sc_cursor s) = c) \<Longrightarrow> sc_pen s = pen \<Longrightarrow>
    \<exists>out pen' s'. append_cells src r [c..<Cols src] pen = Some (out, pen') \<and> draws out s s' \<and> plain s' \<and> only_drawn s s'
      \<and> sc_pen s' = pen' \<and> sc_grid s' = (sc_grid s)[r := take c (sc_grid s ! r) @ drop c (sc_grid src ! r)]"
proof (induction left arbitrary: c s pen)
  case 0
  have "length (sc_grid s ! r) = Cols src" "length (sc_grid src ! r) = Cols src" "r < length (sc_grid s)"
    using inv_parts(1) [of s] inv_parts(1) [OF src] 0(3,4) r by (auto simp: plain_def grid_ok_def list_all_length row_ok_def Rows_def Cols_def)
  moreover have "c = Cols src" using 0 by simp
  ultimately show ?case using 0 draws_nothing only_drawn_refl by (intro exI [of _ "[]"] exI [of _ pen] exI [of _ s]) simp
next
  case (Suc left)
  have c: "c < Cols src" using Suc.prems by simp
  have inv: "sc_inv s" using Suc.prems(3) by (simp add: plain_def)
  have dims: "Rows s = Rows src" "Cols s = Cols src" using Suc.prems(4) by (simp_all add: Rows_def Cols_def)
  have rows: "length (sc_grid src) = Rows src" "row_ok (Cols src) (sc_grid src ! r)" "length (sc_grid s) = Rows src" "row_ok (Cols src) (sc_grid s ! r)"
    using inv_parts(1) [OF src] inv_parts(1) [OF inv] r dims by (auto simp: grid_ok_def list_all_length)
  define cell where "cell = sc_grid src ! r ! c"
  have at: "sc_At src r c = Some cell" using r c rows by (simp add: sc_At_def vec_at_in row_ok_def cell_def)
  have cell: "glyph_ok (ce_ch cell)" "pen_ok (ce_pen cell)" using rows(2) c by (auto simp: row_ok_def list_all_length cell_ok_def cell_def)
  define s1 where "s1 = s\<lparr>sc_pen := ce_pen cell\<rparr>"
  have d1: "draws (if ce_pen cell = pen then [] else AppendPen (ce_pen cell)) s s1"
  proof (cases "ce_pen cell = pen")
    case True
    then have "s1 = s" using Suc.prems(7) by (simp add: s1_def)
    then show ?thesis using True draws_nothing by simp
  qed (use draws_pen [OF cell(2), of s] in \<open>simp add: s1_def\<close>)
  have p1: "plain s1" using Suc.prems(3) pen_changed [OF inv cell(2)] by (simp add: plain_def s1_def)
  have "\<not> ce_ch cell < 0x20" using cell(1) by (auto simp: glyph_ok_def)
  then have d2: "draws (EncodeUtf8 (if ce_ch cell < 0x20 then 0x20 else ce_ch cell)) s1 (put_at s1 (ce_ch cell))"
    using draws_glyph [OF cell(1) Print_plain [OF p1]] by simp
  define s2 where "s2 = put_at s1 (ce_ch cell)"
  have p2: "plain s2" unfolding s2_def by (rule put_at_inv [OF p1 cell(1)])
  have o2: "only_drawn s s2" unfolding s2_def s1_def using drawn_pen drawn_put only_drawn_trans by blast
  have at_c: "cu_col (sc_cursor s1) = c" "cu_row (sc_cursor s1) = r" using Suc.prems(5,6) c by (simp_all add: s1_def)
  have eq: "\<lparr>ce_ch = ce_ch cell, ce_pen = ce_pen cell\<rparr> = cell" by simp
  have s2: "sc_grid s2 = (sc_grid s)[r := (sc_grid s ! r)[c := cell]]" "sc_pen s2 = ce_pen cell" "cu_row (sc_cursor s2) = r"
    "c + 1 < Cols src \<longrightarrow> cu_col (sc_cursor s2) = c + 1" "sc_size s2 = sc_size src"
    using dims Suc.prems(4,5) unfolding s2_def put_at_def Let_def at_c by (auto simp: s1_def eq Cols_def)
  have "left = Cols src - (c + 1)" "c + 1 \<le> Cols src" using Suc.prems(1) c by auto
  from Suc.IH [OF this p2 s2(5,3,4,2)] obtain more pen' s' where more: "append_cells src r [c + 1..<Cols src] (ce_pen cell) = Some (more, pen')"
    "draws more s2 s'" "plain s'" "only_drawn s2 s'" "sc_pen s' = pen'"
    "sc_grid s' = (sc_grid s2)[r := take (c + 1) (sc_grid s2 ! r) @ drop (c + 1) (sc_grid src ! r)]" by blast
  have "sc_grid s2 ! r = (sc_grid s ! r)[c := cell]" using s2(1) r rows(3) by simp
  moreover have "take (c + 1) ((sc_grid s ! r)[c := cell]) @ drop (c + 1) (sc_grid src ! r) = take c (sc_grid s ! r) @ drop c (sc_grid src ! r)"
    using list_update_next [of c "sc_grid src ! r" "sc_grid s ! r"] rows c by (simp add: row_ok_def cell_def)
  ultimately have grid: "sc_grid s' = (sc_grid s)[r := take c (sc_grid s ! r) @ drop c (sc_grid src ! r)]" using more(6) s2(1) by simp
  have up: "[c..<Cols src] = c # [c + 1..<Cols src]" using c by (simp add: upt_conv_Cons)
  let ?out = "(if ce_pen cell = pen then [] else AppendPen (ce_pen cell)) @ EncodeUtf8 (if ce_ch cell < 0x20 then 0x20 else ce_ch cell) @ more"
  have "append_cells src r [c..<Cols src] pen = Some (?out, pen')" unfolding up by (simp only: append_cells.simps at more(1) Let_def bind.bind_lunit prod.case)
  moreover have "draws ?out s s'" using draws_append [OF d1 draws_append [OF d2 [folded s2_def] more(2)]] .
  ultimately show ?case using more(3,5) grid only_drawn_trans [OF o2 more(4)] by blast
qed

lemma rows_drawn:
  assumes src: "sc_inv src"
  shows "left = Rows src - r \<Longrightarrow> r \<le> Rows src \<Longrightarrow> plain s \<Longrightarrow> sc_size s = sc_size src \<Longrightarrow> sc_pen s = pen \<Longrightarrow>
    \<exists>out s'. append_rows src [r..<Rows src] pen = Some out \<and> draws out s s' \<and> plain s' \<and> only_drawn s s'
      \<and> sc_grid s' = take r (sc_grid s) @ drop r (sc_grid src)"
proof (induction left arbitrary: r s pen)
  case 0
  have "length (sc_grid s) = Rows src" "length (sc_grid src) = Rows src"
    using inv_parts(1) [of s] inv_parts(1) [OF src] 0(3,4) by (simp_all add: plain_def grid_ok_def Rows_def)
  then show ?case using 0 draws_nothing only_drawn_refl by (intro exI [of _ "[]"] exI [of _ s]) simp
next
  case (Suc left)
  have r: "r < Rows src" using Suc.prems by simp
  have inv: "sc_inv s" "\<not> mo_origin (sc_modes s)" using Suc.prems(3) by (simp_all add: plain_def)
  have dims: "Rows s = Rows src" "Cols s = Cols src" using Suc.prems(4) by (simp_all add: Rows_def Cols_def)
  note b = wf_bounds [OF inv_wf [OF src]]
  define s1 where "s1 = moved s r 0"
  have mv: "MoveTo (int r) (int 0) s = s1" unfolding s1_def using MoveTo_plain [OF inv, of r 0] r b dims by simp
  have d1: "draws (AppendCup r 0) s s1" using draws_cup [of r 0 s] r b unfolding mv by simp
  have o1: "only_drawn s s1" unfolding s1_def by (rule drawn_moved)
  have "sc_inv s1" unfolding mv [symmetric] by (rule Move_inv [OF inv(1)])
  then have p1: "plain s1" by (rule drawn_plain [OF Suc.prems(3) o1])
  have s1: "sc_size s1 = sc_size src" "cu_row (sc_cursor s1) = r" "0 < Cols src \<longrightarrow> cu_col (sc_cursor s1) = 0" "sc_pen s1 = pen" "sc_grid s1 = sc_grid s"
    using Suc.prems by (simp_all add: s1_def moved_def)
  obtain out pen' s2 where cells: "append_cells src r [0..<Cols src] pen = Some (out, pen')" "draws out s1 s2" "plain s2" "only_drawn s1 s2"
    "sc_pen s2 = pen'" "sc_grid s2 = (sc_grid s1)[r := take 0 (sc_grid s1 ! r) @ drop 0 (sc_grid src ! r)]"
    using cells_drawn [OF src r refl _ p1 s1(1-4)] by auto
  have s2: "sc_size s2 = sc_size src" using only_drawn_parts(1) [OF cells(4)] s1(1) by simp
  have "left = Rows src - (r + 1)" "r + 1 \<le> Rows src" using Suc.prems(1) r by auto
  from Suc.IH [OF this cells(3) s2 cells(5)] obtain more s' where more: "append_rows src [r + 1..<Rows src] pen' = Some more" "draws more s2 s'" "plain s'"
    "only_drawn s2 s'" "sc_grid s' = take (r + 1) (sc_grid s2) @ drop (r + 1) (sc_grid src)" by blast
  have "length (sc_grid src) = Rows src" "length (sc_grid s) = Rows src"
    using inv_parts(1) [OF src] inv_parts(1) [OF inv(1)] dims by (simp_all add: grid_ok_def)
  then have grid: "sc_grid s' = take r (sc_grid s) @ drop r (sc_grid src)"
    using list_update_next [of r "sc_grid src" "sc_grid s"] r more(5) cells(6) s1(5) by simp
  have up: "[r..<Rows src] = r # [r + 1..<Rows src]" using r by (simp add: upt_conv_Cons)
  have "append_rows src [r..<Rows src] pen = Some (AppendCup r 0 @ out @ more)" unfolding up by (simp only: append_rows.simps cells(1) more(1) bind.bind_lunit prod.case)
  moreover have "draws (AppendCup r 0 @ out @ more) s s'" using draws_append [OF d1 draws_append [OF cells(2) more(2)]] .
  ultimately show ?case using more(3) grid only_drawn_trans [OF o1 only_drawn_trans [OF cells(4) more(4)]] by blast
qed

lemma grid_drawn:
  assumes "sc_inv src" "plain s" "sc_size s = sc_size src"
  shows "\<exists>out s'. AppendGrid src = Some out \<and> draws out s s' \<and> plain s' \<and> only_drawn s s' \<and> sc_grid s' = sc_grid src"
proof -
  let ?s = "s\<lparr>sc_pen := pen_init\<rparr>"
  have p: "plain ?s" using assms(2) pen_changed [of s pen_init] by (simp add: plain_def)
  have "sc_size ?s = sc_size src" "sc_pen ?s = pen_init" using assms(3) by simp_all
  from rows_drawn [OF assms(1) refl _ p this, of 0] obtain out s' where "append_rows src [0..<Rows src] pen_init = Some out" "draws out ?s s'" "plain s'"
    "only_drawn ?s s'" "sc_grid s' = sc_grid src" by auto
  moreover from this have "draws (AppendPen pen_init @ out) s s'" using draws_append [OF draws_pen [of pen_init s]] by simp
  moreover from calculation have "only_drawn s s'" using only_drawn_trans [OF drawn_pen] by blast
  ultimately show ?thesis by (auto simp: AppendGrid_def)
qed

end
