(* ===== verification/RepaintBack.thy ===== *)
theory RepaintBack
  imports RepaintShows
begin

text \<open>
  The end of the repaint, its start whatever the viewer's parser was in the middle of, and the whole:
  after \<open>Write(RenderScreen(s))\<close> the viewer's screen shows what \<open>s\<close> shows.
\<close>

section \<open>The state after the grid\<close>

text \<open>What a viewer sees of a screen and how it goes on from there, the cursor and the title apart.\<close>

definition shown :: "Screen \<Rightarrow> grid \<times> Pen \<times> TerminalModes \<times> (nat \<times> nat) \<times> (bool \<times> bool \<times> bool) \<times> bool" where
  "shown s = (sc_grid s, sc_pen s, sc_modes s, (sc_scrollTop s, sc_scrollBottom s),
     (sc_graphicsG0 s, sc_graphicsG1 s, sc_shiftedOut s), sc_alternate s)"

definition cursor_in_reach :: "Screen \<Rightarrow> bool" where
  "cursor_in_reach s \<longleftrightarrow> mo_origin (sc_modes s) \<longrightarrow> sc_scrollTop s \<le> cu_row (sc_cursor s) \<and> cu_row (sc_cursor s) \<le> sc_scrollBottom s"

lemma draws_modes:
  "draws (AppendPrivateMode 5 on) s (s\<lparr>sc_modes := (sc_modes s)\<lparr>mo_reverseVideo := on\<rparr>\<rparr>)"
  "draws (AppendPrivateMode 1 on) s (s\<lparr>sc_modes := (sc_modes s)\<lparr>mo_applicationCursor := on\<rparr>\<rparr>)"
  "draws (AppendPrivateMode 2004 on) s (s\<lparr>sc_modes := (sc_modes s)\<lparr>mo_bracketedPaste := on\<rparr>\<rparr>)"
  "draws (AppendPrivateMode 1000 on) s (s\<lparr>sc_modes := (sc_modes s)\<lparr>mo_mouseReporting := on\<rparr>\<rparr>)"
  "draws (AppendPrivateMode 7 on) s (s\<lparr>sc_modes := (sc_modes s)\<lparr>mo_autoWrap := on\<rparr>\<rparr>)"
  "draws (AppendPrivateMode 6 on) s (MoveTo 0 0 (s\<lparr>sc_modes := (sc_modes s)\<lparr>mo_origin := on\<rparr>\<rparr>))"
  "draws (AppendPrivateMode 25 on) s (s\<lparr>sc_cursor := (sc_cursor s)\<lparr>cu_visible := on\<rparr>\<rparr>)"
  by (rule draws_private; simp add: SetPrivateMode_def)+

lemma moved_inj: "moved s r c = moved s r' c' \<Longrightarrow> r = r' \<and> c = c'"
proof -
  assume "moved s r c = moved s r' c'"
  then have "cu_row (sc_cursor (moved s r c)) = cu_row (sc_cursor (moved s r' c'))" "cu_col (sc_cursor (moved s r c)) = cu_col (sc_cursor (moved s r' c'))"
    by simp_all
  then show ?thesis by (simp add: moved_def)
qed

lemma MoveTo_origin:
  assumes src: "sc_inv src" and reach: "cursor_in_reach src"
    and s: "sc_size s = sc_size src" "sc_scrollTop s = sc_scrollTop src" "sc_scrollBottom s = sc_scrollBottom src" "mo_origin (sc_modes s) = mo_origin (sc_modes src)"
  shows "MoveTo (int (if mo_origin (sc_modes src) \<and> cu_row (sc_cursor src) \<ge> sc_scrollTop src
      then c16 (int (cu_row (sc_cursor src)) - int (sc_scrollTop src)) else cu_row (sc_cursor src))) (int (cu_col (sc_cursor src))) s
    = moved s (cu_row (sc_cursor src)) (cu_col (sc_cursor src))"
proof -
  let ?r = "cu_row (sc_cursor src)" and ?c = "cu_col (sc_cursor src)"
  have p: "?r < Rows src" "?c < Cols src" using inv_parts(2,3) [OF src] by simp_all
  note b = wf_bounds [OF inv_wf [OF src]]
  have dims: "Rows s = Rows src" "Cols s = Cols src" using s(1) by (simp_all add: Rows_def Cols_def)
  have small: "c16 (int ?r) = ?r" "c16 (int ?c) = ?c" using p b by (simp_all add: c16_small)
  have col: "clamp (int ?c) 0 (int (Cols src) - 1) = int ?c" using p by (simp add: clamp_def)
  show ?thesis
  proof (cases "mo_origin (sc_modes src)")
    case True
    then have r: "sc_scrollTop src \<le> ?r" "?r \<le> sc_scrollBottom src" using reach by (simp_all add: cursor_in_reach_def)
    then have "c16 (int ?r - int (sc_scrollTop src)) = ?r - sc_scrollTop src" using p b by (subst c16_small) auto
    moreover have "clamp (int ?r) (int (sc_scrollTop src)) (int (sc_scrollBottom src)) = int ?r" using r by (simp add: clamp_def)
    ultimately show ?thesis using True r s small col dims by (simp add: MoveTo_def row_limits_def moved_def of_nat_diff)
  next
    case False
    then have "clamp (int ?r) 0 (int (Rows src) - 1) = int ?r" using p by (simp add: clamp_def)
    then show ?thesis using False s small col dims by (simp add: MoveTo_def row_limits_def moved_def)
  qed
qed

lemma state_drawn:
  assumes src: "sc_inv src" and s: "plain s" "sc_size s = sc_size src" "sc_alternate s = sc_alternate src" "sc_grid s = sc_grid src"
  shows "\<exists>s'. draws (render_state src) s s' \<and> shown s' = shown src \<and> sc_size s' = sc_size src
    \<and> (sc_title src \<noteq> [] \<longrightarrow> sc_title s' = sc_title src)
    \<and> (cursor_in_reach src \<longrightarrow> sc_cursor s' = sc_cursor src) \<and> \<not> sc_pendingWrap s'"
proof -
  let ?m = "sc_modes src" and ?top = "sc_scrollTop src" and ?bot = "sc_scrollBottom src"
  let ?cr = "if mo_origin ?m \<and> cu_row (sc_cursor src) \<ge> ?top then c16 (int (cu_row (sc_cursor src)) - int ?top) else cu_row (sc_cursor src)"
  have w: "sc_wf src" using src by (rule inv_wf)
  note b = wf_bounds [OF w]
  have dims: "Rows s = Rows src" "Cols s = Cols src" using s(2) by (simp_all add: Rows_def Cols_def)
  have reg: "?top < ?bot \<or> ?top = 0 \<and> ?bot = 0" "?bot < Rows src" "?top = ?bot \<Longrightarrow> Rows src = 1"
    using src by (auto simp: sc_inv_def sc_wf_def)
  define s1 where "s1 = s\<lparr>sc_pen := pen_init\<rparr>"
  define s2 where "s2 = (if sc_title src \<noteq> [] then s1\<lparr>sc_title := sc_title src\<rparr> else s1)"
  define s3 where "s3 = s2\<lparr>sc_modes := (sc_modes s2)\<lparr>mo_reverseVideo := mo_reverseVideo ?m\<rparr>\<rparr>"
  define s4 where "s4 = s3\<lparr>sc_modes := (sc_modes s3)\<lparr>mo_applicationCursor := mo_applicationCursor ?m\<rparr>\<rparr>"
  define s5 where "s5 = s4\<lparr>sc_modes := (sc_modes s4)\<lparr>mo_bracketedPaste := mo_bracketedPaste ?m\<rparr>\<rparr>"
  define s6 where "s6 = s5\<lparr>sc_modes := (sc_modes s5)\<lparr>mo_mouseReporting := mo_mouseReporting ?m\<rparr>\<rparr>"
  define s7 where "s7 = s6\<lparr>sc_modes := (sc_modes s6)\<lparr>mo_applicationKeypad := mo_applicationKeypad ?m\<rparr>\<rparr>"
  define s8 where "s8 = s7\<lparr>sc_modes := (sc_modes s7)\<lparr>mo_insert := mo_insert ?m\<rparr>\<rparr>"
  have d1: "draws (AppendPen pen_init) s s1" unfolding s1_def by (rule draws_pen) simp
  have d2: "draws (if sc_title src \<noteq> [] then kEsc # bytes_of '']0;'' @ sc_title src @ [kBel] else []) s1 s2"
    unfolding s2_def using w by (intro draws_if draws_title) (simp_all add: sc_wf_def)
  have size: "sc_size s8 = sc_size src" by (simp add: s1_def s2_def s3_def s4_def s5_def s6_def s7_def s8_def s(2))
  then have rows8: "Rows s8 = Rows src" by (simp add: Rows_def)
  obtain r9 c9 where m9: "MoveTo 0 0 (s8\<lparr>sc_scrollTop := ?top, sc_scrollBottom := ?bot\<rparr>) = moved (s8\<lparr>sc_scrollTop := ?top, sc_scrollBottom := ?bot\<rparr>) r9 c9"
    using MoveTo_moved by blast
  define s9 where "s9 = moved (s8\<lparr>sc_scrollTop := ?top, sc_scrollBottom := ?bot\<rparr>) r9 c9"
  have d9: "draws (AppendScrollRegion ?top ?bot (Rows src)) s8 s9"
    using draws_region [of ?top ?bot s8] reg b unfolding rows8 m9 s9_def by simp
  obtain r10 c10 where m10: "MoveTo 0 0 (s9\<lparr>sc_modes := (sc_modes s9)\<lparr>mo_origin := mo_origin ?m\<rparr>\<rparr>)
      = moved (s9\<lparr>sc_modes := (sc_modes s9)\<lparr>mo_origin := mo_origin ?m\<rparr>\<rparr>) r10 c10" using MoveTo_moved by blast
  define s10 where "s10 = moved (s9\<lparr>sc_modes := (sc_modes s9)\<lparr>mo_origin := mo_origin ?m\<rparr>\<rparr>) r10 c10"
  have d10: "draws (AppendPrivateMode 6 (mo_origin ?m)) s9 s10" using draws_modes(6) [of "mo_origin ?m" s9] unfolding m10 s10_def .
  obtain r11 c11 where m11: "MoveTo (int ?cr) (int (cu_col (sc_cursor src))) s10 = moved s10 r11 c11" using MoveTo_moved by blast
  have there: "r11 = cu_row (sc_cursor src) \<and> c11 = cu_col (sc_cursor src)" if reach: "cursor_in_reach src"
  proof -
    have "sc_size s10 = sc_size src" "sc_scrollTop s10 = ?top" "sc_scrollBottom s10 = ?bot" "mo_origin (sc_modes s10) = mo_origin ?m"
      using size by (simp_all add: s10_def s9_def moved_def)
    from MoveTo_origin [OF src reach this] m11 have "moved s10 r11 c11 = moved s10 (cu_row (sc_cursor src)) (cu_col (sc_cursor src))" by simp
    then show ?thesis by (rule moved_inj)
  qed
  define s11 where "s11 = moved s10 r11 c11"
  have "?cr \<le> 1000" "cu_col (sc_cursor src) \<le> 1000"
  proof -
    have "cu_row (sc_cursor src) < Rows src" "cu_col (sc_cursor src) < Cols src" using inv_parts(2,3) [OF src] by simp_all
    then show "?cr \<le> 1000" "cu_col (sc_cursor src) \<le> 1000" using b by (auto simp: c16_small)
  qed
  then have d11: "draws (AppendCup ?cr (cu_col (sc_cursor src))) s10 s11" using draws_cup [of ?cr "cu_col (sc_cursor src)" s10] unfolding m11 s11_def by blast
  define s12 where "s12 = s11\<lparr>sc_modes := (sc_modes s11)\<lparr>mo_autoWrap := mo_autoWrap ?m\<rparr>\<rparr>"
  define s13 where "s13 = s12\<lparr>sc_cursor := (sc_cursor s12)\<lparr>cu_visible := cu_visible (sc_cursor src)\<rparr>\<rparr>"
  define s14 where "s14 = (if sc_graphicsG0 src then s13\<lparr>sc_graphicsG0 := True\<rparr> else s13)"
  define s15 where "s15 = (if sc_graphicsG1 src then s14\<lparr>sc_graphicsG1 := True\<rparr> else s14)"
  define s16 where "s16 = (if sc_shiftedOut src then s15\<lparr>sc_shiftedOut := True\<rparr> else s15)"
  define s17 where "s17 = s16\<lparr>sc_pen := sc_pen src\<rparr>"
  have d14: "draws (if sc_graphicsG0 src then AppendSelectCharset 0x28 True else []) s13 s14"
    unfolding s14_def by (intro draws_if draws_charset)
  have d15: "draws (if sc_graphicsG1 src then AppendSelectCharset 0x29 True else []) s14 s15"
    unfolding s15_def by (intro draws_if draws_charset)
  have d16: "draws (if sc_shiftedOut src then [kShiftOut] else []) s15 s16"
    unfolding s16_def by (intro draws_if draws_shift)
  have d17: "draws (AppendPen (sc_pen src)) s16 s17" unfolding s17_def by (rule draws_pen) (rule inv_parts(6) [OF src])
  note tail = draws_append [OF d11 draws_append [OF draws_modes(5) [of "mo_autoWrap ?m" s11, folded s12_def]
    draws_append [OF draws_modes(7) [of "cu_visible (sc_cursor src)" s12, folded s13_def] draws_append [OF d14 draws_append [OF d15 draws_append [OF d16 d17]]]]]]
  note middle = draws_append [OF draws_keypad [of "mo_applicationKeypad ?m" s6, folded s7_def] draws_append [OF draws_ansi [of "mo_insert ?m" s7, folded s8_def]
    draws_append [OF d9 draws_append [OF d10 tail]]]]
  have "draws (render_state src) s s17"
    unfolding render_state_def Let_def
    by (rule draws_append [OF d1 draws_append [OF d2 draws_append [OF draws_modes(1) [of "mo_reverseVideo ?m" s2, folded s3_def]
      draws_append [OF draws_modes(2) [of "mo_applicationCursor ?m" s3, folded s4_def] draws_append [OF draws_modes(3) [of "mo_bracketedPaste ?m" s4, folded s5_def]
      draws_append [OF draws_modes(4) [of "mo_mouseReporting ?m" s5, folded s6_def] middle]]]]]])
  moreover have f2: "sc_grid s2 = sc_grid s" "sc_alternate s2 = sc_alternate s" "\<not> sc_graphicsG0 s2" "\<not> sc_graphicsG1 s2" "\<not> sc_shiftedOut s2"
    "sc_title src \<noteq> [] \<longrightarrow> sc_title s2 = sc_title src"
    using s(1) by (simp_all add: s2_def s1_def plain_def)
  have f13: "sc_grid s13 = sc_grid s2" "sc_alternate s13 = sc_alternate s2" "sc_graphicsG0 s13 = sc_graphicsG0 s2" "sc_graphicsG1 s13 = sc_graphicsG1 s2"
    "sc_shiftedOut s13 = sc_shiftedOut s2" "sc_title s13 = sc_title s2" "sc_scrollTop s13 = ?top" "sc_scrollBottom s13 = ?bot" "sc_size s13 = sc_size s8"
    "sc_cursor s13 = (sc_cursor s10)\<lparr>cu_row := r11, cu_col := c11, cu_visible := cu_visible (sc_cursor src)\<rparr>" "\<not> sc_pendingWrap s13"
    by (simp_all add: s13_def s12_def s11_def s10_def s9_def moved_def s8_def s7_def s6_def s5_def s4_def s3_def)
  have "sc_modes s13 = ?m"
    by (cases ?m) (simp add: s13_def s12_def s11_def s10_def s9_def moved_def s8_def s7_def s6_def s5_def s4_def s3_def)
  moreover have f16: "sc_grid s16 = sc_grid s13" "sc_alternate s16 = sc_alternate s13" "sc_title s16 = sc_title s13" "sc_scrollTop s16 = sc_scrollTop s13"
    "sc_scrollBottom s16 = sc_scrollBottom s13" "sc_size s16 = sc_size s13" "sc_cursor s16 = sc_cursor s13" "sc_pendingWrap s16 = sc_pendingWrap s13"
    "sc_modes s16 = sc_modes s13" "sc_graphicsG0 s16 = (sc_graphicsG0 src \<or> sc_graphicsG0 s13)" "sc_graphicsG1 s16 = (sc_graphicsG1 src \<or> sc_graphicsG1 s13)"
    "sc_shiftedOut s16 = (sc_shiftedOut src \<or> sc_shiftedOut s13)"
    by (simp_all add: s16_def s15_def s14_def)
  have f17: "sc_grid s17 = sc_grid s16" "sc_alternate s17 = sc_alternate s16" "sc_title s17 = sc_title s16" "sc_scrollTop s17 = sc_scrollTop s16"
    "sc_scrollBottom s17 = sc_scrollBottom s16" "sc_size s17 = sc_size s16" "sc_cursor s17 = sc_cursor s16" "sc_pendingWrap s17 = sc_pendingWrap s16"
    "sc_modes s17 = sc_modes s16" "sc_graphicsG0 s17 = sc_graphicsG0 s16" "sc_graphicsG1 s17 = sc_graphicsG1 s16" "sc_shiftedOut s17 = sc_shiftedOut s16" "sc_pen s17 = sc_pen src"
    by (simp_all add: s17_def)
  ultimately have "shown s17 = shown src" using s(3,4) f2 f13 unfolding shown_def f17 f16 by simp
  moreover have "sc_size s17 = sc_size src" unfolding f17 f16 f13 by (rule size)
  moreover have "sc_title src \<noteq> [] \<longrightarrow> sc_title s17 = sc_title src" unfolding f17 f16 f13 by (rule f2)
  moreover have "cursor_in_reach src \<longrightarrow> sc_cursor s17 = sc_cursor src"
    unfolding f17 f16 f13 using there by (cases "sc_cursor src") simp
  moreover have "\<not> sc_pendingWrap s17" unfolding f17 f16 by (rule f13)
  ultimately show ?thesis using \<open>draws (render_state src) s s17\<close> by blast
qed

section \<open>A parser in the middle of something\<close>

text \<open>What an escape byte can still bring out: a replacement for a cut character, or the end of a title.\<close>

definition harmless :: "VtEvent \<Rightarrow> bool" where
  "harmless ev \<longleftrightarrow> event_ok ev \<and> (ve_action ev = VtPrint \<or> ve_action ev = VtOsc)"

definition escaped :: "VtParser \<Rightarrow> bool" where
  "escaped p \<longleftrightarrow> vp_fields p \<and> vp_utf8Left p = 0
     \<and> (vp_state p = VtEscape \<and> vp_prefix p = 0 \<and> vp_intermediate p = 0 \<and> vp_paramCount p = 0
        \<or> (vp_state p = VtOscString \<or> vp_state p = VtStringIgnore) \<and> vp_escInString p)"

lemma started: "vp_fields p \<Longrightarrow> vp_utf8Left p = 0 \<Longrightarrow> escaped ((StartSequence p)\<lparr>vp_state := VtEscape\<rparr>)"
  using Start_inv(1) [of p VtEscape] by (simp add: escaped_def) (simp add: StartSequence_def)

lemma not_csi_byte: "\<not> IsParamByte kEsc" "\<not> IsSeparator kEsc" "\<not> IsPrivateMarker kEsc" "\<not> IsIntermediate kEsc" "\<not> IsCsiFinal kEsc"
  by (simp_all add: IsParamByte_def IsSeparator_def IsPrivateMarker_def IsIntermediate_def IsCsiFinal_def kEsc_def)

lemma osc_harmless: "vp_fields p \<Longrightarrow> harmless (snd (EmitOsc p))"
  using EmitOsc_ok(2) [of p] by (simp add: harmless_def EmitOsc_def Let_def case_prod_beta ve_init_def)

text \<open>The end of a string by an escape and a byte that is not its terminator.\<close>

lemma string_left:
  assumes "vp_fields p" "vp_utf8Left p = 0" "vp_state p = VtOscString \<or> vp_state p = VtStringIgnore" "vp_escInString p" "b \<noteq> 0x5C"
  shows "\<exists>q out. Consume p b = (fst (consume_escape q b), out @ snd (consume_escape q b)) \<and> list_all harmless out
    \<and> escaped q \<and> vp_state q = VtEscape"
proof -
  let ?p1 = "p\<lparr>vp_escInString := False\<rparr>"
  define p2 where "p2 = (if vp_state p = VtOscString then fst (EmitOsc ?p1) else ?p1)"
  define out where "out = (if vp_state p = VtOscString then [snd (EmitOsc ?p1)] else [])"
  have f1: "vp_fields ?p1" using assms(1) by (simp add: vp_fields_def)
  have f2: "vp_fields (p2\<lparr>vp_osc := []\<rparr>)" "vp_utf8Left (p2\<lparr>vp_osc := []\<rparr>) = 0"
    using f1 EmitOsc_ok(3) [OF f1] assms(2) by (auto simp: p2_def vp_fields_def)
  let ?q = "(StartSequence (p2\<lparr>vp_osc := []\<rparr>))\<lparr>vp_state := VtEscape\<rparr>"
  have "Consume p b = (fst (Consume ?q b), out @ snd (Consume ?q b))"
    using assms(3-5) by (auto simp: Consume.simps [of p b] p2_def out_def Let_def case_prod_beta)
  moreover have "Consume ?q b = consume_escape ?q b" by (simp add: Consume.simps [of ?q b])
  moreover have "list_all harmless out" using osc_harmless [OF f1] by (simp add: out_def)
  ultimately show ?thesis using started [OF f2] by (intro exI [of _ ?q] exI [of _ out]) simp
qed

lemma escape_any:
  assumes "vp_inv p"
  shows "\<exists>q out. Consume p kEsc = (q, out) \<and> list_all harmless out \<and> escaped q"
proof -
  have f: "vp_fields p" and calm: "vp_state p = VtGround \<or> vp_utf8Left p = 0" using assms by (simp_all add: vp_inv_def calm_def)
  consider (ground) "vp_state p = VtGround" | (string) "vp_state p = VtOscString \<or> vp_state p = VtStringIgnore"
    | (other) "vp_state p \<noteq> VtGround" "vp_state p \<noteq> VtOscString" "vp_state p \<noteq> VtStringIgnore" by blast
  then show ?thesis
  proof cases
    case ground
    have "harmless (EmitPrint kReplacement)" using simple_events(4) by (simp add: harmless_def EmitPrint_def ve_init_def)
    moreover have "vp_fields (fst (flush_utf8 p))" "vp_utf8Left (fst (flush_utf8 p)) = 0" using ground_ok(3) [OF f] by (simp_all add: flush_utf8_def)
    ultimately show ?thesis using ground started [of "fst (flush_utf8 p)"]
      by (simp add: Consume.simps [of p] case_prod_beta) (simp add: flush_utf8_def)
  next
    case string
    then have left: "vp_utf8Left p = 0" using calm by auto
    show ?thesis
    proof (cases "vp_escInString p")
      case True
      obtain q out where q: "Consume p kEsc = (fst (consume_escape q kEsc), out @ snd (consume_escape q kEsc))" "list_all harmless out" "escaped q" "vp_state q = VtEscape"
        using string_left [OF f left string True, of kEsc] by (auto simp: kEsc_def)
      have "(StartSequence q)\<lparr>vp_state := VtEscape\<rparr> = StartSequence q" using q(4) by (simp add: StartSequence_def)
      then show ?thesis using q started [of q] by (auto simp: consume_escape_def escaped_def)
    next
      case False
      then show ?thesis using string f left by (auto simp: Consume.simps [of p] consume_string_def escaped_def vp_fields_def)
    qed
  next
    case other
    then have left: "vp_utf8Left p = 0" using calm by auto
    have "(StartSequence p)\<lparr>vp_state := VtEscape\<rparr> = StartSequence p" if "vp_state p = VtEscape" using that by (simp add: StartSequence_def)
    then show ?thesis using other started [OF f left] not_csi_byte
      by (cases "vp_state p") (simp_all add: Consume.simps [of p] consume_escape_def consume_escape_intermediate_def consume_csi_def
          consume_csi_intermediate_def consume_csi_ignore_def)
  qed
qed

lemma csi_any:
  assumes "vp_inv p"
  shows "\<exists>q out. Parse p [kEsc, 0x5B] = (q, out) \<and> list_all harmless out \<and> in_csi q 0 [] \<and> vp_state q = VtCsiEntry"
proof -
  obtain p1 o1 where p1: "Consume p kEsc = (p1, o1)" "list_all harmless o1" "escaped p1" using escape_any [OF assms] by blast
  have entry: "in_csi (fst (consume_escape q 0x5B)) 0 [] \<and> vp_state (fst (consume_escape q 0x5B)) = VtCsiEntry \<and> snd (consume_escape q 0x5B) = []"
    if "escaped q" "vp_state q = VtEscape" for q
    using that by (auto simp: consume_escape_def kEsc_def in_csi_def escaped_def vp_fields_def)
  show ?thesis
  proof (cases "vp_state p1 = VtEscape")
    case True
    then have "Consume p1 0x5B = consume_escape p1 0x5B" by (simp add: Consume.simps [of p1])
    then show ?thesis using p1 entry [OF p1(3) True] by (simp add: case_prod_beta)
  next
    case False
    then have s: "vp_state p1 = VtOscString \<or> vp_state p1 = VtStringIgnore" "vp_escInString p1" "vp_fields p1" "vp_utf8Left p1 = 0"
      using p1(3) by (auto simp: escaped_def)
    obtain q out where q: "Consume p1 0x5B = (fst (consume_escape q 0x5B), out @ snd (consume_escape q 0x5B))" "list_all harmless out" "escaped q" "vp_state q = VtEscape"
      using string_left [OF s(3,4,1,2), of "0x5B"] by auto
    then show ?thesis using p1 entry [OF q(3,4)] by (simp add: case_prod_beta)
  qed
qed

lemma private_any:
  assumes "vp_inv p" "n \<le> 65535" "IsCsiFinal b"
  shows "\<exists>q out ev. Parse p (kEsc # 0x5B # 0x3F # dec n @ [b]) = (q, out @ [ev]) \<and> list_all harmless out \<and> csi_event ev 0x3F [int n] b \<and> vp_ready q"
proof -
  obtain p1 out where p1: "Parse p [kEsc, 0x5B] = (p1, out)" "list_all harmless out" "in_csi p1 0 []" "vp_state p1 = VtCsiEntry" using csi_any [OF assms(1)] by blast
  obtain p2 ev where p2: "Parse p1 (0x3F # dec n @ [b]) = (p2, [ev])" "csi_event ev 0x3F [int n] b" "vp_ready p2"
    using private_rest [OF p1(3,4) assms(2,3)] by blast
  from Parse_then [OF p1(1) p2(1)] show ?thesis using p1(2) p2(2,3) by auto
qed

section \<open>The whole repaint\<close>

lemma harmless_kept: "sc_inv s \<Longrightarrow> list_all harmless evs \<Longrightarrow> \<exists>s'. apply_all evs s = Some s' \<and> sc_inv s' \<and> sc_size s' = sc_size s"
proof (induction evs arbitrary: s)
  case (Cons ev evs)
  have ev: "event_ok ev" "ve_action ev = VtPrint \<or> ve_action ev = VtOsc" using Cons.prems(2) by (simp_all add: harmless_def)
  obtain s1 where s1: "sc_Apply ev s = Some s1" "sc_inv s1" "sc_size s1 = sc_size s"
  proof (cases "ve_action ev = VtPrint")
    case True
    then show ?thesis using that Print_ok [OF Cons.prems(1), of "ve_codepoint ev"] ev(1) by (auto simp: sc_Apply_def event_ok_def)
  next
    case False
    then have osc: "ve_action ev = VtOsc" using ev(2) by simp
    have "sc_inv (sc_Osc ev s)" using Osc_ok [OF Cons.prems(1)] ev(1) by (simp add: event_ok_def)
    then show ?thesis using that [of "sc_Osc ev s"] osc by (simp add: sc_Apply_def) (simp add: sc_Osc_def Let_def)
  qed
  then show ?case using Cons.IH [OF s1(2)] Cons.prems(2) by simp
qed simp

theorem repaint_shows:
  assumes src: "sc_inv src" and s: "sc_inv s" "sc_size s = sc_size src"
  shows "\<exists>bs s'. RenderScreen src = Some bs \<and> sc_Write bs s = Some s' \<and> sc_inv s' \<and> shown s' = shown src \<and> sc_size s' = sc_size src
    \<and> (sc_title src \<noteq> [] \<longrightarrow> sc_title s' = sc_title src) \<and> (cursor_in_reach src \<longrightarrow> sc_cursor s' = sc_cursor src) \<and> \<not> sc_pendingWrap s'"
proof -
  let ?on = "sc_alternate src"
  define first where "first = AppendPrivateMode 1049 ?on"
  have shape: "first = kEsc # 0x5B # 0x3F # dec 1049 @ [if ?on then 0x68 else 0x6C]" by (simp add: first_def AppendPrivateMode_def AppendCsi_def)
  obtain p1 out ev where p1: "Parse (sc_parser s) first = (p1, out @ [ev])" "list_all harmless out" "vp_ready p1"
    "csi_event ev 0x3F [int 1049] (if ?on then 0x68 else 0x6C)"
  proof -
    have "IsCsiFinal (if ?on then 0x68 else 0x6C)" by (simp add: IsCsiFinal_def)
    from private_any [OF inv_parser [OF s(1)] _ this, of 1049, folded shape] that show ?thesis by auto
  qed
  have start: "\<exists>s0. apply_all (out @ [ev]) (s\<lparr>sc_parser := p\<rparr>) = Some s0 \<and> sc_inv s0 \<and> sc_size s0 = sc_size src \<and> sc_alternate s0 = ?on" if pv: "vp_inv p" for p
  proof -
    obtain t where t: "apply_all out (s\<lparr>sc_parser := p\<rparr>) = Some t" "sc_inv t" "sc_size t = sc_size src"
      using harmless_kept [OF parser_changed [OF s(1) pv] p1(2)] s(2) by auto
    obtain t' where t': "SetPrivateMode 1049 ?on t = Some t'" "sc_inv t'" "sc_size t' = sc_size t" "sc_alternate t' = ?on" using alternate_set [OF t(2)] by blast
    have "sc_Apply ev t = Some t'"
      using t'(1) p1(4) csi_param [OF p1(4), of 0 0] by (cases ?on) (simp_all add: sc_Apply_def csi_event_def sc_Csi_def)
    then show ?thesis using t t' by (simp add: apply_append)
  qed
  have all: "\<exists>bs0 s3. AppendGrid src = Some bs0 \<and> draws (after_switch @ bs0 @ render_state src) s0 s3 \<and> shown s3 = shown src \<and> sc_size s3 = sc_size src
      \<and> (sc_title src \<noteq> [] \<longrightarrow> sc_title s3 = sc_title src) \<and> (cursor_in_reach src \<longrightarrow> sc_cursor s3 = sc_cursor src) \<and> \<not> sc_pendingWrap s3"
    if s0: "sc_inv s0" "sc_size s0 = sc_size src" "sc_alternate s0 = ?on" for s0
  proof -
    obtain s1 where s1: "draws after_switch s0 s1" "plain s1" "sc_size s1 = sc_size s0" "sc_alternate s1 = sc_alternate s0" using setup_plain [OF s0(1)] by blast
    have size: "sc_size s1 = sc_size src" using s1(3) s0(2) by simp
    obtain bs0 s2 where s2: "AppendGrid src = Some bs0" "draws bs0 s1 s2" "plain s2" "only_drawn s1 s2" "sc_grid s2 = sc_grid src"
      using grid_drawn [OF src s1(2) size] by blast
    have k: "sc_size s2 = sc_size src" "sc_alternate s2 = ?on" using only_drawn_parts(1,2) [OF s2(4)] size s1(4) s0(3) by simp_all
    from state_drawn [OF src s2(3) k s2(5)] obtain s3 where "draws (render_state src) s2 s3" "shown s3 = shown src" "sc_size s3 = sc_size src"
      "(sc_title src \<noteq> [] \<longrightarrow> sc_title s3 = sc_title src)" "(cursor_in_reach src \<longrightarrow> sc_cursor s3 = sc_cursor src)" "\<not> sc_pendingWrap s3" by blast
    then show ?thesis using s2(1) draws_append [OF s1(1) draws_append [OF s2(2)]] by blast
  qed
  have "vp_inv (sc_parser s)" by (rule inv_parser [OF s(1)])
  from start [OF this] all obtain bs0 where grid: "AppendGrid src = Some bs0" by blast
  let ?rest = "after_switch @ bs0 @ render_state src"
  have bs: "RenderScreen src = Some (first @ ?rest)" by (simp add: RenderScreen_def grid render_setup_split first_def)
  obtain p2 evs where p2: "Parse p1 ?rest = (p2, evs)" by (cases "Parse p1 ?rest")
  have parse: "Parse (sc_parser s) (first @ ?rest) = (p2, (out @ [ev]) @ evs)" by (rule Parse_then [OF p1(1) p2])
  have p2_inv: "vp_inv p2" using Parse_inv [OF \<open>vp_inv (sc_parser s)\<close>, of "first @ ?rest"] parse by simp
  obtain s0 where s0: "apply_all (out @ [ev]) (s\<lparr>sc_parser := p2\<rparr>) = Some s0" "sc_inv s0" "sc_size s0 = sc_size src" "sc_alternate s0 = ?on"
    using start [OF p2_inv] by blast
  obtain s3 where s3: "draws ?rest s0 s3" "shown s3 = shown src" "sc_size s3 = sc_size src" "sc_title src \<noteq> [] \<longrightarrow> sc_title s3 = sc_title src"
    "cursor_in_reach src \<longrightarrow> sc_cursor s3 = sc_cursor src" "\<not> sc_pendingWrap s3"
    using all [OF s0(2-4)] grid by auto
  have "apply_all evs s0 = Some s3" using s3(1) p1(3) p2 by (auto simp: draws_def)
  then have applied: "apply_all ((out @ [ev]) @ evs) (s\<lparr>sc_parser := p2\<rparr>) = Some s3" unfolding apply_append [of "out @ [ev]"] s0(1) by simp
  have "first \<noteq> []" by (simp add: shape)
  then have wrote: "sc_Write (first @ ?rest) s = Some (s3\<lparr>sc_revision := sc_revision s3 + 1\<rparr>)"
    unfolding sc_Write_def parse Let_def prod.case applied by simp
  then have "sc_inv (s3\<lparr>sc_revision := sc_revision s3 + 1\<rparr>)" using Write_ok [OF s(1), of "first @ ?rest"] by simp
  moreover have "shown (s3\<lparr>sc_revision := sc_revision s3 + 1\<rparr>) = shown src" using s3(2) by (simp add: shown_def)
  ultimately show ?thesis using bs wrote s3(3-6) by (intro exI [of _ "first @ ?rest"] exI [of _ "s3\<lparr>sc_revision := sc_revision s3 + 1\<rparr>"]) simp
qed

end
