(* ===== verification/ScreenChunks.thy ===== *)
theory ScreenChunks
  imports RepaintRead
begin

text \<open>
  A screen does not care how the output of a program is cut into writes. The parser runs ahead of the
  events, and no event looks at the parser or at the revision: every operation commutes with changing
  these two fields, so a write in pieces is one write, up to the count of writes.
\<close>

definition tag :: "VtParser \<times> u64 \<Rightarrow> Screen \<Rightarrow> Screen" where
  "tag t s = s\<lparr>sc_parser := fst t, sc_revision := snd t\<rparr>"

named_theorems tags \<open>operations that do not look at the parser or the revision\<close>

lemma tag_reads [tags]:
  "sc_size (tag t s) = sc_size s" "sc_scrollbackLimit (tag t s) = sc_scrollbackLimit s" "sc_grid (tag t s) = sc_grid s"
  "sc_savedGrid (tag t s) = sc_savedGrid s" "sc_scrollback (tag t s) = sc_scrollback s" "sc_cursor (tag t s) = sc_cursor s"
  "sc_savedCursor (tag t s) = sc_savedCursor s" "sc_pen (tag t s) = sc_pen s" "sc_savedPen (tag t s) = sc_savedPen s"
  "sc_modes (tag t s) = sc_modes s" "sc_scrollTop (tag t s) = sc_scrollTop s" "sc_scrollBottom (tag t s) = sc_scrollBottom s"
  "sc_pendingWrap (tag t s) = sc_pendingWrap s" "sc_alternate (tag t s) = sc_alternate s" "sc_graphicsG0 (tag t s) = sc_graphicsG0 s"
  "sc_graphicsG1 (tag t s) = sc_graphicsG1 s" "sc_shiftedOut (tag t s) = sc_shiftedOut s"
  "sc_savedShiftedOut (tag t s) = sc_savedShiftedOut s" "sc_title (tag t s) = sc_title s" "sc_response (tag t s) = sc_response s"
  by (simp_all add: tag_def)

lemma tag_writes [tags]:
  "(tag t s)\<lparr>sc_grid := g\<rparr> = tag t (s\<lparr>sc_grid := g\<rparr>)" "(tag t s)\<lparr>sc_savedGrid := g\<rparr> = tag t (s\<lparr>sc_savedGrid := g\<rparr>)"
  "(tag t s)\<lparr>sc_scrollback := g\<rparr> = tag t (s\<lparr>sc_scrollback := g\<rparr>)" "(tag t s)\<lparr>sc_cursor := c\<rparr> = tag t (s\<lparr>sc_cursor := c\<rparr>)"
  "(tag t s)\<lparr>sc_savedCursor := c\<rparr> = tag t (s\<lparr>sc_savedCursor := c\<rparr>)" "(tag t s)\<lparr>sc_pen := p\<rparr> = tag t (s\<lparr>sc_pen := p\<rparr>)"
  "(tag t s)\<lparr>sc_savedPen := p\<rparr> = tag t (s\<lparr>sc_savedPen := p\<rparr>)" "(tag t s)\<lparr>sc_modes := m\<rparr> = tag t (s\<lparr>sc_modes := m\<rparr>)"
  "(tag t s)\<lparr>sc_scrollTop := n\<rparr> = tag t (s\<lparr>sc_scrollTop := n\<rparr>)" "(tag t s)\<lparr>sc_scrollBottom := n\<rparr> = tag t (s\<lparr>sc_scrollBottom := n\<rparr>)"
  "(tag t s)\<lparr>sc_pendingWrap := b\<rparr> = tag t (s\<lparr>sc_pendingWrap := b\<rparr>)" "(tag t s)\<lparr>sc_alternate := b\<rparr> = tag t (s\<lparr>sc_alternate := b\<rparr>)"
  "(tag t s)\<lparr>sc_graphicsG0 := b\<rparr> = tag t (s\<lparr>sc_graphicsG0 := b\<rparr>)" "(tag t s)\<lparr>sc_graphicsG1 := b\<rparr> = tag t (s\<lparr>sc_graphicsG1 := b\<rparr>)"
  "(tag t s)\<lparr>sc_shiftedOut := b\<rparr> = tag t (s\<lparr>sc_shiftedOut := b\<rparr>)" "(tag t s)\<lparr>sc_savedShiftedOut := b\<rparr> = tag t (s\<lparr>sc_savedShiftedOut := b\<rparr>)"
  "(tag t s)\<lparr>sc_title := w\<rparr> = tag t (s\<lparr>sc_title := w\<rparr>)" "(tag t s)\<lparr>sc_response := w\<rparr> = tag t (s\<lparr>sc_response := w\<rparr>)"
  by (cases s; simp add: tag_def)+

lemma tag_if [tags]: "(if c then tag t a else tag t b) = tag t (if c then a else b)"
  by simp

lemma map_if [tags]: "map_option (tag t) (if c then a else b) = (if c then map_option (tag t) a else map_option (tag t) b)"
  by simp

lemma bind_if [tags]: "Option.bind (if c then a else b) f = (if c then Option.bind a f else Option.bind b f)"
  by simp

lemma bind_Some_tag [tags]: "Option.bind r (\<lambda>s. Some (tag t s)) = map_option (tag t) r"
  by (cases r) simp_all

lemma map_Some [tags]: "map_option (tag t) (Some s) = Some (tag t s)"
  by simp

lemma tag_bind [tags]:
  "Option.bind (map_option (tag t) r) f = Option.bind r (\<lambda>s. f (tag t s))"
  by (cases r) simp_all

lemma bind_tagged [tags]: "map_option (tag t) (Option.bind r f) = Option.bind r (\<lambda>s. map_option (tag t) (f s))"
  by (cases r) simp_all

section \<open>The operations\<close>

lemma tag_sizes [tags]: "Cols (tag t s) = Cols s" "Rows (tag t s) = Rows s" "BlankCell (tag t s) = BlankCell s"
  "blank_row (tag t s) = blank_row s" "region_span (tag t s) = region_span s" "row_limits (tag t s) = row_limits s" "origin_row (tag t s) = origin_row s"
  by (simp_all add: Cols_def Rows_def BlankCell_def blank_row_def region_span_def row_limits_def origin_row_def tag_reads)

lemma tag_on_grid [tags]: "on_grid (tag t s) g = map_option (tag t) (on_grid s g)"
  by (cases g) (simp_all add: on_grid_def tag_writes)

lemma tag_moves [tags]:
  "MoveTo r c (tag t s) = tag t (MoveTo r c s)" "MoveBy r c (tag t s) = tag t (MoveBy r c s)"
  "SaveCursor (tag t s) = tag t (SaveCursor s)" "RestoreCursor (tag t s) = tag t (RestoreCursor s)"
  "CarriageReturn (tag t s) = tag t (CarriageReturn s)" "sc_Backspace (tag t s) = tag t (sc_Backspace s)"
  "tab_stop (tag t s) = tag t (tab_stop s)" "back_tab_stop (tag t s) = tag t (back_tab_stop s)"
  "Sgr ev (tag t s) = tag t (Sgr ev s)" "Respond (tag t s) w = tag t (Respond s w)" "sc_Osc ev (tag t s) = tag t (sc_Osc ev s)"
  "SetAnsiMode m on (tag t s) = tag t (SetAnsiMode m on s)" "FullReset (tag t s) = tag t (FullReset s)"
  by (simp_all add: MoveTo_def MoveBy_def SaveCursor_def RestoreCursor_def CarriageReturn_def sc_Backspace_def tab_stop_def back_tab_stop_def
      Sgr_def Respond_def sc_Osc_def SetAnsiMode_def FullReset_def Let_def case_prod_beta tags)

lemma tag_times: "(\<And>s. f (tag t s) = tag t (f s)) \<Longrightarrow> (f ^^ n) (tag t s) = tag t ((f ^^ n) s)"
  by (induction n) simp_all

lemma tag_tabs [tags]: "sc_Tab n (tag t s) = tag t (sc_Tab n s)" "BackTab n (tag t s) = tag t (BackTab n s)"
  by (simp_all add: sc_Tab_def BackTab_def tag_times [of tab_stop] tag_times [of back_tab_stop] tags)

lemma tag_region [tags]: "SetScrollRegion a b (tag t s) = tag t (SetScrollRegion a b s)"
  by (simp add: SetScrollRegion_def Let_def tags)

lemma tag_push: "PushScrollback (tag t s) row = (tag t (fst (PushScrollback s row)), snd (PushScrollback s row))"
  by (simp add: PushScrollback_def Let_def case_prod_beta tags)

lemma tag_leave [tags]: "leave_rows is (tag t s) = map_option (tag t) (leave_rows is s)"
proof (induction "is" arbitrary: s)
  case (Cons i "is")
  then show ?case by (cases "vec_at (sc_grid s) (sc_scrollTop s + i)") (simp_all add: tag_push Let_def case_prod_beta tags split: if_splits)
qed simp

lemma tag_scroll [tags]: "ScrollUp n (tag t s) = map_option (tag t) (ScrollUp n s)" "ScrollDown n (tag t s) = map_option (tag t) (ScrollDown n s)"
  unfolding ScrollUp_def ScrollDown_def Let_def by (simp_all only: tags)

lemma tag_lines [tags]: "LineFeed (tag t s) = map_option (tag t) (LineFeed s)" "ReverseIndex (tag t s) = map_option (tag t) (ReverseIndex s)"
  "InsertLines n (tag t s) = map_option (tag t) (InsertLines n s)" "DeleteLines n (tag t s) = map_option (tag t) (DeleteLines n s)"
  by (simp_all add: LineFeed_def ReverseIndex_def InsertLines_def DeleteLines_def Let_def tags)

lemma tag_edits [tags]: "EraseInDisplay k (tag t s) = map_option (tag t) (EraseInDisplay k s)" "EraseInLine k (tag t s) = map_option (tag t) (EraseInLine k s)"
  "InsertChars n (tag t s) = map_option (tag t) (InsertChars n s)" "DeleteChars n (tag t s) = map_option (tag t) (DeleteChars n s)"
  "EraseChars n (tag t s) = map_option (tag t) (EraseChars n s)" "fill_E (tag t s) = map_option (tag t) (fill_E s)"
  by (simp_all add: EraseInDisplay_def EraseInLine_def InsertChars_def DeleteChars_def EraseChars_def fill_E_def Let_def tags)

lemma tag_switch [tags]: "SwitchScreen a b (tag t s) = map_option (tag t) (SwitchScreen a b s)"
  by (simp add: SwitchScreen_def Let_def tags)

lemma tag_mode [tags]: "SetPrivateMode m on (tag t s) = map_option (tag t) (SetPrivateMode m on s)"
  by (simp add: SetPrivateMode_def Let_def tags)

lemma tag_private [tags]: "private_modes ev is on (tag t s) = map_option (tag t) (private_modes ev is on s)"
  by (induction "is" arbitrary: s) (simp_all add: tags)

lemma tag_ansi [tags]: "ansi_modes ev is on (tag t s) = tag t (ansi_modes ev is on s)"
  by (induction "is" arbitrary: s) (simp_all add: tags)

lemma tag_report [tags]: "report ev (tag t s) = tag t (report ev s)"
  by (simp add: report_def Let_def tags)

lemma tag_csi [tags]: "sc_Csi ev (tag t s) = map_option (tag t) (sc_Csi ev s)"
  unfolding sc_Csi_def Let_def by (simp only: tags)

lemma tag_glyph [tags]: "put_glyph (tag t s) g = map_option (tag t) (put_glyph s g)"
  by (simp add: put_glyph_def tags)

lemma tag_print [tags]: "sc_Print cp (tag t s) = map_option (tag t) (sc_Print cp s)"
proof -
  define wrapped where "wrapped s = (if sc_pendingWrap s \<and> mo_autoWrap (sc_modes s) then LineFeed (set_col s 0) else Some s)" for s :: Screen
  define settled where "settled s = (if cu_col (sc_cursor (no_wrap s)) \<ge> Cols (no_wrap s) then set_col (no_wrap s) (c16 (int (Cols (no_wrap s)) - 1)) else no_wrap s)" for s :: Screen
  define shifted where "shifted s = (if mo_insert (sc_modes s)
      then on_grid s (set_row (sc_grid s) (cu_row (sc_cursor s)) (\<lambda>row. do { row \<leftarrow> row_insert (cu_col (sc_cursor s)) 1 (BlankCell s) row; Some (resize row (Cols s) cell_init) }))
      else Some s)" for s :: Screen
  define glyph where "glyph s = (if if sc_shiftedOut s then sc_graphicsG1 s else sc_graphicsG0 s then DecSpecialGraphic cp else cp)" for s :: Screen
  define stepped where "stepped s = (if cu_col (sc_cursor s) + 1 \<ge> Cols s then s\<lparr>sc_pendingWrap := True\<rparr> else set_col s (cu_col (sc_cursor s) + 1))" for s :: Screen
  have eq: "sc_Print cp s = do { s \<leftarrow> wrapped s; s' \<leftarrow> shifted (settled s); s' \<leftarrow> put_glyph s' (glyph (settled s)); Some (stepped s') }" for s
    unfolding sc_Print_def wrapped_def settled_def shifted_def glyph_def stepped_def Let_def by (rule refl)
  have "wrapped (tag t s) = map_option (tag t) (wrapped s)" "settled (tag t s) = tag t (settled s)" "shifted (tag t s) = map_option (tag t) (shifted s)"
    "glyph (tag t s) = glyph s" "stepped (tag t s) = tag t (stepped s)" for s
    unfolding wrapped_def settled_def shifted_def glyph_def stepped_def by (simp_all only: tags)
  then show ?thesis by (simp add: eq tags)
qed

lemma tag_control [tags]: "sc_Execute b (tag t s) = map_option (tag t) (sc_Execute b s)" "sc_Esc ev (tag t s) = map_option (tag t) (sc_Esc ev s)"
  unfolding sc_Execute_def sc_Esc_def Let_def by (simp_all only: tags)

lemma tag_apply [tags]: "sc_Apply ev (tag t s) = map_option (tag t) (sc_Apply ev s)"
  by (cases "ve_action ev") (simp_all add: sc_Apply_def tags)

lemma tag_all: "apply_all evs (tag t s) = map_option (tag t) (apply_all evs s)"
  by (induction evs arbitrary: s) (simp_all add: tags)


section \<open>Writes in pieces\<close>

lemma tag_own: "tag (sc_parser s, sc_revision s) s = s"
  by (simp add: tag_def)

lemma apply_keeps:
  assumes "apply_all evs s = Some s'"
  shows "sc_parser s' = sc_parser s \<and> sc_revision s' = sc_revision s"
proof -
  have "tag (sc_parser s, sc_revision s) s' = s'" using tag_all [of evs "(sc_parser s, sc_revision s)" s] assms by (simp add: tag_own)
  then have "sc_parser (tag (sc_parser s, sc_revision s) s') = sc_parser s'" "sc_revision (tag (sc_parser s, sc_revision s) s') = sc_revision s'" by simp_all
  then show ?thesis by (simp add: tag_def)
qed

lemma apply_tagged: "apply_all evs s = Some s' \<Longrightarrow> apply_all evs (tag t s) = Some (tag t s')"
  by (simp add: tag_all)

lemma apply_tagged_None: "apply_all evs s = None \<Longrightarrow> apply_all evs (tag t s) = None"
  by (simp add: tag_all)

lemma Write_tag:
  "sc_Write bs s = (if bs = [] then Some s
     else map_option (tag (fst (Parse (sc_parser s) bs), sc_revision s + 1)) (apply_all (snd (Parse (sc_parser s) bs)) s))"
proof -
  have "s\<lparr>sc_parser := p\<rparr> = tag (p, sc_revision s) s" for p by (simp add: tag_def)
  then show ?thesis using apply_keeps [of "snd (Parse (sc_parser s) bs)" s]
    by (cases "apply_all (snd (Parse (sc_parser s) bs)) s") (simp_all add: sc_Write_def case_prod_beta tag_all, simp add: tag_def)
qed

lemma tag_tag [simp]: "tag t (tag u s) = tag t s"
  by (simp add: tag_def)

lemma tag_parser [simp]: "sc_parser (tag t s) = fst t" "sc_revision (tag t s) = snd t"
  by (simp_all add: tag_def)

text \<open>What is left of a screen when the writes are not counted.\<close>

definition uncounted :: "Screen \<Rightarrow> Screen" where
  "uncounted s = s\<lparr>sc_revision := 0\<rparr>"

lemma uncounted_tag: "uncounted (tag t s) = tag (fst t, 0) s"
  by (simp add: uncounted_def tag_def)

lemma Write_then:
  "map_option uncounted (do { s \<leftarrow> sc_Write a s; sc_Write b s }) = map_option uncounted (sc_Write (a @ b) s)"
proof -
  obtain p1 e1 where a: "Parse (sc_parser s) a = (p1, e1)" by fastforce
  obtain p2 e2 where b: "Parse p1 b = (p2, e2)" by fastforce
  have ab: "Parse (sc_parser s) (a @ b) = (p2, e1 @ e2)" by (rule Parse_then [OF a b])
  show ?thesis
  proof (cases "a = [] \<or> b = []")
    case True
    then show ?thesis by (auto simp: sc_Write_def)
  next
    case False
    then show ?thesis
      by (cases "apply_all e1 s") (simp_all add: Write_tag a b ab apply_append tag_all option.map_comp comp_def uncounted_tag)
  qed
qed

lemma Write_uncounted: "map_option uncounted (sc_Write b s) = map_option uncounted (sc_Write b (uncounted s))"
proof -
  have "uncounted s = tag (sc_parser s, 0) s" by (simp add: uncounted_def tag_def)
  then show ?thesis by (simp add: Write_tag tag_all option.map_comp comp_def uncounted_tag)
qed

lemma writes_in_pieces:
  "map_option (uncounted \<circ> fst) (run_ops screen_step s (map ScreenWrite chunks)) = map_option uncounted (sc_Write (concat chunks) s)"
proof (induction chunks arbitrary: s)
  case (Cons c chunks)
  have "map_option (uncounted \<circ> fst) (run_ops screen_step s (map ScreenWrite (c # chunks)))
      = Option.bind (sc_Write c s) (\<lambda>s. map_option (uncounted \<circ> fst) (run_ops screen_step s (map ScreenWrite chunks)))"
    by (cases "sc_Write c s") (auto simp: option.map_comp split: Option.bind_split)
  also have "\<dots> = map_option uncounted (do { s \<leftarrow> sc_Write c s; sc_Write (concat chunks) s })"
    unfolding Cons.IH by (cases "sc_Write c s") simp_all
  finally show ?case by (simp only: Write_then concat.simps)
qed (simp add: sc_Write_def)

end
