(* ===== verification/Spec2Isabelle.thy ===== *)
theory Spec2Isabelle
  imports WireTermFile RecordStream VideoOrder VideoRecovery RetransmitCache AudioJitter Pacer Base64 AccessRequests Pairing AuthState Checksum SafeName Clipboard LinkState TerminalClient InputChannel InputQueue FileExchange ScreenLink ClientSafety RepaintBack ScreenChunks
begin

text \<open>
  A model of the core library of Deskhub, a remote desktop and terminal program written in C++
  (\<open>src/core\<close>, with the receive loop of \<open>src/platform/src/net/SessionTransport.cpp\<close>), and the
  theorems that make it correct.

  \<^bold>\<open>The program.\<close> A host shares its screen, its sound, terminals and a folder; a client watches,
  types and sends files. Datagrams (video, sound, input, clipboard) and length-prefixed records on
  reliable streams (session control, terminals, files) carry the messages of one wire protocol.
  Video frames are cut into datagrams with one parity packet per group, put together again by the
  receiver, asked for again when lost, and paced by the sender. Who may connect is kept in small
  text files: trusted hosts, authorized keys, requests for access, one-time pairing tokens.

  \<^bold>\<open>Theories, from the bottom up.\<close>
  \<^item> \<open>Prelude\<close>: machine integers as words, byte strings, checked reads. \<open>Component\<close>: an operation
    interface with an invariant and its replay over operation lists. \<open>OrdMap\<close>: \<open>std::map\<close> as a
    sorted association list. \<open>StdVector\<close>: idioms of \<open>std::vector\<close>. \<open>Text\<close>: trimming, decimal
    numbers, lines.
  \<^item> \<open>ByteOrder\<close>, \<open>WireTypes\<close>, \<open>WireBuild\<close>, \<open>WireParse\<close>: \<open>protocol/ByteOrder.h\<close> and
    \<open>protocol/Wire.{h,cpp}\<close>. \<open>WireSafety\<close>: no parser reads outside its payload and no builder writes
    more than its span holds. \<open>WireRoundtrip\<close>, \<open>WireEntries\<close>, \<open>WireTermFile\<close>: what a builder writes,
    the parser reads back. \<open>RecordStream\<close>: \<open>protocol/RecordStream.cpp\<close> and the receive loop over it.
  \<^item> \<open>Packetizer\<close>, \<open>Reassembler\<close>, \<open>ReassemblerInv\<close>, \<open>VideoTransport\<close>, \<open>VideoOrder\<close>, \<open>VideoRecovery\<close>:
    \<open>transport/Packetizer.cpp\<close> and \<open>transport/Reassembler.cpp\<close>; the invariant; that only frames that
    were sent come out, in what order, and when losses are recovered. \<open>RetransmitCache\<close>, \<open>AudioJitter\<close>,
    \<open>Pacer\<close>: the files of those names in \<open>transport\<close>.
  \<^item> \<open>Ipv4\<close>, \<open>Base64\<close>, \<open>TrustStore\<close>, \<open>PublicKeys\<close>, \<open>AccessRequests\<close>, \<open>Pairing\<close>: \<open>src/net\<close> and
    \<open>auth/PairingTokens.cpp\<close>. \<open>AuthState\<close>: \<open>auth/AuthDeadlines.cpp\<close>, \<open>auth/FailureLimiter.cpp\<close>,
    \<open>auth/Transcript.cpp\<close>.
  \<^item> \<open>Checksum\<close>, \<open>SafeName\<close>: \<open>src/transfer\<close>.
  \<^item> \<open>FileSend\<close>, \<open>FileReceive\<close>, \<open>FileExchange\<close>: \<open>session/FileTransfer.cpp\<close>,
    \<open>session/client/FileSender.cpp\<close> and \<open>session/host/FileReceiver.cpp\<close>; the folder the receiver's
    effects leave, and both sides in conversation.
  \<^item> \<open>KeyCodes\<close>, \<open>InputChannel\<close>, \<open>InputQueue\<close>: the headers of \<open>core/include/deskhub/input\<close>;
    \<open>input/InputSender.cpp\<close> with \<open>input/InputReceiver.cpp\<close>; \<open>input/ClientInputQueue.cpp\<close> with the
    held keys and buttons of the host and the injector of Windows.
  \<^item> \<open>Clipboard\<close>, \<open>LinkState\<close>, \<open>Terminals\<close>, \<open>TerminalClient\<close>: \<open>session/ClipboardSync.cpp\<close>,
    \<open>session/LinkPulse.cpp\<close> with \<open>session/LinkRecovery.cpp\<close>, \<open>session/TerminalSession.cpp\<close> and
    \<open>session/client/TerminalClient.cpp\<close>; the last joins client and host.
  \<^item> \<open>VtParser\<close>, \<open>VtRead\<close>: \<open>terminal/VtParser.cpp\<close>, and what the parser makes of a character or a
    control sequence written to it. \<open>TermScreen\<close>, \<open>ScreenSafety\<close>, \<open>ScreenChunks\<close>: \<open>terminal/Screen.cpp\<close>,
    the invariant of the screen under any output, and that cutting the output into pieces makes no
    difference. \<open>Repaint\<close>, \<open>RepaintRead\<close>, \<open>RepaintShows\<close>, \<open>RepaintBack\<close>: \<open>terminal/Repaint.cpp\<close>; the
    sequences it writes, the grid and the state they draw, and the whole at a viewer in any state.
  \<^item> \<open>ViewerTable\<close>, \<open>HostSession\<close>, \<open>HostSafety\<close>: \<open>session/host/ViewerTable.cpp\<close> and
    \<open>session/host/ScreenHostSession.cpp\<close>, and the invariant of all screen sessions of a host on the
    budget they share. \<open>ClientSession\<close>, \<open>ClientSafety\<close>: \<open>session/client/ScreenClientSession.cpp\<close> and
    its invariant. \<open>ScreenLink\<close>: both sides in conversation, who drives, and who is dropped.

  \<^bold>\<open>How the model reads.\<close> A class is a record of its fields, in the code's order, and each method a
  function from the state (and a clock reading, where the code takes one) to its result and the new
  state. Callbacks (\<open>send\<close>, \<open>onFrameDrop\<close>) become the list of values they were called with.
  An \<open>enum class\<close> is a datatype with a constructor per enumerator and one more (\<open>\<dots>Raw\<close>) for the
  values the code can hold without a name; its \<open>_code\<close> and \<open>_of\<close> are the casts. A builder gives the
  bytes it has written, \<open>[]\<close> where the code returns 0. A read through a pointer or \<open>operator[]\<close> is
  checked: the outer \<open>None\<close> is undefined behaviour and the inner one \<open>std::nullopt\<close>, so a theorem
  that an operation is not \<open>None\<close> is one of memory safety. \<open>size_t\<close> values that count objects in
  memory are \<open>nat\<close>; all other integers have their width and wrap where the code's do; \<open>int64_t\<close>
  seconds are \<open>int\<close> with the code's own range checks.

  \<^bold>\<open>Interfaces.\<close> The locale \<open>component\<close> (step, invariant, legal operations, promised outputs) is
  interpreted for every stateful component; \<open>roster\<close> for stores with keys and a capacity; \<open>text_format\<close>
  and \<open>line_format\<close> for what is saved as text; the wire theories have those of their own messages.
  The properties below rest on these interpretations.

  \<^bold>\<open>Termination.\<close> No function uses fuel: loops over lists are structural recursions, the others
  (decimal digits, padding, the search for a free name, stream draining, the parser's second look at
  a byte, the parameters of a color) have a measure.

  \<^bold>\<open>Not modelled.\<close> Threads, sockets, QUIC, TLS, signatures and random numbers (operating system and
  third-party code behind \<open>src/platform\<close>); screen capture, codecs and user interfaces (\<open>src/client\<close>);
  floating-point control loops (\<open>src/core/src/control\<close>); the key encoder, palette and view helpers of \<open>terminal\<close>, QR code,
  command line and user-interface tables of the core library, which are separate parts.
\<close>

text \<open>
  C1. Whatever subset of the packets of the sent frames reaches the reassembler, in any order,
  with repetitions, losses and clock readings of any kind, interleaved with pops, NACK plans and
  setting changes: no operation leaves a buffer, and every frame handed out is byte for byte the
  frame sent under its id, with its timestamp and key-frame flag.
\<close>

theorem video_delivers_what_was_sent:
  assumes "\<forall>x\<in>set xs. ra_legal (genuine_video sent) (genuine_fec sent) x"
  shows "\<exists>s rs. run_ops ra_step (ra_init us) xs = Some (s, rs) \<and> length rs = length xs
     \<and> (\<forall>fr. RFrame (Some fr) \<in> set rs \<longrightarrow>
          (\<exists>sf. sent (fr_frameId fr) = Some sf \<and> fr_nal fr = sf_nal sf
              \<and> fr_timestampUs fr = sf_timestampUs sf \<and> fr_idr fr = sf_idr sf))"
proof -
  obtain s rs where run: "run_ops ra_step (ra_init us) xs = Some (s, rs)"
    and out: "list_all2 (ra_out_ok (entry_genuine sent)) xs rs"
    using genuine.ra.run_safe [OF ra_inv_init assms] by blast
  have "\<exists>x. ra_out_ok (entry_genuine sent) x r" if "r \<in> set rs" for r
    using out that by (auto simp: list_all2_conv_all_nth in_set_conv_nth)
  then show ?thesis using run list_all2_lengthD [OF out] genuine_out by (metis (no_types, lifting))
qed

theorem video_delivers_what_was_sent_witness:
  "\<exists>s rs. run_ops ra_step (ra_init 0)
       [RPush (video_view [1, 2, 3] 7 100 True 0) 5, RPopReady 6] = Some (s, rs)"
proof -
  let ?fr = "\<lparr>sf_nal = [1, 2, 3], sf_timestampUs = 100, sf_idr = True\<rparr>"
  have "genuine_video [7 \<mapsto> ?fr] (video_view [1, 2, 3] 7 100 True 0)"
    unfolding genuine_video_def
    by (intro exI [of _ 7] exI [of _ ?fr] exI [of _ 0]) (simp add: piece_count_def kconsts)
  then show ?thesis
    using video_delivers_what_was_sent [of "[RPush (video_view [1, 2, 3] 7 100 True 0) 5, RPopReady 6]" "[7 \<mapsto> ?fr]" 0]
    by auto
qed

text \<open>
  C2. A reassembler that holds no incomplete frame, has handed out none of this id or a later one
  and waits for no key frame unless this is one, when it receives packets of a frame that is not
  empty and has at most 65535 pieces, in any order and with repetitions, hands out the whole frame
  at the next pop as soon as every group misses at most one packet and has its parity packet when
  it misses one: forward error correction needs no retransmission.
\<close>

theorem lost_packets_are_recovered:
  assumes "idle fr fid s" "sf_nal fr \<noteq> []" "piece_count (sf_nal fr) \<le> 0xFFFF"
    and "\<forall>a\<in>set as. arrival_ok fr a" "recoverable fr as"
  shows "\<exists>s1 rs s2 out. run_ops ra_step s (map (arrival_op fr fid) as) = Some (s1, rs)
     \<and> ra_PopReady s1 now = Some (s2, Some out) \<and> ra_pending s2 = []
     \<and> fr_frameId out = fid \<and> fr_nal out = sf_nal fr
     \<and> fr_timestampUs out = sf_timestampUs fr \<and> fr_idr out = sf_idr fr"
  using assms by (rule frame_recovered_from)

theorem lost_packets_are_recovered_witness:
  "\<exists>s1 rs s2 out. run_ops ra_step (ra_init 0)
       (map (arrival_op \<lparr>sf_nal = replicate 1200 7, sf_timestampUs = 9, sf_idr = True\<rparr> 3)
         [ArrivedParity 0 10, ArrivedVideo 1 11]) = Some (s1, rs)
     \<and> ra_PopReady s1 20 = Some (s2, Some out) \<and> fr_nal out = replicate 1200 7"
proof -
  let ?fr = "\<lparr>sf_nal = replicate 1200 7, sf_timestampUs = 9, sf_idr = True\<rparr>"
  have n: "piece_count (replicate 1200 (7 :: u8)) = 2" "fec_groups 2 = 1" by (simp_all add: piece_count_def fec_groups_def kconsts)
  have "group_members 2 0 = [0, 1]" by (simp add: group_members_def n upt_rec)
  then have "recoverable ?fr [ArrivedParity 0 10, ArrivedVideo 1 11]"
    by (simp add: recoverable_def n lost_in_def)
  moreover have "idle ?fr 3 (ra_init 0)" by (simp add: idle_def ra_init_def)
  ultimately show ?thesis
    using lost_packets_are_recovered [of ?fr 3 "ra_init 0" "[ArrivedParity 0 10, ArrivedVideo 1 11]" 20]
    by (simp add: n kMaxFecGroups_def) blast
qed

text \<open>
  C3. Whatever packets are pushed, genuine or not, the ids of the frames handed out along any run
  of the reassembler are strictly ascending: no frame is delivered twice or after a later one.
\<close>

theorem frames_leave_in_ascending_order:
  "case run_ops ra_step (ra_init us) xs of
     None \<Rightarrow> False
   | Some (s, rs) \<Rightarrow> sorted_wrt (<) (List.map_filter delivered_id rs)"
proof -
  have legal: "\<forall>x\<in>set xs. ra_legal (\<lambda>_. True) (\<lambda>_. True) x"
    by (intro ballI) (case_tac x; simp)
  obtain s rs where run: "run_ops ra_step (ra_init us) xs = Some (s, rs)"
    using any_packet.ra.run_safe [OF ra_inv_init legal] by blast
  show ?thesis using frame_order.run_ascending [OF ra_inv_init legal run] run by simp
qed



text \<open>
  C5. A frame is sent as its pieces in index order, each as one video packet, followed, with error
  correction on and no more than 256 groups, by one parity packet per group; the pieces put
  together are the frame. The empty frame and a frame of more than 65535 pieces are refused and
  nothing is sent.
\<close>

theorem SendFrame_sends_every_packet_and_parity:
  "SendFrame pz nal fid ts idr =
     (if nal = [] \<or> piece_count nal > 0xFFFF then (0, [])
      else (piece_count nal,
            map (video_datagram (pz_sessionId pz) nal fid ts idr) [0..<piece_count nal]
            @ (if pz_fec pz \<and> fec_groups (piece_count nal) \<le> kMaxFecGroups
               then map (fec_datagram (pz_sessionId pz) nal fid ts idr) [0..<fec_groups (piece_count nal)]
               else [])))
   \<and> concat (map (piece_at nal) [0..<piece_count nal]) = nal"
  using SendFrame_refused [of nal pz fid ts idr] SendFrame_eq [of nal pz fid ts idr]
  by (simp add: concat_pieces not_less)

text \<open>
  C6. Storing a video datagram in the retransmission cache makes the lookup of its frame and index
  give exactly that datagram and leaves every other lookup as it was, except that the one frame
  whose slot a new frame takes over is forgotten.
\<close>

theorem cache_implements_a_map:
  assumes "rt_inv c" "is_packet fid idx d"
  shows "\<exists>c'. rt_Store c d = Some c' \<and> rt_inv c'
     \<and> (\<forall>f j. rt_Find c' f j =
          (if f = fid \<and> j = idx then Some d else if evicted_by c fid = Some f then Some [] else rt_Find c f j))"
  using assms by (rule Store_packet)

theorem cache_implements_a_map_witness:
  "\<exists>c'. rt_Store rt_init (video_datagram 4 [1, 2, 3] 7 100 True 0) = Some c'
     \<and> rt_Find c' 7 0 = Some (video_datagram 4 [1, 2, 3] 7 100 True 0)"
proof -
  have n: "piece_count [1 :: u8, 2, 3] = 1" by (simp add: piece_count_def kconsts)
  have "length (video_datagram 4 [1, 2, 3] 7 100 True 0) \<le> kMaxDatagram"
    unfolding video_datagram_def by (rule builders_fit)
  then have "is_packet 7 0 (video_datagram 4 [1, 2, 3] 7 100 True 0)"
    using parsed_video_datagram [of 0 "[1, 2, 3]" 4 7 100 True]
    by (simp add: is_packet_def n video_view_def video_header_def)
  from cache_implements_a_map [OF rt_inv_init this] show ?thesis by auto
qed

text \<open>
  C7. Audio packets with consecutive sequence numbers, none of which passes the end of the 32-bit
  numbers, that reach a jitter buffer which plays nothing and holds nothing, in any order, at
  least as many as its prefill and at most a burst more, are all played, once each and in sequence
  order, by the following pops.
\<close>

theorem audio_burst_plays_in_order:
  assumes "\<not> jb_playing b" "jb_held b = []" "1 \<le> unat (jb_prefill b)"
    and "unat (jb_prefill b) \<le> m" "m \<le> unat (jb_prefill b) + kBurstDropThreshold" "unat a + m \<le> 2 ^ 32"
    and "\<And>i. i < m \<Longrightarrow> ah_seq (ap_hdr (P i)) = a + of_nat i \<and> ap_payload (P i) \<noteq> []"
    and "distinct pkts" "set pkts = P ` {..<m}" "length pkts = m"
  shows "\<exists>b'. run_ops audio_step b (map AudioPush pkts @ replicate m AudioPop)
     = Some (b', replicate m None @ map (\<lambda>i. Some (audio_frame (P i))) [0..<m]) \<and> jb_held b' = []"
  using assms by (rule burst_in_order)

theorem audio_burst_plays_in_order_witness:
  "\<exists>b'. run_ops audio_step (jb_init 20)
      [AudioPush \<lparr>ap_hdr = \<lparr>ah_seq = 8, ah_timestampUs = 0\<rparr>, ap_payload = [2]\<rparr>,
       AudioPush \<lparr>ap_hdr = \<lparr>ah_seq = 7, ah_timestampUs = 0\<rparr>, ap_payload = [2]\<rparr>, AudioPop, AudioPop]
   = Some (b', [None, None,
       Some (audio_frame \<lparr>ap_hdr = \<lparr>ah_seq = 7, ah_timestampUs = 0\<rparr>, ap_payload = [2]\<rparr>),
       Some (audio_frame \<lparr>ap_hdr = \<lparr>ah_seq = 8, ah_timestampUs = 0\<rparr>, ap_payload = [2]\<rparr>)])"
proof -
  let ?P = "\<lambda>i :: nat. \<lparr>ap_hdr = \<lparr>ah_seq = 7 + of_nat i, ah_timestampUs = 0\<rparr>, ap_payload = [2]\<rparr>"
  have p: "jb_prefill (jb_init 20) = 1" "jb_held (jb_init 20) = []" "\<not> jb_playing (jb_init 20)"
    by (simp_all add: jb_init_def ClampPrefill_def Let_def kconsts)
  have "set [?P 1, ?P 0] = ?P ` {..<2}" by (auto simp: lessThan_Suc numeral_2_eq_2)
  then have "\<exists>b'. run_ops audio_step (jb_init 20) (map AudioPush [?P 1, ?P 0] @ replicate 2 AudioPop)
     = Some (b', replicate 2 None @ map (\<lambda>i. Some (audio_frame (?P i))) [0..<2]) \<and> jb_held b' = []"
    by (intro audio_burst_plays_in_order) (simp_all add: p kBurstDropThreshold_def)
  then show ?thesis by (simp add: upt_rec numeral_2_eq_2 del: run_ops.simps) blast
qed

text \<open>
  C8. Along any run of the jitter buffer every frame played is a frame that was pushed, a
  concealed frame carries at most the payload of the frame right after it, and no operation reads
  past the end of the map.
\<close>

theorem audio_plays_only_what_was_sent:
  assumes "\<forall>x\<in>set xs. audio_legal (\<lambda>f. f \<in> audio_frame ` Sent) x"
  shows "\<exists>b rs. run_ops audio_step (jb_init ms) xs = Some (b, rs)
     \<and> length (jb_held b) \<le> unat (jb_prefill b) + kBurstDropThreshold
     \<and> (\<forall>f. Some f \<in> set rs \<longrightarrow>
          (if af_concealed f
           then af_payload f = [] \<and> (af_recovery f \<noteq> [] \<longrightarrow>
             (\<exists>g\<in>audio_frame ` Sent. af_seq g = af_seq f + 1 \<and> af_recovery f = af_payload g))
           else f \<in> audio_frame ` Sent))"
proof -
  obtain b rs where run: "run_ops audio_step (jb_init ms) xs = Some (b, rs)"
    and inv: "jb_inv (\<lambda>f. f \<in> audio_frame ` Sent) b"
    and out: "list_all2 (\<lambda>_. pop_ok (\<lambda>f. f \<in> audio_frame ` Sent)) xs rs"
    using audio.run_safe [OF jb_inv_init assms] by blast
  have "pop_ok (\<lambda>f. f \<in> audio_frame ` Sent) r" if "r \<in> set rs" for r
    using out that by (auto simp: list_all2_conv_all_nth in_set_conv_nth)
  then have "if af_concealed f
           then af_payload f = [] \<and> (af_recovery f \<noteq> [] \<longrightarrow>
             (\<exists>g\<in>audio_frame ` Sent. af_seq g = af_seq f + 1 \<and> af_recovery f = af_payload g))
           else f \<in> audio_frame ` Sent" if "Some f \<in> set rs" for f
    using that by (fastforce simp: pop_ok_def)
  with run inv show ?thesis unfolding jb_inv_def by blast
qed

theorem audio_plays_only_what_was_sent_witness:
  "\<exists>b rs. run_ops audio_step (jb_init 20)
      [AudioPush \<lparr>ap_hdr = \<lparr>ah_seq = 8, ah_timestampUs = 0\<rparr>, ap_payload = [2]\<rparr>, AudioPop, AudioPop] = Some (b, rs)"
  using audio_plays_only_what_was_sent [of "[AudioPush \<lparr>ap_hdr = \<lparr>ah_seq = 8, ah_timestampUs = 0\<rparr>, ap_payload = [2]\<rparr>, AudioPop, AudioPop]"
      "{\<lparr>ap_hdr = \<lparr>ah_seq = 8, ah_timestampUs = 0\<rparr>, ap_payload = [2]\<rparr>}" 20]
  by auto

text \<open>
  C9. For a rate and a byte count other than zero, and as long as byte count and clock stay below
  the 64-bit range, the pacer's wrapping arithmetic computes the natural-number specification: the
  link frees up when the bytes have gone out at the rate, never more than 100 ms behind, and waits
  under 500 microseconds are skipped.
\<close>

theorem pacer_follows_the_rate:
  assumes "pc_rateBps p \<noteq> 0" "n \<noteq> 0"
    and "unat n * 8000000 < 2 ^ 63" "unat nowUs + 100000 < 2 ^ 63"
  shows "(unat (pc_nextUs (fst (pc_Gate p n nowUs))), unat (snd (pc_Gate p n nowUs)))
       = gate_spec (unat (pc_rateBps p)) (unat (pc_nextUs p)) (unat n) (unat nowUs)"
  using assms by (rule Gate_refines)

theorem pacer_follows_the_rate_witness:
  "(unat (pc_nextUs (fst (pc_Gate \<lparr>pc_rateBps = 8000000, pc_nextUs = 5000\<rparr> 1200 1000))),
    unat (snd (pc_Gate \<lparr>pc_rateBps = 8000000, pc_nextUs = 5000\<rparr> 1200 1000))) = (6200, 4000)"
  using pacer_follows_the_rate [of "\<lparr>pc_rateBps = 8000000, pc_nextUs = 5000\<rparr>" 1200 1000]
  by (simp add: gate_spec_def Let_def)

text \<open>
  C10. However a byte stream is cut into chunks, the receive loop of the session transport
  delivers the records that the whole stream consists of, keeps the incomplete rest, and fails
  exactly when the stream holds a malformed record.
\<close>

theorem record_stream_ignores_chunking:
  "\<exists>s. receive_chunks rs_init cs = Some (fst (frames (concat cs)), s) \<and> rs_abs s = snd (frames (concat cs))"
proof -
  have "rs_abs rs_init = Some []" by (simp add: rs_abs_def rs_init_def rs_pending_def)
  then show ?thesis
    using receive_chunks_abs [of rs_init "[]" cs] by (simp add: kconsts frames.simps)
qed

text \<open>
  C11. No parser of the wire protocol reads outside the bytes it was given, whatever those bytes
  are.
\<close>

theorem parsers_read_inside_the_payload:
  "ParseCommonHeader p \<noteq> None \<and> PayloadOf p \<noteq> None \<and> ClassifyPacket p \<noteq> None \<and> ReadRecord p \<noteq> None
   \<and> ParseHello p \<noteq> None \<and> ParseHelloAck p \<noteq> None \<and> ParseSourceList p n \<noteq> None \<and> ParseSourceListHostName p \<noteq> None
   \<and> ParseAuthStart p \<noteq> None \<and> ParseAuthChallenge p \<noteq> None \<and> ParseAuthResponse p \<noteq> None \<and> ParseAuthResult p \<noteq> None
   \<and> ParsePingPong p \<noteq> None \<and> ParseFeedback p \<noteq> None \<and> ParseReconfig p \<noteq> None \<and> ParseSetFocus p \<noteq> None
   \<and> ParseNack p n \<noteq> None \<and> ParseInvalidateRef p \<noteq> None \<and> ParseVideoPacket h p \<noteq> None \<and> ParseFecPacket h p \<noteq> None
   \<and> ParseAudioPacket p \<noteq> None \<and> ParseInputEvents p n \<noteq> None \<and> ParseClipboardChunk p \<noteq> None
   \<and> ParseTermOpen p \<noteq> None \<and> ParseTermOpenAck p \<noteq> None \<and> ParseTermResize p \<noteq> None \<and> ParseTermExit p \<noteq> None
   \<and> ParseTermListAck p \<noteq> None \<and> ParseFileOffer p \<noteq> None \<and> ParseFileAccept p \<noteq> None \<and> ParseFileChunk p \<noteq> None
   \<and> ParseFileDone p \<noteq> None \<and> ParseFileAck p \<noteq> None \<and> ParseFileCancel p \<noteq> None"
  by (intro conjI parsers_safe)

text \<open>
  C12. No builder declared for the wire protocol and its record layer writes more bytes than the
  span it was given holds, whatever values it is given.
\<close>

theorem builders_write_inside_the_span:
  "length (BuildHello cap a) \<le> cap \<and> length (BuildHelloAck cap c) \<le> cap \<and> length (BuildAuthStart cap b) \<le> cap
   \<and> length (BuildAuthChallenge cap ch) \<le> cap \<and> length (BuildAuthResponse cap r) \<le> cap \<and> length (BuildAuthResult cap q) \<le> cap
   \<and> length (BuildListSources cap) \<le> cap \<and> length (BuildSourceList cap xs caps h) \<le> cap
   \<and> length (BuildStart cap s) \<le> cap \<and> length (BuildBye cap s) \<le> cap \<and> length (BuildPing cap s pp) \<le> cap
   \<and> length (BuildPong cap s pp) \<le> cap \<and> length (BuildFeedback cap s fb) \<le> cap \<and> length (BuildRequestKeyframe cap s) \<le> cap
   \<and> length (BuildSetFocus cap s foc) \<le> cap \<and> length (BuildNack cap s i is) \<le> cap \<and> length (BuildInvalidateRef cap s i) \<le> cap
   \<and> length (BuildReconfig cap s rc) \<le> cap \<and> length (BuildVideoPacket cap s vh idr fe pl) \<le> cap
   \<and> length (BuildFecPacket cap s fh idr pl) \<le> cap \<and> length (BuildAudioPacket cap s ah pl) \<le> cap
   \<and> length (BuildInputEvents cap s n evs) \<le> cap \<and> length (BuildClipboardChunk cap s ck) \<le> cap
   \<and> length (BuildRecord cap pl) \<le> cap \<and> length (BuildTermOpen cap t) \<le> cap \<and> length (BuildTermOpenAck cap ta) \<le> cap
   \<and> length (BuildTermData cap i pl) \<le> cap \<and> length (BuildTermResize cap i z) \<le> cap \<and> length (BuildTermClose cap i) \<le> cap
   \<and> length (BuildTermExit cap i e) \<le> cap \<and> length (BuildTermList cap) \<le> cap \<and> length (BuildTermListAck cap es) \<le> cap
   \<and> length (BuildFileOffer cap f) \<le> cap \<and> length (BuildFileAccept cap fa) \<le> cap \<and> length (BuildFileChunk cap i x off pl) \<le> cap
   \<and> length (BuildFileDone cap fd) \<le> cap \<and> length (BuildFileAck cap fk) \<le> cap \<and> length (BuildFileCancel cap fx) \<le> cap"
  unfolding BuildListSources_def BuildStart_def BuildBye_def BuildRequestKeyframe_def
  by (intro conjI builders_fit)

text \<open>
  C13. The messages of a running session come back from their parsers whenever the builder accepts
  them: pings and their answers, reference invalidations, feedback, reconfiguration, focus,
  clipboard chunks and audio packets exactly; a NACK list and a list of input events when the
  reader has room for as many entries, the events with unknown types and surplus fields as the
  wire carries them; a source list when the reader has room for the protocol's maximum, cut to
  what was offered.
\<close>

theorem control_messages_round_trip:
  "(BuildSourceList cap xs caps h \<noteq> [] \<longrightarrow> kMaxSources \<le> n \<longrightarrow>
      Option.bind (PayloadOf (BuildSourceList cap xs caps h)) (\<lambda>p. ParseSourceList p n) = Some (map seen_source (offered_sources xs)))
   \<and> (BuildPing cap s pp \<noteq> [] \<longrightarrow> parse_with (\<lambda>_. ParsePingPong) (BuildPing cap s pp) = some_opt (hdr MsgPing 0 ChanControl s, pp))
   \<and> (BuildPong cap s pp \<noteq> [] \<longrightarrow> parse_with (\<lambda>_. ParsePingPong) (BuildPong cap s pp) = some_opt (hdr MsgPong 0 ChanControl s, pp))
   \<and> (BuildInvalidateRef cap s i \<noteq> [] \<longrightarrow>
      parse_with (\<lambda>_. ParseInvalidateRef) (BuildInvalidateRef cap s i) = some_opt (hdr MsgInvalidateRef 0 ChanControl s, i))
   \<and> (BuildFeedback cap s fb \<noteq> [] \<longrightarrow> parse_with (\<lambda>_. ParseFeedback) (BuildFeedback cap s fb) = some_opt (hdr MsgFeedback 0 ChanControl s, fb))
   \<and> (BuildReconfig cap s rc \<noteq> [] \<longrightarrow> parse_with (\<lambda>_. ParseReconfig) (BuildReconfig cap s rc) = some_opt (hdr MsgReconfig 0 ChanControl s, rc))
   \<and> (BuildSetFocus cap s foc \<noteq> [] \<longrightarrow> parse_with (\<lambda>_. ParseSetFocus) (BuildSetFocus cap s foc) = some_opt (hdr MsgSetFocus 0 ChanControl s, foc))
   \<and> (BuildNack cap s i idxs \<noteq> [] \<longrightarrow> length idxs \<le> n \<longrightarrow>
      parse_with (\<lambda>_ p. ParseNack p n) (BuildNack cap s i idxs) = some_opt (hdr MsgNack 0 ChanControl s, (i, idxs)))
   \<and> (BuildInputEvents cap s q evs \<noteq> [] \<longrightarrow> length evs \<le> n \<longrightarrow>
      parse_with (\<lambda>_ p. ParseInputEvents p n) (BuildInputEvents cap s q evs)
        = some_opt (hdr MsgInputEvent 0 ChanInput s, (q, map seen_event evs)))
   \<and> (BuildClipboardChunk cap s ck \<noteq> [] \<longrightarrow>
      parse_with (\<lambda>_. ParseClipboardChunk) (BuildClipboardChunk cap s ck) = some_opt (hdr MsgClipboard 0 ChanControl s, ck))
   \<and> (BuildAudioPacket cap s ah pl \<noteq> [] \<longrightarrow>
      parse_with (\<lambda>_. ParseAudioPacket) (BuildAudioPacket cap s ah pl)
        = some_opt (hdr MsgAudioPacket 0 ChanAudio s, \<lparr>ap_hdr = ah, ap_payload = pl\<rparr>))"
  by (intro conjI impI; rule SourceList_roundtrip Ping_roundtrip Pong_roundtrip InvalidateRef_roundtrip Feedback_roundtrip Reconfig_roundtrip SetFocus_roundtrip
    Nack_roundtrip InputEvents_roundtrip ClipboardChunk_roundtrip AudioPacket_roundtrip; assumption)

theorem control_messages_round_trip_witness:
  "parse_with (\<lambda>_ p. ParseNack p 4) (BuildNack 64 5 6 [1, 2]) = some_opt (hdr MsgNack 0 ChanControl 5, (6, [1, 2]))"
proof -
  have "BuildNack 64 5 6 [1, 2] \<noteq> []" by (simp add: BuildNack_def finish_def kconsts)
  then show ?thesis using control_messages_round_trip [where cap = 64 and s = 5 and i = 6 and idxs = "[1, 2]" and n = 4] by simp
qed

text \<open>
  C14. Every batch of files a sender accepts to offer, its names no longer than a stored name may
  be, ends, at a receiver that is idle, accepting, at its default limits and whose callbacks
  succeed, with both sides done and every file stored, in the order offered, under its cleaned
  name and with its size and content, however short the single reads are; as many chunks as there
  are bytes and files are enough.
\<close>

theorem batch_arrives_whole:
  assumes "fst (fs_Offer scb s b files)" "fr_inv r f" "fr_accepting r" "\<not> fr_Busy r" "fr_limits r = default_limits"
    and "reads scb contents" "willing rcb" "\<forall>x\<in>set files. length (tf_name x) \<le> kMaxSafeNameBytes"
    and "map length contents = map (\<lambda>x. unat (tf_size x)) files" "sum_list (map (\<lambda>c. length c + 1) contents) \<le> n"
  shows "\<exists>s' r' out. exchange scb rcb s r b files n = Some (s', r', out) \<and> fs_state s' = FsDone \<and> fr_state r' = FrDone
    \<and> snd (folder_run f out) = snd f @ map2 (\<lambda>x c. (SafeFileName (tf_name x), tf_size x, c)) files contents"
  using exchange_complete [OF assms(1-3) _ assms(5-10)] assms(4) by (simp add: fr_Busy_def)

theorem batch_arrives_whole_witness:
  "\<exists>scb rcb. let files = [\<lparr>tf_size = 3, tf_name = bytes_of ''a/b.txt''\<rparr>, \<lparr>tf_size = 0, tf_name = bytes_of ''c''\<rparr>];
       r = fr_init\<lparr>fr_accepting := True\<rparr>
   in \<exists>s' r' out. exchange scb rcb fs_init r 7 files 5 = Some (s', r', out) \<and> fs_state s' = FsDone \<and> fr_state r' = FrDone
     \<and> snd (folder_run (None, []) out) = [(SafeFileName (bytes_of ''a/b.txt''), 3, [1, 2, 3]), (SafeFileName (bytes_of ''c''), 0, [])]"
proof -
  let ?files = "[\<lparr>tf_size = 3, tf_name = bytes_of ''a/b.txt''\<rparr>, \<lparr>tf_size = 0, tf_name = bytes_of ''c''\<rparr>]"
  let ?r = "fr_init\<lparr>fr_accepting := True\<rparr>"
  let ?contents = "[[1, 2, 3], []] :: bytes list"
  define scb :: FileSenderCallbacks where
    "scb = \<lparr>fs_send = \<lambda>m. True, fs_read = \<lambda>i off want. take 1 (drop (unat off) (?contents ! unat i))\<rparr>"
  define rcb :: FileReceiverCallbacks where "rcb = \<lparr>fr_open = \<lambda>i n z. n @ [0], fr_write = \<lambda>i d. True, fr_close = \<lambda>i k. True\<rparr>"
  have offer: "fst (fs_Offer scb fs_init 7 ?files)" unfolding scb_def by code_simp
  have inv: "fr_inv ?r (None, [])" by (simp add: fr_inv_def fr_init_def fr_shape_def kept_whole_def)
  have reads: "reads scb ?contents" unfolding reads_def scb_def
    by (auto simp: less_Suc_eq unat_of_nat numeral_3_eq_3 intro!: exI [of _ "1::nat"])
  have willing: "willing rcb" by (simp add: willing_def rcb_def)
  have names: "\<forall>x\<in>set ?files. length (tf_name x) \<le> kMaxSafeNameBytes" by (simp add: bytes_of_def kMaxSafeNameBytes_def)
  from batch_arrives_whole [OF offer inv _ _ _ reads willing names, of 5] show ?thesis
    by (intro exI [of _ scb] exI [of _ rcb]) (simp add: fr_init_def fr_Busy_def)
qed

text \<open>
  C15. Whatever messages, mode switches and link losses reach the receiver of files, and however
  its callbacks fail, it reads no vector out of range; every file it keeps has a name that cannot
  leave the folder, is within the size limit and has exactly the number of bytes it was offered
  with; no file is left open unless a batch is being received.
\<close>

theorem stored_files_are_as_offered:
  "\<exists>r f outs. run_ops folder_receiver (fr_init, (None, [])) xs = Some ((r, f), outs)
    \<and> list_all (\<lambda>(name, sz, d). safe_name name \<and> sz \<le> kMaxTransferFileBytes \<and> length d = unat sz) (snd f)
    \<and> (fr_Busy r \<or> fst f = None)"
proof -
  obtain r f outs where run: "run_ops folder_receiver (fr_init, (None, [])) xs = Some ((r, f), outs)" and inv: "fr_inv r f"
    using file_receiver.run_safe [of "(fr_init, (None, []))" xs] fr_init_inv by auto
  then have "list_all (\<lambda>(name, sz, d). safe_name name \<and> sz \<le> kMaxTransferFileBytes \<and> length d = unat sz) (snd f)"
    by (auto simp: fr_inv_def kept_whole_def list_all_iff)
  then show ?thesis using run inv by (auto simp: fr_inv_def fr_Busy_def split: if_splits)
qed

text \<open>
  C16. As long as fewer than 2^32 events have been queued: the datagrams a client sends for the
  events it queues, whatever the order of events and flushes, each carry a run of them; a final
  flush has brought out every event. Whatever of these datagrams the host gets, in any order and
  with repetitions, it applies events as they were made, each at most once and in their order;
  when none overtakes another, exactly those that some datagram brought, so that a lost datagram
  loses nothing a later one repeats.
\<close>

theorem input_survives_loss:
  assumes "length (queued xs) < 2 ^ 32"
  shows "\<exists>s outs ivs. run_ops sender_step sn_init xs = Some (s, outs) \<and> list_all2 (carries (queued xs)) (concat outs) ivs
    \<and> (\<forall>now. xs \<noteq> [] \<longrightarrow> last xs = SenderFlush now True \<longrightarrow> covered ivs = {..<length (queued xs)})
    \<and> (\<forall>arrived. set arrived \<subseteq> {..<length (concat outs)} \<longrightarrow>
        (\<exists>r' idxs. receive_input rc_init (map ((!) (concat outs)) arrived) = Some (r', map (\<lambda>i. seen_event (queued xs ! i)) idxs)
          \<and> sorted_wrt (<) idxs \<and> set idxs \<subseteq> covered (map ((!) ivs) arrived)
          \<and> (sorted arrived \<longrightarrow> set idxs = covered (map ((!) ivs) arrived))))"
proof -
  obtain s outs ivs L where run: "run_ops sender_step sn_init xs = Some (s, outs)" "sn_inv (queued xs) s"
    "list_all2 (carries (queued xs)) (concat outs) ivs" "advances (0, 0) ivs (L, sn_sent (queued xs) s)"
    "\<forall>now. xs \<noteq> [] \<longrightarrow> last xs = SenderFlush now True \<longrightarrow> sn_unsent s = 0"
    using sender_run_carries [OF sn_init_inv, of 0 xs] by (auto simp: sn_sent_def sn_init_def)
  have "covered ivs = {..<length (queued xs)}" if "xs \<noteq> []" "last xs = SenderFlush now True" for now
    by (rule covered_all [OF run(4,3)]) (use run(5) that in \<open>simp add: sn_sent_def\<close>)
  then show ?thesis using run(1,3) input_arrival [OF run(3,4) assms]
    by (intro exI [of _ s] exI [of _ outs] exI [of _ ivs]) blast
qed

theorem input_survives_loss_witness:
  "\<exists>s outs ivs. run_ops sender_step sn_init [SenderQueue (KeyEvent 65 30 True 1), SenderFlush 1 True, SenderQueue (KeyEvent 65 30 False 2), SenderFlush 2 True] = Some (s, outs)
    \<and> covered ivs = {..<2} \<and> list_all2 (carries [KeyEvent 65 30 True 1, KeyEvent 65 30 False 2]) (concat outs) ivs"
proof -
  let ?e = "KeyEvent 65 30 True 1" and ?f = "KeyEvent 65 30 False 2"
  let ?xs = "[SenderQueue ?e, SenderFlush 1 True, SenderQueue ?f, SenderFlush 2 True]"
  have q: "queued ?xs = [?e, ?f]" by simp
  have few: "length (queued ?xs) < 2 ^ 32" unfolding q by simp
  have ends: "?xs \<noteq> []" "last ?xs = SenderFlush 2 True" by simp_all
  obtain s outs ivs where ok: "run_ops sender_step sn_init ?xs = Some (s, outs)" "list_all2 (carries (queued ?xs)) (concat outs) ivs"
    "\<forall>now. ?xs \<noteq> [] \<longrightarrow> last ?xs = SenderFlush now True \<longrightarrow> covered ivs = {..<length (queued ?xs)}"
    using input_survives_loss [OF few] by (elim exE conjE)
  have "length (queued ?xs) = 2" unfolding q by simp
  then have "covered ivs = {..<2}" using ok(3) ends by metis
  with ok(1,2) show ?thesis unfolding q by (intro exI conjI)
qed

text \<open>
  C17. Whatever keys, chords, typed characters, mouse buttons and releases are put into the
  client's queue, once it has released everything and its delayed releases have come due, no key
  and no button is held at the host, provided each virtual key always stands for the same side of
  the keyboard; and an event that arrives while the local user is active presses nothing and, at
  the first one, lets everything go.
\<close>

theorem no_key_stays_pressed:
  assumes "\<forall>x\<in>set xs. one_side side x" "queue_run iq_init xs = (out, q)" "\<forall>d\<in>set (iq_delayed q). fst d \<le> late"
    and "iq_Drain (iq_ReleaseAll q now) late = (rest, q')"
  shows "pt_nothingHeld (fst (host_applies mapvk (pt_init, []) (out @ rest)))
    \<and> (pt_suppressed (fst st) \<or> pt_nothingHeld (fst (snd (DispatchInput mapvk st e True))))
    \<and> held_keys (fst (snd (DispatchInput mapvk st e True))) \<subseteq> held_keys (fst st)
    \<and> held_buttons (fst (snd (DispatchInput mapvk st e True))) \<subseteq> held_buttons (fst st)"
  using everything_released [OF assms] local_user_wins [of mapvk st e "fst (DispatchInput mapvk st e True)" "snd (DispatchInput mapvk st e True)"]
  by auto

theorem no_key_stays_pressed_witness:
  "let (out, q) = queue_run iq_init [QueueKey 65 30 True 0, QueueMouseButton 1 True 0, QueueCharTap 66 0];
       (rest, q') = iq_Drain (iq_ReleaseAll q 5) 60000
   in out @ rest \<noteq> [] \<and> pt_nothingHeld (fst (host_applies (\<lambda>_. 0) (pt_init, []) (out @ rest)))
     \<and> pt_nothingHeld (fst (snd (DispatchInput (\<lambda>_. 0) (pt_init, []) (KeyEvent 65 30 True 0) True)))"
proof -
  let ?xs = "[QueueKey 65 30 True 0, QueueMouseButton 1 True 0, QueueCharTap 66 0]"
  obtain out q where run: "queue_run iq_init ?xs = (out, q)" by (cases "queue_run iq_init ?xs")
  obtain rest q' where drain: "iq_Drain (iq_ReleaseAll q 5) 60000 = (rest, q')" by (cases "iq_Drain (iq_ReleaseAll q 5) 60000")
  have side: "\<forall>x\<in>set ?xs. one_side (\<lambda>vk. key_side vk 30) x" by simp
  have "list_all (\<lambda>d. fst d \<le> 60000) (iq_delayed (snd (queue_run iq_init ?xs)))" by code_simp
  then have late: "\<forall>d\<in>set (iq_delayed q). fst d \<le> 60000" using run by (simp add: list_all_iff)
  have "fst (iq_Drain (iq_ReleaseAll (snd (queue_run iq_init ?xs)) 5) 60000) \<noteq> []" by code_simp
  then have "rest \<noteq> []" using run drain by simp
  then show ?thesis
    using no_key_stays_pressed [OF side run late drain, of "\<lambda>_. 0" "(pt_init, [])" "KeyEvent 65 30 True 0"] run drain by (simp add: pt_init_def)
qed

text \<open>
  C18. Whatever packets, ticks, kicks, offers and settings the screen sessions of a host take, in
  any order, each operation returns; together they never hold more than five viewers, the budget
  they share is exactly the number held, every session's state is the one its viewers call for,
  and the addresses it publishes to the senders are those of its viewers, each once.
\<close>

theorem host_keeps_its_viewers:
  "\<exists>taken ss outs. run_ops screen_host_step (0, map (\<lambda>p. hs_init p None) offers) xs = Some ((taken, ss), outs)
    \<and> sum_list (map (\<lambda>s. card (active_slots (hs_viewers s))) ss) \<le> 5
    \<and> taken = of_nat (sum_list (map (\<lambda>s. card (active_slots (hs_viewers s))) ss))
    \<and> list_all (\<lambda>s. hs_state s = (if active_slots (hs_viewers s) = {} then HostIdle
          else if vt_anyStarted (hs_viewers s) then HostStreaming else HostReady)
        \<and> distinct (SnapshotAddrs (hs_viewers s) kMaxViewersPerSource)
        \<and> set (SnapshotAddrs (hs_viewers s) kMaxViewersPerSource) = (\<lambda>i. vs_addrPacked (hs_slot s i)) ` active_slots (hs_viewers s)) ss"
proof -
  have "screen_host_inv (0, map (\<lambda>p. hs_init p None) offers)"
    using hs_init_inv by (auto simp: screen_host_inv_def viewers_of_def o_def hs_init_def vt_SetHostBudget_def vt_init_def)
  from screen_host.run_safe [OF this, of xs] obtain taken ss outs where
    run: "run_ops screen_host_step (0, map (\<lambda>p. hs_init p None) offers) xs = Some ((taken, ss), outs)" and inv: "screen_host_inv (taken, ss)" by auto
  have each: "\<forall>s\<in>set ss. hs_inv s" using inv by (simp add: screen_host_inv_def)
  have "map (\<lambda>s. card (active_slots (hs_viewers s))) ss = map (\<lambda>s. vt_count (hs_viewers s)) ss"
    using each count_active(1) by (simp add: hs_inv_def)
  then have few: "sum_list (map (\<lambda>s. card (active_slots (hs_viewers s))) ss) = viewers_of ss" unfolding viewers_of_def by (rule arg_cong)
  have total: "viewers_of ss \<le> 5" "taken = of_nat (viewers_of ss)" using inv by (simp_all add: screen_host_inv_def kMaxViewersPerHost_def)
  have shown: "list_all (\<lambda>s. hs_state s = (if active_slots (hs_viewers s) = {} then HostIdle
          else if vt_anyStarted (hs_viewers s) then HostStreaming else HostReady)
        \<and> distinct (SnapshotAddrs (hs_viewers s) kMaxViewersPerSource)
        \<and> set (SnapshotAddrs (hs_viewers s) kMaxViewersPerSource) = (\<lambda>i. vs_addrPacked (hs_slot s i)) ` active_slots (hs_viewers s)) ss"
    unfolding list_all_iff using each hs_inv_shown by blast
  show ?thesis by (intro exI conjI, rule run) (use total shown in \<open>simp_all add: few\<close>)
qed

text \<open>
  C19. A client that the host does not know yet, by its address or its id, and that greets a host
  with room for it, which for its first viewer can draw a session id, is answered with what the
  host offers, asks for the stream, and both reach the streaming state with one session id, its
  address among those the host sends to; greeting again when the answer was lost brings the same
  answer and no second place.
\<close>

theorem viewer_is_connected:
  assumes inv: "hs_inv s" and a: "a \<noteq> 0" "vt_Find (hs_viewers s) a = None" "vt_FindByClient (hs_viewers s) (hello_clientId m) = None"
    and room: "has_room (hs_viewers s)" and id: "vt_count (hs_viewers s) = 0 \<longrightarrow> fst (BeginSession random s)"
  shows "\<exists>c0 hi s1 pre ack s1' c1 st s2 start. cl_Start c m t0 = (c0, [ClSend hi])
    \<and> hs_HandlePacket random s hi t1 a = Some (True, s1, pre @ [HsSend ack])
    \<and> hs_HandlePacket random' s1 hi t2 a = Some (True, s1', [HsSend ack]) \<and> vt_count (hs_viewers s1') = vt_count (hs_viewers s1)
    \<and> cl_HandlePacket c0 ack t3 = Some (True, c1, [ClReady (offered s), ClSend st])
    \<and> hs_HandlePacket random' s1 st t4 a = Some (True, s2, [start]) \<and> start \<in> {HsStart, HsKeyframeRequest}
    \<and> hs_state s2 = HostStreaming \<and> a \<in> set (SnapshotAddrs (hs_viewers s2) kMaxViewersPerSource)
    \<and> cl_state (NotifyVideoPacket c1 t5) = ClientStreaming \<and> cl_sessionId (NotifyVideoPacket c1 t5) = hs_sessionId s2 \<and> hs_sessionId s2 \<noteq> 0"
proof -
  let ?hi = "BuildHello kMaxDatagram m" and ?c0 = "c\<lparr>cl_hello := m, cl_state := ClientHello, cl_startedUs := t0, cl_lastRecvUs := t0, cl_lastSentUs := t0\<rparr>"
  obtain s1 pre i where s1: "hs_HandlePacket random s ?hi t1 a = Some (True, s1, pre @ [HsSend (greeting s1)])"
    and inv1: "hs_inv s1" and sid: "hs_sessionId s1 \<noteq> 0" "hs_offer s1 = hs_offer s"
    and i: "i \<in> active_slots (hs_viewers s1)" "vs_addrPacked (hs_slot s1 i) = a" "vs_clientId (hs_slot s1 i) = hello_clientId m" "\<not> vs_started (hs_slot s1 i)"
    using new_viewer [OF inv a room id, of t1] by blast
  from known_viewer [OF inv1 i(1-3)] obtain s1' where s1': "hs_HandlePacket random' s1 ?hi t2 a = Some (True, s1', [HsSend (greeting s1)])"
    "vt_count (hs_viewers s1') = vt_count (hs_viewers s1)" by blast
  have "cl_state ?c0 = ClientHello" by simp
  from client_accepts [OF this, of "\<lparr>ack_sessionId = hs_sessionId s1, ack_width = sp_width (hs_offer s1), ack_height = sp_height (hs_offer s1),
      ack_fps = sp_fps (hs_offer s1), ack_bitrateBps = sp_bitrateBps (hs_offer s1), ack_rejected = False, ack_reason = RejectNone\<rparr>" t3]
  obtain c1 where c1: "cl_HandlePacket ?c0 (greeting s1) t3 = Some (True, c1, [ClReady (offered s), ClSend (BuildStart kMaxDatagram (hs_sessionId s1))])"
    "cl_state c1 = ClientStarting" "cl_sessionId c1 = hs_sessionId s1"
    by (auto simp: offered_def sid(2))
  obtain s2 where s2: "hs_HandlePacket random' s1 (BuildStart kMaxDatagram (hs_sessionId s1)) t4 a
      = Some (True, s2, [if hs_state s1 = HostStreaming then HsKeyframeRequest else HsStart])"
    "hs_state s2 = HostStreaming" "hs_sessionId s2 = hs_sessionId s1" "vt_published (hs_viewers s2) = vt_published (hs_viewers s1)"
    using start_streams [OF inv1 i(1,4,2)] by blast
  have "SnapshotAddrs (hs_viewers s2) kMaxViewersPerSource = SnapshotAddrs (hs_viewers s1) kMaxViewersPerSource"
    using s2(4) by (simp add: SnapshotAddrs_def)
  then have shown: "a \<in> set (SnapshotAddrs (hs_viewers s2) kMaxViewersPerSource)" using hs_inv_shown(3) [OF inv1] i(1,2) by force
  have "cl_Start c m t0 = (?c0, [ClSend ?hi])" using BuildHello_sent by (simp add: cl_Start_def SendHello_def cl_Send_def)
  then show ?thesis using s1 s1' c1 s2 shown sid(1)
    by (intro exI conjI) (assumption | simp add: NotifyVideoPacket_def)+
qed

theorem viewer_is_connected_witness:
  "let s = hs_init \<lparr>sp_width = 1920, sp_height = 1080, sp_fps = 60, sp_bitrateBps = 8000000\<rparr> None; m = cl_hello cl_init in
   \<exists>s1 pre ack s2 st start. hs_HandlePacket (Some (0, 0, 0, 7)) s (BuildHello kMaxDatagram m) 5 9 = Some (True, s1, pre @ [HsSend ack])
    \<and> hs_HandlePacket None s1 st 6 9 = Some (True, s2, [start]) \<and> hs_state s2 = HostStreaming \<and> 9 \<in> set (SnapshotAddrs (hs_viewers s2) kMaxViewersPerSource)"
proof -
  let ?s = "hs_init \<lparr>sp_width = 1920, sp_height = 1080, sp_fps = 60, sp_bitrateBps = 8000000\<rparr> None"
  have free: "vt_Find (hs_viewers ?s) 9 = None" "vt_FindByClient (hs_viewers ?s) (hello_clientId (cl_hello cl_init)) = None"
    "has_room (hs_viewers ?s)" "vt_count (hs_viewers ?s) = 0 \<longrightarrow> fst (BeginSession (Some (0, 0, 0, 7)) ?s)"
    by (simp_all add: fresh_host BeginSession_def)
  have nz: "(9 :: u64) \<noteq> 0" by simp
  have start: "cl_Start cl_init m 4 = (c0, [ClSend hi]) \<Longrightarrow> hi = BuildHello kMaxDatagram m" for m c0 hi
    using BuildHello_sent by (simp add: cl_Start_def SendHello_def cl_Send_def)
  show ?thesis unfolding Let_def using viewer_is_connected [OF hs_init_inv nz free, of cl_init 4 5 None 6 6 6 7] start by metis
qed

text \<open>
  C20. A client that the host does not know yet, by its address or its id, and that greets a host,
  able to draw a session id when it has no viewer of its own, whose places, or the places of whose
  source, are all taken gets an answer that ends its session with the reason that the host is
  full, and takes no place; what the host holds does not change.
\<close>

theorem refused_viewer_hears_why:
  assumes inv: "hs_inv s" and a: "a \<noteq> 0" "vt_Find (hs_viewers s) a = None" "vt_FindByClient (hs_viewers s) (hello_clientId m) = None"
    and room: "\<not> has_room (hs_viewers s)" and id: "vt_count (hs_viewers s) = 0 \<longrightarrow> fst (BeginSession random s)"
  shows "\<exists>c0 hi s1 answer c1. cl_Start c m t0 = (c0, [ClSend hi])
    \<and> hs_HandlePacket random s hi t1 a = Some (False, s1, [HsSend answer]) \<and> hs_viewers s1 = hs_viewers s \<and> hs_state s1 = hs_state s
    \<and> cl_HandlePacket c0 answer t2 = Some (False, c1, [ClDisconnect (bytes_of ''the host already has as many viewers as it can take'') EndRejected])
    \<and> cl_state c1 = ClientDead"
proof -
  let ?c0 = "c\<lparr>cl_hello := m, cl_state := ClientHello, cl_startedUs := t0, cl_lastRecvUs := t0, cl_lastSentUs := t0\<rparr>"
  have "cl_state ?c0 = ClientHello" by simp
  from client_refused [OF this, of t2] obtain answer c1 where c1: "SendReject RejectBusy = [HsSend answer]"
    "cl_HandlePacket ?c0 answer t2 = Some (False, c1, [ClDisconnect (bytes_of ''the host already has as many viewers as it can take'') EndRejected])"
    "cl_state c1 = ClientDead" by blast
  have "cl_Start c m t0 = (?c0, [ClSend (BuildHello kMaxDatagram m)])" using BuildHello_sent by (simp add: cl_Start_def SendHello_def cl_Send_def)
  then show ?thesis using full_host [OF inv a room id, of t1] c1 by (metis (no_types))
qed

theorem refused_viewer_hears_why_witness:
  "\<exists>s1 answer. hs_HandlePacket (Some (0, 0, 0, 7)) (hs_init \<lparr>sp_width = 1920, sp_height = 1080, sp_fps = 60, sp_bitrateBps = 8000000\<rparr> (Some 5))
     (BuildHello kMaxDatagram (cl_hello cl_init)) 5 9 = Some (False, s1, [HsSend answer])"
proof -
  let ?s = "hs_init \<lparr>sp_width = 1920, sp_height = 1080, sp_fps = 60, sp_bitrateBps = 8000000\<rparr> (Some 5)"
  have free: "vt_Find (hs_viewers ?s) 9 = None" "vt_FindByClient (hs_viewers ?s) (hello_clientId (cl_hello cl_init)) = None"
    "\<not> has_room (hs_viewers ?s)" "vt_count (hs_viewers ?s) = 0 \<longrightarrow> fst (BeginSession (Some (0, 0, 0, 7)) ?s)"
    by (simp_all add: fresh_host BeginSession_def kconsts)
  have nz: "(9 :: u64) \<noteq> 0" by simp
  have start: "cl_Start cl_init m 4 = (c0, [ClSend hi]) \<Longrightarrow> hi = BuildHello kMaxDatagram m" for m c0 hi
    using BuildHello_sent by (simp add: cl_Start_def SendHello_def cl_Send_def)
  show ?thesis using refused_viewer_hears_why [OF hs_init_inv nz free, of cl_init 4 5 6] start by metis
qed



text \<open>
  C22. A tick drops exactly the viewers from whom nothing has come for more than five seconds,
  leaves the others as they were, and the state of the session is afterwards the one the remaining
  viewers call for.
\<close>

theorem silent_viewers_are_dropped:
  assumes inv: "hs_inv s" and tick: "hs_Tick s now = (s', out)"
  shows "active_slots (hs_viewers s') = {i \<in> active_slots (hs_viewers s). \<not> now - vs_lastRecvUs (hs_slot s i) > 5000000}
    \<and> (\<forall>j\<in>active_slots (hs_viewers s'). hs_slot s' j = hs_slot s j)
    \<and> hs_state s' = (if active_slots (hs_viewers s') = {} then HostIdle else if vt_anyStarted (hs_viewers s') then HostStreaming else HostReady)"
  using Tick_exact [OF inv tick] Tick_keeps [OF inv tick] hs_inv_shown(1) [of s'] by (simp add: silent_def kconsts hs_keeps_def)

theorem silent_viewers_are_dropped_witness:
  "\<exists>s s' out. active_slots (hs_viewers s) \<noteq> {} \<and> hs_Tick s 5000006 = (s', out) \<and> active_slots (hs_viewers s') = {} \<and> hs_state s' = HostIdle"
proof -
  let ?s = "hs_init \<lparr>sp_width = 1920, sp_height = 1080, sp_fps = 60, sp_bitrateBps = 8000000\<rparr> None"
  have nz: "(9 :: u64) \<noteq> 0" by simp
  have free: "has_room (hs_viewers ?s)" "vt_count (hs_viewers ?s) = 0 \<longrightarrow> fst (BeginSession (Some (0, 0, 0, 7)) ?s)"
    by (simp_all add: fresh_host BeginSession_def)
  from new_viewer [OF hs_init_inv nz fresh_host(1,2) free, of "cl_hello cl_init" 5] obtain s1 i out1 where
    one: "hs_HandlePacket (Some (0, 0, 0, 7)) ?s (BuildHello kMaxDatagram (cl_hello cl_init)) 5 9 = Some (True, s1, out1 @ [HsSend (greeting s1)])"
    and inv: "hs_inv s1" "i \<in> active_slots (hs_viewers s1)" "vt_count (hs_viewers s1) = Suc (vt_count (hs_viewers ?s))" "vs_lastRecvUs (hs_slot s1 i) = 5" by blast
  have "card (active_slots (hs_viewers s1)) = 1" using count_active(1) [of "hs_viewers s1"] inv(1,3)
    by (simp add: hs_inv_def hs_init_def vt_SetHostBudget_def vt_init_def)
  then have all: "active_slots (hs_viewers s1) = {i}" using inv(2) by (auto simp: card_1_singleton_iff)
  obtain s2 out where two: "hs_Tick s1 5000006 = (s2, out)" by (cases "hs_Tick s1 5000006")
  have "active_slots (hs_viewers s2) = {}" "hs_state s2 = HostIdle"
    using silent_viewers_are_dropped [OF inv(1) two] all inv(4) by auto
  then show ?thesis using all two by blast
qed

text \<open>
  C23. Whatever a client session has been through, it is in a state where every further operation
  returns; a tick ends it exactly when a greeting has been unanswered for ten seconds or nothing
  has come from the host for five, and a session that has ended sends nothing more and stays ended
  until it is started again.
\<close>

theorem client_is_not_left_waiting:
  "\<exists>c outs. run_ops client_step cl_init xs = Some (c, outs)
    \<and> (\<exists>c' out. cl_Tick c now = Some (c', out) \<and> (cl_state c' = ClientDead \<longleftrightarrow> cl_state c = ClientDead
        \<or> cl_state c = ClientHello \<and> now - cl_startedUs c > 10000000
        \<or> cl_state c \<in> {ClientStarting, ClientStreaming} \<and> now - cl_lastRecvUs c > 5000000))
    \<and> (cl_state c = ClientDead \<longrightarrow> (\<exists>c' outs. run_ops client_step c (filter (\<lambda>x. \<not> starts x) ys) = Some (c', outs)
        \<and> cl_state c' = ClientDead \<and> (\<forall>m. ClSend m \<notin> set (concat outs))))"
proof -
  obtain c outs where run: "run_ops client_step cl_init xs = Some (c, outs)" and inv: "cl_inv c"
    using screen_client.run_safe [OF cl_init_inv, of xs] by auto
  have "gives_up c now \<longleftrightarrow> cl_state c = ClientHello \<and> now - cl_startedUs c > 10000000
        \<or> cl_state c \<in> {ClientStarting, ClientStreaming} \<and> now - cl_lastRecvUs c > 5000000"
    by (auto simp: gives_up_def kconsts split: ClientState.splits)
  then show ?thesis using run cl_Tick_ends [OF inv, of now] dead_client_is_silent [OF inv, of "filter (\<lambda>x. \<not> starts x) ys"]
    by (auto simp: list_all_iff)
qed

theorem client_is_not_left_waiting_witness:
  "\<exists>c outs c' more. run_ops client_step cl_init [ClientStart (cl_hello cl_init) 1, ClientTick 10000002] = Some (c, outs) \<and> cl_state c = ClientDead
    \<and> run_ops client_step c [ClientVideo 10000003, ClientTick 10000004, ClientBye] = Some (c', more) \<and> cl_state c' = ClientDead
    \<and> (\<forall>m. ClSend m \<notin> set (concat more))"
proof -
  let ?xs = "[ClientStart (cl_hello cl_init) 1, ClientTick 10000002]" and ?ys = "[ClientVideo 10000003, ClientTick 10000004, ClientBye]"
  obtain c outs where run: "run_ops client_step cl_init ?xs = Some (c, outs)"
    and dead: "cl_state c = ClientDead \<longrightarrow> (\<exists>c' outs. run_ops client_step c (filter (\<lambda>x. \<not> starts x) ?ys) = Some (c', outs)
        \<and> cl_state c' = ClientDead \<and> (\<forall>m. ClSend m \<notin> set (concat outs)))"
    using client_is_not_left_waiting [of ?xs 5 ?ys] by blast
  have ended: "cl_state c = ClientDead" using run by (auto simp: cl_Start_def cl_Tick_def cl_Die_def kHelloGiveUpUs_def Let_def)
  have "filter (\<lambda>x. \<not> starts x) ?ys = ?ys" by simp
  then show ?thesis using run ended dead by metis
qed

text \<open>
  C24. A screen of any requested size and history limit takes any sequence of writes of any bytes,
  resizes, resets and taken answers without an access outside its grid. Afterwards the size is a
  valid one, the grid has exactly that many rows and columns, the cursor is on it, the scroll
  region is a range of its rows, the history holds at most kMaxScrollback rows and the title at
  most kMaxTitleBytes; no answer taken on the way is longer than kMaxResponseBytes.
\<close>

theorem terminal_screen_keeps_its_shape:
  "\<exists>s outs. run_ops screen_step (sc_init z limit) ops = Some (s, outs)
     \<and> IsValidTermSize (sc_size s)
     \<and> length (sc_grid s) = Rows s \<and> list_all (\<lambda>row. length row = Cols s) (sc_grid s)
     \<and> cu_row (sc_cursor s) < Rows s \<and> cu_col (sc_cursor s) < Cols s
     \<and> sc_scrollTop s \<le> sc_scrollBottom s \<and> sc_scrollBottom s < Rows s
     \<and> length (sc_scrollback s) \<le> kMaxScrollback \<and> length (sc_title s) \<le> kMaxTitleBytes
     \<and> list_all (\<lambda>t. length t \<le> kMaxResponseBytes) outs"
proof -
  obtain s outs where run: "run_ops screen_step (sc_init z limit) ops = Some (s, outs)" "sc_inv s"
    "list_all2 (\<lambda>_ t. length t \<le> kMaxResponseBytes) ops outs"
    using terminal_screen.run_safe [OF sc_init_ok] by blast
  have "list_all (\<lambda>t. length t \<le> kMaxResponseBytes) outs" using run(3) by (induction rule: list_all2_induct) simp_all
  moreover have "list_all (\<lambda>row. length row = Cols s) (sc_grid s)"
    using run(2) by (simp add: sc_inv_def sc_wf_def grid_ok_def row_ok_def list_all_iff)
  ultimately show ?thesis using run(1,2) by (auto simp: sc_inv_def sc_wf_def grid_ok_def)
qed

text \<open>
  C25. The bytes RenderScreen makes of a screen, written to a viewer's screen of the same size,
  make it show the same: the same cells in every row and column, the same pen, modes, scroll
  region, character sets and choice of the alternate screen. Both screens may have been through
  any writes, resizes, resets and taken answers before, so the viewer may stand in the middle of
  an escape sequence or of a character. The title is carried when it is not empty, the cursor when
  origin mode is off or the cursor stands inside the scroll region; a pending wrap at the end of a
  row is not carried.
\<close>

theorem repaint_is_read_back:
  assumes "run_ops screen_step (sc_init z limit) ops = Some (shot, outs)"
    and "run_ops screen_step (sc_init z' limit') ops' = Some (viewer, outs')"
    and "sc_size viewer = sc_size shot"
  shows "\<exists>bs viewer'. RenderScreen shot = Some bs \<and> sc_Write bs viewer = Some viewer'
    \<and> sc_size viewer' = sc_size shot \<and> sc_grid viewer' = sc_grid shot \<and> sc_pen viewer' = sc_pen shot
    \<and> sc_modes viewer' = sc_modes shot \<and> sc_alternate viewer' = sc_alternate shot
    \<and> sc_scrollTop viewer' = sc_scrollTop shot \<and> sc_scrollBottom viewer' = sc_scrollBottom shot
    \<and> sc_graphicsG0 viewer' = sc_graphicsG0 shot \<and> sc_graphicsG1 viewer' = sc_graphicsG1 shot
    \<and> sc_shiftedOut viewer' = sc_shiftedOut shot \<and> (sc_title shot \<noteq> [] \<longrightarrow> sc_title viewer' = sc_title shot)
    \<and> (\<not> mo_origin (sc_modes shot) \<or> sc_scrollTop shot \<le> cu_row (sc_cursor shot) \<and> cu_row (sc_cursor shot) \<le> sc_scrollBottom shot
       \<longrightarrow> sc_cursor viewer' = sc_cursor shot)"
proof -
  have "sc_inv shot" "sc_inv viewer" using assms(1,2) by (auto intro: terminal_screen.run_inv(1) [OF sc_init_ok])
  from repaint_shows [OF this assms(3)] show ?thesis unfolding shown_def cursor_in_reach_def prod.inject by blast
qed

theorem repaint_is_read_back_witness:
  "let sz = \<lparr>ts_cols = 4, ts_rows = 2\<rparr>;
       shot = fst (the (run_ops screen_step (sc_init sz 10) [ScreenWrite (bytes_of ''ab'')]));
       viewer = fst (the (run_ops screen_step (sc_init sz 10) [ScreenWrite (kEsc # bytes_of ''[3'')]))
   in map (map ce_ch) (sc_grid shot) = [[0x61, 0x62, 0x20, 0x20], [0x20, 0x20, 0x20, 0x20]]
     \<and> (\<exists>bs viewer'. RenderScreen shot = Some bs \<and> sc_Write bs viewer = Some viewer' \<and> sc_grid viewer' = sc_grid shot
        \<and> sc_cursor viewer' = sc_cursor shot)"
proof -
  let ?sz = "\<lparr>ts_cols = 4, ts_rows = 2\<rparr>"
  let ?s = "sc_init ?sz 10"
  let ?a = "bytes_of ''ab''" and ?b = "kEsc # bytes_of ''[3''"
  have parser: "sc_parser ?s = vp_init" by (simp add: sc_init_def Let_def)
  have a: "Parse vp_init ?a = (vp_init, [EmitPrint 0x61, EmitPrint 0x62])"
    by (simp add: bytes_of_def Consume.simps ConsumeGround.simps ground_lead_def vp_init_def kEsc_def kDel_def)
  have clamped: "ClampTermSize ?sz = ?sz" by (simp add: ClampTermSize_def kconsts)
  have four: "replicate 4 x = [x, x, x, x]" "replicate 2 y = [y, y]" for x :: Cell and y :: "Cell list"
    by (simp_all add: numeral_eq_Suc)
  have grid: "sc_grid ?s = [[cell_init, cell_init, cell_init, cell_init], [cell_init, cell_init, cell_init, cell_init]]"
    unfolding sc_init_def Let_def clamped by (simp add: four)
  have at: "sc_size ?s = ?sz" "sc_cursor ?s = cursor_init" "sc_modes ?s = modes_init" "\<not> sc_shiftedOut ?s" "\<not> sc_graphicsG0 ?s" "\<not> sc_pendingWrap ?s"
    unfolding sc_init_def Let_def clamped by simp_all
  have "\<exists>shot. sc_Write ?a ?s = Some shot \<and> sc_size shot = ?sz \<and> \<not> mo_origin (sc_modes shot)
      \<and> map (map ce_ch) (sc_grid shot) = [[0x61, 0x62, 0x20, 0x20], [0x20, 0x20, 0x20, 0x20]]"
    unfolding sc_Write_def parser a
    by (simp add: grid at bytes_of_def EmitPrint_def sc_Apply_def sc_Print_def put_glyph_def on_grid_def set_row_def put_cell_def vec_at_def
      Cols_def cursor_init_def modes_init_def cell_init_def)
  then obtain shot where shot: "sc_Write ?a ?s = Some shot" "sc_size shot = ?sz" "\<not> mo_origin (sc_modes shot)"
    "map (map ce_ch) (sc_grid shot) = [[0x61, 0x62, 0x20, 0x20], [0x20, 0x20, 0x20, 0x20]]" by (elim exE conjE) (rule that)
  have "\<exists>p. Parse vp_init ?b = (p, [])"
    by (simp add: bytes_of_def Consume.simps consume_escape_def consume_csi_def flush_utf8_def vp_init_def kEsc_def kDel_def IsParamByte_def)
  then obtain viewer where viewer: "sc_Write ?b ?s = Some viewer" "sc_size viewer = ?sz"
    by (auto simp: sc_Write_def parser at)
  have "run_ops screen_step ?s [ScreenWrite ?a] = Some (shot, [[]])" "run_ops screen_step ?s [ScreenWrite ?b] = Some (viewer, [[]])"
    using shot(1) viewer(1) by simp_all
  from repaint_is_read_back [OF this] this shot viewer(2) show ?thesis by (auto simp: Let_def)
qed

text \<open>
  C26. It does not matter how the output of a program is cut into writes, even in the middle of a
  character or an escape sequence: from any screen, writing the pieces one after the other gives
  the very screen that one write of the whole gives, its parser, history, title and answers
  included, or leaves the grid when that does; only the count of writes, the revision, may differ.
\<close>

theorem screen_ignores_chunking:
  "map_option (\<lambda>(s', _). s'\<lparr>sc_revision := 0\<rparr>) (run_ops screen_step s (map ScreenWrite chunks))
     = map_option (\<lambda>s'. s'\<lparr>sc_revision := 0\<rparr>) (sc_Write (concat chunks) s)"
  using writes_in_pieces [of s chunks] by (simp add: comp_def case_prod_beta' uncounted_def [abs_def])

text \<open>
  C27. Along any sequence of issues, uses, expiries and clears of the host's pairing tokens, a
  token is accepted at most as many times as it was issued: a token issued once opens the host at
  most once.
\<close>

theorem pairing_token_used_once:
  assumes "\<forall>x\<in>set xs. token_legal x" "length p = kPairingTokenBytes"
  shows "\<exists>ts rs. run_ops token_step [] xs = Some (ts, rs) \<and> pt_inv ts
     \<and> sum_list (map2 (consumes_of p) xs rs) \<le> sum_list (map (issues_of p) xs)"
proof -
  have "pt_inv []" by (simp add: pt_inv_def)
  with tokens.run_safe [of "[]" xs] assms(1) obtain ts rs
    where run: "run_ops token_step [] xs = Some (ts, rs)" "pt_inv ts" by blast
  then show ?thesis using run_uses [of "[]" xs ts rs p] assms \<open>pt_inv []\<close> by auto
qed

theorem pairing_token_used_once_witness:
  "let p = replicate 32 (7 :: u8); xs = [TokenIssue p 400 100, TokenConsume p 200, TokenConsume p 201] in
   \<exists>ts rs. run_ops token_step [] xs = Some (ts, rs) \<and> sum_list (map2 (consumes_of p) xs rs) \<le> sum_list (map (issues_of p) xs)"
  using pairing_token_used_once [of "[TokenIssue (replicate 32 7) 400 100, TokenConsume (replicate 32 7) 200, TokenConsume (replicate 32 7) 201]"
    "replicate 32 7"]
  unfolding Let_def by (auto simp: kPairingTokenBytes_def)

text \<open>
  C28. After any history of the limiter, a peer without a record that fails three times, each
  failure no later than the window after the one before, is still let in before the third and
  refused after it exactly until the cooldown has passed; and each of the three failures leaves
  the record of every other peer as it was, provided the table had a free entry.
\<close>

theorem failed_attempts_lock_out:
  assumes run: "run_ops limiter_step fl_init xs = Some (es, rs)" and fresh: "fl_peer es key ip = None"
    and order: "t1 \<le> t2" "t2 \<le> t3" "t2 - t1 \<le> kAuthFailureWindowUs" "t3 - t2 \<le> kAuthFailureWindowUs"
  shows "fl_Allow (fl_RecordFailure (fl_RecordFailure es key ip t1) key ip t2) key ip t3
    \<and> (fl_Allow (fl_RecordFailure (fl_RecordFailure (fl_RecordFailure es key ip t1) key ip t2) key ip t3) key ip now
       \<longleftrightarrow> t3 + kAuthFailureCooldownUs \<le> now)
    \<and> ((key', ip') \<noteq> (key, ip) \<longrightarrow> (\<exists>e\<in>set es. \<not> fl_occupied e) \<longrightarrow>
       list_all (\<lambda>es'. fl_peer es' key' ip' = fl_peer es key' ip')
         [fl_RecordFailure es key ip t1, fl_RecordFailure (fl_RecordFailure es key ip t1) key ip t2,
          fl_RecordFailure (fl_RecordFailure (fl_RecordFailure es key ip t1) key ip t2) key ip t3])"
proof (intro conjI impI)
  have wf: "fl_wf es" using limiter.run_inv(1) [OF init_wf _ run] by simp
  show "fl_Allow (fl_RecordFailure (fl_RecordFailure es key ip t1) key ip t2) key ip t3"
    by (rule two_failures_allow [OF wf fresh])
  show "fl_Allow (fl_RecordFailure (fl_RecordFailure (fl_RecordFailure es key ip t1) key ip t2) key ip t3) key ip now
       \<longleftrightarrow> t3 + kAuthFailureCooldownUs \<le> now"
    by (rule three_failures_block [OF wf fresh order])
  assume other: "(key', ip') \<noteq> (key, ip)" and "\<exists>e\<in>set es. \<not> fl_occupied e"
  then have 1: "fl_peer (fl_RecordFailure es key ip t1) key' ip' = fl_peer es key' ip'"
    by (intro RecordFailure_others [OF wf]) simp_all
  have again: "fl_peer (fl_RecordFailure (fl_RecordFailure e key ip t) key ip u) key' ip' = fl_peer (fl_RecordFailure e key ip t) key' ip'"
    if "fl_wf e" for e t u
    by (rule RecordFailure_others [OF RecordFailure_wf [OF that] other]) (simp add: RecordFailure_peer [OF that])
  show "list_all (\<lambda>es'. fl_peer es' key' ip' = fl_peer es key' ip')
         [fl_RecordFailure es key ip t1, fl_RecordFailure (fl_RecordFailure es key ip t1) key ip t2,
          fl_RecordFailure (fl_RecordFailure (fl_RecordFailure es key ip t1) key ip t2) key ip t3]"
    using 1 again [OF wf] again [OF RecordFailure_wf [OF wf]] by simp
qed

theorem failed_attempts_lock_out_witness:
  "let k = replicate 32 (1 :: u8); other = replicate 32 (2 :: u8); es = fl_RecordFailure fl_init other 5 10 in
   fl_Allow (fl_RecordFailure (fl_RecordFailure (fl_RecordFailure es k 9 100) k 9 200) k 9 300) k 9 1000
     \<longleftrightarrow> 300 + kAuthFailureCooldownUs \<le> 1000"
proof -
  let ?k = "replicate 32 (1 :: u8)" and ?o = "replicate 32 (2 :: u8)"
  have run: "run_ops limiter_step fl_init [LimiterFail ?o 5 10] = Some (fl_RecordFailure fl_init ?o 5 10, [()])" by simp
  have "?k \<noteq> ?o" by (simp add: eval_nat_numeral)
  then have "fl_peer (fl_RecordFailure fl_init ?o 5 10) ?k 9 = fl_peer fl_init ?k 9"
    by (intro RecordFailure_others init_wf disjI2 bexI [of _ entry_empty])
      (auto simp: fl_init_def entry_empty_def kAuthFailureSlots_def)
  also have "\<dots> = None"
    by (auto simp: fl_peer_None fl_init_def is_for_def entry_empty_def)
  finally show ?thesis
    using failed_attempts_lock_out [OF run, of ?k 9 100 200 300 1000]
    unfolding Let_def by (simp add: kAuthFailureWindowUs_def)
qed

text \<open>
  C29. The bytes a client or a host signs determine the role, the session, the client's key and
  the host's fingerprint: two transcripts that are not refused and are equal, their session ids
  and fingerprints of 32 bytes, were made from the same four values, so a signature cannot be
  moved to another session, key, host or direction.
\<close>

theorem transcript_binds_every_field:
  assumes "AuthTranscript r s k h = AuthTranscript r' s' k' h'" "AuthTranscript r s k h \<noteq> []"
    "length s = kAuthSessionIdBytes" "length s' = kAuthSessionIdBytes"
    "length h = kFingerprintBytes" "length h' = kFingerprintBytes"
  shows "r = r' \<and> s = s' \<and> k = k' \<and> h = h'"
  using assms by (rule AuthTranscript_inj)

theorem transcript_binds_every_field_witness:
  "let s = replicate 32 (3 :: u8); h = replicate 32 (4 :: u8) in
   AuthTranscript RoleClient s [1, 2] h \<noteq> []
   \<and> AuthTranscript RoleHost s [1, 2] h \<noteq> AuthTranscript RoleClient s [1, 2] h
   \<and> AuthTranscript RoleClient s [1, 3] h \<noteq> AuthTranscript RoleClient s [1, 2] h"
proof -
  let ?s = "replicate 32 (3 :: u8)" and ?h = "replicate 32 (4 :: u8)"
  have made: "AuthTranscript r ?s [1, x] ?h \<noteq> []" if "r = RoleClient \<or> r = RoleHost" for r x
    using that by (auto simp: AuthTranscript_def AppendField_def IsZero_def kMaxAuthBlobBytes_def Let_def list_all_iff)
  have binds: "r = RoleClient \<and> x = 2" if "r = RoleClient \<or> r = RoleHost" "AuthTranscript r ?s [1, x] ?h = AuthTranscript RoleClient ?s [1, 2] ?h" for r x
    using transcript_binds_every_field [OF that(2) made [OF that(1)]] by (simp add: kAuthSessionIdBytes_def kFingerprintBytes_def)
  show ?thesis unfolding Let_def using made [of RoleClient 2] binds [of RoleHost 2] binds [of RoleClient 3] by auto
qed

text \<open>
  C30. Reading an invite never reads outside its record, whatever the text; what the formatter
  writes for an invite it accepts is read back as the same invite.
\<close>

theorem pairing_invite_is_read_back:
  "ParsePairingInvite s \<noteq> None
   \<and> (FormatPairingInvite v \<noteq> [] \<longrightarrow> length (pi_hostKey v) = 32 \<longrightarrow> length (pi_token v) = 32
       \<longrightarrow> ParsePairingInvite (FormatPairingInvite v) = some_opt v)"
  using ParsePairingInvite_safe FormatPairingInvite_read by blast

theorem pairing_invite_is_read_back_witness:
  "let v = \<lparr>pi_endpoints = [\<lparr>pe_ip = 0x0A000001, pe_port = 47820\<rparr>], pi_hostKey = replicate 32 1,
     pi_token = replicate 32 2, pi_hostName = bytes_of ''host''\<rparr> in
   ParsePairingInvite (FormatPairingInvite v) = some_opt v"
proof -
  let ?v = "\<lparr>pi_endpoints = [\<lparr>pe_ip = 0x0A000001, pe_port = 47820\<rparr>], pi_hostKey = replicate 32 1,
     pi_token = replicate 32 2, pi_hostName = bytes_of ''host''\<rparr>"
  have "ValidHostName (pi_hostName ?v)" by code_simp
  then have "FormatPairingInvite ?v \<noteq> []"
    by (simp add: FormatPairingInvite_def ValidEndpoints_def IsZero_def kMaxPairingEndpoints_def kPairingInvitePrefix_def
          bytes_of_def Let_def list_all_iff)
  from pairing_invite_is_read_back [of "[]" ?v] this show ?thesis unfolding Let_def by simp
qed

text \<open>
  C31. A list of trusted hosts that keeps the store's invariant, in which every host has an
  endpoint, a 32-byte fingerprint and times that are not negative, is read back from the text that
  saves it exactly, by the lenient and by the strict reader: none of these hosts is lost, merged
  or changed by a restart. (A host without an endpoint is not written.)
\<close>

theorem trust_store_survives_restart:
  assumes "trust_ok hosts" "\<forall>h\<in>set hosts. persistent h"
  shows "ParseTrustStore (SerializeTrustStore hosts) = hosts \<and> ParseTrustStoreStrict (SerializeTrustStore hosts) = Some hosts"
  using TrustStore_roundtrip [OF assms] TrustStore_strict_roundtrip [OF assms] by simp

theorem trust_store_survives_restart_witness:
  "let h = \<lparr>th_fingerprint = replicate 32 1, th_label = bytes_of ''my host'', th_endpoint = bytes_of ''10.0.0.1:47820'',
     th_firstSeenUnix = 5, th_lastSeenUnix = 6\<rparr> in ParseTrustStore (SerializeTrustStore [h]) = [h]"
proof -
  let ?h = "\<lparr>th_fingerprint = replicate 32 1, th_label = bytes_of ''my host'', th_endpoint = bytes_of ''10.0.0.1:47820'',
     th_firstSeenUnix = 5, th_lastSeenUnix = 6\<rparr>"
  have 1: "clean_label (th_label ?h)" "clean_endpoint (th_endpoint ?h)" by (code_simp, code_simp)
  then have "trust_ok [?h] \<and> (\<forall>h\<in>set [?h]. persistent h)"
    by (simp add: trust_ok_def host_ok_def persistent_def IsZero_def int64_max_def bytes_of_def kMaxTrustedHosts_def list_all_iff)
  then show ?thesis using trust_store_survives_restart [of "[?h]"] unfolding Let_def by blast
qed



text \<open>
  C33. The decoder accepts exactly the texts the encoder writes, with or without padding, and
  gives back the bytes they were made from: no other text stands for those bytes.
\<close>

theorem base64_is_canonical:
  "DecodeBase64 s al = Some bs \<longleftrightarrow> bs \<noteq> [] \<and> s \<in> {EncodeBase64 bs al NoPadding, EncodeBase64 bs al Equals}"
proof
  assume dec: "DecodeBase64 s al = Some bs"
  then have "s \<noteq> []" by (auto simp: DecodeBase64_def)
  moreover have "EncodeBase64 [] al p = []" for p by (cases p) (simp_all add: EncodeBase64_def pad_equals.simps)
  ultimately show "bs \<noteq> [] \<and> s \<in> {EncodeBase64 bs al NoPadding, EncodeBase64 bs al Equals}"
    using Base64_canonical [OF dec] by auto
next
  assume "bs \<noteq> [] \<and> s \<in> {EncodeBase64 bs al NoPadding, EncodeBase64 bs al Equals}"
  then show "DecodeBase64 s al = Some bs" using Base64_roundtrip by blast
qed

text \<open>
  C34. The table-driven checksum equals bitwise division by the CRC-32 polynomial, may be fed in
  pieces, and differs for two contents that differ only within four consecutive bytes: such damage
  of a transferred file never goes unnoticed.
\<close>

theorem crc_detects_damage:
  assumes "length w \<le> 4" "length w' = length w" "w \<noteq> w'"
  shows "crc_Update c (xs @ w @ ys) = crc_serial c (xs @ w @ ys)
    \<and> crc_Update c (xs @ w @ ys) = crc_Update (crc_Update c xs) (w @ ys)
    \<and> crc_Value (crc_Update crc_Reset (xs @ w @ ys)) \<noteq> crc_Value (crc_Update crc_Reset (xs @ w' @ ys))"
  using crc_detects_burst [OF assms] crc_Update_serial crc_Update_append by simp

theorem crc_detects_damage_witness:
  "crc_Value (crc_Update crc_Reset [1, 2, 3, 4]) \<noteq> crc_Value (crc_Update crc_Reset [1, 9, 3, 4])"
  using crc_detects_damage [of "[2]" "[9]" 0 "[1]" "[3, 4]"] by simp

text \<open>
  C35. A name under which a received file is stored, made from any bytes that leave a name at all,
  is never empty, holds no path separator, control character or character Windows forbids, fits
  the limit, does not end in a dot or a space and may travel in an offer; when the bytes were a
  name an offer may carry, the stored name is no device name and is made again from itself.
\<close>

theorem received_names_stay_in_their_folder:
  assumes "SafeFileName s \<noteq> []"
  shows "safe_name (SafeFileName s) \<and> IsWireLegalFileName (SafeFileName s)
    \<and> (IsWireLegalFileName s \<longrightarrow> \<not> IsReservedDeviceName (SafeFileName s) \<and> SafeFileName (SafeFileName s) = SafeFileName s)"
proof -
  have safe: "safe_name (SafeFileName s)" by (rule SafeFileName_safe [OF assms])
  have "\<not> IsReservedDeviceName (SafeFileName s)" if "IsWireLegalFileName s"
    using that assms by (intro SafeFileName_not_reserved)
      (simp_all add: IsWireLegalFileName_def kMaxTransferNameBytes_def kMaxSafeNameBytes_def)
  then show ?thesis using safe safe_name_legal SafeFileName_id by blast
qed

theorem received_names_stay_in_their_folder_witness:
  "SafeFileName (bytes_of ''../con.txt'') = bytes_of ''_con.txt'' \<and> safe_name (bytes_of ''_con.txt'')"
proof -
  have eq: "SafeFileName (bytes_of ''../con.txt'') = bytes_of ''_con.txt''" by code_simp
  then have "SafeFileName (bytes_of ''../con.txt'') \<noteq> []" by (simp add: bytes_of_def)
  from received_names_stay_in_their_folder [OF this] eq show ?thesis by simp
qed

text \<open>
  C36. A text that OfferLocal takes, flushed while sending is enabled, is sent at once in chunks
  that, arriving in any order and any number of times each, none lost, at a receiver that holds no
  part of this revision and has taken no text of this or a later revision number, are put together
  exactly once to the offered text, cut at the limit; the receiver does not offer the received
  text back.
\<close>

theorem clipboard_arrives_whole:
  assumes "cs_inv s" "cs_OfferLocal s tx = (True, s1)" "snd (cs_Flush s1 now True) = ds"
    and "set is = {..<length ds}" "awaits (cs_revision s1) r"
  shows "\<exists>r'. receive_clipboard r (map ((!) ds) is) = Some (1, r')
    \<and> fst (cs_TakeCompleted r') = Some (TruncateClipboardText tx)
    \<and> cs_OfferLocal r' (TruncateClipboardText tx) = (False, r')"
proof -
  have ds: "ds = cs_SendAllChunks s1" using Flush_offered [OF assms(2)] assms(3) by simp
  from offered_arrives [OF assms(1,2,5) assms(4) [unfolded ds]] obtain r'
    where r': "receive_clipboard r (map ((!) ds) is) = Some (1, r')" "has_taken (TruncateClipboardText tx) (cs_revision s1) r'"
    unfolding ds by blast
  then show ?thesis using OfferLocal_echo [OF r'(2) length_Truncate] by (auto simp: cs_TakeCompleted_def has_taken_def)
qed

theorem clipboard_arrives_whole_witness:
  "let s1 = snd (cs_OfferLocal cs_init (bytes_of ''copied'')); d = snd (cs_Flush s1 7 True) ! 0 in
   \<exists>r'. receive_clipboard cs_init [d, d] = Some (1, r') \<and> fst (cs_TakeCompleted r') = Some (bytes_of ''copied'')"
proof -
  let ?s = "snd (cs_OfferLocal cs_init (bytes_of ''copied''))"
  have short: "TruncateClipboardText (bytes_of ''copied'') = bytes_of ''copied''" by (rule Truncate_short) (simp add: bytes_of_def kconsts)
  have offer: "cs_OfferLocal cs_init (bytes_of ''copied'') = (True, ?s)"
    using short by (simp add: cs_OfferLocal_def cs_init_def Let_def bytes_of_def)
  have rvn: "cs_revision ?s = 1" "cs_sendsLeft ?s = 3" "cs_outgoing ?s = bytes_of ''copied''"
    using short by (simp_all add: cs_OfferLocal_def cs_init_def Let_def bytes_of_def kconsts)
  have inv: "cs_inv ?s" using rvn by (simp add: cs_inv_def cs_OfferLocal_def cs_init_def Let_def bytes_of_def kconsts)
  have "length (snd (cs_Flush ?s 7 True)) = 1"
    using arg_cong [OF SendAllChunks_parsed [OF inv], of length] Flush_offered [OF offer] rvn(3)
    by (simp add: chunk_count_def bytes_of_def kconsts)
  then have "set [0, 0] = {..<length (snd (cs_Flush ?s 7 True))}" by auto
  note arrives = clipboard_arrives_whole [OF cs_init_inv offer refl this, of cs_init]
  have "awaits (cs_revision ?s) cs_init" using rvn(1) by (simp add: awaits_def not_taken_def cs_init_def)
  from arrives [OF this] show ?thesis unfolding short Let_def by (auto simp del: receive_clipboard.simps)
qed

text \<open>
  C37. After any history of a link, once it has been answered and its last answer is not later
  than the last look at it, for further looks at ascending times: the link is reported as stalled
  exactly when the silence since the last answer exceeds five seconds, where a gap between two
  looks counts for at most a quarter of a second. An answer that repeats none of the pings made so
  far changes nothing, the answer with number 0 and time 0 apart, which a slot never used takes
  for its own; a second copy of an answer changes nothing; the answer to the latest ping counts as
  a sign of life.
\<close>

theorem silence_counts_only_while_watched:
  assumes run: "run_ops pulse_step lp_init xs = Some (s, outs)" and "watching s" "lp_answeredOnce s" "sorted_wrt (<) (lp_lastTickUs s # ts)"
  shows "(lp_Stalled (foldl lp_Tick s ts) (last (lp_lastTickUs s # ts))
      \<longleftrightarrow> 5000000 < (unat (lp_lastTickUs s) - unat (lp_lastPongUs s)) + watched (lp_lastTickUs s) ts)
    \<and> (Some pong \<notin> set outs \<longrightarrow> pong \<noteq> \<lparr>pp_pingId = 0, pp_sendTimeUs = 0\<rparr> \<longrightarrow> lp_OnPong s pong t = Some s)
    \<and> (\<forall>s'. lp_OnPong s pong t = Some s' \<longrightarrow> s' \<noteq> s \<longrightarrow> lp_OnPong s' pong t' = Some s')
    \<and> (\<forall>ping s'. lp_MakePing s t = Some (ping, s') \<longrightarrow> t \<le> t' \<longrightarrow>
        (\<exists>s''. lp_OnPong s' ping t' = Some s'' \<and> lp_lastPongUs s'' = t'))"
proof -
  have inv: "lp_inv s" using pulse.run_inv(1) [OF lp_init_inv _ run] by simp
  show ?thesis
    using ticks_stalled [OF assms(2-4)] OnPong_not_asked [OF run, of pong t] OnPong_replay [OF inv, of pong t _ t']
      OnPong_answers [OF inv, of t _ _ t']
    by (auto simp: silence_def kLinkStallAfterUs_def)
qed

theorem silence_counts_only_while_watched_witness:
  "\<exists>s outs. run_ops pulse_step lp_init [PulsePing 400, PulsePong \<lparr>pp_pingId = 1, pp_sendTimeUs = 400\<rparr> 500, PulseTick 1000] = Some (s, outs)
   \<and> \<not> lp_Stalled (foldl lp_Tick s [90001000, 90002000]) 90002000
   \<and> lp_OnPong s \<lparr>pp_pingId = 2, pp_sendTimeUs = 400\<rparr> 1001 = Some s"
proof -
  let ?xs = "[PulsePing 400, PulsePong \<lparr>pp_pingId = 1, pp_sendTimeUs = 400\<rparr> 500, PulseTick 1000]"
  let ?r = "the (run_ops pulse_step lp_init ?xs)"
  have "run_ops pulse_step lp_init ?xs \<noteq> None \<and> lp_lastTickUs (fst ?r) = 1000 \<and> lp_lastPongUs (fst ?r) = 500 \<and> lp_answeredOnce (fst ?r)
    \<and> snd ?r = [Some \<lparr>pp_pingId = 1, pp_sendTimeUs = 400\<rparr>, None, None]" by code_simp
  then obtain s where run: "run_ops pulse_step lp_init ?xs = Some (s, [Some \<lparr>pp_pingId = 1, pp_sendTimeUs = 400\<rparr>, None, None])"
    and s: "lp_lastTickUs s = 1000" "lp_lastPongUs s = 500" "lp_answeredOnce s" by (cases "run_ops pulse_step lp_init ?xs") auto
  have "watching s" "sorted_wrt (<) (lp_lastTickUs s # [90001000, 90002000])" using s by (simp_all add: watching_def)
  note ok = silence_counts_only_while_watched [OF run this(1) s(3) this(2), of "\<lparr>pp_pingId = 2, pp_sendTimeUs = 400\<rparr>" 1001]
  have "\<not> lp_Stalled (foldl lp_Tick s [90001000, 90002000]) 90002000" using conjunct1 [OF ok] s by (simp add: kLinkWatchStepUs_def)
  moreover have "lp_OnPong s \<lparr>pp_pingId = 2, pp_sendTimeUs = 400\<rparr> 1001 = Some s" using conjunct1 [OF conjunct2 [OF ok]] by simp
  ultimately show ?thesis using run by blast
qed

text \<open>
  C38. After any sequence of operations on the shared terminals, short of exhausting the 32-bit
  numbers, there are at most eight, each with a valid size and one of the three states, their
  numbers differ, none is shared while sharing is off; and a request to open one leaves every
  terminal with an attached client as it was, takes over only the detached terminal it names, and
  otherwise uses a new number.
\<close>

theorem live_terminals_are_not_taken_over:
  assumes run: "run_ops terminal_step tm_init xs = Some (s, outs)" and few: "length xs + 2 < 2 ^ 32"
    and request: "tm_Open s request = (ack, s')"
  shows "tm_inv s \<and> distinct (map tr_termId (tm_records s))
    \<and> (\<forall>r\<in>set (tm_records s). tr_state r \<noteq> TermDetached \<longrightarrow> r \<in> set (tm_records s'))
    \<and> (toa_resumed ack \<longrightarrow> (\<exists>r\<in>set (tm_records s). tr_state r = TermDetached \<and> tr_termId r = toa_termId ack)
         \<and> toa_termId ack = to_resumeId (req_message request))
    \<and> (toa_reason ack = TermAccepted \<and> \<not> toa_resumed ack \<longrightarrow> toa_termId ack \<notin> tr_termId ` set (tm_records s))"
proof -
  have inv: "tm_inv s" by (rule terminals.run_inv(1) [OF tm_init_inv _ run]) simp
  have start: "ids_below tm_init" "0 < tm_nextId tm_init" "unat (tm_nextId tm_init) + length xs < 2 ^ 32"
    using few by (simp_all add: ids_below_def tm_init_def)
  note ids = run_ids [OF start run]
  have next_ok: "unat (tm_nextId s) + 1 < 2 ^ 32" using ids few by (simp add: tm_init_def)
  have step: "terminal_step s (TerminalOpen request) = Some (s', Some ack)" by (simp add: request)
  have found: "tm_Find s i = Some r \<Longrightarrow> r \<in> set (tm_records s) \<and> tr_termId r = i" for i r
    by (auto simp: tm_Find_def find_Some_iff)
  have "toa_termId ack \<notin> tr_termId ` set (tm_records s)" if "toa_reason ack = TermAccepted" "\<not> toa_resumed ack"
    using step_ids [OF conjunct1 [OF ids] step next_ok] ids that by (auto simp: ids_below_def)
  then show ?thesis using inv ids Open_live_untouched [OF request] Open_resume [OF request] found
    by (auto simp: ids_below_def) blast
qed

theorem live_terminals_are_not_taken_over_witness:
  "let s = tm_init\<lparr>tm_sharing := True, tm_nextId := 2, tm_records := [\<lparr>tr_termId = 1, tr_state = TermLive,
         tr_size = \<lparr>ts_cols = 80, ts_rows = 24\<rparr>, tr_clientName = [], tr_clientEndpoint = [],
         tr_clientFingerprint = replicate 32 7, tr_detachedUs = 0\<rparr>]\<rparr>;
       open_it = (\<lambda>i. \<lparr>req_message = \<lparr>to_size = \<lparr>ts_cols = 80, ts_rows = 24\<rparr>, to_resumeId = i, to_clientName = []\<rparr>,
         req_endpoint = [], req_fingerprint = replicate 32 7\<rparr>)
   in run_ops terminal_step tm_init [TerminalShare True, TerminalOpen (open_it 0)] = Some (s, [None, Some \<lparr>toa_termId = 1, toa_reason = TermAccepted, toa_resumed = False\<rparr>])
     \<and> hd (tm_records s) \<in> set (tm_records (snd (tm_Open s (open_it 1))))"
proof -
  let ?r = "\<lparr>tr_termId = 1, tr_state = TermLive, tr_size = \<lparr>ts_cols = 80, ts_rows = 24\<rparr>, tr_clientName = [],
     tr_clientEndpoint = [], tr_clientFingerprint = replicate 32 7, tr_detachedUs = 0\<rparr> :: TerminalRecord"
  let ?s = "tm_init\<lparr>tm_sharing := True, tm_nextId := 2, tm_records := [?r]\<rparr>"
  let ?o = "\<lambda>i. \<lparr>req_message = \<lparr>to_size = \<lparr>ts_cols = 80, ts_rows = 24\<rparr>, to_resumeId = i, to_clientName = []\<rparr>,
     req_endpoint = [], req_fingerprint = replicate 32 7\<rparr> :: TerminalOpenRequest"
  have run: "run_ops terminal_step tm_init [TerminalShare True, TerminalOpen (?o 0)]
    = Some (?s, [None, Some \<lparr>toa_termId = 1, toa_reason = TermAccepted, toa_resumed = False\<rparr>])"
    by (simp add: tm_init_def tm_SetSharing_def tm_Open_def Let_def ClampTermSize_def kconsts)
  have "hd (tm_records ?s) \<in> set (tm_records (snd (tm_Open ?s (?o 1))))"
    using live_terminals_are_not_taken_over [OF run _ prod.collapse [symmetric], of "?o 1"] by simp
  then show ?thesis using run by simp
qed

text \<open>
  C39. When the host accepts a terminal, its answer opens the client that waits for it under the
  host's number for a live terminal of the host; what is typed then reaches that terminal as
  typed, in order and whole, however it is cut into messages, and output sent to a terminal is
  shown by its own client only.
\<close>

theorem terminal_connects_both_sides:
  assumes "tc_state c = TcOpening \<or> tc_state c = TcReattaching" "tm_inv host"
    and "tm_Open host req = (ack, host')" "toa_reason ack = TermAccepted"
  shows "\<exists>c' out r. tc_HandleMessage c (BuildTermOpenAck kMaxRecordSize ack) = Some (c', out)
    \<and> tc_state c' = TcOpen \<and> r \<in> set (tm_records host') \<and> tr_termId r = tc_termId c' \<and> tr_state r = TermLive
    \<and> (\<forall>bs. delivered (tc_termId c') (snd (tc_SendInput c' bs)) = bs)
    \<and> (\<forall>i d. d \<noteq> [] \<longrightarrow> length d \<le> kMaxTermDataBytes \<longrightarrow>
         tc_HandleMessage c' (BuildTermData kMaxRecordSize i d) = Some (c', if i = tr_termId r then [TeOutput d] else []))"
proof -
  let ?c = "fst (on_open_ack c ack)"
  have both: "tc_HandleMessage c (BuildTermOpenAck kMaxRecordSize ack) = Some (?c, snd (on_open_ack c ack))"
    "tc_state ?c = TcOpen" "tc_termId ?c = toa_termId ack"
    using open_reaches_client [OF assms(1,3,2)] assms(4) by simp_all
  obtain r where "r \<in> set (tm_records host')" "tr_termId r = toa_termId ack" "tr_state r = TermLive"
    using open_reaches_client [OF assms(1,3,2)] assms(4) by auto
  moreover have "delivered (tc_termId ?c) (snd (tc_SendInput ?c bs)) = bs" for bs
    using both(2) send_input_delivered by (simp add: tc_SendInput_def)
  ultimately show ?thesis using both output_reaches_terminal [OF _ _ both(2)] by (metis (no_types, lifting))
qed

theorem terminal_connects_both_sides_witness:
  "let host = tm_init\<lparr>tm_sharing := True\<rparr>; sz = \<lparr>ts_cols = 80, ts_rows = 24\<rparr>;
       req = \<lparr>req_message = \<lparr>to_size = sz, to_resumeId = 0, to_clientName = []\<rparr>, req_endpoint = [], req_fingerprint = replicate 32 7\<rparr>;
       c = fst (tc_Open (tc_init sz) sz [])
   in \<exists>c' out r. tc_HandleMessage c (BuildTermOpenAck kMaxRecordSize (fst (tm_Open host req))) = Some (c', out)
     \<and> tc_state c' = TcOpen \<and> r \<in> set (tm_records (snd (tm_Open host req))) \<and> tr_termId r = tc_termId c'"
proof -
  let ?sz = "\<lparr>ts_cols = 80, ts_rows = 24\<rparr>" and ?host = "tm_init\<lparr>tm_sharing := True\<rparr>"
  let ?req = "\<lparr>req_message = \<lparr>to_size = ?sz, to_resumeId = 0, to_clientName = []\<rparr>, req_endpoint = [], req_fingerprint = replicate 32 7\<rparr>"
  have "tc_state (fst (tc_Open (tc_init ?sz) ?sz [])) = TcOpening" by (simp add: tc_Open_def tc_SendOpen_def)
  moreover have "tm_inv ?host" by (simp add: tm_inv_def tm_init_def)
  moreover have "toa_reason (fst (tm_Open ?host ?req)) = TermAccepted" by (simp add: tm_Open_def tm_init_def Let_def kconsts)
  ultimately show ?thesis
    using terminal_connects_both_sides [OF disjI1 _ prod.collapse [symmetric], of "fst (tc_Open (tc_init ?sz) ?sz [])" ?host ?req]
    by (metis (no_types, lifting))
qed

text \<open>
  C40. A refusal of the host leaves its terminals as they were and reaches the client that waits
  for an answer with the host's reason and nothing else; the client ends refused and forgets its
  terminal, except that a client coming back to a terminal the host does not count as detached yet
  stays ready to try again.
\<close>

theorem refused_terminals_report_why:
  assumes "tc_state c = TcOpening \<or> tc_state c = TcReattaching" "tm_inv host" "tc_inv c"
    and "tm_Open host req = (ack, host')" "toa_reason ack \<noteq> TermAccepted"
  shows "host' = host \<and> toa_termId ack = 0
    \<and> (\<exists>c'. tc_HandleMessage c (BuildTermOpenAck kMaxRecordSize ack) = Some (c', [TeRefused (toa_reason ack)])
        \<and> (if tc_state c = TcReattaching \<and> toa_reason ack = TermNoSuchSession
           then tc_CanReattach c' \<and> tc_termId c' = tc_termId c else tc_state c' = TcRefused \<and> tc_termId c' = 0))"
proof -
  have "host' = host" "toa_termId ack = 0"
    using assms(4,5) by (auto simp: tm_Open_def Refuse_def Let_def split: if_splits option.splits)
  moreover have "tc_HandleMessage c (BuildTermOpenAck kMaxRecordSize ack) = Some (on_open_ack c ack)"
    using open_reaches_client [OF assms(1,4,2)] by simp
  ultimately show ?thesis using assms(1,3,5) by (auto simp: on_open_ack_def Let_def tc_CanReattach_def tc_inv_def)
qed

theorem refused_terminals_report_why_witness:
  "let sz = \<lparr>ts_cols = 80, ts_rows = 24\<rparr>;
       req = \<lparr>req_message = \<lparr>to_size = sz, to_resumeId = 0, to_clientName = []\<rparr>, req_endpoint = [], req_fingerprint = replicate 32 7\<rparr>;
       c = fst (tc_Open (tc_init sz) sz [])
   in \<exists>c'. tc_HandleMessage c (BuildTermOpenAck kMaxRecordSize (fst (tm_Open tm_init req))) = Some (c', [TeRefused TermNotShared])"
proof -
  let ?sz = "\<lparr>ts_cols = 80, ts_rows = 24\<rparr>"
  let ?req = "\<lparr>req_message = \<lparr>to_size = ?sz, to_resumeId = 0, to_clientName = []\<rparr>, req_endpoint = [], req_fingerprint = replicate 32 7\<rparr>"
  let ?c = "fst (tc_Open (tc_init ?sz) ?sz [])"
  have "tc_state ?c = TcOpening" "tc_inv ?c" by (simp_all add: tc_Open_def tc_SendOpen_def tc_inv_def)
  moreover have "tm_Open tm_init ?req = (Refuse TermNotShared, tm_init)" by (simp add: tm_Open_def tm_init_def)
  ultimately show ?thesis
    using refused_terminals_report_why [OF disjI1 tm_init_inv, of ?c ?req "Refuse TermNotShared" tm_init]
    by (auto simp: Refuse_def)
qed

section \<open>Further results\<close>

text \<open>
  With the parity row of a group present, the recovery step restores exactly the one missing
  payload of the group, byte for byte, and counts it; it does nothing when none or more than one
  is missing.
\<close>

theorem recovery_restores_the_missing_piece:
  assumes "pending_ok f" "holds_part_of fr f" "pe_parity f g = Some p"
  shows "TryRecover st f g =
    (if length (missing_of f (unat g)) = 1
     then let j = hd (missing_of f (unat g)) in
       Some (st\<lparr>st_packetsRecovered := st_packetsRecovered st + 1\<rparr>,
             restore_piece f j (piece_at (sf_nal fr) j), True)
     else Some (st, f, False))"
  using assms by (rule TryRecover_exact)

theorem recovery_restores_the_missing_piece_witness:
  "\<exists>st f. TryRecover stats_zero
      ((pending_new 2 9 0)\<lparr>pe_parity := [0 \<mapsto> parity_of (replicate 1200 7) 0]\<rparr>) 0 = Some (st, f, False)"
proof -
  let ?fr = "\<lparr>sf_nal = replicate 1200 7, sf_timestampUs = 9, sf_idr = False\<rparr>"
  let ?f = "(pending_new 2 9 0)\<lparr>pe_parity := [0 \<mapsto> parity_of (replicate 1200 7) 0]\<rparr>"
  have n: "piece_count (replicate 1200 (7 :: u8)) = 2" "fec_groups 2 = 1" by (simp_all add: piece_count_def fec_groups_def kconsts)
  have ok: "pending_ok ?f" by (simp add: pending_ok_def pending_new_def kconsts)
  have part: "holds_part_of ?fr ?f" unfolding holds_part_of_def n
    by (auto simp: pending_new_def n)
  have "group_members 2 0 = [0, 1]" by (simp add: group_members_def n upt_rec)
  then have two: "length (missing_of ?f (unat (0 :: u8))) = 2"
    by (simp add: missing_of_def pending_new_def nth_replicate del: nth_replicate)
       (simp add: numeral_2_eq_2)
  have par: "pe_parity ?f 0 = Some (parity_of (replicate 1200 7) 0)" by simp
  show ?thesis
    using recovery_restores_the_missing_piece [OF ok part par, of stats_zero] two
    by (simp del: unat_0 unsigned_0)
qed

text \<open>
  What a receiver parses from each datagram of a sent frame is the piece, its index and count, and
  the frame's id, timestamp and flags; the same for each parity datagram and its group.
\<close>

theorem sent_packets_are_read_back:
  assumes "piece_count nal \<le> 0xFFFF" "i < piece_count nal"
    and "g < fec_groups (piece_count nal)" "fec_groups (piece_count nal) \<le> kMaxFecGroups"
  shows "parse_with ParseVideoPacket (video_datagram sid nal fid ts idr i)
      = some_opt (hdr MsgVideoPacket (video_flags idr (i + 1 = piece_count nal)) ChanVideo sid,
                  video_view nal fid ts idr i)
   \<and> parse_with ParseFecPacket (fec_datagram sid nal fid ts idr g)
      = some_opt (hdr MsgFecPacket (video_flags idr False) ChanVideo sid, fec_view nal fid ts idr g)"
  using parsed_video_datagram [OF assms(2,1)] parsed_fec_datagram [OF assms(3,4,1)] by simp

theorem sent_packets_are_read_back_witness:
  "parse_with ParseVideoPacket (video_datagram 4 [1, 2, 3] 7 100 True 0)
     = some_opt (hdr MsgVideoPacket (video_flags True True) ChanVideo 4, video_view [1, 2, 3] 7 100 True 0)"
proof -
  have n: "piece_count [1 :: u8, 2, 3] = 1" by (simp add: piece_count_def kconsts)
  have "0 < fec_groups (piece_count [1 :: u8, 2, 3])" "fec_groups (piece_count [1 :: u8, 2, 3]) \<le> kMaxFecGroups"
    unfolding n by (simp_all add: fec_groups_def kconsts)
  from sent_packets_are_read_back [OF _ _ this, of 0 4 7 100 True] show ?thesis
    unfolding n by simp
qed

text \<open>
  Along any run of stores, lookups and resets no lookup leaves a slot's buffer, and what a lookup
  returns is either nothing or a video datagram of exactly the frame and packet index asked for.
\<close>

theorem cache_serves_only_what_was_asked:
  "case run_ops cache_step rt_init xs of
     None \<Rightarrow> False
   | Some (c, rs) \<Rightarrow> list_all2 cache_out_ok xs rs"
  using cache.run_safe [OF cache_inv_init, of xs] by auto

text \<open>
  A name over the limit is cut at a character boundary of its UTF-8 text: what is sent is the
  longest run of whole characters that fits.
\<close>

theorem names_are_cut_between_characters:
  assumes "\<forall>c\<in>set cs. utf8_char c"
  shows "\<exists>k\<le>length cs. take (Utf8TruncLen (concat cs) n) (concat cs) = concat (take k cs)
           \<and> length (concat (take k cs)) \<le> n
           \<and> (k < length cs \<longrightarrow> n < length (concat (take (Suc k) cs)))"
  using sent_name_whole_chars [OF assms, of n] by (simp add: sent_name_def)

theorem names_are_cut_between_characters_witness:
  "\<exists>k\<le>length [[0x41 :: u8], [0xE3, 0x81, 0x82]].
     take (Utf8TruncLen (concat [[0x41 :: u8], [0xE3, 0x81, 0x82]]) 3) (concat [[0x41 :: u8], [0xE3, 0x81, 0x82]])
       = concat (take k [[0x41 :: u8], [0xE3, 0x81, 0x82]])"
proof -
  have "\<forall>c\<in>set [[0x41 :: u8], [0xE3, 0x81, 0x82]]. utf8_char c"
    by (simp add: utf8_char_def continuation_def)
  from names_are_cut_between_characters [OF this, of 3] show ?thesis by blast
qed

text \<open>
  After any history of the handshake deadlines, TakeDue hands out exactly the keys whose deadline
  has come, each once and in ascending order, forgets exactly those, and the deadline of a key
  that stays is never put off by a step.
\<close>

theorem deadlines_are_taken_once:
  assumes run: "run_ops deadline_step (ad_init n) xs = Some (d, rs)"
    and take: "ad_TakeDue d now = (due, d')"
  shows "set due = {k. ad_Due d k now} \<and> distinct due \<and> sorted due \<and> \<not> ad_Due d' k now
    \<and> (\<forall>x e out t t'. deadline_step d x = Some (e, out) \<longrightarrow> map_of (ad_deadlines d) k = Some t
       \<longrightarrow> map_of (ad_deadlines e) k = Some t' \<longrightarrow> t' \<le> t)"
proof (intro conjI allI impI)
  have wf: "om_wf (ad_deadlines d)" using deadlines.run_inv(1) [OF _ _ run] by (simp add: ad_init_def)
  note spec = TakeDue_spec [OF wf take]
  show "set due = {k. ad_Due d k now}" by (rule spec)
  show "distinct due" "sorted due" using spec(2) by (auto simp: strict_sorted_iff)
  show "\<not> ad_Due d' k now" using spec(4) by (auto simp: ad_Due_def split: option.splits if_splits)
  fix x e out t t'
  assume "deadline_step d x = Some (e, out)" "map_of (ad_deadlines d) k = Some t" "map_of (ad_deadlines e) k = Some t'"
  then show "t' \<le> t" by (rule deadline_never_later [OF wf])
qed

theorem deadlines_are_taken_once_witness:
  "\<exists>d. run_ops deadline_step (ad_init 2) [DeadlineAdmit 9 50, DeadlineHasten 9 40, DeadlineAdmit 3 70] = Some (d, [[], [], []])
     \<and> ad_TakeDue d 45 = ([9], \<lparr>ad_capacity = 2, ad_deadlines = [(3, 70)]\<rparr>) \<and> set [9 :: u64] = {k. ad_Due d k 45}"
proof -
  have run: "run_ops deadline_step (ad_init 2) [DeadlineAdmit 9 50, DeadlineHasten 9 40, DeadlineAdmit 3 70]
      = Some (\<lparr>ad_capacity = 2, ad_deadlines = [(3, 70), (9, 40)]\<rparr>, [[], [], []])"
    by (simp add: ad_init_def ad_Admit_def ad_Hasten_def)
  have take: "ad_TakeDue \<lparr>ad_capacity = 2, ad_deadlines = [(3, 70), (9, 40)]\<rparr> 45
      = ([9], \<lparr>ad_capacity = 2, ad_deadlines = [(3, 70)]\<rparr>)" by (simp add: ad_TakeDue_def)
  show ?thesis using run take deadlines_are_taken_once [OF run take] by blast
qed

text \<open>
  After any sequence of additions and removals of keys read from public key lines, the list of
  authorized keys holds each key once and at most the limit, and saving and reading it gives the
  same list.
\<close>

theorem authorized_keys_survive_restart:
  assumes "\<forall>x\<in>set xs. \<forall>k. x = KeyAdd k \<longrightarrow> (\<exists>s. ParsePublicKeyText s = Some k)"
  shows "\<exists>keys rs. run_ops key_list_step [] xs = Some (keys, rs) \<and> ak_inv keys
     \<and> ParseAuthorizedKeys (SerializeAuthorizedKeys keys) = Some keys"
proof -
  have "ak_inv []" by (simp add: ak_inv_def)
  then obtain keys rs where run: "run_ops key_list_step [] xs = Some (keys, rs)" "ak_inv keys"
    using key_list.run_safe [of "[]" xs] by auto
  then show ?thesis using AuthorizedKeys_roundtrip [OF run(2)] key_run_trimmed [OF _ _ run(1)] assms by simp
qed

theorem authorized_keys_survive_restart_witness:
  "let k = \<lparr>pk_algorithm = Ed25519, pk_blob = [0, 0, 0, 11] @ kEd25519 @ [0, 0, 0, 32] @ replicate 32 7, pk_label = []\<rparr> in
   \<exists>keys rs. run_ops key_list_step [] [KeyAdd k] = Some (keys, rs) \<and> rs = [True]
     \<and> ParseAuthorizedKeys (SerializeAuthorizedKeys keys) = Some keys"
proof -
  let ?k = "\<lparr>pk_algorithm = Ed25519, pk_blob = [0, 0, 0, 11] @ kEd25519 @ [0, 0, 0, 32] @ replicate 32 7, pk_label = []\<rparr>"
  have "ValidBlob ?k" by code_simp
  then have some: "FormatPublicKeyText ?k \<noteq> []" by (simp add: FormatPublicKeyText_def Let_def)
  have "Trim [] = []" by code_simp
  then have "ParsePublicKeyText (FormatPublicKeyText ?k) = Some ?k" using FormatPublicKeyText_read(1) [OF some] by simp
  then show ?thesis using authorized_keys_survive_restart [of "[KeyAdd ?k]"] some
    unfolding Let_def by (auto simp: ak_Add_def ak_Contains_def kMaxAuthorizedKeys_def)
qed

text \<open>
  The greeting and its answer, the start of authentication, the challenge, the response and the
  result come back from their parsers as they were built, names cut and cleaned, whenever the
  builder accepts them; for the answer to a greeting its reason is one of the two the protocol
  names.
\<close>

theorem handshake_messages_round_trip:
  "(BuildHello cap h \<noteq> [] \<longrightarrow> parse_with (\<lambda>_. ParseHello) (BuildHello cap h)
      = some_opt (hdr MsgHello 0 ChanControl 0, h\<lparr>hello_clientName := shown_name kMaxClientNameBytes (hello_clientName h)\<rparr>))
   \<and> (BuildHelloAck cap a \<noteq> [] \<longrightarrow> RejectReason_code (ack_reason a) \<le> 1 \<longrightarrow> parse_with (\<lambda>_. ParseHelloAck) (BuildHelloAck cap a)
      = some_opt (hdr MsgHelloAck 0 ChanControl 0, a\<lparr>ack_reason := RejectReason_of (RejectReason_code (ack_reason a))\<rparr>))
   \<and> (BuildAuthStart cap s \<noteq> [] \<longrightarrow> parse_with (\<lambda>_. ParseAuthStart) (BuildAuthStart cap s)
      = some_opt (hdr MsgAuthStart 0 ChanControl 0, s\<lparr>as_clientName := shown_name kMaxClientNameBytes (as_clientName s)\<rparr>))
   \<and> (BuildAuthChallenge cap ch \<noteq> [] \<longrightarrow> parse_with (\<lambda>_. ParseAuthChallenge) (BuildAuthChallenge cap ch)
      = some_opt (hdr MsgAuthChallenge 0 ChanControl 0, \<lparr>ac_mode = AuthMode_of (AuthMode_code (ac_mode ch))\<rparr>))
   \<and> (BuildAuthResponse cap r \<noteq> [] \<longrightarrow> parse_with (\<lambda>_. ParseAuthResponse) (BuildAuthResponse cap r)
      = some_opt (hdr MsgAuthResponse 0 ChanControl 0, r))
   \<and> (BuildAuthResult cap q \<noteq> [] \<longrightarrow> parse_with (\<lambda>_. ParseAuthResult) (BuildAuthResult cap q)
      = some_opt (hdr MsgAuthResult 0 ChanControl 0, \<lparr>ares_code = AuthResultCode_of (AuthResultCode_code (ares_code q))\<rparr>))"
  using Hello_roundtrip HelloAck_roundtrip AuthStart_roundtrip AuthChallenge_roundtrip AuthResponse_roundtrip AuthResult_roundtrip by blast

theorem handshake_messages_round_trip_witness:
  "parse_with (\<lambda>_. ParseAuthResponse) (BuildAuthResponse 64 \<lparr>ar_proof = [9, 8, 7]\<rparr>)
     = some_opt (hdr MsgAuthResponse 0 ChanControl 0, \<lparr>ar_proof = [9, 8, 7]\<rparr>)"
proof -
  have "BuildAuthResponse 64 \<lparr>ar_proof = [9, 8, 7]\<rparr> \<noteq> []"
    by (simp add: BuildAuthResponse_def finish_def kconsts)
  then show ?thesis
    using handshake_messages_round_trip [of 64 undefined undefined undefined undefined "\<lparr>ar_proof = [9, 8, 7]\<rparr>" undefined] by blast
qed

text \<open>
  The request to open a terminal, its answer, a resize, the exit code and the list of terminals
  come back from their parsers whenever the builder accepts them, with sizes clamped to what the
  protocol allows and the list cut to sixteen sessions; for the answer its reason is one the
  protocol names.
\<close>

theorem terminal_messages_round_trip:
  "(BuildTermOpen cap m \<noteq> [] \<longrightarrow> parse_with (\<lambda>_. ParseTermOpen) (BuildTermOpen cap m)
      = some_opt (hdr MsgTermOpen 0 ChanTerminal 0,
          m\<lparr>to_size := ClampTermSize (to_size m), to_clientName := shown_name kMaxClientNameBytes (to_clientName m)\<rparr>))
   \<and> (BuildTermOpenAck cap a \<noteq> [] \<longrightarrow> TermReason_code (toa_reason a) \<le> 3 \<longrightarrow> parse_with (\<lambda>_. ParseTermOpenAck) (BuildTermOpenAck cap a)
      = some_opt (hdr MsgTermOpenAck 0 ChanTerminal (toa_termId a), a\<lparr>toa_reason := TermReason_of (TermReason_code (toa_reason a))\<rparr>))
   \<and> (BuildTermResize cap i sz \<noteq> [] \<longrightarrow> parse_with (\<lambda>_. ParseTermResize) (BuildTermResize cap i sz)
      = some_opt (hdr MsgTermResize 0 ChanTerminal i, ClampTermSize sz))
   \<and> (BuildTermExit cap i e \<noteq> [] \<longrightarrow> parse_with (\<lambda>_. ParseTermExit) (BuildTermExit cap i e) = some_opt (hdr MsgTermExit 0 ChanTerminal i, e))
   \<and> (BuildTermListAck cap es \<noteq> [] \<longrightarrow> parse_with (\<lambda>_. ParseTermListAck) (BuildTermListAck cap es)
      = some_opt (hdr MsgTermListAck 0 ChanTerminal 0, map seen_term_entry (take kMaxTermListEntries es)))
   \<and> IsValidTermSize (ClampTermSize sz)"
  using TermOpen_roundtrip TermOpenAck_roundtrip TermResize_roundtrip TermExit_roundtrip TermListAck_roundtrip ClampTermSize_valid by blast

theorem terminal_messages_round_trip_witness:
  "parse_with (\<lambda>_. ParseTermResize) (BuildTermResize 64 5 \<lparr>ts_cols = 0, ts_rows = 30\<rparr>)
     = some_opt (hdr MsgTermResize 0 ChanTerminal 5, \<lparr>ts_cols = 1, ts_rows = 30\<rparr>)"
proof -
  have "BuildTermResize 64 5 \<lparr>ts_cols = 0, ts_rows = 30\<rparr> \<noteq> []" by (simp add: BuildTermResize_def finish_def kconsts Let_def WriteCommon_def)
  moreover have "ClampTermSize \<lparr>ts_cols = 0, ts_rows = 30\<rparr> = \<lparr>ts_cols = 1, ts_rows = 30\<rparr>"
    by (simp add: ClampTermSize_def kconsts)
  ultimately show ?thesis
    using terminal_messages_round_trip [where cap = 64 and i = 5 and sz = "\<lparr>ts_cols = 0, ts_rows = 30\<rparr>"] by metis
qed

text \<open>
  All messages of a file transfer come back from their parsers whenever the builder accepts them:
  an offer with every name and size; an acceptance, an acknowledgement and a cancellation whose
  reason is one the protocol names; a chunk that ends within the largest file the protocol allows;
  an end of file and an acknowledgement whose file index is below the protocol's maximum.
\<close>

theorem file_messages_round_trip:
  "(BuildFileOffer cap m \<noteq> [] \<longrightarrow> parse_with (\<lambda>_. ParseFileOffer) (BuildFileOffer cap m)
      = some_opt (hdr MsgFileOffer 0 ChanFile (fo_batchId m), m))
   \<and> (BuildFileAccept cap a \<noteq> [] \<longrightarrow> TransferReason_code (fa_reason a) \<le> 10 \<longrightarrow> parse_with (\<lambda>_. ParseFileAccept) (BuildFileAccept cap a)
      = some_opt (hdr MsgFileAccept 0 ChanFile (fa_batchId a), a\<lparr>fa_reason := TransferReason_of (TransferReason_code (fa_reason a))\<rparr>))
   \<and> (BuildFileChunk cap i x off d \<noteq> [] \<longrightarrow> unat off + length d \<le> unat kMaxTransferFileBytes \<longrightarrow>
      parse_with (\<lambda>_. ParseFileChunk) (BuildFileChunk cap i x off d)
      = some_opt (hdr MsgFileChunk 0 ChanFile i, \<lparr>fc_batchId = i, fc_fileIndex = x, fc_offset = off, fc_data = d\<rparr>))
   \<and> (BuildFileDone cap e \<noteq> [] \<longrightarrow> unat (fd_fileIndex e) < kMaxTransferFiles \<longrightarrow> parse_with (\<lambda>_. ParseFileDone) (BuildFileDone cap e)
      = some_opt (hdr MsgFileDone 0 ChanFile (fd_batchId e), e))
   \<and> (BuildFileAck cap l \<noteq> [] \<longrightarrow> unat (fk_fileIndex l) < kMaxTransferFiles \<longrightarrow> TransferReason_code (fk_reason l) \<le> 10 \<longrightarrow>
      parse_with (\<lambda>_. ParseFileAck) (BuildFileAck cap l)
      = some_opt (hdr MsgFileAck 0 ChanFile (fk_batchId l), l\<lparr>fk_reason := TransferReason_of (TransferReason_code (fk_reason l))\<rparr>))
   \<and> (BuildFileCancel cap k \<noteq> [] \<longrightarrow> TransferReason_code (fx_reason k) \<le> 10 \<longrightarrow> parse_with (\<lambda>_. ParseFileCancel) (BuildFileCancel cap k)
      = some_opt (hdr MsgFileCancel 0 ChanFile (fx_batchId k), k\<lparr>fx_reason := TransferReason_of (TransferReason_code (fx_reason k))\<rparr>))"
  using FileOffer_roundtrip FileAccept_roundtrip FileChunk_roundtrip FileDone_roundtrip FileAck_roundtrip FileCancel_roundtrip by blast

theorem file_messages_round_trip_witness:
  "parse_with (\<lambda>_. ParseFileDone) (BuildFileDone 64 \<lparr>fd_batchId = 5, fd_fileIndex = 1, fd_crc32 = 77\<rparr>)
     = some_opt (hdr MsgFileDone 0 ChanFile 5, \<lparr>fd_batchId = 5, fd_fileIndex = 1, fd_crc32 = 77\<rparr>)"
proof -
  have "BuildFileDone 64 \<lparr>fd_batchId = 5, fd_fileIndex = 1, fd_crc32 = 77\<rparr> \<noteq> []"
    by (simp add: BuildFileDone_def finish_def kconsts)
  then show ?thesis
    using file_messages_round_trip [where cap = 64 and e = "\<lparr>fd_batchId = 5, fd_fileIndex = 1, fd_crc32 = 77\<rparr>"]
    by (simp add: kconsts)
qed

end
